(* ===== verification/Prelude.thy ===== *)
theory Prelude
  imports Main "HOL-Library.Word" "HOL-Library.Monad_Syntax"
begin

unbundle bit_operations_syntax

text \<open>
  Shared ground of the development: the machine integer types of the C++ sources, the bit
  lists that the serialisation layer is specified with, and generic lemmas on lists and
  options.

  A definition that models code which can stop at a failed \<open>assert\<close> or touch memory outside
  its allocation has an \<open>option\<close> result; \<open>None\<close> is exactly that outcome. Ordinary error
  returns of the code (an error number, a null pointer) are ordinary values of the model.
\<close>

type_synonym u8 = "8 word"
type_synonym u16 = "16 word"
type_synonym u32 = "32 word"
type_synonym u64 = "64 word"

section \<open>Bit lists\<close>

text \<open>\<open>bits_of n w\<close>: the \<open>n\<close> least significant bits of a word, the lowest one first.\<close>

definition bits_of :: "nat \<Rightarrow> 'a::len word \<Rightarrow> bool list" where
  "bits_of n w = map (bit w) [0..<n]"

lemma length_bits_of [simp]: "length (bits_of n w) = n"
  by (simp add: bits_of_def)

lemma nth_bits_of [simp]: "i < n \<Longrightarrow> bits_of n w ! i = bit w i"
  by (simp add: bits_of_def)

lemma bits_of_0 [simp]: "bits_of 0 w = []"
  by (simp add: bits_of_def)

lemma bits_of_eq_iff: "bits_of n v = bits_of n w \<longleftrightarrow> (\<forall>i<n. bit v i = bit w i)"
  by (auto simp: bits_of_def)

lemma bits_of_take_bit: "bits_of n (take_bit n w) = bits_of n w"
  by (simp add: bits_of_eq_iff bit_take_bit_iff)

lemma take_bit_eq_of_bits:
  fixes v w :: "'a::len word"
  assumes "bits_of n v = bits_of n w" and "take_bit n v = v"
  shows "v = take_bit n w"
proof (rule bit_word_eqI)
  fix i
  assume "i < LENGTH('a)"
  have "bit v i = bit (take_bit n v) i" using assms(2) by simp
  also have "\<dots> = (i < n \<and> bit w i)"
    using assms(1) by (auto simp: bit_take_bit_iff bits_of_eq_iff)
  finally show "bit v i = bit (take_bit n w) i" by (simp add: bit_take_bit_iff)
qed

section \<open>Lists\<close>

text \<open>\<open>block xs i n\<close>: the \<open>n\<close> elements from position \<open>i\<close>.\<close>

definition block :: "'a list \<Rightarrow> nat \<Rightarrow> nat \<Rightarrow> 'a list" where
  "block xs i n = take n (drop i xs)"

lemma length_block [simp]: "i + n \<le> length xs \<Longrightarrow> length (block xs i n) = n"
  by (simp add: block_def)

lemma nth_block [simp]: "k < n \<Longrightarrow> i + n \<le> length xs \<Longrightarrow> block xs i n ! k = xs ! (i + k)"
  by (simp add: block_def)

text \<open>Writing a block into a list, as \<open>memcpy\<close> does.\<close>

definition overwrite :: "'a list \<Rightarrow> nat \<Rightarrow> 'a list \<Rightarrow> 'a list" where
  "overwrite xs i ys = take i xs @ ys @ drop (i + length ys) xs"

lemma length_overwrite [simp]: "i + length ys \<le> length xs \<Longrightarrow> length (overwrite xs i ys) = length xs"
  by (simp add: overwrite_def)

lemma nth_overwrite:
  "i + length ys \<le> length xs \<Longrightarrow> k < length xs \<Longrightarrow>
   overwrite xs i ys ! k = (if i \<le> k \<and> k < i + length ys then ys ! (k - i) else xs ! k)"
  by (auto simp: overwrite_def nth_append min_def)

section \<open>Text\<close>

text \<open>Texts are lists of bytes; \<open>comparei\<close> compares the lower case versions.\<close>

type_synonym text_bytes = "u8 list"

definition to_lower_byte :: "u8 \<Rightarrow> u8" where
  "to_lower_byte c = (if 65 \<le> c \<and> c \<le> 90 then c + 32 else c)"

definition to_lower :: "text_bytes \<Rightarrow> text_bytes" where
  "to_lower cs = map to_lower_byte cs"

lemma to_lower_idem: "to_lower (to_lower n) = to_lower n"
proof -
  have "to_lower_byte (to_lower_byte c) = to_lower_byte c" for c :: u8
  proof (cases "65 \<le> c \<and> c \<le> 90")
    case True
    then have "65 \<le> unat c" "unat c \<le> 90" by (simp_all add: word_le_nat_alt)
    then have "unat (c + 32) = unat c + 32" by (simp add: unat_word_ariths)
    then have "\<not> c + 32 \<le> 90" using \<open>65 \<le> unat c\<close> by (simp add: word_le_nat_alt)
    with True show ?thesis by (simp add: to_lower_byte_def)
  qed (simp add: to_lower_byte_def)
  then show ?thesis by (simp add: to_lower_def)
qed

definition equal_ignoring_case :: "text_bytes \<Rightarrow> text_bytes \<Rightarrow> bool" where
  "equal_ignoring_case a b \<longleftrightarrow> to_lower a = to_lower b"

end
