(* ===== verification/Buffer.thy ===== *)
theory Buffer
  imports Prelude
begin

text \<open>
  The byte buffer under every network message: class \<open>GrowingBuffer\<close> of
  \<open>Components/Buffer.h\<close> and \<open>Components/Buffer.cpp\<close>.

  The allocation behind the pointer \<open>m_buf\<close> is the list of its bytes, the empty list being the
  null pointer. Its length is what \<open>operator new\<close> was asked for, which need not be
  \<open>m_size + m_safe_area\<close>: an access is checked against the allocation, and one outside it is the
  result \<open>None\<close>, as is a failed \<open>assert\<close>. Offsets and sizes are numbers; where the unsigned
  32-bit arithmetic of the code can wrap, the wrap is written out. The field \<open>m_fresh\<close> is not
  a member of the class: it holds the bytes found in freshly allocated memory that nobody has
  written yet, which C++ leaves open.
\<close>

section \<open>State\<close>

record growing_buffer =
  m_buf :: "u8 list"
  m_write_off :: nat
  m_read_off :: nat
  m_size :: nat
  m_max_size :: nat
  m_last_err :: nat
  m_safe_area :: nat
  m_fresh :: "nat \<Rightarrow> u8"

definition DEFAULT_MAX_SIZE :: nat where
  "DEFAULT_MAX_SIZE = 65536"

text \<open>Unsigned 32-bit arithmetic on the offsets.\<close>

definition wrap32 :: "int \<Rightarrow> nat" where
  "wrap32 x = nat (x mod 4294967296)"

lemma wrap32_id [simp]: "0 \<le> x \<Longrightarrow> x < 4294967296 \<Longrightarrow> wrap32 x = nat x"
  by (simp add: wrap32_def)

text \<open>Contents of a new allocation of \<open>n\<close> bytes.\<close>

definition fresh_bytes :: "(nat \<Rightarrow> u8) \<Rightarrow> nat \<Rightarrow> u8 list" where
  "fresh_bytes f n = map f [0..<n]"

lemma length_fresh_bytes [simp]: "length (fresh_bytes f n) = n"
  by (simp add: fresh_bytes_def)

text \<open>C strings: the length up to the first zero byte, when there is one in the memory.\<close>

fun c_strlen :: "u8 list \<Rightarrow> nat option" where
  "c_strlen [] = None"
| "c_strlen (c # cs) = (if c = 0 then Some 0 else map_option Suc (c_strlen cs))"

section \<open>Accessors\<close>

definition GetAvailSize :: "'a growing_buffer_scheme \<Rightarrow> nat" where
  "GetAvailSize b = wrap32 (int (m_size b) - int (m_write_off b))"

definition GetDataSize :: "'a growing_buffer_scheme \<Rightarrow> nat" where
  "GetDataSize b = m_write_off b"

definition GetReadableDataSize :: "'a growing_buffer_scheme \<Rightarrow> nat" where
  "GetReadableDataSize b = wrap32 (int (m_write_off b) - int (m_read_off b))"

definition setLastError :: "nat \<Rightarrow> 'a growing_buffer_scheme \<Rightarrow> 'a growing_buffer_scheme" where
  "setLastError v b = b\<lparr>m_last_err := v\<rparr>"

definition Reset :: "'a growing_buffer_scheme \<Rightarrow> 'a growing_buffer_scheme" where
  "Reset b = b\<lparr>m_read_off := 0, m_write_off := 0, m_last_err := 0\<rparr>"

definition ResetReading_bytes :: "'a growing_buffer_scheme \<Rightarrow> 'a growing_buffer_scheme" where
  "ResetReading_bytes b = b\<lparr>m_read_off := 0\<rparr>"

definition ResetWriting :: "'a growing_buffer_scheme \<Rightarrow> 'a growing_buffer_scheme" where
  "ResetWriting b = b\<lparr>m_write_off := 0\<rparr>"

definition advance_read :: "nat \<Rightarrow> 'a growing_buffer_scheme \<Rightarrow> 'a growing_buffer_scheme" where
  "advance_read off b = b\<lparr>m_read_off := m_read_off b + off\<rparr>"

definition advance_write :: "nat \<Rightarrow> 'a growing_buffer_scheme \<Rightarrow> 'a growing_buffer_scheme" where
  "advance_write off b = b\<lparr>m_write_off := m_write_off b + off\<rparr>"

section \<open>Growing\<close>

text \<open>\<open>GrowingBuffer::resize\<close>, with its return value.\<close>

definition resize :: "nat \<Rightarrow> 'a growing_buffer_scheme \<Rightarrow> (int \<times> 'a growing_buffer_scheme) option" where
  "resize accommodate_size b =
    (let new_size = (if accommodate_size \<noteq> 0 then 2 * accommodate_size + 1 else 0) in
     if accommodate_size > m_max_size b then Some (-1, b)
     else if accommodate_size < m_size b then Some (0, b)
     else if \<not> accommodate_size < 1048576 then None
     else
      (let new_size = min new_size (m_max_size b);
           b = b\<lparr>m_read_off := (if m_read_off b > new_size then new_size else m_read_off b)\<rparr>;
           b = b\<lparr>m_write_off := (if m_write_off b > new_size then new_size else m_write_off b)\<rparr>
       in if new_size = 0 then Some (0, b\<lparr>m_buf := [], m_size := 0\<rparr>)
          else if new_size > m_size b then
            (if \<not> m_write_off b \<le> m_size b then None
             else if m_write_off b > 1 \<and> m_size b > length (m_buf b) then None
             else
              (let tmp = (if m_write_off b > 1 then take (m_size b) (m_buf b)
                          else fresh_bytes (m_fresh b) (m_size b))
               in Some (0, b\<lparr>m_buf := tmp @ replicate (new_size + m_safe_area b - m_size b) 0,
                            m_size := new_size\<rparr>)))
          else Some (0, b)))"

section \<open>Storing\<close>

definition uPutBytes :: "u8 list \<Rightarrow> nat \<Rightarrow> 'a growing_buffer_scheme \<Rightarrow> 'a growing_buffer_scheme option" where
  "uPutBytes t len b =
    (if m_buf b = [] then Some b
     else if m_write_off b + len \<le> length (m_buf b) \<and> len \<le> length t then
       Some (b\<lparr>m_buf := overwrite (m_buf b) (m_write_off b) (take len t),
               m_write_off := m_write_off b + len\<rparr>)
     else None)"

definition PutBytes :: "u8 list \<Rightarrow> nat \<Rightarrow> 'a growing_buffer_scheme \<Rightarrow> 'a growing_buffer_scheme option" where
  "PutBytes t len b =
    (if m_write_off b + len > m_size b then
       do { (res, b) \<leftarrow> resize (m_write_off b + len) b;
            if res = -1 then Some (b\<lparr>m_last_err := 1\<rparr>) else uPutBytes t len b }
     else uPutBytes t len b)"

text \<open>\<open>PutString\<close>: the argument is the memory of a C string, read up to its zero byte.\<close>

definition PutString :: "u8 list \<Rightarrow> 'a growing_buffer_scheme \<Rightarrow> 'a growing_buffer_scheme option" where
  "PutString t b = do { n \<leftarrow> c_strlen t; PutBytes t (n + 1) b }"

definition uPutString :: "u8 list \<Rightarrow> 'a growing_buffer_scheme \<Rightarrow> 'a growing_buffer_scheme option" where
  "uPutString t b = do { n \<leftarrow> c_strlen t; uPutBytes t n b }"

text \<open>
  The templates \<open>uPut\<close> and \<open>Put\<close>, on the bytes of the stored value; \<open>sizeof(T)\<close> is
  the number of these bytes.
\<close>

definition uPut :: "u8 list \<Rightarrow> 'a growing_buffer_scheme \<Rightarrow> 'a growing_buffer_scheme option" where
  "uPut val b =
    (if m_write_off b + length val \<le> length (m_buf b) then
       Some (b\<lparr>m_buf := overwrite (m_buf b) (m_write_off b) val,
               m_write_off := m_write_off b + length val\<rparr>)
     else None)"

definition Put :: "u8 list \<Rightarrow> 'a growing_buffer_scheme \<Rightarrow> 'a growing_buffer_scheme option" where
  "Put val b =
    (if length val > GetAvailSize b then
       do { (res, b) \<leftarrow> resize (m_write_off b + length val) b;
            if res = -1 then Some (b\<lparr>m_last_err := 1\<rparr>) else uPut val b }
     else uPut val b)"

section \<open>Retrieving\<close>

definition uGetBytes :: "nat \<Rightarrow> 'a growing_buffer_scheme \<Rightarrow> (u8 list \<times> 'a growing_buffer_scheme) option" where
  "uGetBytes len b =
    (if m_read_off b + len \<le> length (m_buf b) then
       Some (block (m_buf b) (m_read_off b) len, b\<lparr>m_read_off := m_read_off b + len\<rparr>)
     else None)"

text \<open>\<open>GetBytes\<close>: the target keeps its bytes (\<open>None\<close> below) when the code returns false.\<close>

definition GetBytes :: "nat \<Rightarrow> 'a growing_buffer_scheme \<Rightarrow> (u8 list option \<times> 'a growing_buffer_scheme) option" where
  "GetBytes len b =
    (if len > GetReadableDataSize b then Some (None, b)
     else do { (t, b) \<leftarrow> uGetBytes len b; Some (Some t, b) })"

definition Get :: "nat \<Rightarrow> 'a growing_buffer_scheme \<Rightarrow> (u8 list option \<times> 'a growing_buffer_scheme) option" where
  "Get sizeof_T b =
    (if GetReadableDataSize b < sizeof_T then Some (None, b\<lparr>m_last_err := 1\<rparr>)
     else do { (t, b) \<leftarrow> uGetBytes sizeof_T b; Some (Some t, b) })"

definition GetString_bytes :: "'a growing_buffer_scheme \<Rightarrow> (u8 list option \<times> 'a growing_buffer_scheme) option" where
  "GetString_bytes b =
    (if GetReadableDataSize b = 0 then Some (None, b\<lparr>m_last_err := 1\<rparr>)
     else do {
       len \<leftarrow> c_strlen (drop (m_read_off b) (m_buf b));
       if len = 0 \<or> len > GetReadableDataSize b then Some (None, b\<lparr>m_last_err := 1\<rparr>)
       else do { (t, b) \<leftarrow> uGetBytes len b; Some (Some t, b) } })"

definition uGetString :: "'a growing_buffer_scheme \<Rightarrow> (u8 list \<times> 'a growing_buffer_scheme) option" where
  "uGetString b = do { len \<leftarrow> c_strlen (drop (m_read_off b) (m_buf b)); uGetBytes len b }"

definition PopFront :: "nat \<Rightarrow> 'a growing_buffer_scheme \<Rightarrow> 'a growing_buffer_scheme option" where
  "PopFront pop_count b =
    (if pop_count > m_size b then Some (b\<lparr>m_write_off := 0, m_read_off := 0\<rparr>)
     else if m_write_off b < pop_count then Some (b\<lparr>m_write_off := 0, m_read_off := 0\<rparr>)
     else if m_write_off b > length (m_buf b) then None
     else
      (let moved = block (m_buf b) pop_count (m_write_off b - pop_count) in
       Some (b\<lparr>m_buf := overwrite (m_buf b) 0 moved,
               m_write_off := m_write_off b - pop_count,
               m_read_off := (if m_read_off b < pop_count then 0 else m_read_off b - pop_count)\<rparr>)))"

section \<open>Construction\<close>

text \<open>Reserving constructor: size rounded up to a multiple of eight, then zeroed.\<close>

definition new_buffer :: "(nat \<Rightarrow> u8) \<Rightarrow> nat \<Rightarrow> nat \<Rightarrow> nat \<Rightarrow> growing_buffer" where
  "new_buffer fresh max_size safe_area pre_alloc_size =
    (let size = (pre_alloc_size + 7) div 8 * 8 in
     Reset \<lparr>m_buf = (if pre_alloc_size \<noteq> 0
                     then replicate size 0 @ map (\<lambda>i. fresh (size + i)) [0..<safe_area] else []),
            m_write_off = 0, m_read_off = 0, m_size = size, m_max_size = max_size,
            m_last_err = 0, m_safe_area = safe_area, m_fresh = fresh\<rparr>)"

text \<open>Constructor from bytes: adopts them, or copies them into a grown allocation.\<close>

definition buffer_of_bytes :: "(nat \<Rightarrow> u8) \<Rightarrow> u8 list \<Rightarrow> bool \<Rightarrow> growing_buffer option" where
  "buffer_of_bytes fresh buf take_ownership =
    (let size = length buf;
         b = \<lparr>m_buf = [], m_write_off = 0, m_read_off = 0, m_size = 0,
              m_max_size = (if size > DEFAULT_MAX_SIZE then size else DEFAULT_MAX_SIZE),
              m_last_err = 0, m_safe_area = 0, m_fresh = fresh\<rparr>
     in if take_ownership then Some (Reset (b\<lparr>m_buf := buf, m_size := size\<rparr>))
        else do { (alloc_result, b) \<leftarrow> resize size b;
                  if alloc_result = 0 then uPutBytes buf size b else None })"

text \<open>Copy constructor: \<open>m_size\<close> bytes without the safe area, filled up to the write offset.\<close>

definition copy_buffer :: "growing_buffer \<Rightarrow> growing_buffer option" where
  "copy_buffer from =
    (if m_buf from \<noteq> [] \<and> m_write_off from > min (m_size from) (length (m_buf from)) then None
     else Some (from\<lparr>m_buf := (if m_buf from \<noteq> []
                               then overwrite (fresh_bytes (m_fresh from) (m_size from)) 0
                                              (take (m_write_off from) (m_buf from))
                               else fresh_bytes (m_fresh from) (m_size from)),
                     m_last_err := 0\<rparr>))"

section \<open>Well-formed buffers\<close>

text \<open>
  \<open>buf_inv\<close>: the allocation is as large as the members say, and the offsets are in order.
  \<open>data\<close>: the bytes written so far; \<open>unread\<close>: those not read yet.
\<close>

definition buf_inv :: "'a growing_buffer_scheme \<Rightarrow> bool" where
  "buf_inv b \<longleftrightarrow>
     length (m_buf b) = (if m_size b = 0 then 0 else m_size b + m_safe_area b) \<and>
     m_write_off b \<le> m_size b \<and> m_read_off b \<le> m_write_off b \<and> m_size b < 4294967296"

definition data :: "'a growing_buffer_scheme \<Rightarrow> u8 list" where
  "data b = take (m_write_off b) (m_buf b)"

definition unread :: "'a growing_buffer_scheme \<Rightarrow> u8 list" where
  "unread b = drop (m_read_off b) (data b)"

lemma buf_inv_readable:
  "buf_inv b \<Longrightarrow> GetReadableDataSize b = m_write_off b - m_read_off b"
  by (simp add: buf_inv_def GetReadableDataSize_def nat_diff_distrib')

lemma buf_inv_avail: "buf_inv b \<Longrightarrow> GetAvailSize b = m_size b - m_write_off b"
  by (simp add: buf_inv_def GetAvailSize_def nat_diff_distrib')

lemma length_data: "buf_inv b \<Longrightarrow> length (data b) = m_write_off b"
  by (auto simp: buf_inv_def data_def)

lemma length_unread: "buf_inv b \<Longrightarrow> length (unread b) = GetReadableDataSize b"
  by (simp add: unread_def length_data buf_inv_readable)

section \<open>What growing keeps\<close>

text \<open>
  A successful \<open>resize\<close> changes only the allocation and its size. The bytes survive it when at
  least two of them were written; with fewer, the code does not copy the old allocation.
\<close>

definition grown :: "'a growing_buffer_scheme \<Rightarrow> nat \<Rightarrow> 'a growing_buffer_scheme \<Rightarrow> bool" where
  "grown b acc b' \<longleftrightarrow>
     (\<exists>buf sz. b' = b\<lparr>m_buf := buf, m_size := sz\<rparr> \<and> m_size b \<le> sz \<and> acc \<le> sz \<and>
        (sz = m_size b \<or> sz = min (2 * acc + 1) (m_max_size b)) \<and>
        (acc < m_max_size b \<longrightarrow> acc < sz) \<and>
        length buf = (if sz = 0 then 0 else sz + m_safe_area b) \<and>
        (1 < m_write_off b \<or> sz = m_size b \<longrightarrow> take (m_size b) buf = take (m_size b) (m_buf b)))"

lemma resize_grown:
  assumes inv: "buf_inv b" and acc: "0 < acc" "acc \<le> m_max_size b" "acc < 1048576"
  shows "\<exists>b'. resize acc b = Some (0, b') \<and> grown b acc b'"
proof (cases "acc < m_size b")
  case True
  then have "resize acc b = Some (0, b)" using acc by (simp add: resize_def)
  moreover have "grown b acc b"
    unfolding grown_def
    by (rule exI [of _ "m_buf b"], rule exI [of _ "m_size b"])
       (use inv True in \<open>auto simp: buf_inv_def\<close>)
  ultimately show ?thesis by blast
next
  case False
  define sz where "sz = min (2 * acc + 1) (m_max_size b)"
  have sz: "acc \<le> sz" "0 < sz" using acc by (auto simp: sz_def)
  have gt: "acc < m_max_size b \<Longrightarrow> acc < sz" using acc by (simp add: sz_def)
  have m: "min (Suc (2 * acc)) (m_max_size b) = sz" by (simp add: sz_def)
  have off: "m_read_off b \<le> sz" "m_write_off b \<le> sz" "m_write_off b \<le> m_size b"
    using inv False sz by (auto simp: buf_inv_def)
  have len: "m_size b \<le> length (m_buf b)" using inv by (auto simp: buf_inv_def)
  show ?thesis
  proof (cases "sz > m_size b")
    case True
    define buf where "buf = (if m_write_off b > 1 then take (m_size b) (m_buf b)
      else fresh_bytes (m_fresh b) (m_size b)) @ replicate (sz + m_safe_area b - m_size b) 0"
    have "resize acc b = Some (0, b\<lparr>m_buf := buf, m_size := sz\<rparr>)"
      using False acc True off len sz
      by (simp add: resize_def m buf_def)
    moreover have "grown b acc (b\<lparr>m_buf := buf, m_size := sz\<rparr>)"
      unfolding grown_def
      by (rule exI [of _ buf], rule exI [of _ sz]) (use True sz len in \<open>auto simp: buf_def sz_def\<close>)
    ultimately show ?thesis by blast
  next
    case F2: False
    have "resize acc b = Some (0, b)"
      using False acc F2 off sz by (simp add: resize_def m)
    moreover have "grown b acc b"
      unfolding grown_def
      by (rule exI [of _ "m_buf b"], rule exI [of _ "m_size b"])
         (use inv F2 sz gt in \<open>auto simp: buf_inv_def\<close>)
    ultimately show ?thesis by blast
  qed
qed

lemma grown_inv:
  assumes inv: "buf_inv b" and g: "grown b acc b'" and acc: "acc < 1048576" shows "buf_inv b'"
proof -
  obtain buf sz where b': "b' = b\<lparr>m_buf := buf, m_size := sz\<rparr>" and sz: "m_size b \<le> sz"
      "sz = m_size b \<or> sz = min (2 * acc + 1) (m_max_size b)"
      "length buf = (if sz = 0 then 0 else sz + m_safe_area b)"
    using g unfolding grown_def by blast
  have "sz \<le> max (m_size b) (2 * acc + 1)" using sz(2) by (auto simp: max_def)
  then have "sz < 4294967296" using acc inv by (simp add: buf_inv_def max_def split: if_splits)
  then show ?thesis using inv sz(1,3) by (simp add: b' buf_inv_def)
qed

lemma grown_fields:
  assumes "grown b acc b'"
  shows "m_write_off b' = m_write_off b" "m_read_off b' = m_read_off b"
    "m_max_size b' = m_max_size b" "m_last_err b' = m_last_err b" "m_safe_area b' = m_safe_area b"
    "m_fresh b' = m_fresh b" "growing_buffer.more b' = growing_buffer.more b"
    "acc \<le> m_size b'" "m_size b \<le> m_size b'" "m_size b' \<le> max (m_size b) (2 * acc + 1)"
    "m_size b' = m_size b \<or> m_size b' = min (2 * acc + 1) (m_max_size b)"
    "acc < m_max_size b \<Longrightarrow> acc < m_size b'"
  using assms by (auto simp: grown_def)

lemma grown_data:
  assumes "buf_inv b" "grown b acc b'" "m_write_off b \<noteq> 1 \<or> m_size b' = m_size b"
  shows "data b' = data b"
proof (cases "m_write_off b = 0")
  case True
  then show ?thesis using assms(2) by (auto simp: data_def grown_def)
next
  case False
  from assms(2) obtain buf sz where b': "b' = b\<lparr>m_buf := buf, m_size := sz\<rparr>"
    and keep: "1 < m_write_off b \<or> sz = m_size b \<longrightarrow> take (m_size b) buf = take (m_size b) (m_buf b)"
    by (auto simp: grown_def)
  have k: "take (m_size b) buf = take (m_size b) (m_buf b)" using keep False assms(3) b' by auto
  have wo: "m_write_off b \<le> m_size b" using assms(1) by (simp add: buf_inv_def)
  have "take (m_write_off b) (take (m_size b) buf) = take (m_write_off b) (take (m_size b) (m_buf b))"
    using k by simp
  with wo show ?thesis by (simp add: data_def b' min_absorb1)
qed

section \<open>Storing appends, retrieving removes\<close>

lemma uPut_appends:
  assumes inv: "buf_inv b" and fits: "m_write_off b + length val \<le> m_size b"
  shows "\<exists>b'. uPut val b = Some b' \<and> buf_inv b' \<and> data b' = data b @ val \<and>
    m_read_off b' = m_read_off b \<and> m_size b' = m_size b \<and> m_max_size b' = m_max_size b \<and>
    m_safe_area b' = m_safe_area b \<and> growing_buffer.more b' = growing_buffer.more b \<and>
    m_last_err b' = m_last_err b \<and> m_write_off b' = m_write_off b + length val"
proof -
  have len: "m_write_off b + length val \<le> length (m_buf b)"
    using inv fits by (auto simp: buf_inv_def split: if_splits)
  then show ?thesis
    using inv fits by (auto simp: uPut_def buf_inv_def data_def overwrite_def)
qed

lemma Put_appends:
  assumes inv: "buf_inv b" and room: "m_write_off b + length val \<le> m_max_size b"
    "m_write_off b + length val < 1048576" and keep: "m_write_off b \<noteq> 1 \<or> m_write_off b + length val \<le> m_size b"
  shows "\<exists>b'. Put val b = Some b' \<and> buf_inv b' \<and> data b' = data b @ val \<and> m_last_err b' = m_last_err b"
proof (cases "length val > GetAvailSize b")
  case True
  have av: "m_write_off b + length val > m_size b"
    using True inv by (auto simp: buf_inv_avail buf_inv_def)
  obtain b1 where r: "resize (m_write_off b + length val) b = Some (0, b1)"
    and g: "grown b (m_write_off b + length val) b1"
    using resize_grown [OF inv _ room(1) room(2)] True by fastforce
  have inv1: "buf_inv b1" by (rule grown_inv [OF inv g room(2)])
  have d1: "data b1 = data b" by (rule grown_data [OF inv g]) (use keep av in auto)
  obtain b2 where u: "uPut val b1 = Some b2" "buf_inv b2" "data b2 = data b1 @ val"
      "m_last_err b2 = m_last_err b1"
    using uPut_appends [OF inv1, of val] grown_fields [OF g] by auto
  have "Put val b = uPut val b1" using True r by (simp add: Put_def)
  with u d1 grown_fields(4) [OF g] show ?thesis by auto
next
  case False
  then have "m_write_off b + length val \<le> m_size b"
    using inv by (auto simp: buf_inv_avail buf_inv_def)
  from uPut_appends [OF inv this] False show ?thesis by (auto simp: Put_def)
qed

lemma uGetBytes_reads:
  assumes inv: "buf_inv b" and len: "len \<le> GetReadableDataSize b"
  shows "\<exists>b'. uGetBytes len b = Some (take len (unread b), b') \<and> buf_inv b' \<and>
    unread b' = drop len (unread b)"
proof -
  have le: "m_read_off b + len \<le> m_write_off b"
    using len inv by (auto simp: buf_inv_readable buf_inv_def)
  moreover have "m_write_off b \<le> length (m_buf b)" using inv by (auto simp: buf_inv_def)
  ultimately have "uGetBytes len b = Some (block (m_buf b) (m_read_off b) len, b\<lparr>m_read_off := m_read_off b + len\<rparr>)"
    by (simp add: uGetBytes_def)
  moreover have "block (m_buf b) (m_read_off b) len = take len (unread b)"
    using le by (simp add: block_def unread_def data_def drop_take min_absorb1)
  moreover have "buf_inv (b\<lparr>m_read_off := m_read_off b + len\<rparr>)"
    using inv le by (simp add: buf_inv_def)
  moreover have "unread (b\<lparr>m_read_off := m_read_off b + len\<rparr>) = drop len (unread b)"
    by (simp add: unread_def data_def add.commute)
  ultimately show ?thesis by simp
qed

lemma PopFront_drops:
  assumes inv: "buf_inv b" and "n \<le> m_write_off b"
  shows "\<exists>b'. PopFront n b = Some b' \<and> buf_inv b' \<and> data b' = drop n (data b) \<and>
    (n \<le> m_read_off b \<longrightarrow> unread b' = unread b)"
proof -
  have le: "n \<le> m_size b" "m_write_off b \<le> length (m_buf b)" "m_read_off b \<le> m_write_off b"
    using inv assms(2) by (auto simp: buf_inv_def)
  define b' where "b' = b\<lparr>m_buf := overwrite (m_buf b) 0 (block (m_buf b) n (m_write_off b - n)),
    m_write_off := m_write_off b - n,
    m_read_off := (if m_read_off b < n then 0 else m_read_off b - n)\<rparr>"
  have pop: "PopFront n b = Some b'"
    using assms(2) le by (auto simp: PopFront_def b'_def Let_def)
  have lenb: "length (block (m_buf b) n (m_write_off b - n)) = m_write_off b - n"
    using le assms(2) by simp
  have d: "data b' = drop n (data b)"
    using lenb by (simp add: b'_def data_def overwrite_def block_def drop_take)
  have i: "buf_inv b'"
    using inv le lenb by (auto simp: buf_inv_def b'_def)
  have "n \<le> m_read_off b \<Longrightarrow> unread b' = unread b"
    using d by (simp add: unread_def) (simp add: b'_def)
  with pop d i show ?thesis by blast
qed

end
