(* ===== verification/BitStream.thy ===== *)
theory BitStream
  imports Buffer
begin

unbundle bit_operations_syntax

text \<open>
  Class \<open>BitStream\<close> of \<open>Components/BitStream.h\<close> and \<open>Components/BitStream.cpp\<close>: the buffer
  of \<^theory_text>\<open>Buffer\<close> with bit positions inside the current byte. Every message of the game
  protocol is written and read through it.

  The unaligned 64-bit accesses of \<open>uStoreBits\<close> and \<open>uGetBits\<close> are modelled byte by byte for
  a little-endian machine (\<open>load64\<close>, \<open>store64\<close>). A signed 32-bit result is given as its bit
  pattern, which is how the callers use it.
\<close>

section \<open>State\<close>

record bitstream = growing_buffer +
  m_read_bit_off :: nat
  m_write_bit_off :: nat
  m_byteAligned :: bool

section \<open>Memory words\<close>

definition load64 :: "u8 list \<Rightarrow> nat \<Rightarrow> u64 option" where
  "load64 mem off =
    (if off + 8 \<le> length mem then Some (foldr (\<lambda>b w. ucast b OR push_bit 8 w) (block mem off 8) 0)
     else None)"

definition bytes64 :: "u64 \<Rightarrow> u8 list" where
  "bytes64 w = map (\<lambda>i. ucast (drop_bit (8 * i) w)) [0..<8]"

definition bytes32 :: "u32 \<Rightarrow> u8 list" where
  "bytes32 w = map (\<lambda>i. ucast (drop_bit (8 * i) w)) [0..<4]"

definition word32_of :: "u8 list \<Rightarrow> u32" where
  "word32_of bs = foldr (\<lambda>b w. ucast b OR push_bit 8 w) bs 0"

definition store64 :: "u8 list \<Rightarrow> nat \<Rightarrow> u64 \<Rightarrow> u8 list option" where
  "store64 mem off w = (if off + 8 \<le> length mem then Some (overwrite mem off (bytes64 w)) else None)"

section \<open>Macros and accessors\<close>

definition BITS_PER_UINT32 :: nat where
  "BITS_PER_UINT32 = 32"

definition BIT_MASK :: "nat \<Rightarrow> u32" where
  "BIT_MASK x = ucast ((push_bit x 1 :: u64) - 1)"

definition BITS_TO_BYTES :: "nat \<Rightarrow> nat" where
  "BITS_TO_BYTES x = (x + 7) div 8"

definition BYTE_ALIGN :: "nat \<Rightarrow> nat" where
  "BYTE_ALIGN x = (x + 7) div 8 * 8"

text \<open>\<open>BitStream::GetAvailSize\<close> does not count a partly written byte as available.\<close>

definition GetAvailSize_bits :: "'a bitstream_scheme \<Rightarrow> nat" where
  "GetAvailSize_bits s =
    (let res = int (m_size s) - int (m_write_off s) - (if m_write_bit_off s \<noteq> 0 then 1 else 0)
     in wrap32 (max 0 res))"

definition GetWritableBits :: "'a bitstream_scheme \<Rightarrow> nat" where
  "GetWritableBits s =
    (let bitsleft = int (wrap32 (int (GetAvailSize_bits s) * 8)) - int (m_write_bit_off s)
     in wrap32 (if bitsleft > 0 then bitsleft else 0))"

definition GetReadableBits :: "'a bitstream_scheme \<Rightarrow> nat" where
  "GetReadableBits s =
    wrap32 (int (GetReadableDataSize s) * 8 + (int (m_write_bit_off s) - int (m_read_bit_off s)))"

definition SetReadPos :: "nat \<Rightarrow> 'a bitstream_scheme \<Rightarrow> 'a bitstream_scheme" where
  "SetReadPos pos s = s\<lparr>m_read_off := pos div 8, m_read_bit_off := pos mod 8\<rparr>"

definition GetReadPos :: "'a bitstream_scheme \<Rightarrow> nat" where
  "GetReadPos s = m_read_off s * 8 + m_read_bit_off s"

definition SetWritePos :: "nat \<Rightarrow> 'a bitstream_scheme \<Rightarrow> 'a bitstream_scheme" where
  "SetWritePos pos s = s\<lparr>m_write_off := pos div 8, m_write_bit_off := pos mod 8\<rparr>"

definition GetWritePos :: "'a bitstream_scheme \<Rightarrow> nat" where
  "GetWritePos s = m_write_off s * 8 + m_write_bit_off s"

definition ResetReading :: "'a bitstream_scheme \<Rightarrow> 'a bitstream_scheme" where
  "ResetReading s = s\<lparr>m_read_bit_off := 0, m_read_off := 0\<rparr>"

definition ResetOffsets :: "'a bitstream_scheme \<Rightarrow> 'a bitstream_scheme" where
  "ResetOffsets s = (Reset s)\<lparr>m_write_bit_off := 0, m_read_bit_off := 0\<rparr>"

definition ByteAlign :: "bool \<Rightarrow> bool \<Rightarrow> 'a bitstream_scheme \<Rightarrow> 'a bitstream_scheme" where
  "ByteAlign read_part write_part s =
    (let s = (if write_part
              then s\<lparr>m_write_off := m_write_off s + (if m_write_bit_off s > 0 then 1 else 0),
                     m_write_bit_off := 0\<rparr> else s)
     in if read_part
        then s\<lparr>m_read_off := m_read_off s + (if m_read_bit_off s > 0 then 1 else 0),
               m_read_bit_off := 0\<rparr> else s)"

definition UseByteAlignedMode :: "bool \<Rightarrow> 'a bitstream_scheme \<Rightarrow> 'a bitstream_scheme" where
  "UseByteAlignedMode toggle s =
    (let s = s\<lparr>m_byteAligned := toggle\<rparr> in if m_byteAligned s then ByteAlign True True s else s)"

section \<open>Construction\<close>

definition new_stream :: "(nat \<Rightarrow> u8) \<Rightarrow> nat \<Rightarrow> bitstream" where
  "new_stream fresh sz =
    ResetOffsets (growing_buffer.extend (new_buffer fresh 4294967295 7 sz)
      \<lparr>m_read_bit_off = 0, m_write_bit_off = 0, m_byteAligned = False\<rparr>)"

text \<open>Note that \<open>m_safe_area\<close> is set after the allocation was made without one.\<close>

definition stream_of_bytes :: "(nat \<Rightarrow> u8) \<Rightarrow> u8 list \<Rightarrow> bitstream option" where
  "stream_of_bytes fresh arr =
    do { b \<leftarrow> buffer_of_bytes fresh arr False;
         Some (growing_buffer.extend (b\<lparr>m_safe_area := 7\<rparr>)
           \<lparr>m_read_bit_off = 0, m_write_bit_off = 0, m_byteAligned = False\<rparr>) }"

definition copy_stream :: "bitstream \<Rightarrow> bitstream option" where
  "copy_stream bs =
    do { b \<leftarrow> copy_buffer (growing_buffer.truncate bs);
         Some (growing_buffer.extend (b\<lparr>m_safe_area := 7\<rparr>)
           \<lparr>m_read_bit_off = m_read_bit_off bs, m_write_bit_off = m_write_bit_off bs,
             m_byteAligned = m_byteAligned bs\<rparr>) }"

text \<open>
  \<open>operator=\<close>: the old allocation is replaced by one of \<open>m_size\<close> bytes, without the safe
  area. (\<open>this == \<and>bs\<close> is the caller's case of not calling it.)
\<close>

definition assign_stream :: "bitstream \<Rightarrow> bitstream \<Rightarrow> bitstream option" where
  "assign_stream this bs =
    (if m_buf bs \<noteq> [] \<and> m_write_off bs > min (m_size bs) (length (m_buf bs)) then None
     else Some (bs\<lparr>m_buf := (if m_buf bs \<noteq> []
                            then overwrite (fresh_bytes (m_fresh this) (m_size bs)) 0
                                           (take (m_write_off bs) (m_buf bs))
                            else fresh_bytes (m_fresh this) (m_size bs)),
                  m_fresh := m_fresh this\<rparr>))"

section \<open>Storing bits\<close>

definition uStoreBits :: "nat \<Rightarrow> u32 \<Rightarrow> 'a bitstream_scheme \<Rightarrow> 'a bitstream_scheme option" where
  "uStoreBits nBits dataBits s =
    (if \<not> nBits \<le> BITS_PER_UINT32 then None
     else if \<not> m_write_off s + 7 < m_size s + m_safe_area s then None
     else do {
       tp \<leftarrow> load64 (m_buf s) (m_write_off s);
       let r = (ucast dataBits :: u64);
       let mask = push_bit (m_write_bit_off s) (ucast (BIT_MASK nBits) :: u64);
       mem \<leftarrow> store64 (m_buf s) (m_write_off s)
                (push_bit (m_write_bit_off s) r OR (tp AND NOT mask));
       let off = m_write_bit_off s + nBits;
       Some (s\<lparr>m_buf := mem, m_write_off := m_write_off s + off div 8,
               m_write_bit_off := off mod 8\<rparr>) })"

definition StoreBits :: "nat \<Rightarrow> u32 \<Rightarrow> 'a bitstream_scheme \<Rightarrow> 'a bitstream_scheme option" where
  "StoreBits nBits dataBits s =
    (if \<not> nBits \<le> BITS_PER_UINT32 then None
     else do {
       (res, s) \<leftarrow> (if nBits > GetWritableBits s then resize (m_size s + nBits div 8 + 7) s
                    else Some (0, s));
       if res = -1 then Some (setLastError 1 s)
       else if m_byteAligned s then
         (let dataBits = (if nBits \<noteq> BITS_PER_UINT32 then dataBits AND (push_bit nBits 1 - 1)
                          else dataBits)
          in uStoreBits (BYTE_ALIGN nBits) dataBits s)
       else uStoreBits nBits dataBits s })"

text \<open>
  The loop of \<open>StorePackedBits\<close>. With \<open>nBits = 0\<close> it never ends, so the definition is partial:
  \<open>None\<close> also stands for a call that does not return.
\<close>

partial_function (option) StorePackedBits_loop ::
    "nat \<Rightarrow> u32 \<Rightarrow> bitstream \<Rightarrow> bitstream option" where
  "StorePackedBits_loop nBits dataBits s =
    (if nBits < BITS_PER_UINT32 \<and> dataBits \<ge> BIT_MASK nBits
     then Option.bind (StoreBits nBits (BIT_MASK nBits) s)
            (StorePackedBits_loop (min (nBits * 2) BITS_PER_UINT32) (dataBits - BIT_MASK nBits))
     else StoreBits nBits dataBits s)"

definition StorePackedBits :: "nat \<Rightarrow> u32 \<Rightarrow> bitstream \<Rightarrow> bitstream option" where
  "StorePackedBits nBits dataBits s =
    (if m_byteAligned s then StoreBits BITS_PER_UINT32 dataBits s
     else StorePackedBits_loop nBits dataBits s)"

definition StoreBitArray :: "u8 list \<Rightarrow> nat \<Rightarrow> 'a bitstream_scheme \<Rightarrow> 'a bitstream_scheme option" where
  "StoreBitArray src nBits s =
    do { let nBytes = BITS_TO_BYTES nBits;
         let s = ByteAlign False True s;
         s \<leftarrow> PutBytes src nBytes s;
         if nBits mod 8 \<noteq> 0
         then Some (s\<lparr>m_write_off := wrap32 (int (m_write_off s) - 1), m_write_bit_off := nBits mod 8\<rparr>)
         else Some s }"

text \<open>
  Storing strings. The loop stores each character over two neighbouring bytes, at bit offset
  \<open>m_write_bit_off\<close>.
\<close>

fun StoreString_loop :: "nat \<Rightarrow> nat \<Rightarrow> u8 list \<Rightarrow> u8 list \<Rightarrow> u8 list option" where
  "StoreString_loop wbit pos [] mem = Some mem"
| "StoreString_loop wbit pos (c # cs) mem =
    (let rshift = 8 - wbit;
         upperbits = push_bit wbit c;
         lowerbits = drop_bit rshift c;
         mask = drop_bit rshift (255 :: u8)
     in if pos + 1 < length mem
        then StoreString_loop wbit (pos + 1) cs
               ((mem[pos := (mem ! pos AND mask) OR upperbits])[pos + 1 := lowerbits])
        else None)"

text \<open>
  \<open>StoreString(const char *str, int len)\<close>: \<open>str\<close> is the memory the pointer refers to, \<open>[]\<close> the
  null pointer, \<open>None\<close> the default length \<open>-1\<close>.
\<close>

definition StoreString :: "u8 list \<Rightarrow> nat option \<Rightarrow> 'a bitstream_scheme \<Rightarrow> 'a bitstream_scheme option" where
  "StoreString str len s =
    (if str = [] then Some s
     else do {
       len \<leftarrow> (case len of None \<Rightarrow> map_option Suc (c_strlen str) | Some n \<Rightarrow> Some n);
       if m_byteAligned s then PutString str s
       else do {
         (res, s) \<leftarrow> (if len > GetAvailSize_bits s then resize (m_write_off s + len) s
                      else Some (0, s));
         if res = -1 then Some (setLastError 1 s)
         else if length str < len then None
         else do {
           mem \<leftarrow> StoreString_loop (m_write_bit_off s) (m_write_off s) (take len str) (m_buf s);
           Some (s\<lparr>m_buf := mem, m_write_off := m_write_off s + len\<rparr>) } } })"

text \<open>\<open>StoreString(StringView)\<close>: exactly the characters of the view.\<close>

definition StoreString_view :: "u8 list \<Rightarrow> 'a bitstream_scheme \<Rightarrow> 'a bitstream_scheme option" where
  "StoreString_view str s = StoreString str (Some (length str)) s"

text \<open>A \<open>float\<close> is modelled by its 32-bit representation, which is all these functions use.\<close>

definition StoreFloat :: "u32 \<Rightarrow> 'a bitstream_scheme \<Rightarrow> 'a bitstream_scheme option" where
  "StoreFloat val s =
    (if m_byteAligned s then Put (bytes32 val) s else StoreBits BITS_PER_UINT32 val s)"

section \<open>Retrieving bits\<close>

definition uGetBits :: "nat \<Rightarrow> 'a bitstream_scheme \<Rightarrow> (u32 \<times> 'a bitstream_scheme) option" where
  "uGetBits nBits s =
    (if \<not> (nBits > 0 \<and> nBits \<le> BITS_PER_UINT32) then None
     else if \<not> GetReadableBits s \<ge> nBits then None
     else if \<not> m_read_off s + 7 < m_size s + m_safe_area s then None
     else do {
       let nBits = (nBits - 1) mod 32 + 1;
       tp \<leftarrow> load64 (m_buf s) (m_read_off s);
       let r = drop_bit (m_read_bit_off s) tp;
       let tgt = (ucast (r AND drop_bit (64 - nBits) (NOT 1)) :: u32);
       let off = m_read_bit_off s + nBits;
       Some (tgt, s\<lparr>m_read_off := m_read_off s + off div 8, m_read_bit_off := off mod 8\<rparr>) })"

definition GetBits :: "nat \<Rightarrow> 'a bitstream_scheme \<Rightarrow> (u32 \<times> 'a bitstream_scheme) option" where
  "GetBits nBits s =
    (if nBits > GetReadableBits s then Some (-1, setLastError 1 s)
     else uGetBits (if m_byteAligned s then BYTE_ALIGN nBits else nBits) s)"

lemma GetBits_0: "GetBits 0 s = None"
  by (simp add: GetBits_def uGetBits_def BYTE_ALIGN_def)

lemma GetBits_Some_pos: "GetBits n s = Some r \<Longrightarrow> 0 < n"
  by (cases n) (auto simp: GetBits_0)

function GetPackedBits_loop :: "nat \<Rightarrow> u32 \<Rightarrow> bitstream \<Rightarrow> (u32 \<times> bitstream) option" where
  "GetPackedBits_loop minbits accumulator s =
    (if GetReadableBits s > 0 then
       (case GetBits minbits s of
          None \<Rightarrow> None
        | Some (bits, s) \<Rightarrow>
            (let bitMask = BIT_MASK minbits in
             if bits < bitMask \<or> minbits = BITS_PER_UINT32 then Some (bits + accumulator, s)
             else GetPackedBits_loop
                    (if minbits * 2 > BITS_PER_UINT32 then BITS_PER_UINT32 else minbits * 2)
                    (accumulator + bitMask) s))
     else Some (-1, s))"
  by pat_completeness auto
termination
  by (relation "measure (\<lambda>(m, _, _). if m = 0 then 0 else if m = 32 then 0 else if m > 32 then 1 else 33 - m)")
     (auto simp: BITS_PER_UINT32_def dest: GetBits_Some_pos)

declare GetPackedBits_loop.simps [simp del]

definition GetPackedBits :: "nat \<Rightarrow> bitstream \<Rightarrow> (u32 \<times> bitstream) option" where
  "GetPackedBits minbits s =
    (if m_byteAligned s then GetBits BITS_PER_UINT32 s else GetPackedBits_loop minbits 0 s)"

text \<open>\<open>GetBitArray\<close>: \<open>None\<close> for a target that \<open>GetBytes\<close> left untouched.\<close>

definition GetBitArray :: "nat \<Rightarrow> 'a bitstream_scheme \<Rightarrow> (u8 list option \<times> 'a bitstream_scheme) option" where
  "GetBitArray nBits s = GetBytes (BITS_TO_BYTES nBits) (ByteAlign True False s)"

text \<open>The loop of \<open>GetString\<close>, with the characters appended to \<open>str\<close> so far.\<close>

function GetString_loop :: "u8 list \<Rightarrow> bitstream \<Rightarrow> (u8 list \<times> bitstream) option" where
  "GetString_loop str s =
    (if m_read_off s + 1 < length (m_buf s) then
       (let chr = drop_bit (m_read_bit_off s) (m_buf s ! m_read_off s)
                  OR push_bit (8 - m_read_bit_off s) (m_buf s ! (m_read_off s + 1));
            s = s\<lparr>m_read_off := m_read_off s + 1\<rparr>;
            str = (if chr \<noteq> 0 then str @ [chr] else str)
        in if chr \<noteq> 0 \<and> GetReadableBits s < 8 then Some (str, setLastError 1 s)
           else if chr \<noteq> 0 then GetString_loop str s
           else Some (str, s))
     else None)"
  by pat_completeness auto
termination
  by (relation "measure (\<lambda>(_, s). length (m_buf s) - m_read_off s)") auto

declare GetString_loop.simps [simp del]

text \<open>\<open>GetString\<close>: the target string keeps its contents (\<open>None\<close>) when nothing can be read.\<close>

definition GetString :: "bitstream \<Rightarrow> (u8 list option \<times> bitstream) option" where
  "GetString s =
    (if GetReadableBits s < 8 then Some (None, setLastError 1 s)
     else do { (str, s) \<leftarrow> GetString_loop [] s; Some (Some str, s) })"

definition GetFloat :: "'a bitstream_scheme \<Rightarrow> (u32 \<times> 'a bitstream_scheme) option" where
  "GetFloat s =
    (if m_byteAligned s
     then do { (res, s) \<leftarrow> Get 4 s;
               Some (case res of None \<Rightarrow> 0 | Some bs \<Rightarrow> word32_of bs, s) }
     else GetBits BITS_PER_UINT32 s)"

text \<open>
  \<open>Get64Bits\<close>: a three bit byte count and then the low word. Above four bytes the first word
  read is sign-extended into the result and the rest goes to the high word.
\<close>

definition Get64Bits :: "'a bitstream_scheme \<Rightarrow> (u64 \<times> 'a bitstream_scheme) option" where
  "Get64Bits s =
    do { (count, s) \<leftarrow> GetBits 3 s;
         let byte_count = sint count;
         if byte_count > 4 then do {
           (low, s) \<leftarrow> GetBits BITS_PER_UINT32 s;
           (high, s) \<leftarrow> GetBits (wrap32 (8 * (byte_count - 4))) s;
           Some (ucast low OR push_bit 32 (ucast high), s) }
         else do {
           (low, s) \<leftarrow> GetBits (wrap32 (8 * byte_count)) s;
           Some (ucast low, s) } }"

section \<open>Whole streams and compressed strings\<close>

function appendBitStream_loop :: "nat \<Rightarrow> 'a bitstream_scheme \<Rightarrow> 'b bitstream_scheme \<Rightarrow>
    ('a bitstream_scheme \<times> 'b bitstream_scheme) option" where
  "appendBitStream_loop bits_to_store s src =
    (if bits_to_store > 32 then
       do { (v, src) \<leftarrow> uGetBits 32 src;
            s \<leftarrow> StoreBits 32 v s;
            appendBitStream_loop (bits_to_store - 32) s src }
     else
       do { (v, src) \<leftarrow> uGetBits bits_to_store src;
            s \<leftarrow> StoreBits bits_to_store v s;
            Some (s, src) })"
  by pat_completeness auto
termination
  by (relation "measure (\<lambda>(n, _, _). n)") auto

declare appendBitStream_loop.simps [simp del]

definition appendBitStream :: "'a bitstream_scheme \<Rightarrow> 'b bitstream_scheme \<Rightarrow>
    ('a bitstream_scheme \<times> 'b bitstream_scheme) option" where
  "appendBitStream s src = appendBitStream_loop (GetReadableBits src) s src"

text \<open>
  The compression service is chosen at run time by the service locator; it is the parameter
  \<open>compressData\<close>, respectively \<open>uncompressZip\<close>.
\<close>

definition CompressAndStoreString ::
    "(u8 list \<Rightarrow> u8 list) \<Rightarrow> u8 list \<Rightarrow> bitstream \<Rightarrow> bitstream option" where
  "CompressAndStoreString compressData str s =
    do { n \<leftarrow> c_strlen str;
         let decompLen = n + 1;
         let res = compressData (take decompLen str);
         let len = length res;
         s \<leftarrow> StorePackedBits 1 (of_nat len) s;
         s \<leftarrow> StorePackedBits 1 (of_nat decompLen) s;
         StoreBitArray res (len * 8) s }"

definition GetAndDecompressString ::
    "(u8 list \<Rightarrow> nat \<Rightarrow> u8 list) \<Rightarrow> bitstream \<Rightarrow> (u8 list \<times> bitstream) option" where
  "GetAndDecompressString uncompressZip s =
    do { (len, s) \<leftarrow> GetPackedBits 1 s;
         (decompLen, s) \<leftarrow> GetPackedBits 1 s;
         (src, s) \<leftarrow> GetBitArray (unat (push_bit 3 len)) s;
         let src = (case src of None \<Rightarrow> fresh_bytes (m_fresh s) (unat len)
                    | Some bs \<Rightarrow> bs @ drop (length bs) (fresh_bytes (m_fresh s) (unat len)));
         Some (uncompressZip src (unat decompLen), s) }"

end
