(* ===== verification/Bit_Fifo.thy ===== *)
theory Bit_Fifo
  imports Prelude
begin

text \<open>
  The contract of the serialisation layer: a stream of bits behaves as a first-in first-out
  queue. A sink appends the low \<open>n\<close> bits of a word, a source takes \<open>n\<close> bits from the front.
  \<open>room\<close> is a number of bits that are guaranteed to fit still. The \<open>packed\<close> locales add the
  variable length encoding of numbers, given by the recursions the code uses on both sides;
  everything the packets of the protocol need about it is proved here once.
\<close>

locale bit_source =
  fixes ok :: "'s \<Rightarrow> bool"
    and bits :: "'s \<Rightarrow> bool list"
    and get :: "nat \<Rightarrow> 's \<Rightarrow> (u32 \<times> 's) option"
  assumes get_law: "ok s \<Longrightarrow> 0 < n \<Longrightarrow> n \<le> 32 \<Longrightarrow> bits s = bits_of n d @ rest \<Longrightarrow>
      \<exists>s'. get n s = Some (take_bit n d, s') \<and> ok s' \<and> bits s' = rest"

locale bit_sink =
  fixes ok :: "'s \<Rightarrow> bool"
    and bits :: "'s \<Rightarrow> bool list"
    and room :: "'s \<Rightarrow> nat"
    and put :: "nat \<Rightarrow> u32 \<Rightarrow> 's \<Rightarrow> 's option"
  assumes put_law: "ok s \<Longrightarrow> 0 < n \<Longrightarrow> n \<le> 32 \<Longrightarrow> n \<le> room s \<Longrightarrow>
      \<exists>s'. put n d s = Some s' \<and> ok s' \<and> bits s' = bits s @ bits_of n d \<and> room s \<le> room s' + n"

locale bit_fifo = bit_source ok bits get + bit_sink ok bits room put
  for ok :: "'s \<Rightarrow> bool" and bits :: "'s \<Rightarrow> bool list" and get :: "nat \<Rightarrow> 's \<Rightarrow> (u32 \<times> 's) option"
    and room :: "'s \<Rightarrow> nat" and put :: "nat \<Rightarrow> u32 \<Rightarrow> 's \<Rightarrow> 's option"
begin

text \<open>What one writer puts into an empty queue, a reader takes out of it again.\<close>

lemma put_get:
  assumes "ok s" "bits s = []" "0 < n" "n \<le> 32" "n \<le> room s"
  shows "\<exists>s1 s2. put n d s = Some s1 \<and> get n s1 = Some (take_bit n d, s2) \<and> ok s2 \<and> bits s2 = []"
proof -
  obtain s1 where s1: "put n d s = Some s1" "ok s1" "bits s1 = bits_of n d @ []"
    using put_law [OF assms(1,3,4,5), of d] assms(2) by auto
  from get_law [OF s1(2) assms(3,4) s1(3)] s1(1) show ?thesis by blast
qed

end

section \<open>Packed numbers\<close>

text \<open>
  The encoding: as long as the value does not fit below the all-ones pattern of the current
  width, an all-ones group is sent and the width doubled, up to 32 bits.
\<close>

function packed :: "nat \<Rightarrow> u32 \<Rightarrow> bool list" where
  "packed n d =
    (if 0 < n \<and> n < 32 \<and> mask n \<le> d
     then bits_of n (mask n :: u32) @ packed (min (2 * n) 32) (d - mask n)
     else bits_of n d)"
  by pat_completeness auto
termination
  by (relation "measure (\<lambda>(n, _). 32 - n)") auto

declare packed.simps [simp del]

lemma packed_small: "\<not> (0 < n \<and> n < 32 \<and> mask n \<le> d) \<Longrightarrow> packed n d = bits_of n d"
  using packed.simps [of n d] by argo

lemma packed_step:
  "0 < n \<Longrightarrow> n < 32 \<Longrightarrow> mask n \<le> d \<Longrightarrow>
   packed n d = bits_of n (mask n :: u32) @ packed (min (2 * n) 32) (d - mask n)"
  by (subst packed.simps) simp

lemma packed_not_Nil: "0 < n \<Longrightarrow> packed n d \<noteq> []"
  by (subst packed.simps) (auto simp: bits_of_def)

lemma length_packed_le: "0 < n \<Longrightarrow> n \<le> 32 \<Longrightarrow> length (packed n d) \<le> (if n < 32 then 96 - n else 32)"
proof (induction n d rule: packed.induct)
  case (1 n d)
  show ?case
  proof (cases "n < 32 \<and> mask n \<le> d")
    case False
    then show ?thesis using "1.prems" by (auto simp: packed_small)
  next
    case True
    with "1.prems" "1.IH" have "length (packed (min (2 * n) 32) (d - mask n))
        \<le> (if min (2 * n) 32 < 32 then 96 - min (2 * n) 32 else 32)" by simp
    with True "1.prems" show ?thesis by (auto simp: packed_step split: if_splits)
  qed
qed

lemma length_packed_le_96: "0 < n \<Longrightarrow> n \<le> 32 \<Longrightarrow> length (packed n d) \<le> 96"
  using length_packed_le [of n d] by (auto split: if_splits)

lemma below_mask_take_bit:
  fixes d :: u32
  assumes "d < mask n" shows "take_bit n d = d"
proof -
  have "uint d < mask (min 32 n)" using assms by (simp add: word_less_def uint_mask_eq)
  also have "\<dots> \<le> 2 ^ min 32 n" by (simp add: mask_eq_exp_minus_1)
  also have "\<dots> \<le> (2 :: int) ^ n" by simp
  finally have "d AND mask n = d" by (simp only: mask_eq_iff)
  then show ?thesis by (simp only: take_bit_eq_mask)
qed

locale packed_source = bit_source ok bits get
  for ok :: "'s \<Rightarrow> bool" and bits :: "'s \<Rightarrow> bool list" and get :: "nat \<Rightarrow> 's \<Rightarrow> (u32 \<times> 's) option" +
  fixes gets :: "nat \<Rightarrow> u32 \<Rightarrow> 's \<Rightarrow> (u32 \<times> 's) option"
  assumes gets_eq: "ok s \<Longrightarrow> bits s \<noteq> [] \<Longrightarrow> 0 < n \<Longrightarrow> n \<le> 32 \<Longrightarrow> gets n acc s =
      (case get n s of None \<Rightarrow> None
       | Some (v, s) \<Rightarrow>
          if v < mask n \<or> n = 32 then Some (v + acc, s)
          else gets (if n * 2 > 32 then 32 else n * 2) (acc + mask n) s)"
begin

lemma gets_packed:
  "ok s \<Longrightarrow> 0 < n \<Longrightarrow> n \<le> 32 \<Longrightarrow> bits s = packed n d @ rest \<Longrightarrow>
   \<exists>s'. gets n acc s = Some (d + acc, s') \<and> ok s' \<and> bits s' = rest"
proof (induction n d arbitrary: s acc rule: packed.induct)
  case (1 n d)
  have ne: "bits s \<noteq> []" using "1.prems" by (simp add: packed_not_Nil)
  show ?case
  proof (cases "n < 32 \<and> mask n \<le> d")
    case False
    then have "bits s = bits_of n d @ rest" using "1.prems"(4) by (simp add: packed_small)
    from get_law [OF "1.prems"(1-3) this] obtain s' where
      s': "get n s = Some (take_bit n d, s')" "ok s'" "bits s' = rest" by blast
    have "take_bit n d = d"
      using False "1.prems"(3) by (cases "n = 32")
        (auto simp: below_mask_take_bit take_bit_word_beyond_length_eq)
    with s' False "1.prems" ne show ?thesis by (subst gets_eq) auto
  next
    case True
    let ?n = "min (2 * n) 32" and ?d = "d - mask n"
    have "bits s = bits_of n (mask n :: u32) @ packed ?n ?d @ rest"
      using True "1.prems" by (simp add: packed_step)
    from get_law [OF "1.prems"(1-3) this] obtain s1 where
      s1: "get n s = Some (mask n, s1)" "ok s1" "bits s1 = packed ?n ?d @ rest"
      by (auto simp: take_bit_of_mask)
    obtain s2 where "gets ?n (acc + mask n) s1 = Some (?d + (acc + mask n), s2)" "ok s2" "bits s2 = rest"
      using "1.IH" [of s1 "acc + mask n"] True "1.prems" s1 by auto
    moreover have "(if n * 2 > 32 then 32 else n * 2) = ?n" by (auto simp: min_def)
    ultimately show ?thesis using True "1.prems" ne s1 by (subst gets_eq) (auto simp: algebra_simps)
  qed
qed

end

locale packed_sink = bit_sink ok bits room put
  for ok :: "'s \<Rightarrow> bool" and bits :: "'s \<Rightarrow> bool list"
    and room :: "'s \<Rightarrow> nat" and put :: "nat \<Rightarrow> u32 \<Rightarrow> 's \<Rightarrow> 's option" +
  fixes puts :: "nat \<Rightarrow> u32 \<Rightarrow> 's \<Rightarrow> 's option"
  assumes puts_eq: "ok s \<Longrightarrow> 0 < n \<Longrightarrow> puts n d s =
      (if n < 32 \<and> mask n \<le> d
       then Option.bind (put n (mask n) s) (puts (min (n * 2) 32) (d - mask n))
       else put n d s)"
begin

lemma puts_packed:
  "ok s \<Longrightarrow> 0 < n \<Longrightarrow> n \<le> 32 \<Longrightarrow> length (packed n d) \<le> room s \<Longrightarrow>
   \<exists>s'. puts n d s = Some s' \<and> ok s' \<and> bits s' = bits s @ packed n d \<and>
     room s \<le> room s' + length (packed n d)"
proof (induction n d arbitrary: s rule: packed.induct)
  case (1 n d)
  show ?case
  proof (cases "n < 32 \<and> mask n \<le> d")
    case False
    then have p: "packed n d = bits_of n d" by (simp add: packed_small)
    have "puts n d s = put n d s" using False "1.prems" by (subst puts_eq) auto
    with put_law [OF "1.prems"(1-3), of d] "1.prems"(4) p show ?thesis by simp
  next
    case True
    let ?n = "min (2 * n) 32" and ?d = "d - mask n"
    have p: "packed n d = bits_of n (mask n :: u32) @ packed ?n ?d"
      using True "1.prems" by (simp add: packed_step)
    obtain s1 where s1: "put n (mask n) s = Some s1" "ok s1"
        "bits s1 = bits s @ bits_of n (mask n :: u32)" "room s \<le> room s1 + n"
      using put_law [OF "1.prems"(1-3), of "mask n"] "1.prems"(4) p by auto
    obtain s2 where s2: "puts ?n ?d s1 = Some s2" "ok s2" "bits s2 = bits s1 @ packed ?n ?d"
        "room s1 \<le> room s2 + length (packed ?n ?d)"
      using "1.IH" [of s1] True "1.prems" s1 p by auto
    have "puts n d s = Some s2"
      using True "1.prems"(1,2) s1(1) s2(1) by (subst puts_eq) (auto simp: mult.commute)
    with s1 s2 p show ?thesis by auto
  qed
qed

end

locale packed_fifo = bit_fifo ok bits get room put + packed_source ok bits get gets + packed_sink ok bits room put puts
  for ok :: "'s \<Rightarrow> bool" and bits :: "'s \<Rightarrow> bool list" and get :: "nat \<Rightarrow> 's \<Rightarrow> (u32 \<times> 's) option"
    and room :: "'s \<Rightarrow> nat" and put :: "nat \<Rightarrow> u32 \<Rightarrow> 's \<Rightarrow> 's option"
    and gets :: "nat \<Rightarrow> u32 \<Rightarrow> 's \<Rightarrow> (u32 \<times> 's) option"
    and puts :: "nat \<Rightarrow> u32 \<Rightarrow> 's \<Rightarrow> 's option"
begin

text \<open>The round trip of the packed encoding.\<close>

lemma packed_roundtrip:
  assumes "ok s" "bits s = []" "0 < n" "n \<le> 32" "96 \<le> room s"
  shows "\<exists>s1 s2. puts n d s = Some s1 \<and> gets n 0 s1 = Some (d, s2) \<and> ok s2 \<and> bits s2 = []"
proof -
  have "length (packed n d) \<le> room s" using length_packed_le_96 [OF assms(3,4), of d] assms(5) by simp
  from puts_packed [OF assms(1,3,4) this] assms(2) obtain s1 where
    s1: "puts n d s = Some s1" "ok s1" "bits s1 = packed n d @ []" by auto
  from gets_packed [OF s1(2) assms(3,4) s1(3), of 0] s1(1) show ?thesis by auto
qed

end

end
