(* ===== verification/BitStream_Correct.thy ===== *)
theory BitStream_Correct
  imports BitStream Bit_Fifo
begin

unbundle bit_operations_syntax

text \<open>
  The bit stream is a queue of bits. \<open>mem_bit\<close> reads the allocation as one sequence of bits;
  the contents of a stream are the bits between its read and its write position. Each
  unaligned 64-bit access of the code is shown to write, respectively read, exactly the bits
  it should, and the class is an instance of the contract of \<^theory_text>\<open>Bit_Fifo\<close>.
\<close>

section \<open>Memory as bits\<close>

definition mem_bit :: "u8 list \<Rightarrow> nat \<Rightarrow> bool" where
  "mem_bit mem i = bit (mem ! (i div 8)) (i mod 8)"

lemma bit_foldr_bytes:
  fixes bs :: "u8 list"
  shows "bit (foldr (\<lambda>b w. ucast b OR push_bit 8 w) bs 0 :: u64) k \<longleftrightarrow>
   k < 64 \<and> k < 8 * length bs \<and> bit (bs ! (k div 8)) (k mod 8)"
proof (induction bs arbitrary: k)
  case Nil
  then show ?case by simp
next
  case (Cons b bs)
  show ?case
  proof (cases "k < 8")
    case True
    then show ?thesis by (auto simp: bit_simps)
  next
    case False
    then have "k div 8 = Suc ((k - 8) div 8)" "k mod 8 = (k - 8) mod 8"
      by (auto simp: le_div_geq le_mod_geq)
    moreover have "\<not> bit b k" using False by (auto dest: bit_imp_le_length)
    ultimately show ?thesis using False Cons.IH [of "k - 8"]
      by (auto simp: bit_or_iff bit_unsigned_iff bit_push_bit_iff)
  qed
qed

lemma load64_bit:
  assumes "load64 mem off = Some w" "k < 64"
  shows "bit w k = mem_bit mem (8 * off + k)"
proof -
  have len: "off + 8 \<le> length mem"
    and w: "w = foldr (\<lambda>b w. ucast b OR push_bit 8 w) (block mem off 8) 0"
    using assms(1) by (auto simp: load64_def split: if_splits)
  have "k div 8 < 8" using assms(2) by simp
  with len assms(2) show ?thesis by (simp add: w bit_foldr_bytes mem_bit_def)
qed

lemma length_bytes64 [simp]: "length (bytes64 w) = 8"
  by (simp add: bytes64_def)

lemma bit_bytes64: "i < 64 \<Longrightarrow> bit (bytes64 w ! (i div 8)) (i mod 8) = bit w i"
proof -
  assume "i < 64"
  then have "i div 8 < 8" by simp
  then have "[0..<8] ! (i div 8) = i div 8" by (subst nth_upt) simp_all
  with \<open>i div 8 < 8\<close> show ?thesis by (simp add: bytes64_def bit_unsigned_iff bit_drop_bit_eq)
qed

lemma store64_length: "store64 mem off w = Some mem' \<Longrightarrow> length mem' = length mem"
  by (auto simp: store64_def split: if_splits)

lemma store64_bit:
  assumes "store64 mem off w = Some mem'" "i < 8 * length mem"
  shows "mem_bit mem' i = (if 8 * off \<le> i \<and> i < 8 * off + 64 then bit w (i - 8 * off) else mem_bit mem i)"
proof -
  have len: "off + 8 \<le> length mem" and m: "mem' = overwrite mem off (bytes64 w)"
    using assms(1) by (auto simp: store64_def split: if_splits)
  have idx: "i div 8 < length mem" using assms(2) by simp
  have eq: "(off \<le> i div 8 \<and> i div 8 < off + 8) = (8 * off \<le> i \<and> i < 8 * off + 64)"
    by auto
  show ?thesis
  proof (cases "8 * off \<le> i \<and> i < 8 * off + 64")
    case True
    have "i div 8 - off = (i - 8 * off) div 8" "i mod 8 = (i - 8 * off) mod 8"
      using True by (auto simp: mod_eq_dvd_iff_nat)
    moreover have "i - 8 * off < 64" using True by auto
    ultimately show ?thesis using True eq idx len bit_bytes64 [of "i - 8 * off" w]
      by (simp add: m mem_bit_def nth_overwrite)
  next
    case False
    with eq idx len show ?thesis by (auto simp: m mem_bit_def nth_overwrite)
  qed
qed

section \<open>Masks\<close>

lemma bit_BIT_MASK: "n \<le> 32 \<Longrightarrow> bit (BIT_MASK n) k \<longleftrightarrow> k < n"
  unfolding BIT_MASK_def
  by (auto simp: bit_unsigned_iff push_bit_eq_mult simp flip: mask_eq_exp_minus_1 simp: bit_mask_iff)

lemma BIT_MASK_mask: "n \<le> 32 \<Longrightarrow> BIT_MASK n = mask n"
  by (rule bit_word_eqI) (simp add: bit_BIT_MASK bit_mask_iff)

lemma bit_get_mask:
  "0 < n \<Longrightarrow> n \<le> 32 \<Longrightarrow> bit (drop_bit (64 - n) (NOT 1) :: u64) k \<longleftrightarrow> k < n"
  by (auto simp: bit_drop_bit_eq bit_not_iff bit_1_iff)

lemma bit_get_mask':
  "0 < n \<Longrightarrow> n \<le> 32 \<Longrightarrow> bit (drop_bit (64 - n) (- 2) :: u64) k \<longleftrightarrow> k < n"
  using bit_get_mask [of n k] by simp

section \<open>The two unaligned accesses\<close>

lemma uStoreBits_spec:
  assumes "m_write_bit_off s < 8" "n \<le> 32" "m_write_off s + 7 < m_size s + m_safe_area s"
    "m_write_off s + 8 \<le> length (m_buf s)"
  shows "\<exists>mem. uStoreBits n d s = Some ((SetWritePos (GetWritePos s + n) s)\<lparr>m_buf := mem\<rparr>) \<and>
    length mem = length (m_buf s) \<and>
    (\<forall>i < GetWritePos s. mem_bit mem i = mem_bit (m_buf s) i) \<and>
    (\<forall>k < n. mem_bit mem (GetWritePos s + k) = bit d k)"
proof -
  let ?off = "m_write_off s" and ?wb = "m_write_bit_off s"
  obtain tp where tp: "load64 (m_buf s) ?off = Some tp"
    using assms(4) by (simp add: load64_def)
  define w where "w = push_bit ?wb (ucast d :: u64) OR (tp AND NOT (push_bit ?wb (ucast (BIT_MASK n) :: u64)))"
  obtain mem where mem: "store64 (m_buf s) ?off w = Some mem"
    using assms(4) by (simp add: store64_def)
  have pos: "(?off * 8 + ?wb + n) div 8 = ?off + (?wb + n) div 8"
    "(?off * 8 + ?wb + n) mod 8 = (?wb + n) mod 8"
    by (simp_all add: add.assoc)
  have "uStoreBits n d s = Some ((SetWritePos (GetWritePos s + n) s)\<lparr>m_buf := mem\<rparr>)"
    using assms(2,3) tp mem
    by (simp add: uStoreBits_def BITS_PER_UINT32_def Let_def w_def SetWritePos_def GetWritePos_def pos)
  moreover have "mem_bit mem i = mem_bit (m_buf s) i" if i: "i < GetWritePos s" for i
  proof (cases "i < 8 * ?off")
    case True
    then show ?thesis using store64_bit [OF mem, of i] assms(4) by auto
  next
    case False
    define j where "j = i - 8 * ?off"
    have j: "i = 8 * ?off + j" "j < ?wb" using False i by (auto simp: j_def GetWritePos_def)
    have "mem_bit mem i = bit w j"
      using store64_bit [OF mem, of i] assms(1,4) j by auto
    also have "\<dots> = bit tp j"
      using j(2) assms(1) by (simp add: w_def bit_or_iff bit_and_iff bit_not_iff bit_push_bit_iff)
    also have "\<dots> = mem_bit (m_buf s) i"
      using load64_bit [OF tp, of j] j assms(1) by simp
    finally show ?thesis .
  qed
  moreover have "mem_bit mem (GetWritePos s + k) = bit d k" if k: "k < n" for k
  proof -
    have lt: "?wb + k < 64" using k assms(1,2) by simp
    have "mem_bit mem (GetWritePos s + k) = bit w (?wb + k)"
      using store64_bit [OF mem, of "GetWritePos s + k"] lt assms(4)
      by (simp add: GetWritePos_def)
    also have "\<dots> = bit d k"
      using k lt assms(1,2)
      by (simp add: w_def bit_or_iff bit_and_iff bit_not_iff bit_push_bit_iff bit_unsigned_iff bit_BIT_MASK)
    finally show ?thesis .
  qed
  ultimately show ?thesis using store64_length [OF mem] by blast
qed

lemma uGetBits_spec:
  assumes "m_read_bit_off s < 8" "0 < n" "n \<le> 32" "n \<le> GetReadableBits s"
    "m_read_off s + 7 < m_size s + m_safe_area s" "m_read_off s + 8 \<le> length (m_buf s)"
  shows "\<exists>v. uGetBits n s = Some (v, SetReadPos (GetReadPos s + n) s) \<and>
    (\<forall>k. bit v k \<longleftrightarrow> k < n \<and> mem_bit (m_buf s) (GetReadPos s + k))"
proof -
  let ?off = "m_read_off s" and ?rb = "m_read_bit_off s"
  obtain tp where tp: "load64 (m_buf s) ?off = Some tp"
    using assms(6) by (simp add: load64_def)
  define v where "v = (ucast (drop_bit ?rb tp AND drop_bit (64 - n) (NOT 1)) :: u32)"
  have n: "(n - 1) mod 32 + 1 = n" using assms(2,3) by simp
  have pos: "(?off * 8 + ?rb + n) div 8 = ?off + (?rb + n) div 8"
    "(?off * 8 + ?rb + n) mod 8 = (?rb + n) mod 8"
    by (simp_all add: add.assoc)
  have "uGetBits n s = Some (v, SetReadPos (GetReadPos s + n) s)"
    using assms(2-5) tp
    by (simp add: uGetBits_def BITS_PER_UINT32_def Let_def n v_def SetReadPos_def GetReadPos_def pos)
  moreover have "bit v k \<longleftrightarrow> k < n \<and> mem_bit (m_buf s) (GetReadPos s + k)" for k
  proof (cases "k < n")
    case True
    then have "bit v k = bit tp (?rb + k)"
      using assms(2,3)
      by (auto simp: v_def bit_unsigned_iff bit_and_iff bit_get_mask bit_drop_bit_eq)
    also have "\<dots> = mem_bit (m_buf s) (8 * ?off + (?rb + k))"
      by (rule load64_bit [OF tp]) (use True assms in simp)
    finally show ?thesis using True by (simp add: GetReadPos_def add.assoc mult.commute)
  next
    case False
    then show ?thesis using assms(2,3) by (simp add: v_def bit_unsigned_iff bit_and_iff bit_get_mask')
  qed
  ultimately show ?thesis by blast
qed

section \<open>Well-formed streams and their contents\<close>

text \<open>
  \<open>reader_ok\<close> is what reading needs: the read position is not behind the write position, and
  seven bytes follow the last written one inside the allocation. \<open>stream_ok\<close> is what writing
  needs as well. Its last clause excludes the one state in which growing loses a byte.
\<close>

definition contents :: "'a bitstream_scheme \<Rightarrow> bool list" where
  "contents s = map (mem_bit (m_buf s)) [GetReadPos s..<GetWritePos s]"

definition reader_ok :: "'a bitstream_scheme \<Rightarrow> bool" where
  "reader_ok s \<longleftrightarrow>
     m_read_bit_off s < 8 \<and> m_write_bit_off s < 8 \<and> GetReadPos s \<le> GetWritePos s \<and>
     GetWritePos s < 2147483648 \<and> \<not> m_byteAligned s \<and>
     (GetReadPos s < GetWritePos s \<longrightarrow>
        GetWritePos s + 56 \<le> 8 * length (m_buf s) \<and>
        GetWritePos s + 56 \<le> 8 * (m_size s + m_safe_area s))"

definition stream_ok :: "'a bitstream_scheme \<Rightarrow> bool" where
  "stream_ok s \<longleftrightarrow>
     buf_inv s \<and> m_safe_area s = 7 \<and> m_read_bit_off s < 8 \<and> m_write_bit_off s < 8 \<and>
     GetReadPos s \<le> GetWritePos s \<and> GetWritePos s \<le> 8 * m_size s \<and> \<not> m_byteAligned s \<and>
     m_size s < 268435456 \<and> 1048576 \<le> m_max_size s \<and>
     (m_size s = 0 \<or> 8 \<le> m_size s \<or> 1 < m_write_off s)"

lemma stream_ok_reader_ok: "stream_ok s \<Longrightarrow> reader_ok s"
  by (auto simp: stream_ok_def reader_ok_def buf_inv_def GetWritePos_def)

lemma readable_bits:
  assumes "reader_ok s"
  shows "GetReadableBits s = GetWritePos s - GetReadPos s" "GetReadableBits s = length (contents s)"
proof -
  have off: "m_read_off s \<le> m_write_off s" "m_write_off s < 268435456"
    and le: "m_read_off s * 8 + m_read_bit_off s \<le> m_write_off s * 8 + m_write_bit_off s"
    using assms by (auto simp: reader_ok_def GetReadPos_def GetWritePos_def)
  have "int (GetReadableDataSize s) = int (m_write_off s) - int (m_read_off s)"
    using off by (simp add: GetReadableDataSize_def nat_diff_distrib')
  then have "int (GetReadableDataSize s) * 8 + (int (m_write_bit_off s) - int (m_read_bit_off s))
      = int (GetWritePos s) - int (GetReadPos s)"
    by (simp add: GetReadPos_def GetWritePos_def)
  moreover have "int (GetWritePos s) - int (GetReadPos s) < 4294967296"
    "0 \<le> int (GetWritePos s) - int (GetReadPos s)"
    using assms by (auto simp: reader_ok_def)
  ultimately show "GetReadableBits s = GetWritePos s - GetReadPos s"
    by (simp add: GetReadableBits_def nat_diff_distrib')
  then show "GetReadableBits s = length (contents s)" by (simp add: contents_def)
qed

lemma pos_SetReadPos [simp]:
  "GetReadPos (SetReadPos p s) = p" "GetWritePos (SetReadPos p s) = GetWritePos s"
  by (simp_all add: GetReadPos_def SetReadPos_def GetWritePos_def)

lemma pos_SetWritePos [simp]:
  "GetWritePos (SetWritePos p s) = p" "GetReadPos (SetWritePos p s) = GetReadPos s"
  by (simp_all add: GetReadPos_def SetWritePos_def GetWritePos_def)

lemma SetReadPos_fields [simp]:
  "m_buf (SetReadPos p s) = m_buf s" "m_size (SetReadPos p s) = m_size s"
  "m_write_off (SetReadPos p s) = m_write_off s" "m_read_off (SetReadPos p s) = p div 8"
  "m_read_bit_off (SetReadPos p s) = p mod 8" "m_write_bit_off (SetReadPos p s) = m_write_bit_off s"
  "m_byteAligned (SetReadPos p s) = m_byteAligned s" "m_safe_area (SetReadPos p s) = m_safe_area s"
  "m_max_size (SetReadPos p s) = m_max_size s"
  by (simp_all add: SetReadPos_def)

lemma SetWritePos_fields [simp]:
  "m_buf (SetWritePos p s) = m_buf s" "m_size (SetWritePos p s) = m_size s"
  "m_write_off (SetWritePos p s) = p div 8" "m_read_off (SetWritePos p s) = m_read_off s"
  "m_read_bit_off (SetWritePos p s) = m_read_bit_off s" "m_write_bit_off (SetWritePos p s) = p mod 8"
  "m_byteAligned (SetWritePos p s) = m_byteAligned s" "m_safe_area (SetWritePos p s) = m_safe_area s"
  "m_max_size (SetWritePos p s) = m_max_size s"
  by (simp_all add: SetWritePos_def)

text \<open>Taking bits from the front.\<close>

lemma contents_SetReadPos:
  assumes "n \<le> length (contents s)" "GetReadPos s \<le> GetWritePos s"
  shows "contents (SetReadPos (GetReadPos s + n) s) = drop n (contents s)"
  by (simp add: contents_def drop_map)

lemma GetBits_takes:
  assumes ok: "reader_ok s" and n: "0 < n" "n \<le> 32" and c: "contents s = bits_of n d @ rest"
  shows "GetBits n s = Some (take_bit n d, SetReadPos (GetReadPos s + n) s) \<and>
    reader_ok (SetReadPos (GetReadPos s + n) s) \<and>
    contents (SetReadPos (GetReadPos s + n) s) = rest"
proof -
  have len: "n \<le> length (contents s)" using c by simp
  then have le: "GetReadPos s + n \<le> GetWritePos s"
    using readable_bits [OF ok] ok by (auto simp: reader_ok_def)
  have rd: "n \<le> GetReadableBits s" using len readable_bits [OF ok] by simp
  have mem: "m_read_off s + 8 \<le> length (m_buf s)" "m_read_off s + 7 < m_size s + m_safe_area s"
    using ok n(1) le by (auto simp: reader_ok_def GetReadPos_def)
  obtain v where v: "uGetBits n s = Some (v, SetReadPos (GetReadPos s + n) s)"
    and bits: "\<forall>k. bit v k \<longleftrightarrow> k < n \<and> mem_bit (m_buf s) (GetReadPos s + k)"
    using uGetBits_spec [OF _ n rd mem(2,1)] ok by (auto simp: reader_ok_def)
  have "mem_bit (m_buf s) (GetReadPos s + k) = bit d k" if "k < n" for k
  proof -
    have "contents s ! k = bits_of n d ! k" using c that by (simp add: nth_append)
    then show ?thesis using that le by (simp add: contents_def)
  qed
  then have "v = take_bit n d"
    by (intro bit_word_eqI) (auto simp: bits bit_take_bit_iff)
  moreover have "GetBits n s = uGetBits n s"
    using rd ok by (simp add: GetBits_def reader_ok_def)
  moreover have "reader_ok (SetReadPos (GetReadPos s + n) s)"
    using ok le by (auto simp: reader_ok_def)
  moreover have "contents (SetReadPos (GetReadPos s + n) s) = rest"
    using contents_SetReadPos [OF len] le c by simp
  ultimately show ?thesis using v by simp
qed

section \<open>Appending bits\<close>

text \<open>Positions up to \<open>max_pos\<close> can always be reached without the size check of \<open>resize\<close> failing.\<close>

definition max_pos :: nat where
  "max_pos = 8384000"

definition room :: "'a bitstream_scheme \<Rightarrow> nat" where
  "room s = max_pos - GetWritePos s"

lemma writable_eq:
  assumes "stream_ok s"
  shows "int (GetWritableBits s) =
    max 0 ((int (m_size s) - int (m_write_off s) - (if m_write_bit_off s \<noteq> 0 then 1 else 0)) * 8
           - int (m_write_bit_off s))"
proof -
  have sz: "m_write_off s \<le> m_size s" "m_size s < 268435456" "m_write_bit_off s < 8"
    "GetWritePos s \<le> 8 * m_size s"
    using assms by (auto simp: stream_ok_def buf_inv_def)
  define a where "a = int (m_size s) - int (m_write_off s) - (if m_write_bit_off s \<noteq> 0 then 1 else 0)"
  have a: "0 \<le> a" "a < 268435456"
    using sz by (auto simp: a_def GetWritePos_def)
  have av: "int (GetAvailSize_bits s) = a"
    using a by (auto simp: GetAvailSize_bits_def a_def split: if_splits)
  have "int (wrap32 (int (GetAvailSize_bits s) * 8)) = a * 8"
    using a by (simp add: av)
  then have "int (GetWritableBits s) = max 0 (a * 8 - int (m_write_bit_off s))"
    using a sz(3) by (auto simp: GetWritableBits_def Let_def)
  then show ?thesis by (simp only: a_def)
qed

lemma writable_bits:
  assumes "stream_ok s" "n \<le> GetWritableBits s"
  shows "GetWritePos s + n \<le> 8 * m_size s"
  using writable_eq [OF assms(1)] assms
  by (auto simp: stream_ok_def buf_inv_def GetWritePos_def max_def split: if_splits)

lemma not_writable_bits:
  assumes "stream_ok s" "GetWritableBits s < n"
  shows "8 * m_size s < GetWritePos s + n + 8"
  using writable_eq [OF assms(1)] assms
  by (auto simp: stream_ok_def buf_inv_def GetWritePos_def max_def split: if_splits)

lemma contents_write:
  assumes "GetReadPos s \<le> GetWritePos s"
    and "\<forall>i < GetWritePos s. mem_bit mem i = mem_bit (m_buf s) i"
    and "\<forall>k < n. mem_bit mem (GetWritePos s + k) = xs ! k" and "length xs = n"
  shows "contents ((SetWritePos (GetWritePos s + n) s)\<lparr>m_buf := mem\<rparr>) = contents s @ xs"
proof -
  have pos: "GetReadPos ((SetWritePos (GetWritePos s + n) s)\<lparr>m_buf := mem\<rparr>) = GetReadPos s"
    "GetWritePos ((SetWritePos (GetWritePos s + n) s)\<lparr>m_buf := mem\<rparr>) = GetWritePos s + n"
    by (simp_all add: GetReadPos_def GetWritePos_def)
  have "[GetReadPos s..<GetWritePos s + n] = [GetReadPos s..<GetWritePos s] @ [GetWritePos s..<GetWritePos s + n]"
    using assms(1) by (rule upt_add_eq_append)
  moreover have "map (mem_bit mem) [GetWritePos s..<GetWritePos s + n] = xs"
    using assms(3,4) by (intro nth_equalityI) auto
  moreover have "map (mem_bit mem) [GetReadPos s..<GetWritePos s] = contents s"
    using assms(2) by (auto simp: contents_def)
  ultimately show ?thesis by (simp add: contents_def pos)
qed

lemma uStoreBits_appends:
  assumes ok: "stream_ok s" and n: "0 < n" "n \<le> 32" and fits: "GetWritePos s + n \<le> 8 * m_size s"
  shows "\<exists>s'. uStoreBits n d s = Some s' \<and> stream_ok s' \<and> contents s' = contents s @ bits_of n d \<and>
    GetWritePos s' = GetWritePos s + n \<and> GetReadPos s' = GetReadPos s \<and> m_size s' = m_size s"
proof -
  let ?s = "SetWritePos (GetWritePos s + n) s"
  have lt: "m_write_off s < m_size s" "0 < m_size s"
    using n(1) fits by (auto simp: GetWritePos_def)
  have len: "length (m_buf s) = m_size s + 7"
    using ok lt by (simp add: stream_ok_def buf_inv_def)
  obtain mem where mem: "uStoreBits n d s = Some (?s\<lparr>m_buf := mem\<rparr>)" "length mem = length (m_buf s)"
    "\<forall>i < GetWritePos s. mem_bit mem i = mem_bit (m_buf s) i"
    "\<forall>k < n. mem_bit mem (GetWritePos s + k) = bit d k"
    using uStoreBits_spec [of s n d] ok n lt len by (auto simp: stream_ok_def)
  have le: "m_write_off s \<le> (GetWritePos s + n) div 8"
    by (simp add: GetWritePos_def)
  have "(GetWritePos s + n) div 8 \<le> m_size s" using fits by simp
  moreover have "m_read_off s \<le> m_write_off s"
    using ok by (auto simp: stream_ok_def buf_inv_def)
  ultimately have inv: "buf_inv (?s\<lparr>m_buf := mem\<rparr>)"
    using ok lt len mem(2) le by (auto simp: stream_ok_def buf_inv_def)
  have pos: "GetReadPos (?s\<lparr>m_buf := mem\<rparr>) = GetReadPos s"
    "GetWritePos (?s\<lparr>m_buf := mem\<rparr>) = GetWritePos s + n"
    by (simp_all add: GetReadPos_def GetWritePos_def)
  have "stream_ok (?s\<lparr>m_buf := mem\<rparr>)"
    using ok inv fits le unfolding stream_ok_def by (auto simp: pos)
  moreover have "contents (?s\<lparr>m_buf := mem\<rparr>) = contents s @ bits_of n d"
    by (rule contents_write [OF _ mem(3)]) (use ok mem(4) in \<open>simp_all add: stream_ok_def\<close>)
  ultimately show ?thesis using mem(1) pos by auto
qed

lemma mem_bit_take:
  "take k a = take k b \<Longrightarrow> i < 8 * k \<Longrightarrow> mem_bit a i = mem_bit b i"
proof -
  assume eq: "take k a = take k b" and i: "i < 8 * k"
  have "take k a ! (i div 8) = take k b ! (i div 8)" using eq by simp
  moreover have "i div 8 < k" using i by simp
  ultimately show ?thesis by (simp add: mem_bit_def)
qed

lemma grown_stream:
  assumes ok: "stream_ok s" and g: "grown s acc s'" and acc: "acc < 1048576"
    and keep: "1 < m_write_off s \<or> GetWritePos s = 0" and big: "7 \<le> acc \<or> 8 \<le> m_size s"
  shows "stream_ok s' \<and> contents s' = contents s \<and> GetWritePos s' = GetWritePos s \<and>
    GetReadPos s' = GetReadPos s \<and> acc < m_size s'"
proof -
  have inv: "buf_inv s" using ok by (simp add: stream_ok_def)
  obtain buf sz where s': "s' = s\<lparr>m_buf := buf, m_size := sz\<rparr>" and sz: "m_size s \<le> sz" "acc \<le> sz"
      "sz = m_size s \<or> sz = min (2 * acc + 1) (m_max_size s)"
    and tk: "1 < m_write_off s \<or> sz = m_size s \<longrightarrow> take (m_size s) buf = take (m_size s) (m_buf s)"
    using g by (auto simp: grown_def)
  have pos: "GetReadPos s' = GetReadPos s" "GetWritePos s' = GetWritePos s"
    by (simp_all add: s' GetReadPos_def GetWritePos_def)
  have "contents s' = contents s"
  proof (cases "GetWritePos s = 0")
    case True
    then show ?thesis by (simp add: contents_def pos)
  next
    case False
    then have "take (m_size s) buf = take (m_size s) (m_buf s)" using keep tk by auto
    then have "mem_bit buf i = mem_bit (m_buf s) i" if "i < GetWritePos s" for i
      by (rule mem_bit_take) (use ok that in \<open>auto simp: stream_ok_def\<close>)
    moreover have "m_buf s' = buf" by (simp add: s')
    ultimately show ?thesis by (simp add: contents_def pos)
  qed
  moreover have lt: "acc < sz"
    using grown_fields(12) [OF g] acc ok by (simp add: s' stream_ok_def)
  moreover have "8 \<le> sz" "sz < 268435456"
    using sz acc big ok lt by (auto simp: stream_ok_def)
  then have "stream_ok s'"
    using ok grown_inv [OF inv g acc] sz unfolding stream_ok_def pos by (auto simp: s')
  ultimately show ?thesis using pos by (simp add: s')
qed

lemma StoreBits_appends:
  assumes ok: "stream_ok s" and n: "0 < n" "n \<le> 32" and fits: "GetWritePos s + n \<le> max_pos"
  shows "\<exists>s'. StoreBits n d s = Some s' \<and> stream_ok s' \<and> contents s' = contents s @ bits_of n d \<and>
    GetWritePos s' = GetWritePos s + n \<and> GetReadPos s' = GetReadPos s \<and> m_size s \<le> m_size s'"
proof (cases "GetWritableBits s < n")
  case False
  then have "GetWritePos s + n \<le> 8 * m_size s" using writable_bits [OF ok] by simp
  moreover have "StoreBits n d s = uStoreBits n d s"
    using False n ok by (simp add: StoreBits_def BITS_PER_UINT32_def stream_ok_def)
  ultimately show ?thesis using uStoreBits_appends [OF ok n, of d] by auto
next
  case True
  let ?acc = "m_size s + n div 8 + 7"
  have small: "8 * m_size s < GetWritePos s + n + 8" by (rule not_writable_bits [OF ok True])
  then have acc: "?acc < 1048576" using fits n(2) by (simp add: max_pos_def)
  have inv: "buf_inv s" and mx: "?acc \<le> m_max_size s"
    using ok acc by (auto simp: stream_ok_def)
  obtain s1 where r: "resize ?acc s = Some (0, s1)" and g: "grown s ?acc s1"
    using resize_grown [OF inv _ mx acc] by auto
  have keep: "1 < m_write_off s \<or> GetWritePos s = 0"
    using ok small n(2) unfolding stream_ok_def GetWritePos_def by auto
  have s1: "stream_ok s1" "contents s1 = contents s" "GetWritePos s1 = GetWritePos s"
    "GetReadPos s1 = GetReadPos s" "?acc \<le> m_size s1"
    using grown_stream [OF ok g acc keep] by auto
  have "GetWritePos s \<le> 8 * m_size s" using ok by (simp add: stream_ok_def)
  then have "GetWritePos s1 + n \<le> 8 * m_size s1" using s1(3,5) n(2) by simp
  from uStoreBits_appends [OF s1(1) n this, of d] obtain s2 where
    s2: "uStoreBits n d s1 = Some s2" "stream_ok s2" "contents s2 = contents s1 @ bits_of n d"
      "GetWritePos s2 = GetWritePos s1 + n" "GetReadPos s2 = GetReadPos s1" "m_size s2 = m_size s1"
    by blast
  have "StoreBits n d s = Some s2"
    using True n r s2(1) s1(1) by (simp add: StoreBits_def BITS_PER_UINT32_def stream_ok_def)
  with s1 s2 grown_fields(9) [OF g] show ?thesis by auto
qed

section \<open>The class meets the contract\<close>

interpretation reader: packed_source reader_ok "contents :: bitstream \<Rightarrow> bool list" GetBits GetPackedBits_loop
proof unfold_locales
  fix s :: bitstream and n d rest
  assume "reader_ok s" "0 < n" "n \<le> 32" "contents s = bits_of n (d :: u32) @ rest"
  from GetBits_takes [OF this]
  show "\<exists>s'. GetBits n s = Some (take_bit n d, s') \<and> reader_ok s' \<and> contents s' = rest" by blast
next
  fix s :: bitstream and n :: nat and acc :: u32
  assume ok: "reader_ok s" and ne: "contents s \<noteq> []" and n: "0 < n" "n \<le> 32"
  have "GetReadableBits s > 0" using ne readable_bits(2) [OF ok] by simp
  then show "GetPackedBits_loop n acc s =
      (case GetBits n s of None \<Rightarrow> None
       | Some (v, s) \<Rightarrow>
          if v < mask n \<or> n = 32 then Some (v + acc, s)
          else GetPackedBits_loop (if n * 2 > 32 then 32 else n * 2) (acc + mask n) s)"
    using n by (subst GetPackedBits_loop.simps)
      (auto simp: BIT_MASK_mask BITS_PER_UINT32_def split: option.split)
qed

interpretation stream: packed_fifo stream_ok "contents :: bitstream \<Rightarrow> bool list" GetBits room StoreBits
  GetPackedBits_loop StorePackedBits_loop
proof unfold_locales
  fix s :: bitstream and n d rest
  assume a: "stream_ok s" "0 < n" "n \<le> 32" "contents s = bits_of n (d :: u32) @ rest"
  let ?s = "SetReadPos (GetReadPos s + n) s"
  have g: "GetBits n s = Some (take_bit n d, ?s)" "reader_ok ?s" "contents ?s = rest"
    using GetBits_takes [OF stream_ok_reader_ok [OF a(1)] a(2-4)] by auto
  have le: "GetReadPos s + n \<le> GetWritePos s" using g(2) by (simp add: reader_ok_def)
  then have "(GetReadPos s + n) div 8 \<le> GetWritePos s div 8" by (rule div_le_mono)
  moreover have "GetWritePos s div 8 = m_write_off s"
    using a(1) by (simp add: stream_ok_def GetWritePos_def)
  ultimately have "stream_ok ?s"
    using a(1) le by (auto simp: stream_ok_def buf_inv_def)
  with g show "\<exists>s'. GetBits n s = Some (take_bit n d, s') \<and> stream_ok s' \<and> contents s' = rest" by blast
next
  fix s :: bitstream and n :: nat and d :: u32
  assume a: "stream_ok s" "0 < n" "n \<le> 32" "n \<le> room s"
  then have "GetWritePos s + n \<le> max_pos" by (simp add: room_def)
  from StoreBits_appends [OF a(1-3) this, of d]
  show "\<exists>s'. StoreBits n d s = Some s' \<and> stream_ok s' \<and> contents s' = contents s @ bits_of n d \<and>
      room s \<le> room s' + n" by (auto simp: room_def)
next
  fix s :: bitstream and n :: nat and acc :: u32
  assume a: "stream_ok s" "contents s \<noteq> []" "0 < n" "n \<le> 32"
  show "GetPackedBits_loop n acc s =
      (case GetBits n s of None \<Rightarrow> None
       | Some (v, s) \<Rightarrow>
          if v < mask n \<or> n = 32 then Some (v + acc, s)
          else GetPackedBits_loop (if n * 2 > 32 then 32 else n * 2) (acc + mask n) s)"
    by (rule reader.gets_eq [OF stream_ok_reader_ok [OF a(1)] a(2-4)])
next
  fix s :: bitstream and n :: nat and d :: u32
  assume "stream_ok s" "0 < n"
  show "StorePackedBits_loop n d s =
      (if n < 32 \<and> mask n \<le> d
       then Option.bind (StoreBits n (mask n) s) (StorePackedBits_loop (min (n * 2) 32) (d - mask n))
       else StoreBits n d s)"
    by (subst StorePackedBits_loop.simps, cases "n < 32")
      (simp_all add: BITS_PER_UINT32_def BIT_MASK_mask)
qed

end
