(* ===== verification/BitStream_Strings.thy ===== *)
theory BitStream_Strings
  imports BitStream_Correct
begin

unbundle bit_operations_syntax

text \<open>
  Strings and byte arrays in a bit stream. Storing a string appends the eight bits of each of
  its characters, whatever the bit position of the stream is; reading one takes characters up
  to the terminating zero byte. A bit array is appended at the next byte boundary.
\<close>

lemma div_mod_8: "x = 8 * q + r \<Longrightarrow> r < 8 \<Longrightarrow> x div 8 = q" "x = 8 * q + r \<Longrightarrow> r < 8 \<Longrightarrow> x mod 8 = r"
  for x q r :: nat
  by simp_all

section \<open>The bits of a sequence of bytes\<close>

definition str_bits :: "u8 list \<Rightarrow> bool list" where
  "str_bits cs = concat (map (bits_of 8) cs)"

lemma str_bits_Nil [simp]: "str_bits [] = []"
  by (simp add: str_bits_def)

lemma str_bits_Cons [simp]: "str_bits (c # cs) = bits_of 8 c @ str_bits cs"
  by (simp add: str_bits_def)

lemma str_bits_append [simp]: "str_bits (cs @ ds) = str_bits cs @ str_bits ds"
  by (simp add: str_bits_def)

lemma length_str_bits [simp]: "length (str_bits cs) = 8 * length cs"
  by (induction cs) auto

lemma nth_str_bits:
  "k < 8 * length cs \<Longrightarrow> str_bits cs ! k = bit (cs ! (k div 8)) (k mod 8)"
proof (induction cs arbitrary: k)
  case Nil
  then show ?case by simp
next
  case (Cons c cs)
  show ?case
  proof (cases "k < 8")
    case True
    then show ?thesis by (simp add: nth_append)
  next
    case False
    then have "k div 8 = Suc ((k - 8) div 8)" "k mod 8 = (k - 8) mod 8"
      by (auto simp: le_div_geq le_mod_geq)
    with False Cons.IH [of "k - 8"] Cons.prems show ?thesis by (simp add: nth_append)
  qed
qed

section \<open>Storing a string\<close>

lemma mem_bit_update:
  "p < length mem \<Longrightarrow> mem_bit (mem[p := b]) i = (if i div 8 = p then bit b (i mod 8) else mem_bit mem i)"
  by (simp add: mem_bit_def nth_list_update)

lemma StoreString_step_bits:
  fixes c :: u8
  assumes wb: "wb < 8" and pos: "pos + 1 < length mem"
  defines "mem1 \<equiv> (mem[pos := (mem ! pos AND drop_bit (8 - wb) 255) OR push_bit wb c])
    [pos + 1 := drop_bit (8 - wb) c]"
  shows "i < 8 * pos + wb \<Longrightarrow> mem_bit mem1 i = mem_bit mem i"
    and "k < 8 \<Longrightarrow> mem_bit mem1 (8 * pos + wb + k) = bit c k"
proof -
  have mask: "bit (drop_bit (8 - wb) 255 :: u8) j \<longleftrightarrow> j < wb" for j
  proof -
    have e: "(255 :: u8) = mask 8" by (simp add: mask_eq_exp_minus_1)
    show ?thesis unfolding e using wb by (auto simp: bit_drop_bit_eq bit_mask_iff)
  qed
  have upd: "mem_bit mem1 i =
      (if i div 8 = pos + 1 then bit (drop_bit (8 - wb) c) (i mod 8)
       else if i div 8 = pos then bit ((mem ! pos AND drop_bit (8 - wb) 255) OR push_bit wb c) (i mod 8)
       else mem_bit mem i)" for i
    using pos by (simp add: mem1_def mem_bit_update)
  show "mem_bit mem1 i = mem_bit mem i" if i: "i < 8 * pos + wb"
  proof (cases "i div 8 = pos")
    case True
    then have "i mod 8 < wb" using i div_mult_mod_eq [of i 8] by linarith
    with True show ?thesis
      by (simp add: upd bit_or_iff bit_and_iff mask bit_push_bit_iff) (simp add: mem_bit_def)
  next
    case False
    have "i < (pos + 1) * 8" using i wb by simp
    then have "i div 8 \<noteq> pos + 1" using less_mult_imp_div_less [of i "pos + 1" 8] by simp
    with False show ?thesis by (simp add: upd)
  qed
  show "mem_bit mem1 (8 * pos + wb + k) = bit c k" if k: "k < 8"
  proof (cases "wb + k < 8")
    case True
    then have "(8 * pos + wb + k) div 8 = pos" "(8 * pos + wb + k) mod 8 = wb + k"
      by (simp_all add: add.assoc)
    with True k show ?thesis
      by (simp add: upd bit_or_iff bit_and_iff mask bit_push_bit_iff)
  next
    case False
    then have "8 * pos + wb + k = 8 * (pos + 1) + (wb + k - 8)" "wb + k - 8 < 8"
      using wb k by simp_all
    note split = div_mod_8 [OF this]
    show ?thesis using False wb by (simp only: upd split) (simp add: bit_drop_bit_eq)
  qed
qed

lemma StoreString_loop_spec:
  assumes "wb < 8" "pos + length cs < length mem"
  shows "\<exists>mem'. StoreString_loop wb pos cs mem = Some mem' \<and> length mem' = length mem \<and>
    (\<forall>i < 8 * pos + wb. mem_bit mem' i = mem_bit mem i) \<and>
    (\<forall>k < 8 * length cs. mem_bit mem' (8 * pos + wb + k) = str_bits cs ! k)"
  using assms(2)
proof (induction cs arbitrary: pos mem)
  case Nil
  then show ?case by simp
next
  case (Cons c cs)
  define mem1 where "mem1 = (mem[pos := (mem ! pos AND drop_bit (8 - wb) 255) OR push_bit wb c])
    [pos + 1 := drop_bit (8 - wb) c]"
  have pos1: "pos + 1 < length mem" using Cons.prems by simp
  note step = StoreString_step_bits [OF assms(1) pos1, of _ c, folded mem1_def]
  have len1: "length mem1 = length mem" by (simp add: mem1_def)
  obtain mem' where IH: "StoreString_loop wb (pos + 1) cs mem1 = Some mem'" "length mem' = length mem1"
    "\<forall>i < 8 * (pos + 1) + wb. mem_bit mem' i = mem_bit mem1 i"
    "\<forall>k < 8 * length cs. mem_bit mem' (8 * (pos + 1) + wb + k) = str_bits cs ! k"
    using Cons.IH [of "pos + 1" mem1] Cons.prems len1 by auto
  have "StoreString_loop wb pos (c # cs) mem = Some mem'"
    using IH(1) pos1 by (simp add: mem1_def)
  moreover have "mem_bit mem' i = mem_bit mem i" if "i < 8 * pos + wb" for i
    using IH(3) step(1) [OF that] that by simp
  moreover have "mem_bit mem' (8 * pos + wb + k) = str_bits (c # cs) ! k" if k: "k < 8 * length (c # cs)" for k
  proof (cases "k < 8")
    case True
    then show ?thesis using IH(3) step(2) [OF True] by (simp add: nth_append)
  next
    case False
    then have "8 * pos + wb + k = 8 * (pos + 1) + wb + (k - 8)" by simp
    moreover have "k - 8 < 8 * length cs" using k False by simp
    ultimately have "mem_bit mem' (8 * pos + wb + k) = str_bits cs ! (k - 8)" using IH(4) by metis
    then show ?thesis using False by (simp add: nth_append)
  qed
  ultimately show ?case using IH(2) len1 by auto
qed

text \<open>The characters fit without growing.\<close>

lemma StoreString_fits:
  assumes ok: "stream_ok s" and fits: "GetWritePos s + 8 * len \<le> 8 * m_size s" "0 < len" "len \<le> length str"
  obtains mem where "StoreString_loop (m_write_bit_off s) (m_write_off s) (take len str) (m_buf s) = Some mem"
    "stream_ok (s\<lparr>m_buf := mem, m_write_off := m_write_off s + len\<rparr>)"
    "contents (s\<lparr>m_buf := mem, m_write_off := m_write_off s + len\<rparr>) = contents s @ str_bits (take len str)"
    "GetWritePos (s\<lparr>m_buf := mem, m_write_off := m_write_off s + len\<rparr>) = GetWritePos s + 8 * len"
proof -
  let ?cs = "take len str"
  have lc: "length ?cs = len" using fits by simp
  have lt: "m_write_off s + len \<le> m_size s" "0 < m_size s"
    using fits by (auto simp: GetWritePos_def)
  have len: "length (m_buf s) = m_size s + 7"
    using ok lt by (simp add: stream_ok_def buf_inv_def)
  obtain mem where mem: "StoreString_loop (m_write_bit_off s) (m_write_off s) ?cs (m_buf s) = Some mem"
      "length mem = length (m_buf s)"
      "\<forall>i < GetWritePos s. mem_bit mem i = mem_bit (m_buf s) i"
      "\<forall>k < 8 * len. mem_bit mem (GetWritePos s + k) = str_bits ?cs ! k"
    using StoreString_loop_spec [of "m_write_bit_off s" "m_write_off s" ?cs "m_buf s"] ok len lt lc
    by (auto simp: stream_ok_def GetWritePos_def mult.commute)
  let ?s = "s\<lparr>m_buf := mem, m_write_off := m_write_off s + len\<rparr>"
  have wb: "m_write_bit_off s < 8" using ok by (simp add: stream_ok_def)
  have eq: "?s = (SetWritePos (GetWritePos s + 8 * len) s)\<lparr>m_buf := mem\<rparr>"
    using wb by (simp add: SetWritePos_def GetWritePos_def)
  have "contents ?s = contents s @ str_bits ?cs"
    unfolding eq by (rule contents_write [OF _ mem(3,4)]) (use ok lc in \<open>auto simp: stream_ok_def\<close>)
  moreover have "GetWritePos ?s = GetWritePos s + 8 * len" "GetReadPos ?s = GetReadPos s"
    by (simp_all add: GetWritePos_def GetReadPos_def)
  moreover from this have "stream_ok ?s"
    using ok fits(1) lt len mem(2) unfolding stream_ok_def buf_inv_def by auto
  ultimately show ?thesis using that mem(1) by blast
qed

text \<open>Storing \<open>len\<close> characters, growing if need be.\<close>

lemma StoreString_appends:
  assumes ok: "stream_ok s" and len: "0 < len" "len \<le> length str"
    and fits: "m_write_off s + len < 1048576" and sz: "8 \<le> m_size s"
    and keep: "1 < m_write_off s \<or> GetWritePos s = 0 \<or> GetWritePos s + 8 * (len + 1) \<le> 8 * m_size s"
  shows "\<exists>s'. StoreString str (Some len) s = Some s' \<and> stream_ok s' \<and>
    contents s' = contents s @ str_bits (take len str) \<and> GetWritePos s' = GetWritePos s + 8 * len \<and>
    m_size s \<le> m_size s'"
proof -
  have str: "str \<noteq> []" using len by auto
  have na: "\<not> m_byteAligned s" "m_write_bit_off s < 8" "m_write_off s \<le> m_size s" "m_size s < 268435456"
    "GetWritePos s \<le> 8 * m_size s"
    using ok by (auto simp: stream_ok_def buf_inv_def)
  have av: "int (GetAvailSize_bits s) =
      int (m_size s) - int (m_write_off s) - (if m_write_bit_off s \<noteq> 0 then 1 else 0)"
    using na by (auto simp: GetAvailSize_bits_def GetWritePos_def)
  show ?thesis
  proof (cases "len > GetAvailSize_bits s")
    case False
    then have "GetWritePos s + 8 * len \<le> 8 * m_size s"
      using av na by (auto simp: GetWritePos_def split: if_splits)
    from StoreString_fits [OF ok this len] obtain mem where
      mem: "StoreString_loop (m_write_bit_off s) (m_write_off s) (take len str) (m_buf s) = Some mem"
      "stream_ok (s\<lparr>m_buf := mem, m_write_off := m_write_off s + len\<rparr>)"
      "contents (s\<lparr>m_buf := mem, m_write_off := m_write_off s + len\<rparr>) = contents s @ str_bits (take len str)"
      "GetWritePos (s\<lparr>m_buf := mem, m_write_off := m_write_off s + len\<rparr>) = GetWritePos s + 8 * len"
      by blast
    have "StoreString str (Some len) s = Some (s\<lparr>m_buf := mem, m_write_off := m_write_off s + len\<rparr>)"
      using False str na(1) mem(1) len(2) by (simp add: StoreString_def)
    with mem sz show ?thesis by simp
  next
    case True
    let ?acc = "m_write_off s + len"
    have inv: "buf_inv s" and mx: "?acc \<le> m_max_size s" using ok fits by (auto simp: stream_ok_def)
    obtain s1 where r: "resize ?acc s = Some (0, s1)" and g: "grown s ?acc s1"
      using resize_grown [OF inv _ mx fits] len(1) by auto
    have keep': "1 < m_write_off s \<or> GetWritePos s = 0"
      using keep True av na(2) by (auto simp: GetWritePos_def split: if_splits)
    have s1: "stream_ok s1" "contents s1 = contents s" "GetWritePos s1 = GetWritePos s" "?acc < m_size s1"
      using grown_stream [OF ok g fits keep'] sz by auto
    have "m_write_bit_off s1 = m_write_bit_off s" "m_write_off s1 = m_write_off s"
      using g by (auto simp: grown_def)
    then have "GetWritePos s1 + 8 * len \<le> 8 * m_size s1"
      using s1(3,4) na(2) by (simp add: GetWritePos_def)
    from StoreString_fits [OF s1(1) this len] obtain mem where
      mem: "StoreString_loop (m_write_bit_off s1) (m_write_off s1) (take len str) (m_buf s1) = Some mem"
      "stream_ok (s1\<lparr>m_buf := mem, m_write_off := m_write_off s1 + len\<rparr>)"
      "contents (s1\<lparr>m_buf := mem, m_write_off := m_write_off s1 + len\<rparr>) = contents s1 @ str_bits (take len str)"
      "GetWritePos (s1\<lparr>m_buf := mem, m_write_off := m_write_off s1 + len\<rparr>) = GetWritePos s1 + 8 * len"
      by blast
    have "StoreString str (Some len) s = Some (s1\<lparr>m_buf := mem, m_write_off := m_write_off s1 + len\<rparr>)"
      using True str na(1) r mem(1) len(2) by (simp add: StoreString_def)
    with mem s1(2,3) sz grown_fields(9) [OF g] show ?thesis by simp
  qed
qed

lemma c_strlen_append: "\<forall>c \<in> set cs. c \<noteq> 0 \<Longrightarrow> c_strlen (cs @ 0 # rest) = Some (length cs)"
  by (induction cs) auto

lemma c_strlen_Some: "c_strlen cs = Some n \<Longrightarrow> n < length cs \<and> cs ! n = 0 \<and> (\<forall>i<n. cs ! i \<noteq> 0)"
proof (induction cs arbitrary: n)
  case (Cons c cs)
  then show ?case by (auto split: if_splits simp: less_Suc_eq_0_disj)
qed simp

section \<open>Reading a string\<close>

lemma GetString_char:
  assumes ok: "reader_ok s" and c: "contents s = bits_of 8 (c :: u8) @ rest"
  shows "m_read_off s + 1 < length (m_buf s)"
    and "drop_bit (m_read_bit_off s) (m_buf s ! m_read_off s)
         OR push_bit (8 - m_read_bit_off s) (m_buf s ! (m_read_off s + 1)) = c"
    and "reader_ok (s\<lparr>m_read_off := m_read_off s + 1\<rparr>)"
    and "contents (s\<lparr>m_read_off := m_read_off s + 1\<rparr>) = rest"
proof -
  have len: "8 \<le> length (contents s)" using c by simp
  then have le: "GetReadPos s + 8 \<le> GetWritePos s" by (simp add: contents_def)
  have rb: "m_read_bit_off s < 8" using ok by (simp add: reader_ok_def)
  show m: "m_read_off s + 1 < length (m_buf s)"
    using ok le by (auto simp: reader_ok_def GetReadPos_def)
  have eq: "s\<lparr>m_read_off := m_read_off s + 1\<rparr> = SetReadPos (GetReadPos s + 8) s"
    using rb by (simp add: SetReadPos_def GetReadPos_def)
  show "reader_ok (s\<lparr>m_read_off := m_read_off s + 1\<rparr>)"
    unfolding eq using ok le by (auto simp: reader_ok_def)
  show "contents (s\<lparr>m_read_off := m_read_off s + 1\<rparr>) = rest"
    unfolding eq using contents_SetReadPos [OF len] le c by simp
  have bits: "mem_bit (m_buf s) (GetReadPos s + k) = bit c k" if "k < 8" for k
  proof -
    have "contents s ! k = bits_of 8 c ! k" using c that by (simp add: nth_append)
    then show ?thesis using that le by (simp add: contents_def)
  qed
  show "drop_bit (m_read_bit_off s) (m_buf s ! m_read_off s)
         OR push_bit (8 - m_read_bit_off s) (m_buf s ! (m_read_off s + 1)) = c"
  proof (rule bit_word_eqI)
    fix k assume "k < LENGTH(8)"
    then have k: "k < 8" by simp
    show "bit (drop_bit (m_read_bit_off s) (m_buf s ! m_read_off s)
         OR push_bit (8 - m_read_bit_off s) (m_buf s ! (m_read_off s + 1))) k = bit c k"
    proof (cases "m_read_bit_off s + k < 8")
      case True
      then have "mem_bit (m_buf s) (GetReadPos s + k) = bit (m_buf s ! m_read_off s) (m_read_bit_off s + k)"
        using div_mod_8 [of "GetReadPos s + k" "m_read_off s" "m_read_bit_off s + k"]
        by (simp add: mem_bit_def GetReadPos_def)
      with True k bits [OF k] show ?thesis
        by (auto simp: bit_or_iff bit_drop_bit_eq bit_push_bit_iff)
    next
      case False
      then have split: "GetReadPos s + k = 8 * (m_read_off s + 1) + (m_read_bit_off s + k - 8)"
        "m_read_bit_off s + k - 8 < 8"
        using rb k by (auto simp: GetReadPos_def)
      have "mem_bit (m_buf s) (GetReadPos s + k)
          = bit (m_buf s ! (m_read_off s + 1)) (m_read_bit_off s + k - 8)"
        unfolding mem_bit_def using div_mod_8 [OF split] by simp
      moreover have "\<not> bit (m_buf s ! m_read_off s) (m_read_bit_off s + k)"
        using False by (auto dest: bit_imp_le_length)
      moreover have "k - (8 - m_read_bit_off s) = m_read_bit_off s + k - 8" "8 - m_read_bit_off s \<le> k"
        using False rb by simp_all
      ultimately show ?thesis using k bits [OF k]
        by (simp add: bit_or_iff bit_drop_bit_eq bit_push_bit_iff)
    qed
  qed
qed

lemma GetString_loop_reads:
  assumes "reader_ok s" "contents s = str_bits (cs @ [0]) @ rest" "\<forall>c \<in> set cs. c \<noteq> 0"
  shows "\<exists>s'. GetString_loop acc s = Some (acc @ cs, s') \<and> reader_ok s' \<and> contents s' = rest"
  using assms
proof (induction cs arbitrary: s acc)
  case Nil
  then have c: "contents s = bits_of 8 (0 :: u8) @ rest" by simp
  note ch = GetString_char [OF Nil.prems(1) c]
  from ch show ?case by (subst GetString_loop.simps) (simp add: Let_def)
next
  case (Cons c cs)
  then have c: "contents s = bits_of 8 c @ str_bits (cs @ [0]) @ rest" by simp
  note ch = GetString_char [OF Cons.prems(1) c]
  let ?s = "s\<lparr>m_read_off := m_read_off s + 1\<rparr>"
  have more: "8 \<le> GetReadableBits ?s"
    using readable_bits(2) [OF ch(3)] ch(4) by simp
  have "GetString_loop acc s = GetString_loop (acc @ [c]) ?s"
    using ch(1,2) Cons.prems(3) more by (subst GetString_loop.simps) (simp add: Let_def)
  moreover obtain s' where "GetString_loop (acc @ [c]) ?s = Some ((acc @ [c]) @ cs, s')"
      "reader_ok s'" "contents s' = rest"
    using Cons.IH [OF ch(3), of "acc @ [c]"] ch(4) Cons.prems(3) by auto
  ultimately show ?case by simp
qed

lemma GetString_reads:
  assumes ok: "reader_ok s" and c: "contents s = str_bits (cs @ [0]) @ rest" and nz: "\<forall>c \<in> set cs. c \<noteq> 0"
  shows "\<exists>s'. GetString s = Some (Some cs, s') \<and> reader_ok s' \<and> contents s' = rest"
proof -
  have "\<not> GetReadableBits s < 8" using readable_bits(2) [OF ok] c by simp
  with GetString_loop_reads [OF ok c nz, of "[]"] show ?thesis by (auto simp: GetString_def)
qed

section \<open>Bit arrays\<close>

lemma mem_bit_overwrite:
  assumes "pos + length bs \<le> length mem" "i < 8 * length mem"
  shows "mem_bit (overwrite mem pos bs) i =
    (if 8 * pos \<le> i \<and> i < 8 * (pos + length bs) then str_bits bs ! (i - 8 * pos) else mem_bit mem i)"
proof -
  have eq: "(pos \<le> i div 8 \<and> i div 8 < pos + length bs) = (8 * pos \<le> i \<and> i < 8 * (pos + length bs))"
    by auto
  have idx: "i div 8 < length mem" using assms(2) by simp
  show ?thesis
  proof (cases "8 * pos \<le> i \<and> i < 8 * (pos + length bs)")
    case True
    then obtain j where j: "i = 8 * pos + j" by (auto simp: le_iff_add)
    have "i div 8 - pos = j div 8" "i mod 8 = j mod 8" by (simp_all add: j)
    moreover have "j < 8 * length bs" using True j by simp
    ultimately show ?thesis using True eq idx assms
      by (auto simp: mem_bit_def nth_overwrite nth_str_bits j)
  next
    case False
    with eq idx assms show ?thesis by (auto simp: mem_bit_def nth_overwrite)
  qed
qed

lemma BITS_TO_BYTES_alt: "BITS_TO_BYTES n = n div 8 + (if n mod 8 = 0 then 0 else 1)"
proof -
  obtain q r where n: "n = 8 * q + r" "r < 8" by (metis mult_div_mod_eq mod_less_divisor zero_less_numeral)
  then have "n + 7 = (if r = 0 then 8 * q + 7 else 8 * (q + 1) + (r - 1))" by simp
  then have "(n + 7) div 8 = q + (if r = 0 then 0 else 1)"
    using n(2) div_mod_8(1) [of "n + 7" q 7] div_mod_8(1) [of "n + 7" "q + 1" "r - 1"] by (simp split: if_splits)
  then show ?thesis using n by (simp add: BITS_TO_BYTES_def)
qed

text \<open>At a byte boundary, a bit array appends exactly its bits.\<close>

lemma StoreBitArray_appends:
  assumes ok: "stream_ok s" and al: "m_write_bit_off s = 0" and src: "BITS_TO_BYTES n \<le> length src"
    and fits: "m_write_off s + BITS_TO_BYTES n < 1048576" and sz: "8 \<le> m_size s"
    and keep: "1 < m_write_off s \<or> m_write_off s = 0 \<or> m_write_off s + BITS_TO_BYTES n \<le> m_size s"
  shows "\<exists>s'. StoreBitArray src n s = Some s' \<and> stream_ok s' \<and>
    contents s' = contents s @ take n (str_bits src) \<and> GetWritePos s' = GetWritePos s + n \<and>
    m_size s \<le> m_size s'"
proof -
  let ?nb = "BITS_TO_BYTES n" and ?wo = "m_write_off s"
  have bA: "ByteAlign False True s = s" using al by (simp add: ByteAlign_def)
  have wp: "GetWritePos s = 8 * ?wo" using al by (simp add: GetWritePos_def)
  text \<open>first make room\<close>
  obtain s1 where s1: "(if ?wo + ?nb > m_size s then resize (?wo + ?nb) s else Some (0, s)) = Some (0, s1)"
    and ok1: "stream_ok s1" "contents s1 = contents s" "m_write_off s1 = ?wo" "m_write_bit_off s1 = 0"
      "?wo + ?nb \<le> m_size s1" "m_read_off s1 = m_read_off s" "m_read_bit_off s1 = m_read_bit_off s"
      "m_size s \<le> m_size s1" "m_safe_area s1 = 7"
  proof (cases "?wo + ?nb > m_size s")
    case False
    then show ?thesis using that [of s] ok al sz by (auto simp: stream_ok_def)
  next
    case True
    have inv: "buf_inv s" and mx: "?wo + ?nb \<le> m_max_size s" using ok fits by (auto simp: stream_ok_def)
    obtain s1 where r: "resize (?wo + ?nb) s = Some (0, s1)" and g: "grown s (?wo + ?nb) s1"
      using resize_grown [OF inv _ mx fits] True by fastforce
    have k: "1 < ?wo \<or> GetWritePos s = 0" using keep True wp by auto
    have f: "m_write_off s1 = ?wo" "m_write_bit_off s1 = 0" "m_read_off s1 = m_read_off s"
      "m_read_bit_off s1 = m_read_bit_off s"
      using g al by (auto simp: grown_def)
    have gs: "stream_ok s1" "contents s1 = contents s" "?wo + ?nb < m_size s1" "m_safe_area s1 = 7"
      using grown_stream [OF ok g fits k] sz by (auto simp: stream_ok_def)
    show ?thesis
      by (rule that [of s1]) (use r gs f True grown_fields(9) [OF g] sz in auto)
  qed
  have len1: "length (m_buf s1) = m_size s1 + 7"
    using ok1 sz by (auto simp: stream_ok_def buf_inv_def)
  then have ne1: "m_buf s1 \<noteq> []" by auto
  let ?mem = "overwrite (m_buf s1) ?wo (take ?nb src)"
  have lt: "length (take ?nb src) = ?nb" using src by simp
  have put: "PutBytes src ?nb s = Some (s1\<lparr>m_buf := ?mem, m_write_off := ?wo + ?nb\<rparr>)"
    using s1 ne1 len1 ok1 src by (auto simp: PutBytes_def uPutBytes_def split: if_splits)
  let ?p = "8 * ?wo + n"
  let ?s2 = "(SetWritePos ?p s1)\<lparr>m_buf := ?mem\<rparr>"
  have div: "?p div 8 = ?wo + n div 8" "?p mod 8 = n mod 8" by simp_all
  have nb: "?nb = n div 8 + (if n mod 8 = 0 then 0 else 1)"
    by (rule BITS_TO_BYTES_alt)
  have res: "StoreBitArray src n s = Some ?s2"
    using put nb div fits ok1(4)
    by (auto simp: StoreBitArray_def bA SetWritePos_def Let_def nat_add_distrib)
  have wp1: "GetWritePos s1 = 8 * ?wo" using ok1 by (simp add: GetWritePos_def)
  have n_le: "n \<le> 8 * ?nb" using nb by (auto simp: mod_eq_0_iff_dvd)
  have lenm: "length ?mem = length (m_buf s1)" using lt len1 ok1(5) by simp
  have keepb: "\<forall>i < GetWritePos s1. mem_bit ?mem i = mem_bit (m_buf s1) i"
    using mem_bit_overwrite [of ?wo "take ?nb src" "m_buf s1"] lt len1 ok1(5) wp1 by auto
  have newb: "\<forall>k < n. mem_bit ?mem (GetWritePos s1 + k) = take n (str_bits src) ! k"
  proof (intro allI impI)
    fix k assume k: "k < n"
    have "str_bits (take ?nb src) ! k = str_bits src ! k"
      using k n_le src by (simp add: nth_str_bits less_mult_imp_div_less)
    then show "mem_bit ?mem (GetWritePos s1 + k) = take n (str_bits src) ! k"
      using mem_bit_overwrite [of ?wo "take ?nb src" "m_buf s1" "8 * ?wo + k"] k n_le lt len1 ok1(5)
      by (simp add: wp1)
  qed
  have eq2: "?s2 = (SetWritePos (GetWritePos s1 + n) s1)\<lparr>m_buf := ?mem\<rparr>" by (simp add: wp1)
  have c2: "contents ?s2 = contents s1 @ take n (str_bits src)"
    unfolding eq2
    by (rule contents_write [OF _ keepb newb]) (use ok1 n_le src in \<open>auto simp: stream_ok_def\<close>)
  have "?wo + n div 8 \<le> m_size s1" "8 * ?wo + n \<le> 8 * m_size s1"
    using ok1(5) nb n_le by (auto split: if_splits)
  then have "stream_ok ?s2"
    using ok1(1,3,4,8,9) lenm len1 sz
    unfolding stream_ok_def buf_inv_def GetWritePos_def GetReadPos_def by (auto simp: div)
  moreover have "GetWritePos ?s2 = GetWritePos s + n" using wp by (simp add: GetWritePos_def)
  ultimately show ?thesis using res c2 ok1 by auto
qed

section \<open>New streams\<close>

lemma new_stream_ok:
  assumes "0 < n" "n < 1000000"
  shows "stream_ok (new_stream f n)" "contents (new_stream f n) = []"
    "GetWritePos (new_stream f n) = 0" "8 \<le> m_size (new_stream f n)"
proof -
  have sz: "8 \<le> (n + 7) div 8 * 8" "(n + 7) div 8 * 8 < 268435456" using assms by auto
  then show "stream_ok (new_stream f n)" "contents (new_stream f n) = []"
    "GetWritePos (new_stream f n) = 0" "8 \<le> m_size (new_stream f n)"
    using assms
    by (auto simp: new_stream_def new_buffer_def ResetOffsets_def Reset_def growing_buffer.defs
        stream_ok_def buf_inv_def GetReadPos_def GetWritePos_def contents_def Let_def)
qed

lemma room_new_stream: "0 < n \<Longrightarrow> n < 1000000 \<Longrightarrow> room (new_stream f n) = max_pos"
  by (simp add: room_def new_stream_ok)

end
