(* ===== verification/BitStream_Messages.thy ===== *)
theory BitStream_Messages
  imports BitStream_Strings
begin

text \<open>
  Messages as sequences of fields. Every serializer of the server writes a message as a
  sequence of fixed width numbers, packed numbers and strings through one \<open>BitStream\<close>, and the
  receiver reads the same sequence back. The types here are the vocabulary of that statement;
  the operations are those of \<^theory_text>\<open>BitStream\<close>.
\<close>

section \<open>Streams that do not shrink\<close>

text \<open>
  The contract of a sink once more, for the streams of at least \<open>Z\<close> bytes whose reader stands at
  bit \<open>R\<close>; both survive every store.
\<close>

definition sized :: "nat \<Rightarrow> nat \<Rightarrow> bitstream \<Rightarrow> bool" where
  "sized Z R s \<longleftrightarrow> stream_ok s \<and> Z \<le> m_size s \<and> GetReadPos s = R"

lemma sized_self: "stream_ok s \<Longrightarrow> sized (m_size s) (GetReadPos s) s"
  by (simp add: sized_def)

lemma sized_write_pos: "sized Z R s \<Longrightarrow> GetWritePos s = R + length (contents s)"
  by (auto simp: sized_def stream_ok_def contents_def)

interpretation sized: packed_sink "sized Z R" "contents :: bitstream \<Rightarrow> bool list" room StoreBits
  StorePackedBits_loop for Z R
proof unfold_locales
  fix s :: bitstream and n :: nat and d :: u32
  assume a: "sized Z R s" "0 < n" "n \<le> 32" "n \<le> room s"
  have ok: "stream_ok s" and fits: "GetWritePos s + n \<le> max_pos"
    using a by (auto simp: sized_def room_def)
  from StoreBits_appends [OF ok a(2,3) fits, of d] a(1)
  show "\<exists>s'. StoreBits n d s = Some s' \<and> sized Z R s' \<and> contents s' = contents s @ bits_of n d \<and>
      room s \<le> room s' + n" by (auto simp: sized_def room_def)
next
  fix s :: bitstream and n :: nat and d :: u32
  assume "sized Z R s" "0 < n"
  then show "StorePackedBits_loop n d s =
      (if n < 32 \<and> mask n \<le> d
       then Option.bind (StoreBits n (mask n) s) (StorePackedBits_loop (min (n * 2) 32) (d - mask n))
       else StoreBits n d s)"
    using stream.puts_eq [of s n d] by (simp add: sized_def)
qed

text \<open>Likewise for reading: streams over the allocation \<open>B\<close> with \<open>W\<close> bits written, which no reader
  changes.\<close>

definition sourced :: "u8 list \<Rightarrow> nat \<Rightarrow> bitstream \<Rightarrow> bool" where
  "sourced B W s \<longleftrightarrow> reader_ok s \<and> m_buf s = B \<and> GetWritePos s = W"

lemma sourced_self: "reader_ok s \<Longrightarrow> sourced (m_buf s) (GetWritePos s) s"
  by (simp add: sourced_def)

lemma sourced_reader_ok: "sourced B W s \<Longrightarrow> reader_ok s"
  by (simp add: sourced_def)

interpretation sourced: packed_source "sourced B W" "contents :: bitstream \<Rightarrow> bool list" GetBits
  GetPackedBits_loop for B W
proof unfold_locales
  fix s :: bitstream and n :: nat and d rest
  assume a: "sourced B W s" "0 < n" "n \<le> 32" "contents s = bits_of n (d :: u32) @ rest"
  from GetBits_takes [OF sourced_reader_ok [OF a(1)] a(2-4)] a(1)
  show "\<exists>s'. GetBits n s = Some (take_bit n d, s') \<and> sourced B W s' \<and> contents s' = rest"
    by (auto simp: sourced_def)
next
  fix s :: bitstream and n :: nat and acc :: u32
  assume "sourced B W s" "contents s \<noteq> []" "0 < n" "n \<le> 32"
  then show "GetPackedBits_loop n acc s =
      (case GetBits n s of None \<Rightarrow> None
       | Some (v, s) \<Rightarrow>
          if v < mask n \<or> n = 32 then Some (v + acc, s)
          else GetPackedBits_loop (if n * 2 > 32 then 32 else n * 2) (acc + mask n) s)"
    using reader.gets_eq [of s n acc] by (simp add: sourced_def)
qed

section \<open>Packed numbers on both sides\<close>

lemma StorePackedBits_appends:
  assumes "sized Z R s" "0 < n" "n \<le> 32" "96 \<le> room s"
  shows "\<exists>s'. StorePackedBits n d s = Some s' \<and> sized Z R s' \<and> contents s' = contents s @ packed n d \<and>
    room s \<le> room s' + 96"
proof -
  have al: "\<not> m_byteAligned s" using assms(1) by (simp add: sized_def stream_ok_def)
  have le: "length (packed n d) \<le> 96" using length_packed_le_96 [OF assms(2,3)] .
  then have "length (packed n d) \<le> room s" using assms(4) by simp
  from sized.puts_packed [OF assms(1-3) this] le al show ?thesis
    by (auto simp: StorePackedBits_def)
qed

lemma GetPackedBits_reads:
  assumes "sourced B W s" "0 < n" "n \<le> 32" "contents s = packed n d @ rest"
  shows "\<exists>s'. GetPackedBits n s = Some (d, s') \<and> sourced B W s' \<and> contents s' = rest"
proof -
  have "\<not> m_byteAligned s" using assms(1) by (simp add: sourced_def reader_ok_def)
  with sourced.gets_packed [OF assms, of 0] show ?thesis by (simp add: GetPackedBits_def)
qed

section \<open>Fields\<close>

datatype msg_field = Bits nat u32 | Packed nat u32 | Str "u8 list"

text \<open>The fields that can be told apart from what the reader finds: no excess bits, no zero
  bytes inside a string.\<close>

fun field_ok :: "msg_field \<Rightarrow> bool" where
  "field_ok (Bits n d) \<longleftrightarrow> 0 < n \<and> n \<le> 32 \<and> take_bit n d = d"
| "field_ok (Packed n d) \<longleftrightarrow> 0 < n \<and> n \<le> 32"
| "field_ok (Str cs) \<longleftrightarrow> (\<forall>c \<in> set cs. c \<noteq> 0)"

fun field_bits :: "msg_field \<Rightarrow> bool list" where
  "field_bits (Bits n d) = bits_of n d"
| "field_bits (Packed n d) = packed n d"
| "field_bits (Str cs) = str_bits (cs @ [0])"

text \<open>An upper bound on the bits of a message, without looking at the packed values.\<close>

fun field_size :: "msg_field \<Rightarrow> nat" where
  "field_size (Bits n d) = n"
| "field_size (Packed n d) = 96"
| "field_size (Str cs) = 8 * length cs + 8"

definition message_size :: "msg_field list \<Rightarrow> nat" where
  "message_size fs = sum_list (map field_size fs)"

lemma message_size_simps [simp]:
  "message_size [] = 0" "message_size (f # fs) = field_size f + message_size fs"
  by (simp_all add: message_size_def)

lemma length_field_bits: "field_ok f \<Longrightarrow> length (field_bits f) \<le> field_size f"
  using length_packed_le_96 by (cases f) auto

definition message_bits :: "msg_field list \<Rightarrow> bool list" where
  "message_bits fs = concat (map field_bits fs)"

lemma message_bits_simps [simp]:
  "message_bits [] = []" "message_bits (f # fs) = field_bits f @ message_bits fs"
  by (simp_all add: message_bits_def)

text \<open>Writing and reading through the operations of the class. The field given to the reader
  says only what to read.\<close>

fun write_field :: "msg_field \<Rightarrow> bitstream \<Rightarrow> bitstream option" where
  "write_field (Bits n d) s = StoreBits n d s"
| "write_field (Packed n d) s = StorePackedBits n d s"
| "write_field (Str cs) s = StoreString (cs @ [0]) None s"

fun write_message :: "msg_field list \<Rightarrow> bitstream \<Rightarrow> bitstream option" where
  "write_message [] s = Some s"
| "write_message (f # fs) s = do { s \<leftarrow> write_field f s; write_message fs s }"

fun read_field :: "msg_field \<Rightarrow> bitstream \<Rightarrow> (msg_field \<times> bitstream) option" where
  "read_field (Bits n _) s = do { (d, s) \<leftarrow> GetBits n s; Some (Bits n d, s) }"
| "read_field (Packed n _) s = do { (d, s) \<leftarrow> GetPackedBits n s; Some (Packed n d, s) }"
| "read_field (Str _) s = do { (cs, s) \<leftarrow> GetString s; Some (Str (case cs of Some cs \<Rightarrow> cs | None \<Rightarrow> []), s) }"

fun read_message :: "msg_field list \<Rightarrow> bitstream \<Rightarrow> (msg_field list \<times> bitstream) option" where
  "read_message [] s = Some ([], s)"
| "read_message (f # fs) s = do { (f, s) \<leftarrow> read_field f s; (fs, s) \<leftarrow> read_message fs s; Some (f # fs, s) }"

section \<open>Reading what is there\<close>

lemma read_field_reads:
  assumes "reader_ok s" "field_ok f" "contents s = field_bits f @ rest"
  shows "\<exists>s'. read_field f s = Some (f, s') \<and> reader_ok s' \<and> contents s' = rest"
proof (cases f)
  case (Bits n d)
  with assms reader.get_law [of s n d rest] show ?thesis by auto
next
  case (Packed n d)
  have "\<not> m_byteAligned s" using assms(1) by (simp add: reader_ok_def)
  with Packed assms reader.gets_packed [of s n d rest 0] show ?thesis
    by (auto simp: GetPackedBits_def)
next
  case (Str cs)
  with assms GetString_reads [of s cs rest] show ?thesis by auto
qed

lemma read_message_reads:
  assumes "reader_ok s" "\<forall>f \<in> set fs. field_ok f" "contents s = message_bits fs @ rest"
  shows "\<exists>s'. read_message fs s = Some (fs, s') \<and> reader_ok s' \<and> contents s' = rest"
  using assms
proof (induction fs arbitrary: s)
  case Nil
  then show ?case by simp
next
  case (Cons f fs)
  obtain s1 where s1: "read_field f s = Some (f, s1)" "reader_ok s1" "contents s1 = message_bits fs @ rest"
    using read_field_reads [of s f "message_bits fs @ rest"] Cons.prems by auto
  with Cons.IH [of s1] Cons.prems(2) show ?case by fastforce
qed

section \<open>Writing appends\<close>

text \<open>
  What the stream must offer so that no string can meet a reallocation at write offset one: the
  second byte has been started, or the whole message fits what is allocated already.
\<close>

definition roomy :: "nat \<Rightarrow> bitstream \<Rightarrow> bool" where
  "roomy n s \<longleftrightarrow> stream_ok s \<and> 8 \<le> m_size s \<and> n + 8 \<le> room s \<and>
     (16 \<le> GetWritePos s \<or> GetWritePos s + n + 8 \<le> 8 * m_size s)"

lemma write_field_appends:
  assumes "roomy (field_size f + n) s" "field_ok f"
  shows "\<exists>s'. write_field f s = Some s' \<and> roomy n s' \<and> contents s' = contents s @ field_bits f"
proof -
  let ?Z = "m_size s" and ?R = "GetReadPos s"
  have sz: "sized ?Z ?R s" and ok: "stream_ok s" and al: "\<not> m_byteAligned s"
    and rm: "field_size f + n + 8 \<le> room s"
    using assms(1) by (auto simp: roomy_def sized_def stream_ok_def)
  have done': "roomy n s'" if "stream_ok s'" "?Z \<le> m_size s'" "GetWritePos s' = GetWritePos s + k"
    "k \<le> field_size f" for s' k
    using that assms(1) by (auto simp: roomy_def room_def)
  have done2: "roomy n s'" if "sized ?Z ?R s'" "contents s' = contents s @ bs" "length bs \<le> field_size f" for s' bs
    using that done' [of s' "length bs"] sized_write_pos [OF that(1)] sized_write_pos [OF sz]
    by (auto simp: sized_def)
  show ?thesis
  proof (cases f)
    case (Bits m d)
    then obtain s' where "StoreBits m d s = Some s'" "sized ?Z ?R s'" "contents s' = contents s @ bits_of m d"
      using assms(2) rm sized.put_law [OF sz, of m d] by auto
    with Bits done2 show ?thesis by simp
  next
    case (Packed m d)
    then have "length (packed m d) \<le> 96" using assms(2) length_packed_le_96 by simp
    moreover from this Packed rm assms(2) obtain s' where
      "StorePackedBits_loop m d s = Some s'" "sized ?Z ?R s'" "contents s' = contents s @ packed m d"
      using sized.puts_packed [OF sz, of m d] by auto
    ultimately show ?thesis using Packed al done2 by (simp add: StorePackedBits_def)
  next
    case (Str cs)
    have nz: "\<forall>c \<in> set cs. c \<noteq> 0" using Str assms(2) by simp
    have len: "c_strlen (cs @ [0]) = Some (length cs)" using c_strlen_append [OF nz, of "[]"] by simp
    have eq: "StoreString (cs @ [0]) None s = StoreString (cs @ [0]) (Some (length cs + 1)) s"
      by (simp add: StoreString_def len)
    have fits: "m_write_off s + (length cs + 1) < 1048576"
      using rm Str by (simp add: room_def max_pos_def GetWritePos_def)
    have keep: "1 < m_write_off s \<or> GetWritePos s = 0 \<or>
        GetWritePos s + 8 * ((length cs + 1) + 1) \<le> 8 * m_size s"
      using assms(1) ok Str by (auto simp: roomy_def GetWritePos_def stream_ok_def)
    obtain s' where s': "StoreString (cs @ [0]) (Some (length cs + 1)) s = Some s'" "stream_ok s'"
      "contents s' = contents s @ str_bits (cs @ [0])"
      "GetWritePos s' = GetWritePos s + 8 * (length cs + 1)" "m_size s \<le> m_size s'"
      using StoreString_appends [OF ok _ _ fits _ keep, of "cs @ [0]"] assms(1)
      by (auto simp: roomy_def)
    with done' [of s' "8 * (length cs + 1)"] Str eq show ?thesis by auto
  qed
qed

lemma write_message_appends:
  assumes "roomy (message_size fs) s" "\<forall>f \<in> set fs. field_ok f"
  shows "\<exists>s'. write_message fs s = Some s' \<and> roomy 0 s' \<and> contents s' = contents s @ message_bits fs"
  using assms
proof (induction fs arbitrary: s)
  case Nil
  then show ?case by simp
next
  case (Cons f fs)
  obtain s1 where s1: "write_field f s = Some s1" "roomy (message_size fs) s1" "contents s1 = contents s @ field_bits f"
    using write_field_appends [of f "message_size fs" s] Cons.prems by auto
  with Cons.IH [of s1] Cons.prems(2) show ?case by auto
qed

lemma roomy_reader_ok: "roomy n s \<Longrightarrow> reader_ok s"
  by (simp add: roomy_def stream_ok_reader_ok)

lemma roomy_new_stream: "0 < n \<Longrightarrow> n < 1000000 \<Longrightarrow> k + 8 \<le> 8 * n \<Longrightarrow> roomy k (new_stream f n)"
proof -
  assume n: "0 < n" "n < 1000000" and k: "k + 8 \<le> 8 * n"
  have "n \<le> m_size (new_stream f n)"
    by (simp add: new_stream_def new_buffer_def ResetOffsets_def Reset_def growing_buffer.defs Let_def)
  with n k show ?thesis by (simp add: roomy_def new_stream_ok room_new_stream max_pos_def)
qed

end
