(* ===== verification/BitStream_Properties.thy ===== *)
theory BitStream_Properties
  imports BitStream_Messages
begin

unbundle bit_operations_syntax

text \<open>The properties of the buffer and of the bit stream, each with a concrete instance.\<close>

section \<open>Sequences of fields\<close>

text \<open>C2. Whatever sequence of fields (fixed width numbers, packed numbers, zero-terminated
  strings) is written to a new stream that is large enough for them, the reader gets exactly
  these fields back in order and leaves the stream empty; no alignment between fields is
  needed.\<close>

theorem message_roundtrip:
  assumes "0 < n" "n < 1000000" "message_size fs + 8 \<le> 8 * n" "\<forall>f \<in> set fs. field_ok f"
  shows "\<exists>s1 s2. write_message fs (new_stream fresh n) = Some s1 \<and>
    read_message fs s1 = Some (fs, s2) \<and> contents s2 = []"
proof -
  obtain s1 where s1: "write_message fs (new_stream fresh n) = Some s1" "roomy 0 s1"
    "contents s1 = message_bits fs @ []"
    using write_message_appends [OF roomy_new_stream [OF assms(1-3)] assms(4)]
      new_stream_ok(2) [OF assms(1,2)] by auto
  from read_message_reads [OF roomy_reader_ok [OF s1(2)] assms(4) s1(3)] s1(1) show ?thesis by blast
qed

theorem message_roundtrip_witness:
  "\<exists>s1 s2. write_message [Bits 3 5, Packed 1 70000, Str [104, 105], Bits 32 7] (new_stream (\<lambda>_. 205) 64) = Some s1 \<and>
    read_message [Bits 3 5, Packed 1 70000, Str [104, 105], Bits 32 7] s1 =
      Some ([Bits 3 5, Packed 1 70000, Str [104, 105], Bits 32 7], s2) \<and> contents s2 = []"
  by (rule message_roundtrip) (simp_all add: take_bit_word_beyond_length_eq)

text \<open>C31. \<open>StoreBits\<close> appends the \<open>n\<close> low bits of the word to the queue of unread bits, also when
  it has to reallocate, keeps the stream well-formed, and does not move the reader.\<close>

theorem StoreBits_enqueues:
  assumes "stream_ok s" "0 < n" "n \<le> 32" "GetWritePos s + n \<le> max_pos"
  shows "\<exists>s'. StoreBits n d s = Some s' \<and> stream_ok s' \<and> contents s' = contents s @ bits_of n d \<and>
    GetReadPos s' = GetReadPos s"
  using StoreBits_appends [OF assms, of d] by blast

theorem StoreBits_enqueues_witness:
  "\<exists>s'. StoreBits 5 9 (new_stream (\<lambda>_. 205) 16) = Some s' \<and> contents s' = [True, False, False, True, False]"
  using StoreBits_enqueues [of "new_stream (\<lambda>_. 205) 16" 5 9]
  by (auto simp: new_stream_ok max_pos_def bits_of_def upt_rec bit_numeral_rec)

text \<open>C32. \<open>GetBits\<close> takes the first \<open>n\<close> unread bits off the queue and returns them as a number,
  for every width and every bit offset, and reads nothing outside the allocation.\<close>

theorem GetBits_dequeues:
  assumes "reader_ok s" "0 < n" "n \<le> 32" "contents s = bits_of n d @ rest"
  shows "\<exists>s'. GetBits n s = Some (take_bit n d, s') \<and> reader_ok s' \<and> contents s' = rest \<and>
    m_last_err s' = m_last_err s"
  using GetBits_takes [OF assms] by (auto simp: SetReadPos_def)

theorem GetBits_dequeues_witness:
  "\<exists>s1 s2. StoreBits 9 300 (new_stream (\<lambda>_. 205) 16) = Some s1 \<and> GetBits 9 s1 = Some (300, s2)"
proof -
  obtain s1 where s1: "StoreBits 9 300 (new_stream (\<lambda>_. 205) 16) = Some s1" "stream_ok s1"
    "contents s1 = bits_of 9 (300 :: u32) @ []"
    using StoreBits_appends [of "new_stream (\<lambda>_. 205) 16" 9 300]
    by (auto simp: new_stream_ok max_pos_def)
  from GetBits_dequeues [OF stream_ok_reader_ok [OF s1(2)] _ _ s1(3)] s1(1) show ?thesis
    by (auto simp: take_bit_eq_mask mask_eq_exp_minus_1)
qed

section \<open>Packed numbers\<close>

text \<open>Every 32-bit number survives the variable length encoding, whatever the initial width
  and whatever follows it in the stream.\<close>

theorem PackedBits_roundtrip:
  assumes "stream_ok s" "contents s = []" "0 < n" "n \<le> 32" "96 \<le> room s"
  shows "\<exists>s1 s2. StorePackedBits n d s = Some s1 \<and> GetPackedBits n s1 = Some (d, s2) \<and>
    contents s1 = packed n d \<and> contents s2 = []"
proof -
  have al: "\<not> m_byteAligned s" using assms(1) by (simp add: stream_ok_def)
  have "length (packed n d) \<le> room s" using length_packed_le_96 [OF assms(3,4), of d] assms(5) by simp
  from stream.puts_packed [OF assms(1,3,4) this] assms(2) obtain s1 where
    s1: "StorePackedBits_loop n d s = Some s1" "stream_ok s1" "contents s1 = packed n d @ []" by auto
  have "\<not> m_byteAligned s1" using s1(2) by (simp add: stream_ok_def)
  with stream.gets_packed [OF s1(2) assms(3,4) s1(3), of 0] s1 al show ?thesis
    by (auto simp: StorePackedBits_def GetPackedBits_def)
qed

theorem PackedBits_roundtrip_witness:
  "\<exists>s1 s2. StorePackedBits 1 4294967295 (new_stream (\<lambda>_. 205) 16) = Some s1 \<and>
    GetPackedBits 1 s1 = Some (4294967295, s2)"
  using PackedBits_roundtrip [of "new_stream (\<lambda>_. 205) 16" 1 4294967295]
  by (auto simp: new_stream_ok room_new_stream max_pos_def)

lemma StorePackedBits_loop_pos:
  assumes ret: "StorePackedBits_loop n d s = Some r" shows "n \<noteq> 0"
proof (rule StorePackedBits_loop.raw_induct [where P = "\<lambda>n d s r. n \<noteq> 0", OF _ ret])
  fix loop n d s r
  assume ih: "\<And>n d s r. loop n d s = Some r \<Longrightarrow> n \<noteq> 0"
    and step: "(if n < BITS_PER_UINT32 \<and> d \<ge> BIT_MASK n
     then Option.bind (StoreBits n (BIT_MASK n) s) (loop (min (n * 2) BITS_PER_UINT32) (d - BIT_MASK n))
     else StoreBits n d s) = Some r"
  show "n \<noteq> 0"
  proof
    assume "n = 0"
    with step obtain s' where "loop 0 (d - BIT_MASK 0) s' = Some r"
      by (auto simp: BITS_PER_UINT32_def BIT_MASK_def split: if_splits Option.bind_splits)
    from ih [OF this] show False by simp
  qed
qed

text \<open>The encoder's loop returns for exactly the initial widths of at least one bit: with
  width 0 the mask is 0, nothing is ever subtracted and the width stays 0.\<close>

theorem StorePackedBits_returns_iff:
  assumes "stream_ok s" "n \<le> 32" "96 \<le> room s"
  shows "StorePackedBits n d s \<noteq> None \<longleftrightarrow> n \<noteq> 0"
proof -
  have al: "\<not> m_byteAligned s" using assms(1) by (simp add: stream_ok_def)
  have "StorePackedBits_loop n d s \<noteq> None" if "0 < n"
  proof -
    have "length (packed n d) \<le> room s" using length_packed_le_96 [OF that assms(2), of d] assms(3) by simp
    from stream.puts_packed [OF assms(1) that assms(2) this] show ?thesis by auto
  qed
  with al StorePackedBits_loop_pos show ?thesis by (auto simp: StorePackedBits_def)
qed

theorem StorePackedBits_returns_iff_witness:
  "StorePackedBits 0 3 (new_stream (\<lambda>_. 205) 16) = None \<and> StorePackedBits 2 3 (new_stream (\<lambda>_. 205) 16) \<noteq> None"
  using StorePackedBits_returns_iff [of "new_stream (\<lambda>_. 205) 16" 0 3]
    StorePackedBits_returns_iff [of "new_stream (\<lambda>_. 205) 16" 2 3]
  by (simp add: new_stream_ok room_new_stream max_pos_def)

section \<open>Byte blocks\<close>

text \<open>\<open>StoreBitArray\<close> on a byte aligned stream appends the first \<open>n\<close> bits of the array; a partly
  used last byte stays open, so that the next field continues inside it.\<close>

theorem StoreBitArray_enqueues:
  assumes "stream_ok s" "m_write_bit_off s = 0" "BITS_TO_BYTES n \<le> length src" "8 \<le> m_size s"
    "m_write_off s + BITS_TO_BYTES n < 1048576"
    "1 < m_write_off s \<or> m_write_off s = 0 \<or> m_write_off s + BITS_TO_BYTES n \<le> m_size s"
  shows "\<exists>s'. StoreBitArray src n s = Some s' \<and> stream_ok s' \<and>
    contents s' = contents s @ take n (str_bits src) \<and> GetWritePos s' = GetWritePos s + n"
  using StoreBitArray_appends [OF assms(1-3,5,4,6)] by blast

theorem StoreBitArray_enqueues_witness:
  "\<exists>s'. StoreBitArray [7, 1] 11 (new_stream (\<lambda>_. 205) 16) = Some s' \<and>
    contents s' = [True, True, True, False, False, False, False, False, True, False, False]"
proof -
  have "m_write_off (new_stream (\<lambda>_. 205) 16) = 0" "m_write_bit_off (new_stream (\<lambda>_. 205) 16) = 0"
    using new_stream_ok(3) [of 16 "\<lambda>_. 205"] by (simp_all add: GetWritePos_def)
  with StoreBitArray_enqueues [of "new_stream (\<lambda>_. 205) 16" 11 "[7, 1]"]
  show ?thesis by (auto simp: new_stream_ok BITS_TO_BYTES_def bits_of_def upt_rec bit_numeral_rec)
qed

lemma GetString_loop_unterminated:
  assumes "reader_ok s" "contents s = str_bits cs" "\<forall>c \<in> set cs. c \<noteq> 0" "cs \<noteq> []"
  shows "\<exists>s'. GetString_loop acc s = Some (acc @ cs, s') \<and> m_last_err s' = 1"
  using assms
proof (induction cs arbitrary: s acc)
  case Nil
  then show ?case by simp
next
  case (Cons c cs)
  have c: "contents s = bits_of 8 c @ str_bits cs" using Cons.prems(2) by simp
  let ?s = "s\<lparr>m_read_off := m_read_off s + 1\<rparr>"
  note g = GetString_char [OF Cons.prems(1) c]
  have rb: "GetReadableBits ?s = 8 * length cs" using readable_bits(2) [OF g(3)] g(4) by simp
  have step: "GetString_loop acc s = (if cs = [] then Some (acc @ [c], setLastError 1 ?s)
      else GetString_loop (acc @ [c]) ?s)"
    using g(1,2) rb Cons.prems(3) by (subst GetString_loop.simps) (cases cs; simp)
  show ?case
  proof (cases "cs = []")
    case True
    with step show ?thesis by (simp add: setLastError_def)
  next
    case False
    with Cons.IH [OF g(3,4), of "acc @ [c]"] Cons.prems(3) step show ?thesis by auto
  qed
qed

text \<open>The overload of \<open>StoreString\<close> for string views stores the characters without a
  terminator. A reader that finds nothing behind them gets the characters, but with the error
  flag raised; only the overload for C strings is the counterpart of \<open>GetString\<close>.\<close>

theorem StoreString_view_unterminated:
  assumes "0 < n" "n < 1000000" "length cs < n" "\<forall>c \<in> set cs. c \<noteq> 0" "cs \<noteq> []"
  shows "\<exists>s1 s2. StoreString_view cs (new_stream fresh n) = Some s1 \<and>
    GetString s1 = Some (Some cs, s2) \<and> m_last_err s2 = 1"
proof -
  let ?s = "new_stream fresh n"
  note ok = new_stream_ok [OF assms(1,2), of fresh]
  have "m_write_off ?s = 0" using ok(3) by (simp add: GetWritePos_def)
  then obtain s1 where s1: "StoreString cs (Some (length cs)) ?s = Some s1" "stream_ok s1"
    "contents s1 = str_bits cs"
    using StoreString_appends [OF ok(1), of "length cs" cs] ok assms by auto
  have "8 \<le> 8 * length cs" using assms(5) by (cases cs) auto
  then have "\<not> GetReadableBits s1 < 8"
    using readable_bits(2) [OF stream_ok_reader_ok [OF s1(2)]] s1(3) assms(5) by simp
  with GetString_loop_unterminated [OF stream_ok_reader_ok [OF s1(2)] s1(3) assms(4,5), of "[]"] s1(1)
  show ?thesis by (auto simp: StoreString_view_def GetString_def)
qed

theorem StoreString_view_unterminated_witness:
  "\<exists>s1 s2. StoreString_view [104, 105] (new_stream (\<lambda>_. 205) 16) = Some s1 \<and>
    GetString s1 = Some (Some [104, 105], s2) \<and> m_last_err s2 = 1"
  by (rule StoreString_view_unterminated) simp_all

section \<open>The buffer\<close>

text \<open>Growing the buffer keeps every stored byte, unless exactly one byte was stored.\<close>

theorem resize_keeps_data:
  assumes "buf_inv b" "0 < acc" "acc \<le> m_max_size b" "acc < 1048576" "m_write_off b \<noteq> 1"
  shows "\<exists>b'. resize acc b = Some (0, b') \<and> buf_inv b' \<and> data b' = data b \<and> acc \<le> m_size b'"
proof -
  obtain b' where b': "resize acc b = Some (0, b')" "grown b acc b'"
    using resize_grown [OF assms(1-4)] by blast
  with grown_inv [OF assms(1) b'(2) assms(4)] grown_data [OF assms(1) b'(2)] grown_fields(8) [OF b'(2)] assms(5)
  show ?thesis by auto
qed

theorem resize_keeps_data_witness:
  "\<exists>b'. resize 40 (new_buffer (\<lambda>_. 205) 1000 0 16) = Some (0, b') \<and> data b' = []"
  using resize_keeps_data [of "new_buffer (\<lambda>_. 205) 1000 0 16" 40]
  by (auto simp: new_buffer_def Reset_def buf_inv_def data_def)

text \<open>With exactly one byte stored, a growth of the allocation replaces that byte with
  whatever the new allocation happens to hold.\<close>

theorem resize_loses_single_byte:
  assumes "buf_inv b" "m_write_off b = 1" "m_size b \<le> acc" "acc < m_max_size b" "acc < 1048576"
  shows "\<exists>b'. resize acc b = Some (0, b') \<and> data b' = [m_fresh b 0]"
proof -
  have b: "m_size b > 0" "m_read_off b \<le> 1" using assms(1,2) by (auto simp: buf_inv_def)
  have f: "take 1 (fresh_bytes (m_fresh b) (m_size b) @ xs) = [m_fresh b 0]" for xs
    using b(1) upt_conv_Cons [of 0 "m_size b"] by (simp add: fresh_bytes_def)
  have "min (Suc (2 * acc)) (m_max_size b) > acc" using assms by auto
  then show ?thesis using assms b f by (auto simp: resize_def data_def Let_def)
qed

theorem resize_loses_single_byte_witness:
  "\<exists>b'. resize 40 ((new_buffer (\<lambda>_. 205) 1000 0 8)\<lparr>m_write_off := 1\<rparr>) = Some (0, b') \<and> data b' = [205]"
  using resize_loses_single_byte [of "(new_buffer (\<lambda>_. 205) 1000 0 8)\<lparr>m_write_off := 1\<rparr>" 40]
  by (auto simp: new_buffer_def Reset_def buf_inv_def)

text \<open>\<open>PopFront\<close> drops bytes from the front: the rest moves to the start of the buffer, and a
  reader that had already passed the dropped bytes keeps its unread bytes.\<close>

theorem PopFront_removes_prefix:
  assumes "buf_inv b" "n \<le> m_write_off b"
  shows "\<exists>b'. PopFront n b = Some b' \<and> buf_inv b' \<and> data b' = drop n (data b) \<and>
    (n \<le> m_read_off b \<longrightarrow> unread b' = unread b)"
  by (rule PopFront_drops [OF assms])

theorem PopFront_removes_prefix_witness:
  "\<exists>b b'. uPut [1, 2, 3] (new_buffer (\<lambda>_. 205) 1000 0 8) = Some b \<and> PopFront 2 b = Some b' \<and> data b' = [3]"
proof -
  obtain b where b: "uPut [1, 2, 3] (new_buffer (\<lambda>_. 205) 1000 0 8) = Some b" "buf_inv b" "data b = [1, 2, 3]"
    "m_write_off b = 3"
    using uPut_appends [of "new_buffer (\<lambda>_. 205) 1000 0 8" "[1, 2, 3]"]
    by (auto simp: new_buffer_def Reset_def buf_inv_def data_def numeral_3_eq_3)
  then show ?thesis using PopFront_removes_prefix [OF b(2), of 2] by auto
qed

end
