(* ===== verification/Eastl_Set.thy ===== *)
theory Eastl_Set
  imports Prelude "HOL-Library.Tree"
begin

text \<open>
  The sets of the code: \<open>Set\<close> of \<open>Common/Containers/Set.h\<close>, an \<open>eastl::set\<close> whose comparison is
  \<open>equal_to\<close> unless another one is given, and the walks of \<open>eastl::rbtree\<close> in
  \<open>3rd_party/EASTL/include/EASTL/internal/red_black_tree.h\<close> that insertion and look-up are made of.

  The walks are modelled on trees of any shape with the comparison as an argument, since
  rebalancing keeps the order of the elements and neither statement below depends on the shape. What
  the other theories use is the second half: the operations of a \<open>Set\<close> on the list of its
  elements in order. The checks of \<open>EASTL_VALIDATE_COMPARE\<close> are compiled in only with
  \<open>EASTL_DEBUG\<close> and are left out.
\<close>

section \<open>Walks\<close>

text \<open>Where a new element would go, as the number of elements before it.\<close>

fun insert_gap :: "('k \<Rightarrow> 'k \<Rightarrow> bool) \<Rightarrow> 'k tree \<Rightarrow> 'k \<Rightarrow> nat" where
  "insert_gap compare Leaf key = 0"
| "insert_gap compare (Node l a r) key =
    (if compare key a then insert_gap compare l key else size l + 1 + insert_gap compare r key)"

text \<open>\<open>insert\<close>: the elements in order afterwards.\<close>

definition tree_insert :: "('k \<Rightarrow> 'k \<Rightarrow> bool) \<Rightarrow> 'k tree \<Rightarrow> 'k \<Rightarrow> 'k list" where
  "tree_insert compare t key =
    (let xs = inorder t; i = insert_gap compare t key in
     if i = 0 then key # xs
     else if compare (xs ! (i - 1)) key then take i xs @ key # drop i xs
     else xs)"

text \<open>The end of the walk of \<open>find\<close> and \<open>lower_bound\<close>; the size of the tree stands for \<open>end()\<close>.\<close>

fun range_begin :: "('k \<Rightarrow> 'k \<Rightarrow> bool) \<Rightarrow> 'k tree \<Rightarrow> 'k \<Rightarrow> nat" where
  "range_begin compare Leaf key = 0"
| "range_begin compare (Node l a r) key =
    (if \<not> compare a key then range_begin compare l key else size l + 1 + range_begin compare r key)"

definition tree_find :: "('k \<Rightarrow> 'k \<Rightarrow> bool) \<Rightarrow> 'k tree \<Rightarrow> 'k \<Rightarrow> nat option" where
  "tree_find compare t key =
    (let i = range_begin compare t key in
     if i < size t \<and> \<not> compare key (inorder t ! i) then Some i else None)"

definition tree_erase :: "('k \<Rightarrow> 'k \<Rightarrow> bool) \<Rightarrow> 'k tree \<Rightarrow> 'k \<Rightarrow> 'k list" where
  "tree_erase compare t key =
    (case tree_find compare t key of
       None \<Rightarrow> inorder t
     | Some i \<Rightarrow> take i (inorder t) @ drop (i + 1) (inorder t))"

lemma length_inorder_size [simp]: "length (inorder t) = size t"
  by (induction t) auto

lemma insert_gap_le: "insert_gap c t k \<le> size t"
  by (induction t) auto

lemma range_begin_le: "range_begin c t k \<le> size t"
  by (induction t) auto

section \<open>The operations of \<open>Set\<close>\<close>

definition Set_insert :: "'k \<Rightarrow> 'k list \<Rightarrow> 'k list" where
  "Set_insert key xs = (case xs of [] \<Rightarrow> [key] | x # _ \<Rightarrow> if key = x then key # xs else xs)"

definition Set_erase :: "'k \<Rightarrow> 'k list \<Rightarrow> 'k list" where
  "Set_erase key xs = (case xs of [] \<Rightarrow> [] | x # rest \<Rightarrow> if key = x then xs else rest)"

text \<open>All elements of a set are the same: true of the empty set and kept by the operations.\<close>

definition all_same :: "'k list \<Rightarrow> bool" where
  "all_same xs \<longleftrightarrow> (\<forall>x \<in> set xs. x = hd xs)"

lemma all_same_Nil [simp]: "all_same []"
  by (simp add: all_same_def)

lemma all_same_insert: "all_same xs \<Longrightarrow> all_same (Set_insert k xs)"
  by (auto simp: all_same_def Set_insert_def split: list.splits)

lemma all_same_erase: "all_same xs \<Longrightarrow> all_same (Set_erase k xs)"
  by (cases xs; cases "tl xs") (auto simp: all_same_def Set_erase_def)

lemma gap_same: "\<forall>x \<in> set_tree t. x = a \<Longrightarrow> insert_gap (=) t k = (if k = a then 0 else size t)"
  by (induction t) auto

lemma range_same: "\<forall>x \<in> set_tree t. x = a \<Longrightarrow> range_begin (=) t k = (if k = a then size t else 0)"
  by (induction t) auto

lemma inorder_same:
  assumes "\<forall>x \<in> set_tree t. x = a"
  shows "inorder t = replicate (size t) a"
proof -
  have "set (inorder t) \<subseteq> {a}" using assms by (auto simp: set_inorder)
  then have "inorder t = replicate (length (inorder t)) a"
    by (intro replicate_length_same [symmetric]) auto
  then show ?thesis by simp
qed

lemma tree_insert_same:
  assumes "all_same (inorder t)"
  shows "tree_insert (=) t k = Set_insert k (inorder t)"
proof (cases "inorder t")
  case Nil
  then have "t = Leaf" by simp
  then show ?thesis by (simp add: tree_insert_def Set_insert_def)
next
  case (Cons a rest)
  have same: "\<forall>x \<in> set_tree t. x = a"
    using assms Cons unfolding all_same_def set_inorder [symmetric] by simp
  have n: "size t = Suc (length rest)" using arg_cong [where f = length, OF Cons] by simp
  have "inorder t ! (size t - 1) = a" unfolding inorder_same [OF same] using n by (intro nth_replicate) simp
  with gap_same [OF same, of k] n Cons show ?thesis by (auto simp: tree_insert_def Set_insert_def Let_def)
qed

lemma tree_erase_same:
  assumes "all_same (inorder t)"
  shows "tree_erase (=) t k = Set_erase k (inorder t)"
proof (cases "inorder t")
  case Nil
  then have "t = Leaf" by simp
  then show ?thesis by (simp add: tree_erase_def tree_find_def Set_erase_def)
next
  case (Cons a rest)
  have same: "\<forall>x \<in> set_tree t. x = a"
    using assms Cons unfolding all_same_def set_inorder [symmetric] by simp
  have n: "size t = Suc (length rest)" using arg_cong [where f = length, OF Cons] by simp
  show ?thesis
    using range_same [OF same, of k] n Cons by (auto simp: tree_erase_def tree_find_def Set_erase_def Let_def)
qed

text \<open>Inserting into an empty set keeps the first element only, once for each time it comes.\<close>

lemma fold_Set_insert:
  "fold Set_insert ks (replicate (Suc n) k) = replicate (Suc n + length (filter ((=) k) ks)) k"
proof (induction ks arbitrary: n)
  case (Cons a ks)
  show ?case using Cons.IH [of n] Cons.IH [of "Suc n"] by (auto simp: Set_insert_def)
qed simp

lemma fold_Set_insert_Nil:
  "fold Set_insert (k # ks) [] = replicate (Suc (length (filter ((=) k) ks))) k"
  using fold_Set_insert [of ks 0 k] by (simp add: Set_insert_def)

lemma fold_Set_insert_distinct: "distinct ks \<Longrightarrow> fold Set_insert ks [] = take 1 ks"
proof (cases ks)
  case (Cons k r)
  moreover assume "distinct ks"
  ultimately have "filter ((=) k) r = []" by (auto simp: filter_empty_conv)
  with Cons show ?thesis using fold_Set_insert_Nil [of k r] by simp
qed simp

section \<open>A strict order instead\<close>

lemma gap_bst:
  fixes k :: "'k :: linorder"
  assumes "bst t" "insert_gap (<) t k \<noteq> 0"
  shows "inorder t ! (insert_gap (<) t k - 1) \<le> k"
  using assms
proof (induction t)
  case (Node l a r)
  show ?case
  proof (cases "k < a")
    case True
    with Node insert_gap_le [of "(<)" l k] show ?thesis by (auto simp: nth_append)
  next
    case False
    with Node show ?thesis by (cases "insert_gap (<) r k = 0") (auto simp: nth_append nth_Cons')
  qed
qed simp

text \<open>With the order that the walks are made for, every element is inserted.\<close>

lemma tree_insert_less:
  fixes k :: "'k :: linorder"
  assumes "bst t"
  shows "set (tree_insert (<) t k) = insert k (set_tree t)"
proof -
  let ?i = "insert_gap (<) t k" and ?xs = "inorder t"
  have split: "set_tree t = set (take ?i ?xs) \<union> set (drop ?i ?xs)"
    by (metis append_take_drop_id set_append set_inorder)
  consider "?i = 0" | "?i \<noteq> 0" "?xs ! (?i - 1) < k" | "?i \<noteq> 0" "?xs ! (?i - 1) = k"
    using gap_bst [OF assms, of k] by fastforce
  then show ?thesis
  proof cases
    case 3
    have "?i - 1 < length ?xs" using insert_gap_le [of "(<)" t k] 3(1) by simp
    then have "k \<in> set_tree t" using nth_mem [of "?i - 1" ?xs] 3(2) by simp
    with 3 show ?thesis by (auto simp: tree_insert_def Let_def)
  qed (simp_all add: tree_insert_def Let_def, subst split, simp)
qed


section \<open>What a set remembers\<close>

text \<open>A tree that holds what was inserted, one element after the other, in whatever shape.\<close>

inductive built :: "('k \<Rightarrow> 'k \<Rightarrow> bool) \<Rightarrow> 'k list \<Rightarrow> 'k tree \<Rightarrow> bool" for compare where
  built_empty: "built compare [] Leaf"
| built_insert: "built compare ks t \<Longrightarrow> inorder t' = tree_insert compare t k \<Longrightarrow> built compare (ks @ [k]) t'"

lemma built_Set: "built (=) ks t \<Longrightarrow> inorder t = fold Set_insert ks [] \<and> all_same (inorder t)"
  by (induction rule: built.induct) (auto simp: tree_insert_same all_same_insert)

text \<open>A set with the comparison \<open>equal_to\<close> remembers the first element that was inserted and no other
  one; looking up that element does not find it, while looking up any other element does, and
  erasing another element removes it.\<close>

theorem Set_keeps_first_element:
  assumes "built (=) (k # ks) t"
  shows "set (inorder t) = {k} \<and> tree_find (=) t k = None \<and>
    (\<forall>y. y \<noteq> k \<longrightarrow> tree_find (=) t y = Some 0 \<and> length (tree_erase (=) t y) + 1 = length (inorder t))"
proof -
  have io: "inorder t = replicate (Suc (length (filter ((=) k) ks))) k"
    using built_Set [OF assms] fold_Set_insert_Nil [of k ks] by simp
  then have set: "set (inorder t) = {k}" by (simp only: set_replicate)
  then have same: "\<forall>x \<in> set_tree t. x = k" by simp
  have "0 < size t" using arg_cong [where f = length, OF io] by simp
  with range_same [OF same] set io show ?thesis
    by (auto simp: tree_find_def tree_erase_def Let_def)
qed

theorem Set_keeps_first_element_witness:
  "\<exists>t. built (=) [7, 3 :: nat] t \<and> set (inorder t) = {7} \<and> tree_find (=) t 7 = None"
proof -
  let ?t = "Node Leaf (7 :: nat) Leaf"
  have "built (=) ([] @ [7]) ?t" by (rule built_insert [OF built_empty]) (simp add: tree_insert_def)
  then have "built (=) (([] @ [7]) @ [3]) ?t" by (rule built_insert) (simp add: tree_insert_def)
  then have "built (=) (7 # [3]) ?t" by simp
  from Set_keeps_first_element [OF this] \<open>built (=) (7 # [3]) ?t\<close> show ?thesis by blast
qed

end
