(* ===== verification/Crudp_Packet.thy ===== *)
theory Crudp_Packet
  imports BitStream_Strings Eastl_Set
begin

unbundle bit_operations_syntax

text \<open>
  The packets of the reliable UDP protocol: class \<open>CrudP_Packet\<close> of
  \<open>Common/CRUDP_Protocol/CRUDP_Packet.h\<close> and \<open>CRUDP_Packet.cpp\<close>, and the checksum of
  \<open>Common/CRUDP_Protocol/PacketCodec.cpp\<close>. Points in time are nanoseconds of the steady clock,
  \<open>0\<close> being its epoch. The set of acknowledged sequence numbers is the list of its elements in order.
\<close>

definition maxPacketSize :: nat where
  "maxPacketSize = 1472"

definition packetHeaderSize :: nat where
  "packetHeaderSize = 8"

record CrudP_Packet =
  m_stream :: "bitstream option"
  m_compressed :: bool
  m_finalized :: bool
  m_reliable :: bool
  m_compress_on_send :: bool
  m_seqNo :: u32
  m_numSibs :: u32
  m_sibId :: u32
  m_sibPos :: u32
  m_creation_time :: int
  m_xfer_time :: int
  m_retransmit_count :: u32
  m_acks :: "u32 list"

section \<open>Construction\<close>

definition packet_of_stream :: "int \<Rightarrow> bitstream option \<Rightarrow> CrudP_Packet" where
  "packet_of_stream now stream =
    \<lparr>m_stream = stream, m_compressed = False, m_finalized = False, m_reliable = True,
     m_compress_on_send = False, m_seqNo = 0, m_numSibs = 0, m_sibId = 0, m_sibPos = 0,
     m_creation_time = now, m_xfer_time = 0, m_retransmit_count = 0, m_acks = []\<rparr>"

definition new_packet :: "(nat \<Rightarrow> u8) \<Rightarrow> int \<Rightarrow> CrudP_Packet" where
  "new_packet fresh now =
    \<lparr>m_stream = Some (new_stream fresh maxPacketSize), m_compressed = False, m_finalized = False,
     m_reliable = True, m_compress_on_send = False, m_seqNo = 0, m_numSibs = 0, m_sibId = 0,
     m_sibPos = 0, m_creation_time = now, m_xfer_time = 0, m_retransmit_count = 0, m_acks = []\<rparr>"

text \<open>The copy constructor leaves out the stream, the acknowledgements and the creation time.\<close>

definition copy_packet :: "int \<Rightarrow> CrudP_Packet \<Rightarrow> CrudP_Packet" where
  "copy_packet now from =
    \<lparr>m_stream = None, m_compressed = m_compressed from, m_finalized = m_finalized from,
     m_reliable = m_reliable from, m_compress_on_send = False, m_seqNo = m_seqNo from,
     m_numSibs = m_numSibs from, m_sibId = m_sibId from, m_sibPos = m_sibPos from,
     m_creation_time = now, m_xfer_time = m_xfer_time from,
     m_retransmit_count = m_retransmit_count from, m_acks = []\<rparr>"

section \<open>Access through the stream\<close>

text \<open>A call on a packet without a stream dereferences a null pointer.\<close>

definition on_stream :: "(bitstream \<Rightarrow> bitstream option) \<Rightarrow> CrudP_Packet \<Rightarrow> CrudP_Packet option" where
  "on_stream f p = do { s \<leftarrow> m_stream p; s \<leftarrow> f s; Some (p\<lparr>m_stream := Some s\<rparr>) }"

definition read_stream :: "(bitstream \<Rightarrow> ('v \<times> bitstream) option) \<Rightarrow> CrudP_Packet \<Rightarrow> ('v \<times> CrudP_Packet) option" where
  "read_stream f p = do { s \<leftarrow> m_stream p; (v, s) \<leftarrow> f s; Some (v, p\<lparr>m_stream := Some s\<rparr>) }"

definition packet_GetBits :: "nat \<Rightarrow> CrudP_Packet \<Rightarrow> (u32 \<times> CrudP_Packet) option" where
  "packet_GetBits nBits = read_stream (GetBits nBits)"

definition packet_GetPackedBits :: "nat \<Rightarrow> CrudP_Packet \<Rightarrow> (u32 \<times> CrudP_Packet) option" where
  "packet_GetPackedBits nBits = read_stream (GetPackedBits nBits)"

definition packet_GetString :: "CrudP_Packet \<Rightarrow> (u8 list option \<times> CrudP_Packet) option" where
  "packet_GetString = read_stream GetString"

definition packet_GetFloat :: "CrudP_Packet \<Rightarrow> (u32 \<times> CrudP_Packet) option" where
  "packet_GetFloat = read_stream GetFloat"

definition packet_StoreBits :: "nat \<Rightarrow> u32 \<Rightarrow> CrudP_Packet \<Rightarrow> CrudP_Packet option" where
  "packet_StoreBits nBits dataBits = on_stream (StoreBits nBits dataBits)"

definition packet_StoreBitArray :: "u8 list \<Rightarrow> nat \<Rightarrow> CrudP_Packet \<Rightarrow> CrudP_Packet option" where
  "packet_StoreBitArray arr nBits = on_stream (StoreBitArray arr nBits)"

definition packet_StorePackedBits :: "nat \<Rightarrow> u32 \<Rightarrow> CrudP_Packet \<Rightarrow> CrudP_Packet option" where
  "packet_StorePackedBits nBits dataBits = on_stream (StorePackedBits nBits dataBits)"

definition packet_StoreString :: "u8 list \<Rightarrow> CrudP_Packet \<Rightarrow> CrudP_Packet option" where
  "packet_StoreString str = on_stream (StoreString str None)"

definition packet_ByteAlign :: "CrudP_Packet \<Rightarrow> CrudP_Packet option" where
  "packet_ByteAlign = on_stream (\<lambda>s. Some (ByteAlign True True s))"

definition GetPacketLength :: "CrudP_Packet \<Rightarrow> nat option" where
  "GetPacketLength p = map_option GetReadableDataSize (m_stream p)"

text \<open>\<open>setContents\<close>: assignment to the stream, or a copy when there is none yet.\<close>

definition setContents :: "bitstream \<Rightarrow> CrudP_Packet \<Rightarrow> CrudP_Packet option" where
  "setContents t p =
    (case m_stream p of
       Some s \<Rightarrow> do { s \<leftarrow> assign_stream s t; Some (p\<lparr>m_stream := Some s\<rparr>) }
     | None \<Rightarrow> do { s \<leftarrow> copy_stream t; Some (p\<lparr>m_stream := Some s\<rparr>) })"

section \<open>Header members\<close>

definition HasSiblings :: "CrudP_Packet \<Rightarrow> bool" where
  "HasSiblings p \<longleftrightarrow> m_numSibs p > 0"

definition SetReliabilty :: "bool \<Rightarrow> CrudP_Packet \<Rightarrow> CrudP_Packet" where
  "SetReliabilty r p = p\<lparr>m_reliable := r\<rparr>"

definition setSeqNo :: "u32 \<Rightarrow> CrudP_Packet \<Rightarrow> CrudP_Packet" where
  "setSeqNo n p = p\<lparr>m_seqNo := n\<rparr>"

definition setNumSibs :: "u32 \<Rightarrow> CrudP_Packet \<Rightarrow> CrudP_Packet" where
  "setNumSibs n p = p\<lparr>m_numSibs := n\<rparr>"

definition setSibId :: "u32 \<Rightarrow> CrudP_Packet \<Rightarrow> CrudP_Packet" where
  "setSibId n p = p\<lparr>m_sibId := n\<rparr>"

definition setSibPos :: "u32 \<Rightarrow> CrudP_Packet \<Rightarrow> CrudP_Packet" where
  "setSibPos n p = p\<lparr>m_sibPos := n\<rparr>"

definition SetIsCompressed :: "bool \<Rightarrow> CrudP_Packet \<Rightarrow> CrudP_Packet" where
  "SetIsCompressed c p = p\<lparr>m_compressed := c\<rparr>"

definition setLastSend :: "int \<Rightarrow> CrudP_Packet \<Rightarrow> CrudP_Packet" where
  "setLastSend t p = p\<lparr>m_xfer_time := t\<rparr>"

definition incRetransmits :: "CrudP_Packet \<Rightarrow> CrudP_Packet" where
  "incRetransmits p = p\<lparr>m_retransmit_count := m_retransmit_count p + 1\<rparr>"

definition getNumAcks :: "CrudP_Packet \<Rightarrow> u32" where
  "getNumAcks p = of_nat (length (m_acks p))"

definition addAck :: "u32 \<Rightarrow> CrudP_Packet \<Rightarrow> CrudP_Packet" where
  "addAck i p = p\<lparr>m_acks := Set_insert i (m_acks p)\<rparr>"

text \<open>\<open>getNextAck\<close> removes the first element; on an empty set it is undefined.\<close>

definition getNextAck :: "CrudP_Packet \<Rightarrow> (u32 \<times> CrudP_Packet) option" where
  "getNextAck p =
    (case m_acks p of [] \<Rightarrow> None | a # as \<Rightarrow> Some (a, p\<lparr>m_acks := as\<rparr>))"

section \<open>Checksum\<close>

text \<open>\<open>PacketCodecNull::Checksum\<close>, an Adler-32 variant; the sums are kept in 32 bits.\<close>

definition htons :: "u16 \<Rightarrow> u16" where
  "htons v = push_bit 8 v OR drop_bit 8 v"

fun checksum_loop :: "u8 list \<Rightarrow> u32 \<Rightarrow> u32 \<Rightarrow> u32 \<times> u32" where
  "checksum_loop [] sum1 sum2 = (sum1, sum2)"
| "checksum_loop (b # bs) sum1 sum2 =
    (let sum1 = sum1 + ucast b;
         sum2 = sum2 + sum1
     in checksum_loop bs (if sum1 \<ge> 65521 then sum1 - 65521 else sum1) sum2)"

definition Checksum :: "u8 list \<Rightarrow> u32" where
  "Checksum buf =
    (let (sum1, sum2) = checksum_loop buf 1 0;
         sum2 = sum2 mod 65521;
         c1 = (ucast sum1 :: u16);
         c2 = (ucast sum2 :: u16)
     in push_bit 16 (ucast (htons c1)) OR ucast (htons c2))"

end
