(* ===== verification/Crudp_Protocol.thy ===== *)
theory Crudp_Protocol
  imports Crudp_Packet "HOL-Library.AList"
begin

unbundle bit_operations_syntax

text \<open>
  The reliable UDP protocol engine: class \<open>CrudP_Protocol\<close> of
  \<open>Common/CRUDP_Protocol/CRUDP_Protocol.h\<close> and \<open>CRUDP_Protocol.cpp\<close>.

  Packets are heap objects that several queues point to at once (a packet that waits for its
  acknowledgement and is being retransmitted is in two of them), so the model has an explicit
  heap: the queues hold addresses, \<open>0\<close> is the null pointer, \<open>delete\<close> takes an object off the
  heap, and using an address that is not on the heap is the outcome \<open>None\<close>. The current time is
  an argument of every operation that reads the clock. Operations are modelled one at a time:
  the mutex of the class guards against concurrent calls, which are not part of the model. The
  checksum is the code's; \<open>PacketCodecNull\<close> does no encryption, so \<open>Encrypt\<close> and \<open>Decrypt\<close>
  do not appear.
\<close>

section \<open>State\<close>

type_synonym ptr = nat

record CrudP_Protocol =
  heap :: "ptr \<Rightarrow> CrudP_Packet option"
  next_ptr :: ptr
  mem_fresh :: "nat \<Rightarrow> u8"
  send_seq :: u32
  recv_seq :: u32
  sibling_id :: u32
  has_codec :: bool
  avail_packets :: "ptr list"
  reliable_packets :: "ptr list"
  send_queue :: "ptr list"
  retransmit_queue :: "ptr list"
  recv_acks :: "u32 list"
  m_unacked_count :: nat
  sibling_map :: "(u32 \<times> ptr list) list"
  m_compression_allowed :: bool
  m_last_activity :: int

definition max_packet_data_size :: nat where
  "max_packet_data_size = 1272"

definition QUEUE_SIZE :: nat where
  "QUEUE_SIZE = 16384"

definition new_protocol :: "(nat \<Rightarrow> u8) \<Rightarrow> bool \<Rightarrow> CrudP_Protocol" where
  "new_protocol fresh codec =
    \<lparr>heap = (\<lambda>_. None), next_ptr = 1, mem_fresh = fresh, send_seq = 0, recv_seq = 0,
     sibling_id = 0, has_codec = codec, avail_packets = [], reliable_packets = [],
     send_queue = [], retransmit_queue = [], recv_acks = [], m_unacked_count = 0,
     sibling_map = [], m_compression_allowed = False, m_last_activity = 0\<rparr>"

section \<open>The heap of packets\<close>

definition deref :: "CrudP_Protocol \<Rightarrow> ptr \<Rightarrow> CrudP_Packet option" where
  "deref s p = (if p = 0 then None else heap s p)"

definition alloc :: "CrudP_Packet \<Rightarrow> CrudP_Protocol \<Rightarrow> ptr \<times> CrudP_Protocol" where
  "alloc v s = (next_ptr s, s\<lparr>heap := (heap s)(next_ptr s \<mapsto> v), next_ptr := next_ptr s + 1\<rparr>)"

definition assign :: "ptr \<Rightarrow> CrudP_Packet \<Rightarrow> CrudP_Protocol \<Rightarrow> CrudP_Protocol" where
  "assign p v s = s\<lparr>heap := (heap s)(p \<mapsto> v)\<rparr>"

text \<open>\<open>delete p\<close>: nothing on the null pointer, undefined on a pointer that is not live.\<close>

definition PacketDestroyer :: "ptr \<Rightarrow> CrudP_Protocol \<Rightarrow> CrudP_Protocol option" where
  "PacketDestroyer p s =
    (if p = 0 then Some s
     else case heap s p of None \<Rightarrow> None | Some _ \<Rightarrow> Some (s\<lparr>heap := (heap s)(p := None)\<rparr>))"

fun destroy_all :: "ptr list \<Rightarrow> CrudP_Protocol \<Rightarrow> CrudP_Protocol option" where
  "destroy_all [] s = Some s"
| "destroy_all (p # ps) s = do { s \<leftarrow> PacketDestroyer p s; destroy_all ps s }"

section \<open>Fixed size queues\<close>

definition queue_isFull :: "ptr list \<Rightarrow> bool" where
  "queue_isFull q \<longleftrightarrow> length q \<ge> QUEUE_SIZE"

definition queue_push_back :: "ptr \<Rightarrow> ptr list \<Rightarrow> ptr list" where
  "queue_push_back p q = (if \<not> queue_isFull q then q @ [p] else q)"

definition queue_front :: "ptr list \<Rightarrow> ptr" where
  "queue_front q = (case q of [] \<Rightarrow> 0 | p # _ \<Rightarrow> p)"

section \<open>Clearing\<close>

fun destroy_siblings :: "(u32 \<times> ptr list) list \<Rightarrow> CrudP_Protocol \<Rightarrow> CrudP_Protocol option" where
  "destroy_siblings [] s = Some s"
| "destroy_siblings ((_, packs) # m) s = do { s \<leftarrow> destroy_all packs s; destroy_siblings m s }"

definition clearQueues :: "bool \<Rightarrow> bool \<Rightarrow> CrudP_Protocol \<Rightarrow> CrudP_Protocol option" where
  "clearQueues recv_queue clear_send_queue s =
    do {
      s \<leftarrow> (if recv_queue then do {
              s \<leftarrow> destroy_all (avail_packets s) s;
              s \<leftarrow> destroy_siblings (sibling_map s) s;
              Some (s\<lparr>sibling_map := [], avail_packets := []\<rparr>) }
            else Some s);
      if clear_send_queue then do {
        s \<leftarrow> destroy_all (send_queue s) s;
        s \<leftarrow> destroy_all (reliable_packets s) s;
        Some (s\<lparr>retransmit_queue := [], reliable_packets := [], send_queue := []\<rparr>) }
      else Some s }"

section \<open>Acknowledgements\<close>

text \<open>\<open>PacketAck\<close>: the loop over \<open>reliable_packets\<close>; \<open>front\<close> is the part already passed.\<close>

fun PacketAck_loop :: "u32 \<Rightarrow> ptr list \<Rightarrow> ptr list \<Rightarrow> CrudP_Protocol \<Rightarrow> CrudP_Protocol option" where
  "PacketAck_loop ack front [] s = Some s"
| "PacketAck_loop ack front (pack # packs) s =
    (if pack = 0 then PacketAck_loop ack (front @ [pack]) packs s
     else do {
       v \<leftarrow> deref s pack;
       if m_seqNo v \<noteq> ack then PacketAck_loop ack (front @ [pack]) packs s
       else do {
         s \<leftarrow> PacketDestroyer pack (s\<lparr>retransmit_queue := remove1 pack (retransmit_queue s)\<rparr>);
         Some (s\<lparr>reliable_packets := front @ 0 # packs\<rparr>) } })"

definition PacketAck :: "u32 \<Rightarrow> CrudP_Protocol \<Rightarrow> CrudP_Protocol option" where
  "PacketAck ack s = PacketAck_loop ack [] (reliable_packets s) s"

text \<open>Reading the acknowledgements of a packet: the first one, then the differences.\<close>

fun parseAcks_loop :: "nat \<Rightarrow> u32 \<Rightarrow> bitstream \<Rightarrow> CrudP_Packet \<Rightarrow> (bitstream \<times> CrudP_Packet) option" where
  "parseAcks_loop 0 firstAck src tgt = Some (src, tgt)"
| "parseAcks_loop (Suc n) firstAck src tgt =
    do { (d, src) \<leftarrow> GetPackedBits 1 src;
         let firstAck = firstAck + (d + 1);
         parseAcks_loop n firstAck src (addAck firstAck tgt) }"

definition parseAcks :: "bitstream \<Rightarrow> CrudP_Packet \<Rightarrow> (bitstream \<times> CrudP_Packet) option" where
  "parseAcks src tgt =
    do { (numUniqueAcks, src) \<leftarrow> GetPackedBits 1 src;
         if numUniqueAcks = 0 then Some (src, tgt)
         else do {
           (firstAck, src) \<leftarrow> GetBits 32 src;
           parseAcks_loop (unat numUniqueAcks - 1) firstAck src (addAck firstAck tgt) } }"

text \<open>Storing up to sixteen of the received sequence numbers; the rest waits for the next packet.\<close>

fun storeAcks_loop :: "u32 \<Rightarrow> u32 \<Rightarrow> u32 list \<Rightarrow> bitstream \<Rightarrow> (u32 list \<times> bitstream) option" where
  "storeAcks_loop num_acks last_ack [] bs = Some ([], bs)"
| "storeAcks_loop num_acks last_ack (a # as) bs =
    do { bs \<leftarrow> StorePackedBits 1 ((a - last_ack) - 1) bs;
         if num_acks - 1 = 0 then Some (as, bs)
         else storeAcks_loop (num_acks - 1) a as bs }"

definition storeAcks :: "bitstream \<Rightarrow> CrudP_Protocol \<Rightarrow> (bitstream \<times> CrudP_Protocol) option" where
  "storeAcks bs s =
    (case remdups (sort (recv_acks s)) of
       [] \<Rightarrow> do { bs \<leftarrow> StorePackedBits 1 0 bs; Some (bs, s) }
     | first # rest \<Rightarrow> do {
         let num_acks = (of_nat (min (length (first # rest)) 16) :: u32);
         bs \<leftarrow> StorePackedBits 1 num_acks bs;
         bs \<leftarrow> StoreBits 32 first bs;
         (left, bs) \<leftarrow> storeAcks_loop (num_acks - 1) first rest bs;
         Some (bs, s\<lparr>recv_acks := left, m_unacked_count := length left\<rparr>) })"

section \<open>Siblings: the parts of a split packet\<close>

definition sibling_storage :: "u32 \<Rightarrow> CrudP_Protocol \<Rightarrow> ptr list" where
  "sibling_storage i s = (case map_of (sibling_map s) i of None \<Rightarrow> [] | Some st \<Rightarrow> st)"

definition set_sibling_storage :: "u32 \<Rightarrow> ptr list \<Rightarrow> CrudP_Protocol \<Rightarrow> CrudP_Protocol" where
  "set_sibling_storage i st s = s\<lparr>sibling_map := AList.update i st (sibling_map s)\<rparr>"

definition allSiblingsAvailable :: "u32 \<Rightarrow> CrudP_Protocol \<Rightarrow> bool" where
  "allSiblingsAvailable sibid s =
    (let storage = sibling_storage sibid s
     in length (filter (\<lambda>pak. pak \<noteq> 0) storage) = length storage)"

text \<open>\<open>insert_sibling\<close>: an index outside the storage is a write outside it.\<close>

definition insert_sibling :: "ptr \<Rightarrow> CrudP_Protocol \<Rightarrow> (bool \<times> CrudP_Protocol) option" where
  "insert_sibling pkt s =
    do {
      p \<leftarrow> deref s pkt;
      let storage = sibling_storage (m_sibId p) s;
      let storage = (if length storage = 0 then replicate (unat (m_numSibs p)) 0 else storage);
      let s = set_sibling_storage (m_sibId p) storage s;
      let pos = unat (m_sibPos p);
      if \<not> pos < length storage then None
      else if storage ! pos \<noteq> 0 then do {
        q \<leftarrow> deref s (storage ! pos);
        if m_sibId q \<noteq> m_sibId p then None else Some (False, s) }
      else Some (True, set_sibling_storage (m_sibId p) (storage[pos := pkt]) s) }"

text \<open>\<open>mergeSiblings\<close>: the parts are appended to one stream and destroyed.\<close>

fun mergeSiblings_loop :: "u32 \<Rightarrow> ptr list \<Rightarrow> bitstream \<Rightarrow> CrudP_Protocol \<Rightarrow>
    (bitstream \<times> CrudP_Protocol) option" where
  "mergeSiblings_loop i [] bs s = Some (bs, s)"
| "mergeSiblings_loop i (pak # paks) bs s =
    do { p \<leftarrow> deref s pak;
         if m_sibId p \<noteq> i then None
         else do {
           pkt_bs \<leftarrow> m_stream p;
           bs \<leftarrow> StoreBitArray (drop (m_read_off pkt_bs) (m_buf pkt_bs)) (GetReadableBits pkt_bs) bs;
           s \<leftarrow> PacketDestroyer pak s;
           mergeSiblings_loop i paks bs s } }"

definition mergeSiblings :: "int \<Rightarrow> u32 \<Rightarrow> CrudP_Protocol \<Rightarrow> (ptr \<times> CrudP_Protocol) option" where
  "mergeSiblings now i s =
    do {
      storage \<leftarrow> map_of (sibling_map s) i;
      if storage = [] then None
      else do {
        first \<leftarrow> deref s (hd storage);
        let bs = new_stream (mem_fresh s) 32;
        let (res, s) = alloc (copy_packet now first) s;
        (bs, s) \<leftarrow> mergeSiblings_loop i storage bs s;
        v \<leftarrow> deref s res;
        let s = assign res (v\<lparr>m_stream := Some bs\<rparr>) s;
        Some (res, s\<lparr>sibling_map := AList.delete i (sibling_map s)\<rparr>) } }"

section \<open>Receiving\<close>

fun ack_all :: "nat \<Rightarrow> ptr \<Rightarrow> CrudP_Protocol \<Rightarrow> CrudP_Protocol option" where
  "ack_all 0 a s = Some s"
| "ack_all (Suc n) a s =
    do { v \<leftarrow> deref s a;
         (ack, v) \<leftarrow> getNextAck v;
         s \<leftarrow> PacketAck ack (assign a v s);
         ack_all n a s }"

definition PushRecvPacket :: "int \<Rightarrow> ptr \<Rightarrow> CrudP_Protocol \<Rightarrow> CrudP_Protocol option" where
  "PushRecvPacket now a s =
    do {
      p \<leftarrow> deref s a;
      s \<leftarrow> ack_all (unat (getNumAcks p)) a s;
      let s = s\<lparr>reliable_packets := filter (\<lambda>p. p \<noteq> 0) (reliable_packets s)\<rparr>;
      p \<leftarrow> deref s a;
      let s = s\<lparr>recv_acks := recv_acks s @ [m_seqNo p]\<rparr>;
      let s = s\<lparr>m_unacked_count := length (recv_acks s)\<rparr>;
      if \<not> HasSiblings p then Some (s\<lparr>avail_packets := avail_packets s @ [a]\<rparr>)
      else do {
        (inserted, s) \<leftarrow> insert_sibling a s;
        if \<not> inserted then PacketDestroyer a s
        else if allSiblingsAvailable (m_sibId p) s then do {
          (m, s) \<leftarrow> mergeSiblings now (m_sibId p) s;
          Some (s\<lparr>avail_packets := avail_packets s @ [m]\<rparr>) }
        else Some s } }"

text \<open>
  \<open>ReceivedBlock\<close> in two parts: \<open>parse_block\<close> decodes the datagram into a packet (its outer
  \<open>None\<close> is a failed assertion, the inner one a block that is ignored), the rest hands the
  packet on. Negative intermediate results wrap around in 32 bits.
\<close>

definition parse_header :: "bitstream \<Rightarrow> CrudP_Packet \<Rightarrow> (bitstream \<times> CrudP_Packet) option" where
  "parse_header src res =
    do {
      (debug, src) \<leftarrow> uGetBits 1 src;
      if debug \<noteq> 0 then None
      else do {
        (seq, src) \<leftarrow> uGetBits 32 src;
        let res = setSeqNo seq res;
        (sibcount, src) \<leftarrow> GetPackedBits 1 src;
        let res = setNumSibs sibcount res;
        (src, res) \<leftarrow> (if sibcount \<noteq> 0 then do {
            (pos, src) \<leftarrow> GetPackedBits 1 src;
            let res = setSibPos pos res;
            (i, src) \<leftarrow> uGetBits 32 src;
            Some (src, setSibId i res) }
          else Some (src, res));
        (src, res) \<leftarrow> parseAcks src res;
        (compressed, src) \<leftarrow> GetBits 1 src;
        Some (src, SetIsCompressed (compressed \<noteq> 0) res) } }"

definition parse_block :: "(nat \<Rightarrow> u8) \<Rightarrow> int \<Rightarrow> bool \<Rightarrow> bitstream \<Rightarrow> CrudP_Packet option option" where
  "parse_block fresh now codec src =
    (if \<not> codec \<or> GetReadableDataSize src < 12 then Some None
     else do {
       (bitlength, src) \<leftarrow> Get 4 src;
       let bitlength = word32_of (the bitlength);
       if \<not> GetReadableBits src \<ge> unat (bitlength - 32) then None
       else do {
         (checksum, src) \<leftarrow> Get 4 src;
         let checksum = word32_of (the checksum);
         let realcsum = Checksum (take (GetReadableDataSize src) (drop (m_read_off src) (m_buf src)));
         if realcsum \<noteq> checksum then Some None
         else do {
           (src, res) \<leftarrow> parse_header src (new_packet fresh now);
           let src = ByteAlign True False src;
           let bits_left = wrap32 (int (unat bitlength) - int (GetReadPos src));
           res \<leftarrow> packet_StoreBitArray (drop (m_read_off src) (m_buf src)) bits_left res;
           Some (Some res) } } })"

definition ReceivedBlock :: "int \<Rightarrow> bitstream \<Rightarrow> CrudP_Protocol \<Rightarrow> CrudP_Protocol option" where
  "ReceivedBlock now src s =
    do {
      r \<leftarrow> parse_block (mem_fresh s) now (has_codec s) src;
      (case r of
         None \<Rightarrow> Some s
       | Some res \<Rightarrow> do {
           let (a, s) = alloc res (s\<lparr>m_last_activity := now\<rparr>);
           PushRecvPacket now a s }) }"

text \<open>
  \<open>RecvPacket\<close>. The queue is sorted by sequence number first (packets with equal numbers keep
  their order here, which \<open>eastl::sort\<close> leaves open). The loop that drops duplicates
  takes one more packet off the queue before it looks at the next one; \<open>front\<close> of an empty
  deque is undefined. A packet that is not the next in sequence has been taken off the queue
  too when the function returns without it.
\<close>

definition sort_avail :: "CrudP_Protocol \<Rightarrow> CrudP_Protocol option" where
  "sort_avail s =
    (if \<forall>p \<in> set (avail_packets s). deref s p \<noteq> None
     then Some (s\<lparr>avail_packets := sort_key (\<lambda>p. m_seqNo (the (deref s p))) (avail_packets s)\<rparr>)
     else None)"

fun drop_duplicates :: "ptr list \<Rightarrow> ptr \<Rightarrow> CrudP_Protocol \<Rightarrow> (ptr \<times> CrudP_Protocol) option" where
  "drop_duplicates avail pkt s =
    do {
      v \<leftarrow> deref s pkt;
      if m_seqNo v \<le> recv_seq s then do {
        s \<leftarrow> PacketDestroyer pkt s;
        (case avail of
           [] \<Rightarrow> Some (0, s\<lparr>avail_packets := []\<rparr>)
         | _ # rest \<Rightarrow>
             (case rest of
                [] \<Rightarrow> None
              | pkt # _ \<Rightarrow> drop_duplicates rest pkt s)) }
      else Some (pkt, s\<lparr>avail_packets := avail\<rparr>) }"

declare drop_duplicates.simps [simp del]

definition RecvPacket :: "CrudP_Protocol \<Rightarrow> (ptr \<times> CrudP_Protocol) option" where
  "RecvPacket s =
    (if avail_packets s = [] then Some (0, s)
     else do {
       s \<leftarrow> sort_avail s;
       let pkt = hd (avail_packets s);
       (pkt, s) \<leftarrow> drop_duplicates (tl (avail_packets s)) pkt s;
       if pkt = 0 then Some (0, s)
       else do {
         v \<leftarrow> deref s pkt;
         if m_seqNo v \<noteq> recv_seq s + 1 then Some (0, s)
         else if m_numSibs v > 0 then Some (pkt, s\<lparr>recv_seq := recv_seq s + m_numSibs v\<rparr>)
         else Some (pkt, s\<lparr>recv_seq := recv_seq s + 1\<rparr>) } })"

section \<open>Sending\<close>

text \<open>\<open>packetSplit\<close>: full blocks first, then what is left over.\<close>

partial_function (option) packetSplit_loop ::
    "int \<Rightarrow> nat \<Rightarrow> bool \<Rightarrow> u32 \<Rightarrow> bitstream \<Rightarrow> ptr list \<Rightarrow> CrudP_Protocol \<Rightarrow>
     (ptr list \<times> u32 \<times> bitstream \<times> CrudP_Protocol) option" where
  "packetSplit_loop now block_size reliable sib_idx bs res s =
    (if GetReadableDataSize bs > block_size then
       Option.bind
         (on_stream (PutBytes (drop (m_read_off bs) (m_buf bs)) block_size) (new_packet (mem_fresh s) now))
         (\<lambda>act. let act = SetReliabilty reliable (setSibPos sib_idx act);
                   (a, s') = alloc act s
               in packetSplit_loop now block_size reliable (sib_idx + 1)
                    (advance_read block_size bs) (res @ [a]) s')
     else Some (res, sib_idx, bs, s))"

definition packetSplit :: "int \<Rightarrow> CrudP_Packet \<Rightarrow> nat \<Rightarrow> CrudP_Protocol \<Rightarrow>
    (ptr list \<times> CrudP_Protocol) option" where
  "packetSplit now src block_size s =
    do {
      bit_stream \<leftarrow> m_stream src;
      (res, sib_idx, bs, s) \<leftarrow> packetSplit_loop now block_size (m_reliable src) 0 bit_stream [] s;
      if GetReadableDataSize bs > 0 then do {
        act \<leftarrow> packet_StoreBitArray (drop (m_read_off bs) (m_buf bs)) (GetReadableBits bs)
                 (new_packet (mem_fresh s) now);
        let act = SetReliabilty (m_reliable src) (setSibPos sib_idx act);
        let (a, s) = alloc act s;
        Some (res @ [a], s) }
      else Some (res, s) }"

text \<open>
  \<open>wrapPacket\<close>: the payload of a packet behind the protocol header. A packet whose first packed
  number is \<open>1\<close> and that is not a part of a split one is sent without the compression bit.
\<close>

definition command_of :: "CrudP_Packet \<Rightarrow> (int \<times> CrudP_Packet) option" where
  "command_of p =
    (if m_sibId p = 0 then do {
       s \<leftarrow> m_stream p;
       (cmd, s) \<leftarrow> GetPackedBits 1 (ResetReading s);
       Some (sint cmd, p\<lparr>m_stream := Some (ResetReading s)\<rparr>) }
     else Some (-1, p))"

definition put_header :: "int \<Rightarrow> CrudP_Packet \<Rightarrow> bitstream \<Rightarrow> CrudP_Protocol \<Rightarrow>
    (bitstream \<times> CrudP_Protocol) option" where
  "put_header cmd p strm s =
    do {
      strm \<leftarrow> Put (bytes32 0) strm;
      strm \<leftarrow> Put (bytes32 0) strm;
      strm \<leftarrow> StoreBits 1 0 strm;
      strm \<leftarrow> StoreBits 32 (m_seqNo p) strm;
      strm \<leftarrow> StorePackedBits 1 (m_numSibs p) strm;
      strm \<leftarrow> (if HasSiblings p then do {
                 strm \<leftarrow> StorePackedBits 1 (m_sibPos p) strm;
                 StoreBits 32 (m_sibId p) strm }
               else Some strm);
      (strm, s) \<leftarrow> storeAcks strm s;
      strm \<leftarrow> (if cmd \<noteq> 1 then StoreBits 1 (of_bool (m_compressed p)) strm else Some strm);
      Some (strm, s) }"

definition wrapPacket :: "int \<Rightarrow> ptr \<Rightarrow> CrudP_Protocol \<Rightarrow> (ptr \<times> CrudP_Protocol) option" where
  "wrapPacket now a s =
    do {
      p \<leftarrow> deref s a;
      (cmd, p) \<leftarrow> command_of p;
      let s = assign a p s;
      ps \<leftarrow> m_stream p;
      let strm = new_stream (mem_fresh s) (GetReadableDataSize ps + 64);
      strm \<leftarrow> (if m_read_off strm + 64 \<le> length (m_buf strm)
               then Some (strm\<lparr>m_buf := overwrite (m_buf strm) (m_read_off strm) (replicate 64 0)\<rparr>)
               else None);
      (strm, s) \<leftarrow> put_header cmd p strm s;
      let strm = ByteAlign True True strm;
      strm \<leftarrow> StoreBitArray (drop (m_read_off ps) (m_buf ps)) (GetReadableBits ps) strm;
      let strm = ResetReading strm;
      let head = overwrite (m_buf strm) (m_read_off strm) (bytes32 (of_nat (GetReadableBits strm)));
      let res = (copy_packet now p)\<lparr>m_stream := Some (strm\<lparr>m_buf := head\<rparr>)\<rparr>;
      Some (alloc res s) }"

text \<open>Padding a wrapped packet with zero bytes up to \<open>fixedlen\<close>.\<close>

partial_function (option) pad_stream :: "nat \<Rightarrow> bitstream \<Rightarrow> bitstream option" where
  "pad_stream fixedlen bs =
    (if GetReadableDataSize bs < fixedlen
     then Option.bind (Put [0] bs) (pad_stream fixedlen) else Some bs)"

definition fixed_length :: "nat \<Rightarrow> nat" where
  "fixed_length len = (len + 3) div 8 * 8 + 4"

definition sendRaw :: "int \<Rightarrow> ptr \<Rightarrow> ptr list \<Rightarrow> CrudP_Protocol \<Rightarrow> (ptr list \<times> CrudP_Protocol) option" where
  "sendRaw now pak tgt s =
    do {
      (wrapped, s) \<leftarrow> wrapPacket now pak s;
      w \<leftarrow> deref s wrapped;
      bs \<leftarrow> m_stream w;
      let bs = ByteAlign True True bs;
      let fixedlen = fixed_length (GetReadableDataSize bs);
      bs \<leftarrow> pad_stream fixedlen bs;
      let at = m_read_off bs;
      if length (m_buf bs) < at + fixedlen then None
      else do {
        let sum = Checksum (block (m_buf bs) (at + 8) (fixedlen - 8));
        let bs = bs\<lparr>m_buf := overwrite (m_buf bs) (at + 4) (bytes32 sum)\<rparr>;
        Some (tgt @ [wrapped], assign wrapped (w\<lparr>m_stream := Some bs\<rparr>) s) } }"

definition addToSendQueue :: "int \<Rightarrow> ptr \<Rightarrow> CrudP_Protocol \<Rightarrow> (bool \<times> CrudP_Protocol) option" where
  "addToSendQueue now pak s =
    (if queue_isFull (send_queue s) then Some (False, s)
     else do {
       p \<leftarrow> deref s pak;
       let s = s\<lparr>send_seq := send_seq s + 1\<rparr>;
       let s = assign pak (setLastSend now (setSeqNo (send_seq s) p)) s;
       Some (True, s\<lparr>send_queue := queue_push_back pak (send_queue s)\<rparr>) })"

fun queue_parts :: "int \<Rightarrow> u32 \<Rightarrow> u32 \<Rightarrow> ptr list \<Rightarrow> CrudP_Protocol \<Rightarrow> CrudP_Protocol option" where
  "queue_parts now sib_count sib_id [] s = Some s"
| "queue_parts now sib_count sib_id (part # parts) s =
    do {
      p \<leftarrow> deref s part;
      let s = assign part (setSibId sib_id (setNumSibs sib_count p)) s;
      (added, s) \<leftarrow> addToSendQueue now part s;
      s \<leftarrow> (if \<not> added then PacketDestroyer part s else Some s);
      queue_parts now sib_count sib_id parts s }"

definition SendPacket :: "int \<Rightarrow> ptr \<Rightarrow> CrudP_Protocol \<Rightarrow> (bool \<times> CrudP_Protocol) option" where
  "SendPacket now packet s =
    do {
      p \<leftarrow> deref s packet;
      if m_compression_allowed s \<and> m_compress_on_send p then None
      else do {
        strm \<leftarrow> m_stream p;
        if GetReadableDataSize strm < max_packet_data_size then do {
          (res, s) \<leftarrow> addToSendQueue now packet s;
          s \<leftarrow> (if \<not> res then PacketDestroyer packet s else Some s);
          Some (res, s) }
        else do {
          (split_packets, s) \<leftarrow> packetSplit now p max_packet_data_size s;
          let sib_count = of_nat (length split_packets);
          let sib_id = sibling_id s + 1;
          let s = s\<lparr>sibling_id := sib_id\<rparr>;
          s \<leftarrow> queue_parts now sib_count sib_id split_packets s;
          s \<leftarrow> PacketDestroyer packet s;
          Some (True, s) } } }"

section \<open>Retransmission\<close>

text \<open>C++ integer division truncates.\<close>

definition tdiv :: "int \<Rightarrow> int \<Rightarrow> int" where
  "tdiv a b = sgn a * sgn b * (\<bar>a\<bar> div \<bar>b\<bar>)"

definition getPacketResendDelay :: "int \<Rightarrow> int \<Rightarrow> bool \<Rightarrow> int" where
  "getPacketResendDelay attempts ping before_first =
    (let delay = (if before_first then tdiv (3 * ping) 2 else 4 * ping);
         attempts = min 2 attempts;
         delay = (if attempts = 0 then delay * 4 else if attempts = 1 then delay * 2 else delay)
     in min (max delay 250) 5000)"

definition milliseconds_between :: "int \<Rightarrow> int \<Rightarrow> int" where
  "milliseconds_between t0 t1 = tdiv (t1 - t0) 1000000"

definition seconds_between :: "int \<Rightarrow> int \<Rightarrow> int" where
  "seconds_between t0 t1 = tdiv (t1 - t0) 1000000000"

fun any_older :: "int \<Rightarrow> ptr list \<Rightarrow> CrudP_Protocol \<Rightarrow> bool option" where
  "any_older now [] s = Some False"
| "any_older now (p # ps) s =
    do { v \<leftarrow> deref s p;
         if milliseconds_between (m_creation_time v) now \<ge> 300 then Some True
         else any_older now ps s }"

definition isUnresponsiveLink :: "int \<Rightarrow> CrudP_Protocol \<Rightarrow> bool option" where
  "isUnresponsiveLink now s =
    (if m_last_activity s = 0 then Some False
     else if seconds_between (m_last_activity s) now < 15 then Some False
     else any_older now (reliable_packets s) s)"

fun processRetransmits_loop :: "int \<Rightarrow> u32 \<Rightarrow> ptr list \<Rightarrow> CrudP_Protocol \<Rightarrow> CrudP_Protocol option" where
  "processRetransmits_loop now first_packet_id [] s = Some s"
| "processRetransmits_loop now first_packet_id (pkt # pkts) s =
    (if queue_isFull (retransmit_queue s) then Some s
     else do {
       v \<leftarrow> deref s pkt;
       let resend_period = getPacketResendDelay (sint (m_retransmit_count v)) 50
                             (m_seqNo v < first_packet_id);
       if milliseconds_between (m_xfer_time v) now \<le> resend_period
       then processRetransmits_loop now first_packet_id pkts s
       else
         (let s = s\<lparr>retransmit_queue := queue_push_back pkt (retransmit_queue s)\<rparr>;
              s = assign pkt (incRetransmits (setLastSend now v)) s
          in processRetransmits_loop now first_packet_id pkts s) })"

definition processRetransmits :: "int \<Rightarrow> CrudP_Protocol \<Rightarrow> CrudP_Protocol option" where
  "processRetransmits now s =
    (case reliable_packets s of
       [] \<Rightarrow> Some s
     | first # _ \<Rightarrow> do { v \<leftarrow> deref s first;
                        processRetransmits_loop now (m_seqNo v) (reliable_packets s) s })"

text \<open>
  The two loops of \<open>batchSend\<close>, over the queue each of them empties. A null pointer at the front
  would end them like the empty queue does.
\<close>

fun send_retransmits :: "int \<Rightarrow> ptr list \<Rightarrow> ptr list \<Rightarrow> CrudP_Protocol \<Rightarrow> (ptr list \<times> CrudP_Protocol) option" where
  "send_retransmits now [] tgt s = Some (tgt, s\<lparr>retransmit_queue := []\<rparr>)"
| "send_retransmits now (pak # q) tgt s =
    (if pak = 0 then Some (tgt, s\<lparr>retransmit_queue := pak # q\<rparr>)
     else do { (tgt, s) \<leftarrow> sendRaw now pak tgt s; send_retransmits now q tgt s })"

fun send_new :: "int \<Rightarrow> ptr list \<Rightarrow> ptr list \<Rightarrow> CrudP_Protocol \<Rightarrow> (ptr list \<times> CrudP_Protocol) option" where
  "send_new now [] tgt s = Some (tgt, s\<lparr>send_queue := []\<rparr>)"
| "send_new now (pak # q) tgt s =
    (if pak = 0 then Some (tgt, s\<lparr>send_queue := pak # q\<rparr>)
     else do {
       (tgt, s) \<leftarrow> sendRaw now pak tgt s;
       v \<leftarrow> deref s pak;
       if m_reliable v then do {
         ok \<leftarrow> (if reliable_packets s = [] then Some True
                else do { l \<leftarrow> deref s (last (reliable_packets s)); Some (m_seqNo v > m_seqNo l) });
         if \<not> ok then None
         else send_new now q tgt (s\<lparr>reliable_packets := reliable_packets s @ [pak]\<rparr>) }
       else do { s \<leftarrow> PacketDestroyer pak s; send_new now q tgt s } })"

definition batchSend :: "int \<Rightarrow> ptr list \<Rightarrow> CrudP_Protocol \<Rightarrow> (bool \<times> ptr list \<times> CrudP_Protocol) option" where
  "batchSend now tgt s =
    do {
      unresponsive \<leftarrow> isUnresponsiveLink now s;
      if unresponsive then Some (False, tgt, s)
      else do {
        s \<leftarrow> processRetransmits now s;
        (tgt, s) \<leftarrow> send_retransmits now (retransmit_queue s) tgt s;
        if send_queue s = [] then Some (True, tgt, s)
        else do { (tgt, s) \<leftarrow> send_new now (send_queue s) tgt s; Some (True, tgt, s) } } }"

end
