(* ===== verification/Crudp_Acks.thy ===== *)
theory Crudp_Acks
  imports Crudp_Protocol BitStream_Messages
begin

unbundle bit_operations_syntax

text \<open>
  Acknowledgements on the wire: what \<open>storeAcks\<close> writes and \<open>parseAcks\<close> reads back, and the
  rest of the protocol header around them.
\<close>

section \<open>The list of acknowledgements\<close>

fun ack_deltas :: "u32 \<Rightarrow> u32 list \<Rightarrow> u32 list" where
  "ack_deltas l [] = []"
| "ack_deltas l (a # as) = ((a - l) - 1) # ack_deltas a as"

lemma length_ack_deltas [simp]: "length (ack_deltas l as) = length as"
  by (induction as arbitrary: l) auto

definition packed_list :: "u32 list \<Rightarrow> bool list" where
  "packed_list ds = concat (map (packed 1) ds)"

lemma packed_list_simps [simp]:
  "packed_list [] = []" "packed_list (d # ds) = packed 1 d @ packed_list ds"
  by (simp_all add: packed_list_def)

definition ack_bits :: "u32 list \<Rightarrow> bool list" where
  "ack_bits as =
    (case as of [] \<Rightarrow> packed 1 0
     | a # r \<Rightarrow> packed 1 (of_nat (length as)) @ bits_of 32 a @ packed_list (ack_deltas a r))"

definition queued_acks :: "CrudP_Protocol \<Rightarrow> u32 list" where
  "queued_acks s = remdups (sort (recv_acks s))"

lemma storeAcks_loop_appends:
  assumes "sized Z R bs" "k \<le> length as" "k < 2 ^ 32" "k = 0 \<longrightarrow> as = []" "96 * k \<le> room bs"
  shows "\<exists>bs'. storeAcks_loop (of_nat k) l as bs = Some (drop k as, bs') \<and> sized Z R bs' \<and>
    contents bs' = contents bs @ packed_list (ack_deltas l (take k as)) \<and> room bs \<le> room bs' + 96 * k"
  using assms
proof (induction as arbitrary: k l bs)
  case Nil
  then show ?case by simp
next
  case (Cons a as)
  then obtain j where k: "k = Suc j" by (cases k) auto
  obtain bs1 where bs1: "StorePackedBits 1 ((a - l) - 1) bs = Some bs1" "sized Z R bs1"
      "contents bs1 = contents bs @ packed 1 ((a - l) - 1)" "room bs \<le> room bs1 + 96"
    using StorePackedBits_appends [OF Cons.prems(1), of 1 "(a - l) - 1"] Cons.prems(5) k by auto
  have nz: "(of_nat j :: u32) = 0 \<longleftrightarrow> j = 0"
    using Cons.prems(3) k of_nat_neq_0 [of j, where 'a = 32] by (cases "j = 0") auto
  show ?case
  proof (cases "j = 0")
    case True
    with bs1 k show ?thesis by simp
  next
    case False
    obtain bs2 where bs2: "storeAcks_loop (of_nat j) a as bs1 = Some (drop j as, bs2)" "sized Z R bs2"
      "contents bs2 = contents bs1 @ packed_list (ack_deltas a (take j as))" "room bs1 \<le> room bs2 + 96 * j"
      using Cons.IH [OF bs1(2), of j a] Cons.prems(2-5) k bs1(4) False by auto
    with bs1 k False nz show ?thesis by simp
  qed
qed

lemma queued_acks_Nil: "queued_acks s = [] \<longleftrightarrow> recv_acks s = []"
  by (simp add: queued_acks_def) (metis set_empty2 set_sort)

lemma storeAcks_appends:
  assumes "sized Z R bs" "2000 \<le> room bs" "length (recv_acks s) < 2 ^ 32"
  shows "\<exists>bs' s'. storeAcks bs s = Some (bs', s') \<and> sized Z R bs' \<and>
    contents bs' = contents bs @ ack_bits (take 16 (queued_acks s)) \<and> room bs \<le> room bs' + 1664 \<and>
    s' = s\<lparr>recv_acks := drop 16 (queued_acks s), m_unacked_count := (if recv_acks s = [] then m_unacked_count s else length (queued_acks s) - 16)\<rparr>"
proof (cases "queued_acks s")
  case Nil
  obtain bs' where "StorePackedBits 1 0 bs = Some bs'" "sized Z R bs'" "contents bs' = contents bs @ packed 1 0"
    "room bs \<le> room bs' + 96"
    using StorePackedBits_appends [OF assms(1), of 1 0] assms(2) by auto
  moreover have "recv_acks s = []" using Nil by (simp add: queued_acks_Nil)
  ultimately show ?thesis using Nil by (simp add: storeAcks_def queued_acks_def ack_bits_def)
next
  case (Cons a r)
  define k where "k = min (length (a # r)) 16 - 1"
  have k: "k \<le> 15" "k \<le> length r" "k = 0 \<longrightarrow> r = []" "k < 2 ^ 32" "min (length (a # r)) 16 = Suc k"
    by (auto simp: k_def min_def)
  obtain b1 where b1: "StorePackedBits 1 (of_nat (Suc k)) bs = Some b1" "sized Z R b1"
    "contents b1 = contents bs @ packed 1 (of_nat (Suc k))" "room bs \<le> room b1 + 96"
    using StorePackedBits_appends [OF assms(1), of 1 "of_nat (Suc k)"] assms(2) by auto
  obtain b2 where b2: "StoreBits 32 a b1 = Some b2" "sized Z R b2" "contents b2 = contents b1 @ bits_of 32 a"
    "room b1 \<le> room b2 + 32"
    using sized.put_law [OF b1(2), of 32 a] b1(4) assms(2) by auto
  obtain b3 where b3: "storeAcks_loop (of_nat k) a r b2 = Some (drop k r, b3)" "sized Z R b3"
    "contents b3 = contents b2 @ packed_list (ack_deltas a (take k r))" "room b2 \<le> room b3 + 96 * k"
    using storeAcks_loop_appends [OF b2(2) k(2,4,3), of a] b1(4) b2(4) k(1) assms(2) by auto
  have tk: "take 16 (a # r) = a # take k r" "drop 16 (a # r) = drop k r"
    using k(1,2,5) by (cases "length r \<le> 15"; simp add: k_def)+
  have ne: "recv_acks s \<noteq> []" using Cons queued_acks_Nil [of s] by auto
  have len: "length (drop k r) = length (queued_acks s) - 16" using Cons tk(2) by (metis length_drop)
  have "storeAcks bs s = Some (b3, s\<lparr>recv_acks := drop k r, m_unacked_count := length (drop k r)\<rparr>)"
  proof -
    have q: "remdups (sort (recv_acks s)) = a # r" using Cons by (simp add: queued_acks_def)
    have n: "(of_nat (Suc k) :: u32) - 1 = of_nat k" by simp
    show ?thesis
      unfolding storeAcks_def q list.case k(5) Let_def n b1(1) b2(1) b3(1)
        Option.bind.bind_lunit prod.case by (rule refl)
  qed
  moreover have "min (length r) k = k" using k(2) by simp
  ultimately show ?thesis
    using b1 b2 b3 Cons tk ne len k(1) by (simp add: ack_bits_def)
qed

section \<open>Reading them\<close>

lemma parseAcks_loop_reads:
  assumes "sourced B W src" "contents src = packed_list (ack_deltas l as) @ rest"
  shows "\<exists>src'. parseAcks_loop (length as) l src tgt = Some (src', fold addAck as tgt) \<and>
    sourced B W src' \<and> contents src' = rest"
  using assms
proof (induction as arbitrary: l src tgt)
  case Nil
  then show ?case by simp
next
  case (Cons a as)
  obtain s1 where s1: "GetPackedBits 1 src = Some ((a - l) - 1, s1)" "sourced B W s1"
    "contents s1 = packed_list (ack_deltas a as) @ rest"
    using GetPackedBits_reads [OF Cons.prems(1), of 1 "(a - l) - 1"] Cons.prems(2) by auto
  from Cons.IH [OF s1(2,3), of "addAck a tgt"] s1(1) show ?case by auto
qed

lemma parseAcks_reads:
  assumes "sourced B W src" "contents src = ack_bits as @ rest" "length as < 2 ^ 32"
  shows "\<exists>src'. parseAcks src tgt = Some (src', fold addAck as tgt) \<and> sourced B W src' \<and> contents src' = rest"
proof (cases as)
  case Nil
  with assms GetPackedBits_reads [OF assms(1), of 1 0 rest] show ?thesis
    by (auto simp: parseAcks_def ack_bits_def)
next
  case (Cons a r)
  let ?n = "of_nat (length as) :: u32"
  have n: "unat ?n = length as" using assms(3) by (simp add: unat_of_nat)
  then have "?n \<noteq> 0" using Cons by auto
  obtain s1 where s1: "GetPackedBits 1 src = Some (?n, s1)" "sourced B W s1"
    "contents s1 = bits_of 32 a @ packed_list (ack_deltas a r) @ rest"
    using GetPackedBits_reads [OF assms(1), of 1 ?n] assms(2) Cons by (auto simp: ack_bits_def)
  obtain s2 where s2: "GetBits 32 s1 = Some (a, s2)" "sourced B W s2"
    "contents s2 = packed_list (ack_deltas a r) @ rest"
    using sourced.get_law [OF s1(2) _ _ s1(3)] by (auto simp: take_bit_word_beyond_length_eq)
  from parseAcks_loop_reads [OF s2(2,3), of "addAck a tgt"] s1(1) s2(1) n \<open>?n \<noteq> 0\<close> Cons show ?thesis
    by (simp add: parseAcks_def)
qed

lemma fold_addAck_only_acks: "fold addAck as p = p\<lparr>m_acks := m_acks (fold addAck as p)\<rparr>"
proof (induction as arbitrary: p)
  case (Cons a as)
  from Cons.IH [of "addAck a p"] show ?case by (simp add: addAck_def)
qed simp

end
