(* ===== verification/Crudp_Wire.thy ===== *)
theory Crudp_Wire
  imports Crudp_Acks
begin

unbundle bit_operations_syntax

text \<open>
  A packet on its way through the wire: the bits that \<open>wrapPacket\<close> and \<open>sendRaw\<close> produce, and
  what \<open>ReceivedBlock\<close> makes of them.
\<close>

section \<open>Byte aligned streams\<close>

text \<open>A stream that starts and ends at a byte boundary, with the reader at its start, is just the
  bytes written.\<close>

definition aligned :: "bitstream \<Rightarrow> bool" where
  "aligned s \<longleftrightarrow> m_write_bit_off s = 0 \<and> m_read_off s = 0 \<and> m_read_bit_off s = 0"

lemma map_mem_bit: "n \<le> 8 * length mem \<Longrightarrow> map (mem_bit mem) [0..<n] = take n (str_bits mem)"
  by (rule nth_equalityI) (auto simp: nth_str_bits mem_bit_def)

lemma contents_start:
  assumes "GetReadPos s = 0" "GetWritePos s \<le> 8 * length (m_buf s)"
  shows "contents s = take (GetWritePos s) (str_bits (m_buf s))"
  using assms by (simp add: contents_def map_mem_bit)

lemma take_str_bits: "take (8 * k) (str_bits cs) = str_bits (take k cs)"
proof (induction cs arbitrary: k)
  case (Cons c cs)
  then show ?case by (cases k) auto
qed simp

lemma drop_str_bits: "drop (8 * k) (str_bits cs) = str_bits (drop k cs)"
proof (induction cs arbitrary: k)
  case (Cons c cs)
  then show ?case by (cases k) auto
qed simp

lemma contents_aligned:
  assumes "aligned s" "m_write_off s \<le> length (m_buf s)"
  shows "contents s = str_bits (data s)"
proof -
  have "GetReadPos s = 0" "GetWritePos s = 8 * m_write_off s"
    using assms(1) by (simp_all add: aligned_def GetReadPos_def GetWritePos_def)
  with contents_start [of s] assms(2) show ?thesis by (simp add: take_str_bits data_def)
qed

text \<open>\<open>Put\<close> at a byte boundary is \<open>StoreBitArray\<close> of whole bytes.\<close>

lemma BITS_TO_BYTES_8 [simp]: "BITS_TO_BYTES (8 * n) = n"
  by (simp add: BITS_TO_BYTES_def)

lemma Put_StoreBitArray:
  assumes ok: "stream_ok s" "m_write_bit_off s = 0" "8 \<le> m_size s" "0 < length val"
    "m_write_off s + length val < 1048576"
  shows "Put val s = StoreBitArray val (8 * length val) s"
proof -
  let ?acc = "m_write_off s + length val"
  have inv: "buf_inv s" and mx: "?acc \<le> m_max_size s" using ok by (auto simp: stream_ok_def)
  have bA: "ByteAlign False True s = s" using ok(2) by (simp add: ByteAlign_def)
  have av: "length val > GetAvailSize s \<longleftrightarrow> ?acc > m_size s"
    using inv by (auto simp: buf_inv_avail buf_inv_def)
  have eq: "uPut val t = uPutBytes val (length val) t" if "m_buf t \<noteq> []" for t :: "'a bitstream_scheme"
    using that by (simp add: uPut_def uPutBytes_def)
  obtain s1 where r: "resize ?acc s = Some (0, s1)" and g: "grown s ?acc s1"
    using resize_grown [OF inv _ mx ok(5)] ok(4) by auto
  have "length (m_buf s1) \<noteq> 0" "length (m_buf s) \<noteq> 0"
    using grown_inv [OF inv g ok(5)] inv grown_fields(9) [OF g] ok(3) by (auto simp: buf_inv_def)
  then have "uPut val s1 = uPutBytes val (length val) s1" "uPut val s = uPutBytes val (length val) s"
    using eq [of s1] eq [of s] by auto
  then show ?thesis using r av by (auto simp: Put_def StoreBitArray_def PutBytes_def bA Let_def)
qed

lemma Put_stream:
  assumes ok: "stream_ok s" "m_write_bit_off s = 0" "8 \<le> m_size s" "0 < length val"
    "m_write_off s + length val < 1048576"
    "1 < m_write_off s \<or> m_write_off s = 0 \<or> m_write_off s + length val \<le> m_size s"
  shows "\<exists>s'. Put val s = Some s' \<and> stream_ok s' \<and> contents s' = contents s @ str_bits val \<and>
    m_write_bit_off s' = 0 \<and> m_write_off s' = m_write_off s + length val \<and> m_size s \<le> m_size s'"
proof -
  obtain s' where s': "StoreBitArray val (8 * length val) s = Some s'" "stream_ok s'"
      "contents s' = contents s @ take (8 * length val) (str_bits val)"
      "GetWritePos s' = GetWritePos s + 8 * length val" "m_size s \<le> m_size s'"
    using StoreBitArray_appends [OF ok(1,2), of "8 * length val" val] ok by auto
  have "m_write_bit_off s' < 8" using s'(2) by (simp add: stream_ok_def)
  then have "m_write_off s' = m_write_off s + length val \<and> m_write_bit_off s' = 0"
    using s'(4) ok(2) unfolding GetWritePos_def by presburger
  with s' Put_StoreBitArray [OF ok(1-5)] show ?thesis by simp
qed

text \<open>Rounding the write position up adds less than a byte of unspecified bits.\<close>

definition pad_len :: "nat \<Rightarrow> nat" where
  "pad_len n = (8 - n mod 8) mod 8"

lemma pad_len_alt: "pad_len n = (if n mod 8 = 0 then 0 else 8 - n mod 8)"
  by (simp add: pad_len_def)

lemma pad_len: "pad_len n < 8" "8 dvd n + pad_len n" "8 dvd n \<Longrightarrow> pad_len n = 0"
proof -
  show "pad_len n < 8" by (simp add: pad_len_alt)
  show "8 dvd n \<Longrightarrow> pad_len n = 0" by (simp add: pad_len_alt)
  show "8 dvd n + pad_len n"
  proof (cases "n mod 8 = 0")
    case True
    then show ?thesis by (simp add: pad_len_alt dvd_eq_mod_eq_0)
  next
    case False
    obtain q r where "n = 8 * q + r" "r < 8" "r = n mod 8" by (metis mod_mult_div_eq mod_less_divisor zero_less_numeral add.commute)
    then have "n + (8 - n mod 8) = 8 * (q + 1)" by simp
    with False show ?thesis by (simp add: pad_len_alt)
  qed
qed

lemma ByteAlign_pads:
  assumes ok: "stream_ok s" "m_read_bit_off s = 0"
  shows "\<exists>pad. contents (ByteAlign True True s) = contents s @ pad \<and> length pad = pad_len (GetWritePos s) \<and>
    stream_ok (ByteAlign True True s) \<and> m_write_bit_off (ByteAlign True True s) = 0 \<and>
    m_size (ByteAlign True True s) = m_size s \<and> GetReadPos (ByteAlign True True s) = GetReadPos s \<and>
    GetWritePos (ByteAlign True True s) = GetWritePos s + pad_len (GetWritePos s)"
proof -
  let ?s = "ByteAlign True True s"
  have wb: "m_write_bit_off s < 8" and wl: "GetWritePos s \<le> 8 * m_size s" using ok(1) by (auto simp: stream_ok_def)
  have pl: "pad_len (GetWritePos s) = (8 - m_write_bit_off s) mod 8"
    using wb by (simp add: pad_len_def GetWritePos_def)
  have f: "m_buf ?s = m_buf s" "m_size ?s = m_size s" "m_write_bit_off ?s = 0" "GetReadPos ?s = GetReadPos s"
    "m_read_bit_off ?s = m_read_bit_off s" "m_read_off ?s = m_read_off s" "m_max_size ?s = m_max_size s"
    "m_safe_area ?s = m_safe_area s" "m_byteAligned ?s = m_byteAligned s"
    "m_write_off ?s = m_write_off s + (if m_write_bit_off s > 0 then 1 else 0)"
    using ok(2) by (auto simp: ByteAlign_def GetReadPos_def)
  have wp: "GetWritePos ?s = GetWritePos s + pad_len (GetWritePos s)"
    unfolding pl unfolding GetWritePos_def f(3,10) using wb
    by (cases "m_write_bit_off s = 0") simp_all
  let ?gap = "map (mem_bit (m_buf s)) [GetWritePos s..<GetWritePos s + pad_len (GetWritePos s)]"
  have rp: "GetReadPos s \<le> GetWritePos s" using ok(1) by (simp add: stream_ok_def)
  have c: "contents ?s = contents s @ ?gap"
    unfolding contents_def f(1,4) wp upt_add_eq_append [OF rp] map_append ..
  have wo: "m_write_off ?s \<le> m_size s"
    using wl by (auto simp: f(10) GetWritePos_def)
  then have wl': "GetWritePos ?s \<le> 8 * m_size s" by (simp add: GetWritePos_def f(3))
  have rp': "GetReadPos s \<le> GetWritePos ?s" using rp by (simp add: wp)
  have "m_size s = 0 \<or> 8 \<le> m_size s \<or> 1 < m_write_off ?s"
    using ok(1) by (auto simp: stream_ok_def f(10))
  moreover have "m_read_off s \<le> m_write_off ?s" using ok(1) by (simp add: stream_ok_def buf_inv_def f(10))
  ultimately have "stream_ok ?s"
    using ok(1) wl' rp' wo unfolding stream_ok_def buf_inv_def f(1-9) by simp
  with c f wp show ?thesis by (intro exI [of _ ?gap]) simp
qed

section \<open>The sender\<close>

lemma length_bytes32 [simp]: "length (bytes32 w) = 4"
  by (simp add: bytes32_def)

lemma pad_len_shift: "pad_len (64 + n) = pad_len n"
proof -
  have "(64 + n) mod 8 = n mod 8" using mod_mult_self2 [of n 8 8] by (simp add: add.commute)
  then show ?thesis by (simp add: pad_len_def)
qed

lemma stream_ok_write_pos: "stream_ok s \<Longrightarrow> GetWritePos s = GetReadPos s + length (contents s)"
  by (auto simp: stream_ok_def contents_def)

lemma str_bits_zeros: "str_bits (replicate n 0) = replicate (8 * n) False"
proof (induction n)
  case (Suc n)
  have "bits_of 8 (0 :: u8) = replicate 8 False" by (rule nth_equalityI) simp_all
  with Suc show ?case by (simp add: replicate_add [symmetric])
qed simp

definition header_bits :: "CrudP_Packet \<Rightarrow> u32 list \<Rightarrow> bool list" where
  "header_bits p as =
    bits_of 1 (0 :: u32) @ bits_of 32 (m_seqNo p) @ packed 1 (m_numSibs p) @
    (if HasSiblings p then packed 1 (m_sibPos p) @ bits_of 32 (m_sibId p) else []) @
    ack_bits as @ bits_of 1 (of_bool (m_compressed p) :: u32)"

lemma put_header_appends:
  assumes strm: "sized 64 0 strm" "contents strm = []"
    and acks: "length (recv_acks s) < 2 ^ 32" and cmd: "cmd \<noteq> 1"
  shows "\<exists>strm' s'. put_header cmd p strm s = Some (strm', s') \<and> sized 64 0 strm' \<and>
    contents strm' = replicate 64 False @ header_bits p (take 16 (queued_acks s)) \<and>
    length (header_bits p (take 16 (queued_acks s))) \<le> 1950 \<and>
    s' = s\<lparr>recv_acks := drop 16 (queued_acks s), m_unacked_count := m_unacked_count s'\<rparr>"
proof -
  have zero: "str_bits (bytes32 0) = replicate 32 False"
    using str_bits_zeros [of 4] by (simp add: bytes32_def map_replicate_const)
  have wp: "m_write_off strm = 0" "m_write_bit_off strm = 0"
    using sized_write_pos [OF strm(1)] strm(2) by (auto simp: GetWritePos_def)
  obtain s1 where s1: "Put (bytes32 0) strm = Some s1" "stream_ok s1" "contents s1 = replicate 32 False"
    "m_write_bit_off s1 = 0" "m_write_off s1 = 4" "m_size strm \<le> m_size s1"
    using Put_stream [of strm "bytes32 0"] strm wp by (auto simp: sized_def zero)
  obtain s2 where s2: "Put (bytes32 0) s1 = Some s2" "stream_ok s2" "contents s2 = replicate 64 False"
    "m_write_bit_off s2 = 0" "m_write_off s2 = 8" "m_size s1 \<le> m_size s2"
    using Put_stream [of s1 "bytes32 0"] s1 strm(1) by (auto simp: sized_def zero simp flip: replicate_add)
  have sz2: "sized 64 0 s2" "room s2 = max_pos - 64"
  proof -
    have "GetWritePos s2 = 64" using s2 by (simp add: GetWritePos_def)
    moreover from this have "GetReadPos s2 = 0"
      using stream_ok_write_pos [OF s2(2)] s2(3) by simp
    ultimately show "sized 64 0 s2" "room s2 = max_pos - 64"
      using s2 s1(6) strm(1) by (auto simp: sized_def room_def)
  qed
  obtain s3 where s3: "StoreBits 1 0 s2 = Some s3" "sized 64 0 s3" "contents s3 = contents s2 @ bits_of 1 (0 :: u32)"
    "room s2 \<le> room s3 + 1"
    using sized.put_law [OF sz2(1), of 1 0] sz2(2) by (auto simp: max_pos_def)
  obtain s4 where s4: "StoreBits 32 (m_seqNo p) s3 = Some s4" "sized 64 0 s4"
    "contents s4 = contents s3 @ bits_of 32 (m_seqNo p)" "room s3 \<le> room s4 + 32"
    using sized.put_law [OF s3(2), of 32 "m_seqNo p"] s3(4) sz2(2) by (auto simp: max_pos_def)
  obtain s5 where s5: "StorePackedBits 1 (m_numSibs p) s4 = Some s5" "sized 64 0 s5"
    "contents s5 = contents s4 @ packed 1 (m_numSibs p)" "room s4 \<le> room s5 + 96"
    using StorePackedBits_appends [OF s4(2), of 1 "m_numSibs p"] s3(4) s4(4) sz2(2) by (auto simp: max_pos_def)
  obtain s6 where s6: "(if HasSiblings p then do { strm \<leftarrow> StorePackedBits 1 (m_sibPos p) s5;
        StoreBits 32 (m_sibId p) strm } else Some s5) = Some s6" "sized 64 0 s6"
    "contents s6 = contents s5 @ (if HasSiblings p then packed 1 (m_sibPos p) @ bits_of 32 (m_sibId p) else [])"
    "room s5 \<le> room s6 + 128"
  proof (cases "HasSiblings p")
    case True
    obtain t where t: "StorePackedBits 1 (m_sibPos p) s5 = Some t" "sized 64 0 t"
      "contents t = contents s5 @ packed 1 (m_sibPos p)" "room s5 \<le> room t + 96"
      using StorePackedBits_appends [OF s5(2), of 1 "m_sibPos p"] s3(4) s4(4) s5(4) sz2(2) by (auto simp: max_pos_def)
    obtain t' where "StoreBits 32 (m_sibId p) t = Some t'" "sized 64 0 t'"
      "contents t' = contents t @ bits_of 32 (m_sibId p)" "room t \<le> room t' + 32"
      using sized.put_law [OF t(2), of 32 "m_sibId p"] t(4) s3(4) s4(4) s5(4) sz2(2) by (auto simp: max_pos_def)
    with t True that [of t'] show ?thesis by auto
  next
    case False
    with s5 that [of s5] show ?thesis by auto
  qed
  obtain s7 s' where s7: "storeAcks s6 s = Some (s7, s')" "sized 64 0 s7"
    "contents s7 = contents s6 @ ack_bits (take 16 (queued_acks s))" "room s6 \<le> room s7 + 1664"
    and s': "s' = s\<lparr>recv_acks := drop 16 (queued_acks s), m_unacked_count := m_unacked_count s'\<rparr>"
    using storeAcks_appends [OF s6(2) _ acks] s3(4) s4(4) s5(4) s6(4) sz2(2) by (auto simp: max_pos_def)
  obtain s8 where s8: "StoreBits 1 (of_bool (m_compressed p)) s7 = Some s8" "sized 64 0 s8"
    "contents s8 = contents s7 @ bits_of 1 (of_bool (m_compressed p) :: u32)" "room s7 \<le> room s8 + 1"
    using sized.put_law [OF s7(2), of 1 "of_bool (m_compressed p)"] s3(4) s4(4) s5(4) s6(4) s7(4) sz2(2)
    by (auto simp: max_pos_def)
  have "put_header cmd p strm s = Some (s8, s')"
    unfolding put_header_def s1(1) s2(1) Option.bind.bind_lunit s3(1) s4(1) s5(1) s6(1) s7(1) prod.case
    using cmd s8(1) by simp
  moreover have "contents s8 = replicate 64 False @ header_bits p (take 16 (queued_acks s))"
    unfolding s8(3) s7(3) s6(3) s5(3) s4(3) s3(3) s2(3) header_bits_def by simp
  moreover have "room s2 \<le> room s8 + 1922"
    using s3(4) s4(4) s5(4) s6(4) s7(4) s8(4) by linarith
  then have "GetWritePos s8 \<le> 1986" using sz2(2) by (auto simp: room_def max_pos_def)
  ultimately show ?thesis using s8(2) s' sized_write_pos [OF s8(2)] by (intro exI conjI) simp_all
qed

lemma contents_bytes:
  assumes "reader_ok s" "m_read_bit_off s = 0"
  shows "contents s = take (GetReadableBits s) (str_bits (drop (m_read_off s) (m_buf s)))"
proof (cases "GetReadPos s < GetWritePos s")
  case True
  let ?rp = "8 * m_read_off s"
  have rp: "GetReadPos s = ?rp" using assms(2) by (simp add: GetReadPos_def)
  have wp: "GetWritePos s \<le> 8 * length (m_buf s)" using True assms(1) by (simp add: reader_ok_def)
  have "contents s = drop ?rp (map (mem_bit (m_buf s)) [0..<GetWritePos s])"
    by (simp add: contents_def rp drop_map)
  also have "\<dots> = take (GetWritePos s - ?rp) (drop ?rp (str_bits (m_buf s)))"
    by (simp add: map_mem_bit [OF wp] drop_take)
  finally show ?thesis using readable_bits(1) [OF assms(1)] by (simp add: rp drop_str_bits)
next
  case False
  then show ?thesis using readable_bits [OF assms(1)] by (simp add: contents_def)
qed

text \<open>Overwriting whole bytes of a stream.\<close>

lemma overwrite_stream:
  assumes ok: "stream_ok s" "GetReadPos s = 0" and fits: "8 * (k + length bs) \<le> GetWritePos s"
  shows "stream_ok (s\<lparr>m_buf := overwrite (m_buf s) k bs\<rparr>)"
    "contents (s\<lparr>m_buf := overwrite (m_buf s) k bs\<rparr>) =
      take (8 * k) (contents s) @ str_bits bs @ drop (8 * (k + length bs)) (contents s)"
    "GetReadPos (s\<lparr>m_buf := overwrite (m_buf s) k bs\<rparr>) = 0"
proof -
  let ?s = "s\<lparr>m_buf := overwrite (m_buf s) k bs\<rparr>"
  have wp: "GetWritePos s \<le> 8 * length (m_buf s)"
    using ok(1) by (auto simp: stream_ok_def buf_inv_def split: if_splits)
  have "8 * (k + length bs) \<le> 8 * length (m_buf s)" by (rule le_trans [OF fits wp])
  then have le: "k + length bs \<le> length (m_buf s)" by simp
  have pos: "GetReadPos ?s = 0" "GetWritePos ?s = GetWritePos s"
    using ok(2) by (simp_all add: GetReadPos_def GetWritePos_def)
  then show "GetReadPos ?s = 0" by simp
  show "stream_ok ?s"
    using ok le pos by (simp add: stream_ok_def buf_inv_def)
  have len: "length (contents s) = GetWritePos s" using stream_ok_write_pos [OF ok(1)] ok(2) by simp
  show "contents ?s = take (8 * k) (contents s) @ str_bits bs @ drop (8 * (k + length bs)) (contents s)"
  proof (rule nth_equalityI)
    show l: "length (contents ?s) =
        length (take (8 * k) (contents s) @ str_bits bs @ drop (8 * (k + length bs)) (contents s))"
    proof -
      have "length (contents ?s) = GetWritePos s" by (simp add: contents_def pos)
      moreover have "min (GetWritePos s) (8 * k) = 8 * k" using fits by simp
      ultimately show ?thesis using fits by (simp add: len)
    qed
    fix i assume "i < length (contents ?s)"
    then have i: "i < GetWritePos s" by (simp add: contents_def pos)
    then have "contents ?s ! i = mem_bit (overwrite (m_buf s) k bs) i" "contents s ! i = mem_bit (m_buf s) i"
      using ok(2) pos by (simp_all add: contents_def)
    moreover have "mem_bit (overwrite (m_buf s) k bs) i =
        (if 8 * k \<le> i \<and> i < 8 * (k + length bs) then str_bits bs ! (i - 8 * k) else mem_bit (m_buf s) i)"
      by (rule mem_bit_overwrite [OF le]) (use i wp in simp)
    ultimately show "contents ?s ! i =
        (take (8 * k) (contents s) @ str_bits bs @ drop (8 * (k + length bs)) (contents s)) ! i"
      using i fits len by (auto simp: nth_append min_def)
  qed
qed

lemma ResetReading_at_start: "GetReadPos s = 0 \<Longrightarrow> ResetReading s = s"
  by (cases s) (simp add: ResetReading_def GetReadPos_def)

lemma new_stream_size: "n \<le> m_size (new_stream f n)"
  by (simp add: new_stream_def new_buffer_def ResetOffsets_def Reset_def growing_buffer.defs Let_def)

lemma BITS_TO_BYTES_le: "n \<le> 8 * k \<Longrightarrow> BITS_TO_BYTES n \<le> k"
  by (simp add: BITS_TO_BYTES_def)

text \<open>What the protocol needs to know of a payload.\<close>

definition payload_ok :: "bitstream \<Rightarrow> bool" where
  "payload_ok ps \<longleftrightarrow> stream_ok ps \<and> GetReadPos ps = 0 \<and> GetWritePos ps \<le> 80000"

definition wire_bits :: "CrudP_Packet \<Rightarrow> u32 list \<Rightarrow> bool list \<Rightarrow> bool list \<Rightarrow> bool list" where
  "wire_bits p as pad body =
    str_bits (bytes32 (of_nat (64 + length (header_bits p as) + length pad + length body))) @
    replicate 32 False @ header_bits p as @ pad @ body"

lemma wrapPacket_wraps:
  assumes p: "deref s a = Some p0" "command_of p0 = Some (cmd, p)" "cmd \<noteq> 1"
    and ps: "m_stream p = Some ps" "payload_ok ps" and acks: "length (recv_acks s) < 2 ^ 32"
  shows "\<exists>strm s' pad. wrapPacket now a s =
      Some (alloc ((copy_packet now p)\<lparr>m_stream := Some strm\<rparr>) s') \<and>
    stream_ok strm \<and> 64 \<le> m_size strm \<and> GetReadPos strm = 0 \<and>
    contents strm = wire_bits p (take 16 (queued_acks s)) pad (contents ps) \<and>
    length pad = pad_len (length (header_bits p (take 16 (queued_acks s)))) \<and>
    length (header_bits p (take 16 (queued_acks s))) \<le> 1950 \<and>
    s' = (assign a p s)\<lparr>recv_acks := drop 16 (queued_acks s), m_unacked_count := m_unacked_count s'\<rparr>"
proof -
  let ?s = "assign a p s" and ?as = "take 16 (queued_acks s)"
  let ?H = "header_bits p ?as" and ?new = "new_stream (mem_fresh ?s) (GetReadableDataSize ps + 64)"
  have rok: "reader_ok ps" and pok: "GetWritePos ps \<le> 80000" "GetReadPos ps = 0" "stream_ok ps"
    using ps(2) by (auto simp: payload_ok_def stream_ok_reader_ok)
  have rds: "GetReadableDataSize ps \<le> 10000"
    using pok by (auto simp: GetReadableDataSize_def GetWritePos_def GetReadPos_def stream_ok_def buf_inv_def nat_diff_distrib')
  then have n: "0 < GetReadableDataSize ps + 64" "GetReadableDataSize ps + 64 < 1000000" by auto
  note new = new_stream_ok [OF n, of "mem_fresh ?s"]
  text \<open>the new stream, its first bytes zeroed\<close>
  let ?z = "?new\<lparr>m_buf := overwrite (m_buf ?new) (m_read_off ?new) (replicate 64 0)\<rparr>"
  have rp0: "GetReadPos ?new = 0" using stream_ok_write_pos [OF new(1)] new(2,3) by simp
  then have ro: "m_read_off ?new = 0" by (simp add: GetReadPos_def)
  have size: "64 \<le> m_size ?new" using new_stream_size [of "GetReadableDataSize ps + 64" "mem_fresh ?s"] by linarith
  have l64: "64 \<le> length (m_buf ?new)" using new(1) size by (auto simp: stream_ok_def buf_inv_def)
  have "stream_ok ?z" "GetReadPos ?z = 0" "GetWritePos ?z = 0"
    using new(1) new(3) rp0 l64 ro
    by (simp_all add: stream_ok_def buf_inv_def GetReadPos_def GetWritePos_def)
  then have z: "sized 64 0 ?z" "contents ?z = []"
    using size stream_ok_write_pos [of ?z] by (simp_all add: sized_def)
  obtain h s' where h: "put_header cmd p ?z ?s = Some (h, s')" "sized 64 0 h"
    "contents h = replicate 64 False @ ?H" "length ?H \<le> 1950"
    and s': "s' = ?s\<lparr>recv_acks := drop 16 (queued_acks s), m_unacked_count := m_unacked_count s'\<rparr>"
    using put_header_appends [OF z _ p(3), of ?s p] acks by (auto simp: assign_def queued_acks_def)
  text \<open>up to the next byte\<close>
  have hok: "stream_ok h" "GetReadPos h = 0" "64 \<le> m_size h" using h(2) by (auto simp: sized_def)
  have hw: "GetWritePos h = 64 + length ?H" using stream_ok_write_pos [OF hok(1)] hok(2) h(3) by simp
  let ?b = "ByteAlign True True h"
  obtain pad where b: "contents ?b = contents h @ pad" "length pad = pad_len (GetWritePos h)" "stream_ok ?b"
    "m_write_bit_off ?b = 0" "m_size ?b = m_size h" "GetReadPos ?b = 0"
    "GetWritePos ?b = GetWritePos h + pad_len (GetWritePos h)"
    using ByteAlign_pads [OF hok(1)] hok(2) by (auto simp: GetReadPos_def)
  have pl: "length pad = pad_len (length ?H)" using b(2) hw pad_len_shift [of "length ?H"] by simp
  text \<open>the payload\<close>
  let ?n = "GetReadableBits ps" and ?src = "drop (m_read_off ps) (m_buf ps)"
  have cps: "contents ps = take ?n (str_bits ?src)" "?n = length (contents ps)" "?n \<le> 80000"
    using contents_bytes [OF rok] readable_bits [OF rok] pok by (auto simp: GetReadPos_def)
  then have "?n \<le> 8 * length ?src"
    by (metis length_str_bits length_take min.cobounded1)
  then have nb: "BITS_TO_BYTES ?n \<le> length ?src" by (rule BITS_TO_BYTES_le)
  have nb': "BITS_TO_BYTES ?n \<le> 10000" by (rule BITS_TO_BYTES_le) (use cps(3) in simp)
  have bw: "8 * m_write_off ?b = 64 + length ?H + length pad"
    using b(2,4,7) hw by (simp add: GetWritePos_def)
  have "length pad < 8" using pl pad_len(1) by simp
  then have bfit: "m_write_off ?b + BITS_TO_BYTES ?n < 1048576" "1 < m_write_off ?b"
    using bw nb' h(4) by linarith+
  obtain c where c: "StoreBitArray ?src ?n ?b = Some c" "stream_ok c"
    "contents c = contents ?b @ take ?n (str_bits ?src)" "GetWritePos c = GetWritePos ?b + ?n"
    "m_size ?b \<le> m_size c"
    using StoreBitArray_appends [OF b(3,4) nb bfit(1)] bfit(2) hok(3) b(5) by auto
  have cc: "contents c = replicate 64 False @ ?H @ pad @ contents ps"
    by (simp only: c(3) b(1) h(3) cps(1) [symmetric] append_assoc)
  have lc: "length (contents c) = length (contents ?b) + ?n"
    unfolding c(3) length_append cps(1) [symmetric] unfolding cps(2) ..
  have rpc: "GetReadPos c = 0"
    using stream_ok_write_pos [OF c(2)] stream_ok_write_pos [OF b(3)] b(6) c(4) lc by simp
  text \<open>the length field\<close>
  let ?L = "of_nat (GetReadableBits c) :: u32"
  let ?d = "c\<lparr>m_buf := overwrite (m_buf c) 0 (bytes32 ?L)\<rparr>"
  have L: "GetReadableBits c = 64 + length ?H + length pad + length (contents ps)"
    using readable_bits(2) [OF stream_ok_reader_ok [OF c(2)]] cc by simp
  have "8 * (0 + length (bytes32 ?L)) \<le> GetWritePos c"
    using c(4) b(7) hw by simp
  note d = overwrite_stream [OF c(2) rpc this]
  have cd: "contents ?d = wire_bits p ?as pad (contents ps)"
    using d(2) cc L by (simp add: wire_bits_def)
  have mro: "m_read_off c = 0" using rpc by (simp add: GetReadPos_def)
  have "wrapPacket now a s = Some (alloc ((copy_packet now p)\<lparr>m_stream := Some ?d\<rparr>) s')"
    unfolding wrapPacket_def p(1,2) Option.bind.bind_lunit prod.case Let_def ps(1)
    using l64 ro h(1) c(1) by (simp add: ResetReading_at_start [OF rpc] mro)
  moreover have "64 \<le> m_size ?d" using c(5) b(5) hok(3) by simp
  ultimately show ?thesis using d(1,3) cd pl h(4) s' by blast
qed

lemma pad_stream_pads:
  assumes "stream_ok s" "aligned s" "64 \<le> m_size s" "1 < m_write_off s" "m_write_off s \<le> len" "len < 1048576"
  shows "\<exists>s'. pad_stream len s = Some s' \<and> stream_ok s' \<and> aligned s' \<and> 64 \<le> m_size s' \<and>
    m_write_off s' = len \<and> contents s' = contents s @ str_bits (replicate (len - m_write_off s) 0)"
  using assms
proof (induction "len - m_write_off s" arbitrary: s)
  case 0
  have "GetReadableDataSize s = m_write_off s"
    using 0 by (simp add: GetReadableDataSize_def stream_ok_def buf_inv_def aligned_def)
  with 0 show ?case by (subst pad_stream.simps) simp
next
  case (Suc d)
  have r: "GetReadableDataSize s = m_write_off s"
    using Suc.prems by (simp add: GetReadableDataSize_def stream_ok_def buf_inv_def aligned_def)
  have lt: "m_write_off s + 1 < 1048576" using Suc.hyps(2) Suc.prems(6) by simp
  obtain s1 where s1: "Put [0] s = Some s1" "stream_ok s1" "contents s1 = contents s @ str_bits [0]"
      "m_write_bit_off s1 = 0" "m_write_off s1 = m_write_off s + 1" "m_size s \<le> m_size s1"
    using Put_stream [of s "[0]"] Suc.prems lt by (auto simp: aligned_def)
  have wp: "GetWritePos s1 = GetWritePos s + 8" "GetReadPos s = 0"
    using s1(4,5) Suc.prems(2) by (simp_all add: GetWritePos_def GetReadPos_def aligned_def)
  have "GetReadPos s1 = 0"
    using stream_ok_write_pos [OF s1(2)] stream_ok_write_pos [OF Suc.prems(1)] s1(3) wp by simp
  then have "aligned s1" using s1(4) by (simp add: aligned_def GetReadPos_def)
  moreover have "d = len - m_write_off s1" "m_write_off s1 \<le> len" using Suc.hyps(2) s1(5) by simp_all
  ultimately obtain s2 where s2: "pad_stream len s1 = Some s2" "stream_ok s2" "aligned s2" "64 \<le> m_size s2"
    "m_write_off s2 = len" "contents s2 = contents s1 @ str_bits (replicate (len - m_write_off s1) 0)"
    using Suc.hyps(1) [of s1] Suc.prems s1 by auto
  have "len - m_write_off s = Suc (len - m_write_off s1)" using Suc.hyps(2) s1(5) by simp
  then have "contents s2 = contents s @ str_bits (replicate (len - m_write_off s) 0)"
    using s2(6) s1(3) by simp
  moreover have "pad_stream len s = Some s2"
    using r Suc.hyps(2) s1(1) s2(1) by (subst pad_stream.simps) simp
  ultimately show ?case using s2 by blast
qed

lemma fixed_length: "4 \<le> n \<Longrightarrow> n \<le> fixed_length n" "fixed_length n \<le> n + 7" "fixed_length n mod 8 = 4"
    "8 \<le> n \<Longrightarrow> 12 \<le> fixed_length n"
  unfolding fixed_length_def by presburger+

text \<open>The bytes of a datagram: length, checksum, and what the checksum covers.\<close>

definition datagram :: "u32 \<Rightarrow> u8 list \<Rightarrow> u8 list" where
  "datagram L body = bytes32 L @ bytes32 (Checksum body) @ body"

lemma bits_of_8_inj: "bits_of 8 a = bits_of 8 b \<Longrightarrow> a = b" for a b :: u8
  by (rule bit_word_eqI) (simp add: bits_of_eq_iff)

lemma str_bits_inj: "str_bits xs = str_bits ys \<longleftrightarrow> xs = ys"
proof (induction xs arbitrary: ys)
  case Nil
  show ?case by (cases ys) (auto dest: arg_cong [of _ _ length])
next
  case (Cons x xs)
  show ?case
  proof (cases ys)
    case Nil
    then show ?thesis by (auto dest: arg_cong [of _ _ length])
  next
    case (Cons y ys')
    with Cons.IH [of ys'] show ?thesis by (auto dest: bits_of_8_inj)
  qed
qed

lemma str_bits_split:
  assumes "str_bits D = str_bits xs @ rest"
  shows "D = xs @ drop (length xs) D" "str_bits (drop (length xs) D) = rest"
proof -
  have "str_bits (take (length xs) D) = str_bits xs"
    using arg_cong [OF assms, of "take (8 * length xs)"] by (simp add: take_str_bits)
  then have t: "take (length xs) D = xs" by (simp add: str_bits_inj)
  show "D = xs @ drop (length xs) D" using append_take_drop_id [of "length xs" D] by (simp only: t)
  show "str_bits (drop (length xs) D) = rest"
    using arg_cong [OF assms, of "drop (8 * length xs)"] by (simp add: drop_str_bits)
qed

lemma data_contents: "stream_ok s \<Longrightarrow> aligned s \<Longrightarrow> contents s = str_bits (data s)"
  by (rule contents_aligned) (auto simp: stream_ok_def buf_inv_def)

lemma alignedI: "GetReadPos s = 0 \<Longrightarrow> m_write_bit_off s = 0 \<Longrightarrow> aligned s"
  by (simp add: aligned_def GetReadPos_def)

text \<open>What \<open>sendRaw\<close> hands to the network for a packet.\<close>

lemma sendRaw_sends:
  assumes p: "deref s a = Some p0" "command_of p0 = Some (cmd, p)" "cmd \<noteq> 1"
    and ps: "m_stream p = Some ps" "payload_ok ps" and acks: "length (recv_acks s) < 2 ^ 32"
    and fresh: "next_ptr s \<noteq> 0"
  shows "\<exists>s' e L body pad tail.
    sendRaw now a tgt s = Some (tgt @ [next_ptr s], s') \<and>
    deref s' (next_ptr s) = Some ((copy_packet now p)\<lparr>m_stream := Some e\<rparr>) \<and>
    stream_ok e \<and> aligned e \<and> data e = datagram (of_nat L) body \<and> 4 \<le> length body \<and>
    str_bits body = header_bits p (take 16 (queued_acks s)) @ pad @ contents ps @ tail \<and>
    length pad = pad_len (length (header_bits p (take 16 (queued_acks s)))) \<and>
    L = 64 + length (header_bits p (take 16 (queued_acks s))) + length pad + length (contents ps) \<and>
    recv_acks s' = drop 16 (queued_acks s) \<and> length body < 1000000"
proof -
  let ?as = "take 16 (queued_acks s)"
  let ?H = "header_bits p ?as"
  obtain w s1 pad where w: "wrapPacket now a s = Some (alloc ((copy_packet now p)\<lparr>m_stream := Some w\<rparr>) s1)"
    "stream_ok w" "64 \<le> m_size w" "GetReadPos w = 0" "contents w = wire_bits p ?as pad (contents ps)"
    "length pad = pad_len (length ?H)" "length ?H \<le> 1950"
    and s1: "s1 = (assign a p s)\<lparr>recv_acks := drop 16 (queued_acks s), m_unacked_count := m_unacked_count s1\<rparr>"
    using wrapPacket_wraps [OF p ps acks, of now] by blast
  have np: "next_ptr s1 = next_ptr s" by (subst s1) (simp add: assign_def)
  have ra: "recv_acks s1 = drop 16 (queued_acks s)" by (subst s1) simp
  define L where "L = 64 + length ?H + length pad + length (contents ps)"
  have cps: "length (contents ps) \<le> 80000"
    using ps(2) stream_ok_write_pos [of ps] by (simp add: payload_ok_def)
  text \<open>alignment and padding\<close>
  let ?b = "ByteAlign True True w"
  obtain pad2 where b: "contents ?b = contents w @ pad2" "length pad2 = pad_len (GetWritePos w)" "stream_ok ?b"
    "m_write_bit_off ?b = 0" "m_size ?b = m_size w" "GetReadPos ?b = 0"
    "GetWritePos ?b = GetWritePos w + pad_len (GetWritePos w)"
    using ByteAlign_pads [OF w(2)] w(4) by (auto simp: GetReadPos_def)
  have wL: "GetWritePos w = L"
    using stream_ok_write_pos [OF w(2)] w(4,5) by (simp add: wire_bits_def L_def)
  have padlt: "length pad < 8" "length pad2 < 8" using w(6) b(2) pad_len(1) by simp_all
  let ?n = "m_write_off ?b"
  have n8: "8 * ?n = L + length pad2" using b(2,4,7) wL by (simp add: GetWritePos_def)
  have n: "8 \<le> ?n" "?n \<le> 11000" using n8 padlt w(7) cps unfolding L_def by linarith+
  let ?f = "fixed_length ?n"
  have f: "?n \<le> ?f" "?f \<le> 11007" "12 \<le> ?f" using fixed_length [of ?n] n by simp_all
  have al: "aligned ?b" by (rule alignedI [OF b(6,4)])
  have rd: "GetReadableDataSize ?b = ?n"
    using al b(3) by (simp add: GetReadableDataSize_def aligned_def stream_ok_def buf_inv_def)
  obtain d where d: "pad_stream ?f ?b = Some d" "stream_ok d" "aligned d" "64 \<le> m_size d" "m_write_off d = ?f"
    "contents d = contents ?b @ str_bits (replicate (?f - ?n) 0)"
    using pad_stream_pads [OF b(3) al, of ?f] w(3) b(5) n f by auto
  define tail where "tail = pad2 @ str_bits (replicate (?f - ?n) 0)"
  have cd: "contents d = str_bits (bytes32 (of_nat L)) @ replicate 32 False @ ?H @ pad @ contents ps @ tail"
    by (simp add: d(6) b(1) w(5) wire_bits_def L_def tail_def)
  text \<open>the checksum\<close>
  define body where "body = drop 8 (data d)"
  have ld: "?f \<le> length (m_buf d)" "length (data d) = ?f"
    using d(2,5) by (auto simp: stream_ok_def buf_inv_def data_def)
  have blk: "block (m_buf d) 8 (?f - 8) = body"
    using ld f by (simp add: block_def body_def data_def d(5) drop_take)
  let ?e = "d\<lparr>m_buf := overwrite (m_buf d) 4 (bytes32 (Checksum body))\<rparr>"
  have rp: "GetReadPos d = 0" "m_read_off d = 0" using d(3) by (simp_all add: aligned_def GetReadPos_def)
  have "8 * (4 + length (bytes32 (Checksum body))) \<le> GetWritePos d"
    using d(3,5) f by (simp add: GetWritePos_def aligned_def)
  note e = overwrite_stream [OF d(2) rp(1) this]
  have ale: "aligned ?e" using d(3) by (simp add: aligned_def)
  have ce: "contents ?e = str_bits (bytes32 (of_nat L) @ bytes32 (Checksum body)) @ ?H @ pad @ contents ps @ tail"
    using e(2) by (simp add: cd)
  have sd: "str_bits (data d) = str_bits (bytes32 (of_nat L) @ replicate 4 0) @ ?H @ pad @ contents ps @ tail"
    using cd data_contents [OF d(2,3)] str_bits_zeros [of 4] by simp
  have body: "str_bits body = ?H @ pad @ contents ps @ tail"
    using str_bits_split(2) [OF sd] by (simp add: body_def)
  have se: "str_bits (data ?e) = str_bits (bytes32 (of_nat L) @ bytes32 (Checksum body)) @ ?H @ pad @ contents ps @ tail"
    using ce data_contents [OF e(1) ale] by simp
  have "drop 8 (data ?e) = body"
    using str_bits_split(2) [OF se] body by (simp add: str_bits_inj [symmetric])
  then have de: "data ?e = datagram (of_nat L) body"
    using str_bits_split(1) [OF se] by (simp add: datagram_def)
  let ?w = "(copy_packet now p)\<lparr>m_stream := Some w\<rparr>"
  let ?s2 = "s1\<lparr>heap := (heap s1)(next_ptr s1 \<mapsto> ?w), next_ptr := next_ptr s1 + 1\<rparr>"
  have der: "deref ?s2 (next_ptr s) = Some ?w" using fresh np by (simp add: deref_def)
  have ms: "m_stream ?w = Some w" by simp
  have "sendRaw now a tgt s = Some (tgt @ [next_ptr s], assign (next_ptr s) (?w\<lparr>m_stream := Some ?e\<rparr>) ?s2)"
    unfolding sendRaw_def w(1) alloc_def Option.bind.bind_lunit prod.case np Let_def
    unfolding der [unfolded np] Option.bind.bind_lunit ms rd d(1)
    using ld blk rp by simp
  moreover have "deref (assign (next_ptr s) (?w\<lparr>m_stream := Some ?e\<rparr>) ?s2) (next_ptr s)
      = Some ((copy_packet now p)\<lparr>m_stream := Some ?e\<rparr>)"
    using fresh by (simp add: deref_def assign_def)
  moreover have "4 \<le> length body" "length body < 1000000" using ld f by (simp_all add: body_def)
  moreover have "recv_acks (assign (next_ptr s) (?w\<lparr>m_stream := Some ?e\<rparr>) ?s2) = drop 16 (queued_acks s)"
    by (simp add: assign_def ra)
  ultimately show ?thesis using e(1) ale de body w(6) L_def by blast
qed

section \<open>The receiver\<close>

lemma uGetBits_reads:
  assumes "sourced B W s" "0 < n" "n \<le> 32" "contents s = bits_of n d @ rest"
  shows "\<exists>s'. uGetBits n s = Some (take_bit n d, s') \<and> sourced B W s' \<and> contents s' = rest"
proof -
  have rok: "reader_ok s" using assms(1) by (rule sourced_reader_ok)
  have "GetBits n s = uGetBits n s"
    using readable_bits(2) [OF rok] assms(4) rok by (simp add: GetBits_def reader_ok_def)
  with sourced.get_law [OF assms] show ?thesis by simp
qed

lemma word32_of_bytes32: "word32_of (bytes32 w) = w"
proof (rule bit_word_eqI)
  fix k assume "k < LENGTH(32)"
  then have k: "k < 32" by simp
  have "word32_of (bytes32 w) = foldr (\<lambda>b w. ucast b OR push_bit 8 w) (bytes32 w) 0"
    by (simp add: word32_of_def)
  have l: "[0..<4] = [0, 1, 2, 3 :: nat]" by (simp add: upt_rec)
  show "bit (word32_of (bytes32 w)) k = bit w k"
    using k by (cases "24 \<le> k"; cases "16 \<le> k") (auto simp: word32_of_def bytes32_def l bit_simps)
qed

lemma fold_addAck_acks: "m_acks (fold addAck as p) = fold Set_insert as (m_acks p)"
  by (induction as arbitrary: p) (simp_all add: addAck_def)

lemma parse_header_reads:
  assumes src: "sourced B W src" "contents src = header_bits p as @ rest" and as: "length as < 2 ^ 32"
    and res: "m_acks res = []"
  shows "\<exists>src' res'. parse_header src res = Some (src', res') \<and> sourced B W src' \<and> contents src' = rest \<and>
    res' = res\<lparr>m_seqNo := m_seqNo p, m_numSibs := m_numSibs p,
      m_sibPos := (if HasSiblings p then m_sibPos p else m_sibPos res),
      m_sibId := (if HasSiblings p then m_sibId p else m_sibId res),
      m_acks := m_acks (fold addAck as res), m_compressed := m_compressed p\<rparr>"
proof -
  obtain s1 where s1: "uGetBits 1 src = Some (0, s1)" "sourced B W s1"
    "contents s1 = bits_of 32 (m_seqNo p) @ packed 1 (m_numSibs p) @
      (if HasSiblings p then packed 1 (m_sibPos p) @ bits_of 32 (m_sibId p) else []) @
      ack_bits as @ bits_of 1 (of_bool (m_compressed p) :: u32) @ rest"
    using uGetBits_reads [OF src(1), of 1 0] src(2) by (auto simp: header_bits_def)
  obtain s2 where s2: "uGetBits 32 s1 = Some (m_seqNo p, s2)" "sourced B W s2"
    "contents s2 = packed 1 (m_numSibs p) @
      (if HasSiblings p then packed 1 (m_sibPos p) @ bits_of 32 (m_sibId p) else []) @
      ack_bits as @ bits_of 1 (of_bool (m_compressed p) :: u32) @ rest"
    using uGetBits_reads [OF s1(2) _ _ s1(3)] by (auto simp: take_bit_word_beyond_length_eq)
  obtain s3 where s3: "GetPackedBits 1 s2 = Some (m_numSibs p, s3)" "sourced B W s3"
    "contents s3 = (if HasSiblings p then packed 1 (m_sibPos p) @ bits_of 32 (m_sibId p) else []) @
      ack_bits as @ bits_of 1 (of_bool (m_compressed p) :: u32) @ rest"
    using GetPackedBits_reads [OF s2(2) _ _ s2(3)] by auto
  let ?r3 = "setNumSibs (m_numSibs p) (setSeqNo (m_seqNo p) res)"
  let ?r4 = "res\<lparr>m_seqNo := m_seqNo p, m_numSibs := m_numSibs p,
      m_sibPos := (if HasSiblings p then m_sibPos p else m_sibPos res),
      m_sibId := (if HasSiblings p then m_sibId p else m_sibId res)\<rparr>"
  obtain s4 where s4: "(if m_numSibs p \<noteq> 0 then do {
            (pos, src) \<leftarrow> GetPackedBits 1 s3;
            let res = setSibPos pos ?r3;
            (i, src) \<leftarrow> uGetBits 32 src;
            Some (src, setSibId i res) }
          else Some (s3, ?r3)) = Some (s4, ?r4)" "sourced B W s4"
    "contents s4 = ack_bits as @ bits_of 1 (of_bool (m_compressed p) :: u32) @ rest"
  proof (cases "HasSiblings p")
    case True
    then have ne: "m_numSibs p \<noteq> 0" by (auto simp: HasSiblings_def)
    obtain t where t: "GetPackedBits 1 s3 = Some (m_sibPos p, t)" "sourced B W t"
      "contents t = bits_of 32 (m_sibId p) @ ack_bits as @ bits_of 1 (of_bool (m_compressed p) :: u32) @ rest"
      using GetPackedBits_reads [OF s3(2), of 1 "m_sibPos p"] s3(3) True by auto
    obtain t' where "uGetBits 32 t = Some (m_sibId p, t')" "sourced B W t'"
      "contents t' = ack_bits as @ bits_of 1 (of_bool (m_compressed p) :: u32) @ rest"
      using uGetBits_reads [OF t(2) _ _ t(3)] by (auto simp: take_bit_word_beyond_length_eq)
    with t True ne that [of t'] show ?thesis
      by (simp add: setSibId_def setSibPos_def setNumSibs_def setSeqNo_def)
  next
    case False
    then have "m_numSibs p = 0" by (simp add: HasSiblings_def word_gt_0)
    with False s3 that [of s3] show ?thesis by (simp add: setNumSibs_def setSeqNo_def)
  qed
  obtain s5 where s5: "parseAcks s4 ?r4 = Some (s5, fold addAck as ?r4)" "sourced B W s5"
    "contents s5 = bits_of 1 (of_bool (m_compressed p) :: u32) @ rest"
    using parseAcks_reads [OF s4(2,3) as] by auto
  obtain s6 where s6: "GetBits 1 s5 = Some (of_bool (m_compressed p), s6)" "sourced B W s6" "contents s6 = rest"
    using sourced.get_law [OF s5(2) _ _ s5(3)] by (cases "m_compressed p") auto
  have acks: "m_acks (fold addAck as ?r4) = m_acks (fold addAck as res)"
    by (simp add: fold_addAck_acks)
  have "parse_header src res = Some (s6, SetIsCompressed (m_compressed p) (fold addAck as ?r4))"
    by (simp only: parse_header_def s1(1) s2(1) s3(1) Option.bind.bind_lunit prod.case Let_def
      simp_thms if_False s4(1) [unfolded Let_def] s5(1) s6(1) of_bool_eq_0_iff)
  moreover have "SetIsCompressed (m_compressed p) (fold addAck as ?r4) =
      ?r4\<lparr>m_acks := m_acks (fold addAck as res), m_compressed := m_compressed p\<rparr>"
    using fold_addAck_only_acks [of as ?r4] acks by (simp add: SetIsCompressed_def)
  ultimately show ?thesis using s6 by (intro exI conjI) auto
qed

lemma length_datagram [simp]: "length (datagram L body) = 8 + length body"
  by (simp add: datagram_def)

lemma pad_cancel:
  fixes n m :: nat
  assumes "m < 8" "8 dvd n + m" shows "(n + 7) div 8 * 8 = n + m"
proof -
  obtain j where "n + m = 8 * j" using assms(2) by (auto elim: dvdE)
  then have "n + 7 = 8 * j + (7 - m)" "n + m = 8 * j" using assms(1) by linarith+
  then show ?thesis using div_mod_8(1) [of "n + 7" j "7 - m"] by simp
qed

lemma ByteAlign_read_pos:
  "m_read_bit_off s < 8 \<Longrightarrow> m_read_off (ByteAlign True False s) = (GetReadPos s + 7) div 8"
  "m_read_bit_off (ByteAlign True False s) = 0" "m_buf (ByteAlign True False s) = m_buf s"
  by (auto simp: ByteAlign_def GetReadPos_def)

text \<open>A datagram as \<open>sendRaw\<close> builds it is decoded to the packet that went in.\<close>

lemma parse_block_decodes:
  assumes src: "stream_ok src" "aligned src" "data src = datagram (of_nat L) body"
    and body: "str_bits body = header_bits p as @ pad @ payload @ tail" "4 \<le> length body"
    and pad: "length pad = pad_len (length (header_bits p as))"
    and L: "L = 64 + length (header_bits p as) + length pad + length payload"
    and as: "length as < 2 ^ 32" and small: "length payload \<le> 80000" "length body < 1000000"
  shows "\<exists>res strm. parse_block fresh now True src = Some (Some res) \<and>
    m_stream res = Some strm \<and> stream_ok strm \<and> contents strm = payload \<and> GetReadPos strm = 0 \<and>
    m_seqNo res = m_seqNo p \<and> m_numSibs res = m_numSibs p \<and>
    m_sibPos res = (if HasSiblings p then m_sibPos p else 0) \<and>
    m_sibId res = (if HasSiblings p then m_sibId p else 0) \<and>
    m_compressed res = m_compressed p \<and> m_acks res = fold Set_insert as [] \<and>
    m_creation_time res = now \<and> m_retransmit_count res = 0"
proof -
  let ?H = "header_bits p as"
  have al: "m_read_off src = 0" "m_read_bit_off src = 0" "m_write_bit_off src = 0" "\<not> m_byteAligned src"
    using src(1,2) by (auto simp: aligned_def stream_ok_def)
  have inv: "buf_inv src" using src(1) by (simp add: stream_ok_def)
  have wo: "m_write_off src = 8 + length body"
    using length_data [OF inv] src(3) by simp
  have len: "8 + length body \<le> length (m_buf src)" using inv wo by (auto simp: buf_inv_def)
  have tk: "take (8 + length body) (m_buf src) = datagram (of_nat L) body" using src(3) wo by (simp add: data_def)
  have lb: "8 * length body = length ?H + length pad + length payload + length tail"
    using arg_cong [OF body(1), of length] by simp
  have rds: "GetReadableDataSize src = 8 + length body"
    using al wo small by (simp add: GetReadableDataSize_def)
  have b1: "block (m_buf src) 0 4 = bytes32 (of_nat L)"
    using arg_cong [OF tk, of "take 4"] by (simp add: block_def datagram_def)
  have b2: "block (m_buf src) 4 4 = bytes32 (Checksum body)"
    using arg_cong [OF tk, of "\<lambda>xs. take 4 (drop 4 xs)"] by (simp add: block_def datagram_def drop_take)
  have b3: "take (length body) (drop 8 (m_buf src)) = body"
    using arg_cong [OF tk, of "drop 8"] by (simp add: datagram_def drop_take)
  define s1 where "s1 = src\<lparr>m_read_off := 4\<rparr>"
  define s2 where "s2 = src\<lparr>m_read_off := 8\<rparr>"
  have g1: "Get 4 src = Some (Some (bytes32 (of_nat L)), s1)"
    using rds len b1 al by (simp add: Get_def uGetBytes_def s1_def)
  have rds1: "GetReadableDataSize s1 = 4 + length body"
    using al wo small by (simp add: GetReadableDataSize_def s1_def)
  have g2: "Get 4 s1 = Some (Some (bytes32 (Checksum body)), s2)"
    using rds1 len b2 by (simp add: Get_def uGetBytes_def s1_def s2_def)
  have rds2: "GetReadableDataSize s2 = length body"
    using al wo small by (simp add: GetReadableDataSize_def s2_def)
  have unL: "unat (of_nat L - 32 :: u32) = L - 32" "unat (of_nat L :: u32) = L"
  proof -
    have lt: "L < 2 ^ 32" "32 \<le> L" using L lb small by simp_all
    then show "unat (of_nat L :: u32) = L" by (simp add: unat_of_nat)
    have "of_nat L - 32 = (of_nat (L - 32) :: u32)" using lt(2) by (simp add: of_nat_diff)
    moreover have "unat (of_nat (L - 32) :: u32) = L - 32" using lt(1) by (simp add: unat_of_nat)
    ultimately show "unat (of_nat L - 32 :: u32) = L - 32" by simp
  qed
  have enough: "unat (of_nat L - 32 :: u32) \<le> GetReadableBits s1"
    using rds1 al small L lb unL by (simp add: GetReadableBits_def s1_def)
  text \<open>the header\<close>
  have rok2: "reader_ok s2"
    using src(1) al wo len small unfolding reader_ok_def stream_ok_def
    by (simp add: s2_def GetReadPos_def GetWritePos_def buf_inv_def)
  have c2: "contents s2 = ?H @ pad @ payload @ tail"
  proof -
    have "GetReadableBits s2 = 8 * length body"
      using rds2 al small by (simp add: GetReadableBits_def s2_def)
    then have "contents s2 = take (8 * length body) (str_bits (drop 8 (m_buf src)))"
      using contents_bytes [OF rok2] al by (simp add: s2_def)
    then show ?thesis using b3 body(1) by (simp add: take_str_bits)
  qed
  let ?W = "GetWritePos s2"
  have W: "?W = 64 + 8 * length body" using wo al by (simp add: GetWritePos_def s2_def)
  obtain s3 res where h: "parse_header s2 (new_packet fresh now) = Some (s3, res)"
    "sourced (m_buf src) ?W s3" "contents s3 = pad @ payload @ tail"
    and res: "res = (new_packet fresh now)\<lparr>m_seqNo := m_seqNo p, m_numSibs := m_numSibs p,
      m_sibPos := (if HasSiblings p then m_sibPos p else 0),
      m_sibId := (if HasSiblings p then m_sibId p else 0),
      m_acks := fold Set_insert as [], m_compressed := m_compressed p\<rparr>"
  proof -
    have s: "sourced (m_buf src) ?W s2" using rok2 by (simp add: sourced_def s2_def)
    have a: "m_acks (new_packet fresh now) = []" "m_sibPos (new_packet fresh now) = 0"
      "m_sibId (new_packet fresh now) = 0" by (simp_all add: new_packet_def)
    from parse_header_reads [OF s c2 as a(1)] a that show thesis
      by (auto simp: fold_addAck_acks)
  qed
  text \<open>the payload\<close>
  have rok3: "reader_ok s3" "m_buf s3 = m_buf src" "GetWritePos s3 = ?W"
    using h(2) by (simp_all add: sourced_def)
  have rp3: "GetReadPos s3 = 64 + length ?H"
  proof -
    have "GetReadPos s3 \<le> ?W" using rok3(1,3) by (simp only: reader_ok_def)
    moreover have "?W - GetReadPos s3 = length pad + length payload + length tail"
      using readable_bits(1) [OF rok3(1)] unfolding readable_bits(2) [OF rok3(1)] h(3) rok3(3) by simp
    ultimately show ?thesis using W lb by linarith
  qed
  let ?s4 = "ByteAlign True False s3"
  have rbo: "m_read_bit_off s3 < 8" using rok3(1) by (simp add: reader_ok_def)
  have plt: "length pad < 8" using pad pad_len(1) by simp
  have dv: "8 dvd (64 + length ?H) + length pad" using pad_len(2) [of "64 + length ?H"] pad_len_shift pad by simp
  have off: "8 * m_read_off ?s4 = 64 + length ?H + length pad" "m_read_bit_off ?s4 = 0" "m_buf ?s4 = m_buf src"
    using ByteAlign_read_pos [of s3] rbo rp3 rok3(2) pad_cancel [OF plt dv] by (simp_all add: mult.commute)
  have rp4: "GetReadPos ?s4 = 64 + length ?H + length pad" using off by (simp add: GetReadPos_def)
  let ?left = "wrap32 (int (unat (of_nat L :: u32)) - int (GetReadPos ?s4))"
  have left: "?left = length payload" using rp4 unL(2) L small by simp
  let ?src = "drop (m_read_off ?s4) (m_buf ?s4)"
  have pay: "take (length payload) (str_bits ?src) = payload"
  proof -
    have "str_bits (m_buf src) = str_bits (bytes32 (of_nat L) @ bytes32 (Checksum body)) @ str_bits body
        @ str_bits (drop (8 + length body) (m_buf src))"
      using append_take_drop_id [of "8 + length body" "m_buf src"] unfolding tk datagram_def
      by (metis append.assoc str_bits_append)
    then obtain P Z where "str_bits (m_buf src) = P @ ?H @ pad @ payload @ tail @ Z" and "length P = 64"
      using that [of "str_bits (bytes32 (of_nat L) @ bytes32 (Checksum body))"
        "str_bits (drop (8 + length body) (m_buf src))"] by (simp add: body(1))
    then have "str_bits ?src = payload @ tail @ Z"
      unfolding off(3) drop_str_bits [symmetric] off(1) by simp
    then show ?thesis by simp
  qed
  have nb: "BITS_TO_BYTES (length payload) \<le> length ?src"
    by (rule BITS_TO_BYTES_le) (use arg_cong [OF pay, of length] in simp)
  let ?new = "new_stream fresh maxPacketSize"
  have mp: "0 < maxPacketSize" "maxPacketSize < 1000000" by (simp_all add: maxPacketSize_def)
  note new = new_stream_ok [OF mp, of fresh]
  have w0: "m_write_off ?new = 0" "m_write_bit_off ?new = 0" using new(3) by (simp_all add: GetWritePos_def)
  have fit: "m_write_off ?new + BITS_TO_BYTES (length payload) < 1048576"
    using BITS_TO_BYTES_le [of "length payload" 10000] small w0 by simp
  obtain strm where strm: "StoreBitArray ?src (length payload) ?new = Some strm" "stream_ok strm"
    "contents strm = payload" "GetWritePos strm = length payload"
    using StoreBitArray_appends [OF new(1) w0(2) nb fit new(4)] new(2,3) w0 pay by auto
  have rp: "GetReadPos strm = 0" using stream_ok_write_pos [OF strm(2)] strm(3,4) by simp
  have st: "packet_StoreBitArray ?src ?left res = Some (res\<lparr>m_stream := Some strm\<rparr>)"
    using strm(1) left by (simp add: packet_StoreBitArray_def on_stream_def res new_packet_def)
  have cs: "Checksum (take (GetReadableDataSize s2) (drop (m_read_off s2) (m_buf s2))) = Checksum body"
    using rds2 b3 by (simp add: s2_def)
  have "\<not> GetReadableDataSize src < 12" using rds body(2) by simp
  then have "parse_block fresh now True src = Some (Some (res\<lparr>m_stream := Some strm\<rparr>))"
    using enough by (simp only: parse_block_def g1 g2 Let_def option.sel word32_of_bytes32 cs h(1) st
      Option.bind.bind_lunit prod.case simp_thms if_False if_True)
  with strm rp show ?thesis by (simp add: res new_packet_def)
qed

end
