(* ===== verification/Crudp_Siblings.thy ===== *)
theory Crudp_Siblings
  imports Crudp_Wire
begin

unbundle bit_operations_syntax

text \<open>
  Large packets: \<open>packetSplit\<close> on the sending side, the sibling storage and \<open>mergeSiblings\<close> on
  the receiving side.
\<close>

section \<open>Splitting\<close>

text \<open>A live packet that carries part number \<open>i\<close> with the given bits.\<close>

definition part_at :: "CrudP_Protocol \<Rightarrow> ptr \<Rightarrow> nat \<Rightarrow> bool \<Rightarrow> bool list \<Rightarrow> bool" where
  "part_at s a i reliable bs \<longleftrightarrow>
    (\<exists>p st. deref s a = Some p \<and> m_stream p = Some st \<and> payload_ok st \<and> contents st = bs \<and>
      m_sibPos p = of_nat i \<and> m_reliable p = reliable \<and> m_acks p = [])"

lemma deref_update [simp]:
  "deref (s\<lparr>reliable_packets := x\<rparr>) a = deref s a" "deref (s\<lparr>recv_acks := y\<rparr>) a = deref s a"
  "deref (s\<lparr>m_unacked_count := n\<rparr>) a = deref s a" "deref (s\<lparr>avail_packets := x\<rparr>) a = deref s a"
  "deref (s\<lparr>retransmit_queue := x\<rparr>) a = deref s a" "deref (s\<lparr>send_queue := x\<rparr>) a = deref s a"
  "deref (s\<lparr>sibling_map := m\<rparr>) a = deref s a" "deref (s\<lparr>send_seq := q\<rparr>) a = deref s a"
  "deref (s\<lparr>recv_seq := q\<rparr>) a = deref s a" "deref (s\<lparr>sibling_id := q\<rparr>) a = deref s a"
  by (simp_all add: deref_def)

lemma deref_alloc:
  "next_ptr s \<noteq> 0 \<Longrightarrow> deref (snd (alloc v s)) (next_ptr s) = Some v"
  "a \<noteq> next_ptr s \<Longrightarrow> deref (snd (alloc v s)) a = deref s a"
  by (simp_all add: alloc_def deref_def)

text \<open>The streams handed to the parts share the source's bytes behind its reader.\<close>

lemma PutBytes_StoreBitArray:
  assumes "m_write_bit_off s = 0"
  shows "PutBytes src n s = StoreBitArray src (8 * n) s"
proof -
  have "ByteAlign False True s = s" using assms by (simp add: ByteAlign_def)
  then show ?thesis by (simp add: StoreBitArray_def Let_def) 
qed

lemma new_part:
  assumes bs: "reader_ok bs" "m_read_bit_off bs = 0" and n: "n \<le> GetReadableBits bs" "n \<le> 80000"
  shows "\<exists>st. StoreBitArray (drop (m_read_off bs) (m_buf bs)) n (new_stream fresh maxPacketSize) = Some st \<and>
    payload_ok st \<and> contents st = take n (contents bs)"
proof -
  let ?src = "drop (m_read_off bs) (m_buf bs)" and ?new = "new_stream fresh maxPacketSize"
  have c: "contents bs = take (GetReadableBits bs) (str_bits ?src)" by (rule contents_bytes [OF bs])
  have l: "GetReadableBits bs = length (contents bs)" by (rule readable_bits(2) [OF bs(1)])
  have "GetReadableBits bs \<le> 8 * length ?src"
    using arg_cong [OF c, of length] l by simp
  then have nb: "BITS_TO_BYTES n \<le> length ?src" by (intro BITS_TO_BYTES_le) (use n in simp)
  have mp: "0 < maxPacketSize" "maxPacketSize < 1000000" by (simp_all add: maxPacketSize_def)
  note new = new_stream_ok [OF mp, of fresh]
  have w0: "m_write_off ?new = 0" "m_write_bit_off ?new = 0" using new(3) by (simp_all add: GetWritePos_def)
  have fit: "m_write_off ?new + BITS_TO_BYTES n < 1048576"
    using BITS_TO_BYTES_le [of n 10000] n(2) w0 by simp
  obtain st where st: "StoreBitArray ?src n ?new = Some st" "stream_ok st"
    "contents st = take n (str_bits ?src)" "GetWritePos st = n"
    using StoreBitArray_appends [OF new(1) w0(2) nb fit new(4)] new(2,3) w0 by auto
  have len: "length (contents st) = n" using st(3) nb n \<open>GetReadableBits bs \<le> 8 * length ?src\<close> by simp
  then have "GetReadPos st = 0" using stream_ok_write_pos [OF st(2)] st(4) by simp
  moreover have "take n (contents bs) = take n (str_bits ?src)"
    by (subst c) (use n(1) in \<open>simp add: min_def\<close>)
  ultimately show ?thesis using st n(2) by (auto simp: payload_ok_def)
qed

text \<open>The bits of the parts: whole blocks, then what is left.\<close>

function blocks_of :: "nat \<Rightarrow> bool list \<Rightarrow> bool list list" where
  "blocks_of k xs =
    (if 0 < k \<and> k < length xs div 8 then take (8 * k) xs # blocks_of k (drop (8 * k) xs) else [xs])"
  by pat_completeness auto
termination
  by (relation "measure (\<lambda>(_, xs). length xs)") auto

declare blocks_of.simps [simp del]

lemma less_div_8: "k < n div 8 \<longleftrightarrow> 8 * k + 8 \<le> n" for k n :: nat
  using less_eq_div_iff_mult_less_eq [of 8 "Suc k" n] by (simp add: Suc_le_eq mult.commute add.commute)

lemma concat_blocks_of: "concat (blocks_of k xs) = xs"
  by (induction k xs rule: blocks_of.induct) (subst blocks_of.simps, simp)

lemma blocks_of_not_Nil [simp]: "blocks_of k xs \<noteq> []"
  by (subst blocks_of.simps) simp

lemma blocks_of_step:
  "0 < k \<Longrightarrow> k < length xs div 8 \<Longrightarrow> blocks_of k xs = take (8 * k) xs # blocks_of k (drop (8 * k) xs)"
  "\<not> k < length xs div 8 \<Longrightarrow> blocks_of k xs = [xs]"
  by (subst blocks_of.simps, simp)+

lemma blocks_of_sizes:
  "0 < k \<Longrightarrow> b \<in> set (butlast (blocks_of k xs)) \<Longrightarrow> length b = 8 * k"
proof (induction k xs rule: blocks_of.induct)
  case (1 k xs)
  show ?case
  proof (cases "k < length xs div 8")
    case True
    then have "8 * k \<le> length xs" by (simp add: less_div_8)
    with True 1 show ?thesis by (auto simp: blocks_of_step(1))
  next
    case False
    with "1.prems" show ?thesis by (simp add: blocks_of_step(2))
  qed
qed

lemma blocks_of_last:
  "0 < k \<Longrightarrow> 8 \<le> length xs \<Longrightarrow>
   8 \<le> length (last (blocks_of k xs)) \<and> length (last (blocks_of k xs)) < 8 * k + 8"
proof (induction k xs rule: blocks_of.induct)
  case (1 k xs)
  show ?case
  proof (cases "k < length xs div 8")
    case True
    then have "8 \<le> length xs - 8 * k" by (simp add: less_div_8)
    with True 1 show ?thesis by (simp add: blocks_of_step(1))
  next
    case False
    then have "length xs < 8 * k + 8" by (simp add: less_div_8)
    with False "1.prems" show ?thesis by (simp add: blocks_of_step(2))
  qed
qed

lemma readable_bytes:
  assumes "reader_ok s" "m_read_bit_off s = 0"
  shows "GetReadableDataSize s = length (contents s) div 8"
proof -
  have o: "GetReadPos s = 8 * m_read_off s" "GetWritePos s = 8 * m_write_off s + m_write_bit_off s"
    using assms(2) by (simp_all add: GetReadPos_def GetWritePos_def)
  have r: "m_write_bit_off s < 8" "8 * m_read_off s \<le> 8 * m_write_off s + m_write_bit_off s"
    "8 * m_write_off s < 2147483648"
    using assms(1) o by (auto simp: reader_ok_def)
  then have le: "m_read_off s \<le> m_write_off s" by linarith
  have "length (contents s) = 8 * (m_write_off s - m_read_off s) + m_write_bit_off s"
    using r(2) le by (simp add: contents_def o diff_mult_distrib2)
  then have "length (contents s) div 8 = m_write_off s - m_read_off s" using r(1) by simp
  moreover have "GetReadableDataSize s = m_write_off s - m_read_off s"
    using le r(3) by (simp add: GetReadableDataSize_def nat_diff_distrib')
  ultimately show ?thesis by simp
qed

lemma advance_read_drops:
  assumes "reader_ok s" "m_read_bit_off s = 0" "8 * k \<le> length (contents s)"
  shows "reader_ok (advance_read k s)" "m_read_bit_off (advance_read k s) = 0"
    "contents (advance_read k s) = drop (8 * k) (contents s)"
proof -
  have e: "advance_read k s = SetReadPos (GetReadPos s + 8 * k) s"
    using assms(2) by (simp add: advance_read_def SetReadPos_def GetReadPos_def)
  have le: "GetReadPos s \<le> GetWritePos s" using assms(1) by (simp add: reader_ok_def)
  have l: "length (contents s) = GetWritePos s - GetReadPos s" by (simp add: contents_def)
  have g: "(GetReadPos s + 8 * k) mod 8 = 0" using assms(2) by (simp add: GetReadPos_def)
  show "reader_ok (advance_read k s)" "m_read_bit_off (advance_read k s) = 0"
    using assms(1,3) le l g by (auto simp: e reader_ok_def)
  show "contents (advance_read k s) = drop (8 * k) (contents s)"
    unfolding e by (rule contents_SetReadPos [OF assms(3) le])
qed

lemma packetSplit_loop_splits:
  assumes "reader_ok bs" "m_read_bit_off bs = 0" "0 < k" "k \<le> 10000" "next_ptr s \<noteq> 0"
  shows "\<exists>bs' s' n. packetSplit_loop now k reliable (of_nat i) bs res s =
      Some (res @ [next_ptr s..<next_ptr s + n], of_nat (i + n), bs', s') \<and>
    Suc n = length (blocks_of k (contents bs)) \<and> next_ptr s' = next_ptr s + n \<and>
    reader_ok bs' \<and> m_read_bit_off bs' = 0 \<and> contents bs' = last (blocks_of k (contents bs)) \<and>
    (\<forall>j < n. part_at s' (next_ptr s + j) (i + j) reliable (blocks_of k (contents bs) ! j)) \<and>
    (\<forall>a < next_ptr s. deref s' a = deref s a) \<and> s' = s\<lparr>heap := heap s', next_ptr := next_ptr s'\<rparr>"
  using assms
proof (induction "length (contents bs)" arbitrary: bs i res s rule: less_induct)
  case less
  note bs = less.prems(1,2)
  have rd: "GetReadableDataSize bs = length (contents bs) div 8" by (rule readable_bytes [OF bs])
  show ?case
  proof (cases "k < length (contents bs) div 8")
    case False
    have "packetSplit_loop now k reliable (of_nat i) bs res s = Some (res, of_nat i, bs, s)"
      using False rd by (subst packetSplit_loop.simps) simp
    with False bs show ?thesis by (intro exI [of _ bs] exI [of _ s] exI [of _ 0]) (simp add: blocks_of_step(2))
  next
    case True
    then have k8: "8 * k \<le> length (contents bs)" by (simp add: less_div_8)
    have n: "8 * k \<le> GetReadableBits bs" "8 * k \<le> 80000"
      using k8 readable_bits(2) [OF bs(1)] less.prems(4) by simp_all
    obtain st where st: "StoreBitArray (drop (m_read_off bs) (m_buf bs)) (8 * k) (new_stream (mem_fresh s) maxPacketSize) = Some st"
      "payload_ok st" "contents st = take (8 * k) (contents bs)"
      using new_part [OF bs n] by blast
    let ?act = "SetReliabilty reliable (setSibPos (of_nat i) ((new_packet (mem_fresh s) now)\<lparr>m_stream := Some st\<rparr>))"
    let ?s = "snd (alloc ?act s)"
    have mp: "0 < maxPacketSize" "maxPacketSize < 1000000" by (simp_all add: maxPacketSize_def)
    have "m_write_bit_off (new_stream (mem_fresh s) maxPacketSize) = 0"
      using new_stream_ok(3) [OF mp] by (simp add: GetWritePos_def)
    then have put: "on_stream (PutBytes (drop (m_read_off bs) (m_buf bs)) k) (new_packet (mem_fresh s) now)
        = Some ((new_packet (mem_fresh s) now)\<lparr>m_stream := Some st\<rparr>)"
      using st(1) by (simp add: on_stream_def new_packet_def PutBytes_StoreBitArray)
    have s: "next_ptr ?s = next_ptr s + 1" "fst (alloc ?act s) = next_ptr s"
      "\<And>a. a < next_ptr s \<Longrightarrow> deref ?s a = deref s a" "deref ?s (next_ptr s) = Some ?act"
      "\<And>h n. ?s\<lparr>heap := h, next_ptr := n\<rparr> = s\<lparr>heap := h, next_ptr := n\<rparr>"
      using less.prems(5) by (simp_all add: alloc_def deref_def)
    have step: "packetSplit_loop now k reliable (of_nat i) bs res s =
        packetSplit_loop now k reliable (of_nat (Suc i)) (advance_read k bs) (res @ [next_ptr s]) ?s"
      using True rd put s(2) by (subst packetSplit_loop.simps) (simp add: Let_def split_beta add.commute)
    note adv = advance_read_drops [OF bs k8]
    have shorter: "length (contents (advance_read k bs)) < length (contents bs)"
      using less.prems(3) k8 by (simp add: adv(3))
    obtain bs' s' n where ih: "packetSplit_loop now k reliable (of_nat (Suc i)) (advance_read k bs) (res @ [next_ptr s]) ?s =
        Some ((res @ [next_ptr s]) @ [next_ptr ?s..<next_ptr ?s + n], of_nat (Suc i + n), bs', s')"
      "Suc n = length (blocks_of k (contents (advance_read k bs)))" "next_ptr s' = next_ptr ?s + n"
      "reader_ok bs'" "m_read_bit_off bs' = 0" "contents bs' = last (blocks_of k (contents (advance_read k bs)))"
      "\<forall>j < n. part_at s' (next_ptr ?s + j) (Suc i + j) reliable (blocks_of k (contents (advance_read k bs)) ! j)"
      "\<forall>a < next_ptr ?s. deref s' a = deref ?s a" "s' = ?s\<lparr>heap := heap s', next_ptr := next_ptr s'\<rparr>"
      using less.hyps [OF shorter adv(1,2) less.prems(3,4), of ?s "Suc i" "res @ [next_ptr s]"] s(1) by auto
    have bl: "blocks_of k (contents bs) = take (8 * k) (contents bs) # blocks_of k (contents (advance_read k bs))"
      using blocks_of_step(1) [OF less.prems(3) True] adv(3) by simp
    have "part_at s' (next_ptr s) i reliable (take (8 * k) (contents bs))"
      using ih(8) s(1,4) st(2,3)
      by (simp add: part_at_def SetReliabilty_def setSibPos_def new_packet_def)
    then have parts: "\<forall>j < Suc n. part_at s' (next_ptr s + j) (i + j) reliable (blocks_of k (contents bs) ! j)"
      using ih(7) s(1) by (auto simp: bl less_Suc_eq_0_disj)
    have lst: "[next_ptr s..<next_ptr s + Suc n] = next_ptr s # [next_ptr ?s..<next_ptr ?s + n]"
      using s(1) by (simp add: upt_conv_Cons)
    show ?thesis
    proof (intro exI conjI)
      show "packetSplit_loop now k reliable (of_nat i) bs res s =
        Some (res @ [next_ptr s..<next_ptr s + Suc n], of_nat (i + Suc n), bs', s')"
        using step ih(1) lst by simp
      show "s' = s\<lparr>heap := heap s', next_ptr := next_ptr s'\<rparr>"
        using ih(9) unfolding s(5) .
    qed (use ih parts s bl in auto)
  qed
qed

text \<open>\<open>packetSplit\<close> as a whole: consecutive new packets that carry the blocks of the payload.\<close>

lemma packetSplit_splits:
  assumes src: "m_stream src = Some bs" "reader_ok bs" "m_read_bit_off bs = 0"
    and k: "0 < k" "k \<le> 9000" and big: "8 \<le> length (contents bs)" and np: "next_ptr s \<noteq> 0"
  defines "blocks \<equiv> blocks_of k (contents bs)"
  shows "\<exists>s'. packetSplit now src k s = Some ([next_ptr s..<next_ptr s + length blocks], s') \<and>
    next_ptr s' = next_ptr s + length blocks \<and>
    (\<forall>j < length blocks. part_at s' (next_ptr s + j) j (m_reliable src) (blocks ! j)) \<and>
    (\<forall>a < next_ptr s. deref s' a = deref s a) \<and> s' = s\<lparr>heap := heap s', next_ptr := next_ptr s'\<rparr>"
proof -
  obtain bs' s1 n where l: "packetSplit_loop now k (m_reliable src) 0 bs [] s =
      Some ([next_ptr s..<next_ptr s + n], of_nat n, bs', s1)"
    "Suc n = length blocks" "next_ptr s1 = next_ptr s + n" "reader_ok bs'" "m_read_bit_off bs' = 0"
    "contents bs' = last blocks"
    "\<forall>j < n. part_at s1 (next_ptr s + j) j (m_reliable src) (blocks ! j)"
    "\<forall>a < next_ptr s. deref s1 a = deref s a" "s1 = s\<lparr>heap := heap s1, next_ptr := next_ptr s1\<rparr>"
    using packetSplit_loop_splits [OF src(2,3) k(1) _ np, of now "m_reliable src" 0 "[]"] k(2)
    by (auto simp: blocks_def)
  have lst: "8 \<le> length (last blocks)" "length (last blocks) < 8 * k + 8"
    using blocks_of_last [OF k(1) big] by (simp_all add: blocks_def)
  have rd: "GetReadableDataSize bs' > 0"
    using readable_bytes [OF l(4,5)] lst(1) l(6) less_div_8 [of 0] by simp
  have rb: "GetReadableBits bs' = length (last blocks)" using readable_bits(2) [OF l(4)] l(6) by simp
  then have n: "GetReadableBits bs' \<le> GetReadableBits bs'" "GetReadableBits bs' \<le> 80000" using lst k(2) by simp_all
  obtain st where st: "StoreBitArray (drop (m_read_off bs') (m_buf bs')) (GetReadableBits bs') (new_stream (mem_fresh s1) maxPacketSize) = Some st"
    "payload_ok st" "contents st = last blocks"
    using new_part [OF l(4,5) n, of "mem_fresh s1"] l(6) rb by auto
  let ?act = "SetReliabilty (m_reliable src) (setSibPos (of_nat n) ((new_packet (mem_fresh s1) now)\<lparr>m_stream := Some st\<rparr>))"
  let ?s = "snd (alloc ?act s1)"
  have np1: "next_ptr s1 \<noteq> 0" using np l(3) by simp
  have s: "next_ptr ?s = next_ptr s1 + 1" "fst (alloc ?act s1) = next_ptr s1"
    "\<And>a. a < next_ptr s1 \<Longrightarrow> deref ?s a = deref s1 a" "deref ?s (next_ptr s1) = Some ?act"
    "\<And>h n. ?s\<lparr>heap := h, next_ptr := n\<rparr> = s1\<lparr>heap := h, next_ptr := n\<rparr>"
    using np1 by (simp_all add: alloc_def deref_def)
  have put: "packet_StoreBitArray (drop (m_read_off bs') (m_buf bs')) (GetReadableBits bs') (new_packet (mem_fresh s1) now)
      = Some ((new_packet (mem_fresh s1) now)\<lparr>m_stream := Some st\<rparr>)"
    using st(1) by (simp add: packet_StoreBitArray_def on_stream_def new_packet_def)
  have "packetSplit now src k s = Some ([next_ptr s..<next_ptr s + n] @ [next_ptr s1], ?s)"
    unfolding packetSplit_def src(1) Option.bind.bind_lunit l(1) prod.case
    using rd put s(2) by (simp add: Let_def split_beta)
  moreover have "[next_ptr s..<next_ptr s + n] @ [next_ptr s1] = [next_ptr s..<next_ptr s + length blocks]"
    using l(2,3) by (simp flip: l(2))
  moreover have "next_ptr ?s = next_ptr s + length blocks" using s(1) l(2,3) by simp
  moreover have "last blocks = blocks ! n" using l(2) by (metis diff_Suc_1 last_conv_nth length_0_conv nat.simps(3))
  then have "part_at ?s (next_ptr s + n) n (m_reliable src) (blocks ! n)"
    using s(4) st(2,3) l(3) by (simp add: part_at_def SetReliabilty_def setSibPos_def new_packet_def)
  then have "\<forall>j < length blocks. part_at ?s (next_ptr s + j) j (m_reliable src) (blocks ! j)"
    using l(7) s(3) l(3) by (auto simp: less_Suc_eq part_at_def simp flip: l(2))
  moreover have "\<forall>a < next_ptr s. deref ?s a = deref s a" using l(3,8) s(3) by simp
  moreover have "?s = s\<lparr>heap := heap ?s, next_ptr := next_ptr ?s\<rparr>"
  proof -
    have r: "s1\<lparr>heap := h, next_ptr := n\<rparr> = s\<lparr>heap := h, next_ptr := n\<rparr>" for h n
      by (subst l(9)) simp
    have "?s = ?s\<lparr>heap := heap ?s, next_ptr := next_ptr ?s\<rparr>" by simp
    then show ?thesis unfolding s(5) r .
  qed
  ultimately show ?thesis by metis
qed

section \<open>Merging\<close>

lemma StoreBitArray_payload:
  assumes st: "payload_ok st" and s: "stream_ok s" "m_write_bit_off s = 0" "8 \<le> m_size s"
    "1 < m_write_off s \<or> m_write_off s = 0" "m_write_off s \<le> 1000000"
  shows "\<exists>s'. StoreBitArray (drop (m_read_off st) (m_buf st)) (GetReadableBits st) s = Some s' \<and> stream_ok s' \<and>
    contents s' = contents s @ contents st \<and> GetWritePos s' = GetWritePos s + length (contents st) \<and>
    m_size s \<le> m_size s' \<and> GetReadPos s' = GetReadPos s"
proof -
  let ?src = "drop (m_read_off st) (m_buf st)" and ?n = "GetReadableBits st"
  have rok: "reader_ok st" "m_read_bit_off st = 0" "stream_ok st" "GetReadPos st = 0" "GetWritePos st \<le> 80000"
    using st by (auto simp: payload_ok_def stream_ok_reader_ok GetReadPos_def)
  have c: "contents st = take ?n (str_bits ?src)" by (rule contents_bytes [OF rok(1,2)])
  have l: "?n = length (contents st)" by (rule readable_bits(2) [OF rok(1)])
  have n: "?n \<le> 80000" using stream_ok_write_pos [OF rok(3)] rok(4,5) l by simp
  have "?n \<le> 8 * length ?src" using arg_cong [OF c, of length] l by simp
  then have nb: "BITS_TO_BYTES ?n \<le> length ?src" by (rule BITS_TO_BYTES_le)
  have fit: "m_write_off s + BITS_TO_BYTES ?n < 1048576"
    using BITS_TO_BYTES_le [of ?n 10000] n s(5) by simp
  obtain s' where s': "StoreBitArray ?src ?n s = Some s'" "stream_ok s'"
    "contents s' = contents s @ take ?n (str_bits ?src)" "GetWritePos s' = GetWritePos s + ?n" "m_size s \<le> m_size s'"
    using StoreBitArray_appends [OF s(1,2) nb fit s(3)] s(4) by auto
  have c': "contents s' = contents s @ contents st" using s'(3) by (simp only: c [symmetric])
  have "GetReadPos s' = GetReadPos s"
    using stream_ok_write_pos [OF s'(2)] stream_ok_write_pos [OF s(1)] s'(4) l arg_cong [OF c', of length] by simp
  with s' c' l show ?thesis by auto
qed

definition received_part :: "CrudP_Protocol \<Rightarrow> u32 \<Rightarrow> nat \<Rightarrow> ptr \<Rightarrow> nat \<Rightarrow> bool list \<Rightarrow> bool" where
  "received_part s i k a j bs \<longleftrightarrow>
    (\<exists>p st. deref s a = Some p \<and> m_stream p = Some st \<and> payload_ok st \<and> contents st = bs \<and>
      m_sibId p = i \<and> m_sibPos p = of_nat j \<and> m_numSibs p = of_nat k \<and> m_acks p = [])"

definition free_all :: "ptr list \<Rightarrow> CrudP_Protocol \<Rightarrow> CrudP_Protocol" where
  "free_all ps s = s\<lparr>heap := (\<lambda>a. if a \<in> set ps then None else heap s a)\<rparr>"

lemma free_all_Nil [simp]: "free_all [] s = s"
  by (simp add: free_all_def)

lemma deref_free_all: "deref (free_all ps s) a = (if a \<in> set ps then None else deref s a)"
  by (simp add: free_all_def deref_def)

lemma PacketDestroyer_live:
  "deref s a = Some p \<Longrightarrow> PacketDestroyer a s = Some (s\<lparr>heap := (heap s)(a := None)\<rparr>)"
  by (auto simp: deref_def PacketDestroyer_def split: if_splits)

text \<open>Blocks that can be appended one after the other: whole bytes, at least two, except the last.\<close>

fun mergeable :: "bool list list \<Rightarrow> bool" where
  "mergeable [] \<longleftrightarrow> True"
| "mergeable [b] \<longleftrightarrow> True"
| "mergeable (b # bs) \<longleftrightarrow> 16 \<le> length b \<and> 8 dvd length b \<and> mergeable bs"

lemma mergeSiblings_loop_merges:
  assumes "list_all2 (\<lambda>a bs. \<exists>j. received_part s i k a j bs) ps bss" "distinct ps" "mergeable bss"
    "stream_ok acc" "GetReadPos acc = 0" "8 \<le> m_size acc" "8 dvd GetWritePos acc"
    "GetWritePos acc = 0 \<or> 16 \<le> GetWritePos acc"
    "GetWritePos acc + length (concat bss) \<le> 8000000"
  shows "\<exists>acc'. mergeSiblings_loop i ps acc s = Some (acc', free_all ps s) \<and> stream_ok acc' \<and>
    contents acc' = contents acc @ concat bss \<and> GetReadPos acc' = 0"
  using assms
proof (induction bss arbitrary: ps acc s rule: mergeable.induct)
  case 1
  then show ?case by simp
next
  case (2 b)
  then obtain a where ps: "ps = [a]" and r: "\<exists>j. received_part s i k a j b"
    by (auto simp: list_all2_Cons2)
  then obtain p st where p: "deref s a = Some p" "m_stream p = Some st" "payload_ok st" "contents st = b" "m_sibId p = i"
    by (auto simp: received_part_def)
  have w: "m_write_bit_off acc = 0" "1 < m_write_off acc \<or> m_write_off acc = 0" "m_write_off acc \<le> 1000000"
    using "2.prems"(4,7,8,9) by (auto simp: GetWritePos_def stream_ok_def dvd_add_right_iff)
  from StoreBitArray_payload [OF p(3) "2.prems"(4) w(1) "2.prems"(6) w(2,3)] p "2.prems"(5) ps
  show ?case by (auto simp: PacketDestroyer_live free_all_def fun_upd_def)
next
  case (3 b b' bs)
  from "3.prems"(1) obtain a as where ps: "ps = a # as" and r: "\<exists>j. received_part s i k a j b"
    and rs: "list_all2 (\<lambda>a bs. \<exists>j. received_part s i k a j bs) as (b' # bs)"
    unfolding list_all2_Cons2 [of _ ps b "b' # bs"] by blast
  then obtain p st where p: "deref s a = Some p" "m_stream p = Some st" "payload_ok st" "contents st = b" "m_sibId p = i"
    by (auto simp: received_part_def)
  have w: "m_write_bit_off acc = 0" "1 < m_write_off acc \<or> m_write_off acc = 0" "m_write_off acc \<le> 1000000"
    using "3.prems"(4,7,8,9) by (auto simp: GetWritePos_def stream_ok_def dvd_add_right_iff)
  obtain acc1 where acc1: "StoreBitArray (drop (m_read_off st) (m_buf st)) (GetReadableBits st) acc = Some acc1"
    "stream_ok acc1" "contents acc1 = contents acc @ b" "GetWritePos acc1 = GetWritePos acc + length b"
    "m_size acc \<le> m_size acc1" "GetReadPos acc1 = 0"
    using StoreBitArray_payload [OF p(3) "3.prems"(4) w(1) "3.prems"(6) w(2,3)] p(4) "3.prems"(5) by auto
  let ?s = "s\<lparr>heap := (heap s)(a := None)\<rparr>"
  have rs': "list_all2 (\<lambda>a bs. \<exists>j. received_part ?s i k a j bs) as (b' # bs)"
    by (rule list.rel_mono_strong [OF rs])
      (use "3.prems"(2) ps in \<open>auto simp: received_part_def deref_def split: if_splits\<close>)
  obtain acc' where acc': "mergeSiblings_loop i as acc1 ?s = Some (acc', free_all as ?s)" "stream_ok acc'"
    "contents acc' = contents acc1 @ concat (b' # bs)" "GetReadPos acc' = 0"
    using "3.IH" [OF rs', of acc1] "3.prems" acc1 ps by auto
  have "free_all as ?s = free_all ps s"
    by (rule CrudP_Protocol.equality) (auto simp: free_all_def ps)
  with acc' acc1 p ps show ?case by (auto simp: PacketDestroyer_live)
qed

text \<open>Arrival of the parts, in whatever order.\<close>

fun push_all :: "int \<Rightarrow> ptr list \<Rightarrow> CrudP_Protocol \<Rightarrow> CrudP_Protocol option" where
  "push_all now [] s = Some s"
| "push_all now (a # as) s = do { s \<leftarrow> PushRecvPacket now a s; push_all now as s }"

text \<open>The state while the parts \<open>X\<close> of the split packet \<open>ps\<close> have arrived.\<close>

definition slots :: "ptr list \<Rightarrow> ptr set \<Rightarrow> ptr list" where
  "slots ps X = map (\<lambda>p. if p \<in> X then p else 0) ps"

definition waiting :: "CrudP_Protocol \<Rightarrow> u32 \<Rightarrow> ptr list \<Rightarrow> ptr set \<Rightarrow> CrudP_Protocol \<Rightarrow> bool" where
  "waiting s i ps X t \<longleftrightarrow>
    heap t = heap s \<and> next_ptr t = next_ptr s \<and> avail_packets t = avail_packets s \<and>
    map_of (sibling_map t) i = (if X = {} then None else Some (slots ps X))"

lemma length_slots [simp]: "length (slots ps X) = length ps"
  by (simp add: slots_def)

lemma slots_Nil [simp]: "slots ps X = [] \<longleftrightarrow> ps = []"
  by (simp add: slots_def)

lemma slots_insert:
  assumes "distinct ps" "j < length ps"
  shows "(slots ps X)[j := ps ! j] = slots ps (insert (ps ! j) X)"
  by (rule nth_equalityI)
     (use assms in \<open>auto simp: slots_def nth_list_update nth_eq_iff_index_eq\<close>)

lemma slots_empty: "slots ps {} = replicate (length ps) 0"
  by (simp add: slots_def map_replicate_const)

lemma slots_full: "set ps \<subseteq> X \<Longrightarrow> slots ps X = ps"
  unfolding slots_def by (rule map_idI) auto

lemma filter_all_length: "length (filter P xs) = length xs \<longleftrightarrow> (\<forall>x \<in> set xs. P x)"
  by (metis filter_id_conv length_filter_less nat_neq_iff)

lemma map_of_set_sibling_storage:
  "map_of (sibling_map (set_sibling_storage i st s)) = (map_of (sibling_map s))(i \<mapsto> st)"
  by (simp add: set_sibling_storage_def update_conv')

lemma set_sibling_storage_fields [simp]:
  "heap (set_sibling_storage i st s) = heap s" "next_ptr (set_sibling_storage i st s) = next_ptr s"
  "avail_packets (set_sibling_storage i st s) = avail_packets s"
  "deref (set_sibling_storage i st s) a = deref s a"
  by (simp_all add: set_sibling_storage_def deref_def fun_eq_iff)

lemma insert_sibling_waiting:
  assumes w: "waiting s i ps X t" and ps: "distinct ps" "ps \<noteq> []" "length ps < 2 ^ 32" "j < length ps"
    and r: "received_part s i (length ps) (ps ! j) j bs" and new: "ps ! j \<notin> X"
  shows "\<exists>t'. insert_sibling (ps ! j) t = Some (True, t') \<and> waiting s i ps (insert (ps ! j) X) t'"
proof -
  let ?a = "ps ! j"
  have dt: "deref t ?a = deref s ?a" using w by (simp add: waiting_def deref_def)
  obtain p where p': "deref t ?a = Some p" "m_sibId p = i" "m_sibPos p = of_nat j" "m_numSibs p = of_nat (length ps)"
    using r unfolding dt received_part_def by blast
  have p: "deref t ?a = Some p" "m_sibId p = i" "unat (m_sibPos p) = j" "unat (m_numSibs p) = length ps"
    using p' ps(3,4) by (simp_all add: unat_of_nat)
  have st: "(if length (sibling_storage i t) = 0 then replicate (length ps) 0 else sibling_storage i t) = slots ps X"
    using w ps(2) by (auto simp: sibling_storage_def waiting_def slots_empty)
  have free: "slots ps X ! j = 0" using new ps(4) by (simp add: slots_def)
  let ?t = "set_sibling_storage i (slots ps (insert ?a X)) (set_sibling_storage i (slots ps X) t)"
  have "insert_sibling ?a t = Some (True, ?t)"
    unfolding insert_sibling_def p(1) Option.bind.bind_lunit Let_def p(2-4) st
    using free ps(4) slots_insert [OF ps(1,4)] by simp
  moreover have "waiting s i ps (insert ?a X) ?t"
    using w by (simp add: waiting_def map_of_set_sibling_storage)
  ultimately show ?thesis by blast
qed

text \<open>One packet without acknowledgements.\<close>

lemma PushRecvPacket_part:
  assumes w: "waiting s i ps X t" and ps: "distinct ps" "ps \<noteq> []" "length ps < 2 ^ 32" "j < length ps" "0 \<notin> set ps"
    and r: "received_part s i (length ps) (ps ! j) j bs" and new: "ps ! j \<notin> X"
  shows "\<exists>t'. waiting s i ps (insert (ps ! j) X) t' \<and>
    PushRecvPacket now (ps ! j) t =
      (if set ps \<subseteq> insert (ps ! j) X
       then do { (m, s) \<leftarrow> mergeSiblings now i t'; Some (s\<lparr>avail_packets := avail_packets s @ [m]\<rparr>) }
       else Some t')"
proof -
  let ?a = "ps ! j"
  have dt: "deref t ?a = deref s ?a" using w by (simp add: waiting_def deref_def)
  obtain p where p: "deref t ?a = Some p" "m_sibId p = i" "m_numSibs p = of_nat (length ps)" "m_acks p = []"
    using r unfolding dt received_part_def by blast
  have sib: "HasSiblings p"
    using p(3) ps(2,3) of_nat_neq_0 [of "length ps", where 'a = 32] by (simp add: HasSiblings_def word_gt_0)
  let ?t = "t\<lparr>reliable_packets := filter (\<lambda>p. p \<noteq> 0) (reliable_packets t),
      recv_acks := recv_acks t @ [m_seqNo p], m_unacked_count := length (recv_acks t @ [m_seqNo p])\<rparr>"
  have w': "waiting s i ps X ?t" using w by (simp add: waiting_def)
  obtain t' where t': "insert_sibling ?a ?t = Some (True, t')" "waiting s i ps (insert ?a X) t'"
    using insert_sibling_waiting [OF w' ps(1-4) r new] by blast
  have nz: "\<And>x. x \<in> set ps \<Longrightarrow> 0 < x" using ps(5) by (metis gr0I)
  have all: "allSiblingsAvailable i t' \<longleftrightarrow> set ps \<subseteq> insert ?a X"
    using t'(2) nz
    by (auto simp: allSiblingsAvailable_def sibling_storage_def waiting_def filter_all_length slots_def Let_def)
  have "PushRecvPacket now ?a t =
      (if allSiblingsAvailable i t'
       then do { (m, s) \<leftarrow> mergeSiblings now i t'; Some (s\<lparr>avail_packets := avail_packets s @ [m]\<rparr>) }
       else Some t')"
    using t'(1) p sib by (simp add: PushRecvPacket_def getNumAcks_def Let_def)
  then show ?thesis using t'(2) all by auto
qed

lemma mergeSiblings_waiting:
  assumes w: "waiting s i ps X t" "set ps \<subseteq> X" and ps: "distinct ps" "ps \<noteq> []" "\<forall>a \<in> set ps. a < next_ptr s"
    and np: "next_ptr s \<noteq> 0" and X: "X \<noteq> {}"
    and r: "list_all2 (\<lambda>a bs. \<exists>j. received_part s i k a j bs) ps bss"
    and m: "mergeable bss" "length (concat bss) \<le> 8000000"
  shows "\<exists>t' p st. mergeSiblings now i t = Some (next_ptr s, t') \<and> deref t' (next_ptr s) = Some p \<and>
    m_stream p = Some st \<and> stream_ok st \<and> GetReadPos st = 0 \<and> contents st = concat bss \<and>
    map_of (sibling_map t') i = None \<and> avail_packets t' = avail_packets s \<and>
    (\<forall>a \<in> set ps. deref t' a = None)"
proof -
  have st: "map_of (sibling_map t) i = Some ps" and h: "heap t = heap s" "next_ptr t = next_ptr s"
    "avail_packets t = avail_packets s"
    using w X slots_full [OF w(2)] by (simp_all add: waiting_def)
  obtain first where f: "deref t (hd ps) = Some first"
  proof -
    obtain v where "deref s (hd ps) = Some v"
      using r ps(2) by (cases ps; cases bss) (auto simp: received_part_def)
    moreover have "deref t (hd ps) = deref s (hd ps)" using h(1) by (simp add: deref_def)
    ultimately show thesis using that by simp
  qed
  let ?res = "copy_packet now first"
  define T where "T = t\<lparr>heap := (heap t)(next_ptr t \<mapsto> ?res), next_ptr := next_ptr t + 1\<rparr>"
  have al: "alloc ?res t = (next_ptr s, T)" using h by (simp add: alloc_def T_def)
  have d: "deref T a = deref s a" if "a < next_ptr s" for a
    using that h by (simp add: T_def deref_def)
  have dn: "deref T (next_ptr s) = Some ?res" using np h by (simp add: T_def deref_def)
  have r': "list_all2 (\<lambda>a bs. \<exists>j. received_part T i k a j bs) ps bss"
    by (rule list.rel_mono_strong [OF r]) (use ps(3) d in \<open>auto simp: received_part_def\<close>)
  have sz: "0 < (32 :: nat)" "(32 :: nat) < 1000000" by simp_all
  note new = new_stream_ok [OF sz, of "mem_fresh t"]
  have rp: "GetReadPos (new_stream (mem_fresh t) 32) = 0" using stream_ok_write_pos [OF new(1)] new(2,3) by simp
  obtain bs where bs: "mergeSiblings_loop i ps (new_stream (mem_fresh t) 32) T = Some (bs, free_all ps T)" "stream_ok bs"
    "contents bs = concat bss" "GetReadPos bs = 0"
    using mergeSiblings_loop_merges [OF r' ps(1) m(1) new(1) rp] new(2-4) m(2) by auto
  have nin: "next_ptr s \<notin> set ps" using ps(3) by auto
  have df: "deref (free_all ps T) (next_ptr s) = Some ?res" using dn nin by (simp add: deref_free_all)
  let ?r = "assign (next_ptr s) (?res\<lparr>m_stream := Some bs\<rparr>) (free_all ps T)"
  have res: "mergeSiblings now i t = Some (next_ptr s, ?r\<lparr>sibling_map := AList.delete i (sibling_map ?r)\<rparr>)"
    unfolding mergeSiblings_def st Option.bind.bind_lunit f al Let_def prod.case bs(1) df
    using ps(2) by simp
  show ?thesis
    by (rule exI, rule exI, rule exI [of _ bs], rule conjI, rule res)
       (use np nin bs h in \<open>auto simp: deref_def assign_def free_all_def T_def delete_conv'\<close>)
qed

lemma push_all_waiting:
  assumes "waiting s i ps X t" and ps: "distinct ps" "ps \<noteq> []" "length ps < 2 ^ 32" "0 \<notin> set ps"
    "\<forall>a \<in> set ps. a < next_ptr s" "next_ptr s \<noteq> 0"
    and r: "\<forall>j < length ps. received_part s i (length ps) (ps ! j) j (bss ! j)" "length bss = length ps"
    and m: "mergeable bss" "length (concat bss) \<le> 8000000"
    and xs: "xs \<noteq> []" "distinct xs" "set xs \<inter> X = {}" "set xs \<union> X = set ps"
  shows "\<exists>t' p st. push_all now xs t = Some t' \<and>
    avail_packets t' = avail_packets s @ [next_ptr s] \<and> deref t' (next_ptr s) = Some p \<and>
    m_stream p = Some st \<and> stream_ok st \<and> GetReadPos st = 0 \<and> contents st = concat bss \<and>
    map_of (sibling_map t') i = None \<and> (\<forall>a \<in> set ps. deref t' a = None)"
  using assms(1) xs
proof (induction xs arbitrary: X t)
  case Nil
  then show ?case by simp
next
  case (Cons a xs)
  have "a \<in> set ps" using Cons.prems(5) by auto
  then obtain j where j: "j < length ps" "ps ! j = a" by (auto simp: in_set_conv_nth)
  have "ps ! j \<notin> X" using Cons.prems(4) j by auto
  from PushRecvPacket_part [OF Cons.prems(1) ps(1-3) j(1) ps(4) r(1) [rule_format, OF j(1)] this, of now]
  obtain t1 where t1: "waiting s i ps (insert a X) t1" "PushRecvPacket now a t =
      (if set ps \<subseteq> insert a X
       then do { (m, s) \<leftarrow> mergeSiblings now i t1; Some (s\<lparr>avail_packets := avail_packets s @ [m]\<rparr>) }
       else Some t1)"
    using j(2) by auto
  show ?case
  proof (cases "xs = []")
    case True
    then have full: "set ps \<subseteq> insert a X" using Cons.prems(5) by auto
    have ra: "list_all2 (\<lambda>a bs. \<exists>j. received_part s i (length ps) a j bs) ps bss"
      using r by (auto simp: list_all2_conv_all_nth)
    from mergeSiblings_waiting [OF t1(1) full ps(1,2,5,6) _ ra m, of now]
    obtain t' p st where t': "mergeSiblings now i t1 = Some (next_ptr s, t')" "deref t' (next_ptr s) = Some p"
      "m_stream p = Some st" "stream_ok st" "GetReadPos st = 0" "contents st = concat bss"
      "map_of (sibling_map t') i = None" "avail_packets t' = avail_packets s" "\<forall>a \<in> set ps. deref t' a = None"
      by auto
    have "push_all now (a # xs) t = Some (t'\<lparr>avail_packets := avail_packets s @ [next_ptr s]\<rparr>)"
      using t1(2) full t'(1,8) True by simp
    with t' show ?thesis by simp
  next
    case False
    have nf: "\<not> set ps \<subseteq> insert a X"
    proof
      assume "set ps \<subseteq> insert a X"
      moreover obtain x where "x \<in> set xs" using False by (cases xs) auto
      ultimately show False using Cons.prems(3-5) by auto
    qed
    have "set xs \<inter> insert a X = {}" "set xs \<union> insert a X = set ps" "distinct xs"
      using Cons.prems(3-5) by auto
    from Cons.IH [OF t1(1) False this(3,1,2)] show ?thesis using t1(2) nf by simp
  qed
qed

end
