(* ===== verification/Crudp_Properties.thy ===== *)
theory Crudp_Properties
  imports Crudp_Siblings "HOL-Library.Multiset"
begin

unbundle bit_operations_syntax

text \<open>The properties of the reliable UDP protocol, each with a concrete instance.\<close>

section \<open>The wire format\<close>

lemma fold_Set_insert_queued: "fold Set_insert (take 16 (queued_acks s)) [] = take 1 (queued_acks s)"
  by (simp add: fold_Set_insert_distinct queued_acks_def)

lemma length_queued_acks: "length (take 16 (queued_acks s)) < 2 ^ 32"
  by simp

text \<open>C3. What \<open>sendRaw\<close> puts into a datagram, the receiving side takes out of it: when the bytes
  of the datagram arrive unchanged, the checksum matches and the decoded packet has the same
  sequence number, sibling fields, compression flag and payload bits. Of the (at most sixteen)
  acknowledgements that the sender stores and strikes off its list, the receiver keeps only the
  first, because of the comparison its set of acknowledgements has. A packet whose first packed
  number is 1 is excluded: the sender leaves out the compression bit for it.\<close>

theorem packet_survives_the_wire:
  assumes "deref s a = Some p0" "command_of p0 = Some (cmd, p)" "cmd \<noteq> 1"
    "m_stream p = Some ps" "payload_ok ps" "length (recv_acks s) < 2 ^ 32" "next_ptr s \<noteq> 0"
  shows "\<exists>s' w e. sendRaw now a tgt s = Some (tgt @ [next_ptr s], s') \<and>
    deref s' (next_ptr s) = Some w \<and> m_stream w = Some e \<and> stream_ok e \<and> aligned e \<and>
    recv_acks s' = drop 16 (queued_acks s) \<and>
    (\<forall>src fresh t. stream_ok src \<and> aligned src \<and> data src = data e \<longrightarrow>
      (\<exists>res strm. parse_block fresh t True src = Some (Some res) \<and> m_stream res = Some strm \<and>
        contents strm = contents ps \<and> m_seqNo res = m_seqNo p \<and> m_numSibs res = m_numSibs p \<and>
        (HasSiblings p \<longrightarrow> m_sibPos res = m_sibPos p \<and> m_sibId res = m_sibId p) \<and>
        m_compressed res = m_compressed p \<and> m_acks res = take 1 (queued_acks s)))"
proof -
  let ?as = "take 16 (queued_acks s)"
  obtain s' e L body pad tail where e:
    "sendRaw now a tgt s = Some (tgt @ [next_ptr s], s')"
    "deref s' (next_ptr s) = Some ((copy_packet now p)\<lparr>m_stream := Some e\<rparr>)"
    "stream_ok e" "aligned e" "data e = datagram (of_nat L) body" "4 \<le> length body"
    "str_bits body = header_bits p ?as @ pad @ contents ps @ tail"
    "length pad = pad_len (length (header_bits p ?as))"
    "L = 64 + length (header_bits p ?as) + length pad + length (contents ps)"
    "recv_acks s' = drop 16 (queued_acks s)" "length body < 1000000"
    using sendRaw_sends [OF assms] by blast
  have small: "length (contents ps) \<le> 80000"
    using assms(5) stream_ok_write_pos [of ps] by (simp add: payload_ok_def)
  have rcv: "\<exists>res strm. parse_block fresh t True src = Some (Some res) \<and> m_stream res = Some strm \<and>
        contents strm = contents ps \<and> m_seqNo res = m_seqNo p \<and> m_numSibs res = m_numSibs p \<and>
        (HasSiblings p \<longrightarrow> m_sibPos res = m_sibPos p \<and> m_sibId res = m_sibId p) \<and>
        m_compressed res = m_compressed p \<and> m_acks res = take 1 (queued_acks s)"
    if "stream_ok src" "aligned src" "data src = data e" for src fresh t
    using parse_block_decodes [OF that(1,2) _ e(7,6,8,9) length_queued_acks small e(11), of fresh t]
      that(3) e(5) by (auto simp: fold_Set_insert_queued)
  show ?thesis
    by (rule exI [of _ s'], rule exI [of _ "(copy_packet now p)\<lparr>m_stream := Some e\<rparr>"], rule exI [of _ e])
       (use e rcv in simp)
qed

definition example_packet :: CrudP_Packet where
  "example_packet = (new_packet (\<lambda>_. 205) 0)\<lparr>m_seqNo := 5, m_numSibs := 2, m_sibId := 7, m_sibPos := 1\<rparr>"

definition example_state :: CrudP_Protocol where
  "example_state = (new_protocol (\<lambda>_. 205) True)
     \<lparr>heap := (\<lambda>_. None)(1 \<mapsto> example_packet), next_ptr := 2, recv_acks := [9, 3]\<rparr>"

lemma payload_ok_new_stream: "0 < n \<Longrightarrow> n < 1000000 \<Longrightarrow> payload_ok (new_stream f n)"
  using stream_ok_write_pos [of "new_stream f n"] by (simp add: payload_ok_def new_stream_ok)

theorem packet_survives_the_wire_witness:
  "\<exists>s' w e res. sendRaw 3 1 [] example_state = Some ([2], s') \<and> deref s' 2 = Some w \<and> m_stream w = Some e \<and>
    parse_block (\<lambda>_. 0) 4 True e = Some (Some res) \<and> m_seqNo res = 5 \<and> m_sibPos res = 1 \<and> m_sibId res = 7 \<and>
    m_acks res = [3]"
proof -
  have d: "deref example_state 1 = Some example_packet" "next_ptr example_state = 2"
    by (simp_all add: example_state_def deref_def)
  have c: "command_of example_packet = Some (-1, example_packet)"
    by (simp add: command_of_def example_packet_def)
  have st: "m_stream example_packet = Some (new_stream (\<lambda>_. 205) maxPacketSize)"
    by (simp add: example_packet_def new_packet_def)
  have pk: "payload_ok (new_stream (\<lambda>_. 205) maxPacketSize)"
    by (rule payload_ok_new_stream) (simp_all add: maxPacketSize_def)
  have q: "queued_acks example_state = [3, 9]"
    by (simp add: queued_acks_def example_state_def)
  have f: "HasSiblings example_packet" "m_seqNo example_packet = 5" "m_sibPos example_packet = 1" "m_sibId example_packet = 7"
    by (simp_all add: example_packet_def HasSiblings_def)
  have l: "length (recv_acks example_state) < 2 ^ 32" by (simp add: example_state_def)
  obtain s' w e where e: "sendRaw 3 1 [] example_state = Some ([] @ [2], s')" "deref s' 2 = Some w"
    "m_stream w = Some e" "stream_ok e" "aligned e"
    and r: "\<forall>src fresh t. stream_ok src \<and> aligned src \<and> data src = data e \<longrightarrow>
      (\<exists>res strm. parse_block fresh t True src = Some (Some res) \<and> m_stream res = Some strm \<and>
        contents strm = contents (new_stream (\<lambda>_. 205) maxPacketSize) \<and> m_seqNo res = m_seqNo example_packet \<and>
        m_numSibs res = m_numSibs example_packet \<and>
        (HasSiblings example_packet \<longrightarrow> m_sibPos res = m_sibPos example_packet \<and> m_sibId res = m_sibId example_packet) \<and>
        m_compressed res = m_compressed example_packet \<and> m_acks res = take 1 (queued_acks example_state))"
    using packet_survives_the_wire [OF d(1) c _ st pk l, of 3 "[]"] d(2) by auto
  from r [rule_format, of e "\<lambda>_. 0" 4] e(4,5) f q obtain res where
    "parse_block (\<lambda>_. 0) 4 True e = Some (Some res)" "m_seqNo res = 5" "m_sibPos res = 1" "m_sibId res = 7"
    "m_acks res = [3]" by auto
  with e show ?thesis by auto
qed

section \<open>Large packets\<close>

text \<open>C22. \<open>packetSplit\<close> cuts a large payload into consecutive new packets, numbered from 0, that
  together carry exactly the payload's bits; every part but the last holds a full block of
  bytes, the last one holds at least a byte and at most a block and a partial byte.\<close>

theorem packetSplit_partitions:
  assumes "m_stream src = Some bs" "payload_ok bs" "8 \<le> length (contents bs)" "next_ptr s \<noteq> 0"
  shows "\<exists>s' blocks. packetSplit now src max_packet_data_size s =
      Some ([next_ptr s..<next_ptr s + length blocks], s') \<and>
    concat blocks = contents bs \<and>
    (\<forall>j < length blocks. part_at s' (next_ptr s + j) j (m_reliable src) (blocks ! j)) \<and>
    (\<forall>b \<in> set (butlast blocks). length b = 8 * max_packet_data_size) \<and>
    8 \<le> length (last blocks) \<and> length (last blocks) < 8 * max_packet_data_size + 8 \<and>
    (\<forall>a < next_ptr s. deref s' a = deref s a)"
proof -
  let ?k = max_packet_data_size
  have k: "0 < ?k" "?k \<le> 9000" by (simp_all add: max_packet_data_size_def)
  have rok: "reader_ok bs" "m_read_bit_off bs = 0"
    using assms(2) by (auto simp: payload_ok_def stream_ok_reader_ok GetReadPos_def)
  obtain s' where "packetSplit now src ?k s = Some ([next_ptr s..<next_ptr s + length (blocks_of ?k (contents bs))], s')"
    "\<forall>j < length (blocks_of ?k (contents bs)). part_at s' (next_ptr s + j) j (m_reliable src) (blocks_of ?k (contents bs) ! j)"
    "\<forall>a < next_ptr s. deref s' a = deref s a"
    using packetSplit_splits [OF assms(1) rok k assms(3,4), of now] by blast
  with concat_blocks_of [of ?k "contents bs"] blocks_of_sizes [OF k(1), of _ "contents bs"]
    blocks_of_last [OF k(1) assms(3)]
  show ?thesis by (intro exI [of _ s'] exI [of _ "blocks_of ?k (contents bs)"]) auto
qed

lemma small_payload:
  assumes "0 < n" "n \<le> 32"
  obtains st where "StoreBits n d (new_stream (\<lambda>_. 205) 16) = Some st" "payload_ok st" "contents st = bits_of n d"
proof -
  obtain st where st: "StoreBits n d (new_stream (\<lambda>_. 205) 16) = Some st" "stream_ok st" "contents st = bits_of n d"
    "GetWritePos st = n"
    using StoreBits_appends [of "new_stream (\<lambda>_. 205) 16" n d] assms by (auto simp: new_stream_ok max_pos_def)
  moreover have "GetReadPos st = 0" using stream_ok_write_pos [OF st(2)] st(3,4) by simp
  ultimately show thesis using assms that [of st] by (simp add: payload_ok_def)
qed

theorem packetSplit_partitions_witness:
  "\<exists>st s' blocks. StoreBits 20 77 (new_stream (\<lambda>_. 205) 16) = Some st \<and>
    packetSplit 3 (packet_of_stream 0 (Some st)) max_packet_data_size (new_protocol (\<lambda>_. 205) True) =
      Some ([1..<1 + length blocks], s') \<and> concat blocks = bits_of 20 (77 :: u32)"
proof -
  obtain st where st: "StoreBits 20 77 (new_stream (\<lambda>_. 205) 16) = Some st" "payload_ok st" "contents st = bits_of 20 (77 :: u32)"
    by (rule small_payload [of 20 77]) auto
  have m: "m_stream (packet_of_stream 0 (Some st)) = Some st" by (simp add: packet_of_stream_def)
  have np: "next_ptr (new_protocol (\<lambda>_. 205) True) = 1" by (simp add: new_protocol_def)
  have l: "8 \<le> length (contents st)" using st(3) by simp
  have z: "next_ptr (new_protocol (\<lambda>_. 205) True) \<noteq> 0" using np by simp
  from packetSplit_partitions [OF m st(2) l z, of 3] st(1) show ?thesis
    unfolding np st(3) by blast
qed

text \<open>C7. The parts of a split packet may arrive in any order: once the last one is in, exactly one
  packet is made available, its payload is the concatenation of the parts in sibling order, and
  the parts and their storage are released.\<close>

theorem siblings_merge_in_any_order:
  assumes "map_of (sibling_map s) i = None" "distinct ps" "ps \<noteq> []" "length ps < 2 ^ 32" "0 \<notin> set ps"
    "\<forall>a \<in> set ps. a < next_ptr s" "next_ptr s \<noteq> 0"
    "\<forall>j < length ps. received_part s i (length ps) (ps ! j) j (bss ! j)" "length bss = length ps"
    "mergeable bss" "length (concat bss) \<le> 8000000"
    "distinct xs" "set xs = set ps"
  shows "\<exists>s' m p st. push_all now xs s = Some s' \<and> avail_packets s' = avail_packets s @ [m] \<and>
    deref s' m = Some p \<and> m_stream p = Some st \<and> contents st = concat bss \<and>
    map_of (sibling_map s') i = None \<and> (\<forall>a \<in> set ps. deref s' a = None)"
proof -
  have w: "waiting s i ps {} s" using assms(1) by (simp add: waiting_def)
  have xs: "xs \<noteq> []" "distinct xs" "set xs \<inter> {} = {}" "set xs \<union> {} = set ps"
    using assms(3,12,13) by auto
  from push_all_waiting [OF w assms(2-11) xs, of now] show ?thesis by blast
qed

definition example_part :: "nat \<Rightarrow> bitstream \<Rightarrow> CrudP_Packet" where
  "example_part j st = (packet_of_stream 0 (Some st))\<lparr>m_seqNo := of_nat (j + 4), m_numSibs := 2, m_sibId := 9, m_sibPos := of_nat j\<rparr>"

definition example_parts :: "bitstream \<Rightarrow> bitstream \<Rightarrow> CrudP_Protocol" where
  "example_parts st0 st1 = (new_protocol (\<lambda>_. 205) True)
     \<lparr>heap := (\<lambda>_. None)(1 \<mapsto> example_part 0 st0, 2 \<mapsto> example_part 1 st1), next_ptr := 3\<rparr>"

theorem siblings_merge_in_any_order_witness:
  "\<exists>st0 st1 s' m p st. StoreBits 16 5 (new_stream (\<lambda>_. 205) 16) = Some st0 \<and>
    StoreBits 3 6 (new_stream (\<lambda>_. 205) 16) = Some st1 \<and>
    push_all 8 [2, 1] (example_parts st0 st1) = Some s' \<and> avail_packets s' = [m] \<and> deref s' m = Some p \<and>
    m_stream p = Some st \<and> contents st = bits_of 16 (5 :: u32) @ bits_of 3 (6 :: u32)"
proof -
  obtain st0 where st0: "StoreBits 16 5 (new_stream (\<lambda>_. 205) 16) = Some st0" "payload_ok st0" "contents st0 = bits_of 16 (5 :: u32)"
    by (rule small_payload [of 16 5]) auto
  obtain st1 where st1: "StoreBits 3 6 (new_stream (\<lambda>_. 205) 16) = Some st1" "payload_ok st1" "contents st1 = bits_of 3 (6 :: u32)"
    by (rule small_payload [of 3 6]) auto
  let ?s = "example_parts st0 st1" and ?bss = "[bits_of 16 (5 :: u32), bits_of 3 (6 :: u32)]"
  have s: "map_of (sibling_map ?s) 9 = None" "next_ptr ?s = 3" "avail_packets ?s = []"
    "deref ?s 1 = Some (example_part 0 st0)" "deref ?s 2 = Some (example_part 1 st1)"
    by (simp_all add: example_parts_def new_protocol_def deref_def)
  have "received_part ?s 9 2 1 0 (bits_of 16 (5 :: u32))" "received_part ?s 9 2 2 1 (bits_of 3 (6 :: u32))"
    unfolding received_part_def s(4,5) using st0(2,3) st1(2,3)
    by (simp_all add: example_part_def packet_of_stream_def)
  then have r: "\<forall>j < length [1, 2]. received_part ?s 9 (length [1, 2]) ([1, 2] ! j) j (?bss ! j)"
    by (auto simp: less_Suc_eq numeral_2_eq_2)
  have "\<exists>s' m p st. push_all 8 [2, 1] ?s = Some s' \<and> avail_packets s' = avail_packets ?s @ [m] \<and>
    deref s' m = Some p \<and> m_stream p = Some st \<and> contents st = concat ?bss \<and>
    map_of (sibling_map s') 9 = None \<and> (\<forall>a \<in> set [1, 2]. deref s' a = None)"
    by (rule siblings_merge_in_any_order [OF s(1) _ _ _ _ _ _ r]) (auto simp: s(2))
  with s(3) st0(1) st1(1) show ?thesis by fastforce
qed

section \<open>Delivery\<close>

definition seq_of :: "CrudP_Protocol \<Rightarrow> ptr \<Rightarrow> u32" where
  "seq_of s a = m_seqNo (the (deref s a))"

text \<open>Every available packet is live and newer than the last one delivered.\<close>

definition avail_ok :: "CrudP_Protocol \<Rightarrow> bool" where
  "avail_ok s \<longleftrightarrow> (\<forall>a \<in> set (avail_packets s). deref s a \<noteq> None \<and> recv_seq s < seq_of s a)"

lemma sort_avail_first:
  assumes "avail_ok s" "avail_packets s \<noteq> []"
  obtains a rest where "sort_avail s = Some (s\<lparr>avail_packets := a # rest\<rparr>)"
    "mset (avail_packets s) = mset (a # rest)" "a \<in> set (avail_packets s)"
    "\<forall>b \<in> set (avail_packets s). seq_of s a \<le> seq_of s b"
proof -
  let ?l = "sort_key (seq_of s) (avail_packets s)"
  have s: "sort_avail s = Some (s\<lparr>avail_packets := ?l\<rparr>)"
    using assms(1) by (simp add: sort_avail_def avail_ok_def seq_of_def [abs_def])
  obtain a rest where l: "?l = a # rest"
    using assms(2) by (cases ?l) (metis length_0_conv length_sort, blast)
  have m: "mset (a # rest) = mset (avail_packets s)" by (metis l mset_sort)
  have st: "set (a # rest) = set (avail_packets s)" by (metis l set_sort)
  have "sorted (map (seq_of s) (a # rest))" by (metis l sorted_sort_key)
  then have "\<forall>b \<in> set (a # rest). seq_of s a \<le> seq_of s b" by auto
  with st have "\<forall>b \<in> set (avail_packets s). seq_of s a \<le> seq_of s b" by simp
  with that [of a rest] s l m st show thesis by auto
qed

lemma drop_duplicates_none:
  "deref s a = Some v \<Longrightarrow> recv_seq s < m_seqNo v \<Longrightarrow>
   drop_duplicates avail a s = Some (a, s\<lparr>avail_packets := avail\<rparr>)"
  by (subst drop_duplicates.simps) (simp add: linorder_not_le [symmetric])

lemma RecvPacket_cases:
  assumes "avail_ok s" "avail_packets s \<noteq> []"
  obtains a rest v where "mset (avail_packets s) = mset (a # rest)" "a \<in> set (avail_packets s)"
    "\<forall>b \<in> set (avail_packets s). seq_of s a \<le> seq_of s b" "deref s a = Some v"
    "RecvPacket s =
      (if m_seqNo v \<noteq> recv_seq s + 1 then Some (0, s\<lparr>avail_packets := rest\<rparr>)
       else Some (a, s\<lparr>avail_packets := rest, recv_seq := recv_seq s + (if m_numSibs v > 0 then m_numSibs v else 1)\<rparr>))"
proof -
  from sort_avail_first [OF assms] obtain a rest where
    a: "sort_avail s = Some (s\<lparr>avail_packets := a # rest\<rparr>)" "mset (avail_packets s) = mset (a # rest)"
    "a \<in> set (avail_packets s)" "\<forall>b \<in> set (avail_packets s). seq_of s a \<le> seq_of s b" .
  obtain v where v: "deref s a = Some v" "recv_seq s < m_seqNo v"
    using assms(1) a(3) by (auto simp: avail_ok_def seq_of_def)
  have nz: "a \<noteq> 0" using v(1) by (simp add: deref_def split: if_splits)
  have "drop_duplicates rest a (s\<lparr>avail_packets := a # rest\<rparr>) = Some (a, s\<lparr>avail_packets := rest\<rparr>)"
    using drop_duplicates_none [of "s\<lparr>avail_packets := a # rest\<rparr>" a v rest] v by simp
  then have "RecvPacket s =
      (if m_seqNo v \<noteq> recv_seq s + 1 then Some (0, s\<lparr>avail_packets := rest\<rparr>)
       else Some (a, s\<lparr>avail_packets := rest, recv_seq := recv_seq s + (if m_numSibs v > 0 then m_numSibs v else 1)\<rparr>))"
    using assms(2) a(1) v(1) nz by (simp add: RecvPacket_def)
  with that a(2-4) v(1) show thesis by blast
qed

lemma word_less_Suc_le: "a < b \<Longrightarrow> a + 1 \<le> b" for a b :: "'a::len word"
  by (metis inc_le)

text \<open>When the packet that is next in sequence is among the available ones, and nothing older is,
  \<open>RecvPacket\<close> delivers it, takes only it off the queue, and moves the sequence number past it,
  or past all parts of it when it was a split packet.\<close>

theorem RecvPacket_in_sequence:
  assumes "avail_ok s" "b \<in> set (avail_packets s)" "seq_of s b = recv_seq s + 1"
  shows "\<exists>a v s'. RecvPacket s = Some (a, s') \<and> deref s a = Some v \<and> m_seqNo v = recv_seq s + 1 \<and>
    mset (avail_packets s) = add_mset a (mset (avail_packets s')) \<and> heap s' = heap s \<and>
    recv_seq s' = recv_seq s + (if m_numSibs v > 0 then m_numSibs v else 1)"
proof -
  have ne: "avail_packets s \<noteq> []" using assms(2) by auto
  from RecvPacket_cases [OF assms(1) ne] obtain a rest v where
    a: "mset (avail_packets s) = mset (a # rest)" "a \<in> set (avail_packets s)"
    "\<forall>b \<in> set (avail_packets s). seq_of s a \<le> seq_of s b" "deref s a = Some v"
    and r: "RecvPacket s =
      (if m_seqNo v \<noteq> recv_seq s + 1 then Some (0, s\<lparr>avail_packets := rest\<rparr>)
       else Some (a, s\<lparr>avail_packets := rest, recv_seq := recv_seq s + (if m_numSibs v > 0 then m_numSibs v else 1)\<rparr>))" .
  have "seq_of s a \<le> recv_seq s + 1" using a(3) assms(2,3) by auto
  moreover have "recv_seq s + 1 \<le> seq_of s a"
    using assms(1) a(2) by (auto simp: avail_ok_def intro: word_less_Suc_le)
  ultimately have "m_seqNo v = recv_seq s + 1" using a(4) by (simp add: seq_of_def)
  with r a(1,4) show ?thesis by auto
qed

text \<open>When the available packets are all ahead of the sequence, the oldest of them is taken off the
  queue although nothing is delivered: nothing refers to it afterwards, it is neither freed nor
  ever delivered, and its sequence number has been acknowledged to the sender.\<close>

theorem RecvPacket_loses_early_packet:
  assumes "avail_ok s" "avail_packets s \<noteq> []" "\<forall>a \<in> set (avail_packets s). seq_of s a \<noteq> recv_seq s + 1"
  shows "\<exists>a s'. RecvPacket s = Some (0, s') \<and> a \<in> set (avail_packets s) \<and>
    mset (avail_packets s) = add_mset a (mset (avail_packets s')) \<and> heap s' = heap s \<and> recv_seq s' = recv_seq s"
proof -
  from RecvPacket_cases [OF assms(1,2)] obtain a rest v where
    a: "mset (avail_packets s) = mset (a # rest)" "a \<in> set (avail_packets s)" "deref s a = Some v"
    and r: "RecvPacket s =
      (if m_seqNo v \<noteq> recv_seq s + 1 then Some (0, s\<lparr>avail_packets := rest\<rparr>)
       else Some (a, s\<lparr>avail_packets := rest, recv_seq := recv_seq s + (if m_numSibs v > 0 then m_numSibs v else 1)\<rparr>))" .
  have "m_seqNo v \<noteq> recv_seq s + 1" using assms(3) a(2,3) by (auto simp: seq_of_def)
  with r a(1,2) show ?thesis by (intro exI [of _ a] exI [of _ "s\<lparr>avail_packets := rest\<rparr>"]) simp
qed

definition example_queue :: "u32 list \<Rightarrow> CrudP_Protocol" where
  "example_queue seqs = (new_protocol (\<lambda>_. 205) True)
     \<lparr>heap := map_of (zip [1..<1 + length seqs] (map (\<lambda>n. example_packet\<lparr>m_seqNo := n, m_numSibs := 0\<rparr>) seqs)),
      next_ptr := 1 + length seqs, avail_packets := [1..<1 + length seqs], recv_seq := 4\<rparr>"

theorem RecvPacket_in_sequence_witness:
  "\<exists>a s'. RecvPacket (example_queue [7, 5, 6]) = Some (a, s') \<and> recv_seq s' = 5 \<and> length (avail_packets s') = 2"
proof -
  let ?s = "example_queue [7, 5, 6]"
  have d: "avail_packets ?s = [1, 2, 3]" "recv_seq ?s = 4" "deref ?s 1 = Some (example_packet\<lparr>m_seqNo := 7, m_numSibs := 0\<rparr>)"
    "deref ?s 2 = Some (example_packet\<lparr>m_seqNo := 5, m_numSibs := 0\<rparr>)" "deref ?s 3 = Some (example_packet\<lparr>m_seqNo := 6, m_numSibs := 0\<rparr>)"
    by (simp_all add: example_queue_def deref_def upt_rec)
  have ok: "avail_ok ?s" "2 \<in> set (avail_packets ?s)" "seq_of ?s 2 = recv_seq ?s + 1"
    unfolding avail_ok_def seq_of_def by (simp_all add: d del: One_nat_def)
  from RecvPacket_in_sequence [OF ok] obtain a v s' where r: "RecvPacket ?s = Some (a, s')" "deref ?s a = Some v"
    "mset (avail_packets ?s) = add_mset a (mset (avail_packets s'))"
    "recv_seq s' = recv_seq ?s + (if m_numSibs v > 0 then m_numSibs v else 1)" by blast
  have "size (mset (avail_packets ?s)) = Suc (length (avail_packets s'))" unfolding r(3) by simp
  then have l: "length (avail_packets s') = 2" by (simp add: d(1))
  have "a \<in> set (avail_packets ?s)" unfolding set_mset_mset [symmetric] r(3) by simp
  then have "m_numSibs v = 0" using r(2) d by (auto simp del: One_nat_def)
  with r l d(2) show ?thesis by auto
qed

theorem RecvPacket_loses_early_packet_witness:
  "\<exists>s'. RecvPacket (example_queue [7]) = Some (0, s') \<and> avail_packets s' = [] \<and> heap s' 1 \<noteq> None"
proof -
  let ?s = "example_queue [7]"
  have d: "avail_packets ?s = [1]" "recv_seq ?s = 4" "deref ?s 1 = Some (example_packet\<lparr>m_seqNo := 7, m_numSibs := 0\<rparr>)"
    by (simp_all add: example_queue_def deref_def)
  have ok: "avail_ok ?s" "avail_packets ?s \<noteq> []" "\<forall>a \<in> set (avail_packets ?s). seq_of ?s a \<noteq> recv_seq ?s + 1"
    unfolding avail_ok_def seq_of_def by (simp_all add: d del: One_nat_def)
  from RecvPacket_loses_early_packet [OF ok] obtain a s' where r: "RecvPacket ?s = Some (0, s')"
    "mset (avail_packets ?s) = add_mset a (mset (avail_packets s'))" "heap s' = heap ?s" by blast
  have "heap s' 1 \<noteq> None" using r(3) d(3) by (simp add: deref_def)
  moreover have "size (mset (avail_packets ?s)) = Suc (length (avail_packets s'))" unfolding r(2) by simp
  ultimately show ?thesis using r(1) d(1) by simp
qed

text \<open>When an already delivered packet is found in front of exactly one other available packet,
  removing the duplicate takes the other one off the queue as well and then looks at the front of
  an empty queue: the next packet cannot be delivered.\<close>

theorem RecvPacket_duplicate_underflow:
  assumes "avail_packets s = [a, b]" "deref s a = Some v" "deref s b = Some w"
    "m_seqNo v \<le> recv_seq s" "recv_seq s < m_seqNo w"
  shows "RecvPacket s = None"
proof -
  have lt: "m_seqNo v < m_seqNo w" using assms(4,5) by (rule le_less_trans)
  then have "sort_key (\<lambda>p. m_seqNo (the (deref s p))) [a, b] = [a, b]"
    using assms(2,3) by (simp add: less_imp_le)
  then have s: "sort_avail s = Some s"
    using assms(1-3) by (simp add: sort_avail_def)
  have nz: "PacketDestroyer a s = Some (s\<lparr>heap := (heap s)(a := None)\<rparr>)"
    using assms(2) by (rule PacketDestroyer_live)
  have "drop_duplicates [b] a s = None"
    using assms(2,4) nz by (subst drop_duplicates.simps) simp
  with assms(1) s show ?thesis by (simp add: RecvPacket_def)
qed

theorem RecvPacket_duplicate_underflow_witness: "RecvPacket (example_queue [4, 5]) = None"
proof -
  let ?s = "example_queue [4, 5]"
  have d: "avail_packets ?s = [1, 2]" "recv_seq ?s = 4" "deref ?s 1 = Some (example_packet\<lparr>m_seqNo := 4, m_numSibs := 0\<rparr>)"
    "deref ?s 2 = Some (example_packet\<lparr>m_seqNo := 5, m_numSibs := 0\<rparr>)"
    by (simp_all add: example_queue_def deref_def upt_rec)
  show ?thesis by (rule RecvPacket_duplicate_underflow [OF d(1,3,4)]) (simp_all add: d(2))
qed

section \<open>Acknowledgement and retransmission\<close>

text \<open>C24. An acknowledgement releases exactly the first reliable packet with that sequence number: it
  is freed, its slot is cleared and it is no longer due for retransmission; all other packets stay
  as they are. An acknowledgement of something else changes nothing.\<close>

theorem PacketAck_releases:
  assumes "\<forall>a \<in> set (reliable_packets s). a \<noteq> 0 \<longrightarrow> deref s a \<noteq> None" "distinct (filter (\<lambda>a. a \<noteq> 0) (reliable_packets s))"
  shows "PacketAck ack s = Some
    (case find (\<lambda>a. a \<noteq> 0 \<and> seq_of s a = ack) (reliable_packets s) of
       None \<Rightarrow> s
     | Some a \<Rightarrow> s\<lparr>heap := (heap s)(a := None), retransmit_queue := remove1 a (retransmit_queue s),
         reliable_packets := map (\<lambda>b. if b = a then 0 else b) (reliable_packets s)\<rparr>)"
proof -
  have "PacketAck_loop ack front l s = Some
    (case find (\<lambda>a. a \<noteq> 0 \<and> seq_of s a = ack) l of
       None \<Rightarrow> s
     | Some a \<Rightarrow> s\<lparr>heap := (heap s)(a := None), retransmit_queue := remove1 a (retransmit_queue s),
         reliable_packets := front @ map (\<lambda>b. if b = a then 0 else b) l\<rparr>)"
    if "\<forall>a \<in> set l. a \<noteq> 0 \<longrightarrow> deref s a \<noteq> None" "distinct (filter (\<lambda>a. a \<noteq> 0) l)" for front l
    using that
  proof (induction l arbitrary: front)
    case Nil
    then show ?case by simp
  next
    case (Cons a l)
    show ?case
    proof (cases "a \<noteq> 0 \<and> seq_of s a = ack")
      case False
      have ih: "PacketAck_loop ack (front @ [a]) l s = Some
        (case find (\<lambda>a. a \<noteq> 0 \<and> seq_of s a = ack) l of
           None \<Rightarrow> s
         | Some b \<Rightarrow> s\<lparr>heap := (heap s)(b := None), retransmit_queue := remove1 b (retransmit_queue s),
             reliable_packets := (front @ [a]) @ map (\<lambda>c. if c = b then 0 else c) l\<rparr>)"
        by (rule Cons.IH) (use Cons.prems in \<open>auto split: if_splits\<close>)
      have ne: "b \<noteq> a" if "find (\<lambda>a. a \<noteq> 0 \<and> seq_of s a = ack) l = Some b" for b
        using that False by (auto simp: find_Some_iff)
      have "PacketAck_loop ack front (a # l) s = PacketAck_loop ack (front @ [a]) l s"
        using False Cons.prems(1) by (auto simp: seq_of_def)
      with ih ne False show ?thesis by (auto split: option.splits)
    next
      case True
      then obtain v where v: "deref s a = Some v" "m_seqNo v = ack"
        using Cons.prems(1) by (auto simp: seq_of_def)
      have "a \<notin> set l" using Cons.prems(2) True by auto
      then have "map (\<lambda>b. if b = a then 0 else b) l = l" by (intro map_idI) auto
      moreover have "deref (s\<lparr>retransmit_queue := remove1 a (retransmit_queue s)\<rparr>) a = Some v" using v(1) by simp
      note PacketDestroyer_live [OF this]
      ultimately show ?thesis using True v by simp
    qed
  qed
  from this [OF assms, of "[]"] show ?thesis unfolding PacketAck_def append_Nil .
qed

theorem PacketAck_releases_witness:
  "PacketAck 5 ((example_queue [7, 5, 6])\<lparr>reliable_packets := [2, 3], retransmit_queue := [2]\<rparr>) =
    Some ((example_queue [7, 5, 6])\<lparr>reliable_packets := [0, 3], retransmit_queue := [],
      heap := (heap (example_queue [7, 5, 6]))(2 := None)\<rparr>)"
proof -
  let ?s = "example_queue [7, 5, 6]"
  have d: "deref ?s 2 = Some (example_packet\<lparr>m_seqNo := 5, m_numSibs := 0\<rparr>)"
    "deref ?s 3 = Some (example_packet\<lparr>m_seqNo := 6, m_numSibs := 0\<rparr>)"
    by (simp_all add: example_queue_def deref_def upt_rec)
  show ?thesis
    by (subst PacketAck_releases) (simp_all add: d seq_of_def)
qed

text \<open>The delay before a packet is sent again is always between 250 and 5000 milliseconds, and
  every further attempt waits at most as long as the one before.\<close>

theorem getPacketResendDelay_bounds:
  "250 \<le> getPacketResendDelay attempts ping first \<and> getPacketResendDelay attempts ping first \<le> 5000 \<and>
   (0 \<le> attempts \<longrightarrow> 0 \<le> ping \<longrightarrow>
    getPacketResendDelay (attempts + 1) ping first \<le> getPacketResendDelay attempts ping first)"
proof -
  have b: "250 \<le> getPacketResendDelay attempts ping first" "getPacketResendDelay attempts ping first \<le> 5000"
    by (auto simp: getPacketResendDelay_def Let_def)
  have "getPacketResendDelay (attempts + 1) ping first \<le> getPacketResendDelay attempts ping first"
    if "0 \<le> attempts" "0 \<le> ping"
  proof -
    have "0 \<le> tdiv (3 * ping) 2" using that by (simp add: tdiv_def sgn_if)
    moreover have "attempts = 0 \<or> attempts = 1 \<or> 2 \<le> attempts" using that by linarith
    ultimately show ?thesis using that
      by (elim disjE) (auto simp: getPacketResendDelay_def Let_def min_def max_def)
  qed
  with b show ?thesis by blast
qed

theorem getPacketResendDelay_bounds_witness:
  "getPacketResendDelay 1 50 False \<le> getPacketResendDelay 0 50 False"
  using getPacketResendDelay_bounds [of 0 50 False] by simp

end
