(* ===== verification/Crudp_Link.thy ===== *)
theory Crudp_Link
  imports Crudp_Properties
begin

text \<open>
  The link between the protocol engine and the event queues: class \<open>CRUDLink\<close> of
  \<open>Common/CRUDP_Protocol/CRUD_Link.h\<close> and \<open>CRUD_Link.cpp\<close>, and the events that every link
  knows, \<open>CRUD_Events.h\<close> and \<open>CRUD_Events.cpp\<close>.

  A link works with the events of the service it belongs to, through the virtual functions of the
  event class and of the event factory. These are the argument \<open>c\<close>, a record of functions. The
  target and the network layer only receive events: what they have received is part of the state.
  The packets of \<open>Packet\<close> events stay on the heap of the protocol engine; the event owns them.
\<close>

section \<open>Events of every link\<close>

datatype crud_event =
    ConnectRequest u32 u32
  | ConnectResponse
  | DisconnectRequest
  | DisconnectResponse
  | Idle
  | UnknownEvent

definition two_packed :: "u32 \<Rightarrow> u32 \<Rightarrow> bitstream \<Rightarrow> bitstream option" where
  "two_packed a b bs = do { bs \<leftarrow> StorePackedBits 1 a bs; StorePackedBits 1 b bs }"

fun crud_serializeto :: "crud_event \<Rightarrow> bitstream \<Rightarrow> bitstream option" where
  "crud_serializeto (ConnectRequest m_tickcount m_version) tgt =
    do { tgt \<leftarrow> StorePackedBits 1 1 tgt;
         tgt \<leftarrow> StorePackedBits 1 m_tickcount tgt;
         StorePackedBits 1 m_version tgt }"
| "crud_serializeto ConnectResponse tgt = two_packed 0 4 tgt"
| "crud_serializeto DisconnectRequest tgt = two_packed 0 5 tgt"
| "crud_serializeto DisconnectResponse tgt = two_packed 0 6 tgt"
| "crud_serializeto Idle tgt = two_packed 0 0 tgt"
| "crud_serializeto UnknownEvent tgt = Some tgt"

definition skip_two_packed :: "crud_event \<Rightarrow> bitstream \<Rightarrow> (crud_event \<times> bitstream) option" where
  "skip_two_packed ev bs =
    do { (_, bs) \<leftarrow> GetPackedBits 1 bs;
         (_, bs) \<leftarrow> GetPackedBits 1 bs;
         Some (ev, bs) }"

fun crud_serializefrom :: "crud_event \<Rightarrow> bitstream \<Rightarrow> (crud_event \<times> bitstream) option" where
  "crud_serializefrom (ConnectRequest _ _) src =
    do { (m_tickcount, src) \<leftarrow> GetPackedBits 1 src;
         (m_version, src) \<leftarrow> GetPackedBits 1 src;
         Some (ConnectRequest m_tickcount m_version, src) }"
| "crud_serializefrom ConnectResponse src = Some (ConnectResponse, src)"
| "crud_serializefrom DisconnectRequest src = skip_two_packed DisconnectRequest src"
| "crud_serializefrom DisconnectResponse src = skip_two_packed DisconnectResponse src"
| "crud_serializefrom Idle src = skip_two_packed Idle src"
| "crud_serializefrom UnknownEvent src = Some (UnknownEvent, src)"

text \<open>\<open>CRUD_EventFactory::EventFromStream\<close>; the null pointer is the inner \<open>None\<close>.\<close>

definition crud_EventFromStream :: "bitstream \<Rightarrow> (crud_event option \<times> bitstream) option" where
  "crud_EventFromStream bs =
    do { (opcode, bs) \<leftarrow> GetPackedBits 1 bs;
         if opcode \<noteq> 0 then Some (None, bs)
         else do {
           (control_opcode, bs) \<leftarrow> (if GetReadableBits bs = 0 then Some (0, bs) else GetPackedBits 1 bs);
           Some (if control_opcode = 0 then Some Idle
                 else if control_opcode = 5 then Some DisconnectRequest
                 else None, bs) } }"

section \<open>State of a link\<close>

type_synonym inet_addr = "u32 \<times> u16"

record 'ev event_class =
  EventFromStream :: "bitstream \<Rightarrow> ('ev option \<times> bitstream) option"
  serializefrom :: "'ev \<Rightarrow> bitstream \<Rightarrow> ('ev \<times> bitstream) option"
  serializeto :: "'ev \<Rightarrow> bitstream \<Rightarrow> bitstream option"
  is_reliable :: "'ev \<Rightarrow> bool"

definition crud_class :: "crud_event event_class" where
  "crud_class = \<lparr>EventFromStream = crud_EventFromStream, serializefrom = crud_serializefrom,
     serializeto = crud_serializeto, is_reliable = (\<lambda>_. True)\<rparr>"

datatype 'ev link_msg =
    FinishMsg
  | ConnectMsg inet_addr
  | DisconnectMsg
  | PacketMsg ptr
  | EventMsg 'ev

datatype 'ev target_msg =
    LinkDisconnect
  | LinkEvent 'ev u32

record 'ev crud_link =
  m_protocol :: CrudP_Protocol
  m_peer_addr :: inet_addr
  m_last_recv_activity :: int
  m_last_send_activity :: int
  msg_queue :: "'ev link_msg list"
  to_target :: "'ev target_msg list"
  to_net_layer :: "(ptr \<times> inet_addr) list"

definition connection_update :: "int \<Rightarrow> 'ev crud_link \<Rightarrow> 'ev crud_link" where
  "connection_update now l = l\<lparr>m_last_recv_activity := now\<rparr>"

definition connection_sent_packet :: "int \<Rightarrow> 'ev crud_link \<Rightarrow> 'ev crud_link" where
  "connection_sent_packet now l = l\<lparr>m_last_send_activity := now\<rparr>"

definition client_last_seen_packets :: "int \<Rightarrow> 'ev crud_link \<Rightarrow> int" where
  "client_last_seen_packets now l = milliseconds_between (m_last_recv_activity l) now"

definition last_sent_packets :: "int \<Rightarrow> 'ev crud_link \<Rightarrow> int" where
  "last_sent_packets now l = milliseconds_between (m_last_send_activity l) now"

definition putq :: "'ev link_msg \<Rightarrow> 'ev crud_link \<Rightarrow> 'ev crud_link" where
  "putq m l = l\<lparr>msg_queue := msg_queue l @ [m]\<rparr>"

section \<open>Events to packets and back\<close>

definition event_for_packet :: "'ev event_class \<Rightarrow> ptr \<Rightarrow> 'ev crud_link \<Rightarrow> 'ev crud_link option" where
  "event_for_packet c pak l =
    do {
      p \<leftarrow> deref (m_protocol l) pak;
      bs \<leftarrow> m_stream p;
      (res, bs) \<leftarrow> EventFromStream c bs;
      (case res of
         None \<Rightarrow> Some (l\<lparr>m_protocol := assign pak (p\<lparr>m_stream := Some bs\<rparr>) (m_protocol l)\<rparr>)
       | Some ev \<Rightarrow> do {
           (ev, bs) \<leftarrow> serializefrom c ev bs;
           Some (l\<lparr>m_protocol := assign pak (p\<lparr>m_stream := Some bs\<rparr>) (m_protocol l),
                   to_target := to_target l @ [LinkEvent ev (m_seqNo p)]\<rparr>) }) }"

definition packets_for_event :: "'ev event_class \<Rightarrow> int \<Rightarrow> 'ev \<Rightarrow> 'ev crud_link \<Rightarrow> 'ev crud_link option" where
  "packets_for_event c now ev l =
    do {
      let s = m_protocol l;
      let res = new_packet (mem_fresh s) now;
      bs \<leftarrow> m_stream res;
      bs \<leftarrow> serializeto c ev bs;
      let (a, s) = alloc (SetReliabilty (is_reliable c ev) (res\<lparr>m_stream := Some bs\<rparr>)) s;
      (_, s) \<leftarrow> SendPacket now a s;
      (ok, packets_to_send, s) \<leftarrow> batchSend now [] s;
      let l = l\<lparr>m_protocol := s\<rparr>;
      if \<not> ok then Some (l\<lparr>to_target := to_target l @ [LinkDisconnect]\<rparr>)
      else Some (connection_sent_packet now
             (l\<lparr>to_net_layer := to_net_layer l @ map (\<lambda>p. (p, m_peer_addr l)) packets_to_send\<rparr>)) }"

text \<open>
  The loop of \<open>handle_output\<close> over the queue of the link, with the value it returns and what it
  leaves in the queue. Releasing a packet event deletes its packet.
\<close>

function handle_queue :: "'ev event_class \<Rightarrow> int \<Rightarrow> 'ev link_msg list \<Rightarrow> 'ev crud_link \<Rightarrow>
    (int \<times> 'ev link_msg list \<times> 'ev crud_link) option" where
  "handle_queue c now [] l = Some (0, [], l)"
| "handle_queue c now (FinishMsg # q) l = Some (-1, q, l)"
| "handle_queue c now (ConnectMsg src_addr # q) l =
    handle_queue c now q (connection_update now (l\<lparr>m_peer_addr := src_addr\<rparr>))"
| "handle_queue c now (DisconnectMsg # q) l = handle_queue c now (q @ [FinishMsg]) l"
| "handle_queue c now (PacketMsg pak # q) l =
    (case event_for_packet c pak l of
       None \<Rightarrow> None
     | Some l \<Rightarrow>
         (case PacketDestroyer pak (m_protocol l) of
            None \<Rightarrow> None
          | Some s \<Rightarrow> handle_queue c now q (l\<lparr>m_protocol := s\<rparr>)))"
| "handle_queue c now (EventMsg ev # q) l =
    (case packets_for_event c now ev l of None \<Rightarrow> None | Some l \<Rightarrow> handle_queue c now q l)"
  by pat_completeness auto
termination
  by (relation "measure (\<lambda>(_, _, q, _). sum_list (map (case_link_msg 1 (\<lambda>_. 1) 2 (\<lambda>_. 1) (\<lambda>_. 1)) q))") auto

definition handle_output :: "'ev event_class \<Rightarrow> int \<Rightarrow> 'ev crud_link \<Rightarrow> (int \<times> 'ev crud_link) option" where
  "handle_output c now l =
    do { (r, q, l) \<leftarrow> handle_queue c now (msg_queue l) l; Some (r, l\<lparr>msg_queue := q\<rparr>) }"

section \<open>Receiving\<close>

lemma sort_avail_length: "sort_avail s = Some s' \<Longrightarrow> length (avail_packets s') = length (avail_packets s)"
  by (auto simp: sort_avail_def split: if_splits)

lemma drop_duplicates_shrinks:
  "drop_duplicates avail pkt s = Some (p, s') \<Longrightarrow> length (avail_packets s') \<le> length avail"
proof (induction avail pkt s rule: drop_duplicates.induct)
  case (1 avail pkt s)
  from "1.prems" show ?case
    by (subst (asm) drop_duplicates.simps)
      (fastforce dest: "1.IH" split: Option.bind_splits if_splits list.splits)
qed

lemma RecvPacket_shrinks:
  assumes "RecvPacket s = Some (p, s')" "p \<noteq> 0"
  shows "length (avail_packets s') < length (avail_packets s)"
proof -
  from assms obtain s1 s2 where s1: "sort_avail s = Some s1" "avail_packets s \<noteq> []"
    "drop_duplicates (tl (avail_packets s1)) (hd (avail_packets s1)) s1 = Some (p, s2)" "avail_packets s' = avail_packets s2"
    by (auto simp: RecvPacket_def split: if_splits Option.bind_splits)
  with drop_duplicates_shrinks [OF s1(3)] sort_avail_length [OF s1(1)] show ?thesis
    by (cases "avail_packets s") auto
qed

text \<open>The loop of \<open>received_block\<close>: every packet the engine delivers, in order.\<close>

function recv_loop :: "CrudP_Protocol \<Rightarrow> (ptr list \<times> CrudP_Protocol) option" where
  "recv_loop s =
    (case RecvPacket s of
       None \<Rightarrow> None
     | Some (pkt, s') \<Rightarrow>
         if pkt = 0 then Some ([], s')
         else map_option (\<lambda>(ps, s''). (pkt # ps, s'')) (recv_loop s'))"
  by pat_completeness auto
termination
  by (relation "measure (\<lambda>s. length (avail_packets s))") (auto simp: RecvPacket_shrinks)

declare recv_loop.simps [simp del]

definition received_block :: "int \<Rightarrow> bitstream \<Rightarrow> 'ev crud_link \<Rightarrow> 'ev crud_link option" where
  "received_block now bytes l =
    do {
      s \<leftarrow> ReceivedBlock now bytes (m_protocol l);
      (ps, s) \<leftarrow> recv_loop s;
      let l = l\<lparr>m_protocol := s, msg_queue := msg_queue l @ map PacketMsg ps\<rparr>;
      Some (if ps \<noteq> [] then connection_update now l else l) }"

end
