(* ===== verification/Link_Properties.thy ===== *)
theory Link_Properties
  imports Crudp_Link
begin

text \<open>
  The properties of the link: what it delivers out of the received packets and in which order,
  when its queue closes it, and which control events survive the way through a stream.
\<close>

section \<open>Packets in order\<close>

definition seq_width :: "CrudP_Packet \<Rightarrow> u32" where
  "seq_width v = (if m_numSibs v > 0 then m_numSibs v else 1)"

text \<open>A list of packets continues the sequence from \<open>r\<close> to \<open>r'\<close>: each has the next number, and a
  packet made of parts takes as many numbers as it has parts.\<close>

fun continues :: "(ptr \<Rightarrow> CrudP_Packet option) \<Rightarrow> u32 \<Rightarrow> ptr list \<Rightarrow> u32 \<Rightarrow> bool" where
  "continues h r [] r' \<longleftrightarrow> r' = r"
| "continues h r (p # ps) r' \<longleftrightarrow>
    (case h p of
       None \<Rightarrow> False
     | Some v \<Rightarrow> m_seqNo v = r + 1 \<and> continues h (r + seq_width v) ps r')"

text \<open>The available packets stand for disjoint ranges of sequence numbers, none of which wraps.\<close>

definition range_end :: "CrudP_Protocol \<Rightarrow> ptr \<Rightarrow> nat" where
  "range_end s a = unat (seq_of s a) + unat (seq_width (the (deref s a)))"

definition ranges_apart :: "CrudP_Protocol \<Rightarrow> bool" where
  "ranges_apart s \<longleftrightarrow> distinct (avail_packets s) \<and>
     (\<forall>a \<in> set (avail_packets s). \<forall>b \<in> set (avail_packets s). a \<noteq> b \<longrightarrow>
        range_end s a \<le> unat (seq_of s b) \<or> range_end s b \<le> unat (seq_of s a))"

lemma seq_width_pos: "0 < unat (seq_width v)"
  by (cases "m_numSibs v = 0") (auto simp: seq_width_def unat_gt_0 word_neq_0_conv)

lemma ranges_apart_next:
  assumes ok: "avail_ok s" "ranges_apart s"
    and m: "mset (avail_packets s) = mset (a # rest)"
    and least: "\<forall>b \<in> set (avail_packets s). seq_of s a \<le> seq_of s b"
    and v: "deref s a = Some v" "m_seqNo v = recv_seq s + 1"
  shows "avail_ok (s\<lparr>avail_packets := rest, recv_seq := recv_seq s + seq_width v\<rparr>) \<and>
    ranges_apart (s\<lparr>avail_packets := rest, recv_seq := recv_seq s + seq_width v\<rparr>)"
proof -
  let ?s = "s\<lparr>avail_packets := rest, recv_seq := recv_seq s + seq_width v\<rparr>"
  have set: "set (avail_packets s) = insert a (set rest)" using m by (metis list.simps(15) set_mset_mset)
  have "distinct (a # rest)" using ok(2) m by (metis mset_eq_imp_distinct_iff ranges_apart_def)
  then have d: "distinct rest" "a \<notin> set rest" by auto
  have fields: "deref ?s = deref s" "seq_of ?s = seq_of s" "range_end ?s = range_end s"
    by (auto simp: deref_def seq_of_def range_end_def fun_eq_iff)
  have sa: "seq_of s a = recv_seq s + 1" "recv_seq s < recv_seq s + 1"
    using v ok(1) set by (auto simp: seq_of_def avail_ok_def)
  have "1 + recv_seq s \<noteq> 0" using sa(2) by (auto simp: add.commute)
  then have nsa: "unat (seq_of s a) = unat (recv_seq s) + 1"
    using unatSuc [of "recv_seq s"] sa(1) by (simp add: add.commute)
  have "recv_seq s + seq_width v < seq_of s b" if b: "b \<in> set rest" for b
  proof -
    have le: "unat (seq_of s a) \<le> unat (seq_of s b)" using least b set by (auto simp: word_le_nat_alt)
    have "a \<noteq> b" using b d by auto
    then have "range_end s a \<le> unat (seq_of s b)"
      using ok(2) b set le seq_width_pos [of "the (deref s b)"]
      by (fastforce simp: ranges_apart_def range_end_def)
    then have lt: "unat (recv_seq s) + unat (seq_width v) < unat (seq_of s b)"
      using nsa v by (simp add: range_end_def)
    also have "\<dots> < 2 ^ 32" using unsigned_less [of "seq_of s b"] by simp
    finally have "unat (recv_seq s + seq_width v) = unat (recv_seq s) + unat (seq_width v)"
      by (simp add: unat_plus_simple unat_add_lem [symmetric])
    with lt show ?thesis by (simp add: word_less_nat_alt)
  qed
  then have "avail_ok ?s" using ok(1) set by (auto simp: avail_ok_def fields)
  moreover have "ranges_apart ?s" using ok(2) set d by (auto simp: ranges_apart_def fields)
  ultimately show ?thesis by blast
qed

section \<open>One call\<close>

text \<open>
  A packet whose number is not above the last delivered one is taken for a duplicate. \<open>take_next c rest\<close>: the
  queue becomes \<open>rest\<close>, and \<open>c\<close> is delivered when it continues the sequence. \<open>freed\<close>: some packets are
  deleted.
\<close>

definition duplicate :: "CrudP_Protocol \<Rightarrow> ptr \<Rightarrow> bool" where
  "duplicate s p \<longleftrightarrow> seq_of s p \<le> recv_seq s"

definition take_next :: "ptr \<Rightarrow> ptr list \<Rightarrow> CrudP_Protocol \<Rightarrow> ptr \<times> CrudP_Protocol" where
  "take_next c rest s =
    (if seq_of s c = recv_seq s + 1
     then (c, s\<lparr>avail_packets := rest, recv_seq := recv_seq s + seq_width (the (deref s c))\<rparr>)
     else (0, s\<lparr>avail_packets := rest\<rparr>))"

definition freed :: "ptr list \<Rightarrow> CrudP_Protocol \<Rightarrow> CrudP_Protocol" where
  "freed ps s = s\<lparr>heap := \<lambda>a. if a \<in> set ps then None else heap s a\<rparr>"

lemma freed_simps [simp]:
  "recv_seq (freed ps s) = recv_seq s" "avail_packets (freed ps s) = avail_packets s"
  "c \<notin> set ps \<Longrightarrow> deref (freed ps s) c = deref s c" "c \<notin> set ps \<Longrightarrow> seq_of (freed ps s) c = seq_of s c"
  "c \<notin> set ps \<Longrightarrow> duplicate (freed ps s) c = duplicate s c"
  by (simp_all add: freed_def deref_def seq_of_def duplicate_def)

lemma freed_none [simp]: "freed [] s = s"
  by (simp add: freed_def)

lemma freed_avail: "(freed ps s)\<lparr>avail_packets := q\<rparr> = freed ps (s\<lparr>avail_packets := q\<rparr>)"
  by (simp add: freed_def cong: if_cong)

lemma freed_freed: "freed qs (freed ps s) = freed (ps @ qs) s"
  by (auto simp: freed_def fun_eq_iff)

lemma deref_nonzero: "deref s c \<noteq> None \<Longrightarrow> c \<noteq> 0"
  by (auto simp: deref_def split: if_splits)

lemma RecvPacket_dropped:
  assumes "avail_packets s \<noteq> []" "sort_avail s = Some (s\<lparr>avail_packets := a # xs\<rparr>)"
    "drop_duplicates xs a (s\<lparr>avail_packets := a # xs\<rparr>) = Some (c, s2)" "deref s2 c \<noteq> None"
  shows "RecvPacket s = Some (take_next c (avail_packets s2) s2)"
  using assms(1-4) deref_nonzero [OF assms(4)]
  by (auto simp: RecvPacket_def take_next_def seq_of_def seq_width_def)

lemma PacketDestroyer_freed: "deref s a \<noteq> None \<Longrightarrow> PacketDestroyer a s = Some (freed [a] s)"
  using PacketDestroyer_live [of s a] by (auto simp: freed_def fun_upd_def)

text \<open>Behind the first two packets the loop keeps the one it looks at in the queue.\<close>

lemma drop_duplicates_kept:
  "distinct xs \<Longrightarrow> \<forall>p \<in> set xs. deref s p \<noteq> None \<Longrightarrow> xs \<noteq> [] \<Longrightarrow>
   drop_duplicates xs (hd xs) s =
    (case dropWhile (duplicate s) xs of
       [] \<Rightarrow> None
     | c # zs \<Rightarrow> Some (c, (freed (takeWhile (duplicate s) xs) s)\<lparr>avail_packets := c # zs\<rparr>))"
proof (induction xs arbitrary: s)
  case (Cons x xs)
  obtain v where v: "deref s x = Some v" "seq_of s x = m_seqNo v" using Cons.prems(2) by (auto simp: seq_of_def)
  show ?case
  proof (cases "duplicate s x")
    case False
    with v show ?thesis by (subst drop_duplicates.simps) (simp add: duplicate_def)
  next
    case True
    have le: "m_seqNo v \<le> recv_seq s" using True v by (simp add: duplicate_def)
    have des: "PacketDestroyer x s = Some (freed [x] s)" using PacketDestroyer_freed v by simp
    show ?thesis
    proof (cases xs)
      case Nil
      with True v le des show ?thesis by (subst drop_duplicates.simps) simp
    next
      case (Cons y ys)
      have x: "x \<notin> set xs" using Cons.prems(1) by simp
      then have d: "duplicate (freed [x] s) p = duplicate s p" if "p \<in> set xs" for p
        using that x by (intro freed_simps) auto
      have dw: "dropWhile (duplicate (freed [x] s)) xs = dropWhile (duplicate s) xs"
        "takeWhile (duplicate (freed [x] s)) xs = takeWhile (duplicate s) xs"
        using d by (auto intro: dropWhile_cong takeWhile_cong)
      have live: "\<forall>p \<in> set xs. deref (freed [x] s) p \<noteq> None" using Cons.prems(2) x by (metis freed_simps(3) empty_iff insert_iff list.set list.set_intros(2))
      have "drop_duplicates (x # xs) x s = drop_duplicates xs (hd xs) (freed [x] s)"
        using v le des Cons by (subst drop_duplicates.simps) simp
      also have "\<dots> = (case dropWhile (duplicate s) xs of [] \<Rightarrow> None
          | c # zs \<Rightarrow> Some (c, (freed (takeWhile (duplicate s) xs) (freed [x] s))\<lparr>avail_packets := c # zs\<rparr>))"
        using Cons.IH [OF _ live, unfolded dw] Cons.prems(1) Cons by simp
      finally show ?thesis using True by (cases "dropWhile (duplicate s) xs") (simp_all add: freed_freed del: dropWhile_eq_Nil_conv)
    qed
  qed
qed simp

text \<open>C23. What one call of \<open>RecvPacket\<close> does with any queue of different packets, duplicates included. With the queue
  sorted by number: a first packet that is no duplicate leaves the queue, and is delivered when it continues the
  sequence; otherwise it is lost. A first packet that is a duplicate is deleted. When it was the only one nothing
  is delivered; else the second packet leaves the queue too, whatever it is, the duplicates behind it
  are deleted, and the first of the others is delivered when it continues the sequence, but stays in the
  queue; when there is none the front of an empty queue is read (\<open>None\<close>). A delivery moves the
  sequence by the number of parts of the packet.
\<close>
theorem RecvPacket_exact:
  assumes "distinct (avail_packets s)" and "\<forall>p \<in> set (avail_packets s). deref s p \<noteq> None"
  shows "RecvPacket s =
    (case sort_key (seq_of s) (avail_packets s) of
       [] \<Rightarrow> Some (0, s)
     | a # xs \<Rightarrow>
         if \<not> duplicate s a then Some (take_next a xs s)
         else (case xs of
             [] \<Rightarrow> Some (0, freed [a] (s\<lparr>avail_packets := []\<rparr>))
           | b # ys \<Rightarrow>
               (case dropWhile (duplicate s) ys of
                  [] \<Rightarrow> None
                | c # zs \<Rightarrow> Some (take_next c (c # zs) (freed (a # takeWhile (duplicate s) ys) s)))))"
proof (cases "sort_key (seq_of s) (avail_packets s)")
  case Nil
  then have "avail_packets s = []" by (metis length_0_conv length_sort)
  with Nil show ?thesis by (simp add: RecvPacket_def)
next
  case (Cons a xs)
  let ?q = "a # xs" and ?s = "s\<lparr>avail_packets := a # xs\<rparr>"
  have ne: "avail_packets s \<noteq> []" using Cons by auto
  have sort: "sort_avail s = Some ?s"
    using assms(2) Cons by (simp add: sort_avail_def seq_of_def [abs_def])
  have "set ?q = set (avail_packets s)" by (metis Cons set_sort)
  then have live: "\<forall>p \<in> set ?q. deref s p \<noteq> None" using assms(2) by simp
  have dist: "distinct ?q" using assms(1) Cons by (metis distinct_sort)
  have st: "deref ?s = deref s" "seq_of ?s = seq_of s" "duplicate ?s = duplicate s"
    by (auto simp: deref_def seq_of_def duplicate_def fun_eq_iff)
  obtain v where v: "deref s a = Some v" "seq_of s a = m_seqNo v" using live by (auto simp: seq_of_def)
  note rp = RecvPacket_dropped [OF ne sort]
  show ?thesis
  proof (cases "duplicate s a")
    case False
    then have "drop_duplicates xs a ?s = Some (a, s\<lparr>avail_packets := xs\<rparr>)"
      using v st by (subst drop_duplicates.simps) (simp add: duplicate_def)
    moreover have "deref (s\<lparr>avail_packets := xs\<rparr>) a \<noteq> None" using v by (simp add: deref_def split: if_splits)
    moreover have "take_next a xs (s\<lparr>avail_packets := xs\<rparr>) = take_next a xs s"
      by (simp add: take_next_def seq_of_def deref_def)
    ultimately show ?thesis using rp [of a "s\<lparr>avail_packets := xs\<rparr>"] Cons False by simp
  next
    case True
    have le: "m_seqNo v \<le> recv_seq s" using True v by (simp add: duplicate_def)
    have des: "PacketDestroyer a ?s = Some (freed [a] ?s)" using PacketDestroyer_freed [of ?s a] v st by simp
    show ?thesis
    proof (cases xs)
      case Nil
      then have "drop_duplicates xs a ?s = Some (0, (freed [a] ?s)\<lparr>avail_packets := []\<rparr>)"
        using v st le des by (subst drop_duplicates.simps) simp
      then have "drop_duplicates xs a ?s = Some (0, freed [a] (s\<lparr>avail_packets := []\<rparr>))"
        by (simp add: freed_avail)
      with ne sort Cons Nil True show ?thesis by (simp add: RecvPacket_def)
    next
      case Cons': (Cons b ys)
      let ?s1 = "freed [a] ?s"
      have dup: "duplicate ?s1 p = duplicate s p" if "p \<in> set ys" for p
        using that dist Cons' st(3) by (subst freed_simps) auto
      have w: "dropWhile (duplicate ?s1) ys = dropWhile (duplicate s) ys" "takeWhile (duplicate ?s1) ys = takeWhile (duplicate s) ys"
        using dup by (auto intro: dropWhile_cong takeWhile_cong)
      have "deref ?s1 p = deref s p" if "p \<in> set ys" for p
        using that dist Cons' st(1) by (subst freed_simps) auto
      then have live1: "\<forall>p \<in> set ys. deref ?s1 p \<noteq> None" using live Cons' by simp
      show ?thesis
      proof (cases "dropWhile (duplicate s) ys")
        case Nil
        have "drop_duplicates xs a ?s = None"
        proof (cases ys)
          case Nil
          with Cons' v st le des show ?thesis by (subst drop_duplicates.simps) simp
        next
          case (Cons c zs)
          then have "drop_duplicates xs a ?s = drop_duplicates ys (hd ys) ?s1"
            using Cons' v st le des by (subst drop_duplicates.simps) simp
          with drop_duplicates_kept [OF _ live1] dist Cons' Cons w Nil show ?thesis by simp
        qed
        with ne sort Cons Cons' True Nil show ?thesis by (simp add: RecvPacket_def del: dropWhile_eq_Nil_conv)
      next
        case c: (Cons c zs)
        then have ys: "ys \<noteq> []" by auto
        then have "drop_duplicates xs a ?s = drop_duplicates ys (hd ys) ?s1"
          using Cons' v st le des by (subst drop_duplicates.simps) (auto simp: neq_Nil_conv)
        also have "\<dots> = Some (c, (freed (takeWhile (duplicate s) ys) ?s1)\<lparr>avail_packets := c # zs\<rparr>)"
          using drop_duplicates_kept [OF _ live1 ys] dist Cons' w c by simp
        also have "\<dots> = Some (c, (freed (a # takeWhile (duplicate s) ys) s)\<lparr>avail_packets := c # zs\<rparr>)"
          by (auto simp: freed_def fun_eq_iff)
        finally have dd: "drop_duplicates xs a ?s = Some (c, (freed (a # takeWhile (duplicate s) ys) s)\<lparr>avail_packets := c # zs\<rparr>)" .
        let ?s2 = "(freed (a # takeWhile (duplicate s) ys) s)\<lparr>avail_packets := c # zs\<rparr>"
        have "c \<in> set ys" by (metis c list.set_intros(1) set_dropWhileD)
        moreover have "c \<notin> set (takeWhile (duplicate s) ys)"
          by (metis c dropWhile_eq_Cons_conv set_takeWhileD)
        ultimately have "c \<notin> set (a # takeWhile (duplicate s) ys)" "deref s c \<noteq> None" using live dist Cons' by auto
        then have "deref ?s2 c \<noteq> None" by (simp add: freed_def deref_def split: if_splits)
        moreover have "take_next c (c # zs) ?s2 = take_next c (c # zs) (freed (a # takeWhile (duplicate s) ys) s)"
          by (simp add: take_next_def seq_of_def deref_def)
        ultimately show ?thesis using rp [OF dd] Cons Cons' True c by simp
      qed
    qed
  qed
qed

text \<open>Two duplicates in front of the next packet: both leave the queue, the first is deleted, the
  third is delivered and stays.\<close>

theorem RecvPacket_exact_witness:
  "\<exists>s'. RecvPacket (example_queue [4, 4, 5]) = Some (3, s') \<and> avail_packets s' = [3] \<and> recv_seq s' = 5 \<and>
     deref s' 1 = None \<and> deref s' 2 \<noteq> None"
proof -
  let ?s = "example_queue [4, 4, 5]"
  have d: "avail_packets ?s = [1, 2, 3]" "recv_seq ?s = 4" "deref ?s 1 = Some (example_packet\<lparr>m_seqNo := 4, m_numSibs := 0\<rparr>)"
    "deref ?s 2 = Some (example_packet\<lparr>m_seqNo := 4, m_numSibs := 0\<rparr>)"
    "deref ?s 3 = Some (example_packet\<lparr>m_seqNo := 5, m_numSibs := 0\<rparr>)"
    by (simp_all add: example_queue_def deref_def upt_rec)
  have q: "seq_of ?s 1 = 4" "seq_of ?s 2 = 4" "seq_of ?s 3 = 5" using d by (simp_all add: seq_of_def del: One_nat_def)
  then have "sort_key (seq_of ?s) (avail_packets ?s) = [1, 2, 3]" by (simp add: d(1) del: One_nat_def)
  with RecvPacket_exact [of ?s] d q have "RecvPacket ?s = Some (take_next 3 [3] (freed [1] ?s))"
    by (simp add: duplicate_def del: One_nat_def)
  then show ?thesis using d q by (auto simp: take_next_def seq_width_def freed_def deref_def seq_of_def split: if_splits)
qed

text \<open>The loop over the received packets when all of them are new and of disjoint ranges, so that none is a duplicate:
  it always ends, delivers packets of consecutive sequence numbers, changes no packet, and stops only when
  none of the others continues the sequence; of those at most one is taken off the queue.\<close>

theorem recv_loop_delivers:
  assumes "avail_ok s" "ranges_apart s"
  shows "\<exists>ps lost s'. recv_loop s = Some (ps, s') \<and> continues (deref s) (recv_seq s) ps (recv_seq s') \<and>
    heap s' = heap s \<and> mset (avail_packets s) = mset (ps @ lost @ avail_packets s') \<and> length lost \<le> 1 \<and>
    (\<forall>b \<in> set (lost @ avail_packets s'). seq_of s b \<noteq> recv_seq s' + 1)"
  using assms
proof (induction s rule: recv_loop.induct)
  case (1 s)
  show ?case
  proof (cases "avail_packets s = []")
    case True
    then show ?thesis by (subst recv_loop.simps) (simp add: RecvPacket_def)
  next
    case False
    from RecvPacket_cases [OF "1.prems"(1) False] obtain a rest v where
      a: "mset (avail_packets s) = mset (a # rest)" "a \<in> set (avail_packets s)"
      "\<forall>b \<in> set (avail_packets s). seq_of s a \<le> seq_of s b" "deref s a = Some v"
      and r: "RecvPacket s =
        (if m_seqNo v \<noteq> recv_seq s + 1 then Some (0, s\<lparr>avail_packets := rest\<rparr>)
         else Some (a, s\<lparr>avail_packets := rest, recv_seq := recv_seq s + seq_width v\<rparr>))"
      unfolding seq_width_def .
    show ?thesis
    proof (cases "m_seqNo v = recv_seq s + 1")
      case False
      note ne = this
      moreover have "recv_seq s < seq_of s a" using "1.prems"(1) a(2) by (auto simp: avail_ok_def)
      ultimately have "recv_seq s + 1 \<noteq> seq_of s a" "recv_seq s + 1 \<le> seq_of s a"
        using a(4) word_less_Suc_le by (auto simp: seq_of_def)
      then have lt: "recv_seq s + 1 < seq_of s a" by simp
      have "seq_of s b \<noteq> recv_seq s + 1" if "b \<in> set (a # rest)" for b
        using a(3) lt that a(1) by (metis leD set_mset_mset)
      with ne r a(1) show ?thesis
        by (subst recv_loop.simps) (auto intro!: exI [of _ "[a]"])
    next
      case True
      let ?s = "s\<lparr>avail_packets := rest, recv_seq := recv_seq s + seq_width v\<rparr>"
      have fields: "deref ?s = deref s" "seq_of ?s = seq_of s"
        by (auto simp: deref_def seq_of_def fun_eq_iff)
      have nz: "a \<noteq> 0" using a(4) by (auto simp: deref_def split: if_splits)
      from "1.IH" [of "(a, ?s)" a ?s] r True nz ranges_apart_next [OF "1.prems" a(1,3,4) True]
      obtain ps lost s' where ih: "recv_loop ?s = Some (ps, s')"
        "continues (deref s) (recv_seq ?s) ps (recv_seq s')" "heap s' = heap ?s"
        "mset rest = mset (ps @ lost @ avail_packets s')" "length lost \<le> 1"
        "\<forall>b \<in> set (lost @ avail_packets s'). seq_of s b \<noteq> recv_seq s' + 1"
        unfolding fields by auto
      then show ?thesis using r True nz a(1,4)
        by (subst recv_loop.simps) (auto intro!: exI [of _ "a # ps"] exI [of _ lost])
    qed
  qed
qed

theorem recv_loop_delivers_witness:
  "\<exists>ps lost s'. recv_loop (example_queue [7, 5]) = Some (ps, s') \<and>
     mset ps + mset lost + mset (avail_packets s') = {#1, 2#} \<and> length lost \<le> 1 \<and>
     recv_seq s' + 1 \<notin> seq_of (example_queue [7, 5]) ` (set lost \<union> set (avail_packets s'))"
proof -
  let ?s = "example_queue [7, 5]"
  have d: "avail_packets ?s = [1, 2]" "recv_seq ?s = 4" "deref ?s 1 = Some (example_packet\<lparr>m_seqNo := 7, m_numSibs := 0\<rparr>)"
    "deref ?s 2 = Some (example_packet\<lparr>m_seqNo := 5, m_numSibs := 0\<rparr>)"
    by (simp_all add: example_queue_def deref_def upt_rec)
  have "avail_ok ?s" "ranges_apart ?s"
    unfolding avail_ok_def ranges_apart_def range_end_def seq_of_def seq_width_def
    by (simp_all add: d del: One_nat_def)
  from recv_loop_delivers [OF this] d(1) have "\<exists>ps lost s'. recv_loop ?s = Some (ps, s') \<and>
      mset ps + mset lost + mset (avail_packets s') = {#1, 2#} \<and> length lost \<le> 1 \<and>
      (\<forall>b \<in> set lost \<union> set (avail_packets s'). seq_of ?s b \<noteq> recv_seq s' + 1)" by auto
  then show ?thesis by (metis (no_types, lifting) imageE)
qed

text \<open>When a duplicate was removed in front of the next packet, that packet is delivered but stays in
  the queue of available packets. The same loop then takes it for a duplicate and frees it while
  the event that was made of it still owns it.\<close>

theorem delivered_packet_freed:
  assumes "avail_packets s = [a, b, c]" "c \<noteq> a"
    "deref s a = Some u" "deref s b = Some v" "deref s c = Some w"
    "m_seqNo u \<le> recv_seq s" "m_seqNo u \<le> m_seqNo v" "m_seqNo v \<le> m_seqNo w"
    "m_seqNo w = recv_seq s + 1" "recv_seq s < m_seqNo w" "m_numSibs w = 0"
  shows "\<exists>s'. recv_loop s = Some ([c], s') \<and> deref s' c = None"
proof -
  let ?s1 = "s\<lparr>heap := (heap s)(a := None), avail_packets := [c], recv_seq := recv_seq s + 1\<rparr>"
  let ?s2 = "?s1\<lparr>heap := (heap ?s1)(c := None), avail_packets := []\<rparr>"
  have nz: "c \<noteq> 0" using assms(5) by (auto simp: deref_def split: if_splits)
  have "sort_key (\<lambda>p. m_seqNo (the (deref s p))) [a, b, c] = [a, b, c]"
    using assms(3-5,7,8) by simp
  then have sort: "sort_avail s = Some s"
    using assms(1,3-5) by (simp add: sort_avail_def)
  have "drop_duplicates [b, c] a s = Some (c, s\<lparr>heap := (heap s)(a := None), avail_packets := [c]\<rparr>)"
    using assms PacketDestroyer_live [OF assms(3)]
    by (subst drop_duplicates.simps, subst drop_duplicates.simps) (auto simp: deref_def split: if_splits)
  then have r1: "RecvPacket s = Some (c, ?s1)"
    using sort assms nz by (simp add: RecvPacket_def deref_def)
  have c1: "deref ?s1 c = Some w" using assms(2,5) by (auto simp: deref_def split: if_splits)
  have "drop_duplicates [] c ?s1 = Some (0, ?s2)"
    using c1 assms(9) PacketDestroyer_live [OF c1] by (subst drop_duplicates.simps) simp
  moreover have "sort_avail ?s1 = Some ?s1" using c1 by (simp add: sort_avail_def)
  ultimately have r2: "RecvPacket ?s1 = Some (0, ?s2)" by (simp add: RecvPacket_def)
  have "recv_loop ?s1 = Some ([], ?s2)" by (subst recv_loop.simps) (simp add: r2)
  then have "recv_loop s = Some ([c], ?s2)" by (subst recv_loop.simps) (simp add: r1 nz)
  then show ?thesis by (auto simp: deref_def)
qed

theorem delivered_packet_freed_witness:
  "\<exists>s'. recv_loop (example_queue [4, 4, 5]) = Some ([3], s') \<and> deref s' 3 = None"
proof -
  let ?s = "example_queue [4, 4, 5]"
  have d: "avail_packets ?s = [1, 2, 3]" "recv_seq ?s = 4" "deref ?s 1 = Some (example_packet\<lparr>m_seqNo := 4, m_numSibs := 0\<rparr>)"
    "deref ?s 2 = Some (example_packet\<lparr>m_seqNo := 4, m_numSibs := 0\<rparr>)"
    "deref ?s 3 = Some (example_packet\<lparr>m_seqNo := 5, m_numSibs := 0\<rparr>)"
    by (simp_all add: example_queue_def deref_def upt_rec)
  show ?thesis
    by (rule delivered_packet_freed [OF d(1) _ d(3-5)]) (simp_all add: d(2))
qed

section \<open>The queue of the link\<close>

definition closing :: "'ev link_msg list \<Rightarrow> bool" where
  "closing q \<longleftrightarrow> FinishMsg \<in> set q \<or> DisconnectMsg \<in> set q"

lemma handle_queue_result:
  "handle_queue c now q l = Some (r, q', l') \<Longrightarrow>
   r = (if closing q then -1 else 0) \<and> (\<not> closing q \<longrightarrow> q' = [])"
  by (induction c now q l arbitrary: r q' l' rule: handle_queue.induct)
    (auto simp: closing_def split: option.splits)

text \<open>Servicing the link closes it exactly when its queue held a finish or a disconnect message;
  otherwise it returns success with an empty queue.\<close>

theorem handle_output_closes_iff:
  assumes "handle_output c now l = Some (r, l')"
  shows "(r = -1 \<longleftrightarrow> FinishMsg \<in> set (msg_queue l) \<or> DisconnectMsg \<in> set (msg_queue l)) \<and>
    (r \<noteq> -1 \<longrightarrow> r = 0 \<and> msg_queue l' = [])"
  using assms handle_queue_result [of c now "msg_queue l" l]
  by (auto simp: handle_output_def closing_def split: Option.bind_splits if_splits)

definition example_link :: "crud_event link_msg list \<Rightarrow> crud_event crud_link" where
  "example_link q = \<lparr>m_protocol = new_protocol (\<lambda>_. 205) True, m_peer_addr = (0, 0),
     m_last_recv_activity = 0, m_last_send_activity = 0, msg_queue = q, to_target = [], to_net_layer = []\<rparr>"

theorem handle_output_closes_iff_witness:
  "\<exists>r l'. handle_output crud_class 9 (example_link [DisconnectMsg, ConnectMsg (1, 2)]) = Some (r, l') \<and>
     r = -1 \<and> m_peer_addr l' = (1, 2)"
proof -
  let ?l = "example_link [DisconnectMsg, ConnectMsg (1, 2)]"
  obtain r l' where h: "handle_output crud_class 9 ?l = Some (r, l')" "m_peer_addr l' = (1, 2)"
    by (simp add: handle_output_def example_link_def connection_update_def)
  with handle_output_closes_iff [OF h(1)] show ?thesis by (auto simp: example_link_def)
qed

section \<open>Control events\<close>

fun crud_fields :: "crud_event \<Rightarrow> msg_field list" where
  "crud_fields (ConnectRequest t v) = [Packed 1 1, Packed 1 t, Packed 1 v]"
| "crud_fields ConnectResponse = [Packed 1 0, Packed 1 4]"
| "crud_fields DisconnectRequest = [Packed 1 0, Packed 1 5]"
| "crud_fields DisconnectResponse = [Packed 1 0, Packed 1 6]"
| "crud_fields Idle = [Packed 1 0, Packed 1 0]"
| "crud_fields UnknownEvent = []"

lemma crud_serializeto_fields: "crud_serializeto ev s = write_message (crud_fields ev) s"
  by (cases ev) (auto simp: two_packed_def cong: Option.bind_cong)

lemma crud_fields_ok: "\<forall>f \<in> set (crud_fields ev). field_ok f"
  by (cases ev) auto

lemma GetPackedBits_message:
  assumes "reader_ok s" "contents s = packed 1 d @ rest"
  shows "\<exists>s'. GetPackedBits 1 s = Some (d, s') \<and> reader_ok s' \<and> contents s' = rest"
  using read_field_reads [of s "Packed 1 d" rest] assms by (auto split: Option.bind_splits)

lemma GetPackedBits_empty:
  assumes "reader_ok s" "contents s = []"
  shows "GetPackedBits 1 s = Some (-1, s)"
  using assms readable_bits(2) [OF assms(1)]
  by (simp add: GetPackedBits_def GetPackedBits_loop.simps [of "Suc 0"] reader_ok_def)

lemma roomy_less: "roomy n s \<Longrightarrow> m \<le> n \<Longrightarrow> roomy m s"
  by (auto simp: roomy_def)

text \<open>What the factory of the link makes of the events the link writes: it recognises the idle and
  the disconnect request and has then consumed both of their numbers, so that reading the event
  itself finds nothing more; the connect events and the disconnect response are not
  recognised.\<close>

theorem control_events_recognised:
  assumes "roomy 300 s" "contents s = []"
  shows "\<exists>s1 s2. crud_serializeto ev s = Some s1 \<and>
    crud_EventFromStream s1 = Some (if ev \<in> {Idle, DisconnectRequest} then Some ev else None, s2) \<and>
    (ev \<in> {Idle, DisconnectRequest} \<longrightarrow> contents s2 = [] \<and> crud_serializefrom ev s2 = Some (ev, s2))"
proof -
  have "message_size (crud_fields ev) \<le> 300" by (cases ev) auto
  then have "roomy (message_size (crud_fields ev)) s" by (rule roomy_less [OF assms(1)])
  from write_message_appends [OF this crud_fields_ok] assms(2)
  obtain s1 where s1: "crud_serializeto ev s = Some s1" "reader_ok s1" "contents s1 = message_bits (crud_fields ev)"
    by (auto simp: crud_serializeto_fields dest: roomy_reader_ok)
  have control: ?thesis if "crud_fields ev = [Packed 1 0, Packed 1 k]" "ev \<noteq> UnknownEvent"
    "k = (case ev of Idle \<Rightarrow> 0 | ConnectResponse \<Rightarrow> 4 | DisconnectRequest \<Rightarrow> 5 | _ \<Rightarrow> 6)" for k
  proof -
    from that s1(3) have "contents s1 = packed 1 0 @ packed 1 k" by simp
    then obtain s2 where s2: "GetPackedBits 1 s1 = Some (0, s2)" "reader_ok s2" "contents s2 = packed 1 k @ []"
      using GetPackedBits_message [OF s1(2)] by auto
    have ne: "GetReadableBits s2 \<noteq> 0" using readable_bits(2) [OF s2(2)] s2(3) packed_not_Nil by auto
    obtain s3 where s3: "GetPackedBits 1 s2 = Some (k, s3)" "reader_ok s3" "contents s3 = []"
      using GetPackedBits_message [OF s2(2,3)] by auto
    have "skip_two_packed e s3 = Some (e, s3)" for e
      using GetPackedBits_empty [OF s3(2,3)] by (auto simp: skip_two_packed_def)
    with s1(1) s2(1) s3(1,3) ne that show ?thesis
      by (cases ev) (auto simp: crud_EventFromStream_def)
  qed
  show ?thesis
  proof (cases ev)
    case (ConnectRequest t v)
    then have "contents s1 = packed 1 1 @ (packed 1 t @ packed 1 v)" using s1(3) by simp
    then obtain s2 where "GetPackedBits 1 s1 = Some (1, s2)" using GetPackedBits_message [OF s1(2)] by blast
    with s1(1) ConnectRequest show ?thesis by (auto simp: crud_EventFromStream_def)
  next
    case UnknownEvent
    with s1 GetPackedBits_empty [OF s1(2)] show ?thesis by (auto simp: crud_EventFromStream_def)
  qed (use control in auto)
qed

theorem control_events_recognised_witness:
  "\<exists>s1 s2. crud_serializeto DisconnectRequest (new_stream (\<lambda>_. 205) 64) = Some s1 \<and>
    crud_EventFromStream s1 = Some (Some DisconnectRequest, s2) \<and> contents s2 = [] \<and>
    crud_serializefrom DisconnectRequest s2 = Some (DisconnectRequest, s2)"
  using control_events_recognised [of "new_stream (\<lambda>_. 205) 64" DisconnectRequest]
    roomy_new_stream [of 64 300 "\<lambda>_. 205"] new_stream_ok(2) [of 64 "\<lambda>_. 205"] by simp

end
