(* ===== verification/Team_Model.thy ===== *)
theory Team_Model
  imports Prelude
begin

text \<open>
  Teams, sidekicks and the list of players looking for a group: \<open>Common/GameData/Team.h\<close>,
  \<open>Team.cpp\<close>, \<open>LFG.h\<close>, \<open>LFG.cpp\<close> and the level accessors of \<open>CharacterHelpers.cpp\<close> they use.

  A \<open>Team\<close> is a heap object that several entities point to, so the functions on entities take
  and return the heap of teams; the methods of \<open>Team\<close> act on the record itself. Of an entity
  and its character only the members these functions touch are kept. Log output is not part of
  the model: every logging statement is switched off by its category.
\<close>

section \<open>Strings\<close>

text \<open>\<open>String::comparei\<close> compares after \<open>tolower\<close> on each character.\<close>

definition lower_char :: "char \<Rightarrow> char" where
  "lower_char c = (if of_char c \<ge> (65 :: nat) \<and> of_char c \<le> (90 :: nat) then char_of (of_char c + 32 :: nat) else c)"

definition comparei_eq :: "string \<Rightarrow> string \<Rightarrow> bool" where
  "comparei_eq a b \<longleftrightarrow> map lower_char a = map lower_char b"

lemma comparei_eq_refl [simp]: "comparei_eq a a"
  by (simp add: comparei_eq_def)

section \<open>Teams\<close>

datatype teaming_error = OK | TEAM_FULL | INVITEE_HAS_TEAM | NOT_ON_TEAM | TEAM_DISBANDED

record team_member =
  tm_idx :: u32
  tm_name :: string
  tm_map :: string
  tm_map_idx :: u32
  tm_pending :: bool

record team_data =
  m_team_idx :: u32
  m_has_taskforce :: bool
  m_team_leader_idx :: u32
  m_team_members :: "team_member list"

record team = team_data +
  m_transient :: bool
  m_max_team_size :: nat

text \<open>The constructor: the new index is one more than the counter, which the caller stores back.\<close>

definition new_team :: "u32 \<Rightarrow> bool \<Rightarrow> team \<times> u32" where
  "new_team m_team_idx_counter transient =
    (\<lparr>m_team_idx = m_team_idx_counter + 1, m_has_taskforce = False, m_team_leader_idx = 0,
      m_team_members = [], m_transient = transient, m_max_team_size = 8\<rparr>, m_team_idx_counter + 1)"

definition isNamePending :: "string \<Rightarrow> team \<Rightarrow> bool" where
  "isNamePending name t \<longleftrightarrow> (\<exists>tm \<in> set (m_team_members t). tm_name tm = name \<and> tm_pending tm)"

definition isFull :: "team \<Rightarrow> bool" where
  "isFull t \<longleftrightarrow> length (m_team_members t) \<ge> m_max_team_size t"

definition containsEntityID :: "u32 \<Rightarrow> team \<Rightarrow> bool" where
  "containsEntityID entity_id t \<longleftrightarrow> (\<exists>tm \<in> set (m_team_members t). tm_idx tm = entity_id)"

definition containsEntityName :: "string \<Rightarrow> team \<Rightarrow> bool" where
  "containsEntityName name t \<longleftrightarrow> (\<exists>tm \<in> set (m_team_members t). comparei_eq (tm_name tm) name)"

fun accept_members :: "string \<Rightarrow> u32 \<Rightarrow> team_member list \<Rightarrow> team_member list option" where
  "accept_members name entity_id [] = None"
| "accept_members name entity_id (tm # tms) =
    (if tm_name tm = name then Some (tm\<lparr>tm_pending := False, tm_idx := entity_id\<rparr> # tms)
     else map_option ((#) tm) (accept_members name entity_id tms))"

definition acceptTeamInvite :: "string \<Rightarrow> u32 \<Rightarrow> team \<Rightarrow> teaming_error \<times> team" where
  "acceptTeamInvite name entity_id t =
    (case accept_members name entity_id (m_team_members t) of
       Some tms \<Rightarrow> (OK, t\<lparr>m_team_members := tms\<rparr>)
     | None \<Rightarrow> (NOT_ON_TEAM, t))"

definition addTeamMember :: "u32 \<Rightarrow> string \<Rightarrow> bool \<Rightarrow> team \<Rightarrow> teaming_error \<times> team" where
  "addTeamMember entity_id name pending t =
    (if length (m_team_members t) \<ge> m_max_team_size t then (TEAM_FULL, t)
     else
      (let new_member = \<lparr>tm_idx = entity_id, tm_name = name, tm_map = [], tm_map_idx = 0, tm_pending = pending\<rparr>;
           t = t\<lparr>m_team_members := m_team_members t @ [new_member]\<rparr>
       in (OK, if length (m_team_members t) \<le> 1 then t\<lparr>m_team_leader_idx := entity_id\<rparr> else t)))"

text \<open>\<open>find_if\<close> and \<open>erase\<close>: without the first member that has the id.\<close>

fun erase_member :: "u32 \<Rightarrow> team_member list \<Rightarrow> team_member list option" where
  "erase_member entity_id [] = None"
| "erase_member entity_id (tm # tms) =
    (if tm_idx tm = entity_id then Some tms
     else map_option ((#) tm) (erase_member entity_id tms))"

definition team_removeTeamMember :: "u32 \<Rightarrow> team \<Rightarrow> teaming_error \<times> team" where
  "team_removeTeamMember entity_id t =
    (case erase_member entity_id (m_team_members t) of
       None \<Rightarrow> (NOT_ON_TEAM, t)
     | Some tms \<Rightarrow>
         (let t = t\<lparr>m_team_members := tms\<rparr> in
          if length tms < 2 then (TEAM_DISBANDED, t)
          else if entity_id = m_team_leader_idx t
          then (OK, t\<lparr>m_team_leader_idx := tm_idx (hd tms)\<rparr>)
          else (OK, t)))"

definition isTeamLeader :: "u32 \<Rightarrow> team \<Rightarrow> bool" where
  "isTeamLeader entity_id t \<longleftrightarrow> m_team_leader_idx t = entity_id"

section \<open>Entities\<close>

datatype sidekick_type = NoSidekick | IsSidekick | IsMentor

record sidekick =
  m_has_sidekick :: bool
  sk_type :: sidekick_type
  sk_db_id :: u32

text \<open>The members of an entity and of its character data that teaming uses.\<close>

record entity =
  e_db_id :: u32
  e_name :: string
  m_has_team :: bool
  m_team :: "nat option"
  m_sidekick :: sidekick
  e_class_name :: string
  e_origin_name :: string
  e_level :: u32
  e_combat_level :: u32
  e_lfg :: bool

type_synonym team_heap = "nat \<Rightarrow> team option"

definition getLevel :: "entity \<Rightarrow> u32" where
  "getLevel e = e_level e"

text \<open>The maximal level comes from the game data; the attributes that \<open>finalizeCombatLevel\<close> derives
  from the combat level are not kept.\<close>

definition setCombatLevel :: "u32 \<Rightarrow> u32 \<Rightarrow> entity \<Rightarrow> entity" where
  "setCombatLevel expMaxLevel val e =
    e\<lparr>e_combat_level := (if val > expMaxLevel then expMaxLevel else val)\<rparr>"

text \<open>A null team pointer or a dangling one is dereferenced with \<open>None\<close>.\<close>

definition team_of :: "team_heap \<Rightarrow> entity \<Rightarrow> team option" where
  "team_of h e = Option.bind (m_team e) h"

definition sameTeam :: "team_heap \<Rightarrow> entity \<Rightarrow> entity \<Rightarrow> bool option" where
  "sameTeam h src tgt =
    do { s \<leftarrow> team_of h src; t \<leftarrow> team_of h tgt; Some (m_team_idx s = m_team_idx t) }"

definition makeTeamLeader :: "team_heap \<Rightarrow> entity \<Rightarrow> entity \<Rightarrow> (bool \<times> team_heap) option" where
  "makeTeamLeader h src tgt =
    (if \<not> m_has_team src \<or> \<not> m_has_team tgt then Some (False, h)
     else do {
       same \<leftarrow> sameTeam h src tgt;
       if \<not> same then Some (False, h)
       else do {
         t \<leftarrow> team_of h src;
         if \<not> isTeamLeader (e_db_id src) t then Some (False, h)
         else do {
           p \<leftarrow> m_team src;
           Some (True, h(p \<mapsto> t\<lparr>m_team_leader_idx := e_db_id tgt\<rparr>)) } } })"

text \<open>\<open>new Team\<close> yields the address \<open>fresh\<close>.\<close>

definition inviteTeam :: "nat \<Rightarrow> u32 \<Rightarrow> team_heap \<Rightarrow> entity \<Rightarrow> entity \<Rightarrow>
    (bool \<times> team_heap \<times> u32 \<times> entity \<times> entity) option" where
  "inviteTeam fresh counter h src tgt =
    (if e_name src = e_name tgt then Some (False, h, counter, src, tgt)
     else if \<not> m_has_team src then
       (let (t, counter) = new_team counter False;
            src = src\<lparr>m_team := Some fresh\<rparr>;
            (_, t) = addTeamMember (e_db_id src) (e_name src) False t;
            tgt = tgt\<lparr>m_team := Some fresh\<rparr>;
            (_, t) = addTeamMember (e_db_id tgt) (e_name tgt) False t
        in Some (True, h(fresh \<mapsto> t), counter, src, tgt))
     else do {
       t \<leftarrow> team_of h src;
       p \<leftarrow> m_team src;
       if isTeamLeader (e_db_id src) t
       then Some (True, h(p \<mapsto> snd (addTeamMember (e_db_id tgt) (e_name tgt) False t)), counter, src, tgt)
       else Some (False, h, counter, src, tgt) })"

section \<open>Sidekicks\<close>

datatype sidekick_status = SUCCESS | GENERIC_FAILURE | LEVEL_DIFFERENCE_TOO_HIGH | MENTOR_LEVEL_TOO_LOW
  | CANNOT_MENTOR_YET | HAVE_SIDEKICK_ALREADY | TARGET_IS_SIDEKICKING_ALREADY
  | NO_TEAM_OR_SAME_TEAM_REQUIRED | NOT_SIDEKICKED_CURRENTLY

definition isSidekickMentor :: "entity \<Rightarrow> bool" where
  "isSidekickMentor e \<longleftrightarrow> sk_type (m_sidekick e) = IsMentor"

definition g_max_sidekick_level_difference :: u32 where
  "g_max_sidekick_level_difference = 3"

definition g_min_sidekick_mentor_level :: u32 where
  "g_min_sidekick_mentor_level = 10"

definition inviteSidekick :: "team_heap \<Rightarrow> entity \<Rightarrow> entity \<Rightarrow> (sidekick_status \<times> entity) option" where
  "inviteSidekick h src tgt =
    (if getLevel src < getLevel tgt + g_max_sidekick_level_difference then Some (MENTOR_LEVEL_TOO_LOW, tgt)
     else if getLevel src < g_min_sidekick_mentor_level then Some (CANNOT_MENTOR_YET, tgt)
     else if m_has_sidekick (m_sidekick src) then Some (HAVE_SIDEKICK_ALREADY, tgt)
     else if m_has_sidekick (m_sidekick tgt) then Some (TARGET_IS_SIDEKICKING_ALREADY, tgt)
     else if \<not> m_has_team src \<or> \<not> m_has_team tgt \<or> m_team src = None \<or> m_team tgt = None
     then Some (NO_TEAM_OR_SAME_TEAM_REQUIRED, tgt)
     else do {
       same \<leftarrow> sameTeam h src tgt;
       if \<not> same then Some (NO_TEAM_OR_SAME_TEAM_REQUIRED, tgt)
       else Some (SUCCESS, tgt\<lparr>m_sidekick := (m_sidekick tgt)\<lparr>sk_db_id := e_db_id src\<rparr>\<rparr>) })"

text \<open>\<open>addSidekick(tgt, src)\<close>, for two different entities.\<close>

definition addSidekick :: "u32 \<Rightarrow> entity \<Rightarrow> entity \<Rightarrow> entity \<times> entity" where
  "addSidekick expMaxLevel tgt src =
    (let src_lvl = getLevel src;
         src' = src\<lparr>m_sidekick := \<lparr>m_has_sidekick = True, sk_type = IsMentor, sk_db_id = e_db_id tgt\<rparr>\<rparr>;
         tgt' = tgt\<lparr>m_sidekick := \<lparr>m_has_sidekick = True, sk_type = IsSidekick, sk_db_id = e_db_id src\<rparr>\<rparr>
     in (setCombatLevel expMaxLevel (src_lvl - 1) tgt', src'))"

definition getSidekickId :: "entity \<Rightarrow> u32" where
  "getSidekickId e = sk_db_id (m_sidekick e)"

text \<open>\<open>removeSidekick\<close>: the code looks nobody up (\<open>tgt\<close> is always null), so the other side keeps
  its half of the relationship and the rest of the function is dead.\<close>

definition removeSidekick :: "u32 \<Rightarrow> entity \<Rightarrow> sidekick_status \<times> entity" where
  "removeSidekick expMaxLevel src =
    (if \<not> m_has_sidekick (m_sidekick src) \<or> sk_db_id (m_sidekick src) = 0 then (GENERIC_FAILURE, src)
     else
      (let src = src\<lparr>m_sidekick := \<lparr>m_has_sidekick = False, sk_type = NoSidekick, sk_db_id = 0\<rparr>\<rparr>
       in (SUCCESS, setCombatLevel expMaxLevel (getLevel src) src)))"

section \<open>Leaving a team\<close>

text \<open>
  The function \<open>removeTeamMember(Team &self, Entity *e)\<close>. The new leader is chosen before the
  leaving member is erased. The last member is not removed with it: the code after the
  \<open>return\<close> on the null \<open>tgt\<close> is dead.
\<close>

definition removeTeamMember :: "u32 \<Rightarrow> team \<Rightarrow> entity \<Rightarrow> team \<times> entity" where
  "removeTeamMember expMaxLevel self e =
    (case erase_member (e_db_id e) (m_team_members self) of
       None \<Rightarrow> (self, e)
     | Some tms \<Rightarrow>
        (let self = (if e_db_id e = m_team_leader_idx self
                     then self\<lparr>m_team_leader_idx := tm_idx (hd (m_team_members self))\<rparr> else self);
             self = self\<lparr>m_team_members := tms\<rparr>;
             e = e\<lparr>m_has_team := False, m_team := None\<rparr>
         in (self, if m_has_sidekick (m_sidekick e) then snd (removeSidekick expMaxLevel e) else e)))"

definition kickTeam :: "u32 \<Rightarrow> team_heap \<Rightarrow> entity \<Rightarrow> (bool \<times> team_heap \<times> entity) option" where
  "kickTeam expMaxLevel h tgt =
    (if \<not> m_has_team tgt then Some (False, h, tgt)
     else do {
       t \<leftarrow> team_of h tgt;
       p \<leftarrow> m_team tgt;
       let (t, tgt) = removeTeamMember expMaxLevel t tgt;
       Some (True, h(p \<mapsto> t), tgt) })"

definition leaveTeam :: "u32 \<Rightarrow> team_heap \<Rightarrow> entity \<Rightarrow> (team_heap \<times> entity) option" where
  "leaveTeam expMaxLevel h e =
    (case m_team e of
       None \<Rightarrow> Some (h, e)
     | Some p \<Rightarrow> do {
         t \<leftarrow> h p;
         let (t, e) = removeTeamMember expMaxLevel t e;
         Some (h(p \<mapsto> t), e) })"

section \<open>Looking for a group\<close>

record lfg_member =
  lfg_db_id :: u32
  lfg_name :: string
  lfg_classname :: string
  lfg_origin :: string
  lfg_level :: u32

text \<open>The global list \<open>g_lfg_list\<close> of \<open>LFG.cpp\<close>; \<open>addLFG\<close> leaves \<open>m_db_id\<close> uninitialised
  (\<open>junk\<close>).\<close>

definition addLFG :: "u32 \<Rightarrow> entity \<Rightarrow> lfg_member list \<Rightarrow> entity \<times> lfg_member list" where
  "addLFG junk src g_lfg_list =
    (src\<lparr>e_lfg := True\<rparr>,
     g_lfg_list @ [\<lparr>lfg_db_id = junk, lfg_name = e_name src, lfg_classname = e_class_name src,
       lfg_origin = e_origin_name src, lfg_level = e_level src\<rparr>])"

fun erase_first :: "('a \<Rightarrow> bool) \<Rightarrow> 'a list \<Rightarrow> 'a list" where
  "erase_first P [] = []"
| "erase_first P (x # xs) = (if P x then xs else x # erase_first P xs)"

definition removeLFG :: "entity \<Rightarrow> lfg_member list \<Rightarrow> entity \<times> lfg_member list" where
  "removeLFG tgt g_lfg_list =
    (tgt\<lparr>e_lfg := False\<rparr>, erase_first (\<lambda>m. lfg_name m = e_name tgt) g_lfg_list)"

end
