(* ===== verification/Team_Handler.thy ===== *)
theory Team_Handler
  imports Team_Model
begin

text \<open>
  The team service of the game server: \<open>Servers/GameServer/TeamService/TeamHandler.h\<close>,
  \<open>TeamHandler.cpp\<close> and the messages of \<open>Common/Messages/TeamService/TeamEvents.h\<close> and
  \<open>Common/Messages/UserRouterService/UserRouterEvents.h\<close>.

  A handler maps the state of the service and a message to the new state and the messages it
  puts on the queue of the map handler, in their order. The teams are owned by the list of the
  service, so a \<open>Team *\<close> is a position in that list. Events that travel inside another one
  (\<open>to_storage\<close>, \<open>from_storage\<close>) are kept as they are; serialisation is not modelled here. Of
  the character data in a message only the members the service reads or writes are kept.
\<close>

section \<open>Messages\<close>

datatype message_channel = USER_ERROR | TEAM_CHANNEL

datatype user_router_error = ROUTER_OK | USER_OFFLINE

record toggle_char_data =
  cd_class_name :: string
  cd_origin_name :: string
  cd_level :: u32
  cd_lfg :: bool

definition default_char_data :: toggle_char_data where
  "default_char_data = \<lparr>cd_class_name = [], cd_origin_name = [], cd_level = 0, cd_lfg = False\<rparr>"

datatype team_message =
    TeamMemberInvited string u32 string
  | TeamMemberKicked u32 string
  | TeamMemberInviteAccepted u32 string string
  | TeamMemberInviteDeclined u32 string string
  | TeamToggleLFG u32 string toggle_char_data
  | TeamRefreshLFG u32 string "lfg_member list"
  | TeamUpdated team_data bool
  | TeamLeaveTeam u32
  | TeamMakeLeader u32 string

text \<open>An event is a message with its session token.\<close>

type_synonym team_event = "team_message \<times> u64"

datatype out_message =
    UserRouterInfo string message_channel u32 u32
  | UserRouterOpaqueRequest team_event u32 string "u32 list" "string list" u64
  | UserRouterQueryRequest u32 string u64

text \<open>What arrives at the service.\<close>

datatype service_event =
    TeamEvent team_event
  | UserRouterQueryResponse u32 string u32 string
  | UserRouterOpaqueResponse team_event u32 user_router_error
  | ClientConnected u32
  | ClientDisconnected u32

section \<open>State\<close>

text \<open>\<open>m_id_to_name\<close> is an ordered map, the list of its entries by increasing key;
  \<open>m_pending_events\<close> is a multimap, here its entries in the order of insertion. The static
  counter of \<open>Team\<close> is part of the state.\<close>

record team_handler =
  m_team_list :: "team list"
  m_lfg_list :: "lfg_member list"
  m_id_to_name :: "(u32 \<times> string) list"
  m_pending_events :: "(string \<times> team_event) list"
  m_team_idx_counter :: u32

definition new_team_handler :: team_handler where
  "new_team_handler =
    \<lparr>m_team_list = [], m_lfg_list = [], m_id_to_name = [], m_pending_events = [], m_team_idx_counter = 0\<rparr>"

type_synonym step_result = "team_handler \<times> out_message list"

fun map_set :: "u32 \<Rightarrow> string \<Rightarrow> (u32 \<times> string) list \<Rightarrow> (u32 \<times> string) list" where
  "map_set k v [] = [(k, v)]"
| "map_set k v ((k', v') # m) =
    (if k < k' then (k, v) # (k', v') # m
     else if k = k' then (k, v) # m
     else (k', v') # map_set k v m)"

definition name_known :: "string \<Rightarrow> team_handler \<Rightarrow> bool" where
  "name_known name s \<longleftrightarrow> (\<exists>e \<in> set (m_id_to_name s). snd e = name)"

definition id_for_name :: "string \<Rightarrow> team_handler \<Rightarrow> u32" where
  "id_for_name name s =
    (case find (\<lambda>e. snd e = name) (m_id_to_name s) of Some e \<Rightarrow> fst e | None \<Rightarrow> 0)"

definition name_is_lfg :: "string \<Rightarrow> team_handler \<Rightarrow> bool" where
  "name_is_lfg name s \<longleftrightarrow> (\<exists>m \<in> set (m_lfg_list s). lfg_name m = name)"

definition db_id_is_lfg :: "u32 \<Rightarrow> team_handler \<Rightarrow> bool" where
  "db_id_is_lfg db_id s \<longleftrightarrow> (\<exists>m \<in> set (m_lfg_list s). lfg_db_id m = db_id)"

definition add_lfg :: "lfg_member \<Rightarrow> team_handler \<Rightarrow> team_handler" where
  "add_lfg m s = s\<lparr>m_lfg_list := m_lfg_list s @ [m]\<rparr>"

definition remove_lfg :: "u32 \<Rightarrow> team_handler \<Rightarrow> team_handler" where
  "remove_lfg db_id s = s\<lparr>m_lfg_list := erase_first (\<lambda>m. lfg_db_id m = db_id) (m_lfg_list s)\<rparr>"

text \<open>The first, respectively the last position whose team satisfies a condition.\<close>

definition first_team :: "(team \<Rightarrow> bool) \<Rightarrow> team_handler \<Rightarrow> nat option" where
  "first_team P s = find (\<lambda>i. P (m_team_list s ! i)) [0..<length (m_team_list s)]"

definition last_team :: "(team \<Rightarrow> bool) \<Rightarrow> team_handler \<Rightarrow> nat option" where
  "last_team P s = find (\<lambda>i. P (m_team_list s ! i)) (rev [0..<length (m_team_list s)])"

definition team_for_db_id :: "u32 \<Rightarrow> team_handler \<Rightarrow> nat option" where
  "team_for_db_id db_id = first_team (containsEntityID db_id)"

definition team_for_name :: "string \<Rightarrow> team_handler \<Rightarrow> nat option" where
  "team_for_name name = first_team (containsEntityName name)"

definition set_team :: "nat \<Rightarrow> team \<Rightarrow> team_handler \<Rightarrow> team_handler" where
  "set_team i t s = s\<lparr>m_team_list := (m_team_list s)[i := t]\<rparr>"

text \<open>\<open>delete_team\<close> goes by the index of the team, not by its address.\<close>

definition delete_team :: "u32 \<Rightarrow> team_handler \<Rightarrow> bool \<times> team_handler" where
  "delete_team idx s =
    ((\<exists>t \<in> set (m_team_list s). m_team_idx t = idx),
     s\<lparr>m_team_list := erase_first (\<lambda>t. m_team_idx t = idx) (m_team_list s)\<rparr>)"

section \<open>Notification\<close>

fun notify_members :: "u64 \<Rightarrow> team_member list \<Rightarrow> team_handler \<Rightarrow> step_result" where
  "notify_members token [] s = (s, [])"
| "notify_members token (m # ms) s =
    (if tm_pending m then notify_members token ms s
     else if db_id_is_lfg (tm_idx m) s then
       (let (s, out) = notify_members token ms (remove_lfg (tm_idx m) s)
        in (s, UserRouterOpaqueRequest
                 (TeamToggleLFG (tm_idx m) (tm_name m) (default_char_data\<lparr>cd_lfg := False\<rparr>), token)
                 (tm_idx m) (tm_name m) [tm_idx m] [tm_name m] token # out))
     else notify_members token ms s)"

definition notify_team_of_changes :: "team \<Rightarrow> u64 \<Rightarrow> team_handler \<Rightarrow> step_result" where
  "notify_team_of_changes t session_token s =
    (let (s, out) = notify_members session_token (m_team_members t) s;
         present = filter (\<lambda>m. \<not> tm_pending m) (m_team_members t);
         d = (team_data.truncate t)\<lparr>m_team_members := present\<rparr>
     in (s, out @ [UserRouterOpaqueRequest (TeamUpdated d (length present < 2), 0)
                     (m_team_leader_idx d) [] (map tm_idx present) (map tm_name present) 0]))"

section \<open>Handlers\<close>

definition error_to :: "u32 \<Rightarrow> string \<Rightarrow> out_message" where
  "error_to i m = UserRouterInfo m USER_ERROR i i"

text \<open>The text for the answer to a forwarded event; some answers are not passed on.\<close>

definition on_user_router_opaque_response :: "team_event \<Rightarrow> u32 \<Rightarrow> user_router_error \<Rightarrow> team_handler \<Rightarrow> step_result" where
  "on_user_router_opaque_response src_event sender_id e s =
    (let info = (\<lambda>m c. (s, [UserRouterInfo m c sender_id sender_id])) in
     case fst src_event of
       TeamMemberInvited _ _ _ \<Rightarrow>
         (if e = USER_OFFLINE then info ''The user you invited is offline.'' USER_ERROR
          else info ''Team invite sent!'' TEAM_CHANNEL)
     | TeamToggleLFG _ _ _ \<Rightarrow>
         (if e = USER_OFFLINE then info ''Weird error on toggling LFG.'' USER_ERROR
          else info ''Toggling LFG'' TEAM_CHANNEL)
     | TeamRefreshLFG _ _ _ \<Rightarrow>
         (if e = USER_OFFLINE then info ''Weird error on refreshing LFG.'' USER_ERROR
          else info ''Refreshing LFG list'' TEAM_CHANNEL)
     | TeamUpdated _ _ \<Rightarrow> (s, [])
     | TeamMemberKicked _ _ \<Rightarrow> (s, [])
     | TeamLeaveTeam _ \<Rightarrow> (s, [])
     | _ \<Rightarrow> info ''Unknown Error'' USER_ERROR)"

text \<open>
  \<open>on_team_member_invited\<close>. The two teams are the last ones in the list that contain the
  players. Inside \<open>invite_checked\<close> both names are known and the checks on the leader's team
  have passed.
\<close>

definition invite_checked :: "team_event \<Rightarrow> string \<Rightarrow> u32 \<Rightarrow> string \<Rightarrow> u32 \<Rightarrow> nat option \<Rightarrow> nat option \<Rightarrow>
    team_handler \<Rightarrow> step_result" where
  "invite_checked ev leader_name leader_id invitee_name invitee_id leader_team invitee_team s =
    (case invitee_team of
       Some i \<Rightarrow>
         (s, [UserRouterInfo
                (if isNamePending invitee_name (m_team_list s ! i)
                 then invitee_name @ '' is already deciding about a team invitation.''
                 else invitee_name @ '' is already on a team.'') TEAM_CHANNEL leader_id leader_id])
     | None \<Rightarrow>
         (let (i, s) =
            (case leader_team of
               Some i \<Rightarrow> (i, s)
             | None \<Rightarrow>
                 (let (t, c) = new_team (m_team_idx_counter s) True;
                      (_, t) = addTeamMember leader_id leader_name False t
                  in (length (m_team_list s),
                      s\<lparr>m_team_list := m_team_list s @ [t], m_team_idx_counter := c\<rparr>)));
              (e, t) = addTeamMember invitee_id invitee_name True (m_team_list s ! i)
          in if e \<noteq> OK then (s, [])
             else (set_team i t s,
                   [UserRouterOpaqueRequest ev leader_id leader_name [] [invitee_name] (snd ev)])))"

definition on_team_member_invited :: "string \<Rightarrow> u32 \<Rightarrow> string \<Rightarrow> u64 \<Rightarrow> team_handler \<Rightarrow> step_result" where
  "on_team_member_invited leader_name leader_id invitee_name token s =
    (let ev = (TeamMemberInvited leader_name leader_id invitee_name, token);
         s = s\<lparr>m_id_to_name := map_set leader_id leader_name (m_id_to_name s)\<rparr>
     in if \<not> name_known invitee_name s then
          (s\<lparr>m_pending_events := m_pending_events s @ [(invitee_name, ev)]\<rparr>,
           [UserRouterQueryRequest 0 invitee_name token])
        else
         (let invitee_id = id_for_name invitee_name s in
          if invitee_name = leader_name then
            (s, [error_to leader_id ''You cannot invite yourself to a team.''])
          else
           (let leader_team = last_team (containsEntityID leader_id) s;
                invitee_team = last_team (containsEntityID invitee_id) s
            in case leader_team of
                 Some i \<Rightarrow>
                   (if \<not> isTeamLeader leader_id (m_team_list s ! i) then
                      (s, [error_to leader_id ''You must be the team leader to invite a player.''])
                    else if isFull (m_team_list s ! i) then
                      (s, [error_to leader_id
                             ''Your team is full or has too many pending invites. You cannot invite another player.''])
                    else invite_checked ev leader_name leader_id invitee_name invitee_id leader_team invitee_team s)
               | None \<Rightarrow> invite_checked ev leader_name leader_id invitee_name invitee_id leader_team invitee_team s)))"

text \<open>What \<open>on_team_member_kicked\<close> and \<open>on_team_leave_team\<close> do once the member is removed.\<close>

definition member_removed :: "nat \<Rightarrow> teaming_error \<Rightarrow> team \<Rightarrow> out_message \<Rightarrow> team_handler \<Rightarrow> step_result" where
  "member_removed i e t forward s =
    (let s = set_team i t s;
         (s, out) = notify_team_of_changes t 0 s;
         s = (if e = TEAM_DISBANDED then snd (delete_team (m_team_idx t) s) else s)
     in (s, forward # out))"

definition on_team_member_kicked :: "u32 \<Rightarrow> string \<Rightarrow> u64 \<Rightarrow> team_handler \<Rightarrow> step_result" where
  "on_team_member_kicked leader_id kickee_name token s =
    (case first_team (isTeamLeader leader_id) s of
       None \<Rightarrow> (s, [error_to leader_id ''You are not the leader of a team.''])
     | Some i \<Rightarrow>
         (let (e, t) = team_removeTeamMember (id_for_name kickee_name s) (m_team_list s ! i)
          in if e = OK \<or> e = TEAM_DISBANDED then
               member_removed i e t
                 (UserRouterOpaqueRequest (TeamMemberKicked leader_id kickee_name, token)
                    leader_id [] [] [kickee_name] token) s
             else (s, [error_to leader_id ''There was an error kicking that player.''])))"

definition on_team_member_make_leader :: "u32 \<Rightarrow> string \<Rightarrow> u64 \<Rightarrow> team_handler \<Rightarrow> step_result" where
  "on_team_member_make_leader leader_id new_leader_name token s =
    (case first_team (isTeamLeader leader_id) s of
       None \<Rightarrow> (s, [error_to leader_id ''You are not the leader of a team.''])
     | Some i \<Rightarrow>
         (let t = m_team_list s ! i in
          if \<not> containsEntityName new_leader_name t \<or> isNamePending new_leader_name t then
            (s, [error_to leader_id ''You must pass leadership to a player on your team.''])
          else if \<not> name_known new_leader_name s then
            (s\<lparr>m_pending_events := m_pending_events s @
                 [(new_leader_name, (TeamMakeLeader leader_id new_leader_name, token))]\<rparr>,
             [UserRouterQueryRequest 0 new_leader_name token])
          else
           (let t = t\<lparr>m_team_leader_idx := id_for_name new_leader_name s\<rparr>
            in notify_team_of_changes t 0 (set_team i t s))))"

definition on_team_leave_team :: "u32 \<Rightarrow> u64 \<Rightarrow> team_handler \<Rightarrow> step_result" where
  "on_team_leave_team i_d token s =
    (case first_team (containsEntityID i_d) s of
       None \<Rightarrow> (s, [error_to i_d ''You are not on a team.''])
     | Some i \<Rightarrow>
         (let (e, t) = team_removeTeamMember i_d (m_team_list s ! i)
          in if e = OK \<or> e = TEAM_DISBANDED then
               member_removed i e t (UserRouterOpaqueRequest (TeamLeaveTeam i_d, token) i_d [] [i_d] [] token) s
             else (s, [error_to i_d ''There was an error leaving the team.''])))"

definition on_team_member_invite_handled :: "u32 \<Rightarrow> string \<Rightarrow> string \<Rightarrow> bool \<Rightarrow> u64 \<Rightarrow> team_handler \<Rightarrow> step_result" where
  "on_team_member_invite_handled invitee_id invitee_name leader_name accepted session_token s =
    (case last_team (containsEntityName invitee_name) s of
       None \<Rightarrow> (s, [error_to invitee_id ''The team invitation has expired or is invalid.''])
     | Some i \<Rightarrow>
         (let t = m_team_list s ! i in
          if \<not> isTeamLeader (id_for_name leader_name s) t then
            (s, [error_to invitee_id ''The team leader has changed since this invite was sent.''])
          else if \<not> isNamePending invitee_name t then
            (s, [error_to invitee_id ''The team invitation has has already been handled.''])
          else if accepted then
            (let (e, t) = acceptTeamInvite invitee_name invitee_id t
             in if e = OK
                then (let t = t\<lparr>m_transient := False\<rparr> in notify_team_of_changes t session_token (set_team i t s))
                else (s, []))
          else
            (let (e, t) = team_removeTeamMember (id_for_name invitee_name s) t;
                 s = set_team i t s;
                 s = (if e = TEAM_DISBANDED then snd (delete_team (m_team_idx t) s) else s)
             in (s, if e = TEAM_DISBANDED \<or> e = OK
                    then [error_to invitee_id ''The team invitation has been declined.''] else []))))"

definition on_team_refresh_lfg :: "u32 \<Rightarrow> string \<Rightarrow> u64 \<Rightarrow> team_handler \<Rightarrow> step_result" where
  "on_team_refresh_lfg db_id name token s =
    (s, [UserRouterOpaqueRequest (TeamRefreshLFG db_id name (m_lfg_list s), token) db_id name [db_id] [name] token])"

definition on_team_toggle_lfg :: "u32 \<Rightarrow> string \<Rightarrow> toggle_char_data \<Rightarrow> u64 \<Rightarrow> team_handler \<Rightarrow> step_result" where
  "on_team_toggle_lfg db_id name cd token s =
    (let toggled = (\<lambda>b. UserRouterOpaqueRequest (TeamToggleLFG db_id name (cd\<lparr>cd_lfg := b\<rparr>), token)
                          db_id name [db_id] [name] token)
     in if db_id_is_lfg db_id s then (remove_lfg db_id s, [toggled False])
        else
         (let on_team = (case team_for_db_id db_id s of
                           Some i \<Rightarrow> \<not> isNamePending name (m_team_list s ! i) | None \<Rightarrow> False)
          in if on_team then
               (s, [error_to db_id ''You are already on a team! You cannot enable LFG.''])
             else
              (let s = add_lfg \<lparr>lfg_db_id = db_id, lfg_name = name, lfg_classname = cd_class_name cd,
                         lfg_origin = cd_origin_name cd, lfg_level = cd_level cd\<rparr> s
               in (s, [toggled True,
                       UserRouterOpaqueRequest (TeamRefreshLFG db_id name (m_lfg_list s), 0)
                         db_id name [db_id] [name] token]))))"

section \<open>Dispatch\<close>

text \<open>\<open>dispatch\<close> on the messages of the service; \<open>None\<close> is its \<open>assert(false)\<close>.\<close>

definition dispatch_team :: "team_event \<Rightarrow> team_handler \<Rightarrow> step_result option" where
  "dispatch_team ev s =
    (let token = snd ev in
     case fst ev of
       TeamMemberInvited leader_name leader_id invitee_name \<Rightarrow>
         Some (on_team_member_invited leader_name leader_id invitee_name token s)
     | TeamMemberKicked leader_id kickee_name \<Rightarrow> Some (on_team_member_kicked leader_id kickee_name token s)
     | TeamMakeLeader leader_id new_leader_name \<Rightarrow>
         Some (on_team_member_make_leader leader_id new_leader_name token s)
     | TeamLeaveTeam i \<Rightarrow> Some (on_team_leave_team i token s)
     | TeamMemberInviteAccepted i n l \<Rightarrow> Some (on_team_member_invite_handled i n l True token s)
     | TeamMemberInviteDeclined i n l \<Rightarrow> Some (on_team_member_invite_handled i n l False token s)
     | TeamToggleLFG i n cd \<Rightarrow> Some (on_team_toggle_lfg i n cd token s)
     | TeamRefreshLFG i n _ \<Rightarrow> Some (on_team_refresh_lfg i n token s)
     | TeamUpdated _ _ \<Rightarrow> None)"

text \<open>
  The loop of \<open>on_user_router_query_response\<close> over the multimap of waiting events. A dispatched
  event may add further events for the same name, which the loop then meets too, so it need not
  end; \<open>i\<close> counts the events for this name that are done. Only events of the service wait.
\<close>

partial_function (option) pending_loop :: "nat \<Rightarrow> string \<Rightarrow> team_handler \<Rightarrow> out_message list \<Rightarrow> step_result option" where
  "pending_loop i name s out =
    (let waiting = filter (\<lambda>e. fst e = name) (m_pending_events s) in
     if i < length waiting then
       Option.bind (dispatch_team (snd (waiting ! i)) s)
         (\<lambda>(s, out'). pending_loop (i + 1) name s (out @ out'))
     else Some (s, out))"

definition on_user_router_query_response :: "u32 \<Rightarrow> string \<Rightarrow> team_handler \<Rightarrow> step_result option" where
  "on_user_router_query_response response_id response_name s =
    (if \<not> (\<exists>e \<in> set (m_pending_events s). fst e = response_name) then None
     else do {
       (s, out) \<leftarrow> pending_loop 0 response_name
                    (s\<lparr>m_id_to_name := map_set response_id response_name (m_id_to_name s)\<rparr>) [];
       Some (s\<lparr>m_pending_events := filter (\<lambda>e. fst e \<noteq> response_name) (m_pending_events s)\<rparr>, out) })"

definition dispatch :: "service_event \<Rightarrow> team_handler \<Rightarrow> step_result option" where
  "dispatch ev s =
    (case ev of
       TeamEvent e \<Rightarrow> dispatch_team e s
     | UserRouterQueryResponse _ _ response_id response_name \<Rightarrow>
         on_user_router_query_response response_id response_name s
     | UserRouterOpaqueResponse e sender_id err \<Rightarrow> Some (on_user_router_opaque_response e sender_id err s)
     | ClientConnected _ \<Rightarrow> Some (s, [])
     | ClientDisconnected _ \<Rightarrow> Some (s, []))"

end
