(* ===== verification/Team_Invariant.thy ===== *)
theory Team_Invariant
  imports Team_Handler
begin

text \<open>
  The invariant of the team service. Players are identified by a number and a name; \<open>nm\<close> is the
  directory that gives each number its name, and two players never have names that agree up to
  letter case. An event is honest when the pairs of number and name in it are those of the
  directory. Under honest events every team stays well-formed and no player is on two teams.
\<close>

section \<open>Well-formed lists of teams\<close>

abbreviation ids :: "team \<Rightarrow> u32 list" where
  "ids t \<equiv> map tm_idx (m_team_members t)"

definition directory :: "(u32 \<Rightarrow> string) \<Rightarrow> bool" where
  "directory nm \<longleftrightarrow> (\<forall>i j. comparei_eq (nm i) (nm j) \<longrightarrow> i = j)"

definition team_ok :: "(u32 \<Rightarrow> string) \<Rightarrow> team \<Rightarrow> bool" where
  "team_ok nm t \<longleftrightarrow> 2 \<le> length (m_team_members t) \<and> length (m_team_members t) \<le> 8 \<and> m_max_team_size t = 8 \<and>
    m_team_leader_idx t \<in> set (ids t) \<and> (\<forall>m \<in> set (m_team_members t). tm_name m = nm (tm_idx m))"

text \<open>All players of a list of teams.\<close>

definition player_ids :: "team list \<Rightarrow> u32 list" where
  "player_ids ts = concat (map ids ts)"

lemma player_ids_simps [simp]:
  "player_ids [] = []" "player_ids (t # ts) = ids t @ player_ids ts" "player_ids (us @ vs) = player_ids us @ player_ids vs"
  by (simp_all add: player_ids_def)

lemma set_player_ids: "i \<in> set (player_ids ts) \<longleftrightarrow> (\<exists>t \<in> set ts. i \<in> set (ids t))"
  by (auto simp: player_ids_def)

definition teams_ok :: "(u32 \<Rightarrow> string) \<Rightarrow> team list \<Rightarrow> bool" where
  "teams_ok nm ts \<longleftrightarrow> (\<forall>t \<in> set ts. team_ok nm t) \<and> distinct (map m_team_idx ts) \<and> distinct (player_ids ts)"

lemma directoryD: "directory nm \<Longrightarrow> comparei_eq (nm i) (nm j) \<Longrightarrow> i = j"
  by (simp add: directory_def)

lemma directory_eq: "directory nm \<Longrightarrow> nm i = nm j \<longleftrightarrow> i = j"
  using directoryD [of nm i j] by auto

lemma teams_ok_Nil [simp]: "teams_ok nm []"
  by (simp add: teams_ok_def)

lemma teams_ok_distinct: "teams_ok nm (us @ t # vs) \<Longrightarrow> distinct (ids t)"
  by (simp add: teams_ok_def)

lemma teams_ok_team: "teams_ok nm (us @ t # vs) \<Longrightarrow> team_ok nm t"
  by (simp add: teams_ok_def)

lemma teams_ok_replace:
  assumes "teams_ok nm (us @ t # vs)" "team_ok nm t'" "m_team_idx t' = m_team_idx t"
    "set (ids t') \<subseteq> set (ids t)" "distinct (ids t')"
  shows "teams_ok nm (us @ t' # vs)"
proof -
  have "distinct (player_ids us @ ids t' @ player_ids vs)"
    using assms(1,4,5) unfolding teams_ok_def player_ids_simps distinct_append set_append by blast
  with assms(1-3) show ?thesis by (simp add: teams_ok_def)
qed

lemma teams_ok_remove: "teams_ok nm (us @ t # vs) \<Longrightarrow> teams_ok nm (us @ vs)"
  unfolding teams_ok_def by auto

lemma teams_ok_extend:
  assumes "teams_ok nm (us @ t # vs)" "team_ok nm t'" "m_team_idx t' = m_team_idx t"
    "ids t' = ids t @ [i]" "i \<notin> set (player_ids (us @ t # vs))"
  shows "teams_ok nm (us @ t' # vs)"
proof -
  have "distinct (player_ids us @ ids t' @ player_ids vs)"
    using assms(1,4,5) unfolding teams_ok_def player_ids_simps distinct_append set_append by auto
  with assms(1-3) show ?thesis by (simp add: teams_ok_def)
qed

lemma teams_ok_append:
  assumes "teams_ok nm ts" "team_ok nm t" "m_team_idx t \<notin> m_team_idx ` set ts" "distinct (ids t)"
    "set (ids t) \<inter> set (player_ids ts) = {}"
  shows "teams_ok nm (ts @ [t])"
  using assms unfolding teams_ok_def by auto

section \<open>Searching the list\<close>

lemma containsEntityID_ids: "containsEntityID i t \<longleftrightarrow> i \<in> set (ids t)"
  by (auto simp: containsEntityID_def)

lemma find_index_Some:
  assumes "find (\<lambda>i. P (ts ! i)) is = Some i" "\<forall>j \<in> set is. j < length ts"
  obtains us t vs where "ts = us @ t # vs" "length us = i" "P t"
proof -
  from assms(1) have "P (ts ! i)" "i \<in> set is" by (auto simp: find_Some_iff)
  with assms(2) have i: "i < length ts" by blast
  from id_take_nth_drop [OF i] i \<open>P (ts ! i)\<close> show ?thesis by (intro that [of "take i ts" "ts ! i"]) auto
qed

lemma first_team_Some:
  assumes "first_team P s = Some i"
  obtains us t vs where "m_team_list s = us @ t # vs" "length us = i" "P t"
  using find_index_Some [OF assms [unfolded first_team_def]] by auto

lemma last_team_Some:
  assumes "last_team P s = Some i"
  obtains us t vs where "m_team_list s = us @ t # vs" "length us = i" "P t"
  using find_index_Some [OF assms [unfolded last_team_def]] by auto

lemma first_team_None: "first_team P s = None \<Longrightarrow> t \<in> set (m_team_list s) \<Longrightarrow> \<not> P t"
  by (auto simp: first_team_def find_None_iff in_set_conv_nth)

lemma last_team_None: "last_team P s = None \<Longrightarrow> t \<in> set (m_team_list s) \<Longrightarrow> \<not> P t"
  by (auto simp: last_team_def find_None_iff in_set_conv_nth)

lemma m_team_list_set_team [simp]:
  "m_team_list s = us @ t # vs \<Longrightarrow> m_team_list (set_team (length us) t' s) = us @ t' # vs"
  by (simp add: set_team_def)

lemma erase_first_skip: "\<forall>u \<in> set us. \<not> P u \<Longrightarrow> P t \<Longrightarrow> erase_first P (us @ t # vs) = us @ vs"
  by (induction us) auto

lemma delete_team_removes:
  assumes "m_team_list s = us @ t # vs" "distinct (map m_team_idx (us @ t # vs))"
  shows "snd (delete_team (m_team_idx t) s) = s\<lparr>m_team_list := us @ vs\<rparr>"
proof -
  have "\<forall>u \<in> set us. m_team_idx u \<noteq> m_team_idx t"
    using assms(2) by simp (metis imageI)
  from erase_first_skip [OF this refl] assms(1) show ?thesis by (simp add: delete_team_def)
qed

section \<open>Operations on a team\<close>

lemma erase_member_Some:
  assumes "erase_member i ms = Some ms'"
  shows "\<exists>us m vs. ms = us @ m # vs \<and> ms' = us @ vs \<and> tm_idx m = i \<and> i \<notin> set (map tm_idx us)"
  using assms
proof (induction ms arbitrary: ms')
  case (Cons m ms)
  show ?case
  proof (cases "tm_idx m = i")
    case True
    with Cons.prems show ?thesis by (intro exI [of _ "[]"]) auto
  next
    case False
    with Cons.prems obtain ms1 where "erase_member i ms = Some ms1" "ms' = m # ms1" by auto
    with Cons.IH obtain us m' vs where "ms = us @ m' # vs" "ms1 = us @ vs" "tm_idx m' = i" "i \<notin> set (map tm_idx us)"
      by blast
    with \<open>ms' = m # ms1\<close> False show ?thesis by (intro exI [of _ "m # us"]) auto
  qed
qed simp

lemma erase_member_None: "erase_member i ms = None \<longleftrightarrow> i \<notin> set (map tm_idx ms)"
  by (induction ms) auto

text \<open>Removing a member leaves a well-formed team, unless the team is to be disbanded.\<close>

lemma team_removeTeamMember_cases:
  assumes "team_ok nm t" "distinct (ids t)" "team_removeTeamMember i t = (e, t')"
  obtains "e = NOT_ON_TEAM" "t' = t" "i \<notin> set (ids t)"
  | "e = TEAM_DISBANDED" "m_team_idx t' = m_team_idx t" "i \<in> set (ids t)" "length (m_team_members t) = 2"
    "set (m_team_members t') \<subseteq> set (m_team_members t)"
  | "e = OK" "team_ok nm t'" "m_team_idx t' = m_team_idx t" "set (ids t') = set (ids t) - {i}" "distinct (ids t')"
    "set (m_team_members t') \<subseteq> set (m_team_members t)" "m_transient t' = m_transient t" "i \<in> set (ids t)"
proof (cases "erase_member i (m_team_members t)")
  case None
  with that(1) assms(3) show ?thesis by (auto simp: team_removeTeamMember_def erase_member_None)
next
  case (Some ms')
  from erase_member_Some [OF this] obtain us m vs where
    m: "m_team_members t = us @ m # vs" "ms' = us @ vs" "tm_idx m = i" by blast
  from assms(2) m(1,3) have d: "i \<notin> set (map tm_idx (us @ vs))" "distinct (map tm_idx (us @ vs))" by auto
  from Some assms(3) have res: "(e, t') = (if length ms' < 2 then (TEAM_DISBANDED, t\<lparr>m_team_members := ms'\<rparr>)
      else if i = m_team_leader_idx t then (OK, t\<lparr>m_team_members := ms', m_team_leader_idx := tm_idx (hd ms')\<rparr>)
      else (OK, t\<lparr>m_team_members := ms'\<rparr>))"
    by (auto simp: team_removeTeamMember_def Let_def split: if_splits)
  show ?thesis
  proof (cases "length ms' < 2")
    case True
    have "2 \<le> length (m_team_members t)" using assms(1) by (simp add: team_ok_def)
    with True res m show ?thesis by (intro that(2)) auto
  next
    case False
    then have ne: "hd ms' \<in> set ms'" by (intro hd_in_set) auto
    from False res have e: "e = OK" and t': "t' = t\<lparr>m_team_members := ms',
        m_team_leader_idx := (if i = m_team_leader_idx t then tm_idx (hd ms') else m_team_leader_idx t)\<rparr>"
      by (auto split: if_splits)
    have "m_team_leader_idx t \<in> set (ids t)" using assms(1) by (simp add: team_ok_def)
    with m ne have lead: "m_team_leader_idx t' \<in> set (map tm_idx ms')" by (auto simp: t')
    have sub: "set ms' \<subseteq> set (m_team_members t)" "length ms' \<le> length (m_team_members t)"
      and rest: "set (map tm_idx ms') = set (ids t) - {i}" "distinct (map tm_idx ms')" "i \<in> set (ids t)"
      using m d by auto
    have t'_simps: "m_team_members t' = ms'" "m_team_idx t' = m_team_idx t" "m_transient t' = m_transient t"
      "m_max_team_size t' = m_max_team_size t" by (simp_all add: t')
    have "team_ok nm t'" using assms(1) sub False lead unfolding team_ok_def t'_simps by auto
    from that(3) [OF e this] show ?thesis using sub(1) rest unfolding t'_simps by blast
  qed
qed

lemma addTeamMember_ok:
  assumes "team_ok nm t" "length (m_team_members t) < 8"
  shows "addTeamMember i (nm i) b t =
      (OK, t\<lparr>m_team_members := m_team_members t @ [\<lparr>tm_idx = i, tm_name = nm i, tm_map = [], tm_map_idx = 0, tm_pending = b\<rparr>]\<rparr>)"
    "team_ok nm (snd (addTeamMember i (nm i) b t))"
  using assms by (auto simp: team_ok_def addTeamMember_def Let_def)

lemma accept_members_Some:
  assumes "accept_members n i ms = Some ms'"
  shows "\<exists>us m vs. ms = us @ m # vs \<and> tm_name m = n \<and> ms' = us @ m\<lparr>tm_pending := False, tm_idx := i\<rparr> # vs"
  using assms
proof (induction ms arbitrary: ms')
  case (Cons m ms)
  show ?case
  proof (cases "tm_name m = n")
    case True
    with Cons.prems show ?thesis by (intro exI [of _ "[]"]) auto
  next
    case False
    with Cons.prems obtain ms1 where "accept_members n i ms = Some ms1" "ms' = m # ms1" by auto
    with Cons.IH obtain us m' vs where "ms = us @ m' # vs" "tm_name m' = n" "ms1 = us @ m'\<lparr>tm_pending := False, tm_idx := i\<rparr> # vs"
      by blast
    with \<open>ms' = m # ms1\<close> show ?thesis by (intro exI [of _ "m # us"]) auto
  qed
qed simp

lemma accept_members_None: "accept_members n i ms = None \<longleftrightarrow> n \<notin> set (map tm_name ms)"
  by (induction ms) auto

text \<open>Accepting changes neither the players of the team nor their order.\<close>

lemma acceptTeamInvite_cases:
  assumes "directory nm" "team_ok nm t" "acceptTeamInvite (nm i) i t = (e, t')"
  obtains "e = NOT_ON_TEAM" "t' = t" "nm i \<notin> set (map tm_name (m_team_members t))"
  | us m vs where "e = OK" "team_ok nm t'" "m_team_idx t' = m_team_idx t" "ids t' = ids t" "tm_idx m = i"
    "m_team_members t = us @ m # vs" "m_team_members t' = us @ m\<lparr>tm_pending := False\<rparr> # vs"
    "m_transient t' = m_transient t" "m_team_leader_idx t' = m_team_leader_idx t"
proof (cases "accept_members (nm i) i (m_team_members t)")
  case None
  with that(1) assms(3) show ?thesis by (auto simp: acceptTeamInvite_def accept_members_None)
next
  case (Some ms')
  from accept_members_Some [OF this] obtain us m vs where
    m: "m_team_members t = us @ m # vs" "tm_name m = nm i" "ms' = us @ m\<lparr>tm_pending := False, tm_idx := i\<rparr> # vs" by blast
  have "tm_idx m = i" using assms(1,2) m(1,2) directory_eq [OF assms(1)] by (auto simp: team_ok_def)
  moreover have "e = OK" "t' = t\<lparr>m_team_members := us @ m\<lparr>tm_pending := False\<rparr> # vs\<rparr>"
    using Some assms(3) m(3) \<open>tm_idx m = i\<close> by (auto simp: acceptTeamInvite_def)
  ultimately show ?thesis using assms(2) m(1) by (intro that(2) [of m us vs]) (auto simp: team_ok_def)
qed

section \<open>The invariant of the service\<close>

fun honest :: "(u32 \<Rightarrow> string) \<Rightarrow> team_message \<Rightarrow> bool" where
  "honest nm (TeamMemberInvited leader_name leader_id _) \<longleftrightarrow> leader_name = nm leader_id"
| "honest nm (TeamMemberInviteAccepted i n _) \<longleftrightarrow> n = nm i"
| "honest nm (TeamMemberInviteDeclined i n _) \<longleftrightarrow> n = nm i"
| "honest nm (TeamToggleLFG i n _) \<longleftrightarrow> n = nm i"
| "honest nm (TeamUpdated _ _) \<longleftrightarrow> False"
| "honest nm _ \<longleftrightarrow> True"

text \<open>The events that are put off until the number of a name is known.\<close>

fun waits_for :: "string \<Rightarrow> team_message \<Rightarrow> bool" where
  "waits_for k (TeamMemberInvited _ _ invitee_name) \<longleftrightarrow> invitee_name = k"
| "waits_for k (TeamMakeLeader _ new_leader_name) \<longleftrightarrow> new_leader_name = k"
| "waits_for k _ \<longleftrightarrow> False"

definition present :: "team \<Rightarrow> u32 set" where
  "present t = tm_idx ` {m \<in> set (m_team_members t). \<not> tm_pending m}"

text \<open>On a team that has been joined by somebody, nobody is looking for a group any more.\<close>

definition established :: "team list \<Rightarrow> lfg_member list \<Rightarrow> bool" where
  "established ts lfg \<longleftrightarrow> (\<forall>t \<in> set ts. m_transient t \<or> present t \<inter> lfg_db_id ` set lfg = {})"

definition handler_ok :: "(u32 \<Rightarrow> string) \<Rightarrow> nat \<Rightarrow> team_handler \<Rightarrow> bool" where
  "handler_ok nm n s \<longleftrightarrow> teams_ok nm (m_team_list s) \<and>
    (\<forall>t \<in> set (m_team_list s). unat (m_team_idx t) \<le> unat (m_team_idx_counter s)) \<and>
    unat (m_team_idx_counter s) \<le> n \<and>
    (\<forall>e \<in> set (m_id_to_name s). snd e = nm (fst e)) \<and>
    (\<forall>e \<in> set (m_pending_events s). honest nm (fst (snd e)) \<and> waits_for (fst e) (fst (snd e))) \<and>
    distinct (map lfg_db_id (m_lfg_list s)) \<and> established (m_team_list s) (m_lfg_list s)"

lemma handler_ok_teams: "handler_ok nm n s \<Longrightarrow> teams_ok nm (m_team_list s)"
  by (simp add: handler_ok_def)

lemma handler_ok_mono: "handler_ok nm n s \<Longrightarrow> n \<le> k \<Longrightarrow> handler_ok nm k s"
  by (auto simp: handler_ok_def)

lemma handler_ok_new: "handler_ok nm n new_team_handler"
  by (simp add: handler_ok_def new_team_handler_def established_def)

lemma set_map_set: "set (map_set k v m) \<subseteq> insert (k, v) (set m)" "(k, v) \<in> set (map_set k v m)"
  by (induction k v m rule: map_set.induct) (auto split: if_splits)

lemma handler_ok_map_set:
  "handler_ok nm n s \<Longrightarrow> handler_ok nm n (s\<lparr>m_id_to_name := map_set i (nm i) (m_id_to_name s)\<rparr>)"
  using set_map_set(1) [of i "nm i" "m_id_to_name s"] by (auto simp: handler_ok_def)

lemma handler_ok_pending:
  "handler_ok nm n s \<Longrightarrow> set ps \<subseteq> set (m_pending_events s) \<union> {e. honest nm (fst (snd e)) \<and> waits_for (fst e) (fst (snd e))}
   \<Longrightarrow> handler_ok nm n (s\<lparr>m_pending_events := ps\<rparr>)"
  by (auto simp: handler_ok_def)

lemma id_for_name_known:
  assumes "handler_ok nm n s" "name_known k s"
  shows "nm (id_for_name k s) = k"
proof -
  from assms(2) obtain e where "e \<in> set (m_id_to_name s)" "snd e = k" by (auto simp: name_known_def)
  then have "find (\<lambda>e. snd e = k) (m_id_to_name s) \<noteq> None"
    unfolding find_None_iff by blast
  then obtain e' where e': "find (\<lambda>e. snd e = k) (m_id_to_name s) = Some e'" by blast
  then have "e' \<in> set (m_id_to_name s)" "snd e' = k" by (auto simp: find_Some_iff)
  with assms(1) have "k = nm (fst e')" unfolding handler_ok_def by auto
  with e' show ?thesis by (simp add: id_for_name_def)
qed

section \<open>What notification does\<close>

lemma erase_first_distinct:
  "distinct (map lfg_db_id l) \<Longrightarrow> erase_first (\<lambda>m. lfg_db_id m = i) l = filter (\<lambda>m. lfg_db_id m \<noteq> i) l"
  by (induction l) (auto simp: filter_id_conv image_iff intro!: filter_True [symmetric])

lemma remove_lfg_filter:
  "distinct (map lfg_db_id (m_lfg_list s)) \<Longrightarrow>
   remove_lfg i s = s\<lparr>m_lfg_list := filter (\<lambda>m. lfg_db_id m \<noteq> i) (m_lfg_list s)\<rparr>"
  by (simp add: remove_lfg_def erase_first_distinct)

lemma notify_members_state:
  assumes "distinct (map lfg_db_id (m_lfg_list s))"
  shows "fst (notify_members token ms s) =
    s\<lparr>m_lfg_list := filter (\<lambda>l. lfg_db_id l \<notin> tm_idx ` {m \<in> set ms. \<not> tm_pending m}) (m_lfg_list s)\<rparr>"
  using assms
proof (induction ms arbitrary: s)
  case Nil
  then show ?case by simp
next
  case (Cons m ms)
  let ?s = "remove_lfg (tm_idx m) s"
  have d: "distinct (map lfg_db_id (m_lfg_list ?s))"
    using Cons.prems by (simp add: remove_lfg_filter distinct_map_filter)
  have ne: "filter (\<lambda>l. lfg_db_id l \<notin> X) (m_lfg_list s) = filter (\<lambda>l. lfg_db_id l \<noteq> tm_idx m \<and> lfg_db_id l \<notin> X) (m_lfg_list s)"
    if "\<not> db_id_is_lfg (tm_idx m) s" for X using that by (intro filter_cong) (auto simp: db_id_is_lfg_def)
  show ?case
    using Cons.IH [OF Cons.prems] Cons.IH [OF d] Cons.prems ne
    by (auto simp: remove_lfg_filter split_beta Let_def insert_Collect [symmetric] conj_commute
        intro!: filter_cong arg_cong [where f = "\<lambda>l. s\<lparr>m_lfg_list := l\<rparr>"])
qed

lemma notify_team_of_changes_state:
  assumes "distinct (map lfg_db_id (m_lfg_list s))"
  shows "fst (notify_team_of_changes t token s) =
    s\<lparr>m_lfg_list := filter (\<lambda>l. lfg_db_id l \<notin> present t) (m_lfg_list s)\<rparr>"
  using notify_members_state [OF assms] by (simp add: notify_team_of_changes_def present_def split_beta Let_def)

section \<open>Handlers keep the invariant\<close>

lemma handler_ok_update:
  assumes "handler_ok nm n s" "teams_ok nm ts" "\<forall>t \<in> set ts. unat (m_team_idx t) \<le> unat (m_team_idx_counter s)"
    "established ts (filter P (m_lfg_list s))"
  shows "handler_ok nm n (s\<lparr>m_team_list := ts, m_lfg_list := filter P (m_lfg_list s)\<rparr>)"
  using assms by (auto simp: handler_ok_def distinct_map_filter)

lemma update_lists_commute: "s\<lparr>m_lfg_list := a, m_team_list := b\<rparr> = s\<lparr>m_team_list := b, m_lfg_list := a\<rparr>"
  by simp

lemma established_filter: "established ts lfg \<Longrightarrow> established ts (filter P lfg)"
  by (auto simp: established_def)

lemma established_replace:
  assumes "established (us @ t # vs) lfg" "m_transient t' \<or> present t' \<inter> lfg_db_id ` set (filter P lfg) = {}"
  shows "established (us @ t' # vs) (filter P lfg)"
  using assms by (auto simp: established_def)

lemma handler_ok_set_team:
  assumes "handler_ok nm n s" "m_team_list s = us @ t # vs" "teams_ok nm (us @ t' # vs)" "m_team_idx t' = m_team_idx t"
    "m_transient t' = m_transient t" "present t' \<subseteq> present t"
  shows "handler_ok nm n (set_team (length us) t' s)"
proof -
  have e: "established (us @ t # vs) (m_lfg_list s)" using assms(1,2) by (simp add: handler_ok_def)
  have "established (us @ t' # vs) (filter (\<lambda>_. True) (m_lfg_list s))"
    using e assms(5,6) by (intro established_replace [OF e]) (auto simp: established_def)
  with handler_ok_update [OF assms(1,3), of "\<lambda>_. True"] assms(1,2,4) show ?thesis
    by (simp add: set_team_def handler_ok_def)
qed

lemma handler_ok_notify:
  assumes "handler_ok nm n s" "m_team_list s = us @ t # vs" "teams_ok nm (us @ t' # vs)" "m_team_idx t' = m_team_idx t"
  shows "handler_ok nm n (fst (notify_team_of_changes t' token (set_team (length us) t' s)))"
proof -
  have e: "established (us @ t # vs) (m_lfg_list s)" and d: "distinct (map lfg_db_id (m_lfg_list s))"
    using assms(1,2) by (simp_all add: handler_ok_def)
  let ?P = "\<lambda>l. lfg_db_id l \<notin> present t'"
  have "established (us @ t' # vs) (filter ?P (m_lfg_list s))" by (rule established_replace [OF e]) auto
  with handler_ok_update [OF assms(1,3), of ?P] assms(1,2,4) d show ?thesis
    by (simp add: set_team_def handler_ok_def notify_team_of_changes_state)
qed

lemma handler_ok_disband:
  assumes "handler_ok nm n s" "m_team_list s = us @ t # vs" "m_team_idx t' = m_team_idx t"
  shows "handler_ok nm n (snd (delete_team (m_team_idx t') (fst (notify_team_of_changes t' token (set_team (length us) t' s)))))"
    "handler_ok nm n (snd (delete_team (m_team_idx t') (set_team (length us) t' s)))"
proof -
  have d: "distinct (map lfg_db_id (m_lfg_list s))" and i: "distinct (map m_team_idx (us @ t' # vs))"
    and e: "established (us @ vs) (m_lfg_list s)" and ok: "teams_ok nm (us @ vs)"
    using assms by (auto simp: handler_ok_def teams_ok_def established_def)
  let ?s = "fst (notify_team_of_changes t' token (set_team (length us) t' s))"
  let ?P = "\<lambda>l. lfg_db_id l \<notin> present t'"
  have l: "m_team_list ?s = us @ t' # vs" "m_team_list (set_team (length us) t' s) = us @ t' # vs"
    using d assms(2) by (simp_all add: notify_team_of_changes_state set_team_def)
  have b: "\<forall>t \<in> set (us @ vs). unat (m_team_idx t) \<le> unat (m_team_idx_counter s)"
    using assms(1,2) by (simp add: handler_ok_def)
  show "handler_ok nm n (snd (delete_team (m_team_idx t') ?s))"
    using handler_ok_update [OF assms(1) ok b established_filter [OF e], of ?P] d
    unfolding delete_team_removes [OF l(1) i]
    by (simp add: notify_team_of_changes_state set_team_def update_lists_commute)
  show "handler_ok nm n (snd (delete_team (m_team_idx t') (set_team (length us) t' s)))"
    using handler_ok_update [OF assms(1) ok b established_filter [OF e], of "\<lambda>_. True"]
    unfolding delete_team_removes [OF l(2) i] by (simp add: set_team_def)
qed

lemma member_removed_ok:
  assumes ok: "handler_ok nm n s" and l: "m_team_list s = us @ t # vs"
    and r: "team_removeTeamMember i t = (e, t')" "e = OK \<or> e = TEAM_DISBANDED"
  shows "handler_ok nm n (fst (member_removed (length us) e t' forward s))"
proof -
  have ts: "teams_ok nm (us @ t # vs)" using handler_ok_teams [OF ok] l by simp
  from teams_ok_team [OF ts] teams_ok_distinct [OF ts] r(1) show ?thesis
  proof (cases rule: team_removeTeamMember_cases)
    case 1
    with r(2) show ?thesis by simp
  next
    case 2
    from handler_ok_disband(1) [OF ok l 2(2), of 0] 2(1) show ?thesis by (simp add: member_removed_def split_beta Let_def)
  next
    case 3
    have "teams_ok nm (us @ t' # vs)" using 3(4) by (intro teams_ok_replace [OF ts 3(2,3) _ 3(5)]) auto
    from handler_ok_notify [OF ok l this 3(3), of 0] 3(1) show ?thesis by (simp add: member_removed_def split_beta Let_def)
  qed
qed

lemma on_team_member_kicked_ok:
  assumes "handler_ok nm n s"
  shows "handler_ok nm n (fst (on_team_member_kicked leader_id kickee_name token s))"
proof (cases "first_team (isTeamLeader leader_id) s")
  case None
  with assms show ?thesis by (simp add: on_team_member_kicked_def)
next
  case (Some i)
  from first_team_Some [OF this] obtain us t vs where l: "m_team_list s = us @ t # vs" "length us = i" by metis
  obtain e t' where r: "team_removeTeamMember (id_for_name kickee_name s) t = (e, t')" by fastforce
  from member_removed_ok [OF assms l(1) r] Some l r assms show ?thesis
    by (auto simp: on_team_member_kicked_def nth_append)
qed

lemma on_team_leave_team_ok:
  assumes "handler_ok nm n s"
  shows "handler_ok nm n (fst (on_team_leave_team i token s))"
proof (cases "first_team (containsEntityID i) s")
  case None
  with assms show ?thesis by (simp add: on_team_leave_team_def)
next
  case (Some j)
  from first_team_Some [OF this] obtain us t vs where l: "m_team_list s = us @ t # vs" "length us = j" by metis
  obtain e t' where r: "team_removeTeamMember i t = (e, t')" by fastforce
  from member_removed_ok [OF assms l(1) r] Some l r assms show ?thesis
    by (auto simp: on_team_leave_team_def nth_append)
qed

lemma teams_ok_make_leader:
  assumes "teams_ok nm (us @ t # vs)" "i \<in> set (ids t)"
  shows "teams_ok nm (us @ t\<lparr>m_team_leader_idx := i\<rparr> # vs)"
  using teams_ok_team [OF assms(1)] teams_ok_distinct [OF assms(1)] assms(2)
  by (intro teams_ok_replace [OF assms(1)]) (auto simp: team_ok_def)

lemma make_leader_member:
  assumes "directory nm" "handler_ok nm n s" "t \<in> set (m_team_list s)" "name_known k s" "containsEntityName k t"
  shows "id_for_name k s \<in> set (ids t)"
proof -
  from assms(5) obtain m where m: "m \<in> set (m_team_members t)" "comparei_eq (tm_name m) k"
    by (auto simp: containsEntityName_def)
  have "tm_name m = nm (tm_idx m)" using assms(2,3) m(1) by (auto simp: handler_ok_def teams_ok_def team_ok_def)
  with m(2) directoryD [OF assms(1), of "tm_idx m" "id_for_name k s"] id_for_name_known [OF assms(2,4)]
  have "tm_idx m = id_for_name k s" by simp
  with m(1) show ?thesis by force
qed

lemma on_team_member_make_leader_ok:
  assumes "directory nm" "handler_ok nm n s"
  shows "handler_ok nm n (fst (on_team_member_make_leader leader_id k token s))"
proof (cases "first_team (isTeamLeader leader_id) s")
  case None
  with assms(2) show ?thesis by (simp add: on_team_member_make_leader_def)
next
  case (Some i)
  from first_team_Some [OF this] obtain us t vs where l: "m_team_list s = us @ t # vs" "length us = i" by metis
  have ts: "teams_ok nm (us @ t # vs)" using handler_ok_teams [OF assms(2)] l by simp
  show ?thesis
  proof (cases "containsEntityName k t \<and> \<not> isNamePending k t \<and> name_known k s")
    case True
    with make_leader_member [OF assms, of t k] l have "id_for_name k s \<in> set (ids t)" by simp
    from handler_ok_notify [OF assms(2) l(1) teams_ok_make_leader [OF ts this], of 0] True Some l show ?thesis
      by (simp add: on_team_member_make_leader_def nth_append Let_def)
  next
    case False
    have "handler_ok nm n (s\<lparr>m_pending_events := m_pending_events s @ [(k, (TeamMakeLeader leader_id k, token))]\<rparr>)"
      by (rule handler_ok_pending [OF assms(2)]) auto
    with False Some l assms(2) show ?thesis
      by (auto simp: on_team_member_make_leader_def nth_append Let_def)
  qed
qed

lemma on_team_member_invite_handled_ok:
  assumes dir: "directory nm" and ok: "handler_ok nm n s"
  shows "handler_ok nm n (fst (on_team_member_invite_handled i (nm i) leader_name accepted token s))"
proof (cases "last_team (containsEntityName (nm i)) s")
  case None
  with ok show ?thesis by (simp add: on_team_member_invite_handled_def)
next
  case (Some j)
  from last_team_Some [OF this] obtain us t vs where l: "m_team_list s = us @ t # vs" "length us = j" by metis
  have ts: "teams_ok nm (us @ t # vs)" using handler_ok_teams [OF ok] l by simp
  note tok = teams_ok_team [OF ts] teams_ok_distinct [OF ts]
  obtain e t' where r: "team_removeTeamMember (id_for_name (nm i) s) t = (e, t')" by fastforce
  obtain ea ta where a: "acceptTeamInvite (nm i) i t = (ea, ta)" by fastforce
  have removed: "handler_ok nm n (let s = set_team (length us) t' s in
      if e = TEAM_DISBANDED then snd (delete_team (m_team_idx t') s) else s)"
    using tok r
  proof (cases rule: team_removeTeamMember_cases)
    case 1
    have "set_team (length us) t s = s" using l(1) by (cases s) (simp add: set_team_def)
    with 1 ok show ?thesis by simp
  next
    case 2
    with handler_ok_disband(2) [OF ok l(1) 2(2)] show ?thesis by (simp add: Let_def)
  next
    case 3
    have "teams_ok nm (us @ t' # vs)" using 3(4) by (intro teams_ok_replace [OF ts 3(2,3) _ 3(5)]) auto
    from handler_ok_set_team [OF ok l(1) this 3(3,7)] 3(1,6) show ?thesis by (auto simp: Let_def present_def)
  qed
  have joined: "handler_ok nm n (if ea = OK then fst (notify_team_of_changes (ta\<lparr>m_transient := False\<rparr>) token
      (set_team (length us) (ta\<lparr>m_transient := False\<rparr>) s)) else s)"
    using dir tok(1) a
  proof (cases rule: acceptTeamInvite_cases)
    case 1
    with ok show ?thesis by simp
  next
    case (2 m us' vs')
    have "team_ok nm (ta\<lparr>m_transient := False\<rparr>)" using 2(2) by (simp add: team_ok_def)
    then have "teams_ok nm (us @ ta\<lparr>m_transient := False\<rparr> # vs)"
      using 2(3,4) tok(2) by (intro teams_ok_replace [OF ts]) (simp_all del: set_map)
    from handler_ok_notify [OF ok l(1) this, of token] 2(1,3) show ?thesis by simp
  qed
  from Some l ok r a removed joined show ?thesis
    by (cases accepted) (auto simp: on_team_member_invite_handled_def nth_append Let_def split_beta)
qed

lemma teams_ok_unique:
  assumes "teams_ok nm ts" "t \<in> set ts" "u \<in> set ts" "i \<in> set (ids t)" "i \<in> set (ids u)"
  shows "t = u"
proof -
  from assms(2) obtain us vs where ts: "ts = us @ t # vs" by (meson split_list)
  with assms(1) have "i \<notin> set (player_ids us)" "i \<notin> set (player_ids vs)"
    using assms(4) by (auto simp: teams_ok_def)
  with ts assms(3,5) show ?thesis by (auto simp: set_player_ids simp del: set_map)
qed

lemma on_team_toggle_lfg_ok:
  assumes dir: "directory nm" and ok: "handler_ok nm n s"
  shows "handler_ok nm n (fst (on_team_toggle_lfg i (nm i) cd token s))"
proof (cases "db_id_is_lfg i s")
  case True
  have "handler_ok nm n (s\<lparr>m_team_list := m_team_list s, m_lfg_list := filter (\<lambda>m. lfg_db_id m \<noteq> i) (m_lfg_list s)\<rparr>)"
    using ok by (intro handler_ok_update [OF ok]) (auto simp: handler_ok_def intro: established_filter)
  with True ok show ?thesis
    by (simp add: on_team_toggle_lfg_def Let_def remove_lfg_filter handler_ok_def)
next
  case not_lfg: False
  show ?thesis
  proof (cases "case team_for_db_id i s of Some j \<Rightarrow> \<not> isNamePending (nm i) (m_team_list s ! j) | None \<Rightarrow> False")
    case True
    with not_lfg ok show ?thesis by (simp add: on_team_toggle_lfg_def Let_def)
  next
    case False
    have "m_transient t \<or> i \<notin> present t" if t: "t \<in> set (m_team_list s)" for t
    proof (rule disjI2, rule notI)
      assume "i \<in> present t"
      then obtain m where m: "m \<in> set (m_team_members t)" "tm_idx m = i" "\<not> tm_pending m" by (auto simp: present_def)
      with t first_team_None [of "containsEntityID i" s t] obtain j where j: "team_for_db_id i s = Some j"
        by (auto simp: team_for_db_id_def containsEntityID_def)
      from first_team_Some [OF this [unfolded team_for_db_id_def]] obtain us u vs where
        u: "m_team_list s = us @ u # vs" "length us = j" "containsEntityID i u" by metis
      have "t = u"
        by (rule teams_ok_unique [OF handler_ok_teams [OF ok] t]) (use u m in \<open>auto simp: containsEntityID_ids\<close>)
      with False j u have "isNamePending (nm i) t" by (simp add: nth_append)
      then obtain m' where m': "m' \<in> set (m_team_members t)" "tm_name m' = nm i" "tm_pending m'" by (auto simp: isNamePending_def)
      have "team_ok nm t" "distinct (ids t)"
        using handler_ok_teams [OF ok] u(1) \<open>t = u\<close> by (simp_all add: teams_ok_def)
      with m m' directory_eq [OF dir] have "m' = m" by (auto simp: team_ok_def distinct_map inj_on_def)
      with m m' show False by simp
    qed
    then have "established (m_team_list s) (m_lfg_list s @ [x])" if "lfg_db_id x = i" for x
      using ok that by (fastforce simp: handler_ok_def established_def)
    with not_lfg False ok show ?thesis
      by (auto simp: on_team_toggle_lfg_def Let_def add_lfg_def handler_ok_def db_id_is_lfg_def)
  qed
qed

lemma not_on_any_team:
  "last_team (containsEntityID i) s = None \<Longrightarrow> i \<notin> set (player_ids (m_team_list s))"
  using last_team_None [of "containsEntityID i" s] by (auto simp: set_player_ids containsEntityID_def)

lemma invite_into_team:
  assumes ok: "handler_ok nm n s" and l: "m_team_list s = us @ t # vs" and full: "\<not> isFull t"
    and free: "last_team (containsEntityID i) s = None"
  shows "handler_ok nm n (set_team (length us) (snd (addTeamMember i (nm i) True t)) s)"
    "fst (addTeamMember i (nm i) True t) = OK"
proof -
  have ts: "teams_ok nm (us @ t # vs)" using handler_ok_teams [OF ok] l by simp
  have "m_max_team_size t = 8" using teams_ok_team [OF ts] by (simp add: team_ok_def)
  then have len: "length (m_team_members t) < 8" using full by (simp add: isFull_def)
  note a = addTeamMember_ok [OF teams_ok_team [OF ts] len, of i True]
  have "teams_ok nm (us @ snd (addTeamMember i (nm i) True t) # vs)"
    using not_on_any_team [OF free] unfolding l
    by (intro teams_ok_extend [OF ts a(2)]) (simp_all add: a(1))
  moreover have "present (snd (addTeamMember i (nm i) True t)) \<subseteq> present t" by (auto simp: a(1) present_def)
  ultimately show "handler_ok nm n (set_team (length us) (snd (addTeamMember i (nm i) True t)) s)"
    by (intro handler_ok_set_team [OF ok l]) (simp_all add: a(1))
  show "fst (addTeamMember i (nm i) True t) = OK" by (simp add: a(1))
qed

text \<open>A team founded by an invitation, as \<open>invite_checked\<close> builds it.\<close>

definition founded :: "u32 \<Rightarrow> u32 \<Rightarrow> string \<Rightarrow> u32 \<Rightarrow> string \<Rightarrow> team" where
  "founded c leader_id leader_name i n =
    snd (addTeamMember i n True (snd (addTeamMember leader_id leader_name False (fst (new_team c True)))))"

lemma founded_simps [simp]:
  "m_team_members (founded c l ln i n) =
    [\<lparr>tm_idx = l, tm_name = ln, tm_map = [], tm_map_idx = 0, tm_pending = False\<rparr>,
     \<lparr>tm_idx = i, tm_name = n, tm_map = [], tm_map_idx = 0, tm_pending = True\<rparr>]"
  "m_team_idx (founded c l ln i n) = c + 1" "m_team_leader_idx (founded c l ln i n) = l"
  "m_transient (founded c l ln i n)" "m_max_team_size (founded c l ln i n) = 8"
  by (simp_all add: founded_def new_team_def addTeamMember_def Let_def)

lemma invite_checked_founds:
  "invite_checked ev ln l k i None None s =
    (s\<lparr>m_team_list := m_team_list s @ [founded (m_team_idx_counter s) l ln i k],
       m_team_idx_counter := m_team_idx_counter s + 1\<rparr>,
     [UserRouterOpaqueRequest ev l ln [] [k] (snd ev)])"
  by (simp add: invite_checked_def founded_def new_team_def addTeamMember_def Let_def set_team_def nth_append list_update_append)

lemma found_team:
  assumes ok: "handler_ok nm n s" and n: "n < 2 ^ 32 - 1" and ne: "i \<noteq> l"
    and free: "last_team (containsEntityID l) s = None" "last_team (containsEntityID i) s = None"
  shows "handler_ok nm (Suc n) (s\<lparr>m_team_list := m_team_list s @ [founded (m_team_idx_counter s) l (nm l) i (nm i)],
      m_team_idx_counter := m_team_idx_counter s + 1\<rparr>)"
proof -
  let ?c = "m_team_idx_counter s" and ?t = "founded (m_team_idx_counter s) l (nm l) i (nm i)"
  have c: "unat ?c \<le> n" "\<forall>t \<in> set (m_team_list s). unat (m_team_idx t) \<le> unat ?c" using ok by (simp_all add: handler_ok_def)
  with n have c1: "unat (?c + 1) = Suc (unat ?c)" by (simp add: unat_word_ariths)
  have ts: "teams_ok nm (m_team_list s)" by (rule handler_ok_teams [OF ok])
  have "m_team_idx ?t \<notin> m_team_idx ` set (m_team_list s)" using c(2) c1 by fastforce
  moreover have "team_ok nm ?t" by (simp add: team_ok_def)
  ultimately have "teams_ok nm (m_team_list s @ [?t])"
    using not_on_any_team [OF free(1)] not_on_any_team [OF free(2)] ne by (intro teams_ok_append [OF ts]) simp_all
  moreover have "established (m_team_list s @ [?t]) (m_lfg_list s)" using ok by (auto simp: handler_ok_def established_def)
  ultimately show ?thesis using ok c c1 by (fastforce simp: handler_ok_def)
qed

lemma on_team_member_invited_ok:
  assumes dir: "directory nm" and ok: "handler_ok nm n s" and n: "n < 2 ^ 32 - 1"
  shows "handler_ok nm (Suc n) (fst (on_team_member_invited (nm l) l k token s))"
proof -
  let ?s = "s\<lparr>m_id_to_name := map_set l (nm l) (m_id_to_name s)\<rparr>"
  let ?i = "id_for_name k ?s" and ?ev = "(TeamMemberInvited (nm l) l k, token)"
  have ok1: "handler_ok nm n ?s" by (rule handler_ok_map_set [OF ok])
  note ok2 = handler_ok_mono [OF ok1 le_SucI [OF order_refl]]
  show ?thesis
  proof (cases "name_known k ?s \<and> k \<noteq> nm l")
    case False
    have "handler_ok nm (Suc n) (?s\<lparr>m_pending_events := m_pending_events ?s @ [(k, ?ev)]\<rparr>)"
      by (rule handler_ok_pending [OF ok2]) auto
    with False ok2 show ?thesis by (auto simp: on_team_member_invited_def Let_def)
  next
    case True
    then have known: "name_known k ?s" and ne: "k \<noteq> nm l" by blast+
    have k: "nm ?i = k" by (rule id_for_name_known [OF ok1 known])
    show ?thesis
    proof (cases "last_team (containsEntityID ?i) ?s")
      case (Some j)
      with True ok2 show ?thesis
        by (auto simp: on_team_member_invited_def invite_checked_def Let_def split: option.splits)
    next
      case free: None
      show ?thesis
      proof (cases "last_team (containsEntityID l) ?s")
        case None
        have il: "?i \<noteq> l" using k ne by auto
        from found_team [OF ok1 n il None free] True free None show ?thesis
          unfolding k by (simp add: on_team_member_invited_def invite_checked_founds Let_def)
      next
        case (Some j)
        from last_team_Some [OF this] obtain us t vs where t: "m_team_list ?s = us @ t # vs" "length us = j" by metis
        show ?thesis
        proof (cases "isTeamLeader l t \<and> \<not> isFull t")
          case False
          with True Some t ok2 show ?thesis by (auto simp: on_team_member_invited_def Let_def nth_append)
        next
          case lead: True
          note a = invite_into_team [OF ok2 t(1) _ free]
          obtain t' where t': "addTeamMember ?i k True t = (OK, t')"
            using a(2) lead k by (metis prod.collapse)
          with True Some t free lead a(1) k show ?thesis
            by (simp add: on_team_member_invited_def invite_checked_def Let_def nth_append)
        qed
      qed
    qed
  qed
qed

lemma dispatch_team_ok:
  assumes "directory nm" "handler_ok nm n s" "n < 2 ^ 32 - 1" "honest nm (fst ev)" "dispatch_team ev s = Some (s', out)"
  shows "handler_ok nm (Suc n) s'"
proof -
  have ok: "handler_ok nm (Suc n) s" by (rule handler_ok_mono [OF assms(2)]) simp
  obtain e tok where ev: "ev = (e, tok)" by fastforce
  show ?thesis
  proof (cases e)
    case TeamRefreshLFG
    with ev ok assms(5) show ?thesis by (simp add: dispatch_team_def on_team_refresh_lfg_def)
  qed (use ev assms ok on_team_member_invited_ok [OF assms(1-3)] on_team_member_kicked_ok [OF ok]
      on_team_leave_team_ok [OF ok] on_team_member_make_leader_ok [OF assms(1) ok]
      on_team_member_invite_handled_ok [OF assms(1) ok] on_team_toggle_lfg_ok [OF assms(1) ok]
      in \<open>auto simp: dispatch_team_def prod_eq_iff\<close>)
qed

section \<open>Reachable states\<close>

text \<open>
  \<open>handled nm n s\<close>: the service is in state \<open>s\<close> after \<open>n\<close> invocations of its handlers on honest
  events. Answers of the user router extend the table of names and remove waiting events.
\<close>

inductive handled :: "(u32 \<Rightarrow> string) \<Rightarrow> nat \<Rightarrow> team_handler \<Rightarrow> bool" for nm where
  start: "handled nm 0 new_team_handler"
| event: "handled nm n s \<Longrightarrow> honest nm (fst ev) \<Longrightarrow> dispatch_team ev s = Some (s', out) \<Longrightarrow> handled nm (Suc n) s'"
| name: "handled nm n s \<Longrightarrow> handled nm n (s\<lparr>m_id_to_name := map_set i (nm i) (m_id_to_name s)\<rparr>)"
| answered: "handled nm n s \<Longrightarrow> handled nm n (s\<lparr>m_pending_events := filter P (m_pending_events s)\<rparr>)"


theorem handled_invariant:
  assumes "handled nm n s" "directory nm" "n < 2 ^ 32"
  shows "handler_ok nm n s"
  using assms(1,3)
proof (induction rule: handled.induct)
  case start
  show ?case by (rule handler_ok_new)
next
  case (event n s ev s' out)
  then show ?case by (intro dispatch_team_ok [OF assms(2) _ _ event.hyps(2,3)]) auto
next
  case (name n s i)
  then show ?case by (intro handler_ok_map_set) simp
next
  case (answered n s P)
  then show ?case by (intro handler_ok_pending) auto
qed

section \<open>Dispatch returns\<close>

fun honest_event :: "(u32 \<Rightarrow> string) \<Rightarrow> service_event \<Rightarrow> bool" where
  "honest_event nm (TeamEvent ev) \<longleftrightarrow> honest nm (fst ev)"
| "honest_event nm (UserRouterQueryResponse _ _ i n) \<longleftrightarrow> n = nm i"
| "honest_event nm _ \<longleftrightarrow> True"

text \<open>The events that wait for the number of a name.\<close>

definition waiting_events :: "string \<Rightarrow> team_handler \<Rightarrow> (string \<times> team_event) list" where
  "waiting_events k s = filter (\<lambda>e. fst e = k) (m_pending_events s)"

text \<open>What the handlers do to the names and to the waiting events.\<close>

definition names_step :: "(u32 \<Rightarrow> string) \<Rightarrow> team_event \<Rightarrow> team_handler \<Rightarrow> team_handler \<Rightarrow> bool" where
  "names_step nm ev s s' \<longleftrightarrow>
    (m_id_to_name s' = m_id_to_name s \<or> (\<exists>i. m_id_to_name s' = map_set i (nm i) (m_id_to_name s))) \<and>
    (m_pending_events s' = m_pending_events s \<or>
     (\<exists>k. m_pending_events s' = m_pending_events s @ [(k, ev)] \<and> waits_for k (fst ev) \<and> \<not> name_known k s'))"

lemma names_step_refl [simp]: "names_step nm ev s s"
  by (simp add: names_step_def)

lemma names_step_same:
  "m_id_to_name s' = m_id_to_name s \<Longrightarrow> m_pending_events s' = m_pending_events s \<Longrightarrow> names_step nm ev s s'"
  by (simp add: names_step_def)

lemma same_names_simps [simp]:
  "m_id_to_name (set_team i t s) = m_id_to_name s" "m_pending_events (set_team i t s) = m_pending_events s"
  "m_id_to_name (remove_lfg j s) = m_id_to_name s" "m_pending_events (remove_lfg j s) = m_pending_events s"
  "m_id_to_name (add_lfg x s) = m_id_to_name s" "m_pending_events (add_lfg x s) = m_pending_events s"
  "m_id_to_name (snd (delete_team idx s)) = m_id_to_name s" "m_pending_events (snd (delete_team idx s)) = m_pending_events s"
  by (simp_all add: set_team_def remove_lfg_def add_lfg_def delete_team_def)

lemma notify_members_names [simp]:
  "m_id_to_name (fst (notify_members token ms s)) = m_id_to_name s"
  "m_pending_events (fst (notify_members token ms s)) = m_pending_events s"
  by (induction ms arbitrary: s) (simp_all add: split_beta Let_def)

lemma notify_names [simp]:
  "m_id_to_name (fst (notify_team_of_changes t token s)) = m_id_to_name s"
  "m_pending_events (fst (notify_team_of_changes t token s)) = m_pending_events s"
  by (simp_all add: notify_team_of_changes_def split_beta Let_def)

lemma member_removed_names [simp]:
  "m_id_to_name (fst (member_removed i e t f s)) = m_id_to_name s"
  "m_pending_events (fst (member_removed i e t f s)) = m_pending_events s"
  by (simp_all add: member_removed_def split_beta Let_def)

lemma invite_checked_names [simp]:
  "m_id_to_name (fst (invite_checked ev ln l k i a b s)) = m_id_to_name s"
  "m_pending_events (fst (invite_checked ev ln l k i a b s)) = m_pending_events s"
  by (simp_all add: invite_checked_def split_beta Let_def split: option.split)

lemma on_team_member_invited_names:
  "names_step nm (TeamMemberInvited (nm l) l k, token) s (fst (on_team_member_invited (nm l) l k token s))"
proof -
  have "m_id_to_name (fst (on_team_member_invited (nm l) l k token s)) = map_set l (nm l) (m_id_to_name s)"
    by (simp add: on_team_member_invited_def Let_def split: option.split)
  moreover have "m_pending_events (fst (on_team_member_invited (nm l) l k token s)) = m_pending_events s \<or>
      m_pending_events (fst (on_team_member_invited (nm l) l k token s)) =
        m_pending_events s @ [(k, (TeamMemberInvited (nm l) l k, token))] \<and>
      \<not> name_known k (fst (on_team_member_invited (nm l) l k token s))"
    by (simp add: on_team_member_invited_def name_known_def Let_def split: option.split)
  ultimately show ?thesis unfolding names_step_def by auto
qed

lemma dispatch_team_names:
  assumes "honest nm (fst ev)" "dispatch_team ev s = Some (s', out)"
  shows "names_step nm ev s s'"
proof -
  obtain e tok where ev: "ev = (e, tok)" by fastforce
  show ?thesis
  proof (cases e)
    case TeamMemberInvited
    with ev assms on_team_member_invited_names show ?thesis
      by (auto simp: dispatch_team_def dest!: arg_cong [where f = fst])
  next
    case TeamMakeLeader
    with ev assms show ?thesis
      by (auto simp: dispatch_team_def on_team_member_make_leader_def names_step_def name_known_def Let_def
          dest!: arg_cong [where f = fst] split: if_splits option.splits)
  qed (use ev assms in \<open>auto simp: dispatch_team_def on_team_member_kicked_def on_team_leave_team_def on_team_refresh_lfg_def
      on_team_toggle_lfg_def on_team_member_invite_handled_def split_beta Let_def
      dest!: arg_cong [where f = fst] intro!: names_step_same split: if_splits option.splits\<close>)
qed

lemma dispatch_team_returns: "honest nm (fst ev) \<Longrightarrow> dispatch_team ev s \<noteq> None"
  by (cases "fst ev") (auto simp: dispatch_team_def Let_def)

lemma map_set_keeps_name:
  assumes "\<forall>e \<in> set m. snd e = nm (fst e)" "(i, k) \<in> set m"
  shows "\<exists>i. (i, k) \<in> set (map_set j (nm j) m)"
  using assms
proof (induction j "nm j" m rule: map_set.induct)
  case (2 j k' v' m)
  then show ?case by (cases "j = k'") (auto split: if_splits)
qed simp

lemma name_known_iff: "name_known k s \<longleftrightarrow> (\<exists>i. (i, k) \<in> set (m_id_to_name s))"
  by (force simp: name_known_def)

lemma names_step_known:
  assumes "names_step nm ev s s'" "\<forall>e \<in> set (m_id_to_name s). snd e = nm (fst e)" "name_known k s"
  shows "name_known k s'" "waiting_events k s' = waiting_events k s"
proof -
  from assms(3) obtain i where i: "(i, k) \<in> set (m_id_to_name s)" by (auto simp: name_known_iff)
  show known: "name_known k s'"
    using assms(1) i map_set_keeps_name [OF assms(2) i] unfolding names_step_def name_known_iff by auto
  show "waiting_events k s' = waiting_events k s"
    using assms(1) known by (auto simp: names_step_def waiting_events_def)
qed

text \<open>Without a bound on the number of events: what is needed to keep the names in order.\<close>

lemma handled_names:
  assumes "handled nm n s"
  shows "(\<forall>e \<in> set (m_id_to_name s). snd e = nm (fst e)) \<and>
    (\<forall>e \<in> set (m_pending_events s). honest nm (fst (snd e)) \<and> waits_for (fst e) (fst (snd e)))"
  using assms
proof (induction rule: handled.induct)
  case start
  show ?case by (simp add: new_team_handler_def)
next
  case (event n s ev s' out)
  from dispatch_team_names [OF event.hyps(2,3)] event.IH event.hyps(2) set_map_set(1) show ?case
    unfolding names_step_def by fastforce
next
  case (name n s i)
  with set_map_set(1) [of i "nm i" "m_id_to_name s"] show ?case by auto
next
  case (answered n s P)
  then show ?case by auto
qed

lemma pending_loop_handled:
  assumes "handled nm n s" "name_known k s" "i \<le> length (waiting_events k s)"
  shows "\<exists>s' out'. pending_loop i k s out = Some (s', out') \<and>
    handled nm (n + (length (waiting_events k s) - i)) s' \<and> waiting_events k s' = waiting_events k s"
  using assms
proof (induction "length (waiting_events k s) - i" arbitrary: i s n out)
  case 0
  then show ?case by (subst pending_loop.simps) (simp add: waiting_events_def [symmetric])
next
  case (Suc d)
  let ?e = "waiting_events k s ! i"
  have i: "i < length (waiting_events k s)" using Suc.hyps(2) by simp
  then have "?e \<in> set (waiting_events k s)" by simp
  then have hon: "honest nm (fst (snd ?e))" using handled_names [OF Suc.prems(1)] by (auto simp: waiting_events_def)
  then obtain s1 out1 where d: "dispatch_team (snd ?e) s = Some (s1, out1)" using dispatch_team_returns by fastforce
  have h1: "handled nm (Suc n) s1" by (rule handled.event [OF Suc.prems(1) hon d])
  note k1 = names_step_known [OF dispatch_team_names [OF hon d] _ Suc.prems(2)]
  have w1: "name_known k s1" "waiting_events k s1 = waiting_events k s"
    using k1 handled_names [OF Suc.prems(1)] by blast+
  have "pending_loop i k s out = pending_loop (i + 1) k s1 (out @ out1)"
    using i d by (subst pending_loop.simps) (simp add: waiting_events_def [symmetric] Let_def)
  with Suc.hyps(1) [of s1 "i + 1" "Suc n" "out @ out1"] Suc.hyps(2) i h1 w1 show ?case by (simp add: Suc_diff_Suc)
qed

theorem dispatch_returns:
  assumes "handled nm n s" "honest_event nm ev"
    "\<And>q r i k. ev = UserRouterQueryResponse q r i k \<Longrightarrow> waiting_events k s \<noteq> []"
  shows "\<exists>s' out k. dispatch ev s = Some (s', out) \<and> handled nm (n + k) s' \<and>
    k = (case ev of TeamEvent _ \<Rightarrow> 1 | UserRouterQueryResponse _ _ _ name \<Rightarrow> length (waiting_events name s) | _ \<Rightarrow> 0)"
proof (cases ev)
  case (TeamEvent e)
  with assms(2) obtain s' out where "dispatch_team e s = Some (s', out)" using dispatch_team_returns by fastforce
  with TeamEvent assms handled.event [OF assms(1)] show ?thesis by (auto simp: dispatch_def)
next
  case (UserRouterQueryResponse q r i k)
  let ?s = "s\<lparr>m_id_to_name := map_set i k (m_id_to_name s)\<rparr>"
  have k: "k = nm i" using assms(2) UserRouterQueryResponse by simp
  have h: "handled nm n ?s" unfolding k by (rule handled.name [OF assms(1)])
  have "name_known k ?s" using set_map_set(2) [of i k "m_id_to_name s"] by (force simp: name_known_def)
  from pending_loop_handled [OF h this, of 0 "[]"] obtain s' out' where
    l: "pending_loop 0 k ?s [] = Some (s', out')" "handled nm (n + length (waiting_events k ?s)) s'" by auto
  have w: "waiting_events k ?s = waiting_events k s" by (simp add: waiting_events_def)
  have "\<exists>e \<in> set (m_pending_events s). fst e = k"
    using assms(3) [OF UserRouterQueryResponse] by (auto simp: waiting_events_def filter_empty_conv)
  with l(1) have "dispatch ev s = Some (s'\<lparr>m_pending_events := filter (\<lambda>e. fst e \<noteq> k) (m_pending_events s')\<rparr>, out')"
    by (simp add: UserRouterQueryResponse dispatch_def on_user_router_query_response_def)
  with handled.answered [OF l(2)] w UserRouterQueryResponse show ?thesis by auto
qed (use assms(1) in \<open>auto simp: dispatch_def on_user_router_opaque_response_def Let_def split: team_message.splits intro!: exI [of _ s]\<close>)

end
