(* ===== verification/Team_Groups.thy ===== *)
theory Team_Groups
  imports Team_Invariant
begin

text \<open>
  The abstract view of the team service: a set of groups. A group has its members in the order in which
  they joined, those of them that have not answered their invitation yet, and a leader.
  \<open>group_step\<close> says for each message when it is granted and what it then does to which group, and that it
  changes nothing when it is not. The handlers refine it.
\<close>

section \<open>Groups\<close>

type_synonym group = "u32 list \<times> u32 set \<times> u32"

definition players :: "group set \<Rightarrow> u32 set" where
  "players A = (\<Union>(M, P, l) \<in> A. set M)"

text \<open>Whom a name in a message means: a name the service does not know means number 0.\<close>

definition called :: "(u32 \<Rightarrow> string) \<Rightarrow> (string \<Rightarrow> bool) \<Rightarrow> string \<Rightarrow> u32 \<Rightarrow> bool" where
  "called nm known k i \<longleftrightarrow> (if known k then nm i = k else i = 0)"

text \<open>A group of two is dissolved when one goes; when the leader goes the first of the others takes over.\<close>

fun without :: "u32 \<Rightarrow> group \<Rightarrow> group set \<Rightarrow> group set" where
  "without i (M, P, l) A =
    (if length M = 2 then A - {(M, P, l)}
     else insert (remove1 i M, P - {i}, if i = l then hd (remove1 i M) else l) (A - {(M, P, l)}))"

text \<open>
  The messages. \<open>TeamMemberInvited _ l k\<close>: player \<open>l\<close> invites the player named \<open>k\<close>, who must be known and in no
  group, into the group it leads, or founds one. \<open>TeamMemberKicked l k\<close>, \<open>TeamMakeLeader l k\<close>: the leader
  \<open>l\<close> removes \<open>k\<close> or passes the leadership to \<open>k\<close>. \<open>TeamLeaveTeam i\<close>: \<open>i\<close> leaves. The other two are the answers
  of \<open>i\<close> to an invitation by the leader \<open>k\<close>.
\<close>

inductive group_step :: "(u32 \<Rightarrow> string) \<Rightarrow> (string \<Rightarrow> bool) \<Rightarrow> team_message \<Rightarrow> group set \<Rightarrow> group set \<Rightarrow> bool" for nm known where
  found: "known k \<Longrightarrow> nm i = k \<Longrightarrow> i \<noteq> l \<Longrightarrow> l \<notin> players A \<Longrightarrow> i \<notin> players A \<Longrightarrow>
    group_step nm known (TeamMemberInvited ln l k) A (insert ([l, i], {i}, l) A)"
| invite: "known k \<Longrightarrow> nm i = k \<Longrightarrow> i \<notin> players A \<Longrightarrow> (M, P, l) \<in> A \<Longrightarrow> length M < 8 \<Longrightarrow>
    group_step nm known (TeamMemberInvited ln l k) A (insert (M @ [i], insert i P, l) (A - {(M, P, l)}))"
| invite_refused: "\<not> known k \<or> k = nm l \<or> (\<exists>i \<in> players A. nm i = k) \<or> (l \<in> players A \<and> \<not> (\<exists>M P. (M, P, l) \<in> A \<and> length M < 8)) \<Longrightarrow>
    group_step nm known (TeamMemberInvited ln l k) A A"
| kick: "(M, P, l) \<in> A \<Longrightarrow> i \<in> set M \<Longrightarrow> called nm known k i \<Longrightarrow>
    group_step nm known (TeamMemberKicked l k) A (without i (M, P, l) A)"
| kick_refused: "\<not> (\<exists>M P i. (M, P, l) \<in> A \<and> i \<in> set M \<and> called nm known k i) \<Longrightarrow>
    group_step nm known (TeamMemberKicked l k) A A"
| promote: "(M, P, l) \<in> A \<Longrightarrow> i \<in> set M - P \<Longrightarrow> known k \<Longrightarrow> nm i = k \<Longrightarrow>
    group_step nm known (TeamMakeLeader l k) A (insert (M, P, i) (A - {(M, P, l)}))"
| promote_refused: "\<not> (\<exists>M P i. (M, P, l) \<in> A \<and> i \<in> set M - P \<and> known k \<and> nm i = k) \<Longrightarrow>
    group_step nm known (TeamMakeLeader l k) A A"
| leave: "(M, P, l) \<in> A \<Longrightarrow> i \<in> set M \<Longrightarrow> group_step nm known (TeamLeaveTeam i) A (without i (M, P, l) A)"
| leave_refused: "i \<notin> players A \<Longrightarrow> group_step nm known (TeamLeaveTeam i) A A"
| accept: "(M, P, l) \<in> A \<Longrightarrow> i \<in> P \<Longrightarrow> called nm known k l \<Longrightarrow>
    group_step nm known (TeamMemberInviteAccepted i n k) A (insert (M, P - {i}, l) (A - {(M, P, l)}))"
| accept_refused: "\<not> (\<exists>M P l. (M, P, l) \<in> A \<and> i \<in> P \<and> called nm known k l) \<Longrightarrow>
    group_step nm known (TeamMemberInviteAccepted i n k) A A"
| decline: "(M, P, l) \<in> A \<Longrightarrow> i \<in> P \<Longrightarrow> called nm known k l \<Longrightarrow>
    group_step nm known (TeamMemberInviteDeclined i n k) A (without i (M, P, l) A)"
| decline_refused: "\<not> (\<exists>M P l. (M, P, l) \<in> A \<and> i \<in> P \<and> called nm known k l) \<Longrightarrow>
    group_step nm known (TeamMemberInviteDeclined i n k) A A"
| toggle: "group_step nm known (TeamToggleLFG i n cd) A A"
| refresh: "group_step nm known (TeamRefreshLFG i n lfg) A A"

section \<open>The groups of the service\<close>

definition undecided :: "team \<Rightarrow> u32 set" where
  "undecided t = tm_idx ` {m \<in> set (m_team_members t). tm_pending m}"

definition group_of :: "team \<Rightarrow> group" where
  "group_of t = (ids t, undecided t, m_team_leader_idx t)"

definition groups :: "team_handler \<Rightarrow> group set" where
  "groups s = group_of ` set (m_team_list s)"

lemma groups_split: "m_team_list s = us @ t # vs \<Longrightarrow> groups s = insert (group_of t) (group_of ` set (us @ vs))"
  by (auto simp: groups_def)

lemma players_groups: "players (groups s) = set (player_ids (m_team_list s))"
  by (simp add: players_def groups_def group_of_def player_ids_def image_image)

lemma undecided_ids: "undecided t \<subseteq> set (ids t)"
  by (auto simp: undecided_def)

lemma undecided_filter: "undecided t = tm_idx ` set (filter tm_pending (m_team_members t))"
  by (simp add: undecided_def)

lemma undecided_name:
  assumes "directory nm" "team_ok nm t"
  shows "isNamePending (nm i) t \<longleftrightarrow> i \<in> undecided t"
  using assms directory_eq [OF assms(1)] by (fastforce simp: isNamePending_def undecided_def team_ok_def)

lemma member_name:
  assumes "directory nm" "team_ok nm t"
  shows "containsEntityName (nm i) t \<longleftrightarrow> i \<in> set (ids t)"
proof -
  have n: "tm_name m = nm (tm_idx m)" if "m \<in> set (m_team_members t)" for m
    using assms(2) that by (simp add: team_ok_def)
  have "comparei_eq (tm_name m) (nm i) \<longleftrightarrow> tm_idx m = i" if "m \<in> set (m_team_members t)" for m
    using n [OF that] directoryD [OF assms(1), of "tm_idx m" i] by auto
  then show ?thesis by (auto simp: containsEntityName_def image_iff)
qed

text \<open>A player is in one group only, so a group is given by any of its members, and by its leader.\<close>

lemma group_of_player:
  assumes "teams_ok nm (us @ t # vs)" "u \<in> set (us @ t # vs)" "i \<in> set (ids t)" "i \<in> set (ids u)"
  shows "u = t"
  by (rule teams_ok_unique [OF assms(1,2) _ assms(4,3)]) simp

lemma group_of_leader:
  assumes "teams_ok nm (us @ t # vs)" "u \<in> set (us @ t # vs)" "m_team_leader_idx u = m_team_leader_idx t"
  shows "u = t"
proof (rule group_of_player [OF assms(1,2)])
  show "m_team_leader_idx t \<in> set (ids t)" using teams_ok_team [OF assms(1)] by (simp add: team_ok_def)
  have "team_ok nm u" using assms(1,2) by (auto simp: teams_ok_def)
  then show "m_team_leader_idx t \<in> set (ids u)" using assms(3) by (simp add: team_ok_def)
qed

lemma card_group: "teams_ok nm (us @ t # vs) \<Longrightarrow> card (set (ids t)) = length (m_team_members t)"
  using distinct_card [OF teams_ok_distinct] by fastforce

lemma groups_minus:
  assumes "teams_ok nm (m_team_list s)" "m_team_list s = us @ t # vs"
  shows "groups s - {group_of t} = group_of ` set (us @ vs)"
proof -
  have ts: "teams_ok nm (us @ t # vs)" using assms by simp
  have "group_of t \<notin> group_of ` set (us @ vs)"
  proof
    assume "group_of t \<in> group_of ` set (us @ vs)"
    then obtain u where u: "u \<in> set (us @ vs)" "m_team_leader_idx u = m_team_leader_idx t" unfolding group_of_def by auto metis+
    then have "u = t" using group_of_leader [OF ts] by simp
    moreover have "t \<notin> set (us @ vs)" using ts by (auto simp: teams_ok_def)
    ultimately show False using u by simp
  qed
  with groups_split [OF assms(2)] show ?thesis by simp
qed

lemma groups_replaced:
  assumes "teams_ok nm (m_team_list s)" "m_team_list s = us @ t # vs" "m_team_list s' = us @ t' # vs"
  shows "groups s' = insert (group_of t') (groups s - {group_of t})"
  using groups_minus [OF assms(1,2)] groups_split [OF assms(3)] by simp

lemma groups_removed:
  assumes "teams_ok nm (m_team_list s)" "m_team_list s = us @ t # vs" "m_team_list s' = us @ vs"
  shows "groups s' = groups s - {group_of t}"
  using groups_minus [OF assms(1,2)] assms(3) by (simp add: groups_def)

lemma in_groups: "m_team_list s = us @ t # vs \<Longrightarrow> (ids t, undecided t, m_team_leader_idx t) \<in> groups s"
  by (simp add: groups_def group_of_def)

text \<open>Every group with that leader, or that member, is the one of the team that was found.\<close>

lemma led_group:
  assumes "teams_ok nm (m_team_list s)" "m_team_list s = us @ t # vs" "(M, P, m_team_leader_idx t) \<in> groups s"
  shows "M = ids t \<and> P = undecided t"
proof -
  from assms(3) obtain u where u: "u \<in> set (m_team_list s)" "M = ids u" "P = undecided u" "m_team_leader_idx u = m_team_leader_idx t"
    by (auto simp: groups_def group_of_def)
  with group_of_leader [of nm us t vs u] assms(1,2) show ?thesis by simp
qed

lemma member_group:
  assumes "teams_ok nm (m_team_list s)" "m_team_list s = us @ t # vs" "(M, P, l) \<in> groups s" "i \<in> set (ids t)" "i \<in> set M"
  shows "M = ids t \<and> P = undecided t \<and> l = m_team_leader_idx t"
proof -
  from assms(3) obtain u where u: "u \<in> set (m_team_list s)" "M = ids u" "P = undecided u" "l = m_team_leader_idx u"
    by (auto simp: groups_def group_of_def)
  with group_of_player [of nm us t vs u i] assms show ?thesis by simp
qed

lemma groups_undecided: "(M, P, l) \<in> groups s \<Longrightarrow> P \<subseteq> set M"
  using undecided_ids by (fastforce simp: groups_def group_of_def)

lemma no_leader: "first_team (isTeamLeader l) s = None \<Longrightarrow> (M, P, l) \<notin> groups s"
  by (auto simp: groups_def group_of_def isTeamLeader_def dest: first_team_None)

text \<open>The number the service has for a name.\<close>

lemma called_id:
  assumes "directory nm" "handler_ok nm n s"
  shows "called nm (\<lambda>k. name_known k s) k i \<longleftrightarrow> i = id_for_name k s"
proof (cases "name_known k s")
  case True
  then show ?thesis using id_for_name_known [OF assms(2) True] directory_eq [OF assms(1)] by (fastforce simp: called_def)
next
  case False
  then have "find (\<lambda>e. snd e = k) (m_id_to_name s) = None" by (auto simp: name_known_def find_None_iff)
  with False show ?thesis by (simp add: called_def id_for_name_def)
qed

section \<open>Removing\<close>

lemma notify_team_list [simp]: "m_team_list (fst (notify_team_of_changes t token s)) = m_team_list s"
proof -
  have "m_team_list (fst (notify_members token ms s)) = m_team_list s" for ms s
    by (induction ms arbitrary: s) (simp_all add: split_beta Let_def remove_lfg_def)
  then show ?thesis by (simp add: notify_team_of_changes_def split_beta Let_def)
qed

lemma erase_member_ids: "erase_member i ms = Some ms' \<Longrightarrow> map tm_idx ms' = remove1 i (map tm_idx ms)"
  by (induction ms arbitrary: ms') (auto split: if_splits)

lemma removed_team:
  assumes "distinct (ids t)" "2 \<le> length (m_team_members t)" "team_removeTeamMember i t = (e, t')" "i \<in> set (ids t)"
  shows "if length (ids t) = 2 then e = TEAM_DISBANDED
    else e = OK \<and> group_of t' = (remove1 i (ids t), undecided t - {i},
      if i = m_team_leader_idx t then hd (remove1 i (ids t)) else m_team_leader_idx t)"
proof -
  obtain ms' where ms': "erase_member i (m_team_members t) = Some ms'"
    using assms(4) erase_member_None [of i "m_team_members t"] by auto
  from erase_member_Some [OF ms'] obtain us m vs where
    m: "m_team_members t = us @ m # vs" "ms' = us @ vs" "tm_idx m = i" by blast
  have "i \<notin> tm_idx ` set (us @ vs)" using assms(1) m(1,3) by auto
  then have u: "tm_idx ` {m \<in> set ms'. tm_pending m} = undecided t - {i}"
    using m by (auto simp: undecided_def) (metis UnI1 UnI2 imageI)+
  note ids' = erase_member_ids [OF ms']
  have len: "length (m_team_members t) = Suc (length ms')" using m by simp
  show ?thesis
  proof (cases "length ms' < 2")
    case True
    with assms(2,3) ms' len show ?thesis by (auto simp: team_removeTeamMember_def Let_def)
  next
    case False
    then have hd: "tm_idx (hd ms') = hd (remove1 i (ids t))" using ids' by (metis hd_map list.size(3) zero_less_numeral)
    have "e = OK" "m_team_members t' = ms'" "m_team_leader_idx t' = (if i = m_team_leader_idx t then tm_idx (hd ms') else m_team_leader_idx t)"
      using False assms(3) ms' by (auto simp: team_removeTeamMember_def Let_def split: if_splits)
    with False len u ids' hd show ?thesis by (simp add: group_of_def undecided_def)
  qed
qed

lemma removed_none: "i \<notin> set (ids t) \<Longrightarrow> team_removeTeamMember i t = (NOT_ON_TEAM, t)"
  using erase_member_None [of i "m_team_members t"] by (simp add: team_removeTeamMember_def)

text \<open>The groups after a removal, notification included or not.\<close>

lemma remove_refines:
  assumes ok: "handler_ok nm n s" and l: "m_team_list s = us @ t # vs" and i: "i \<in> set (ids t)"
    and r: "team_removeTeamMember i t = (e, t')"
    and s': "e = OK \<Longrightarrow> m_team_list s' = us @ t' # vs" "e = TEAM_DISBANDED \<Longrightarrow> m_team_list s' = us @ vs"
  shows "groups s' = without i (ids t, undecided t, m_team_leader_idx t) (groups s)"
proof -
  have ts: "teams_ok nm (m_team_list s)" using handler_ok_teams [OF ok] .
  have ok': "team_ok nm t" "distinct (ids t)" using teams_ok_team teams_ok_distinct ts l by metis+
  then have "2 \<le> length (m_team_members t)" by (simp add: team_ok_def)
  note rm = removed_team [OF ok'(2) this r i]
  have g: "group_of t = (ids t, undecided t, m_team_leader_idx t)" by (simp add: group_of_def)
  show ?thesis
  proof (cases "length (ids t) = 2")
    case True
    with rm s'(2) groups_removed [OF ts l] g show ?thesis by simp
  next
    case False
    with rm have "e = OK" by simp
    from groups_replaced [OF ts l s'(1) [OF this]] rm False g show ?thesis by simp
  qed
qed

lemma removed_list:
  assumes ok: "handler_ok nm n s" and l: "m_team_list s = us @ t # vs" and r: "team_removeTeamMember i t = (e, t')"
  shows "m_team_list (snd (delete_team (m_team_idx t') (set_team (length us) t' s))) = us @ vs"
    "e = OK \<or> e = TEAM_DISBANDED \<Longrightarrow> m_team_list (fst (member_removed (length us) e t' f s)) =
      (if e = TEAM_DISBANDED then us @ vs else us @ t' # vs)"
proof -
  have "m_team_idx t' = m_team_idx t"
    using r by (auto simp: team_removeTeamMember_def Let_def split: option.splits if_splits)
  then have d: "distinct (map m_team_idx (us @ t' # vs))"
    using ok l by (simp add: handler_ok_def teams_ok_def)
  have l1: "m_team_list (set_team (length us) t' s) = us @ t' # vs" using l by simp
  from delete_team_removes [OF l1 d]
  show "m_team_list (snd (delete_team (m_team_idx t') (set_team (length us) t' s))) = us @ vs" by simp
  have l2: "m_team_list (fst (notify_team_of_changes t' 0 (set_team (length us) t' s))) = us @ t' # vs" using l1 by simp
  from delete_team_removes [OF l2 d] l1
  show "e = OK \<or> e = TEAM_DISBANDED \<Longrightarrow> m_team_list (fst (member_removed (length us) e t' f s)) =
      (if e = TEAM_DISBANDED then us @ vs else us @ t' # vs)"
    by (simp add: member_removed_def split_beta Let_def)
qed

lemma remove_result: "team_ok nm t \<Longrightarrow> distinct (ids t) \<Longrightarrow> i \<in> set (ids t) \<Longrightarrow> team_removeTeamMember i t = (e, t') \<Longrightarrow>
    e = OK \<or> e = TEAM_DISBANDED"
  using removed_team [of t i e t'] by (auto simp: team_ok_def split: if_splits)

section \<open>Handlers\<close>

abbreviation known_by :: "team_handler \<Rightarrow> string \<Rightarrow> bool" where
  "known_by s \<equiv> \<lambda>k. name_known k s"

lemma kicked_refines:
  assumes dir: "directory nm" and ok: "handler_ok nm n s"
  shows "group_step nm (known_by s) (TeamMemberKicked l k) (groups s) (groups (fst (on_team_member_kicked l k token s)))"
proof (cases "first_team (isTeamLeader l) s")
  case None
  then have "groups (fst (on_team_member_kicked l k token s)) = groups s" by (simp add: on_team_member_kicked_def)
  with no_leader [OF None] group_step.kick_refused [of l "groups s" nm "known_by s" k] show ?thesis by auto
next
  case (Some j)
  from first_team_Some [OF this] obtain us t vs where
    t: "m_team_list s = us @ t # vs" "length us = j" "isTeamLeader l t" by metis
  have ts: "teams_ok nm (m_team_list s)" and lt: "m_team_leader_idx t = l"
    using handler_ok_teams [OF ok] t(3) by (simp_all add: isTeamLeader_def)
  have tk: "team_ok nm t" "distinct (ids t)" using teams_ok_team teams_ok_distinct ts t(1) by metis+
  let ?i = "id_for_name k s"
  obtain e t' where r: "team_removeTeamMember ?i t = (e, t')" by fastforce
  show ?thesis
  proof (cases "?i \<in> set (ids t)")
    case True
    have "groups (fst (on_team_member_kicked l k token s)) = without ?i (ids t, undecided t, m_team_leader_idx t) (groups s)"
      by (rule remove_refines [OF ok t(1) True r])
        (use Some t r removed_list(2) [OF ok t(1) r] in \<open>simp_all add: on_team_member_kicked_def nth_append\<close>)
    moreover have "called nm (known_by s) k ?i" using called_id [OF dir ok] by blast
    ultimately show ?thesis using group_step.kick [OF in_groups [OF t(1), unfolded lt] True] lt by simp
  next
    case False
    have "groups (fst (on_team_member_kicked l k token s)) = groups s"
      using Some t removed_none [OF False] by (simp add: on_team_member_kicked_def nth_append)
    moreover have "\<not> (\<exists>M P i. (M, P, l) \<in> groups s \<and> i \<in> set M \<and> called nm (known_by s) k i)"
      using False by (auto simp: called_id [OF dir ok] simp del: set_map dest!: led_group [OF ts t(1), unfolded lt])
    ultimately show ?thesis using group_step.kick_refused by metis
  qed
qed

lemma leave_refines:
  assumes ok: "handler_ok nm n s"
  shows "group_step nm known (TeamLeaveTeam i) (groups s) (groups (fst (on_team_leave_team i token s)))"
proof (cases "first_team (containsEntityID i) s")
  case None
  then have "groups (fst (on_team_leave_team i token s)) = groups s" by (simp add: on_team_leave_team_def)
  moreover have "i \<notin> players (groups s)"
    using first_team_None [OF None] by (auto simp: players_groups containsEntityID_ids set_player_ids simp del: set_map)
  ultimately show ?thesis using group_step.leave_refused by metis
next
  case (Some j)
  from first_team_Some [OF this] obtain us t vs where
    t: "m_team_list s = us @ t # vs" "length us = j" "containsEntityID i t" by metis
  have i: "i \<in> set (ids t)" using t(3) by (simp only: containsEntityID_ids)
  obtain e t' where r: "team_removeTeamMember i t = (e, t')" by fastforce
  have "groups (fst (on_team_leave_team i token s)) = without i (ids t, undecided t, m_team_leader_idx t) (groups s)"
    by (rule remove_refines [OF ok t(1) i r])
      (use Some t r removed_list(2) [OF ok t(1) r] in \<open>simp_all add: on_team_leave_team_def nth_append\<close>)
  then show ?thesis using group_step.leave [OF in_groups [OF t(1)] i] by simp
qed

lemma answered_refines:
  assumes dir: "directory nm" and ok: "handler_ok nm n s" and kn: "\<forall>i \<in> players (groups s). name_known (nm i) s"
  shows "group_step nm (known_by s) (if accepted then TeamMemberInviteAccepted i (nm i) k else TeamMemberInviteDeclined i (nm i) k)
    (groups s) (groups (fst (on_team_member_invite_handled i (nm i) k accepted token s)))"
proof -
  have ts: "teams_ok nm (m_team_list s)" using handler_ok_teams [OF ok] .
  let ?s' = "fst (on_team_member_invite_handled i (nm i) k accepted token s)"
  let ?asked = "\<exists>M P l. (M, P, l) \<in> groups s \<and> i \<in> P \<and> called nm (known_by s) k l"
  show ?thesis
  proof (cases "last_team (containsEntityName (nm i)) s")
    case None
    have "i \<notin> set (ids u)" if "u \<in> set (m_team_list s)" for u
      using last_team_None [OF None that] member_name [OF dir, of u i] ts that by (simp add: teams_ok_def)
    then have "\<not> ?asked" using undecided_ids by (fastforce simp: groups_def group_of_def)
    moreover have "groups ?s' = groups s" using None by (simp add: on_team_member_invite_handled_def)
    ultimately show ?thesis using group_step.accept_refused [of "groups s" i] group_step.decline_refused [of "groups s" i] by auto
  next
    case (Some j)
    from last_team_Some [OF this] obtain us t vs where
      t: "m_team_list s = us @ t # vs" "length us = j" "containsEntityName (nm i) t" by metis
    have tk: "team_ok nm t" "distinct (ids t)" using teams_ok_team teams_ok_distinct ts t(1) by metis+
    have i: "i \<in> set (ids t)" using t(3) member_name [OF dir tk(1)] by blast
    let ?g = "(ids t, undecided t, m_team_leader_idx t)"
    show ?thesis
    proof (cases "isTeamLeader (id_for_name k s) t \<and> isNamePending (nm i) t")
      case False
      then have no: "m_team_leader_idx t \<noteq> id_for_name k s \<or> i \<notin> undecided t"
        using undecided_name [OF dir tk(1)] by (auto simp: isTeamLeader_def)
      have "\<not> ?asked"
      proof
        assume ?asked
        then obtain M P where g: "(M, P, id_for_name k s) \<in> groups s" "i \<in> P" by (auto simp: called_id [OF dir ok])
        then have "i \<in> set M" using groups_undecided by blast
        from member_group [OF ts t(1) g(1) i this] g(2) no show False by simp
      qed
      moreover have "groups ?s' = groups s"
        using False Some t by (auto simp: on_team_member_invite_handled_def nth_append Let_def)
      ultimately show ?thesis using group_step.accept_refused [of "groups s" i] group_step.decline_refused [of "groups s" i] by auto
    next
      case asked: True
      have u: "i \<in> undecided t" and l: "called nm (known_by s) k (m_team_leader_idx t)"
        using asked undecided_name [OF dir tk(1)] called_id [OF dir ok] by (auto simp: isTeamLeader_def)
      show ?thesis
      proof (cases accepted)
        case False
        have "i \<in> players (groups s)" using i t(1) by (auto simp: players_groups)
        then have id: "id_for_name (nm i) s = i"
          using kn id_for_name_known [OF ok, of "nm i"] directory_eq [OF dir] by blast
        obtain e t' where r: "team_removeTeamMember i t = (e, t')" by fastforce
        have "groups ?s' = without i ?g (groups s)"
          by (rule remove_refines [OF ok t(1) i r])
            (use False Some t r id asked removed_list(1) [OF ok t(1) r] m_team_list_set_team [OF t(1), of t']
              in \<open>simp_all add: on_team_member_invite_handled_def nth_append Let_def\<close>)
        with group_step.decline [OF in_groups [OF t(1)] u l] False show ?thesis by simp
      next
        case True
        obtain e t' where a: "acceptTeamInvite (nm i) i t = (e, t')" by fastforce
        from dir tk(1) a have e: "e = OK" and g: "group_of t' = (ids t, undecided t - {i}, m_team_leader_idx t)"
        proof (atomize (full), cases rule: acceptTeamInvite_cases)
          case 1
          then have "\<not> isNamePending (nm i) t" by (auto simp: isNamePending_def image_iff)
          with asked show "e = OK \<and> group_of t' = (ids t, undecided t - {i}, m_team_leader_idx t)" by simp
        next
          case (2 us m vs)
          have "undecided t' = undecided t - {i}" using 2(5-7) tk(2) by (auto simp: undecided_def image_iff)
          with 2 show "e = OK \<and> group_of t' = (ids t, undecided t - {i}, m_team_leader_idx t)" by (simp add: group_of_def)
        qed
        have "m_team_list ?s' = us @ t'\<lparr>m_transient := False\<rparr> # vs"
          using True Some t(1,2) a asked e m_team_list_set_team [OF t(1)] by (simp add: on_team_member_invite_handled_def nth_append Let_def)
        moreover have "group_of (t'\<lparr>m_transient := False\<rparr>) = group_of t'" by (simp add: group_of_def undecided_def)
        ultimately have "groups ?s' = insert (ids t, undecided t - {i}, m_team_leader_idx t) (groups s - {?g})"
          using groups_replaced [OF ts t(1)] g by (simp add: group_of_def [of t])
        with group_step.accept [OF in_groups [OF t(1)] u l] True show ?thesis by simp
      qed
    qed
  qed
qed

lemma make_leader_refines:
  assumes dir: "directory nm" and ok: "handler_ok nm n s"
  shows "group_step nm (known_by s) (TeamMakeLeader l k) (groups s) (groups (fst (on_team_member_make_leader l k token s)))"
proof -
  have ts: "teams_ok nm (m_team_list s)" using handler_ok_teams [OF ok] .
  let ?s' = "fst (on_team_member_make_leader l k token s)"
  show ?thesis
  proof (cases "first_team (isTeamLeader l) s")
    case None
    then have "groups ?s' = groups s" by (simp add: on_team_member_make_leader_def)
    with no_leader [OF None] group_step.promote_refused [where l = l and A = "groups s" and known = "known_by s" and k = k and nm = nm] show ?thesis by auto
  next
    case (Some i)
    from first_team_Some [OF this] obtain us t vs where
      t: "m_team_list s = us @ t # vs" "length us = i" "isTeamLeader l t" by metis
    have tk: "team_ok nm t" and lt: "m_team_leader_idx t = l"
      using teams_ok_team [of nm us t vs] ts t(1,3) by (simp_all add: isTeamLeader_def)
    let ?i = "id_for_name k s"
    show ?thesis
    proof (cases "containsEntityName k t \<and> \<not> isNamePending k t \<and> name_known k s")
      case False
      have "groups (s\<lparr>m_pending_events := ps\<rparr>) = groups s" for ps by (simp add: groups_def)
      with False Some t have "groups ?s' = groups s" by (auto simp: on_team_member_make_leader_def nth_append Let_def)
      moreover have "\<not> (\<exists>M P i. (M, P, l) \<in> groups s \<and> i \<in> set M - P \<and> name_known k s \<and> nm i = k)"
        using False member_name [OF dir tk] undecided_name [OF dir tk]
        by (auto simp del: set_map dest!: led_group [OF ts t(1), unfolded lt])
      ultimately show ?thesis using group_step.promote_refused [where l = l and A = "groups s" and known = "known_by s" and k = k and nm = nm] by auto
    next
      case True
      have k: "nm ?i = k" using id_for_name_known [OF ok] True by blast
      have i: "?i \<in> set (ids t) - undecided t"
        using True member_name [OF dir tk, of ?i] undecided_name [OF dir tk, of ?i] unfolding k by blast
      have "m_team_list ?s' = us @ t\<lparr>m_team_leader_idx := ?i\<rparr> # vs"
        using True Some t(1,2) m_team_list_set_team [OF t(1)] by (simp add: on_team_member_make_leader_def nth_append Let_def)
      from groups_replaced [OF ts t(1) this] have "groups ?s' = insert (ids t, undecided t, ?i) (groups s - {(ids t, undecided t, l)})"
        by (simp add: group_of_def undecided_def lt)
      moreover have "name_known k s" using True by blast
      ultimately show ?thesis using group_step.promote [where known = "known_by s" and nm = nm and k = k, OF in_groups [OF t(1), unfolded lt] i _ k] by simp
    qed
  qed
qed

lemma invited_refines:
  assumes dir: "directory nm" and ok: "handler_ok nm n s"
  shows "group_step nm (known_by s) (TeamMemberInvited (nm l) l k) (groups s) (groups (fst (on_team_member_invited (nm l) l k token s)))"
proof -
  let ?s = "s\<lparr>m_id_to_name := map_set l (nm l) (m_id_to_name s)\<rparr>"
  let ?i = "id_for_name k ?s" and ?s' = "fst (on_team_member_invited (nm l) l k token s)"
  have ok1: "handler_ok nm n ?s" by (rule handler_ok_map_set [OF ok])
  have ts: "teams_ok nm (m_team_list s)" using handler_ok_teams [OF ok] .
  have gs: "groups ?s = groups s" "groups (s\<lparr>m_id_to_name := m, m_pending_events := ps\<rparr>) = groups s" for m ps
    by (simp_all add: groups_def)
  have known: "name_known k ?s \<longleftrightarrow> name_known k s" if "k \<noteq> nm l"
  proof
    show "name_known k s" if "name_known k ?s"
      using that \<open>k \<noteq> nm l\<close> set_map_set(1) [of l "nm l" "m_id_to_name s"] by (auto simp: name_known_def)
    have "\<forall>e \<in> set (m_id_to_name s). snd e = nm (fst e)" using ok by (simp add: handler_ok_def)
    from map_set_keeps_name [OF this] show "name_known k ?s" if "name_known k s" using that by (auto simp: name_known_iff)
  qed
  note refused = group_step.invite_refused [of "known_by s" k nm l "groups s" "nm l"]
  show ?thesis
  proof (cases "name_known k ?s \<and> k \<noteq> nm l")
    case False
    with gs have "groups ?s' = groups s" by (auto simp: on_team_member_invited_def Let_def)
    with False known refused show ?thesis by auto
  next
    case True
    have ki: "nm ?i = k" by (rule id_for_name_known [OF ok1]) (use True in blast)
    have kn: "name_known k s" using True known by blast
    have il: "?i \<noteq> l" using ki True by auto
    show ?thesis
    proof (cases "last_team (containsEntityID ?i) ?s")
      case (Some j)
      from last_team_Some [OF this] obtain us t vs where t: "m_team_list ?s = us @ t # vs" "containsEntityID ?i t" by metis
      then have "?i \<in> players (groups s)" by (simp add: players_groups containsEntityID_ids del: set_map)
      moreover have "groups ?s' = groups s"
        using True Some gs by (auto simp: on_team_member_invited_def invite_checked_def Let_def split: option.splits)
      ultimately show ?thesis using refused ki by auto
    next
      case free: None
      have i: "?i \<notin> players (groups s)" using not_on_any_team [OF free] by (simp add: players_groups)
      show ?thesis
      proof (cases "last_team (containsEntityID l) ?s")
        case None
        have l: "l \<notin> players (groups s)" using not_on_any_team [OF None] by (simp add: players_groups)
        have "groups ?s' = insert ([l, ?i], {?i}, l) (groups s)"
          using True free None
          by (simp add: on_team_member_invited_def Let_def invite_checked_founds groups_def group_of_def undecided_filter del: set_filter)
        with group_step.found [where known = "known_by s" and nm = nm and k = k, OF kn ki il l i] show ?thesis by simp
      next
        case (Some j)
        from last_team_Some [OF this] obtain us t vs where
          t: "m_team_list ?s = us @ t # vs" "length us = j" "containsEntityID l t" by metis
        have t1: "m_team_list s = us @ t # vs" using t(1) by simp
        have lt: "l \<in> set (ids t)" using t(3) by (simp only: containsEntityID_ids)
        have tk: "team_ok nm t" using teams_ok_team ts t1 by metis
        show ?thesis
        proof (cases "isTeamLeader l t \<and> \<not> isFull t")
          case False
          have "\<not> (\<exists>M P. (M, P, l) \<in> groups s \<and> length M < 8)"
          proof
            assume "\<exists>M P. (M, P, l) \<in> groups s \<and> length M < 8"
            then obtain M P where g: "(M, P, l) \<in> groups s" "length M < 8" by blast
            from g(1) obtain u where u: "u \<in> set (m_team_list s)" "M = ids u" "l = m_team_leader_idx u"
              by (auto simp: groups_def group_of_def)
            then have "l \<in> set M" using ts by (auto simp: teams_ok_def team_ok_def simp del: set_map)
            from member_group [OF ts t1 g(1) lt this] g(2) False tk show False
              by (simp add: isTeamLeader_def isFull_def team_ok_def)
          qed
          moreover have "l \<in> players (groups s)" using lt t1 by (auto simp: players_groups simp del: set_map)
          moreover have "groups ?s' = groups s"
            using False True Some t gs by (auto simp: on_team_member_invited_def Let_def nth_append)
          ultimately show ?thesis using refused by auto
        next
          case lead: True
          have len: "length (ids t) < 8" using lead tk by (simp add: isFull_def team_ok_def)
          have g: "(ids t, undecided t, l) \<in> groups s" using in_groups [OF t1] lead by (simp add: isTeamLeader_def)
          let ?t = "t\<lparr>m_team_members := m_team_members t @ [\<lparr>tm_idx = ?i, tm_name = k, tm_map = [], tm_map_idx = 0, tm_pending = True\<rparr>]\<rparr>"
          have a: "addTeamMember ?i k True t = (OK, ?t)" using addTeamMember_ok(1) [OF tk, of ?i True] len ki by simp
          have "m_team_list ?s' = us @ ?t # vs"
            using True Some t(1,2) free lead a m_team_list_set_team [OF t(1)]
            by (simp add: on_team_member_invited_def invite_checked_def Let_def nth_append)
          from groups_replaced [OF ts t1 this] lead
          have "groups ?s' = insert (ids t @ [?i], insert ?i (undecided t), l) (groups s - {(ids t, undecided t, l)})"
            by (simp add: group_of_def isTeamLeader_def undecided_filter del: set_filter)
          with group_step.invite [where known = "known_by s" and nm = nm and k = k, OF kn ki i g len] show ?thesis by simp
        qed
      qed
    qed
  qed
qed

lemma dispatch_team_refines:
  assumes "directory nm" "handler_ok nm n s" "\<forall>i \<in> players (groups s). name_known (nm i) s" "honest nm (fst ev)"
    "dispatch_team ev s = Some (s', out)"
  shows "group_step nm (known_by s) (fst ev) (groups s) (groups s')"
proof (cases "fst ev")
  case (TeamToggleLFG i n cd)
  then have "groups s' = groups s"
    using assms(5) by (auto simp: dispatch_team_def on_team_toggle_lfg_def Let_def groups_def remove_lfg_def add_lfg_def
        split: if_splits)
  with TeamToggleLFG show ?thesis by (simp add: group_step.toggle)
next
  case (TeamRefreshLFG i n l)
  then have "groups s' = groups s" using assms(5) by (auto simp: dispatch_team_def on_team_refresh_lfg_def Let_def)
  with TeamRefreshLFG show ?thesis by (simp add: group_step.refresh)
qed (use assms(4,5) invited_refines [OF assms(1,2)] kicked_refines [OF assms(1,2)] leave_refines [OF assms(2)]
      make_leader_refines [OF assms(1,2)] answered_refines [OF assms(1-3), where accepted = True, simplified]
      answered_refines [OF assms(1-3), where accepted = False, simplified]
      in \<open>auto simp: dispatch_team_def dest!: arg_cong [where f = fst]\<close>)

section \<open>The names of all players in groups are known\<close>

lemma without_players: "players (without i (M, P, l) A) \<subseteq> players (insert (M, P, l) A)"
  using set_remove1_subset [of i M] by (auto simp: players_def)

lemma group_step_players:
  assumes "group_step nm known ev A B"
  shows "players B \<subseteq> players A \<union> {j. known (nm j)} \<union> {j. \<exists>n k. ev = TeamMemberInvited n j k}"
  using assms
proof (cases rule: group_step.cases)
  case (kick M P l i k)
  with without_players [of i M P l A] show ?thesis by (auto simp: players_def)
next
  case (leave M P l i)
  with without_players [of i M P l A] show ?thesis by (auto simp: players_def)
next
  case (decline M P l i k)
  with without_players [of i M P l A] show ?thesis by (auto simp: players_def)
qed (auto simp: players_def)

lemma invited_leader_known:
  assumes "fst ev = TeamMemberInvited (nm l) l k" "dispatch_team ev s = Some (s', out)"
  shows "name_known (nm l) s'"
proof -
  have "s' = fst (on_team_member_invited (nm l) l k (snd ev) s)" using assms by (auto simp: dispatch_team_def dest: arg_cong [where f = fst])
  then have "m_id_to_name s' = map_set l (nm l) (m_id_to_name s)"
    by (simp add: on_team_member_invited_def Let_def split: option.split)
  with set_map_set(2) [of l "nm l" "m_id_to_name s"] show ?thesis by (auto simp: name_known_iff)
qed

lemma players_known:
  assumes "handled nm n s" "directory nm" "n < 2 ^ 32"
  shows "\<forall>i \<in> players (groups s). name_known (nm i) s"
  using assms(1,3)
proof (induction rule: handled.induct)
  case start
  show ?case by (simp add: players_groups new_team_handler_def)
next
  case (event n s ev s' out)
  have ok: "handler_ok nm n s" and ih: "\<forall>i \<in> players (groups s). name_known (nm i) s"
    using handled_invariant [OF event.hyps(1) assms(2)] event.IH event.prems by simp_all
  have keep: "name_known k s'" if "name_known k s" for k
    using names_step_known(1) [OF dispatch_team_names [OF event.hyps(2,3)] _ that] handled_names [OF event.hyps(1)] by blast
  have "name_known (nm j) s'" if "fst ev = TeamMemberInvited m j k" for m j k
    using invited_leader_known [OF _ event.hyps(3), of nm j k] event.hyps(2) that by simp
  with group_step_players [OF dispatch_team_refines [OF assms(2) ok ih event.hyps(2,3)]] ih keep show ?case by blast
next
  case (name n s i)
  have "groups (s\<lparr>m_id_to_name := map_set i (nm i) (m_id_to_name s)\<rparr>) = groups s" by (simp add: groups_def)
  moreover have "\<forall>e \<in> set (m_id_to_name s). snd e = nm (fst e)" using handled_names [OF name.hyps] by blast
  note map_set_keeps_name [OF this, of _ _ i]
  ultimately show ?case using name.IH name.prems unfolding name_known_iff by fastforce
next
  case (answered n s P)
  then show ?case by (simp add: groups_def name_known_def)
qed

end
