(* ===== verification/Team_Properties.thy ===== *)
theory Team_Properties
  imports Team_Groups
begin

text \<open>The properties of teams and of the team service, each with a concrete instance.\<close>

section \<open>Examples\<close>

text \<open>A directory in which player \<open>i\<close> has a name of \<open>i\<close> letters.\<close>

definition example_name :: "u32 \<Rightarrow> string" where
  "example_name i = replicate (unat i) (CHR ''a'')"

lemma example_directory: "directory example_name"
  by (auto simp: directory_def example_name_def comparei_eq_def word_unat_eq_iff dest: arg_cong [where f = length])

lemma example_names [simp]:
  "example_name 1 = ''a''" "example_name 2 = ''aa''" "example_name 3 = ''aaa''"
proof -
  have "unat (1 :: u32) = Suc 0" "unat (2 :: u32) = Suc (Suc 0)" "unat (3 :: u32) = Suc (Suc (Suc 0))" by simp_all
  then show "example_name 1 = ''a''" "example_name 2 = ''aa''" "example_name 3 = ''aaa''"
    unfolding example_name_def by (simp_all only: replicate.simps)
qed

text \<open>Player 1 has invited player 2, whose number the service learns from the user router.\<close>

definition example_invited :: team_handler where
  "example_invited =
    \<lparr>m_team_list = [founded 0 1 ''a'' 2 ''aa''], m_lfg_list = [], m_id_to_name = [(1, ''a''), (2, ''aa'')],
     m_pending_events = [], m_team_idx_counter = 1\<rparr>"

definition example_asked :: team_handler where
  "example_asked = new_team_handler
    \<lparr>m_id_to_name := [(1, ''a'')],
     m_pending_events := [(''aa'', (TeamMemberInvited ''a'' 1 ''aa'', 7))]\<rparr>"

lemma example_asked_handled: "handled example_name 1 example_asked"
proof -
  have d: "dispatch_team (TeamMemberInvited ''a'' 1 ''aa'', 7) new_team_handler =
      Some (example_asked, [UserRouterQueryRequest 0 ''aa'' 7])"
    by (simp add: dispatch_team_def on_team_member_invited_def new_team_handler_def example_asked_def name_known_def)
  from handled.event [OF handled.start _ d] show ?thesis by simp
qed

lemma example_invited_handled: "handled example_name 2 example_invited"
proof -
  let ?s = "example_asked\<lparr>m_id_to_name := map_set 2 (example_name 2) (m_id_to_name example_asked)\<rparr>"
  have h: "handled example_name 1 ?s" by (rule handled.name [OF example_asked_handled])
  have "dispatch_team (TeamMemberInvited ''a'' 1 ''aa'', 7) ?s =
      Some (example_invited\<lparr>m_pending_events := m_pending_events ?s\<rparr>,
        [UserRouterOpaqueRequest (TeamMemberInvited ''a'' 1 ''aa'', 7) 1 ''a'' [] [''aa''] 7])"
    by (simp add: dispatch_team_def on_team_member_invited_def new_team_handler_def example_asked_def example_invited_def
        name_known_def id_for_name_def last_team_def invite_checked_founds)
  from handled.event [OF h _ this] have h2: "handled example_name 2 (example_invited\<lparr>m_pending_events := m_pending_events ?s\<rparr>)"
    by (simp add: numeral_2_eq_2)
  have "example_invited = (example_invited\<lparr>m_pending_events := m_pending_events ?s\<rparr>)\<lparr>m_pending_events :=
      filter (\<lambda>_. False) (m_pending_events (example_invited\<lparr>m_pending_events := m_pending_events ?s\<rparr>))\<rparr>"
    by (simp add: example_invited_def)
  with handled.answered [OF h2, of "\<lambda>_. False"] show ?thesis by metis
qed

section \<open>The service\<close>

text \<open>C15. In every state the service reaches on honest events, every team has between two and eight
  members, its leader is one of them, no player is listed twice - neither on one team nor on two -,
  the team numbers are distinct, and neither is any player listed twice as looking for a group nor
  listed at all while on a team that has been joined.\<close>

theorem team_service_invariant:
  assumes "handled nm n s" "directory nm" "n < 2 ^ 32"
  shows "(\<forall>t \<in> set (m_team_list s). 2 \<le> length (m_team_members t) \<and> length (m_team_members t) \<le> 8 \<and>
      m_team_leader_idx t \<in> tm_idx ` set (m_team_members t)) \<and>
    distinct (map tm_idx (concat (map m_team_members (m_team_list s)))) \<and>
    distinct (map m_team_idx (m_team_list s)) \<and> distinct (map lfg_db_id (m_lfg_list s)) \<and>
    (\<forall>t \<in> set (m_team_list s). \<forall>m \<in> set (m_team_members t).
      \<not> m_transient t \<and> \<not> tm_pending m \<longrightarrow> \<not> db_id_is_lfg (tm_idx m) s)"
proof -
  note inv = handled_invariant [OF assms]
  have "map tm_idx (concat (map m_team_members ts)) = player_ids ts" for ts
    by (induction ts) auto
  moreover have "\<not> db_id_is_lfg (tm_idx m) s"
    if "t \<in> set (m_team_list s)" "m \<in> set (m_team_members t)" "\<not> m_transient t" "\<not> tm_pending m" for t m
  proof -
    have "present t \<inter> lfg_db_id ` set (m_lfg_list s) = {}"
      using inv that(1,3) unfolding handler_ok_def established_def by blast
    moreover have "tm_idx m \<in> present t" using that(2,4) by (auto simp: present_def)
    ultimately have "tm_idx m \<notin> lfg_db_id ` set (m_lfg_list s)" by blast
    then show ?thesis by (auto simp: db_id_is_lfg_def image_iff)
  qed
  ultimately show ?thesis using inv by (auto simp: handler_ok_def teams_ok_def team_ok_def)
qed

theorem team_service_invariant_witness:
  "list_all (\<lambda>t. m_team_leader_idx t \<in> tm_idx ` set (m_team_members t)) (m_team_list example_invited) \<and>
    distinct (map tm_idx (concat (map m_team_members (m_team_list example_invited))))"
  using team_service_invariant [OF example_invited_handled example_directory] by (simp add: list_all_iff)

text \<open>C25. On honest events \<open>dispatch\<close> always returns - also the loop over the waiting events, to
  which the events it dispatches could add - with one exception: the answer of the user router for
  a name nothing waits for. The next state is reachable again.\<close>

theorem dispatch_terminates:
  assumes "handled nm n s" "honest_event nm ev"
    "\<forall>q r i k. ev = UserRouterQueryResponse q r i k \<longrightarrow> (\<exists>e \<in> set (m_pending_events s). fst e = k)"
  shows "\<exists>s' out k. dispatch ev s = Some (s', out) \<and> handled nm k s'"
  using dispatch_returns [OF assms(1,2)] assms(3) by (fastforce simp: waiting_events_def filter_empty_conv)

theorem dispatch_terminates_witness:
  "\<exists>s' out k. dispatch (UserRouterQueryResponse 0 ''aa'' 2 ''aa'') example_asked = Some (s', out) \<and>
    handled example_name k s'"
  by (rule dispatch_terminates [OF example_asked_handled]) (simp_all add: example_asked_def)

text \<open>The answer to a query removes every event that waits for the name. When two invitations of
  the same unknown player have caused two queries, the second answer meets no waiting event and
  fails the assertion at the start of its handler.\<close>

theorem second_answer_asserts:
  assumes "dispatch (UserRouterQueryResponse q r i k) s = Some (s', out)"
  shows "dispatch (UserRouterQueryResponse q r i k) s' = None"
  using assms by (auto simp: dispatch_def on_user_router_query_response_def split: if_splits Option.bind_splits)

theorem second_answer_asserts_witness:
  "\<exists>s1 s2 s3 s4 out.
    dispatch_team (TeamMemberInvited ''a'' 1 ''aaa'', 7) new_team_handler = Some (s1, [UserRouterQueryRequest 0 ''aaa'' 7]) \<and>
    dispatch_team (TeamMemberInvited ''aa'' 2 ''aaa'', 8) s1 = Some (s2, [UserRouterQueryRequest 0 ''aaa'' 8]) \<and>
    dispatch (UserRouterQueryResponse 0 ''aaa'' 3 ''aaa'') s2 = Some (s3, out) \<and>
    dispatch (UserRouterQueryResponse 0 ''aaa'' 3 ''aaa'') s3 = None"
proof -
  let ?e1 = "(TeamMemberInvited ''a'' 1 ''aaa'', 7)" and ?e2 = "(TeamMemberInvited ''aa'' 2 ''aaa'', 8)"
  let ?s1 = "new_team_handler\<lparr>m_id_to_name := [(1, ''a'')], m_pending_events := [(''aaa'', ?e1)]\<rparr>"
  let ?s2 = "?s1\<lparr>m_id_to_name := [(1, ''a''), (2, ''aa'')], m_pending_events := [(''aaa'', ?e1), (''aaa'', ?e2)]\<rparr>"
  have d1: "dispatch_team ?e1 new_team_handler = Some (?s1, [UserRouterQueryRequest 0 ''aaa'' 7])"
    by (simp add: dispatch_team_def on_team_member_invited_def new_team_handler_def name_known_def)
  have d2: "dispatch_team ?e2 ?s1 = Some (?s2, [UserRouterQueryRequest 0 ''aaa'' 8])"
    by (simp add: dispatch_team_def on_team_member_invited_def new_team_handler_def name_known_def)
  have h: "handled example_name 2 ?s2"
    using handled.event [OF handled.event [OF handled.start _ d1] _ d2, of example_name] by (simp add: numeral_2_eq_2)
  obtain s3 out where d3: "dispatch (UserRouterQueryResponse 0 ''aaa'' 3 ''aaa'') ?s2 = Some (s3, out)"
    using dispatch_returns [OF h, of "UserRouterQueryResponse 0 ''aaa'' 3 ''aaa''"] by (auto simp: waiting_events_def)
  from second_answer_asserts [OF d3] d1 d2 d3 show ?thesis by blast
qed

text \<open>C14. Every message does to the abstract groups exactly what the specification says: who is added, removed,
  asked, or made the leader, in which group and on whose behalf, and that nothing changes when the
  message is not granted. Inviting needs the leader of a group with room, or founds one, and a known player who is in
  no group; only the leader kicks the player named and passes the leadership to the player named; only the player
  who leaves or declines goes, a group of two is dissolved then, and only when the leader goes the first of
  the others takes over.
\<close>
theorem service_refines_groups:
  assumes "handled nm n s" "directory nm" "n < 2 ^ 32" "honest nm (fst ev)" "dispatch_team ev s = Some (s', out)"
  shows "group_step nm (\<lambda>k. name_known k s) (fst ev) (groups s) (groups s')"
  using dispatch_team_refines [OF assms(2) handled_invariant [OF assms(1-3)] players_known [OF assms(1-3)] assms(4,5)] .

theorem service_refines_groups_witness:
  "\<exists>s' out. dispatch_team (TeamLeaveTeam 2, 5) example_invited = Some (s', out) \<and>
    group_step example_name (\<lambda>k. name_known k example_invited) (TeamLeaveTeam 2) (groups example_invited) (groups s')"
proof -
  obtain s' out where d: "dispatch_team (TeamLeaveTeam 2, 5) example_invited = Some (s', out)"
    by (cases "on_team_leave_team 2 5 example_invited") (simp add: dispatch_team_def)
  with service_refines_groups [OF example_invited_handled example_directory _ _ d] show ?thesis by auto
qed

lemma present_filter: "present t = tm_idx ` set (filter (\<lambda>m. \<not> tm_pending m) (m_team_members t))"
  by (simp add: present_def)

lemma team_of_player:
  assumes "directory nm" "teams_ok nm (m_team_list s)" "m_team_list s = us @ t # vs" "i \<in> set (ids t)"
  shows "first_team (containsEntityID i) s = Some (length us)" "last_team (containsEntityName (nm i)) s = Some (length us)"
proof -
  have uniq: "length us' = length us" if t': "m_team_list s = us' @ t' # vs'" "i \<in> set (ids t')" for us' t' vs'
  proof -
    have "distinct (m_team_list s)" using assms(2) by (simp add: teams_ok_def distinct_map)
    moreover have m: "t' \<in> set (m_team_list s)" using t'(1) by simp
    moreover have "t \<in> set (m_team_list s)" using assms(3) by simp
    with m have "t' = t" by (rule teams_ok_unique [OF assms(2) _ _ t'(2) assms(4)])
    then have "m_team_list s ! length us' = m_team_list s ! length us"
      by (simp only: t'(1)) (metis assms(3) nth_append_length t'(1))
    moreover have "length us' < length (m_team_list s)" using t'(1) by simp
    moreover have "length us < length (m_team_list s)" using assms(3) by simp
    ultimately show ?thesis by (simp add: nth_eq_iff_index_eq)
  qed
  show "first_team (containsEntityID i) s = Some (length us)"
  proof (cases "first_team (containsEntityID i) s")
    case None
    from first_team_None [OF this, of t] assms(3,4) show ?thesis by (simp add: containsEntityID_ids)
  next
    case (Some j)
    from first_team_Some [OF this] obtain us' t' vs' where
      t': "m_team_list s = us' @ t' # vs'" "length us' = j" "containsEntityID i t'" by metis
    with uniq [OF t'(1)] Some show ?thesis by (simp only: containsEntityID_ids)
  qed
  have cn: "containsEntityName (nm i) u \<longleftrightarrow> i \<in> set (ids u)" if "u \<in> set (m_team_list s)" for u
    using assms(1,2) that by (intro member_name) (auto simp: teams_ok_def)
  show "last_team (containsEntityName (nm i)) s = Some (length us)"
  proof (cases "last_team (containsEntityName (nm i)) s")
    case None
    from last_team_None [OF this, of t] assms(3,4) cn show ?thesis by simp
  next
    case (Some j)
    from last_team_Some [OF this] obtain us' t' vs' where
      t': "m_team_list s = us' @ t' # vs'" "length us' = j" "containsEntityName (nm i) t'" by metis
    have "t' \<in> set (m_team_list s)" by (simp add: t'(1))
    then have "i \<in> set (ids t')" using cn t'(3) by blast
    from uniq [OF t'(1) this] t'(2) Some show ?thesis by (simp only:)
  qed
qed

text \<open>C26. A player who accepts a pending invitation, while the inviter leads the team, becomes a full
  member: the composition of the team is the same, the player is present, the team is no longer
  transient and the player no longer looking for a group. No other team changes.\<close>

theorem accepting_joins:
  assumes "handled nm n s" "directory nm" "n < 2 ^ 32" "m_team_list s = us @ t # vs"
    "isNamePending (nm i) t" "isTeamLeader (id_for_name l s) t"
  shows "\<exists>t'. m_team_list (fst (on_team_member_invite_handled i (nm i) l True token s)) = us @ t' # vs \<and>
    ids t' = ids t \<and> present t' = insert i (present t) \<and> \<not> m_transient t' \<and>
    \<not> db_id_is_lfg i (fst (on_team_member_invite_handled i (nm i) l True token s))"
proof -
  have ok: "handler_ok nm n s" by (rule handled_invariant [OF assms(1-3)])
  note ts = handler_ok_teams [OF ok, unfolded assms(4)]
  obtain e ta where a: "acceptTeamInvite (nm i) i t = (e, ta)" by fastforce
  from assms(5) obtain m0 where m0: "m0 \<in> set (m_team_members t)" "tm_name m0 = nm i" by (auto simp: isNamePending_def)
  from assms(2) teams_ok_team [OF ts] a show ?thesis
  proof (cases rule: acceptTeamInvite_cases)
    case 1
    with m0 show ?thesis by force
  next
    case (2 us' m vs')
    let ?t = "ta\<lparr>m_transient := False\<rparr>"
    have i: "i \<in> set (ids t)" using 2(5,6) by simp
    have pr: "present ?t = insert i (present t)"
      using 2(5) by (auto simp: present_filter 2(6,7))
    have f: "on_team_member_invite_handled i (nm i) l True token s =
        notify_team_of_changes ?t token (set_team (length us) ?t s)"
      using team_of_player(2) [OF assms(2) handler_ok_teams [OF ok] assms(4) i] assms(4-6) a 2(1)
      by (simp add: on_team_member_invite_handled_def nth_append Let_def)
    have "distinct (map lfg_db_id (m_lfg_list (set_team (length us) ?t s)))"
      using ok by (simp add: handler_ok_def set_team_def)
    from notify_team_of_changes_state [OF this, of ?t token] pr show ?thesis
      unfolding f using 2(4) assms(4) by (intro exI [of _ ?t]) (auto simp: db_id_is_lfg_def)
  qed
qed

theorem accepting_joins_witness:
  "\<exists>t'. m_team_list (fst (on_team_member_invite_handled 2 ''aa'' ''a'' True 9 example_invited)) = [t'] \<and> present t' = {1, 2}"
proof -
  let ?t = "founded 0 1 ''a'' 2 ''aa''"
  have t: "m_team_list example_invited = [] @ ?t # []" by (simp add: example_invited_def)
  have p: "isNamePending (example_name 2) ?t" "isTeamLeader (id_for_name ''a'' example_invited) ?t"
    by (simp_all add: isNamePending_def isTeamLeader_def id_for_name_def example_invited_def)
  have "{m \<in> set (m_team_members ?t). \<not> tm_pending m} =
      {\<lparr>tm_idx = 1, tm_name = ''a'', tm_map = [], tm_map_idx = 0, tm_pending = False\<rparr>}" by auto
  then have "present ?t = {1}" by (simp add: present_def)
  with accepting_joins [OF example_invited_handled example_directory _ t p, of 9] show ?thesis by force
qed

lemma delete_set_team:
  assumes "teams_ok nm (us @ t # vs)" "m_team_list s = us @ t' # vs" "m_team_idx t' = m_team_idx t"
  shows "m_team_list (snd (delete_team (m_team_idx t') s)) = us @ vs"
proof -
  have "distinct (map m_team_idx (us @ t' # vs))" using assms(1,3) by (simp add: teams_ok_def)
  from delete_team_removes [OF assms(2) this] show ?thesis by simp
qed

text \<open>C27. A player who leaves is on no team afterwards. The others stay together under a leader who is
  one of them, unless the team had only two members: then it ceases to exist. No other team
  changes, and the departure is forwarded before the team is told.\<close>

theorem leaving_leaves:
  assumes "handled nm n s" "directory nm" "n < 2 ^ 32" "m_team_list s = us @ t # vs" "i \<in> set (ids t)"
  shows "let (s', out) = on_team_leave_team i token s in
    i \<notin> set (player_ids (m_team_list s')) \<and>
    hd out = UserRouterOpaqueRequest (TeamLeaveTeam i, token) i [] [i] [] token \<and>
    (if length (m_team_members t) = 2 then m_team_list s' = us @ vs
     else (\<exists>t'. m_team_list s' = us @ t' # vs \<and> set (ids t') = set (ids t) - {i} \<and>
             m_team_leader_idx t' \<in> set (ids t')))"
proof -
  have ok: "handler_ok nm n s" by (rule handled_invariant [OF assms(1-3)])
  note ts = handler_ok_teams [OF ok, unfolded assms(4)]
  have d: "i \<notin> set (player_ids us)" "i \<notin> set (player_ids vs)" using ts assms(5) by (auto simp: teams_ok_def)
  obtain e t' where r: "team_removeTeamMember i t = (e, t')" by fastforce
  have f: "first_team (containsEntityID i) s = Some (length us)" "m_team_list s ! length us = t"
    using team_of_player(1) [OF assms(2) handler_ok_teams [OF ok] assms(4,5)] assms(4) by simp_all
  from teams_ok_team [OF ts] teams_ok_distinct [OF ts] r show ?thesis
  proof (cases rule: team_removeTeamMember_cases)
    case 1
    with assms(5) show ?thesis by blast
  next
    case 2
    have "m_team_list (fst (notify_team_of_changes t' 0 (set_team (length us) t' s))) = us @ t' # vs"
      using assms(4) by simp
    from delete_set_team [OF ts this 2(2)] 2(1,4) f r d show ?thesis
      by (simp add: on_team_leave_team_def member_removed_def split_beta Let_def)
  next
    case 3
    have "length (m_team_members t) \<noteq> 2"
    proof
      assume "length (m_team_members t) = 2"
      then have "card (set (ids t) - {i}) = 1" using card_group [OF ts] assms(5) by simp
      with 3(2,4) distinct_card [OF 3(5)] show False by (simp add: team_ok_def)
    qed
    with 3 f r d assms(4) show ?thesis
      by (auto simp: on_team_leave_team_def member_removed_def split_beta Let_def team_ok_def)
  qed
qed

theorem leaving_leaves_witness:
  "m_team_list (fst (on_team_leave_team 1 5 example_invited)) = []"
proof -
  have t: "m_team_list example_invited = [] @ founded 0 1 ''a'' 2 ''aa'' # []" by (simp add: example_invited_def)
  from leaving_leaves [OF example_invited_handled example_directory _ t, of 1 5] show ?thesis
    by (simp add: split_beta Let_def)
qed

text \<open>A player without a team who switches the search for a group on and off again is back where
  the service was before, and is told so both times.\<close>

theorem toggle_lfg_twice:
  assumes "\<not> db_id_is_lfg i s" "\<forall>t \<in> set (m_team_list s). i \<notin> set (ids t)"
  shows "let (s1, out1) = on_team_toggle_lfg i n cd tok1 s; (s2, out2) = on_team_toggle_lfg i n cd' tok2 s1 in
    db_id_is_lfg i s1 \<and> s2 = s \<and>
    hd out1 = UserRouterOpaqueRequest (TeamToggleLFG i n (cd\<lparr>cd_lfg := True\<rparr>), tok1) i n [i] [n] tok1 \<and>
    out2 = [UserRouterOpaqueRequest (TeamToggleLFG i n (cd'\<lparr>cd_lfg := False\<rparr>), tok2) i n [i] [n] tok2]"
proof -
  have n: "team_for_db_id i s = None"
  proof (cases "team_for_db_id i s")
    case (Some j)
    from first_team_Some [OF this [unfolded team_for_db_id_def]] obtain us t vs where
      "m_team_list s = us @ t # vs" "containsEntityID i t" by metis
    with assms(2) show ?thesis by (auto simp: containsEntityID_ids simp del: set_map)
  qed simp
  have "erase_first (\<lambda>m. lfg_db_id m = i) (m_lfg_list s @ [x]) = m_lfg_list s" if "lfg_db_id x = i" for x
    using assms(1) that erase_first_skip [of "m_lfg_list s" "\<lambda>m. lfg_db_id m = i" x "[]"] by (auto simp: db_id_is_lfg_def)
  with n assms(1) show ?thesis
    by (simp add: on_team_toggle_lfg_def Let_def add_lfg_def remove_lfg_def db_id_is_lfg_def)
qed

theorem toggle_lfg_twice_witness:
  "fst (on_team_toggle_lfg 3 ''aaa'' default_char_data 2 (fst (on_team_toggle_lfg 3 ''aaa'' default_char_data 1 example_invited)))
    = example_invited"
proof -
  have "\<not> db_id_is_lfg 3 example_invited" "\<forall>t \<in> set (m_team_list example_invited). 3 \<notin> set (ids t)"
    by (simp_all add: example_invited_def db_id_is_lfg_def)
  from toggle_lfg_twice [OF this, of "''aaa''" default_char_data 1 default_char_data 2] show ?thesis
    by (simp add: split_beta Let_def)
qed

text \<open>After a change the members who have joined, and only they, are told: first those who were
  looking for a group are taken off that list, each with a message of its own, then all of them get
  the team without the pending members, marked as disbanded when fewer than two are left.\<close>

theorem notify_tells_present_members:
  assumes "distinct (map lfg_db_id (m_lfg_list s))" "distinct (ids t)"
  shows "notify_team_of_changes t token s =
    (let joined = filter (\<lambda>m. \<not> tm_pending m) (m_team_members t) in
     (s\<lparr>m_lfg_list := filter (\<lambda>l. lfg_db_id l \<notin> tm_idx ` set joined) (m_lfg_list s)\<rparr>,
      map (\<lambda>m. UserRouterOpaqueRequest
                (TeamToggleLFG (tm_idx m) (tm_name m) (default_char_data\<lparr>cd_lfg := False\<rparr>), token)
                (tm_idx m) (tm_name m) [tm_idx m] [tm_name m] token)
        (filter (\<lambda>m. db_id_is_lfg (tm_idx m) s) joined) @
      [UserRouterOpaqueRequest
        (TeamUpdated (team_data.truncate t\<lparr>m_team_members := joined\<rparr>) (length joined < 2), 0)
        (m_team_leader_idx t) [] (map tm_idx joined) (map tm_name joined) 0]))"
proof -
  have out: "snd (notify_members token ms s) =
      map (\<lambda>m. UserRouterOpaqueRequest
                (TeamToggleLFG (tm_idx m) (tm_name m) (default_char_data\<lparr>cd_lfg := False\<rparr>), token)
                (tm_idx m) (tm_name m) [tm_idx m] [tm_name m] token)
        (filter (\<lambda>m. db_id_is_lfg (tm_idx m) s) (filter (\<lambda>m. \<not> tm_pending m) ms))"
    if "distinct (map tm_idx ms)" "distinct (map lfg_db_id (m_lfg_list s))" for ms s
    using that
  proof (induction ms arbitrary: s)
    case (Cons m ms)
    have d: "distinct (map lfg_db_id (m_lfg_list (remove_lfg (tm_idx m) s)))"
      using Cons.prems(2) by (simp add: remove_lfg_filter distinct_map_filter)
    have "db_id_is_lfg (tm_idx m') (remove_lfg (tm_idx m) s) = db_id_is_lfg (tm_idx m') s" if "m' \<in> set ms" for m'
      using Cons.prems that by (auto simp: db_id_is_lfg_def remove_lfg_filter)
    with Cons.IH [OF _ d] Cons.IH [OF _ Cons.prems(2)] Cons.prems(1) show ?case
      by (auto simp: split_beta Let_def cong: filter_cong)
  qed simp
  show ?thesis
    using notify_team_of_changes_state [OF assms(1), of t token] out [OF assms(2,1)]
    by (simp add: notify_team_of_changes_def split_beta Let_def present_def team_data.truncate_def)
qed

theorem notify_tells_present_members_witness:
  "snd (notify_team_of_changes (founded 0 1 ''a'' 2 ''aa'') 4 example_invited) =
    [UserRouterOpaqueRequest (TeamUpdated \<lparr>m_team_idx = 1, m_has_taskforce = False, m_team_leader_idx = 1,
       m_team_members = [\<lparr>tm_idx = 1, tm_name = ''a'', tm_map = [], tm_map_idx = 0, tm_pending = False\<rparr>]\<rparr> True, 0)
       1 [] [1] [''a''] 0]"
proof -
  have d: "distinct (map lfg_db_id (m_lfg_list example_invited))" "distinct (ids (founded 0 1 ''a'' 2 ''aa''))"
    by (simp_all add: example_invited_def)
  show ?thesis unfolding notify_tells_present_members [OF d]
    by (simp add: example_invited_def db_id_is_lfg_def Let_def team_data.truncate_def founded_def new_team_def addTeamMember_def)
qed

section \<open>Teams, leadership and sidekicks\<close>

text \<open>Removing the member that was just added gives the team back, and the other way round a team
  that is full refuses members.\<close>

theorem add_then_remove:
  assumes "2 \<le> length (m_team_members t)" "i \<notin> set (ids t)" "i \<noteq> m_team_leader_idx t"
  shows "addTeamMember i n b t = (if isFull t then (TEAM_FULL, t) else (OK, snd (addTeamMember i n b t))) \<and>
    (\<not> isFull t \<longrightarrow> team_removeTeamMember i (snd (addTeamMember i n b t)) = (OK, t))"
proof -
  have "erase_member i (ms @ [m]) = Some ms" if "i \<notin> set (map tm_idx ms)" "tm_idx m = i" for ms m
    using that by (induction ms) auto
  moreover have "m_team_members t \<noteq> []" using assms(1) by auto
  ultimately show ?thesis using assms by (simp add: addTeamMember_def isFull_def Let_def team_removeTeamMember_def)
qed

theorem add_then_remove_witness:
  "team_removeTeamMember 3 (snd (addTeamMember 3 ''aaa'' True (founded 0 1 ''a'' 2 ''aa''))) = (OK, founded 0 1 ''a'' 2 ''aa'')"
  using add_then_remove [of "founded 0 1 ''a'' 2 ''aa''" 3 "''aaa''" True] by (simp add: isFull_def)

text \<open>A leader who leaves a team is followed by the first of the remaining members, whether that one
  has accepted the invitation or not: the service reaches states in which a team is led by a
  player who has not joined it.\<close>

theorem pending_member_leads:
  "\<exists>n s t m. directory example_name \<and> handled example_name n s \<and> t \<in> set (m_team_list s) \<and>
    m \<in> set (m_team_members t) \<and> tm_idx m = m_team_leader_idx t \<and> tm_pending m"
proof -
  let ?s1 = "example_invited\<lparr>m_id_to_name := map_set 3 (example_name 3) (m_id_to_name example_invited)\<rparr>"
  have h1: "handled example_name 2 ?s1" by (rule handled.name [OF example_invited_handled])
  obtain s2 out2 where d2: "dispatch_team (TeamMemberInvited ''a'' 1 ''aaa'', 3) ?s1 = Some (s2, out2)"
    by (cases "on_team_member_invited ''a'' 1 ''aaa'' 3 ?s1") (simp add: dispatch_team_def)
  have h2: "handled example_name (Suc 2) s2" using handled.event [OF h1 _ d2] by simp
  obtain s3 out3 where d3: "dispatch_team (TeamLeaveTeam 1, 4) s2 = Some (s3, out3)"
    by (cases "on_team_leave_team 1 4 s2") (simp add: dispatch_team_def)
  have h3: "handled example_name 4 s3" using handled.event [OF h2 _ d3] by simp
  let ?a = "\<lambda>i n b. \<lparr>tm_idx = i, tm_name = n, tm_map = [], tm_map_idx = 0, tm_pending = b\<rparr>"
  let ?t = "founded 0 1 ''a'' 2 ''aa''"
  have l2: "m_team_list s2 = [?t\<lparr>m_team_members := [?a 1 ''a'' False, ?a 2 ''aa'' True, ?a 3 ''aaa'' True]\<rparr>]"
    using d2 by (auto simp: dispatch_team_def on_team_member_invited_def example_invited_def name_known_def id_for_name_def
        last_team_def containsEntityID_def isTeamLeader_def isFull_def invite_checked_def addTeamMember_def set_team_def Let_def)
  have l3: "m_team_list s3 = [?t\<lparr>m_team_members := [?a 2 ''aa'' True, ?a 3 ''aaa'' True], m_team_leader_idx := 2\<rparr>]"
    using d3 l2 by (auto simp: dispatch_team_def on_team_leave_team_def first_team_def containsEntityID_def
        team_removeTeamMember_def member_removed_def split_beta Let_def set_team_def)
  show ?thesis
    by (intro exI [of _ 4] exI [of _ s3] exI [of _ "hd (m_team_list s3)"] exI [of _ "?a 2 ''aa'' True"])
      (simp add: example_directory h3 l3)
qed

text \<open>The free function \<open>removeTeamMember\<close> picks the new leader before it erases the one who leaves.
  When the leader is the first member, as the founder of a team is, the team keeps the departed
  player as its leader; the method \<open>Team::removeTeamMember\<close>, which erases first, does not.\<close>

theorem departed_leader_keeps_title:
  assumes "m_team_members self = m # rest" "tm_idx m = e_db_id e" "m_team_leader_idx self = e_db_id e"
    "distinct (ids self)" "2 \<le> length rest"
  shows "m_team_leader_idx (fst (removeTeamMember lvl self e)) = e_db_id e \<and>
    e_db_id e \<notin> set (ids (fst (removeTeamMember lvl self e))) \<and>
    m_team (snd (removeTeamMember lvl self e)) = None \<and>
    m_team_leader_idx (snd (team_removeTeamMember (e_db_id e) self)) = tm_idx (hd rest)"
  using assms
  by (auto simp: removeTeamMember_def team_removeTeamMember_def removeSidekick_def setCombatLevel_def Let_def)

definition example_entity :: "u32 \<Rightarrow> u32 \<Rightarrow> entity" where
  "example_entity i lvl = \<lparr>e_db_id = i, e_name = example_name i, m_has_team = True, m_team = Some 1,
     m_sidekick = \<lparr>m_has_sidekick = False, sk_type = NoSidekick, sk_db_id = 0\<rparr>, e_class_name = [], e_origin_name = [],
     e_level = lvl, e_combat_level = lvl, e_lfg = False\<rparr>"

theorem departed_leader_keeps_title_witness:
  "let t = snd (addTeamMember 3 ''aaa'' False (founded 0 1 ''a'' 2 ''aa'')) in
    m_team_leader_idx (fst (removeTeamMember 50 t (example_entity 1 20))) = 1"
proof -
  let ?t = "snd (addTeamMember 3 ''aaa'' False (founded 0 1 ''a'' 2 ''aa''))"
  have t: "m_team_members ?t = hd (m_team_members ?t) # tl (m_team_members ?t)" "tm_idx (hd (m_team_members ?t)) = e_db_id (example_entity 1 20)"
    "m_team_leader_idx ?t = e_db_id (example_entity 1 20)" "distinct (ids ?t)" "2 \<le> length (tl (m_team_members ?t))"
    by (simp_all add: addTeamMember_def Let_def example_entity_def)
  from departed_leader_keeps_title [OF t, of 50] show ?thesis by (simp add: Let_def example_entity_def)
qed

text \<open>A sidekick invitation that succeeds, followed by its acceptance, links the two players to each
  other and raises the sidekick to one level below the mentor, at most to the highest level. When
  one of them then ends the relation, only this side is cleared: the other one still counts as a
  sidekick of the first.\<close>

theorem sidekick_cycle:
  assumes "inviteSidekick h src tgt = Some (SUCCESS, tgt1)" "e_db_id tgt \<noteq> 0" "addSidekick expMax tgt1 src = (tgt2, src2)"
    "removeSidekick expMax src2 = (st, src3)"
  shows "getSidekickId tgt2 = e_db_id src \<and> getSidekickId src2 = e_db_id tgt \<and> isSidekickMentor src2 \<and>
    e_combat_level tgt2 = min (e_level src - 1) expMax \<and> 10 \<le> e_level src \<and>
    st = SUCCESS \<and> getSidekickId src3 = 0 \<and> \<not> m_has_sidekick (m_sidekick src3) \<and>
    m_has_sidekick (m_sidekick tgt2) \<and> removeSidekick expMax src3 = (GENERIC_FAILURE, src3)"
proof -
  have t: "tgt1 = tgt\<lparr>m_sidekick := (m_sidekick tgt)\<lparr>sk_db_id := e_db_id src\<rparr>\<rparr>" "\<not> getLevel src < g_min_sidekick_mentor_level"
    using assms(1) by (auto simp: inviteSidekick_def split: if_splits Option.bind_splits)
  then show ?thesis
    using assms(2-4) by (auto simp: addSidekick_def removeSidekick_def setCombatLevel_def getSidekickId_def getLevel_def
        isSidekickMentor_def g_min_sidekick_mentor_level_def min_def Let_def)
qed

theorem sidekick_cycle_witness:
  "let h = (\<lambda>_. None)(1 \<mapsto> founded 0 1 ''a'' 2 ''aa''); src = example_entity 1 20; tgt = example_entity 2 5 in
    \<exists>tgt1. inviteSidekick h src tgt = Some (SUCCESS, tgt1) \<and>
      e_combat_level (fst (addSidekick 50 tgt1 src)) = 19"
proof -
  let ?h = "(\<lambda>_. None)(1 \<mapsto> founded 0 1 ''a'' 2 ''aa'')" and ?src = "example_entity 1 20" and ?tgt = "example_entity 2 5"
  have i: "inviteSidekick ?h ?src ?tgt = Some (SUCCESS, ?tgt\<lparr>m_sidekick := (m_sidekick ?tgt)\<lparr>sk_db_id := 1\<rparr>\<rparr>)"
    by (simp add: inviteSidekick_def example_entity_def getLevel_def g_max_sidekick_level_difference_def
        g_min_sidekick_mentor_level_def sameTeam_def team_of_def)
  have z: "e_db_id ?tgt \<noteq> 0" by (simp add: example_entity_def)
  let ?tgt1 = "?tgt\<lparr>m_sidekick := (m_sidekick ?tgt)\<lparr>sk_db_id := 1\<rparr>\<rparr>"
  obtain tgt2 src2 where a: "addSidekick 50 ?tgt1 ?src = (tgt2, src2)" by fastforce
  obtain st src3 where r: "removeSidekick 50 src2 = (st, src3)" by fastforce
  from sidekick_cycle [OF i z a r] i a show ?thesis by (simp add: Let_def example_entity_def min_def)
qed

end
