(* ===== verification/Session_Store.thy ===== *)
theory Session_Store
  imports Prelude "HOL-Library.Multiset" "HOL-Library.AList"
begin

unbundle bit_operations_syntax

text \<open>
  The registry of client sessions that the servers share: \<open>ClientSessionStore\<close> and
  \<open>ReapingMetadata\<close> of \<open>Common/Servers/ClientManager.h\<close>.

  Sessions are nodes of a hash map, other members point to them, so the model has an explicit heap
  of sessions; a node that was erased leaves dangling pointers, and using one is the outcome
  \<open>None\<close>, like a failed assertion and \<open>fatal_failure\<close>, which aborts the server. Hash maps are
  association lists. Of \<open>SESSION_CLASS\<close> the store uses the token, \<open>link()\<close> and \<open>auth_id()\<close>; the
  record of a concrete session extends these. Times are microseconds; the hash of an address
  belongs to the ACE library and is an argument. Operations happen one at a time, so that the
  mutexes do not appear.
\<close>

type_synonym session_ptr = nat
type_synonym link_id = nat

record client_session =
  m_session_token :: u64
  m_link :: link_id
  auth_id :: u32

record expect_client_info =
  m_cookie :: u32
  m_expected_since :: int
  expect_token :: u64

record waiting_session =
  m_waiting_since :: int
  m_session :: session_ptr
  waiting_token :: u64

record 's session_store =
  m_token_to_session :: "(u64 \<times> session_ptr) list"
  sessions :: "session_ptr \<Rightarrow> 's option"
  next_session :: session_ptr
  m_id_to_token :: "(u32 \<times> u64) list"
  m_session_expecting_clients :: "expect_client_info list"
  m_session_ready_for_reaping :: "waiting_session list"
  m_reaped_link_reason :: "(u64 \<times> string) list"
  m_active_sessions :: "session_ptr list"

definition new_store :: "'s session_store" where
  "new_store = \<lparr>m_token_to_session = [], sessions = (\<lambda>_. None), next_session = 1, m_id_to_token = [],
     m_session_expecting_clients = [], m_session_ready_for_reaping = [], m_reaped_link_reason = [],
     m_active_sessions = []\<rparr>"

section \<open>Vectors\<close>

text \<open>The loops of the store look for the first element, swap it with the last one and pop.\<close>

fun index_of :: "('a \<Rightarrow> bool) \<Rightarrow> 'a list \<Rightarrow> nat option" where
  "index_of P [] = None"
| "index_of P (x # xs) = (if P x then Some 0 else map_option Suc (index_of P xs))"

definition swap_pop :: "nat \<Rightarrow> 'a list \<Rightarrow> 'a list" where
  "swap_pop idx xs = butlast (xs[idx := last xs])"

definition swap_pop_first :: "('a \<Rightarrow> bool) \<Rightarrow> 'a list \<Rightarrow> 'a list" where
  "swap_pop_first P xs = (case index_of P xs of None \<Rightarrow> xs | Some idx \<Rightarrow> swap_pop idx xs)"

lemma mset_swap_pop: "idx < length xs \<Longrightarrow> add_mset (xs ! idx) (mset (swap_pop idx xs)) = mset xs"
proof -
  assume i: "idx < length xs"
  then obtain ys y where xs: "xs = ys @ [y]" by (cases xs rule: rev_cases) auto
  show ?thesis
  proof (cases "idx = length ys")
    case True
    then show ?thesis by (simp add: swap_pop_def xs list_update_append)
  next
    case False
    then have l: "idx < length ys" using i xs by simp
    have "mset (ys[idx := y]) + {#ys ! idx#} = add_mset y (mset ys)"
      using mset_update [OF l, of y] l by (simp add: nth_mem)
    with l show ?thesis by (simp add: swap_pop_def xs list_update_append nth_append)
  qed
qed

lemma length_swap_pop [simp]: "length (swap_pop idx xs) = length xs - 1"
  by (simp add: swap_pop_def)

lemma index_of_Some:
  "index_of P xs = Some i \<Longrightarrow> i < length xs \<and> P (xs ! i)"
  by (induction xs arbitrary: i) (auto split: if_splits)

lemma index_of_None: "index_of P xs = None \<longleftrightarrow> (\<forall>x \<in> set xs. \<not> P x)"
  by (induction xs) auto

lemma swap_pop_first_none [simp]: "\<forall>x \<in> set xs. \<not> P x \<Longrightarrow> swap_pop_first P xs = xs"
  by (simp add: swap_pop_first_def index_of_None [THEN iffD2])

lemma swap_pop_first_some:
  assumes "\<exists>x \<in> set xs. P x"
  obtains x where "P x" "add_mset x (mset (swap_pop_first P xs)) = mset xs" "find P xs = Some x"
proof -
  from assms obtain i where i: "index_of P xs = Some i" by (metis index_of_None not_Some_eq)
  have "find P xs = Some (xs ! i)" using i by (induction xs arbitrary: i) (auto split: if_splits)
  with mset_swap_pop [of i xs] index_of_Some [OF i] that [of "xs ! i"] i show thesis
    by (simp add: swap_pop_first_def)
qed

lemma set_swap_pop_first: "set (swap_pop_first P xs) \<subseteq> set xs"
proof (cases "\<exists>x \<in> set xs. P x")
  case True
  then obtain x where "add_mset x (mset (swap_pop_first P xs)) = mset xs" using swap_pop_first_some by metis
  then show ?thesis by (metis set_mset_add_mset_insert set_mset_mset subset_insertI)
qed simp

lemma distinct_swap_pop_first: "distinct (map f xs) \<Longrightarrow> distinct (map f (swap_pop_first P xs))"
proof (cases "\<exists>x \<in> set xs. P x")
  case True
  then obtain x where x: "add_mset x (mset (swap_pop_first P xs)) = mset xs" using swap_pop_first_some by metis
  have "mset (map f (x # swap_pop_first P xs)) = mset (map f xs)" using x by (simp add: image_mset_add_mset [symmetric])
  moreover assume "distinct (map f xs)"
  ultimately have "distinct (map f (x # swap_pop_first P xs))" by (metis mset_eq_imp_distinct_iff)
  then show ?thesis by simp
qed simp

section \<open>Reaping metadata\<close>

definition marked_for_reaping :: "u64 \<Rightarrow> string \<Rightarrow> 's session_store \<Rightarrow> 's session_store" where
  "marked_for_reaping token reason st =
    st\<lparr>m_reaped_link_reason := AList.update token reason (m_reaped_link_reason st)\<rparr>"

definition unmarked_for_reaping :: "u64 \<Rightarrow> 's session_store \<Rightarrow> 's session_store" where
  "unmarked_for_reaping token st =
    st\<lparr>m_reaped_link_reason := AList.delete token (m_reaped_link_reason st)\<rparr>"

section \<open>Sessions and tokens\<close>

text \<open>\<open>set_session\<close> is an assignment through a reference.\<close>

definition set_session :: "session_ptr \<Rightarrow> 's \<Rightarrow> 's session_store \<Rightarrow> 's session_store" where
  "set_session p x st = st\<lparr>sessions := (sessions st)(p \<mapsto> x)\<rparr>"

definition create_cookie :: "('addr \<Rightarrow> u64) \<Rightarrow> 'addr \<Rightarrow> u64 \<Rightarrow> u32" where
  "create_cookie hash from i = ucast (((hash from + i) AND 0xFFFFFFFF) XOR drop_bit 32 i)"

definition has_session_for :: "u64 \<Rightarrow> 's session_store \<Rightarrow> bool" where
  "has_session_for token st \<longleftrightarrow> map_of (m_token_to_session st) token \<noteq> None"

text \<open>The new node holds a value-initialised session \<open>blank\<close>.\<close>

definition create_session :: "'a client_session_scheme \<Rightarrow> u64 \<Rightarrow> 'a client_session_scheme session_store \<Rightarrow>
    (session_ptr \<times> 'a client_session_scheme session_store) option" where
  "create_session blank token st =
    (if has_session_for token st then None
     else let p = next_session st
          in Some (p, set_session p (blank\<lparr>m_session_token := token\<rparr>)
               (st\<lparr>m_token_to_session := AList.update token p (m_token_to_session st), next_session := p + 1\<rparr>)))"

definition token_for_id :: "u32 \<Rightarrow> 's session_store \<Rightarrow> u64" where
  "token_for_id i st = (case map_of (m_id_to_token st) i of None \<Rightarrow> 0 | Some token \<Rightarrow> token)"

definition setTokenForId :: "u32 \<Rightarrow> u64 \<Rightarrow> 's session_store \<Rightarrow> 's session_store" where
  "setTokenForId i token st = st\<lparr>m_id_to_token := AList.update i token (m_id_to_token st)\<rparr>"

definition session_from_token :: "u64 \<Rightarrow> 's session_store \<Rightarrow> session_ptr option" where
  "session_from_token token st = map_of (m_token_to_session st) token"

text \<open>\<open>session_from_event\<close> for a link: its token is looked up, and the session must have that link.\<close>

definition session_from_link :: "link_id \<Rightarrow> u64 \<Rightarrow> 'a client_session_scheme session_store \<Rightarrow> session_ptr option" where
  "session_from_link lnk token st =
    do {
      p \<leftarrow> map_of (m_token_to_session st) token;
      session \<leftarrow> sessions st p;
      if m_link session = lnk then Some p else None }"

definition session_from_event :: "u64 \<Rightarrow> 's session_store \<Rightarrow> session_ptr option" where
  "session_from_event token st = map_of (m_token_to_session st) token"

definition remove_by_token :: "u64 \<Rightarrow> u32 \<Rightarrow> 's session_store \<Rightarrow> 's session_store" where
  "remove_by_token token i st =
    st\<lparr>m_id_to_token := AList.delete i (m_id_to_token st),
       sessions := (case map_of (m_token_to_session st) token of
                      None \<Rightarrow> sessions st | Some p \<Rightarrow> (sessions st)(p := None)),
       m_token_to_session := AList.delete token (m_token_to_session st)\<rparr>"

definition num_sessions :: "'s session_store \<Rightarrow> nat" where
  "num_sessions st = length (m_token_to_session st)"

section \<open>Expected clients\<close>

definition expect_client_session :: "('addr \<Rightarrow> u64) \<Rightarrow> int \<Rightarrow> u64 \<Rightarrow> 'addr \<Rightarrow> u64 \<Rightarrow> 's session_store \<Rightarrow>
    u32 \<times> 's session_store" where
  "expect_client_session hash now token from i st =
    (let cook = create_cookie hash from i in
     if \<exists>sess \<in> set (m_session_expecting_clients st). m_cookie sess = cook then (cook, st)
     else (cook, st\<lparr>m_session_expecting_clients := m_session_expecting_clients st @
                      [\<lparr>m_cookie = cook, m_expected_since = now, expect_token = token\<rparr>]\<rparr>))"

definition get_cookie_for_session :: "u64 \<Rightarrow> 's session_store \<Rightarrow> u32" where
  "get_cookie_for_session token st =
    (case find (\<lambda>sess. expect_token sess = token) (m_session_expecting_clients st) of
       None \<Rightarrow> 0 | Some sess \<Rightarrow> m_cookie sess)"

text \<open>\<open>~0U\<close> is a 32 bit number.\<close>

definition not_expected :: u64 where
  "not_expected = 0xFFFFFFFF"

definition connected_client :: "u32 \<Rightarrow> 's session_store \<Rightarrow> u64 \<times> 's session_store" where
  "connected_client cookie st =
    (case find (\<lambda>sess. m_cookie sess = cookie) (m_session_expecting_clients st) of
       None \<Rightarrow> (not_expected, st)
     | Some sess \<Rightarrow> (expect_token sess,
         st\<lparr>m_session_expecting_clients :=
              swap_pop_first (\<lambda>sess. m_cookie sess = cookie) (m_session_expecting_clients st)\<rparr>))"

section \<open>Active sessions\<close>

definition remove_from_active_sessions :: "session_ptr \<Rightarrow> 's session_store \<Rightarrow> 's session_store option" where
  "remove_from_active_sessions cl st =
    (if cl \<in> set (m_active_sessions st)
     then Some (st\<lparr>m_active_sessions := swap_pop_first (\<lambda>p. p = cl) (m_active_sessions st)\<rparr>)
     else None)"

definition add_to_active_sessions :: "session_ptr \<Rightarrow> 's session_store \<Rightarrow> 's session_store" where
  "add_to_active_sessions cl st =
    (if cl \<in> set (m_active_sessions st) then st
     else st\<lparr>m_active_sessions := m_active_sessions st @ [cl]\<rparr>)"

definition isActive :: "session_ptr \<Rightarrow> 's session_store \<Rightarrow> bool" where
  "isActive c st \<longleftrightarrow> c \<in> set (m_active_sessions st)"

definition session_link_lost :: "u64 \<Rightarrow> 'a client_session_scheme session_store \<Rightarrow>
    'a client_session_scheme session_store option" where
  "session_link_lost token st =
    do {
      p \<leftarrow> session_from_token token st;
      st \<leftarrow> remove_from_active_sessions p st;
      let st = st\<lparr>m_session_expecting_clients :=
                   swap_pop_first (\<lambda>sess. expect_token sess = token) (m_session_expecting_clients st)\<rparr>;
      session \<leftarrow> sessions st p;
      Some (set_session p (session\<lparr>m_link := 0\<rparr>) st) }"

section \<open>Reaping\<close>

definition mark_session_for_reaping :: "int \<Rightarrow> session_ptr \<Rightarrow> u64 \<Rightarrow> string \<Rightarrow> 's session_store \<Rightarrow> 's session_store" where
  "mark_session_for_reaping now sess token reason st =
    (let st = marked_for_reaping token reason st
     in st\<lparr>m_session_ready_for_reaping := m_session_ready_for_reaping st @
              [\<lparr>m_waiting_since = now, m_session = sess, waiting_token = token\<rparr>]\<rparr>)"

definition unmark_session_for_reaping :: "session_ptr \<Rightarrow> 'a client_session_scheme session_store \<Rightarrow>
    'a client_session_scheme session_store option" where
  "unmark_session_for_reaping sess st =
    do {
      session \<leftarrow> sessions st sess;
      let st = unmarked_for_reaping (m_session_token session) st;
      Some (st\<lparr>m_session_ready_for_reaping :=
                 swap_pop_first (\<lambda>w. m_session w = sess) (m_session_ready_for_reaping st)\<rparr>) }"

text \<open>
  The loop of \<open>reap_stale_links\<close> with \<open>total\<close> (here \<open>n_waiting\<close>) and the index as arguments; the results are the
  tokens given to the callback and the links told to finish.
\<close>

function reap_loop :: "int \<Rightarrow> int \<Rightarrow> nat \<Rightarrow> nat \<Rightarrow> (u64 \<times> link_id) list \<Rightarrow> 'a client_session_scheme session_store \<Rightarrow>
    ((u64 \<times> link_id) list \<times> 'a client_session_scheme session_store) option" where
  "reap_loop now limit idx n_waiting reaped st =
    (if idx < n_waiting then
       (let w = m_session_ready_for_reaping st ! idx in
        if now - m_waiting_since w < limit then reap_loop now limit (idx + 1) n_waiting reaped st
        else
          (case sessions st (m_session w) of
             None \<Rightarrow> None
           | Some session \<Rightarrow>
               (let st = unmarked_for_reaping (waiting_token w) st;
                    st = remove_by_token (waiting_token w) (auth_id session) st;
                    st = st\<lparr>m_session_ready_for_reaping := swap_pop idx (m_session_ready_for_reaping st)\<rparr>
                in reap_loop now limit (idx + 1) (n_waiting - 1) (reaped @ [(waiting_token w, m_link session)]) st)))
     else Some (reaped, st))"
  by pat_completeness auto
termination
  by (relation "measure (\<lambda>(_, _, idx, n_waiting, _, _). n_waiting - idx)") auto

declare reap_loop.simps [simp del]

definition reap_stale_links :: "int \<Rightarrow> int \<Rightarrow> 'a client_session_scheme session_store \<Rightarrow>
    ((u64 \<times> link_id) list \<times> 'a client_session_scheme session_store) option" where
  "reap_stale_links now limit st =
    reap_loop now limit 0 (length (m_session_ready_for_reaping st)) [] st"

text \<open>The session must still be in memory to be reset.\<close>

definition create_or_reuse_session_for :: "'a client_session_scheme \<Rightarrow> u64 \<Rightarrow>
    'a client_session_scheme session_store \<Rightarrow> (session_ptr \<times> 'a client_session_scheme session_store) option" where
  "create_or_reuse_session_for blank token st =
    (case map_of (m_token_to_session st) token of
       Some sess \<Rightarrow> do {
         st \<leftarrow> unmark_session_for_reaping sess st;
         Some (sess, set_session sess blank st) }
     | None \<Rightarrow> create_session blank token st)"

end
