(* ===== verification/Game_Handler.thy ===== *)
theory Game_Handler
  imports Session_Store
begin

text \<open>
  The game service: class \<open>GameHandler\<close> of \<open>Servers/GameServer/GameHandler.h\<close> and
  \<open>GameHandler.cpp\<close>. Handlers take the state of the service to its next state and the messages
  they post, in order; \<open>None\<close> is a failed assertion, an aborted server or the use of a null or
  dangling pointer.

  What the handlers ask of other components is in the record of the environment: the hash and
  the peer address of the network library, the settings of the server, whether a map server is
  running, and the two conversions by the serialisation library, the map path that is found in
  the stored data of an entity and the stored form of a character. Names are lists of bytes.
\<close>

section \<open>State\<close>

record game_character =
  m_name :: text_bytes
  m_serialized_costume_data :: text_bytes
  m_serialized_chardata :: text_bytes
  m_serialized_entity_data :: text_bytes
  m_serialized_player_data :: text_bytes
  m_db_id :: u32
  char_account_id :: u32
  m_slot_idx :: int

record game_account =
  m_game_server_acc_id :: u32
  m_max_slots :: int
  m_characters :: "game_character list"

datatype travel_direction = EXITING_TO_MAP | EXITING_TO_LOGIN

record game_session = client_session +
  m_game_account :: game_account
  is_connected_to_map_server_id :: u32
  is_connected_to_map_instance_id :: u32
  m_direction :: travel_direction
  m_access_level :: u8

text \<open>A value-initialised session: members without an initialiser are zero.\<close>

definition blank_session :: game_session where
  "blank_session = \<lparr>m_session_token = 0, m_link = 0, auth_id = 0,
     m_game_account = \<lparr>m_game_server_acc_id = 0, m_max_slots = 0, m_characters = []\<rparr>,
     is_connected_to_map_server_id = 0, is_connected_to_map_instance_id = 0,
     m_direction = EXITING_TO_MAP, m_access_level = 0\<rparr>"

record game_handler =
  m_session_store :: "game_session session_store"
  link_token :: "link_id \<Rightarrow> u64"

record 'addr game_env =
  inet_hash :: "'addr \<Rightarrow> u64"
  peer_addr :: "link_id \<Rightarrow> 'addr"
  server_id :: u8
  server_addr :: 'addr
  getMaxPlayers :: u16
  getMaxCharacterSlots :: int
  map_handler_running :: bool
  map_path_of :: "text_bytes \<Rightarrow> text_bytes"
  stored_character :: "game_character \<Rightarrow> text_bytes"

datatype 'addr game_event =
    LinkDisconnected link_id
  | ExpectClientRequest u64 'addr u32 u8
  | ExpectMapClientResponse u64 u32 'addr
  | ClientConnectedMessage u64 u32 u32 u32
  | ClientDisconnectedMessage u64 u32
  | ServerReconfigured
  | Idle link_id
  | DisconnectRequest link_id
  | ConnectRequest link_id
  | UpdateServer link_id u32 u32
  | MapServerAddrRequest link_id u16 text_bytes
  | DeleteCharacter link_id u8 text_bytes
  | UpdateCharacter link_id u8
  | UnknownEvent
  | GameDbErrorMessage u64
  | GameAccountResponse u64 game_account
  | RemoveCharacterResponse u64 int
  | OtherEvent

datatype game_error = Unauthorized | VersionNotSupported | NoMapServers | NameNotTheSame

datatype 'addr game_out =
    GameEntryError link_id game_error
  | ConnectResponse link_id
  | CharacterSlots link_id game_account
  | CharacterResponse link_id u8 game_account
  | SendIdle link_id
  | DisconnectResponse link_id
  | SendDisconnect link_id u64
  | SendFinish link_id
  | DeleteAcknowledged link_id
  | MapServerAddrResponse link_id u32 'addr
  | AuthClientConnected u64 u8 u32 u32
  | AuthClientDisconnected u64 u32
  | AuthExpectClientResponse u32 u32 u8 u64
  | DbGameAccountRequest u32 int bool u64
  | DbRemoveCharacterRequest u32 int u64
  | DbEmailUpdateOnCharDelete u32
  | MapExpectClientRequest u32 u8 'addr text_bytes u16 text_bytes text_bytes u16 u64
  | GlobalServerStatus 'addr int u16 u16 u8 bool
  | GlobalClientConnected u64 u32 u32 u32
  | GlobalClientDisconnected u64 u32

type_synonym 'addr game_result = "(game_handler \<times> 'addr game_out list) option"

section \<open>The account of a session\<close>

definition EMPTY_STRING :: text_bytes where
  "EMPTY_STRING = [69, 77, 80, 84, 89]"

definition character_reset :: "game_character \<Rightarrow> game_character" where
  "character_reset c = c\<lparr>m_name := EMPTY_STRING, m_serialized_entity_data := []\<rparr>"

definition character_isEmpty :: "game_character \<Rightarrow> bool" where
  "character_isEmpty c \<longleftrightarrow> equal_ignoring_case (m_name c) EMPTY_STRING"

definition get_character :: "game_account \<Rightarrow> nat \<Rightarrow> game_character option" where
  "get_character a idx = (if idx < length (m_characters a) then Some (m_characters a ! idx) else None)"

definition account_valid :: "game_account \<Rightarrow> bool" where
  "account_valid a \<longleftrightarrow> m_game_server_acc_id a \<noteq> 0"

fun first_free :: "game_character list \<Rightarrow> 8 word \<Rightarrow> 8 word" where
  "first_free [] res = -1"
| "first_free (c # cs) res = (if m_name c = EMPTY_STRING then res else first_free cs (res + 1))"

definition next_free_slot_idx :: "game_account \<Rightarrow> 8 word" where
  "next_free_slot_idx a = first_free (m_characters a) 0"

section \<open>Sessions of events\<close>

definition the_session :: "session_ptr \<Rightarrow> game_handler \<Rightarrow> game_session option" where
  "the_session p h = sessions (m_session_store h) p"

definition put_session :: "session_ptr \<Rightarrow> game_session \<Rightarrow> game_handler \<Rightarrow> game_handler" where
  "put_session p x h = h\<lparr>m_session_store := set_session p x (m_session_store h)\<rparr>"

definition link_session :: "link_id \<Rightarrow> game_handler \<Rightarrow> session_ptr option" where
  "link_session lnk h = session_from_link lnk (link_token h lnk) (m_session_store h)"

definition event_session :: "u64 \<Rightarrow> game_handler \<Rightarrow> session_ptr option" where
  "event_session token h = session_from_event token (m_session_store h)"

text \<open>A message to the link of a session: the link pointer must not be null.\<close>

definition to_link :: "(link_id \<Rightarrow> 'addr game_out) \<Rightarrow> game_session \<Rightarrow> 'addr game_out option" where
  "to_link m session = (if m_link session = 0 then None else Some (m (m_link session)))"

text \<open>\<open>LinkBase::session_token\<close> asserts that the token is not zero.\<close>

definition set_link_token :: "link_id \<Rightarrow> u64 \<Rightarrow> game_handler \<Rightarrow> game_handler option" where
  "set_link_token lnk token h =
    (if token = 0 then None else Some (h\<lparr>link_token := (link_token h)(lnk := token)\<rparr>))"

section \<open>Handlers of messages from other servers\<close>

definition on_game_db_error :: "u64 \<Rightarrow> game_handler \<Rightarrow> 'addr game_result" where
  "on_game_db_error token h =
    do {
      p \<leftarrow> event_session token h;
      session \<leftarrow> the_session p h;
      m \<leftarrow> to_link (\<lambda>l. GameEntryError l Unauthorized) session;
      Some (h, [m]) }"

definition on_account_data :: "'addr game_env \<Rightarrow> u64 \<Rightarrow> game_account \<Rightarrow> game_handler \<Rightarrow> 'addr game_result" where
  "on_account_data e token data h =
    do {
      p \<leftarrow> event_session token h;
      st \<leftarrow> unmark_session_for_reaping p (m_session_store h);
      session \<leftarrow> sessions st p;
      let session = session\<lparr>m_game_account := data\<rparr>;
      let st = add_to_active_sessions p (set_session p session st);
      m \<leftarrow> to_link (\<lambda>l. CharacterSlots l data) session;
      Some (h\<lparr>m_session_store := st\<rparr>,
        [AuthClientConnected token (server_id e) (m_game_server_acc_id data) (m_game_server_acc_id data), m]) }"

definition on_expect_client :: "'addr game_env \<Rightarrow> int \<Rightarrow> u64 \<Rightarrow> 'addr \<Rightarrow> u32 \<Rightarrow> u8 \<Rightarrow> game_handler \<Rightarrow>
    'addr game_result" where
  "on_expect_client e now token from client_id access_level h =
    do {
      (sess, st) \<leftarrow> create_or_reuse_session_for blank_session token (m_session_store h);
      let (cookie, st) = expect_client_session (inet_hash e) now token from (ucast client_id) st;
      session \<leftarrow> sessions st sess;
      let st = set_session sess (session\<lparr>auth_id := client_id, m_access_level := access_level\<rparr>) st;
      Some (h\<lparr>m_session_store := st\<rparr>, [AuthExpectClientResponse client_id cookie (server_id e) token]) }"

definition on_client_expected :: "u64 \<Rightarrow> u32 \<Rightarrow> 'addr \<Rightarrow> game_handler \<Rightarrow> 'addr game_result" where
  "on_client_expected token cookie addr h =
    do {
      p \<leftarrow> event_session token h;
      session \<leftarrow> the_session p h;
      m \<leftarrow> to_link (\<lambda>l. MapServerAddrResponse l cookie addr) session;
      Some (h, [m]) }"

definition on_client_connected_to_other_server :: "u64 \<Rightarrow> u32 \<Rightarrow> u32 \<Rightarrow> u32 \<Rightarrow> game_handler \<Rightarrow> 'addr game_result" where
  "on_client_connected_to_other_server token sid sub_id char_db_id h =
    (if sid = 0 \<or> sub_id = 0 then None
     else do {
       p \<leftarrow> session_from_token token (m_session_store h);
       st \<leftarrow> unmark_session_for_reaping p (m_session_store h);
       session \<leftarrow> sessions st p;
       let session = session\<lparr>is_connected_to_map_server_id := sid, is_connected_to_map_instance_id := sub_id\<rparr>;
       Some (h\<lparr>m_session_store := set_session p session st\<rparr>, [GlobalClientConnected token sid sub_id char_db_id]) })"

definition on_client_disconnected_from_other_server :: "int \<Rightarrow> u64 \<Rightarrow> u32 \<Rightarrow> game_handler \<Rightarrow> 'addr game_result" where
  "on_client_disconnected_from_other_server now token char_db_id h =
    do {
      p \<leftarrow> session_from_token token (m_session_store h);
      session \<leftarrow> the_session p h;
      let session = session\<lparr>is_connected_to_map_server_id := 0, is_connected_to_map_instance_id := 0\<rparr>;
      let st = mark_session_for_reaping now p token ''GameHandler: disconnected from child server''
                 (set_session p session (m_session_store h));
      Some (h\<lparr>m_session_store := st\<rparr>, [GlobalClientDisconnected token char_db_id]) }"

definition report_service_status :: "'addr game_env \<Rightarrow> int \<Rightarrow> game_handler \<Rightarrow> 'addr game_result" where
  "report_service_status e now h =
    Some (h, [GlobalServerStatus (server_addr e) now (of_nat (num_sessions (m_session_store h)))
                (getMaxPlayers e) (server_id e) True])"

definition on_character_deleted :: "u64 \<Rightarrow> int \<Rightarrow> game_handler \<Rightarrow> 'addr game_result" where
  "on_character_deleted token slot_idx h =
    do {
      p \<leftarrow> event_session token h;
      session \<leftarrow> the_session p h;
      let a = m_game_account session;
      selected_slot \<leftarrow> (if slot_idx < 0 then None else get_character a (nat slot_idx));
      let session = session\<lparr>m_game_account :=
        a\<lparr>m_characters := (m_characters a)[nat slot_idx := character_reset selected_slot]\<rparr>\<rparr>;
      m \<leftarrow> to_link DeleteAcknowledged session;
      Some (put_session p session h, [m, DbEmailUpdateOnCharDelete (m_db_id selected_slot)]) }"

section \<open>Handlers of client messages\<close>

definition supported_version :: u32 where
  "supported_version = 20040422"

definition on_connection_request :: "link_id \<Rightarrow> game_handler \<Rightarrow> 'addr game_result" where
  "on_connection_request lnk h = Some (h, [ConnectResponse lnk])"

definition on_update_server :: "'addr game_env \<Rightarrow> int \<Rightarrow> link_id \<Rightarrow> u32 \<Rightarrow> u32 \<Rightarrow> game_handler \<Rightarrow> 'addr game_result" where
  "on_update_server e now lnk build_date authCookie h =
    (if build_date \<noteq> supported_version then Some (h, [GameEntryError lnk VersionNotSupported])
     else
       let (token, st) = connected_client authCookie (m_session_store h)
       in if token = not_expected then Some (h\<lparr>m_session_store := st\<rparr>, [GameEntryError lnk Unauthorized])
          else do {
            p \<leftarrow> session_from_token token st;
            session \<leftarrow> sessions st p;
            let session = session\<lparr>m_link := lnk, m_direction := EXITING_TO_LOGIN\<rparr>;
            h \<leftarrow> set_link_token lnk token (h\<lparr>m_session_store := set_session p session st\<rparr>);
            let st = mark_session_for_reaping now p token ''GameHander: Awaiting DB response'' (m_session_store h);
            Some (h\<lparr>m_session_store := st\<rparr>,
              [DbGameAccountRequest (auth_id session) (getMaxCharacterSlots e) True token]) })"

definition on_update_character :: "link_id \<Rightarrow> u8 \<Rightarrow> game_handler \<Rightarrow> 'addr game_result" where
  "on_update_character lnk idx h =
    (if link_token h lnk = 0 then None
     else do {
       p \<leftarrow> link_session lnk h;
       session \<leftarrow> the_session p h;
       if \<not> account_valid (m_game_account session) then None
       else Some (h, [CharacterResponse lnk idx (m_game_account session)]) })"

definition on_idle :: "link_id \<Rightarrow> game_handler \<Rightarrow> 'addr game_result" where
  "on_idle lnk h = Some (h, [])"

definition on_delete_character :: "link_id \<Rightarrow> u8 \<Rightarrow> text_bytes \<Rightarrow> game_handler \<Rightarrow> 'addr game_result" where
  "on_delete_character lnk idx char_name h =
    do {
      p \<leftarrow> link_session lnk h;
      session \<leftarrow> the_session p h;
      selected_slot \<leftarrow> get_character (m_game_account session) (unat idx);
      if m_name selected_slot = char_name
      then Some (h, [DbRemoveCharacterRequest (m_game_server_acc_id (m_game_account session))
                       (m_slot_idx selected_slot) (link_token h lnk)])
      else Some (h, [GameEntryError lnk NameNotTheSame]) }"

definition on_map_req :: "'addr game_env \<Rightarrow> link_id \<Rightarrow> u16 \<Rightarrow> text_bytes \<Rightarrow> game_handler \<Rightarrow> 'addr game_result" where
  "on_map_req e lnk idx char_name h =
    do {
      p \<leftarrow> link_session lnk h;
      session \<leftarrow> the_session p h;
      if \<not> account_valid (m_game_account session) then Some (h, [])
      else do {
        selected_slot \<leftarrow> get_character (m_game_account session) (unat idx);
        let map_path = to_lower (map_path_of e (m_serialized_entity_data selected_slot));
        if \<not> map_handler_running e then Some (h, [GameEntryError lnk NoMapServers])
        else if \<not> character_isEmpty selected_slot \<and> m_name selected_slot \<noteq> char_name then None
        else
          (let chardata = (if character_isEmpty selected_slot then [] else stored_character e selected_slot)
           in Some (put_session p (session\<lparr>m_direction := EXITING_TO_MAP\<rparr>) h,
                [MapExpectClientRequest (auth_id session) (m_access_level session) (peer_addr e lnk) chardata idx
                   char_name map_path (of_int (m_max_slots (m_game_account session))) (link_token h lnk)])) } }"

text \<open>
  What \<open>on_disconnect\<close> and \<open>on_link_lost\<close> do to the session of the link; they differ in the
  texts of the reaping reasons only, and in what is sent to the link.
\<close>

definition leave_session :: "int \<Rightarrow> string \<Rightarrow> link_id \<Rightarrow> game_handler \<Rightarrow> 'addr game_result" where
  "leave_session now reason lnk h =
    do {
      p \<leftarrow> link_session lnk h;
      session \<leftarrow> the_session p h;
      let token = link_token h lnk;
      let st = m_session_store h;
      if is_connected_to_map_server_id session = 0 then
        (if m_direction session = EXITING_TO_MAP then do {
           st \<leftarrow> session_link_lost token (mark_session_for_reaping now p token reason st);
           Some (h\<lparr>m_session_store := st\<rparr>, []) }
         else do {
           st \<leftarrow> session_link_lost token st;
           session' \<leftarrow> sessions st p;
           Some (h\<lparr>m_session_store := remove_by_token token (auth_id session') st\<rparr>,
             [AuthClientDisconnected token (m_game_server_acc_id (m_game_account session))]) })
      else do {
        st \<leftarrow> session_link_lost token st;
        Some (h\<lparr>m_session_store := st\<rparr>, []) } }"

definition on_disconnect :: "int \<Rightarrow> link_id \<Rightarrow> game_handler \<Rightarrow> 'addr game_result" where
  "on_disconnect now lnk h =
    do {
      (h, out) \<leftarrow> leave_session now ''GameHander: Disconnect/Exiting map'' lnk h;
      Some (h, out @ [DisconnectResponse lnk, SendDisconnect lnk (link_token h lnk)]) }"

definition on_link_lost :: "int \<Rightarrow> link_id \<Rightarrow> game_handler \<Rightarrow> 'addr game_result" where
  "on_link_lost now lnk h =
    do {
      (h, out) \<leftarrow> leave_session now ''GameHander: LinkLost/Exiting map'' lnk h;
      Some (h, out @ [SendDisconnect lnk (link_token h lnk)]) }"

section \<open>Timers\<close>

definition maximum_time_without_packets :: int where
  "maximum_time_without_packets = 1000"

definition MinPacketsToAck :: nat where
  "MinPacketsToAck = 5"

text \<open>\<open>on_check_links\<close> asks each link for its idle time and its unacknowledged packets.\<close>

fun check_links_loop :: "(link_id \<Rightarrow> int) \<Rightarrow> (link_id \<Rightarrow> nat) \<Rightarrow> session_ptr list \<Rightarrow> game_handler \<Rightarrow>
    'addr game_out list option" where
  "check_links_loop last_sent unacked [] h = Some []"
| "check_links_loop last_sent unacked (entry # entries) h =
    do {
      session \<leftarrow> the_session entry h;
      let l = m_link session;
      out \<leftarrow> check_links_loop last_sent unacked entries h;
      Some (if l = 0 then out
            else if last_sent l > maximum_time_without_packets then SendIdle l # out
            else if unacked l > MinPacketsToAck then SendIdle l # out
            else out) }"

definition on_check_links :: "(link_id \<Rightarrow> int) \<Rightarrow> (link_id \<Rightarrow> nat) \<Rightarrow> game_handler \<Rightarrow> 'addr game_result" where
  "on_check_links last_sent unacked h =
    do { out \<leftarrow> check_links_loop last_sent unacked (m_active_sessions (m_session_store h)) h; Some (h, out) }"

definition link_is_stale_if_disconnected_for :: int where
  "link_is_stale_if_disconnected_for = 5000000"

definition reap_out :: "(u64 \<times> link_id) list \<Rightarrow> 'addr game_out list" where
  "reap_out reaped = concat (map (\<lambda>(token, l).
     AuthClientDisconnected token 0 # (if l = 0 then [] else [SendFinish l])) reaped)"

definition handler_reap_stale_links :: "int \<Rightarrow> game_handler \<Rightarrow> 'addr game_result" where
  "handler_reap_stale_links now h =
    do {
      (reaped, st) \<leftarrow> reap_stale_links now link_is_stale_if_disconnected_for (m_session_store h);
      Some (h\<lparr>m_session_store := st\<rparr>, reap_out reaped) }"

section \<open>Dispatch\<close>

fun dispatch_game :: "'addr game_env \<Rightarrow> int \<Rightarrow> 'addr game_event \<Rightarrow> game_handler \<Rightarrow> 'addr game_result" where
  "dispatch_game e now (LinkDisconnected lnk) h = on_link_lost now lnk h"
| "dispatch_game e now (ExpectClientRequest token from client_id access_level) h =
    on_expect_client e now token from client_id access_level h"
| "dispatch_game e now (ExpectMapClientResponse token cookie addr) h = on_client_expected token cookie addr h"
| "dispatch_game e now (ClientConnectedMessage session sid sub_id char_id) h =
    on_client_connected_to_other_server session sid sub_id char_id h"
| "dispatch_game e now (ClientDisconnectedMessage session char_id) h =
    on_client_disconnected_from_other_server now session char_id h"
| "dispatch_game e now ServerReconfigured h = report_service_status e now h"
| "dispatch_game e now (Idle lnk) h = on_idle lnk h"
| "dispatch_game e now (DisconnectRequest lnk) h = on_disconnect now lnk h"
| "dispatch_game e now (ConnectRequest lnk) h = on_connection_request lnk h"
| "dispatch_game e now (UpdateServer lnk build cookie) h = on_update_server e now lnk build cookie h"
| "dispatch_game e now (MapServerAddrRequest lnk idx char_name) h = on_map_req e lnk idx char_name h"
| "dispatch_game e now (DeleteCharacter lnk idx char_name) h = on_delete_character lnk idx char_name h"
| "dispatch_game e now (UpdateCharacter lnk idx) h = on_update_character lnk idx h"
| "dispatch_game e now UnknownEvent h = Some (h, [])"
| "dispatch_game e now (GameDbErrorMessage token) h = on_game_db_error token h"
| "dispatch_game e now (GameAccountResponse token data) h = on_account_data e token data h"
| "dispatch_game e now (RemoveCharacterResponse token slot) h = on_character_deleted token slot h"
| "dispatch_game e now OtherEvent h = None"

end
