(* ===== verification/Session_Invariant.thy ===== *)
theory Session_Invariant
  imports Game_Handler
begin

text \<open>
  The invariant of the session store: tokens and live sessions correspond one to one, no session
  is active twice, no cookie is expected twice, and pointers that are kept elsewhere were given
  out by the store. Pointers of active and waiting sessions may dangle; that they can is one of
  the properties shown later.
\<close>

definition tokens_ok :: "(u64 \<times> session_ptr) list \<Rightarrow> (session_ptr \<Rightarrow> 's option) \<Rightarrow> session_ptr \<Rightarrow> bool" where
  "tokens_ok m ses next \<longleftrightarrow> distinct (map fst m) \<and> distinct (map snd m) \<and> dom ses = snd ` set m \<and>
     (\<forall>p \<in> snd ` set m. p < next)"

definition store_ok :: "'s session_store \<Rightarrow> bool" where
  "store_ok st \<longleftrightarrow> tokens_ok (m_token_to_session st) (sessions st) (next_session st) \<and>
     distinct (m_active_sessions st) \<and> (\<forall>p \<in> set (m_active_sessions st). p < next_session st) \<and>
     distinct (map m_cookie (m_session_expecting_clients st)) \<and>
     (\<forall>w \<in> set (m_session_ready_for_reaping st). m_session w < next_session st)"

lemma tokens_ok_lookup:
  "tokens_ok m ses nx \<Longrightarrow> map_of m t = Some p \<Longrightarrow> p < nx \<and> (\<exists>x. ses p = Some x)"
  unfolding tokens_ok_def by (metis domD image_eqI map_of_SomeD snd_conv)

lemma tokens_ok_inj:
  assumes "tokens_ok m ses nx" "map_of m t = Some p" "map_of m t' = Some p"
  shows "t = t'"
proof -
  have "(t, p) \<in> set m" "(t', p) \<in> set m" using assms(2,3) by (auto dest: map_of_SomeD)
  moreover have "inj_on snd (set m)" using assms(1) by (simp add: tokens_ok_def distinct_map)
  ultimately show ?thesis by (metis inj_onD prod.inject snd_conv)
qed

lemma tokens_ok_set: "tokens_ok m ses nx \<Longrightarrow> ses p \<noteq> None \<Longrightarrow> tokens_ok m (ses(p \<mapsto> x)) nx"
  by (auto simp: tokens_ok_def)

lemma AList_update_fresh: "k \<notin> fst ` set m \<Longrightarrow> AList.update k v m = m @ [(k, v)]"
  by (induction m) auto

lemma tokens_ok_create:
  assumes "tokens_ok m ses nx" "map_of m t = None"
  shows "tokens_ok (AList.update t nx m) (ses(nx \<mapsto> x)) (nx + 1)"
proof -
  have t: "t \<notin> fst ` set m" using assms(2) by (simp add: map_of_eq_None_iff)
  have "nx \<notin> snd ` set m" using assms(1) by (auto simp: tokens_ok_def)
  with assms(1) t show ?thesis by (fastforce simp: tokens_ok_def AList_update_fresh)
qed

lemma tokens_ok_remove:
  assumes "tokens_ok m ses nx"
  shows "tokens_ok (AList.delete t m) (case map_of m t of None \<Rightarrow> ses | Some p \<Rightarrow> ses(p := None)) nx"
proof (cases "map_of m t")
  case None
  then have "AList.delete t m = m"
    by (intro delete_id) (simp add: map_of_eq_None_iff)
  with None assms show ?thesis by simp
next
  case (Some p)
  have d: "distinct (map fst (AList.delete t m))" "distinct (map snd (AList.delete t m))"
    using assms by (auto simp: tokens_ok_def AList.delete_eq distinct_map_filter)
  have "snd ` set (AList.delete t m) = snd ` set m - {p}"
  proof (intro equalityI subsetI)
    fix q assume "q \<in> snd ` set (AList.delete t m)"
    then obtain t' where q: "(t', q) \<in> set m" "t' \<noteq> t" by (auto simp: AList.delete_eq)
    have "q \<noteq> p"
    proof
      assume "q = p"
      then have "map_of m t' = Some p" using q(1) assms by (simp add: tokens_ok_def)
      with tokens_ok_inj [OF assms this Some] q(2) show False by simp
    qed
    with q show "q \<in> snd ` set m - {p}" by force
  next
    fix q assume q: "q \<in> snd ` set m - {p}"
    then obtain t' where t': "(t', q) \<in> set m" by auto
    have "t' \<noteq> t"
    proof
      assume "t' = t"
      then have "map_of m t = Some q" using t' assms by (simp add: tokens_ok_def)
      with Some q show False by simp
    qed
    with t' show "q \<in> snd ` set (AList.delete t m)" by (force simp: AList.delete_eq)
  qed
  with d assms Some show ?thesis by (auto simp: tokens_ok_def)
qed

section \<open>The operations of the store\<close>

lemma store_ok_new: "store_ok new_store"
  by (simp add: store_ok_def new_store_def tokens_ok_def)

lemma store_ok_set: "store_ok st \<Longrightarrow> sessions st p \<noteq> None \<Longrightarrow> store_ok (set_session p x st)"
  by (simp add: store_ok_def set_session_def tokens_ok_set)

lemma store_ok_create:
  "store_ok st \<Longrightarrow> create_session b t st = Some (p, st') \<Longrightarrow> store_ok st' \<and> sessions st' p \<noteq> None"
  using tokens_ok_create [of "m_token_to_session st" "sessions st" "next_session st" t]
  by (fastforce simp: store_ok_def create_session_def has_session_for_def set_session_def Let_def less_Suc_eq
      split: if_splits)

lemma store_ok_remove: "store_ok st \<Longrightarrow> store_ok (remove_by_token t i st)"
  using tokens_ok_remove [of "m_token_to_session st" "sessions st" "next_session st" t]
  by (simp add: store_ok_def remove_by_token_def)

lemma store_ok_expect: "store_ok st \<Longrightarrow> store_ok (snd (expect_client_session f now t a i st))"
  by (auto simp: store_ok_def expect_client_session_def Let_def)

lemma store_ok_connected: "store_ok st \<Longrightarrow> store_ok (snd (connected_client c st))"
  by (auto simp: store_ok_def connected_client_def distinct_swap_pop_first split: option.splits)

lemma store_ok_marked [simp]: "store_ok (marked_for_reaping t r st) = store_ok st"
  "store_ok (unmarked_for_reaping t st) = store_ok st"
  by (simp_all add: store_ok_def marked_for_reaping_def unmarked_for_reaping_def)

lemma store_ok_mark:
  "store_ok st \<Longrightarrow> p < next_session st \<Longrightarrow> store_ok (mark_session_for_reaping now p t r st)"
  by (auto simp: store_ok_def mark_session_for_reaping_def marked_for_reaping_def)

lemma store_ok_pop_waiting:
  "store_ok st \<Longrightarrow> set ws \<subseteq> set (m_session_ready_for_reaping st) \<Longrightarrow> store_ok (st\<lparr>m_session_ready_for_reaping := ws\<rparr>)"
  by (auto simp: store_ok_def)

lemma store_ok_unmark:
  assumes "store_ok st" "unmark_session_for_reaping p st = Some st'"
  shows "store_ok st' \<and> sessions st' = sessions st"
proof -
  have "store_ok (unmarked_for_reaping t st)" for t using assms(1) by simp
  from store_ok_pop_waiting [OF this set_swap_pop_first] assms show ?thesis
    by (auto simp: unmark_session_for_reaping_def unmarked_for_reaping_def split: Option.bind_splits)
qed

lemma distinct_swap_pop_first': "distinct xs \<Longrightarrow> distinct (swap_pop_first P xs)"
  using distinct_swap_pop_first [of id xs P] by simp

lemma store_ok_deactivate:
  "store_ok st \<Longrightarrow> remove_from_active_sessions p st = Some st' \<Longrightarrow> store_ok st'"
  using set_swap_pop_first [of "\<lambda>q. q = p" "m_active_sessions st"]
  by (auto simp: store_ok_def remove_from_active_sessions_def distinct_swap_pop_first' split: if_splits)

lemma store_ok_activate:
  "store_ok st \<Longrightarrow> p < next_session st \<Longrightarrow> store_ok (add_to_active_sessions p st)"
  by (auto simp: store_ok_def add_to_active_sessions_def)

lemma store_ok_link_lost:
  assumes "store_ok st" "session_link_lost t st = Some st'"
  shows "store_ok st'"
proof -
  obtain p st1 x where p: "session_from_token t st = Some p" "remove_from_active_sessions p st = Some st1"
    "sessions st1 p = Some x" and st': "st' = set_session p (x\<lparr>m_link := 0\<rparr>)
      (st1\<lparr>m_session_expecting_clients :=
         swap_pop_first (\<lambda>sess. expect_token sess = t) (m_session_expecting_clients st1)\<rparr>)" (is "_ = set_session p _ ?st2")
    using assms(2) by (auto simp: session_link_lost_def Let_def split: Option.bind_splits)
  have "store_ok st1" using assms(1) p(2) by (rule store_ok_deactivate)
  then have "store_ok ?st2" by (auto simp: store_ok_def distinct_swap_pop_first)
  then show ?thesis unfolding st' by (rule store_ok_set) (simp add: p(3))
qed

lemma set_swap_pop: "idx < length xs \<Longrightarrow> set (swap_pop idx xs) \<subseteq> set xs"
  by (metis mset_swap_pop set_mset_add_mset_insert set_mset_mset subset_insertI)

lemma store_ok_reap:
  "store_ok st \<Longrightarrow> n \<le> length (m_session_ready_for_reaping st) \<Longrightarrow>
   reap_loop now limit idx n r st = Some (r', st') \<Longrightarrow> store_ok st'"
proof (induction now limit idx n r st rule: reap_loop.induct)
  case (1 now limit idx n r st)
  let ?w = "m_session_ready_for_reaping st ! idx"
  show ?case
  proof (cases "idx < n")
    case False
    with "1.prems" show ?thesis by (subst (asm) reap_loop.simps) simp
  next
    case less: True
    show ?thesis
    proof (cases "now - m_waiting_since ?w < limit")
      case True
      with "1.IH"(1) [OF less refl True "1.prems"(1,2)] "1.prems"(3) less show ?thesis
        by (subst (asm) reap_loop.simps) simp
    next
      case False
      obtain x where x: "sessions st (m_session ?w) = Some x"
        using "1.prems"(3) less False by (subst (asm) reap_loop.simps) (auto simp: Let_def split: option.splits)
      let ?st = "remove_by_token (waiting_token ?w) (auth_id x) (unmarked_for_reaping (waiting_token ?w) st)"
      have w: "m_session_ready_for_reaping ?st = m_session_ready_for_reaping st"
        by (simp add: remove_by_token_def unmarked_for_reaping_def)
      have "store_ok ?st" using "1.prems"(1) by (simp add: store_ok_remove)
      then have "store_ok (?st\<lparr>m_session_ready_for_reaping := swap_pop idx (m_session_ready_for_reaping ?st)\<rparr>)"
        by (rule store_ok_pop_waiting) (use less "1.prems"(2) w in \<open>simp add: set_swap_pop\<close>)
      from "1.IH"(2) [OF less refl False x refl refl refl this] less False x "1.prems"(2,3) w show ?thesis
        by (subst (asm) reap_loop.simps) (simp add: Let_def)
    qed
  qed
qed

lemma store_ok_reuse:
  assumes "store_ok st" "create_or_reuse_session_for b t st = Some (p, st')"
  shows "store_ok st' \<and> sessions st' p \<noteq> None"
proof (cases "map_of (m_token_to_session st) t")
  case None
  with assms store_ok_create [of st b t p st'] show ?thesis by (simp add: create_or_reuse_session_for_def)
next
  case (Some q)
  then obtain st1 where st1: "unmark_session_for_reaping q st = Some st1" "p = q" "st' = set_session q b st1"
    using assms(2) by (auto simp: create_or_reuse_session_for_def split: Option.bind_splits)
  have "sessions st q \<noteq> None" using tokens_ok_lookup [OF _ Some] assms(1) by (auto simp: store_ok_def)
  moreover have "store_ok st1" "sessions st1 = sessions st" using store_ok_unmark [OF assms(1) st1(1)] by auto
  ultimately show ?thesis using st1(2,3) store_ok_set [of st1 q b] by (simp add: set_session_def)
qed

end
