(* ===== verification/Game_Invariant.thy ===== *)
theory Game_Invariant
  imports Session_Invariant
begin

text \<open>
  The states the game service can reach, through messages and timers, and the preservation of the
  invariant of its session store by every handler.
\<close>

section \<open>Reachable states\<close>

inductive served :: "'addr game_env \<Rightarrow> game_handler \<Rightarrow> bool" for e where
  served_start: "served e \<lparr>m_session_store = new_store, link_token = (\<lambda>_. 0)\<rparr>"
| served_event: "served e h \<Longrightarrow> dispatch_game e now ev h = Some (h', out) \<Longrightarrow> served e h'"
| served_check: "served e h \<Longrightarrow> on_check_links last_sent unacked h = Some (h', out :: 'addr game_out list) \<Longrightarrow> served e h'"
| served_reap: "served e h \<Longrightarrow> handler_reap_stale_links now h = Some (h', out :: 'addr game_out list) \<Longrightarrow> served e h'"

definition service_ok :: "game_handler \<Rightarrow> bool" where
  "service_ok h \<longleftrightarrow> store_ok (m_session_store h)"

lemma service_ok_put:
  "service_ok h \<Longrightarrow> the_session p h = Some y \<Longrightarrow> service_ok (put_session p x h)"
  by (simp add: service_ok_def put_session_def the_session_def store_ok_set)

lemma store_ok_found:
  "store_ok st \<Longrightarrow> map_of (m_token_to_session st) t = Some p \<Longrightarrow>
   p < next_session st \<and> (\<exists>x. sessions st p = Some x)"
  using tokens_ok_lookup [of "m_token_to_session st" "sessions st" "next_session st" t p]
  by (simp add: store_ok_def)

lemma unmark_next [simp]:
  "unmark_session_for_reaping p st = Some st' \<Longrightarrow> next_session st' = next_session st"
  by (auto simp: unmark_session_for_reaping_def unmarked_for_reaping_def split: Option.bind_splits)

lemma service_ok_account_data:
  assumes "service_ok h" "on_account_data e t d h = Some (h', out)"
  shows "service_ok h'"
proof -
  obtain p st x where p: "map_of (m_token_to_session (m_session_store h)) t = Some p"
    "unmark_session_for_reaping p (m_session_store h) = Some st" "sessions st p = Some x"
    and h': "m_session_store h' = add_to_active_sessions p (set_session p (x\<lparr>m_game_account := d\<rparr>) st)"
    using assms(2) by (auto simp: on_account_data_def event_session_def session_from_event_def Let_def
        split: Option.bind_splits)
  have "store_ok st" using store_ok_unmark [OF _ p(2)] assms(1) by (simp add: service_ok_def)
  then have "store_ok (set_session p (x\<lparr>m_game_account := d\<rparr>) st)" by (rule store_ok_set) (simp add: p(3))
  moreover have "p < next_session st"
    using store_ok_found [OF _ p(1)] assms(1) p(2) by (simp add: service_ok_def)
  ultimately show ?thesis by (simp add: service_ok_def h' set_session_def store_ok_activate)
qed

lemma service_ok_expect_client:
  assumes "service_ok h" "on_expect_client e now t a c l h = Some (h', out)"
  shows "service_ok h'"
proof -
  obtain p st cookie st1 x where p: "create_or_reuse_session_for blank_session t (m_session_store h) = Some (p, st)"
    "expect_client_session (inet_hash e) now t a (ucast c) st = (cookie, st1)" "sessions st1 p = Some x"
    and h': "m_session_store h' = set_session p (x\<lparr>auth_id := c, m_access_level := l\<rparr>) st1"
    using assms(2) by (auto simp: on_expect_client_def Let_def split: Option.bind_splits prod.splits)
  have "store_ok st1"
    using store_ok_reuse [OF _ p(1)] store_ok_expect [of st "inet_hash e" now t a "ucast c"] assms(1) p(2)
    by (simp add: service_ok_def)
  with p(3) show ?thesis by (simp add: service_ok_def h' store_ok_set)
qed

lemma service_ok_update_server:
  assumes "service_ok h" "on_update_server e now lnk b c h = Some (h', out)"
  shows "service_ok h'"
proof (cases "b = supported_version \<and> fst (connected_client c (m_session_store h)) \<noteq> not_expected")
  case False
  with assms store_ok_connected [of "m_session_store h" c] show ?thesis
    by (cases "connected_client c (m_session_store h)")
      (auto simp: on_update_server_def service_ok_def Let_def split: if_splits)
next
  case True
  then obtain t st p x where p: "connected_client c (m_session_store h) = (t, st)" "t \<noteq> not_expected"
    "map_of (m_token_to_session st) t = Some p" "sessions st p = Some x"
    and h': "m_session_store h' = mark_session_for_reaping now p t ''GameHander: Awaiting DB response''
      (set_session p (x\<lparr>m_link := lnk, m_direction := EXITING_TO_LOGIN\<rparr>) st)"
    using assms(2) by (auto simp: on_update_server_def Let_def session_from_token_def set_link_token_def
        split: Option.bind_splits prod.splits if_splits)
  have ok: "store_ok st" using store_ok_connected [of "m_session_store h" c] assms(1) p(1) by (simp add: service_ok_def)
  then have "store_ok (set_session p (x\<lparr>m_link := lnk, m_direction := EXITING_TO_LOGIN\<rparr>) st)"
    by (rule store_ok_set) (simp add: p(4))
  then show ?thesis unfolding service_ok_def h'
    by (rule store_ok_mark) (use store_ok_found [OF ok p(3)] in \<open>simp add: set_session_def\<close>)
qed

lemma service_ok_connected_elsewhere:
  assumes "service_ok h" "on_client_connected_to_other_server t sid sub c h = Some (h', out)"
  shows "service_ok h'"
proof -
  obtain p st x y where p: "unmark_session_for_reaping p (m_session_store h) = Some st" "sessions st p = Some x"
    and h': "m_session_store h' = set_session p y st"
    using assms(2) by (auto simp: on_client_connected_to_other_server_def Let_def
        split: Option.bind_splits if_splits)
  have "store_ok st" using store_ok_unmark [OF _ p(1)] assms(1) by (simp add: service_ok_def)
  with p(2) show ?thesis by (simp add: service_ok_def h' store_ok_set)
qed

lemma service_ok_disconnected_elsewhere:
  assumes "service_ok h" "on_client_disconnected_from_other_server now t c h = Some (h', out)"
  shows "service_ok h'"
proof -
  obtain p x y r where p: "map_of (m_token_to_session (m_session_store h)) t = Some p"
    "sessions (m_session_store h) p = Some x"
    and h': "m_session_store h' = mark_session_for_reaping now p t r (set_session p y (m_session_store h))"
    using assms(2) by (auto simp: on_client_disconnected_from_other_server_def Let_def session_from_token_def
        the_session_def split: Option.bind_splits)
  have ok: "store_ok (m_session_store h)" using assms(1) by (simp add: service_ok_def)
  then have "store_ok (set_session p y (m_session_store h))" by (rule store_ok_set) (simp add: p(2))
  then show ?thesis unfolding service_ok_def h'
    by (rule store_ok_mark) (use store_ok_found [OF ok p(1)] in \<open>simp add: set_session_def\<close>)
qed

lemma service_ok_leave:
  assumes "service_ok h" "leave_session now r lnk h = Some (h', out)"
  shows "service_ok h'"
proof -
  let ?st = "m_session_store h" and ?t = "link_token h lnk"
  obtain p x where p: "map_of (m_token_to_session ?st) ?t = Some p" "sessions ?st p = Some x"
    using assms(2) by (auto simp: leave_session_def link_session_def session_from_link_def split: Option.bind_splits)
  have ok: "store_ok ?st" using assms(1) by (simp add: service_ok_def)
  then have mark: "store_ok (mark_session_for_reaping now p ?t r ?st)"
    by (rule store_ok_mark) (use store_ok_found [OF ok p(1)] in simp)
  from assms(2) p consider
      st where "session_link_lost ?t (mark_session_for_reaping now p ?t r ?st) = Some st" "m_session_store h' = st"
    | st i where "session_link_lost ?t ?st = Some st" "m_session_store h' = remove_by_token ?t i st"
    | st where "session_link_lost ?t ?st = Some st" "m_session_store h' = st"
    by (auto simp: leave_session_def link_session_def session_from_link_def the_session_def Let_def
        split: Option.bind_splits if_splits)
  then show ?thesis
    by cases (simp_all add: service_ok_def store_ok_link_lost [OF ok] store_ok_link_lost [OF mark]
        store_ok_remove [OF store_ok_link_lost [OF ok]])
qed

lemma service_ok_disconnect:
  "service_ok h \<Longrightarrow> on_disconnect now lnk h = Some (h', out) \<Longrightarrow> service_ok h'"
  "service_ok h \<Longrightarrow> on_link_lost now lnk h = Some (h', out) \<Longrightarrow> service_ok h'"
  by (auto simp: on_disconnect_def on_link_lost_def dest: service_ok_leave split: Option.bind_splits)

lemma service_ok_map_req:
  assumes "service_ok h" "on_map_req e lnk i n h = Some (h', out)"
  shows "service_ok h'"
proof -
  have "h' = h \<or> (\<exists>p x. the_session p h = Some x \<and> h' = put_session p (x\<lparr>m_direction := EXITING_TO_MAP\<rparr>) h)"
    using assms(2) by (auto simp: on_map_req_def Let_def Option.bind_eq_Some_conv split: if_splits)
  then show ?thesis using assms(1) service_ok_put by blast
qed

lemma service_ok_character_deleted:
  assumes "service_ok h" "on_character_deleted t i h = Some (h', out)"
  shows "service_ok h'"
proof -
  obtain p x y where "the_session p h = Some x" "h' = put_session p y h"
    using assms(2) by (auto simp: on_character_deleted_def Let_def Option.bind_eq_Some_conv)
  then show ?thesis using assms(1) service_ok_put by blast
qed

lemmas service_ok_handlers = service_ok_account_data service_ok_expect_client service_ok_update_server
  service_ok_connected_elsewhere service_ok_disconnected_elsewhere service_ok_disconnect service_ok_map_req
  service_ok_character_deleted

lemma service_ok_dispatch:
  "service_ok h \<Longrightarrow> dispatch_game e now ev h = Some (h', out) \<Longrightarrow> service_ok h'"
  by (cases ev) (auto dest: service_ok_handlers simp: report_service_status_def on_connection_request_def
      on_idle_def on_client_expected_def on_delete_character_def on_update_character_def on_game_db_error_def
      split: Option.bind_splits if_splits)

lemma service_ok_reap:
  "service_ok h \<Longrightarrow> handler_reap_stale_links now h = Some (h', out) \<Longrightarrow> service_ok h'"
  by (auto simp: service_ok_def handler_reap_stale_links_def reap_stale_links_def dest: store_ok_reap
      split: Option.bind_splits)

end
