(* ===== verification/Game_Properties.thy ===== *)
theory Game_Properties
  imports Game_Invariant
begin

text \<open>
  The properties of the game service and of its session store: the invariant over every sequence
  of messages and timers, the way of a client from the login to its character list, what reaping
  removes, and the sequences that abort the server.
\<close>

text \<open>C18. Whatever messages arrive and timers fire: tokens and live sessions of the game service correspond
  one to one, no session is registered as active twice, no cookie is expected twice, and every
  pointer that is kept was given out by the store.\<close>

theorem game_service_invariant:
  assumes "served e h"
  shows "store_ok (m_session_store h)"
proof -
  from assms have "service_ok h"
  proof induction
    case served_start
    then show ?case by (simp add: service_ok_def store_ok_new)
  next
    case (served_event h now ev h' out)
    then show ?case by (blast intro: service_ok_dispatch)
  next
    case (served_check h last_sent unacked h' out)
    then show ?case by (auto simp: on_check_links_def split: Option.bind_splits)
  next
    case (served_reap h now h' out)
    then show ?case by (blast intro: service_ok_reap)
  qed
  then show ?thesis by (simp add: service_ok_def)
qed

section \<open>From the login to the character list\<close>

fun run_events :: "'addr game_env \<Rightarrow> (int \<times> 'addr game_event) list \<Rightarrow> game_handler \<Rightarrow>
    (game_handler \<times> 'addr game_out list list) option" where
  "run_events e [] h = Some (h, [])"
| "run_events e ((now, ev) # evs) h =
    do { (h, out) \<leftarrow> dispatch_game e now ev h; (h, outs) \<leftarrow> run_events e evs h; Some (h, out # outs) }"

lemma swap_pop_first_snoc: "\<forall>x \<in> set xs. \<not> P x \<Longrightarrow> P y \<Longrightarrow> swap_pop_first P (xs @ [y]) = xs"
proof -
  assume a: "\<forall>x \<in> set xs. \<not> P x" "P y"
  then have "index_of P (xs @ [y]) = Some (length xs)" by (induction xs) auto
  then show ?thesis by (simp add: swap_pop_first_def swap_pop_def)
qed

lemma find_snoc: "\<forall>x \<in> set xs. \<not> P x \<Longrightarrow> P y \<Longrightarrow> find P (xs @ [y]) = Some y"
  by (induction xs) auto

definition expected_login :: "'addr game_env \<Rightarrow> u64 \<Rightarrow> 'addr \<Rightarrow> u32 \<Rightarrow> link_id \<Rightarrow> game_handler \<Rightarrow> bool" where
  "expected_login e token addr client_id lnk h \<longleftrightarrow>
     store_ok (m_session_store h) \<and> token \<noteq> 0 \<and> token \<noteq> not_expected \<and> lnk \<noteq> 0 \<and>
     map_of (m_token_to_session (m_session_store h)) token = None \<and>
     (\<forall>c \<in> set (m_session_expecting_clients (m_session_store h)).
        m_cookie c \<noteq> create_cookie (inet_hash e) addr (ucast client_id))"

lemma login_started:
  fixes e :: "'addr game_env" and h and client_id :: u32 and addr :: 'addr
  defines "cookie \<equiv> create_cookie (inet_hash e) addr (ucast client_id)"
    and "p \<equiv> next_session (m_session_store h)"
  assumes "expected_login e token addr client_id lnk h"
  shows "\<exists>h' session. run_events e [(t1, ExpectClientRequest token addr client_id access),
        (t2, UpdateServer lnk supported_version cookie)] h =
      Some (h', [[AuthExpectClientResponse client_id cookie (server_id e) token],
        [DbGameAccountRequest client_id (getMaxCharacterSlots e) True token]]) \<and>
    link_token h' lnk = token \<and> map_of (m_token_to_session (m_session_store h')) token = Some p \<and>
    sessions (m_session_store h') p = Some session \<and> m_link session = lnk \<and>
    auth_id session = client_id \<and> m_access_level session = access \<and>
    m_active_sessions (m_session_store h') = m_active_sessions (m_session_store h) \<and>
    m_session_expecting_clients (m_session_store h') = m_session_expecting_clients (m_session_store h) \<and>
    m_session_ready_for_reaping (m_session_store h') = m_session_ready_for_reaping (m_session_store h) @
      [\<lparr>m_waiting_since = t2, m_session = p, waiting_token = token\<rparr>]"
proof -
  let ?st = "m_session_store h" and ?f = "\<lambda>sess. m_cookie sess = cookie"
  let ?new = "\<lparr>m_cookie = cookie, m_expected_since = t1, expect_token = token\<rparr>"
  have new: "map_of (m_token_to_session ?st) token = None" "token \<noteq> 0" "token \<noteq> not_expected"
    and c: "\<forall>c \<in> set (m_session_expecting_clients ?st). \<not> ?f c"
    using assms(3) by (auto simp: expected_login_def cookie_def)
  have find: "find ?f (m_session_expecting_clients ?st @ [?new]) = Some ?new"
    using c by (rule find_snoc) simp
  show ?thesis
    using new c find swap_pop_first_snoc [of "m_session_expecting_clients ?st" ?f ?new]
    by (auto simp: on_expect_client_def create_or_reuse_session_for_def create_session_def has_session_for_def
        expect_client_session_def Let_def set_session_def on_update_server_def connected_client_def
        session_from_token_def set_link_token_def mark_session_for_reaping_def marked_for_reaping_def
        cookie_def [symmetric] p_def [symmetric] update_conv')
qed

lemma store_ok_waiting:
  "store_ok st \<Longrightarrow> w \<in> set (m_session_ready_for_reaping st) \<Longrightarrow> m_session w < next_session st"
  "store_ok st \<Longrightarrow> p \<in> set (m_active_sessions st) \<Longrightarrow> p < next_session st"
  by (simp_all add: store_ok_def)

lemma on_account_data_eq:
  fixes h :: game_handler and session :: game_session
  assumes "map_of (m_token_to_session (m_session_store h)) token = Some p"
    "sessions (m_session_store h) p = Some session" "m_link session \<noteq> 0"
  shows "on_account_data e token account h = Some (h\<lparr>m_session_store :=
      add_to_active_sessions p (set_session p (session\<lparr>m_game_account := account\<rparr>)
        ((unmarked_for_reaping (m_session_token session) (m_session_store h))\<lparr>m_session_ready_for_reaping :=
          swap_pop_first (\<lambda>w. m_session w = p) (m_session_ready_for_reaping (m_session_store h))\<rparr>))\<rparr>,
     [AuthClientConnected token (server_id e) (m_game_server_acc_id account) (m_game_server_acc_id account),
      CharacterSlots (m_link session) account])"
  using assms by (simp add: on_account_data_def event_session_def session_from_event_def
      unmark_session_for_reaping_def unmarked_for_reaping_def to_link_def Let_def)

lemma add_to_active_simps [simp]:
  "sessions (add_to_active_sessions p st) = sessions st"
  "m_token_to_session (add_to_active_sessions p st) = m_token_to_session st"
  "m_session_ready_for_reaping (add_to_active_sessions p st) = m_session_ready_for_reaping st"
  "m_session_expecting_clients (add_to_active_sessions p st) = m_session_expecting_clients st"
  "isActive p (add_to_active_sessions p st)"
  by (simp_all add: add_to_active_sessions_def isActive_def)

lemma set_session_simps [simp]:
  "sessions (set_session p x st) = (sessions st)(p \<mapsto> x)"
  "m_token_to_session (set_session p x st) = m_token_to_session st"
  "m_session_ready_for_reaping (set_session p x st) = m_session_ready_for_reaping st"
  "m_session_expecting_clients (set_session p x st) = m_session_expecting_clients st"
  by (simp_all add: set_session_def)

lemma unmarked_simps [simp]:
  "m_token_to_session (unmarked_for_reaping t st) = m_token_to_session st"
  "m_session_expecting_clients (unmarked_for_reaping t st) = m_session_expecting_clients st"
  by (simp_all add: unmarked_for_reaping_def)

text \<open>C19. A client whose login the authentication server announced, and who presents the cookie it was
  given, becomes an active session: the account comes from the database under the announced
  account id, the session has the link, the access level and the account, is no longer waiting to
  be reaped, and the cookie is used up.\<close>

theorem login_gives_active_session:
  assumes "expected_login e token addr client_id lnk h"
  shows "\<exists>h' p session. run_events e [(t1, ExpectClientRequest token addr client_id access),
        (t2, UpdateServer lnk supported_version (create_cookie (inet_hash e) addr (ucast client_id))),
        (t3, GameAccountResponse token account)] h =
      Some (h', [[AuthExpectClientResponse client_id (create_cookie (inet_hash e) addr (ucast client_id)) (server_id e) token],
        [DbGameAccountRequest client_id (getMaxCharacterSlots e) True token],
        [AuthClientConnected token (server_id e) (m_game_server_acc_id account) (m_game_server_acc_id account),
         CharacterSlots lnk account]]) \<and>
    link_session lnk h' = Some p \<and> the_session p h' = Some session \<and> isActive p (m_session_store h') \<and>
    auth_id session = client_id \<and> m_access_level session = access \<and> m_game_account session = account \<and>
    (\<forall>w \<in> set (m_session_ready_for_reaping (m_session_store h')). m_session w \<noteq> p) \<and>
    m_session_expecting_clients (m_session_store h') = m_session_expecting_clients (m_session_store h)"
proof -
  let ?p = "next_session (m_session_store h)" and ?w = "m_session_ready_for_reaping (m_session_store h)"
  obtain h2 session where h2: "run_events e [(t1, ExpectClientRequest token addr client_id access),
        (t2, UpdateServer lnk supported_version (create_cookie (inet_hash e) addr (ucast client_id)))] h =
      Some (h2, [[AuthExpectClientResponse client_id (create_cookie (inet_hash e) addr (ucast client_id)) (server_id e) token],
        [DbGameAccountRequest client_id (getMaxCharacterSlots e) True token]])"
    and s: "link_token h2 lnk = token" "map_of (m_token_to_session (m_session_store h2)) token = Some ?p"
    "sessions (m_session_store h2) ?p = Some session" "m_link session = lnk" "auth_id session = client_id"
    "m_access_level session = access"
    "m_session_expecting_clients (m_session_store h2) = m_session_expecting_clients (m_session_store h)"
    "m_session_ready_for_reaping (m_session_store h2) = ?w @ [\<lparr>m_waiting_since = t2, m_session = ?p, waiting_token = token\<rparr>]"
    using login_started [OF assms, of t1 access t2] by blast
  have lnk: "lnk \<noteq> 0" and ok: "store_ok (m_session_store h)" using assms unfolding expected_login_def by blast+
  have w: "\<forall>w \<in> set ?w. m_session w \<noteq> ?p"
    using store_ok_waiting [OF ok] by (metis less_irrefl)
  have pop: "swap_pop_first (\<lambda>w. m_session w = ?p) (?w @ [\<lparr>m_waiting_since = t2, m_session = ?p, waiting_token = token\<rparr>]) = ?w"
    using w by (intro swap_pop_first_snoc) auto
  let ?st = "add_to_active_sessions ?p (set_session ?p (session\<lparr>m_game_account := account\<rparr>)
        ((unmarked_for_reaping (m_session_token session) (m_session_store h2))\<lparr>m_session_ready_for_reaping :=
          swap_pop_first (\<lambda>w. m_session w = ?p) (m_session_ready_for_reaping (m_session_store h2))\<rparr>))"
  define h3 where "h3 = h2\<lparr>m_session_store := ?st\<rparr>"
  have h3: "dispatch_game e t3 (GameAccountResponse token account) h2 = Some (h3,
        [AuthClientConnected token (server_id e) (m_game_server_acc_id account) (m_game_server_acc_id account),
         CharacterSlots lnk account])"
    using on_account_data_eq [OF s(2,3), of e account] lnk by (simp add: s(4) h3_def)
  have h3': "link_token h3 = link_token h2" "m_token_to_session (m_session_store h3) = m_token_to_session (m_session_store h2)"
    "sessions (m_session_store h3) ?p = Some (session\<lparr>m_game_account := account\<rparr>)"
    "isActive ?p (m_session_store h3)"
    "m_session_expecting_clients (m_session_store h3) = m_session_expecting_clients (m_session_store h2)"
    by (simp_all add: h3_def)
  have w3: "m_session_ready_for_reaping (m_session_store h3) = ?w"
    using pop by (simp add: h3_def s(8))
  have "run_events e (evs @ [(t, ev)]) h = (case run_events e evs h of None \<Rightarrow> None
      | Some (h, outs) \<Rightarrow> map_option (\<lambda>(h', out). (h', outs @ [out])) (dispatch_game e t ev h))" for evs t ev
    by (induction evs arbitrary: h) (auto split: option.splits Option.bind_splits)
  from this [of "[(t1, ExpectClientRequest token addr client_id access),
        (t2, UpdateServer lnk supported_version (create_cookie (inet_hash e) addr (ucast client_id)))]" t3
        "GameAccountResponse token account"] h2 h3
  have "run_events e [(t1, ExpectClientRequest token addr client_id access),
        (t2, UpdateServer lnk supported_version (create_cookie (inet_hash e) addr (ucast client_id))),
        (t3, GameAccountResponse token account)] h =
      Some (h3, [[AuthExpectClientResponse client_id (create_cookie (inet_hash e) addr (ucast client_id)) (server_id e) token],
        [DbGameAccountRequest client_id (getMaxCharacterSlots e) True token],
        [AuthClientConnected token (server_id e) (m_game_server_acc_id account) (m_game_server_acc_id account),
         CharacterSlots lnk account]])" by simp
  moreover have "link_session lnk h3 = Some ?p"
    using h3'(1,2,3) s(1,2,4) by (simp add: link_session_def session_from_link_def)
  moreover have "the_session ?p h3 = Some (session\<lparr>m_game_account := account\<rparr>)"
    using h3'(3) by (simp add: the_session_def)
  ultimately show ?thesis using h3'(4,5) w3 w s(5-7)
    by (intro exI [of _ h3] exI [of _ ?p] exI [of _ "session\<lparr>m_game_account := account\<rparr>"]) simp
qed

definition example_env :: "nat game_env" where
  "example_env = \<lparr>inet_hash = (\<lambda>_. 77), peer_addr = (\<lambda>_. 5), server_id = 1, server_addr = 4,
     getMaxPlayers = 200, getMaxCharacterSlots = 8, map_handler_running = True,
     map_path_of = (\<lambda>_. []), stored_character = (\<lambda>_. [])\<rparr>"

definition example_handler :: game_handler where
  "example_handler = \<lparr>m_session_store = new_store, link_token = (\<lambda>_. 0)\<rparr>"

lemma example_login: "expected_login example_env 5 6 9 3 example_handler"
  by (simp add: expected_login_def example_handler_def store_ok_new not_expected_def)
    (simp add: new_store_def)

theorem game_service_invariant_witness:
  "store_ok (m_session_store example_handler) \<and> served example_env example_handler"
  using game_service_invariant [OF served_start [of example_env]] served_start [of example_env]
  by (simp add: example_handler_def)

theorem login_gives_active_session_witness:
  "\<exists>h' p outs. run_events example_env [(1, ExpectClientRequest 5 6 9 2),
     (2, UpdateServer 3 supported_version (create_cookie (inet_hash example_env) 6 9)),
     (3, GameAccountResponse 5 (m_game_account blank_session))] example_handler = Some (h', outs) \<and>
     isActive p (m_session_store h') \<and> link_session 3 h' = Some p"
  using login_gives_active_session [OF example_login, of 1 2 2 3 "m_game_account blank_session"] by auto

text \<open>A client that disconnects, or whose link is lost, while the database has not answered yet brings
  the server down: its session is not among the active ones, which the store takes for a fatal
  failure.\<close>

theorem early_disconnect_aborts:
  fixes e :: "'addr game_env"
  assumes "expected_login e token addr client_id lnk h"
  shows "\<exists>h' outs. run_events e [(t1, ExpectClientRequest token addr client_id access),
        (t2, UpdateServer lnk supported_version (create_cookie (inet_hash e) addr (ucast client_id)))] h = Some (h', outs) \<and>
    dispatch_game e t3 (DisconnectRequest lnk) h' = None \<and> dispatch_game e t3 (LinkDisconnected lnk) h' = None"
proof -
  let ?p = "next_session (m_session_store h)"
  obtain h2 outs session where h2: "run_events e [(t1, ExpectClientRequest token addr client_id access),
        (t2, UpdateServer lnk supported_version (create_cookie (inet_hash e) addr (ucast client_id)))] h = Some (h2, outs)"
    and s: "link_token h2 lnk = token" "map_of (m_token_to_session (m_session_store h2)) token = Some ?p"
    "sessions (m_session_store h2) ?p = Some session" "m_link session = lnk"
    "m_active_sessions (m_session_store h2) = m_active_sessions (m_session_store h)"
    using login_started [OF assms, of t1 access t2] by blast
  have ok: "store_ok (m_session_store h)" using assms unfolding expected_login_def by blast
  then have "?p \<notin> set (m_active_sessions (m_session_store h))" using store_ok_waiting(2) [OF ok] by blast
  then have "session_link_lost token (m_session_store h2) = None"
    and "session_link_lost token (mark_session_for_reaping t3 ?p token r (m_session_store h2)) = None" for r
    using s by (simp_all add: session_link_lost_def session_from_token_def remove_from_active_sessions_def
        mark_session_for_reaping_def marked_for_reaping_def)
  then have "(leave_session t3 r lnk h2 :: 'addr game_result) = None" for r
    using s by (simp add: leave_session_def link_session_def session_from_link_def the_session_def Let_def)
  with h2 show ?thesis by (simp add: on_disconnect_def on_link_lost_def)
qed

theorem early_disconnect_aborts_witness:
  "\<exists>h' outs. run_events example_env [(1, ExpectClientRequest 5 6 9 2),
     (2, UpdateServer 3 supported_version (create_cookie (inet_hash example_env) 6 9))] example_handler = Some (h', outs) \<and>
     dispatch_game example_env 3 (DisconnectRequest 3) h' = None"
  using early_disconnect_aborts [OF example_login, of 1 2 2 3] by auto

section \<open>Reaping\<close>

text \<open>The waiting sessions are registered under their tokens, each once.\<close>

definition waiting_ok :: "'s session_store \<Rightarrow> bool" where
  "waiting_ok st \<longleftrightarrow> distinct (map waiting_token (m_session_ready_for_reaping st)) \<and>
     (\<forall>w \<in> set (m_session_ready_for_reaping st).
        map_of (m_token_to_session st) (waiting_token w) = Some (m_session w))"

definition reap_one :: "nat \<Rightarrow> 'a client_session_scheme session_store \<Rightarrow> 'a client_session_scheme session_store" where
  "reap_one idx st =
    (let w = m_session_ready_for_reaping st ! idx;
         st = remove_by_token (waiting_token w) (auth_id (the (sessions st (m_session w)))) (unmarked_for_reaping (waiting_token w) st)
     in st\<lparr>m_session_ready_for_reaping := swap_pop idx (m_session_ready_for_reaping st)\<rparr>)"

lemma reap_one_fields:
  assumes "waiting_ok st" "idx < length (m_session_ready_for_reaping st)"
  defines "w \<equiv> m_session_ready_for_reaping st ! idx"
  shows "m_session_ready_for_reaping (reap_one idx st) = swap_pop idx (m_session_ready_for_reaping st)"
    "map_of (m_token_to_session (reap_one idx st)) t = (if t = waiting_token w then None else map_of (m_token_to_session st) t)"
    "sessions (reap_one idx st) = (sessions st)(m_session w := None)"
    "m_active_sessions (reap_one idx st) = m_active_sessions st"
proof -
  have "map_of (m_token_to_session st) (waiting_token w) = Some (m_session w)"
    using assms by (simp add: waiting_ok_def)
  then show "m_session_ready_for_reaping (reap_one idx st) = swap_pop idx (m_session_ready_for_reaping st)"
    "map_of (m_token_to_session (reap_one idx st)) t = (if t = waiting_token w then None else map_of (m_token_to_session st) t)"
    "sessions (reap_one idx st) = (sessions st)(m_session w := None)"
    "m_active_sessions (reap_one idx st) = m_active_sessions st"
    by (simp_all add: reap_one_def w_def remove_by_token_def unmarked_for_reaping_def delete_conv' Let_def)
qed

lemma waiting_ok_reap_one:
  assumes "waiting_ok st" "idx < length (m_session_ready_for_reaping st)"
  shows "waiting_ok (reap_one idx st)"
proof -
  let ?W = "m_session_ready_for_reaping st"
  have m: "add_mset (?W ! idx) (mset (swap_pop idx ?W)) = mset ?W" by (rule mset_swap_pop [OF assms(2)])
  have "mset (map waiting_token (?W ! idx # swap_pop idx ?W)) = mset (map waiting_token ?W)"
    using m by (simp add: image_mset_add_mset [symmetric])
  then have d: "distinct (map waiting_token (?W ! idx # swap_pop idx ?W))"
    using assms(1) unfolding waiting_ok_def by (metis mset_eq_imp_distinct_iff)
  show ?thesis unfolding waiting_ok_def reap_one_fields(1) [OF assms] reap_one_fields(2) [OF assms]
  proof (intro conjI ballI)
    show "distinct (map waiting_token (swap_pop idx ?W))" using d by simp
    fix w assume w: "w \<in> set (swap_pop idx ?W)"
    have "waiting_token (?W ! idx) \<notin> waiting_token ` set (swap_pop idx ?W)" using d by simp
    with w have "waiting_token w \<noteq> waiting_token (?W ! idx)" by (metis imageI)
    moreover have "w \<in> set ?W" using w set_swap_pop [OF assms(2)] by blast
    ultimately show "(if waiting_token w = waiting_token (?W ! idx) then None
        else map_of (m_token_to_session st) (waiting_token w)) = Some (m_session w)"
      using assms(1) by (simp add: waiting_ok_def)
  qed
qed

lemma reap_loop_effect:
  assumes "store_ok st" "waiting_ok st"
  shows "\<exists>gone reaped st'. reap_loop now limit idx (length (m_session_ready_for_reaping st)) r st = Some (r @ reaped, st') \<and>
    map fst reaped = map waiting_token gone \<and>
    mset (m_session_ready_for_reaping st) = mset gone + mset (m_session_ready_for_reaping st') \<and>
    (\<forall>w \<in> set gone. limit \<le> now - m_waiting_since w) \<and>
    (\<forall>t. map_of (m_token_to_session st') t = (if t \<in> waiting_token ` set gone then None else map_of (m_token_to_session st) t)) \<and>
    (\<forall>p. sessions st' p = (if p \<in> m_session ` set gone then None else sessions st p)) \<and>
    m_active_sessions st' = m_active_sessions st \<and>
    ((\<forall>w \<in> set (m_session_ready_for_reaping st). limit \<le> now - m_waiting_since w) \<longrightarrow>
       length gone = (length (m_session_ready_for_reaping st) - idx + 1) div 2)"
  using assms
proof (induction "length (m_session_ready_for_reaping st) - idx" arbitrary: st idx r rule: less_induct)
  case less
  let ?W = "m_session_ready_for_reaping st"
  let ?w = "?W ! idx"
  show ?case
  proof (cases "idx < length ?W")
    case False
    then show ?thesis by (subst reap_loop.simps) simp
  next
    case idx: True
    show ?thesis
    proof (cases "now - m_waiting_since ?w < limit")
      case True
      have "length ?W - (idx + 1) < length ?W - idx" using idx by simp
      note ih = less.hyps [OF this less.prems, of r]
      have step: "reap_loop now limit idx (length ?W) r st = reap_loop now limit (idx + 1) (length ?W) r st"
        using True idx by (subst reap_loop.simps) (simp add: Let_def)
      have "\<not> (\<forall>w \<in> set ?W. limit \<le> now - m_waiting_since w)" using True idx by (auto simp: not_le intro: nth_mem)
      note fresh = this
      show ?thesis unfolding step
        by (use ih in \<open>elim exE conjE\<close>, intro exI conjI, assumption+) (use fresh in blast)
    next
      case stale: False
      have wok: "map_of (m_token_to_session st) (waiting_token ?w) = Some (m_session ?w)"
        using less.prems(2) idx by (simp add: waiting_ok_def)
      then obtain x where x: "sessions st (m_session ?w) = Some x"
        using less.prems(1) tokens_ok_lookup [of "m_token_to_session st" "sessions st"] by (fastforce simp: store_ok_def)
      let ?st = "reap_one idx st"
      note fields = reap_one_fields [OF less.prems(2) idx]
      have step: "reap_loop now limit idx (length ?W) r st =
          reap_loop now limit (idx + 1) (length (m_session_ready_for_reaping ?st)) (r @ [(waiting_token ?w, m_link x)]) ?st"
        using idx stale x fields(1)
        by (subst reap_loop.simps) (simp add: Let_def reap_one_def remove_by_token_def unmarked_for_reaping_def)
      have ok: "store_ok ?st"
        unfolding reap_one_def Let_def
        by (rule store_ok_pop_waiting, use less.prems(1) in \<open>simp add: store_ok_remove\<close>)
          (use idx in \<open>simp add: remove_by_token_def unmarked_for_reaping_def set_swap_pop\<close>)
      have "length (m_session_ready_for_reaping ?st) - (idx + 1) < length ?W - idx"
        using idx fields(1) by simp
      from less.hyps [OF this ok waiting_ok_reap_one [OF less.prems(2) idx], of "r @ [(waiting_token ?w, m_link x)]"]
      obtain gone reaped st' where ih: "reap_loop now limit (idx + 1) (length (m_session_ready_for_reaping ?st))
          (r @ [(waiting_token ?w, m_link x)]) ?st = Some ((r @ [(waiting_token ?w, m_link x)]) @ reaped, st')"
        "map fst reaped = map waiting_token gone"
        "mset (m_session_ready_for_reaping ?st) = mset gone + mset (m_session_ready_for_reaping st')"
        "\<forall>w \<in> set gone. limit \<le> now - m_waiting_since w"
        "\<forall>t. map_of (m_token_to_session st') t = (if t \<in> waiting_token ` set gone then None else map_of (m_token_to_session ?st) t)"
        "\<forall>p. sessions st' p = (if p \<in> m_session ` set gone then None else sessions ?st p)"
        "m_active_sessions st' = m_active_sessions ?st"
        "(\<forall>w \<in> set (m_session_ready_for_reaping ?st). limit \<le> now - m_waiting_since w) \<longrightarrow>
           length gone = (length (m_session_ready_for_reaping ?st) - (idx + 1) + 1) div 2" by blast
      have m: "add_mset ?w (mset (m_session_ready_for_reaping ?st)) = mset ?W"
        unfolding fields(1) by (rule mset_swap_pop [OF idx])
      have len: "length gone + 1 = (length ?W - idx + 1) div 2" if "\<forall>w \<in> set ?W. limit \<le> now - m_waiting_since w"
      proof -
        have "\<forall>w \<in> set (m_session_ready_for_reaping ?st). limit \<le> now - m_waiting_since w"
          using that set_swap_pop [OF idx] fields(1) by auto
        then have "length gone = (length ?W - 1 - (idx + 1) + 1) div 2" using ih(8) fields(1) by simp
        moreover have "length ?W - idx + 1 = length ?W - 1 - (idx + 1) + 1 + 2 \<or> length ?W = idx + 1" using idx by arith
        ultimately show ?thesis by auto
      qed
      show ?thesis unfolding step ih(1)
        by (intro exI [of _ "?w # gone"] exI [of _ "(waiting_token ?w, m_link x) # reaped"] exI [of _ st'])
          (use ih(2-7) m len fields(2-4) stale in \<open>auto simp: union_commute\<close>)
    qed
  qed
qed

text \<open>C28. Reaping removes only sessions that have waited for the limit, each together with its token, and
  leaves all others as they are. When all of them are due, it still removes only every second one,
  rounded up: the session swapped into the place of a removed one is passed over.\<close>

theorem reap_stale_links_effect:
  assumes "store_ok st" "waiting_ok st"
  shows "\<exists>gone reaped st'. reap_stale_links now limit st = Some (reaped, st') \<and>
    map fst reaped = map waiting_token gone \<and>
    mset (m_session_ready_for_reaping st) = mset gone + mset (m_session_ready_for_reaping st') \<and>
    (\<forall>w \<in> set gone. limit \<le> now - m_waiting_since w) \<and>
    (\<forall>t. map_of (m_token_to_session st') t = (if t \<in> waiting_token ` set gone then None else map_of (m_token_to_session st) t)) \<and>
    (\<forall>p. sessions st' p = (if p \<in> m_session ` set gone then None else sessions st p)) \<and>
    ((\<forall>w \<in> set (m_session_ready_for_reaping st). limit \<le> now - m_waiting_since w) \<longrightarrow>
       length gone = (length (m_session_ready_for_reaping st) + 1) div 2)"
  using reap_loop_effect [OF assms, of now limit 0 "[]"]
  by (elim exE conjE, intro exI conjI) (simp_all add: reap_stale_links_def)

definition waiting_store :: "game_session session_store" where
  "waiting_store = new_store\<lparr>m_token_to_session := [(7, 1), (8, 2), (9, 3)], next_session := 4,
     sessions := (\<lambda>p. if 1 \<le> p \<and> p \<le> 3 then Some (blank_session\<lparr>m_session_token := of_nat (p + 6)\<rparr>) else None),
     m_session_ready_for_reaping := [\<lparr>m_waiting_since = 0, m_session = 1, waiting_token = 7\<rparr>,
       \<lparr>m_waiting_since = 0, m_session = 2, waiting_token = 8\<rparr>, \<lparr>m_waiting_since = 0, m_session = 3, waiting_token = 9\<rparr>]\<rparr>"

theorem reap_stale_links_effect_witness:
  "\<exists>reaped st'. reap_stale_links 6000000 5000000 waiting_store = Some (reaped, st') \<and> length reaped = 2 \<and>
     size (mset (m_session_ready_for_reaping st')) = 1"
proof -
  have "dom (sessions waiting_store) = {1, 2, 3}" by (auto simp: waiting_store_def dom_def)
  then have ok: "store_ok waiting_store" "waiting_ok waiting_store"
    by (auto simp: store_ok_def tokens_ok_def waiting_ok_def waiting_store_def new_store_def)
  obtain gone reaped st' where r: "reap_stale_links 6000000 5000000 waiting_store = Some (reaped, st')"
    "map fst reaped = map waiting_token gone"
    "mset (m_session_ready_for_reaping waiting_store) = mset gone + mset (m_session_ready_for_reaping st')"
    "(\<forall>w \<in> set (m_session_ready_for_reaping waiting_store). 5000000 \<le> 6000000 - m_waiting_since w) \<longrightarrow>
       length gone = (length (m_session_ready_for_reaping waiting_store) + 1) div 2"
    using reap_stale_links_effect [OF ok, of 6000000 5000000] by blast
  have g: "length gone = 2" using r(4) by (simp add: waiting_store_def)
  moreover have "length reaped = length gone" using r(2) by (metis length_map)
  moreover have "3 = length gone + size (mset (m_session_ready_for_reaping st'))"
    using arg_cong [where f = size, OF r(3)] by (simp add: waiting_store_def)
  ultimately show ?thesis using r(1) by auto
qed

lemma check_links_dangling:
  "p \<in> set ps \<Longrightarrow> the_session p h = None \<Longrightarrow> check_links_loop last_sent unacked ps h = None"
  by (induction ps) (auto split: Option.bind_splits)

lemma on_check_links_dangling:
  "isActive p (m_session_store h) \<Longrightarrow> the_session p h = None \<Longrightarrow> on_check_links last_sent unacked h = None"
  by (simp add: on_check_links_def check_links_dangling isActive_def)

text \<open>C33. When the map server reports that a client has left while the client's link to the game service is
  still up, the session is reaped but stays registered as active: the next check of the links
  follows a pointer to a session that is gone.\<close>

theorem reaped_session_stays_active:
  fixes e :: "'addr game_env"
  assumes "store_ok (m_session_store h)" "waiting_ok (m_session_store h)"
    "map_of (m_token_to_session (m_session_store h)) token = Some p" "isActive p (m_session_store h)"
    "m_session_ready_for_reaping (m_session_store h) = []"
    "link_is_stale_if_disconnected_for \<le> later - now"
  shows "\<exists>h1 out1 h2 out2. dispatch_game e now (ClientDisconnectedMessage token c) h = Some (h1, out1) \<and>
    handler_reap_stale_links later h1 = Some (h2, out2 :: 'addr game_out list) \<and>
    (on_check_links last_sent unacked h2 :: 'addr game_result) = None"
proof -
  let ?st = "m_session_store h"
  obtain x where x: "sessions ?st p = Some x" using store_ok_found [OF assms(1,3)] by blast
  define st1 where "st1 = mark_session_for_reaping now p token ''GameHandler: disconnected from child server''
    (set_session p (x\<lparr>is_connected_to_map_server_id := 0, is_connected_to_map_instance_id := 0\<rparr>) ?st)"
  let ?h1 = "h\<lparr>m_session_store := st1\<rparr>"
  have h1: "dispatch_game e now (ClientDisconnectedMessage token c) h = Some (?h1, [GlobalClientDisconnected token c])"
    using assms(3) x by (simp add: on_client_disconnected_from_other_server_def session_from_token_def the_session_def Let_def st1_def)
  have w1: "m_session_ready_for_reaping st1 = [\<lparr>m_waiting_since = now, m_session = p, waiting_token = token\<rparr>]"
    "m_token_to_session st1 = m_token_to_session ?st" "m_active_sessions st1 = m_active_sessions ?st"
    using assms(5) by (simp_all add: st1_def mark_session_for_reaping_def marked_for_reaping_def set_session_def)
  have "service_ok ?h1"
    using service_ok_dispatch [OF _ h1] assms(1) by (simp add: service_ok_def)
  then have ok: "store_ok st1" "waiting_ok st1" using w1 assms(3) by (simp_all add: service_ok_def waiting_ok_def)
  from reap_loop_effect [OF ok, of later link_is_stale_if_disconnected_for 0 "[]"]
  obtain gone reaped st' where r: "reap_stale_links later link_is_stale_if_disconnected_for st1 = Some (reaped, st')"
    "mset (m_session_ready_for_reaping st1) = mset gone + mset (m_session_ready_for_reaping st')"
    "\<forall>q. sessions st' q = (if q \<in> m_session ` set gone then None else sessions st1 q)"
    "m_active_sessions st' = m_active_sessions st1"
    "(\<forall>w \<in> set (m_session_ready_for_reaping st1). link_is_stale_if_disconnected_for \<le> later - m_waiting_since w) \<longrightarrow>
       length gone = (length (m_session_ready_for_reaping st1) - 0 + 1) div 2"
    unfolding reap_stale_links_def append_Nil by blast
  have "length gone = 1" using r(5) assms(6) w1(1) by simp
  then have "gone = [\<lparr>m_waiting_since = now, m_session = p, waiting_token = token\<rparr>]"
    using r(2) w1(1) by (cases gone) (auto simp: add_mset_eq_single)
  then have "the_session p (?h1\<lparr>m_session_store := st'\<rparr>) = None" using r(3) by (simp add: the_session_def)
  moreover have "isActive p st'" using r(4) w1(3) assms(4) by (simp add: isActive_def)
  ultimately have "(on_check_links last_sent unacked (?h1\<lparr>m_session_store := st'\<rparr>) :: 'addr game_result) = None"
    by (intro on_check_links_dangling [of p]) simp_all
  moreover have "handler_reap_stale_links later ?h1 = Some (?h1\<lparr>m_session_store := st'\<rparr>, reap_out reaped)"
    using r(1) by (simp add: handler_reap_stale_links_def)
  ultimately show ?thesis using h1 by blast
qed

theorem reaped_session_stays_active_witness:
  "\<exists>h1 out1 h2 out2. dispatch_game example_env 0 (ClientDisconnectedMessage 7 3)
      (example_handler\<lparr>m_session_store := waiting_store\<lparr>m_session_ready_for_reaping := [], m_active_sessions := [1]\<rparr>\<rparr>) = Some (h1, out1) \<and>
    handler_reap_stale_links 5000000 h1 = Some (h2, out2 :: nat game_out list) \<and>
    (on_check_links (\<lambda>_. 0) (\<lambda>_. 0) h2 :: nat game_result) = None"
proof -
  have "dom (sessions waiting_store) = {1, 2, 3}" by (auto simp: waiting_store_def dom_def)
  then show ?thesis
    by (intro reaped_session_stays_active [where p = 1])
      (auto simp: store_ok_def tokens_ok_def waiting_ok_def waiting_store_def new_store_def isActive_def
        link_is_stale_if_disconnected_for_def)
qed

section \<open>Cookies\<close>

text \<open>The cookie depends on the address and the account only. A client that is announced again under a
  new token, while the first announcement is still open, is therefore admitted under the old
  token.\<close>

theorem second_announcement_keeps_token:
  fixes e :: "'addr game_env" and client_id :: u32 and addr :: 'addr
  defines "cookie \<equiv> create_cookie (inet_hash e) addr (ucast client_id)"
  assumes "expected_login e token addr client_id lnk h" "token' \<noteq> token"
    "map_of (m_token_to_session (m_session_store h)) token' = None"
  shows "\<exists>h'. run_events e [(t1, ExpectClientRequest token addr client_id access),
        (t2, ExpectClientRequest token' addr client_id access), (t3, UpdateServer lnk supported_version cookie)] h =
      Some (h', [[AuthExpectClientResponse client_id cookie (server_id e) token],
        [AuthExpectClientResponse client_id cookie (server_id e) token'],
        [DbGameAccountRequest client_id (getMaxCharacterSlots e) True token]]) \<and>
    link_token h' lnk = token"
proof -
  let ?st = "m_session_store h" and ?f = "\<lambda>sess. m_cookie sess = cookie"
  let ?new = "\<lparr>m_cookie = cookie, m_expected_since = t1, expect_token = token\<rparr>"
  have new: "map_of (m_token_to_session ?st) token = None" "token \<noteq> 0" "token \<noteq> not_expected"
    and c: "\<forall>c \<in> set (m_session_expecting_clients ?st). \<not> ?f c"
    using assms(2) unfolding expected_login_def cookie_def by blast+
  have find: "find ?f (m_session_expecting_clients ?st @ [?new]) = Some ?new"
    using c by (rule find_snoc) simp
  show ?thesis
    using new c find assms(3,4)
    by (auto simp: on_expect_client_def create_or_reuse_session_for_def create_session_def has_session_for_def
        expect_client_session_def Let_def set_session_def on_update_server_def connected_client_def
        session_from_token_def set_link_token_def mark_session_for_reaping_def marked_for_reaping_def
        cookie_def [symmetric] update_conv')
qed

theorem second_announcement_keeps_token_witness:
  "\<exists>h' outs. run_events example_env [(1, ExpectClientRequest 5 6 9 2), (2, ExpectClientRequest 8 6 9 2),
     (3, UpdateServer 3 supported_version (create_cookie (inet_hash example_env) 6 9))] example_handler = Some (h', outs) \<and>
     link_token h' 3 = 5"
  using second_announcement_keeps_token [OF example_login, of 8 1 2 2 3]
  by (auto simp: example_handler_def new_store_def)

section \<open>Deleting a character\<close>

text \<open>A request to delete a character is passed to the database only if the name is the one in that
  slot, otherwise the client gets an error. When the database has answered, exactly that slot is
  empty, the client is told and the mail of the character is dealt with.\<close>

theorem delete_character_flow:
  assumes "link_session lnk h = Some p" "the_session p h = Some x" "lnk \<noteq> 0"
    "get_character (m_game_account x) (unat idx) = Some c"
  shows "dispatch_game e now (DeleteCharacter lnk idx n) h = Some (h,
      if m_name c = n then [DbRemoveCharacterRequest (m_game_server_acc_id (m_game_account x)) (m_slot_idx c) (link_token h lnk)]
      else [GameEntryError lnk NameNotTheSame]) \<and>
    (\<exists>h' x'. dispatch_game e later (RemoveCharacterResponse (link_token h lnk) (int (unat idx))) h =
        Some (h', [DeleteAcknowledged lnk, DbEmailUpdateOnCharDelete (m_db_id c)]) \<and>
      the_session p h' = Some x' \<and> length (m_characters (m_game_account x')) = length (m_characters (m_game_account x)) \<and>
      (\<forall>i < length (m_characters (m_game_account x)).
         if i = unat idx then character_isEmpty (m_characters (m_game_account x') ! i)
         else m_characters (m_game_account x') ! i = m_characters (m_game_account x) ! i))"
proof -
  let ?a = "m_game_account x"
  let ?x = "x\<lparr>m_game_account := ?a\<lparr>m_characters := (m_characters ?a)[unat idx := character_reset c]\<rparr>\<rparr>"
  have l: "map_of (m_token_to_session (m_session_store h)) (link_token h lnk) = Some p" "m_link x = lnk"
    using assms(1,2) by (auto simp: link_session_def session_from_link_def the_session_def split: Option.bind_splits if_splits)
  have idx: "unat idx < length (m_characters ?a)" "c = m_characters ?a ! unat idx"
    using assms(4) by (auto simp: get_character_def split: if_splits)
  have "dispatch_game e later (RemoveCharacterResponse (link_token h lnk) (int (unat idx))) h =
      Some (put_session p ?x h, [DeleteAcknowledged lnk, DbEmailUpdateOnCharDelete (m_db_id c)])"
    using l assms(2-4) by (simp add: on_character_deleted_def event_session_def session_from_event_def to_link_def Let_def)
  moreover have "the_session p (put_session p ?x h) = Some ?x"
    by (simp add: the_session_def put_session_def)
  ultimately show ?thesis using assms idx(1)
    by (simp add: on_delete_character_def nth_list_update character_isEmpty_def character_reset_def equal_ignoring_case_def)
qed

definition example_character :: game_character where
  "example_character = \<lparr>m_name = [72, 105], m_serialized_costume_data = [], m_serialized_chardata = [],
     m_serialized_entity_data = [1], m_serialized_player_data = [], m_db_id = 4, char_account_id = 2, m_slot_idx = 0\<rparr>"

definition playing_handler :: game_handler where
  "playing_handler = \<lparr>m_session_store = new_store\<lparr>m_token_to_session := [(7, 1)], next_session := 2,
     sessions := [1 \<mapsto> blank_session\<lparr>m_link := 3, m_game_account :=
       \<lparr>m_game_server_acc_id = 2, m_max_slots = 1, m_characters = [example_character]\<rparr>\<rparr>]\<rparr>, link_token = (\<lambda>_. 7)\<rparr>"

theorem delete_character_flow_witness:
  "dispatch_game example_env 0 (DeleteCharacter 3 0 [72]) playing_handler = Some (playing_handler, [GameEntryError 3 NameNotTheSame]) \<and>
   dispatch_game example_env 0 (DeleteCharacter 3 0 [72, 105]) playing_handler = Some (playing_handler, [DbRemoveCharacterRequest 2 0 7])"
proof -
  let ?x = "blank_session\<lparr>m_link := 3, m_game_account :=
    \<lparr>m_game_server_acc_id = 2, m_max_slots = 1, m_characters = [example_character]\<rparr>\<rparr>"
  have p: "link_session 3 playing_handler = Some 1" "the_session 1 playing_handler = Some ?x"
    by (simp_all add: link_session_def session_from_link_def the_session_def playing_handler_def new_store_def)
  have g: "get_character (m_game_account ?x) (unat (0 :: u8)) = Some example_character"
    by (simp add: get_character_def)
  show ?thesis
    using delete_character_flow [OF p _ g, of example_env 0 "[72]"] delete_character_flow [OF p _ g, of example_env 0 "[72, 105]"]
    by (simp add: example_character_def playing_handler_def)
qed
end
