(* ===== verification/Handler_Locator.thy ===== *)
theory Handler_Locator
  imports Prelude
begin

text \<open>
  The registry through which the services find each other, \<open>HandlerLocator\<close> of
  \<open>Common/Servers/HandlerLocator.h\<close>. An event processor is a number, a null pointer is \<open>None\<close>; the
  parameters are bytes, as in the code.
\<close>

type_synonym handler = "nat option"

record handler_locator =
  m_db_sync_handler :: handler
  m_auth_handler :: handler
  m_email_handler :: handler
  m_friend_handler :: handler
  m_team_handler :: handler
  m_game_servers :: "handler list"
  m_map_servers :: "handler list"
  m_game_db_servers :: "handler list"
  m_map_instances :: "handler list list"

definition no_handlers :: handler_locator where
  "no_handlers = \<lparr>m_db_sync_handler = None, m_auth_handler = None, m_email_handler = None, m_friend_handler = None,
     m_team_handler = None, m_game_servers = [], m_map_servers = [], m_game_db_servers = [], m_map_instances = []\<rparr>"

text \<open>\<open>resize\<close> of a deque: new places get the default value.\<close>

definition deque_resize :: "'a \<Rightarrow> nat \<Rightarrow> 'a list \<Rightarrow> 'a list" where
  "deque_resize d n xs = take n xs @ replicate (n - length xs) d"

definition deque_set :: "'a \<Rightarrow> nat \<Rightarrow> 'a \<Rightarrow> 'a list \<Rightarrow> 'a list" where
  "deque_set d i x xs = (if i \<ge> length xs then deque_resize d (i + 1) xs else xs)[i := x]"

definition deque_get :: "u8 \<Rightarrow> handler list \<Rightarrow> handler" where
  "deque_get i xs = (if unat i \<ge> length xs then None else xs ! unat i)"

definition setAuthDB_Handler :: "handler \<Rightarrow> handler_locator \<Rightarrow> handler_locator" where
  "setAuthDB_Handler h l = l\<lparr>m_db_sync_handler := h\<rparr>"

definition setAuth_Handler :: "handler \<Rightarrow> handler_locator \<Rightarrow> handler_locator" where
  "setAuth_Handler h l = l\<lparr>m_auth_handler := h\<rparr>"

definition setEmail_Handler :: "handler \<Rightarrow> handler_locator \<Rightarrow> handler_locator" where
  "setEmail_Handler h l = l\<lparr>m_email_handler := h\<rparr>"

definition setFriend_Handler :: "handler \<Rightarrow> handler_locator \<Rightarrow> handler_locator" where
  "setFriend_Handler h l = l\<lparr>m_friend_handler := h\<rparr>"

definition setTeam_Handler :: "handler \<Rightarrow> handler_locator \<Rightarrow> handler_locator" where
  "setTeam_Handler h l = l\<lparr>m_team_handler := h\<rparr>"

definition getGame_Handler :: "u8 \<Rightarrow> handler_locator \<Rightarrow> handler" where
  "getGame_Handler i l = deque_get i (m_game_servers l)"

definition getGame_DB_Handler :: "u8 \<Rightarrow> handler_locator \<Rightarrow> handler" where
  "getGame_DB_Handler i l = deque_get i (m_game_db_servers l)"

definition setGame_Handler :: "u8 \<Rightarrow> handler \<Rightarrow> handler_locator \<Rightarrow> handler_locator" where
  "setGame_Handler i h l = l\<lparr>m_game_servers := deque_set None (unat i) h (m_game_servers l)\<rparr>"

definition setGame_DB_Handler :: "u8 \<Rightarrow> handler \<Rightarrow> handler_locator \<Rightarrow> handler_locator" where
  "setGame_DB_Handler i h l = l\<lparr>m_game_db_servers := deque_set None (unat i) h (m_game_db_servers l)\<rparr>"

definition getMap_Handler :: "u8 \<Rightarrow> handler_locator \<Rightarrow> handler" where
  "getMap_Handler i l = deque_get i (m_map_servers l)"

definition setMap_Handler :: "u8 \<Rightarrow> handler \<Rightarrow> handler_locator \<Rightarrow> handler_locator" where
  "setMap_Handler i h l = l\<lparr>m_map_servers := deque_set None (unat i) h (m_map_servers l)\<rparr>"

definition getMapInstance_Handler :: "u8 \<Rightarrow> u8 \<Rightarrow> handler_locator \<Rightarrow> handler" where
  "getMapInstance_Handler i subserver_id l =
    (if unat i \<ge> length (m_map_instances l) then None else deque_get subserver_id (m_map_instances l ! unat i))"

definition setMapInstance_Handler :: "u8 \<Rightarrow> u8 \<Rightarrow> handler \<Rightarrow> handler_locator \<Rightarrow> handler_locator" where
  "setMapInstance_Handler i subserver_id h l =
    (let ms = m_map_instances l;
         ms = (if unat i \<ge> length ms then deque_resize [] (unat i + 1) ms else ms)
     in l\<lparr>m_map_instances := ms[unat i := deque_set None (unat subserver_id) h (ms ! unat i)]\<rparr>)"

text \<open>The map instances of a server, by the two bytes the services address them with.\<close>

type_synonym instance_addr = "u8 \<times> u8"

definition registered :: "handler_locator \<Rightarrow> instance_addr \<Rightarrow> bool" where
  "registered l a = (getMapInstance_Handler (fst a) (snd a) l \<noteq> None)"

lemma length_deque_resize [simp]: "length (deque_resize d n xs) = n"
  by (simp add: deque_resize_def)

lemma nth_deque_resize: "i < n \<Longrightarrow> deque_resize d n xs ! i = (if i < length xs then xs ! i else d)"
  by (simp add: deque_resize_def nth_append)

lemma deque_get_set: "deque_get i (deque_set None (unat j) h xs) = (if i = j then h else deque_get i xs)"
  by (auto simp: deque_get_def deque_set_def nth_list_update nth_deque_resize word_unat_eq_iff [symmetric] not_le)

text \<open>What was registered last under a number is what the look-up returns for it, whichever numbers the
  other handlers have and however the tables had to grow; nothing else in the registry changes, and a
  number nothing was registered under yields a null pointer.\<close>

theorem locator_finds_registered:
  "getMapInstance_Handler a b (setMapInstance_Handler c d h l) =
     (if (a, b) = (c, d) then h else getMapInstance_Handler a b l) \<and>
   getGame_Handler a (setGame_Handler c h l) = (if a = c then h else getGame_Handler a l) \<and>
   getMap_Handler a (setMap_Handler c h l) = (if a = c then h else getMap_Handler a l) \<and>
   getGame_DB_Handler a (setGame_DB_Handler c h l) = (if a = c then h else getGame_DB_Handler a l) \<and>
   getMapInstance_Handler a b no_handlers = None"
proof -
  let ?ms = "m_map_instances l"
  let ?ms' = "if unat c \<ge> length ?ms then deque_resize [] (unat c + 1) ?ms else ?ms"
  have len: "unat c < length ?ms'" by simp
  have nth: "deque_get b (?ms' ! i) = (if i < length ?ms then deque_get b (?ms ! i) else None)"
    if "i < length ?ms'" for i
    using that by (auto simp: nth_deque_resize deque_get_def split: if_splits)
  have inst: "getMapInstance_Handler a b (setMapInstance_Handler c d h l) =
      (if (a, b) = (c, d) then h else getMapInstance_Handler a b l)"
  proof (cases "a = c")
    case True
    with len nth [of "unat c"] show ?thesis
      by (simp add: getMapInstance_Handler_def setMapInstance_Handler_def Let_def deque_get_set not_le)
  next
    case False
    then have ne: "unat a \<noteq> unat c" by (simp add: word_unat_eq_iff)
    have "length ?ms \<le> length ?ms'" by simp
    with ne nth [of "unat a"] show ?thesis
      using False by (auto simp: getMapInstance_Handler_def setMapInstance_Handler_def Let_def not_le not_less)
  qed
  moreover have "getMapInstance_Handler a b no_handlers = None"
    by (simp add: getMapInstance_Handler_def no_handlers_def)
  ultimately show ?thesis
    by (simp add: getGame_Handler_def setGame_Handler_def getMap_Handler_def setMap_Handler_def
        getGame_DB_Handler_def setGame_DB_Handler_def deque_get_set)
qed

end
