(* ===== verification/Friend_Handler.thy ===== *)
theory Friend_Handler
  imports Eastl_Set Handler_Locator
begin

text \<open>
  The friends of a player: \<open>Common/GameData/Friend.h\<close> and \<open>Friend.cpp\<close>, and the service that
  keeps track of who is online, \<open>FriendHandlerState\<close> and the handlers of
  \<open>Servers/GameServer/FriendshipService/FriendHandler.h\<close> and \<open>FriendHandler.cpp\<close>.

  \<open>operator[]\<close> of the map of players adds a value-initialised entry for a new key. The messages
  a handler posts are returned in order, each with the map instance it is posted to;
  \<open>HandlerLocator\<close> takes the numbers of server and instance as bytes, and which instances it
  knows is the argument \<open>known\<close>. Posting to an unknown one uses a null pointer.
\<close>

section \<open>Friend lists\<close>

record friend =
  m_online_status :: bool
  f_db_id :: u32
  f_name :: text_bytes
  f_class_idx :: u8
  f_origin_idx :: u8
  f_map_idx :: "32 word"
  f_mapname :: text_bytes

record friends_list =
  m_has_friends :: bool
  m_friends_count :: u32
  m_friends :: "friend list"

definition g_max_friends :: u32 where
  "g_max_friends = 25"

definition no_friends :: friends_list where
  "no_friends = \<lparr>m_has_friends = False, m_friends_count = 0, m_friends = []\<rparr>"

datatype friend_list_status = FRIEND_ADDED | FRIEND_REMOVED | MAX_FRIENDS_REACHED | FRIEND_NOT_FOUND

text \<open>What \<open>addFriend\<close> reads of the target entity; the first member tells whether it has a client.\<close>

record friend_target =
  has_client :: bool
  target_db_id :: u32
  target_name :: text_bytes
  target_class_idx :: u8
  target_origin_idx :: u8
  target_map_idx :: "32 word"

definition addFriend :: "friend_target \<Rightarrow> text_bytes \<Rightarrow> friends_list \<Rightarrow> friend_list_status \<times> friends_list" where
  "addFriend tgt mapname src_data =
    (if m_friends_count src_data \<ge> g_max_friends then (MAX_FRIENDS_REACHED, src_data)
     else
       (let f = \<lparr>m_online_status = has_client tgt, f_db_id = target_db_id tgt, f_name = target_name tgt,
                 f_class_idx = target_class_idx tgt, f_origin_idx = target_origin_idx tgt,
                 f_map_idx = target_map_idx tgt, f_mapname = mapname\<rparr>
        in (FRIEND_ADDED, src_data\<lparr>m_has_friends := True, m_friends_count := m_friends_count src_data + 1,
              m_friends := m_friends src_data @ [f]\<rparr>)))"

text \<open>\<open>find_if\<close> and \<open>erase\<close>: without the first friend of that name.\<close>

fun erase_friend :: "text_bytes \<Rightarrow> friend list \<Rightarrow> friend list option" where
  "erase_friend lower_name [] = None"
| "erase_friend lower_name (f # fs) =
    (if equal_ignoring_case lower_name (f_name f) then Some fs
     else map_option ((#) f) (erase_friend lower_name fs))"

definition removeFriend :: "text_bytes \<Rightarrow> friends_list \<Rightarrow> friend_list_status \<times> friends_list" where
  "removeFriend friend_name src_data =
    (case erase_friend (to_lower friend_name) (m_friends src_data) of
       None \<Rightarrow> (FRIEND_NOT_FOUND, src_data)
     | Some fs \<Rightarrow> (FRIEND_REMOVED, src_data\<lparr>m_friends := fs,
         m_has_friends := (if fs = [] then False else m_has_friends src_data),
         m_friends_count := of_nat (length fs)\<rparr>))"

section \<open>State of the service\<close>

record map_info =
  session_token :: u64
  server_id :: u32
  instance_id :: u32

record player_info =
  m_players_added :: "u32 list"
  m_friends_list :: friends_list
  m_map_info :: map_info
  m_is_online :: bool

type_synonym friend_state = "u32 \<Rightarrow> player_info option"

definition blank_player :: player_info where
  "blank_player = \<lparr>m_players_added = [], m_friends_list = no_friends,
     m_map_info = \<lparr>session_token = 0, server_id = 0, instance_id = 0\<rparr>, m_is_online = False\<rparr>"

definition is_online :: "friend_state \<Rightarrow> u32 \<Rightarrow> bool" where
  "is_online state db_id = (case state db_id of None \<Rightarrow> False | Some p \<Rightarrow> m_is_online p)"

text \<open>\<open>operator[]\<close>, to read an entry and to change it.\<close>

definition entry :: "friend_state \<Rightarrow> u32 \<Rightarrow> player_info" where
  "entry state i = (case state i of None \<Rightarrow> blank_player | Some p \<Rightarrow> p)"

definition change :: "u32 \<Rightarrow> (player_info \<Rightarrow> player_info) \<Rightarrow> friend_state \<Rightarrow> friend_state" where
  "change i f state = state(i \<mapsto> f (entry state i))"

datatype friend_out =
    SendFriendList instance_addr u64 friends_list
  | SendNotifyFriend instance_addr u64 u64

definition instance_of :: "map_info \<Rightarrow> instance_addr" where
  "instance_of m = (ucast (server_id m), ucast (instance_id m))"

type_synonym friend_result = "(friend_state \<times> friend_out list) option"

section \<open>Handlers\<close>

definition send_update_friends_list :: "(instance_addr \<Rightarrow> bool) \<Rightarrow> u32 \<Rightarrow> friend_state \<Rightarrow> friend_result" where
  "send_update_friends_list known char_db_id state =
    (if is_online state char_db_id then
       (let p = entry state char_db_id; tgt = instance_of (m_map_info p) in
        if known tgt then Some (state, [SendFriendList tgt (session_token (m_map_info p)) (m_friends_list p)])
        else None)
     else Some (state, []))"

definition with_status :: "friend_state \<Rightarrow> friends_list \<Rightarrow> friends_list" where
  "with_status state l = l\<lparr>m_friends := map (\<lambda>f. f\<lparr>m_online_status := is_online state (f_db_id f)\<rparr>) (m_friends l)\<rparr>"

fun add_to_friends :: "u32 \<Rightarrow> friend list \<Rightarrow> friend_state \<Rightarrow> friend_state" where
  "add_to_friends char_db_id [] state = state"
| "add_to_friends char_db_id (fr # frs) state =
    add_to_friends char_db_id frs
      (change (f_db_id fr) (\<lambda>p. p\<lparr>m_players_added := Set_insert char_db_id (m_players_added p)\<rparr>) state)"

definition refresh_player_friends :: "(instance_addr \<Rightarrow> bool) \<Rightarrow> u32 \<Rightarrow> friend_state \<Rightarrow> friend_result" where
  "refresh_player_friends known char_db_id state =
    (let state = change char_db_id (\<lambda>p. p) state;
         state = change char_db_id (\<lambda>p. p\<lparr>m_friends_list := with_status state (m_friends_list p)\<rparr>) state
     in send_update_friends_list known char_db_id state)"

definition update_player_friends :: "(instance_addr \<Rightarrow> bool) \<Rightarrow> u32 \<Rightarrow> friends_list \<Rightarrow> friend_state \<Rightarrow> friend_result" where
  "update_player_friends known char_db_id list state =
    (let state = change char_db_id (\<lambda>p. p\<lparr>m_friends_list := list\<rparr>) state;
         state = add_to_friends char_db_id (m_friends list) state;
         state = change char_db_id (\<lambda>p. p\<lparr>m_friends_list := with_status state (m_friends_list p)\<rparr>) state
     in send_update_friends_list known char_db_id state)"

text \<open>The loop of \<open>on_client_connected\<close> over the players who added the character.\<close>

fun notify_adders :: "(instance_addr \<Rightarrow> bool) \<Rightarrow> instance_addr \<Rightarrow> u32 \<Rightarrow> u32 list \<Rightarrow> friend_state \<Rightarrow> friend_result" where
  "notify_adders known inst_tgt char_db_id [] state = Some (state, [])"
| "notify_adders known inst_tgt char_db_id (val # vals) state =
    (if is_online state val then do {
       (state, out) \<leftarrow> refresh_player_friends known val state;
       let token = session_token (m_map_info (entry state char_db_id));
       let friend_token = session_token (m_map_info (entry state val));
       if \<not> known inst_tgt then None
       else do {
         (state, outs) \<leftarrow> notify_adders known inst_tgt char_db_id vals state;
         Some (state, out @ SendNotifyFriend inst_tgt token friend_token # outs) } }
     else notify_adders known inst_tgt char_db_id vals state)"

definition on_client_connected :: "(instance_addr \<Rightarrow> bool) \<Rightarrow> u32 \<Rightarrow> map_info \<Rightarrow> friends_list \<Rightarrow> friend_state \<Rightarrow> friend_result" where
  "on_client_connected known char_db_id info list state =
    do {
      let state = change char_db_id (\<lambda>p. p\<lparr>m_map_info := info, m_is_online := True\<rparr>) state;
      (state, out1) \<leftarrow> notify_adders known (instance_of info) char_db_id (m_players_added (entry state char_db_id)) state;
      (state, out2) \<leftarrow> update_player_friends known char_db_id list state;
      Some (state, out1 @ out2) }"

fun refresh_adders :: "(instance_addr \<Rightarrow> bool) \<Rightarrow> u32 list \<Rightarrow> friend_state \<Rightarrow> friend_result" where
  "refresh_adders known [] state = Some (state, [])"
| "refresh_adders known (val # vals) state =
    do {
      (state, out) \<leftarrow> refresh_player_friends known val state;
      (state, outs) \<leftarrow> refresh_adders known vals state;
      Some (state, out @ outs) }"

definition on_client_disconnected :: "(instance_addr \<Rightarrow> bool) \<Rightarrow> u32 \<Rightarrow> friend_state \<Rightarrow> friend_result" where
  "on_client_disconnected known char_db_id state =
    (let state = change char_db_id (\<lambda>p. p\<lparr>m_is_online := False\<rparr>) state
     in refresh_adders known (m_players_added (entry state char_db_id)) state)"

definition on_friend_added :: "(instance_addr \<Rightarrow> bool) \<Rightarrow> u32 \<Rightarrow> u32 \<Rightarrow> friend \<Rightarrow> friend_state \<Rightarrow> friend_result" where
  "on_friend_added known char_db_id added_id fr state =
    (let state = change added_id (\<lambda>p. p\<lparr>m_players_added := Set_insert char_db_id (m_players_added p)\<rparr>) state;
         state = change char_db_id (\<lambda>p. let l = m_friends_list p in
                   p\<lparr>m_friends_list := l\<lparr>m_has_friends := True, m_friends_count := m_friends_count l + 1,
                                             m_friends := m_friends l @ [fr]\<rparr>\<rparr>) state
     in send_update_friends_list known char_db_id state)"

definition on_friend_removed :: "(instance_addr \<Rightarrow> bool) \<Rightarrow> u32 \<Rightarrow> u32 \<Rightarrow> friend_state \<Rightarrow> friend_result" where
  "on_friend_removed known char_db_id removed_id state =
    (let state = change removed_id (\<lambda>p. p\<lparr>m_players_added := Set_erase char_db_id (m_players_added p)\<rparr>) state;
         state = change char_db_id (\<lambda>p. let l = m_friends_list p;
                     fs = filter (\<lambda>f. f_db_id f \<noteq> removed_id) (m_friends l) in
                   p\<lparr>m_friends_list := l\<lparr>m_friends := fs,
                       m_has_friends := (if fs = [] then False else m_has_friends l),
                       m_friends_count := of_nat (length fs)\<rparr>\<rparr>) state
     in send_update_friends_list known char_db_id state)"

datatype friend_event =
    FriendConnected u32 map_info friends_list
  | ClientDisconnected u32
  | FriendAdded u32 u32 friend
  | FriendRemoved u32 u32
  | OtherEvent

fun dispatch_friend :: "(instance_addr \<Rightarrow> bool) \<Rightarrow> friend_event \<Rightarrow> friend_state \<Rightarrow> friend_result" where
  "dispatch_friend known (FriendConnected c info l) s = on_client_connected known c info l s"
| "dispatch_friend known (ClientDisconnected c) s = on_client_disconnected known c s"
| "dispatch_friend known (FriendAdded c i f) s = on_friend_added known c i f s"
| "dispatch_friend known (FriendRemoved c i) s = on_friend_removed known c i s"
| "dispatch_friend known OtherEvent s = Some (s, [])"

end
