(* ===== verification/Friend_Properties.thy ===== *)
theory Friend_Properties
  imports Friend_Handler
begin

text \<open>
  The properties of friend lists and of the friend service: the bounds of a list, what a player
  who connects is told, and who is not told because of the sets the service keeps.
\<close>

section \<open>Friend lists\<close>

definition friends_ok :: "friends_list \<Rightarrow> bool" where
  "friends_ok l \<longleftrightarrow> length (m_friends l) \<le> 25 \<and> m_friends_count l = of_nat (length (m_friends l)) \<and>
     (m_has_friends l \<longleftrightarrow> m_friends l \<noteq> [])"

lemma erase_friend_length: "erase_friend n fs = Some fs' \<Longrightarrow> Suc (length fs') = length fs"
  by (induction fs arbitrary: fs') (auto split: if_splits)

lemma erase_friend_None: "erase_friend n fs = None \<longleftrightarrow> (\<forall>f \<in> set fs. \<not> equal_ignoring_case n (f_name f))"
  by (induction fs) auto

lemma erase_friend_snoc:
  assumes "\<forall>f \<in> set fs. \<not> equal_ignoring_case n (f_name f)" "equal_ignoring_case n (f_name g)"
  shows "erase_friend n (fs @ [g]) = Some fs"
  using assms by (induction fs) auto

text \<open>C34. A friend list never has more than 25 entries and its counter and flag always agree with it: adding
  is refused exactly when it is full, removing exactly when no friend has the name. Removing the
  friend that was just added, under any capitalisation, restores the list.\<close>

theorem friend_list_bounded:
  assumes "friends_ok l"
  shows "friends_ok (snd (addFriend tgt mapname l)) \<and> friends_ok (snd (removeFriend n l)) \<and>
    (fst (addFriend tgt mapname l) = MAX_FRIENDS_REACHED \<longleftrightarrow> length (m_friends l) = 25) \<and>
    (fst (removeFriend n l) = FRIEND_NOT_FOUND \<longleftrightarrow> (\<forall>f \<in> set (m_friends l). \<not> equal_ignoring_case n (f_name f))) \<and>
    (length (m_friends l) < 25 \<longrightarrow> equal_ignoring_case n (target_name tgt) \<longrightarrow>
       (\<forall>f \<in> set (m_friends l). \<not> equal_ignoring_case n (f_name f)) \<longrightarrow>
       removeFriend n (snd (addFriend tgt mapname l)) = (FRIEND_REMOVED, l))"
proof -
  have len: "length (m_friends l) \<le> 25" and cnt: "m_friends_count l = of_nat (length (m_friends l))"
    using assms by (simp_all add: friends_ok_def)
  have full: "m_friends_count l \<ge> g_max_friends \<longleftrightarrow> length (m_friends l) = 25"
  proof -
    have "unat (m_friends_count l) = length (m_friends l)" using len cnt by (simp add: unat_of_nat)
    with len show ?thesis by (auto simp: g_max_friends_def word_le_nat_alt)
  qed
  have n: "equal_ignoring_case (to_lower n) m \<longleftrightarrow> equal_ignoring_case n m" for m
    by (simp add: equal_ignoring_case_def to_lower_idem)
  have "friends_ok (snd (addFriend tgt mapname l))" using assms full by (auto simp: addFriend_def friends_ok_def)
  moreover have "friends_ok (snd (removeFriend n l))"
    using assms erase_friend_length [of "to_lower n" "m_friends l"]
    by (force simp: removeFriend_def friends_ok_def split: option.splits)
  moreover have "fst (addFriend tgt mapname l) = MAX_FRIENDS_REACHED \<longleftrightarrow> length (m_friends l) = 25"
    using full by (auto simp: addFriend_def Let_def)
  moreover have "fst (removeFriend n l) = FRIEND_NOT_FOUND \<longleftrightarrow> (\<forall>f \<in> set (m_friends l). \<not> equal_ignoring_case n (f_name f))"
    using erase_friend_None [of "to_lower n" "m_friends l"] n by (auto simp: removeFriend_def split: option.splits)
  moreover have "removeFriend n (snd (addFriend tgt mapname l)) = (FRIEND_REMOVED, l)"
    if "length (m_friends l) < 25" "equal_ignoring_case n (target_name tgt)"
      "\<forall>f \<in> set (m_friends l). \<not> equal_ignoring_case n (f_name f)"
  proof -
    let ?f = "\<lparr>m_online_status = has_client tgt, f_db_id = target_db_id tgt, f_name = target_name tgt,
                 f_class_idx = target_class_idx tgt, f_origin_idx = target_origin_idx tgt,
                 f_map_idx = target_map_idx tgt, f_mapname = mapname\<rparr>"
    have "erase_friend (to_lower n) (m_friends l @ [?f]) = Some (m_friends l)"
      using that(2,3) n by (intro erase_friend_snoc) auto
    moreover have "\<not> m_friends_count l \<ge> g_max_friends" using full that(1) by simp
    ultimately show ?thesis using assms cnt
      by (cases l) (simp add: addFriend_def removeFriend_def Let_def friends_ok_def)
  qed
  ultimately show ?thesis by blast
qed

definition example_target :: friend_target where
  "example_target = \<lparr>has_client = True, target_db_id = 4, target_name = [72, 105], target_class_idx = 1,
     target_origin_idx = 2, target_map_idx = 1, \<dots> = ()\<rparr>"

theorem friend_list_bounded_witness:
  "removeFriend [104, 73] (snd (addFriend example_target [] no_friends)) = (FRIEND_REMOVED, no_friends)"
proof -
  have "friends_ok no_friends" by (simp add: friends_ok_def no_friends_def)
  from friend_list_bounded [OF this, of example_target "[]" "[104, 73]"] show ?thesis
    by (simp add: no_friends_def example_target_def equal_ignoring_case_def to_lower_def to_lower_byte_def)
qed

section \<open>The service\<close>

lemma is_online_entry: "is_online s i = m_is_online (entry s i)"
  by (auto simp: is_online_def entry_def blank_player_def split: option.splits)

lemma entry_change: "entry (change i f s) j = (if i = j then f (entry s j) else entry s j)"
  by (simp add: entry_def change_def)

lemma send_update_result:
  "send_update_friends_list known c s = Some (s', out) \<Longrightarrow> s' = s \<and>
   out = (if is_online s c then [SendFriendList (instance_of (m_map_info (entry s c)))
     (session_token (m_map_info (entry s c))) (m_friends_list (entry s c))] else [])"
  by (auto simp: send_update_friends_list_def Let_def split: if_splits)

lemma entry_add_to_friends:
  "\<exists>ps. entry (add_to_friends c fs s) j = (entry s j)\<lparr>m_players_added := ps\<rparr>"
proof (induction fs arbitrary: s)
  case Nil
  then show ?case by (intro exI [of _ "m_players_added (entry s j)"]) simp
next
  case (Cons f fs)
  from Cons.IH [of "change (f_db_id f) (\<lambda>p. p\<lparr>m_players_added := Set_insert c (m_players_added p)\<rparr>) s"]
  show ?case by (auto simp: entry_change split: if_splits)
qed

lemma refresh_entry:
  assumes "refresh_player_friends known c s = Some (s', out)"
  shows "entry s' j = (if j = c then (entry s c)\<lparr>m_friends_list := with_status s (m_friends_list (entry s c))\<rparr> else entry s j)"
proof -
  have "with_status (change c (\<lambda>p. p) s) l = with_status s l" for l
    by (simp add: with_status_def is_online_entry entry_change cong: if_cong)
  with assms show ?thesis
    by (auto simp: refresh_player_friends_def Let_def entry_change dest!: send_update_result)
qed

lemma notify_entry:
  "notify_adders known tgt c vals s = Some (s', out) \<Longrightarrow>
   m_is_online (entry s' j) = m_is_online (entry s j) \<and> m_map_info (entry s' j) = m_map_info (entry s j) \<and>
   m_players_added (entry s' j) = m_players_added (entry s j) \<and>
   (j \<notin> set vals \<longrightarrow> entry s' j = entry s j)"
proof (induction known tgt c vals s arbitrary: s' out rule: notify_adders.induct)
  case (2 known tgt c val vals s)
  show ?case
  proof (cases "is_online s val")
    case False
    with "2.IH"(2) "2.prems" show ?thesis by auto
  next
    case True
    then obtain s1 out1 out2 where s1: "refresh_player_friends known val s = Some (s1, out1)"
      "notify_adders known tgt c vals s1 = Some (s', out2)" "known tgt"
      using "2.prems" by (auto simp: Let_def split: Option.bind_splits if_splits)
    from "2.IH"(1) [OF True s1(1) refl refl refl _ s1(2)] s1(3) refresh_entry [OF s1(1), of j]
    show ?thesis by (auto split: if_splits)
  qed
qed simp

text \<open>A player who connects is registered as online with its map instance, and the last message of the
  handler sends it its friend list, each entry with the status the service has for that friend.\<close>

theorem friend_connected_gets_list:
  assumes "dispatch_friend known (FriendConnected c info l) s = Some (s', out)"
  shows "is_online s' c \<and> m_map_info (entry s' c) = info \<and> m_friends_list (entry s' c) = with_status s' l \<and>
    (\<forall>j. j \<noteq> c \<longrightarrow> is_online s' j = is_online s j) \<and>
    out \<noteq> [] \<and> last out = SendFriendList (instance_of info) (session_token info) (with_status s' l)"
proof -
  let ?s1 = "change c (\<lambda>p. p\<lparr>m_map_info := info, m_is_online := True\<rparr>) s"
  obtain s2 o1 o2 where s2: "notify_adders known (instance_of info) c (m_players_added (entry ?s1 c)) ?s1 = Some (s2, o1)"
    "update_player_friends known c l s2 = Some (s', o2)" "out = o1 @ o2"
    using assms by (auto simp: on_client_connected_def Let_def split: Option.bind_splits)
  let ?s3 = "add_to_friends c (m_friends l) (change c (\<lambda>p. p\<lparr>m_friends_list := l\<rparr>) s2)"
  let ?s4 = "change c (\<lambda>p. p\<lparr>m_friends_list := with_status ?s3 (m_friends_list p)\<rparr>) ?s3"
  have s': "s' = ?s4" "o2 = (if is_online ?s4 c then [SendFriendList (instance_of (m_map_info (entry ?s4 c)))
     (session_token (m_map_info (entry ?s4 c))) (m_friends_list (entry ?s4 c))] else [])"
    using s2(2) send_update_result [of known c ?s4 s' o2] by (simp_all add: update_player_friends_def Let_def)
  have e3: "\<exists>ps. entry ?s3 j = (entry (change c (\<lambda>p. p\<lparr>m_friends_list := l\<rparr>) s2) j)\<lparr>m_players_added := ps\<rparr>" for j
    by (rule entry_add_to_friends)
  have on: "is_online ?s4 j = is_online ?s3 j" "is_online ?s3 j = (j = c \<or> is_online s j)"
    "j = c \<Longrightarrow> m_map_info (entry ?s4 j) = info \<and> m_friends_list (entry ?s3 j) = l" for j
    using e3 [of j] notify_entry [OF s2(1), of j]
    by (cases "j = c"; auto simp: is_online_entry entry_change)+
  then have "is_online ?s4 = is_online ?s3" by (intro ext) simp
  then have st: "with_status ?s4 l = with_status ?s3 l" by (simp add: with_status_def)
  have "m_friends_list (entry ?s4 c) = with_status ?s4 l"
    using on(3) [of c] st by (simp add: entry_change)
  with on [of c] on(1,2) s' s2(3) show ?thesis by auto
qed

text \<open>Of two players who add the same character as a friend, the service remembers only the first one.
  When the character comes online, the friend list of the second is not refreshed.\<close>

theorem second_adder_not_refreshed:
  assumes "m_players_added (entry s c) = []" "a \<noteq> b" "b \<noteq> c"
    "dispatch_friend known (FriendAdded a c fa) s = Some (s1, out1)"
    "dispatch_friend known (FriendAdded b c fb) s1 = Some (s2, out2)"
    "dispatch_friend known (FriendConnected c info l) s2 = Some (s3, out3)"
  shows "m_players_added (entry s2 c) = [a] \<and> is_online s3 c \<and> fb \<in> set (m_friends (m_friends_list (entry s3 b))) \<and>
    m_friends_list (entry s3 b) = m_friends_list (entry s2 b)"
proof -
  have s1: "m_players_added (entry s1 c) = [a]"
    using assms(1,4) by (auto simp: on_friend_added_def Let_def entry_change Set_insert_def dest!: send_update_result)
  have s2: "m_players_added (entry s2 c) = [a]" "fb \<in> set (m_friends (m_friends_list (entry s2 b)))"
    using assms(2,3,5) s1 by (auto simp: on_friend_added_def Let_def entry_change Set_insert_def dest!: send_update_result)
  let ?t1 = "change c (\<lambda>p. p\<lparr>m_map_info := info, m_is_online := True\<rparr>) s2"
  have added: "m_players_added (entry ?t1 c) = [a]" using s2(1) by (simp add: entry_change)
  obtain t2 o1 o2 where t2: "notify_adders known (instance_of info) c [a] ?t1 = Some (t2, o1)"
    "update_player_friends known c l t2 = Some (s3, o2)"
    using assms(6) added by (auto simp: on_client_connected_def Let_def split: Option.bind_splits)
  have b2: "entry t2 b = entry ?t1 b" using notify_entry [OF t2(1), of b] assms(2) by auto
  let ?t3 = "add_to_friends c (m_friends l) (change c (\<lambda>p. p\<lparr>m_friends_list := l\<rparr>) t2)"
  have "s3 = change c (\<lambda>p. p\<lparr>m_friends_list := with_status ?t3 (m_friends_list p)\<rparr>) ?t3"
    using t2(2) send_update_result by (fastforce simp: update_player_friends_def Let_def)
  then have "m_friends_list (entry s3 b) = m_friends_list (entry s2 b)"
    using assms(3) b2 entry_add_to_friends [of c "m_friends l" "change c (\<lambda>p. p\<lparr>m_friends_list := l\<rparr>) t2" b]
    by (auto simp: entry_change)
  with friend_connected_gets_list [OF assms(6)] s2 show ?thesis by simp
qed

definition example_friend :: friend where
  "example_friend = \<lparr>m_online_status = False, f_db_id = 3, f_name = [99], f_class_idx = 0, f_origin_idx = 0,
     f_map_idx = 0, f_mapname = []\<rparr>"

definition example_info :: map_info where
  "example_info = \<lparr>session_token = 9, server_id = 1, instance_id = 1\<rparr>"

lemma example_connect:
  "\<exists>s' out. dispatch_friend (\<lambda>_. True) (FriendConnected 3 info l) s = Some (s', out)"
proof -
  have send: "\<exists>out. send_update_friends_list (\<lambda>_. True) i t = Some (t, out)" for i t
    by (simp add: send_update_friends_list_def Let_def)
  have refresh: "\<exists>t' out. refresh_player_friends (\<lambda>_. True) i t = Some (t', out)" for i t
    unfolding refresh_player_friends_def Let_def using send by blast
  have "\<exists>t' out. notify_adders (\<lambda>_. True) tgt i vals t = Some (t', out)" for tgt i vals t
  proof (induction vals arbitrary: t)
    case (Cons v vals)
    obtain t1 o1 where "refresh_player_friends (\<lambda>_. True) v t = Some (t1, o1)" using refresh by blast
    with Cons.IH [of t1] Cons.IH [of t] show ?case by (auto simp: Let_def)
  qed simp
  then obtain t' o1 where "notify_adders (\<lambda>_. True) (instance_of info) 3
      (m_players_added (entry (change 3 (\<lambda>p. p\<lparr>m_map_info := info, m_is_online := True\<rparr>) s) 3))
      (change 3 (\<lambda>p. p\<lparr>m_map_info := info, m_is_online := True\<rparr>) s) = Some (t', o1)" by blast
  moreover obtain t2 o2 where "update_player_friends (\<lambda>_. True) 3 l t' = Some (t2, o2)"
    unfolding update_player_friends_def Let_def using send by blast
  ultimately show ?thesis by (simp add: on_client_connected_def Let_def)
qed

theorem friend_connected_gets_list_witness:
  "\<exists>s' out. dispatch_friend (\<lambda>_. True) (FriendConnected 3 example_info no_friends) (\<lambda>_. None) = Some (s', out) \<and>
     is_online s' 3 \<and> last out = SendFriendList (1, 1) 9 (with_status s' no_friends)"
proof -
  obtain s' out where s': "dispatch_friend (\<lambda>_. True) (FriendConnected 3 example_info no_friends) (\<lambda>_. None) = Some (s', out)"
    using example_connect by blast
  from friend_connected_gets_list [OF this] s' show ?thesis by (auto simp: example_info_def instance_of_def)
qed

theorem second_adder_not_refreshed_witness:
  "\<exists>s2 s3 out3. m_players_added (entry s2 3) = [1] \<and>
     dispatch_friend (\<lambda>_. True) (FriendConnected 3 example_info no_friends) s2 = Some (s3, out3) \<and>
     is_online s3 3 \<and> example_friend \<in> set (m_friends (m_friends_list (entry s3 2)))"
proof -
  have add: "\<exists>s' out. dispatch_friend (\<lambda>_. True) (FriendAdded i 3 example_friend) s = Some (s', out)" for i s
    by (simp add: on_friend_added_def send_update_friends_list_def Let_def)
  obtain s1 o1 where s1: "dispatch_friend (\<lambda>_. True) (FriendAdded 1 3 example_friend) (\<lambda>_. None) = Some (s1, o1)"
    using add by blast
  obtain s2 o2 where s2: "dispatch_friend (\<lambda>_. True) (FriendAdded 2 3 example_friend) s1 = Some (s2, o2)"
    using add by blast
  obtain s3 o3 where s3: "dispatch_friend (\<lambda>_. True) (FriendConnected 3 example_info no_friends) s2 = Some (s3, o3)"
    using example_connect by blast
  have "m_players_added (entry (\<lambda>_. None) 3) = []" by (simp add: entry_def blank_player_def)
  from second_adder_not_refreshed [OF this _ _ s1 s2 s3] s3 show ?thesis by auto
qed

end
