(* ===== verification/Ordered_Map.thy ===== *)
theory Ordered_Map
  imports Prelude
begin

text \<open>
  \<open>Map\<close> of \<open>Common/Containers/Map.h\<close>, an \<open>eastl::map\<close> ordered by \<open>less\<close>, as the list of its entries in
  the order of the keys, which is the order of iteration. \<open>map_of\<close> is \<open>find\<close>.
\<close>

type_synonym ('k, 'v) ordered_map = "('k \<times> 'v) list"

fun map_put :: "'k::linorder \<Rightarrow> 'v \<Rightarrow> ('k, 'v) ordered_map \<Rightarrow> ('k, 'v) ordered_map" where
  "map_put k v [] = [(k, v)]"
| "map_put k v ((k', v') # m) =
    (if k < k' then (k, v) # (k', v') # m else if k = k' then (k, v) # m else (k', v') # map_put k v m)"

definition map_erase :: "'k \<Rightarrow> ('k, 'v) ordered_map \<Rightarrow> ('k, 'v) ordered_map" where
  "map_erase k m = filter (\<lambda>e. fst e \<noteq> k) m"

text \<open>\<open>operator[]\<close>: the entry, made with the value \<open>d\<close> when there is none.\<close>

definition map_get :: "'v \<Rightarrow> 'k \<Rightarrow> ('k, 'v) ordered_map \<Rightarrow> 'v" where
  "map_get d k m = (case map_of m k of None \<Rightarrow> d | Some v \<Rightarrow> v)"

definition map_change :: "'v \<Rightarrow> 'k::linorder \<Rightarrow> ('v \<Rightarrow> 'v) \<Rightarrow> ('k, 'v) ordered_map \<Rightarrow> ('k, 'v) ordered_map" where
  "map_change d k f m = map_put k (f (map_get d k m)) m"

definition map_ok :: "('k::linorder, 'v) ordered_map \<Rightarrow> bool" where
  "map_ok m \<longleftrightarrow> sorted_wrt (<) (map fst m)"

lemma map_of_put [simp]: "map_of (map_put k v m) = (map_of m)(k \<mapsto> v)"
  by (induction m) (auto simp: fun_eq_iff)

lemma map_of_erase [simp]: "map_of (map_erase k m) = (map_of m)(k := None)"
  by (induction m) (auto simp: map_erase_def fun_eq_iff)

lemma map_of_change [simp]: "map_of (map_change d k f m) = (map_of m)(k \<mapsto> f (map_get d k m))"
  by (simp add: map_change_def)

lemma map_get_put: "map_get d j (map_put k v m) = (if j = k then v else map_get d j m)"
  by (simp add: map_get_def)

lemma map_get_erase: "map_get d j (map_erase k m) = (if j = k then d else map_get d j m)"
  by (simp add: map_get_def)

lemma map_get_change: "map_get d j (map_change d k f m) = (if j = k then f (map_get d k m) else map_get d j m)"
  by (simp add: map_change_def map_get_put)

lemma set_map_put: "fst ` set (map_put k v m) = insert k (fst ` set m)"
  by (induction k v m rule: map_put.induct) (simp_all add: insert_commute)

lemma map_ok_put: "map_ok m \<Longrightarrow> map_ok (map_put k v m)"
proof (induction m)
  case (Cons e m)
  obtain k' v' where e: "e = (k', v')" by fastforce
  have "\<forall>y \<in> set (map fst (map_put k v m)). k' < y" if "k' < k"
    using Cons.prems that set_map_put [of k v m] by (auto simp: e map_ok_def)
  with Cons show ?case by (fastforce simp: e map_ok_def)
qed (simp add: map_ok_def)

lemma map_ok_change: "map_ok m \<Longrightarrow> map_ok (map_change d k f m)"
  by (simp add: map_change_def map_ok_put)

lemma map_ok_erase: "map_ok m \<Longrightarrow> map_ok (map_erase k m)"
  by (auto simp: map_ok_def map_erase_def sorted_wrt_map sorted_wrt_filter)

lemma map_ok_Nil [simp]: "map_ok []"
  by (simp add: map_ok_def)

lemma map_ok_distinct: "map_ok m \<Longrightarrow> distinct (map fst m)"
  by (simp add: map_ok_def strict_sorted_iff)

lemma map_ok_in_set: "map_ok m \<Longrightarrow> (k, v) \<in> set m \<longleftrightarrow> map_of m k = Some v"
  by (simp add: map_ok_distinct)

end
