(* ===== verification/Email_Handler.thy ===== *)
theory Email_Handler
  imports Eastl_Set Ordered_Map Handler_Locator
begin

text \<open>
  The e-mail service, \<open>EmailHandler\<close> of \<open>Servers/GameServer/EmailService/EmailHandler.h\<close> and
  \<open>EmailHandler.cpp\<close>: which characters are connected and where, all stored mails, and what every
  connected character has sent and received.

  Mails are kept by the database as JSON text, written and read by the library cereal: the members
  \<open>print_mail\<close> and \<open>parse_mail\<close> of the environment, the latter \<open>None\<close> where cereal throws. A local
  \<open>EmailData\<close> has no initial time stamp; its value is the member \<open>stale_timestamp\<close>. The result \<open>None\<close>
  stands for an exception or for posting to a handler that is not registered, a null pointer.
\<close>

section \<open>Data\<close>

record email_data =
  m_sender_id :: u32
  m_recipient_id :: u32
  m_sender_name :: text_bytes
  m_subject :: text_bytes
  m_message :: text_bytes
  m_timestamp :: u32
  m_is_read_by_recipient :: bool

record email_header =
  h_email_id :: u32
  h_sender_name :: text_bytes
  h_subject :: text_bytes
  h_timestamp :: u32

record email_draft =
  d_sender_id :: u32
  d_sender_name :: text_bytes
  d_recipient_name :: text_bytes
  d_subject :: text_bytes
  d_message :: text_bytes
  d_timestamp :: u32

record player_email_state =
  m_sent_email_ids :: "u32 list"
  m_received_email_ids :: "u32 list"
  m_unread_email_ids :: "u32 list"

record client_session_data =
  c_session_token :: u64
  c_server_id :: u32
  c_instance_id :: u32
  m_email_state :: player_email_state

record email_handler =
  m_db_handler :: bool
  m_stored_client_datas :: "(u32, client_session_data) ordered_map"
  m_stored_email_datas :: "(u32, email_data) ordered_map"

text \<open>The members of a mail that are inside the text; the two ids are not.\<close>

record email_env =
  known_instance :: "instance_addr \<Rightarrow> bool"
  print_mail :: "text_bytes \<times> text_bytes \<times> text_bytes \<times> u32 \<times> bool \<Rightarrow> text_bytes"
  parse_mail :: "text_bytes \<Rightarrow> (text_bytes \<times> text_bytes \<times> text_bytes \<times> u32 \<times> bool) option"
  stale_timestamp :: u32

definition blank_mail :: email_data where
  "blank_mail = \<lparr>m_sender_id = 0, m_recipient_id = 0, m_sender_name = [], m_subject = [], m_message = [],
     m_timestamp = 0, m_is_read_by_recipient = False\<rparr>"

definition blank_email_state :: player_email_state where
  "blank_email_state = \<lparr>m_sent_email_ids = [], m_received_email_ids = [], m_unread_email_ids = []\<rparr>"

definition blank_client :: client_session_data where
  "blank_client = \<lparr>c_session_token = 0, c_server_id = 0, c_instance_id = 0, m_email_state = blank_email_state\<rparr>"

definition mail_at :: "u32 \<Rightarrow> email_handler \<Rightarrow> email_data" where
  "mail_at i h = map_get blank_mail i (m_stored_email_datas h)"

definition client_at :: "u32 \<Rightarrow> email_handler \<Rightarrow> client_session_data" where
  "client_at i h = map_get blank_client i (m_stored_client_datas h)"

definition change_mail :: "u32 \<Rightarrow> (email_data \<Rightarrow> email_data) \<Rightarrow> email_handler \<Rightarrow> email_handler" where
  "change_mail i f h = h\<lparr>m_stored_email_datas := map_change blank_mail i f (m_stored_email_datas h)\<rparr>"

definition change_client :: "u32 \<Rightarrow> (client_session_data \<Rightarrow> client_session_data) \<Rightarrow> email_handler \<Rightarrow> email_handler" where
  "change_client i f h = h\<lparr>m_stored_client_datas := map_change blank_client i f (m_stored_client_datas h)\<rparr>"

definition change_ids :: "u32 \<Rightarrow> (player_email_state \<Rightarrow> player_email_state) \<Rightarrow> email_handler \<Rightarrow> email_handler" where
  "change_ids i f = change_client i (\<lambda>c. c\<lparr>m_email_state := f (m_email_state c)\<rparr>)"

definition has_client_data :: "u32 \<Rightarrow> email_handler \<Rightarrow> bool" where
  "has_client_data i h = (map_of (m_stored_client_datas h) i \<noteq> None)"

section \<open>Messages\<close>

datatype email_out =
    GetEmailsRequest
  | FillEmailRecipientIdRequest email_draft
  | EmailCreateRequest u32 u32 text_bytes text_bytes
  | EmailMarkAsRead u32 text_bytes
  | EmailRemove u32
  | EmailCreateStatus instance_addr bool text_bytes u64
  | EmailHeaderToClient instance_addr email_header u64
  | EmailHeadersToClient instance_addr "email_header list" "32 word" u64
  | EmailHeaderResponse instance_addr "email_header list" u64
  | EmailWasReadByRecipient instance_addr text_bytes u64
  | EmailReadResponse instance_addr u32 text_bytes text_bytes u64

datatype email_event =
    EmailHeaderRequest u32 u64
  | EmailReadRequest u32
  | EmailSend email_draft
  | EmailDelete u32
  | EmailCreateResponse u32 u32 u32 text_bytes text_bytes
  | GetEmailsResponse "(u32 \<times> u32 \<times> u32 \<times> text_bytes) list"
  | FillEmailRecipientIdResponse u32 email_draft
  | FillEmailRecipientIdError u32 text_bytes
  | EmailClientConnected u64 u32 u32 u32
  | EmailClientDisconnected u32
  | OtherEmailEvent

type_synonym email_result = "(email_handler \<times> email_out list) option"

definition instance_of_client :: "client_session_data \<Rightarrow> instance_addr" where
  "instance_of_client c = (ucast (c_server_id c), ucast (c_instance_id c))"

text \<open>\<open>putq\<close> on the map instance of a client and on the database handler.\<close>

definition to_instance :: "email_env \<Rightarrow> client_session_data \<Rightarrow> (instance_addr \<Rightarrow> email_out) \<Rightarrow> email_out list option" where
  "to_instance env c ev =
    (if known_instance env (instance_of_client c) then Some [ev (instance_of_client c)] else None)"

definition to_db :: "email_handler \<Rightarrow> email_out \<Rightarrow> email_out list option" where
  "to_db h ev = (if m_db_handler h then Some [ev] else None)"

section \<open>Texts\<close>

definition serialize_mail :: "email_env \<Rightarrow> email_data \<Rightarrow> text_bytes" where
  "serialize_mail env m =
    print_mail env (m_sender_name m, m_subject m, m_message m, m_timestamp m, m_is_read_by_recipient m)"

text \<open>\<open>serializeFromQString\<close> into a fresh local variable; an empty text is skipped.\<close>

definition deserialize_mail :: "email_env \<Rightarrow> text_bytes \<Rightarrow> email_data option" where
  "deserialize_mail env src =
    (if src = [] then Some (blank_mail\<lparr>m_timestamp := stale_timestamp env\<rparr>)
     else do {
       (sender, subject, message, time, is_read) \<leftarrow> parse_mail env src;
       Some (blank_mail\<lparr>m_sender_name := sender, m_subject := subject, m_message := message,
         m_timestamp := time, m_is_read_by_recipient := is_read\<rparr>) })"

definition ascii :: "string \<Rightarrow> text_bytes" where
  "ascii = map of_char"

definition read_notice :: "text_bytes \<Rightarrow> text_bytes" where
  "read_notice subject = ascii ''Your email with subject '' @ takeWhile (\<lambda>c. c \<noteq> 0) subject @
     ascii '' has been read by its recipient!''"

section \<open>Handlers\<close>

definition header_of :: "u32 \<Rightarrow> email_data \<Rightarrow> email_header" where
  "header_of i m = \<lparr>h_email_id = i, h_sender_name = m_sender_name m, h_subject = m_subject m, h_timestamp = m_timestamp m\<rparr>"

text \<open>\<open>fill_email_state\<close>: the body of its loop and the loop over the stored mails.\<close>

definition note_mail :: "u32 \<Rightarrow> u32 \<Rightarrow> email_data \<Rightarrow> player_email_state \<Rightarrow> player_email_state" where
  "note_mail char_id i m st =
    (let st = (if m_sender_id m = char_id then st\<lparr>m_sent_email_ids := Set_insert i (m_sent_email_ids st)\<rparr> else st);
         st = (if m_recipient_id m = char_id then st\<lparr>m_received_email_ids := Set_insert i (m_received_email_ids st)\<rparr> else st)
     in if m_recipient_id m = char_id \<and> \<not> m_is_read_by_recipient m
        then st\<lparr>m_unread_email_ids := Set_insert i (m_unread_email_ids st)\<rparr> else st)"

fun fill_email_state :: "u32 \<Rightarrow> (u32, email_data) ordered_map \<Rightarrow> player_email_state \<Rightarrow> player_email_state" where
  "fill_email_state char_id [] st = st"
| "fill_email_state char_id ((i, m) # ms) st = fill_email_state char_id ms (note_mail char_id i m st)"

fun headers_loop :: "u32 list \<Rightarrow> email_handler \<Rightarrow> email_header list \<times> 32 word \<times> email_handler" where
  "headers_loop [] h = ([], 0, h)"
| "headers_loop (i # is) h =
    (let h = change_mail i (\<lambda>m. m) h; m = mail_at i h;
         (hs, n, h) = headers_loop is h
     in (header_of i m # hs, (if m_is_read_by_recipient m then n else n + 1), h))"

definition fill_email_headers :: "u32 \<Rightarrow> email_handler \<Rightarrow> email_header list \<times> 32 word \<times> email_handler" where
  "fill_email_headers char_id h =
    (let h = change_client char_id (\<lambda>c. c) h
     in headers_loop (m_received_email_ids (m_email_state (client_at char_id h))) h)"

definition on_email_header :: "email_env \<Rightarrow> u32 \<Rightarrow> u64 \<Rightarrow> email_handler \<Rightarrow> email_result" where
  "on_email_header env user_id token h =
    (let (hs, n, h) = fill_email_headers user_id h; h = change_client user_id (\<lambda>c. c) h
     in do {
       out \<leftarrow> to_instance env (client_at user_id h) (\<lambda>a. EmailHeaderResponse a hs token);
       Some (h, out) })"

definition on_email_create_response :: "email_env \<Rightarrow> u32 \<Rightarrow> u32 \<Rightarrow> u32 \<Rightarrow> text_bytes \<Rightarrow> text_bytes \<Rightarrow> email_handler \<Rightarrow> email_result" where
  "on_email_create_response env email_id sender_id recipient_id recipient_name cerealized h =
    do {
      email \<leftarrow> deserialize_mail env cerealized;
      let h = change_mail email_id (\<lambda>_. email) h;
      let h = change_mail email_id (\<lambda>m. m\<lparr>m_sender_id := sender_id\<rparr>) h;
      let h = change_mail email_id (\<lambda>m. m\<lparr>m_recipient_id := recipient_id\<rparr>) h;
      let h = change_ids sender_id (\<lambda>e. e\<lparr>m_sent_email_ids := Set_insert email_id (m_sent_email_ids e)\<rparr>) h;
      out1 \<leftarrow> to_instance env (client_at sender_id h)
               (\<lambda>a. EmailCreateStatus a True recipient_name (c_session_token (client_at sender_id h)));
      if \<not> has_client_data recipient_id h then Some (h, out1)
      else do {
        let h = change_ids recipient_id (\<lambda>e. e\<lparr>m_received_email_ids := Set_insert email_id (m_received_email_ids e)\<rparr>) h;
        let h = change_ids recipient_id (\<lambda>e. e\<lparr>m_unread_email_ids := Set_insert email_id (m_unread_email_ids e)\<rparr>) h;
        out2 \<leftarrow> to_instance env (client_at recipient_id h)
                 (\<lambda>a. EmailHeaderToClient a (header_of email_id email) (c_session_token (client_at recipient_id h)));
        Some (h, out1 @ out2) } }"

fun on_get_emails_response :: "email_env \<Rightarrow> (u32 \<times> u32 \<times> u32 \<times> text_bytes) list \<Rightarrow> email_handler \<Rightarrow> email_result" where
  "on_get_emails_response env [] h = Some (h, [])"
| "on_get_emails_response env ((email_id, sender_id, recipient_id, cerealized) # ds) h =
    do {
      email \<leftarrow> deserialize_mail env cerealized;
      let email = email\<lparr>m_sender_id := sender_id\<rparr>;
      let email = email\<lparr>m_recipient_id := recipient_id\<rparr>;
      on_get_emails_response env ds (change_mail email_id (\<lambda>_. email) h) }"

definition on_email_read :: "email_env \<Rightarrow> u32 \<Rightarrow> email_handler \<Rightarrow> email_result" where
  "on_email_read env email_id h =
    do {
      let h = change_mail email_id (\<lambda>m. m\<lparr>m_is_read_by_recipient := True\<rparr>) h;
      let recipient = m_recipient_id (mail_at email_id h);
      let h = change_ids recipient (\<lambda>e. e\<lparr>m_received_email_ids := Set_erase email_id (m_received_email_ids e)\<rparr>) h;
      let h = (if m_sender_id (mail_at email_id h) = 0
               then change_mail email_id (\<lambda>m. m\<lparr>m_sender_name := ascii ''DELETED CHARACTER''\<rparr>) h else h);
      let email = mail_at email_id h;
      out1 \<leftarrow> to_db h (EmailMarkAsRead email_id (serialize_mail env email));
      out2 \<leftarrow> (if has_client_data (m_sender_id email) h
                then to_instance env (client_at (m_sender_id email) h)
                  (\<lambda>a. EmailWasReadByRecipient a (read_notice (m_subject email)) (c_session_token (client_at (m_sender_id email) h)))
                else Some []);
      let h = change_client recipient (\<lambda>c. c) h;
      out3 \<leftarrow> to_instance env (client_at recipient h)
                (\<lambda>a. EmailReadResponse a email_id (m_message email) (m_sender_name email) (c_session_token (client_at recipient h)));
      Some (h, out1 @ out2 @ out3) }"

definition on_email_send :: "email_draft \<Rightarrow> email_handler \<Rightarrow> email_result" where
  "on_email_send d h = map_option (\<lambda>out. (h, out)) (to_db h (FillEmailRecipientIdRequest d))"

definition on_fill_email_recipient_id_response :: "email_env \<Rightarrow> u32 \<Rightarrow> email_draft \<Rightarrow> email_handler \<Rightarrow> email_result" where
  "on_fill_email_recipient_id_response env recipient_id d h =
    (let email = \<lparr>m_sender_id = d_sender_id d, m_recipient_id = recipient_id, m_sender_name = d_sender_name d,
                   m_subject = d_subject d, m_message = d_message d, m_timestamp = d_timestamp d, m_is_read_by_recipient = False\<rparr>
     in map_option (\<lambda>out. (h, out))
          (to_db h (EmailCreateRequest (d_sender_id d) recipient_id (d_recipient_name d) (serialize_mail env email))))"

definition on_fill_email_recipient_id_error :: "email_env \<Rightarrow> u32 \<Rightarrow> text_bytes \<Rightarrow> email_handler \<Rightarrow> email_result" where
  "on_fill_email_recipient_id_error env sender_id recipient_name h =
    (let h = change_client sender_id (\<lambda>c. c) h
     in map_option (\<lambda>out. (h, out))
          (to_instance env (client_at sender_id h)
            (\<lambda>a. EmailCreateStatus a False recipient_name (c_session_token (client_at sender_id h)))))"

definition on_email_delete :: "u32 \<Rightarrow> email_handler \<Rightarrow> email_result" where
  "on_email_delete email_id h =
    do {
      out \<leftarrow> to_db h (EmailRemove email_id);
      let email = mail_at email_id h;
      let h = h\<lparr>m_stored_email_datas := map_erase email_id (m_stored_email_datas h)\<rparr>;
      let h = change_ids (m_sender_id email) (\<lambda>e. e\<lparr>m_sent_email_ids := Set_erase email_id (m_sent_email_ids e)\<rparr>) h;
      let h = change_ids (m_recipient_id email) (\<lambda>e. e\<lparr>m_received_email_ids := Set_erase email_id (m_received_email_ids e)\<rparr>) h;
      Some (h, out) }"

definition email_client_connected :: "email_env \<Rightarrow> u64 \<Rightarrow> u32 \<Rightarrow> u32 \<Rightarrow> u32 \<Rightarrow> email_handler \<Rightarrow> email_result" where
  "email_client_connected env session server_id sub_server_id char_db_id h =
    (let st = fill_email_state char_db_id (m_stored_email_datas h) blank_email_state;
         c = \<lparr>c_session_token = session, c_server_id = server_id, c_instance_id = sub_server_id, m_email_state = st\<rparr>;
         h = change_client char_db_id (\<lambda>_. c) h;
         (hs, n, h) = fill_email_headers char_db_id h
     in map_option (\<lambda>out. (h, out)) (to_instance env c (\<lambda>a. EmailHeadersToClient a hs n session)))"

definition email_client_disconnected :: "u32 \<Rightarrow> email_handler \<Rightarrow> email_result" where
  "email_client_disconnected char_db_id h =
    Some (if has_client_data char_db_id h
          then h\<lparr>m_stored_client_datas := map_erase char_db_id (m_stored_client_datas h)\<rparr> else h, [])"

fun dispatch_email :: "email_env \<Rightarrow> email_event \<Rightarrow> email_handler \<Rightarrow> email_result" where
  "dispatch_email env (EmailHeaderRequest u t) h = on_email_header env u t h"
| "dispatch_email env (EmailReadRequest i) h = on_email_read env i h"
| "dispatch_email env (EmailSend d) h = on_email_send d h"
| "dispatch_email env (EmailDelete i) h = on_email_delete i h"
| "dispatch_email env (EmailCreateResponse i s r n c) h = on_email_create_response env i s r n c h"
| "dispatch_email env (GetEmailsResponse ds) h = on_get_emails_response env ds h"
| "dispatch_email env (FillEmailRecipientIdResponse r d) h = on_fill_email_recipient_id_response env r d h"
| "dispatch_email env (FillEmailRecipientIdError s n) h = on_fill_email_recipient_id_error env s n h"
| "dispatch_email env (EmailClientConnected t s i c) h = email_client_connected env t s i c h"
| "dispatch_email env (EmailClientDisconnected c) h = email_client_disconnected c h"
| "dispatch_email env OtherEmailEvent h = Some (h, [])"

text \<open>The constructor: the service asks for all mails.\<close>

definition EmailHandler :: "bool \<Rightarrow> email_result" where
  "EmailHandler db_registered =
    (let h = \<lparr>m_db_handler = db_registered, m_stored_client_datas = [], m_stored_email_datas = []\<rparr>
     in map_option (\<lambda>out. (h, out)) (to_db h GetEmailsRequest))"

end
