(* ===== verification/Email_Properties.thy ===== *)
theory Email_Properties
  imports Email_Handler
begin

text \<open>
  The properties of the e-mail service: how a mail gets from the sender to the recipient, what a
  character is told who connects, the invariant of the stored data, and what deleting a mail leaves
  behind.
\<close>

section \<open>Look-ups\<close>

lemma mail_at_change [simp]:
  "mail_at j (change_mail i f h) = (if j = i then f (mail_at i h) else mail_at j h)"
  by (simp add: mail_at_def change_mail_def map_get_change)

lemma client_at_change [simp]:
  "client_at j (change_client i f h) = (if j = i then f (client_at i h) else client_at j h)"
  by (simp add: client_at_def change_client_def map_get_change)

lemma other_half [simp]:
  "mail_at j (change_client i g h) = mail_at j h" "client_at j (change_mail i f h) = client_at j h"
  "m_db_handler (change_client i g h) = m_db_handler h" "m_db_handler (change_mail i f h) = m_db_handler h"
  "has_client_data j (change_mail i f h) = has_client_data j h"
  "has_client_data j (change_client i g h) = (j = i \<or> has_client_data j h)"
  "m_stored_email_datas (change_client i g h) = m_stored_email_datas h"
  "m_stored_client_datas (change_mail i f h) = m_stored_client_datas h"
  by (simp_all add: mail_at_def client_at_def change_client_def change_mail_def has_client_data_def)

lemma client_at_change_ids [simp]:
  "client_at j (change_ids i f h) = (if j = i then (client_at i h)\<lparr>m_email_state := f (m_email_state (client_at i h))\<rparr> else client_at j h)"
  by (simp add: change_ids_def)

lemma other_half_ids [simp]:
  "mail_at j (change_ids i g h) = mail_at j h" "m_db_handler (change_ids i g h) = m_db_handler h"
  "has_client_data j (change_ids i g h) = (j = i \<or> has_client_data j h)"
  "m_stored_email_datas (change_ids i g h) = m_stored_email_datas h"
  by (simp_all add: change_ids_def)

lemma instance_of_ids [simp]: "instance_of_client (c\<lparr>m_email_state := e\<rparr>) = instance_of_client c"
  by (simp add: instance_of_client_def)

lemma to_instance_some: "known_instance env (instance_of_client c) \<Longrightarrow> to_instance env c ev = Some [ev (instance_of_client c)]"
  by (simp add: to_instance_def)

lemma erased_mail [simp]:
  "client_at j (h\<lparr>m_stored_email_datas := ms\<rparr>) = client_at j h"
  "has_client_data j (h\<lparr>m_stored_email_datas := ms\<rparr>) = has_client_data j h"
  by (simp_all add: client_at_def has_client_data_def)

section \<open>Sending a mail\<close>

definition mail_of :: "email_draft \<Rightarrow> u32 \<Rightarrow> email_data" where
  "mail_of d r = \<lparr>m_sender_id = d_sender_id d, m_recipient_id = r, m_sender_name = d_sender_name d,
     m_subject = d_subject d, m_message = d_message d, m_timestamp = d_timestamp d, m_is_read_by_recipient = False\<rparr>"

lemma deserialize_serialize:
  assumes "print_mail env x \<noteq> []" "parse_mail env (print_mail env x) = Some x"
    "x = (m_sender_name m, m_subject m, m_message m, m_timestamp m, m_is_read_by_recipient m)"
  shows "\<exists>m'. deserialize_mail env (serialize_mail env m) = Some m' \<and>
    m'\<lparr>m_sender_id := m_sender_id m, m_recipient_id := m_recipient_id m\<rparr> = m \<and> (\<forall>i. header_of i m' = header_of i m)"
  using assms by (simp add: deserialize_mail_def serialize_mail_def blank_mail_def header_of_def)

text \<open>C29. A mail that a client sends arrives: the service asks the database for the recipient, has it create the
  mail, and when the database reports the number of the new mail, stores exactly the mail that was
  sent, unread, reports success to the sender and announces the mail to the recipient if the recipient
  is connected. The text the database keeps is assumed to be read back as it was written.\<close>

theorem mail_is_delivered:
  assumes "m_db_handler h" "\<forall>x. print_mail env x \<noteq> [] \<and> parse_mail env (print_mail env x) = Some x"
    "known_instance env (instance_of_client (client_at (d_sender_id d) h))"
    "has_client_data r h \<longrightarrow> known_instance env (instance_of_client (client_at r h))"
  shows "\<exists>txt h' a. dispatch_email env (EmailSend d) h = Some (h, [FillEmailRecipientIdRequest d]) \<and>
    dispatch_email env (FillEmailRecipientIdResponse r d) h =
      Some (h, [EmailCreateRequest (d_sender_id d) r (d_recipient_name d) txt]) \<and>
    dispatch_email env (EmailCreateResponse i (d_sender_id d) r (d_recipient_name d) txt) h =
      Some (h', EmailCreateStatus a True (d_recipient_name d) (c_session_token (client_at (d_sender_id d) h)) #
        (if has_client_data r h \<or> r = d_sender_id d
         then [EmailHeaderToClient (instance_of_client (client_at r h)) (header_of i (mail_of d r)) (c_session_token (client_at r h))]
         else [])) \<and>
    mail_at i h' = mail_of d r \<and> (\<forall>j. j \<noteq> i \<longrightarrow> mail_at j h' = mail_at j h)"
proof -
  let ?s = "d_sender_id d"
  let ?txt = "serialize_mail env (mail_of d r)"
  let ?announced = "if has_client_data r h \<or> r = ?s
    then [EmailHeaderToClient (instance_of_client (client_at r h)) (header_of i (mail_of d r)) (c_session_token (client_at r h))] else []"
  have send: "dispatch_email env (EmailSend d) h = Some (h, [FillEmailRecipientIdRequest d])"
    using assms(1) by (simp add: on_email_send_def to_db_def)
  have fill: "dispatch_email env (FillEmailRecipientIdResponse r d) h =
      Some (h, [EmailCreateRequest ?s r (d_recipient_name d) ?txt])"
    using assms(1) by (simp add: on_fill_email_recipient_id_response_def to_db_def Let_def mail_of_def)
  obtain m where m: "deserialize_mail env ?txt = Some m"
    "m\<lparr>m_sender_id := ?s, m_recipient_id := r\<rparr> = mail_of d r" "header_of i m = header_of i (mail_of d r)"
    using deserialize_serialize [OF _ _ refl, of env "mail_of d r"] assms(2) by (auto simp: mail_of_def)
  have knownr: "known_instance env (instance_of_client (client_at r h))" if "r = ?s \<or> has_client_data r h"
    using that assms(3,4) by auto
  have "\<exists>h'. dispatch_email env (EmailCreateResponse i ?s r (d_recipient_name d) ?txt) h =
      Some (h', EmailCreateStatus (instance_of_client (client_at ?s h)) True (d_recipient_name d)
        (c_session_token (client_at ?s h)) # ?announced) \<and>
      mail_at i h' = mail_of d r \<and> (\<forall>j. j \<noteq> i \<longrightarrow> mail_at j h' = mail_at j h)"
    using m assms(3) knownr
    by (cases "has_client_data r h"; cases "r = ?s")
      (simp_all add: on_email_create_response_def Let_def to_instance_def)
  with send fill show ?thesis by blast
qed

section \<open>What is stored\<close>

definition email_state_ok :: "player_email_state \<Rightarrow> bool" where
  "email_state_ok e \<longleftrightarrow> all_same (m_sent_email_ids e) \<and> all_same (m_received_email_ids e) \<and> all_same (m_unread_email_ids e)"

definition email_handler_ok :: "email_handler \<Rightarrow> bool" where
  "email_handler_ok h \<longleftrightarrow> map_ok (m_stored_client_datas h) \<and> map_ok (m_stored_email_datas h) \<and>
     (\<forall>i. email_state_ok (m_email_state (client_at i h)))"

lemma blank_email_state_ok [simp]: "email_state_ok blank_email_state"
  by (simp add: email_state_ok_def blank_email_state_def)

lemma ok_change_mail: "email_handler_ok h \<Longrightarrow> email_handler_ok (change_mail i f h)"
  by (auto simp: email_handler_ok_def) (simp add: change_mail_def map_ok_change)

lemma ok_change_client:
  "email_handler_ok h \<Longrightarrow> (email_state_ok (m_email_state (client_at i h)) \<Longrightarrow> email_state_ok (m_email_state (f (client_at i h)))) \<Longrightarrow>
   email_handler_ok (change_client i f h)"
  by (auto simp: email_handler_ok_def) (simp add: change_client_def map_ok_change)

lemma ok_change_ids:
  "email_handler_ok h \<Longrightarrow> (\<And>e. email_state_ok e \<Longrightarrow> email_state_ok (f e)) \<Longrightarrow> email_handler_ok (change_ids i f h)"
  by (simp add: change_ids_def ok_change_client)

lemma ok_sets:
  "email_state_ok e \<Longrightarrow> email_state_ok (e\<lparr>m_sent_email_ids := Set_insert i (m_sent_email_ids e)\<rparr>)"
  "email_state_ok e \<Longrightarrow> email_state_ok (e\<lparr>m_received_email_ids := Set_insert i (m_received_email_ids e)\<rparr>)"
  "email_state_ok e \<Longrightarrow> email_state_ok (e\<lparr>m_unread_email_ids := Set_insert i (m_unread_email_ids e)\<rparr>)"
  "email_state_ok e \<Longrightarrow> email_state_ok (e\<lparr>m_sent_email_ids := Set_erase i (m_sent_email_ids e)\<rparr>)"
  "email_state_ok e \<Longrightarrow> email_state_ok (e\<lparr>m_received_email_ids := Set_erase i (m_received_email_ids e)\<rparr>)"
  by (simp_all add: email_state_ok_def all_same_insert all_same_erase)

lemma note_mail_ok: "email_state_ok e \<Longrightarrow> email_state_ok (note_mail c i m e)"
  by (simp add: note_mail_def Let_def email_state_ok_def all_same_insert)

lemma fill_email_state_ok: "email_state_ok e \<Longrightarrow> email_state_ok (fill_email_state c ms e)"
  by (induction c ms e rule: fill_email_state.induct) (simp_all add: note_mail_ok)

lemma headers_loop_result:
  "headers_loop is h = (hs, n, h') \<Longrightarrow> m_stored_client_datas h' = m_stored_client_datas h \<and>
     hs = map (\<lambda>i. header_of i (mail_at i h)) is \<and> (\<forall>i. mail_at i h' = mail_at i h) \<and>
     (email_handler_ok h \<longrightarrow> email_handler_ok h') \<and> m_db_handler h' = m_db_handler h"
proof (induction "is" h arbitrary: hs n h' rule: headers_loop.induct)
  case (2 i "is" h)
  obtain hs1 n1 h1 where l: "headers_loop is (change_mail i (\<lambda>m. m) h) = (hs1, n1, h1)" by (metis prod_cases3)
  have same: "mail_at j (change_mail i (\<lambda>m. m) h) = mail_at j h" for j by simp
  from 2(1) [OF refl refl l] 2(2) l same ok_change_mail [of h i "\<lambda>m. m"] show ?case
    by (auto simp: Let_def)
qed simp

lemma headers_loop_count:
  "headers_loop is h = (hs, n, h') \<Longrightarrow> n = of_nat (length (filter (\<lambda>i. \<not> m_is_read_by_recipient (mail_at i h)) is))"
proof (induction "is" h arbitrary: hs n h' rule: headers_loop.induct)
  case (2 i "is" h)
  obtain hs1 n1 h1 where l: "headers_loop is (change_mail i (\<lambda>m. m) h) = (hs1, n1, h1)" by (metis prod_cases3)
  have same: "mail_at j (change_mail i (\<lambda>m. m) h) = mail_at j h" for j by simp
  from 2(1) [OF refl refl l, unfolded same] 2(2) l show ?case by (auto simp: Let_def same simp del: mail_at_change split: if_splits)
qed simp

lemma fill_email_headers_count:
  "fill_email_headers c h = (hs, n, h') \<Longrightarrow>
   n = of_nat (length (filter (\<lambda>i. \<not> m_is_read_by_recipient (mail_at i h)) (m_received_email_ids (m_email_state (client_at c h)))))"
  using headers_loop_count [of "m_received_email_ids (m_email_state (client_at c h))" "change_client c (\<lambda>c. c) h" hs n h']
  by (auto simp: fill_email_headers_def Let_def client_at_def change_client_def map_get_change mail_at_def)

lemma fill_email_headers_result:
  "fill_email_headers c h = (hs, n, h') \<Longrightarrow>
     hs = map (\<lambda>i. header_of i (mail_at i h)) (m_received_email_ids (m_email_state (client_at c h))) \<and>
     (\<forall>i. mail_at i h' = mail_at i h \<and> client_at i h' = client_at i h) \<and> m_db_handler h' = m_db_handler h \<and>
     (email_handler_ok h \<longrightarrow> email_handler_ok h')"
  using headers_loop_result [of "m_received_email_ids (m_email_state (client_at c h))" "change_client c (\<lambda>c. c) h" hs n h']
    ok_change_client [of h c "\<lambda>c. c"]
  by (auto simp: fill_email_headers_def Let_def client_at_def change_client_def map_get_change mail_at_def)

inductive email_reachable :: "email_env \<Rightarrow> email_handler \<Rightarrow> bool" for env where
  email_start: "EmailHandler db = Some (h, out) \<Longrightarrow> email_reachable env h"
| email_step: "email_reachable env h \<Longrightarrow> dispatch_email env ev h = Some (h', out) \<Longrightarrow> email_reachable env h'"

lemma email_start_ok: "EmailHandler db = Some (h, out) \<Longrightarrow> email_handler_ok h"
  by (auto simp: EmailHandler_def email_handler_ok_def to_db_def client_at_def map_get_def blank_client_def split: if_splits)

lemma get_emails_ok:
  "on_get_emails_response env ds h = Some (h', out) \<Longrightarrow> email_handler_ok h \<Longrightarrow> email_handler_ok h' \<and> out = []"
proof (induction env ds h rule: on_get_emails_response.induct)
  case (2 env email_id sender_id recipient_id cerealized ds h)
  then show ?case by (auto simp: Let_def Option.bind_eq_Some_conv intro: ok_change_mail)
qed simp

lemma ok_erase_mail: "email_handler_ok h \<Longrightarrow> email_handler_ok (h\<lparr>m_stored_email_datas := map_erase i (m_stored_email_datas h)\<rparr>)"
  by (simp add: email_handler_ok_def map_ok_erase client_at_def)

lemma ok_erase_client: "email_handler_ok h \<Longrightarrow> email_handler_ok (h\<lparr>m_stored_client_datas := map_erase i (m_stored_client_datas h)\<rparr>)"
  by (simp add: email_handler_ok_def map_ok_erase client_at_def map_get_erase blank_client_def)

text \<open>The lists of headers a message carries.\<close>

fun headers_in :: "email_out \<Rightarrow> email_header list" where
  "headers_in (EmailHeadersToClient a hs n t) = hs"
| "headers_in (EmailHeaderResponse a hs t) = hs"
| "headers_in _ = []"

lemma all_same_map: "all_same xs \<Longrightarrow> all_same (map f xs)"
  by (cases xs) (auto simp: all_same_def)

lemma headers_of_ok: "email_handler_ok h \<Longrightarrow> fill_email_headers c h = (hs, n, h') \<Longrightarrow> all_same hs \<and> email_handler_ok h'"
  using fill_email_headers_result [of c h hs n h'] by (auto simp: email_handler_ok_def email_state_ok_def intro: all_same_map)

lemma email_header_ok:
  assumes "on_email_header env u t h = Some (h', out)" "email_handler_ok h"
  shows "email_handler_ok h' \<and> (\<forall>m \<in> set out. all_same (headers_in m))"
proof -
  obtain hs n h1 where f: "fill_email_headers u h = (hs, n, h1)" by (metis prod_cases3)
  show ?thesis using assms headers_of_ok [OF assms(2) f]
    by (auto simp: on_email_header_def f Let_def to_instance_def ok_change_client split: if_splits)
qed

lemma email_connected_ok:
  assumes "email_client_connected env t s i c h = Some (h', out)" "email_handler_ok h"
  shows "email_handler_ok h' \<and> (\<forall>m \<in> set out. all_same (headers_in m))"
proof -
  define cd where "cd = \<lparr>c_session_token = t, c_server_id = s, c_instance_id = i,
    m_email_state = fill_email_state c (m_stored_email_datas h) blank_email_state\<rparr>"
  obtain hs n h1 where f: "fill_email_headers c (change_client c (\<lambda>_. cd) h) = (hs, n, h1)" by (metis prod_cases3)
  have "email_handler_ok (change_client c (\<lambda>_. cd) h)"
    using assms(2) by (intro ok_change_client) (simp_all add: cd_def fill_email_state_ok)
  from headers_of_ok [OF this f] assms(1) show ?thesis
    by (auto simp: email_client_connected_def f Let_def cd_def [symmetric] to_instance_def split: if_splits)
qed

lemma email_create_ok:
  assumes "on_email_create_response env i s r n c h = Some (h', out)" "email_handler_ok h"
  shows "email_handler_ok h' \<and> (\<forall>m \<in> set out. headers_in m = [])"
proof -
  note ok = ok_change_ids ok_change_mail ok_sets
  show ?thesis using assms
    by (auto simp: on_email_create_response_def Let_def Option.bind_eq_Some_conv to_instance_def split: if_splits intro!: ok)
qed

lemma email_read_ok:
  assumes "on_email_read env i h = Some (h', out)" "email_handler_ok h"
  shows "email_handler_ok h' \<and> (\<forall>m \<in> set out. headers_in m = [])"
proof -
  note ok = ok_change_ids ok_change_mail ok_sets ok_change_client
  show ?thesis using assms
    by (auto simp: on_email_read_def Let_def Option.bind_eq_Some_conv to_instance_def to_db_def split: if_splits intro!: ok)
qed

lemma email_delete_ok:
  "on_email_delete i h = Some (h', out) \<Longrightarrow> email_handler_ok h \<Longrightarrow> email_handler_ok h' \<and> (\<forall>m \<in> set out. headers_in m = [])"
  by (auto simp: on_email_delete_def Let_def to_db_def split: if_splits intro!: ok_change_ids ok_sets ok_erase_mail)

lemma email_dispatch_ok:
  assumes "dispatch_email env ev h = Some (h', out)" "email_handler_ok h"
  shows "email_handler_ok h' \<and> (\<forall>m \<in> set out. all_same (headers_in m))"
proof (cases ev)
  case (EmailHeaderRequest u t) then show ?thesis using assms email_header_ok by auto
next
  case (EmailReadRequest i) then show ?thesis using assms email_read_ok by fastforce
next
  case (EmailDelete i) then show ?thesis using assms email_delete_ok by fastforce
next
  case (EmailCreateResponse i s r n c) then show ?thesis using assms email_create_ok by fastforce
next
  case (GetEmailsResponse ds) then show ?thesis using assms get_emails_ok by fastforce
next
  case (EmailClientConnected t s i c) then show ?thesis using assms email_connected_ok by auto
next
  case (EmailClientDisconnected c)
  then show ?thesis using assms by (auto simp: email_client_disconnected_def ok_erase_client)
qed (use assms in \<open>auto simp: on_email_send_def on_fill_email_recipient_id_response_def Let_def to_db_def
  on_fill_email_recipient_id_error_def to_instance_def ok_change_client split: if_splits\<close>)

lemma email_reachable_ok: "email_reachable env h \<Longrightarrow> email_handler_ok h"
  by (induction rule: email_reachable.induct) (use email_start_ok email_dispatch_ok in blast)+

text \<open>Whatever messages the service has handled: every character and every mail is stored once, in the order of
  the numbers, and since the sets of the service keep one element only, no list of mails that is sent
  to a client names two different mails.\<close>

theorem header_lists_name_one_mail:
  assumes "email_reachable env h" "dispatch_email env ev h = Some (h', out)"
  shows "map_ok (m_stored_client_datas h') \<and> map_ok (m_stored_email_datas h') \<and>
    (\<forall>m \<in> set out. \<exists>x. set (headers_in m) \<subseteq> {x})"
proof -
  from email_dispatch_ok [OF assms(2) email_reachable_ok [OF assms(1)]]
  have "email_handler_ok h'" "\<forall>m \<in> set out. all_same (headers_in m)" by simp_all
  then show ?thesis unfolding email_handler_ok_def all_same_def by blast
qed

section \<open>Connecting\<close>

lemma note_received:
  "m_received_email_ids (note_mail c i m st) =
     (if m_recipient_id m = c then Set_insert i (m_received_email_ids st) else m_received_email_ids st)"
  by (simp add: note_mail_def Let_def)

lemma fill_keeps_first:
  "m_received_email_ids st = [x] \<Longrightarrow> x \<notin> fst ` set ms \<Longrightarrow> m_received_email_ids (fill_email_state c ms st) = [x]"
  by (induction c ms st rule: fill_email_state.induct) (auto simp: note_received Set_insert_def)

lemma fill_received:
  "distinct (map fst ms) \<Longrightarrow> m_received_email_ids st = [] \<Longrightarrow>
     m_received_email_ids (fill_email_state c ms st) = take 1 (map fst (filter (\<lambda>(i, m). m_recipient_id m = c) ms))"
proof (induction c ms st rule: fill_email_state.induct)
  case (2 c i m ms st)
  show ?case
  proof (cases "m_recipient_id m = c")
    case True
    with 2(3) have "m_received_email_ids (note_mail c i m st) = [i]" by (simp add: note_received Set_insert_def)
    with True 2(2) fill_keeps_first [of "note_mail c i m st" i ms c] show ?thesis by simp
  qed (use 2 in \<open>simp add: note_received\<close>)
qed simp

text \<open>C30. However many mails are stored for a character that connects, its client is sent one list of headers, and in
  it the header of exactly one mail, the one with the lowest number that was sent to the character, and the
  count of unread mails is whether that one is unread; the list is empty only when no mail was sent to the
  character. The comment in \<^verbatim>\<open>on_client_connected\<close> announces all of its mails; but the numbers are collected in a set
  that compares with \<^verbatim>\<open>equal_to\<close>.
\<close>
theorem connect_lists_first_mail:
  assumes "email_reachable env h" "dispatch_email env (EmailClientConnected t s i c) h = Some (h', out)"
  shows "case filter (\<lambda>(j, m). m_recipient_id m = c) (m_stored_email_datas h) of
      [] \<Rightarrow> out = [EmailHeadersToClient (ucast s, ucast i) [] 0 t]
    | (j, m) # rest \<Rightarrow> (\<forall>(k, _) \<in> set rest. j < k) \<and>
        out = [EmailHeadersToClient (ucast s, ucast i) [header_of j m] (if m_is_read_by_recipient m then 0 else 1) t]"
proof -
  let ?ms = "m_stored_email_datas h"
  let ?mine = "filter (\<lambda>(j, m). m_recipient_id m = c) ?ms"
  define cd where "cd = \<lparr>c_session_token = t, c_server_id = s, c_instance_id = i,
    m_email_state = fill_email_state c ?ms blank_email_state\<rparr>"
  obtain hs n h1 where f: "fill_email_headers c (change_client c (\<lambda>_. cd) h) = (hs, n, h1)" by (metis prod_cases3)
  have ok: "map_ok ?ms" using email_reachable_ok [OF assms(1)] by (simp add: email_handler_ok_def)
  have rec: "m_received_email_ids (m_email_state cd) = take 1 (map fst ?mine)"
    using fill_received [OF map_ok_distinct [OF ok], of blank_email_state c] by (simp add: cd_def blank_email_state_def)
  have hs: "hs = map (\<lambda>j. header_of j (mail_at j h)) (take 1 (map fst ?mine))"
    using fill_email_headers_result [OF f] rec by simp
  have n: "n = of_nat (length (filter (\<lambda>j. \<not> m_is_read_by_recipient (mail_at j h)) (take 1 (map fst ?mine))))"
    using fill_email_headers_count [OF f] rec by simp
  have out: "out = [EmailHeadersToClient (ucast s, ucast i) hs n t]"
    using assms(2) by (auto simp: email_client_connected_def f Let_def cd_def [symmetric] to_instance_def
        instance_of_client_def split: if_splits) (simp_all add: cd_def)
  show ?thesis
  proof (cases ?mine)
    case Nil
    with hs n out show ?thesis by simp
  next
    case (Cons jm rest)
    obtain j m where jm: "jm = (j, m)" by fastforce
    have "(j, m) \<in> set ?mine" unfolding Cons jm by simp
    then have "mail_at j h = m" using map_ok_in_set [OF ok, of j m] by (simp add: mail_at_def map_get_def)
    with hs n out Cons jm have o: "out = [EmailHeadersToClient (ucast s, ucast i) [header_of j m] (if m_is_read_by_recipient m then 0 else 1) t]"
      by simp
    have "sorted_wrt (\<lambda>a b. fst a < fst b) ?mine"
      using ok unfolding map_ok_def sorted_wrt_map by (rule sorted_wrt_filter)
    then have "\<forall>(k, _) \<in> set rest. j < k" unfolding Cons jm by auto
    with o Cons jm show ?thesis by simp
  qed
qed

section \<open>Reading and deleting\<close>

text \<open>Reading a mail stores it as read, has the database keep the text of exactly the stored mail, tells the
  sender if it is connected, and answers the recipient; every other mail stays. The mail remains
  among the unread ones of the recipient, and its number is taken out of the received ones.\<close>

theorem reading_marks_read:
  assumes "dispatch_email env (EmailReadRequest i) h = Some (h', out)"
  shows "let r = m_recipient_id (mail_at i h); s = m_sender_id (mail_at i h);
      m = (mail_at i h)\<lparr>m_is_read_by_recipient := True, m_sender_name :=
        (if s = 0 then ascii ''DELETED CHARACTER'' else m_sender_name (mail_at i h))\<rparr> in
    mail_at i h' = m \<and> (\<forall>j. j \<noteq> i \<longrightarrow> mail_at j h' = mail_at j h) \<and>
    out = EmailMarkAsRead i (serialize_mail env m) #
      (if has_client_data s h \<or> s = r
       then [EmailWasReadByRecipient (instance_of_client (client_at s h)) (read_notice (m_subject m)) (c_session_token (client_at s h))] else []) @
      [EmailReadResponse (instance_of_client (client_at r h)) i (m_message m) (m_sender_name m) (c_session_token (client_at r h))] \<and>
    m_unread_email_ids (m_email_state (client_at r h')) = m_unread_email_ids (m_email_state (client_at r h)) \<and>
    m_received_email_ids (m_email_state (client_at r h')) = Set_erase i (m_received_email_ids (m_email_state (client_at r h)))"
  using assms
  by (auto simp: on_email_read_def Let_def Option.bind_eq_Some_conv to_instance_def to_db_def split: if_splits)

text \<open>Deleting a mail whose recipient is offline registers the recipient as a connected client without a
  session. The next mail to that character is then announced to the map instance with the numbers 0
  and 0 for the session 0; where no such instance is registered, the server crashes.\<close>

theorem deleted_mail_leaves_phantom:
  assumes "\<not> has_client_data r h" "r = m_recipient_id (mail_at i h)"
    "dispatch_email env (EmailDelete i) h = Some (h1, out1)"
  shows "has_client_data r h1 \<and>
    (case dispatch_email env (EmailCreateResponse j s r n txt) h1 of
       None \<Rightarrow> True
     | Some (h2, out2) \<Rightarrow> known_instance env (0, 0) \<and> (\<exists>hd. EmailHeaderToClient (0, 0) hd 0 \<in> set out2)) \<and>
    (\<not> known_instance env (0, 0) \<longrightarrow> dispatch_email env (EmailCreateResponse j s r n txt) h1 = None)"
proof -
  have blank: "client_at r h = blank_client"
    using assms(1) by (simp add: client_at_def map_get_def has_client_data_def)
  have c: "has_client_data r h1" "c_server_id (client_at r h1) = 0" "c_instance_id (client_at r h1) = 0" "c_session_token (client_at r h1) = 0"
    using assms(3) blank unfolding assms(2)
    by (auto simp: on_email_delete_def to_db_def Let_def blank_client_def split: if_splits)
  then have inst: "instance_of_client (client_at r h1) = (0, 0)" by (simp add: instance_of_client_def)
  show ?thesis
    using c inst by (cases "deserialize_mail env txt"; cases "s = r"; cases "known_instance env (0, 0)")
      (auto simp: on_email_create_response_def Let_def to_instance_def split: Option.bind_splits)
qed

section \<open>A concrete environment\<close>

text \<open>A text format for mails: every character after a 1, a 0 at the end of a text, then the bits of the
  time stamp and the flag.\<close>

definition put_text :: "text_bytes \<Rightarrow> text_bytes" where
  "put_text cs = concat (map (\<lambda>c. [1, c]) cs) @ [0]"

fun get_text :: "text_bytes \<Rightarrow> text_bytes \<times> text_bytes" where
  "get_text (x # y # rest) = (if x = 0 then ([], y # rest) else let (cs, r) = get_text rest in (y # cs, r))"
| "get_text _ = ([], [])"

definition example_env :: email_env where
  "example_env = \<lparr>known_instance = (\<lambda>a. a = (1, 1)),
     print_mail = (\<lambda>(a, b, c, t, r). put_text a @ put_text b @ put_text c @ map (\<lambda>i. of_bool (bit t i)) [0..<32] @ [of_bool r]),
     parse_mail = (\<lambda>src. let (a, r1) = get_text src; (b, r2) = get_text r1; (c, r3) = get_text r2 in
       Some (a, b, c, horner_sum of_bool 2 (map (\<lambda>x. x = 1) (take 32 r3)), drop 32 r3 = [1])),
     stale_timestamp = 0\<rparr>"

lemma get_put_text: "r \<noteq> [] \<Longrightarrow> get_text (put_text cs @ r) = (cs, r)"
proof (induction cs)
  case Nil
  then obtain y r' where "r = y # r'" by (cases r) auto
  then show ?case by (simp add: put_text_def)
qed (simp add: put_text_def)

lemma example_env_roundtrip: "print_mail example_env x \<noteq> [] \<and> parse_mail example_env (print_mail example_env x) = Some x"
proof -
  obtain a b c t r where x: "x = (a, b, c, t :: u32, r)" by (metis prod_cases5)
  have ne: "put_text s \<noteq> []" for s by (simp add: put_text_def)
  have bits: "map (\<lambda>x. x = 1) (map (\<lambda>i. of_bool (bit t i) :: u8) [0..<32]) = map (bit t) [0..<32]" by simp
  show ?thesis
    using horner_sum_bit_eq_take_bit [of t 32] take_bit_length_eq [of t]
    by (simp add: x example_env_def get_put_text ne Let_def bits del: map_map)
qed

definition example_handler :: email_handler where
  "example_handler = \<lparr>m_db_handler = True, m_stored_client_datas =
     [(5, blank_client\<lparr>c_session_token := 50, c_server_id := 1, c_instance_id := 1\<rparr>)], m_stored_email_datas = []\<rparr>"

definition example_draft :: email_draft where
  "example_draft = \<lparr>d_sender_id = 5, d_sender_name = [83], d_recipient_name = [82], d_subject = [72, 105],
     d_message = [46], d_timestamp = 12\<rparr>"

theorem mail_is_delivered_witness:
  "\<exists>txt h' a. dispatch_email example_env (FillEmailRecipientIdResponse 7 example_draft) example_handler =
      Some (example_handler, [EmailCreateRequest 5 7 [82] txt]) \<and>
    dispatch_email example_env (EmailCreateResponse 9 5 7 [82] txt) example_handler =
      Some (h', [EmailCreateStatus a True [82] 50]) \<and>
    mail_at 9 h' = mail_of example_draft 7"
proof -
  have c: "client_at 5 example_handler = blank_client\<lparr>c_session_token := 50, c_server_id := 1, c_instance_id := 1\<rparr>"
    "\<not> has_client_data 7 example_handler" "m_db_handler example_handler"
    by (simp_all add: example_handler_def client_at_def has_client_data_def map_get_def)
  have d: "d_sender_id example_draft = 5" "d_recipient_name example_draft = [82]" by (simp_all add: example_draft_def)
  have "known_instance example_env (instance_of_client (client_at (d_sender_id example_draft) example_handler))"
    by (simp add: c d instance_of_client_def example_env_def)
  from mail_is_delivered [OF c(3) _ this, of 7 9] example_env_roundtrip c d show ?thesis by auto
qed

text \<open>Two mails that the database reported when the service started.\<close>

definition two_mails :: email_handler where
  "two_mails = \<lparr>m_db_handler = True, m_stored_client_datas = [], m_stored_email_datas =
     [(1, blank_mail\<lparr>m_sender_id := 5, m_recipient_id := 7\<rparr>), (2, blank_mail\<lparr>m_sender_id := 5, m_recipient_id := 7\<rparr>)]\<rparr>"

lemma two_mails_reachable: "email_reachable example_env two_mails"
proof (rule email_step)
  show "email_reachable example_env \<lparr>m_db_handler = True, m_stored_client_datas = [], m_stored_email_datas = []\<rparr>"
    by (rule email_start [where db = True and out = "[GetEmailsRequest]"]) (simp add: EmailHandler_def to_db_def)
  show "dispatch_email example_env (GetEmailsResponse [(1, 5, 7, []), (2, 5, 7, [])])
      \<lparr>m_db_handler = True, m_stored_client_datas = [], m_stored_email_datas = []\<rparr> = Some (two_mails, [])"
    by (simp add: two_mails_def deserialize_mail_def change_mail_def map_change_def example_env_def blank_mail_def)
qed

lemma two_mails_connect:
  "\<exists>h' out. dispatch_email example_env (EmailClientConnected 70 1 1 7) two_mails = Some (h', out)"
proof -
  obtain hs n h1 where "fill_email_headers 7 (change_client 7 (\<lambda>_. \<lparr>c_session_token = 70, c_server_id = 1, c_instance_id = 1,
      m_email_state = fill_email_state 7 (m_stored_email_datas two_mails) blank_email_state\<rparr>) two_mails) = (hs, n, h1)"
    by (metis prod_cases3)
  then show ?thesis
    by (simp add: email_client_connected_def to_instance_def instance_of_client_def example_env_def)
qed

theorem connect_lists_first_mail_witness:
  "\<exists>h'. dispatch_email example_env (EmailClientConnected 70 1 1 7) two_mails =
     Some (h', [EmailHeadersToClient (1, 1) [header_of 1 (mail_at 1 two_mails)] 1 70]) \<and> length (m_stored_email_datas two_mails) = 2"
proof -
  obtain h' out where d: "dispatch_email example_env (EmailClientConnected 70 1 1 7) two_mails = Some (h', out)"
    using two_mails_connect by blast
  have r: "\<not> m_is_read_by_recipient blank_mail" by (simp add: blank_mail_def)
  from connect_lists_first_mail [OF two_mails_reachable d] d r show ?thesis
    by (auto simp: two_mails_def mail_at_def map_get_def)
qed

theorem header_lists_name_one_mail_witness:
  "\<exists>h' out. dispatch_email example_env (EmailClientConnected 70 1 1 7) two_mails = Some (h', out) \<and>
     list_all (\<lambda>m. \<exists>x. set (headers_in m) \<subseteq> {x}) out"
proof -
  obtain h' out where d: "dispatch_email example_env (EmailClientConnected 70 1 1 7) two_mails = Some (h', out)"
    using two_mails_connect by blast
  from header_lists_name_one_mail [OF two_mails_reachable d] d show ?thesis by (auto simp: list_all_iff)
qed

lemma two_mails_lookup:
  "mail_at 1 two_mails = blank_mail\<lparr>m_sender_id := 5, m_recipient_id := 7\<rparr>" "\<not> has_client_data i two_mails"
  "m_db_handler two_mails" "client_at i two_mails = blank_client"
  by (simp_all add: two_mails_def mail_at_def client_at_def map_get_def has_client_data_def)

theorem reading_marks_read_witness:
  "\<exists>h' out. dispatch_email (example_env\<lparr>known_instance := \<lambda>_. True\<rparr>) (EmailReadRequest 1) two_mails = Some (h', out) \<and>
     mail_at 1 h' = (mail_at 1 two_mails)\<lparr>m_is_read_by_recipient := True\<rparr>"
proof -
  let ?env = "example_env\<lparr>known_instance := \<lambda>_. True\<rparr>"
  obtain h' out where d: "dispatch_email ?env (EmailReadRequest 1) two_mails = Some (h', out)"
    by (simp add: on_email_read_def to_instance_def to_db_def Let_def two_mails_lookup)
  have "(mail_at 1 two_mails)\<lparr>m_is_read_by_recipient := True, m_sender_name := m_sender_name (mail_at 1 two_mails)\<rparr> =
    (mail_at 1 two_mails)\<lparr>m_is_read_by_recipient := True\<rparr>" by simp
  with reading_marks_read [OF d] d show ?thesis by (auto simp: Let_def two_mails_lookup)
qed

theorem deleted_mail_leaves_phantom_witness:
  "\<exists>h1 out1. dispatch_email example_env (EmailDelete 1) two_mails = Some (h1, out1) \<and> has_client_data 7 h1 \<and>
     dispatch_email example_env (EmailCreateResponse 3 5 7 [82] []) h1 = None"
proof -
  obtain h1 out1 where d: "dispatch_email example_env (EmailDelete 1) two_mails = Some (h1, out1)"
    by (simp add: on_email_delete_def to_db_def Let_def two_mails_lookup)
  have "7 = m_recipient_id (mail_at 1 two_mails)" "\<not> known_instance example_env (0, 0)"
    by (simp_all add: two_mails_lookup example_env_def)
  with deleted_mail_leaves_phantom [OF two_mails_lookup(2) this(1) d, of 3 5 "[82]" "[]"] d show ?thesis by blast
qed

end
