(* ===== verification/Auth_Events.thy ===== *)
theory Auth_Events
  imports Buffer
begin

text \<open>
  The messages of the login protocol and their bytes: the events of \<open>Common/Messages/Auth\<close>, the
  packet types of \<open>Common/AuthProtocol/AuthOpcodes.h\<close> and the factory
  \<open>AuthEventFactory::EventForType\<close>.

  Numbers go through \<open>uPut\<close> and \<open>uGet\<close> as the bytes they have in memory, the lowest one first. Members
  a failed \<open>Get\<close> leaves uninitialised have the value of the argument \<open>junk\<close>. \<open>unsigned\<close>
  arrays of a fixed size are lists of bytes; \<open>event_ok\<close> says that they have their size.
\<close>

section \<open>Numbers in memory\<close>

definition le_bytes :: "nat \<Rightarrow> 'a::len word \<Rightarrow> u8 list" where
  "le_bytes n w = map (\<lambda>i. ucast (drop_bit (8 * i) w)) [0..<n]"

fun of_le_bytes :: "u8 list \<Rightarrow> 'a::len word" where
  "of_le_bytes [] = 0"
| "of_le_bytes (b # bs) = ucast b OR push_bit 8 (of_le_bytes bs)"

lemma length_le_bytes [simp]: "length (le_bytes n w) = n"
  by (simp add: le_bytes_def)

lemma le_bytes_Suc: "le_bytes (Suc n) w = ucast w # le_bytes n (drop_bit 8 w)"
  by (simp add: le_bytes_def upt_conv_Cons map_Suc_upt [symmetric] comp_def add.commute del: upt_Suc)

lemma of_le_le_bytes: "of_le_bytes (le_bytes n w) = take_bit (8 * n) (w :: 'a::len word)"
proof (induction n arbitrary: w)
  case 0
  then show ?case by (simp add: le_bytes_def)
next
  case (Suc n)
  show ?case
    unfolding le_bytes_Suc of_le_bytes.simps Suc
  proof (rule bit_word_eqI)
    fix i assume "i < LENGTH('a)"
    then show "bit (ucast (ucast w :: u8) OR push_bit 8 (take_bit (8 * n) (drop_bit 8 w))) i \<longleftrightarrow>
        bit (take_bit (8 * Suc n) w) i"
      by (cases "i < 8") (auto simp: bit_or_iff bit_push_bit_iff bit_take_bit_iff bit_drop_bit_eq bit_ucast_iff)
  qed
qed

lemma le_bytes_roundtrip: "LENGTH('a) \<le> 8 * n \<Longrightarrow> of_le_bytes (le_bytes n w) = (w :: 'a::len word)"
  by (simp add: of_le_le_bytes take_bit_word_eq_self)

section \<open>Events\<close>

record game_server_info =
  gs_id :: u8
  gs_addr :: u32
  gs_port :: u16
  gs_current_players :: u16
  gs_max_players :: u16
  gs_online :: u8

datatype auth_event =
    AuthProtocolVersion u32 u32
  | AuthorizationError u32
  | ServerSelectRequest "u8 list" u8
  | DbError "u8 list"
  | ReconnectAttempt "u8 list"
  | LoginRequest "u8 list" "u8 list" u32 u16
  | LoginResponse "u8 list" "u8 list" u32 u32 u32
  | ServerListResponse "game_server_info list" u8
  | ServerListRequest "u8 list" u8
  | ServerSelectResponse u32 u32 u8

text \<open>\<open>AuthProtocolVersion\<close> has the seed first, then the version; \<open>ServerSelectResponse\<close> the cookie of the
  game server first.\<close>

fun event_ok :: "auth_event \<Rightarrow> bool" where
  "event_ok (ServerSelectRequest a s) = (length a = 8)"
| "event_ok (DbError a) = (length a = 8)"
| "event_ok (ReconnectAttempt a) = (length a = 8)"
| "event_ok (LoginRequest l p u1 u2) = (length l = 14 \<and> length p = 16)"
| "event_ok (LoginResponse a1 a2 u1 u2 u3) = (length a1 = 8 \<and> length a2 = 8)"
| "event_ok (ServerListRequest a u) = (length a = 8)"
| "event_ok ev = True"

section \<open>Writing\<close>

text \<open>A sequence of \<open>uPut\<close> and \<open>uPutBytes\<close>.\<close>

fun uPuts :: "u8 list list \<Rightarrow> growing_buffer \<Rightarrow> growing_buffer option" where
  "uPuts [] b = Some b"
| "uPuts (v # vs) b = do { b \<leftarrow> uPut v b; uPuts vs b }"

fun Puts :: "u8 list list \<Rightarrow> growing_buffer \<Rightarrow> growing_buffer option" where
  "Puts [] b = Some b"
| "Puts (v # vs) b = do { b \<leftarrow> Put v b; Puts vs b }"

definition swap_long :: "u32 \<Rightarrow> u32" where
  "swap_long a = of_le_bytes (rev (le_bytes 4 a))"

text \<open>One server of the list; the port is stored in four bytes.\<close>

definition server_fields :: "game_server_info \<Rightarrow> u8 list list" where
  "server_fields srv = [[gs_id srv], le_bytes 4 (swap_long (gs_addr srv)), le_bytes 4 (ucast (gs_port srv) :: u32), [0], [0],
     le_bytes 2 (gs_current_players srv), le_bytes 2 (gs_max_players srv), [gs_online srv]]"

definition AuthProtocolVersion_to :: "u32 \<Rightarrow> u32 \<Rightarrow> growing_buffer \<Rightarrow> growing_buffer option" where
  "AuthProtocolVersion_to seed vers b = uPuts [[0], le_bytes 4 seed, le_bytes 4 vers] b"

definition AuthorizationError_to :: "u32 \<Rightarrow> growing_buffer \<Rightarrow> growing_buffer option" where
  "AuthorizationError_to err b = uPuts [[1], le_bytes 4 err] b"

definition ServerSelectRequest_to :: "u8 list \<Rightarrow> u8 \<Rightarrow> growing_buffer \<Rightarrow> growing_buffer option" where
  "ServerSelectRequest_to arr server_id b = uPuts [[2], arr, [server_id]] b"

definition DbError_to :: "u8 list \<Rightarrow> growing_buffer \<Rightarrow> growing_buffer option" where
  "DbError_to arr b = uPuts [[3], arr] b"

definition ReconnectAttempt_to :: "u8 list \<Rightarrow> growing_buffer \<Rightarrow> growing_buffer option" where
  "ReconnectAttempt_to arr b = uPuts [[3], arr] b"

definition LoginRequest_to :: "u8 list \<Rightarrow> u8 list \<Rightarrow> u32 \<Rightarrow> u16 \<Rightarrow> growing_buffer \<Rightarrow> growing_buffer option" where
  "LoginRequest_to login password u1 u2 b = uPuts [[0], login, password, le_bytes 4 u1, le_bytes 2 u2] b"

definition LoginResponse_to :: "u8 list \<Rightarrow> u8 list \<Rightarrow> u32 \<Rightarrow> u32 \<Rightarrow> u32 \<Rightarrow> growing_buffer \<Rightarrow> growing_buffer option" where
  "LoginResponse_to a1 a2 u1 u2 u3 b = uPuts [[3], a1, a2, le_bytes 4 u1, le_bytes 4 u2, le_bytes 4 u3] b"

definition ServerListResponse_to :: "game_server_info list \<Rightarrow> growing_buffer \<Rightarrow> growing_buffer option" where
  "ServerListResponse_to servers b = (if servers = [] then None
     else do { b \<leftarrow> uPuts [[4], [of_nat (length servers)], [1]] b; Puts (concat (map server_fields servers)) b })"

definition ServerListRequest_to :: "u8 list \<Rightarrow> u8 \<Rightarrow> growing_buffer \<Rightarrow> growing_buffer option" where
  "ServerListRequest_to arr u b = uPuts [[5], arr, [u]] b"

definition ServerSelectResponse_to :: "u32 \<Rightarrow> u32 \<Rightarrow> u8 \<Rightarrow> growing_buffer \<Rightarrow> growing_buffer option" where
  "ServerSelectResponse_to db_cookie cookie u b = uPuts [[7], le_bytes 4 db_cookie, le_bytes 4 cookie, [u]] b"

lemmas event_to_defs [simp] =
  AuthProtocolVersion_to_def AuthorizationError_to_def ServerSelectRequest_to_def DbError_to_def ReconnectAttempt_to_def LoginRequest_to_def LoginResponse_to_def ServerListResponse_to_def ServerListRequest_to_def ServerSelectResponse_to_def

fun serializeto :: "auth_event \<Rightarrow> growing_buffer \<Rightarrow> growing_buffer option" where
  "serializeto (AuthProtocolVersion seed vers) b = AuthProtocolVersion_to seed vers b"
| "serializeto (AuthorizationError err) b = AuthorizationError_to err b"
| "serializeto (ServerSelectRequest arr server_id) b = ServerSelectRequest_to arr server_id b"
| "serializeto (DbError arr) b = DbError_to arr b"
| "serializeto (ReconnectAttempt arr) b = ReconnectAttempt_to arr b"
| "serializeto (LoginRequest login password u1 u2) b = LoginRequest_to login password u1 u2 b"
| "serializeto (LoginResponse a1 a2 u1 u2 u3) b = LoginResponse_to a1 a2 u1 u2 u3 b"
| "serializeto (ServerListResponse servers preferred) b = ServerListResponse_to servers b"
| "serializeto (ServerListRequest arr u) b = ServerListRequest_to arr u b"
| "serializeto (ServerSelectResponse db_cookie cookie u) b = ServerSelectResponse_to db_cookie cookie u b"

section \<open>Reading\<close>

definition uGet :: "nat \<Rightarrow> growing_buffer \<Rightarrow> ('a::len word \<times> growing_buffer) option" where
  "uGet n b = map_option (\<lambda>(t, b). (of_le_bytes t, b)) (uGetBytes n b)"

text \<open>\<open>Get\<close> of a member that was not initialised.\<close>

definition Get_or :: "u8 list \<Rightarrow> nat \<Rightarrow> growing_buffer \<Rightarrow> (u8 list \<times> growing_buffer) option" where
  "Get_or junk n b = map_option (\<lambda>(t, b). (case t of None \<Rightarrow> junk | Some bs \<Rightarrow> bs, b)) (Get n b)"

definition read_server :: "u8 list \<Rightarrow> growing_buffer \<Rightarrow> (game_server_info \<times> growing_buffer) option" where
  "read_server junk b = do {
     (i, b) \<leftarrow> Get_or junk 1 b;
     (addr, b) \<leftarrow> Get_or junk 4 b;
     (port, b) \<leftarrow> Get_or junk 2 b;
     (_, b) \<leftarrow> Get_or junk 1 b;
     (_, b) \<leftarrow> Get_or junk 1 b;
     (current, b) \<leftarrow> Get_or junk 2 b;
     (mx, b) \<leftarrow> Get_or junk 2 b;
     (online, b) \<leftarrow> Get_or junk 1 b;
     Some (\<lparr>gs_id = of_le_bytes i, gs_addr = of_le_bytes addr, gs_port = of_le_bytes port,
            gs_current_players = of_le_bytes current, gs_max_players = of_le_bytes mx, gs_online = of_le_bytes online\<rparr>, b) }"

fun read_servers :: "u8 list \<Rightarrow> nat \<Rightarrow> growing_buffer \<Rightarrow> (game_server_info list \<times> growing_buffer) option" where
  "read_servers junk 0 b = Some ([], b)"
| "read_servers junk (Suc n) b = do {
     (srv, b) \<leftarrow> read_server junk b;
     (srvs, b) \<leftarrow> read_servers junk n b;
     Some (srv # srvs, b) }"

text \<open>\<open>serializefrom\<close> of the events, then of a fresh event of the kind of the argument.\<close>

definition AuthProtocolVersion_from :: "growing_buffer \<Rightarrow> (auth_event \<times> growing_buffer) option" where
  "AuthProtocolVersion_from b = do {
     (op :: u8, b) \<leftarrow> uGet 1 b; (seed, b) \<leftarrow> uGet 4 b; (vers, b) \<leftarrow> uGet 4 b; Some (AuthProtocolVersion seed vers, b) }"

definition AuthorizationError_from :: "growing_buffer \<Rightarrow> (auth_event \<times> growing_buffer) option" where
  "AuthorizationError_from b = do {
     (op :: u8, b) \<leftarrow> uGet 1 b; if op \<noteq> 1 then None else do { (err, b) \<leftarrow> uGet 4 b; Some (AuthorizationError err, b) } }"

definition ServerSelectRequest_from :: "growing_buffer \<Rightarrow> (auth_event \<times> growing_buffer) option" where
  "ServerSelectRequest_from b = do {
     (op :: u8, b) \<leftarrow> uGet 1 b; (arr, b) \<leftarrow> uGetBytes 8 b; (i, b) \<leftarrow> uGet 1 b; Some (ServerSelectRequest arr i, b) }"

definition DbError_from :: "growing_buffer \<Rightarrow> (auth_event \<times> growing_buffer) option" where
  "DbError_from b = do {
     (op :: u8, b) \<leftarrow> uGet 1 b; if op \<noteq> 3 then None else do { (arr, b) \<leftarrow> uGetBytes 8 b; Some (DbError arr, b) } }"

definition ReconnectAttempt_from :: "growing_buffer \<Rightarrow> (auth_event \<times> growing_buffer) option" where
  "ReconnectAttempt_from b = do {
     (op :: u8, b) \<leftarrow> uGet 1 b; (arr, b) \<leftarrow> uGetBytes 8 b; Some (ReconnectAttempt arr, b) }"

definition LoginRequest_from :: "growing_buffer \<Rightarrow> (auth_event \<times> growing_buffer) option" where
  "LoginRequest_from b = do {
     (op :: u8, b) \<leftarrow> uGet 1 b; (login, b) \<leftarrow> uGetBytes 14 b; (password, b) \<leftarrow> uGetBytes 16 b;
     (u1, b) \<leftarrow> uGet 4 b; (u2, b) \<leftarrow> uGet 2 b; Some (LoginRequest login password u1 u2, b) }"

definition LoginResponse_from :: "growing_buffer \<Rightarrow> (auth_event \<times> growing_buffer) option" where
  "LoginResponse_from b = do {
     (op :: u8, b) \<leftarrow> uGet 1 b; (a1, b) \<leftarrow> uGetBytes 8 b; (a2, b) \<leftarrow> uGetBytes 8 b;
     (u1, b) \<leftarrow> uGet 4 b; (u2, b) \<leftarrow> uGet 4 b; (u3, b) \<leftarrow> uGet 4 b; Some (LoginResponse a1 a2 u1 u2 u3, b) }"

definition ServerListResponse_from :: "u8 list \<Rightarrow> growing_buffer \<Rightarrow> (auth_event \<times> growing_buffer) option" where
  "ServerListResponse_from junk b = do {
     (op :: u8, b) \<leftarrow> uGet 1 b; (n :: u8, b) \<leftarrow> uGet 1 b; (preferred, b) \<leftarrow> uGet 1 b;
     (srvs, b) \<leftarrow> read_servers junk (unat n) b; Some (ServerListResponse srvs preferred, b) }"

definition ServerListRequest_from :: "growing_buffer \<Rightarrow> (auth_event \<times> growing_buffer) option" where
  "ServerListRequest_from b = do {
     (op :: u8, b) \<leftarrow> uGet 1 b; (arr, b) \<leftarrow> uGetBytes 8 b; (u, b) \<leftarrow> uGet 1 b; Some (ServerListRequest arr u, b) }"

definition ServerSelectResponse_from :: "growing_buffer \<Rightarrow> (auth_event \<times> growing_buffer) option" where
  "ServerSelectResponse_from b = (if \<not> GetReadableDataSize b \<ge> 10 then None
      else do {
       (op :: u8, b) \<leftarrow> uGet 1 b; (db_cookie, b) \<leftarrow> uGet 4 b; (cookie, b) \<leftarrow> uGet 4 b; (u, b) \<leftarrow> uGet 1 b;
       Some (ServerSelectResponse db_cookie cookie u, b) })"

lemmas event_from_defs [simp] =
  AuthProtocolVersion_from_def AuthorizationError_from_def ServerSelectRequest_from_def DbError_from_def ReconnectAttempt_from_def LoginRequest_from_def LoginResponse_from_def ServerListResponse_from_def ServerListRequest_from_def ServerSelectResponse_from_def

fun serializefrom :: "u8 list \<Rightarrow> auth_event \<Rightarrow> growing_buffer \<Rightarrow> (auth_event \<times> growing_buffer) option" where
  "serializefrom junk (AuthProtocolVersion _ _) b = AuthProtocolVersion_from b"
| "serializefrom junk (AuthorizationError _) b = AuthorizationError_from b"
| "serializefrom junk (ServerSelectRequest _ _) b = ServerSelectRequest_from b"
| "serializefrom junk (DbError _) b = DbError_from b"
| "serializefrom junk (ReconnectAttempt _) b = ReconnectAttempt_from b"
| "serializefrom junk (LoginRequest _ _ _ _) b = LoginRequest_from b"
| "serializefrom junk (LoginResponse _ _ _ _ _) b = LoginResponse_from b"
| "serializefrom junk (ServerListResponse _ _) b = ServerListResponse_from junk b"
| "serializefrom junk (ServerListRequest _ _) b = ServerListRequest_from b"
| "serializefrom junk (ServerSelectResponse _ _ _) b = ServerSelectResponse_from b"

section \<open>Packet types\<close>

datatype auth_packet_type =
    SMSG_AUTHVERSION | SMSG_AUTH_ALREADY_LOGGED_IN | CMSG_AUTH_SELECT_DBSERVER | PKT_AUTH_LOGIN_SUCCESS
  | CMSG_DB_CONN_FAILURE | CMSG_AUTH_LOGIN | CMSG_AUTH_REQUEST_SERVER_LIST | SMSG_AUTH_SERVER_LIST
  | PKT_SELECT_SERVER_RESPONSE | SMSG_AUTH_ERROR | SMSG_AUTH_OK | SMSG_PLAY_OK | CMSG_RECONNECT_ATTEMPT | MSG_AUTH_UNKNOWN

text \<open>\<open>SMSG_AUTH_INVALID_PASSWORD\<close> is the same number as \<open>CMSG_AUTH_SELECT_DBSERVER\<close>.\<close>

abbreviation SMSG_AUTH_INVALID_PASSWORD :: auth_packet_type where
  "SMSG_AUTH_INVALID_PASSWORD \<equiv> CMSG_AUTH_SELECT_DBSERVER"

text \<open>\<open>EventForType\<close>: a new event, \<open>Some None\<close> for the null pointer and \<open>None\<close> for the failed assertion.\<close>

fun EventForType :: "auth_packet_type \<Rightarrow> auth_event option option" where
  "EventForType SMSG_AUTHVERSION = Some (Some (AuthProtocolVersion 1 0))"
| "EventForType SMSG_AUTH_ERROR = Some (Some (AuthorizationError 0))"
| "EventForType CMSG_AUTH_SELECT_DBSERVER = Some (Some (ServerSelectRequest [] 0))"
| "EventForType CMSG_DB_CONN_FAILURE = Some (Some (DbError []))"
| "EventForType PKT_AUTH_LOGIN_SUCCESS = Some (Some (LoginResponse (replicate 8 0) (replicate 8 0) 0 0 0))"
| "EventForType CMSG_AUTH_LOGIN = Some (Some (LoginRequest [] [] 0 0))"
| "EventForType SMSG_AUTH_SERVER_LIST = Some (Some (ServerListResponse [] 0))"
| "EventForType CMSG_AUTH_REQUEST_SERVER_LIST = Some (Some (ServerListRequest [] 255))"
| "EventForType PKT_SELECT_SERVER_RESPONSE = Some (Some (ServerSelectResponse (-1) (-1) 255))"
| "EventForType CMSG_RECONNECT_ATTEMPT = Some (Some (ReconnectAttempt []))"
| "EventForType MSG_AUTH_UNKNOWN = Some None"
| "EventForType _ = None"

end
