(* ===== verification/Auth_Codec.thy ===== *)
theory Auth_Codec
  imports Prelude
begin

unbundle bit_operations_syntax

text \<open>
  The encryption of the login protocol, \<open>AuthPacketCodec\<close> of \<open>Common/AuthProtocol/AuthPacketCodec.h\<close> and
  \<open>AuthPacketCodec.cpp\<close>: DES on the login details, and a chain of exclusive ors on every packet.

  \<open>unsigned long\<close> is taken as 64 bits wide (Linux and other LP64 systems), so that the shifts of the
  code can move bits beyond the lower half of a word; the lemmas of \<open>Auth_Codec_Correct\<close> show that
  these never matter. \<open>bool\<close> stands for the bytes 0 and 1 of the key schedule. The global array \<open>KnL\<close>
  is written by \<open>deskey\<close> and copied by \<open>cpkey\<close> right afterwards; here \<open>deskey\<close> returns it.
\<close>

section \<open>Tables\<close>

definition bytebit :: "u8 list" where
  "bytebit = [
    128, 64, 32, 16, 8, 4, 2, 1]"

definition bigbyte :: "u64 list" where
  "bigbyte = [
    0x800000, 0x400000, 0x200000, 0x100000, 0x80000, 0x40000, 0x20000, 0x10000,
    0x8000, 0x4000, 0x2000, 0x1000, 0x800, 0x400, 0x200, 0x100,
    0x80, 0x40, 0x20, 0x10, 0x8, 0x4, 0x2, 0x1]"

definition pc1 :: "nat list" where
  "pc1 = [
    56, 48, 40, 32, 24, 16, 8, 0, 57, 49, 41, 33, 25, 17,
    9, 1, 58, 50, 42, 34, 26, 18, 10, 2, 59, 51, 43, 35,
    62, 54, 46, 38, 30, 22, 14, 6, 61, 53, 45, 37, 29, 21,
    13, 5, 60, 52, 44, 36, 28, 20, 12, 4, 27, 19, 11, 3]"

definition totrot :: "nat list" where
  "totrot = [
    1, 2, 4, 6, 8, 10, 12, 14, 15, 17, 19, 21, 23, 25, 27, 28]"

definition pc2 :: "nat list" where
  "pc2 = [
    13, 16, 10, 23, 0, 4, 2, 27, 14, 5, 20, 9,
    22, 18, 11, 3, 25, 7, 15, 6, 26, 19, 12, 1,
    40, 51, 30, 36, 46, 54, 29, 39, 50, 44, 32, 47,
    43, 48, 38, 55, 33, 52, 45, 41, 49, 35, 28, 31]"

definition SP1 :: "u64 list" where
  "SP1 = [
    0x01010400, 0x00000000, 0x00010000, 0x01010404,
    0x01010004, 0x00010404, 0x00000004, 0x00010000,
    0x00000400, 0x01010400, 0x01010404, 0x00000400,
    0x01000404, 0x01010004, 0x01000000, 0x00000004,
    0x00000404, 0x01000400, 0x01000400, 0x00010400,
    0x00010400, 0x01010000, 0x01010000, 0x01000404,
    0x00010004, 0x01000004, 0x01000004, 0x00010004,
    0x00000000, 0x00000404, 0x00010404, 0x01000000,
    0x00010000, 0x01010404, 0x00000004, 0x01010000,
    0x01010400, 0x01000000, 0x01000000, 0x00000400,
    0x01010004, 0x00010000, 0x00010400, 0x01000004,
    0x00000400, 0x00000004, 0x01000404, 0x00010404,
    0x01010404, 0x00010004, 0x01010000, 0x01000404,
    0x01000004, 0x00000404, 0x00010404, 0x01010400,
    0x00000404, 0x01000400, 0x01000400, 0x00000000,
    0x00010004, 0x00010400, 0x00000000, 0x01010004]"

definition SP2 :: "u64 list" where
  "SP2 = [
    0x80108020, 0x80008000, 0x00008000, 0x00108020,
    0x00100000, 0x00000020, 0x80100020, 0x80008020,
    0x80000020, 0x80108020, 0x80108000, 0x80000000,
    0x80008000, 0x00100000, 0x00000020, 0x80100020,
    0x00108000, 0x00100020, 0x80008020, 0x00000000,
    0x80000000, 0x00008000, 0x00108020, 0x80100000,
    0x00100020, 0x80000020, 0x00000000, 0x00108000,
    0x00008020, 0x80108000, 0x80100000, 0x00008020,
    0x00000000, 0x00108020, 0x80100020, 0x00100000,
    0x80008020, 0x80100000, 0x80108000, 0x00008000,
    0x80100000, 0x80008000, 0x00000020, 0x80108020,
    0x00108020, 0x00000020, 0x00008000, 0x80000000,
    0x00008020, 0x80108000, 0x00100000, 0x80000020,
    0x00100020, 0x80008020, 0x80000020, 0x00100020,
    0x00108000, 0x00000000, 0x80008000, 0x00008020,
    0x80000000, 0x80100020, 0x80108020, 0x00108000]"

definition SP3 :: "u64 list" where
  "SP3 = [
    0x00000208, 0x08020200, 0x00000000, 0x08020008,
    0x08000200, 0x00000000, 0x00020208, 0x08000200,
    0x00020008, 0x08000008, 0x08000008, 0x00020000,
    0x08020208, 0x00020008, 0x08020000, 0x00000208,
    0x08000000, 0x00000008, 0x08020200, 0x00000200,
    0x00020200, 0x08020000, 0x08020008, 0x00020208,
    0x08000208, 0x00020200, 0x00020000, 0x08000208,
    0x00000008, 0x08020208, 0x00000200, 0x08000000,
    0x08020200, 0x08000000, 0x00020008, 0x00000208,
    0x00020000, 0x08020200, 0x08000200, 0x00000000,
    0x00000200, 0x00020008, 0x08020208, 0x08000200,
    0x08000008, 0x00000200, 0x00000000, 0x08020008,
    0x08000208, 0x00020000, 0x08000000, 0x08020208,
    0x00000008, 0x00020208, 0x00020200, 0x08000008,
    0x08020000, 0x08000208, 0x00000208, 0x08020000,
    0x00020208, 0x00000008, 0x08020008, 0x00020200]"

definition SP4 :: "u64 list" where
  "SP4 = [
    0x00802001, 0x00002081, 0x00002081, 0x00000080,
    0x00802080, 0x00800081, 0x00800001, 0x00002001,
    0x00000000, 0x00802000, 0x00802000, 0x00802081,
    0x00000081, 0x00000000, 0x00800080, 0x00800001,
    0x00000001, 0x00002000, 0x00800000, 0x00802001,
    0x00000080, 0x00800000, 0x00002001, 0x00002080,
    0x00800081, 0x00000001, 0x00002080, 0x00800080,
    0x00002000, 0x00802080, 0x00802081, 0x00000081,
    0x00800080, 0x00800001, 0x00802000, 0x00802081,
    0x00000081, 0x00000000, 0x00000000, 0x00802000,
    0x00002080, 0x00800080, 0x00800081, 0x00000001,
    0x00802001, 0x00002081, 0x00002081, 0x00000080,
    0x00802081, 0x00000081, 0x00000001, 0x00002000,
    0x00800001, 0x00002001, 0x00802080, 0x00800081,
    0x00002001, 0x00002080, 0x00800000, 0x00802001,
    0x00000080, 0x00800000, 0x00002000, 0x00802080]"

definition SP5 :: "u64 list" where
  "SP5 = [
    0x00000100, 0x02080100, 0x02080000, 0x42000100,
    0x00080000, 0x00000100, 0x40000000, 0x02080000,
    0x40080100, 0x00080000, 0x02000100, 0x40080100,
    0x42000100, 0x42080000, 0x00080100, 0x40000000,
    0x02000000, 0x40080000, 0x40080000, 0x00000000,
    0x40000100, 0x42080100, 0x42080100, 0x02000100,
    0x42080000, 0x40000100, 0x00000000, 0x42000000,
    0x02080100, 0x02000000, 0x42000000, 0x00080100,
    0x00080000, 0x42000100, 0x00000100, 0x02000000,
    0x40000000, 0x02080000, 0x42000100, 0x40080100,
    0x02000100, 0x40000000, 0x42080000, 0x02080100,
    0x40080100, 0x00000100, 0x02000000, 0x42080000,
    0x42080100, 0x00080100, 0x42000000, 0x42080100,
    0x02080000, 0x00000000, 0x40080000, 0x42000000,
    0x00080100, 0x02000100, 0x40000100, 0x00080000,
    0x00000000, 0x40080000, 0x02080100, 0x40000100]"

definition SP6 :: "u64 list" where
  "SP6 = [
    0x20000010, 0x20400000, 0x00004000, 0x20404010,
    0x20400000, 0x00000010, 0x20404010, 0x00400000,
    0x20004000, 0x00404010, 0x00400000, 0x20000010,
    0x00400010, 0x20004000, 0x20000000, 0x00004010,
    0x00000000, 0x00400010, 0x20004010, 0x00004000,
    0x00404000, 0x20004010, 0x00000010, 0x20400010,
    0x20400010, 0x00000000, 0x00404010, 0x20404000,
    0x00004010, 0x00404000, 0x20404000, 0x20000000,
    0x20004000, 0x00000010, 0x20400010, 0x00404000,
    0x20404010, 0x00400000, 0x00004010, 0x20000010,
    0x00400000, 0x20004000, 0x20000000, 0x00004010,
    0x20000010, 0x20404010, 0x00404000, 0x20400000,
    0x00404010, 0x20404000, 0x00000000, 0x20400010,
    0x00000010, 0x00004000, 0x20400000, 0x00404010,
    0x00004000, 0x00400010, 0x20004010, 0x00000000,
    0x20404000, 0x20000000, 0x00400010, 0x20004010]"

definition SP7 :: "u64 list" where
  "SP7 = [
    0x00200000, 0x04200002, 0x04000802, 0x00000000,
    0x00000800, 0x04000802, 0x00200802, 0x04200800,
    0x04200802, 0x00200000, 0x00000000, 0x04000002,
    0x00000002, 0x04000000, 0x04200002, 0x00000802,
    0x04000800, 0x00200802, 0x00200002, 0x04000800,
    0x04000002, 0x04200000, 0x04200800, 0x00200002,
    0x04200000, 0x00000800, 0x00000802, 0x04200802,
    0x00200800, 0x00000002, 0x04000000, 0x00200800,
    0x04000000, 0x00200800, 0x00200000, 0x04000802,
    0x04000802, 0x04200002, 0x04200002, 0x00000002,
    0x00200002, 0x04000000, 0x04000800, 0x00200000,
    0x04200800, 0x00000802, 0x00200802, 0x04200800,
    0x00000802, 0x04000002, 0x04200802, 0x04200000,
    0x00200800, 0x00000000, 0x00000002, 0x04200802,
    0x00000000, 0x00200802, 0x04200000, 0x00000800,
    0x04000002, 0x04000800, 0x00000800, 0x00200002]"

definition SP8 :: "u64 list" where
  "SP8 = [
    0x10001040, 0x00001000, 0x00040000, 0x10041040,
    0x10000000, 0x10001040, 0x00000040, 0x10000000,
    0x00040040, 0x10040000, 0x10041040, 0x00041000,
    0x10041000, 0x00041040, 0x00001000, 0x00000040,
    0x10040000, 0x10000040, 0x10001000, 0x00001040,
    0x00041000, 0x00040040, 0x10040040, 0x10041000,
    0x00001040, 0x00000000, 0x00000000, 0x10040040,
    0x10000040, 0x10001000, 0x00041040, 0x00040000,
    0x00041040, 0x00040000, 0x10041000, 0x00001000,
    0x00000040, 0x10040040, 0x00001000, 0x00041040,
    0x10001000, 0x00000040, 0x10000040, 0x10040000,
    0x10040040, 0x10000000, 0x00040000, 0x10001040,
    0x00000000, 0x10041040, 0x00040040, 0x10000040,
    0x10040000, 0x10001000, 0x10001040, 0x00000000,
    0x10041040, 0x00041000, 0x00041000, 0x00001040,
    0x00001040, 0x00040040, 0x10000000, 0x10041000]"

section \<open>Key schedule\<close>

datatype des_direction = EN0 | DE1

definition permuted_key :: "u8 list \<Rightarrow> bool list" where
  "permuted_key key = map (\<lambda>l. (key ! (l div 8)) AND (bytebit ! (l mod 8)) \<noteq> 0) pc1"

text \<open>The two halves of the key, each rotated.\<close>

definition rotated_key :: "bool list \<Rightarrow> nat \<Rightarrow> bool list" where
  "rotated_key pc1m i =
    map (\<lambda>j. let l = j + totrot ! i in if l < 28 then pc1m ! l else pc1m ! (l - 28)) [0..<28] @
    map (\<lambda>j. let l = j + totrot ! i in if l < 56 then pc1m ! l else pc1m ! (l - 28)) [28..<56]"

definition raw_key :: "bool list \<Rightarrow> nat \<Rightarrow> u64" where
  "raw_key pcr from_bit = foldl (\<lambda>k j. if pcr ! (pc2 ! (j + from_bit)) then k OR bigbyte ! j else k) 0 [0..<24]"

definition deskey_step :: "bool list \<Rightarrow> des_direction \<Rightarrow> nat \<Rightarrow> u64 list \<Rightarrow> u64 list" where
  "deskey_step pc1m edf i kn =
    (let m = (if edf = DE1 then (15 - i) * 2 else i * 2); n = m + 1; pcr = rotated_key pc1m i
     in kn[m := raw_key pcr 0, n := raw_key pcr 24])"

fun cookey :: "u64 list \<Rightarrow> u64 list" where
  "cookey (raw0 # raw1 # raw) =
    ((push_bit 6 (raw0 AND 0x00fc0000)) OR (push_bit 10 (raw0 AND 0x00000fc0)) OR
       (drop_bit 10 (raw1 AND 0x00fc0000)) OR (drop_bit 6 (raw1 AND 0x00000fc0))) #
    ((push_bit 12 (raw0 AND 0x0003f000)) OR (push_bit 16 (raw0 AND 0x0000003f)) OR
       (drop_bit 4 (raw1 AND 0x0003f000)) OR (raw1 AND 0x0000003f)) #
    cookey raw"
| "cookey _ = []"

text \<open>\<open>deskey\<close>; every entry of the local array \<open>kn\<close> is written, so that its first value does not matter.\<close>

definition deskey :: "u8 list \<Rightarrow> des_direction \<Rightarrow> u64 list" where
  "deskey key edf = cookey (fold (deskey_step (permuted_key key) edf) [0..<16] (replicate 32 0))"

section \<open>One block\<close>

definition scrunch :: "u8 list \<Rightarrow> u64 \<times> u64" where
  "scrunch cs =
    (push_bit 24 (ucast (cs ! 0)) OR push_bit 16 (ucast (cs ! 1)) OR push_bit 8 (ucast (cs ! 2)) OR ucast (cs ! 3),
     push_bit 24 (ucast (cs ! 4)) OR push_bit 16 (ucast (cs ! 5)) OR push_bit 8 (ucast (cs ! 6)) OR ucast (cs ! 7))"

definition unscrun :: "u64 \<times> u64 \<Rightarrow> u8 list" where
  "unscrun w = (let (a, b) = w in
    [ucast (drop_bit 24 a AND 0xff), ucast (drop_bit 16 a AND 0xff), ucast (drop_bit 8 a AND 0xff), ucast (a AND 0xff),
     ucast (drop_bit 24 b AND 0xff), ucast (drop_bit 16 b AND 0xff), ucast (drop_bit 8 b AND 0xff), ucast (b AND 0xff)])"

definition sp_index :: "nat \<Rightarrow> u64 \<Rightarrow> nat" where
  "sp_index n work = unat (drop_bit n work AND 0x3f)"

text \<open>What one round adds to the other half: \<open>fval\<close> of the half \<open>right\<close> and two words of the key.\<close>

definition round_value :: "u64 \<Rightarrow> u64 \<Rightarrow> u64 \<Rightarrow> u64" where
  "round_value right k0 k1 =
    (let work = (push_bit 28 right OR drop_bit 4 right) XOR k0;
         fval = SP7 ! sp_index 0 work;
         fval = fval OR SP5 ! sp_index 8 work;
         fval = fval OR SP3 ! sp_index 16 work;
         fval = fval OR SP1 ! sp_index 24 work;
         work = right XOR k1;
         fval = fval OR SP8 ! sp_index 0 work;
         fval = fval OR SP6 ! sp_index 8 work;
         fval = fval OR SP4 ! sp_index 16 work;
         fval = fval OR SP2 ! sp_index 24 work
     in fval)"

text \<open>The loop; it consumes four words of the key at a time, and there are 32.\<close>

fun des_rounds :: "u64 list \<Rightarrow> u64 \<times> u64 \<Rightarrow> u64 \<times> u64" where
  "des_rounds (k0 # k1 # k2 # k3 # keys) (leftt, right) =
    (let leftt = leftt XOR round_value right k0 k1;
         right = right XOR round_value leftt k2 k3
     in des_rounds keys (leftt, right))"
| "des_rounds _ lr = lr"

definition des_initial :: "u64 \<times> u64 \<Rightarrow> u64 \<times> u64" where
  "des_initial b =
    (let (leftt, right) = b;
         work = (drop_bit 4 leftt XOR right) AND 0x0f0f0f0f;
         right = right XOR work;
         leftt = leftt XOR push_bit 4 work;
         work = (drop_bit 16 leftt XOR right) AND 0x0000ffff;
         right = right XOR work;
         leftt = leftt XOR push_bit 16 work;
         work = (drop_bit 2 right XOR leftt) AND 0x33333333;
         leftt = leftt XOR work;
         right = right XOR push_bit 2 work;
         work = (drop_bit 8 right XOR leftt) AND 0x00ff00ff;
         leftt = leftt XOR work;
         right = right XOR push_bit 8 work;
         right = (push_bit 1 right OR (drop_bit 31 right AND 1)) AND 0xffffffff;
         work = (leftt XOR right) AND 0xaaaaaaaa;
         leftt = leftt XOR work;
         right = right XOR work;
         leftt = (push_bit 1 leftt OR (drop_bit 31 leftt AND 1)) AND 0xffffffff
     in (leftt, right))"

definition des_final :: "u64 \<times> u64 \<Rightarrow> u64 \<times> u64" where
  "des_final b =
    (let (leftt, right) = b;
         right = push_bit 31 right OR drop_bit 1 right;
         work = (leftt XOR right) AND 0xaaaaaaaa;
         leftt = leftt XOR work;
         right = right XOR work;
         leftt = push_bit 31 leftt OR drop_bit 1 leftt;
         work = (drop_bit 8 leftt XOR right) AND 0x00ff00ff;
         right = right XOR work;
         leftt = leftt XOR push_bit 8 work;
         work = (drop_bit 2 leftt XOR right) AND 0x33333333;
         right = right XOR work;
         leftt = leftt XOR push_bit 2 work;
         work = (drop_bit 16 right XOR leftt) AND 0x0000ffff;
         leftt = leftt XOR work;
         right = right XOR push_bit 16 work;
         work = (drop_bit 4 right XOR leftt) AND 0x0f0f0f0f;
         leftt = leftt XOR work;
         right = right XOR push_bit 4 work
     in (right, leftt))"

definition desfunc :: "u64 \<times> u64 \<Rightarrow> u64 list \<Rightarrow> u64 \<times> u64" where
  "desfunc blk keys = des_final (des_rounds keys (des_initial blk))"

section \<open>The codec\<close>

record auth_codec =
  ek :: "u64 list"
  dk :: "u64 list"
  xor_enc_key :: u64
  xor_dec_key :: u64

text \<open>The bytes of a 64-bit number in memory, the lowest one first.\<close>

definition key_bytes :: "u64 \<Rightarrow> u8 list" where
  "key_bytes k = map (\<lambda>i. ucast (drop_bit (8 * i) k)) [0..<8]"

definition SetDesKey :: "u64 \<Rightarrow> auth_codec \<Rightarrow> auth_codec" where
  "SetDesKey key c = c\<lparr>ek := deskey (key_bytes key) EN0, dk := deskey (key_bytes key) DE1\<rparr>"

definition SetXorKey :: "32 word \<Rightarrow> auth_codec \<Rightarrow> auth_codec" where
  "SetXorKey key c =
    (let c = c\<lparr>xor_enc_key := 0, xor_dec_key := 0\<rparr> in
     if key \<noteq> -1 then
       (let k = 0x87546CA100000000 OR scast key in c\<lparr>xor_enc_key := k, xor_dec_key := k\<rparr>)
     else c)"

text \<open>The constructor; the key tables of the context stay uninitialised.\<close>

definition new_codec :: "u64 list \<Rightarrow> u64 list \<Rightarrow> auth_codec" where
  "new_codec ek0 dk0 = SetXorKey (-1) \<lparr>ek = ek0, dk = dk0, xor_enc_key = 0, xor_dec_key = 0\<rparr>"

text \<open>
  The loops over a buffer. In \<open>xor_chain\<close> the byte before is the coded one; in \<open>xor_unchain\<close> it is
  the byte before as it was received, \<open>prev\<close>.
\<close>

fun xor_chain :: "u8 list \<Rightarrow> nat \<Rightarrow> u8 \<Rightarrow> u8 list \<Rightarrow> u8 list" where
  "xor_chain Key i before [] = []"
| "xor_chain Key i before (b # bs) =
    (let b = b XOR (before XOR Key ! (i mod 8)) in b # xor_chain Key (i + 1) b bs)"

fun xor_unchain :: "u8 list \<Rightarrow> nat \<Rightarrow> u8 \<Rightarrow> u8 list \<Rightarrow> u8 list" where
  "xor_unchain Key i prev [] = []"
| "xor_unchain Key i prev (b # bs) = ((b XOR prev) XOR Key ! (i mod 8)) # xor_unchain Key (i + 1) b bs"

text \<open>The first byte is accessed whatever the length, hence \<open>None\<close> for an empty buffer.\<close>

definition XorCodeBuf :: "u8 list \<Rightarrow> auth_codec \<Rightarrow> (u8 list \<times> auth_codec) option" where
  "XorCodeBuf buffer c =
    (if xor_enc_key c = 0 then Some (buffer, c)
     else case buffer of
       [] \<Rightarrow> None
     | b # bs \<Rightarrow>
        (let Key = key_bytes (xor_enc_key c); b = b XOR Key ! 0
         in Some (b # xor_chain Key 1 b bs, c\<lparr>xor_enc_key := xor_enc_key c + of_nat (length buffer)\<rparr>)))"

definition XorDecodeBuf :: "u8 list \<Rightarrow> auth_codec \<Rightarrow> (u8 list \<times> auth_codec) option" where
  "XorDecodeBuf buffer c =
    (if xor_dec_key c = 0 then Some (buffer, c)
     else case buffer of
       [] \<Rightarrow> None
     | b # bs \<Rightarrow>
        (let Key = key_bytes (xor_dec_key c)
         in Some ((b XOR Key ! 0) # xor_unchain Key 1 b bs, c\<lparr>xor_dec_key := xor_dec_key c + of_nat (length buffer)\<rparr>)))"

text \<open>The loop of \<open>DesCode\<close> and \<open>DesDecode\<close> over the blocks; the rest of the buffer stays.\<close>

fun des_blocks :: "u64 list \<Rightarrow> nat \<Rightarrow> u8 list \<Rightarrow> u8 list" where
  "des_blocks keys 0 cs = cs"
| "des_blocks keys (Suc blocks) cs =
    unscrun (desfunc (scrunch (take 8 cs)) keys) @ des_blocks keys blocks (drop 8 cs)"

definition DesCode :: "auth_codec \<Rightarrow> u8 list \<Rightarrow> u8 list" where
  "DesCode c in_block = des_blocks (ek c) (length in_block div 8) in_block"

definition DesDecode :: "auth_codec \<Rightarrow> u8 list \<Rightarrow> u8 list" where
  "DesDecode c in_block = des_blocks (dk c) (length in_block div 8) in_block"

definition Code :: "u8 list \<Rightarrow> auth_codec \<Rightarrow> (u8 list \<times> auth_codec) option" where
  "Code buffer c =
    (let buffer = DesCode c buffer in if xor_enc_key c \<noteq> 0 then XorCodeBuf buffer c else Some (buffer, c))"

definition Decode :: "u8 list \<Rightarrow> auth_codec \<Rightarrow> (u8 list \<times> auth_codec) option" where
  "Decode buffer c =
    (let buffer = DesDecode c buffer in if xor_dec_key c \<noteq> 0 then XorDecodeBuf buffer c else Some (buffer, c))"

end
