(* ===== verification/Auth_Link.thy ===== *)
theory Auth_Link
  imports Auth_Events Auth_Codec
begin

text \<open>
  The connection between a client and the authentication server: \<open>AuthLink\<close> and its hidden state,
  \<open>Common/AuthProtocol/AuthLink.h\<close> and \<open>AuthLink.cpp\<close>.

  Packets are written into and read from growing buffers; the pointers the code takes into them are
  offsets here, and an access outside the allocation, or through a pointer into an allocation that
  was replaced since, is the result \<open>None\<close>. Sockets and the reactor belong to the ACE library: what a
  socket accepts or delivers is an argument.
\<close>

section \<open>State\<close>

datatype auth_link_type = Server | Client

datatype link_stage = INITIAL | CONNECTED | AUTHORIZED | CLIENT_SERVSELECT | CLIENT_AWAITING_DISCONNECT | DISCONNECTED

record auth_link_state =
  m_received_bytes_storage :: growing_buffer
  m_unsent_bytes_storage :: growing_buffer
  m_connection_stage :: link_stage
  m_direction :: auth_link_type
  m_codec :: auth_codec
  m_protocol_version :: int

definition new_auth_link :: "(nat \<Rightarrow> u8) \<Rightarrow> auth_codec \<Rightarrow> auth_link_type \<Rightarrow> auth_link_state" where
  "new_auth_link fresh codec link_type =
    \<lparr>m_received_bytes_storage = new_buffer fresh 4096 0 40, m_unsent_bytes_storage = new_buffer fresh 512 0 40,
     m_connection_stage = INITIAL, m_direction = link_type, m_codec = codec, m_protocol_version = -1\<rparr>"

section \<open>Writing packets\<close>

text \<open>The bytes of a buffer from a position on, and replacing them in place.\<close>

definition peek :: "growing_buffer \<Rightarrow> nat \<Rightarrow> nat \<Rightarrow> u8 list option" where
  "peek b pos n = (if pos + n \<le> length (m_buf b) then Some (block (m_buf b) pos n) else None)"

definition poke :: "nat \<Rightarrow> u8 list \<Rightarrow> growing_buffer \<Rightarrow> growing_buffer" where
  "poke pos bs b = b\<lparr>m_buf := overwrite (m_buf b) pos bs\<rparr>"

definition encode_buffer :: "auth_event \<Rightarrow> auth_link_state \<Rightarrow> auth_link_state option" where
  "encode_buffer ev s =
    do {
      let packet_size_at = m_write_off (m_unsent_bytes_storage s);
      b \<leftarrow> uPut [0, 0] (m_unsent_bytes_storage s);
      let actual_packet_start = GetReadableDataSize b;
      let allocated = m_size b;
      b \<leftarrow> serializeto ev b;
      if m_size b \<noteq> allocated then None
      else do {
        let packet_size = (of_nat (GetReadableDataSize b - actual_packet_start) :: u16) - 1;
        let b = poke packet_size_at (le_bytes 2 packet_size) b;
        let start = m_read_off b + actual_packet_start;
        b \<leftarrow> (case ev of
            LoginRequest _ _ _ _ \<Rightarrow> do {
              details \<leftarrow> peek b (start + 1) 30;
              Some (poke (start + 1) (DesCode (m_codec s) details) b) }
          | _ \<Rightarrow> Some b);
        (case ev of
            AuthProtocolVersion _ _ \<Rightarrow> Some (s\<lparr>m_unsent_bytes_storage := b\<rparr>)
          | _ \<Rightarrow> do {
              packet \<leftarrow> peek b start (GetReadableDataSize b - actual_packet_start);
              (packet, codec) \<leftarrow> XorCodeBuf packet (m_codec s);
              Some (s\<lparr>m_unsent_bytes_storage := poke start packet b, m_codec := codec\<rparr>) }) } }"

section \<open>Reading packets\<close>

fun OpcodeToType :: "auth_link_type \<Rightarrow> u8 \<Rightarrow> auth_packet_type" where
  "OpcodeToType Client opcode =
    (if opcode = 0 then SMSG_AUTHVERSION
     else if opcode = 1 then SMSG_AUTH_ALREADY_LOGGED_IN
     else if opcode = 2 then SMSG_AUTH_INVALID_PASSWORD
     else if opcode = 3 then PKT_AUTH_LOGIN_SUCCESS
     else if opcode = 4 then SMSG_AUTH_SERVER_LIST
     else if opcode = 5 then CMSG_DB_CONN_FAILURE
     else if opcode = 6 then SMSG_AUTH_OK
     else if opcode = 7 then PKT_SELECT_SERVER_RESPONSE
     else if opcode = 9 then SMSG_AUTH_ERROR
     else MSG_AUTH_UNKNOWN)"
| "OpcodeToType Server opcode =
    (if opcode = 0 then CMSG_AUTH_LOGIN
     else if opcode = 2 then CMSG_AUTH_SELECT_DBSERVER
     else if opcode = 3 then CMSG_RECONNECT_ATTEMPT
     else if opcode = 5 then CMSG_AUTH_REQUEST_SERVER_LIST
     else MSG_AUTH_UNKNOWN)"

text \<open>
  One turn of the loop of \<open>bytes_to_event\<close>: \<open>Inl\<close> when the loop goes on, \<open>Inr\<close> when it returns. The
  pointer \<open>tmp\<close> is the constant offset 2.
\<close>

definition bytes_to_event_turn :: "u8 list \<Rightarrow> auth_link_state \<Rightarrow> (auth_link_state + auth_event option \<times> auth_link_state) option" where
  "bytes_to_event_turn junk s =
    (let b = m_received_bytes_storage s in
     if GetReadableDataSize b \<le> 2 then Some (Inr (None, s))
     else do {
       (packet_size :: u16, b) \<leftarrow> uGet 2 b;
       if GetReadableDataSize b < unat packet_size then do {
         b \<leftarrow> PopFront 1 b;
         Some (Inl (s\<lparr>m_received_bytes_storage := b\<rparr>)) }
       else do {
         packet \<leftarrow> peek b 2 (unat packet_size + 1);
         (packet, codec) \<leftarrow> XorDecodeBuf packet (m_codec s);
         let b = poke 2 packet b;
         opcode \<leftarrow> peek b 2 1;
         evt \<leftarrow> EventForType (OpcodeToType (m_direction s) (hd opcode));
         (case evt of
           None \<Rightarrow>
            (if GetReadableDataSize b > 2 then do {
               (_ :: u16, b) \<leftarrow> uGet 2 b;
               Some (Inl (s\<lparr>m_received_bytes_storage := b, m_codec := codec\<rparr>)) }
             else Some (Inl (s\<lparr>m_received_bytes_storage := b, m_codec := codec\<rparr>)))
         | Some evt \<Rightarrow> do {
             b \<leftarrow> (case evt of
                 LoginRequest _ _ _ _ \<Rightarrow> do { details \<leftarrow> peek b 3 30; Some (poke 3 (DesDecode codec details) b) }
               | _ \<Rightarrow> Some b);
             (evt, b) \<leftarrow> serializefrom junk evt b;
             b \<leftarrow> PopFront (unat packet_size + 3) b;
             Some (Inr (Some evt, s\<lparr>m_received_bytes_storage := b, m_codec := codec\<rparr>)) }) } })"

lemma uGetBytes_readable:
  "uGetBytes n b = Some (t, b') \<Longrightarrow> b' = b\<lparr>m_read_off := m_read_off b + n\<rparr>"
  by (auto simp: uGetBytes_def split: if_splits)

lemma uGet_readable: "uGet n b = Some (w, b') \<Longrightarrow> b' = b\<lparr>m_read_off := m_read_off b + n\<rparr>"
  using uGetBytes_readable [of n b] by (auto simp: uGet_def)

lemma wrap32_minus_2: "2 < wrap32 x \<Longrightarrow> wrap32 (x - 2) = wrap32 x - 2"
proof -
  assume a: "2 < wrap32 x"
  have "(x - 2) mod 4294967296 = (x mod 4294967296 - 2) mod 4294967296" by (simp add: mod_diff_left_eq)
  also have "\<dots> = x mod 4294967296 - 2" using a by (intro mod_pos_pos_trivial) (auto simp: wrap32_def)
  finally show ?thesis using a by (simp add: wrap32_def nat_diff_distrib')
qed

lemma readable_after_two:
  "2 < GetReadableDataSize b \<Longrightarrow> GetReadableDataSize (b\<lparr>m_read_off := m_read_off b + 2\<rparr>) = GetReadableDataSize b - 2"
  using wrap32_minus_2 [of "int (m_write_off b) - int (m_read_off b)"] by (simp add: GetReadableDataSize_def algebra_simps)

lemma readable_after_pop:
  "PopFront 1 b = Some b' \<Longrightarrow> 1 \<le> m_read_off b \<Longrightarrow> GetReadableDataSize b' \<le> GetReadableDataSize b"
  by (auto simp: PopFront_def GetReadableDataSize_def Let_def of_nat_diff split: if_splits)

lemma turn_consumes:
  assumes "bytes_to_event_turn junk s = Some (Inl s')"
  shows "GetReadableDataSize (m_received_bytes_storage s') < GetReadableDataSize (m_received_bytes_storage s)"
proof -
  let ?b = "m_received_bytes_storage s"
  have two: "2 < GetReadableDataSize ?b" using assms by (auto simp: bytes_to_event_turn_def Let_def split: if_splits)
  then obtain ps :: u16 and b1 where g: "uGet 2 ?b = Some (ps, b1)"
    using assms by (auto simp: bytes_to_event_turn_def Let_def Option.bind_eq_Some_conv)
  note b1 = uGet_readable [OF g]
  have r1: "GetReadableDataSize b1 = GetReadableDataSize ?b - 2" using readable_after_two [OF two] b1 by simp
  show ?thesis
  proof (cases "GetReadableDataSize b1 < unat ps")
    case True
    then obtain b2 where "PopFront 1 b1 = Some b2" "s' = s\<lparr>m_received_bytes_storage := b2\<rparr>"
      using assms two g by (auto simp: bytes_to_event_turn_def Let_def Option.bind_eq_Some_conv)
    with readable_after_pop [of b1 b2] b1 r1 two show ?thesis by simp
  next
    case False
    have same: "GetReadableDataSize (poke n bs b1) = GetReadableDataSize b1" for n bs
      by (simp add: poke_def GetReadableDataSize_def)
    have less: "GetReadableDataSize b \<le> GetReadableDataSize b1"
      if "uGet 2 (poke n bs b1) = Some (w :: u16, b)" "2 < GetReadableDataSize b1" for n bs w b
      using uGet_readable [OF that(1)] readable_after_two [of "poke n bs b1"] that(2) by (simp add: same)
    show ?thesis
      using assms two g False r1 by (auto simp: bytes_to_event_turn_def Let_def Option.bind_eq_Some_conv same
          dest!: less split: if_splits option.splits sum.splits)
  qed
qed

function bytes_to_event :: "u8 list \<Rightarrow> auth_link_state \<Rightarrow> (auth_event option \<times> auth_link_state) option" where
  "bytes_to_event junk s =
    (case bytes_to_event_turn junk s of
       None \<Rightarrow> None
     | Some (Inl s') \<Rightarrow> bytes_to_event junk s'
     | Some (Inr res) \<Rightarrow> Some res)"
  by pat_completeness auto

termination bytes_to_event
  by (relation "measure (\<lambda>(junk, s). GetReadableDataSize (m_received_bytes_storage s))") (auto dest: turn_consumes)

declare bytes_to_event.simps [simp del]

section \<open>Keys\<close>

text \<open>\<open>KeyPrepare\<close> on the memory of a C string.\<close>

fun key_prepare_loop :: "u8 list \<Rightarrow> nat \<Rightarrow> u8 list \<Rightarrow> u8 list option" where
  "key_prepare_loop [] index t = None"
| "key_prepare_loop (val # co_string) index t =
    (if val = 0 then Some t
     else if index \<ge> 40 then Some t
     else key_prepare_loop co_string (index + 1) (t[index mod 8 := t ! (index mod 8) XOR val]))"

definition KeyPrepare :: "u8 list \<Rightarrow> u64 option" where
  "KeyPrepare co_string = map_option of_le_bytes (key_prepare_loop co_string 0 (replicate 8 0))"

definition key_30207 :: "u8 list" where
  "key_30207 = [0x39, 0x3D, 0x33, 0x2A, 0x32, 0x3B, 0x78, 0x5D,
     0x31, 0x31, 0x73, 0x61, 0x3B, 0x2F, 0x34, 0x73,
     0x64, 0x2E, 0x25, 0x2B, 0x24, 0x40, 0x61, 0x2A,
     0x27, 0x21, 0x32, 0x7A, 0x30, 0x7E, 0x67, 0x60,
     0x7B, 0x7A, 0x5D, 0x3F, 0x6E, 0x38, 0x28, 0]"

definition set_protocol_version :: "int \<Rightarrow> auth_link_state \<Rightarrow> auth_link_state option" where
  "set_protocol_version vers s =
    (let s = s\<lparr>m_protocol_version := vers\<rparr> in
     do {
       key \<leftarrow> KeyPrepare (if m_protocol_version s = 30206 then map of_char ''TEST'' @ [0] else key_30207);
       Some (s\<lparr>m_codec := SetDesKey key (m_codec s)\<rparr>) })"

definition init_crypto :: "int \<Rightarrow> u32 \<Rightarrow> auth_link_state \<Rightarrow> auth_link_state option" where
  "init_crypto vers seed s = do {
     s \<leftarrow> set_protocol_version vers s;
     Some (s\<lparr>m_codec := SetXorKey seed (m_codec s)\<rparr>) }"

section \<open>The link\<close>

text \<open>\<open>send_buffer\<close>: the socket takes \<open>send_cnt\<close> bytes, or fails with -1.\<close>

definition send_buffer :: "nat option \<Rightarrow> auth_link_state \<Rightarrow> (bool \<times> u8 list \<times> auth_link_state) option" where
  "send_buffer send_cnt s =
    (let b = m_unsent_bytes_storage s in
     do {
       (sent, b) \<leftarrow> (case send_cnt of
          None \<Rightarrow> Some ([], b)
        | Some n \<Rightarrow> do { sent \<leftarrow> peek b (m_read_off b) n; b \<leftarrow> PopFront n b; Some (sent, b) });
       Some (\<not> GetReadableDataSize b > 0, sent, s\<lparr>m_unsent_bytes_storage := b\<rparr>) })"

text \<open>\<open>handle_input\<close>: the received bytes, and the event for the handler if there is one.\<close>

definition handle_input :: "u8 list \<Rightarrow> u8 list \<Rightarrow> auth_link_state \<Rightarrow> (auth_event option \<times> auth_link_state) option" where
  "handle_input junk buffer s =
    do {
      b \<leftarrow> PutBytes buffer (length buffer) (m_received_bytes_storage s);
      let b = ResetReading_bytes b;
      let s = s\<lparr>m_received_bytes_storage := b\<rparr>;
      if GetReadableDataSize b < 2 then Some (None, s)
      else bytes_to_event junk s }"

datatype auth_queue_event = Finish | SendLeftovers | LinkEvent auth_event

text \<open>
  \<open>handle_output\<close>: the results of the socket are a list with one entry for each call. The result
  says whether the link stays open, with the bytes sent and the rest of the queue.
\<close>

fun auth_handle_output :: "auth_queue_event list \<Rightarrow> nat option list \<Rightarrow> auth_link_state \<Rightarrow>
    (bool \<times> u8 list \<times> auth_queue_event list \<times> auth_link_state) option" where
  "auth_handle_output [] cnts s = Some (True, [], [], s)"
| "auth_handle_output (ev # q) cnts s =
    (if ev = Finish then Some (False, [], q, s)
     else do {
       s \<leftarrow> (case ev of
           LinkEvent e \<Rightarrow> encode_buffer e s
         | _ \<Rightarrow> (if GetReadableDataSize (m_unsent_bytes_storage s) > 0 then Some s else None));
       (ok, sent, s) \<leftarrow> send_buffer (case cnts of [] \<Rightarrow> None | c # _ \<Rightarrow> c) s;
       if \<not> ok then Some (True, sent, SendLeftovers # q, s)
       else do {
         (alive, sent', q, s) \<leftarrow> auth_handle_output q (tl cnts) s;
         Some (alive, sent @ sent', q, s) } })"

end
