(* ===== verification/Auth_Codec_Correct.thy ===== *)
theory Auth_Codec_Correct
  imports Auth_Codec
begin

text \<open>
  That the codec is reversible: the rounds of DES undo each other when the keys are taken in the
  opposite order, the two permutations are inverse on the lower halves of the words, and the two
  chains of exclusive ors are inverse and keep their keys in step.
\<close>

section \<open>Exchanging bits\<close>

text \<open>The steps of both permutations exchange the bits of \<open>b\<close> under a mask with those of \<open>a\<close> shifted by \<open>n\<close>.\<close>

definition exchange :: "nat \<Rightarrow> u64 \<Rightarrow> u64 \<times> u64 \<Rightarrow> u64 \<times> u64" where
  "exchange n m ab = (let (a, b) = ab; w = (drop_bit n a XOR b) AND m in (a XOR push_bit n w, b XOR w))"

abbreviation lo :: "u64 \<Rightarrow> u64" where
  "lo \<equiv> take_bit 32"

lemma drop_push_masked:
  assumes "take_bit (64 - n) m = m" "n \<le> 64"
  shows "drop_bit n (push_bit n (x AND m)) = (x AND m :: u64)"
proof (rule bit_word_eqI)
  fix i assume "i < LENGTH(64)"
  have "bit m i \<Longrightarrow> i < 64 - n" using assms(1) by (metis bit_take_bit_iff)
  then show "bit (drop_bit n (push_bit n (x AND m))) i = bit (x AND m) i"
    by (auto simp: bit_simps)
qed

lemma exchange_Pair:
  "w = (drop_bit n a XOR b) AND m \<Longrightarrow> exchange n m (a, b) = (a XOR push_bit n w, b XOR w)"
  by (simp add: exchange_def)

lemma exchange_twice:
  assumes "take_bit (64 - n) m = m" "n \<le> 64"
  shows "exchange n m (exchange n m ab) = ab"
proof -
  obtain a b where ab: "ab = (a, b)" by fastforce
  define w where "w = (drop_bit n a XOR b) AND m"
  have "drop_bit n (push_bit n w) = w" using drop_push_masked [OF assms] by (simp only: w_def)
  then have "w = (drop_bit n (a XOR push_bit n w) XOR (b XOR w)) AND m"
    by (simp only: drop_bit_xor) (rule bit_word_eqI; auto simp: bit_simps w_def)
  then have "exchange n m (a XOR push_bit n w, b XOR w) = ((a XOR push_bit n w) XOR push_bit n w, (b XOR w) XOR w)"
    by (rule exchange_Pair)
  with exchange_Pair [OF w_def] show ?thesis by (simp add: ab xor.assoc)
qed

lemma exchange_lo:
  assumes "take_bit (32 - n) m = m" "n \<le> 32"
  shows "map_prod lo lo (exchange n m (a, b)) = exchange n m (lo a, lo b)"
proof -
  have m: "i < 32 \<and> i + n < 32" if "bit m i" for i
  proof -
    have "i < 32 - n" using that assms(1) by (metis bit_take_bit_iff)
    then show ?thesis by linarith
  qed
  define w where "w = (drop_bit n a XOR b) AND m"
  have w: "w = (drop_bit n (lo a) XOR lo b) AND m" "lo w = w"
    by (rule bit_word_eqI; auto simp: bit_simps w_def dest: m)+
  have "lo (push_bit n w) = push_bit n w"
    by (rule bit_word_eqI) (auto simp: bit_simps w_def dest: m)
  then show ?thesis by (simp add: exchange_Pair [OF w_def] exchange_Pair [OF w(1)] take_bit_xor w(2))
qed

lemma exchange_bound: "take_bit (32 - n) m = m \<Longrightarrow> n \<le> 32 \<Longrightarrow> lo a = a \<Longrightarrow> lo b = b \<Longrightarrow>
    map_prod lo lo (exchange n m (a, b)) = exchange n m (a, b)"
  using exchange_lo [of n m a b] by simp

text \<open>The rotations by one bit.\<close>

definition rotl :: "u64 \<Rightarrow> u64" where
  "rotl r = (push_bit 1 r OR (drop_bit 31 r AND 1)) AND 0xffffffff"

definition rotr :: "u64 \<Rightarrow> u64" where
  "rotr r = push_bit 31 r OR drop_bit 1 r"

lemma low_mask: "(0xffffffff :: u64) = mask 32"
  by (simp add: mask_eq_exp_minus_1)

lemma bit_rotl: "bit (rotl r) i \<longleftrightarrow> i < 32 \<and> (if i = 0 then bit r 31 else bit r (i - 1))"
  unfolding rotl_def low_mask bit_and_iff bit_or_iff bit_push_bit_iff bit_drop_bit_eq bit_mask_iff
  by (cases "i = 0") (auto simp: bit_1_iff)

lemma bit_rotr: "i < 32 \<Longrightarrow> bit (rotr r) i \<longleftrightarrow> (if i = 31 then bit r 0 \<or> bit r 32 else bit r (i + 1))"
  unfolding rotr_def bit_or_iff bit_push_bit_iff bit_drop_bit_eq by auto

lemma rotl_bound [simp]: "lo (rotl r) = rotl r"
  by (rule bit_word_eqI) (auto simp: bit_take_bit_iff bit_rotl)

lemma bit_bound: "lo r = r \<Longrightarrow> bit r i \<Longrightarrow> i < 32"
  by (metis bit_take_bit_iff)

lemma rotl_rotr:
  assumes r: "lo r = r"
  shows "rotl (lo (rotr r)) = r"
proof (rule bit_word_eqI)
  fix i
  show "bit (rotl (lo (rotr r))) i \<longleftrightarrow> bit r i"
  proof (cases "i = 0")
    case True
    moreover have "\<not> bit r 32" using bit_bound [OF r] by blast
    ultimately show ?thesis by (simp add: bit_rotl bit_take_bit_iff bit_rotr)
  next
    case False
    then obtain j where i: "i = Suc j" by (cases i) auto
    then show ?thesis using bit_bound [OF r, of i] by (cases "i < 32") (auto simp: bit_rotl bit_take_bit_iff bit_rotr)
  qed
qed

lemma rotr_rotl:
  assumes r: "lo r = r"
  shows "lo (rotr (rotl r)) = r"
proof (rule bit_word_eqI)
  fix i
  show "bit (lo (rotr (rotl r))) i \<longleftrightarrow> bit r i"
    using bit_bound [OF r, of i] by (cases "i < 32") (auto simp: bit_take_bit_iff bit_rotr bit_rotl)
qed

section \<open>The permutations\<close>

abbreviation lo2 :: "u64 \<times> u64 \<Rightarrow> u64 \<times> u64" where
  "lo2 \<equiv> map_prod lo lo"

lemma des_initial_steps:
  "des_initial ab = map_prod rotl id (exchange 0 0xaaaaaaaa (map_prod id rotl (prod.swap
     (exchange 8 0x00ff00ff (exchange 2 0x33333333 (prod.swap (exchange 16 0xffff (exchange 4 0x0f0f0f0f ab))))))))"
  by (cases ab) (simp only: des_initial_def exchange_def rotl_def Let_def prod.case map_prod_simp prod.swap_def fst_conv snd_conv id_apply push_bit_0_id drop_bit_0)

lemma des_final_steps:
  "des_final lr = exchange 4 0x0f0f0f0f (exchange 16 0xffff (prod.swap (exchange 2 0x33333333 (exchange 8 0x00ff00ff
     (map_prod rotr id (exchange 0 0xaaaaaaaa (map_prod id rotr lr)))))))"
  by (cases lr) (simp only: des_final_def exchange_def rotr_def Let_def prod.case map_prod_simp prod.swap_def fst_conv snd_conv id_apply push_bit_0_id drop_bit_0)

lemma exchanges_undo [simp]:
  "exchange 4 0x0f0f0f0f (exchange 4 0x0f0f0f0f ab) = ab"
  "exchange 16 0xffff (exchange 16 0xffff ab) = ab"
  "exchange 2 0x33333333 (exchange 2 0x33333333 ab) = ab"
  "exchange 8 0x00ff00ff (exchange 8 0x00ff00ff ab) = ab"
  "exchange 0 0xaaaaaaaa (exchange 0 0xaaaaaaaa ab) = ab"
  by (rule exchange_twice; simp add: take_bit_eq_mod)+

lemma exchanges_lo:
  "lo2 (exchange 4 0x0f0f0f0f ab) = exchange 4 0x0f0f0f0f (lo2 ab)"
  "lo2 (exchange 16 0xffff ab) = exchange 16 0xffff (lo2 ab)"
  "lo2 (exchange 2 0x33333333 ab) = exchange 2 0x33333333 (lo2 ab)"
  "lo2 (exchange 8 0x00ff00ff ab) = exchange 8 0x00ff00ff (lo2 ab)"
  "lo2 (exchange 0 0xaaaaaaaa ab) = exchange 0 0xaaaaaaaa (lo2 ab)"
  by (cases ab; simp; rule exchange_lo; simp)+

lemma lo2_swap: "lo2 (prod.swap ab) = prod.swap (lo2 ab)"
  by (cases ab) simp

lemma exchange_sym: "exchange 0 m (prod.swap ab) = prod.swap (exchange 0 m ab)"
  by (cases ab) (simp add: exchange_def Let_def xor.commute)

lemma masked_bound:
  assumes "lo m = m"
  shows "lo (x AND m) = x AND m"
proof (rule bit_word_eqI)
  fix i
  show "bit (lo (x AND m)) i \<longleftrightarrow> bit (x AND m) i"
    using bit_bound [OF assms, of i] by (auto simp: bit_take_bit_iff bit_and_iff)
qed

lemma fst_exchange_bound: "lo a = a \<Longrightarrow> lo (fst (exchange 0 0xaaaaaaaa (a, b))) = fst (exchange 0 0xaaaaaaaa (a, b))"
  using masked_bound [of "0xaaaaaaaa" "a XOR b"] by (simp add: exchange_def Let_def take_bit_xor)

text \<open>The initial permutation undoes the final one, on the halves as they come back from the bytes.\<close>

lemma des_initial_final:
  assumes l: "lo l = l" and r: "lo r = r"
  shows "des_initial (lo2 (des_final (l, r))) = (r, l)"
proof -
  obtain l1 r1 where e: "exchange 0 0xaaaaaaaa (l, rotr r) = (l1, r1)" by fastforce
  have l1: "lo l1 = l1" using fst_exchange_bound [OF l, of "rotr r"] e by simp
  have "exchange 0 0xaaaaaaaa (l1, lo r1) = lo2 (exchange 0 0xaaaaaaaa (exchange 0 0xaaaaaaaa (l, rotr r)))"
    unfolding e by (simp add: exchanges_lo l1)
  then have "exchange 0 0xaaaaaaaa (lo r1, l1) = (lo (rotr r), l)"
    using exchange_sym [of "0xaaaaaaaa" "(l1, lo r1)"] by (simp add: l)
  then show ?thesis
    by (simp add: des_initial_steps des_final_steps exchanges_lo lo2_swap e rotl_rotr [OF l1] rotl_rotr [OF r])
qed

lemma des_final_initial:
  assumes a: "lo a = a" and b: "lo b = b" and lr: "des_initial (a, b) = (l, r)"
  shows "lo l = l \<and> lo r = r \<and> lo2 (des_final (r, l)) = (a, b)"
proof -
  obtain r1 l1 where s: "exchange 8 0x00ff00ff (exchange 2 0x33333333
      (prod.swap (exchange 16 0xffff (exchange 4 0x0f0f0f0f (a, b))))) = (r1, l1)" by fastforce
  have ab: "exchange 4 0x0f0f0f0f (exchange 16 0xffff (prod.swap (exchange 2 0x33333333 (exchange 8 0x00ff00ff (r1, l1))))) = (a, b)"
    unfolding s [symmetric] by simp
  have "lo2 (r1, l1) = (r1, l1)"
    unfolding s [symmetric] by (simp only: exchanges_lo lo2_swap map_prod_simp a b)
  then have bound: "lo r1 = r1" "lo l1 = l1" by simp_all
  obtain l2 r2 where e: "exchange 0 0xaaaaaaaa (l1, rotl r1) = (l2, r2)" by fastforce
  then have "lo2 (l2, r2) = (l2, r2)" unfolding e [symmetric] by (simp only: exchanges_lo map_prod_simp bound rotl_bound)
  then have b2: "lo l2 = l2" "lo r2 = r2" by simp_all
  have e2: "exchange 0 0xaaaaaaaa (l2, r2) = (l1, rotl r1)" unfolding e [symmetric] by simp
  have lr2: "l = rotl l2" "r = r2"
    using lr by (simp_all add: des_initial_steps s e)
  obtain u v where uv: "exchange 0 0xaaaaaaaa (r2, rotr (rotl l2)) = (u, v)" by fastforce
  have u: "lo u = u" using fst_exchange_bound [OF b2(2), of "rotr (rotl l2)"] uv by simp
  have "lo2 (u, v) = exchange 0 0xaaaaaaaa (r2, l2)"
    unfolding uv [symmetric] exchanges_lo by (simp add: b2 rotr_rotl)
  also have "\<dots> = (rotl r1, l1)"
    using exchange_sym [of "0xaaaaaaaa" "(l2, r2)"] e2 by simp
  finally have "u = rotl r1" "lo v = l1" using u by simp_all
  then show ?thesis
    using b2 by (simp add: lr2 des_final_steps uv exchanges_lo lo2_swap rotr_rotl [OF bound(1)] ab)
qed

section \<open>Rounds\<close>

text \<open>Keys in pairs, one for each round, and a round as a step that exchanges the halves.\<close>

fun feistel :: "(u64 \<times> u64) list \<Rightarrow> u64 \<times> u64 \<Rightarrow> u64 \<times> u64" where
  "feistel [] lr = lr"
| "feistel ((k0, k1) # ks) (l, r) = feistel ks (r, l XOR round_value r k0 k1)"

fun unpair :: "(u64 \<times> u64) list \<Rightarrow> u64 list" where
  "unpair [] = []"
| "unpair ((k0, k1) # ks) = k0 # k1 # unpair ks"

lemma feistel_append: "feistel (ks @ ks') lr = feistel ks' (feistel ks lr)"
  by (induction ks lr rule: feistel.induct) auto

lemma feistel_undo: "feistel (rev ks) (prod.swap (feistel ks lr)) = prod.swap lr"
proof (induction ks lr rule: feistel.induct)
  case (2 k0 k1 ks l r)
  then show ?case by (simp add: feistel_append xor.assoc)
qed simp

lemma des_rounds_feistel: "even (length ks) \<Longrightarrow> des_rounds (unpair ks) lr = feistel ks lr"
proof (induction ks arbitrary: lr rule: induct_list012)
  case (3 x y zs)
  obtain l r where "lr = (l, r)" by fastforce
  with 3 show ?case by (cases x; cases y) (simp add: Let_def)
qed auto

lemma sp_lo:
  "i < 64 \<Longrightarrow> lo (SP1 ! i) = SP1 ! i" "i < 64 \<Longrightarrow> lo (SP2 ! i) = SP2 ! i" "i < 64 \<Longrightarrow> lo (SP3 ! i) = SP3 ! i"
  "i < 64 \<Longrightarrow> lo (SP4 ! i) = SP4 ! i" "i < 64 \<Longrightarrow> lo (SP5 ! i) = SP5 ! i" "i < 64 \<Longrightarrow> lo (SP6 ! i) = SP6 ! i"
  "i < 64 \<Longrightarrow> lo (SP7 ! i) = SP7 ! i" "i < 64 \<Longrightarrow> lo (SP8 ! i) = SP8 ! i"
proof -
  have all: "list_all (\<lambda>w. lo w = w) xs \<Longrightarrow> length xs = 64 \<Longrightarrow> i < 64 \<Longrightarrow> lo (xs ! i) = xs ! i" for xs
    by (simp add: list_all_length)
  show "i < 64 \<Longrightarrow> lo (SP1 ! i) = SP1 ! i" by (rule all) (simp_all add: SP1_def)
  show "i < 64 \<Longrightarrow> lo (SP2 ! i) = SP2 ! i" by (rule all) (simp_all add: SP2_def)
  show "i < 64 \<Longrightarrow> lo (SP3 ! i) = SP3 ! i" by (rule all) (simp_all add: SP3_def)
  show "i < 64 \<Longrightarrow> lo (SP4 ! i) = SP4 ! i" by (rule all) (simp_all add: SP4_def)
  show "i < 64 \<Longrightarrow> lo (SP5 ! i) = SP5 ! i" by (rule all) (simp_all add: SP5_def)
  show "i < 64 \<Longrightarrow> lo (SP6 ! i) = SP6 ! i" by (rule all) (simp_all add: SP6_def)
  show "i < 64 \<Longrightarrow> lo (SP7 ! i) = SP7 ! i" by (rule all) (simp_all add: SP7_def)
  show "i < 64 \<Longrightarrow> lo (SP8 ! i) = SP8 ! i" by (rule all) (simp_all add: SP8_def)
qed

lemma sp_index_less: "sp_index n w < 64"
proof -
  have "drop_bit n w AND 0x3f = take_bit 6 (drop_bit n w)"
    using take_bit_eq_mask [of 6 "drop_bit n w"] by (simp add: mask_eq_exp_minus_1)
  then have "sp_index n w = take_bit 6 (unat (drop_bit n w))" by (simp add: sp_index_def unsigned_take_bit_eq)
  then show ?thesis using take_bit_nat_less_exp [of 6 "unat (drop_bit n w)"] by simp
qed

lemma round_value_lo: "lo (round_value r k0 k1) = round_value r k0 k1"
  by (simp add: round_value_def Let_def take_bit_or sp_lo sp_index_less)

lemma feistel_lo: "lo l = l \<Longrightarrow> lo r = r \<Longrightarrow> feistel ks (l, r) = (l', r') \<Longrightarrow> lo l' = l' \<and> lo r' = r'"
proof (induction ks arbitrary: l r)
  case (Cons k ks)
  obtain k0 k1 where "k = (k0, k1)" by fastforce
  with Cons.prems Cons.IH [of r "l XOR round_value r k0 k1"] show ?case by (simp add: take_bit_xor round_value_lo)
qed simp

section \<open>The key schedule\<close>

text \<open>The two words of a key for round \<open>i\<close>, and the raw schedule as pairs of words.\<close>

definition raw_pair :: "u8 list \<Rightarrow> nat \<Rightarrow> u64 \<times> u64" where
  "raw_pair key i = (let pcr = rotated_key (permuted_key key) i in (raw_key pcr 0, raw_key pcr 24))"

definition cooked_pair :: "u64 \<times> u64 \<Rightarrow> u64 \<times> u64" where
  "cooked_pair p = (case cookey [fst p, snd p] of [a, b] \<Rightarrow> (a, b) | _ \<Rightarrow> p)"

lemma cookey_unpair: "cookey (unpair ps) = unpair (map cooked_pair ps)"
  by (induction ps rule: unpair.induct) (simp_all add: cooked_pair_def)

lemma upt16: "[0..<16] = [0, 1, 2, 3, 4, 5, 6, 7, 8, 9, 10, 11, 12, 13, 14, 15 :: nat]"
  by (simp add: upt_rec)

lemma deskey_encode: "deskey key EN0 = unpair (map (\<lambda>i. cooked_pair (raw_pair key i)) [0..<16])"
proof -
  have "fold (deskey_step (permuted_key key) EN0) [0..<16] (replicate 32 0) = unpair (map (raw_pair key) [0..<16])"
    by (simp add: upt16 deskey_step_def raw_pair_def Let_def numeral_eq_Suc)
  then show ?thesis by (simp add: deskey_def cookey_unpair comp_def)
qed

lemma deskey_decode: "deskey key DE1 = unpair (rev (map (\<lambda>i. cooked_pair (raw_pair key i)) [0..<16]))"
proof -
  have "fold (deskey_step (permuted_key key) DE1) [0..<16] (replicate 32 0) = unpair (rev (map (raw_pair key) [0..<16]))"
    by (simp add: upt16 deskey_step_def raw_pair_def Let_def numeral_eq_Suc)
  then show ?thesis by (simp add: deskey_def cookey_unpair comp_def rev_map)
qed

section \<open>Blocks\<close>

definition byte_at :: "nat \<Rightarrow> u64 \<Rightarrow> u8" where
  "byte_at n a = ucast (drop_bit n a AND 0xff)"

definition word_of_bytes :: "u8 \<Rightarrow> u8 \<Rightarrow> u8 \<Rightarrow> u8 \<Rightarrow> u64" where
  "word_of_bytes c0 c1 c2 c3 = push_bit 24 (ucast c0) OR push_bit 16 (ucast c1) OR push_bit 8 (ucast c2) OR ucast c3"

lemma bit_byte_at: "bit (byte_at n a) j \<longleftrightarrow> j < 8 \<and> bit a (n + j)"
proof -
  have "(0xff :: u64) = mask 8" by (simp add: mask_eq_exp_minus_1)
  then show ?thesis unfolding byte_at_def by (auto simp only: bit_ucast_iff bit_and_iff bit_drop_bit_eq bit_mask_iff) (auto simp: comp_def)
qed

lemma bit_shifted_byte: "n \<le> 24 \<Longrightarrow> bit (push_bit n (ucast (c :: u8)) :: u64) i \<longleftrightarrow> n \<le> i \<and> bit c (i - n)"
  using bit_imp_le_length [of c "i - n"] by (auto simp: bit_push_bit_iff bit_ucast_iff)

lemma bit_word_of_bytes:
  "bit (word_of_bytes c0 c1 c2 c3) i \<longleftrightarrow>
     (if i < 8 then bit c3 i else if i < 16 then bit c2 (i - 8) else if i < 24 then bit c1 (i - 16)
      else if i < 32 then bit c0 (i - 24) else False)"
proof -
  have len: "\<not> bit c j" if "8 \<le> j" for c :: u8 and j using bit_imp_le_length [of c j] that by auto
  have "bit (word_of_bytes c0 c1 c2 c3) i \<longleftrightarrow>
      24 \<le> i \<and> bit c0 (i - 24) \<or> 16 \<le> i \<and> bit c1 (i - 16) \<or> 8 \<le> i \<and> bit c2 (i - 8) \<or> bit c3 i"
    using bit_shifted_byte [of 0 c3 i] by (simp add: word_of_bytes_def bit_or_iff bit_shifted_byte)
  then show ?thesis using len [of "i - 24" c0] len [of "i - 16" c1] len [of "i - 8" c2] len [of i c3] by auto
qed

lemma word_of_byte_at: "word_of_bytes (byte_at 24 a) (byte_at 16 a) (byte_at 8 a) (byte_at 0 a) = lo a"
  by (rule bit_word_eqI) (auto simp: bit_word_of_bytes bit_byte_at bit_take_bit_iff)

lemma byte_at_word:
  "byte_at 24 (word_of_bytes c0 c1 c2 c3) = c0" "byte_at 16 (word_of_bytes c0 c1 c2 c3) = c1"
  "byte_at 8 (word_of_bytes c0 c1 c2 c3) = c2" "byte_at 0 (word_of_bytes c0 c1 c2 c3) = c3"
  by (rule bit_word_eqI; simp add: bit_word_of_bytes bit_byte_at)+

lemma word_of_bytes_lo: "lo (word_of_bytes c0 c1 c2 c3) = word_of_bytes c0 c1 c2 c3"
  by (rule bit_word_eqI) (auto simp: bit_word_of_bytes bit_take_bit_iff)

lemma unscrun_bytes:
  "unscrun (a, b) = [byte_at 24 a, byte_at 16 a, byte_at 8 a, byte_at 0 a, byte_at 24 b, byte_at 16 b, byte_at 8 b, byte_at 0 b]"
  by (simp add: unscrun_def byte_at_def)

lemma scrunch_bytes:
  "scrunch [c0, c1, c2, c3, c4, c5, c6, c7] = (word_of_bytes c0 c1 c2 c3, word_of_bytes c4 c5 c6 c7)"
  by (simp add: scrunch_def word_of_bytes_def numeral_eq_Suc)

lemma scrunch_unscrun: "scrunch (unscrun ab) = lo2 ab"
  by (cases ab) (simp add: unscrun_bytes scrunch_bytes word_of_byte_at)

lemma byte_at_lo: "n \<le> 24 \<Longrightarrow> byte_at n (lo a) = byte_at n a"
  by (rule bit_word_eqI) (simp add: bit_byte_at bit_take_bit_iff)

lemma unscrun_lo: "unscrun (lo2 ab) = unscrun ab"
  by (cases ab) (simp add: unscrun_bytes byte_at_lo)

lemma length_unscrun [simp]: "length (unscrun ab) = 8"
  by (cases ab) (simp add: unscrun_bytes)

lemma eight_bytes: "length cs = 8 \<Longrightarrow> \<exists>c0 c1 c2 c3 c4 c5 c6 c7. cs = [c0, c1, c2, c3, c4, c5, c6, c7]"
  by (simp add: length_Suc_conv numeral_eq_Suc) blast

lemma des_block_undo:
  assumes "length cs = 8"
  shows "unscrun (desfunc (scrunch (unscrun (desfunc (scrunch cs) (deskey key EN0)))) (deskey key DE1)) = cs"
proof -
  obtain c0 c1 c2 c3 c4 c5 c6 c7 where cs: "cs = [c0, c1, c2, c3, c4, c5, c6, c7]" using eight_bytes [OF assms] by blast
  let ?a = "word_of_bytes c0 c1 c2 c3" and ?b = "word_of_bytes c4 c5 c6 c7"
  let ?ks = "map (\<lambda>i. cooked_pair (raw_pair key i)) [0..<16]"
  obtain l r where lr: "des_initial (?a, ?b) = (l, r)" by fastforce
  note inv = des_final_initial [OF word_of_bytes_lo word_of_bytes_lo lr]
  obtain l' r' where lr': "feistel ?ks (l, r) = (l', r')" by fastforce
  have "lo l' = l' \<and> lo r' = r'" using feistel_lo [OF _ _ lr'] inv by blast
  then have "des_initial (lo2 (des_final (l', r'))) = (r', l')" using des_initial_final by blast
  moreover have "feistel (rev ?ks) (r', l') = (r, l)" using feistel_undo [of ?ks "(l, r)"] lr' by simp
  ultimately have "desfunc (lo2 (desfunc (?a, ?b) (deskey key EN0))) (deskey key DE1) = des_final (r, l)"
    by (simp add: desfunc_def deskey_encode deskey_decode des_rounds_feistel lr lr')
  then have "unscrun (desfunc (lo2 (desfunc (?a, ?b) (deskey key EN0))) (deskey key DE1)) = unscrun (?a, ?b)"
    using inv unscrun_lo [of "des_final (r, l)"] by simp
  then show ?thesis by (simp add: cs scrunch_bytes scrunch_unscrun unscrun_bytes byte_at_word)
qed

lemma length_des_blocks: "8 * n \<le> length cs \<Longrightarrow> length (des_blocks keys n cs) = length cs"
  by (induction keys n cs rule: des_blocks.induct) auto

lemma des_blocks_undo:
  "8 * n \<le> length cs \<Longrightarrow> des_blocks (deskey key DE1) n (des_blocks (deskey key EN0) n cs) = cs"
proof (induction n arbitrary: cs)
  case (Suc n)
  have "des_blocks (deskey key DE1) n (des_blocks (deskey key EN0) n (drop 8 cs)) = drop 8 cs"
    using Suc by simp
  with Suc.prems des_block_undo [of "take 8 cs" key] show ?case by simp
qed simp

section \<open>Buffers\<close>

lemma xor_unchain_chain: "xor_unchain Key i p (xor_chain Key i p bs) = bs"
  by (induction bs arbitrary: i p) (simp_all add: Let_def xor.assoc xor.left_commute)

lemma length_xor_chain [simp]: "length (xor_chain Key i p bs) = length bs"
  by (induction bs arbitrary: i p) (simp_all add: Let_def)

lemma length_xor_unchain [simp]: "length (xor_unchain Key i p bs) = length bs"
  by (induction bs arbitrary: i p) simp_all

lemma xor_decode_code:
  assumes "XorCodeBuf bs c = Some (cs, c')" "xor_dec_key d = xor_enc_key c"
  shows "length cs = length bs \<and> XorDecodeBuf cs d = Some (bs, d\<lparr>xor_dec_key := xor_enc_key c'\<rparr>)"
proof (cases bs)
  case Nil
  then show ?thesis using assms by (auto simp: XorCodeBuf_def XorDecodeBuf_def split: if_splits)
next
  case (Cons b bs')
  then show ?thesis
    using assms xor_unchain_chain [of "key_bytes (xor_enc_key c)" 1 "b XOR key_bytes (xor_enc_key c) ! 0" bs']
    by (auto simp: XorCodeBuf_def XorDecodeBuf_def Let_def xor.assoc split: if_splits)
qed

lemma xor_code_other: "XorCodeBuf bs c = Some (cs, c') \<Longrightarrow> ek c' = ek c \<and> dk c' = dk c \<and> xor_dec_key c' = xor_dec_key c"
  by (auto simp: XorCodeBuf_def Let_def split: if_splits list.splits)

lemma des_decode_code: "DesDecode (SetDesKey key d) (DesCode (SetDesKey key c) cs) = cs"
  using des_blocks_undo [of "length cs div 8" cs "key_bytes key"] length_des_blocks [of "length cs div 8" cs "deskey (key_bytes key) EN0"]
  by (simp add: DesDecode_def DesCode_def SetDesKey_def des_blocks_undo)

end
