(* ===== verification/Auth_Link_Correct.thy ===== *)
theory Auth_Link_Correct
  imports Auth_Link Auth_Codec_Correct
begin

text \<open>
  What a link writes and what the link at the other end reads: the bytes of every event, the effect
  of \<open>encode_buffer\<close> on an empty buffer, and of one turn of \<open>bytes_to_event\<close> on a complete packet.
\<close>

section \<open>Bytes of an event\<close>

fun body_fields :: "auth_event \<Rightarrow> u8 list list" where
  "body_fields (AuthProtocolVersion seed vers) = [[0], le_bytes 4 seed, le_bytes 4 vers]"
| "body_fields (AuthorizationError err) = [[1], le_bytes 4 err]"
| "body_fields (ServerSelectRequest arr i) = [[2], arr, [i]]"
| "body_fields (DbError arr) = [[3], arr]"
| "body_fields (ReconnectAttempt arr) = [[3], arr]"
| "body_fields (LoginRequest login password u1 u2) = [[0], login, password, le_bytes 4 u1, le_bytes 2 u2]"
| "body_fields (LoginResponse a1 a2 u1 u2 u3) = [[3], a1, a2, le_bytes 4 u1, le_bytes 4 u2, le_bytes 4 u3]"
| "body_fields (ServerListResponse servers p) = [[4], [of_nat (length servers)], [1]] @ concat (map server_fields servers)"
| "body_fields (ServerListRequest arr u) = [[5], arr, [u]]"
| "body_fields (ServerSelectResponse c1 c2 u) = [[7], le_bytes 4 c1, le_bytes 4 c2, [u]]"

definition body :: "auth_event \<Rightarrow> u8 list" where
  "body ev = concat (body_fields ev)"

fun is_server_list :: "auth_event \<Rightarrow> bool" where
  "is_server_list (ServerListResponse _ _) = True"
| "is_server_list _ = False"

lemma serializeto_fields: "\<not> is_server_list ev \<Longrightarrow> serializeto ev b = uPuts (body_fields ev) b"
  by (cases ev) auto

lemma length_body: "\<not> is_server_list ev \<Longrightarrow> event_ok ev \<Longrightarrow> 5 \<le> length (body ev) \<and> length (body ev) \<le> 37"
  by (cases ev) (auto simp: body_def)

text \<open>A buffer with the written bytes \<open>ds\<close>, of which \<open>k\<close> are read.\<close>

definition holds :: "u8 list \<Rightarrow> nat \<Rightarrow> growing_buffer \<Rightarrow> bool" where
  "holds ds k b \<longleftrightarrow> buf_inv b \<and> data b = ds \<and> m_read_off b = k"

lemma holds_write_off: "holds ds k b \<Longrightarrow> m_write_off b = length ds \<and> k \<le> length ds"
  using length_data [of b] by (auto simp: holds_def buf_inv_def)

lemma holds_buf: "holds ds k b \<Longrightarrow> take (length ds) (m_buf b) = ds \<and> length ds \<le> length (m_buf b)"
proof -
  assume h: "holds ds k b"
  have "m_write_off b \<le> length (m_buf b)" using h by (auto simp: holds_def buf_inv_def)
  with holds_write_off [OF h] h show ?thesis by (simp add: holds_def data_def)
qed

lemma holds_readable: "holds ds k b \<Longrightarrow> GetReadableDataSize b = length ds - k"
  using holds_write_off [of ds k b] buf_inv_readable [of b] by (simp add: holds_def)

lemma uPuts_holds:
  "holds ds k b \<Longrightarrow> length ds + length (concat vs) \<le> m_size b \<Longrightarrow>
   \<exists>b'. uPuts vs b = Some b' \<and> holds (ds @ concat vs) k b' \<and> m_size b' = m_size b"
proof (induction vs arbitrary: ds b)
  case (Cons v vs)
  have "m_write_off b + length v \<le> m_size b" using Cons.prems holds_write_off [OF Cons.prems(1)] by simp
  with Cons.prems(1) obtain b1 where b1: "uPut v b = Some b1" "holds (ds @ v) k b1" "m_size b1 = m_size b"
    using uPut_appends [of b v] by (auto simp: holds_def)
  from Cons.IH [OF b1(2)] Cons.prems(2) b1 show ?case by auto
qed auto

lemma peek_holds:
  assumes "holds ds k b" "pos + n \<le> length ds"
  shows "peek b pos n = Some (block ds pos n)"
proof -
  obtain rest where m: "m_buf b = ds @ rest" using holds_buf [OF assms(1)] by (metis append_take_drop_id)
  have "block (m_buf b) pos n = block ds pos n" using assms(2) by (simp add: m block_def)
  then show ?thesis using holds_buf [OF assms(1)] assms(2) by (simp add: peek_def)
qed

lemma poke_holds:
  assumes "holds ds k b" "pos + length bs \<le> length ds"
  shows "holds (overwrite ds pos bs) k (poke pos bs b)"
proof -
  obtain rest where m: "m_buf b = ds @ rest" using holds_buf [OF assms(1)] by (metis append_take_drop_id)
  have "overwrite (m_buf b) pos bs = overwrite ds pos bs @ rest"
    using assms(2) by (simp add: m overwrite_def)
  then show ?thesis
    using assms holds_write_off [OF assms(1)] by (auto simp: holds_def poke_def data_def buf_inv_def m)
qed

lemma poke_size [simp]: "m_size (poke pos bs b) = m_size b" "m_max_size (poke pos bs b) = m_max_size b"
  by (simp_all add: poke_def)

section \<open>Writing\<close>

fun is_login :: "auth_event \<Rightarrow> bool" where
  "is_login (LoginRequest _ _ _ _) = True"
| "is_login _ = False"

fun is_version :: "auth_event \<Rightarrow> bool" where
  "is_version (AuthProtocolVersion _ _) = True"
| "is_version _ = False"

lemma case_login: "(case ev of LoginRequest _ _ _ _ \<Rightarrow> x | _ \<Rightarrow> y) = (if is_login ev then x else y)"
  by (cases ev) auto

lemma case_version: "(case ev of AuthProtocolVersion _ _ \<Rightarrow> x | _ \<Rightarrow> y) = (if is_version ev then x else y)"
  by (cases ev) auto

text \<open>The packet before the exclusive ors.\<close>

definition des_body :: "auth_codec \<Rightarrow> auth_event \<Rightarrow> u8 list" where
  "des_body c ev = (if is_login ev then overwrite (body ev) 1 (DesCode c (block (body ev) 1 30)) else body ev)"

lemma length_DesCode: "length (DesCode c cs) = length cs"
  by (simp add: DesCode_def length_des_blocks)

lemma length_DesDecode: "length (DesDecode c cs) = length cs"
  by (simp add: DesDecode_def length_des_blocks)

lemma length_body_login: "is_login ev \<Longrightarrow> event_ok ev \<Longrightarrow> length (body ev) = 37"
  by (cases ev) (auto simp: body_def)

lemma length_des_body: "event_ok ev \<Longrightarrow> length (des_body c ev) = length (body ev)"
  using length_body_login [of ev] by (auto simp: des_body_def length_DesCode)

lemma overwrite_shift: "length ps \<le> pos \<Longrightarrow> overwrite (ps @ ds) pos bs = ps @ overwrite ds (pos - length ps) bs"
  by (simp add: overwrite_def)

lemma block_shift: "length ps \<le> pos \<Longrightarrow> block (ps @ ds) pos n = block ds (pos - length ps) n"
  by (simp add: block_def)

definition packet_size :: "u8 list \<Rightarrow> u8 list" where
  "packet_size bs = le_bytes 2 (of_nat (length bs) - 1 :: u16)"

lemma XorCodeBuf_total: "bs \<noteq> [] \<Longrightarrow> \<exists>cs c'. XorCodeBuf bs c = Some (cs, c') \<and> length cs = length bs"
  by (cases bs) (auto simp: XorCodeBuf_def Let_def)

lemma encode_buffer_writes:
  assumes "holds [] 0 (m_unsent_bytes_storage s)" "length (body ev) + 2 \<le> m_size (m_unsent_bytes_storage s)"
    "event_ok ev" "\<not> is_server_list ev" "\<not> is_version ev"
  shows "\<exists>cs c' b. XorCodeBuf (des_body (m_codec s) ev) (m_codec s) = Some (cs, c') \<and> length cs = length (body ev) \<and>
    encode_buffer ev s = Some (s\<lparr>m_unsent_bytes_storage := b, m_codec := c'\<rparr>) \<and>
    holds (packet_size (body ev) @ cs) 0 b \<and> m_size b = m_size (m_unsent_bytes_storage s)"
proof -
  let ?b = "m_unsent_bytes_storage s" and ?ps = "packet_size (body ev)"
  have ps: "length ?ps = 2" by (simp add: packet_size_def)
  have nonempty: "body ev \<noteq> []" using length_body [OF assms(4,3)] by auto
  obtain b1 where b1: "uPut [0, 0] ?b = Some b1" "holds [0, 0] 0 b1" "m_size b1 = m_size ?b"
    using uPuts_holds [OF assms(1), of "[[0, 0]]"] assms(2) by (auto split: Option.bind_splits)
  obtain b2 where b2: "serializeto ev b1 = Some b2" "holds ([0, 0] @ body ev) 0 b2" "m_size b2 = m_size ?b"
    using uPuts_holds [OF b1(2), of "body_fields ev"] b1(3) assms(2)
    by (auto simp: serializeto_fields [OF assms(4)] body_def)
  have r: "GetReadableDataSize b1 = 2" "GetReadableDataSize b2 - 2 = length (body ev)"
    using holds_readable [OF b1(2)] holds_readable [OF b2(2)] by auto
  define b3 where "b3 = poke 0 ?ps b2"
  have b3: "holds (?ps @ body ev) 0 b3"
    using poke_holds [OF b2(2), of 0 ?ps] ps by (simp add: b3_def overwrite_def)
  define b4 where "b4 = (if is_login ev then poke 3 (DesCode (m_codec s) (block (body ev) 1 30)) b3 else b3)"
  have b4: "holds (?ps @ des_body (m_codec s) ev) 0 b4"
  proof (cases "is_login ev")
    case True
    with length_body_login [OF True assms(3)] ps
      poke_holds [OF b3, of 3 "DesCode (m_codec s) (block (body ev) 1 30)"]
    show ?thesis by (simp add: b4_def des_body_def length_DesCode overwrite_shift)
  qed (use b3 in \<open>simp add: b4_def des_body_def\<close>)
  have details: "is_login ev \<Longrightarrow> peek b3 3 30 = Some (block (body ev) 1 30)"
    using peek_holds [OF b3, of 3 30] length_body_login [OF _ assms(3)] ps by (simp add: block_shift)
  have len: "length (des_body (m_codec s) ev) = length (body ev)" by (rule length_des_body [OF assms(3)])
  obtain cs c' where cs: "XorCodeBuf (des_body (m_codec s) ev) (m_codec s) = Some (cs, c')" "length cs = length (body ev)"
    using XorCodeBuf_total [of "des_body (m_codec s) ev"] len nonempty by (metis length_0_conv)
  define b5 where "b5 = poke 2 cs b4"
  have b5: "holds (?ps @ cs) 0 b5"
    using poke_holds [OF b4, of 2 cs] cs(2) len ps by (simp add: b5_def overwrite_shift overwrite_def)
  have packet: "peek b4 2 (length (body ev)) = Some (des_body (m_codec s) ev)"
    using peek_holds [OF b4, of 2 "length (body ev)"] len ps by (simp add: block_shift) (simp add: block_def)
  have off: "m_write_off ?b = 0" "m_read_off b2 = 0" "m_read_off b3 = 0" "GetReadableDataSize b4 = length (body ev) + 2"
    using holds_write_off [OF assms(1)] b2(2) b3 holds_readable [OF b4] len ps by (simp_all add: holds_def)
  have "encode_buffer ev s = Some (s\<lparr>m_unsent_bytes_storage := b5, m_codec := c'\<rparr>)"
    using b1(1,3) b2(1,3) r off details packet cs(1) assms(5)
    by (cases "is_login ev") (simp_all add: encode_buffer_def case_login case_version Let_def packet_size_def [symmetric] b3_def [symmetric] b4_def b5_def
        del: add_2_eq_Suc add_2_eq_Suc' One_nat_def)
  moreover have "m_size b5 = m_size ?b" by (simp add: b5_def b4_def b3_def b1(3) b2(3))
  ultimately show ?thesis using cs b5 by blast
qed

section \<open>Reading\<close>

text \<open>The events the receiving end of a link recognises, by its direction.\<close>

fun recognised :: "auth_link_type \<Rightarrow> auth_event \<Rightarrow> bool" where
  "recognised Server (LoginRequest _ _ _ _) = True"
| "recognised Server (ServerSelectRequest _ _) = True"
| "recognised Server (ReconnectAttempt _) = True"
| "recognised Server (ServerListRequest _ _) = True"
| "recognised Client (LoginResponse _ _ _ _ _) = True"
| "recognised Client (ServerSelectResponse _ _ _) = True"
| "recognised Client (ServerSelectRequest _ _) = True"
| "recognised _ _ = False"

lemma recognised_kinds: "recognised dir ev \<Longrightarrow> \<not> is_server_list ev \<and> \<not> is_version ev"
  by (cases "(dir, ev)" rule: recognised.cases) auto

lemma of_le_byte [simp]: "of_le_bytes [c] = (c :: u8)"
  by simp

lemmas read_at = uGet_def uGetBytes_def block_def le_bytes_roundtrip

lemma serializereadsbody:
  assumes "m_buf b = pre @ body ev @ zs" "m_read_off b = length pre" "event_ok ev" "recognised dir ev"
    "length (body ev) \<le> GetReadableDataSize b" "EventForType (OpcodeToType dir (hd (body ev))) = Some (Some ev0)"
  shows "serializefrom junk ev0 b = Some (ev, b\<lparr>m_read_off := length pre + length (body ev)\<rparr>)"
proof (cases "(dir, ev)" rule: recognised.cases)
  case (1 l p u1 u2)
  then have len: "length l = 14" "length p = 16" using assms(3) by simp_all
  have m: "m_buf b = pre @ 0 # l @ p @ le_bytes 4 u1 @ le_bytes 2 u2 @ zs" using assms(1) 1 by (simp add: body_def)
  have ev0: "ev0 = LoginRequest [] [] 0 0" using assms(6) 1 by (simp add: body_def)
  show ?thesis unfolding ev0 using len 1 by (simp add: read_at m assms(2) body_def)
next
  case (2 a i)
  then have len: "length a = 8" using assms(3) by simp
  have m: "m_buf b = pre @ 2 # a @ i # zs" using assms(1) 2 by (simp add: body_def)
  have ev0: "ev0 = ServerSelectRequest [] 0" using assms(6) 2 by (simp add: body_def)
  show ?thesis unfolding ev0 using len 2 by (simp add: read_at m assms(2) body_def)
next
  case (3 a)
  then have len: "length a = 8" using assms(3) by simp
  have m: "m_buf b = pre @ 3 # a @ zs" using assms(1) 3 by (simp add: body_def)
  have ev0: "ev0 = ReconnectAttempt []" using assms(6) 3 by (simp add: body_def)
  show ?thesis unfolding ev0 using len 3 by (simp add: read_at m assms(2) body_def)
next
  case (4 a u)
  then have len: "length a = 8" using assms(3) by simp
  have m: "m_buf b = pre @ 5 # a @ u # zs" using assms(1) 4 by (simp add: body_def)
  have ev0: "ev0 = ServerListRequest [] 255" using assms(6) 4 by (simp add: body_def)
  show ?thesis unfolding ev0 using len 4 by (simp add: read_at m assms(2) body_def)
next
  case (5 a1 a2 u1 u2 u3)
  then have len: "length a1 = 8" "length a2 = 8" using assms(3) by simp_all
  have m: "m_buf b = pre @ 3 # a1 @ a2 @ le_bytes 4 u1 @ le_bytes 4 u2 @ le_bytes 4 u3 @ zs" using assms(1) 5 by (simp add: body_def)
  have ev0: "ev0 = LoginResponse (replicate 8 0) (replicate 8 0) 0 0 0" using assms(6) 5 by (simp add: body_def)
  show ?thesis unfolding ev0 using len 5 by (simp add: read_at m assms(2) body_def)
next
  case (6 c1 c2 u)
  have m: "m_buf b = pre @ 7 # le_bytes 4 c1 @ le_bytes 4 c2 @ u # zs" using assms(1) 6 by (simp add: body_def)
  have ev0: "ev0 = ServerSelectResponse (-1) (-1) 255" using assms(6) 6 by (simp add: body_def)
  have "10 \<le> GetReadableDataSize b" using assms(5) 6 by (simp add: body_def)
  then show ?thesis unfolding ev0 using 6 by (simp add: read_at m assms(2) body_def)
next
  case (7 a i)
  then have len: "length a = 8" using assms(3) by simp
  have m: "m_buf b = pre @ 2 # a @ i # zs" using assms(1) 7 by (simp add: body_def)
  have ev0: "ev0 = ServerSelectRequest [] 0" using assms(6) 7 by (simp add: body_def)
  show ?thesis unfolding ev0 using len 7 by (simp add: read_at m assms(2) body_def)
qed (use assms(4) in simp_all)

lemma PopFront_holds:
  assumes "holds ds k b" "n \<le> length ds"
  shows "\<exists>b'. PopFront n b = Some b' \<and> holds (drop n ds) (k - n) b' \<and> m_size b' = m_size b \<and> m_max_size b' = m_max_size b"
proof -
  have w: "n \<le> m_write_off b" using holds_write_off [OF assms(1)] assms(2) by simp
  obtain b' where b': "PopFront n b = Some b'" "buf_inv b'" "data b' = drop n (data b)"
    using PopFront_drops [OF _ w] assms(1) by (auto simp: holds_def)
  have "m_read_off b' = m_read_off b - n \<and> m_size b' = m_size b \<and> m_max_size b' = m_max_size b"
    using b'(1) w assms(1) by (auto simp: PopFront_def Let_def holds_def buf_inv_def split: if_splits)
  with b' assms(1) show ?thesis by (auto simp: holds_def)
qed

lemma advance_holds: "holds ds k b \<Longrightarrow> k' \<le> length ds \<Longrightarrow> holds ds k' (b\<lparr>m_read_off := k'\<rparr>)"
proof -
  assume h: "holds ds k b" "k' \<le> length ds"
  then have "k' \<le> m_write_off b" using holds_write_off by metis
  with h(1) show ?thesis unfolding holds_def buf_inv_def data_def by simp
qed

lemma holds_memory: "holds ds k b \<Longrightarrow> \<exists>rest. m_buf b = ds @ rest"
  using holds_buf [of ds k b] by (metis append_take_drop_id)

lemma hd_des_body: "event_ok ev \<Longrightarrow> \<not> is_server_list ev \<Longrightarrow> hd (des_body c ev) = hd (body ev)"
  using length_body [of ev] by (cases "body ev") (auto simp: des_body_def overwrite_def)

lemma recognised_factory:
  "recognised dir ev \<Longrightarrow> \<exists>ev0. EventForType (OpcodeToType dir (hd (body ev))) = Some (Some ev0) \<and> is_login ev0 = is_login ev"
  by (cases "(dir, ev)" rule: recognised.cases) (auto simp: body_def)

lemma des_details:
  assumes "ek c = deskey k EN0" "dk d = deskey k DE1"
  shows "DesDecode d (DesCode c cs) = cs"
  using des_blocks_undo [of "length cs div 8" cs k] length_des_blocks [of "length cs div 8" cs "deskey k EN0"]
  by (simp add: DesDecode_def DesCode_def assms des_blocks_undo)

lemma size_field:
  assumes "5 \<le> length bs" "length bs < 65536"
  shows "unat (of_nat (length bs) - 1 :: u16) = length bs - 1"
proof -
  obtain n where n: "length bs = Suc n" using assms(1) by (cases "length bs") auto
  then have "(of_nat (length bs) - 1 :: u16) = of_nat n" by simp
  then show ?thesis using assms(2) n by (simp add: unat_of_nat)
qed

lemma bytes_to_event_reads:
  assumes h: "holds (packet_size (body ev) @ cs @ later) 0 (m_received_bytes_storage r)"
    and x: "XorCodeBuf (des_body c ev) c = Some (cs, c')" "xor_dec_key (m_codec r) = xor_enc_key c"
    and k: "ek c = deskey k EN0" "dk (m_codec r) = deskey k DE1"
    and ev: "event_ok ev" "recognised (m_direction r) ev"
  shows "\<exists>b. bytes_to_event junk r = Some (Some ev,
      r\<lparr>m_received_bytes_storage := b, m_codec := (m_codec r)\<lparr>xor_dec_key := xor_enc_key c'\<rparr>\<rparr>) \<and>
    holds later 0 b \<and> m_max_size b = m_max_size (m_received_bytes_storage r)"
proof -
  let ?b = "m_received_bytes_storage r" and ?d = "(m_codec r)\<lparr>xor_dec_key := xor_enc_key c'\<rparr>" and ?n = "length (body ev)"
  note kinds = recognised_kinds [OF ev(2)]
  have n: "5 \<le> ?n" "?n \<le> 37" using length_body [of ev] kinds ev(1) by auto
  define ps :: u16 where "ps = of_nat ?n - 1"
  have ps: "packet_size (body ev) = le_bytes 2 ps" "unat ps = ?n - 1" "length (le_bytes 2 ps) = 2"
    using size_field [of "body ev"] n by (simp_all add: packet_size_def ps_def)
  have dlen: "length (des_body c ev) = ?n" by (rule length_des_body [OF ev(1)])
  have xd: "XorDecodeBuf cs (m_codec r) = Some (des_body c ev, ?d)" and cs: "length cs = ?n"
    using xor_decode_code [OF x(1,2)] dlen by auto
  obtain rest where "m_buf ?b = (le_bytes 2 ps @ cs @ later) @ rest" using holds_memory [OF h] ps by auto
  then have g: "uGet 2 ?b = Some (ps, ?b\<lparr>m_read_off := 2\<rparr>)"
    using h by (simp add: read_at holds_def)
  have h2: "holds (le_bytes 2 ps @ cs @ later) 2 (?b\<lparr>m_read_off := 2\<rparr>)"
    by (rule advance_holds [where k = 0]) (use h ps in auto)
  have r2: "GetReadableDataSize ?b = 2 + ?n + length later" "GetReadableDataSize (?b\<lparr>m_read_off := 2\<rparr>) = ?n + length later"
    using holds_readable [OF h] holds_readable [OF h2] cs ps by simp_all
  have p: "peek (?b\<lparr>m_read_off := 2\<rparr>) 2 ?n = Some cs"
    using peek_holds [OF h2, of 2 ?n] cs ps(3) by (simp add: block_shift) (simp add: block_def)
  define b3 where "b3 = poke 2 (des_body c ev) (?b\<lparr>m_read_off := 2\<rparr>)"
  have h3: "holds (le_bytes 2 ps @ des_body c ev @ later) 2 b3"
    using poke_holds [OF h2, of 2 "des_body c ev"] dlen cs ps(3) by (simp add: b3_def overwrite_shift) (simp add: overwrite_def)
  have op: "peek b3 2 1 = Some [hd (body ev)]"
    using peek_holds [OF h3, of 2 1] dlen n ps(3) hd_des_body [OF ev(1), of c] kinds
    by (cases "des_body c ev") (auto simp: block_shift block_def)
  obtain ev0 where ev0: "EventForType (OpcodeToType (m_direction r) (hd (body ev))) = Some (Some ev0)" "is_login ev0 = is_login ev"
    using recognised_factory [OF ev(2)] by blast
  define b4 where "b4 = (if is_login ev then poke 3 (block (body ev) 1 30) b3 else b3)"
  have details: "is_login ev \<Longrightarrow> peek b3 3 30 = Some (DesCode c (block (body ev) 1 30))"
    using peek_holds [OF h3, of 3 30] dlen length_body_login [OF _ ev(1)] ps(3)
    by (simp add: block_shift des_body_def length_DesCode) (simp add: block_def overwrite_def length_DesCode)
  have h4: "holds (le_bytes 2 ps @ body ev @ later) 2 b4"
  proof (cases "is_login ev")
    case True
    have len: "length (body ev) = 37" by (rule length_body_login [OF True ev(1)])
    have "block (body ev) 1 30 @ drop 31 (body ev) = drop 1 (body ev)"
      using append_take_drop_id [of 30 "drop 1 (body ev)"] by (simp add: block_def)
    then have "take 1 (body ev) @ block (body ev) 1 30 @ drop 31 (body ev) = body ev"
      using append_take_drop_id [of 1 "body ev"] by (simp only:)
    then have same: "take 1 (body ev) @ block (body ev) 1 30 @ drop 31 (body ev) @ later = body ev @ later"
      by (metis append_assoc)
    have "holds (le_bytes 2 ps @ take 1 (body ev) @ block (body ev) 1 30 @ drop 31 (body ev) @ later) 2 b4"
      using True len poke_holds [OF h3, of 3 "block (body ev) 1 30"] dlen ps(3)
      by (simp add: b4_def des_body_def overwrite_shift) (simp add: overwrite_def length_DesCode)
    then show ?thesis unfolding same .
  qed (use h3 in \<open>simp add: b4_def des_body_def\<close>)
  obtain rest4 where m4: "m_buf b4 = le_bytes 2 ps @ body ev @ (later @ rest4)" using holds_memory [OF h4] by auto
  have off4: "m_read_off b4 = length (le_bytes 2 ps)" "?n \<le> GetReadableDataSize b4"
    using h4 holds_readable [OF h4] ps(3) by (simp_all add: holds_def)
  note reads = serializereadsbody [OF m4 off4(1) ev off4(2) ev0(1)]
  have h5: "holds (le_bytes 2 ps @ body ev @ later) (2 + ?n) (b4\<lparr>m_read_off := 2 + ?n\<rparr>)"
    by (rule advance_holds [OF h4]) (simp add: ps(3))
  obtain b6 where b6: "PopFront (2 + ?n) (b4\<lparr>m_read_off := 2 + ?n\<rparr>) = Some b6" "holds later 0 b6" "m_max_size b6 = m_max_size b4"
    using PopFront_holds [OF h5, of "2 + ?n"] ps(3) by auto
  have dd: "DesDecode ?d (DesCode c xs) = xs" for xs by (rule des_details [OF k(1)]) (simp add: k(2))
  have gt: "\<not> 2 + ?n + length later \<le> 2" using n by linarith
  have size: "unat ps + 1 = ?n" "unat ps + 3 = 2 + ?n" "\<not> ?n + length later < unat ps" using ps n by auto
  have "bytes_to_event_turn junk r = Some (Inr (Some ev, r\<lparr>m_received_bytes_storage := b6, m_codec := ?d\<rparr>))"
    using g p xd op ev0 details reads b6(1)
    by (cases "is_login ev") (simp_all add: bytes_to_event_turn_def Let_def case_login b3_def [symmetric] b4_def
        r2 gt dd size ps(3) del: add_2_eq_Suc add_2_eq_Suc' One_nat_def add_le_same_cancel1)
  then show ?thesis using b6(2,3) by (subst bytes_to_event.simps) (auto simp: b4_def b3_def)
qed

section \<open>Packets the other side does not know\<close>

text \<open>The kinds of events, by their constructors, and the events that the reading end makes an event of the same
  kind for from their first byte.\<close>

fun kind :: "auth_event \<Rightarrow> nat" where
  "kind (AuthProtocolVersion _ _) = 0"
| "kind (AuthorizationError _) = 1"
| "kind (ServerSelectRequest _ _) = 2"
| "kind (DbError _) = 3"
| "kind (ReconnectAttempt _) = 4"
| "kind (LoginRequest _ _ _ _) = 5"
| "kind (LoginResponse _ _ _ _ _) = 6"
| "kind (ServerListResponse _ _) = 7"
| "kind (ServerListRequest _ _) = 8"
| "kind (ServerSelectResponse _ _ _) = 9"

definition known_to :: "auth_link_type \<Rightarrow> auth_event \<Rightarrow> bool" where
  "known_to dir ev \<longleftrightarrow> (case EventForType (OpcodeToType dir (hd (body ev))) of
     Some (Some ev0) \<Rightarrow> kind ev0 = kind ev | _ \<Rightarrow> False)"

lemma known_recognised: "known_to dir ev \<Longrightarrow> \<not> is_version ev \<Longrightarrow> \<not> is_server_list ev \<Longrightarrow> recognised dir ev"
  by (cases dir; cases ev) (simp_all add: known_to_def body_def)

lemma unknown_kind:
  assumes "\<not> known_to dir ev" "\<not> is_version ev" "\<not> is_server_list ev"
    "EventForType (OpcodeToType dir (hd (body ev))) = Some None"
    "EventForType (OpcodeToType dir opcode) = Some (Some ev0)"
  shows "kind ev0 \<noteq> kind ev"
  using assms by (cases dir; cases ev) (auto simp: known_to_def body_def split: if_splits)

lemma serializefrom_kind: "serializefrom junk ev0 b = Some (ev, b') \<Longrightarrow> kind ev = kind ev0"
  by (cases ev0) (auto simp: Option.bind_eq_Some_conv split: if_splits)

lemma turn_result:
  "bytes_to_event_turn junk s = Some (Inl s') \<Longrightarrow> m_direction s' = m_direction s"
  "bytes_to_event_turn junk s = Some (Inr (Some ev, s')) \<Longrightarrow>
    \<exists>opcode ev0. EventForType (OpcodeToType (m_direction s) opcode) = Some (Some ev0) \<and> kind ev0 = kind ev"
  by (auto simp: bytes_to_event_turn_def Let_def Option.bind_eq_Some_conv split: if_splits option.splits)
    (metis serializefrom_kind)+

lemma bytes_to_event_kind:
  "bytes_to_event junk s = Some (Some ev, s') \<Longrightarrow>
    \<exists>opcode ev0. EventForType (OpcodeToType (m_direction s) opcode) = Some (Some ev0) \<and> kind ev0 = kind ev"
proof (induction junk s rule: bytes_to_event.induct)
  case (1 junk s)
  from "1.prems" consider s1 where "bytes_to_event_turn junk s = Some (Inl s1)" "bytes_to_event junk s1 = Some (Some ev, s')"
    | "bytes_to_event_turn junk s = Some (Inr (Some ev, s'))"
    by (subst (asm) bytes_to_event.simps) (auto split: option.splits sum.splits)
  then show ?case
  proof cases
    case (1 s1)
    from "1.IH" [OF 1(1) refl 1(2)] turn_result(1) [OF 1(1)] show ?thesis by simp
  qed (rule turn_result(2))
qed

lemma bytes_to_event_unknown:
  assumes h: "holds (packet_size (body ev) @ cs) 0 (m_received_bytes_storage r)"
    and x: "XorCodeBuf (des_body c ev) c = Some (cs, c')" "xor_dec_key (m_codec r) = xor_enc_key c"
    and ev: "event_ok ev" "\<not> is_version ev" "\<not> is_server_list ev" "\<not> known_to (m_direction r) ev"
  shows "bytes_to_event junk r \<noteq> Some (Some ev, r')"
proof
  assume res: "bytes_to_event junk r = Some (Some ev, r')"
  let ?b = "m_received_bytes_storage r" and ?d = "(m_codec r)\<lparr>xor_dec_key := xor_enc_key c'\<rparr>" and ?n = "length (body ev)"
  let ?f = "EventForType (OpcodeToType (m_direction r) (hd (body ev)))"
  have n: "5 \<le> ?n" "?n \<le> 37" using length_body [of ev] ev(1,3) by auto
  define ps :: u16 where "ps = of_nat ?n - 1"
  have ps: "packet_size (body ev) = le_bytes 2 ps" "unat ps = ?n - 1" "length (le_bytes 2 ps) = 2"
    using size_field [of "body ev"] n by (simp_all add: packet_size_def ps_def)
  have dlen: "length (des_body c ev) = ?n" by (rule length_des_body [OF ev(1)])
  have xd: "XorDecodeBuf cs (m_codec r) = Some (des_body c ev, ?d)" and cs: "length cs = ?n"
    using xor_decode_code [OF x(1,2)] dlen by auto
  obtain rest where "m_buf ?b = (le_bytes 2 ps @ cs) @ rest" using holds_memory [OF h] ps by auto
  then have g: "uGet 2 ?b = Some (ps, ?b\<lparr>m_read_off := 2\<rparr>)"
    using h by (simp add: read_at holds_def)
  have h2: "holds (le_bytes 2 ps @ cs) 2 (?b\<lparr>m_read_off := 2\<rparr>)"
    by (rule advance_holds [where k = 0]) (use h ps in auto)
  have r2: "GetReadableDataSize ?b = 2 + ?n" "GetReadableDataSize (?b\<lparr>m_read_off := 2\<rparr>) = ?n"
    using holds_readable [OF h] holds_readable [OF h2] cs ps by simp_all
  have p: "peek (?b\<lparr>m_read_off := 2\<rparr>) 2 ?n = Some cs"
    using peek_holds [OF h2, of 2 ?n] cs ps(3) by (simp add: block_shift) (simp add: block_def)
  define b3 where "b3 = poke 2 (des_body c ev) (?b\<lparr>m_read_off := 2\<rparr>)"
  have h3: "holds (le_bytes 2 ps @ des_body c ev) 2 b3"
    using poke_holds [OF h2, of 2 "des_body c ev"] dlen cs ps(3) by (simp add: b3_def overwrite_shift) (simp add: overwrite_def)
  have op: "peek b3 2 1 = Some [hd (body ev)]"
    using peek_holds [OF h3, of 2 1] dlen n ps(3) hd_des_body [OF ev(1,3), of c]
    by (cases "des_body c ev") (auto simp: block_shift block_def)
  have gt: "\<not> 2 + ?n \<le> 2" using n by linarith
  have size: "unat ps + 1 = ?n" "\<not> ?n < unat ps" using ps n by auto
  note turn = g p xd op b3_def [symmetric] r2 gt size
  show False
  proof (cases ?f)
    case None
    then have "bytes_to_event_turn junk r = None" using turn by (simp add: bytes_to_event_turn_def Let_def)
    with res show False by (subst (asm) bytes_to_event.simps) simp
  next
    case (Some e0)
    show False
    proof (cases e0)
      case None
      with Some bytes_to_event_kind [OF res] unknown_kind [OF ev(4,2,3)] show False by blast
    next
      case ev0: (Some ev0)
      have ne: "kind ev0 \<noteq> kind ev" using ev(4) Some ev0 by (simp add: known_to_def)
      have "\<exists>ev' s'. res = Inr (Some ev', s') \<and> kind ev' = kind ev0" if "bytes_to_event_turn junk r = Some res" for res
        using that turn Some ev0 serializefrom_kind [of junk ev0]
        by (auto simp: bytes_to_event_turn_def Let_def Option.bind_eq_Some_conv)
      with res ne show False by (subst (asm) bytes_to_event.simps) (fastforce split: option.splits sum.splits)
    qed
  qed
qed

section \<open>Incomplete packets\<close>

text \<open>What is left of a packet of which only a part has arrived: its first byte is dropped.\<close>

lemma incomplete_turn:
  assumes "holds ds 0 (m_received_bytes_storage s)" "3 \<le> length ds"
    "length ds - 2 < unat (of_le_bytes (take 2 ds) :: u16)"
  shows "\<exists>b. bytes_to_event_turn junk s = Some (Inl (s\<lparr>m_received_bytes_storage := b\<rparr>)) \<and> holds (tl ds) 1 b \<and>
    m_size b = m_size (m_received_bytes_storage s)"
proof -
  let ?b = "m_received_bytes_storage s"
  obtain rest where m: "m_buf ?b = ds @ rest" using holds_memory [OF assms(1)] by blast
  have g: "uGet 2 ?b = Some (of_le_bytes (take 2 ds) :: u16, ?b\<lparr>m_read_off := 2\<rparr>)"
    using assms(1,2) m by (simp add: uGet_def uGetBytes_def block_def holds_def)
  have h2: "holds ds 2 (?b\<lparr>m_read_off := 2\<rparr>)" using advance_holds [OF assms(1), of 2] assms(2) by simp
  obtain b' where b': "PopFront 1 (?b\<lparr>m_read_off := 2\<rparr>) = Some b'" "holds (tl ds) 1 b'" "m_size b' = m_size ?b"
    using PopFront_holds [OF h2, of 1] assms(2) by (auto simp: drop_Suc)
  have "GetReadableDataSize ?b = length ds" "GetReadableDataSize (?b\<lparr>m_read_off := 2\<rparr>) = length ds - 2"
    using holds_readable [OF assms(1)] holds_readable [OF h2] by simp_all
  then show ?thesis using assms(2,3) g b' by (auto simp: bytes_to_event_turn_def Let_def)
qed

section \<open>Storing received bytes\<close>

lemma PutBytes_holds:
  assumes "holds ds k b" "bs \<noteq> []" "length ds + length bs \<le> m_max_size b" "length ds + length bs < 1048576"
    "length ds \<noteq> 1 \<or> length ds + length bs \<le> m_size b"
  shows "\<exists>b'. PutBytes bs (length bs) b = Some b' \<and> holds (ds @ bs) k b' \<and> m_max_size b' = m_max_size b \<and> m_size b \<le> m_size b'"
proof -
  have store: "\<exists>b'. uPutBytes bs (length bs) c = Some b' \<and> holds (ds @ bs) k b' \<and> m_max_size b' = m_max_size c \<and> m_size b' = m_size c"
    if h: "holds ds k c" and fits: "length ds + length bs \<le> m_size c" for c
  proof -
    have "0 < m_size c" using fits assms(2) by (cases bs) auto
    then have "0 < length (m_buf c)" using h by (simp add: holds_def buf_inv_def)
    then have "m_buf c \<noteq> []" by simp
    moreover have "m_write_off c + length bs \<le> length (m_buf c)"
      using h fits holds_write_off [OF h] \<open>0 < m_size c\<close> by (simp add: holds_def buf_inv_def)
    ultimately have "uPutBytes bs (length bs) c = uPut bs c" by (simp add: uPutBytes_def uPut_def)
    with uPut_appends [of c bs] h fits holds_write_off [OF h] show ?thesis by (auto simp: holds_def)
  qed
  have w: "m_write_off b = length ds" using holds_write_off [OF assms(1)] by simp
  show ?thesis
  proof (cases "m_write_off b + length bs > m_size b")
    case True
    have inv: "buf_inv b" using assms(1) by (simp add: holds_def)
    obtain b1 where b1: "resize (m_write_off b + length bs) b = Some (0, b1)" "grown b (m_write_off b + length bs) b1"
      proof -
      have "0 < m_write_off b + length bs" using assms(2) by simp
      from that resize_grown [OF inv this] assms(3,4) w show thesis by auto
    qed
    have "holds ds k b1"
      using grown_inv [OF inv b1(2)] grown_data [OF inv b1(2)] grown_fields [OF b1(2)] assms(1,4,5) True w by (auto simp: holds_def)
    from store [OF this] grown_fields [OF b1(2)] True b1(1) w show ?thesis by (auto simp: PutBytes_def)
  next
    case False
    with store [OF assms(1)] w show ?thesis by (auto simp: PutBytes_def)
  qed
qed

lemma holds_reset: "holds ds k b \<Longrightarrow> holds ds 0 (ResetReading_bytes b)"
  using advance_holds [of ds k b 0] by (simp add: ResetReading_bytes_def)

lemma ResetReading_fields [simp]: "m_size (ResetReading_bytes b) = m_size b" "m_max_size (ResetReading_bytes b) = m_max_size b"
  by (simp_all add: ResetReading_bytes_def)

text \<open>What \<open>handle_input\<close> does with received bytes when the buffer was empty.\<close>

lemma handle_input_fresh:
  assumes "holds [] k (m_received_bytes_storage r)" "bs \<noteq> []" "length bs \<le> m_max_size (m_received_bytes_storage r)" "length bs < 1048576"
  shows "\<exists>b. holds bs 0 b \<and> m_max_size b = m_max_size (m_received_bytes_storage r) \<and> m_size (m_received_bytes_storage r) \<le> m_size b \<and>
    handle_input junk bs r = (if length bs < 2 then Some (None, r\<lparr>m_received_bytes_storage := b\<rparr>)
      else bytes_to_event junk (r\<lparr>m_received_bytes_storage := b\<rparr>))"
proof -
  let ?b = "m_received_bytes_storage r"
  obtain b' where b': "PutBytes bs (length bs) ?b = Some b'" "holds bs k b'" "m_max_size b' = m_max_size ?b" "m_size ?b \<le> m_size b'"
    using PutBytes_holds [OF assms(1,2)] assms(3,4) by auto
  from holds_reset [OF b'(2)] holds_readable [OF holds_reset [OF b'(2)]] b' show ?thesis
    by (intro exI [of _ "ResetReading_bytes b'"]) (auto simp: handle_input_def)
qed

end
