(* ===== verification/Auth_Link_Properties.thy ===== *)
theory Auth_Link_Properties
  imports Auth_Link_Correct
begin

text \<open>
  The properties of the login connection: the encryption is reversible, every packet of either side
  that the other side knows arrives as it was sent, and where packets are lost or damaged.
\<close>

text \<open>C21. What DES encrypts under a key, the decryption under the same key gives back, for every key and every
  buffer, whatever key schedule was there before; the bytes after the last whole block stay as they are.\<close>

theorem des_roundtrip:
  "DesDecode (SetDesKey key d) (DesCode (SetDesKey key c) cs) = cs \<and>
   drop (length cs div 8 * 8) (DesCode c cs) = drop (length cs div 8 * 8) cs"
proof -
  have rest: "8 * n \<le> length cs \<Longrightarrow> drop (n * 8) (des_blocks keys n cs) = drop (n * 8) cs" for n keys
    by (induction keys n cs rule: des_blocks.induct) (auto simp: add.commute)
  show ?thesis using rest [of "length cs div 8" "ek c"] des_decode_code by (simp add: DesCode_def mult.commute)
qed

section \<open>Two ends of a connection\<close>

text \<open>A writing and a reading end: their buffers are empty and their keys agree.\<close>

definition link_pair :: "auth_link_state \<Rightarrow> auth_link_state \<Rightarrow> bool" where
  "link_pair s r \<longleftrightarrow>
     holds [] 0 (m_unsent_bytes_storage s) \<and> 39 \<le> m_size (m_unsent_bytes_storage s) \<and>
     holds [] 0 (m_received_bytes_storage r) \<and> 39 \<le> m_max_size (m_received_bytes_storage r) \<and>
     xor_dec_key (m_codec r) = xor_enc_key (m_codec s) \<and>
     (\<exists>k. ek (m_codec s) = deskey k EN0 \<and> dk (m_codec r) = deskey k DE1)"

lemma new_buffer_holds:
  "holds [] 0 (new_buffer fresh mx 0 40) \<and> m_size (new_buffer fresh mx 0 40) = 40 \<and> m_max_size (new_buffer fresh mx 0 40) = mx"
  by (simp add: holds_def buf_inv_def data_def new_buffer_def Reset_def)

lemma new_links_pair:
  "link_pair (new_auth_link fresh (SetXorKey seed (SetDesKey key c)) dir) (new_auth_link fresh (SetXorKey seed (SetDesKey key d)) dir')"
  by (auto simp: link_pair_def new_auth_link_def new_buffer_holds SetXorKey_def SetDesKey_def Let_def)

text \<open>Every event is written, sent at once, and received in a segment of its own.\<close>

fun exchange_all :: "u8 list \<Rightarrow> auth_event list \<Rightarrow> auth_link_state \<Rightarrow> auth_link_state \<Rightarrow>
    (auth_event option list \<times> auth_link_state \<times> auth_link_state) option" where
  "exchange_all junk [] s r = Some ([], s, r)"
| "exchange_all junk (ev # evs) s r = do {
     s \<leftarrow> encode_buffer ev s;
     (ok, sent, s) \<leftarrow> send_buffer (Some (GetReadableDataSize (m_unsent_bytes_storage s))) s;
     (ev', r) \<leftarrow> handle_input junk sent r;
     (evs', s, r) \<leftarrow> exchange_all junk evs s r;
     Some (ev' # evs', s, r) }"

lemma encode_and_send:
  assumes "link_pair s r" "event_ok ev" "\<not> is_server_list ev \<and> \<not> is_version ev"
  shows "\<exists>s1 cs c' s2. encode_buffer ev s = Some s1 \<and>
    XorCodeBuf (des_body (m_codec s) ev) (m_codec s) = Some (cs, c') \<and> length cs = length (body ev) \<and>
    send_buffer (Some (GetReadableDataSize (m_unsent_bytes_storage s1))) s1 = Some (True, packet_size (body ev) @ cs, s2) \<and>
    holds [] 0 (m_unsent_bytes_storage s2) \<and> m_size (m_unsent_bytes_storage s2) = m_size (m_unsent_bytes_storage s) \<and> m_codec s2 = c'"
proof -
  note kinds = assms(3)
  have len: "length (body ev) \<le> 37" using length_body [of ev] kinds assms(2) by simp
  obtain cs c' b where e: "XorCodeBuf (des_body (m_codec s) ev) (m_codec s) = Some (cs, c')" "length cs = length (body ev)"
    "encode_buffer ev s = Some (s\<lparr>m_unsent_bytes_storage := b, m_codec := c'\<rparr>)"
    "holds (packet_size (body ev) @ cs) 0 b" "m_size b = m_size (m_unsent_bytes_storage s)"
    using encode_buffer_writes [of s ev] assms(1,2) kinds len by (auto simp: link_pair_def)
  let ?all = "packet_size (body ev) @ cs"
  obtain b2 where b2: "PopFront (length ?all) b = Some b2" "holds [] 0 b2" "m_size b2 = m_size b"
    using PopFront_holds [OF e(4), of "length ?all"] by auto
  have "peek b 0 (length ?all) = Some ?all" using peek_holds [OF e(4), of 0 "length ?all"] by (simp add: block_def)
  moreover have "m_read_off b = 0" "GetReadableDataSize b = length ?all" "GetReadableDataSize b2 = 0"
    using e(4) holds_readable [OF e(4)] holds_readable [OF b2(2)] by (simp_all add: holds_def)
  ultimately have "send_buffer (Some (GetReadableDataSize b)) (s\<lparr>m_unsent_bytes_storage := b, m_codec := c'\<rparr>) =
      Some (True, ?all, s\<lparr>m_unsent_bytes_storage := b2, m_codec := c'\<rparr>)"
    using b2(1) by (simp add: send_buffer_def)
  moreover have "m_codec (s\<lparr>m_unsent_bytes_storage := b2, m_codec := c'\<rparr>) = c'"
    "m_unsent_bytes_storage (s\<lparr>m_unsent_bytes_storage := b2, m_codec := c'\<rparr>) = b2"
    "m_unsent_bytes_storage (s\<lparr>m_unsent_bytes_storage := b, m_codec := c'\<rparr>) = b" by simp_all
  ultimately show ?thesis using e(1-3,5) b2(2,3) by metis
qed

lemma receive_packet:
  assumes "link_pair s r" "event_ok ev" "recognised (m_direction r) ev"
    "XorCodeBuf (des_body (m_codec s) ev) (m_codec s) = Some (cs, c')"
    "39 + length later \<le> m_max_size (m_received_bytes_storage r)" "39 + length later < 1048576"
  shows "\<exists>r'. handle_input junk (packet_size (body ev) @ cs @ later) r = Some (Some ev, r') \<and>
    holds later 0 (m_received_bytes_storage r') \<and> m_max_size (m_received_bytes_storage r') = m_max_size (m_received_bytes_storage r) \<and>
    m_codec r' = (m_codec r)\<lparr>xor_dec_key := xor_enc_key c'\<rparr> \<and> m_direction r' = m_direction r"
proof -
  let ?all = "packet_size (body ev) @ cs @ later"
  have cs: "length cs = length (body ev)"
    using xor_decode_code [OF assms(4), of "m_codec r"] length_des_body [OF assms(2)] assms(1) by (simp add: link_pair_def)
  have len: "length ?all \<le> 39 + length later" "2 \<le> length ?all"
    using length_body [of ev] recognised_kinds [OF assms(3)] assms(2) cs by (simp_all add: packet_size_def)
  obtain k where k: "ek (m_codec s) = deskey k EN0" "dk (m_codec r) = deskey k DE1" using assms(1) by (auto simp: link_pair_def)
  have "?all \<noteq> []" using len(2) by auto
  with handle_input_fresh [of 0 r ?all junk] assms(1,5,6) len obtain b where
    b: "holds ?all 0 b" "m_max_size b = m_max_size (m_received_bytes_storage r)"
      "handle_input junk ?all r = bytes_to_event junk (r\<lparr>m_received_bytes_storage := b\<rparr>)"
    by (auto simp: link_pair_def)
  show ?thesis
    using bytes_to_event_reads [of ev cs later "r\<lparr>m_received_bytes_storage := b\<rparr>" "m_codec s" c' k junk] assms(1-4) b k
    by (auto simp: link_pair_def)
qed

lemma exchange_one:
  assumes "link_pair s r" "event_ok ev" "recognised (m_direction r) ev"
  shows "\<exists>s' r'. link_pair s' r' \<and> m_direction r' = m_direction r \<and>
    (\<forall>evs. exchange_all junk (ev # evs) s r = map_option (\<lambda>(evs', p). (Some ev # evs', p)) (exchange_all junk evs s' r'))"
proof -
  obtain s1 cs c' s2 where w: "encode_buffer ev s = Some s1"
    "XorCodeBuf (des_body (m_codec s) ev) (m_codec s) = Some (cs, c')"
    "send_buffer (Some (GetReadableDataSize (m_unsent_bytes_storage s1))) s1 = Some (True, packet_size (body ev) @ cs, s2)"
    "holds [] 0 (m_unsent_bytes_storage s2)" "m_size (m_unsent_bytes_storage s2) = m_size (m_unsent_bytes_storage s)" "m_codec s2 = c'"
    using encode_and_send [OF assms(1,2) recognised_kinds [OF assms(3)]] by blast
  have "39 \<le> m_max_size (m_received_bytes_storage r)" using assms(1) by (simp add: link_pair_def)
  then obtain r' where rd: "handle_input junk (packet_size (body ev) @ cs) r = Some (Some ev, r')"
    "holds [] 0 (m_received_bytes_storage r')" "m_max_size (m_received_bytes_storage r') = m_max_size (m_received_bytes_storage r)"
    "m_codec r' = (m_codec r)\<lparr>xor_dec_key := xor_enc_key c'\<rparr>" "m_direction r' = m_direction r"
    using receive_packet [OF assms w(2), of "[]" junk] by auto
  have "ek c' = ek (m_codec s)" using xor_code_other [OF w(2)] by simp
  then have pair: "link_pair s2 r'" using assms(1) w(4-6) rd(2-4) by (auto simp: link_pair_def)
  have "exchange_all junk (ev # evs) s r = map_option (\<lambda>(evs', p). (Some ev # evs', p)) (exchange_all junk evs s2 r')" for evs
    using w(1,3) rd(1) by (cases "exchange_all junk evs s2 r'") auto
  with pair rd(5) show ?thesis by blast
qed

lemma exchange_unknown:
  assumes "link_pair s r" "event_ok ev" "\<not> is_version ev" "\<not> is_server_list ev" "\<not> known_to (m_direction r) ev"
  shows "exchange_all junk (ev # evs) s r \<noteq> Some (Some ev # evs', p)"
proof
  assume res: "exchange_all junk (ev # evs) s r = Some (Some ev # evs', p)"
  obtain s1 cs c' s2 where w: "encode_buffer ev s = Some s1"
    "XorCodeBuf (des_body (m_codec s) ev) (m_codec s) = Some (cs, c')" "length cs = length (body ev)"
    "send_buffer (Some (GetReadableDataSize (m_unsent_bytes_storage s1))) s1 = Some (True, packet_size (body ev) @ cs, s2)"
    using encode_and_send [OF assms(1,2)] assms(3,4) by blast
  let ?all = "packet_size (body ev) @ cs"
  have len: "5 \<le> length (body ev)" "length (body ev) \<le> 37" using length_body [OF assms(4,2)] by auto
  have "?all \<noteq> []" "\<not> length ?all < 2" "length ?all \<le> 39" using len w(3) by (auto simp: packet_size_def)
  then obtain b where b: "holds ?all 0 b"
    "handle_input junk ?all r = bytes_to_event junk (r\<lparr>m_received_bytes_storage := b\<rparr>)"
    using handle_input_fresh [of 0 r ?all junk] assms(1) by (auto simp: link_pair_def)
  have "bytes_to_event junk (r\<lparr>m_received_bytes_storage := b\<rparr>) \<noteq> Some (Some ev, r')" for r'
    by (rule bytes_to_event_unknown [of ev cs _ "m_codec s"]) (use assms b(1) w(2) in \<open>simp_all add: link_pair_def\<close>)
  with res w(1,4) b(2) show False by (auto simp: Option.bind_eq_Some_conv)
qed

text \<open>C12. When the two ends agree on the keys, a sequence of packets arrives as it was sent exactly when the
  tables of the reading side (\<open>OpcodeToType\<close>, \<open>EventForType\<close>) make an event of the kind of each packet for its first byte: each
  event is framed, its login details are DES encrypted, the chained XOR is applied, and the other side
  restores it, whatever the keys are, and both ends still agree afterwards. A packet they do not know (among
  them \<open>AuthorizationError\<close> and \<open>DbError\<close>, in either direction) never arrives. Two packets are left out:
  \<open>AuthProtocolVersion\<close> is sent without encoding, before there are keys, and the server list is written
  and read with different widths, and a list of three servers not at all (\<open>long_server_list_breaks\<close>).\<close>

theorem auth_packets_arrive:
  assumes "link_pair s r" "list_all (\<lambda>ev. event_ok ev \<and> \<not> is_version ev \<and> \<not> is_server_list ev) evs"
  shows "(\<exists>s' r'. exchange_all junk evs s r = Some (map Some evs, s', r') \<and> link_pair s' r') \<longleftrightarrow>
    list_all (known_to (m_direction r)) evs"
  using assms
proof (induction evs arbitrary: s r)
  case Nil
  then show ?case by auto
next
  case (Cons ev evs)
  have ev: "event_ok ev" "\<not> is_version ev" "\<not> is_server_list ev" using Cons.prems(2) by simp_all
  show ?case
  proof (cases "known_to (m_direction r) ev")
    case False
    then show ?thesis using exchange_unknown [OF Cons.prems(1) ev] by auto
  next
    case True
    obtain s1 r1 where one: "link_pair s1 r1" "m_direction r1 = m_direction r"
      "exchange_all junk (ev # evs) s r = map_option (\<lambda>(evs', p). (Some ev # evs', p)) (exchange_all junk evs s1 r1)"
      using exchange_one [OF Cons.prems(1) ev(1) known_recognised [OF True ev(2,3)], of junk] by blast
    have "(\<exists>s' r'. exchange_all junk (ev # evs) s r = Some (map Some (ev # evs), s', r') \<and> link_pair s' r') \<longleftrightarrow>
        (\<exists>s' r'. exchange_all junk evs s1 r1 = Some (map Some evs, s', r') \<and> link_pair s' r')"
      unfolding one(3) by auto
    with Cons.IH [OF one(1)] Cons.prems(2) one(2) True show ?thesis by simp
  qed
qed

theorem auth_packets_arrive_witness:
  "(\<exists>s' r'. exchange_all [] [LoginRequest (replicate 14 65) (replicate 16 66) 1 2, ServerListRequest (replicate 8 7) 0]
       (new_auth_link (\<lambda>_. 0) (SetXorKey 5 (SetDesKey 99 (new_codec [] []))) Client)
       (new_auth_link (\<lambda>_. 0) (SetXorKey 5 (SetDesKey 99 (new_codec [1] [2]))) Server) =
     Some ([Some (LoginRequest (replicate 14 65) (replicate 16 66) 1 2), Some (ServerListRequest (replicate 8 7) 0)], s', r')) \<and>
   \<not> (\<exists>s' r'. exchange_all [] [DbError (replicate 8 7)]
       (new_auth_link (\<lambda>_. 0) (SetXorKey 5 (SetDesKey 99 (new_codec [] []))) Server)
       (new_auth_link (\<lambda>_. 0) (SetXorKey 5 (SetDesKey 99 (new_codec [1] [2]))) Client) = Some ([Some (DbError (replicate 8 7))], s', r') \<and>
       link_pair s' r')"
proof -
  let ?c = "SetXorKey 5 (SetDesKey 99 (new_codec [] []))" and ?d = "SetXorKey 5 (SetDesKey 99 (new_codec [1] [2]))"
  have k: "list_all (known_to Server) [LoginRequest (replicate 14 65) (replicate 16 66) 1 2, ServerListRequest (replicate 8 7) 0]"
    "\<not> known_to Client (DbError (replicate 8 7))"
    by (simp_all add: known_to_def body_def)
  from auth_packets_arrive [OF new_links_pair [of "\<lambda>_. 0" 5 99 "new_codec [] []" Client "new_codec [1] [2]" Server],
      of "[LoginRequest (replicate 14 65) (replicate 16 66) 1 2, ServerListRequest (replicate 8 7) 0]" "[]"] k(1)
  have "\<exists>s' r'. exchange_all [] [LoginRequest (replicate 14 65) (replicate 16 66) 1 2, ServerListRequest (replicate 8 7) 0]
       (new_auth_link (\<lambda>_. 0) ?c Client) (new_auth_link (\<lambda>_. 0) ?d Server) =
     Some ([Some (LoginRequest (replicate 14 65) (replicate 16 66) 1 2), Some (ServerListRequest (replicate 8 7) 0)], s', r')"
    by (auto simp: new_auth_link_def simp del: exchange_all.simps)
  moreover from auth_packets_arrive [OF new_links_pair [of "\<lambda>_. 0" 5 99 "new_codec [] []" Server "new_codec [1] [2]" Client],
      of "[DbError (replicate 8 7)]" "[]"] k(2)
  have "\<not> (\<exists>s' r'. exchange_all [] [DbError (replicate 8 7)] (new_auth_link (\<lambda>_. 0) ?c Server) (new_auth_link (\<lambda>_. 0) ?d Client) =
      Some ([Some (DbError (replicate 8 7))], s', r') \<and> link_pair s' r')"
    by (auto simp: new_auth_link_def simp del: exchange_all.simps)
  ultimately show ?thesis by blast
qed

text \<open>A read of the socket hands at most one packet to the handler: when more bytes arrived with a packet,
  whole packets among them, they wait in the buffer until the next read of the socket.\<close>

theorem only_first_packet_read:
  assumes "link_pair s r" "event_ok ev" "recognised (m_direction r) ev"
    "39 + length later \<le> m_max_size (m_received_bytes_storage r)" "39 + length later < 1048576"
  shows "\<exists>s1 sent s2 r'. encode_buffer ev s = Some s1 \<and>
    send_buffer (Some (GetReadableDataSize (m_unsent_bytes_storage s1))) s1 = Some (True, sent, s2) \<and>
    handle_input junk (sent @ later) r = Some (Some ev, r') \<and> data (m_received_bytes_storage r') = later \<and>
    m_read_off (m_received_bytes_storage r') = 0"
proof -
  obtain s1 cs c' s2 where w: "encode_buffer ev s = Some s1"
    "XorCodeBuf (des_body (m_codec s) ev) (m_codec s) = Some (cs, c')"
    "send_buffer (Some (GetReadableDataSize (m_unsent_bytes_storage s1))) s1 = Some (True, packet_size (body ev) @ cs, s2)"
    using encode_and_send [OF assms(1,2) recognised_kinds [OF assms(3)]] by blast
  from receive_packet [OF assms(1-3) w(2) assms(4,5), of junk] w(1,3) show ?thesis
    unfolding holds_def append_assoc [symmetric] by blast
qed

theorem only_first_packet_read_witness:
  "\<exists>s1 sent s2 r'. encode_buffer (ServerListRequest (replicate 8 7) 0)
       (new_auth_link (\<lambda>_. 0) (SetXorKey 5 (SetDesKey 99 (new_codec [] []))) Client) = Some s1 \<and>
     send_buffer (Some (GetReadableDataSize (m_unsent_bytes_storage s1))) s1 = Some (True, sent, s2) \<and>
     handle_input [] (sent @ [1, 2, 3, 4]) (new_auth_link (\<lambda>_. 0) (SetXorKey 5 (SetDesKey 99 (new_codec [1] [2]))) Server) =
       Some (Some (ServerListRequest (replicate 8 7) 0), r') \<and> data (m_received_bytes_storage r') = [1, 2, 3, 4]"
  using only_first_packet_read [OF new_links_pair [of "\<lambda>_. 0" 5 99 "new_codec [] []" Client "new_codec [1] [2]" Server],
      of "ServerListRequest (replicate 8 7) 0" "[1, 2, 3, 4]" "[]"]
  by (auto simp: new_auth_link_def new_buffer_holds)

lemma handle_input_some:
  assumes "link_pair s r" "2 \<le> length bs" "length bs \<le> 39"
  shows "\<exists>b. holds bs 0 b \<and> handle_input junk bs r = bytes_to_event junk (r\<lparr>m_received_bytes_storage := b\<rparr>)"
proof -
  have "bs \<noteq> []" using assms(2) by auto
  with handle_input_fresh [of 0 r bs junk] assms show ?thesis by (auto simp: link_pair_def)
qed

lemma short_turn:
  assumes "holds ds 0 b" "3 \<le> length ds" "length ds - 2 < unat (of_le_bytes (take 2 ds) :: u16)"
  shows "\<exists>b'. holds (tl ds) 1 b' \<and>
    bytes_to_event_turn junk (r\<lparr>m_received_bytes_storage := b\<rparr>) = Some (Inl (r\<lparr>m_received_bytes_storage := b'\<rparr>))"
  using incomplete_turn [of ds "r\<lparr>m_received_bytes_storage := b\<rparr>" junk] assms by auto

text \<open>A packet that arrives in two segments is lost: from its first three bytes no event is made, but the lower
  byte of its size is dropped from the buffer, so that what follows is read from the wrong place.\<close>

theorem incomplete_packet_dropped:
  assumes "link_pair s r" "event_ok ev" "recognised (m_direction r) ev"
  shows "\<exists>s1 sent s2 r'. encode_buffer ev s = Some s1 \<and>
    send_buffer (Some (GetReadableDataSize (m_unsent_bytes_storage s1))) s1 = Some (True, sent, s2) \<and> 5 < length sent \<and>
    handle_input junk (take 3 sent) r = Some (None, r') \<and> data (m_received_bytes_storage r') = tl (take 3 sent)"
proof -
  obtain s1 cs c' s2 where w: "encode_buffer ev s = Some s1" "length cs = length (body ev)"
    "send_buffer (Some (GetReadableDataSize (m_unsent_bytes_storage s1))) s1 = Some (True, packet_size (body ev) @ cs, s2)"
    using encode_and_send [OF assms(1,2) recognised_kinds [OF assms(3)]] by blast
  let ?seg = "take 3 (packet_size (body ev) @ cs)"
  have n: "5 \<le> length (body ev)" "length (body ev) \<le> 37"
    using length_body [of ev] recognised_kinds [OF assms(3)] assms(2) by auto
  have len: "length ?seg = 3" "length (packet_size (body ev)) = 2" using n w(2) by (simp_all add: packet_size_def)
  obtain b where b: "holds ?seg 0 b" "handle_input junk ?seg r = bytes_to_event junk (r\<lparr>m_received_bytes_storage := b\<rparr>)"
  proof -
    have "2 \<le> length ?seg" "length ?seg \<le> 39" using len(1) by linarith+
    from that handle_input_some [OF assms(1) this] show thesis by blast
  qed
  have seg: "take 2 ?seg = packet_size (body ev)" using len(2) by simp
  have "unat (of_le_bytes (take 2 ?seg) :: u16) = length (body ev) - 1"
    unfolding seg packet_size_def using size_field [of "body ev"] n by (simp add: le_bytes_roundtrip)
  moreover have "length ?seg - 2 < length (body ev) - 1" "3 \<le> length ?seg" unfolding len(1) using n by linarith+
  ultimately obtain b2 where b2: "holds (tl ?seg) 1 b2"
    "bytes_to_event_turn junk (r\<lparr>m_received_bytes_storage := b\<rparr>) = Some (Inl (r\<lparr>m_received_bytes_storage := b2\<rparr>))"
    using short_turn [OF b(1)] by metis
  have "GetReadableDataSize b2 = 1" using holds_readable [OF b2(1)] len(1) by simp
  then have "bytes_to_event junk (r\<lparr>m_received_bytes_storage := b2\<rparr>) = Some (None, r\<lparr>m_received_bytes_storage := b2\<rparr>)"
    by (subst bytes_to_event.simps) (simp add: bytes_to_event_turn_def)
  with b2(2) have "bytes_to_event junk (r\<lparr>m_received_bytes_storage := b\<rparr>) = Some (None, r\<lparr>m_received_bytes_storage := b2\<rparr>)"
    by (subst bytes_to_event.simps) simp
  then have hi: "handle_input junk ?seg r = Some (None, r\<lparr>m_received_bytes_storage := b2\<rparr>)" using b(2) by simp
  have "data b2 = tl ?seg" using b2(1) by (simp add: holds_def)
  moreover have "5 < length (packet_size (body ev) @ cs)" using n w(2) len(2) by simp
  ultimately show ?thesis using w(1,3) hi
    by (intro exI [of _ s1] exI [of _ "packet_size (body ev) @ cs"] exI [of _ s2] exI [of _ "r\<lparr>m_received_bytes_storage := b2\<rparr>"]) simp
qed

theorem incomplete_packet_dropped_witness:
  "\<exists>s1 sent s2 r'. encode_buffer (ServerListRequest (replicate 8 7) 0)
       (new_auth_link (\<lambda>_. 0) (SetXorKey 5 (SetDesKey 99 (new_codec [] []))) Client) = Some s1 \<and>
     send_buffer (Some (GetReadableDataSize (m_unsent_bytes_storage s1))) s1 = Some (True, sent, s2) \<and>
     handle_input [] (take 3 sent) (new_auth_link (\<lambda>_. 0) (SetXorKey 5 (SetDesKey 99 (new_codec [1] [2]))) Server) = Some (None, r')"
  using incomplete_packet_dropped [OF new_links_pair [of "\<lambda>_. 0" 5 99 "new_codec [] []" Client "new_codec [1] [2]" Server],
      of "ServerListRequest (replicate 8 7) 0" "[]"]
  by (fastforce simp: new_auth_link_def)

section \<open>Long server lists\<close>

lemma Put_mono: "Put v b = Some b' \<Longrightarrow> m_size b \<le> m_size b' \<and> m_max_size b' = m_max_size b"
  by (auto simp: Put_def resize_def uPut_def Let_def Option.bind_eq_Some_conv split: if_splits)

lemma Puts_mono: "Puts vs b = Some b' \<Longrightarrow> m_size b \<le> m_size b'"
  by (induction vs arbitrary: b) (fastforce simp: Option.bind_eq_Some_conv dest: Put_mono)+

lemma Puts_grows:
  assumes "buf_inv b" "m_size b + 4 < m_max_size b" "m_size b + 4 < 1048576" "list_all (\<lambda>v. length v \<le> 4) vs"
    "Puts vs b = Some b'" "m_size b < m_write_off b + length (concat vs)"
  shows "m_size b < m_size b'"
  using assms
proof (induction vs arbitrary: b)
  case (Cons v vs)
  obtain b1 where b1: "Put v b = Some b1" "Puts vs b1 = Some b'" using Cons.prems(5) by (auto simp: Option.bind_eq_Some_conv)
  have w: "m_write_off b \<le> m_size b" "length v \<le> 4" using Cons.prems(1,4) by (auto simp: buf_inv_def)
  show ?case
  proof (cases "m_write_off b + length v \<le> m_size b")
    case True
    then have "\<not> GetAvailSize b < length v" using buf_inv_avail [OF Cons.prems(1)] by simp
    with uPut_appends [OF Cons.prems(1) True] b1(1)
    have b: "buf_inv b1" "m_size b1 = m_size b" "m_max_size b1 = m_max_size b" "m_write_off b1 = m_write_off b + length v"
      by (auto simp: Put_def)
    from Cons.IH [OF b(1)] b1(2) Cons.prems b(2-4) show ?thesis by simp
  next
    case False
    then have av: "GetAvailSize b < length v" using buf_inv_avail [OF Cons.prems(1)] w by simp
    let ?acc = "m_write_off b + length v"
    obtain b0 where b0: "resize ?acc b = Some (0, b0)" "grown b ?acc b0"
    proof -
      have "0 < ?acc" "?acc \<le> m_max_size b" "?acc < 1048576" using False w Cons.prems(2,3) by linarith+
      from that resize_grown [OF Cons.prems(1) this] show thesis by blast
    qed
    then have "m_size b < m_size b0" "uPut v b0 = Some b1" using False b1(1) av by (auto simp: grown_def Put_def)
    moreover have "m_size b1 = m_size b0" using calculation(2) by (auto simp: uPut_def split: if_splits)
    ultimately show ?thesis using Puts_mono [OF b1(2)] by simp
  qed
qed (simp add: buf_inv_def)

lemma server_fields_lengths:
  "length (concat (concat (map server_fields servers))) = 16 * length servers \<and>
   list_all (\<lambda>v. length v \<le> 4) (concat (map server_fields servers))"
  by (induction servers) (auto simp: server_fields_def)

text \<open>The list of three or more servers, and the empty one, cannot be sent: the buffer of a new link has 40
  bytes and grows while the list is written, after which the size of the packet is stored through a pointer into
  the old allocation; the empty list fails an assertion.\<close>

theorem long_server_list_breaks:
  assumes "servers = [] \<or> 3 \<le> length servers"
  shows "encode_buffer (ServerListResponse servers preferred) (new_auth_link fresh codec dir) = None"
proof -
  let ?b = "new_buffer fresh 512 0 40" and ?head = "[[4], [of_nat (length servers)], [1]] :: u8 list list"
  have h0: "holds [] 0 ?b" and size: "m_size ?b = 40" "m_max_size ?b = 512"
    by (simp_all add: new_buffer_holds)
  obtain b1 where b1: "uPut [0, 0] ?b = Some b1" "holds [0, 0] 0 b1" "m_size b1 = 40" "m_max_size b1 = 512"
    using uPut_appends [of ?b "[0, 0]"] h0 size holds_write_off [OF h0] by (auto simp: holds_def)
  obtain b2 where b2: "uPuts ?head b1 = Some b2" "holds ([0, 0] @ concat ?head) 0 b2" "m_size b2 = 40"
    using uPuts_holds [OF b1(2), of ?head] b1(3) by auto
  have max2: "m_max_size b2 = 512"
    using b2(1) b1(4) by (auto simp: uPut_def Option.bind_eq_Some_conv split: if_splits)
  have w: "buf_inv b2" "m_write_off b2 = 5" using b2(2) holds_write_off [OF b2(2)] by (simp_all add: holds_def)
  have "m_size b3 \<noteq> 40" if p: "Puts (concat (map server_fields servers)) b2 = Some b3" and n: "3 \<le> length servers" for b3
    using Puts_grows [OF w(1) _ _ _ p] server_fields_lengths [of servers] n b2(3) w(2) max2 by simp
  with assms b1(1,3) b2(1) show ?thesis
    by (auto simp: encode_buffer_def new_auth_link_def Let_def Option.bind_eq_None_conv)
qed

theorem long_server_list_breaks_witness:
  "encode_buffer (ServerListResponse (replicate 3 \<lparr>gs_id = 1, gs_addr = 2, gs_port = 3, gs_current_players = 0, gs_max_players = 9, gs_online = 1\<rparr>) 0)
     (new_auth_link (\<lambda>_. 0) (new_codec [] []) Server) = None"
  by (rule long_server_list_breaks) simp

end
