(* ===== verification/Auth_Handler.thy ===== *)
theory Auth_Handler
  imports Session_Store Ordered_Map Auth_Link
begin

text \<open>
  The login service: class \<open>AuthHandler\<close> of \<open>Servers/AuthServer/AuthHandler.h\<close> and
  \<open>AuthHandler.cpp\<close>, with the answers of the account database, \<open>AuthDBSyncEvents.h\<close>, and the two
  operations of a link that belong to its life, \<open>AuthLink::open\<close> and \<open>handle_close\<close>.

  Sessions are in the store of \<open>Session_Store\<close>, links are objects of their own that sessions point
  to; the network library deletes a link some time after it was closed, and a pointer to a deleted
  link is not followed without the outcome \<open>None\<close>. Handlers give the next state and the messages
  they post.
\<close>

section \<open>State\<close>

record account_info =
  acc_login :: text_bytes
  m_creation_date :: int
  m_acc_server_acc_id :: u32
  acc_access_level :: u8

definition account_exists :: "account_info \<Rightarrow> bool" where
  "account_exists a \<longleftrightarrow> m_acc_server_acc_id a \<noteq> 0"

definition isBlocked :: "account_info \<Rightarrow> bool" where
  "isBlocked a \<longleftrightarrow> acc_access_level a = 0"

datatype client_state = CLIENT_DISCONNECTED | CLIENT_EXPECTED | NOT_LOGGED_IN | LOGGED_IN | CLIENT_CONNECTED

text \<open>The lowest bit of the link pointer of a session is a flag of its own; \<open>m_link\<close> is the pointer without it.\<close>

record auth_session = client_session +
  m_auth_data :: "account_info option"
  m_state :: client_state
  is_connected_to_game_server_id :: u32
  is_temporary :: bool

definition blank_auth_session :: auth_session where
  "blank_auth_session = \<lparr>m_session_token = 0, m_link = 0, auth_id = 0, m_auth_data = None, m_state = NOT_LOGGED_IN,
     is_connected_to_game_server_id = 0, is_temporary = False\<rparr>"

definition session_set_link :: "link_id \<Rightarrow> auth_session \<Rightarrow> auth_session" where
  "session_set_link l session = session\<lparr>m_link := l, is_temporary := False\<rparr>"

definition set_temporary :: "bool \<Rightarrow> auth_session \<Rightarrow> auth_session" where
  "set_temporary v session = session\<lparr>is_temporary := v\<rparr>"

record game_server_status =
  status_ip :: u32
  status_port :: u16
  m_last_status_update :: int
  m_current_players :: u16
  m_max_players :: u16
  status_id :: u8
  m_online :: bool

record auth_link =
  link_state :: auth_link_state
  session_token :: u64

record auth_handler =
  m_sessions :: "auth_session session_store"
  s_last_session_id :: u64
  m_known_game_servers :: "(u8, game_server_status) ordered_map"
  auth_links :: "link_id \<Rightarrow> auth_link option"

definition new_auth_handler :: auth_handler where
  "new_auth_handler = \<lparr>m_sessions = new_store, s_last_session_id = 1, m_known_game_servers = [], auth_links = (\<lambda>_. None)\<rparr>"

text \<open>What the handler asks of its surroundings; \<open>junk_byte\<close> is the value of a member that is never initialised.\<close>

record 'addr auth_env =
  auth_db_running :: bool
  game_running :: "u8 \<Rightarrow> bool"
  link_peer :: "link_id \<Rightarrow> 'addr"
  rand_result :: u32
  time_now :: int
  junk_byte :: u8

datatype auth_input =
    LinkOpened link_id auth_link_state
  | LinkClosed link_id
  | LinkDeleted link_id
  | ConnectEvent link_id
  | DisconnectEvent u64
  | ClientPacket link_id auth_event
  | RetrieveAccountResponse u64 account_info
  | AuthDbStatusMessage u64
  | ExpectClientResponse u64 u32
  | ServerClientConnected u64 u32
  | ServerClientDisconnected u64 u64
  | GameServerStatusMessage game_server_status
  | ReapingTimer

datatype 'addr auth_out =
    ToLink link_id auth_event
  | FinishLink link_id
  | PostConnect link_id
  | PostDisconnect u64
  | RetrieveAccountRequest text_bytes text_bytes u32 u64
  | GameExpectClientRequest u8 'addr u32 u8 u64

type_synonym 'addr auth_result = "(auth_handler \<times> 'addr auth_out list) option"

section \<open>Links\<close>

definition the_link :: "link_id \<Rightarrow> auth_handler \<Rightarrow> auth_link option" where
  "the_link lnk h = (if lnk = 0 then None else auth_links h lnk)"

definition put_link :: "link_id \<Rightarrow> auth_link \<Rightarrow> auth_handler \<Rightarrow> auth_handler" where
  "put_link lnk l h = h\<lparr>auth_links := (auth_links h)(lnk \<mapsto> l)\<rparr>"

definition get_link_stage :: "link_id \<Rightarrow> auth_handler \<Rightarrow> link_stage option" where
  "get_link_stage lnk h = map_option (\<lambda>l. m_connection_stage (link_state l)) (the_link lnk h)"

definition set_link_stage :: "link_id \<Rightarrow> link_stage \<Rightarrow> auth_handler \<Rightarrow> auth_handler option" where
  "set_link_stage lnk stage h =
    map_option (\<lambda>l. put_link lnk (l\<lparr>link_state := (link_state l)\<lparr>m_connection_stage := stage\<rparr>\<rparr>) h) (the_link lnk h)"

text \<open>\<open>LinkBase::session_token\<close>: the new token must not be zero.\<close>

definition set_session_token :: "link_id \<Rightarrow> u64 \<Rightarrow> auth_handler \<Rightarrow> auth_handler option" where
  "set_session_token lnk tok h =
    do { l \<leftarrow> the_link lnk h; if tok = 0 then None else Some (put_link lnk (l\<lparr>session_token := tok\<rparr>) h) }"

definition link_putq :: "link_id \<Rightarrow> auth_event \<Rightarrow> auth_handler \<Rightarrow> 'addr auth_result" where
  "link_putq lnk ev h = do { l \<leftarrow> the_link lnk h; Some (h, [ToLink lnk ev]) }"

definition AUTH_ACCOUNT_BLOCKED :: u32 where "AUTH_ACCOUNT_BLOCKED = 0"
definition AUTH_DATABASE_ERROR :: u32 where "AUTH_DATABASE_ERROR = 1"
definition AUTH_WRONG_LOGINPASS :: u32 where "AUTH_WRONG_LOGINPASS = 3"
definition AUTH_ACCOUNT_SYNC_FAIL :: u32 where "AUTH_ACCOUNT_SYNC_FAIL = 4"
definition AUTH_ALREADY_LOGGEDIN :: u32 where "AUTH_ALREADY_LOGGEDIN = 7"
definition AUTH_UNKN_ERROR :: u32 where "AUTH_UNKN_ERROR = 20"

definition auth_error :: "link_id \<Rightarrow> u32 \<Rightarrow> auth_handler \<Rightarrow> 'addr auth_result" where
  "auth_error lnk code h = link_putq lnk (AuthorizationError code) h"

text \<open>\<open>AuthLink::open\<close> on a new object, and \<open>handle_close\<close>.\<close>

definition link_open :: "link_id \<Rightarrow> auth_link_state \<Rightarrow> auth_handler \<Rightarrow> 'addr auth_result" where
  "link_open lnk s h =
    (if lnk = 0 \<or> auth_links h lnk \<noteq> None then None
     else Some (put_link lnk \<lparr>link_state = s\<lparr>m_connection_stage := INITIAL\<rparr>, session_token = 0\<rparr> h, [PostConnect lnk]))"

definition link_handle_close :: "link_id \<Rightarrow> auth_handler \<Rightarrow> 'addr auth_result" where
  "link_handle_close lnk h = do { l \<leftarrow> the_link lnk h; Some (h, [PostDisconnect (session_token l)]) }"

section \<open>Connections\<close>

definition on_connect :: "link_id \<Rightarrow> auth_handler \<Rightarrow> 'addr auth_result" where
  "on_connect lnk h =
    do {
      h \<leftarrow> set_link_stage lnk CONNECTED h;
      l \<leftarrow> the_link lnk h;
      s \<leftarrow> init_crypto 30206 1 (link_state l);
      link_putq lnk (AuthProtocolVersion 1 30206) (put_link lnk (l\<lparr>link_state := s\<rparr>) h) }"

text \<open>The two parts of \<open>on_disconnect\<close>: marking the session, through its link, and taking the link away.\<close>

definition mark_unless_playing :: "int \<Rightarrow> session_ptr \<Rightarrow> auth_session \<Rightarrow> auth_handler \<Rightarrow>
    auth_session session_store \<Rightarrow> auth_session session_store option" where
  "mark_unless_playing now p session h st =
    (if is_connected_to_game_server_id session = 0 then do {
       l \<leftarrow> the_link (m_link session) h;
       Some (mark_session_for_reaping now p (session_token l) ''AuthHander: Disconnect'' st) }
     else Some st)"

definition drop_link :: "session_ptr \<Rightarrow> auth_session \<Rightarrow> auth_session session_store \<Rightarrow> auth_session session_store option" where
  "drop_link p session st =
    (if m_link session \<noteq> 0 then remove_from_active_sessions p (set_session p (session_set_link 0 session) st)
     else Some st)"

definition auth_on_disconnect :: "int \<Rightarrow> u64 \<Rightarrow> auth_handler \<Rightarrow> 'addr auth_result" where
  "auth_on_disconnect now tok h =
    (if tok = 0 then Some (h, [])
     else do {
       p \<leftarrow> session_from_token tok (m_sessions h);
       session \<leftarrow> sessions (m_sessions h) p;
       let session = session\<lparr>m_state := NOT_LOGGED_IN\<rparr>;
       st \<leftarrow> mark_unless_playing now p session h (set_session p session (m_sessions h));
       st \<leftarrow> drop_link p session st;
       Some (h\<lparr>m_sessions := st\<rparr>, []) })"

section \<open>Logging in\<close>

definition isClientConnectedAnywhere :: "u32 \<Rightarrow> auth_handler \<Rightarrow> bool option" where
  "isClientConnectedAnywhere client_id h =
    (let tok = token_for_id client_id (m_sessions h) in
     if tok = 0 then Some False
     else do {
       p \<leftarrow> session_from_token tok (m_sessions h);
       session \<leftarrow> sessions (m_sessions h) p;
       Some (if m_state session = LOGGED_IN then True else is_connected_to_game_server_id session \<noteq> 0) })"

text \<open>The characters of an array up to the first zero.\<close>

definition c_chars :: "u8 list \<Rightarrow> text_bytes" where
  "c_chars cs = takeWhile (\<lambda>c. c \<noteq> 0) cs"

text \<open>The temporary session of a login and the request to the database.\<close>

definition start_login :: "int \<Rightarrow> link_id \<Rightarrow> u8 list \<Rightarrow> u8 list \<Rightarrow> auth_handler \<Rightarrow> 'addr auth_result" where
  "start_login now lnk login password h =
    do {
      let sess_tok = s_last_session_id h;
      (p, st) \<leftarrow> create_session blank_auth_session sess_tok (m_sessions h);
      session \<leftarrow> sessions st p;
      let st = set_session p (set_temporary True (session_set_link lnk session)) st;
      let st = mark_session_for_reaping now p sess_tok ''AuthHandler: waiting for handover'' st;
      Some (h\<lparr>m_sessions := st, s_last_session_id := sess_tok + 1\<rparr>,
            [RetrieveAccountRequest (c_chars login) (c_chars password) 0 sess_tok]) }"

definition on_login :: "'addr auth_env \<Rightarrow> link_id \<Rightarrow> u8 list \<Rightarrow> u8 list \<Rightarrow> auth_handler \<Rightarrow> 'addr auth_result" where
  "on_login e lnk login password h =
    (if login ! 13 \<noteq> 0 then auth_error lnk AUTH_ACCOUNT_BLOCKED h
     else if password ! 15 \<noteq> 0 then auth_error lnk AUTH_ACCOUNT_BLOCKED h
     else if \<not> auth_db_running e then auth_error lnk AUTH_ACCOUNT_SYNC_FAIL h
     else do {
       stage \<leftarrow> get_link_stage lnk h;
       if stage \<noteq> CONNECTED then auth_error lnk AUTH_UNKN_ERROR h
       else if length (c_chars login) \<le> 2 then auth_error lnk AUTH_ACCOUNT_BLOCKED h
       else start_login (time_now e) lnk login password h })"

text \<open>
  The end of a successful login: the data are stored in the session \<open>p\<close>, which has the link \<open>lnk\<close>.
\<close>

definition finish_login :: "session_ptr \<Rightarrow> link_id \<Rightarrow> account_info \<Rightarrow> auth_handler \<Rightarrow> 'addr auth_result" where
  "finish_login p lnk acc h =
    do {
      session \<leftarrow> sessions (m_sessions h) p;
      let st = set_session p (session\<lparr>m_auth_data := Some acc, auth_id := m_acc_server_acc_id acc, m_state := LOGGED_IN\<rparr>)
                 (add_to_active_sessions p (m_sessions h));
      h \<leftarrow> set_link_stage lnk AUTHORIZED (h\<lparr>m_sessions := st\<rparr>);
      l \<leftarrow> the_link lnk h;
      link_putq lnk (LoginResponse (replicate 8 0) (replicate 8 0) 0 0 0)
        (h\<lparr>m_sessions := setTokenForId (m_acc_server_acc_id acc) (session_token l) (m_sessions h)\<rparr>) }"

text \<open>Giving the link of the waiting session \<open>p\<close> to the session \<open>q\<close> that is to be used.\<close>

definition hand_over :: "session_ptr \<Rightarrow> u64 \<Rightarrow> link_id \<Rightarrow> auth_handler \<Rightarrow> auth_handler option" where
  "hand_over q tok lnk h =
    do {
      h \<leftarrow> set_session_token lnk tok h;
      session \<leftarrow> sessions (m_sessions h) q;
      Some (h\<lparr>m_sessions := set_session q (session_set_link lnk session) (m_sessions h)\<rparr>) }"

text \<open>The destructor of \<open>ReaperProtection\<close> with the protected session \<open>p\<close>.\<close>

definition protection_expires :: "int \<Rightarrow> session_ptr \<Rightarrow> u64 \<Rightarrow> 'addr auth_result \<Rightarrow> 'addr auth_result" where
  "protection_expires now p tok res =
    map_option (\<lambda>(h, out). (h\<lparr>m_sessions :=
      mark_session_for_reaping now p tok ''ReaperProtection: Expired'' (m_sessions h)\<rparr>, out)) res"

text \<open>The account has no session yet: the waiting session \<open>p\<close> becomes its session, without the protection.\<close>

definition use_waiting_session :: "session_ptr \<Rightarrow> u64 \<Rightarrow> link_id \<Rightarrow> account_info \<Rightarrow> auth_handler \<Rightarrow> 'addr auth_result" where
  "use_waiting_session p sess_token lnk acc h = do { h \<leftarrow> hand_over p sess_token lnk h; finish_login p lnk acc h }"

text \<open>The account has a session with the token \<open>existing_sess_tok\<close>: it gets the link of \<open>p\<close>.\<close>

definition use_old_session :: "int \<Rightarrow> session_ptr \<Rightarrow> u64 \<Rightarrow> u64 \<Rightarrow> link_id \<Rightarrow> account_info \<Rightarrow> auth_handler \<Rightarrow> 'addr auth_result" where
  "use_old_session now p sess_token existing_sess_tok lnk acc h =
    do {
      old \<leftarrow> session_from_token existing_sess_tok (m_sessions h);
      old_session \<leftarrow> sessions (m_sessions h) old;
      if m_state old_session \<noteq> NOT_LOGGED_IN
      then protection_expires now p sess_token (auth_error lnk AUTH_WRONG_LOGINPASS h)
      else do {
        st \<leftarrow> unmark_session_for_reaping old (m_sessions h);
        session \<leftarrow> sessions st p;
        h \<leftarrow> hand_over old existing_sess_tok lnk (h\<lparr>m_sessions := set_session p (session_set_link 0 session) st\<rparr>);
        protection_expires now p sess_token (finish_login old lnk acc h) } }"

definition on_retrieve_account_response :: "int \<Rightarrow> u64 \<Rightarrow> account_info \<Rightarrow> auth_handler \<Rightarrow> 'addr auth_result" where
  "on_retrieve_account_response now sess_token acc h =
    (if \<not> has_session_for sess_token (m_sessions h) then Some (h, [])
     else do {
       p \<leftarrow> session_from_token sess_token (m_sessions h);
       st \<leftarrow> unmark_session_for_reaping p (m_sessions h);
       session \<leftarrow> sessions st p;
       let h = h\<lparr>m_sessions := st\<rparr>;
       let lnk = m_link session;
       if lnk = 0 then None
       else if \<not> account_exists acc then protection_expires now p sess_token (auth_error lnk AUTH_WRONG_LOGINPASS h)
       else if isBlocked acc then protection_expires now p sess_token (auth_error lnk AUTH_ACCOUNT_BLOCKED h)
       else do {
         connected \<leftarrow> isClientConnectedAnywhere (m_acc_server_acc_id acc) h;
         if connected then protection_expires now p sess_token (auth_error lnk AUTH_ALREADY_LOGGEDIN h)
         else
           let existing_sess_tok = token_for_id (m_acc_server_acc_id acc) st
           in if existing_sess_tok \<noteq> 0 then use_old_session now p sess_token existing_sess_tok lnk acc h
              else use_waiting_session p sess_token lnk acc h } })"

section \<open>Choosing a server\<close>

definition server_info :: "game_server_status \<Rightarrow> game_server_info" where
  "server_info server = \<lparr>gs_id = status_id server, gs_addr = status_ip server, gs_port = status_port server,
     gs_current_players = m_current_players server, gs_max_players = m_max_players server,
     gs_online = (if m_online server then 1 else 0)\<rparr>"

definition on_server_list_request :: "'addr auth_env \<Rightarrow> link_id \<Rightarrow> auth_handler \<Rightarrow> 'addr auth_result" where
  "on_server_list_request e lnk h =
    do {
      stage \<leftarrow> get_link_stage lnk h;
      if stage \<noteq> AUTHORIZED then auth_error lnk AUTH_UNKN_ERROR h
      else do {
        h \<leftarrow> set_link_stage lnk CLIENT_SERVSELECT h;
        link_putq lnk (ServerListResponse (map (server_info \<circ> snd) (m_known_game_servers h)) (junk_byte e)) h } }"

definition on_server_selected :: "'addr auth_env \<Rightarrow> link_id \<Rightarrow> u8 \<Rightarrow> auth_handler \<Rightarrow> 'addr auth_result" where
  "on_server_selected e lnk server_id h =
    do {
      l \<leftarrow> the_link lnk h;
      p \<leftarrow> session_from_link lnk (session_token l) (m_sessions h);
      session \<leftarrow> sessions (m_sessions h) p;
      if m_connection_stage (link_state l) \<noteq> CLIENT_SERVSELECT then auth_error lnk AUTH_UNKN_ERROR h
      else if \<not> game_running e server_id then auth_error lnk (rand_result e mod 33) h
      else do {
        acc_inf \<leftarrow> m_auth_data session;
        Some (h, [GameExpectClientRequest server_id (link_peer e lnk) (m_acc_server_acc_id acc_inf)
                    (acc_access_level acc_inf) (session_token l)]) } }"

definition auth_on_client_expected :: "u64 \<Rightarrow> u32 \<Rightarrow> auth_handler \<Rightarrow> 'addr auth_result" where
  "auth_on_client_expected tok cookie h =
    do {
      p \<leftarrow> session_from_event tok (m_sessions h);
      session \<leftarrow> sessions (m_sessions h) p;
      if m_link session = 0 then None
      else do {
        h \<leftarrow> set_link_stage (m_link session) CLIENT_AWAITING_DISCONNECT h;
        link_putq (m_link session) (ServerSelectResponse cookie 0xCAFEF00D 0) h } }"

section \<open>Messages of the game servers\<close>

definition auth_on_client_connected :: "u64 \<Rightarrow> u32 \<Rightarrow> auth_handler \<Rightarrow> 'addr auth_result" where
  "auth_on_client_connected tok server_id h =
    (if server_id = 0 then None
     else do {
       p \<leftarrow> session_from_token tok (m_sessions h);
       st \<leftarrow> unmark_session_for_reaping p (m_sessions h);
       session \<leftarrow> sessions st p;
       Some (h\<lparr>m_sessions := set_session p (session\<lparr>is_connected_to_game_server_id := server_id\<rparr>) st\<rparr>, []) })"

text \<open>\<open>tok\<close> is the member of the message, \<open>ev_token\<close> the session token that every internal event has.\<close>

definition auth_on_client_disconnected :: "int \<Rightarrow> u64 \<Rightarrow> u64 \<Rightarrow> auth_handler \<Rightarrow> 'addr auth_result" where
  "auth_on_client_disconnected now tok ev_token h =
    do {
      p \<leftarrow> session_from_token tok (m_sessions h);
      session \<leftarrow> sessions (m_sessions h) p;
      let st = set_session p (session\<lparr>is_connected_to_game_server_id := 0\<rparr>) (m_sessions h);
      Some (h\<lparr>m_sessions := mark_session_for_reaping now p ev_token ''AuthHandler: GameServer disconnect'' st\<rparr>, []) }"

definition on_server_status_change :: "game_server_status \<Rightarrow> auth_handler \<Rightarrow> 'addr auth_result" where
  "on_server_status_change ev h =
    Some (h\<lparr>m_known_game_servers := map_put (status_id ev) ev (m_known_game_servers h)\<rparr>, [])"

definition on_db_error :: "u64 \<Rightarrow> auth_handler \<Rightarrow> 'addr auth_result" where
  "on_db_error tok h =
    do {
      p \<leftarrow> session_from_event tok (m_sessions h);
      session \<leftarrow> sessions (m_sessions h) p;
      auth_error (m_link session) AUTH_DATABASE_ERROR h }"

section \<open>Reaping\<close>

definition auth_link_is_stale_after :: int where
  "auth_link_is_stale_after = 2000000"

definition auth_reap_stale_links :: "int \<Rightarrow> auth_handler \<Rightarrow> 'addr auth_result" where
  "auth_reap_stale_links now h =
    do {
      (reaped, st) \<leftarrow> reap_stale_links now auth_link_is_stale_after (m_sessions h);
      if list_all (\<lambda>(_, l). l = 0 \<or> auth_links h l \<noteq> None) reaped
      then Some (h\<lparr>m_sessions := st\<rparr>, map (\<lambda>(_, l). FinishLink l) (filter (\<lambda>(_, l). l \<noteq> 0) reaped))
      else None }"

section \<open>Dispatch\<close>

text \<open>A packet of the wrong kind fails the assertion of \<open>dispatch\<close>; \<open>DbError\<close> would be taken for a \<open>Disconnect\<close>.\<close>

fun dispatch_packet :: "'addr auth_env \<Rightarrow> link_id \<Rightarrow> auth_event \<Rightarrow> auth_handler \<Rightarrow> 'addr auth_result" where
  "dispatch_packet e lnk (ReconnectAttempt _) h = Some (h, [])"
| "dispatch_packet e lnk (LoginRequest login password _ _) h = on_login e lnk login password h"
| "dispatch_packet e lnk (ServerListRequest _ _) h = on_server_list_request e lnk h"
| "dispatch_packet e lnk (ServerSelectRequest _ server_id) h = on_server_selected e lnk server_id h"
| "dispatch_packet e lnk _ h = None"

fun auth_dispatch :: "'addr auth_env \<Rightarrow> auth_input \<Rightarrow> auth_handler \<Rightarrow> 'addr auth_result" where
  "auth_dispatch e (LinkOpened lnk s) h = link_open lnk s h"
| "auth_dispatch e (LinkClosed lnk) h = link_handle_close lnk h"
| "auth_dispatch e (LinkDeleted lnk) h = Some (h\<lparr>auth_links := (auth_links h)(lnk := None)\<rparr>, [])"
| "auth_dispatch e (ConnectEvent lnk) h = on_connect lnk h"
| "auth_dispatch e (DisconnectEvent tok) h = auth_on_disconnect (time_now e) tok h"
| "auth_dispatch e (ClientPacket lnk ev) h = dispatch_packet e lnk ev h"
| "auth_dispatch e (RetrieveAccountResponse tok acc) h = on_retrieve_account_response (time_now e) tok acc h"
| "auth_dispatch e (AuthDbStatusMessage tok) h = on_db_error tok h"
| "auth_dispatch e (ExpectClientResponse tok cookie) h = auth_on_client_expected tok cookie h"
| "auth_dispatch e (ServerClientConnected tok server_id) h = auth_on_client_connected tok server_id h"
| "auth_dispatch e (ServerClientDisconnected tok ev_token) h = auth_on_client_disconnected (time_now e) tok ev_token h"
| "auth_dispatch e (GameServerStatusMessage ev) h = on_server_status_change ev h"
| "auth_dispatch e ReapingTimer h = auth_reap_stale_links (time_now e) h"

text \<open>Inputs one after another, with the results and the surroundings each of them met.\<close>

fun auth_run :: "('addr auth_env \<times> auth_input) list \<Rightarrow> auth_handler \<Rightarrow> (auth_handler \<times> 'addr auth_out list list) option" where
  "auth_run [] h = Some (h, [])"
| "auth_run ((e, ev) # evs) h =
    do { (h, out) \<leftarrow> auth_dispatch e ev h; (h, outs) \<leftarrow> auth_run evs h; Some (h, out # outs) }"

end
