(* ===== verification/Auth_Safety.thy ===== *)
theory Auth_Safety
  imports Auth_Handler
begin

text \<open>
  What has to happen before a client is told of the game servers: the history of a run, the steps
  by which a link becomes one of a logged in client, and the invariant that ties the two together.
\<close>

section \<open>Effects on links and sessions\<close>

text \<open>A link is in a stage that only a login leads to; the account data that sessions hold.\<close>

definition login_stage :: "link_id \<Rightarrow> auth_handler \<Rightarrow> bool" where
  "login_stage lnk h \<longleftrightarrow> get_link_stage lnk h = Some AUTHORIZED \<or> get_link_stage lnk h = Some CLIENT_SERVSELECT"

definition account_data :: "auth_handler \<Rightarrow> account_info set" where
  "account_data h = {acc. \<exists>p session. sessions (m_sessions h) p = Some session \<and> m_auth_data session = Some acc}"

abbreviation login_accepted :: auth_event where
  "login_accepted \<equiv> LoginResponse (replicate 8 0) (replicate 8 0) 0 0 0"

definition harmless :: "auth_handler \<Rightarrow> auth_handler \<Rightarrow> bool" where
  "harmless h h' \<longleftrightarrow> (\<forall>lnk. login_stage lnk h' \<longrightarrow> login_stage lnk h) \<and> account_data h' \<subseteq> account_data h"

lemma harmless_refl [simp]: "harmless h h"
  by (simp add: harmless_def)

lemma harmless_trans: "harmless h h1 \<Longrightarrow> harmless h1 h2 \<Longrightarrow> harmless h h2"
  by (auto simp: harmless_def)

lemma link_of_sessions [simp]: "the_link l (h\<lparr>m_sessions := st\<rparr>) = the_link l h"
  "get_link_stage l (h\<lparr>m_sessions := st\<rparr>) = get_link_stage l h"
  by (simp_all add: get_link_stage_def the_link_def)

lemma login_stage_sessions [simp]: "login_stage lnk (h\<lparr>m_sessions := st\<rparr>) = login_stage lnk h"
  "login_stage lnk (h\<lparr>m_sessions := st, s_last_session_id := t\<rparr>) = login_stage lnk h"
  "login_stage lnk (h\<lparr>m_known_game_servers := ss\<rparr>) = login_stage lnk h"
  by (simp_all add: login_stage_def get_link_stage_def the_link_def)

lemma get_link_stage_put [simp]:
  "lnk \<noteq> 0 \<Longrightarrow> get_link_stage l (put_link lnk x h) =
    (if l = lnk then Some (m_connection_stage (link_state x)) else get_link_stage l h)"
  by (auto simp: get_link_stage_def the_link_def put_link_def)

lemma the_link_some: "the_link lnk h = Some l \<Longrightarrow> lnk \<noteq> 0 \<and> get_link_stage lnk h = Some (m_connection_stage (link_state l))"
  by (auto simp: the_link_def get_link_stage_def split: if_splits)

lemma get_link_stage_cong: "auth_links h' = auth_links h \<Longrightarrow> get_link_stage l h' = get_link_stage l h"
  by (simp add: get_link_stage_def the_link_def)

lemma stage_nonzero: "get_link_stage l h = Some stage \<Longrightarrow> l \<noteq> 0"
  by (auto simp: get_link_stage_def the_link_def split: if_splits)

lemma set_stage_effect:
  "set_link_stage lnk stage h = Some h' \<Longrightarrow> m_sessions h' = m_sessions h \<and> m_known_game_servers h' = m_known_game_servers h \<and>
   (\<forall>l. get_link_stage l h' = (if l = lnk then Some stage else get_link_stage l h)) \<and>
   (\<forall>l. map_option session_token (the_link l h') = map_option session_token (the_link l h))"
  by (auto simp: set_link_stage_def put_link_def the_link_def get_link_stage_def split: if_splits)

lemma set_token_effect:
  "set_session_token lnk tok h = Some h' \<Longrightarrow> m_sessions h' = m_sessions h \<and> (\<forall>l. get_link_stage l h' = get_link_stage l h) \<and>
   tok \<noteq> 0 \<and> map_option session_token (the_link lnk h') = Some tok"
  by (auto simp: set_session_token_def Option.bind_eq_Some_conv dest!: the_link_some split: if_splits)
    (auto simp: put_link_def the_link_def)

lemma link_putq_effect: "link_putq lnk ev h = Some (h', out) \<Longrightarrow> h' = h \<and> out = [ToLink lnk ev] \<and> the_link lnk h \<noteq> None"
  by (auto simp: link_putq_def Option.bind_eq_Some_conv)

lemma error_effect: "auth_error lnk code h = Some (h', out) \<Longrightarrow> h' = h \<and> out = [ToLink lnk (AuthorizationError code)]"
  by (auto simp: auth_error_def dest: link_putq_effect)

text \<open>Changes of the store that leave the account data of the sessions.\<close>

definition data_in :: "auth_session session_store \<Rightarrow> account_info set" where
  "data_in st = {acc. \<exists>p session. sessions st p = Some session \<and> m_auth_data session = Some acc}"

lemma account_data_in: "account_data h = data_in (m_sessions h)"
  by (simp add: account_data_def data_in_def)

lemma data_in_set:
  assumes "m_auth_data x = None \<or> (\<exists>q y. sessions st q = Some y \<and> m_auth_data y = m_auth_data x)"
  shows "data_in (set_session p x st) \<subseteq> data_in st"
  using assms by (fastforce simp: data_in_def set_session_def split: if_splits)

lemma data_in_update:
  "sessions st p = Some x \<Longrightarrow> m_auth_data x' = m_auth_data x \<Longrightarrow> data_in (set_session p x' st) \<subseteq> data_in st"
  by (rule data_in_set) auto

lemma data_in_cong: "sessions st' = sessions st \<Longrightarrow> data_in st' = data_in st"
  by (simp add: data_in_def)

lemma data_in_mark [simp]: "data_in (mark_session_for_reaping now p t r st) = data_in st"
  by (rule data_in_cong) (simp add: mark_session_for_reaping_def marked_for_reaping_def)

lemma data_in_activate [simp]: "data_in (add_to_active_sessions p st) = data_in st"
  "data_in (setTokenForId i t st) = data_in st"
  by (rule data_in_cong, simp add: add_to_active_sessions_def setTokenForId_def)+

lemma data_in_deactivate: "remove_from_active_sessions p st = Some st' \<Longrightarrow> data_in st' = data_in st"
  by (rule data_in_cong) (auto simp: remove_from_active_sessions_def split: if_splits)

lemma unmark_sessions: "unmark_session_for_reaping p st = Some st' \<Longrightarrow> sessions st' = sessions st"
  by (auto simp: unmark_session_for_reaping_def unmarked_for_reaping_def Option.bind_eq_Some_conv)

lemma data_in_unmark: "unmark_session_for_reaping p st = Some st' \<Longrightarrow> data_in st' = data_in st"
  by (rule data_in_cong) (rule unmark_sessions)

lemma data_in_create:
  "create_session blank_auth_session t st = Some (p, st') \<Longrightarrow> data_in st' \<subseteq> data_in st \<and>
   (\<exists>x. sessions st' p = Some x \<and> m_auth_data x = None)"
  by (fastforce simp: create_session_def data_in_def set_session_def blank_auth_session_def Let_def split: if_splits)

lemma data_in_remove: "data_in (remove_by_token t i st) \<subseteq> data_in st"
  by (auto simp: data_in_def remove_by_token_def split: option.splits if_splits)

lemma data_in_reap: "reap_loop now limit idx n r st = Some (r', st') \<Longrightarrow> data_in st' \<subseteq> data_in st"
proof (induction now limit idx n r st rule: reap_loop.induct)
  case (1 now limit idx n r st)
  let ?w = "m_session_ready_for_reaping st ! idx"
  consider "\<not> idx < n" | "idx < n" "now - m_waiting_since ?w < limit" | "idx < n" "\<not> now - m_waiting_since ?w < limit" by blast
  then show ?case
  proof cases
    case 1
    with "1.prems" show ?thesis by (subst (asm) reap_loop.simps) simp
  next
    case 2
    with "1.IH"(1) [OF 2(1) refl 2(2)] "1.prems" show ?thesis by (subst (asm) (2) reap_loop.simps) simp
  next
    case 3
    obtain x where x: "sessions st (m_session ?w) = Some x"
      using "1.prems" 3 by (subst (asm) reap_loop.simps) (auto simp: Let_def split: option.splits)
    let ?st = "remove_by_token (waiting_token ?w) (auth_id x) (unmarked_for_reaping (waiting_token ?w) st)"
    let ?st' = "?st\<lparr>m_session_ready_for_reaping := swap_pop idx (m_session_ready_for_reaping ?st)\<rparr>"
    have "data_in ?st' \<subseteq> data_in (unmarked_for_reaping (waiting_token ?w) st)"
      using data_in_remove [of "waiting_token ?w" "auth_id x" "unmarked_for_reaping (waiting_token ?w) st"]
      by (simp add: data_in_def)
    moreover have "data_in (unmarked_for_reaping (waiting_token ?w) st) = data_in st"
      by (simp add: data_in_def unmarked_for_reaping_def)
    moreover have "data_in st' \<subseteq> data_in ?st'"
      using "1.IH"(2) [OF 3(1) refl 3(2) x refl refl refl] "1.prems" 3 x by (subst (asm) (2) reap_loop.simps) (simp add: Let_def)
    ultimately show ?thesis by blast
  qed
qed

section \<open>Effects of the handlers\<close>

text \<open>A handler that changes the store only is harmless when the account data stay.\<close>

lemma harmless_store: "data_in st \<subseteq> data_in (m_sessions h) \<Longrightarrow> harmless h (h\<lparr>m_sessions := st\<rparr>)"
  by (simp add: harmless_def account_data_in)

lemma harmless_stage:
  assumes "set_link_stage lnk stage h = Some h'" "stage = CLIENT_SERVSELECT \<longrightarrow> login_stage lnk h" "stage \<noteq> AUTHORIZED"
  shows "harmless h h'"
  using set_stage_effect [OF assms(1)] assms(2,3) by (auto simp: harmless_def login_stage_def account_data_in split: if_splits)

lemma on_connect_harmless:
  assumes "on_connect lnk h = Some (h', out)"
  shows "harmless h h'"
proof -
  obtain h1 l s where 1: "set_link_stage lnk CONNECTED h = Some h1" "the_link lnk h1 = Some l" "init_crypto 30206 1 (link_state l) = Some s"
    "h' = put_link lnk (l\<lparr>link_state := s\<rparr>) h1"
    using assms by (auto simp: on_connect_def Option.bind_eq_Some_conv dest: link_putq_effect)
  have "m_connection_stage s = m_connection_stage (link_state l)"
    using 1(3) by (auto simp: init_crypto_def set_protocol_version_def Let_def Option.bind_eq_Some_conv)
  then have "harmless h1 h'" using the_link_some [OF 1(2)] 1(4)
    by (auto simp: harmless_def login_stage_def account_data_def put_link_def get_link_stage_def the_link_def)
  moreover have "harmless h h1" by (rule harmless_stage [OF 1(1)]) simp_all
  ultimately show ?thesis by (rule harmless_trans [rotated])
qed

lemma mark_unless_playing_sessions: "mark_unless_playing now p x h st = Some st' \<Longrightarrow> sessions st' = sessions st"
  by (auto simp: mark_unless_playing_def mark_session_for_reaping_def marked_for_reaping_def Option.bind_eq_Some_conv split: if_splits)

lemma drop_link_data:
  assumes "drop_link p x st = Some st'" "sessions st p = Some x"
  shows "data_in st' \<subseteq> data_in st"
proof -
  have "data_in (set_session p (session_set_link 0 x) st) \<subseteq> data_in st"
    by (rule data_in_update [OF assms(2)]) (simp add: session_set_link_def)
  with assms(1) show ?thesis by (auto simp: drop_link_def data_in_deactivate split: if_splits)
qed

lemma disconnect_harmless:
  assumes "auth_on_disconnect now tok h = Some (h', out)"
  shows "harmless h h'"
proof (cases "tok = 0")
  case False
  then obtain p x x' st1 st2 where p: "sessions (m_sessions h) p = Some x" "x' = x\<lparr>m_state := NOT_LOGGED_IN\<rparr>"
    "mark_unless_playing now p x' h (set_session p x' (m_sessions h)) = Some st1" "drop_link p x' st1 = Some st2" "h' = h\<lparr>m_sessions := st2\<rparr>"
    using assms by (auto simp: auth_on_disconnect_def Let_def Option.bind_eq_Some_conv)
  note st1 = mark_unless_playing_sessions [OF p(3)]
  have "data_in st1 \<subseteq> data_in (m_sessions h)"
    using data_in_update [OF p(1), of x'] data_in_cong [OF st1] p(2) by simp
  moreover have "data_in st2 \<subseteq> data_in st1" by (rule drop_link_data [OF p(4)]) (simp add: st1 set_session_def)
  ultimately show ?thesis unfolding p(5) by (intro harmless_store) (rule subset_trans)
qed (use assms in \<open>simp add: auth_on_disconnect_def\<close>)

lemma start_login_harmless:
  assumes "start_login now lnk login password h = Some (h', out)"
  shows "harmless h h'"
proof -
  obtain t p st x r t' where c: "create_session blank_auth_session t (m_sessions h) = Some (p, st)" "sessions st p = Some x"
      "h' = h\<lparr>m_sessions := mark_session_for_reaping now p t r (set_session p (set_temporary True (session_set_link lnk x)) st), s_last_session_id := t'\<rparr>"
    using assms by (auto simp: start_login_def Let_def Option.bind_eq_Some_conv)
  have "m_auth_data x = None" using data_in_create [OF c(1)] c(2) by auto
  then have "data_in (set_session p (set_temporary True (session_set_link lnk x)) st) \<subseteq> data_in st"
    by (intro data_in_set) (simp add: set_temporary_def session_set_link_def)
  then have "account_data h' \<subseteq> account_data h" using data_in_create [OF c(1)] c(3) by (auto simp: account_data_in)
  then show ?thesis using c(3) by (simp add: harmless_def)
qed

lemma on_login_harmless: "on_login e lnk login password h = Some (h', out) \<Longrightarrow> harmless h h'"
  using start_login_harmless [of "time_now e" lnk login password h h' out]
  by (auto simp: on_login_def Option.bind_eq_Some_conv dest: error_effect split: if_splits)

lemma on_server_list_request_harmless:
  assumes "on_server_list_request e lnk h = Some (h', out)"
  shows "harmless h h' \<and> (ToLink lnk' (ServerListResponse srvs u) \<in> set out \<longrightarrow> lnk' = lnk \<and> login_stage lnk h)"
proof -
  obtain stage where s: "get_link_stage lnk h = Some stage" using assms by (auto simp: on_server_list_request_def Option.bind_eq_Some_conv)
  show ?thesis
  proof (cases "stage = AUTHORIZED")
    case True
    then have l: "login_stage lnk h" using s by (simp add: login_stage_def)
    obtain h1 where h1: "set_link_stage lnk CLIENT_SERVSELECT h = Some h1" "h' = h1"
      "out = [ToLink lnk (ServerListResponse (map (server_info \<circ> snd) (m_known_game_servers h1)) (junk_byte e))]"
      using assms s True by (auto simp: on_server_list_request_def Option.bind_eq_Some_conv dest: link_putq_effect)
    have "harmless h h'" unfolding h1(2) by (rule harmless_stage [OF h1(1)]) (simp_all add: l)
    with l h1(3) show ?thesis by auto
  next
    case False
    with assms s error_effect [of lnk AUTH_UNKN_ERROR h h' out] show ?thesis by (auto simp: on_server_list_request_def)
  qed
qed

lemma on_server_selected_harmless:
  assumes "on_server_selected e lnk i h = Some (h', out)"
  shows "h' = h \<and> (GameExpectClientRequest s a n lev t \<in> set out \<longrightarrow>
    login_stage lnk h \<and> (\<exists>acc \<in> account_data h. n = m_acc_server_acc_id acc \<and> lev = acc_access_level acc))"
  using assms error_effect [of lnk _ h h' out]
  by (fastforce simp: on_server_selected_def Option.bind_eq_Some_conv login_stage_def account_data_def
      dest: the_link_some split: if_splits)

lemma on_client_expected_harmless:
  assumes "auth_on_client_expected tok cookie h = Some (h', out)"
  shows "harmless h h'"
proof -
  obtain l h1 where "set_link_stage l CLIENT_AWAITING_DISCONNECT h = Some h1" "h' = h1"
    using assms by (auto simp: auth_on_client_expected_def Option.bind_eq_Some_conv dest: link_putq_effect split: if_splits)
  then show ?thesis using harmless_stage by auto
qed

lemma on_client_connected_harmless:
  assumes "auth_on_client_connected tok i h = Some (h', out)"
  shows "harmless h h'"
proof -
  obtain p st x where 1: "unmark_session_for_reaping p (m_sessions h) = Some st" "sessions st p = Some x"
    "h' = h\<lparr>m_sessions := set_session p (x\<lparr>is_connected_to_game_server_id := i\<rparr>) st\<rparr>"
    using assms by (auto simp: auth_on_client_connected_def Option.bind_eq_Some_conv split: if_splits)
  have "data_in (set_session p (x\<lparr>is_connected_to_game_server_id := i\<rparr>) st) \<subseteq> data_in (m_sessions h)"
    using data_in_update [OF 1(2), of "x\<lparr>is_connected_to_game_server_id := i\<rparr>"] data_in_unmark [OF 1(1)] by simp
  then show ?thesis unfolding 1(3) by (rule harmless_store)
qed

lemma on_client_disconnected_harmless:
  assumes "auth_on_client_disconnected now tok t h = Some (h', out)"
  shows "harmless h h'"
proof -
  obtain p x r where 1: "sessions (m_sessions h) p = Some x"
    "h' = h\<lparr>m_sessions := mark_session_for_reaping now p t r (set_session p (x\<lparr>is_connected_to_game_server_id := 0\<rparr>) (m_sessions h))\<rparr>"
    using assms by (auto simp: auth_on_client_disconnected_def Option.bind_eq_Some_conv Let_def)
  show ?thesis unfolding 1(2) by (rule harmless_store) (simp add: data_in_update [OF 1(1)])
qed

lemma auth_reap_harmless: "auth_reap_stale_links now h = Some (h', out) \<Longrightarrow> harmless h h'"
  by (auto simp: auth_reap_stale_links_def reap_stale_links_def Option.bind_eq_Some_conv split: if_splits
      intro!: harmless_store dest: data_in_reap)

section \<open>Answers of the database\<close>

definition logs_in :: "account_info \<Rightarrow> link_id \<Rightarrow> auth_handler \<Rightarrow> auth_handler \<Rightarrow> bool" where
  "logs_in acc lnk h h' \<longleftrightarrow> (\<forall>l. login_stage l h' \<longrightarrow> l = lnk \<or> login_stage l h) \<and>
     account_data h' \<subseteq> insert acc (account_data h)"

lemma logs_in_after: "harmless h h1 \<Longrightarrow> logs_in acc lnk h1 h' \<Longrightarrow> logs_in acc lnk h h'"
  by (auto simp: harmless_def logs_in_def)

lemma hand_over_harmless:
  assumes "hand_over q tok lnk h = Some h'"
  shows "harmless h h'"
proof -
  obtain h1 x where 1: "set_session_token lnk tok h = Some h1" "sessions (m_sessions h1) q = Some x"
    "h' = h1\<lparr>m_sessions := set_session q (session_set_link lnk x) (m_sessions h1)\<rparr>"
    using assms by (auto simp: hand_over_def Option.bind_eq_Some_conv)
  have "harmless h h1" using set_token_effect [OF 1(1)] by (simp add: harmless_def login_stage_def account_data_in)
  moreover have "harmless h1 h'" unfolding 1(3)
    by (rule harmless_store) (rule data_in_update [OF 1(2)], simp add: session_set_link_def)
  ultimately show ?thesis by (rule harmless_trans)
qed

lemma finish_login_effect:
  assumes "finish_login p lnk acc h = Some (h', out)"
  shows "out = [ToLink lnk login_accepted] \<and> logs_in acc lnk h h'"
proof -
  let ?new = "\<lambda>x. x\<lparr>m_auth_data := Some acc, auth_id := m_acc_server_acc_id acc, m_state := LOGGED_IN\<rparr>"
  obtain x h1 and l :: auth_link where 1: "sessions (m_sessions h) p = Some x"
    "set_link_stage lnk AUTHORIZED (h\<lparr>m_sessions := set_session p (?new x) (add_to_active_sessions p (m_sessions h))\<rparr>) = Some h1"
    "link_putq lnk login_accepted (h1\<lparr>m_sessions := setTokenForId (m_acc_server_acc_id acc) (session_token l) (m_sessions h1)\<rparr>) = Some (h', out)"
    using assms unfolding finish_login_def Let_def Option.bind_eq_Some_conv by blast
  have out: "out = [ToLink lnk login_accepted]"
    and h': "h' = h1\<lparr>m_sessions := setTokenForId (m_acc_server_acc_id acc) (session_token l) (m_sessions h1)\<rparr>"
    using link_putq_effect [OF 1(3)] by simp_all
  have d: "account_data h' = data_in (set_session p (?new x) (add_to_active_sessions p (m_sessions h)))"
    using set_stage_effect [OF 1(2)] h' by (simp add: account_data_in)
  have "data_in (set_session p (?new x) (add_to_active_sessions p (m_sessions h))) \<subseteq> insert acc (data_in (m_sessions h))"
    by (auto simp: data_in_def set_session_def add_to_active_sessions_def split: if_splits)
  moreover have "get_link_stage l' h' = get_link_stage l' h" if "l' \<noteq> lnk" for l'
    using set_stage_effect [OF 1(2)] that by (simp add: h')
  ultimately show ?thesis using d out by (auto simp: logs_in_def account_data_in login_stage_def)
qed

lemma protection_harmless: "protection_expires now p t res = Some (h', out) \<Longrightarrow>
  \<exists>h1. res = Some (h1, out) \<and> harmless h1 h' \<and> harmless h' h1"
  by (auto simp: protection_expires_def harmless_def account_data_in)

lemma protected_error: "protection_expires now p t (auth_error lnk c h) = Some (h', out) \<Longrightarrow> harmless h h'"
  using protection_harmless [of now p t "auth_error lnk c h" h' out] error_effect [of lnk c h _ out] by blast

lemma use_waiting_effect:
  "use_waiting_session p tok lnk acc h = Some (h', out) \<Longrightarrow> ToLink lnk login_accepted \<in> set out \<and> logs_in acc lnk h h'"
  by (auto simp: use_waiting_session_def Option.bind_eq_Some_conv dest!: hand_over_harmless finish_login_effect intro: logs_in_after)

lemma use_old_effect:
  assumes "use_old_session now p tok etok lnk acc h = Some (h', out)"
  shows "harmless h h' \<or> ToLink lnk login_accepted \<in> set out \<and> logs_in acc lnk h h'"
proof -
  obtain old x where old: "session_from_token etok (m_sessions h) = Some old" "sessions (m_sessions h) old = Some x"
    using assms by (auto simp: use_old_session_def Option.bind_eq_Some_conv)
  show ?thesis
  proof (cases "m_state x = NOT_LOGGED_IN")
    case False
    with assms old have "protection_expires now p tok (auth_error lnk AUTH_WRONG_LOGINPASS h) = Some (h', out)"
      by (simp add: use_old_session_def)
    from protected_error [OF this] show ?thesis by blast
  next
    case True
    obtain st y h1 where 1: "unmark_session_for_reaping old (m_sessions h) = Some st" "sessions st p = Some y"
      "hand_over old etok lnk (h\<lparr>m_sessions := set_session p (session_set_link 0 y) st\<rparr>) = Some h1"
      "protection_expires now p tok (finish_login old lnk acc h1) = Some (h', out)"
      using assms unfolding use_old_session_def by (simp add: old True Option.bind_eq_Some_conv) blast
    obtain h2 where 2: "finish_login old lnk acc h1 = Some (h2, out)" "harmless h2 h'"
      using protection_harmless [OF 1(4)] by blast
    have "data_in (set_session p (session_set_link 0 y) st) \<subseteq> data_in (m_sessions h)"
      using data_in_update [OF 1(2), of "session_set_link 0 y"] data_in_unmark [OF 1(1)] by (simp add: session_set_link_def)
    then have "harmless h h1" using harmless_store hand_over_harmless [OF 1(3)] harmless_trans by blast
    with finish_login_effect [OF 2(1)] 2(2) show ?thesis by (auto simp: logs_in_def harmless_def)
  qed
qed

lemma response_effect:
  assumes "on_retrieve_account_response now tok acc h = Some (h', out)"
  shows "harmless h h' \<or>
    account_exists acc \<and> \<not> isBlocked acc \<and> (\<exists>lnk. ToLink lnk login_accepted \<in> set out \<and> logs_in acc lnk h h')"
proof (cases "has_session_for tok (m_sessions h)")
  case False
  with assms show ?thesis by (simp add: on_retrieve_account_response_def)
next
  case True
  obtain p st x where 1: "session_from_token tok (m_sessions h) = Some p" "unmark_session_for_reaping p (m_sessions h) = Some st"
    "sessions st p = Some x" "m_link x \<noteq> 0"
    using assms True by (auto simp: on_retrieve_account_response_def Let_def Option.bind_eq_Some_conv split: if_splits)
  define h1 where "h1 = h\<lparr>m_sessions := st\<rparr>"
  have h1: "harmless h h1" unfolding h1_def by (rule harmless_store) (simp add: data_in_unmark [OF 1(2)])
  note step = harmless_trans [OF h1] logs_in_after [OF h1]
  show ?thesis
  proof (cases "account_exists acc \<and> \<not> isBlocked acc")
    case False
    with assms True 1 have "\<exists>c. protection_expires now p tok (auth_error (m_link x) c h1) = Some (h', out)"
      by (auto simp: on_retrieve_account_response_def Let_def h1_def split: if_splits)
    then show ?thesis using protected_error step by blast
  next
    case good: True
    obtain connected where c: "isClientConnectedAnywhere (m_acc_server_acc_id acc) h1 = Some connected"
      using assms True 1 good by (auto simp: on_retrieve_account_response_def Let_def h1_def Option.bind_eq_Some_conv)
    show ?thesis
    proof (cases connected)
      case True
      then have "protection_expires now p tok (auth_error (m_link x) AUTH_ALREADY_LOGGEDIN h1) = Some (h', out)"
        using assms 1 good c \<open>has_session_for tok (m_sessions h)\<close> by (simp add: on_retrieve_account_response_def h1_def)
      then show ?thesis using protected_error step by blast
    next
      case False
      let ?etok = "token_for_id (m_acc_server_acc_id acc) st"
      have "(if ?etok \<noteq> 0 then use_old_session now p tok ?etok (m_link x) acc h1 else use_waiting_session p tok (m_link x) acc h1) = Some (h', out)"
        using assms 1 good c False \<open>has_session_for tok (m_sessions h)\<close>
        by (simp add: on_retrieve_account_response_def h1_def Let_def split: if_splits)
      then show ?thesis using use_old_effect use_waiting_effect good step by (metis (no_types, lifting))
    qed
  qed
qed

section \<open>Histories\<close>

text \<open>
  The history of a run, the latest input first, each with the messages it caused. \<open>vouched\<close>: the
  database answered with these data, of an existing account that is not blocked. \<open>admitted\<close>: such an
  answer led to the acceptance of the login of this link, since the link was opened.
\<close>

type_synonym 'addr auth_history = "(auth_input \<times> 'addr auth_out list) list"

inductive auth_reach :: "auth_handler \<Rightarrow> 'addr auth_history \<Rightarrow> bool" where
  start: "auth_reach new_auth_handler []"
| input: "auth_reach h hist \<Longrightarrow> auth_dispatch e ev h = Some (h', out) \<Longrightarrow> auth_reach h' ((ev, out) # hist)"

inductive_cases auth_reach_step: "auth_reach h (x # hist)"

fun answers :: "auth_input \<Rightarrow> account_info \<Rightarrow> bool" where
  "answers (RetrieveAccountResponse tok acc) acc' \<longleftrightarrow> acc = acc' \<and> account_exists acc \<and> \<not> isBlocked acc"
| "answers _ acc' \<longleftrightarrow> False"

definition vouched :: "account_info \<Rightarrow> 'addr auth_history \<Rightarrow> bool" where
  "vouched acc hist \<longleftrightarrow> list_ex (\<lambda>(ev, out). answers ev acc) hist"

fun admitted :: "link_id \<Rightarrow> 'addr auth_history \<Rightarrow> bool" where
  "admitted lnk [] \<longleftrightarrow> False"
| "admitted lnk ((ev, out) # hist) \<longleftrightarrow>
    ToLink lnk login_accepted \<in> set out \<and> (\<exists>acc. answers ev acc) \<or>
    \<not> (case ev of LinkOpened l s \<Rightarrow> l = lnk | _ \<Rightarrow> False) \<and> admitted lnk hist"

definition history_ok :: "auth_handler \<Rightarrow> 'addr auth_history \<Rightarrow> bool" where
  "history_ok h hist \<longleftrightarrow> (\<forall>lnk. login_stage lnk h \<longrightarrow> admitted lnk hist) \<and> (\<forall>acc \<in> account_data h. vouched acc hist)"

lemma history_ok_harmless:
  "history_ok h hist \<Longrightarrow> harmless h h' \<Longrightarrow> \<forall>l s. ev \<noteq> LinkOpened l s \<Longrightarrow> history_ok h' ((ev, out) # hist)"
  by (auto simp: history_ok_def harmless_def vouched_def split: auth_input.splits)

lemma link_open_effect:
  "link_open lnk s h = Some (h', out) \<Longrightarrow> account_data h' = account_data h \<and>
    (\<forall>l. login_stage l h' \<longrightarrow> l \<noteq> lnk \<and> login_stage l h)"
  by (auto simp: link_open_def account_data_in login_stage_def put_link_def get_link_stage_def the_link_def split: if_splits)

lemma dispatch_packet_harmless: "dispatch_packet e lnk pkt h = Some (h', out) \<Longrightarrow> harmless h h'"
  by (cases pkt) (auto dest: on_login_harmless on_server_list_request_harmless on_server_selected_harmless)

lemma auth_dispatch_harmless:
  assumes "auth_dispatch e ev h = Some (h', out)" "\<forall>l s. ev \<noteq> LinkOpened l s" "\<forall>tok acc. ev \<noteq> RetrieveAccountResponse tok acc"
  shows "harmless h h'"
proof (cases ev)
  case (LinkDeleted l)
  with assms(1) show ?thesis
    by (auto simp: harmless_def login_stage_def get_link_stage_def the_link_def account_data_in split: if_splits)
next
  case (GameServerStatusMessage x)
  with assms(1) show ?thesis by (auto simp: on_server_status_change_def harmless_def account_data_in)
qed (use assms in \<open>auto simp: link_handle_close_def on_db_error_def Option.bind_eq_Some_conv dest: on_connect_harmless
      disconnect_harmless dispatch_packet_harmless on_client_expected_harmless on_client_connected_harmless
      on_client_disconnected_harmless auth_reap_harmless error_effect\<close>)

lemma auth_reach_history: "auth_reach h hist \<Longrightarrow> history_ok h hist"
proof (induction rule: auth_reach.induct)
  case start
  show ?case by (simp add: history_ok_def login_stage_def get_link_stage_def the_link_def account_data_def
        new_auth_handler_def new_store_def)
next
  case (input h hist e ev h' out)
  consider (opened) l s where "ev = LinkOpened l s" | (answer) tok acc where "ev = RetrieveAccountResponse tok acc"
    | (other) "\<forall>l s. ev \<noteq> LinkOpened l s" "\<forall>tok acc. ev \<noteq> RetrieveAccountResponse tok acc" by blast
  then show ?case
  proof cases
    case opened
    with input.hyps(2) have "link_open l s h = Some (h', out)" by simp
    from link_open_effect [OF this] input.IH opened show ?thesis by (auto simp: history_ok_def vouched_def)
  next
    case answer
    with input.hyps(2) have "on_retrieve_account_response (time_now e) tok acc h = Some (h', out)" by simp
    from response_effect [OF this] show ?thesis
    proof
      assume "harmless h h'"
      with input.IH answer show ?thesis by (simp add: history_ok_harmless)
    next
      assume "account_exists acc \<and> \<not> isBlocked acc \<and> (\<exists>lnk. ToLink lnk login_accepted \<in> set out \<and> logs_in acc lnk h h')"
      with input.IH answer show ?thesis by (auto simp: history_ok_def logs_in_def vouched_def)
    qed
  next
    case other
    from auth_dispatch_harmless [OF input.hyps(2) other] input.IH other show ?thesis by (simp add: history_ok_harmless)
  qed
qed

end
