(* ===== verification/Auth_Lockout.thy ===== *)
theory Auth_Lockout
  imports Auth_Safety Session_Invariant
begin

text \<open>
  An account whose session is logged in under a token that nothing reports on any more: the
  invariant of the login service that keeps the account locked, proved for every input that does
  not name the token.
\<close>

section \<open>The token\<close>

text \<open>
  Inputs that report on the token \<open>t\<close>, and messages that name it to a link, the database or a game server.
\<close>

fun reports_on :: "u64 \<Rightarrow> auth_input \<Rightarrow> bool" where
  "reports_on t (DisconnectEvent tok) \<longleftrightarrow> tok = t"
| "reports_on t (RetrieveAccountResponse tok acc) \<longleftrightarrow> tok = t"
| "reports_on t (ServerClientDisconnected tok ev_token) \<longleftrightarrow> tok = t \<or> ev_token = t"
| "reports_on t _ \<longleftrightarrow> False"

fun names_token :: "u64 \<Rightarrow> 'addr auth_out \<Rightarrow> bool" where
  "names_token t (PostDisconnect tok) \<longleftrightarrow> tok = t"
| "names_token t (RetrieveAccountRequest _ _ _ tok) \<longleftrightarrow> tok = t"
| "names_token t (GameExpectClientRequest _ _ _ _ tok) \<longleftrightarrow> tok = t"
| "names_token t _ \<longleftrightarrow> False"

definition links_without :: "u64 \<Rightarrow> auth_handler \<Rightarrow> bool" where
  "links_without t h \<longleftrightarrow> (\<forall>l link. auth_links h l = Some link \<longrightarrow> session_token link \<noteq> t)"

text \<open>A token that is not in use, and an account that has no session.\<close>

definition unused_token :: "u64 \<Rightarrow> auth_handler \<Rightarrow> bool" where
  "unused_token t h \<longleftrightarrow> \<not> has_session_for t (m_sessions h) \<and> t \<notin> ran (map_of (m_id_to_token (m_sessions h))) \<and>
     (\<forall>w \<in> set (m_session_ready_for_reaping (m_sessions h)). waiting_token w \<noteq> t) \<and> links_without t h"

definition without_session :: "u32 \<Rightarrow> auth_handler \<Rightarrow> bool" where
  "without_session a h \<longleftrightarrow> token_for_id a (m_sessions h) = 0 \<and> (\<forall>x \<in> ran (sessions (m_sessions h)). auth_id x \<noteq> a)"

section \<open>The store\<close>

text \<open>
  The session \<open>p\<close> of the token \<open>t\<close> is logged in to the account \<open>a\<close>; it is the only session of the account and does
  not wait to be reaped.
\<close>

definition belongs_to :: "u32 \<Rightarrow> auth_session \<Rightarrow> bool" where
  "belongs_to a x \<longleftrightarrow> auth_id x = a"

definition stuck :: "u32 \<Rightarrow> u64 \<Rightarrow> session_ptr \<Rightarrow> auth_session session_store \<Rightarrow> bool" where
  "stuck a t p st \<longleftrightarrow> p < next_session st \<and> map_of (m_token_to_session st) t = Some p \<and>
     (\<forall>t'. t' \<noteq> t \<longrightarrow> map_of (m_token_to_session st) t' \<noteq> Some p) \<and>
     (\<exists>x. sessions st p = Some x \<and> m_state x = LOGGED_IN) \<and>
     (\<forall>q x. q \<noteq> p \<longrightarrow> sessions st q = Some x \<longrightarrow> \<not> belongs_to a x) \<and>
     map_of (m_id_to_token st) a = Some t \<and> (\<forall>i. i \<noteq> a \<longrightarrow> map_of (m_id_to_token st) i \<noteq> Some t) \<and>
     (\<forall>w \<in> set (m_session_ready_for_reaping st). m_session w \<noteq> p \<and> waiting_token w \<noteq> t)"

lemma stuck_lookup:
  assumes "stuck a t p st"
  shows "session_from_token tok st = Some q \<Longrightarrow> tok \<noteq> t \<Longrightarrow> q \<noteq> p" "token_for_id a st = t"
    "token_for_id i st = t \<Longrightarrow> t \<noteq> 0 \<Longrightarrow> i = a"
  using assms by (auto simp: stuck_def session_from_token_def token_for_id_def split: option.splits)

lemma stuck_set:
  "stuck a t p st \<Longrightarrow> sessions st q = Some y \<Longrightarrow> belongs_to a x \<longrightarrow> belongs_to a y \<Longrightarrow> q = p \<Longrightarrow> m_state x = m_state y \<Longrightarrow>
    stuck a t p (set_session q x st)"
  "stuck a t p st \<Longrightarrow> sessions st q = Some y \<Longrightarrow> belongs_to a x \<longrightarrow> belongs_to a y \<Longrightarrow> q \<noteq> p \<Longrightarrow>
    stuck a t p (set_session q x st)"
  by (auto simp: stuck_def set_session_def)

lemma stuck_mark:
  "stuck a t p st \<Longrightarrow> q \<noteq> p \<Longrightarrow> tok \<noteq> t \<Longrightarrow> stuck a t p (mark_session_for_reaping now q tok r st)"
  by (simp add: stuck_def mark_session_for_reaping_def marked_for_reaping_def)

lemma stuck_unmarked: "stuck a t p (unmarked_for_reaping tok st) = stuck a t p st"
  by (simp add: stuck_def unmarked_for_reaping_def)

lemma stuck_fewer_waiting:
  "stuck a t p st \<Longrightarrow> set ws \<subseteq> set (m_session_ready_for_reaping st) \<Longrightarrow> stuck a t p (st\<lparr>m_session_ready_for_reaping := ws\<rparr>)"
  by (simp add: stuck_def) blast

lemma stuck_unmark:
  assumes "stuck a t p st" "unmark_session_for_reaping q st = Some st'"
  shows "stuck a t p st' \<and> sessions st' = sessions st \<and> m_token_to_session st' = m_token_to_session st \<and>
    m_id_to_token st' = m_id_to_token st"
proof -
  have "stuck a t p (unmarked_for_reaping tok st)" for tok using assms(1) by (simp add: stuck_unmarked)
  from stuck_fewer_waiting [OF this set_swap_pop_first] assms(2) show ?thesis
    by (auto simp: unmark_session_for_reaping_def unmarked_for_reaping_def Option.bind_eq_Some_conv)
qed

lemma stuck_active:
  "stuck a t p (add_to_active_sessions q st) = stuck a t p st"
  "remove_from_active_sessions q st = Some st' \<Longrightarrow> stuck a t p st' = stuck a t p st"
  by (simp add: stuck_def add_to_active_sessions_def)
    (simp add: remove_from_active_sessions_def split: if_splits, drule sym, simp add: stuck_def)

lemma stuck_set_token: "stuck a t p st \<Longrightarrow> i \<noteq> a \<Longrightarrow> tok \<noteq> t \<Longrightarrow> stuck a t p (setTokenForId i tok st)"
  by (auto simp: stuck_def setTokenForId_def update_conv')

lemma belongs_to_blank [simp]: "a \<noteq> 0 \<Longrightarrow> \<not> belongs_to a (blank_auth_session\<lparr>m_session_token := tok\<rparr>)"
  by (simp add: belongs_to_def blank_auth_session_def)

lemma stuck_create:
  assumes "stuck a t p st" "create_session blank_auth_session tok st = Some (q, st')" "a \<noteq> 0"
  shows "stuck a t p st' \<and> q \<noteq> p \<and> tok \<noteq> t"
  using assms by (auto simp: stuck_def create_session_def has_session_for_def set_session_def update_conv' Let_def split: if_splits)

lemma stuck_remove:
  "stuck a t p st \<Longrightarrow> tok \<noteq> t \<Longrightarrow> i \<noteq> a \<Longrightarrow> stuck a t p (remove_by_token tok i st)"
  by (cases "map_of (m_token_to_session st) tok") (auto simp: stuck_def remove_by_token_def AList.delete_conv')

lemma stuck_reap:
  "stuck a t p st \<Longrightarrow> n \<le> length (m_session_ready_for_reaping st) \<Longrightarrow>
   reap_loop now limit idx n r st = Some (r', st') \<Longrightarrow> stuck a t p st'"
proof (induction now limit idx n r st rule: reap_loop.induct)
  case (1 now limit idx n r st)
  let ?w = "m_session_ready_for_reaping st ! idx"
  consider "\<not> idx < n" | "idx < n" "now - m_waiting_since ?w < limit" | "idx < n" "\<not> now - m_waiting_since ?w < limit" by blast
  then show ?case
  proof cases
    case 1
    with "1.prems" show ?thesis by (subst (asm) reap_loop.simps) simp
  next
    case 2
    with "1.IH"(1) [OF 2(1) refl 2(2)] "1.prems" show ?thesis by (subst (asm) (2) reap_loop.simps) simp
  next
    case 3
    obtain x where x: "sessions st (m_session ?w) = Some x"
      using "1.prems" 3 by (subst (asm) reap_loop.simps) (auto simp: Let_def split: option.splits)
    let ?st = "remove_by_token (waiting_token ?w) (auth_id x) (unmarked_for_reaping (waiting_token ?w) st)"
    have w: "m_session_ready_for_reaping ?st = m_session_ready_for_reaping st"
      by (simp add: remove_by_token_def unmarked_for_reaping_def)
    have "?w \<in> set (m_session_ready_for_reaping st)" using 3(1) "1.prems"(2) by simp
    then have "waiting_token ?w \<noteq> t" "auth_id x \<noteq> a" using "1.prems"(1) x unfolding stuck_def belongs_to_def by blast+
    with "1.prems"(1) have "stuck a t p ?st" by (simp add: stuck_remove stuck_unmarked)
    then have "stuck a t p (?st\<lparr>m_session_ready_for_reaping := swap_pop idx (m_session_ready_for_reaping ?st)\<rparr>)"
      by (rule stuck_fewer_waiting) (use 3(1) "1.prems"(2) w in \<open>simp add: set_swap_pop\<close>)
    from "1.IH"(2) [OF 3(1) refl 3(2) x refl refl refl this] 3 x "1.prems"(2,3) w show ?thesis
      by (subst (asm) reap_loop.simps) (simp add: Let_def)
  qed
qed

section \<open>The handlers\<close>

definition locked :: "u32 \<Rightarrow> u64 \<Rightarrow> session_ptr \<Rightarrow> auth_handler \<Rightarrow> bool" where
  "locked a t p h \<longleftrightarrow> stuck a t p (m_sessions h) \<and> links_without t h \<and> a \<noteq> 0 \<and> t \<noteq> 0"

lemma locked_store: "locked a t p h \<Longrightarrow> stuck a t p st \<Longrightarrow> locked a t p (h\<lparr>m_sessions := st\<rparr>)"
  "locked a t p h \<Longrightarrow> stuck a t p st \<Longrightarrow> locked a t p (h\<lparr>m_sessions := st, s_last_session_id := i\<rparr>)"
  by (simp_all add: locked_def links_without_def)

lemma locked_stuck: "locked a t p h \<Longrightarrow> stuck a t p (m_sessions h)"
  by (simp add: locked_def)

lemma locked_put:
  "locked a t p h \<Longrightarrow> session_token l \<noteq> t \<Longrightarrow> locked a t p (put_link lnk l h)"
  by (auto simp: locked_def links_without_def put_link_def)

lemma locked_link: "locked a t p h \<Longrightarrow> the_link lnk h = Some l \<Longrightarrow> session_token l \<noteq> t"
  by (auto simp: locked_def links_without_def the_link_def split: if_splits)

lemma locked_stage: "locked a t p h \<Longrightarrow> set_link_stage lnk stage h = Some h' \<Longrightarrow> locked a t p h'"
  by (auto simp: set_link_stage_def intro!: locked_put dest: locked_link)

lemma locked_token: "locked a t p h \<Longrightarrow> set_session_token lnk tok h = Some h' \<Longrightarrow> tok \<noteq> t \<Longrightarrow> locked a t p h'"
  by (auto simp: set_session_token_def Option.bind_eq_Some_conv intro!: locked_put split: if_splits)

lemma locked_connected: "locked a t p h \<Longrightarrow> isClientConnectedAnywhere a h = Some True"
  by (auto simp: locked_def isClientConnectedAnywhere_def stuck_lookup(2)) (auto simp: stuck_def session_from_token_def)

lemma locked_on_connect:
  assumes "locked a t p h" "on_connect lnk h = Some (h', out)"
  shows "locked a t p h' \<and> out = [ToLink lnk (AuthProtocolVersion 1 30206)]"
proof -
  obtain h1 l s where 1: "set_link_stage lnk CONNECTED h = Some h1" "the_link lnk h1 = Some l"
    "link_putq lnk (AuthProtocolVersion 1 30206) (put_link lnk (l\<lparr>link_state := s\<rparr>) h1) = Some (h', out)"
    using assms(2) by (auto simp: on_connect_def Option.bind_eq_Some_conv)
  have "locked a t p h1" by (rule locked_stage [OF assms(1) 1(1)])
  with locked_link [OF this 1(2)] link_putq_effect [OF 1(3)] show ?thesis by (simp add: locked_put)
qed

lemma locked_on_disconnect:
  assumes "locked a t p h" "auth_on_disconnect now tok h = Some (h', out)" "tok \<noteq> t"
  shows "locked a t p h' \<and> out = []"
proof (cases "tok = 0")
  case False
  obtain q x x' st1 st2 where 1: "session_from_token tok (m_sessions h) = Some q" "sessions (m_sessions h) q = Some x" "x' = x\<lparr>m_state := NOT_LOGGED_IN\<rparr>"
    "mark_unless_playing now q x' h (set_session q x' (m_sessions h)) = Some st1" "drop_link q x' st1 = Some st2"
    "h' = h\<lparr>m_sessions := st2\<rparr>" "out = []"
    using assms(2) False by (auto simp: auth_on_disconnect_def Let_def Option.bind_eq_Some_conv)
  note q = stuck_lookup(1) [OF locked_stuck [OF assms(1)] 1(1) assms(3)]
  have "stuck a t p (set_session q x' (m_sessions h))"
    by (rule stuck_set(2) [OF locked_stuck [OF assms(1)] 1(2) _ q]) (simp add: 1(3) belongs_to_def)
  then have st1: "stuck a t p st1" using 1(4) q locked_link [OF assms(1)]
    by (auto simp: mark_unless_playing_def Option.bind_eq_Some_conv intro!: stuck_mark split: if_splits)
  have y: "sessions st1 q = Some x'" using mark_unless_playing_sessions [OF 1(4)] by (simp add: set_session_def)
  have "stuck a t p (set_session q (session_set_link 0 x') st1)"
    by (rule stuck_set(2) [OF st1 y _ q]) (simp add: session_set_link_def belongs_to_def)
  with st1 1(5) have "stuck a t p st2" by (auto simp: drop_link_def stuck_active split: if_splits)
  with assms(1) 1(6,7) show ?thesis by (simp add: locked_store)
qed (use assms in \<open>simp add: auth_on_disconnect_def\<close>)

lemma locked_start_login:
  assumes "locked a t p h" "start_login now lnk login password h = Some (h', out)"
  shows "locked a t p h' \<and> (\<exists>tok. out = [RetrieveAccountRequest (c_chars login) (c_chars password) 0 tok] \<and> tok \<noteq> t)"
proof -
  obtain q st x r where 1: "create_session blank_auth_session (s_last_session_id h) (m_sessions h) = Some (q, st)" "sessions st q = Some x"
    "h' = h\<lparr>m_sessions := mark_session_for_reaping now q (s_last_session_id h) r (set_session q (set_temporary True (session_set_link lnk x)) st),
       s_last_session_id := s_last_session_id h + 1\<rparr>"
    "out = [RetrieveAccountRequest (c_chars login) (c_chars password) 0 (s_last_session_id h)]"
    using assms(2) by (auto simp: start_login_def Let_def Option.bind_eq_Some_conv)
  have "a \<noteq> 0" using assms(1) by (simp add: locked_def)
  note c = stuck_create [OF locked_stuck [OF assms(1)] 1(1) this]
  then have "stuck a t p (set_session q (set_temporary True (session_set_link lnk x)) st)"
    by (intro stuck_set(2) [OF _ 1(2)]) (simp_all add: set_temporary_def session_set_link_def belongs_to_def)
  with c assms(1) 1(3,4) show ?thesis by (simp add: locked_store stuck_mark)
qed

lemma locked_on_login:
  "locked a t p h \<Longrightarrow> on_login e lnk login password h = Some (h', out) \<Longrightarrow> locked a t p h' \<and> (\<forall>m \<in> set out. \<not> names_token t m)"
  using locked_start_login [of a t p h "time_now e" lnk login password h' out]
  by (fastforce simp: on_login_def Option.bind_eq_Some_conv dest: error_effect split: if_splits)

lemma locked_list_request:
  assumes "locked a t p h" "on_server_list_request e lnk h = Some (h', out)"
  shows "locked a t p h' \<and> (\<forall>m \<in> set out. \<not> names_token t m)"
  using assms by (auto simp: on_server_list_request_def Option.bind_eq_Some_conv dest: error_effect locked_stage
      dest!: link_putq_effect split: if_splits)

lemma locked_server_selected:
  assumes "locked a t p h" "on_server_selected e lnk i h = Some (h', out)"
  shows "locked a t p h' \<and> (\<forall>m \<in> set out. \<not> names_token t m)"
  using assms locked_link [OF assms(1)] by (auto simp: on_server_selected_def Option.bind_eq_Some_conv dest: error_effect split: if_splits)

lemma locked_client_expected:
  assumes "locked a t p h" "auth_on_client_expected tok cookie h = Some (h', out)"
  shows "locked a t p h' \<and> (\<forall>m \<in> set out. \<not> names_token t m)"
  using assms by (auto simp: auth_on_client_expected_def Option.bind_eq_Some_conv dest: locked_stage
      dest!: link_putq_effect split: if_splits)

lemma locked_client_connected:
  assumes "locked a t p h" "auth_on_client_connected tok i h = Some (h', out)"
  shows "locked a t p h' \<and> out = []"
proof -
  obtain q st x where 1: "unmark_session_for_reaping q (m_sessions h) = Some st" "sessions st q = Some x"
    "h' = h\<lparr>m_sessions := set_session q (x\<lparr>is_connected_to_game_server_id := i\<rparr>) st\<rparr>" "out = []"
    using assms(2) by (auto simp: auth_on_client_connected_def Option.bind_eq_Some_conv split: if_splits)
  have "stuck a t p st" using stuck_unmark [OF locked_stuck [OF assms(1)] 1(1)] by simp
  then have "stuck a t p (set_session q (x\<lparr>is_connected_to_game_server_id := i\<rparr>) st)"
    using stuck_set [OF _ 1(2), of a t p "x\<lparr>is_connected_to_game_server_id := i\<rparr>"] by (cases "q = p") (simp_all add: belongs_to_def)
  with assms(1) 1(3,4) show ?thesis by (simp add: locked_store)
qed

lemma locked_client_disconnected:
  assumes "locked a t p h" "auth_on_client_disconnected now tok ev_token h = Some (h', out)" "tok \<noteq> t" "ev_token \<noteq> t"
  shows "locked a t p h' \<and> out = []"
proof -
  obtain q x r where 1: "session_from_token tok (m_sessions h) = Some q" "sessions (m_sessions h) q = Some x"
    "h' = h\<lparr>m_sessions := mark_session_for_reaping now q ev_token r (set_session q (x\<lparr>is_connected_to_game_server_id := 0\<rparr>) (m_sessions h))\<rparr>" "out = []"
    using assms(2) by (auto simp: auth_on_client_disconnected_def Option.bind_eq_Some_conv Let_def)
  note q = stuck_lookup(1) [OF locked_stuck [OF assms(1)] 1(1) assms(3)]
  have "stuck a t p (set_session q (x\<lparr>is_connected_to_game_server_id := 0\<rparr>) (m_sessions h))"
    by (rule stuck_set(2) [OF locked_stuck [OF assms(1)] 1(2) _ q]) (simp add: belongs_to_def)
  with assms(1,4) 1(3,4) q show ?thesis by (simp add: locked_store stuck_mark)
qed

lemma locked_reap:
  assumes "locked a t p h" "auth_reap_stale_links now h = Some (h', out)"
  shows "locked a t p h' \<and> (\<forall>m \<in> set out. \<not> names_token t m)"
proof -
  obtain reaped st where 1: "reap_loop now auth_link_is_stale_after 0 (length (m_session_ready_for_reaping (m_sessions h))) [] (m_sessions h) = Some (reaped, st)"
    "h' = h\<lparr>m_sessions := st\<rparr>" "out = map (\<lambda>(_, l). FinishLink l) (filter (\<lambda>(_, l). l \<noteq> 0) reaped)"
    using assms(2) by (auto simp: auth_reap_stale_links_def reap_stale_links_def Option.bind_eq_Some_conv split: if_splits)
  have "stuck a t p st" by (rule stuck_reap [OF locked_stuck [OF assms(1)] _ 1(1)]) simp
  with assms(1) 1(2,3) show ?thesis by (auto simp: locked_store)
qed

section \<open>Answers of the database\<close>

lemma locked_hand_over:
  assumes "locked a t p h" "hand_over q tok lnk h = Some h'" "q \<noteq> p" "tok \<noteq> t"
  shows "locked a t p h'"
proof -
  obtain h1 x where 1: "set_session_token lnk tok h = Some h1" "sessions (m_sessions h1) q = Some x"
    "h' = h1\<lparr>m_sessions := set_session q (session_set_link lnk x) (m_sessions h1)\<rparr>"
    using assms(2) by (auto simp: hand_over_def Option.bind_eq_Some_conv)
  have h1: "locked a t p h1" by (rule locked_token [OF assms(1) 1(1) assms(4)])
  have "stuck a t p (set_session q (session_set_link lnk x) (m_sessions h1))"
    by (rule stuck_set(2) [OF locked_stuck [OF h1] 1(2) _ assms(3)]) (simp add: session_set_link_def belongs_to_def)
  with h1 1(3) show ?thesis by (simp add: locked_store)
qed

lemma locked_finish:
  assumes "locked a t p h" "finish_login q lnk acc h = Some (h', out)" "q \<noteq> p" "m_acc_server_acc_id acc \<noteq> a"
  shows "locked a t p h'"
proof -
  let ?new = "\<lambda>x. x\<lparr>m_auth_data := Some acc, auth_id := m_acc_server_acc_id acc, m_state := LOGGED_IN\<rparr>"
  let ?st = "\<lambda>x. set_session q (?new x) (add_to_active_sessions q (m_sessions h))"
  obtain x h1 l where 1: "sessions (m_sessions h) q = Some x" "set_link_stage lnk AUTHORIZED (h\<lparr>m_sessions := ?st x\<rparr>) = Some h1"
    "the_link lnk h1 = Some l"
    "link_putq lnk login_accepted (h1\<lparr>m_sessions := setTokenForId (m_acc_server_acc_id acc) (session_token l) (m_sessions h1)\<rparr>) = Some (h', out)"
    using assms(2) unfolding finish_login_def Let_def Option.bind_eq_Some_conv by blast
  have x: "sessions (add_to_active_sessions q (m_sessions h)) q = Some x" using 1(1) by (simp add: add_to_active_sessions_def)
  have "stuck a t p (?st x)"
    by (rule stuck_set(2) [OF _ x]) (use assms locked_stuck [OF assms(1)] in \<open>simp_all add: stuck_active belongs_to_def\<close>)
  then have h1: "locked a t p h1" using locked_stage [OF locked_store(1) [OF assms(1)] 1(2)] by blast
  then have "stuck a t p (setTokenForId (m_acc_server_acc_id acc) (session_token l) (m_sessions h1))"
    using locked_link [OF h1 1(3)] assms(4) by (simp add: locked_stuck stuck_set_token)
  with h1 link_putq_effect [OF 1(4)] show ?thesis by (simp add: locked_store)
qed

lemma locked_protection:
  assumes "protection_expires now q tok res = Some (h', out)" "q \<noteq> p" "tok \<noteq> t"
  shows "\<exists>h1. res = Some (h1, out) \<and> (locked a t p h1 \<longrightarrow> locked a t p h')"
  using assms by (auto simp: protection_expires_def intro: locked_store stuck_mark locked_stuck)

lemma locked_protected_error:
  assumes "locked a t p h" "protection_expires now q tok (auth_error lnk c h) = Some (h', out)" "q \<noteq> p" "tok \<noteq> t"
  shows "locked a t p h' \<and> out = [ToLink lnk (AuthorizationError c)]"
  using locked_protection [OF assms(2-4), of a] assms(1) by (auto dest!: error_effect)

lemma locked_use_old:
  assumes "locked a t p h" "use_old_session now q tok etok lnk acc h = Some (h', out)" "q \<noteq> p" "tok \<noteq> t" "etok \<noteq> t"
    "m_acc_server_acc_id acc \<noteq> a"
  shows "locked a t p h' \<and> (\<forall>m \<in> set out. \<not> names_token t m)"
proof -
  obtain old x where old: "session_from_token etok (m_sessions h) = Some old" "sessions (m_sessions h) old = Some x"
    using assms(2) by (auto simp: use_old_session_def Option.bind_eq_Some_conv)
  note o = stuck_lookup(1) [OF locked_stuck [OF assms(1)] old(1) assms(5)]
  show ?thesis
  proof (cases "m_state x = NOT_LOGGED_IN")
    case False
    with assms(2) old have "protection_expires now q tok (auth_error lnk AUTH_WRONG_LOGINPASS h) = Some (h', out)"
      by (simp add: use_old_session_def)
    from locked_protected_error [OF assms(1) this assms(3,4)] show ?thesis by simp
  next
    case True
    obtain st y h1 where 1: "unmark_session_for_reaping old (m_sessions h) = Some st" "sessions st q = Some y"
      "hand_over old etok lnk (h\<lparr>m_sessions := set_session q (session_set_link 0 y) st\<rparr>) = Some h1"
      "protection_expires now q tok (finish_login old lnk acc h1) = Some (h', out)"
      using assms(2) unfolding use_old_session_def by (simp add: old True Option.bind_eq_Some_conv) blast
    have "stuck a t p st" using stuck_unmark [OF locked_stuck [OF assms(1)] 1(1)] by simp
    then have "stuck a t p (set_session q (session_set_link 0 y) st)"
      by (rule stuck_set(2) [OF _ 1(2) _ assms(3)]) (simp add: session_set_link_def belongs_to_def)
    from locked_hand_over [OF locked_store(1) [OF assms(1) this] 1(3) o assms(5)] have h1: "locked a t p h1" .
    obtain h2 where 2: "finish_login old lnk acc h1 = Some (h2, out)" "locked a t p h2 \<longrightarrow> locked a t p h'"
      using locked_protection [OF 1(4) assms(3,4)] by blast
    from locked_finish [OF h1 2(1) o assms(6)] 2(2) finish_login_effect [OF 2(1)] show ?thesis by simp
  qed
qed

text \<open>
  Every answer but one for the token itself leaves the account locked; and an answer for the account is refused.
\<close>

lemma locked_response:
  assumes "locked a t p h" "on_retrieve_account_response now tok acc h = Some (h', out)" "tok \<noteq> t"
  shows "locked a t p h' \<and> (\<forall>m \<in> set out. \<not> names_token t m) \<and>
    (m_acc_server_acc_id acc = a \<longrightarrow>
       (if has_session_for tok (m_sessions h)
        then \<exists>l. out = [ToLink l (AuthorizationError (if isBlocked acc then AUTH_ACCOUNT_BLOCKED else AUTH_ALREADY_LOGGEDIN))]
        else out = []))"
proof (cases "has_session_for tok (m_sessions h)")
  case False
  with assms show ?thesis by (simp add: on_retrieve_account_response_def)
next
  case has: True
  obtain q st x where 1: "session_from_token tok (m_sessions h) = Some q" "unmark_session_for_reaping q (m_sessions h) = Some st"
    "sessions st q = Some x" "m_link x \<noteq> 0"
    using assms(2) has by (auto simp: on_retrieve_account_response_def Let_def Option.bind_eq_Some_conv split: if_splits)
  define h1 where "h1 = h\<lparr>m_sessions := st\<rparr>"
  note q = stuck_lookup(1) [OF locked_stuck [OF assms(1)] 1(1) assms(3)]
  have h1: "locked a t p h1" unfolding h1_def
    by (rule locked_store [OF assms(1)]) (use stuck_unmark [OF locked_stuck [OF assms(1)] 1(2)] in simp)
  then have st: "stuck a t p st" "a \<noteq> 0" "t \<noteq> 0" by (simp_all add: locked_def h1_def)
  note err = locked_protected_error [OF h1 _ q assms(3)]
  consider (missing) "\<not> account_exists acc" | (blocked) "account_exists acc" "isBlocked acc"
    | (good) "account_exists acc" "\<not> isBlocked acc" by blast
  then show ?thesis
  proof cases
    case missing
    with assms(2) has 1 have "protection_expires now q tok (auth_error (m_link x) AUTH_WRONG_LOGINPASS h1) = Some (h', out)"
      by (simp add: on_retrieve_account_response_def h1_def)
    from err [OF this] missing st(2) show ?thesis by (auto simp: account_exists_def)
  next
    case blocked
    with assms(2) has 1 have "protection_expires now q tok (auth_error (m_link x) AUTH_ACCOUNT_BLOCKED h1) = Some (h', out)"
      by (simp add: on_retrieve_account_response_def h1_def)
    from err [OF this] blocked has show ?thesis by auto
  next
    case good
    obtain connected where c: "isClientConnectedAnywhere (m_acc_server_acc_id acc) h1 = Some connected"
      using assms(2) has 1 good by (auto simp: on_retrieve_account_response_def Let_def h1_def Option.bind_eq_Some_conv)
    show ?thesis
    proof (cases connected)
      case True
      with assms(2) 1 good c has have "protection_expires now q tok (auth_error (m_link x) AUTH_ALREADY_LOGGEDIN h1) = Some (h', out)"
        by (simp add: on_retrieve_account_response_def h1_def)
      from err [OF this] good has show ?thesis by auto
    next
      case False
      then have other: "m_acc_server_acc_id acc \<noteq> a" using c locked_connected [OF h1] by auto
      let ?etok = "token_for_id (m_acc_server_acc_id acc) st"
      have "(if ?etok \<noteq> 0 then use_old_session now q tok ?etok (m_link x) acc h1 else use_waiting_session q tok (m_link x) acc h1) = Some (h', out)"
        using assms(2) 1 good c False has by (simp add: on_retrieve_account_response_def h1_def Let_def split: if_splits)
      moreover have "?etok \<noteq> t" using stuck_lookup(3) [OF st(1) _ st(3)] other by blast
      ultimately have "locked a t p h' \<and> (\<forall>m \<in> set out. \<not> names_token t m)"
        using locked_use_old [OF h1 _ q assms(3) _ other] locked_hand_over [OF h1 _ q assms(3)] locked_finish [OF _ _ q other] finish_login_effect
        by (fastforce simp: use_waiting_session_def Option.bind_eq_Some_conv split: if_splits)
      with other show ?thesis by simp
    qed
  qed
qed

section \<open>Runs\<close>

lemma locked_step:
  assumes "locked a t p h" "auth_dispatch e ev h = Some (h', out)" "\<not> reports_on t ev"
  shows "locked a t p h' \<and> (\<forall>m \<in> set out. \<not> names_token t m)"
proof (cases ev)
  case (LinkOpened l s)
  have "locked a t p (put_link l \<lparr>link_state = s\<lparr>m_connection_stage := INITIAL\<rparr>, session_token = 0\<rparr> h)"
    by (rule locked_put [OF assms(1)]) (use assms(1) in \<open>simp add: locked_def\<close>)
  with assms LinkOpened show ?thesis by (auto simp: link_open_def split: if_splits)
next
  case (LinkClosed l)
  with assms locked_link [OF assms(1)] show ?thesis by (auto simp: link_handle_close_def Option.bind_eq_Some_conv)
next
  case (LinkDeleted l)
  then have "h' = h\<lparr>auth_links := (auth_links h)(l := None)\<rparr>" "out = []" using assms(2) by simp_all
  with assms(1) show ?thesis by (simp add: locked_def links_without_def)
next
  case (ClientPacket l pkt)
  with assms show ?thesis by (cases pkt) (auto dest: locked_on_login locked_list_request locked_server_selected)
next
  case (RetrieveAccountResponse tok acc)
  with assms show ?thesis using locked_response [of a t p h "time_now e" tok acc h' out] by simp
next
  case (GameServerStatusMessage s)
  then have "h' = h\<lparr>m_known_game_servers := map_put (status_id s) s (m_known_game_servers h)\<rparr>" "out = []"
    using assms(2) by (simp_all add: on_server_status_change_def)
  with assms(1) show ?thesis by (simp add: locked_def links_without_def)
qed (use assms in \<open>auto simp: on_db_error_def Option.bind_eq_Some_conv dest: error_effect locked_on_connect locked_on_disconnect
      locked_client_expected locked_client_connected locked_client_disconnected locked_reap\<close>)

lemma locked_run:
  "locked a t p h \<Longrightarrow> auth_run evs h = Some (h', outs) \<Longrightarrow> list_all (\<lambda>(e, ev). \<not> reports_on t ev) evs \<Longrightarrow>
   locked a t p h' \<and> (\<forall>out \<in> set outs. \<forall>m \<in> set out. \<not> names_token t m)"
proof (induction evs h arbitrary: h' outs rule: auth_run.induct)
  case (2 e ev evs h)
  obtain h1 out outs' where 1: "auth_dispatch e ev h = Some (h1, out)" "auth_run evs h1 = Some (h', outs')" "outs = out # outs'"
    using "2.prems"(2) by (auto simp: Option.bind_eq_Some_conv)
  have s: "locked a t p h1" "\<forall>m \<in> set out. \<not> names_token t m" using locked_step [OF "2.prems"(1) 1(1)] "2.prems"(3) by auto
  from "2.IH" [OF 1(1) refl s(1) 1(2)] "2.prems"(3) s(2) 1(3) show ?case by simp
qed simp

end
