(* ===== verification/Auth_Properties.thy ===== *)
theory Auth_Properties
  imports Auth_Safety Session_Invariant Auth_Lockout
begin

text \<open>
  The properties of the login service: what a client has to have done before it learns of the game
  servers, the steps of a login, and what goes wrong with sessions that are played, with two
  logins on one connection, and with links that are gone.
\<close>

section \<open>Safety\<close>

text \<open>C4. Whatever happens, in whatever order: a client is sent the list of game servers, or is announced to a
  game server, only if its login was accepted after an answer of the database for an existing account that is not
  blocked, on the connection it has now; and a game server is announced only accounts, with the access level, that
  the database has answered with.\<close>

theorem servers_only_after_login:
  assumes "auth_reach h hist" "auth_dispatch e (ClientPacket lnk pkt) h = Some (h', out)" "m \<in> set out"
    "m = ToLink lnk' (ServerListResponse srvs u) \<or> m = GameExpectClientRequest s a n lev t"
  shows "admitted lnk hist \<and> (m = ToLink lnk' (ServerListResponse srvs u) \<longrightarrow> lnk' = lnk) \<and>
    (m = GameExpectClientRequest s a n lev t \<longrightarrow>
      (\<exists>acc. vouched acc hist \<and> n = m_acc_server_acc_id acc \<and> lev = acc_access_level acc))"
proof -
  have ok: "history_ok h hist" by (rule auth_reach_history [OF assms(1)])
  have d: "dispatch_packet e lnk pkt h = Some (h', out)" using assms(2) by simp
  have no_error: "m \<noteq> ToLink l (AuthorizationError c)" for l c using assms(4) by auto
  show ?thesis
  proof (cases pkt)
    case (LoginRequest login password u1 u2)
    have "\<forall>m' \<in> set out. (\<exists>l c. m' = ToLink l (AuthorizationError c)) \<or> (\<exists>l p n t. m' = RetrieveAccountRequest l p n t)"
      using d LoginRequest by (auto simp: on_login_def start_login_def Let_def Option.bind_eq_Some_conv
          dest: error_effect split: if_splits)
    with assms(3,4) show ?thesis by auto
  next
    case (ServerListRequest arr x)
    then have r: "on_server_list_request e lnk h = Some (h', out)" using d by simp
    have "m = ToLink lnk' (ServerListResponse srvs u)"
      using r assms(3,4) no_error by (auto simp: on_server_list_request_def Option.bind_eq_Some_conv
          dest: error_effect link_putq_effect split: if_splits)
    moreover have "lnk' = lnk \<and> login_stage lnk h"
      using on_server_list_request_harmless [OF r] assms(3) calculation by blast
    ultimately show ?thesis using ok by (simp add: history_ok_def)
  next
    case (ServerSelectRequest arr i)
    then have r: "on_server_selected e lnk i h = Some (h', out)" using d by simp
    have m: "m = GameExpectClientRequest s a n lev t"
      using r assms(3,4) no_error by (auto simp: on_server_selected_def Option.bind_eq_Some_conv
          dest: error_effect split: if_splits)
    have "login_stage lnk h \<and> (\<exists>acc \<in> account_data h. n = m_acc_server_acc_id acc \<and> lev = acc_access_level acc)"
      using on_server_selected_harmless [OF r] assms(3) unfolding m by blast
    then show ?thesis using ok m by (auto simp: history_ok_def)
  next
    case (ReconnectAttempt x)
    with d assms(3) show ?thesis by simp
  qed (use d in simp_all)
qed

text \<open>A new link that is connected.\<close>

lemma connect_step:
  assumes "the_link lnk h = Some l"
  shows "\<exists>h'. on_connect lnk h = Some (h', [ToLink lnk (AuthProtocolVersion 1 30206)]) \<and>
    get_link_stage lnk h' = Some CONNECTED \<and> m_sessions h' = m_sessions h \<and> s_last_session_id h' = s_last_session_id h"
proof -
  have "\<exists>s'. init_crypto 30206 1 s = Some s' \<and> m_connection_stage s' = m_connection_stage s" for s
    by (simp add: init_crypto_def set_protocol_version_def KeyPrepare_def Let_def)
  then obtain s' where s': "init_crypto 30206 1 ((link_state l)\<lparr>m_connection_stage := CONNECTED\<rparr>) = Some s'" "m_connection_stage s' = CONNECTED"
    by fastforce
  have lnk: "lnk \<noteq> 0" using the_link_some [OF assms] by simp
  have "set_link_stage lnk CONNECTED h = Some (put_link lnk (l\<lparr>link_state := (link_state l)\<lparr>m_connection_stage := CONNECTED\<rparr>\<rparr>) h)"
    using assms by (simp add: set_link_stage_def)
  with lnk s' show ?thesis
    by (simp add: on_connect_def link_putq_def) (simp add: the_link_def put_link_def get_link_stage_def)
qed


section \<open>The steps of a login\<close>

lemma swap_pop_first_last:
  assumes "\<forall>x \<in> set xs. \<not> P x" "P w"
  shows "swap_pop_first P (xs @ [w]) = xs"
proof -
  have "index_of P (xs @ [w]) = Some (length xs)" using assms by (induction xs) auto
  then show ?thesis by (simp add: swap_pop_first_def swap_pop_def)
qed

lemma swap_pop_first_before_last:
  assumes "\<forall>x \<in> set xs. \<not> P x" "P w"
  shows "swap_pop_first P (xs @ [w, v]) = xs @ [v]"
proof -
  have "index_of P (xs @ [w, v]) = Some (length xs)" using assms by (induction xs) auto
  then show ?thesis by (simp add: swap_pop_first_def swap_pop_def list_update_append butlast_append)
qed

text \<open>What a login request leaves: a waiting session \<open>p\<close> with the link.\<close>

lemma login_step:
  assumes "store_ok (m_sessions h)" "\<not> has_session_for (s_last_session_id h) (m_sessions h)" "get_link_stage lnk h = Some CONNECTED"
    "login ! 13 = 0" "password ! 15 = 0" "auth_db_running e" "2 < length (c_chars login)"
  shows "\<exists>h1 x w. on_login e lnk login password h = Some (h1, [RetrieveAccountRequest (c_chars login) (c_chars password) 0 (s_last_session_id h)]) \<and>
    m_link x = lnk \<and> m_session_token x = s_last_session_id h \<and> m_state x = NOT_LOGGED_IN \<and> auth_id x = 0 \<and>
    is_connected_to_game_server_id x = 0 \<and> m_session w = next_session (m_sessions h) \<and> waiting_token w = s_last_session_id h \<and>
    sessions (m_sessions h1) = (sessions (m_sessions h))(next_session (m_sessions h) \<mapsto> x) \<and>
    map_of (m_token_to_session (m_sessions h1)) = (map_of (m_token_to_session (m_sessions h)))(s_last_session_id h \<mapsto> next_session (m_sessions h)) \<and>
    m_id_to_token (m_sessions h1) = m_id_to_token (m_sessions h) \<and> m_active_sessions (m_sessions h1) = m_active_sessions (m_sessions h) \<and>
    m_session_ready_for_reaping (m_sessions h1) = m_session_ready_for_reaping (m_sessions h) @ [w] \<and>
    next_session (m_sessions h1) = next_session (m_sessions h) + 1 \<and> s_last_session_id h1 = s_last_session_id h + 1 \<and>
    auth_links h1 = auth_links h \<and> store_ok (m_sessions h1)"
proof -
  let ?st = "m_sessions h" and ?p = "next_session (m_sessions h)" and ?t = "s_last_session_id h"
  let ?x = "blank_auth_session\<lparr>m_session_token := ?t, m_link := lnk, is_temporary := True\<rparr>"
  define st1 where "st1 = snd (the (create_session blank_auth_session ?t ?st))"
  have c: "create_session blank_auth_session ?t ?st = Some (?p, st1)" using assms(2) by (simp add: create_session_def st1_def Let_def)
  have st1: "sessions st1 = (sessions ?st)(?p \<mapsto> blank_auth_session\<lparr>m_session_token := ?t\<rparr>)"
    "m_token_to_session st1 = AList.update ?t ?p (m_token_to_session ?st)" "m_id_to_token st1 = m_id_to_token ?st"
    "m_active_sessions st1 = m_active_sessions ?st" "m_session_ready_for_reaping st1 = m_session_ready_for_reaping ?st"
    "next_session st1 = ?p + 1"
    using assms(2) by (simp_all add: create_session_def st1_def set_session_def Let_def)
  define st2 where "st2 = mark_session_for_reaping (time_now e) ?p ?t ''AuthHandler: waiting for handover'' (set_session ?p ?x st1)"
  have "store_ok (set_session ?p ?x st1)" using store_ok_create [OF assms(1) c] by (intro store_ok_set) simp_all
  then have ok: "store_ok st2" unfolding st2_def by (rule store_ok_mark) (simp add: st1(6) set_session_def)
  have "on_login e lnk login password h = Some (h\<lparr>m_sessions := st2, s_last_session_id := ?t + 1\<rparr>,
      [RetrieveAccountRequest (c_chars login) (c_chars password) 0 ?t])"
    using assms(3-7) by (simp add: on_login_def start_login_def c st1 st2_def set_temporary_def session_set_link_def Let_def set_session_def)
  with ok show ?thesis
    by (intro exI [of _ "h\<lparr>m_sessions := st2, s_last_session_id := ?t + 1\<rparr>"] exI [of _ ?x]
        exI [of _ "\<lparr>m_waiting_since = time_now e, m_session = ?p, waiting_token = ?t\<rparr>"])
      (simp add: st2_def st1 mark_session_for_reaping_def marked_for_reaping_def set_session_def blank_auth_session_def update_conv')
qed

text \<open>What a good answer does for an account without a session.\<close>

lemma answer_step:
  assumes "session_from_token tok (m_sessions h) = Some p" "sessions (m_sessions h) p = Some x" "tok \<noteq> 0"
    "m_link x = lnk" "get_link_stage lnk h = Some stage" "account_exists acc" "\<not> isBlocked acc"
    "token_for_id (m_acc_server_acc_id acc) (m_sessions h) = 0"
  shows "\<exists>h'. on_retrieve_account_response now tok acc h = Some (h', [ToLink lnk login_accepted]) \<and>
    sessions (m_sessions h') = (sessions (m_sessions h))(p \<mapsto> x\<lparr>m_link := lnk, is_temporary := False,
       m_auth_data := Some acc, auth_id := m_acc_server_acc_id acc, m_state := LOGGED_IN\<rparr>) \<and>
    m_token_to_session (m_sessions h') = m_token_to_session (m_sessions h) \<and>
    m_id_to_token (m_sessions h') = AList.update (m_acc_server_acc_id acc) tok (m_id_to_token (m_sessions h)) \<and>
    p \<in> set (m_active_sessions (m_sessions h')) \<and>
    m_session_ready_for_reaping (m_sessions h') = swap_pop_first (\<lambda>w. m_session w = p) (m_session_ready_for_reaping (m_sessions h)) \<and>
    get_link_stage lnk h' = Some AUTHORIZED \<and> map_option session_token (the_link lnk h') = Some tok \<and>
    next_session (m_sessions h') = next_session (m_sessions h) \<and> (\<forall>l. l \<noteq> lnk \<longrightarrow> auth_links h' l = auth_links h l)"
proof -
  let ?st = "m_sessions h"
  have has: "has_session_for tok ?st" using assms(1) by (simp add: has_session_for_def session_from_token_def)
  obtain l where l: "lnk \<noteq> 0" "auth_links h lnk = Some l"
    using assms(5) by (auto simp: get_link_stage_def the_link_def split: if_splits)
  define st1 where "st1 = (unmarked_for_reaping (m_session_token x) ?st)\<lparr>m_session_ready_for_reaping :=
      swap_pop_first (\<lambda>w. m_session w = p) (m_session_ready_for_reaping ?st)\<rparr>"
  have u: "unmark_session_for_reaping p ?st = Some st1"
    using assms(2) by (simp add: unmark_session_for_reaping_def unmarked_for_reaping_def st1_def Let_def)
  have st1: "sessions st1 = sessions ?st" "m_id_to_token st1 = m_id_to_token ?st" "token_for_id i st1 = token_for_id i ?st" for i
    by (simp_all add: st1_def unmarked_for_reaping_def token_for_id_def)
  show ?thesis
    using has assms u l st1
    apply (simp add: on_retrieve_account_response_def isClientConnectedAnywhere_def use_waiting_session_def hand_over_def
        finish_login_def set_session_token_def the_link_def put_link_def set_link_stage_def link_putq_def Let_def)
    apply (simp add: st1_def unmarked_for_reaping_def set_session_def add_to_active_sessions_def setTokenForId_def
        get_link_stage_def the_link_def session_set_link_def)
    done
qed

text \<open>The end of the link of a session that is not played.\<close>

lemma disconnect_step:
  assumes "session_from_token tok (m_sessions h) = Some p" "sessions (m_sessions h) p = Some x" "m_link x = lnk" "tok \<noteq> 0"
    "is_connected_to_game_server_id x = 0" "map_option session_token (the_link lnk h) = Some tok" "p \<in> set (m_active_sessions (m_sessions h))"
  shows "\<exists>h'. auth_on_disconnect now tok h = Some (h', []) \<and> m_token_to_session (m_sessions h') = m_token_to_session (m_sessions h) \<and>
    m_id_to_token (m_sessions h') = m_id_to_token (m_sessions h) \<and>
    sessions (m_sessions h') = (sessions (m_sessions h))(p \<mapsto> x\<lparr>m_state := NOT_LOGGED_IN, m_link := 0, is_temporary := False\<rparr>)"
proof -
  obtain l where l: "the_link lnk h = Some l" "session_token l = tok" using assms(6) by auto
  then have "lnk \<noteq> 0" using the_link_some by blast
  with assms l show ?thesis
    by (simp add: auth_on_disconnect_def mark_unless_playing_def drop_link_def remove_from_active_sessions_def
        mark_session_for_reaping_def marked_for_reaping_def set_session_def session_set_link_def Let_def)
qed

lemma login_run:
  fixes e :: "'addr auth_env"
  assumes "store_ok (m_sessions h)" "\<not> has_session_for (s_last_session_id h) (m_sessions h)" "s_last_session_id h \<noteq> 0"
    "get_link_stage lnk h = Some CONNECTED" "login ! 13 = 0" "password ! 15 = 0" "auth_db_running e" "2 < length (c_chars login)"
    "account_exists acc" "\<not> isBlocked acc" "token_for_id (m_acc_server_acc_id acc) (m_sessions h) = 0"
  shows "\<exists>h1 h2 x.
    on_login e lnk login password h = Some (h1, [RetrieveAccountRequest (c_chars login) (c_chars password) 0 (s_last_session_id h)]) \<and>
    (on_retrieve_account_response now (s_last_session_id h) acc h1 :: 'addr auth_result) = Some (h2, [ToLink lnk login_accepted]) \<and>
    sessions (m_sessions h2) = (sessions (m_sessions h))(next_session (m_sessions h) \<mapsto> x) \<and>
    map_of (m_token_to_session (m_sessions h2)) = (map_of (m_token_to_session (m_sessions h)))(s_last_session_id h \<mapsto> next_session (m_sessions h)) \<and>
    m_state x = LOGGED_IN \<and> m_link x = lnk \<and> m_auth_data x = Some acc \<and> auth_id x = m_acc_server_acc_id acc \<and>
    next_session (m_sessions h) \<in> set (m_active_sessions (m_sessions h2)) \<and>
    m_id_to_token (m_sessions h2) = AList.update (m_acc_server_acc_id acc) (s_last_session_id h) (m_id_to_token (m_sessions h)) \<and>
    get_link_stage lnk h2 = Some AUTHORIZED \<and> map_option session_token (the_link lnk h2) = Some (s_last_session_id h) \<and>
    m_session_ready_for_reaping (m_sessions h2) = m_session_ready_for_reaping (m_sessions h)"
proof -
  let ?t = "s_last_session_id h" and ?p = "next_session (m_sessions h)"
  obtain h1 x w where 1: "on_login e lnk login password h = Some (h1, [RetrieveAccountRequest (c_chars login) (c_chars password) 0 ?t])"
    "m_link x = lnk" "sessions (m_sessions h1) = (sessions (m_sessions h))(?p \<mapsto> x)" "m_session w = ?p"
    "map_of (m_token_to_session (m_sessions h1)) = (map_of (m_token_to_session (m_sessions h)))(?t \<mapsto> ?p)"
    "m_id_to_token (m_sessions h1) = m_id_to_token (m_sessions h)" "auth_links h1 = auth_links h"
    "m_session_ready_for_reaping (m_sessions h1) = m_session_ready_for_reaping (m_sessions h) @ [w]"
    using login_step [OF assms(1,2,4-8)] by blast
  have "session_from_token ?t (m_sessions h1) = Some ?p" "get_link_stage lnk h1 = Some CONNECTED"
    "token_for_id (m_acc_server_acc_id acc) (m_sessions h1) = 0" "sessions (m_sessions h1) ?p = Some x"
    using 1(3,5,6) get_link_stage_cong [OF 1(7)] assms(4,11) by (simp_all add: session_from_token_def token_for_id_def)
  from answer_step [OF this(1,4) assms(3) 1(2) this(2) assms(9,10) this(3), of now]
  obtain h2 where 2: "(on_retrieve_account_response now ?t acc h1 :: 'addr auth_result) = Some (h2, [ToLink lnk login_accepted])"
    "sessions (m_sessions h2) = (sessions (m_sessions h1))(?p \<mapsto> x\<lparr>m_link := lnk, is_temporary := False,
       m_auth_data := Some acc, auth_id := m_acc_server_acc_id acc, m_state := LOGGED_IN\<rparr>)"
    "m_token_to_session (m_sessions h2) = m_token_to_session (m_sessions h1)"
    "m_id_to_token (m_sessions h2) = AList.update (m_acc_server_acc_id acc) ?t (m_id_to_token (m_sessions h1))"
    "?p \<in> set (m_active_sessions (m_sessions h2))"
    "m_session_ready_for_reaping (m_sessions h2) = swap_pop_first (\<lambda>w. m_session w = ?p) (m_session_ready_for_reaping (m_sessions h1))"
    "get_link_stage lnk h2 = Some AUTHORIZED" "map_option session_token (the_link lnk h2) = Some ?t"
    by blast
  have "\<forall>v \<in> set (m_session_ready_for_reaping (m_sessions h)). m_session v \<noteq> ?p"
    using assms(1) by (auto simp: store_ok_def)
  then have "m_session_ready_for_reaping (m_sessions h2) = m_session_ready_for_reaping (m_sessions h)"
    using 2(6) 1(4,8) by (simp add: swap_pop_first_last)
  note waiting = this
  show ?thesis
    by (rule exI [of _ h1], rule exI [of _ h2],
        rule exI [of _ "x\<lparr>m_link := lnk, is_temporary := False, m_auth_data := Some acc, auth_id := m_acc_server_acc_id acc, m_state := LOGGED_IN\<rparr>"])
      (use 1(1,3,5,6) 2(1,3-5,7,8) waiting in \<open>simp add: 2(2)\<close>)
qed

section \<open>A handler with one connected link\<close>

definition test_env :: "nat auth_env" where
  "test_env = \<lparr>auth_db_running = True, game_running = (\<lambda>_. True), link_peer = (\<lambda>l. l), rand_result = 0, time_now = 0, junk_byte = 0\<rparr>"

definition connected_handler :: auth_handler where
  "connected_handler = new_auth_handler\<lparr>auth_links := [5 \<mapsto> \<lparr>link_state =
     (new_auth_link (\<lambda>_. 0) (new_codec [] []) Server)\<lparr>m_connection_stage := CONNECTED\<rparr>, session_token = 0\<rparr>]\<rparr>"

definition test_account :: "u32 \<Rightarrow> account_info" where
  "test_account i = \<lparr>acc_login = [97, 98, 99], m_creation_date = 0, m_acc_server_acc_id = i, acc_access_level = 1\<rparr>"

definition test_login :: "u8 list" where "test_login = [97, 98, 99, 0, 0, 0, 0, 0, 0, 0, 0, 0, 0, 0]"
definition test_password :: "u8 list" where "test_password = replicate 16 0"

lemma connected_store [simp]: "m_sessions connected_handler = new_store" "s_last_session_id connected_handler = 1"
  "get_link_stage 5 connected_handler = Some CONNECTED"
  by (simp_all add: connected_handler_def new_auth_handler_def get_link_stage_def the_link_def)

lemma connected_link [simp]: "map_option session_token (the_link 5 connected_handler) = Some 0"
  by (simp add: connected_handler_def the_link_def)

lemma new_store_empty [simp]: "store_ok new_store" "\<not> has_session_for t new_store" "token_for_id i new_store = 0"
  "m_session_ready_for_reaping new_store = []"
  by (rule store_ok_new) (simp_all add: new_store_def has_session_for_def token_for_id_def)

lemma connected_unused [simp]: "t \<noteq> 0 \<Longrightarrow> unused_token t connected_handler" "without_session i connected_handler"
  by (simp_all add: unused_token_def without_session_def links_without_def)
    (simp_all add: connected_handler_def new_store_def)

definition test_server :: game_server_status where
  "test_server = \<lparr>status_ip = 0, status_port = 0, m_last_status_update = 0, m_current_players = 0, m_max_players = 1,
     status_id = 1, m_online = True\<rparr>"

lemma test_login_ok [simp]: "test_login ! 13 = 0" "test_password ! 15 = 0" "c_chars test_login = [97, 98, 99]" "c_chars test_password = []"
  "auth_db_running test_env"
  by (simp_all add: test_login_def test_password_def c_chars_def test_env_def)

lemma test_account_ok [simp]: "i \<noteq> 0 \<Longrightarrow> account_exists (test_account i)" "\<not> isBlocked (test_account i)" "m_acc_server_acc_id (test_account i) = i"
  by (simp_all add: test_account_def account_exists_def isBlocked_def)

text \<open>C20. A login: the request makes a waiting session and asks the database for the name and the password;
  a good answer for an account that has no session makes that session the active, logged in one of the account, on
  the link of the request, which gets the token of the session and its new stage, and takes it off the list of
  sessions to reap, which is again as it was before.\<close>

theorem login_flow:
  fixes e :: "'addr auth_env"
  assumes "store_ok (m_sessions h)" "\<not> has_session_for (s_last_session_id h) (m_sessions h)" "s_last_session_id h \<noteq> 0"
    "get_link_stage lnk h = Some CONNECTED" "login ! 13 = 0" "password ! 15 = 0" "auth_db_running e" "2 < length (c_chars login)"
    "account_exists acc" "\<not> isBlocked acc" "token_for_id (m_acc_server_acc_id acc) (m_sessions h) = 0"
  shows "\<exists>h1 h2 p x.
    on_login e lnk login password h = Some (h1, [RetrieveAccountRequest (c_chars login) (c_chars password) 0 (s_last_session_id h)]) \<and>
    (on_retrieve_account_response now (s_last_session_id h) acc h1 :: 'addr auth_result) = Some (h2, [ToLink lnk login_accepted]) \<and>
    session_from_token (s_last_session_id h) (m_sessions h2) = Some p \<and> sessions (m_sessions h2) p = Some x \<and>
    m_state x = LOGGED_IN \<and> m_link x = lnk \<and> m_auth_data x = Some acc \<and> auth_id x = m_acc_server_acc_id acc \<and>
    isActive p (m_sessions h2) \<and> token_for_id (m_acc_server_acc_id acc) (m_sessions h2) = s_last_session_id h \<and>
    get_link_stage lnk h2 = Some AUTHORIZED \<and> map_option session_token (the_link lnk h2) = Some (s_last_session_id h) \<and>
    m_session_ready_for_reaping (m_sessions h2) = m_session_ready_for_reaping (m_sessions h)"
proof -
  from login_run [OF assms, of now] obtain h1 h2 x where run:
    "on_login e lnk login password h = Some (h1, [RetrieveAccountRequest (c_chars login) (c_chars password) 0 (s_last_session_id h)])"
    "(on_retrieve_account_response now (s_last_session_id h) acc h1 :: 'addr auth_result) = Some (h2, [ToLink lnk login_accepted])"
    "sessions (m_sessions h2) (next_session (m_sessions h)) = Some x"
    "session_from_token (s_last_session_id h) (m_sessions h2) = Some (next_session (m_sessions h))"
    "m_state x = LOGGED_IN" "m_link x = lnk" "m_auth_data x = Some acc" "auth_id x = m_acc_server_acc_id acc"
    "isActive (next_session (m_sessions h)) (m_sessions h2)"
    "token_for_id (m_acc_server_acc_id acc) (m_sessions h2) = s_last_session_id h"
    "get_link_stage lnk h2 = Some AUTHORIZED" "map_option session_token (the_link lnk h2) = Some (s_last_session_id h)"
    "m_session_ready_for_reaping (m_sessions h2) = m_session_ready_for_reaping (m_sessions h)"
    by (clarsimp simp: session_from_token_def isActive_def token_for_id_def update_conv')
  then show ?thesis by blast
qed

theorem login_flow_witness:
  "\<exists>h1 h2. on_login test_env 5 test_login test_password connected_handler = Some (h1, [RetrieveAccountRequest [97, 98, 99] [] 0 1]) \<and>
     (on_retrieve_account_response 0 1 (test_account 9) h1 :: nat auth_result) = Some (h2, [ToLink 5 login_accepted]) \<and> get_link_stage 5 h2 = Some AUTHORIZED"
  using login_flow [of connected_handler 5 test_login test_password test_env "test_account 9" 0] by auto

theorem servers_only_after_login_witness:
  "\<exists>h (hist :: nat auth_history) h' srvs. auth_reach h hist \<and>
     auth_dispatch test_env (ClientPacket 5 (ServerListRequest (replicate 8 0) 0)) h = Some (h', [ToLink 5 (ServerListResponse srvs 0)]) \<and>
     admitted 5 hist"
proof -
  let ?s = "new_auth_link (\<lambda>_. 0) (new_codec [] []) Server" and ?h0 = new_auth_handler
  let ?h1 = "put_link 5 \<lparr>link_state = ?s\<lparr>m_connection_stage := INITIAL\<rparr>, session_token = 0\<rparr> ?h0"
  have empty: "m_sessions ?h0 = new_store" "s_last_session_id ?h0 = 1" "m_known_game_servers ?h0 = []" by (simp_all add: new_auth_handler_def)
  have 1: "auth_dispatch test_env (LinkOpened 5 ?s) ?h0 = Some (?h1, [PostConnect 5])"
    by (simp add: link_open_def) (simp add: new_auth_handler_def)
  have "the_link 5 ?h1 = Some \<lparr>link_state = ?s\<lparr>m_connection_stage := INITIAL\<rparr>, session_token = 0\<rparr>"
    by (simp add: the_link_def put_link_def)
  from connect_step [OF this] obtain h2 where 2: "auth_dispatch test_env (ConnectEvent 5) ?h1 = Some (h2, [ToLink 5 (AuthProtocolVersion 1 30206)])"
    "get_link_stage 5 h2 = Some CONNECTED" "m_sessions h2 = new_store" "s_last_session_id h2 = 1"
    using empty by (auto simp: put_link_def)
  obtain h3 m h4 where 3: "auth_dispatch test_env (ClientPacket 5 (LoginRequest test_login test_password 0 0)) h2 = Some (h3, m)"
    "auth_dispatch test_env (RetrieveAccountResponse 1 (test_account 9)) h3 = Some (h4, [ToLink 5 login_accepted])"
    "get_link_stage 5 h4 = Some AUTHORIZED"
    using login_run [of h2 5 test_login test_password test_env "test_account 9" 0] 2 by (auto simp: test_env_def)
  have r: "auth_reach h4 [(RetrieveAccountResponse 1 (test_account 9), [ToLink 5 login_accepted]),
      (ClientPacket 5 (LoginRequest test_login test_password 0 0), m), (ConnectEvent 5, [ToLink 5 (AuthProtocolVersion 1 30206)]),
      (LinkOpened 5 ?s, [PostConnect 5])]" (is "auth_reach h4 ?hist")
    by (rule auth_reach.input [OF auth_reach.input [OF auth_reach.input [OF auth_reach.input [OF auth_reach.start 1] 2(1)] 3(1)] 3(2)])
  then obtain h5 srvs where 5: "auth_dispatch test_env (ClientPacket 5 (ServerListRequest (replicate 8 0) 0)) h4 =
      Some (h5, [ToLink 5 (ServerListResponse srvs 0)])"
    using 3(3) by (auto simp: on_server_list_request_def set_link_stage_def link_putq_def the_link_def put_link_def get_link_stage_def test_env_def)
  from servers_only_after_login [OF r 5, of "ToLink 5 (ServerListResponse srvs 0)" 5 srvs 0] have "admitted 5 ?hist" by simp
  with r 5 show ?thesis by blast
qed

section \<open>What goes wrong\<close>

text \<open>The state after both answers: the first account is locked.\<close>

lemma two_answers_lock:
  assumes "store_ok (m_sessions h)" "t \<noteq> 0" "unused_token t h" "without_session a h" "a \<noteq> a'"
    "sessions st = (sessions (m_sessions h))(next_session (m_sessions h) \<mapsto> x, next_session (m_sessions h) + 1 \<mapsto> x')"
    "m_state x = LOGGED_IN" "auth_id x' = a'" "next_session st = next_session (m_sessions h) + 2"
    "map_of (m_token_to_session st) = (map_of (m_token_to_session (m_sessions h)))(t \<mapsto> next_session (m_sessions h), t + 1 \<mapsto> next_session (m_sessions h) + 1)"
    "map_of (m_id_to_token st) = (map_of (m_id_to_token (m_sessions h)))(a \<mapsto> t, a' \<mapsto> t + 1)"
    "m_session_ready_for_reaping st = m_session_ready_for_reaping (m_sessions h)"
  shows "stuck a t (next_session (m_sessions h)) st"
proof -
  let ?p = "next_session (m_sessions h)"
  have old: "map_of (m_token_to_session (m_sessions h)) t' \<noteq> Some ?p" for t'
    using assms(1) tokens_ok_lookup unfolding store_ok_def by blast
  have "\<forall>w \<in> set (m_session_ready_for_reaping (m_sessions h)). m_session w \<noteq> ?p" using assms(1) by (auto simp: store_ok_def)
  moreover have "map_of (m_id_to_token (m_sessions h)) i \<noteq> Some t" for i using assms(3) by (auto simp: unused_token_def ran_def)
  moreover have "\<not> belongs_to a y" if "sessions (m_sessions h) q = Some y" for q y
    using assms(4) that by (auto simp: without_session_def belongs_to_def ran_def)
  ultimately show ?thesis
    using assms(3,5,7,8) old by (auto simp: stuck_def unused_token_def assms(6,9-12) belongs_to_def)
qed

text \<open>Both requests are waiting for their answers, with the same link.\<close>

lemma both_requests_waiting:
  assumes "store_ok (m_sessions h)" "t = s_last_session_id h" "\<not> has_session_for t (m_sessions h)" "\<not> has_session_for (t + 1) (m_sessions h)"
    "get_link_stage lnk h = Some CONNECTED" "login ! 13 = 0" "password ! 15 = 0" "auth_db_running e" "2 < length (c_chars login)"
    "login' ! 13 = 0" "password' ! 15 = 0" "2 < length (c_chars login')" "p = next_session (m_sessions h)"
  obtains h1 m1 h2 m2 x x' w w' where
    "on_login e lnk login password h = Some (h1, m1)" "on_login e lnk login' password' h1 = Some (h2, m2)"
    "m_link x = lnk" "m_link x' = lnk" "is_connected_to_game_server_id x' = 0" "m_session w = p" "m_session w' = p + 1"
    "sessions (m_sessions h2) = (sessions (m_sessions h))(p \<mapsto> x, p + 1 \<mapsto> x')"
    "map_of (m_token_to_session (m_sessions h2)) = (map_of (m_token_to_session (m_sessions h)))(t \<mapsto> p, t + 1 \<mapsto> p + 1)"
    "m_id_to_token (m_sessions h2) = m_id_to_token (m_sessions h)" "auth_links h2 = auth_links h"
    "m_session_ready_for_reaping (m_sessions h2) = m_session_ready_for_reaping (m_sessions h) @ [w, w']"
    "next_session (m_sessions h2) = p + 2" "get_link_stage lnk h2 = Some CONNECTED"
proof -
  obtain h1 x w m1 where 1: "on_login e lnk login password h = Some (h1, m1)" "m_link x = lnk" "m_session w = p"
    "sessions (m_sessions h1) = (sessions (m_sessions h))(p \<mapsto> x)"
    "map_of (m_token_to_session (m_sessions h1)) = (map_of (m_token_to_session (m_sessions h)))(t \<mapsto> p)"
    "m_id_to_token (m_sessions h1) = m_id_to_token (m_sessions h)" "auth_links h1 = auth_links h"
    "next_session (m_sessions h1) = p + 1" "s_last_session_id h1 = t + 1" "store_ok (m_sessions h1)"
    "m_session_ready_for_reaping (m_sessions h1) = m_session_ready_for_reaping (m_sessions h) @ [w]"
    using login_step [of h lnk login password e] assms by blast
  have "\<not> has_session_for (t + 1) (m_sessions h1)" and stage: "get_link_stage lnk h1 = Some CONNECTED"
    using 1(5) get_link_stage_cong [OF 1(7)] assms(4,5) by (simp_all add: has_session_for_def)
  with login_step [OF 1(10), of lnk login' password' e] assms(8,10-12) 1(8,9) obtain h2 x' w' m2 where 2:
    "on_login e lnk login' password' h1 = Some (h2, m2)" "m_link x' = lnk" "m_session w' = p + 1"
    "is_connected_to_game_server_id x' = 0" "sessions (m_sessions h2) = (sessions (m_sessions h1))(p + 1 \<mapsto> x')"
    "map_of (m_token_to_session (m_sessions h2)) = (map_of (m_token_to_session (m_sessions h1)))(t + 1 \<mapsto> p + 1)"
    "m_id_to_token (m_sessions h2) = m_id_to_token (m_sessions h1)" "auth_links h2 = auth_links h1"
    "m_session_ready_for_reaping (m_sessions h2) = m_session_ready_for_reaping (m_sessions h1) @ [w']"
    "next_session (m_sessions h2) = p + 2"
    by auto
  show thesis
    by (rule that [OF 1(1) 2(1) 1(2) 2(2,4) 1(3) 2(3)])
      (use 1(4-7,11) 2(5-10) stage get_link_stage_cong [OF 2(8)] in simp_all)
qed

text \<open>Both answers are good: the first account is locked, and the second session is that of the link.\<close>

lemma both_logins_accepted:
  fixes e :: "'addr auth_env"
  assumes "store_ok (m_sessions h)" "t = s_last_session_id h" "t \<noteq> 0" "t + 1 \<noteq> 0"
    "unused_token t h" "\<not> has_session_for (t + 1) (m_sessions h)"
    "get_link_stage lnk h = Some CONNECTED" "login ! 13 = 0" "password ! 15 = 0" "auth_db_running e" "2 < length (c_chars login)"
    "login' ! 13 = 0" "password' ! 15 = 0" "2 < length (c_chars login')"
    "account_exists acc" "\<not> isBlocked acc" "account_exists acc'" "\<not> isBlocked acc'"
    "without_session (m_acc_server_acc_id acc) h" "token_for_id (m_acc_server_acc_id acc') (m_sessions h) = 0"
    "m_acc_server_acc_id acc \<noteq> m_acc_server_acc_id acc'"
  obtains h1 m1 h2 m2 h3 h4 p q x y where
    "on_login e lnk login password h = Some (h1, m1)" "on_login e lnk login' password' h1 = Some (h2, m2)"
    "(on_retrieve_account_response now t acc h2 :: 'addr auth_result) = Some (h3, [ToLink lnk login_accepted])"
    "(on_retrieve_account_response now (t + 1) acc' h3 :: 'addr auth_result) = Some (h4, [ToLink lnk login_accepted])"
    "map_option session_token (the_link lnk h4) = Some (t + 1)" "locked (m_acc_server_acc_id acc) t p h4"
    "sessions (m_sessions h4) p = Some x" "m_link x = lnk" "m_state x = LOGGED_IN"
    "session_from_token (t + 1) (m_sessions h4) = Some q" "sessions (m_sessions h4) q = Some y" "m_link y = lnk"
    "is_connected_to_game_server_id y = 0" "q \<in> set (m_active_sessions (m_sessions h4))" "q \<noteq> p"
proof -
  let ?p = "next_session (m_sessions h)" and ?a = "m_acc_server_acc_id acc" and ?a' = "m_acc_server_acc_id acc'"
  have t': "t + 1 \<noteq> t" by simp
  have new: "\<not> has_session_for t (m_sessions h)" "token_for_id ?a (m_sessions h) = 0"
    "\<And>l link. auth_links h l = Some link \<Longrightarrow> session_token link \<noteq> t"
    using assms(5,19) by (simp_all add: unused_token_def without_session_def links_without_def)
  obtain h1 m1 h2 m2 x x' w w' where 2: "on_login e lnk login password h = Some (h1, m1)" "on_login e lnk login' password' h1 = Some (h2, m2)"
    "m_link x = lnk" "m_link x' = lnk" "is_connected_to_game_server_id x' = 0" "m_session w = ?p" "m_session w' = ?p + 1"
    "sessions (m_sessions h2) = (sessions (m_sessions h))(?p \<mapsto> x, ?p + 1 \<mapsto> x')"
    "map_of (m_token_to_session (m_sessions h2)) = (map_of (m_token_to_session (m_sessions h)))(t \<mapsto> ?p, t + 1 \<mapsto> ?p + 1)"
    "m_id_to_token (m_sessions h2) = m_id_to_token (m_sessions h)" "auth_links h2 = auth_links h"
    "m_session_ready_for_reaping (m_sessions h2) = m_session_ready_for_reaping (m_sessions h) @ [w, w']"
    "next_session (m_sessions h2) = ?p + 2" "get_link_stage lnk h2 = Some CONNECTED"
    by (rule both_requests_waiting [OF assms(1,2) new(1) assms(6-14) refl]) blast
  have s2: "session_from_token t (m_sessions h2) = Some ?p" "sessions (m_sessions h2) ?p = Some x" "token_for_id ?a (m_sessions h2) = 0"
    using 2(8-10) new(2) t' by (simp_all add: session_from_token_def token_for_id_def)
  define x3 where "x3 = x\<lparr>m_link := lnk, is_temporary := False, m_auth_data := Some acc, auth_id := ?a, m_state := LOGGED_IN\<rparr>"
  obtain h3 where 3: "(on_retrieve_account_response now t acc h2 :: 'addr auth_result) = Some (h3, [ToLink lnk login_accepted])"
    "sessions (m_sessions h3) = (sessions (m_sessions h2))(?p \<mapsto> x3)"
    "m_token_to_session (m_sessions h3) = m_token_to_session (m_sessions h2)"
    "m_id_to_token (m_sessions h3) = AList.update ?a t (m_id_to_token (m_sessions h2))" "get_link_stage lnk h3 = Some AUTHORIZED"
    "m_session_ready_for_reaping (m_sessions h3) = swap_pop_first (\<lambda>w. m_session w = ?p) (m_session_ready_for_reaping (m_sessions h2))"
    "next_session (m_sessions h3) = next_session (m_sessions h2)" "\<forall>l. l \<noteq> lnk \<longrightarrow> auth_links h3 l = auth_links h2 l"
    using answer_step [OF s2(1,2) assms(3) 2(3,14) assms(15,16) s2(3), of now] unfolding x3_def by blast
  have s3: "session_from_token (t + 1) (m_sessions h3) = Some (?p + 1)" "sessions (m_sessions h3) (?p + 1) = Some x'"
    "token_for_id ?a' (m_sessions h3) = 0"
    using 3(2-4) 2(8-10) assms(20,21) by (simp_all add: session_from_token_def token_for_id_def update_conv')
  define x4 where "x4 = x'\<lparr>m_link := lnk, is_temporary := False, m_auth_data := Some acc', auth_id := ?a', m_state := LOGGED_IN\<rparr>"
  obtain h4 where 4: "(on_retrieve_account_response now (t + 1) acc' h3 :: 'addr auth_result) = Some (h4, [ToLink lnk login_accepted])"
    "sessions (m_sessions h4) = (sessions (m_sessions h3))(?p + 1 \<mapsto> x4)"
    "m_token_to_session (m_sessions h4) = m_token_to_session (m_sessions h3)"
    "m_id_to_token (m_sessions h4) = AList.update ?a' (t + 1) (m_id_to_token (m_sessions h3))"
    "?p + 1 \<in> set (m_active_sessions (m_sessions h4))" "map_option session_token (the_link lnk h4) = Some (t + 1)"
    "m_session_ready_for_reaping (m_sessions h4) = swap_pop_first (\<lambda>w. m_session w = ?p + 1) (m_session_ready_for_reaping (m_sessions h3))"
    "next_session (m_sessions h4) = next_session (m_sessions h3)" "\<forall>l. l \<noteq> lnk \<longrightarrow> auth_links h4 l = auth_links h3 l"
    using answer_step [OF s3(1,2) assms(4) 2(4) 3(5) assms(17,18) s3(3), of now] unfolding x4_def by blast
  have old: "\<forall>v \<in> set (m_session_ready_for_reaping (m_sessions h)). m_session v < ?p" using assms(1) by (simp add: store_ok_def)
  have waiting: "m_session_ready_for_reaping (m_sessions h4) = m_session_ready_for_reaping (m_sessions h)"
    using old 2(6,7) swap_pop_first_before_last [of "m_session_ready_for_reaping (m_sessions h)" "\<lambda>v. m_session v = ?p" w w']
      swap_pop_first_last [of "m_session_ready_for_reaping (m_sessions h)" "\<lambda>v. m_session v = ?p + 1" w']
    unfolding 4(7) 3(6) 2(12) by fastforce
  have "stuck ?a t ?p (m_sessions h4)"
    by (rule two_answers_lock [where a' = ?a' and x = x3 and x' = x4, OF assms(1,3,5,19,21)])
      (simp_all add: 4(2-4,8) 3(2-4,7) 2(8-10,13) waiting x3_def x4_def update_conv' fun_upd_twist)
  moreover have "links_without t h4" unfolding links_without_def
    using 4(6,9) 3(8) 2(11) new(3) t' by (metis the_link_def map_option_eq_Some option.inject option.simps(3))
  ultimately have "locked ?a t ?p h4" using assms(3,15) by (simp add: locked_def account_exists_def)
  moreover have "session_from_token (t + 1) (m_sessions h4) = Some (?p + 1)" using s3(1) 4(3) by (simp add: session_from_token_def)
  ultimately show thesis
    by (intro that [OF 2(1,2) 3(1) 4(1,6), of ?p x3 "?p + 1" x4])
      (use 4(2,5) 3(2) 2(5) in \<open>simp_all add: x3_def x4_def\<close>)
qed

text \<open>C35. Two logins on one connection, of different accounts, before the database has answered: both are accepted
  on the same link. When the link is closed, only the second session is logged out; the first account stays logged
  in and its session points to the closed link. It stays so for ever: whatever inputs follow, as long as none reports
  on the token of the first session (an answer of the database, a disconnect, a game server's disconnect), every
  answer for the account to a waiting login is an error, that it is already logged in (or blocked); and no input has
  reason to report on the token, since the service never names it again, in a disconnect, to the database or to a
  game server. At the beginning the token is new and the first account has no session.\<close>

theorem two_logins_lock_account:
  fixes e :: "'addr auth_env"
  assumes "store_ok (m_sessions h)" "t = s_last_session_id h" "t \<noteq> 0" "t + 1 \<noteq> 0"
    "unused_token t h" "\<not> has_session_for (t + 1) (m_sessions h)"
    "get_link_stage lnk h = Some CONNECTED" "login ! 13 = 0" "password ! 15 = 0" "auth_db_running e" "2 < length (c_chars login)"
    "login' ! 13 = 0" "password' ! 15 = 0" "2 < length (c_chars login')"
    "account_exists acc" "\<not> isBlocked acc" "account_exists acc'" "\<not> isBlocked acc'"
    "without_session (m_acc_server_acc_id acc) h" "token_for_id (m_acc_server_acc_id acc') (m_sessions h) = 0"
    "m_acc_server_acc_id acc \<noteq> m_acc_server_acc_id acc'"
  shows "\<exists>h1 m1 h2 m2 h3 h4 h5 p x.
    on_login e lnk login password h = Some (h1, m1) \<and> on_login e lnk login' password' h1 = Some (h2, m2) \<and>
    (on_retrieve_account_response now t acc h2 :: 'addr auth_result) = Some (h3, [ToLink lnk login_accepted]) \<and>
    (on_retrieve_account_response now (t + 1) acc' h3 :: 'addr auth_result) = Some (h4, [ToLink lnk login_accepted]) \<and>
    map_option session_token (the_link lnk h4) = Some (t + 1) \<and>
    (auth_on_disconnect now (t + 1) h4 :: 'addr auth_result) = Some (h5, []) \<and>
    session_from_token t (m_sessions h5) = Some p \<and> sessions (m_sessions h5) p = Some x \<and>
    m_state x = LOGGED_IN \<and> m_link x = lnk \<and>
    (\<forall>(evs :: ('addr auth_env \<times> auth_input) list) hn outs.
       auth_run evs h5 = Some (hn, outs) \<and> list_all (\<lambda>(_, ev). \<not> reports_on t ev) evs \<longrightarrow>
       isClientConnectedAnywhere (m_acc_server_acc_id acc) hn = Some True \<and>
       (\<forall>out \<in> set outs. \<forall>m \<in> set out. \<not> names_token t m) \<and>
       (\<forall>now' tok again h' out. tok \<noteq> t \<and> m_acc_server_acc_id again = m_acc_server_acc_id acc \<and>
          (on_retrieve_account_response now' tok again hn :: 'addr auth_result) = Some (h', out) \<longrightarrow>
          (if has_session_for tok (m_sessions hn)
           then \<exists>l. out = [ToLink l (AuthorizationError (if isBlocked again then AUTH_ACCOUNT_BLOCKED else AUTH_ALREADY_LOGGEDIN))]
           else out = [])))"
proof -
  let ?a = "m_acc_server_acc_id acc"
  obtain h1 m1 h2 m2 h3 h4 p q x y where 1:
    "on_login e lnk login password h = Some (h1, m1)" "on_login e lnk login' password' h1 = Some (h2, m2)"
    "(on_retrieve_account_response now t acc h2 :: 'addr auth_result) = Some (h3, [ToLink lnk login_accepted])"
    "(on_retrieve_account_response now (t + 1) acc' h3 :: 'addr auth_result) = Some (h4, [ToLink lnk login_accepted])"
    "map_option session_token (the_link lnk h4) = Some (t + 1)" and l4: "locked ?a t p h4"
    and x: "sessions (m_sessions h4) p = Some x" "m_link x = lnk" "m_state x = LOGGED_IN"
    and y: "session_from_token (t + 1) (m_sessions h4) = Some q" "sessions (m_sessions h4) q = Some y" "m_link y = lnk"
    "is_connected_to_game_server_id y = 0" "q \<in> set (m_active_sessions (m_sessions h4))" "q \<noteq> p"
    by (rule both_logins_accepted [OF assms, of now]) blast
  obtain h5 where 5: "(auth_on_disconnect now (t + 1) h4 :: 'addr auth_result) = Some (h5, [])"
    "sessions (m_sessions h5) = (sessions (m_sessions h4))(q \<mapsto> y\<lparr>m_state := NOT_LOGGED_IN, m_link := 0, is_temporary := False\<rparr>)"
    using disconnect_step [OF y(1-3) assms(4) y(4) 1(5) y(5), of now] by blast
  have l5: "locked ?a t p h5" using locked_on_disconnect [OF l4 5(1)] by simp
  have x5: "sessions (m_sessions h5) p = Some x" "session_from_token t (m_sessions h5) = Some p"
    using x(1) y(6) 5(2) l5 by (auto simp: locked_def stuck_def session_from_token_def)
  have later: "isClientConnectedAnywhere ?a hn = Some True \<and> (\<forall>out \<in> set outs. \<forall>m \<in> set out. \<not> names_token t m) \<and> locked ?a t p hn"
    if "auth_run evs h5 = Some (hn, outs)" "list_all (\<lambda>(_, ev). \<not> reports_on t ev) evs"
    for evs :: "('addr auth_env \<times> auth_input) list" and hn outs
    using locked_run [OF l5 that] locked_connected by blast
  show ?thesis
    by (intro exI conjI allI impI, rule 1(1), rule 1(2), rule 1(3), rule 1(4), rule 1(5), rule 5(1), rule x5(2), rule x5(1), rule x(3), rule x(2))
      (use later locked_response in blast)+
qed

theorem two_logins_lock_account_witness:
  "\<exists>h1 m1 h2 m2 h3 h4 h5 hn outs. on_login test_env 5 test_login test_password connected_handler = Some (h1, m1) \<and>
     on_login test_env 5 test_login test_password h1 = Some (h2, m2) \<and>
     (on_retrieve_account_response 0 1 (test_account 9) h2 :: nat auth_result) = Some (h3, [ToLink 5 login_accepted]) \<and>
     (on_retrieve_account_response 0 2 (test_account 10) h3 :: nat auth_result) = Some (h4, [ToLink 5 login_accepted]) \<and>
     (auth_on_disconnect 0 2 h4 :: nat auth_result) = Some (h5, []) \<and>
     auth_run [(test_env, LinkDeleted 5), (test_env, GameServerStatusMessage test_server)] h5 = Some (hn, outs) \<and>
     isClientConnectedAnywhere 9 hn = Some True"
proof -
  let ?later = "[(test_env, LinkDeleted 5), (test_env, GameServerStatusMessage test_server)]"
  have start: "store_ok (m_sessions connected_handler)" "(1::u64) = s_last_session_id connected_handler" "(1::u64) \<noteq> 0" "(1::u64) + 1 \<noteq> 0"
    "unused_token 1 connected_handler" "\<not> has_session_for (1 + 1) (m_sessions connected_handler)"
    "get_link_stage 5 connected_handler = Some CONNECTED" "test_login ! 13 = 0" "test_password ! 15 = 0" "auth_db_running test_env"
    "2 < length (c_chars test_login)" "test_login ! 13 = 0" "test_password ! 15 = 0" "2 < length (c_chars test_login)"
    "account_exists (test_account 9)" "\<not> isBlocked (test_account 9)" "account_exists (test_account 10)" "\<not> isBlocked (test_account 10)"
    "without_session (m_acc_server_acc_id (test_account 9)) connected_handler"
    "token_for_id (m_acc_server_acc_id (test_account 10)) (m_sessions connected_handler) = 0"
    "m_acc_server_acc_id (test_account 9) \<noteq> m_acc_server_acc_id (test_account 10)" by simp_all
  obtain h1 m1 h2 m2 h3 h4 h5 where 1: "on_login test_env 5 test_login test_password connected_handler = Some (h1, m1)"
    "on_login test_env 5 test_login test_password h1 = Some (h2, m2)"
    "(on_retrieve_account_response 0 1 (test_account 9) h2 :: nat auth_result) = Some (h3, [ToLink 5 login_accepted])"
    "(on_retrieve_account_response 0 2 (test_account 10) h3 :: nat auth_result) = Some (h4, [ToLink 5 login_accepted])"
    "(auth_on_disconnect 0 2 h4 :: nat auth_result) = Some (h5, [])"
    and later: "\<forall>(evs :: (nat auth_env \<times> auth_input) list) hn outs. auth_run evs h5 = Some (hn, outs) \<and>
      list_all (\<lambda>(_, ev). \<not> reports_on 1 ev) evs \<longrightarrow> isClientConnectedAnywhere 9 hn = Some True"
    using two_logins_lock_account [OF start, of 0] by (elim exE conjE) (rule that, simp_all, blast)
  have later': "auth_run ?later h5 = Some (hn, outs) \<Longrightarrow> isClientConnectedAnywhere 9 hn = Some True" for hn outs
    using later [rule_format, of ?later hn outs] by (simp del: auth_run.simps)
  have "\<exists>hn outs. auth_run ?later h5 = Some (hn, outs)" by (simp add: on_server_status_change_def)
  with 1 later' show ?thesis by blast
qed

lemma no_link_no_login:
  assumes "the_link lnk h = None"
  shows "auth_error lnk c h = None" "hand_over q tok lnk h = None"
  using assms by (simp_all add: auth_error_def link_putq_def hand_over_def set_session_token_def)

text \<open>A client that leaves before the database has answered: closing its connection reports a disconnect
  without a token, which changes nothing, so that the waiting session keeps its pointer to the link; whatever the
  answer says, it makes the server follow the pointer to the deleted link.\<close>

theorem client_gone_before_answer:
  fixes e :: "'addr auth_env"
  assumes "store_ok (m_sessions h)" "\<not> has_session_for (s_last_session_id h) (m_sessions h)" "get_link_stage lnk h = Some CONNECTED"
    "login ! 13 = 0" "password ! 15 = 0" "auth_db_running e" "2 < length (c_chars login)" "map_option session_token (the_link lnk h) = Some 0"
  shows "\<exists>h1 m h2. auth_dispatch e (ClientPacket lnk (LoginRequest login password u1 u2)) h = Some (h1, m) \<and>
    auth_dispatch e (LinkClosed lnk) h1 = Some (h1, [PostDisconnect 0]) \<and> auth_dispatch e (DisconnectEvent 0) h1 = Some (h1, []) \<and>
    auth_dispatch e (LinkDeleted lnk) h1 = Some (h2, []) \<and>
    auth_dispatch e (RetrieveAccountResponse (s_last_session_id h) acc) h2 = None"
proof -
  let ?t = "s_last_session_id h" and ?p = "next_session (m_sessions h)"
  obtain h1 x where 1: "on_login e lnk login password h = Some (h1, [RetrieveAccountRequest (c_chars login) (c_chars password) 0 ?t])"
    "m_link x = lnk" "sessions (m_sessions h1) = (sessions (m_sessions h))(?p \<mapsto> x)" "auth_links h1 = auth_links h"
    "map_of (m_token_to_session (m_sessions h1)) = (map_of (m_token_to_session (m_sessions h)))(?t \<mapsto> ?p)"
    using login_step [OF assms(1-7)] by blast
  define h2 where "h2 = h1\<lparr>auth_links := (auth_links h1)(lnk := None)\<rparr>"
  have gone: "the_link lnk (h2\<lparr>m_sessions := st\<rparr>) = None" for st by (simp add: h2_def the_link_def)
  have p: "session_from_token ?t (m_sessions h2) = Some ?p" "sessions (m_sessions h2) ?p = Some x" "has_session_for ?t (m_sessions h2)"
    using 1(3,5) by (simp_all add: h2_def session_from_token_def has_session_for_def)
  have "use_old_session now ?p ?t etok lnk acc (h2\<lparr>m_sessions := st\<rparr>) = (None :: 'addr auth_result)" for now etok st
    by (auto simp: use_old_session_def Option.bind_eq_None_conv protection_expires_def no_link_no_login [OF gone] split: if_splits)
  moreover have "use_waiting_session ?p ?t lnk acc (h2\<lparr>m_sessions := st\<rparr>) = (None :: 'addr auth_result)" for st
    by (simp add: use_waiting_session_def no_link_no_login [OF gone])
  moreover obtain st where st: "unmark_session_for_reaping ?p (m_sessions h2) = Some st" "sessions st ?p = Some x"
    using p(2) by (fastforce simp: unmark_session_for_reaping_def unmarked_for_reaping_def)
  ultimately have "on_retrieve_account_response (time_now e) ?t acc h2 = (None :: 'addr auth_result)"
    using p st 1(2) by (cases "isClientConnectedAnywhere (m_acc_server_acc_id acc) (h2\<lparr>m_sessions := st\<rparr>)")
      (simp_all add: on_retrieve_account_response_def Let_def protection_expires_def no_link_no_login [OF gone])
  moreover have "link_handle_close lnk h1 = (Some (h1, [PostDisconnect 0]) :: 'addr auth_result)"
    using assms(8) 1(4) by (auto simp: link_handle_close_def the_link_def split: if_splits)
  ultimately show ?thesis using 1(1) by (simp add: auth_on_disconnect_def h2_def)
qed

theorem client_gone_before_answer_witness:
  "\<exists>h1 m h2. auth_dispatch test_env (ClientPacket 5 (LoginRequest test_login test_password 0 0)) connected_handler = Some (h1, m) \<and>
     auth_dispatch test_env (LinkDeleted 5) h1 = Some (h2, []) \<and>
     auth_dispatch test_env (RetrieveAccountResponse 1 (test_account 9)) h2 = None"
  using client_gone_before_answer [of connected_handler 5 test_login test_password test_env 0 0 "test_account 9"]
  by (auto simp del: auth_dispatch.simps)

section \<open>Sessions of players\<close>

text \<open>Reaping the first of at most two waiting sessions when it waits with a token that nobody has.\<close>

lemma reap_unknown_token:
  assumes "m_session_ready_for_reaping st = w # ws" "length ws \<le> 1" "limit \<le> now - m_waiting_since w"
    "sessions st (m_session w) = Some x" "map_of (m_token_to_session st) (waiting_token w) = None"
  shows "\<exists>st'. reap_stale_links now limit st = Some ([(waiting_token w, m_link x)], st') \<and>
    m_session_ready_for_reaping st' = ws \<and> sessions st' = sessions st \<and> m_token_to_session st' = m_token_to_session st \<and>
    m_id_to_token st' = AList.delete (auth_id x) (m_id_to_token st) \<and> m_active_sessions st' = m_active_sessions st \<and>
    next_session st' = next_session st \<and> m_session_expecting_clients st' = m_session_expecting_clients st"
proof -
  have "AList.delete (waiting_token w) (m_token_to_session st) = m_token_to_session st"
    using assms(5) by (intro delete_id) (simp add: map_of_eq_None_iff)
  moreover have "swap_pop 0 (w # ws) = ws" using assms(2) by (cases ws) (auto simp: swap_pop_def)
  moreover have "length (w # ws) - 1 \<le> 1" using assms(2) by simp
  ultimately show ?thesis using assms
    by (simp add: reap_stale_links_def reap_loop.simps [of _ _ 0] reap_loop.simps [of _ _ "Suc 0"] Let_def remove_by_token_def
        unmarked_for_reaping_def)
qed

lemma store_ok_cong:
  "store_ok st \<Longrightarrow> m_token_to_session st' = m_token_to_session st \<Longrightarrow> sessions st' = sessions st \<Longrightarrow> next_session st' = next_session st \<Longrightarrow>
   m_active_sessions st' = m_active_sessions st \<Longrightarrow> m_session_expecting_clients st' = m_session_expecting_clients st \<Longrightarrow>
   set (m_session_ready_for_reaping st') \<subseteq> set (m_session_ready_for_reaping st) \<Longrightarrow> store_ok st'"
  by (auto simp: store_ok_def)

text \<open>The session after two reports of the end of a game and a first reaping.\<close>

lemma two_reports:
  assumes "store_ok (m_sessions h)" "session_from_token tok (m_sessions h) = Some p" "sessions (m_sessions h) p = Some x"
    "m_link x = 0" "m_session_ready_for_reaping (m_sessions h) = []" "\<not> has_session_for 0 (m_sessions h)"
    "t1 + auth_link_is_stale_after \<le> t3"
  shows "\<exists>h1 h2 st3 x'. (auth_on_client_disconnected t1 tok 0 h :: 'addr auth_result) = Some (h1, []) \<and>
    (auth_on_client_disconnected t2 tok 0 h1 :: 'addr auth_result) = Some (h2, []) \<and>
    (auth_reap_stale_links t3 h2 :: 'addr auth_result) = Some (h\<lparr>m_sessions := st3\<rparr>, []) \<and> store_ok st3 \<and>
    sessions st3 p = Some x' \<and> auth_id x' = auth_id x \<and> m_link x' = 0 \<and>
    m_session_ready_for_reaping st3 = [\<lparr>m_waiting_since = t2, m_session = p, waiting_token = 0\<rparr>] \<and>
    m_token_to_session st3 = m_token_to_session (m_sessions h) \<and> token_for_id (auth_id x) st3 = 0 \<and>
    next_session st3 = next_session (m_sessions h) \<and> p < next_session st3"
proof -
  let ?st = "m_sessions h" and ?i = "auth_id x" and ?r = "''AuthHandler: GameServer disconnect''"
  define x' where "x' = x\<lparr>is_connected_to_game_server_id := 0\<rparr>"
  have x': "auth_id x' = ?i" "m_link x' = 0" using assms(4) by (simp_all add: x'_def)
  have p: "p < next_session ?st" using assms(1,2) tokens_ok_lookup [of "m_token_to_session ?st" "sessions ?st" "next_session ?st" tok p]
    by (simp add: store_ok_def session_from_token_def)
  define st1 where "st1 = mark_session_for_reaping t1 p 0 ?r (set_session p x' ?st)"
  define st2 where "st2 = mark_session_for_reaping t2 p 0 ?r (set_session p x' st1)"
  let ?w = "\<lambda>t. \<lparr>m_waiting_since = t, m_session = p, waiting_token = 0\<rparr>"
  have st1: "sessions st1 p = Some x'" "session_from_token tok st1 = Some p"
    using assms(2) by (simp_all add: st1_def mark_session_for_reaping_def marked_for_reaping_def set_session_def session_from_token_def)
  have st2: "sessions st2 p = Some x'" "m_token_to_session st2 = m_token_to_session ?st" "m_session_ready_for_reaping st2 = [?w t1, ?w t2]"
    using assms(5) by (simp_all add: st1_def st2_def mark_session_for_reaping_def marked_for_reaping_def set_session_def)
  have d1: "(auth_on_client_disconnected t1 tok 0 h :: 'addr auth_result) = Some (h\<lparr>m_sessions := st1\<rparr>, [])"
    using assms(2,3) by (simp add: auth_on_client_disconnected_def Let_def st1_def x'_def)
  have "x'\<lparr>is_connected_to_game_server_id := 0\<rparr> = x'" by (simp add: x'_def)
  then have d2: "(auth_on_client_disconnected t2 tok 0 (h\<lparr>m_sessions := st1\<rparr>) :: 'addr auth_result) = Some (h\<lparr>m_sessions := st2\<rparr>, [])"
    using st1 by (simp add: auth_on_client_disconnected_def Let_def st2_def)
  have "store_ok (set_session p x' ?st)" using assms(1,3) by (simp add: store_ok_set)
  then have "store_ok st1" unfolding st1_def by (rule store_ok_mark) (simp add: set_session_def p)
  then have "store_ok (set_session p x' st1)" using st1(1) by (simp add: store_ok_set)
  then have ok2: "store_ok st2" unfolding st2_def by (rule store_ok_mark) (simp add: st1_def mark_session_for_reaping_def marked_for_reaping_def set_session_def p)
  have none: "map_of (m_token_to_session ?st) 0 = None" using assms(6) by (simp add: has_session_for_def)
  obtain st3 where 3: "reap_stale_links t3 auth_link_is_stale_after st2 = Some ([(0, 0)], st3)" "m_session_ready_for_reaping st3 = [?w t2]"
    "sessions st3 = sessions st2" "m_token_to_session st3 = m_token_to_session ?st" "m_id_to_token st3 = AList.delete ?i (m_id_to_token st2)"
    "m_active_sessions st3 = m_active_sessions st2" "next_session st3 = next_session st2"
    "m_session_expecting_clients st3 = m_session_expecting_clients st2"
    using reap_unknown_token [OF st2(3), of auth_link_is_stale_after t3 x'] st2(1,2) assms(7) none x' by auto
  define h3 where "h3 = h\<lparr>m_sessions := st3\<rparr>"
  have r3: "(auth_reap_stale_links t3 (h\<lparr>m_sessions := st2\<rparr>) :: 'addr auth_result) = Some (h3, [])"
    using 3(1) by (simp add: auth_reap_stale_links_def h3_def)
  have ok3: "store_ok (m_sessions h3)"
    using store_ok_cong [OF ok2 _ 3(3,7,6,8)] 3(2,4) st2(2,3) by (simp add: h3_def)
  have "token_for_id ?i st3 = 0" using 3(5) by (simp add: token_for_id_def delete_conv')
  moreover have "next_session st3 = next_session ?st"
    using 3(7) by (simp add: st1_def st2_def mark_session_for_reaping_def marked_for_reaping_def set_session_def)
  ultimately show ?thesis using d1 d2 r3 ok3 3(2-4) st2(1) x' p unfolding h3_def by fastforce
qed

text \<open>The game server reports the end of a game without a session token, twice. The session is put on the list
  to reap under the number 0, so that reaping forgets the token of the account but keeps the session. The player
  logs in again; the second report then makes the server forget the token of the new session, and the account,
  which is logged in, does not count as connected any more, so that it can log in once more.\<close>

theorem played_account_logs_in_twice:
  fixes e :: "'addr auth_env"
  assumes "store_ok (m_sessions h)" "session_from_token tok (m_sessions h) = Some p" "sessions (m_sessions h) p = Some x"
    "auth_id x = m_acc_server_acc_id acc" "m_link x = 0" "m_session_ready_for_reaping (m_sessions h) = []" "\<not> has_session_for 0 (m_sessions h)"
    "\<not> has_session_for (s_last_session_id h) (m_sessions h)" "s_last_session_id h \<noteq> 0"
    "get_link_stage lnk h = Some CONNECTED" "login ! 13 = 0" "password ! 15 = 0" "auth_db_running e" "2 < length (c_chars login)"
    "account_exists acc" "\<not> isBlocked acc" "t1 + auth_link_is_stale_after \<le> t3" "t2 + auth_link_is_stale_after \<le> t4"
  shows "\<exists>h1 h2 h3 m h4 h5 h6 q y.
    (auth_on_client_disconnected t1 tok 0 h :: 'addr auth_result) = Some (h1, []) \<and>
    (auth_on_client_disconnected t2 tok 0 h1 :: 'addr auth_result) = Some (h2, []) \<and>
    (auth_reap_stale_links t3 h2 :: 'addr auth_result) = Some (h3, []) \<and> session_from_token tok (m_sessions h3) = Some p \<and>
    on_login e lnk login password h3 = Some (h4, m) \<and>
    (on_retrieve_account_response now (s_last_session_id h) acc h4 :: 'addr auth_result) = Some (h5, [ToLink lnk login_accepted]) \<and>
    (auth_reap_stale_links t4 h5 :: 'addr auth_result) = Some (h6, []) \<and>
    session_from_token (s_last_session_id h) (m_sessions h6) = Some q \<and> sessions (m_sessions h6) q = Some y \<and>
    m_state y = LOGGED_IN \<and> auth_id y = m_acc_server_acc_id acc \<and>
    isClientConnectedAnywhere (m_acc_server_acc_id acc) h6 = Some False"
proof -
  let ?st = "m_sessions h" and ?i = "m_acc_server_acc_id acc" and ?w = "\<lambda>t. \<lparr>m_waiting_since = t, m_session = p, waiting_token = 0\<rparr>"
  obtain h1 h2 st3 x' where d: "(auth_on_client_disconnected t1 tok 0 h :: 'addr auth_result) = Some (h1, [])"
    "(auth_on_client_disconnected t2 tok 0 h1 :: 'addr auth_result) = Some (h2, [])"
    "(auth_reap_stale_links t3 h2 :: 'addr auth_result) = Some (h\<lparr>m_sessions := st3\<rparr>, [])"
    and 3: "store_ok st3" "sessions st3 p = Some x'" "m_session_ready_for_reaping st3 = [?w t2]"
    "m_token_to_session st3 = m_token_to_session ?st" "token_for_id ?i st3 = 0" "next_session st3 = next_session ?st" "p < next_session st3"
    and x': "auth_id x' = ?i" "m_link x' = 0"
    using two_reports [OF assms(1-3,5-7,17), of t2] unfolding assms(4) by blast
  define h3 where "h3 = h\<lparr>m_sessions := st3\<rparr>"
  have h3s: "m_sessions h3 = st3" "s_last_session_id h3 = s_last_session_id h" "get_link_stage lnk h3 = Some CONNECTED"
    using assms(10) by (simp_all add: h3_def)
  let ?q = "next_session ?st" and ?t = "s_last_session_id h"
  have "store_ok (m_sessions h3)" "\<not> has_session_for (s_last_session_id h3) (m_sessions h3)" "s_last_session_id h3 \<noteq> 0"
    "token_for_id ?i (m_sessions h3) = 0"
    using assms(8,9) 3(1,4,5) by (simp_all add: h3s has_session_for_def)
  note run = login_run [OF this(1-3) h3s(3) assms(11-16) this(4), of now, unfolded h3s(1,2) 3(3,4,6)]
  obtain h4 h5 y where 5: "on_login e lnk login password h3 = Some (h4, [RetrieveAccountRequest (c_chars login) (c_chars password) 0 ?t])"
    "(on_retrieve_account_response now ?t acc h4 :: 'addr auth_result) = Some (h5, [ToLink lnk login_accepted])"
    "sessions (m_sessions h5) = (sessions st3)(?q \<mapsto> y)" "m_state y = LOGGED_IN" "auth_id y = ?i"
    "map_of (m_token_to_session (m_sessions h5)) = (map_of (m_token_to_session ?st))(?t \<mapsto> ?q)"
    "m_session_ready_for_reaping (m_sessions h5) = [?w t2]"
    using run by blast
  have w5: "sessions (m_sessions h5) p = Some x'" "map_of (m_token_to_session (m_sessions h5)) 0 = None"
    using 5(3,6) 3(2,6,7) assms(7,9) by (auto simp: has_session_for_def)
  obtain st6 where 6: "reap_stale_links t4 auth_link_is_stale_after (m_sessions h5) = Some ([(0, 0)], st6)"
    "sessions st6 = sessions (m_sessions h5)" "m_token_to_session st6 = m_token_to_session (m_sessions h5)"
    "m_id_to_token st6 = AList.delete ?i (m_id_to_token (m_sessions h5))"
    using reap_unknown_token [OF 5(7), of auth_link_is_stale_after t4 x'] w5 assms(18) x' by auto
  define h6 where "h6 = h5\<lparr>m_sessions := st6\<rparr>"
  have "(auth_reap_stale_links t4 h5 :: 'addr auth_result) = Some (h6, [])" using 6(1) by (simp add: auth_reap_stale_links_def h6_def)
  moreover have "isClientConnectedAnywhere ?i h6 = Some False"
    using 6(4) by (simp add: isClientConnectedAnywhere_def token_for_id_def h6_def delete_conv')
  moreover have "session_from_token tok (m_sessions h3) = Some p" "session_from_token ?t (m_sessions h6) = Some ?q"
    "sessions (m_sessions h6) ?q = Some y"
    using assms(2) 3(4) 5(3,6) 6(2,3) by (simp_all add: session_from_token_def h3s h6_def)
  ultimately show ?thesis using d 5(1,2,4,5) unfolding h3_def by blast
qed

text \<open>A handler with the session 1 of a played account.\<close>

definition playing_handler :: auth_handler where
  "playing_handler = connected_handler\<lparr>m_sessions := set_session 1 (blank_auth_session\<lparr>m_session_token := 7, auth_id := 9\<rparr>)
     (snd (the (create_session blank_auth_session 7 new_store)))\<rparr>"

lemma playing_store: "store_ok (m_sessions playing_handler)"
proof -
  have "create_session blank_auth_session 7 new_store = Some (1, snd (the (create_session blank_auth_session 7 new_store)))"
    by (simp add: create_session_def Let_def) (simp add: new_store_def)
  from store_ok_create [OF store_ok_new this] show ?thesis by (simp add: playing_handler_def store_ok_set)
qed

theorem played_account_logs_in_twice_witness:
  "\<exists>h1 h2 h3 m h4 h5 h6. (auth_on_client_disconnected 0 7 0 playing_handler :: nat auth_result) = Some (h1, []) \<and>
     (auth_on_client_disconnected 1000000 7 0 h1 :: nat auth_result) = Some (h2, []) \<and> (auth_reap_stale_links 2000000 h2 :: nat auth_result) = Some (h3, []) \<and>
     on_login test_env 5 test_login test_password h3 = Some (h4, m) \<and>
     (on_retrieve_account_response 2500000 1 (test_account 9) h4 :: nat auth_result) = Some (h5, [ToLink 5 login_accepted]) \<and>
     (auth_reap_stale_links 3000000 h5 :: nat auth_result) = Some (h6, []) \<and> isClientConnectedAnywhere 9 h6 = Some False"
proof -
  let ?x = "blank_auth_session\<lparr>m_session_token := 7, auth_id := 9\<rparr>"
  have st: "m_token_to_session (m_sessions playing_handler) = [(7, 1)]" "sessions (m_sessions playing_handler) 1 = Some ?x"
    "m_session_ready_for_reaping (m_sessions playing_handler) = []" "s_last_session_id playing_handler = 1"
    "get_link_stage 5 playing_handler = Some CONNECTED"
    by (simp_all add: playing_handler_def create_session_def Let_def set_session_def) (simp_all add: new_store_def)
  have "session_from_token 7 (m_sessions playing_handler) = Some 1" "\<not> has_session_for 0 (m_sessions playing_handler)"
    "\<not> has_session_for 1 (m_sessions playing_handler)"
    by (simp_all add: session_from_token_def has_session_for_def st)
  from played_account_logs_in_twice [OF playing_store this(1) st(2) _ _ st(3) this(2), of "test_account 9" 5 test_login test_password
      test_env 0 2000000 1000000 3000000 2500000] this(3) st(4,5)
  show ?thesis by (auto simp: blank_auth_session_def auth_link_is_stale_after_def)
qed

end
