(* ===== verification/Power_Model.thy ===== *)
theory Power_Model
  imports Complex_Main Prelude
begin

text \<open>
  What a character owns: powers with their enhancement slots, the tray of inspirations and the
  tray of loose enhancements (\<^verbatim>\<open>Common/GameData/Powers.h\<close>, \<^verbatim>\<open>Powers.cpp\<close>, \<^verbatim>\<open>CharacterData.h\<close>).

  Positions and sizes are natural numbers: they are \<open>uint32_t\<close> that are only compared and used as
  indices. An access outside a container is \<open>None\<close>, both for the unchecked \<open>operator[]\<close> and for the
  \<open>at\<close> of a vector, which throws. A pointer the code returns is an \<open>option\<close> inside that: \<open>Some None\<close>
  is the null pointer. Of the static data of a power the model keeps the members this code reads;
  \<open>float\<close> members are only copied or compared and are rational numbers.
\<close>

section \<open>The data\<close>

record power_pool_info =
  m_pcat_idx :: nat
  m_pset_idx :: nat
  m_pow_idx :: nat

record power_data =
  power_name :: text_bytes
  parent_StoredPowerSet :: nat
  ActivatePeriod :: rat
  m_NumCharges :: int
  m_UsageTime :: rat
  BoostsAllowed :: "u32 list"

record parse_power_set =
  pset_name :: text_bytes
  pset_Powers :: "power_data list"
  Available :: "int list"

record stored_power_category =
  pcat_name :: text_bytes
  m_PowerSets :: "parse_power_set list"

record game_data =
  m_categories :: "stored_power_category list"
  m_FreeBoostSlotsOnPower :: "nat list"
  CombineChances_same :: "rat list"
  CombineChances :: "rat list"

record character_inspiration =
  m_insp_info :: power_pool_info
  m_insp_tpl :: power_data
  insp_name :: text_bytes
  m_col :: nat
  m_row :: nat
  m_has_insp :: bool

record character_enhancement =
  m_enhance_info :: power_pool_info
  m_enhance_tpl :: power_data
  m_slot_idx :: nat
  enhance_name :: text_bytes
  enhance_level :: u32
  m_num_combines :: u32
  m_slot_used :: bool

record character_power =
  m_power_info :: power_pool_info
  pow_index :: nat
  pow_level_bought :: u32
  m_total_eh_slots :: nat
  m_charges_remaining :: u32
  m_activate_period :: rat
  m_usage_time :: rat
  m_is_limited :: bool
  pow_enhancements :: "character_enhancement list"

record character_power_set =
  pset_index :: nat
  pset_category :: nat
  pset_level_bought :: u32
  m_powers :: "character_power list"

record character_data =
  char_level :: u32
  m_influence :: u32
  m_powersets :: "character_power_set list"
  m_inspirations :: "character_inspiration list list"
  m_enhancements :: "character_enhancement list"
  m_max_insp_cols :: nat
  m_max_insp_rows :: nat
  m_has_updated_powers :: bool
  m_reset_powersets :: bool

text \<open>The values of the default constructors.\<close>

definition no_power_info :: power_pool_info where
  "no_power_info = \<lparr>m_pcat_idx = 0, m_pset_idx = 0, m_pow_idx = 0\<rparr>"

definition no_power_data :: power_data where
  "no_power_data = \<lparr>power_name = [], parent_StoredPowerSet = 0, ActivatePeriod = 0, m_NumCharges = 0, m_UsageTime = 0,
    BoostsAllowed = []\<rparr>"

definition new_inspiration :: character_inspiration where
  "new_inspiration = \<lparr>m_insp_info = no_power_info, m_insp_tpl = no_power_data, insp_name = [], m_col = 0, m_row = 0,
    m_has_insp = False\<rparr>"

definition new_enhancement :: character_enhancement where
  "new_enhancement = \<lparr>m_enhance_info = no_power_info, m_enhance_tpl = no_power_data, m_slot_idx = 0, enhance_name = [],
    enhance_level = 0, m_num_combines = 0, m_slot_used = False\<rparr>"

section \<open>Access by index\<close>

definition fetch :: "'a list \<Rightarrow> nat \<Rightarrow> 'a option" where
  "fetch xs i = (if i < length xs then Some (xs ! i) else None)"

definition store :: "'a list \<Rightarrow> nat \<Rightarrow> 'a \<Rightarrow> 'a list option" where
  "store xs i x = (if i < length xs then Some (xs[i := x]) else None)"

lemma fetch_Some [simp]: "fetch xs i = Some x \<longleftrightarrow> i < length xs \<and> x = xs ! i"
  by (auto simp: fetch_def)

lemma fetch_None [simp]: "fetch xs i = None \<longleftrightarrow> length xs \<le> i"
  by (auto simp: fetch_def)

lemma store_Some [simp]: "store xs i x = Some ys \<longleftrightarrow> i < length xs \<and> ys = xs[i := x]"
  by (auto simp: store_def)

text \<open>\<open>vInspirations\<close>: the columns, each with its rows.\<close>

definition insp_at :: "character_inspiration list list \<Rightarrow> nat \<Rightarrow> nat \<Rightarrow> character_inspiration option" where
  "insp_at g col row = do { c \<leftarrow> fetch g col; fetch c row }"

definition insp_set :: "character_inspiration list list \<Rightarrow> nat \<Rightarrow> nat \<Rightarrow> character_inspiration \<Rightarrow>
    character_inspiration list list option" where
  "insp_set g col row i = do { c \<leftarrow> fetch g col; c \<leftarrow> store c row i; store g col c }"

section \<open>Finding powers by name\<close>

text \<open>The loop with its counter; what is not found has index 0.\<close>

fun index_by_name :: "text_bytes \<Rightarrow> nat \<Rightarrow> text_bytes list \<Rightarrow> nat" where
  "index_by_name nm idx [] = 0"
| "index_by_name nm idx (n # ns) = (if equal_ignoring_case nm n then idx else index_by_name nm (idx + 1) ns)"

definition get_power_category :: "game_data \<Rightarrow> nat \<Rightarrow> stored_power_category option" where
  "get_power_category gd pcat = fetch (m_categories gd) pcat"

definition get_powerset :: "game_data \<Rightarrow> nat \<Rightarrow> nat \<Rightarrow> parse_power_set option" where
  "get_powerset gd pcat pset = do { c \<leftarrow> fetch (m_categories gd) pcat; fetch (m_PowerSets c) pset }"

definition get_power_template :: "game_data \<Rightarrow> nat \<Rightarrow> nat \<Rightarrow> nat \<Rightarrow> power_data option" where
  "get_power_template gd pcat pset pow =
    do { c \<leftarrow> fetch (m_categories gd) pcat; s \<leftarrow> fetch (m_PowerSets c) pset; fetch (pset_Powers s) pow }"

definition getPowerTemplate :: "game_data \<Rightarrow> character_power \<Rightarrow> power_data option" where
  "getPowerTemplate gd p =
    get_power_template gd (m_pcat_idx (m_power_info p)) (m_pset_idx (m_power_info p)) (m_pow_idx (m_power_info p))"

definition getPowerCatByName :: "game_data \<Rightarrow> text_bytes \<Rightarrow> nat" where
  "getPowerCatByName gd nm = index_by_name nm 0 (map pcat_name (m_categories gd))"

definition getPowerSetByName :: "game_data \<Rightarrow> text_bytes \<Rightarrow> nat \<Rightarrow> nat option" where
  "getPowerSetByName gd nm pcat = do {
     c \<leftarrow> get_power_category gd pcat;
     Some (index_by_name nm 0 (map pset_name (m_PowerSets c))) }"

definition getPowerByName :: "game_data \<Rightarrow> text_bytes \<Rightarrow> nat \<Rightarrow> nat \<Rightarrow> nat option" where
  "getPowerByName gd nm pcat pset = do {
     s \<leftarrow> get_powerset gd pcat pset;
     Some (index_by_name nm 0 (map power_name (pset_Powers s))) }"

section \<open>Inspirations\<close>

text \<open>The two loops over rows and columns, as the list of cells they visit.\<close>

definition cells :: "nat \<Rightarrow> nat \<Rightarrow> (nat \<times> nat) list" where
  "cells max_cols max_rows = concat (map (\<lambda>row. map (\<lambda>col. (col, row)) [0..<max_cols]) [0..<max_rows])"

fun addInspiration_loop :: "(nat \<times> nat) list \<Rightarrow> character_inspiration \<Rightarrow> character_data \<Rightarrow> character_data option" where
  "addInspiration_loop [] insp cd = Some cd"
| "addInspiration_loop ((col, row) # cs) insp cd = do {
     i \<leftarrow> insp_at (m_inspirations cd) col row;
     if m_has_insp i then addInspiration_loop cs insp cd
     else do {
       g \<leftarrow> insp_set (m_inspirations cd) col row (insp\<lparr>m_col := col, m_row := row, m_has_insp := True\<rparr>);
       Some (cd\<lparr>m_inspirations := g, m_has_updated_powers := True\<rparr>) } }"

definition addInspirationToChar :: "character_inspiration \<Rightarrow> character_data \<Rightarrow> character_data option" where
  "addInspirationToChar insp cd = addInspiration_loop (cells (m_max_insp_cols cd) (m_max_insp_rows cd)) insp cd"

definition getInspiration :: "nat \<Rightarrow> nat \<Rightarrow> character_data \<Rightarrow> character_inspiration option option" where
  "getInspiration col row cd =
    (if col \<ge> m_max_insp_cols cd then Some None
     else if row \<ge> m_max_insp_rows cd then Some None
     else do { i \<leftarrow> insp_at (m_inspirations cd) col row; Some (if m_has_insp i then Some i else None) })"

fun countInspirations_loop :: "(nat \<times> nat) list \<Rightarrow> nat \<Rightarrow> character_data \<Rightarrow> nat option" where
  "countInspirations_loop [] count cd = Some count"
| "countInspirations_loop ((col, row) # cs) count cd = do {
     i \<leftarrow> insp_at (m_inspirations cd) col row;
     countInspirations_loop cs (if m_has_insp i then count + 1 else count) cd }"

definition getNumberInspirations :: "character_data \<Rightarrow> nat option" where
  "getNumberInspirations cd = countInspirations_loop (cells (m_max_insp_cols cd) (m_max_insp_rows cd)) 0 cd"

definition getMaxNumberInspirations :: "character_data \<Rightarrow> nat" where
  "getMaxNumberInspirations cd = m_max_insp_cols cd * m_max_insp_rows cd"

text \<open>
  Removing calls moving for every row that follows, and moving calls removing for a destination
  outside the tray. The maxima never change, so they are arguments; \<open>shift_insp\<close> is the loop of
  \<open>removeInspiration\<close> from row \<open>j\<close> on.
\<close>

function remove_insp :: "nat \<Rightarrow> nat \<Rightarrow> nat \<Rightarrow> nat \<Rightarrow> character_inspiration list list \<Rightarrow> character_inspiration list list option"
  and shift_insp :: "nat \<Rightarrow> nat \<Rightarrow> nat \<Rightarrow> nat \<Rightarrow> character_inspiration list list \<Rightarrow> character_inspiration list list option"
  and move_insp :: "nat \<Rightarrow> nat \<Rightarrow> nat \<Rightarrow> nat \<Rightarrow> nat \<Rightarrow> nat \<Rightarrow> character_inspiration list list \<Rightarrow> character_inspiration list list option" where
  "remove_insp max_cols max_rows col row g = do {
     g \<leftarrow> insp_set g col row (new_inspiration\<lparr>m_col := col, m_row := row\<rparr>);
     shift_insp max_cols max_rows col row g }"
| "shift_insp max_cols max_rows col j g =
    (if j < max_rows then
       if j + 1 \<ge> max_rows then Some g
       else do { g \<leftarrow> move_insp max_cols max_rows col (j + 1) col j g; shift_insp max_cols max_rows col (j + 1) g }
     else Some g)"
| "move_insp max_cols max_rows src_col src_row dest_col dest_row g =
    (if dest_col > max_cols \<or> dest_row > max_rows then remove_insp max_cols max_rows src_col src_row g
     else do {
       s \<leftarrow> insp_at g src_col src_row; g \<leftarrow> insp_set g src_col src_row (s\<lparr>m_col := dest_col, m_row := dest_row\<rparr>);
       d \<leftarrow> insp_at g dest_col dest_row; g \<leftarrow> insp_set g dest_col dest_row (d\<lparr>m_col := src_col, m_row := src_row\<rparr>);
       s \<leftarrow> insp_at g src_col src_row; d \<leftarrow> insp_at g dest_col dest_row;
       g \<leftarrow> insp_set g src_col src_row d; insp_set g dest_col dest_row s })"
  by pat_completeness auto
termination
  by (relation "measures [\<lambda>x. case x of Inl (_, r, _, row, _) \<Rightarrow> r - row | Inr (Inl (_, r, _, j, _)) \<Rightarrow> r - j
        | Inr (Inr (_, r, _, sr, _, _, _)) \<Rightarrow> r - sr,
      \<lambda>x. case x of Inl _ \<Rightarrow> 1 | Inr (Inl _) \<Rightarrow> 0 | Inr (Inr _) \<Rightarrow> 2]") auto

declare remove_insp.simps [simp del] shift_insp.simps [simp del] move_insp.simps [simp del]

definition moveInspiration :: "nat \<Rightarrow> nat \<Rightarrow> nat \<Rightarrow> nat \<Rightarrow> character_data \<Rightarrow> character_data option" where
  "moveInspiration src_col src_row dest_col dest_row cd = do {
     g \<leftarrow> move_insp (m_max_insp_cols cd) (m_max_insp_rows cd) src_col src_row dest_col dest_row (m_inspirations cd);
     Some (cd\<lparr>m_inspirations := g, m_has_updated_powers := True\<rparr>) }"

definition removeInspiration :: "nat \<Rightarrow> nat \<Rightarrow> character_data \<Rightarrow> character_data option" where
  "removeInspiration col row cd = do {
     g \<leftarrow> remove_insp (m_max_insp_cols cd) (m_max_insp_rows cd) col row (m_inspirations cd);
     Some (cd\<lparr>m_inspirations := g, m_has_updated_powers := True\<rparr>) }"

text \<open>The search of \<open>addInspirationByName\<close> leaves the inner loop only: a later set with the name wins.\<close>

fun find_inspiration :: "text_bytes \<Rightarrow> nat \<Rightarrow> parse_power_set list \<Rightarrow> (nat \<times> nat \<times> power_data) option \<Rightarrow> (nat \<times> nat \<times> power_data) option" where
  "find_inspiration nm i [] found = found"
| "find_inspiration nm i (s # ss) found =
    find_inspiration nm (i + 1) ss
      (case find (\<lambda>j. equal_ignoring_case nm (power_name (pset_Powers s ! j))) [0..<length (pset_Powers s)] of
         None \<Rightarrow> found | Some j \<Rightarrow> Some (i, j, pset_Powers s ! j))"

definition bytes_of :: "string \<Rightarrow> text_bytes" where
  "bytes_of s = map (\<lambda>c. of_nat (of_char c)) s"

definition addInspirationByName :: "game_data \<Rightarrow> text_bytes \<Rightarrow> character_data \<Rightarrow> character_data option" where
  "addInspirationByName gd nm cd = do {
     let pcat_idx = getPowerCatByName gd (bytes_of ''Inspirations'');
     c \<leftarrow> get_power_category gd pcat_idx;
     case find_inspiration nm 0 (m_PowerSets c) None of
       None \<Rightarrow> Some cd
     | Some (pset_idx, pow_idx, pow) \<Rightarrow>
         addInspirationToChar (new_inspiration\<lparr>m_insp_tpl := pow, m_has_insp := True, insp_name := nm,
           m_insp_info := \<lparr>m_pcat_idx = pcat_idx, m_pset_idx = pset_idx, m_pow_idx = pow_idx\<rparr>\<rparr>) cd }"

section \<open>Loose enhancements\<close>

fun addEnhancement_loop :: "nat \<Rightarrow> character_enhancement \<Rightarrow> character_enhancement list \<Rightarrow> character_enhancement list option" where
  "addEnhancement_loop idx enh [] = None"
| "addEnhancement_loop idx enh (e # es) =
    (if \<not> m_slot_used e then Some (enh\<lparr>m_slot_idx := idx, m_slot_used := True\<rparr> # es)
     else map_option ((#) e) (addEnhancement_loop (idx + 1) enh es))"

definition addEnhancementToChar :: "character_enhancement \<Rightarrow> character_data \<Rightarrow> character_data" where
  "addEnhancementToChar enh cd =
    (case addEnhancement_loop 0 enh (m_enhancements cd) of
       None \<Rightarrow> cd
     | Some es \<Rightarrow> cd\<lparr>m_enhancements := es, m_has_updated_powers := True\<rparr>)"

definition getEnhancement :: "nat \<Rightarrow> character_data \<Rightarrow> character_enhancement option" where
  "getEnhancement idx cd =
    (if idx \<ge> length (m_enhancements cd) then None
     else let enh = m_enhancements cd ! idx in if m_slot_used enh then Some enh else None)"

definition getNumberEnhancements :: "character_data \<Rightarrow> nat" where
  "getNumberEnhancements cd = length (filter m_slot_used (m_enhancements cd))"

definition getMaxNumberEnhancements :: "character_data \<Rightarrow> nat" where
  "getMaxNumberEnhancements cd = length (m_enhancements cd)"

definition addEnhancementByName :: "game_data \<Rightarrow> text_bytes \<Rightarrow> u32 \<Rightarrow> character_data \<Rightarrow> character_data option" where
  "addEnhancementByName gd nm level cd =
    (let pcat_idx = getPowerCatByName gd (bytes_of ''Boosts'') in
     if getNumberEnhancements cd = length (m_enhancements cd) then Some cd
     else do {
       c \<leftarrow> get_power_category gd pcat_idx;
       case find (\<lambda>i. equal_ignoring_case nm (pset_name (m_PowerSets c ! i))) [0..<length (m_PowerSets c)] of
         None \<Rightarrow> Some cd
       | Some i \<Rightarrow> do {
           tpl \<leftarrow> fetch (pset_Powers (m_PowerSets c ! i)) 0;
           Some (addEnhancementToChar (new_enhancement\<lparr>m_enhance_tpl := tpl, m_slot_used := True, enhance_name := nm,
             enhance_level := level, m_enhance_info := \<lparr>m_pcat_idx = pcat_idx, m_pset_idx = i, m_pow_idx = 0\<rparr>\<rparr>) cd) } })"

definition moveEnhancement :: "nat \<Rightarrow> nat \<Rightarrow> character_data \<Rightarrow> character_data option" where
  "moveEnhancement src_idx dest_idx cd = do {
     s \<leftarrow> fetch (m_enhancements cd) src_idx; es \<leftarrow> store (m_enhancements cd) src_idx (s\<lparr>m_slot_idx := dest_idx\<rparr>);
     d \<leftarrow> fetch es dest_idx; es \<leftarrow> store es dest_idx (d\<lparr>m_slot_idx := src_idx\<rparr>);
     s \<leftarrow> fetch es src_idx; d \<leftarrow> fetch es dest_idx;
     es \<leftarrow> store es src_idx d; es \<leftarrow> store es dest_idx s;
     Some (cd\<lparr>m_enhancements := es, m_has_updated_powers := True\<rparr>) }"

definition trashEnhancement :: "nat \<Rightarrow> character_data \<Rightarrow> character_data option" where
  "trashEnhancement eh_idx cd = do {
     es \<leftarrow> store (m_enhancements cd) eh_idx (new_enhancement\<lparr>m_slot_idx := eh_idx\<rparr>);
     Some (cd\<lparr>m_enhancements := es, m_has_updated_powers := True\<rparr>) }"

end
