(* ===== verification/Power_Sets.thy ===== *)
theory Power_Sets
  imports Power_Model
begin

text \<open>
  Power sets, powers and the enhancements set into powers (\<^verbatim>\<open>Common/GameData/Powers.cpp\<close>), the ways
  a new character gets powers (\<^verbatim>\<open>Character.cpp\<close>), and the handlers of the map server that
  change them (\<^verbatim>\<open>MapInstance.cpp\<close>).
\<close>

section \<open>Owned powers\<close>

definition getPowerData :: "game_data \<Rightarrow> power_pool_info \<Rightarrow> character_power option" where
  "getPowerData gd ppool = do {
     power \<leftarrow> get_power_template gd (m_pcat_idx ppool) (m_pset_idx ppool) (m_pow_idx ppool);
     Some \<lparr>m_power_info = ppool, pow_index = m_pow_idx ppool, pow_level_bought = 0, m_total_eh_slots = 0,
       m_charges_remaining = of_int (m_NumCharges power), m_activate_period = ActivatePeriod power, m_usage_time = m_UsageTime power,
       m_is_limited = (m_NumCharges power > 0), pow_enhancements = []\<rparr> }"

definition new_power_set :: character_power_set where
  "new_power_set = \<lparr>pset_index = 0, pset_category = 0, pset_level_bought = 0, m_powers = []\<rparr>"

fun getPowers_loop :: "game_data \<Rightarrow> power_pool_info \<Rightarrow> nat list \<Rightarrow> character_power list \<Rightarrow> character_power list option" where
  "getPowers_loop gd ppool [] ps = Some ps"
| "getPowers_loop gd ppool (i # is) ps = do {
     p \<leftarrow> getPowerData gd (ppool\<lparr>m_pow_idx := i\<rparr>); getPowers_loop gd (ppool\<lparr>m_pow_idx := i\<rparr>) is (ps @ [p]) }"

definition getPowerSetData :: "game_data \<Rightarrow> power_pool_info \<Rightarrow> character_power_set option" where
  "getPowerSetData gd ppool = do {
     s \<leftarrow> get_powerset gd (m_pcat_idx ppool) (m_pset_idx ppool);
     ps \<leftarrow> getPowers_loop gd ppool [0..<length (pset_Powers s)] [];
     Some (new_power_set\<lparr>m_powers := ps\<rparr>) }"

fun getOwnedPowerIndexes_loop :: "power_pool_info \<Rightarrow> nat \<Rightarrow> character_power_set list \<Rightarrow> nat \<times> nat" where
  "getOwnedPowerIndexes_loop ppool i [] = (0, 0)"
| "getOwnedPowerIndexes_loop ppool i (s # ss) =
    (case find (\<lambda>j. m_power_info (m_powers s ! j) = ppool) [0..<length (m_powers s)] of
       None \<Rightarrow> getOwnedPowerIndexes_loop ppool (i + 1) ss
     | Some j \<Rightarrow> (i, j))"

definition getOwnedPowerIndexes :: "power_pool_info \<Rightarrow> character_data \<Rightarrow> nat \<times> nat" where
  "getOwnedPowerIndexes ppool cd = getOwnedPowerIndexes_loop ppool 0 (m_powersets cd)"

text \<open>A pointer to an owned power is its pair of indices. The power at the index one past the last
  passes the check, and the access to it throws.\<close>

definition power_at :: "character_data \<Rightarrow> nat \<Rightarrow> nat \<Rightarrow> character_power option" where
  "power_at cd pset_idx pow_idx = do { s \<leftarrow> fetch (m_powersets cd) pset_idx; fetch (m_powers s) pow_idx }"

definition set_power :: "nat \<Rightarrow> nat \<Rightarrow> character_power \<Rightarrow> character_data \<Rightarrow> character_data option" where
  "set_power pset_idx pow_idx p cd = do {
     s \<leftarrow> fetch (m_powersets cd) pset_idx; ps \<leftarrow> store (m_powers s) pow_idx p;
     ss \<leftarrow> store (m_powersets cd) pset_idx (s\<lparr>m_powers := ps\<rparr>); Some (cd\<lparr>m_powersets := ss\<rparr>) }"

definition getOwnedPowerByVecIdx :: "nat \<Rightarrow> nat \<Rightarrow> character_data \<Rightarrow> (nat \<times> nat) option option" where
  "getOwnedPowerByVecIdx pset_idx pow_idx cd =
    (if pset_idx \<ge> length (m_powersets cd) then Some None
     else if pow_idx > length (m_powers (m_powersets cd ! pset_idx)) then Some None
     else map_option (\<lambda>_. Some (pset_idx, pow_idx)) (power_at cd pset_idx pow_idx))"

definition getOwnedPowerByTpl :: "power_pool_info \<Rightarrow> character_data \<Rightarrow> (nat \<times> nat) option option" where
  "getOwnedPowerByTpl ppool cd = (let (i, j) = getOwnedPowerIndexes ppool cd in getOwnedPowerByVecIdx i j cd)"

definition addPowerSet :: "power_pool_info \<Rightarrow> character_data \<Rightarrow> character_data" where
  "addPowerSet ppool cd = cd\<lparr>m_powersets := m_powersets cd @ [new_power_set\<lparr>pset_level_bought := char_level cd,
     pset_index := m_pset_idx ppool, pset_category := m_pcat_idx ppool\<rparr>],
     m_has_updated_powers := True, m_reset_powersets := True\<rparr>"

definition addEntirePowerSet :: "game_data \<Rightarrow> power_pool_info \<Rightarrow> character_data \<Rightarrow> character_data option" where
  "addEntirePowerSet gd ppool cd = do {
     pset \<leftarrow> getPowerSetData gd ppool;
     Some (cd\<lparr>m_powersets := m_powersets cd @ [pset\<lparr>pset_level_bought := char_level cd,
       pset_index := m_pset_idx ppool, pset_category := m_pcat_idx ppool\<rparr>],
       m_has_updated_powers := True, m_reset_powersets := True\<rparr>) }"

section \<open>Slots for enhancements\<close>

text \<open>The number of entries before the first one above the level.\<close>

definition countForLevel :: "u32 \<Rightarrow> nat list \<Rightarrow> nat" where
  "countForLevel lvl schedule = length (takeWhile (\<lambda>l. \<not> unat lvl < l) schedule)"

definition empty_slot :: "character_power \<Rightarrow> nat \<Rightarrow> character_enhancement" where
  "empty_slot p idx = new_enhancement\<lparr>m_enhance_info := m_power_info p, m_slot_idx := idx\<rparr>"

definition reserveEnhancementSlot :: "game_data \<Rightarrow> u32 \<Rightarrow> character_power \<Rightarrow> character_power option" where
  "reserveEnhancementSlot gd level_purchased p = do {
     tpl \<leftarrow> getPowerTemplate gd p;
     if BoostsAllowed tpl = [] then Some p
     else
       let lvl_delta = level_purchased - pow_level_bought p;
           cur_max_eh_slots = min 5 (m_total_eh_slots p + countForLevel lvl_delta (m_FreeBoostSlotsOnPower gd));
           ehs = pow_enhancements p @ map (empty_slot p) [length (pow_enhancements p)..<cur_max_eh_slots]
       in Some (p\<lparr>pow_enhancements := ehs, m_total_eh_slots := length ehs\<rparr>) }"

text \<open>\<open>getOwnedPowerByVecIdx\<close> takes the \<open>int\<close> of the vectors as \<open>uint32_t\<close>.\<close>

definition u32_index :: "int \<Rightarrow> nat" where
  "u32_index i = nat (i mod 2 ^ 32)"

fun buySlots_loop :: "game_data \<Rightarrow> nat list \<Rightarrow> int list \<Rightarrow> int list \<Rightarrow> character_data \<Rightarrow> character_data option" where
  "buySlots_loop gd [] pset_idx pow_idx cd = Some cd"
| "buySlots_loop gd (i # is) pset_idx pow_idx cd = do {
     s \<leftarrow> fetch pset_idx i; p \<leftarrow> fetch pow_idx i;
     r \<leftarrow> getOwnedPowerByVecIdx (u32_index s) (u32_index p) cd;
     case r of None \<Rightarrow> Some cd
     | Some (s, p) \<Rightarrow> do {
         pow \<leftarrow> power_at cd s p;
         tpl \<leftarrow> getPowerTemplate gd pow;
         if power_name tpl = [] then Some cd
         else do {
           pow \<leftarrow> reserveEnhancementSlot gd (char_level cd) pow;
           cd \<leftarrow> set_power s p pow cd;
           buySlots_loop gd is pset_idx pow_idx cd } } }"

definition buyEnhancementSlots :: "game_data \<Rightarrow> nat \<Rightarrow> int list \<Rightarrow> int list \<Rightarrow> character_data \<Rightarrow> character_data option" where
  "buyEnhancementSlots gd available_slots pset_idx pow_idx cd = buySlots_loop gd [0..<available_slots] pset_idx pow_idx cd"

section \<open>Adding and removing powers\<close>

fun addPower_loop :: "character_power \<Rightarrow> nat \<Rightarrow> nat \<Rightarrow> character_power_set list \<Rightarrow> character_power_set list option" where
  "addPower_loop p pcat pset [] = None"
| "addPower_loop p pcat pset (s # ss) =
    (if pset_category s = pcat \<and> pset_index s = pset
     then Some ((if pow_index p \<in> pow_index ` set (m_powers s) then s else s\<lparr>m_powers := m_powers s @ [p]\<rparr>) # ss)
     else map_option ((#) s) (addPower_loop p pcat pset ss))"

definition addPower :: "game_data \<Rightarrow> power_pool_info \<Rightarrow> character_data \<Rightarrow> character_data option" where
  "addPower gd ppool cd = do {
     p \<leftarrow> getPowerData gd ppool;
     p \<leftarrow> reserveEnhancementSlot gd (char_level cd) (p\<lparr>pow_index := m_pow_idx ppool, pow_level_bought := char_level cd\<rparr>);
     case addPower_loop p (m_pcat_idx ppool) (m_pset_idx ppool) (m_powersets cd) of
       None \<Rightarrow> Some (cd\<lparr>m_powersets := m_powersets cd @ [\<lparr>pset_index = m_pset_idx ppool, pset_category = m_pcat_idx ppool,
           pset_level_bought = char_level cd, m_powers = [p]\<rparr>], m_has_updated_powers := True, m_reset_powersets := True\<rparr>)
     | Some ss \<Rightarrow> Some (if ss = m_powersets cd then cd else cd\<lparr>m_powersets := ss, m_has_updated_powers := True\<rparr>) }"

text \<open>The first set with a power of the same index loses it: neither the set nor the category is compared.\<close>

fun remove_first :: "('a \<Rightarrow> bool) \<Rightarrow> 'a list \<Rightarrow> 'a list" where
  "remove_first P [] = []"
| "remove_first P (x # xs) = (if P x then xs else x # remove_first P xs)"

fun removePower_loop :: "nat \<Rightarrow> character_power_set list \<Rightarrow> character_power_set list option" where
  "removePower_loop idx [] = None"
| "removePower_loop idx (s # ss) =
    (if idx \<in> pow_index ` set (m_powers s)
     then Some (s\<lparr>m_powers := remove_first (\<lambda>p. pow_index p = idx) (m_powers s)\<rparr> # ss)
     else map_option ((#) s) (removePower_loop idx ss))"

definition removePower :: "power_pool_info \<Rightarrow> character_data \<Rightarrow> character_data" where
  "removePower ppool cd =
    (case removePower_loop (m_pow_idx ppool) (m_powersets cd) of
       None \<Rightarrow> cd
     | Some ss \<Rightarrow> cd\<lparr>m_powersets := ss, m_has_updated_powers := True, m_reset_powersets := True\<rparr>)"

definition countAllOwnedPowers :: "bool \<Rightarrow> character_data \<Rightarrow> nat" where
  "countAllOwnedPowers include_temps cd =
    sum_list (map (\<lambda>s. if pset_index s = 0 \<and> \<not> include_temps then 0 else length (m_powers s)) (m_powersets cd))"

section \<open>Enhancements in powers\<close>

definition setEnhancement :: "nat \<Rightarrow> nat \<Rightarrow> nat \<Rightarrow> nat \<Rightarrow> character_data \<Rightarrow> character_data option" where
  "setEnhancement pset_idx pow_idx src_idx dest_idx cd = do {
     p \<leftarrow> power_at cd pset_idx pow_idx;
     src_eh \<leftarrow> fetch (m_enhancements cd) src_idx;
     ehs \<leftarrow> store (pow_enhancements p) dest_idx (src_eh\<lparr>m_slot_idx := dest_idx\<rparr>);
     cd \<leftarrow> set_power pset_idx pow_idx (p\<lparr>pow_enhancements := ehs\<rparr>) cd;
     trashEnhancement src_idx cd }"

definition trashEnhancementInPower :: "nat \<Rightarrow> nat \<Rightarrow> nat \<Rightarrow> character_data \<Rightarrow> character_data option" where
  "trashEnhancementInPower pset_idx pow_idx eh_idx cd = do {
     p \<leftarrow> power_at cd pset_idx pow_idx;
     ehs \<leftarrow> store (pow_enhancements p) eh_idx (new_enhancement\<lparr>m_slot_idx := eh_idx\<rparr>);
     cd \<leftarrow> set_power pset_idx pow_idx (p\<lparr>pow_enhancements := ehs\<rparr>) cd;
     Some (cd\<lparr>m_has_updated_powers := True\<rparr>) }"

text \<open>
  A pointer to an enhancement says where it stands. \<open>getSetEnhancementBySlot\<close> gives a pointer one past
  the last slot when that is asked for; reading it is \<open>None\<close>.
\<close>

datatype enhancement_ref = InPower nat nat nat | InTray nat

definition read_enhancement :: "enhancement_ref \<Rightarrow> character_data \<Rightarrow> character_enhancement option" where
  "read_enhancement r cd =
    (case r of InPower s p e \<Rightarrow> do { pow \<leftarrow> power_at cd s p; fetch (pow_enhancements pow) e }
     | InTray e \<Rightarrow> fetch (m_enhancements cd) e)"

definition write_enhancement :: "enhancement_ref \<Rightarrow> character_enhancement \<Rightarrow> character_data \<Rightarrow> character_data option" where
  "write_enhancement r eh cd =
    (case r of InPower s p e \<Rightarrow> do {
        pow \<leftarrow> power_at cd s p; ehs \<leftarrow> store (pow_enhancements pow) e eh; set_power s p (pow\<lparr>pow_enhancements := ehs\<rparr>) cd }
     | InTray e \<Rightarrow> do { es \<leftarrow> store (m_enhancements cd) e eh; Some (cd\<lparr>m_enhancements := es\<rparr>) })"

definition getSetEnhancementBySlot :: "nat \<Rightarrow> nat \<Rightarrow> nat \<Rightarrow> character_data \<Rightarrow> enhancement_ref option option" where
  "getSetEnhancementBySlot pset_idx pow_idx eh_slot cd = do {
     pow \<leftarrow> power_at cd pset_idx pow_idx;
     Some (if eh_slot > length (pow_enhancements pow) then None else Some (InPower pset_idx pow_idx eh_slot)) }"

definition enhancementCombineChances :: "game_data \<Rightarrow> character_enhancement \<Rightarrow> character_enhancement \<Rightarrow> rat" where
  "enhancementCombineChances gd eh1 eh2 =
    (let eh_delta = sint (m_num_combines eh1 + enhance_level eh1 - (m_num_combines eh2 + enhance_level eh2));
         chance_idx = nat \<bar>eh_delta\<bar>;
         chances = (if parent_StoredPowerSet (m_enhance_tpl eh1) = parent_StoredPowerSet (m_enhance_tpl eh2)
                    then CombineChances_same gd else CombineChances gd)
     in if chance_idx \<ge> length chances then (if chances \<noteq> [] then last chances else 0)
        else chances ! chance_idx)"

record enhancement_slot_entry =
  m_set_in_power :: bool
  eh_pset_idx :: nat
  eh_pow_idx :: nat
  m_eh_idx :: nat

definition trashComboEnhancement :: "enhancement_ref \<Rightarrow> nat \<Rightarrow> character_data \<Rightarrow> character_data option" where
  "trashComboEnhancement r eh_idx cd = write_enhancement r (new_enhancement\<lparr>m_slot_idx := eh_idx\<rparr>) cd"

text \<open>\<open>dice\<close> is \<open>float(rand()) / float(RAND_MAX)\<close>. The result pair is \<open>success\<close> and \<open>destroyed\<close>.\<close>

definition combineEnhancements :: "game_data \<Rightarrow> rat \<Rightarrow> enhancement_slot_entry \<Rightarrow> enhancement_slot_entry \<Rightarrow> character_data \<Rightarrow>
    ((bool \<times> bool) \<times> character_data) option" where
  "combineEnhancements gd dice slot1 slot2 cd = do {
     eh1 \<leftarrow> getSetEnhancementBySlot (eh_pset_idx slot1) (eh_pow_idx slot1) (m_eh_idx slot1) cd;
     eh2 \<leftarrow> (if m_set_in_power slot2
             then getSetEnhancementBySlot (eh_pset_idx slot2) (eh_pow_idx slot2) (m_eh_idx slot2) cd
             else Some (Some (InTray (m_eh_idx slot2))));
     case (eh1, eh2) of
       (Some r1, Some r2) \<Rightarrow> do {
         e1 \<leftarrow> read_enhancement r1 cd;
         e2 \<leftarrow> read_enhancement r2 cd;
         let success = dice < enhancementCombineChances gd e1 e2;
         let destroy = enhance_level e1 < enhance_level e2;
         if \<not> success \<and> \<not> destroy then Some ((success, destroy), cd)
         else do {
           cd \<leftarrow> (if success then write_enhancement r1 (e1\<lparr>m_num_combines := m_num_combines e1 + 1\<rparr>) cd else Some cd);
           cd \<leftarrow> (if m_set_in_power slot2 then trashComboEnhancement r2 (m_eh_idx slot2) cd
                 else trashEnhancement (m_eh_idx slot2) cd);
           Some ((success, destroy), cd\<lparr>m_has_updated_powers := True\<rparr>) } }
     | _ \<Rightarrow> Some ((False, False), cd) }"

definition on_combine_enhancements :: "game_data \<Rightarrow> rat \<Rightarrow> enhancement_slot_entry \<Rightarrow> enhancement_slot_entry \<Rightarrow> character_data \<Rightarrow>
    ((bool \<times> bool) \<times> character_data) option" where
  "on_combine_enhancements gd dice first_power second_power cd = do {
     ((success, destroyed), cd) \<leftarrow> combineEnhancements gd dice first_power second_power cd;
     Some ((success, destroyed), cd\<lparr>m_has_updated_powers := success \<or> destroyed\<rparr>) }"

section \<open>Powers of a new character\<close>

fun addStartingInspirations :: "game_data \<Rightarrow> text_bytes list \<Rightarrow> character_data \<Rightarrow> character_data option" where
  "addStartingInspirations gd [] cd = Some cd"
| "addStartingInspirations gd (nm # nms) cd = do { cd \<leftarrow> addInspirationByName gd nm cd; addStartingInspirations gd nms cd }"

fun addNamedPowers :: "game_data \<Rightarrow> nat \<Rightarrow> nat \<Rightarrow> text_bytes list \<Rightarrow> character_data \<Rightarrow> character_data option" where
  "addNamedPowers gd pcat pset [] cd = Some cd"
| "addNamedPowers gd pcat pset (nm # nms) cd =
    (if nm = [] then Some cd
     else do {
       pow \<leftarrow> getPowerByName gd nm pcat pset;
       cd \<leftarrow> addPower gd \<lparr>m_pcat_idx = pcat, m_pset_idx = pset, m_pow_idx = pow\<rparr> cd;
       addNamedPowers gd pcat pset nms cd })"

definition addStartingPowers :: "game_data \<Rightarrow> text_bytes \<Rightarrow> text_bytes \<Rightarrow> text_bytes list \<Rightarrow> character_data \<Rightarrow> character_data option" where
  "addStartingPowers gd cat_nm set_nm power_names cd = do {
     let pcat = getPowerCatByName gd cat_nm;
     pset \<leftarrow> getPowerSetByName gd set_nm pcat;
     let cd = addPowerSet \<lparr>m_pcat_idx = pcat, m_pset_idx = pset, m_pow_idx = 0\<rparr> cd;
     addNamedPowers gd pcat pset power_names cd }"

fun text_contains :: "text_bytes \<Rightarrow> text_bytes \<Rightarrow> bool" where
  "text_contains needle [] = (needle = [])"
| "text_contains needle (c # cs) = (take (length needle) (c # cs) = needle \<or> text_contains needle cs)"

fun addPowersByLevel_loop :: "game_data \<Rightarrow> nat \<Rightarrow> nat \<Rightarrow> parse_power_set \<Rightarrow> int \<Rightarrow> nat list \<Rightarrow> character_data \<Rightarrow> character_data option" where
  "addPowersByLevel_loop gd pcat pset s level [] cd = Some cd"
| "addPowersByLevel_loop gd pcat pset s level (i # is) cd =
    (if level < Available s ! i then addPowersByLevel_loop gd pcat pset s level is cd
     else do {
       p \<leftarrow> fetch (pset_Powers s) i;
       cd \<leftarrow> (if text_contains (bytes_of ''prestige_'') (power_name p) then Some cd
             else addPower gd \<lparr>m_pcat_idx = pcat, m_pset_idx = pset, m_pow_idx = i\<rparr> cd);
       addPowersByLevel_loop gd pcat pset s level is cd })"

definition addPowersByLevel :: "game_data \<Rightarrow> text_bytes \<Rightarrow> text_bytes \<Rightarrow> u32 \<Rightarrow> character_data \<Rightarrow> character_data option" where
  "addPowersByLevel gd cat_nm set_nm level cd = do {
     let pcat = getPowerCatByName gd cat_nm;
     pset \<leftarrow> getPowerSetByName gd set_nm pcat;
     s \<leftarrow> get_powerset gd pcat pset;
     addPowersByLevel_loop gd pcat pset s (sint level) [0..<length (Available s)] cd }"

section \<open>Requests of the client\<close>

text \<open>What the handlers of the map server do with a request for the character of its session.\<close>

datatype power_request =
    MoveInspiration nat nat nat nat
  | MoveEnhancement nat nat
  | SetEnhancement nat nat nat nat
  | TrashEnhancement nat
  | TrashEnhancementInPower nat nat nat
  | BuyEnhancementSlot nat "int list" "int list"
  | RecvNewPower power_pool_info
  | CombineEnhancementsReq enhancement_slot_entry enhancement_slot_entry

fun on_power_request :: "game_data \<Rightarrow> rat \<Rightarrow> power_request \<Rightarrow> character_data \<Rightarrow> character_data option" where
  "on_power_request gd dice (MoveInspiration sc sr dc dr) cd = moveInspiration sc sr dc dr cd"
| "on_power_request gd dice (MoveEnhancement s d) cd = moveEnhancement s d cd"
| "on_power_request gd dice (SetEnhancement pset pow s d) cd = setEnhancement pset pow s d cd"
| "on_power_request gd dice (TrashEnhancement i) cd = trashEnhancement i cd"
| "on_power_request gd dice (TrashEnhancementInPower pset pow i) cd = trashEnhancementInPower pset pow i cd"
| "on_power_request gd dice (BuyEnhancementSlot n psets pows) cd = buyEnhancementSlots gd n psets pows cd"
| "on_power_request gd dice (RecvNewPower ppool) cd = addPower gd ppool cd"
| "on_power_request gd dice (CombineEnhancementsReq a b) cd = map_option snd (on_combine_enhancements gd dice a b cd)"

end
