(* ===== verification/Power_Correct.thy ===== *)
theory Power_Correct
  imports Power_Sets "HOL-Library.Multiset"
begin

text \<open>
  The well-formedness of what a character owns and its preservation: the tray of inspirations is a
  grid whose inspirations know their places, used enhancements know their slots, and a power has at
  most five slots. Then the exact effect of the operations that move things.
\<close>

lemma nth_update: "i < length xs \<Longrightarrow> xs[k := e] ! i = (if i = k then e else xs ! i)"
  by (auto simp: nth_list_update)

section \<open>The grid\<close>

definition in_grid :: "character_inspiration list list \<Rightarrow> nat \<Rightarrow> nat \<Rightarrow> bool" where
  "in_grid g c r \<longleftrightarrow> c < length g \<and> r < length (g ! c)"

definition put :: "character_inspiration list list \<Rightarrow> nat \<Rightarrow> nat \<Rightarrow> character_inspiration \<Rightarrow> character_inspiration list list" where
  "put g c r i = g[c := (g ! c)[r := i]]"

lemma insp_at_Some [simp]: "insp_at g c r = Some i \<longleftrightarrow> in_grid g c r \<and> i = g ! c ! r"
  by (auto simp: insp_at_def in_grid_def bind_eq_Some_conv)

lemma insp_set_Some [simp]: "insp_set g c r i = Some g' \<longleftrightarrow> in_grid g c r \<and> g' = put g c r i"
  by (auto simp: insp_set_def in_grid_def put_def bind_eq_Some_conv)

lemma insp_at_in: "in_grid g c r \<Longrightarrow> insp_at g c r = Some (g ! c ! r)"
  by simp

lemma insp_set_in: "in_grid g c r \<Longrightarrow> insp_set g c r i = Some (put g c r i)"
  by simp

lemma in_grid_put [simp]: "in_grid (put g c r i) c' r' \<longleftrightarrow> in_grid g c' r'"
  by (cases "c' = c") (auto simp: in_grid_def put_def nth_list_update)

lemma cell_put: "in_grid g c r \<Longrightarrow> in_grid g c' r' \<Longrightarrow> put g c r i ! c' ! r' = (if c' = c \<and> r' = r then i else g ! c' ! r')"
  by (auto simp: in_grid_def put_def nth_list_update)

lemma dims_put [simp]: "map length (put g c r i) = map length g"
  by (cases "c < length g") (auto simp: put_def nth_list_update list_update_beyond intro!: nth_equalityI)

definition grid_ok :: "character_inspiration list list \<Rightarrow> bool" where
  "grid_ok g \<longleftrightarrow> (\<forall>c r. in_grid g c r \<longrightarrow> m_has_insp (g ! c ! r) \<longrightarrow> m_col (g ! c ! r) = c \<and> m_row (g ! c ! r) = r)"

lemma grid_ok_put: "grid_ok g \<Longrightarrow> in_grid g c r \<Longrightarrow> (m_has_insp i \<Longrightarrow> m_col i = c \<and> m_row i = r) \<Longrightarrow> grid_ok (put g c r i)"
  by (auto simp: grid_ok_def cell_put)

text \<open>The four writes and two reads of a move exchange two cells and correct their positions.\<close>

definition swap_cells :: "nat \<Rightarrow> nat \<Rightarrow> nat \<Rightarrow> nat \<Rightarrow> character_inspiration list list \<Rightarrow> character_inspiration list list" where
  "swap_cells sc sr dc dr g =
    (let s = g ! sc ! sr; d = g ! dc ! dr in
     put (put g sc sr (d\<lparr>m_col := sc, m_row := sr\<rparr>)) dc dr (s\<lparr>m_col := dc, m_row := dr\<rparr>))"

lemma put_put: "in_grid g c r \<Longrightarrow> put (put g c r i) c r j = put g c r j"
  by (auto simp: put_def in_grid_def)

lemma put_put_swap: "(c, r) \<noteq> (c', r') \<Longrightarrow> put (put g c r i) c' r' j = put (put g c' r' j) c r i"
  by (cases "c = c'"; cases "c < length g"; cases "c' < length g")
    (auto simp: put_def list_update_swap nth_list_update list_update_beyond)

lemma swap_writes:
  assumes "in_grid g sc sr" "in_grid g dc dr"
  shows "(do {
       s \<leftarrow> insp_at g sc sr; g \<leftarrow> insp_set g sc sr (s\<lparr>m_col := dc, m_row := dr\<rparr>);
       d \<leftarrow> insp_at g dc dr; g \<leftarrow> insp_set g dc dr (d\<lparr>m_col := sc, m_row := sr\<rparr>);
       s \<leftarrow> insp_at g sc sr; d \<leftarrow> insp_at g dc dr;
       g \<leftarrow> insp_set g sc sr d; insp_set g dc dr s }) = Some (swap_cells sc sr dc dr g)"
proof (cases "(sc, sr) = (dc, dr)")
  case True
  with assms show ?thesis by (auto simp: insp_at_in insp_set_in cell_put put_put swap_cells_def)
next
  case False
  with assms show ?thesis
    by (auto simp: insp_at_in insp_set_in cell_put put_put put_put_swap [of sc sr dc dr] swap_cells_def)
qed

lemma move_insp_eq:
  "move_insp mc mr sc sr dc dr g =
    (if dc > mc \<or> dr > mr then remove_insp mc mr sc sr g
     else if in_grid g sc sr \<and> in_grid g dc dr then Some (swap_cells sc sr dc dr g) else None)"
proof (cases "in_grid g sc sr \<and> in_grid g dc dr")
  case True
  then show ?thesis using swap_writes [of g sc sr dc dr] by (simp add: move_insp.simps)
next
  case False
  then consider "insp_at g sc sr = None" | "in_grid g sc sr" "\<not> in_grid g dc dr"
    by (metis insp_at_Some option.exhaust)
  then show ?thesis
  proof cases
    case 1
    then have "\<not> in_grid g sc sr" by (metis insp_at_in option.distinct(1))
    with 1 show ?thesis by (simp add: move_insp.simps)
  next
    case 2
    then have "insp_at (put g sc sr i) dc dr = None" for i by (metis in_grid_put insp_at_Some not_None_eq)
    with 2 show ?thesis by (simp add: move_insp.simps insp_at_in insp_set_in)
  qed
qed

lemma dims_swap [simp]: "map length (swap_cells sc sr dc dr g) = map length g"
  by (simp add: swap_cells_def Let_def)

lemma in_grid_swap [simp]: "in_grid (swap_cells sc sr dc dr g) c r = in_grid g c r"
  by (simp add: swap_cells_def Let_def)

lemma cell_swap:
  assumes "in_grid g sc sr" "in_grid g dc dr" "in_grid g c r"
  shows "swap_cells sc sr dc dr g ! c ! r =
    (if c = dc \<and> r = dr then (g ! sc ! sr)\<lparr>m_col := dc, m_row := dr\<rparr>
     else if c = sc \<and> r = sr then (g ! dc ! dr)\<lparr>m_col := sc, m_row := sr\<rparr> else g ! c ! r)"
  using assms by (auto simp: swap_cells_def Let_def cell_put)

lemma grid_ok_swap: "grid_ok g \<Longrightarrow> in_grid g sc sr \<Longrightarrow> in_grid g dc dr \<Longrightarrow> grid_ok (swap_cells sc sr dc dr g)"
  by (auto simp: grid_ok_def cell_swap)

lemma grid_preserved:
  "remove_insp mc mr col row g = Some g' \<Longrightarrow> grid_ok g \<Longrightarrow> grid_ok g' \<and> map length g' = map length g"
  "shift_insp mc mr col j g = Some g' \<Longrightarrow> grid_ok g \<Longrightarrow> grid_ok g' \<and> map length g' = map length g"
  "move_insp mc mr sc sr dc dr g = Some g' \<Longrightarrow> grid_ok g \<Longrightarrow> grid_ok g' \<and> map length g' = map length g"
proof (induction mc mr col row g and mc mr col j g and mc mr sc sr dc dr g arbitrary: g' and g' and g'
    rule: remove_insp_shift_insp_move_insp.induct)
  case (1 mc mr col row g)
  from "1.prems"(1) have a: "in_grid g col row" "insp_set g col row (new_inspiration\<lparr>m_col := col, m_row := row\<rparr>) =
      Some (put g col row (new_inspiration\<lparr>m_col := col, m_row := row\<rparr>))"
    "shift_insp mc mr col row (put g col row (new_inspiration\<lparr>m_col := col, m_row := row\<rparr>)) = Some g'"
    by (auto simp: remove_insp.simps bind_eq_Some_conv)
  from "1.IH" [OF a(2,3)] grid_ok_put [OF "1.prems"(2) a(1)] show ?case
    by simp
next
  case (2 mc mr col j g)
  show ?case
  proof (cases "j < mr \<and> \<not> j + 1 \<ge> mr")
    case True
    with "2.prems"(1) obtain g1 where g1: "move_insp mc mr col (j + 1) col j g = Some g1" "shift_insp mc mr col (j + 1) g1 = Some g'"
      by (auto simp: shift_insp.simps bind_eq_Some_conv)
    from "2.IH"(1) [of g1] "2.IH"(2) [of g1 g'] g1 True "2.prems"(2) show ?thesis by auto
  next
    case False
    with "2.prems" show ?thesis by (auto simp: shift_insp.simps split: if_splits)
  qed
next
  case (3 mc mr sc sr dc dr g)
  show ?case
  proof (cases "dc > mc \<or> dr > mr")
    case True
    with "3.IH" [of g'] "3.prems" show ?thesis by (simp add: move_insp_eq)
  next
    case False
    with "3.prems" show ?thesis by (auto simp: move_insp_eq grid_ok_swap split: if_splits)
  qed
qed


section \<open>Characters\<close>

definition slots_ok :: "character_enhancement list \<Rightarrow> bool" where
  "slots_ok es \<longleftrightarrow> (\<forall>i < length es. m_slot_used (es ! i) \<longrightarrow> m_slot_idx (es ! i) = i)"

definition power_ok :: "character_power \<Rightarrow> bool" where
  "power_ok p \<longleftrightarrow> (\<forall>i < length (pow_enhancements p). m_slot_idx (pow_enhancements p ! i) = i) \<and>
     m_total_eh_slots p = length (pow_enhancements p) \<and> m_total_eh_slots p \<le> 5"

definition power_set_ok :: "character_power_set \<Rightarrow> bool" where
  "power_set_ok s \<longleftrightarrow> (\<forall>p \<in> set (m_powers s). power_ok p) \<and> distinct (map pow_index (m_powers s))"

definition character_ok :: "character_data \<Rightarrow> bool" where
  "character_ok cd \<longleftrightarrow> map length (m_inspirations cd) = replicate 5 4 \<and> m_max_insp_cols cd \<le> 5 \<and> m_max_insp_rows cd \<le> 4 \<and>
     grid_ok (m_inspirations cd) \<and> length (m_enhancements cd) = 10 \<and> slots_ok (m_enhancements cd) \<and>
     (\<forall>s \<in> set (m_powersets cd). power_set_ok s)"

lemma character_okD:
  assumes "character_ok cd"
  shows "map length (m_inspirations cd) = replicate 5 4" "grid_ok (m_inspirations cd)" "slots_ok (m_enhancements cd)"
    "length (m_enhancements cd) = 10" "s \<in> set (m_powersets cd) \<Longrightarrow> power_set_ok s"
    "m_max_insp_cols cd \<le> 5" "m_max_insp_rows cd \<le> 4"
  using assms by (auto simp: character_ok_def)

text \<open>Updates of one part keep the others; flags and numbers do not matter.\<close>

lemma character_ok_flags [simp]:
  "character_ok (cd\<lparr>m_has_updated_powers := b\<rparr>) = character_ok cd"
  "character_ok (cd\<lparr>m_reset_powersets := b\<rparr>) = character_ok cd"
  "character_ok (cd\<lparr>m_influence := v\<rparr>) = character_ok cd"
  by (simp_all add: character_ok_def)

lemma character_ok_inspirations:
  "character_ok cd \<Longrightarrow> grid_ok g \<Longrightarrow> map length g = map length (m_inspirations cd) \<Longrightarrow> character_ok (cd\<lparr>m_inspirations := g\<rparr>)"
  by (simp add: character_ok_def)

lemma character_ok_enhancements:
  "character_ok cd \<Longrightarrow> slots_ok es \<Longrightarrow> length es = length (m_enhancements cd) \<Longrightarrow> character_ok (cd\<lparr>m_enhancements := es\<rparr>)"
  by (simp add: character_ok_def)

lemma character_ok_powersets:
  "character_ok cd \<Longrightarrow> (\<And>s. s \<in> set ss \<Longrightarrow> power_set_ok s) \<Longrightarrow> character_ok (cd\<lparr>m_powersets := ss\<rparr>)"
  by (simp add: character_ok_def)

lemma moveInspiration_ok: "character_ok cd \<Longrightarrow> moveInspiration sc sr dc dr cd = Some cd' \<Longrightarrow> character_ok cd'"
  using grid_preserved(3) by (fastforce simp: moveInspiration_def bind_eq_Some_conv dest: character_okD(2) intro: character_ok_inspirations)

lemma removeInspiration_ok: "character_ok cd \<Longrightarrow> removeInspiration c r cd = Some cd' \<Longrightarrow> character_ok cd'"
  using grid_preserved(1) by (fastforce simp: removeInspiration_def bind_eq_Some_conv dest: character_okD(2) intro: character_ok_inspirations)

lemma addInspiration_loop_ok:
  "addInspiration_loop cs insp cd = Some cd' \<Longrightarrow> character_ok cd \<Longrightarrow> character_ok cd'"
  by (induction cs insp cd rule: addInspiration_loop.induct)
    (auto simp: bind_eq_Some_conv intro!: character_ok_inspirations grid_ok_put dest: character_okD(2) split: if_splits)

lemma addInspirationToChar_ok: "character_ok cd \<Longrightarrow> addInspirationToChar i cd = Some cd' \<Longrightarrow> character_ok cd'"
  by (auto simp: addInspirationToChar_def intro: addInspiration_loop_ok)

lemma addEnhancement_loop_length: "addEnhancement_loop n e es = Some es' \<Longrightarrow> length es' = length es"
  by (induction n e es arbitrary: es' rule: addEnhancement_loop.induct) (auto split: if_splits)

lemma addEnhancement_loop_Some:
  "addEnhancement_loop n e es = Some es' \<Longrightarrow>
   \<exists>k < length es. \<not> m_slot_used (es ! k) \<and> (\<forall>j < k. m_slot_used (es ! j)) \<and>
     es' = es[k := e\<lparr>m_slot_idx := n + k, m_slot_used := True\<rparr>]"
proof (induction n e es arbitrary: es' rule: addEnhancement_loop.induct)
  case (2 n e x es)
  show ?case
  proof (cases "m_slot_used x")
    case True
    with "2.prems" obtain es1 where es1: "addEnhancement_loop (n + 1) e es = Some es1" "es' = x # es1" by auto
    from "2.IH" [OF _ es1(1)] True obtain k where
      "k < length es" "\<not> m_slot_used (es ! k)" "\<forall>j < k. m_slot_used (es ! j)"
      "es1 = es[k := e\<lparr>m_slot_idx := n + 1 + k, m_slot_used := True\<rparr>]" by auto
    with True es1(2) show ?thesis by (intro exI [of _ "Suc k"]) (auto simp: nth_Cons')
  next
    case False
    with "2.prems" show ?thesis by (intro exI [of _ 0]) auto
  qed
qed simp

lemma addEnhancement_loop_None: "addEnhancement_loop n e es = None \<longleftrightarrow> (\<forall>x \<in> set es. m_slot_used x)"
  by (induction n e es rule: addEnhancement_loop.induct) auto

lemma slots_ok_update: "slots_ok es \<Longrightarrow> (m_slot_used e \<Longrightarrow> m_slot_idx e = k) \<Longrightarrow> slots_ok (es[k := e])"
  by (auto simp: slots_ok_def nth_update)

lemma addEnhancementToChar_ok: "character_ok cd \<Longrightarrow> character_ok (addEnhancementToChar e cd)"
  by (auto simp: addEnhancementToChar_def split: option.splits dest!: addEnhancement_loop_Some
      intro!: character_ok_enhancements slots_ok_update dest: character_okD(3))

lemma moveEnhancement_eq:
  "moveEnhancement s d cd = (if s < length (m_enhancements cd) \<and> d < length (m_enhancements cd)
    then Some (cd\<lparr>m_enhancements := (m_enhancements cd)
        [s := (m_enhancements cd ! d)\<lparr>m_slot_idx := s\<rparr>, d := (m_enhancements cd ! s)\<lparr>m_slot_idx := d\<rparr>],
      m_has_updated_powers := True\<rparr>)
    else None)"
  by (cases "s = d") (auto simp: moveEnhancement_def fetch_def store_def list_update_swap nth_list_update)

lemma moveEnhancement_ok: "character_ok cd \<Longrightarrow> moveEnhancement s d cd = Some cd' \<Longrightarrow> character_ok cd'"
  by (auto simp: moveEnhancement_eq split: if_splits intro!: character_ok_enhancements slots_ok_update dest: character_okD(3))

lemma trashEnhancement_ok: "character_ok cd \<Longrightarrow> trashEnhancement i cd = Some cd' \<Longrightarrow> character_ok cd'"
  by (auto simp: trashEnhancement_def bind_eq_Some_conv intro!: character_ok_enhancements slots_ok_update dest: character_okD(3))

end
