(* ===== verification/Power_Requests.thy ===== *)
theory Power_Requests
  imports Power_Correct
begin

text \<open>
  The requests of a client: every one that is handled keeps the character well formed, and one is handled
  exactly when it is in bounds, when the cells, slots, powers and templates it names exist. Also what the
  tray of inspirations holds, and owning a power.
\<close>

section \<open>Powers stay well formed\<close>

lemma power_at_Some: "power_at cd s p = Some q \<longleftrightarrow>
    s < length (m_powersets cd) \<and> p < length (m_powers (m_powersets cd ! s)) \<and> q = m_powers (m_powersets cd ! s) ! p"
  by (auto simp: power_at_def bind_eq_Some_conv)

lemma power_at_ok: "character_ok cd \<Longrightarrow> power_at cd s p = Some q \<Longrightarrow> power_ok q"
  by (auto simp: power_at_Some character_ok_def power_set_ok_def dest!: nth_mem)

lemma set_power_ok:
  assumes "character_ok cd" "set_power s p q cd = Some cd'" "power_ok q"
    "\<And>q'. power_at cd s p = Some q' \<Longrightarrow> pow_index q = pow_index q'"
  shows "character_ok cd'"
proof -
  let ?ss = "m_powersets cd"
  have a: "s < length ?ss" "p < length (m_powers (?ss ! s))" "cd' = cd\<lparr>m_powersets := ?ss[s := (?ss ! s)\<lparr>m_powers := (m_powers (?ss ! s))[p := q]\<rparr>]\<rparr>"
    using assms(2) by (auto simp: set_power_def bind_eq_Some_conv)
  have idx: "pow_index q = pow_index (m_powers (?ss ! s) ! p)" using assms(4) a by (auto simp: power_at_Some)
  have ok: "power_set_ok (?ss ! s)" using assms(1) a(1) by (simp add: character_ok_def)
  have "map pow_index ((m_powers (?ss ! s))[p := q]) = map pow_index (m_powers (?ss ! s))"
    using a(2) idx by (simp add: map_update list_update_same_conv)
  with ok assms(3) have "power_set_ok ((?ss ! s)\<lparr>m_powers := (m_powers (?ss ! s))[p := q]\<rparr>)"
    by (auto simp: power_set_ok_def dest: set_update_subset_insert [THEN subsetD])
  then show ?thesis unfolding a(3)
    using assms(1) by (intro character_ok_powersets) (auto dest!: set_update_subset_insert [THEN subsetD] dest: character_okD(5))
qed

lemma power_ok_update:
  "power_ok p \<Longrightarrow> k < length (pow_enhancements p) \<Longrightarrow> m_slot_idx e = k \<Longrightarrow> power_ok (p\<lparr>pow_enhancements := (pow_enhancements p)[k := e]\<rparr>)"
  by (auto simp: power_ok_def nth_update)

lemma reserve_ok: "power_ok p \<Longrightarrow> reserveEnhancementSlot gd l p = Some q \<Longrightarrow> power_ok q \<and> pow_index q = pow_index p"
  by (auto simp: reserveEnhancementSlot_def bind_eq_Some_conv power_ok_def Let_def nth_append empty_slot_def split: if_splits)

lemma getPowerData_ok: "getPowerData gd pp = Some p \<Longrightarrow> power_ok p \<and> pow_index p = m_pow_idx pp"
  by (auto simp: getPowerData_def bind_eq_Some_conv power_ok_def)

lemma buySlots_ok: "buySlots_loop gd is ps qs cd = Some cd' \<Longrightarrow> character_ok cd \<Longrightarrow> character_ok cd'"
proof (induction "is" arbitrary: cd)
  case (Cons i "is")
  then obtain r where r: "getOwnedPowerByVecIdx (u32_index (ps ! i)) (u32_index (qs ! i)) cd = Some r"
    by (auto simp: bind_eq_Some_conv)
  show ?case
  proof (cases r)
    case None
    with Cons.prems r show ?thesis by (auto simp: bind_eq_Some_conv)
  next
    case (Some sp)
    obtain s p where sp: "sp = (s, p)" by fastforce
    with Cons.prems(1) r Some obtain pow tpl where a: "power_at cd s p = Some pow" "getPowerTemplate gd pow = Some tpl"
      by (auto simp: bind_eq_Some_conv)
    show ?thesis
    proof (cases "power_name tpl = []")
      case True
      with Cons.prems r Some sp a show ?thesis by (auto simp: bind_eq_Some_conv)
    next
      case False
      with Cons.prems(1) r Some sp a obtain pow1 cd1 where b: "reserveEnhancementSlot gd (char_level cd) pow = Some pow1"
        "set_power s p pow1 cd = Some cd1" "buySlots_loop gd is ps qs cd1 = Some cd'"
        by (auto simp: bind_eq_Some_conv)
      have "power_ok pow1" "pow_index pow1 = pow_index pow"
        using reserve_ok [OF power_at_ok [OF Cons.prems(2) a(1)] b(1)] by auto
      then have "character_ok cd1" using set_power_ok [OF Cons.prems(2) b(2)] a(1) by simp
      with Cons.IH b(3) show ?thesis by blast
    qed
  qed
qed simp

lemma addPower_loop_ok:
  "addPower_loop p pcat pset ss = Some ss' \<Longrightarrow> power_ok p \<Longrightarrow> \<forall>s \<in> set ss. power_set_ok s \<Longrightarrow> \<forall>s \<in> set ss'. power_set_ok s"
  by (induction p pcat pset ss arbitrary: ss' rule: addPower_loop.induct) (auto simp: power_set_ok_def split: if_splits)

lemma addPower_ok:
  assumes "addPower gd pp cd = Some cd'" "character_ok cd"
  shows "character_ok cd'"
proof -
  obtain p q where p: "getPowerData gd pp = Some p"
    "reserveEnhancementSlot gd (char_level cd) (p\<lparr>pow_index := m_pow_idx pp, pow_level_bought := char_level cd\<rparr>) = Some q"
    "(case addPower_loop q (m_pcat_idx pp) (m_pset_idx pp) (m_powersets cd) of
       None \<Rightarrow> Some (cd\<lparr>m_powersets := m_powersets cd @ [\<lparr>pset_index = m_pset_idx pp, pset_category = m_pcat_idx pp,
           pset_level_bought = char_level cd, m_powers = [q]\<rparr>], m_has_updated_powers := True, m_reset_powersets := True\<rparr>)
     | Some ss \<Rightarrow> Some (if ss = m_powersets cd then cd else cd\<lparr>m_powersets := ss, m_has_updated_powers := True\<rparr>)) = Some cd'"
    using assms(1) by (auto simp: addPower_def bind_eq_Some_conv)
  have "power_ok (p\<lparr>pow_index := m_pow_idx pp, pow_level_bought := char_level cd\<rparr>)"
    using getPowerData_ok [OF p(1)] by (simp add: power_ok_def)
  from reserve_ok [OF this p(2)] have q: "power_ok q" by simp
  show ?thesis
  proof (cases "addPower_loop q (m_pcat_idx pp) (m_pset_idx pp) (m_powersets cd)")
    case None
    let ?s = "\<lparr>pset_index = m_pset_idx pp, pset_category = m_pcat_idx pp, pset_level_bought = char_level cd, m_powers = [q]\<rparr>"
    have "power_set_ok ?s" using q by (simp add: power_set_ok_def)
    then have "character_ok (cd\<lparr>m_powersets := m_powersets cd @ [?s]\<rparr>)"
      using assms(2) by (intro character_ok_powersets) (auto dest: character_okD(5))
    with None p(3) show ?thesis by auto
  next
    case (Some ss)
    have "\<forall>s \<in> set (m_powersets cd). power_set_ok s" using assms(2) by (simp add: character_ok_def)
    from addPower_loop_ok [OF Some q this] have "character_ok (cd\<lparr>m_powersets := ss\<rparr>)"
      using assms(2) by (intro character_ok_powersets) auto
    with Some p(3) assms(2) show ?thesis by (auto split: if_splits)
  qed
qed

lemma setEnhancement_ok:
  assumes "setEnhancement s p i d cd = Some cd'" "character_ok cd"
  shows "character_ok cd'"
proof -
  obtain q e cd1 where a: "power_at cd s p = Some q" "d < length (pow_enhancements q)"
    "set_power s p (q\<lparr>pow_enhancements := (pow_enhancements q)[d := e\<lparr>m_slot_idx := d\<rparr>]\<rparr>) cd = Some cd1" "trashEnhancement i cd1 = Some cd'"
    using assms(1) by (auto simp: setEnhancement_def bind_eq_Some_conv)
  have "power_ok (q\<lparr>pow_enhancements := (pow_enhancements q)[d := e\<lparr>m_slot_idx := d\<rparr>]\<rparr>)"
    using power_ok_update [OF power_at_ok [OF assms(2) a(1)] a(2)] by simp
  from set_power_ok [OF assms(2) a(3) this] a(1) have "character_ok cd1" by simp
  from trashEnhancement_ok [OF this a(4)] show ?thesis .
qed

lemma write_enhancement_ok:
  assumes "write_enhancement r e cd = Some cd'" "character_ok cd"
    "m_slot_idx e = (case r of InPower s p k \<Rightarrow> k | InTray k \<Rightarrow> k)"
  shows "character_ok cd'"
proof (cases r)
  case (InPower s p k)
  then obtain q where a: "power_at cd s p = Some q" "k < length (pow_enhancements q)"
    "set_power s p (q\<lparr>pow_enhancements := (pow_enhancements q)[k := e]\<rparr>) cd = Some cd'"
    using assms(1) by (auto simp: write_enhancement_def bind_eq_Some_conv)
  have "power_ok (q\<lparr>pow_enhancements := (pow_enhancements q)[k := e]\<rparr>)"
    using power_ok_update [OF power_at_ok [OF assms(2) a(1)] a(2)] assms(3) InPower by simp
  from set_power_ok [OF assms(2) a(3) this] a(1) show ?thesis by simp
next
  case (InTray k)
  with assms show ?thesis
    by (auto simp: write_enhancement_def bind_eq_Some_conv intro!: character_ok_enhancements slots_ok_update dest: character_okD(3))
qed

lemma trashEnhancementInPower_ok:
  assumes "trashEnhancementInPower s p k cd = Some cd'" "character_ok cd"
  shows "character_ok cd'"
proof -
  obtain cd1 where "write_enhancement (InPower s p k) (new_enhancement\<lparr>m_slot_idx := k\<rparr>) cd = Some cd1"
    "cd' = cd1\<lparr>m_has_updated_powers := True\<rparr>"
    using assms(1) by (auto simp: trashEnhancementInPower_def write_enhancement_def bind_eq_Some_conv)
  with write_enhancement_ok [OF _ assms(2)] show ?thesis by simp
qed

lemma read_in_power_idx:
  "character_ok cd \<Longrightarrow> read_enhancement (InPower s p k) cd = Some e \<Longrightarrow> m_slot_idx e = k"
  by (auto simp: read_enhancement_def bind_eq_Some_conv dest!: power_at_ok) (auto simp: power_ok_def)

lemma getSet_ref: "getSetEnhancementBySlot s p k cd = Some (Some r) \<Longrightarrow> r = InPower s p k"
  by (auto simp: getSetEnhancementBySlot_def bind_eq_Some_conv split: if_splits)

lemma combineEnhancements_ok:
  assumes "combineEnhancements gd dice a b cd = Some (res, cd')" "character_ok cd"
  shows "character_ok cd'"
proof -
  obtain o1 o2 where o: "getSetEnhancementBySlot (eh_pset_idx a) (eh_pow_idx a) (m_eh_idx a) cd = Some o1"
    "(if m_set_in_power b then getSetEnhancementBySlot (eh_pset_idx b) (eh_pow_idx b) (m_eh_idx b) cd
      else Some (Some (InTray (m_eh_idx b)))) = Some o2"
    using assms(1) by (auto simp: combineEnhancements_def bind_eq_Some_conv simp del: if_split_asm split del: if_split)
  show ?thesis
  proof (cases "\<exists>r1 r2. o1 = Some r1 \<and> o2 = Some r2")
    case False
    with assms o show ?thesis by (auto simp: combineEnhancements_def split: option.splits)
  next
    case True
    then obtain r1 r2 where r: "o1 = Some r1" "o2 = Some r2" by blast
    have r1: "r1 = InPower (eh_pset_idx a) (eh_pow_idx a) (m_eh_idx a)" using getSet_ref o(1) r by blast
    have r2: "(case r2 of InPower s p k \<Rightarrow> k | InTray k \<Rightarrow> k) = m_eh_idx b"
      using o(2) r getSet_ref by (fastforce split: if_splits)
    obtain e1 e2 where e: "read_enhancement r1 cd = Some e1" "read_enhancement r2 cd = Some e2"
      using assms(1) o r by (auto simp: combineEnhancements_def bind_eq_Some_conv)
    let ?success = "dice < enhancementCombineChances gd e1 e2"
    show ?thesis
    proof (cases "\<not> ?success \<and> \<not> enhance_level e1 < enhance_level e2")
      case True
      with assms o r e show ?thesis by (simp add: combineEnhancements_def Let_def)
    next
      case False
      obtain cd1 cd2 where c: "(if ?success then write_enhancement r1 (e1\<lparr>m_num_combines := m_num_combines e1 + 1\<rparr>) cd else Some cd) = Some cd1"
        "(if m_set_in_power b then trashComboEnhancement r2 (m_eh_idx b) cd1 else trashEnhancement (m_eh_idx b) cd1) = Some cd2"
        "cd' = cd2\<lparr>m_has_updated_powers := True\<rparr>"
        using assms(1) o r e False by (auto simp: combineEnhancements_def Let_def bind_eq_Some_conv)
      have "m_slot_idx e1 = m_eh_idx a" using read_in_power_idx [OF assms(2)] e(1) r1 by blast
      then have ok1: "character_ok cd1"
        using c(1) assms(2) r1 write_enhancement_ok [of r1 "e1\<lparr>m_num_combines := m_num_combines e1 + 1\<rparr>" cd cd1]
        by (auto split: if_splits)
      have "character_ok cd2"
        using c(2) ok1 r2 write_enhancement_ok [of r2 "new_enhancement\<lparr>m_slot_idx := m_eh_idx b\<rparr>" cd1 cd2]
          trashEnhancement_ok [OF ok1, of "m_eh_idx b" cd2]
        by (auto simp: trashComboEnhancement_def split: if_splits)
      with c(3) show ?thesis by simp
    qed
  qed
qed

lemma on_power_request_ok:
  "on_power_request gd dice r cd = Some cd' \<Longrightarrow> character_ok cd \<Longrightarrow> character_ok cd'"
proof (induction gd dice r cd rule: on_power_request.induct)
  case (8 gd dice a b cd)
  then obtain s d cd1 where "combineEnhancements gd dice a b cd = Some ((s, d), cd1)" "cd' = cd1\<lparr>m_has_updated_powers := s \<or> d\<rparr>"
    by (auto simp: on_combine_enhancements_def bind_eq_Some_conv)
  with combineEnhancements_ok 8 show ?case by simp
qed (auto simp: buyEnhancementSlots_def intro: moveInspiration_ok moveEnhancement_ok setEnhancement_ok trashEnhancement_ok
    trashEnhancementInPower_ok buySlots_ok addPower_ok)


text \<open>A client's requests, each with the random number drawn for it.\<close>

fun handle_power_requests :: "game_data \<Rightarrow> (rat \<times> power_request) list \<Rightarrow> character_data \<Rightarrow> character_data option" where
  "handle_power_requests gd [] cd = Some cd"
| "handle_power_requests gd ((dice, r) # rs) cd = do { cd \<leftarrow> on_power_request gd dice r cd; handle_power_requests gd rs cd }"

section \<open>What the tray holds\<close>

definition held :: "character_inspiration \<Rightarrow> (power_pool_info \<times> power_data \<times> text_bytes) option" where
  "held i = (if m_has_insp i then Some (m_insp_info i, m_insp_tpl i, insp_name i) else None)"

definition tray :: "character_inspiration list list \<Rightarrow> (power_pool_info \<times> power_data \<times> text_bytes) option list list" where
  "tray g = map (map held) g"

lemma length_tray [simp]: "length (tray g) = length g"
  by (simp add: tray_def)

lemma length_put [simp]: "length (put g c r i) = length g"
  by (simp add: put_def)

lemma tray_put: "c < length g \<Longrightarrow> tray (put g c r i) = (tray g)[c := (tray g ! c)[r := held i]]"
  by (simp add: tray_def put_def map_update)

lemma held_position [simp]: "held (i\<lparr>m_col := c, m_row := r\<rparr>) = held i"
  by (simp add: held_def)

lemma tray_cell: "in_grid g c r \<Longrightarrow> tray g ! c ! r = held (g ! c ! r)"
  by (simp add: tray_def in_grid_def)

lemma tray_swap_column:
  "in_grid g c r \<Longrightarrow> in_grid g c r' \<Longrightarrow>
   tray (swap_cells c r c r' g) = (tray g)[c := (tray g ! c)[r := tray g ! c ! r', r' := tray g ! c ! r]]"
  by (simp add: swap_cells_def Let_def tray_cell) (simp add: in_grid_def tray_put)

text \<open>The entry at \<open>j\<close> goes to the end of the first \<open>n\<close> entries.\<close>

definition move_to_end :: "nat \<Rightarrow> nat \<Rightarrow> 'a list \<Rightarrow> 'a list" where
  "move_to_end j n xs = take j xs @ drop (j + 1) (take n xs) @ [xs ! j] @ drop n xs"

lemma move_to_end_last: "n \<le> length xs \<Longrightarrow> n = j + 1 \<Longrightarrow> move_to_end j n xs = xs"
  by (auto simp: move_to_end_def) (metis Cons_nth_drop_Suc Suc_le_lessD append_take_drop_id)

lemma move_to_end_step:
  assumes "j + 1 < n" "n \<le> length xs"
  shows "move_to_end (j + 1) n (xs[j + 1 := xs ! j, j := xs ! (j + 1)]) = move_to_end j n xs"
proof -
  let ?ys = "xs[j + 1 := xs ! j, j := xs ! (j + 1)]"
  have "take (Suc j) ?ys = take j xs @ [xs ! Suc j]" using assms by (simp add: take_Suc_conv_app_nth)
  moreover have "drop (Suc (Suc j)) (take n ?ys) = drop (Suc (Suc j)) (take n xs)"
    by (simp add: take_update_swap)
  moreover have "drop (Suc j) (take n xs) = xs ! Suc j # drop (Suc (Suc j)) (take n xs)"
    using assms by (simp add: Cons_nth_drop_Suc [symmetric])
  ultimately show ?thesis using assms by (simp add: move_to_end_def)
qed

lemma shift_insp_tray:
  assumes "col \<le> mc" "col < length g" "mr \<le> length (g ! col)" "j < mr"
  shows "\<exists>g'. shift_insp mc mr col j g = Some g' \<and> tray g' = (tray g)[col := move_to_end j mr (tray g ! col)]"
  using assms
proof (induction "mr - j" arbitrary: j g)
  case (Suc k)
  have len: "length (tray g ! col) = length (g ! col)" using Suc.prems by (simp add: tray_def)
  show ?case
  proof (cases "j + 1 < mr")
    case True
    let ?g = "swap_cells col (j + 1) col j g"
    have gr: "in_grid g col (j + 1)" "in_grid g col j" using Suc.prems True by (auto simp: in_grid_def)
    have dims: "length ?g = length g" "length (?g ! col) = length (g ! col)"
      using dims_swap [of col "j + 1" col j g] Suc.prems(2) by (metis length_map, metis nth_map length_map)
    have tr: "tray ?g ! col = (tray g ! col)[j + 1 := tray g ! col ! j, j := tray g ! col ! (j + 1)]"
      using tray_swap_column [OF gr] Suc.prems(2) by simp
    have k: "k = mr - (j + 1)" using Suc.hyps(2) by simp
    obtain g' where g': "shift_insp mc mr col (j + 1) ?g = Some g'"
      "tray g' = (tray ?g)[col := move_to_end (j + 1) mr (tray ?g ! col)]"
      using Suc.hyps(1) [OF k Suc.prems(1), of ?g] Suc.prems True dims by auto
    have mv: "move_insp mc mr col (j + 1) col j g = Some ?g"
      using Suc.prems True gr by (simp add: move_insp_eq)
    have "tray g' = (tray g)[col := move_to_end j mr (tray g ! col)]"
      unfolding g'(2) tr using move_to_end_step [of j mr "tray g ! col"] True Suc.prems(3) len
        tray_swap_column [OF gr] by simp
    with g'(1) mv True Suc.prems show ?thesis by (simp add: shift_insp.simps [of mc mr col j])
  next
    case False
    with Suc.prems len show ?thesis
      by (auto simp: shift_insp.simps [of mc mr col j] move_to_end_last)
  qed
qed simp


text \<open>The entry at \<open>row\<close> is dropped, those behind it in the first \<open>n\<close> move up, an empty one follows.\<close>

definition close_gap :: "nat \<Rightarrow> nat \<Rightarrow> 'a option list \<Rightarrow> 'a option list" where
  "close_gap row n xs = take row xs @ drop (row + 1) (take n xs) @ [None] @ drop n xs"

lemma move_to_end_gap: "row < n \<Longrightarrow> n \<le> length xs \<Longrightarrow> move_to_end row n (xs[row := None]) = close_gap row n xs"
  by (simp add: move_to_end_def close_gap_def take_update_swap list_update_beyond)

lemma in_tray: "map length g = replicate 5 4 \<Longrightarrow> in_grid g c r \<longleftrightarrow> c < 5 \<and> r < 4"
  by (auto simp: in_grid_def) (metis length_map length_replicate nth_map nth_replicate)+

lemma tray_column: "map length g = replicate 5 4 \<Longrightarrow> c < 5 \<Longrightarrow> length g = 5 \<and> length (g ! c) = 4"
  by (metis length_map length_replicate nth_map nth_replicate)

section \<open>Owning a power\<close>

definition owned_in :: "nat \<Rightarrow> nat \<Rightarrow> nat \<Rightarrow> character_power_set list \<Rightarrow> bool" where
  "owned_in c i k ss \<longleftrightarrow> (\<exists>s \<in> set ss. pset_category s = c \<and> pset_index s = i \<and> k \<in> pow_index ` set (m_powers s))"

lemma owned_in_simps [simp]:
  "\<not> owned_in c i k []"
  "owned_in c i k (s # ss) \<longleftrightarrow> pset_category s = c \<and> pset_index s = i \<and> k \<in> pow_index ` set (m_powers s) \<or> owned_in c i k ss"
  "owned_in c i k (ss @ ts) \<longleftrightarrow> owned_in c i k ss \<or> owned_in c i k ts"
  by (auto simp: owned_in_def)

definition owns :: "power_pool_info \<Rightarrow> character_data \<Rightarrow> bool" where
  "owns pp cd \<longleftrightarrow> owned_in (m_pcat_idx pp) (m_pset_idx pp) (m_pow_idx pp) (m_powersets cd)"

lemma addPower_loop_owned: "addPower_loop p c i ss = Some ss' \<Longrightarrow> owned_in c i (pow_index p) ss'"
  by (induction p c i ss arbitrary: ss' rule: addPower_loop.induct) (auto split: if_splits)

lemma addPower_loop_again: "addPower_loop p c i ss = Some ss' \<Longrightarrow> pow_index q = pow_index p \<Longrightarrow> addPower_loop q c i ss' = Some ss'"
  by (induction p c i ss arbitrary: ss' rule: addPower_loop.induct) (auto split: if_splits)

lemma addPower_loop_keeps: "addPower_loop p c i ss = Some ss' \<Longrightarrow> owned_in c' i' k ss \<Longrightarrow> owned_in c' i' k ss'"
  by (induction p c i ss arbitrary: ss' rule: addPower_loop.induct) (auto split: if_splits)

lemma reserve_index: "reserveEnhancementSlot gd l p = Some q \<Longrightarrow> pow_index q = pow_index p"
  by (auto simp: reserveEnhancementSlot_def bind_eq_Some_conv Let_def split: if_splits)

lemma new_power_exists:
  assumes "get_power_template gd (m_pcat_idx pp) (m_pset_idx pp) (m_pow_idx pp) = Some tpl"
  shows "\<exists>p q. getPowerData gd pp = Some p \<and> pow_index q = m_pow_idx pp \<and>
    reserveEnhancementSlot gd l (p\<lparr>pow_index := m_pow_idx pp, pow_level_bought := l\<rparr>) = Some q"
proof -
  obtain p where p: "getPowerData gd pp = Some p" "m_power_info p = pp"
    using assms by (auto simp: getPowerData_def)
  let ?p = "p\<lparr>pow_index := m_pow_idx pp, pow_level_bought := l\<rparr>"
  have "getPowerTemplate gd ?p = Some tpl" using assms p(2) by (simp add: getPowerTemplate_def)
  then obtain q where "reserveEnhancementSlot gd l ?p = Some q"
    by (cases "BoostsAllowed tpl = []") (auto simp: reserveEnhancementSlot_def Let_def)
  with p(1) reserve_index show ?thesis by fastforce
qed

section \<open>Requests in bounds\<close>

text \<open>
  The containers are accessed with the numbers of a message, and hardly any handler compares them with the
  sizes. A request is in bounds when what it names exists: a cell of the five by four tray, one of the ten slots
  for loose enhancements, a power and one of its slots, a template of the game's data. The powers are given by
  the templates they are made from.
\<close>

definition power_shape :: "character_data \<Rightarrow> power_pool_info list list" where
  "power_shape cd = map (\<lambda>s. map m_power_info (m_powers s)) (m_powersets cd)"

definition has_power :: "character_data \<Rightarrow> nat \<Rightarrow> nat \<Rightarrow> bool" where
  "has_power cd s p \<longleftrightarrow> s < length (power_shape cd) \<and> p < length (power_shape cd ! s)"

definition slots_of :: "character_data \<Rightarrow> nat \<Rightarrow> nat \<Rightarrow> nat" where
  "slots_of cd s p = length (pow_enhancements (m_powers (m_powersets cd ! s) ! p))"

definition template_of :: "game_data \<Rightarrow> power_pool_info \<Rightarrow> power_data option" where
  "template_of gd pp = get_power_template gd (m_pcat_idx pp) (m_pset_idx pp) (m_pow_idx pp)"

text \<open>Buying goes on until a number names no power, which one past the last power of a set does not, or until
  a power without a name.\<close>

fun buys_in_bounds :: "game_data \<Rightarrow> power_pool_info list list \<Rightarrow> int list \<Rightarrow> int list \<Rightarrow> nat list \<Rightarrow> bool" where
  "buys_in_bounds gd sh psets pows [] = True"
| "buys_in_bounds gd sh psets pows (i # is) =
    (i < length psets \<and> i < length pows \<and>
     (let s = u32_index (psets ! i); p = u32_index (pows ! i) in
      s \<ge> length sh \<or> p > length (sh ! s) \<or>
      p < length (sh ! s) \<and> (case template_of gd (sh ! s ! p) of None \<Rightarrow> False
        | Some tpl \<Rightarrow> power_name tpl = [] \<or> buys_in_bounds gd sh psets pows is)))"

fun request_in_bounds :: "game_data \<Rightarrow> power_request \<Rightarrow> character_data \<Rightarrow> bool" where
  "request_in_bounds gd (MoveInspiration sc sr dc dr) cd \<longleftrightarrow>
     sc < 5 \<and> sr < 4 \<and> (dc > m_max_insp_cols cd \<or> dr > m_max_insp_rows cd \<or> dc < 5 \<and> dr < 4)"
| "request_in_bounds gd (MoveEnhancement s d) cd \<longleftrightarrow> s < 10 \<and> d < 10"
| "request_in_bounds gd (SetEnhancement s p i d) cd \<longleftrightarrow> has_power cd s p \<and> i < 10 \<and> d < slots_of cd s p"
| "request_in_bounds gd (TrashEnhancement i) cd \<longleftrightarrow> i < 10"
| "request_in_bounds gd (TrashEnhancementInPower s p i) cd \<longleftrightarrow> has_power cd s p \<and> i < slots_of cd s p"
| "request_in_bounds gd (BuyEnhancementSlot n psets pows) cd \<longleftrightarrow> buys_in_bounds gd (power_shape cd) psets pows [0..<n]"
| "request_in_bounds gd (RecvNewPower pp) cd \<longleftrightarrow> template_of gd pp \<noteq> None"
| "request_in_bounds gd (CombineEnhancementsReq a b) cd \<longleftrightarrow>
     (let na = slots_of cd (eh_pset_idx a) (eh_pow_idx a); nb = slots_of cd (eh_pset_idx b) (eh_pow_idx b) in
      has_power cd (eh_pset_idx a) (eh_pow_idx a) \<and> (m_set_in_power b \<longrightarrow> has_power cd (eh_pset_idx b) (eh_pow_idx b)) \<and>
      (na < m_eh_idx a \<or> m_set_in_power b \<and> nb < m_eh_idx b \<or>
       m_eh_idx a < na \<and> m_eh_idx b < (if m_set_in_power b then nb else 10)))"

lemma map_same_update: "(map f xs)[p := f (xs ! p)] = map f xs"
  by (metis list_update_id map_update)

lemma has_power_at: "has_power cd s p \<longleftrightarrow> power_at cd s p \<noteq> None"
  by (auto simp: has_power_def power_shape_def power_at_def fetch_def split: bind_split)

lemma power_at_has: "has_power cd s p \<Longrightarrow> power_at cd s p = Some (m_powers (m_powersets cd ! s) ! p)"
  by (auto simp: has_power_def power_shape_def power_at_Some)

lemma set_power_has: "has_power cd s p \<Longrightarrow> set_power s p q cd = Some (cd\<lparr>m_powersets := (m_powersets cd)
    [s := (m_powersets cd ! s)\<lparr>m_powers := (m_powers (m_powersets cd ! s))[p := q]\<rparr>]\<rparr>)"
  by (auto simp: has_power_def power_shape_def set_power_def fetch_def store_def)

lemma set_power_shape:
  "has_power cd s p \<Longrightarrow> m_power_info q = m_power_info (m_powers (m_powersets cd ! s) ! p) \<Longrightarrow> set_power s p q cd = Some cd' \<Longrightarrow>
   power_shape cd' = power_shape cd"
  by (auto simp: set_power_has power_shape_def has_power_def map_update map_same_update)
    (rule map_same_update)

lemma tray_returns:
  assumes "mr \<le> 4"
  shows "map length g = replicate 5 4 \<Longrightarrow> grid_ok g \<Longrightarrow> remove_insp mc mr col row g \<noteq> None \<longleftrightarrow> col < 5 \<and> row < 4"
    and "map length g = replicate 5 4 \<Longrightarrow> grid_ok g \<Longrightarrow> col < 5 \<Longrightarrow> shift_insp mc mr col j g \<noteq> None"
    and "map length g = replicate 5 4 \<Longrightarrow> grid_ok g \<Longrightarrow> move_insp mc mr sc sr dc dr g \<noteq> None \<longleftrightarrow>
      sc < 5 \<and> sr < 4 \<and> (dc > mc \<or> dr > mr \<or> dc < 5 \<and> dr < 4)"
  using assms
proof (induction mc mr col row g and mc mr col j g and mc mr sc sr dc dr g rule: remove_insp_shift_insp_move_insp.induct)
  case (1 mc mr col row g)
  let ?i = "new_inspiration\<lparr>m_col := col, m_row := row\<rparr>"
  show ?case
  proof (cases "in_grid g col row")
    case True
    with "1.IH" [OF insp_set_in [OF True]] "1.prems" in_tray [OF "1.prems"(1), of col row] grid_ok_put [OF "1.prems"(2) True, of ?i]
    show ?thesis by (simp add: remove_insp.simps insp_set_in new_inspiration_def)
  next
    case False
    then have "insp_set g col row ?i = None" by (metis insp_set_Some option.exhaust)
    with False in_tray [OF "1.prems"(1), of col row] show ?thesis by (simp add: remove_insp.simps)
  qed
next
  case (2 mc mr col j g)
  show ?case
  proof (cases "j < mr \<and> \<not> j + 1 \<ge> mr")
    case True
    with "2.IH"(1) "2.prems" obtain g1 where g1: "move_insp mc mr col (j + 1) col j g = Some g1" by auto
    note d = grid_preserved(3) [OF g1 "2.prems"(2)]
    from "2.IH"(2) [OF _ _ g1] True d "2.prems" have "shift_insp mc mr col (j + 1) g1 \<noteq> None" by simp
    with g1 True show ?thesis by (simp add: shift_insp.simps [of mc mr col j])
  next
    case False
    then show ?thesis by (auto simp: shift_insp.simps)
  qed
next
  case (3 mc mr sc sr dc dr g)
  then show ?case by (auto simp: move_insp_eq in_tray)
qed

lemma reserve_info: "reserveEnhancementSlot gd l p = Some q \<Longrightarrow> m_power_info q = m_power_info p"
  by (auto simp: reserveEnhancementSlot_def bind_eq_Some_conv Let_def split: if_splits)

lemma reserve_returns: "getPowerTemplate gd p = Some tpl \<Longrightarrow> reserveEnhancementSlot gd l p \<noteq> None"
  by (simp add: reserveEnhancementSlot_def Let_def)

lemma buySlots_returns: "buySlots_loop gd is psets pows cd \<noteq> None \<longleftrightarrow> buys_in_bounds gd (power_shape cd) psets pows is"
proof (induction "is" arbitrary: cd)
  case (Cons i "is")
  show ?case
  proof (cases "i < length psets \<and> i < length pows")
    case False
    then show ?thesis by (auto simp: fetch_def)
  next
    case True
    let ?s = "u32_index (psets ! i)" and ?p = "u32_index (pows ! i)"
    have f: "fetch psets i = Some (psets ! i)" "fetch pows i = Some (pows ! i)" using True by simp_all
    consider "?s \<ge> length (power_shape cd) \<or> ?p > length (power_shape cd ! ?s)"
      | "\<not> (?s \<ge> length (power_shape cd) \<or> ?p > length (power_shape cd ! ?s))" "\<not> has_power cd ?s ?p"
      | "has_power cd ?s ?p" by blast
    then show ?thesis
    proof cases
      case 1
      then have "getOwnedPowerByVecIdx ?s ?p cd = Some None"
        by (cases "?s < length (m_powersets cd)") (auto simp: getOwnedPowerByVecIdx_def power_shape_def)
      with 1 f True show ?thesis by (auto simp: Let_def simp del: fetch_Some)
    next
      case 2
      then have "power_at cd ?s ?p = None" by (simp add: has_power_at)
      with 2(1) have "getOwnedPowerByVecIdx ?s ?p cd = None" by (auto simp: getOwnedPowerByVecIdx_def power_shape_def)
      with 2 f True show ?thesis by (auto simp: Let_def has_power_def simp del: fetch_Some)
    next
      case 3
      let ?q = "m_powers (m_powersets cd ! ?s) ! ?p"
      have q: "power_at cd ?s ?p = Some ?q" using power_at_has [OF 3] .
      have o: "getOwnedPowerByVecIdx ?s ?p cd = Some (Some (?s, ?p))"
        using 3 q by (auto simp: getOwnedPowerByVecIdx_def has_power_def power_shape_def)
      have sh: "?s < length (power_shape cd)" "?p < length (power_shape cd ! ?s)" "power_shape cd ! ?s ! ?p = m_power_info ?q"
        using 3 by (auto simp: has_power_def power_shape_def)
      have tpl: "getPowerTemplate gd ?q = template_of gd (power_shape cd ! ?s ! ?p)"
        unfolding sh(3) by (simp add: getPowerTemplate_def template_of_def)
      show ?thesis
      proof (cases "template_of gd (power_shape cd ! ?s ! ?p)")
        case None
        with f o q tpl sh True show ?thesis by (simp add: Let_def del: fetch_Some)
      next
        case (Some tp)
        show ?thesis
        proof (cases "power_name tp = []")
          case True
          with f o q tpl sh Some \<open>i < length psets \<and> i < length pows\<close> show ?thesis by (simp add: Let_def del: fetch_Some)
        next
          case False
          obtain q1 where q1: "reserveEnhancementSlot gd (char_level cd) ?q = Some q1"
            using reserve_returns [of gd ?q tp] tpl Some by auto
          obtain cd1 where cd1: "set_power ?s ?p q1 cd = Some cd1" using set_power_has [OF 3] by blast
          have "power_shape cd1 = power_shape cd" using set_power_shape [OF 3 reserve_info [OF q1] cd1] .
          with Cons.IH [of cd1] f o q q1 cd1 tpl sh Some False True show ?thesis by (simp add: Let_def del: fetch_Some)
        qed
      qed
    qed
  qed
qed simp

lemma getSet_eq:
  "getSetEnhancementBySlot s p k cd = (if \<not> has_power cd s p then None
     else Some (if k > slots_of cd s p then None else Some (InPower s p k)))"
  using power_at_has [of cd s p] has_power_at [of cd s p] by (auto simp: getSetEnhancementBySlot_def slots_of_def)

lemma read_returns: "read_enhancement (InPower s p k) cd \<noteq> None \<longleftrightarrow> has_power cd s p \<and> k < slots_of cd s p"
  using power_at_has [of cd s p] has_power_at [of cd s p]
  by (cases "power_at cd s p") (auto simp: read_enhancement_def slots_of_def fetch_def)

lemma write_returns:
  "write_enhancement (InPower s p k) e cd \<noteq> None \<longleftrightarrow> has_power cd s p \<and> k < slots_of cd s p"
  using power_at_has [of cd s p] has_power_at [of cd s p] set_power_has [of cd s p]
  by (cases "power_at cd s p") (auto simp: write_enhancement_def slots_of_def store_def)

lemma write_keeps:
  assumes "write_enhancement (InPower s p k) e cd = Some cd'"
  shows "has_power cd' s' p' = has_power cd s' p' \<and> slots_of cd' s' p' = slots_of cd s' p' \<and> m_enhancements cd' = m_enhancements cd"
proof -
  have h: "has_power cd s p" "k < slots_of cd s p" using write_returns [of s p k e cd] assms by auto
  let ?q = "m_powers (m_powersets cd ! s) ! p"
  have c: "set_power s p (?q\<lparr>pow_enhancements := (pow_enhancements ?q)[k := e]\<rparr>) cd = Some cd'"
    using assms power_at_has [OF h(1)] h(2) by (auto simp: write_enhancement_def store_def slots_of_def)
  have "power_shape cd' = power_shape cd" using set_power_shape [OF h(1) _ c] by simp
  moreover have "slots_of cd' s' p' = slots_of cd s' p'"
    using c h(1) set_power_has [OF h(1)] by (cases "s' = s"; cases "p' = p")
      (auto simp: slots_of_def has_power_def power_shape_def)
  moreover have "m_enhancements cd' = m_enhancements cd" using c set_power_has [OF h(1)] by auto
  ultimately show ?thesis by (simp add: has_power_def)
qed

lemma addPower_returns: "addPower gd pp cd \<noteq> None \<longleftrightarrow> template_of gd pp \<noteq> None"
proof (cases "template_of gd pp")
  case None
  then show ?thesis by (simp add: addPower_def getPowerData_def template_of_def)
next
  case (Some tpl)
  then obtain p q where "getPowerData gd pp = Some p"
    "reserveEnhancementSlot gd (char_level cd) (p\<lparr>pow_index := m_pow_idx pp, pow_level_bought := char_level cd\<rparr>) = Some q"
    using new_power_exists [of gd pp tpl "char_level cd"] by (auto simp: template_of_def)
  with Some show ?thesis by (auto simp: addPower_def split: option.split)
qed

lemma setEnhancement_returns:
  assumes "character_ok cd"
  shows "setEnhancement s p i d cd \<noteq> None \<longleftrightarrow> has_power cd s p \<and> i < 10 \<and> d < slots_of cd s p"
proof (cases "has_power cd s p")
  case True
  then show ?thesis
    using power_at_has [OF True] set_power_has [OF True] character_okD(4) [OF assms]
    by (auto simp: setEnhancement_def fetch_def store_def slots_of_def trashEnhancement_def)
next
  case False
  then have "power_at cd s p = None" by (simp add: has_power_at)
  with False show ?thesis by (simp add: setEnhancement_def)
qed

lemma combineEnhancements_returns:
  assumes "character_ok cd"
  shows "combineEnhancements gd dice a b cd \<noteq> None \<longleftrightarrow> request_in_bounds gd (CombineEnhancementsReq a b) cd"
proof -
  let ?s = "eh_pset_idx a" and ?p = "eh_pow_idx a" and ?s2 = "eh_pset_idx b" and ?p2 = "eh_pow_idx b"
  have ten: "length (m_enhancements cd) = 10" using character_okD(4) [OF assms] .
  let ?r2 = "if m_set_in_power b then InPower ?s2 ?p2 (m_eh_idx b) else InTray (m_eh_idx b)"
  consider (none) "\<not> has_power cd ?s ?p \<or> m_set_in_power b \<and> \<not> has_power cd ?s2 ?p2"
    | (behind) "has_power cd ?s ?p" "m_set_in_power b \<longrightarrow> has_power cd ?s2 ?p2"
      "slots_of cd ?s ?p < m_eh_idx a \<or> m_set_in_power b \<and> slots_of cd ?s2 ?p2 < m_eh_idx b"
    | (slots) "has_power cd ?s ?p" "m_set_in_power b \<longrightarrow> has_power cd ?s2 ?p2"
      "\<not> (slots_of cd ?s ?p < m_eh_idx a \<or> m_set_in_power b \<and> slots_of cd ?s2 ?p2 < m_eh_idx b)" by blast
  then show ?thesis
  proof cases
    case none
    then show ?thesis by (auto simp: combineEnhancements_def getSet_eq Let_def)
  next
    case behind
    then show ?thesis by (auto simp: combineEnhancements_def getSet_eq Let_def)
  next
    case slots
    have r1: "getSetEnhancementBySlot ?s ?p (m_eh_idx a) cd = Some (Some (InPower ?s ?p (m_eh_idx a)))"
      and r2: "(if m_set_in_power b then getSetEnhancementBySlot ?s2 ?p2 (m_eh_idx b) cd else Some (Some (InTray (m_eh_idx b)))) = Some (Some ?r2)"
      using slots by (auto simp: getSet_eq)
    have rd2: "read_enhancement ?r2 cd \<noteq> None \<longleftrightarrow> m_eh_idx b < (if m_set_in_power b then slots_of cd ?s2 ?p2 else 10)"
      using read_returns [of ?s2 ?p2 "m_eh_idx b" cd] slots(2) ten by (auto simp: read_enhancement_def fetch_def)
    have rd1: "read_enhancement (InPower ?s ?p (m_eh_idx a)) cd \<noteq> None \<longleftrightarrow> m_eh_idx a < slots_of cd ?s ?p"
      using read_returns slots(1) by simp
    have goal: "request_in_bounds gd (CombineEnhancementsReq a b) cd \<longleftrightarrow>
        read_enhancement (InPower ?s ?p (m_eh_idx a)) cd \<noteq> None \<and> read_enhancement ?r2 cd \<noteq> None"
      unfolding rd1 rd2 using slots by (simp add: Let_def)
    show ?thesis
    proof (cases "read_enhancement (InPower ?s ?p (m_eh_idx a)) cd \<noteq> None \<and> read_enhancement ?r2 cd \<noteq> None")
      case False
      with goal r1 r2 show ?thesis by (auto simp: combineEnhancements_def)
    next
      case True
      then obtain e1 e2 where e: "read_enhancement (InPower ?s ?p (m_eh_idx a)) cd = Some e1" "read_enhancement ?r2 cd = Some e2" by auto
      let ?w = "if dice < enhancementCombineChances gd e1 e2
        then write_enhancement (InPower ?s ?p (m_eh_idx a)) (e1\<lparr>m_num_combines := m_num_combines e1 + 1\<rparr>) cd else Some cd"
      have "?w \<noteq> None" using write_returns slots(1) True rd1 by simp
      then obtain cd1 where cd1: "?w = Some cd1" by blast
      then have keep: "has_power cd1 ?s2 ?p2 = has_power cd ?s2 ?p2 \<and> slots_of cd1 ?s2 ?p2 = slots_of cd ?s2 ?p2 \<and>
          m_enhancements cd1 = m_enhancements cd"
        using write_keeps by (auto split: if_splits)
      have "(if m_set_in_power b then trashComboEnhancement ?r2 (m_eh_idx b) cd1 else trashEnhancement (m_eh_idx b) cd1) \<noteq> None"
        using keep rd2 True slots(2) write_returns ten
        by (cases "m_set_in_power b") (simp_all add: trashComboEnhancement_def trashEnhancement_def store_def)
      then obtain cd2 where cd2:
        "(if m_set_in_power b then trashComboEnhancement ?r2 (m_eh_idx b) cd1 else trashEnhancement (m_eh_idx b) cd1) = Some cd2" by blast
      have "combineEnhancements gd dice a b cd \<noteq> None"
        unfolding combineEnhancements_def r1 r2 using e cd1 cd2 by (auto simp: Let_def)
      with goal True show ?thesis by simp
    qed
  qed
qed

lemma request_returns:
  assumes "character_ok cd"
  shows "on_power_request gd dice r cd \<noteq> None \<longleftrightarrow> request_in_bounds gd r cd"
proof (cases r)
  case (MoveInspiration sc sr dc dr)
  then show ?thesis
    using tray_returns(3) [OF character_okD(7,1,2) [OF assms], of "m_max_insp_cols cd" sc sr dc dr] by (auto simp: moveInspiration_def)
next
  case (TrashEnhancementInPower s p i)
  then show ?thesis using write_returns [of s p i "new_enhancement\<lparr>m_slot_idx := i\<rparr>" cd]
    by (auto simp: trashEnhancementInPower_def write_enhancement_def bind_eq_Some_conv)
next
  case (CombineEnhancementsReq a b)
  then show ?thesis using combineEnhancements_returns [OF assms, of gd dice a b]
    by (auto simp: on_combine_enhancements_def simp del: request_in_bounds.simps split: bind_split)
qed (use character_okD(4) [OF assms] in \<open>auto simp: moveEnhancement_eq setEnhancement_returns [OF assms] trashEnhancement_def store_def
      buyEnhancementSlots_def buySlots_returns addPower_returns simp del: not_None_eq buys_in_bounds.simps buySlots_loop.simps\<close>)

lemma handled_ok: "handle_power_requests gd rs cd = Some cd' \<Longrightarrow> character_ok cd \<Longrightarrow> character_ok cd'"
  by (induction gd rs cd rule: handle_power_requests.induct) (auto simp: bind_eq_Some_conv dest: on_power_request_ok)

lemma handled_None:
  "character_ok cd \<Longrightarrow> handle_power_requests gd rs cd = None \<longleftrightarrow>
    (\<exists>k < length rs. \<exists>cd1. handle_power_requests gd (take k rs) cd = Some cd1 \<and> \<not> request_in_bounds gd (snd (rs ! k)) cd1)"
proof (induction gd rs cd rule: handle_power_requests.induct)
  case (2 gd dice r rs cd)
  show ?case
  proof (cases "on_power_request gd dice r cd")
    case None
    then have "\<not> request_in_bounds gd r cd" using request_returns [OF "2.prems"] by blast
    with None show ?thesis by (auto intro!: exI [of _ 0])
  next
    case (Some cd1)
    have r: "request_in_bounds gd r cd" using request_returns [OF "2.prems", of gd dice r] Some by simp
    from "2.IH" [OF Some on_power_request_ok [OF Some "2.prems"]] Some r show ?thesis
      by (simp add: Ex_less_Suc2)
  qed
qed simp

end
