(* ===== verification/Power_Properties.thy ===== *)
theory Power_Properties
  imports Power_Requests
begin

text \<open>
  The properties of powers, enhancements and inspirations: every request of a client keeps the
  character well formed; removing an inspiration closes the gap; adding a power; and the cases in
  which requests of a client leave the containers or hit the wrong power.
\<close>

section \<open>Properties\<close>

text \<open>An example: a category with two sets, and a character that owns a power of the first one, has an
  inspiration in the second row of the first column and an enhancement.\<close>

definition example_power :: "string \<Rightarrow> power_data" where
  "example_power n = no_power_data\<lparr>power_name := bytes_of n, BoostsAllowed := [1]\<rparr>"

definition example_data :: game_data where
  "example_data = \<lparr>m_categories = [\<lparr>pcat_name = bytes_of ''Pool'', m_PowerSets =
      [\<lparr>pset_name = bytes_of ''Flight'', pset_Powers = [example_power ''Hover'', example_power ''Fly''], Available = [0, 3]\<rparr>,
       \<lparr>pset_name = bytes_of ''Leaping'', pset_Powers = [example_power ''Jump''], Available = [0]\<rparr>]\<rparr>],
    m_FreeBoostSlotsOnPower = [0, 4], CombineChances_same = [1, 1 / 2], CombineChances = [1 / 2]\<rparr>"

definition example_inspiration :: character_inspiration where
  "example_inspiration = new_inspiration\<lparr>insp_name := bytes_of ''Luck'', m_row := 1, m_has_insp := True\<rparr>"

definition sample_character :: character_data where
  "sample_character = \<lparr>char_level = 4, m_influence = 100,
    m_powersets = [\<lparr>pset_index = 0, pset_category = 0, pset_level_bought = 0, m_powers =
      [\<lparr>m_power_info = no_power_info, pow_index = 0, pow_level_bought = 0, m_total_eh_slots = 0, m_charges_remaining = 0,
        m_activate_period = 0, m_usage_time = 0, m_is_limited = False, pow_enhancements = []\<rparr>]\<rparr>],
    m_inspirations = (replicate 4 new_inspiration)[1 := example_inspiration] # replicate 4 (replicate 4 new_inspiration),
    m_enhancements = new_enhancement\<lparr>m_slot_used := True\<rparr> # replicate 9 new_enhancement,
    m_max_insp_cols = 5, m_max_insp_rows = 3, m_has_updated_powers = False, m_reset_powersets = False\<rparr>"

lemma grid_ok_code: "grid_ok g \<longleftrightarrow> (\<forall>c \<in> set [0..<length g]. \<forall>r \<in> set [0..<length (g ! c)].
    m_has_insp (g ! c ! r) \<longrightarrow> m_col (g ! c ! r) = c \<and> m_row (g ! c ! r) = r)"
  by (auto simp: grid_ok_def in_grid_def)

lemma slots_ok_code: "slots_ok es \<longleftrightarrow> (\<forall>i \<in> set [0..<length es]. m_slot_used (es ! i) \<longrightarrow> m_slot_idx (es ! i) = i)"
  by (auto simp: slots_ok_def)

lemma example_ok: "character_ok sample_character"
proof -
  have "grid_ok (m_inspirations sample_character)" unfolding grid_ok_code by code_simp
  moreover have "slots_ok (m_enhancements sample_character)" unfolding slots_ok_code by code_simp
  ultimately show ?thesis
    by (simp add: character_ok_def sample_character_def power_set_ok_def power_ok_def numeral_eq_Suc)
qed




text \<open>Removing an inspiration of the tray always succeeds; the inspirations behind it in its column move up
  by one row, the last row of the column is empty, and the other columns stay.
\<close>
theorem removing_closes_the_gap:
  assumes "character_ok cd" and "col < m_max_insp_cols cd" and "row < m_max_insp_rows cd"
  shows "map_option (\<lambda>cd'. tray (m_inspirations cd')) (removeInspiration col row cd) =
    Some ((tray (m_inspirations cd))[col := close_gap row (m_max_insp_rows cd) (tray (m_inspirations cd) ! col)])"
proof -
  let ?g = "m_inspirations cd" and ?blank = "new_inspiration\<lparr>m_col := col, m_row := row\<rparr>"
  have d: "map length ?g = replicate 5 4" "col < 5" "row < 4" "m_max_insp_rows cd \<le> 4"
    using assms by (auto simp: character_ok_def)
  have g: "in_grid ?g col row" "length ?g = 5" "length (?g ! col) = 4"
    using d by (auto simp: in_tray tray_column)
  let ?p = "put ?g col row ?blank"
  have p: "length ?p = 5" "length (?p ! col) = 4" using g d(2) by (auto simp: put_def)
  have tp: "tray ?p = (tray ?g)[col := (tray ?g ! col)[row := None]]"
    using g(2) d(2) by (simp add: tray_put held_def new_inspiration_def)
  obtain g' where g': "shift_insp (m_max_insp_cols cd) (m_max_insp_rows cd) col row ?p = Some g'"
    "tray g' = (tray ?p)[col := move_to_end row (m_max_insp_rows cd) (tray ?p ! col)]"
    using shift_insp_tray [of col "m_max_insp_cols cd" ?p "m_max_insp_rows cd" row] assms d p by auto
  have len: "length (tray ?g ! col) = 4" "col < length (tray ?g)" using g d(2) by (simp_all add: tray_def)
  have "tray g' = (tray ?g)[col := close_gap row (m_max_insp_rows cd) (tray ?g ! col)]"
    unfolding g'(2) tp using len assms(3) d(4) by (simp add: move_to_end_gap)
  with g'(1) g(1) show ?thesis
    by (simp add: removeInspiration_def remove_insp.simps insp_set_in)
qed

theorem removing_closes_the_gap_witness:
  "map_option (\<lambda>cd'. tray (m_inspirations cd')) (removeInspiration 0 0 sample_character) =
    Some ((tray (m_inspirations sample_character))[0 := close_gap 0 3 (tray (m_inspirations sample_character) ! 0)])"
  using removing_closes_the_gap [OF example_ok, of 0 0] by (simp add: sample_character_def)

text \<open>A power of the game's data that is added is owned afterwards, no owned power is lost, and
  adding it again changes nothing.
\<close>
theorem added_power_is_owned:
  assumes "get_power_template gd (m_pcat_idx pp) (m_pset_idx pp) (m_pow_idx pp) = Some tpl"
  shows "\<exists>cd'. addPower gd pp cd = Some cd' \<and> owns pp cd' \<and> (owns other cd \<longrightarrow> owns other cd') \<and> addPower gd pp cd' = Some cd'"
proof -
  obtain p q where p: "getPowerData gd pp = Some p" "pow_index q = m_pow_idx pp"
    "reserveEnhancementSlot gd (char_level cd) (p\<lparr>pow_index := m_pow_idx pp, pow_level_bought := char_level cd\<rparr>) = Some q"
    using new_power_exists [OF assms] by blast
  let ?new = "\<lparr>pset_index = m_pset_idx pp, pset_category = m_pcat_idx pp, pset_level_bought = char_level cd, m_powers = [q]\<rparr>"
  show ?thesis
  proof (cases "addPower_loop q (m_pcat_idx pp) (m_pset_idx pp) (m_powersets cd)")
    case None
    have "addPower_loop q (m_pcat_idx pp) (m_pset_idx pp) (ss @ [?new]) = Some (ss @ [?new])"
      if "addPower_loop q (m_pcat_idx pp) (m_pset_idx pp) ss = None" for ss
      using that by (induction ss) (auto split: if_splits)
    with None p show ?thesis by (auto simp: addPower_def owns_def)
  next
    case (Some ss)
    note o = addPower_loop_owned [OF Some] addPower_loop_again [OF Some refl] addPower_loop_keeps [OF Some]
    from o p Some show ?thesis by (cases "ss = m_powersets cd") (auto simp: addPower_def owns_def)
  qed
qed

theorem added_power_is_owned_witness:
  "\<exists>cd'. addPower example_data \<lparr>m_pcat_idx = 0, m_pset_idx = 1, m_pow_idx = 0\<rparr> sample_character = Some cd' \<and>
     owns \<lparr>m_pcat_idx = 0, m_pset_idx = 1, m_pow_idx = 0\<rparr> cd' \<and> owns no_power_info cd'"
proof -
  have "get_power_template example_data 0 1 0 = Some (example_power ''Jump'')" by code_simp
  moreover have "owns no_power_info sample_character" by (simp add: owns_def sample_character_def no_power_info_def)
  ultimately show ?thesis
    using added_power_is_owned [of example_data "\<lparr>m_pcat_idx = 0, m_pset_idx = 1, m_pow_idx = 0\<rparr>" "example_power ''Jump''"
      sample_character no_power_info] by auto
qed

text \<open>Removing a power looks at its index within a set only: when the first set of the character has
  a power of that index it loses that one, whatever set was meant, and the power that was meant stays.
\<close>
theorem first_set_loses_power:
  assumes "m_powersets cd = s # ss" and "m_pow_idx pp \<in> pow_index ` set (m_powers s)"
    and "pset_category s \<noteq> m_pcat_idx pp \<or> pset_index s \<noteq> m_pset_idx pp" and "owns pp cd"
  shows "owns pp (removePower pp cd) \<and> m_powersets (removePower pp cd) =
    s\<lparr>m_powers := remove_first (\<lambda>p. pow_index p = m_pow_idx pp) (m_powers s)\<rparr> # ss"
  using assms by (auto simp: removePower_def owns_def)

theorem first_set_loses_power_witness:
  "\<exists>cd. owns \<lparr>m_pcat_idx = 0, m_pset_idx = 1, m_pow_idx = 0\<rparr> cd \<and>
     owns \<lparr>m_pcat_idx = 0, m_pset_idx = 1, m_pow_idx = 0\<rparr> (removePower \<lparr>m_pcat_idx = 0, m_pset_idx = 1, m_pow_idx = 0\<rparr> cd) \<and>
     owns no_power_info cd \<and> \<not> owns no_power_info (removePower \<lparr>m_pcat_idx = 0, m_pset_idx = 1, m_pow_idx = 0\<rparr> cd)"
proof -
  let ?pp = "\<lparr>m_pcat_idx = 0, m_pset_idx = 1, m_pow_idx = 0\<rparr>"
  let ?s = "hd (m_powersets sample_character)"
  let ?t = "?s\<lparr>pset_index := 1\<rparr>"
  let ?cd = "sample_character\<lparr>m_powersets := [?s, ?t]\<rparr>"
  have a: "owns ?pp ?cd" "owns no_power_info ?cd" by (simp_all add: owns_def sample_character_def no_power_info_def)
  have "owns ?pp (removePower ?pp ?cd) \<and> m_powersets (removePower ?pp ?cd) =
      ?s\<lparr>m_powers := remove_first (\<lambda>p. pow_index p = m_pow_idx ?pp) (m_powers ?s)\<rparr> # [?t]"
    by (rule first_set_loses_power) (use a(1) in \<open>auto simp: sample_character_def\<close>)
  then have "owns ?pp (removePower ?pp ?cd)" "\<not> owns no_power_info (removePower ?pp ?cd)"
    by (auto simp: owns_def sample_character_def no_power_info_def)
  with a show ?thesis by blast
qed

text \<open>The check of \<open>moveInspiration\<close> is off by one: a client that moves an inspiration to the column just
  outside a full tray makes the server access memory outside of it.
\<close>
theorem move_beyond_tray:
  assumes "character_ok cd" and "m_max_insp_cols cd = 5" and "dest_row \<le> m_max_insp_rows cd"
  shows "on_power_request gd dice (MoveInspiration src_col src_row (m_max_insp_cols cd) dest_row) cd = None"
  using assms by (simp add: moveInspiration_def move_insp_eq in_tray character_okD(1))

theorem move_beyond_tray_witness:
  "on_power_request example_data 0 (MoveInspiration 0 1 5 0) sample_character = None"
  using move_beyond_tray [OF example_ok, of 0 example_data 0 0 1] by (simp add: sample_character_def)

end
