(* ===== verification/Trade_Model.thy ===== *)
theory Trade_Model
  imports Power_Sets
begin

text \<open>
  Trades between two players: the trade itself (\<^verbatim>\<open>Common/GameData/Trade.h\<close>, \<^verbatim>\<open>Trade.cpp\<close>), the slash commands
  that begin one (\<^verbatim>\<open>SlashCommand_Trade.cpp\<close>) and the handlers of the map server (\<^verbatim>\<open>MapInstance.cpp\<close>).

  A trade is a shared object: the two entities hold pointers to it, which are positions in the list of
  all trades ever made. The entities of a map are a list in the order in which the server walks over
  them, and a pointer to an entity is a position in it. Only players have a client; the messages for
  clients are the outputs. Dereferencing a null pointer is \<open>None\<close>.
\<close>

section \<open>Data\<close>

datatype trade_system_messages =
    SUCCESS | GENERIC_FAILURE | NOT_ENOUGH_ROOM_INFLUENCE | NOT_ENOUGH_ROOM_ENHANCEMENTS | NOT_ENOUGH_ROOM_INSPIRATIONS
  | SRC_ALREADY_IN_TRADE | TGT_ALREADY_IN_TRADE | SRC_CONSIDERING_ANOTHER_TRADE | TGT_CONSIDERING_ANOTHER_TRADE
  | SEND_TRADE_OFFER | TRADE_REQUEST_IS_VALID | HAS_SENT_NO_TRADE | TGT_RECV_NO_TRADE | SRC_RECV_NO_TRADE
  | NOT_CONSIDERING_TRADE | ACCEPTED_TRADE | DECLINED_TRADE

record trade_info =
  info_db_id :: u32
  m_accepted :: bool
  info_influence :: u32
  info_enhancements :: "nat list"
  info_inspirations :: "(nat \<times> nat) list"

definition no_trade_info :: trade_info where
  "no_trade_info = \<lparr>info_db_id = 0, m_accepted = False, info_influence = 0, info_enhancements = [], info_inspirations = []\<rparr>"

definition isEqualContent :: "trade_info \<Rightarrow> trade_info \<Rightarrow> bool" where
  "isEqualContent a b \<longleftrightarrow> info_influence a = info_influence b \<and> info_enhancements a = info_enhancements b \<and>
     info_inspirations a = info_inspirations b"

record trade_member =
  member_db_id :: u32
  m_info :: trade_info

record trade =
  m_member_a :: trade_member
  m_member_b :: trade_member
  m_invite_accepted :: bool

record trade_entity =
  ent_idx :: nat
  ent_db_id :: u32
  ent_name :: text_bytes
  ent_char :: character_data
  ent_trade :: "nat option"
  ent_client :: bool
  ent_target :: nat

record trade_world =
  live :: "trade_entity list"
  trades :: "trade list"

definition new_trade :: "trade_entity \<Rightarrow> trade_entity \<Rightarrow> trade" where
  "new_trade a b = \<lparr>m_member_a = \<lparr>member_db_id = ent_db_id a, m_info = no_trade_info\<rparr>,
     m_member_b = \<lparr>member_db_id = ent_db_id b, m_info = no_trade_info\<rparr>, m_invite_accepted = False\<rparr>"

section \<open>Members\<close>

definition getMember :: "trade_entity \<Rightarrow> trade \<Rightarrow> trade_member" where
  "getMember e t = (if member_db_id (m_member_a t) = ent_db_id e then m_member_a t else m_member_b t)"

definition getOtherMember :: "trade_entity \<Rightarrow> trade \<Rightarrow> trade_member" where
  "getOtherMember e t = (if member_db_id (m_member_a t) = ent_db_id e then m_member_b t else m_member_a t)"

text \<open>An assignment through the reference that \<open>getMember\<close> returns.\<close>

definition set_member_info :: "trade_entity \<Rightarrow> (trade_info \<Rightarrow> trade_info) \<Rightarrow> trade \<Rightarrow> trade" where
  "set_member_info e f t =
    (if member_db_id (m_member_a t) = ent_db_id e then t\<lparr>m_member_a := (m_member_a t)\<lparr>m_info := f (m_info (m_member_a t))\<rparr>\<rparr>
     else t\<lparr>m_member_b := (m_member_b t)\<lparr>m_info := f (m_info (m_member_b t))\<rparr>\<rparr>)"

definition isAccepted :: "trade \<Rightarrow> bool" where
  "isAccepted t \<longleftrightarrow> m_accepted (m_info (m_member_a t)) \<and> m_accepted (m_info (m_member_b t))"

section \<open>Entities and their trades\<close>

definition set_ent :: "nat \<Rightarrow> (trade_entity \<Rightarrow> trade_entity) \<Rightarrow> trade_world \<Rightarrow> trade_world" where
  "set_ent e f w = w\<lparr>live := (live w)[e := f (live w ! e)]\<rparr>"

definition set_char :: "nat \<Rightarrow> character_data \<Rightarrow> trade_world \<Rightarrow> trade_world" where
  "set_char e cd = set_ent e (\<lambda>x. x\<lparr>ent_char := cd\<rparr>)"

definition discardTrade :: "nat \<Rightarrow> trade_world \<Rightarrow> trade_world" where
  "discardTrade e = set_ent e (\<lambda>x. x\<lparr>ent_trade := None\<rparr>)"

text \<open>\<open>*src.m_trade\<close>\<close>

definition trade_of :: "nat \<Rightarrow> trade_world \<Rightarrow> trade option" where
  "trade_of e w = do { x \<leftarrow> fetch (live w) e; k \<leftarrow> ent_trade x; fetch (trades w) k }"

definition put_trade :: "nat \<Rightarrow> trade \<Rightarrow> trade_world \<Rightarrow> trade_world" where
  "put_trade e t w = (case ent_trade (live w ! e) of None \<Rightarrow> w | Some k \<Rightarrow> w\<lparr>trades := (trades w)[k := t]\<rparr>)"

section \<open>Room\<close>

definition hasRoomForTradeInfluence :: "trade \<Rightarrow> trade_entity \<Rightarrow> trade_system_messages" where
  "hasRoomForTradeInfluence t src =
    (let info_src = m_info (getMember src t); info_tgt = m_info (getOtherMember src t);
         inf = (m_influence (ent_char src) - info_influence info_src) + info_influence info_tgt
     in if inf < info_influence info_tgt then NOT_ENOUGH_ROOM_INFLUENCE else SUCCESS)"

definition hasRoomForTradeEnhancements :: "trade \<Rightarrow> trade_entity \<Rightarrow> trade_system_messages" where
  "hasRoomForTradeEnhancements t src =
    (let info_src = m_info (getMember src t); info_tgt = m_info (getOtherMember src t);
         num_enh = int (getNumberEnhancements (ent_char src)) - int (length (info_enhancements info_src)) + int (length (info_enhancements info_tgt))
     in if num_enh > int (getMaxNumberEnhancements (ent_char src)) then NOT_ENOUGH_ROOM_ENHANCEMENTS else SUCCESS)"

definition hasRoomForTradeInspirations :: "trade \<Rightarrow> trade_entity \<Rightarrow> trade_system_messages option" where
  "hasRoomForTradeInspirations t src = do {
     n \<leftarrow> getNumberInspirations (ent_char src);
     let info_src = m_info (getMember src t); info_tgt = m_info (getOtherMember src t);
         num_insp = int n - int (length (info_inspirations info_src)) + int (length (info_inspirations info_tgt))
     in Some (if num_insp > int (getMaxNumberInspirations (ent_char src)) then NOT_ENOUGH_ROOM_INSPIRATIONS else SUCCESS) }"

definition hasRoomForTrade :: "trade \<Rightarrow> trade_entity \<Rightarrow> trade_system_messages option" where
  "hasRoomForTrade t src =
    (let result = hasRoomForTradeInfluence t src in
     if result \<noteq> SUCCESS then Some result
     else let result = hasRoomForTradeEnhancements t src in
       if result \<noteq> SUCCESS then Some result
       else hasRoomForTradeInspirations t src)"

section \<open>Exchange\<close>

fun removeTradedEnhancements :: "nat list \<Rightarrow> character_data \<Rightarrow> (character_enhancement list \<times> character_data) option" where
  "removeTradedEnhancements [] cd = Some ([], cd)"
| "removeTradedEnhancements (idx # is) cd =
    (case getEnhancement idx cd of
       None \<Rightarrow> removeTradedEnhancements is cd
     | Some enh \<Rightarrow> do {
         cd \<leftarrow> trashEnhancement idx cd;
         (result, cd) \<leftarrow> removeTradedEnhancements is cd;
         Some (enh # result, cd) })"

fun addTradedEnhancements :: "character_enhancement list \<Rightarrow> character_data \<Rightarrow> character_data" where
  "addTradedEnhancements [] cd = cd"
| "addTradedEnhancements (enh # enhs) cd = addTradedEnhancements enhs (addEnhancementToChar enh cd)"

fun removeTradedInspirations :: "(nat \<times> nat) list \<Rightarrow> character_data \<Rightarrow> (character_inspiration list \<times> character_data) option" where
  "removeTradedInspirations [] cd = Some ([], cd)"
| "removeTradedInspirations ((col, row) # is) cd = do {
     insp \<leftarrow> getInspiration col row cd;
     case insp of
       None \<Rightarrow> removeTradedInspirations is cd
     | Some insp \<Rightarrow> do {
         cd \<leftarrow> removeInspiration col row cd;
         (result, cd) \<leftarrow> removeTradedInspirations is cd;
         Some (insp # result, cd) } }"

fun addTradedInspirations :: "character_inspiration list \<Rightarrow> character_data \<Rightarrow> character_data option" where
  "addTradedInspirations [] cd = Some cd"
| "addTradedInspirations (insp # insps) cd = do { cd \<leftarrow> addInspirationToChar insp cd; addTradedInspirations insps cd }"

section \<open>The trade\<close>

definition requestTrade :: "nat \<Rightarrow> nat \<Rightarrow> trade_world \<Rightarrow> (trade_system_messages \<times> trade_world) option" where
  "requestTrade src tgt w = do {
     s \<leftarrow> fetch (live w) src; t \<leftarrow> fetch (live w) tgt;
     if ent_trade s \<noteq> None then do {
       tr \<leftarrow> trade_of src w;
       Some (if m_invite_accepted tr then SRC_ALREADY_IN_TRADE else SRC_CONSIDERING_ANOTHER_TRADE, w) }
     else if ent_trade t \<noteq> None then do {
       tr \<leftarrow> trade_of tgt w;
       Some (if m_invite_accepted tr then TGT_ALREADY_IN_TRADE else TGT_CONSIDERING_ANOTHER_TRADE, w) }
     else
       let k = length (trades w);
           w = w\<lparr>trades := trades w @ [new_trade s t]\<rparr>;
           w = set_ent src (\<lambda>x. x\<lparr>ent_trade := Some k\<rparr>) w;
           w = set_ent tgt (\<lambda>x. x\<lparr>ent_trade := Some k\<rparr>) w
       in Some (SEND_TRADE_OFFER, w) }"

definition checkValidTradeResponse :: "trade_entity \<Rightarrow> trade_entity \<Rightarrow> trade_system_messages" where
  "checkValidTradeResponse src tgt =
    (if ent_trade src = None then HAS_SENT_NO_TRADE
     else if ent_trade tgt = None then TGT_RECV_NO_TRADE
     else if ent_trade src \<noteq> ent_trade tgt then SRC_RECV_NO_TRADE
     else TRADE_REQUEST_IS_VALID)"

definition acceptTrade :: "nat \<Rightarrow> nat \<Rightarrow> trade_world \<Rightarrow> (trade_system_messages \<times> trade_world) option" where
  "acceptTrade src tgt w = do {
     s \<leftarrow> fetch (live w) src; t \<leftarrow> fetch (live w) tgt;
     let result = checkValidTradeResponse s t in
     if result \<noteq> TRADE_REQUEST_IS_VALID then Some (result, w)
     else do {
       tr \<leftarrow> trade_of src w;
       Some (ACCEPTED_TRADE, put_trade src (tr\<lparr>m_invite_accepted := True\<rparr>) w) } }"

definition declineTrade :: "nat \<Rightarrow> nat \<Rightarrow> trade_world \<Rightarrow> (trade_system_messages \<times> trade_world) option" where
  "declineTrade src tgt w = do {
     s \<leftarrow> fetch (live w) src; t \<leftarrow> fetch (live w) tgt;
     let result = checkValidTradeResponse s t in
     if result \<noteq> TRADE_REQUEST_IS_VALID then Some (result, w)
     else Some (DECLINED_TRADE, discardTrade tgt (discardTrade src w)) }"

text \<open>What \<open>updateTrade\<close> does with the trade object; \<open>s\<close> is the sender and \<open>t\<close> the entity it named.\<close>

definition update_offer :: "trade_entity \<Rightarrow> trade_entity \<Rightarrow> trade_info \<Rightarrow> trade \<Rightarrow> trade" where
  "update_offer s t info tr =
    (let is_content_modified = \<not> isEqualContent (m_info (getMember s tr)) info;
         tr = set_member_info s (\<lambda>_. info) tr
     in if is_content_modified
        then set_member_info t (\<lambda>i. i\<lparr>m_accepted := False\<rparr>) (set_member_info s (\<lambda>i. i\<lparr>m_accepted := False\<rparr>) tr)
        else tr)"

definition updateTrade :: "nat \<Rightarrow> nat \<Rightarrow> trade_info \<Rightarrow> trade_world \<Rightarrow> (trade_system_messages \<times> trade_world) option" where
  "updateTrade src tgt info w = do {
     s \<leftarrow> fetch (live w) src; t \<leftarrow> fetch (live w) tgt;
     if ent_trade s \<noteq> ent_trade t then Some (GENERIC_FAILURE, w)
     else if ent_trade s = None \<or> ent_trade t = None then Some (GENERIC_FAILURE, w)
     else do {
       tr \<leftarrow> trade_of src w;
       let tr = update_offer s t info tr;
       result \<leftarrow> hasRoomForTrade tr s;
       if m_accepted (m_info (getMember s tr)) \<and> result \<noteq> SUCCESS
       then Some (result, put_trade src (set_member_info s (\<lambda>i. i\<lparr>m_accepted := False\<rparr>) tr) w)
       else Some (SUCCESS, put_trade src tr w) } }"

definition character_of :: "nat \<Rightarrow> trade_world \<Rightarrow> character_data" where
  "character_of e w = ent_char (live w ! e)"

definition finishTrade :: "nat \<Rightarrow> nat \<Rightarrow> trade_world \<Rightarrow> trade_world option" where
  "finishTrade src tgt w = do {
     s \<leftarrow> fetch (live w) src; t \<leftarrow> fetch (live w) tgt;
     tr \<leftarrow> trade_of src w;
     let info_src = m_info (getMember s tr);
     let info_tgt = m_info (getMember t tr);
     let inf_src = (m_influence (character_of src w) - info_influence info_src) + info_influence info_tgt;
     let inf_tgt = (m_influence (character_of tgt w) - info_influence info_tgt) + info_influence info_src;
     let w = set_char src ((character_of src w)\<lparr>m_influence := inf_src\<rparr>) w;
     let w = set_char tgt ((character_of tgt w)\<lparr>m_influence := inf_tgt\<rparr>) w;
     (enhs_src, c) \<leftarrow> removeTradedEnhancements (info_enhancements info_src) (character_of src w); let w = set_char src c w;
     (enhs_tgt, c) \<leftarrow> removeTradedEnhancements (info_enhancements info_tgt) (character_of tgt w); let w = set_char tgt c w;
     let w = set_char src (addTradedEnhancements enhs_tgt (character_of src w)) w;
     let w = set_char tgt (addTradedEnhancements enhs_src (character_of tgt w)) w;
     (insps_src, c) \<leftarrow> removeTradedInspirations (info_inspirations info_src) (character_of src w); let w = set_char src c w;
     (insps_tgt, c) \<leftarrow> removeTradedInspirations (info_inspirations info_tgt) (character_of tgt w); let w = set_char tgt c w;
     c \<leftarrow> addTradedInspirations insps_tgt (character_of src w); let w = set_char src c w;
     c \<leftarrow> addTradedInspirations insps_src (character_of tgt w); let w = set_char tgt c w;
     Some (discardTrade tgt (discardTrade src w)) }"

end
