(* ===== verification/Trade_Handler.thy ===== *)
theory Trade_Handler
  imports Trade_Model BitStream_Messages
begin

text \<open>
  How a map server handles trades: the slash commands \<open>trade\<close>, \<open>trade_accept\<close> and \<open>trade_decline\<close>, the
  updates and cancellations of the trade window, the messages to the two clients, and the two messages
  that carry offers over the \<open>BitStream\<close>. A session is given by the entity it plays.
\<close>

section \<open>Messages to clients\<close>

datatype info_channel = SERVER | USER_ERROR

record trade_update =
  m_trade_self :: trade_member
  m_trade_other :: trade_member
  upd_enhancements :: "character_enhancement list"
  upd_inspirations :: "character_inspiration list"

text \<open>The first argument of an output is the entity whose client gets it.\<close>

datatype trade_output =
    InfoMessage nat info_channel text_bytes
  | TradeOffer nat u32 text_bytes
  | TradeInit nat u32
  | TradeCancel nat text_bytes
  | TradeUpdate nat trade_update
  | TradeSuccess nat text_bytes

definition client_of :: "nat \<Rightarrow> trade_world \<Rightarrow> trade_entity option" where
  "client_of e w = do { x \<leftarrow> fetch (live w) e; if ent_client x then Some x else None }"

fun getTradedEnhancements :: "character_data \<Rightarrow> nat list \<Rightarrow> character_enhancement list" where
  "getTradedEnhancements cd [] = []"
| "getTradedEnhancements cd (idx # is) =
    (case getEnhancement idx cd of None \<Rightarrow> getTradedEnhancements cd is | Some e \<Rightarrow> e # getTradedEnhancements cd is)"

fun getTradedInspirations :: "character_data \<Rightarrow> (nat \<times> nat) list \<Rightarrow> character_inspiration list option" where
  "getTradedInspirations cd [] = Some []"
| "getTradedInspirations cd ((col, row) # is) = do {
     i \<leftarrow> getInspiration col row cd; rest \<leftarrow> getTradedInspirations cd is;
     Some (case i of None \<Rightarrow> rest | Some i \<Rightarrow> i # rest) }"

definition new_TradeUpdate :: "trade_member \<Rightarrow> trade_member \<Rightarrow> trade_entity \<Rightarrow> trade_update option" where
  "new_TradeUpdate trade_self trade_other entity_other = do {
     insps \<leftarrow> getTradedInspirations (ent_char entity_other) (info_inspirations (m_info trade_other));
     Some \<lparr>m_trade_self = trade_self, m_trade_other = trade_other,
       upd_enhancements = getTradedEnhancements (ent_char entity_other) (info_enhancements (m_info trade_other)),
       upd_inspirations = insps\<rparr> }"

definition sendTradeUpdate :: "nat \<Rightarrow> nat \<Rightarrow> trade_member \<Rightarrow> trade_member \<Rightarrow> trade_world \<Rightarrow> trade_output list option" where
  "sendTradeUpdate src tgt trade_src trade_tgt w = do {
     s \<leftarrow> client_of src w; t \<leftarrow> client_of tgt w;
     a \<leftarrow> new_TradeUpdate trade_src trade_tgt t; b \<leftarrow> new_TradeUpdate trade_tgt trade_src s;
     Some [TradeUpdate src a, TradeUpdate tgt b] }"

definition sendTradeSuccess :: "nat \<Rightarrow> nat \<Rightarrow> trade_world \<Rightarrow> trade_output list option" where
  "sendTradeSuccess src tgt w = do {
     s \<leftarrow> client_of src w; t \<leftarrow> client_of tgt w;
     Some [TradeSuccess src (bytes_of ''Trade with '' @ ent_name t @ bytes_of '' was a success.''),
           TradeSuccess tgt (bytes_of ''Trade with '' @ ent_name s @ bytes_of '' was a success.'')] }"

section \<open>Finding entities\<close>

text \<open>The first entity of the map with the property.\<close>

definition first_entity :: "(trade_entity \<Rightarrow> bool) \<Rightarrow> trade_world \<Rightarrow> nat option" where
  "first_entity P w = find (\<lambda>e. P (live w ! e)) [0..<length (live w)]"

definition getEntityByDBID :: "u32 \<Rightarrow> trade_world \<Rightarrow> nat option" where
  "getEntityByDBID db_id w = (if db_id = 0 then None else first_entity (\<lambda>e. ent_db_id e = db_id) w)"

text \<open>A target that has left counts as the entity itself.\<close>

definition getTargetEntity :: "nat \<Rightarrow> trade_world \<Rightarrow> nat option" where
  "getTargetEntity me w =
    (let idx = ent_target (live w ! me) in
     if idx = 0 then None
     else case first_entity (\<lambda>e. ent_idx e = idx) w of None \<Rightarrow> Some me | Some e \<Rightarrow> Some e)"

definition getEntity :: "nat \<Rightarrow> text_bytes \<Rightarrow> trade_world \<Rightarrow> nat option \<times> trade_output list" where
  "getEntity me nm w =
    (if nm = [] then (getTargetEntity me w, [])
     else if equal_ignoring_case nm (ent_name (live w ! me)) then (Some me, [])
     else case first_entity (\<lambda>e. ent_name e = nm) w of
       Some e \<Rightarrow> (Some e, [])
     | None \<Rightarrow> (None, [InfoMessage me USER_ERROR (bytes_of ''Entity '' @ nm @ bytes_of '' does not exist, or is not currently online.'')]))"

section \<open>Slash commands\<close>

definition cmdHandler_Trade :: "nat \<Rightarrow> text_bytes \<Rightarrow> trade_world \<Rightarrow> (trade_world \<times> trade_output list) option" where
  "cmdHandler_Trade me nm w =
    (case getEntity me nm w of
       (None, out) \<Rightarrow> Some (w, out)
     | (Some tgt, out) \<Rightarrow> do {
         s \<leftarrow> fetch (live w) me; t \<leftarrow> fetch (live w) tgt;
         (result, w) \<leftarrow> requestTrade me tgt w;
         (out, msg) \<leftarrow> (case result of
             SRC_ALREADY_IN_TRADE \<Rightarrow> Some (out, bytes_of ''You are already in a trade.'')
           | SRC_CONSIDERING_ANOTHER_TRADE \<Rightarrow> Some (out, bytes_of ''You are already considering a trade offer.'')
           | TGT_ALREADY_IN_TRADE \<Rightarrow> Some (out, ent_name t @ bytes_of '' is already in a trade.'')
           | TGT_CONSIDERING_ANOTHER_TRADE \<Rightarrow> Some (out, ent_name t @ bytes_of '' is already considering a trade offer.'')
           | SEND_TRADE_OFFER \<Rightarrow> do {
               client_of tgt w;
               Some (out @ [TradeOffer tgt (ent_db_id t) (ent_name s),
                 InfoMessage tgt SERVER (ent_name s @ bytes_of '' sent a trade request.'')],
                 bytes_of ''You sent a trade request to '' @ ent_name t @ bytes_of ''.'') }
           | _ \<Rightarrow> Some (out, bytes_of ''Something went wrong with trade request!''));
         client_of me w;
         Some (w, out @ [InfoMessage me SERVER msg]) })"

definition response_text :: "trade_system_messages \<Rightarrow> text_bytes \<Rightarrow> text_bytes \<Rightarrow> text_bytes" where
  "response_text result other what =
    (case result of
       HAS_SENT_NO_TRADE \<Rightarrow> bytes_of ''You have not sent a trade offer.''
     | TGT_RECV_NO_TRADE \<Rightarrow> other @ bytes_of '' has not received a trade offer.''
     | SRC_RECV_NO_TRADE \<Rightarrow> bytes_of ''You are not considering a trade offer from '' @ other @ bytes_of ''.''
     | _ \<Rightarrow> bytes_of ''Something went wrong with trade '' @ what @ bytes_of ''!'')"

definition cmdHandler_TradeAccept :: "nat \<Rightarrow> text_bytes list \<Rightarrow> trade_world \<Rightarrow> (trade_world \<times> trade_output list) option" where
  "cmdHandler_TradeAccept me params w =
    (if length params < 3 then Some (discardTrade me w, [])
     else case getEntity me (params ! 0) w of
       (None, out) \<Rightarrow> Some (discardTrade me w, out)
     | (Some from_ent, out) \<Rightarrow> do {
         s \<leftarrow> fetch (live w) me; f \<leftarrow> fetch (live w) from_ent;
         (result, w) \<leftarrow> acceptTrade me from_ent w;
         if result = ACCEPTED_TRADE then do {
           client_of me w; client_of from_ent w;
           Some (w, out @ [TradeInit from_ent (ent_db_id s), TradeInit me (ent_db_id f),
             InfoMessage from_ent SERVER (ent_name s @ bytes_of '' accepted your trade invite.''),
             InfoMessage me SERVER (bytes_of ''You accepted the trade invite from '' @ ent_name f @ bytes_of ''.'')]) }
         else Some (w, out @ [InfoMessage me SERVER (response_text result (ent_name f) (bytes_of ''accept''))]) })"

definition cmdHandler_TradeDecline :: "nat \<Rightarrow> text_bytes list \<Rightarrow> trade_world \<Rightarrow> (trade_world \<times> trade_output list) option" where
  "cmdHandler_TradeDecline me params w =
    (if length params < 3 then Some (discardTrade me w, [])
     else case getEntity me (params ! 0) w of
       (None, out) \<Rightarrow> Some (discardTrade me w, out)
     | (Some from_ent, out) \<Rightarrow> do {
         s \<leftarrow> fetch (live w) me; f \<leftarrow> fetch (live w) from_ent;
         (result, w) \<leftarrow> declineTrade me from_ent w;
         if result = DECLINED_TRADE then do {
           client_of from_ent w;
           Some (w, out @ [InfoMessage from_ent SERVER (ent_name s @ bytes_of '' declined your trade invite.''),
             InfoMessage me SERVER (bytes_of ''You declined the trade invite from '' @ ent_name f @ bytes_of ''.'')]) }
         else Some (w, out @ [InfoMessage me SERVER (response_text result (ent_name f) (bytes_of ''decline''))]) })"

section \<open>The trade window\<close>

definition on_trade_cancelled :: "nat \<Rightarrow> trade_world \<Rightarrow> (trade_world \<times> trade_output list) option" where
  "on_trade_cancelled me w = do {
     s \<leftarrow> fetch (live w) me;
     if ent_trade s = None then Some (w, [])
     else do {
       tr \<leftarrow> trade_of me w;
       case getEntityByDBID (member_db_id (getOtherMember s tr)) w of
         None \<Rightarrow> Some (discardTrade me w, [TradeCancel me (bytes_of ''Trade cancelled because the other player left.'')])
       | Some tgt \<Rightarrow> do {
           t \<leftarrow> client_of tgt w;
           Some (discardTrade tgt (discardTrade me w),
             [TradeCancel me (bytes_of ''You cancelled the trade with '' @ ent_name t @ bytes_of ''.''),
              TradeCancel tgt (ent_name s @ bytes_of '' canceled the trade.'')]) } } }"

definition on_trade_updated :: "nat \<Rightarrow> trade_info \<Rightarrow> trade_world \<Rightarrow> (trade_world \<times> trade_output list) option" where
  "on_trade_updated me info w =
    (case getEntityByDBID (info_db_id info) w of
       None \<Rightarrow> Some (w, [])
     | Some tgt \<Rightarrow> do {
         s \<leftarrow> fetch (live w) me; t \<leftarrow> fetch (live w) tgt;
         (result, w) \<leftarrow> updateTrade me tgt info w;
         if result = SUCCESS then do {
           tr \<leftarrow> trade_of me w;
           out \<leftarrow> sendTradeUpdate me tgt (getMember s tr) (getMember t tr) w;
           if isAccepted tr then do {
             w \<leftarrow> finishTrade me tgt w;
             done \<leftarrow> sendTradeSuccess me tgt w;
             Some (w, out @ done @ [InfoMessage me SERVER []]) }
           else Some (w, out @ [InfoMessage me SERVER []]) }
         else Some (w, [InfoMessage me SERVER (response_text result (ent_name t) (bytes_of ''update''))]) })"

section \<open>All inputs\<close>

datatype trade_input =
    Trade nat text_bytes
  | TradeAccept nat "text_bytes list"
  | TradeDecline nat "text_bytes list"
  | TradeWasCancelled nat
  | TradeWasUpdated nat trade_info

fun dispatch_trade :: "trade_input \<Rightarrow> trade_world \<Rightarrow> (trade_world \<times> trade_output list) option" where
  "dispatch_trade (Trade me nm) w = cmdHandler_Trade me nm w"
| "dispatch_trade (TradeAccept me params) w = cmdHandler_TradeAccept me params w"
| "dispatch_trade (TradeDecline me params) w = cmdHandler_TradeDecline me params w"
| "dispatch_trade (TradeWasCancelled me) w = on_trade_cancelled me w"
| "dispatch_trade (TradeWasUpdated me info) w = on_trade_updated me info w"

section \<open>On the wire\<close>

fun get_indices :: "nat \<Rightarrow> bitstream \<Rightarrow> (nat list \<times> bitstream) option" where
  "get_indices 0 s = Some ([], s)"
| "get_indices (Suc n) s = do { (i, s) \<leftarrow> GetPackedBits 1 s; (is, s) \<leftarrow> get_indices n s; Some (unat i # is, s) }"

fun get_cells :: "nat \<Rightarrow> bitstream \<Rightarrow> ((nat \<times> nat) list \<times> bitstream) option" where
  "get_cells 0 s = Some ([], s)"
| "get_cells (Suc n) s = do {
     (c, s) \<leftarrow> GetPackedBits 1 s; (r, s) \<leftarrow> GetPackedBits 1 s; (cs, s) \<leftarrow> get_cells n s; Some ((unat c, unat r) # cs, s) }"

text \<open>The counts are stored in \<open>int\<close>: a negative one means no entries.\<close>

definition TradeWasUpdated_from :: "bitstream \<Rightarrow> (trade_info \<times> bitstream) option" where
  "TradeWasUpdated_from s = do {
     (db_id, s) \<leftarrow> GetPackedBits 1 s; (accepted, s) \<leftarrow> GetPackedBits 1 s; (infl, s) \<leftarrow> GetPackedBits 1 s;
     (num_enhs, s) \<leftarrow> GetPackedBits 1 s; (num_insp, s) \<leftarrow> GetPackedBits 1 s;
     (enhs, s) \<leftarrow> get_indices (nat (sint num_enhs)) s;
     (insps, s) \<leftarrow> get_cells (nat (sint num_insp)) s;
     Some (\<lparr>info_db_id = db_id, m_accepted = (accepted \<noteq> 0), info_influence = infl, info_enhancements = enhs,
       info_inspirations = insps\<rparr>, s) }"

definition power_info_fields :: "power_pool_info \<Rightarrow> msg_field list" where
  "power_info_fields i = [Packed 3 (of_nat (m_pcat_idx i)), Packed 3 (of_nat (m_pset_idx i)), Packed 3 (of_nat (m_pow_idx i))]"

definition enhancement_fields :: "character_enhancement \<Rightarrow> msg_field list" where
  "enhancement_fields e = power_info_fields (m_enhance_info e) @ [Packed 5 (enhance_level e), Packed 2 (m_num_combines e)]"

definition TradeUpdate_fields :: "trade_update \<Rightarrow> msg_field list" where
  "TradeUpdate_fields u =
    (let info_self = m_info (m_trade_self u); info_other = m_info (m_trade_other u) in
     [Packed 1 35, Packed 1 (member_db_id (m_trade_other u)),
      Packed 1 (of_bool (m_accepted info_self)), Packed 1 (of_bool (m_accepted info_other)),
      Packed 1 (info_influence info_self), Packed 1 (info_influence info_other),
      Packed 1 (of_nat (length (info_enhancements info_other))), Packed 1 (of_nat (length (info_inspirations info_other)))]
     @ concat (map enhancement_fields (upd_enhancements u))
     @ concat (map (\<lambda>i. power_info_fields (m_insp_info i)) (upd_inspirations u)))"

definition TradeUpdate_to :: "trade_update \<Rightarrow> bitstream \<Rightarrow> bitstream option" where
  "TradeUpdate_to u s = write_message (TradeUpdate_fields u) s"

end
