(* ===== verification/Trade_Correct.thy ===== *)
theory Trade_Correct
  imports Trade_Handler Power_Properties
begin

text \<open>
  What changes hands. The enhancements and inspirations of a character are multisets; removing the
  offered ones takes them out, adding puts them in as long as there is room, and room is what the
  checks of a trade count.
\<close>

section \<open>Enhancements as a multiset\<close>

definition enhancement_content :: "character_enhancement \<Rightarrow> character_enhancement" where
  "enhancement_content e = e\<lparr>m_slot_idx := 0, m_slot_used := True\<rparr>"

lemma enhancement_content_update [simp]:
  "enhancement_content (e\<lparr>m_slot_idx := k, m_slot_used := b\<rparr>) = enhancement_content e"
  "enhancement_content (e\<lparr>m_slot_idx := k\<rparr>) = enhancement_content e"
  by (simp_all add: enhancement_content_def)

definition enh_bag :: "character_data \<Rightarrow> character_enhancement multiset" where
  "enh_bag cd = image_mset enhancement_content (filter_mset m_slot_used (mset (m_enhancements cd)))"

lemma size_enh_bag: "size (enh_bag cd) = getNumberEnhancements cd"
  unfolding enh_bag_def getNumberEnhancements_def by (metis mset_filter size_image_mset size_mset)

lemma enh_bag_fields [simp]:
  "enh_bag (cd\<lparr>m_influence := v\<rparr>) = enh_bag cd" "enh_bag (cd\<lparr>m_inspirations := g\<rparr>) = enh_bag cd"
  "enh_bag (cd\<lparr>m_has_updated_powers := b\<rparr>) = enh_bag cd"
  by (simp_all add: enh_bag_def)

lemma bag_update_used:
  "i < length es \<Longrightarrow> image_mset f (filter_mset P (mset (es[i := e]))) + (if P (es ! i) then {#f (es ! i)#} else {#}) =
   image_mset f (filter_mset P (mset es)) + (if P e then {#f e#} else {#})"
proof -
  assume i: "i < length es"
  then have "mset es = add_mset (es ! i) (mset es - {#es ! i#})" by simp
  then obtain m where m: "mset es = add_mset (es ! i) m" by blast
  moreover have "mset (es[i := e]) = add_mset e m" using mset_update [OF i, of e] m by simp
  ultimately show ?thesis by simp
qed

lemma trashEnhancement_bag:
  assumes "getEnhancement i cd = Some e" "trashEnhancement i cd = Some cd'"
  shows "enh_bag cd = add_mset (enhancement_content e) (enh_bag cd') \<and> m_inspirations cd' = m_inspirations cd \<and>
    m_influence cd' = m_influence cd \<and> m_max_insp_cols cd' = m_max_insp_cols cd \<and> m_max_insp_rows cd' = m_max_insp_rows cd"
proof -
  have i: "i < length (m_enhancements cd)" "m_slot_used e" "e = m_enhancements cd ! i"
    using assms(1) by (auto simp: getEnhancement_def Let_def split: if_splits)
  show ?thesis
    using assms(2) i bag_update_used [OF i(1), of enhancement_content m_slot_used "new_enhancement\<lparr>m_slot_idx := i\<rparr>"]
    by (auto simp: trashEnhancement_def bind_eq_Some_conv enh_bag_def new_enhancement_def)
qed

definition same_but_enhancements :: "character_data \<Rightarrow> character_data \<Rightarrow> bool" where
  "same_but_enhancements a b \<longleftrightarrow> m_inspirations a = m_inspirations b \<and> m_influence a = m_influence b \<and>
     m_max_insp_cols a = m_max_insp_cols b \<and> m_max_insp_rows a = m_max_insp_rows b"

lemma removeTradedEnhancements_bag:
  "removeTradedEnhancements is cd = Some (es, cd') \<Longrightarrow> character_ok cd \<Longrightarrow>
   enh_bag cd = enh_bag cd' + mset (map enhancement_content es) \<and> character_ok cd' \<and> same_but_enhancements cd cd' \<and>
   length (m_enhancements cd') = length (m_enhancements cd)"
proof (induction "is" cd arbitrary: es cd' rule: removeTradedEnhancements.induct)
  case (2 idx "is" cd)
  show ?case
  proof (cases "getEnhancement idx cd")
    case None
    with 2 show ?thesis by simp
  next
    case (Some e)
    with "2.prems"(1) obtain cd1 es1 where a: "trashEnhancement idx cd = Some cd1"
      "removeTradedEnhancements is cd1 = Some (es1, cd')" "es = e # es1"
      by (auto simp: bind_eq_Some_conv)
    note b = trashEnhancement_bag [OF Some a(1)] trashEnhancement_ok [OF "2.prems"(2) a(1)]
    have "length (m_enhancements cd1) = length (m_enhancements cd)"
      using a(1) by (auto simp: trashEnhancement_def bind_eq_Some_conv)
    with "2.IH"(2) [OF Some a(1,2)] a(3) b show ?thesis by (auto simp: same_but_enhancements_def)
  qed
qed (simp add: same_but_enhancements_def)

lemma removeTradedEnhancements_returns: "removeTradedEnhancements is cd \<noteq> None"
proof (induction "is" arbitrary: cd)
  case (Cons idx "is")
  show ?case
  proof (cases "getEnhancement idx cd")
    case None
    with Cons show ?thesis by simp
  next
    case (Some e)
    then obtain cd1 where "trashEnhancement idx cd = Some cd1"
      by (auto simp: getEnhancement_def trashEnhancement_def store_def split: if_splits)
    with Some Cons [of cd1] show ?thesis by auto
  qed
qed simp

lemma addEnhancementToChar_bag:
  assumes "getNumberEnhancements cd < length (m_enhancements cd)"
  shows "enh_bag (addEnhancementToChar e cd) = add_mset (enhancement_content e) (enh_bag cd)"
proof -
  have "\<not> (\<forall>x \<in> set (m_enhancements cd). m_slot_used x)"
  proof
    assume "\<forall>x \<in> set (m_enhancements cd). m_slot_used x"
    then have "filter m_slot_used (m_enhancements cd) = m_enhancements cd" by simp
    with assms show False by (simp add: getNumberEnhancements_def)
  qed
  then obtain es where es: "addEnhancement_loop 0 e (m_enhancements cd) = Some es"
    using addEnhancement_loop_None by (metis option.exhaust)
  from addEnhancement_loop_Some [OF es] obtain k where k: "k < length (m_enhancements cd)" "\<not> m_slot_used (m_enhancements cd ! k)"
    "es = (m_enhancements cd)[k := e\<lparr>m_slot_idx := k, m_slot_used := True\<rparr>]" by auto
  with es bag_update_used [OF k(1), of enhancement_content m_slot_used "e\<lparr>m_slot_idx := k, m_slot_used := True\<rparr>"]
  show ?thesis by (simp add: addEnhancementToChar_def enh_bag_def)
qed

lemma addEnhancementToChar_same:
  "same_but_enhancements cd (addEnhancementToChar e cd) \<and> length (m_enhancements (addEnhancementToChar e cd)) = length (m_enhancements cd)"
  by (auto simp: addEnhancementToChar_def same_but_enhancements_def dest: addEnhancement_loop_length split: option.split)

lemma addTradedEnhancements_bag:
  "getNumberEnhancements cd + length es \<le> length (m_enhancements cd) \<Longrightarrow>
   enh_bag (addTradedEnhancements es cd) = enh_bag cd + mset (map enhancement_content es)"
proof (induction es cd rule: addTradedEnhancements.induct)
  case (2 e es cd)
  have "getNumberEnhancements (addEnhancementToChar e cd) = getNumberEnhancements cd + 1"
    using addEnhancementToChar_bag [of cd e] "2.prems" by (simp add: size_enh_bag [symmetric])
  with 2 addEnhancementToChar_bag [of cd e] addEnhancementToChar_same [of cd e] show ?case by simp
qed simp

lemma addTradedEnhancements_same:
  "character_ok cd \<Longrightarrow> same_but_enhancements cd (addTradedEnhancements es cd) \<and> character_ok (addTradedEnhancements es cd)"
proof (induction es cd rule: addTradedEnhancements.induct)
  case (2 e es cd)
  with addEnhancementToChar_same [of cd e] addEnhancementToChar_ok show ?case by (auto simp: same_but_enhancements_def)
qed (simp add: same_but_enhancements_def)


section \<open>Inspirations as a multiset\<close>

text \<open>What stands in the cells the character can use.\<close>

definition usable :: "character_data \<Rightarrow> (power_pool_info \<times> power_data \<times> text_bytes) option list list" where
  "usable cd = map (take (m_max_insp_rows cd)) (take (m_max_insp_cols cd) (tray (m_inspirations cd)))"

definition insp_bag :: "character_data \<Rightarrow> (power_pool_info \<times> power_data \<times> text_bytes) option multiset" where
  "insp_bag cd = filter_mset (\<lambda>x. x \<noteq> None) (mset (concat (usable cd)))"

definition inspiration_content :: "character_inspiration \<Rightarrow> (power_pool_info \<times> power_data \<times> text_bytes) option" where
  "inspiration_content i = Some (m_insp_info i, m_insp_tpl i, insp_name i)"

lemma insp_bag_cong:
  "m_inspirations a = m_inspirations b \<Longrightarrow> m_max_insp_cols a = m_max_insp_cols b \<Longrightarrow> m_max_insp_rows a = m_max_insp_rows b \<Longrightarrow>
   insp_bag a = insp_bag b"
  by (simp add: insp_bag_def usable_def)

lemma mset_concat_update:
  "c < length T \<Longrightarrow> mset (concat (T[c := ys])) + mset (T ! c) = mset (concat T) + mset ys"
  by (induction T arbitrary: c) (auto simp: nth_Cons' split: nat.split simp: gr0_conv_Suc)

lemma mset_append_column:
  "mset (concat (map (\<lambda>c. xs c @ [y c]) cs)) = mset (concat (map xs cs)) + mset (map y cs)"
  by (induction cs) auto

lemma mset_rows_columns:
  "mset (concat (map (\<lambda>r. map (\<lambda>c. f c r) cs) [0..<n])) = mset (concat (map (\<lambda>c. map (f c) [0..<n]) cs))"
proof (induction n)
  case 0
  then show ?case by (induction cs) auto
next
  case (Suc n)
  then show ?case using mset_append_column [of "\<lambda>c. map (f c) [0..<n]" "\<lambda>c. f c n" cs] by simp
qed

lemma usable_eq:
  assumes "character_ok cd"
  shows "usable cd = map (\<lambda>c. map (\<lambda>r. held (m_inspirations cd ! c ! r)) [0..<m_max_insp_rows cd]) [0..<m_max_insp_cols cd]"
proof -
  note d = character_okD [OF assms]
  have "length (m_inspirations cd) = 5" using tray_column [OF d(1), of 0] by simp
  with d tray_column [OF d(1)] show ?thesis
    by (intro nth_equalityI) (auto simp: usable_def tray_def intro!: nth_equalityI)
qed

lemma in_cells [simp]: "(c, r) \<in> set (cells a b) \<longleftrightarrow> c < a \<and> r < b"
  by (force simp: cells_def)

lemma cells_in_grid: "character_ok cd \<Longrightarrow> c < m_max_insp_cols cd \<Longrightarrow> r < m_max_insp_rows cd \<Longrightarrow> in_grid (m_inspirations cd) c r"
  by (auto simp: in_tray [OF character_okD(1)] dest: character_okD(6,7))

lemma all_cells_in_grid: "character_ok cd \<Longrightarrow>
    \<forall>(c, r) \<in> set (cells (m_max_insp_cols cd) (m_max_insp_rows cd)). in_grid (m_inspirations cd) c r"
  by (auto intro: cells_in_grid)

lemma count_loop:
  "\<forall>(c, r) \<in> set cs. in_grid (m_inspirations cd) c r \<Longrightarrow>
   countInspirations_loop cs n cd = Some (n + length (filter (\<lambda>(c, r). m_has_insp (m_inspirations cd ! c ! r)) cs))"
  by (induction cs n cd rule: countInspirations_loop.induct) (auto simp: insp_at_in)

lemma count_inspirations: "character_ok cd \<Longrightarrow> getNumberInspirations cd = Some (size (insp_bag cd))"
proof -
  assume ok: "character_ok cd"
  let ?h = "\<lambda>c r. held (m_inspirations cd ! c ! r)" and ?cs = "cells (m_max_insp_cols cd) (m_max_insp_rows cd)"
  have "mset (map (\<lambda>(c, r). ?h c r) ?cs) = mset (concat (usable cd))"
    using mset_rows_columns [of ?h "[0..<m_max_insp_cols cd]" "m_max_insp_rows cd"]
    by (simp add: usable_eq [OF ok] cells_def map_concat comp_def)
  then have "size (insp_bag cd) = length (filter (\<lambda>x. x \<noteq> None) (map (\<lambda>(c, r). ?h c r) ?cs))"
    unfolding insp_bag_def by (metis mset_filter size_mset)
  also have "\<dots> = length (filter (\<lambda>(c, r). m_has_insp (m_inspirations cd ! c ! r)) ?cs)"
    unfolding filter_map length_map by (rule arg_cong [where f = length], rule filter_cong) (auto simp: held_def split: if_splits)
  finally show ?thesis
    using count_loop [OF all_cells_in_grid [OF ok], of 0] by (simp add: getNumberInspirations_def)
qed

lemma mset_close_gap:
  assumes "row < n" "n \<le> length xs"
  shows "mset (take n (close_gap row n xs)) + {#xs ! row#} = mset (take n xs) + {#None#}"
proof -
  have "mset (take n xs) = mset (take row xs) + {#xs ! row#} + mset (drop (row + 1) (take n xs))"
  proof -
    have "take n xs = take row xs @ xs ! row # drop (Suc row) (take n xs)"
      using id_take_nth_drop [of row "take n xs"] assms by (simp add: min_def split: if_splits)
    from arg_cong [OF this, of mset] show ?thesis by simp
  qed
  moreover have "take n (close_gap row n xs) = take row xs @ drop (row + 1) (take n xs) @ [None]"
    using assms by (simp add: close_gap_def)
  ultimately show ?thesis by simp
qed

lemma mset_chain:
  fixes A B C D x N :: "'a multiset"
  assumes "A + B = C + D" "D + x = B + N"
  shows "A + x = C + N"
proof -
  have "(A + x) + B = (A + B) + x" by (simp only: ac_simps)
  also have "\<dots> = C + (D + x)" unfolding assms(1) by (simp only: ac_simps)
  also have "\<dots> = (C + N) + B" unfolding assms(2) by (simp only: ac_simps)
  finally show ?thesis by (rule add_right_imp_eq)
qed

lemma usable_update:
  "c < m_max_insp_cols cd \<Longrightarrow> tray (m_inspirations cd') = (tray (m_inspirations cd))[c := ys] \<Longrightarrow>
   m_max_insp_cols cd' = m_max_insp_cols cd \<Longrightarrow> m_max_insp_rows cd' = m_max_insp_rows cd \<Longrightarrow>
   usable cd' = (usable cd)[c := take (m_max_insp_rows cd) ys]"
  by (simp add: usable_def take_update_swap map_update)

lemma removeInspiration_bag:
  assumes "character_ok cd" "getInspiration col row cd = Some (Some i)" "removeInspiration col row cd = Some cd'"
  shows "insp_bag cd = add_mset (inspiration_content i) (insp_bag cd')"
proof -
  have lt: "col < m_max_insp_cols cd" "row < m_max_insp_rows cd" "m_has_insp i" "i = m_inspirations cd ! col ! row" "in_grid (m_inspirations cd) col row"
    using assms(2) by (auto simp: getInspiration_def bind_eq_Some_conv split: if_splits)
  let ?T = "tray (m_inspirations cd)"
  have t: "tray (m_inspirations cd') = ?T[col := close_gap row (m_max_insp_rows cd) (?T ! col)]"
    using removing_closes_the_gap [OF assms(1) lt(1,2)] assms(3) by simp
  have same: "m_max_insp_cols cd' = m_max_insp_cols cd" "m_max_insp_rows cd' = m_max_insp_rows cd"
    using assms(3) by (auto simp: removeInspiration_def bind_eq_Some_conv)
  note u = usable_update [OF lt(1) t same]
  have len: "col < length ?T" "length (?T ! col) = 4" "m_max_insp_rows cd \<le> 4"
    using lt(5) in_tray [OF character_okD(1) [OF assms(1)], of col row] tray_column [OF character_okD(1) [OF assms(1)], of col]
      character_okD(7) [OF assms(1)] by (auto simp: tray_def)
  have c: "col < length (usable cd)" "usable cd ! col = take (m_max_insp_rows cd) (?T ! col)"
    using lt(1) len(1) by (auto simp: usable_def)
  have cell: "?T ! col ! row = inspiration_content i" using lt by (simp add: tray_cell held_def inspiration_content_def)
  have "mset (concat (usable cd')) + mset (usable cd ! col) =
      mset (concat (usable cd)) + mset (take (m_max_insp_rows cd) (close_gap row (m_max_insp_rows cd) (?T ! col)))"
    unfolding u using mset_concat_update [OF c(1)] .
  moreover have "mset (take (m_max_insp_rows cd) (close_gap row (m_max_insp_rows cd) (?T ! col))) + {#inspiration_content i#} =
      mset (usable cd ! col) + {#None#}"
    using mset_close_gap [of row "m_max_insp_rows cd" "?T ! col"] lt(2) len cell c(2) by simp
  ultimately have "mset (concat (usable cd')) + {#inspiration_content i#} = mset (concat (usable cd)) + {#None#}"
    by (rule mset_chain)
  from arg_cong [OF this, of "filter_mset (\<lambda>x. x \<noteq> None)"] show ?thesis
    by (simp add: insp_bag_def inspiration_content_def)
qed


lemma addInspiration_loop_first:
  assumes "\<forall>(c, r) \<in> set cs. in_grid (m_inspirations cd) c r" "\<exists>(c, r) \<in> set cs. \<not> m_has_insp (m_inspirations cd ! c ! r)"
  shows "\<exists>c r. (c, r) \<in> set cs \<and> \<not> m_has_insp (m_inspirations cd ! c ! r) \<and> addInspiration_loop cs i cd =
    Some (cd\<lparr>m_inspirations := put (m_inspirations cd) c r (i\<lparr>m_col := c, m_row := r, m_has_insp := True\<rparr>), m_has_updated_powers := True\<rparr>)"
  using assms by (induction cs i cd rule: addInspiration_loop.induct) (auto simp: insp_at_in insp_set_in)

lemma length_cells: "length (cells a b) = a * b"
  by (induction b) (auto simp: cells_def)

lemma mset_update_swap: "r < length xs \<Longrightarrow> mset (xs[r := y]) + {#xs ! r#} = mset xs + {#y#}"
  by (simp add: mset_update)

lemma free_cell:
  assumes "character_ok cd" "size (insp_bag cd) < getMaxNumberInspirations cd"
  shows "\<exists>(c, r) \<in> set (cells (m_max_insp_cols cd) (m_max_insp_rows cd)). \<not> m_has_insp (m_inspirations cd ! c ! r)"
proof (rule ccontr)
  let ?cs = "cells (m_max_insp_cols cd) (m_max_insp_rows cd)"
  assume "\<not> (\<exists>(c, r) \<in> set ?cs. \<not> m_has_insp (m_inspirations cd ! c ! r))"
  then have all: "filter (\<lambda>(c, r). m_has_insp (m_inspirations cd ! c ! r)) ?cs = ?cs" by (auto simp: filter_id_conv)
  have "getNumberInspirations cd = Some (length ?cs)"
    unfolding getNumberInspirations_def count_loop [OF all_cells_in_grid [OF assms(1)]] all by simp
  with count_inspirations [OF assms(1)] assms(2) show False
    by (simp add: getMaxNumberInspirations_def length_cells)
qed

lemma size_insp_bag_le: "character_ok cd \<Longrightarrow> size (insp_bag cd) \<le> getMaxNumberInspirations cd"
  using count_inspirations [of cd] count_loop [OF all_cells_in_grid, of cd 0]
    length_filter_le [of "\<lambda>(c, r). m_has_insp (m_inspirations cd ! c ! r)" "cells (m_max_insp_cols cd) (m_max_insp_rows cd)"]
  by (simp add: getNumberInspirations_def getMaxNumberInspirations_def length_cells)

lemma addInspirationToChar_bag:
  assumes "character_ok cd" "size (insp_bag cd) < getMaxNumberInspirations cd"
  shows "\<exists>cd'. addInspirationToChar i cd = Some cd' \<and> insp_bag cd' = add_mset (inspiration_content i) (insp_bag cd) \<and>
    enh_bag cd' = enh_bag cd \<and> m_influence cd' = m_influence cd \<and> getMaxNumberInspirations cd' = getMaxNumberInspirations cd"
proof -
  from addInspiration_loop_first [OF all_cells_in_grid [OF assms(1)] free_cell [OF assms], of i] obtain c r where
    cr: "c < m_max_insp_cols cd" "r < m_max_insp_rows cd" "\<not> m_has_insp (m_inspirations cd ! c ! r)" and
    add: "addInspirationToChar i cd = Some (cd\<lparr>m_inspirations := put (m_inspirations cd) c r (i\<lparr>m_col := c, m_row := r, m_has_insp := True\<rparr>), m_has_updated_powers := True\<rparr>)"
    by (auto simp: addInspirationToChar_def)
  let ?T = "tray (m_inspirations cd)" and ?cd = "cd\<lparr>m_inspirations := put (m_inspirations cd) c r (i\<lparr>m_col := c, m_row := r, m_has_insp := True\<rparr>), m_has_updated_powers := True\<rparr>"
  have ing: "in_grid (m_inspirations cd) c r" using cells_in_grid [OF assms(1)] cr by simp
  have t: "tray (m_inspirations ?cd) = ?T[c := (?T ! c)[r := inspiration_content i]]"
    using ing by (simp add: tray_put in_grid_def held_def inspiration_content_def)
  have u: "usable ?cd = (usable cd)[c := take (m_max_insp_rows cd) ((?T ! c)[r := inspiration_content i])]"
    by (rule usable_update [OF cr(1) t]) auto
  have len: "c < length (usable cd)" "usable cd ! c = take (m_max_insp_rows cd) (?T ! c)" "r < length (usable cd ! c)"
    "usable cd ! c ! r = None"
    using cr ing by (auto simp: usable_def tray_def in_grid_def held_def)
  have "mset (concat (usable ?cd)) + mset (usable cd ! c) = mset (concat (usable cd)) + mset ((usable cd ! c)[r := inspiration_content i])"
    unfolding u using mset_concat_update [OF len(1)] len(2) by (simp add: take_update_swap)
  from mset_chain [OF this mset_update_swap [OF len(3), of "inspiration_content i"]] len(4)
  have "mset (concat (usable ?cd)) + {#None#} = mset (concat (usable cd)) + {#inspiration_content i#}" by simp
  from arg_cong [OF this, of "filter_mset (\<lambda>x. x \<noteq> None)"] have "insp_bag ?cd = add_mset (inspiration_content i) (insp_bag cd)"
    by (simp add: insp_bag_def inspiration_content_def)
  with add show ?thesis by (simp add: getMaxNumberInspirations_def)
qed

lemma addTradedInspirations_bag:
  "character_ok cd \<Longrightarrow> size (insp_bag cd) + length is \<le> getMaxNumberInspirations cd \<Longrightarrow>
   \<exists>cd'. addTradedInspirations is cd = Some cd' \<and> insp_bag cd' = insp_bag cd + mset (map inspiration_content is) \<and>
     enh_bag cd' = enh_bag cd \<and> m_influence cd' = m_influence cd \<and> character_ok cd'"
proof (induction "is" arbitrary: cd)
  case (Cons i "is")
  then obtain cd1 where cd1: "addInspirationToChar i cd = Some cd1" "insp_bag cd1 = add_mset (inspiration_content i) (insp_bag cd)"
    "enh_bag cd1 = enh_bag cd" "m_influence cd1 = m_influence cd" "getMaxNumberInspirations cd1 = getMaxNumberInspirations cd"
    using addInspirationToChar_bag [of cd i] by auto
  have "character_ok cd1" using addInspirationToChar_ok [OF Cons.prems(1) cd1(1)] .
  moreover have "size (insp_bag cd1) + length is \<le> getMaxNumberInspirations cd1" using Cons.prems(2) cd1(2,5) by simp
  ultimately obtain cd2 where "addTradedInspirations is cd1 = Some cd2" "insp_bag cd2 = insp_bag cd1 + mset (map inspiration_content is)"
    "enh_bag cd2 = enh_bag cd1" "m_influence cd2 = m_influence cd1" "character_ok cd2"
    using Cons.IH by blast
  with cd1 show ?case by simp
qed simp

lemma getInspiration_returns: "character_ok cd \<Longrightarrow> getInspiration c r cd \<noteq> None"
  by (auto simp: getInspiration_def insp_at_in cells_in_grid)

lemma removeInspiration_returns:
  "character_ok cd \<Longrightarrow> getInspiration c r cd = Some (Some i) \<Longrightarrow> \<exists>cd'. removeInspiration c r cd = Some cd'"
  using removing_closes_the_gap [of cd c r] by (auto simp: getInspiration_def split: if_splits)

lemma removeTradedInspirations_bag:
  "character_ok cd \<Longrightarrow> \<exists>es cd'. removeTradedInspirations is cd = Some (es, cd') \<and>
     insp_bag cd = insp_bag cd' + mset (map inspiration_content es) \<and> enh_bag cd' = enh_bag cd \<and>
     m_influence cd' = m_influence cd \<and> getMaxNumberInspirations cd' = getMaxNumberInspirations cd \<and> character_ok cd'"
proof (induction "is" arbitrary: cd)
  case (Cons cr "is")
  obtain c r where cr: "cr = (c, r)" by fastforce
  obtain o1 where o1: "getInspiration c r cd = Some o1" using getInspiration_returns [OF Cons.prems] by fastforce
  show ?case
  proof (cases o1)
    case None
    with Cons o1 cr show ?thesis by simp
  next
    case (Some i)
    with o1 obtain cd1 where cd1: "removeInspiration c r cd = Some cd1" using removeInspiration_returns [OF Cons.prems] by blast
    have "enh_bag cd1 = enh_bag cd" "m_influence cd1 = m_influence cd" "getMaxNumberInspirations cd1 = getMaxNumberInspirations cd"
      using cd1 by (auto simp: removeInspiration_def bind_eq_Some_conv getMaxNumberInspirations_def)
    moreover note removeInspiration_bag [OF Cons.prems _ cd1, of i] removeInspiration_ok [OF Cons.prems cd1]
    ultimately show ?thesis using Cons.IH [of cd1] cr o1 Some cd1 by auto
  qed
qed simp

end
