(* ===== verification/Trade_Exchange.thy ===== *)
theory Trade_Exchange
  imports Trade_Correct
begin

text \<open>
  Finishing a trade: what the two players hold afterwards. The steps of \<open>finishTrade\<close> work on different
  members of the characters, so what is offered can be read off the characters before the trade.
\<close>

section \<open>What an offer names\<close>

text \<open>
  The partner is shown what lies at the places an offer names: the enhancements of the named slots and the
  inspirations of the named cells of the tray, as they are before the trade.
\<close>

definition offered_enhancements :: "trade_info \<Rightarrow> character_data \<Rightarrow> character_enhancement list" where
  "offered_enhancements info cd = map (\<lambda>k. enhancement_content (m_enhancements cd ! k)) (info_enhancements info)"

definition offered_inspirations :: "trade_info \<Rightarrow> character_data \<Rightarrow> (power_pool_info \<times> power_data \<times> text_bytes) option list" where
  "offered_inspirations info cd = map (\<lambda>(c, r). tray (m_inspirations cd) ! c ! r) (info_inspirations info)"

text \<open>
  A player holds an offer when it has the influence, when the named slots are different and used, and when
  the named cells of the tray are occupied and of two in one column the lower one is named first: removing
  an inspiration moves the ones below it up, so that a later entry for a lower cell would find another one there.
\<close>

definition upwards :: "(nat \<times> nat) list \<Rightarrow> bool" where
  "upwards = sorted_wrt (\<lambda>p q. fst p = fst q \<longrightarrow> snd q < snd p)"

definition cell_held :: "character_data \<Rightarrow> nat \<times> nat \<Rightarrow> bool" where
  "cell_held cd p \<longleftrightarrow> fst p < m_max_insp_cols cd \<and> snd p < m_max_insp_rows cd \<and> tray (m_inspirations cd) ! fst p ! snd p \<noteq> None"

definition offer_held :: "trade_info \<Rightarrow> character_data \<Rightarrow> bool" where
  "offer_held info cd \<longleftrightarrow> info_influence info \<le> m_influence cd \<and>
     distinct (info_enhancements info) \<and>
     (\<forall>k \<in> set (info_enhancements info). k < length (m_enhancements cd) \<and> m_slot_used (m_enhancements cd ! k)) \<and>
     upwards (info_inspirations info) \<and> (\<forall>p \<in> set (info_inspirations info). cell_held cd p)"

text \<open>\<open>after\<close> is \<open>before\<close> without what the own offer names, and with what the other offer names.\<close>

definition exchanged :: "trade_info \<Rightarrow> character_data \<Rightarrow> trade_info \<Rightarrow> character_data \<Rightarrow> character_data \<Rightarrow> bool" where
  "exchanged own before other partner after \<longleftrightarrow>
     unat (m_influence after) + unat (info_influence own) = unat (m_influence before) + unat (info_influence other) \<and>
     enh_bag after + mset (offered_enhancements own before) = enh_bag before + mset (offered_enhancements other partner) \<and>
     insp_bag after + mset (offered_inspirations own before) = insp_bag before + mset (offered_inspirations other partner)"

section \<open>What an offer hands over\<close>

text \<open>What the removals of the code take out, in the order of the offer.\<close>

definition given_enhancements :: "trade_info \<Rightarrow> character_data \<Rightarrow> character_enhancement list" where
  "given_enhancements info cd = fst (the (removeTradedEnhancements (info_enhancements info) cd))"

definition given_inspirations :: "trade_info \<Rightarrow> character_data \<Rightarrow> character_inspiration list" where
  "given_inspirations info cd = fst (the (removeTradedInspirations (info_inspirations info) cd))"

lemma removeTradedEnhancements_named:
  "distinct ks \<Longrightarrow> \<forall>k \<in> set ks. k < length (m_enhancements cd) \<and> m_slot_used (m_enhancements cd ! k) \<Longrightarrow>
   \<exists>cd'. removeTradedEnhancements ks cd = Some (map (\<lambda>k. m_enhancements cd ! k) ks, cd')"
proof (induction ks arbitrary: cd)
  case (Cons k ks)
  obtain cd1 where cd1: "trashEnhancement k cd = Some cd1" "m_enhancements cd1 = (m_enhancements cd)[k := new_enhancement\<lparr>m_slot_idx := k\<rparr>]"
    using Cons.prems(2) by (auto simp: trashEnhancement_def bind_eq_Some_conv)
  have keep: "m_enhancements cd1 ! j = m_enhancements cd ! j" if "j \<in> set ks" for j
    using that Cons.prems(1) cd1(2) by (metis distinct.simps(2) nth_list_update_neq)
  then have "\<forall>j \<in> set ks. j < length (m_enhancements cd1) \<and> m_slot_used (m_enhancements cd1 ! j)"
    using Cons.prems(2) cd1(2) by simp
  from Cons.IH [OF _ this] Cons.prems(1)
  obtain cd' where "removeTradedEnhancements ks cd1 = Some (map (\<lambda>k. m_enhancements cd1 ! k) ks, cd')" by auto
  moreover have "getEnhancement k cd = Some (m_enhancements cd ! k)" using Cons.prems(2) by (simp add: getEnhancement_def Let_def)
  moreover have "map (\<lambda>k. m_enhancements cd1 ! k) ks = map (\<lambda>k. m_enhancements cd ! k) ks" using keep by simp
  ultimately show ?case using cd1(1) by simp
qed simp

lemma cell_held_inspiration:
  assumes "character_ok cd" "cell_held cd (c, r)"
  shows "\<exists>i. getInspiration c r cd = Some (Some i) \<and> inspiration_content i = tray (m_inspirations cd) ! c ! r"
proof -
  have g: "c < m_max_insp_cols cd" "r < m_max_insp_rows cd" "tray (m_inspirations cd) ! c ! r \<noteq> None"
    using assms(2) by (auto simp: cell_held_def)
  then have "in_grid (m_inspirations cd) c r" using cells_in_grid [OF assms(1)] by blast
  with g tray_cell [OF this] show ?thesis
    by (auto simp: getInspiration_def insp_at_in held_def inspiration_content_def split: if_splits)
qed

text \<open>Removing an inspiration leaves the cells above it and the other columns alone.\<close>

lemma removeInspiration_above:
  assumes "character_ok cd" "col < m_max_insp_cols cd" "row < m_max_insp_rows cd" "removeInspiration col row cd = Some cd1"
    and "fst p = col \<longrightarrow> snd p < row" and "fst p < m_max_insp_cols cd"
  shows "tray (m_inspirations cd1) ! fst p ! snd p = tray (m_inspirations cd) ! fst p ! snd p \<and> cell_held cd1 p = cell_held cd p"
proof -
  let ?T = "tray (m_inspirations cd)"
  have t: "tray (m_inspirations cd1) = ?T[col := close_gap row (m_max_insp_rows cd) (?T ! col)]"
    using removing_closes_the_gap [OF assms(1-3)] assms(4) by simp
  have len: "col < length ?T" "length (?T ! col) = 4"
    using tray_column [OF character_okD(1) [OF assms(1)], of col] assms(2) character_okD(6) [OF assms(1)] by (auto simp: tray_def)
  have "row < 4" using assms(3) character_okD(7) [OF assms(1)] by simp
  then have "tray (m_inspirations cd1) ! fst p ! snd p = ?T ! fst p ! snd p"
    using t len assms(5) by (cases "fst p = col") (simp_all add: close_gap_def nth_append)
  moreover have "m_max_insp_cols cd1 = m_max_insp_cols cd" "m_max_insp_rows cd1 = m_max_insp_rows cd"
    using assms(4) by (auto simp: removeInspiration_def bind_eq_Some_conv)
  ultimately show ?thesis by (simp add: cell_held_def)
qed

lemma removeTradedInspirations_named:
  "character_ok cd \<Longrightarrow> upwards ps \<Longrightarrow> \<forall>p \<in> set ps. cell_held cd p \<Longrightarrow>
   \<exists>is cd'. removeTradedInspirations ps cd = Some (is, cd') \<and>
     map inspiration_content is = map (\<lambda>(c, r). tray (m_inspirations cd) ! c ! r) ps"
proof (induction ps arbitrary: cd)
  case (Cons p ps)
  obtain c r where p: "p = (c, r)" by fastforce
  have lt: "c < m_max_insp_cols cd" "r < m_max_insp_rows cd" using Cons.prems(3) p by (auto simp: cell_held_def)
  obtain i where i: "getInspiration c r cd = Some (Some i)" "inspiration_content i = tray (m_inspirations cd) ! c ! r"
    using cell_held_inspiration [OF Cons.prems(1), of c r] Cons.prems(3) p by auto
  obtain cd1 where cd1: "removeInspiration c r cd = Some cd1" using removeInspiration_returns [OF Cons.prems(1) i(1)] by blast
  have keep: "tray (m_inspirations cd1) ! fst q ! snd q = tray (m_inspirations cd) ! fst q ! snd q \<and> cell_held cd1 q = cell_held cd q"
    if "q \<in> set ps" for q
    using removeInspiration_above [OF Cons.prems(1) lt cd1, of q] that Cons.prems(2,3) p by (auto simp: upwards_def cell_held_def)
  have up: "upwards ps" using Cons.prems(2) by (simp add: upwards_def)
  have "\<forall>q \<in> set ps. cell_held cd1 q" using keep Cons.prems(3) by simp
  from Cons.IH [OF removeInspiration_ok [OF Cons.prems(1) cd1] up this]
  obtain "is" cd' where "removeTradedInspirations ps cd1 = Some (is, cd')"
    "map inspiration_content is = map (\<lambda>(c, r). tray (m_inspirations cd1) ! c ! r) ps" by blast
  moreover have "map (\<lambda>(c, r). tray (m_inspirations cd1) ! c ! r) ps = map (\<lambda>(c, r). tray (m_inspirations cd) ! c ! r) ps"
    using keep by (auto simp: case_prod_beta)
  ultimately show ?case using p i cd1 by simp
qed simp

text \<open>So what is handed over is what was shown.\<close>

lemma given_is_offered:
  assumes "character_ok cd" "offer_held info cd"
  shows "map enhancement_content (given_enhancements info cd) = offered_enhancements info cd"
    "map inspiration_content (given_inspirations info cd) = offered_inspirations info cd"
    "length (given_enhancements info cd) = length (info_enhancements info)"
    "length (given_inspirations info cd) = length (info_inspirations info)"
proof -
  have e: "given_enhancements info cd = map (\<lambda>k. m_enhancements cd ! k) (info_enhancements info)"
    using removeTradedEnhancements_named [of "info_enhancements info" cd] assms(2) by (auto simp: offer_held_def given_enhancements_def)
  then show "map enhancement_content (given_enhancements info cd) = offered_enhancements info cd"
    "length (given_enhancements info cd) = length (info_enhancements info)"
    by (simp_all add: offered_enhancements_def)
  show i: "map inspiration_content (given_inspirations info cd) = offered_inspirations info cd"
    using removeTradedInspirations_named [OF assms(1), of "info_inspirations info"] assms(2)
    by (auto simp: offer_held_def given_inspirations_def offered_inspirations_def)
  show "length (given_inspirations info cd) = length (info_inspirations info)"
    using arg_cong [OF i, of length] by (simp add: offered_inspirations_def)
qed

lemma trashEnhancement_influence:
  "trashEnhancement i (cd\<lparr>m_influence := v\<rparr>) = map_option (\<lambda>cd. cd\<lparr>m_influence := v\<rparr>) (trashEnhancement i cd)"
  by (auto simp: trashEnhancement_def store_def)

lemma removeTradedEnhancements_influence:
  "removeTradedEnhancements is (cd\<lparr>m_influence := v\<rparr>) =
   map_option (\<lambda>(es, cd). (es, cd\<lparr>m_influence := v\<rparr>)) (removeTradedEnhancements is cd)"
proof (induction "is" arbitrary: cd)
  case (Cons i "is")
  have "getEnhancement i (cd\<lparr>m_influence := v\<rparr>) = getEnhancement i cd" by (simp add: getEnhancement_def)
  with Cons show ?case
    by (cases "trashEnhancement i cd"; cases "removeTradedEnhancements is (the (trashEnhancement i cd))")
      (auto simp: trashEnhancement_influence split: option.split)
qed simp

definition insp_part :: "character_data \<Rightarrow> character_inspiration list list \<times> nat \<times> nat" where
  "insp_part cd = (m_inspirations cd, m_max_insp_cols cd, m_max_insp_rows cd)"

lemma getInspiration_part: "insp_part a = insp_part b \<Longrightarrow> getInspiration c r a = getInspiration c r b"
  by (simp add: insp_part_def getInspiration_def)

lemma removeInspiration_part:
  "insp_part a = insp_part b \<Longrightarrow> map_option insp_part (removeInspiration c r a) = map_option insp_part (removeInspiration c r b)"
  by (auto simp: insp_part_def removeInspiration_def split: bind_split)

lemma removeTradedInspirations_part:
  "insp_part a = insp_part b \<Longrightarrow> map_option (map_prod id insp_part) (removeTradedInspirations is a) =
   map_option (map_prod id insp_part) (removeTradedInspirations is b)"
proof (induction "is" arbitrary: a b)
  case (Cons cr "is")
  obtain c r where cr: "cr = (c, r)" by fastforce
  have g: "getInspiration c r a = getInspiration c r b" using getInspiration_part [OF Cons.prems] .
  show ?case
  proof (cases "getInspiration c r b")
    case None
    with g cr show ?thesis by simp
  next
    case (Some oi)
    show ?thesis
    proof (cases oi)
      case None
      with Some g cr Cons.IH [OF Cons.prems] show ?thesis by simp
    next
      case (Some i)
      note rm = removeInspiration_part [OF Cons.prems, of c r]
      show ?thesis
      proof (cases "removeInspiration c r a")
        case None
        with rm have "removeInspiration c r b = None" by simp
        with None Some \<open>getInspiration c r b = Some oi\<close> g cr show ?thesis by simp
      next
        case (Some a1)
        with rm obtain b1 where b1: "removeInspiration c r b = Some b1" "insp_part a1 = insp_part b1"
          by (cases "removeInspiration c r b") auto
        from Cons.IH [OF b1(2)] have "map_option fst (removeTradedInspirations is a1) = map_option fst (removeTradedInspirations is b1)"
          "map_option (insp_part \<circ> snd) (removeTradedInspirations is a1) = map_option (insp_part \<circ> snd) (removeTradedInspirations is b1)"
          by (cases "removeTradedInspirations is a1"; cases "removeTradedInspirations is b1"; force)+
        with Some b1 \<open>oi = Some i\<close> \<open>getInspiration c r b = Some oi\<close> g cr show ?thesis
          by (cases "removeTradedInspirations is a1"; cases "removeTradedInspirations is b1") auto
      qed
    qed
  qed
qed simp

lemma given_inspirations_cong:
  "insp_part a = insp_part b \<Longrightarrow> character_ok a \<Longrightarrow> character_ok b \<Longrightarrow> given_inspirations info a = given_inspirations info b"
  using removeTradedInspirations_part [of a b "info_inspirations info"] removeTradedInspirations_bag [of a "info_inspirations info"]
    removeTradedInspirations_bag [of b "info_inspirations info"]
  by (auto simp: given_inspirations_def)

section \<open>One player\<close>

lemma same_insp_part: "same_but_enhancements a b \<Longrightarrow> insp_part a = insp_part b"
  by (simp add: same_but_enhancements_def insp_part_def)

lemma insp_bag_part: "insp_part a = insp_part b \<Longrightarrow> insp_bag a = insp_bag b"
  by (auto simp: insp_part_def intro: insp_bag_cong)

text \<open>The enhancements: what one player has after removing the own and before adding the other's.\<close>

lemma remove_own_enhancements:
  assumes "character_ok A"
  shows "\<exists>A2. removeTradedEnhancements (info_enhancements ia) (A\<lparr>m_influence := v\<rparr>) = Some (given_enhancements ia A, A2) \<and>
    character_ok A2 \<and> enh_bag A = enh_bag A2 + mset (map enhancement_content (given_enhancements ia A)) \<and>
    insp_part A2 = insp_part A \<and> m_influence A2 = v \<and> length (m_enhancements A2) = length (m_enhancements A)"
proof -
  obtain es A1 where r: "removeTradedEnhancements (info_enhancements ia) A = Some (es, A1)"
    using removeTradedEnhancements_returns [of "info_enhancements ia" A] by fastforce
  note b = removeTradedEnhancements_bag [OF r assms]
  have "removeTradedEnhancements (info_enhancements ia) (A\<lparr>m_influence := v\<rparr>) = Some (es, A1\<lparr>m_influence := v\<rparr>)"
    by (simp add: removeTradedEnhancements_influence r)
  moreover have "given_enhancements ia A = es" by (simp add: given_enhancements_def r)
  ultimately show ?thesis using b by (auto simp: same_but_enhancements_def insp_part_def)
qed

lemma add_other_enhancements:
  assumes "character_ok A2" "getNumberEnhancements A2 + length es \<le> length (m_enhancements A2)"
  shows "character_ok (addTradedEnhancements es A2) \<and> enh_bag (addTradedEnhancements es A2) = enh_bag A2 + mset (map enhancement_content es) \<and>
    insp_part (addTradedEnhancements es A2) = insp_part A2 \<and> m_influence (addTradedEnhancements es A2) = m_influence A2"
  using addTradedEnhancements_bag [OF assms(2)] addTradedEnhancements_same [OF assms(1), of es]
  by (auto simp: same_but_enhancements_def insp_part_def)

lemma remove_own_inspirations:
  assumes "character_ok A" "character_ok A3" "insp_part A3 = insp_part A"
  shows "\<exists>A4. removeTradedInspirations (info_inspirations ia) A3 = Some (given_inspirations ia A, A4) \<and>
    character_ok A4 \<and> insp_bag A = insp_bag A4 + mset (map inspiration_content (given_inspirations ia A)) \<and>
    enh_bag A4 = enh_bag A3 \<and> m_influence A4 = m_influence A3 \<and> getMaxNumberInspirations A4 = getMaxNumberInspirations A"
proof -
  obtain es A4 where r: "removeTradedInspirations (info_inspirations ia) A3 = Some (es, A4)"
     "insp_bag A3 = insp_bag A4 + mset (map inspiration_content es)" "enh_bag A4 = enh_bag A3" "m_influence A4 = m_influence A3"
     "getMaxNumberInspirations A4 = getMaxNumberInspirations A3" "character_ok A4"
    using removeTradedInspirations_bag [OF assms(2), of "info_inspirations ia"] by blast
  have "given_inspirations ia A = es"
    using given_inspirations_cong [OF assms(3,2,1), of ia] r(1) by (simp add: given_inspirations_def)
  with r insp_bag_part [OF assms(3)] assms(3) show ?thesis
    by (auto simp: getMaxNumberInspirations_def insp_part_def)
qed


section \<open>The world\<close>

lemma live_set_char [simp]: "length (live (set_char e c w)) = length (live w)" "trades (set_char e c w) = trades w"
  by (simp_all add: set_char_def set_ent_def)

lemma character_of_set [simp]:
  "e < length (live w) \<Longrightarrow> character_of e (set_char e c w) = c"
  "e \<noteq> e' \<Longrightarrow> character_of e (set_char e' c w) = character_of e w"
  by (simp_all add: character_of_def set_char_def set_ent_def)

lemma character_of_discard [simp]: "character_of e (discardTrade e' w) = character_of e w"
  by (cases "e' < length (live w)"; cases "e = e'") (simp_all add: discardTrade_def set_ent_def character_of_def list_update_beyond)

lemma discard_simps [simp]:
  "length (live (discardTrade e w)) = length (live w)" "trades (discardTrade e w) = trades w"
  "e < length (live w) \<Longrightarrow> ent_trade (live (discardTrade e w) ! e) = None"
  "e \<noteq> e' \<Longrightarrow> live (discardTrade e' w) ! e = live w ! e"
  by (simp_all add: discardTrade_def set_ent_def)

text \<open>What the checks of a trade say about numbers.\<close>

lemma room_enhancements:
  "hasRoomForTradeEnhancements tr s = SUCCESS \<longleftrightarrow>
   int (getNumberEnhancements (ent_char s)) - int (length (info_enhancements (m_info (getMember s tr)))) +
     int (length (info_enhancements (m_info (getOtherMember s tr)))) \<le> int (length (m_enhancements (ent_char s)))"
  by (simp add: hasRoomForTradeEnhancements_def getMaxNumberEnhancements_def Let_def)

lemma unat_no_overflow: "\<not> d + y < y \<Longrightarrow> unat (d + y) = unat d + unat y" for d y :: "'a::len word"
  using unat_plus_simple [of y d] by (simp add: add.commute not_less)

lemma room_D:
  assumes "hasRoomForTrade tr s = Some SUCCESS" "character_ok (ent_char s)"
    "offer_held (m_info (getMember s tr)) (ent_char s)" "length es = length (info_enhancements (m_info (getOtherMember s tr)))"
    "length is = length (info_inspirations (m_info (getOtherMember s tr)))"
  shows "unat (m_influence (ent_char s) - info_influence (m_info (getMember s tr)) + info_influence (m_info (getOtherMember s tr))) +
      unat (info_influence (m_info (getMember s tr))) =
      unat (m_influence (ent_char s)) + unat (info_influence (m_info (getOtherMember s tr)))"
    and "size (enh_bag (ent_char s)) + length es \<le> length (m_enhancements (ent_char s)) + length (given_enhancements (m_info (getMember s tr)) (ent_char s))"
    and "size (insp_bag (ent_char s)) + length is \<le> getMaxNumberInspirations (ent_char s) + length (given_inspirations (m_info (getMember s tr)) (ent_char s))"
proof -
  let ?a = "m_influence (ent_char s)" and ?x = "info_influence (m_info (getMember s tr))" and ?y = "info_influence (m_info (getOtherMember s tr))"
  have r: "hasRoomForTradeInfluence tr s = SUCCESS" "hasRoomForTradeEnhancements tr s = SUCCESS" "hasRoomForTradeInspirations tr s = Some SUCCESS"
    using assms(1) by (auto simp: hasRoomForTrade_def Let_def split: if_splits)
  have "\<not> ?a - ?x + ?y < ?y" using r(1) by (auto simp: hasRoomForTradeInfluence_def Let_def split: if_splits)
  then have "unat (?a - ?x + ?y) = unat (?a - ?x) + unat ?y" by (rule unat_no_overflow)
  moreover have "unat (?a - ?x) = unat ?a - unat ?x" "unat ?x \<le> unat ?a"
    using assms(3) by (auto simp: offer_held_def unat_sub word_le_nat_alt)
  ultimately show "unat (?a - ?x + ?y) + unat ?x = unat ?a + unat ?y" by simp
  show "size (enh_bag (ent_char s)) + length es \<le> length (m_enhancements (ent_char s)) + length (given_enhancements (m_info (getMember s tr)) (ent_char s))"
    using r(2) assms(4) given_is_offered(3) [OF assms(2,3)] by (auto simp: room_enhancements size_enh_bag)
  show "size (insp_bag (ent_char s)) + length is \<le> getMaxNumberInspirations (ent_char s) + length (given_inspirations (m_info (getMember s tr)) (ent_char s))"
    using r(3) assms(5) count_inspirations [OF assms(2)] given_is_offered(4) [OF assms(2,3)]
    by (auto simp: hasRoomForTradeInspirations_def Let_def split: if_splits)
qed

text \<open>Two players that trade with each other: entities \<open>src\<close> and \<open>tgt\<close> with the trade \<open>tr\<close>.\<close>

definition partners :: "nat \<Rightarrow> nat \<Rightarrow> trade \<Rightarrow> trade_world \<Rightarrow> bool" where
  "partners src tgt tr w \<longleftrightarrow> src < length (live w) \<and> tgt < length (live w) \<and> src \<noteq> tgt \<and> trade_of src w = Some tr \<and>
     ent_trade (live w ! tgt) = ent_trade (live w ! src) \<and>
     getOtherMember (live w ! src) tr = getMember (live w ! tgt) tr \<and>
     getOtherMember (live w ! tgt) tr = getMember (live w ! src) tr \<and>
     character_ok (character_of src w) \<and> character_ok (character_of tgt w)"

lemma finishTrade_exchanges:
  assumes "partners src tgt tr w"
    and "hasRoomForTrade tr (live w ! src) = Some SUCCESS" and "hasRoomForTrade tr (live w ! tgt) = Some SUCCESS"
    and "offer_held (m_info (getMember (live w ! src) tr)) (character_of src w)"
    and "offer_held (m_info (getMember (live w ! tgt) tr)) (character_of tgt w)"
  shows "\<exists>w'. finishTrade src tgt w = Some w' \<and>
    exchanged (m_info (getMember (live w ! src) tr)) (character_of src w) (m_info (getMember (live w ! tgt) tr)) (character_of tgt w) (character_of src w') \<and>
    exchanged (m_info (getMember (live w ! tgt) tr)) (character_of tgt w) (m_info (getMember (live w ! src) tr)) (character_of src w) (character_of tgt w') \<and>
    ent_trade (live w' ! src) = None \<and> ent_trade (live w' ! tgt) = None"
proof -
  let ?A = "character_of src w" and ?B = "character_of tgt w"
  let ?ia = "m_info (getMember (live w ! src) tr)" and ?ib = "m_info (getMember (live w ! tgt) tr)"
  have p: "src < length (live w)" "tgt < length (live w)" "src \<noteq> tgt" "tgt \<noteq> src" "trade_of src w = Some tr"
    "character_ok ?A" "character_ok ?B" "getOtherMember (live w ! src) tr = getMember (live w ! tgt) tr"
    "getOtherMember (live w ! tgt) tr = getMember (live w ! src) tr"
    using assms(1) by (auto simp: partners_def)
  have ea: "length (given_enhancements ?ia ?A) = length (info_enhancements ?ia)" "length (given_enhancements ?ib ?B) = length (info_enhancements ?ib)"
    "length (given_inspirations ?ia ?A) = length (info_inspirations ?ia)" "length (given_inspirations ?ib ?B) = length (info_inspirations ?ib)"
    using given_is_offered [OF p(6) assms(4)] given_is_offered [OF p(7) assms(5)] by auto
  note ra = room_D [OF assms(2), of "given_enhancements ?ib ?B" "given_inspirations ?ib ?B", unfolded p(8), folded character_of_def, OF p(6) assms(4) ea(2,4)]
  note rb = room_D [OF assms(3), of "given_enhancements ?ia ?A" "given_inspirations ?ia ?A", unfolded p(9), folded character_of_def, OF p(7) assms(5) ea(1,3)]
  let ?va = "m_influence ?A - info_influence ?ia + info_influence ?ib"
  let ?vb = "m_influence ?B - info_influence ?ib + info_influence ?ia"
  obtain A2 where A2: "removeTradedEnhancements (info_enhancements ?ia) (?A\<lparr>m_influence := ?va\<rparr>) = Some (given_enhancements ?ia ?A, A2)"
    "character_ok A2" "enh_bag ?A = enh_bag A2 + mset (map enhancement_content (given_enhancements ?ia ?A))"
    "insp_part A2 = insp_part ?A" "m_influence A2 = ?va" "length (m_enhancements A2) = length (m_enhancements ?A)"
    using remove_own_enhancements [OF p(6), of ?ia ?va] by blast
  obtain B2 where B2: "removeTradedEnhancements (info_enhancements ?ib) (?B\<lparr>m_influence := ?vb\<rparr>) = Some (given_enhancements ?ib ?B, B2)"
    "character_ok B2" "enh_bag ?B = enh_bag B2 + mset (map enhancement_content (given_enhancements ?ib ?B))"
    "insp_part B2 = insp_part ?B" "m_influence B2 = ?vb" "length (m_enhancements B2) = length (m_enhancements ?B)"
    using remove_own_enhancements [OF p(7), of ?ib ?vb] by blast
  let ?A3 = "addTradedEnhancements (given_enhancements ?ib ?B) A2" and ?B3 = "addTradedEnhancements (given_enhancements ?ia ?A) B2"
  have A3: "character_ok ?A3" "enh_bag ?A3 = enh_bag A2 + mset (map enhancement_content (given_enhancements ?ib ?B))"
    "insp_part ?A3 = insp_part ?A" "m_influence ?A3 = ?va"
    using add_other_enhancements [OF A2(2), of "given_enhancements ?ib ?B"] A2(3-6) ra(2) by (auto simp: size_enh_bag [symmetric])
  have B3: "character_ok ?B3" "enh_bag ?B3 = enh_bag B2 + mset (map enhancement_content (given_enhancements ?ia ?A))"
    "insp_part ?B3 = insp_part ?B" "m_influence ?B3 = ?vb"
    using add_other_enhancements [OF B2(2), of "given_enhancements ?ia ?A"] B2(3-6) rb(2) by (auto simp: size_enh_bag [symmetric])
  obtain A4 where A4: "removeTradedInspirations (info_inspirations ?ia) ?A3 = Some (given_inspirations ?ia ?A, A4)"
    "character_ok A4" "insp_bag ?A = insp_bag A4 + mset (map inspiration_content (given_inspirations ?ia ?A))"
    "enh_bag A4 = enh_bag ?A3" "m_influence A4 = m_influence ?A3" "getMaxNumberInspirations A4 = getMaxNumberInspirations ?A"
    using remove_own_inspirations [OF p(6) A3(1,3), of ?ia] by blast
  obtain B4 where B4: "removeTradedInspirations (info_inspirations ?ib) ?B3 = Some (given_inspirations ?ib ?B, B4)"
    "character_ok B4" "insp_bag ?B = insp_bag B4 + mset (map inspiration_content (given_inspirations ?ib ?B))"
    "enh_bag B4 = enh_bag ?B3" "m_influence B4 = m_influence ?B3" "getMaxNumberInspirations B4 = getMaxNumberInspirations ?B"
    using remove_own_inspirations [OF p(7) B3(1,3), of ?ib] by blast
  obtain A5 where A5: "addTradedInspirations (given_inspirations ?ib ?B) A4 = Some A5"
    "insp_bag A5 = insp_bag A4 + mset (map inspiration_content (given_inspirations ?ib ?B))" "enh_bag A5 = enh_bag A4" "m_influence A5 = m_influence A4"
    using addTradedInspirations_bag [OF A4(2), of "given_inspirations ?ib ?B"] A4(3,6) ra(3) by auto
  obtain B5 where B5: "addTradedInspirations (given_inspirations ?ia ?A) B4 = Some B5"
    "insp_bag B5 = insp_bag B4 + mset (map inspiration_content (given_inspirations ?ia ?A))" "enh_bag B5 = enh_bag B4" "m_influence B5 = m_influence B4"
    using addTradedInspirations_bag [OF B4(2), of "given_inspirations ?ia ?A"] B4(3,6) rb(3) by auto
  have "exchanged ?ia ?A ?ib ?B A5" "exchanged ?ib ?B ?ia ?A B5"
    using A2 A3 A4 A5 B2 B3 B4 B5 ra(1) rb(1)
    unfolding exchanged_def given_is_offered(1,2) [OF p(6) assms(4), symmetric] given_is_offered(1,2) [OF p(7) assms(5), symmetric] by auto
  moreover have "\<exists>w'. finishTrade src tgt w = Some w' \<and> character_of src w' = A5 \<and> character_of tgt w' = B5 \<and>
      ent_trade (live w' ! src) = None \<and> ent_trade (live w' ! tgt) = None"
    using p A2(1) B2(1) A4(1) B4(1) A5(1) B5(1) by (simp add: finishTrade_def fetch_def Let_def)
  ultimately show ?thesis by blast
qed

end
