(* ===== verification/Trade_Safety.thy ===== *)
theory Trade_Safety
  imports Trade_Exchange
begin

text \<open>
  The trades of a map as a transition system: any inputs in any order, and any change of the characters
  by the rest of the server in between. In every reachable world a player only holds a trade of which
  it is a member.
\<close>

definition trade_start :: "trade_world \<Rightarrow> bool" where
  "trade_start w \<longleftrightarrow> trades w = [] \<and> distinct (map ent_db_id (live w)) \<and> (\<forall>e \<in> set (live w). ent_trade e = None)"

inductive trade_reach :: "trade_world \<Rightarrow> bool" where
  start: "trade_start w \<Longrightarrow> trade_reach w"
| input: "trade_reach w \<Longrightarrow> dispatch_trade i w = Some (w', out) \<Longrightarrow> trade_reach w'"
| elsewhere: "trade_reach w \<Longrightarrow> trade_reach (set_char e c w)"

definition member_ids :: "trade \<Rightarrow> u32 set" where
  "member_ids t = {member_db_id (m_member_a t), member_db_id (m_member_b t)}"

definition trade_inv :: "trade_world \<Rightarrow> bool" where
  "trade_inv w \<longleftrightarrow> distinct (map ent_db_id (live w)) \<and>
     (\<forall>e < length (live w). \<forall>k. ent_trade (live w ! e) = Some k \<longrightarrow> k < length (trades w) \<and> ent_db_id (live w ! e) \<in> member_ids (trades w ! k))"

lemma trade_invI:
  assumes "map ent_db_id (live w') = map ent_db_id (live w)" "trade_inv w"
    and "\<And>e k. e < length (live w) \<Longrightarrow> ent_trade (live w' ! e) = Some k \<Longrightarrow>
      k < length (trades w') \<and> ent_db_id (live w ! e) \<in> member_ids (trades w' ! k)"
  shows "trade_inv w'"
proof -
  have "length (live w') = length (live w)" using assms(1) by (metis length_map)
  moreover from this have "ent_db_id (live w' ! e) = ent_db_id (live w ! e)" if "e < length (live w)" for e
    using assms(1) that by (metis nth_map)
  ultimately show ?thesis using assms by (auto simp: trade_inv_def)
qed

lemma ids_set_ent: "(\<And>x. ent_db_id (f x) = ent_db_id x) \<Longrightarrow> map ent_db_id (live (set_ent e f w)) = map ent_db_id (live w)"
  by (cases "e < length (live w)") (auto simp: set_ent_def map_update list_update_same_conv list_update_beyond)

lemma set_ent_nth: "e' < length (live w) \<Longrightarrow> live (set_ent e f w) ! e' = (if e' = e then f (live w ! e) else live w ! e')"
  by (auto simp: set_ent_def nth_update)

lemma trades_set_ent [simp]: "trades (set_ent e f w) = trades w" "length (live (set_ent e f w)) = length (live w)"
  by (simp_all add: set_ent_def)

lemma inv_set_char: "trade_inv w \<Longrightarrow> trade_inv (set_char e c w)"
  unfolding set_char_def
  by (rule trade_invI [of _ w]) (auto simp: ids_set_ent set_ent_nth trade_inv_def split: if_splits)

lemma inv_discard: "trade_inv w \<Longrightarrow> trade_inv (discardTrade e w)"
  unfolding discardTrade_def
  by (rule trade_invI [of _ w]) (auto simp: ids_set_ent set_ent_nth trade_inv_def split: if_splits)

lemma inv_put:
  "trade_inv w \<Longrightarrow> trade_of e w = Some tr \<Longrightarrow> member_ids tr' = member_ids tr \<Longrightarrow> trade_inv (put_trade e tr' w)"
  by (rule trade_invI [of _ w])
    (auto simp: put_trade_def trade_of_def trade_inv_def bind_eq_Some_conv nth_update split: option.splits)

lemma member_ids_set [simp]: "member_ids (set_member_info e f t) = member_ids t"
  "member_ids (t\<lparr>m_invite_accepted := b\<rparr>) = member_ids t" "member_ids (update_offer s t' info t) = member_ids t"
  by (auto simp: member_ids_def set_member_info_def update_offer_def Let_def)

lemma inv_request:
  assumes "trade_inv w" "requestTrade src tgt w = Some (r, w')"
  shows "trade_inv w'"
proof -
  obtain s t where st: "src < length (live w)" "s = live w ! src" "tgt < length (live w)" "t = live w ! tgt"
    using assms(2) by (auto simp: requestTrade_def bind_eq_Some_conv)
  show ?thesis
  proof (cases "ent_trade s = None \<and> ent_trade t = None")
    case False
    with st assms show ?thesis by (auto simp: requestTrade_def bind_eq_Some_conv fetch_def split: if_splits)
  next
    case True
    let ?w1 = "w\<lparr>trades := trades w @ [new_trade s t]\<rparr>" and ?f = "\<lambda>x. x\<lparr>ent_trade := Some (length (trades w))\<rparr>"
    have w': "w' = set_ent tgt ?f (set_ent src ?f ?w1)"
      using True st assms(2) by (simp add: requestTrade_def fetch_def Let_def)
    show ?thesis
    proof (rule trade_invI [OF _ assms(1)])
      show "map ent_db_id (live w') = map ent_db_id (live w)" unfolding w' by (simp add: ids_set_ent)
      fix e k assume e: "e < length (live w)" "ent_trade (live w' ! e) = Some k"
      show "k < length (trades w') \<and> ent_db_id (live w ! e) \<in> member_ids (trades w' ! k)"
      proof (cases "e = src \<or> e = tgt")
        case True
        with e st have "k = length (trades w)" unfolding w' by (auto simp: set_ent_nth split: if_splits)
        with True st show ?thesis unfolding w' by (auto simp: member_ids_def new_trade_def)
      next
        case False
        with e have "ent_trade (live w ! e) = Some k" unfolding w' by (simp add: set_ent_nth)
        with assms(1) e(1) show ?thesis unfolding w' by (auto simp: trade_inv_def nth_append)
      qed
    qed
  qed
qed

lemma inv_accept: "trade_inv w \<Longrightarrow> acceptTrade src tgt w = Some (r, w') \<Longrightarrow> trade_inv w'"
  by (auto simp: acceptTrade_def bind_eq_Some_conv Let_def intro: inv_put split: if_splits)

lemma inv_decline: "trade_inv w \<Longrightarrow> declineTrade src tgt w = Some (r, w') \<Longrightarrow> trade_inv w'"
  by (auto simp: declineTrade_def bind_eq_Some_conv Let_def intro!: inv_discard split: if_splits)

lemma inv_update: "trade_inv w \<Longrightarrow> updateTrade src tgt info w = Some (r, w') \<Longrightarrow> trade_inv w'"
  by (auto simp: updateTrade_def bind_eq_Some_conv Let_def intro: inv_put split: if_splits)

lemma finish_keeps_trades: "finishTrade src tgt w = Some w' \<Longrightarrow> trades w' = trades w"
  by (auto simp: finishTrade_def bind_eq_Some_conv Let_def)

lemma inv_finish: "trade_inv w \<Longrightarrow> finishTrade src tgt w = Some w' \<Longrightarrow> trade_inv w' \<and> trades w' = trades w"
  by (auto simp: finishTrade_def bind_eq_Some_conv Let_def intro!: inv_discard inv_set_char)

lemma inv_dispatch: "trade_inv w \<Longrightarrow> dispatch_trade i w = Some (w', out) \<Longrightarrow> trade_inv w'"
proof (induction i w rule: dispatch_trade.induct)
  case (1 me nm w)
  then show ?case
    by (auto simp: cmdHandler_Trade_def bind_eq_Some_conv dest: inv_request split: prod.splits option.splits)
next
  case (2 me ps w)
  then show ?case
    by (auto simp: cmdHandler_TradeAccept_def bind_eq_Some_conv intro: inv_discard dest: inv_accept split: prod.splits option.splits if_splits)
next
  case (3 me ps w)
  then show ?case
    by (auto simp: cmdHandler_TradeDecline_def bind_eq_Some_conv intro: inv_discard dest: inv_decline split: prod.splits option.splits if_splits)
next
  case (4 me w)
  then show ?case
    by (auto simp: on_trade_cancelled_def bind_eq_Some_conv intro!: inv_discard split: option.splits if_splits)
next
  case (5 me info w)
  then show ?case
    by (auto simp: on_trade_updated_def bind_eq_Some_conv dest: inv_update inv_finish split: option.splits if_splits)
qed

lemma trade_reach_inv: "trade_reach w \<Longrightarrow> trade_inv w"
proof (induction rule: trade_reach.induct)
  case (start w)
  then show ?case by (auto simp: trade_start_def trade_inv_def)
qed (auto intro: inv_dispatch inv_set_char)

section \<open>Offers and acceptance\<close>

definition same_offers :: "trade \<Rightarrow> trade \<Rightarrow> bool" where
  "same_offers t t' \<longleftrightarrow> isEqualContent (m_info (m_member_a t)) (m_info (m_member_a t')) \<and>
     isEqualContent (m_info (m_member_b t)) (m_info (m_member_b t'))"

definition nobody_accepted :: "trade \<Rightarrow> bool" where
  "nobody_accepted t \<longleftrightarrow> \<not> m_accepted (m_info (m_member_a t)) \<and> \<not> m_accepted (m_info (m_member_b t))"

lemma same_offers_refl [simp]: "same_offers t t" "same_offers t (t\<lparr>m_invite_accepted := b\<rparr>)"
  by (simp_all add: same_offers_def isEqualContent_def)

lemma update_offer_cases:
  assumes "ent_db_id s \<in> member_ids tr" "ent_db_id t \<in> member_ids tr" "ent_db_id s \<noteq> ent_db_id t"
  shows "same_offers tr (update_offer s t info tr) \<or> nobody_accepted (update_offer s t info tr)"
  using assms by (auto simp: update_offer_def set_member_info_def getMember_def member_ids_def same_offers_def isEqualContent_def
      nobody_accepted_def Let_def)

lemma unaccept_cases:
  "same_offers tr tr' \<or> nobody_accepted tr' \<Longrightarrow>
   same_offers tr (set_member_info s (\<lambda>i. i\<lparr>m_accepted := False\<rparr>) tr') \<or> nobody_accepted (set_member_info s (\<lambda>i. i\<lparr>m_accepted := False\<rparr>) tr')"
  by (auto simp: set_member_info_def same_offers_def isEqualContent_def nobody_accepted_def)

lemma updateTrade_offers:
  assumes "trade_inv w" "updateTrade me tgt info w = Some (r, w')" "k < length (trades w)"
    and "ent_db_id (live w ! me) \<noteq> ent_db_id (live w ! tgt)"
  shows "same_offers (trades w ! k) (trades w' ! k) \<or> nobody_accepted (trades w' ! k)"
proof -
  obtain s t where st: "me < length (live w)" "s = live w ! me" "tgt < length (live w)" "t = live w ! tgt"
    using assms(2) by (auto simp: updateTrade_def bind_eq_Some_conv)
  show ?thesis
  proof (cases "ent_trade s = ent_trade t \<and> ent_trade s \<noteq> None")
    case False
    with st assms(2) have "w' = w" by (auto simp: updateTrade_def bind_eq_Some_conv split: if_splits)
    then show ?thesis by simp
  next
    case True
    then obtain j where j: "ent_trade s = Some j" "ent_trade t = Some j" by (metis option.exhaust)
    let ?tr = "trades w ! j"
    have ids: "j < length (trades w)" "ent_db_id s \<in> member_ids ?tr" "ent_db_id t \<in> member_ids ?tr"
      using assms(1) j st by (auto simp: trade_inv_def)
    have tr: "trade_of me w = Some ?tr" using j st ids(1) by (simp add: trade_of_def fetch_def)
    let ?u = "update_offer s t info ?tr"
    have u: "same_offers ?tr ?u \<or> nobody_accepted ?u"
      using update_offer_cases [OF ids(2,3)] assms(4) st by simp
    have "w' = put_trade me ?u w \<or> w' = put_trade me (set_member_info s (\<lambda>i. i\<lparr>m_accepted := False\<rparr>) ?u) w"
      using assms(2) st j tr by (auto simp: updateTrade_def bind_eq_Some_conv fetch_def Let_def split: if_splits)
    then obtain x where x: "w' = put_trade me x w" "same_offers ?tr x \<or> nobody_accepted x"
      using u unaccept_cases [OF u] by blast
    with st j ids(1) assms(3) show ?thesis by (auto simp: put_trade_def nth_update)
  qed
qed

end
