(* ===== verification/Trade_Properties.thy ===== *)
theory Trade_Properties
  imports Trade_Safety
begin

text \<open>
  The properties of trades: what finishing one exchanges, that an offer cannot change under an
  acceptance, and the ways around these rules.
\<close>

section \<open>An example\<close>

text \<open>Two players on a map, the first with the character of \<^theory_text>\<open>Power_Properties\<close>.\<close>

definition player :: "nat \<Rightarrow> string \<Rightarrow> character_data \<Rightarrow> nat option \<Rightarrow> trade_entity" where
  "player n nm cd t = \<lparr>ent_idx = n, ent_db_id = of_nat n, ent_name = bytes_of nm, ent_char = cd, ent_trade = t, ent_client = True, ent_target = 0\<rparr>"

definition example_world :: "trade_info \<Rightarrow> trade_info \<Rightarrow> trade_world" where
  "example_world ia ib = \<lparr>live = [player 5 ''Ann'' sample_character (Some 0), player 6 ''Bob'' sample_character (Some 0)],
     trades = [\<lparr>m_member_a = \<lparr>member_db_id = 5, m_info = ia\<rparr>, m_member_b = \<lparr>member_db_id = 6, m_info = ib\<rparr>, m_invite_accepted = True\<rparr>]\<rparr>"

lemma example_partners: "partners 0 1 (hd (trades (example_world ia ib))) (example_world ia ib)"
  by (simp add: partners_def example_world_def player_def trade_of_def fetch_def getMember_def getOtherMember_def character_of_def example_ok)

section \<open>Finishing\<close>

text \<open>C5. When two trading players hold what they offer and both have room, finishing the trade succeeds: each
  player loses exactly the influence, the enhancements of the slots and the inspirations of the cells the
  own offer names, as they were before the trade, gets exactly those the other's offer names, and neither
  trades any more. To hold an offer of two inspirations of one column the lower one must be named first: in the other
  order the code hands over another one (\<open>second_inspiration_is_another\<close> below).
\<close>
theorem finishing_exchanges_offers:
  assumes "partners src tgt tr w"
    and "hasRoomForTrade tr (live w ! src) = Some SUCCESS" and "hasRoomForTrade tr (live w ! tgt) = Some SUCCESS"
    and "offer_held (m_info (getMember (live w ! src) tr)) (character_of src w)"
    and "offer_held (m_info (getMember (live w ! tgt) tr)) (character_of tgt w)"
  shows "\<exists>w'. finishTrade src tgt w = Some w' \<and>
    exchanged (m_info (getMember (live w ! src) tr)) (character_of src w) (m_info (getMember (live w ! tgt) tr)) (character_of tgt w) (character_of src w') \<and>
    exchanged (m_info (getMember (live w ! tgt) tr)) (character_of tgt w) (m_info (getMember (live w ! src) tr)) (character_of src w) (character_of tgt w') \<and>
    ent_trade (live w' ! src) = None \<and> ent_trade (live w' ! tgt) = None"
  using finishTrade_exchanges [OF assms] .

definition example_offer :: trade_info where
  "example_offer = no_trade_info\<lparr>info_db_id := 6, info_influence := 40, info_enhancements := [0], info_inspirations := [(0, 1)]\<rparr>"

theorem finishing_exchanges_offers_witness:
  "\<exists>w'. finishTrade 0 1 (example_world example_offer no_trade_info) = Some w' \<and>
    exchanged example_offer sample_character no_trade_info sample_character (character_of 0 w') \<and>
    exchanged no_trade_info sample_character example_offer sample_character (character_of 1 w')"
proof -
  let ?w = "example_world example_offer no_trade_info" and ?tr = "hd (trades (example_world example_offer no_trade_info))"
  have h: "hasRoomForTrade ?tr (live ?w ! 0) = Some SUCCESS" "hasRoomForTrade ?tr (live ?w ! 1) = Some SUCCESS" by code_simp+
  have i: "m_info (getMember (live ?w ! 0) ?tr) = example_offer" "m_info (getMember (live ?w ! 1) ?tr) = no_trade_info"
    "character_of 0 ?w = sample_character" "character_of 1 ?w = sample_character"
    by (simp_all add: getMember_def example_world_def player_def character_of_def)
  have o: "offer_held example_offer sample_character" "offer_held no_trade_info sample_character" by code_simp+
  from finishing_exchanges_offers [OF example_partners h] o show ?thesis unfolding i by blast
qed

section \<open>Accepting\<close>

text \<open>C6. In every reachable world an input changes the offers of a trade only together with both acceptances:
  they are cancelled, so nobody can be held to an offer he has not accepted. The inputs that
  name the sender itself as the partner are left out here.
\<close>
theorem changed_offer_needs_new_acceptance:
  assumes "trade_reach w" and "dispatch_trade i w = Some (w', out)" and "k < length (trades w)"
    and "\<And>me info. i = TradeWasUpdated me info \<Longrightarrow> ent_db_id (live w ! me) \<noteq> info_db_id info"
  shows "same_offers (trades w ! k) (trades w' ! k) \<or> nobody_accepted (trades w' ! k)"
proof -
  note inv = trade_reach_inv [OF assms(1)]
  have acc: "same_offers (trades w ! k) (trades w' ! k)" if "acceptTrade src tgt w = Some (r, w')" for src tgt r w'
    using that assms(3) by (auto simp: acceptTrade_def put_trade_def trade_of_def bind_eq_Some_conv Let_def nth_update
        split: if_splits option.splits)
  have keep: "trades (discardTrade e v) = trades v" for e v by simp
  show ?thesis
  proof (cases i)
    case (Trade me nm)
    have "same_offers (trades w ! k) (trades w1 ! k)" if "requestTrade a b w = Some (r, w1)" for a b r w1
      using that assms(3) by (auto simp: requestTrade_def bind_eq_Some_conv Let_def nth_append split: if_splits)
    with Trade assms(2) show ?thesis
      by (auto simp: cmdHandler_Trade_def bind_eq_Some_conv split: prod.splits option.splits)
  next
    case (TradeAccept me ps)
    with assms(2) acc show ?thesis
      by (auto simp: cmdHandler_TradeAccept_def bind_eq_Some_conv split: prod.splits option.splits if_splits)
  next
    case (TradeDecline me ps)
    have "trades w1 = trades w" if "declineTrade a b w = Some (r, w1)" for a b r w1
      using that by (auto simp: declineTrade_def bind_eq_Some_conv Let_def split: if_splits)
    with TradeDecline assms(2) show ?thesis
      by (auto simp: cmdHandler_TradeDecline_def bind_eq_Some_conv split: prod.splits option.splits if_splits)
  next
    case (TradeWasCancelled me)
    with assms(2) show ?thesis
      by (auto simp: on_trade_cancelled_def bind_eq_Some_conv split: option.splits if_splits)
  next
    case (TradeWasUpdated me info)
    show ?thesis
    proof (cases "getEntityByDBID (info_db_id info) w")
      case None
      with TradeWasUpdated assms(2) show ?thesis by (simp add: on_trade_updated_def)
    next
      case (Some tgt)
      have "ent_db_id (live w ! tgt) = info_db_id info"
        using Some by (auto simp: getEntityByDBID_def first_entity_def find_Some_iff split: if_splits)
      with assms(4) [OF TradeWasUpdated] have ne: "ent_db_id (live w ! me) \<noteq> ent_db_id (live w ! tgt)" by simp
      obtain r w1 where u: "updateTrade me tgt info w = Some (r, w1)" "trades w' = trades w1"
      proof -
        from TradeWasUpdated Some assms(2) obtain r w1 where "updateTrade me tgt info w = Some (r, w1)" "trades w' = trades w1"
          by (auto simp: on_trade_updated_def bind_eq_Some_conv dest: finish_keeps_trades split: if_splits)
        then show thesis by (rule that)
      qed
      from updateTrade_offers [OF inv u(1) assms(3) ne] u(2) show ?thesis by simp
    qed
  qed
qed


theorem changed_offer_needs_new_acceptance_witness:
  "\<exists>w w' out. trade_reach w \<and> dispatch_trade (TradeWasUpdated 0 example_offer) w = Some (w', out) \<and>
     \<not> same_offers (trades w ! 0) (trades w' ! 0) \<and> nobody_accepted (trades w' ! 0)"
proof -
  let ?w0 = "\<lparr>live = [player 5 ''Ann'' sample_character None, player 6 ''Bob'' sample_character None], trades = []\<rparr>"
  let ?w1 = "fst (the (dispatch_trade (Trade 0 (bytes_of ''Bob'')) ?w0))"
  let ?r = "the (dispatch_trade (TradeWasUpdated 0 example_offer) ?w1)"
  have r0: "trade_reach ?w0" by (intro trade_reach.start) (simp add: trade_start_def player_def)
  have "dispatch_trade (Trade 0 (bytes_of ''Bob'')) ?w0 \<noteq> None" by code_simp
  then have r1: "trade_reach ?w1" by (metis r0 trade_reach.input option.collapse prod.collapse)
  have "dispatch_trade (TradeWasUpdated 0 example_offer) ?w1 \<noteq> None" by code_simp
  then have d: "dispatch_trade (TradeWasUpdated 0 example_offer) ?w1 = Some (fst ?r, snd ?r)" by simp
  have n: "0 < length (trades ?w1)" by code_simp
  have ids: "ent_db_id (live ?w1 ! 0) \<noteq> info_db_id example_offer" by code_simp
  have ns: "\<not> same_offers (trades ?w1 ! 0) (trades (fst ?r) ! 0)" by code_simp
  from changed_offer_needs_new_acceptance [OF r1 d n] ids ns
  have "nobody_accepted (trades (fst ?r) ! 0)" by auto
  with r1 d ns show ?thesis by blast
qed

text \<open>The rule has a gap: a player that sends an update naming itself as the partner changes its offer and
  only its own acceptance is cancelled; the partner still counts as having accepted, and an update
  with the same offer that accepts it then finishes a trade the partner never agreed to.
\<close>
theorem own_name_keeps_partner_acceptance:
  assumes "partners src tgt tr w" and "ent_db_id (live w ! src) \<noteq> 0" and "ent_db_id (live w ! src) \<noteq> ent_db_id (live w ! tgt)"
    and "ent_db_id (live w ! src) \<in> member_ids tr" and "ent_db_id (live w ! tgt) \<in> member_ids tr"
    and "\<not> isEqualContent (m_info (getMember (live w ! src) tr)) info"
  shows "\<exists>w' tr'. updateTrade src src info w = Some (SUCCESS, w') \<and> trade_of src w' = Some tr' \<and>
    isEqualContent (m_info (getMember (live w ! src) tr')) info \<and>
    getMember (live w ! tgt) tr' = getMember (live w ! tgt) tr"
proof -
  let ?s = "live w ! src"
  let ?u = "update_offer ?s ?s info tr"
  have p: "src < length (live w)" "trade_of src w = Some tr" "character_ok (ent_char ?s)"
    using assms(1) by (auto simp: partners_def character_of_def)
  then obtain k where k: "ent_trade ?s = Some k" "k < length (trades w)" "tr = trades w ! k"
    by (auto simp: trade_of_def bind_eq_Some_conv)
  obtain res where res: "hasRoomForTrade ?u ?s = Some res"
    using count_inspirations [OF p(3)] by (fastforce simp: hasRoomForTrade_def hasRoomForTradeInspirations_def Let_def)
  have u: "\<not> m_accepted (m_info (getMember ?s ?u))" "isEqualContent (m_info (getMember ?s ?u)) info"
    "getMember (live w ! tgt) ?u = getMember (live w ! tgt) tr"
    using assms(3-6) by (auto simp: update_offer_def set_member_info_def getMember_def isEqualContent_def member_ids_def Let_def)
  have "updateTrade src src info w = Some (SUCCESS, put_trade src ?u w)"
    using p k res u(1) by (simp add: updateTrade_def fetch_def Let_def)
  moreover have "trade_of src (put_trade src ?u w) = Some ?u"
    using p(1) k by (simp add: trade_of_def put_trade_def fetch_def)
  ultimately show ?thesis using u by blast
qed

text \<open>Bob offers ten, Ann forty, and Bob has accepted. Ann takes her offer back and gets the ten.\<close>

theorem own_name_keeps_partner_acceptance_witness:
  "\<exists>w w1 o1 w2 o2. w = example_world (no_trade_info\<lparr>info_influence := 40\<rparr>) (no_trade_info\<lparr>info_influence := 10, m_accepted := True\<rparr>) \<and>
     dispatch_trade (TradeWasUpdated 0 (no_trade_info\<lparr>info_db_id := 5\<rparr>)) w = Some (w1, o1) \<and> \<not> nobody_accepted (trades w1 ! 0) \<and>
     dispatch_trade (TradeWasUpdated 0 (no_trade_info\<lparr>info_db_id := 6, m_accepted := True\<rparr>)) w1 = Some (w2, o2) \<and>
     m_influence (character_of 0 w2) = 110 \<and> m_influence (character_of 1 w2) = 90"
proof -
  let ?w = "example_world (no_trade_info\<lparr>info_influence := 40\<rparr>) (no_trade_info\<lparr>info_influence := 10, m_accepted := True\<rparr>)"
  let ?i1 = "TradeWasUpdated 0 (no_trade_info\<lparr>info_db_id := 5\<rparr>)"
  let ?i2 = "TradeWasUpdated 0 (no_trade_info\<lparr>info_db_id := 6, m_accepted := True\<rparr>)"
  let ?w1 = "fst (the (dispatch_trade ?i1 ?w))"
  have "\<exists>w' tr'. updateTrade 0 0 (no_trade_info\<lparr>info_db_id := 5\<rparr>) ?w = Some (SUCCESS, w') \<and> trade_of 0 w' = Some tr' \<and>
    isEqualContent (m_info (getMember (live ?w ! 0) tr')) (no_trade_info\<lparr>info_db_id := 5\<rparr>) \<and>
    getMember (live ?w ! 1) tr' = getMember (live ?w ! 1) (hd (trades ?w))"
    by (rule own_name_keeps_partner_acceptance [OF example_partners])
      (simp_all add: example_world_def player_def member_ids_def getMember_def isEqualContent_def no_trade_info_def)
  moreover have "dispatch_trade ?i1 ?w \<noteq> None" by code_simp
  moreover have "\<not> nobody_accepted (trades ?w1 ! 0)" by code_simp
  moreover have "dispatch_trade ?i2 ?w1 \<noteq> None" by code_simp
  moreover have "m_influence (character_of 0 (fst (the (dispatch_trade ?i2 ?w1)))) = 110" by code_simp
  moreover have "m_influence (character_of 1 (fst (the (dispatch_trade ?i2 ?w1)))) = 90" by code_simp
  ultimately show ?thesis by (metis option.collapse prod.collapse)
qed

section \<open>Offers nobody can hold\<close>

text \<open>Nothing compares the influence a player offers with what the player has: offering more than that passes
  the check for room, and when the trade is finished the subtraction wraps around, so that the player
  ends with more than four billion minus the offer.
\<close>
theorem offered_influence_wraps:
  assumes "partners src tgt tr w"
    and "m_info (getMember (live w ! src) tr) = no_trade_info\<lparr>info_influence := v, m_accepted := x\<rparr>"
    and "m_info (getMember (live w ! tgt) tr) = no_trade_info\<lparr>m_accepted := y\<rparr>"
    and "m_influence (character_of src w) < v"
  shows "hasRoomForTrade tr (live w ! src) = Some SUCCESS \<and>
    (\<exists>w'. finishTrade src tgt w = Some w' \<and>
      unat (m_influence (character_of src w')) + unat v = unat (m_influence (character_of src w)) + 2 ^ 32)"
proof -
  have p: "src < length (live w)" "tgt < length (live w)" "src \<noteq> tgt" "tgt \<noteq> src" "trade_of src w = Some tr"
    "character_ok (ent_char (live w ! src))" "getOtherMember (live w ! src) tr = getMember (live w ! tgt) tr"
    using assms(1) by (auto simp: partners_def character_of_def)
  have room: "hasRoomForTrade tr (live w ! src) = Some SUCCESS"
    using assms(2,3) count_inspirations [OF p(6)] size_insp_bag_le [OF p(6)] p(7) size_enh_bag [of "ent_char (live w ! src)"]
    by (auto simp: hasRoomForTrade_def hasRoomForTradeInfluence_def room_enhancements hasRoomForTradeInspirations_def
        no_trade_info_def getNumberEnhancements_def Let_def)
  have "unat v < 2 ^ LENGTH(32)" by (rule unsigned_less)
  then have "unat (m_influence (character_of src w) - v) + unat v = unat (m_influence (character_of src w)) + 2 ^ 32"
    using assms(4) by (simp add: unat_sub_if_size word_size word_less_nat_alt)
  moreover have "\<exists>w'. finishTrade src tgt w = Some w' \<and> m_influence (character_of src w') = m_influence (character_of src w) - v"
    using p assms(2,3) by (auto simp: finishTrade_def fetch_def Let_def no_trade_info_def)
  ultimately show ?thesis using room by auto
qed

theorem offered_influence_wraps_witness:
  "\<exists>w'. finishTrade 0 1 (example_world (no_trade_info\<lparr>info_influence := 101, m_accepted := True\<rparr>) (no_trade_info\<lparr>m_accepted := True\<rparr>)) = Some w' \<and>
     unat (m_influence (character_of 0 w')) = 2 ^ 32 - 1"
  using offered_influence_wraps [OF example_partners [of "no_trade_info\<lparr>info_influence := 101, m_accepted := True\<rparr>"
      "no_trade_info\<lparr>m_accepted := True\<rparr>"], where v = 101 and x = True and y = True]
  by (auto simp: example_world_def player_def getMember_def character_of_def sample_character_def)

text \<open>Offering two inspirations of one column hands over the wrong one: what the partner is shown are the
  first and the second, but removing the first moves the column up, and the third is handed over.
\<close>
theorem second_inspiration_is_another:
  assumes "character_ok cd" and "col < m_max_insp_cols cd" and "2 < m_max_insp_rows cd"
    and "tray (m_inspirations cd) ! col ! 0 = Some x" and "tray (m_inspirations cd) ! col ! 1 = Some y" and "tray (m_inspirations cd) ! col ! 2 = Some z"
  shows "map_option (map inspiration_content) (getTradedInspirations cd [(col, 0), (col, 1)]) = Some [Some x, Some y] \<and>
    map_option (\<lambda>(es, _). map inspiration_content es) (removeTradedInspirations [(col, 0), (col, 1)] cd) = Some [Some x, Some z]"
proof -
  have cell: "\<exists>i. getInspiration col r c = Some (Some i) \<and> inspiration_content i = Some v"
    if "character_ok c" "col < m_max_insp_cols c" "r < m_max_insp_rows c" "tray (m_inspirations c) ! col ! r = Some v" for c r v
    using that tray_cell [OF cells_in_grid [OF that(1-3)]] cells_in_grid [OF that(1-3)]
    by (auto simp: getInspiration_def insp_at_in held_def inspiration_content_def split: if_splits)
  obtain i j where i: "getInspiration col 0 cd = Some (Some i)" "inspiration_content i = Some x"
    and j: "getInspiration col 1 cd = Some (Some j)" "inspiration_content j = Some y"
    using cell [of cd 0 x] cell [of cd 1 y] assms by auto
  obtain cd1 where r: "removeInspiration col 0 cd = Some cd1"
    using removeInspiration_returns [OF assms(1) i(1)] by blast
  let ?T = "tray (m_inspirations cd)"
  have len: "col < length ?T" "length (?T ! col) = 4"
    using tray_column [OF character_okD(1) [OF assms(1)], of col] assms(2) character_okD(6) [OF assms(1)] by (auto simp: tray_def)
  have "tray (m_inspirations cd1) ! col = close_gap 0 (m_max_insp_rows cd) (?T ! col)"
    using removing_closes_the_gap [OF assms(1,2), of 0] r assms(3) len(1) by simp
  moreover have "close_gap 0 (m_max_insp_rows cd) (?T ! col) ! 1 = Some z"
    using assms(3,6) len(2) character_okD(7) [OF assms(1)] by (auto simp: close_gap_def nth_append numeral_2_eq_2)
  ultimately have t1: "tray (m_inspirations cd1) ! col ! 1 = Some z" by simp
  have same: "m_max_insp_cols cd1 = m_max_insp_cols cd" "m_max_insp_rows cd1 = m_max_insp_rows cd"
    using r by (auto simp: removeInspiration_def bind_eq_Some_conv)
  obtain k where k: "getInspiration col 1 cd1 = Some (Some k)" "inspiration_content k = Some z"
    using cell [OF removeInspiration_ok [OF assms(1) r], of 1 z] t1 assms(2,3) same by auto
  obtain cd2 where "removeInspiration col 1 cd1 = Some cd2"
    using removeInspiration_returns [OF removeInspiration_ok [OF assms(1) r] k(1)] by blast
  with i j r k show ?thesis by (simp add: numeral_2_eq_2)
qed


definition three_inspirations :: character_data where
  "three_inspirations = sample_character\<lparr>m_inspirations :=
     (map (\<lambda>r. example_inspiration\<lparr>insp_name := [of_nat r], m_row := r\<rparr>) [0..<3] @ [new_inspiration]) # replicate 4 (replicate 4 new_inspiration)\<rparr>"

theorem second_inspiration_is_another_witness:
  "map_option (map inspiration_content) (getTradedInspirations three_inspirations [(0, 0), (0, 1)]) =
     Some [Some (no_power_info, no_power_data, [0]), Some (no_power_info, no_power_data, [1])] \<and>
   map_option (\<lambda>(es, _). map inspiration_content es) (removeTradedInspirations [(0, 0), (0, 1)] three_inspirations) =
     Some [Some (no_power_info, no_power_data, [0]), Some (no_power_info, no_power_data, [2])]"
proof (rule second_inspiration_is_another)
  have "grid_ok (m_inspirations three_inspirations)" unfolding grid_ok_code by code_simp
  with example_ok show "character_ok three_inspirations"
    by (simp add: character_ok_def three_inspirations_def numeral_eq_Suc)
qed code_simp+

end
