(* ===== verification/Cox_Hash.thy ===== *)
theory Cox_Hash
  imports Prelude
begin

unbundle bit_operations_syntax

text \<open>
  The hash tables that number the colours and the part names of costumes
  (\<^verbatim>\<open>Common/GameData/CoXHash.h\<close>, \<^verbatim>\<open>CoXHash.cpp\<close>): Bob Jenkins' hash of a byte block, the
  storage common to both maps (\<open>CoxHashCommon\<close>), the map with text keys (\<open>CoXHashMap\<close>) and the
  map with numbers as keys (\<open>CoXGenericHashMap\<close>). There are no buckets: the entries a key may
  occupy are given by hashing the key again, with the previous hash as the initial value.

  \<open>None\<close> is an access outside the storage, a failed \<open>assert\<close>, a remainder by zero, or a probe
  sequence that never ends.
\<close>

section \<open>The hash\<close>

text \<open>The macro \<open>mix\<close>.\<close>

definition mix :: "u32 \<times> u32 \<times> u32 \<Rightarrow> u32 \<times> u32 \<times> u32" where
  "mix abc = (let (a, b, c) = abc;
     a = (a - b - c) XOR drop_bit 13 c;
     b = (b - c - a) XOR push_bit 8 a;
     c = (c - a - b) XOR drop_bit 13 b;
     a = (a - b - c) XOR drop_bit 12 c;
     b = (b - c - a) XOR push_bit 16 a;
     c = (c - a - b) XOR drop_bit 5 b;
     a = (a - b - c) XOR drop_bit 3 c;
     b = (b - c - a) XOR push_bit 10 a;
     c = (c - a - b) XOR drop_bit 15 b
   in (a, b, c))"

text \<open>\<open>shifted_byte k i s\<close>: \<open>(uint32_t)k[i] << s\<close>.\<close>

definition shifted_byte :: "u8 list \<Rightarrow> nat \<Rightarrow> nat \<Rightarrow> u32" where
  "shifted_byte k i s = push_bit s (ucast (k ! i))"

definition quad :: "u8 list \<Rightarrow> nat \<Rightarrow> u32" where
  "quad k i = shifted_byte k i 0 + shifted_byte k (i + 1) 8 + shifted_byte k (i + 2) 16 + shifted_byte k (i + 3) 24"

text \<open>The loop over the blocks of twelve bytes; what is left has fewer than twelve.\<close>

function jenkins_blocks :: "u32 \<times> u32 \<times> u32 \<Rightarrow> u8 list \<Rightarrow> (u32 \<times> u32 \<times> u32) \<times> u8 list" where
  "jenkins_blocks abc k =
    (if length k \<ge> 12
     then let (a, b, c) = abc in jenkins_blocks (mix (a + quad k 0, b + quad k 4, c + quad k 8)) (drop 12 k)
     else (abc, k))"
  by pat_completeness auto
termination
  by (relation "measure (\<lambda>(_, k). length k)") auto

declare jenkins_blocks.simps [simp del]

text \<open>The \<open>switch\<close> over the number of bytes left, whose cases fall through.\<close>

definition jenkins_rest :: "u32 \<times> u32 \<times> u32 \<Rightarrow> u8 list \<Rightarrow> u32 \<times> u32 \<times> u32" where
  "jenkins_rest abc k = (let (a, b, c) = abc; len = length k;
     c = (if 11 \<le> len then c + shifted_byte k 10 24 else c);
     c = (if 10 \<le> len then c + shifted_byte k 9 16 else c);
     c = (if 9 \<le> len then c + shifted_byte k 8 8 else c);
     b = (if 8 \<le> len then b + shifted_byte k 7 24 else b);
     b = (if 7 \<le> len then b + shifted_byte k 6 16 else b);
     b = (if 6 \<le> len then b + shifted_byte k 5 8 else b);
     b = (if 5 \<le> len then b + shifted_byte k 4 0 else b);
     a = (if 4 \<le> len then a + shifted_byte k 3 24 else a);
     a = (if 3 \<le> len then a + shifted_byte k 2 16 else a);
     a = (if 2 \<le> len then a + shifted_byte k 1 8 else a);
     a = (if 1 \<le> len then a + shifted_byte k 0 0 else a)
   in (a, b, c))"

definition jenkins_hash :: "u8 list \<Rightarrow> u32 \<Rightarrow> u32" where
  "jenkins_hash k initval =
    (let ((a, b, c), rest) = jenkins_blocks (0x9e3779b9, 0x9e3779b9, initval) k;
         (a, b, c) = mix (jenkins_rest (a, b, c + of_nat (length k)) rest)
     in c)"

text \<open>The two instances of \<open>operator()\<close>: a number is hashed as its four bytes in memory.\<close>

definition hash_text :: "text_bytes \<Rightarrow> u32 \<Rightarrow> u32" where
  "hash_text val prev_val = jenkins_hash val prev_val"

definition hash_number :: "u32 \<Rightarrow> u32 \<Rightarrow> u32" where
  "hash_number val prev_val =
    jenkins_hash [ucast val, ucast (drop_bit 8 val), ucast (drop_bit 16 val), ucast (drop_bit 24 val)] prev_val"

section \<open>The storage\<close>

record ('k, 'v) hash_entry =
  key_hash :: u32
  stored_key :: 'k
  stored_val :: 'v
  entry_flags :: u32

record ('k, 'v) hash_table =
  m_storage :: "('k, 'v) hash_entry list"
  in_use :: nat
  m_flags :: u32

text \<open>The constructor of an entry sets the hash and the flags; the texts of the text map are empty,
  the numbers of the colour map are whatever the memory held.\<close>

definition fresh_entry :: "'k \<times> 'v \<Rightarrow> ('k, 'v) hash_entry" where
  "fresh_entry mem = \<lparr>key_hash = 0, stored_key = fst mem, stored_val = snd mem, entry_flags = 0\<rparr>"

definition new_table :: "('k, 'v) hash_table" where
  "new_table = \<lparr>m_storage = [], in_use = 0, m_flags = 0\<rparr>"

definition resize_storage :: "'k \<times> 'v \<Rightarrow> nat \<Rightarrow> ('k, 'v) hash_entry list \<Rightarrow> ('k, 'v) hash_entry list" where
  "resize_storage mem n st = take n st @ replicate (n - length st) (fresh_entry mem)"

text \<open>The virtual \<open>find_index\<close>: the key, the flag \<open>a5\<close>, and the two out parameters with the values
  the caller initialised them with; the result code (0: not in the table, 1: found, 2: error) and
  the out parameters.\<close>

type_synonym ('k, 'v) finder =
  "('k, 'v) hash_table \<Rightarrow> 'k \<Rightarrow> u32 \<times> u32 \<Rightarrow> bool \<Rightarrow> (u32 \<times> u32 \<times> u32) option"

text \<open>\<open>resize\<close>: the entries move to the places the new size gives them. \<open>out\<close> holds \<open>entry_idx\<close> and
  \<open>prev_val\<close>, which live outside the loop.\<close>

fun resize_loop :: "('k, 'v) finder \<Rightarrow> ('k, 'v) hash_entry list \<Rightarrow> u32 \<times> u32 \<Rightarrow>
    ('k, 'v) hash_table \<Rightarrow> ('k, 'v) hash_table option" where
  "resize_loop find_index [] out T = Some T"
| "resize_loop find_index (e # es) out T =
    (if key_hash e = 0 then resize_loop find_index es out T
     else case find_index T (stored_key e) out True of None \<Rightarrow> None
       | Some (res, entry_idx, prev_val) \<Rightarrow>
          if res = 2 then None
          else if unat entry_idx < length (m_storage T)
          then resize_loop find_index es (entry_idx, prev_val)
            (T\<lparr>m_storage := (m_storage T)[unat entry_idx := e\<lparr>key_hash := prev_val\<rparr>],
               in_use := in_use T + 1\<rparr>)
          else None)"

definition resize_table :: "('k, 'v) finder \<Rightarrow> (u32 \<Rightarrow> u32) \<Rightarrow> 'k \<times> 'v \<Rightarrow> u32 \<times> u32 \<Rightarrow> u32 \<Rightarrow>
    ('k, 'v) hash_table \<Rightarrow> ('k, 'v) hash_table option" where
  "resize_table find_index next_size mem locals new_size T =
    resize_loop find_index (m_storage T) locals
      (T\<lparr>in_use := 0, m_storage := resize_storage mem (unat (next_size new_size)) []\<rparr>)"

text \<open>\<open>insert_entry\<close>: the table and the place of the new entry, or no place (the null pointer).\<close>

definition grow_factor :: "('k, 'v) hash_table \<Rightarrow> nat \<Rightarrow> nat" where
  "grow_factor T watermark =
    (if in_use T \<ge> watermark \<or> in_use T \<ge> (if m_storage T = [] then 2 ^ 64 - 1 else length (m_storage T) - 1)
     then 2 else 1)"

definition insert_entry :: "('k, 'v) finder \<Rightarrow> (u32 \<Rightarrow> u32) \<Rightarrow> 'k \<times> 'v \<Rightarrow> u32 \<times> u32 \<Rightarrow> 'k \<Rightarrow> 'v \<Rightarrow>
    ('k, 'v) hash_table \<Rightarrow> (('k, 'v) hash_table \<times> nat option) option" where
  "insert_entry find_index next_size mem locals k v T =
    (let watermark = length (m_storage T) * 3 div 4;
         grown = (if in_use T \<ge> watermark \<or> in_use T \<ge> length (m_storage T)
                  then resize_table find_index next_size mem locals
                    (of_nat (grow_factor T watermark * length (m_storage T))) T
                  else Some T)
     in case grown of None \<Rightarrow> None
      | Some T \<Rightarrow> (case find_index T k (0, 0) True of None \<Rightarrow> None
          | Some (res, entry_idx, prev_val) \<Rightarrow>
             if res \<noteq> 0 then Some (T, None)
             else if unat entry_idx < length (m_storage T)
             then Some (T\<lparr>m_storage := (m_storage T)[unat entry_idx :=
                   (m_storage T ! unat entry_idx)\<lparr>stored_key := k, stored_val := v, key_hash := prev_val\<rparr>],
                   in_use := in_use T + 1\<rparr>, Some (unat entry_idx))
             else None))"

definition key_for_idx :: "('k, 'v) hash_table \<Rightarrow> int \<Rightarrow> 'k option" where
  "key_for_idx T idx = (let idx = idx - 1 in
     if 0 \<le> idx \<and> idx < int (length (m_storage T)) \<and> key_hash (m_storage T ! nat idx) \<noteq> 0
     then Some (stored_key (m_storage T ! nat idx)) else None)"

definition init_table :: "(u32 \<Rightarrow> u32) \<Rightarrow> 'k \<times> 'v \<Rightarrow> u32 \<Rightarrow> u32 \<Rightarrow> ('k, 'v) hash_table \<Rightarrow> ('k, 'v) hash_table" where
  "init_table next_size mem sz flags T =
    T\<lparr>m_flags := flags, in_use := 0, m_storage := resize_storage mem (unat (next_size sz)) (m_storage T)\<rparr>"

section \<open>The map with text keys\<close>

definition HAS_KEY_NAMES :: u32 where "HAS_KEY_NAMES = 1"
definition SKIP_CLASHES :: u32 where "SKIP_CLASHES = 4"
definition CHECK_COLLISIONS :: u32 where "CHECK_COLLISIONS = 8"
definition SINGLE_BYTE :: u32 where "SINGLE_BYTE = 0x20"

definition to_upper_byte :: "u8 \<Rightarrow> u8" where
  "to_upper_byte c = (if 97 \<le> c \<and> c \<le> 122 then c - 32 else c)"

definition to_upper :: "text_bytes \<Rightarrow> text_bytes" where
  "to_upper cs = map to_upper_byte cs"

text \<open>The loop of \<open>CoXHashMap::find_index\<close>; \<open>h\<close> is \<open>this->hash(tmp_key, _)\<close>.\<close>

partial_function (option) text_probe :: "(u32 \<Rightarrow> u32) \<Rightarrow> (text_bytes, 'v) hash_table \<Rightarrow> text_bytes \<Rightarrow> bool \<Rightarrow>
    u32 \<Rightarrow> (u32 \<times> u32 \<times> u32) option" where
  "text_probe h T key a5 HashValue =
    (let HashValue = h HashValue;
         hash_index = HashValue AND (of_nat (length (m_storage T)) - 1)
     in if HashValue = 0 then Some (2, hash_index, HashValue)
        else if \<not> unat hash_index < length (m_storage T) then None
        else let entry = m_storage T ! unat hash_index
          in if key_hash entry = 0 \<or> (a5 \<and> entry_flags entry AND 1 \<noteq> 0) then Some (0, hash_index, HashValue)
             else if HashValue \<noteq> key_hash entry \<and> entry_flags entry AND 1 = 0 then text_probe h T key a5 HashValue
             else if m_flags T AND HAS_KEY_NAMES = 0 \<or> m_flags T AND CHECK_COLLISIONS = 0
             then Some (1, hash_index, HashValue)
             else if key = stored_key entry then Some (1, hash_index, HashValue)
             else if m_flags T AND SKIP_CLASHES = 0 then Some (2, hash_index, HashValue)
             else text_probe h T key a5 HashValue)"

definition text_find_index :: "(text_bytes, 'v) finder" where
  "text_find_index T key out a5 =
    (if m_flags T AND SINGLE_BYTE \<noteq> 0
     then if length key \<ge> 0x1000 then Some (0, out)
          else text_probe (hash_text (to_upper key)) T key a5 0
     else text_probe (hash_text key) T key a5 0)"

fun highest_bit :: "nat \<Rightarrow> u32 \<Rightarrow> u32 \<Rightarrow> u32" where
  "highest_bit 0 sz bit1 = bit1"
| "highest_bit (Suc n) sz bit1 = (if sz AND bit1 \<noteq> 0 then bit1 else highest_bit n sz (drop_bit 1 bit1))"

definition text_next_size :: "u32 \<Rightarrow> u32" where
  "text_next_size sz = (if sz = 0 then 0
     else let bit1 = highest_bit 32 sz (push_bit 31 1) in if sz \<noteq> bit1 then push_bit 1 bit1 else bit1)"

section \<open>The map with numbers as keys\<close>

partial_function (option) number_probe :: "(u32 \<Rightarrow> u32) \<Rightarrow> (u32, 'v) hash_table \<Rightarrow> u32 \<Rightarrow>
    u32 \<Rightarrow> u32 \<Rightarrow> (u32 \<times> u32 \<times> u32) option" where
  "number_probe h T needle prev_val entry_to_try =
    (let entry = m_storage T ! unat entry_to_try
     in if key_hash entry = 0 then Some (0, entry_to_try, prev_val)
        else if key_hash entry = prev_val \<and> needle = stored_key entry then Some (1, entry_to_try, prev_val)
        else let prev_val = h prev_val;
                 entry_to_try = of_nat (unat prev_val mod length (m_storage T))
          in if prev_val = 0 then Some (2, entry_to_try, prev_val)
             else number_probe h T needle prev_val entry_to_try)"

definition number_find_index :: "(u32, 'v) finder" where
  "number_find_index T needle out a5 =
    (if m_storage T = [] then None
     else let h_idx = hash_number needle 0;
              entry_to_try = of_nat (unat h_idx mod length (m_storage T))
       in if entry_to_try = 0 then Some (2, out)
          else number_probe (hash_number needle) T needle h_idx entry_to_try)"

definition prime_sizes :: "nat list" where
  "prime_sizes = [
     11,     19,     37,     73,     109,    163,    251,    367,
     557,    823,    1237,   1861,   2777,   4177,   6247,   9371,
     14057,  21089,  31627,  47431,  71143,  106721, 160073, 240101,
     360163, 540217, 810343, 1215497,1823231,2734867,4102283,6153409,
     9230113,13845163,16313537,32452867]"

definition number_next_size :: "u32 \<Rightarrow> u32" where
  "number_next_size sz =
    (case find (\<lambda>p. p \<ge> unat sz) prime_sizes of Some p \<Rightarrow> of_nat p | None \<Rightarrow> of_nat (prime_sizes ! 35))"

definition number_init :: "u32 \<times> 'v \<Rightarrow> u32 \<Rightarrow> (u32, 'v) hash_table \<Rightarrow> (u32, 'v) hash_table" where
  "number_init mem sz T =
    T\<lparr>m_storage := resize_storage mem (if sz > 0 then unat (number_next_size sz) else 32) (m_storage T)\<rparr>"

end
