(* ===== verification/Costume_Packer.thy ===== *)
theory Costume_Packer
  imports Cox_Hash BitStream "HOL-Library.List_Lexorder"
begin

unbundle bit_operations_syntax

text \<open>
  How costumes travel (\<^verbatim>\<open>Common/GameData/GameDataStore.cpp\<close>, \<^verbatim>\<open>Costume.cpp\<close>, \<^verbatim>\<open>Costume.h\<close>,
  \<^verbatim>\<open>CommonNetStructures.cpp\<close>): names and colours that the game data knows are sent as their
  places in a hash table; a costume is a sequence of such fields. Floats are their 32-bit
  representations.
\<close>

section \<open>The numbers of known strings\<close>

record indexed_packer =
  m_known_strings :: "text_bytes list"
  m_string_to_index :: "text_bytes \<Rightarrow> nat option"

definition new_indexed_packer :: indexed_packer where
  "new_indexed_packer = \<lparr>m_known_strings = [], m_string_to_index = Map.empty\<rparr>"

text \<open>\<open>at\<close> with a default.\<close>

definition at_default :: "('k \<Rightarrow> 'a option) \<Rightarrow> 'k \<Rightarrow> 'a \<Rightarrow> 'a" where
  "at_default m k d = (case m k of Some v \<Rightarrow> v | None \<Rightarrow> d)"

definition addString :: "text_bytes \<Rightarrow> indexed_packer \<Rightarrow> indexed_packer option" where
  "addString str P =
    (let idx = at_default (m_string_to_index P) (to_lower str) 0
     in if idx \<noteq> 0
        then if idx - 1 < length (m_known_strings P) \<and> equal_ignoring_case (m_known_strings P ! (idx - 1)) str
             then Some P else None
        else let known = m_known_strings P @ [to_lower str]
          in Some (P\<lparr>m_known_strings := known,
                m_string_to_index := (m_string_to_index P)(to_lower str \<mapsto> length known)\<rparr>))"

definition getIndex :: "indexed_packer \<Rightarrow> text_bytes \<Rightarrow> nat" where
  "getIndex P str = at_default (m_string_to_index P) (to_lower str) 0"

fun record_order :: "nat \<Rightarrow> text_bytes list \<Rightarrow> (text_bytes \<Rightarrow> nat option) \<Rightarrow> text_bytes \<Rightarrow> nat option" where
  "record_order i [] m = m"
| "record_order i (str # strs) m = record_order (i + 1) strs (m(str \<mapsto> i))"

definition sortEntries :: "indexed_packer \<Rightarrow> indexed_packer" where
  "sortEntries P = (let known = sort (m_known_strings P)
    in P\<lparr>m_known_strings := known, m_string_to_index := record_order 1 known (m_string_to_index P)\<rparr>)"

section \<open>The hash tables of the packer\<close>

type_synonym string_table = "(text_bytes, text_bytes) hash_table"
type_synonym color_table = "(u32, u32) hash_table"

record hash_packer =
  m_strings :: string_table
  m_colors :: color_table

definition stringcachecount_bitlength :: nat where "stringcachecount_bitlength = 12"
definition colorcachecount_bitlength :: nat where "colorcachecount_bitlength = 10"

text \<open>\<open>color_to_4ub\<close> of a vector whose components have been cut to numbers.\<close>

definition color_to_4ub :: "u32 \<times> u32 \<times> u32 \<Rightarrow> u32" where
  "color_to_4ub rgb = (case rgb of (r, g, b) \<Rightarrow> r OR push_bit 8 g OR push_bit 16 b OR push_bit 24 0xFF)"

text \<open>\<open>mem\<close> and \<open>locals\<close> are the uninitialised contents of new number entries and of the local
  variables of \<open>resize\<close>.\<close>

definition insert_color :: "u32 \<times> u32 \<Rightarrow> u32 \<times> u32 \<Rightarrow> u32 \<Rightarrow> color_table \<Rightarrow> color_table option" where
  "insert_color mem locals c T = map_option fst (insert_entry number_find_index number_next_size mem locals c c T)"

definition insert_string :: "u32 \<times> u32 \<Rightarrow> text_bytes \<Rightarrow> string_table \<Rightarrow> string_table option" where
  "insert_string locals str T = map_option fst (insert_entry text_find_index text_next_size ([], []) locals str [] T)"

fun add_colors :: "u32 \<times> u32 \<Rightarrow> u32 \<times> u32 \<Rightarrow> (u32 \<times> u32 \<times> u32) list \<Rightarrow> color_table \<Rightarrow> color_table option" where
  "add_colors mem locals [] T = Some T"
| "add_colors mem locals (c # cs) T =
    Option.bind (insert_color mem locals (color_to_4ub c) T) (add_colors mem locals cs)"

fun add_strings :: "u32 \<times> u32 \<Rightarrow> text_bytes list \<Rightarrow> string_table \<Rightarrow> string_table option" where
  "add_strings locals [] T = Some T"
| "add_strings locals (s # ss) T = Option.bind (insert_string locals s T) (add_strings locals ss)"

text \<open>The costume store, with the members that the packer reads.\<close>

record mask_data = mk_Name :: text_bytes  mk_DisplayName :: text_bytes
record info_data = i_DisplayName :: text_bytes  i_GeoName :: text_bytes  i_Geo :: text_bytes
  i_Tex1 :: text_bytes  i_Tex2 :: text_bytes
record geoset_data = g_Displayname :: text_bytes  g_BodyPart :: text_bytes  g_Infos :: "info_data list"
  g_MaskNames :: "text_bytes list"  g_MaskStrings :: "text_bytes list"  g_Masks :: "mask_data list"
record boneset_data = b_Name :: text_bytes  b_Displayname :: text_bytes  b_GeoSets :: "geoset_data list"
record region_data = r_Name :: text_bytes  r_BoneSets :: "boneset_data list"
type_synonym palette = "(u32 \<times> u32 \<times> u32) list"
record origin_data = o_Name :: text_bytes  o_BodyPalette :: "palette list"  o_SkinPalette :: "palette list"
  o_Region :: "region_data list"
record costume_data = c_Name :: text_bytes  c_Origins :: "origin_data list"

text \<open>The names in the order in which the nested loops, all of them from the last element to the
  first, insert them.\<close>

definition geoset_strings :: "geoset_data \<Rightarrow> text_bytes list" where
  "geoset_strings g = [g_Displayname g, g_BodyPart g] @
    concat (map (\<lambda>i. [i_DisplayName i, i_GeoName i, i_Geo i, i_Tex1 i, i_Tex2 i]) (rev (g_Infos g))) @
    rev (g_MaskNames g) @ rev (g_MaskStrings g) @
    concat (map (\<lambda>m. [mk_Name m, mk_DisplayName m]) (rev (g_Masks g)))"

definition boneset_strings :: "boneset_data \<Rightarrow> text_bytes list" where
  "boneset_strings b = [b_Name b, b_Displayname b] @ concat (map geoset_strings (rev (b_GeoSets b)))"

definition region_strings :: "region_data \<Rightarrow> text_bytes list" where
  "region_strings r = r_Name r # concat (map boneset_strings (rev (r_BoneSets r)))"

definition origin_strings :: "origin_data \<Rightarrow> text_bytes list" where
  "origin_strings ori = concat (map region_strings (rev (o_Region ori))) @ [o_Name ori]"

definition costume_strings :: "costume_data \<Rightarrow> text_bytes list" where
  "costume_strings c = c_Name c # concat (map origin_strings (rev (c_Origins c)))"

text \<open>The colours of an origin; an origin without a palette is an access outside the vector.\<close>

definition origin_colors :: "origin_data \<Rightarrow> (u32 \<times> u32 \<times> u32) list option" where
  "origin_colors ori = (case (o_BodyPalette ori, o_SkinPalette ori) of
     (b # _, s # _) \<Rightarrow> Some (b @ s) | _ \<Rightarrow> None)"

fun all_colors :: "origin_data list \<Rightarrow> (u32 \<times> u32 \<times> u32) list option" where
  "all_colors [] = Some []"
| "all_colors (ori # os) = (case origin_colors ori of None \<Rightarrow> None
     | Some cs \<Rightarrow> map_option (append cs) (all_colors os))"

definition fill_hashes :: "u32 \<times> u32 \<Rightarrow> u32 \<times> u32 \<Rightarrow> palette \<Rightarrow> costume_data list \<Rightarrow> hash_packer \<Rightarrow> hash_packer option" where
  "fill_hashes mem locals supergroup_colors costumes P =
    (let colors = number_init mem 557 (m_colors P);
         strings = init_table text_next_size ([], []) 4096 0x3D (m_strings P);
         origins = concat (map (\<lambda>c. rev (c_Origins c)) (rev costumes))
     in case add_colors mem locals supergroup_colors colors of None \<Rightarrow> None
      | Some colors \<Rightarrow> (case all_colors origins of None \<Rightarrow> None
        | Some cs \<Rightarrow> (case add_colors mem locals cs colors of None \<Rightarrow> None
          | Some colors \<Rightarrow> (case add_strings locals (concat (map costume_strings (rev costumes))) strings of
              None \<Rightarrow> None
            | Some strings \<Rightarrow> Some (P\<lparr>m_colors := colors, m_strings := strings\<rparr>)))))"

section \<open>Names and colours in a stream\<close>

text \<open>\<open>cached find\<close>: what \<open>packColor\<close> and \<open>packPartname\<close> send. \<open>find_index\<close> sets the index also when it
  does not find the key.\<close>

definition cached_index :: "('k, 'v) finder \<Rightarrow> ('k, 'v) hash_table \<Rightarrow> 'k \<Rightarrow> bool \<Rightarrow> u32 option" where
  "cached_index find_index T key blank =
    (if blank then Some 0
     else case find_index T key (0, 0) False of None \<Rightarrow> None
       | Some (res, cache_idx, prev_val) \<Rightarrow> Some (if res \<noteq> 0 then cache_idx + 1 else cache_idx))"

definition packColor :: "hash_packer \<Rightarrow> u32 \<Rightarrow> bitstream \<Rightarrow> bitstream option" where
  "packColor P col bs = do {
     cache_idx \<leftarrow> cached_index number_find_index (m_colors P) col (col = 0);
     bs \<leftarrow> StoreBits 1 (if cache_idx \<noteq> 0 \<or> col = 0 then 1 else 0) bs;
     if cache_idx \<noteq> 0 \<or> col = 0 then StorePackedBits colorcachecount_bitlength cache_idx bs
     else StoreBits 32 col bs }"

definition unpackColor :: "hash_packer \<Rightarrow> bitstream \<Rightarrow> (u32 \<times> bitstream) option" where
  "unpackColor P bs = do {
     (in_hash, bs) \<leftarrow> GetBits 1 bs;
     if in_hash \<noteq> 0
     then do { (hash_idx, bs) \<leftarrow> GetBits colorcachecount_bitlength bs;
       Some (case key_for_idx (m_colors P) (uint (ucast hash_idx :: u16)) of Some kv \<Rightarrow> kv | None \<Rightarrow> 0, bs) }
     else GetBits 32 bs }"

definition packPartname :: "hash_packer \<Rightarrow> text_bytes \<Rightarrow> bitstream \<Rightarrow> bitstream option" where
  "packPartname P str bs = do {
     cache_idx \<leftarrow> cached_index text_find_index (m_strings P) str (str = []);
     bs \<leftarrow> StoreBits 1 (if cache_idx \<noteq> 0 \<or> str = [] then 1 else 0) bs;
     if cache_idx \<noteq> 0 \<or> str = [] then StorePackedBits stringcachecount_bitlength cache_idx bs
     else StoreString_view str bs }"

definition unpackPartname :: "hash_packer \<Rightarrow> bitstream \<Rightarrow> (text_bytes \<times> bitstream) option" where
  "unpackPartname P bs = do {
     (in_cache, bs) \<leftarrow> GetBits 1 bs;
     if in_cache \<noteq> 0
     then do { (in_cache_idx, bs) \<leftarrow> GetPackedBits stringcachecount_bitlength bs;
       Some (case key_for_idx (m_strings P) (sint in_cache_idx) of Some kv \<Rightarrow> kv | None \<Rightarrow> [], bs) }
     else do { (str, bs) \<leftarrow> GetString bs; Some (case str of Some s \<Rightarrow> s | None \<Rightarrow> [], bs) } }"

section \<open>Costumes\<close>

record costume_part =
  m_geometry :: text_bytes
  m_texture_1 :: text_bytes
  m_texture_2 :: text_bytes
  name_3 :: text_bytes
  name_4 :: text_bytes
  name_5 :: text_bytes
  m_color_0 :: u32
  m_color_1 :: u32
  m_type :: u8
  m_full_part :: bool

record costume =
  m_index :: nat
  m_character_id :: u32
  m_height :: u32
  m_physique :: u32
  m_body_type :: u32
  m_skin_color :: u32
  m_send_full_costume :: bool
  m_num_parts :: u32
  m_parts :: "costume_part list"

text \<open>A default constructed part; \<open>full\<close> and \<open>type\<close> are assigned at once by the reader.\<close>

definition fresh_part :: "bool \<Rightarrow> u8 \<Rightarrow> costume_part" where
  "fresh_part full ty = \<lparr>m_geometry = [], m_texture_1 = [], m_texture_2 = [], name_3 = [], name_4 = [], name_5 = [],
     m_color_0 = 0, m_color_1 = 0, m_type = ty, m_full_part = full\<rparr>"

definition serializeto_part :: "hash_packer \<Rightarrow> costume_part \<Rightarrow> bitstream \<Rightarrow> bitstream option" where
  "serializeto_part P part bs = do {
     bs \<leftarrow> packPartname P (m_geometry part) bs;
     bs \<leftarrow> packPartname P (m_texture_1 part) bs;
     bs \<leftarrow> packPartname P (m_texture_2 part) bs;
     bs \<leftarrow> packColor P (m_color_0 part) bs;
     bs \<leftarrow> packColor P (m_color_1 part) bs;
     if m_full_part part then do {
       bs \<leftarrow> packPartname P (name_3 part) bs;
       bs \<leftarrow> packPartname P (name_4 part) bs;
       packPartname P (name_5 part) bs }
     else Some bs }"

definition serializefrom_part :: "hash_packer \<Rightarrow> costume_part \<Rightarrow> bitstream \<Rightarrow> (costume_part \<times> bitstream) option" where
  "serializefrom_part P part bs = do {
     (geometry, bs) \<leftarrow> unpackPartname P bs;
     (texture_1, bs) \<leftarrow> unpackPartname P bs;
     (texture_2, bs) \<leftarrow> unpackPartname P bs;
     (color_0, bs) \<leftarrow> unpackColor P bs;
     (color_1, bs) \<leftarrow> unpackColor P bs;
     let part = part\<lparr>m_geometry := geometry, m_texture_1 := texture_1, m_texture_2 := texture_2,
       m_color_0 := color_0, m_color_1 := color_1\<rparr>;
     if m_full_part part then do {
       (n3, bs) \<leftarrow> unpackPartname P bs;
       (n4, bs) \<leftarrow> unpackPartname P bs;
       (n5, bs) \<leftarrow> unpackPartname P bs;
       Some (part\<lparr>name_3 := n3, name_4 := n4, name_5 := n5\<rparr>, bs) }
     else Some (part, bs) }"

fun serializeto_parts :: "hash_packer \<Rightarrow> bool \<Rightarrow> costume_part list \<Rightarrow> bitstream \<Rightarrow> bitstream option" where
  "serializeto_parts P full [] bs = Some bs"
| "serializeto_parts P full (part # parts) bs =
    Option.bind (serializeto_part P (part\<lparr>m_full_part := full\<rparr>) bs) (serializeto_parts P full parts)"

definition serializeto_costume :: "hash_packer \<Rightarrow> costume \<Rightarrow> bitstream \<Rightarrow> bitstream option" where
  "serializeto_costume P c bs = do {
     bs \<leftarrow> StorePackedBits 3 (m_body_type c) bs;
     bs \<leftarrow> StoreBits 32 (m_skin_color c) bs;
     bs \<leftarrow> StoreFloat (m_height c) bs;
     bs \<leftarrow> StoreFloat (m_physique c) bs;
     bs \<leftarrow> StoreBits 1 (of_bool (m_send_full_costume c)) bs;
     if m_parts c = [] then None
     else do {
       bs \<leftarrow> StorePackedBits 4 (of_nat (length (m_parts c))) bs;
       serializeto_parts P (m_send_full_costume c) (m_parts c) bs } }"

text \<open>The loop of the reader: \<open>n\<close> parts to come, the next one is part \<open>i\<close>.\<close>

fun serializefrom_parts :: "hash_packer \<Rightarrow> nat \<Rightarrow> nat \<Rightarrow> costume \<Rightarrow> bitstream \<Rightarrow> (costume \<times> bitstream) option" where
  "serializefrom_parts P i 0 tgt bs = Some (tgt, bs)"
| "serializefrom_parts P i (Suc n) tgt bs =
    (case serializefrom_part P (fresh_part (m_send_full_costume tgt) (of_nat i)) bs of None \<Rightarrow> None
     | Some (part, bs) \<Rightarrow> serializefrom_parts P (i + 1) n (tgt\<lparr>m_parts := m_parts tgt @ [part]\<rparr>) bs)"

definition serializefrom_costume :: "hash_packer \<Rightarrow> costume \<Rightarrow> bitstream \<Rightarrow> (costume \<times> bitstream) option" where
  "serializefrom_costume P tgt src = do {
     (body_type, src) \<leftarrow> GetPackedBits 3 src;
     (skin_color, src) \<leftarrow> GetBits 32 src;
     (height, src) \<leftarrow> GetFloat src;
     (physique, src) \<leftarrow> GetFloat src;
     (send_full, src) \<leftarrow> GetBits 1 src;
     (num_parts, src) \<leftarrow> GetPackedBits 4 src;
     serializefrom_parts P 0 (nat (sint num_parts))
       (tgt\<lparr>m_body_type := body_type, m_skin_color := skin_color, m_height := height, m_physique := physique,
          m_send_full_costume := send_full \<noteq> 0, m_num_parts := num_parts\<rparr>) src }"

text \<open>What the character selection gets: names as texts.\<close>

definition part_names :: "text_bytes list" where
  "part_names = map (map (\<lambda>c. of_nat (of_char c)))
    [''Pants'', ''Chest'', ''Head'', ''Gloves'', ''Boots'', ''Belt'', ''Hair'', ''Face'', ''EyeDetail'',
     ''ChestDetail'', ''Shoulders'', ''Back'', ''WepR'', ''Neck'', ''UarmR'']"

definition serializeto_charsel :: "costume_part \<Rightarrow> bitstream \<Rightarrow> bitstream option" where
  "serializeto_charsel part bs = do {
     bs \<leftarrow> StoreString_view (m_geometry part) bs;
     bs \<leftarrow> StoreString_view (m_texture_1 part) bs;
     bs \<leftarrow> StoreString_view (m_texture_2 part) bs;
     bs \<leftarrow> (if unat (m_type part) < length part_names
            then StoreString (part_names ! unat (m_type part) @ [0]) None bs else None);
     bs \<leftarrow> StoreBits 32 (m_color_0 part) bs;
     StoreBits 32 (m_color_1 part) bs }"

fun charsel_parts :: "costume_part list \<Rightarrow> bitstream \<Rightarrow> bitstream option" where
  "charsel_parts [] bs = Some bs"
| "charsel_parts (part # parts) bs = Option.bind (serializeto_charsel part bs) (charsel_parts parts)"

definition storeCharselParts :: "costume \<Rightarrow> bitstream \<Rightarrow> bitstream option" where
  "storeCharselParts c bs =
    Option.bind (StorePackedBits 1 (of_nat (length (m_parts c))) bs) (charsel_parts (m_parts c))"

definition storeCharsel :: "costume \<Rightarrow> bitstream \<Rightarrow> bitstream option" where
  "storeCharsel c bs = do {
     bs \<leftarrow> StorePackedBits 1 (m_body_type c) bs;
     bs \<leftarrow> StoreFloat (m_height c) bs;
     bs \<leftarrow> StoreFloat (m_physique c) bs;
     StoreBits 32 (m_skin_color c) bs }"

end
