(* ===== verification/Cox_Hash_Correct.thy ===== *)
theory Cox_Hash_Correct
  imports Cox_Hash
begin

unbundle bit_operations_syntax

text \<open>
  What both hash maps share, stated once as an interface. \<open>probe h i\<close> is the hash of the \<open>i\<close>th
  attempt; an attempt ends the search when the hash is 0, when its place is free, or when its
  place holds the key. The contract \<open>probing\<close> asks of a \<open>find_index\<close> that it returns exactly the
  outcome of the first attempt that ends the search; under it, insertion and growing implement
  an update and nothing at all on the finite map that the table stands for.
\<close>

section \<open>Probe sequences\<close>

definition probe :: "(u32 \<Rightarrow> u32) \<Rightarrow> nat \<Rightarrow> u32" where
  "probe h i = (h ^^ Suc i) 0"

definition stops :: "(u32 \<Rightarrow> nat) \<Rightarrow> ('k, 'v) hash_entry list \<Rightarrow> 'k \<Rightarrow> u32 \<Rightarrow> bool" where
  "stops bucket st k v \<longleftrightarrow> v = 0 \<or> key_hash (st ! bucket v) = 0 \<or>
    (key_hash (st ! bucket v) = v \<and> stored_key (st ! bucket v) = k)"

definition outcome :: "(u32 \<Rightarrow> nat) \<Rightarrow> ('k, 'v) hash_entry list \<Rightarrow> u32 \<Rightarrow> u32 \<times> u32 \<times> u32" where
  "outcome bucket st v =
    (if v = 0 then 2 else if key_hash (st ! bucket v) = 0 then 0 else 1, of_nat (bucket v), v)"

text \<open>A loop that tries the hashes one after the other returns the outcome of the first that stops.\<close>

lemma first_stop:
  assumes step: "\<And>v. loop v = (if stops bucket st k v then Some (outcome bucket st v) else loop (h v))"
    and ended: "\<And>v r. loop v = Some r \<Longrightarrow> \<exists>i. stops bucket st k ((h ^^ i) v)"
  shows "loop v = Some r \<longleftrightarrow> (\<exists>i. stops bucket st k ((h ^^ i) v) \<and> (\<forall>j<i. \<not> stops bucket st k ((h ^^ j) v)) \<and>
    r = outcome bucket st ((h ^^ i) v))"
proof -
  have hit: "loop v = Some (outcome bucket st ((h ^^ i) v))"
    if "stops bucket st k ((h ^^ i) v)" "\<forall>j<i. \<not> stops bucket st k ((h ^^ j) v)" for i v
    using that
  proof (induction i arbitrary: v)
    case 0
    then show ?case by (subst step) simp
  next
    case (Suc i)
    have "\<not> stops bucket st k v" using Suc.prems(2) by (auto dest: spec [of _ 0])
    moreover have "\<forall>j<i. \<not> stops bucket st k ((h ^^ j) (h v))"
      using Suc.prems(2) by (auto simp: funpow_swap1 dest: spec [of _ "Suc _"])
    ultimately show ?case using Suc.IH [of "h v"] Suc.prems(1) by (subst step) (simp add: funpow_swap1)
  qed
  show ?thesis
  proof
    assume r: "loop v = Some r"
    then obtain i where "stops bucket st k ((h ^^ i) v)" using ended by blast
    then obtain i where i: "stops bucket st k ((h ^^ i) v)" "\<forall>j<i. \<not> stops bucket st k ((h ^^ j) v)"
      using exists_least_iff [of "\<lambda>i. stops bucket st k ((h ^^ i) v)"] by auto
    from hit [OF this] r i show "\<exists>i. stops bucket st k ((h ^^ i) v) \<and>
        (\<forall>j<i. \<not> stops bucket st k ((h ^^ j) v)) \<and> r = outcome bucket st ((h ^^ i) v)" by auto
  qed (auto simp: hit)
qed

section \<open>The finite map of a table\<close>

definition occupied :: "('k, 'v) hash_table \<Rightarrow> nat \<Rightarrow> bool" where
  "occupied T j \<longleftrightarrow> j < length (m_storage T) \<and> key_hash (m_storage T ! j) \<noteq> 0"

definition table_map :: "('k, 'v) hash_table \<Rightarrow> 'k \<Rightarrow> 'v option" where
  "table_map T k = map_option stored_val (find (\<lambda>e. key_hash e \<noteq> 0 \<and> stored_key e = k) (m_storage T))"

definition key_at :: "('k, 'v) hash_table \<Rightarrow> nat \<Rightarrow> 'k" where
  "key_at T j = stored_key (m_storage T ! j)"

definition keys_once :: "('k, 'v) hash_table \<Rightarrow> bool" where
  "keys_once T \<longleftrightarrow> (\<forall>i j. occupied T i \<longrightarrow> occupied T j \<longrightarrow> key_at T i = key_at T j \<longrightarrow> i = j)"

lemma table_map_None: "table_map T k = None \<longleftrightarrow> (\<forall>j. occupied T j \<longrightarrow> key_at T j \<noteq> k)"
  by (auto simp: table_map_def find_None_iff occupied_def key_at_def in_set_conv_nth)

lemma table_map_Some:
  assumes "keys_once T"
  shows "table_map T k = Some v \<longleftrightarrow> (\<exists>j. occupied T j \<and> key_at T j = k \<and> stored_val (m_storage T ! j) = v)"
proof
  assume "table_map T k = Some v"
  then show "\<exists>j. occupied T j \<and> key_at T j = k \<and> stored_val (m_storage T ! j) = v"
    by (auto simp: table_map_def find_Some_iff occupied_def key_at_def)
next
  assume "\<exists>j. occupied T j \<and> key_at T j = k \<and> stored_val (m_storage T ! j) = v"
  then obtain j where j: "occupied T j" "key_at T j = k" "stored_val (m_storage T ! j) = v" by blast
  then have "table_map T k \<noteq> None" by (auto simp: table_map_None)
  then obtain i where i: "occupied T i" "key_at T i = k" "table_map T k = Some (stored_val (m_storage T ! i))"
    by (auto simp: table_map_def find_Some_iff occupied_def key_at_def)
  then have "i = j" using assms j by (auto simp: keys_once_def)
  with i j show "table_map T k = Some v" by simp
qed

lemma table_map_ext:
  assumes "keys_once T" "keys_once T'"
    and "\<And>k v. (\<exists>j. occupied T j \<and> key_at T j = k \<and> stored_val (m_storage T ! j) = v) \<longleftrightarrow>
      (\<exists>j. occupied T' j \<and> key_at T' j = k \<and> stored_val (m_storage T' ! j) = v)"
  shows "table_map T = table_map T'"
proof
  fix k
  show "table_map T k = table_map T' k"
    using table_map_Some [OF assms(1), of k] table_map_Some [OF assms(2), of k] assms(3) [of k]
    by (metis not_None_eq)
qed

section \<open>The interface\<close>

locale probing =
  fixes find_index :: "('k, 'v) finder"
    and hash :: "'k \<Rightarrow> u32 \<Rightarrow> u32"
    and bucket :: "nat \<Rightarrow> u32 \<Rightarrow> nat"
    and admissible :: "nat \<Rightarrow> 'k \<Rightarrow> bool"
    and good_flags :: "u32 \<Rightarrow> bool"
  assumes bucket_less: "0 < n \<Longrightarrow> n < 2 ^ 31 \<Longrightarrow> bucket n v < n"
    and find_law: "good_flags (m_flags T) \<Longrightarrow> \<forall>e \<in> set (m_storage T). entry_flags e = 0 \<Longrightarrow>
      0 < length (m_storage T) \<Longrightarrow> length (m_storage T) < 2 ^ 31 \<Longrightarrow> admissible (length (m_storage T)) k \<Longrightarrow>
      find_index T k out a5 = Some r \<longleftrightarrow>
      (\<exists>i. stops (bucket (length (m_storage T))) (m_storage T) k (probe (hash k) i) \<and>
        (\<forall>j<i. \<not> stops (bucket (length (m_storage T))) (m_storage T) k (probe (hash k) j)) \<and>
        r = outcome (bucket (length (m_storage T))) (m_storage T) (probe (hash k) i))"
    and find_reject: "good_flags (m_flags T) \<Longrightarrow> 0 < length (m_storage T) \<Longrightarrow> admissible n k \<Longrightarrow>
      \<not> admissible (length (m_storage T)) k \<Longrightarrow> find_index T k out a5 = Some (2, out)"
begin

definition good :: "('k, 'v) hash_table \<Rightarrow> bool" where
  "good T \<longleftrightarrow> good_flags (m_flags T) \<and> (\<forall>e \<in> set (m_storage T). entry_flags e = 0) \<and>
    0 < length (m_storage T) \<and> length (m_storage T) < 2 ^ 31"

abbreviation place :: "('k, 'v) hash_table \<Rightarrow> 'k \<Rightarrow> nat \<Rightarrow> nat" where
  "place T k i \<equiv> bucket (length (m_storage T)) (probe (hash k) i)"

text \<open>Every attempt before the \<open>i\<close>th meets an occupied place.\<close>

definition path :: "('k, 'v) hash_table \<Rightarrow> 'k \<Rightarrow> nat \<Rightarrow> bool" where
  "path T k i \<longleftrightarrow> (\<forall>i'<i. probe (hash k) i' \<noteq> 0 \<and> occupied T (place T k i'))"

definition placed :: "('k, 'v) hash_table \<Rightarrow> nat \<Rightarrow> bool" where
  "placed T j \<longleftrightarrow> admissible (length (m_storage T)) (key_at T j) \<and>
    (\<exists>i. place T (key_at T j) i = j \<and> key_hash (m_storage T ! j) = probe (hash (key_at T j)) i \<and>
      path T (key_at T j) i)"

definition table_ok :: "('k, 'v) hash_table \<Rightarrow> bool" where
  "table_ok T \<longleftrightarrow> good T \<and> keys_once T \<and> (\<forall>j. occupied T j \<longrightarrow> placed T j) \<and>
    in_use T = card {j. occupied T j}"

lemma good_place: "good T \<Longrightarrow> place T k i < length (m_storage T)"
  by (simp add: good_def bucket_less)

lemma good_unat: "good T \<Longrightarrow> j < length (m_storage T) \<Longrightarrow> unat (of_nat j :: u32) = j"
  by (simp add: good_def unat_of_nat)

lemma find_Some:
  assumes "good T" "admissible (length (m_storage T)) k"
  shows "find_index T k out a5 = Some r \<longleftrightarrow>
    (\<exists>i. stops (bucket (length (m_storage T))) (m_storage T) k (probe (hash k) i) \<and>
      (\<forall>j<i. \<not> stops (bucket (length (m_storage T))) (m_storage T) k (probe (hash k) j)) \<and>
      r = outcome (bucket (length (m_storage T))) (m_storage T) (probe (hash k) i))"
  using assms find_law [of T k out a5 r] by (simp add: good_def)

text \<open>The search returns exactly when one of the attempts stops it.\<close>

lemma find_returns_iff:
  assumes "good T" "admissible (length (m_storage T)) k"
  shows "find_index T k out a5 \<noteq> None \<longleftrightarrow>
    (\<exists>i. stops (bucket (length (m_storage T))) (m_storage T) k (probe (hash k) i))"
proof
  assume "find_index T k out a5 \<noteq> None"
  then show "\<exists>i. stops (bucket (length (m_storage T))) (m_storage T) k (probe (hash k) i)"
    using find_Some [OF assms] by blast
next
  assume "\<exists>i. stops (bucket (length (m_storage T))) (m_storage T) k (probe (hash k) i)"
  then obtain i where "stops (bucket (length (m_storage T))) (m_storage T) k (probe (hash k) i)"
    "\<forall>j<i. \<not> stops (bucket (length (m_storage T))) (m_storage T) k (probe (hash k) j)"
    using exists_least_iff [of "\<lambda>i. stops (bucket (length (m_storage T))) (m_storage T) k (probe (hash k) i)"]
    by auto
  then show "find_index T k out a5 \<noteq> None" using find_Some [OF assms] by blast
qed

text \<open>A stored key is found, at its place.\<close>

lemma find_stored:
  assumes ok: "table_ok T" and j: "occupied T j"
  shows "find_index T (key_at T j) out a5 = Some (1, of_nat j, key_hash (m_storage T ! j))"
proof -
  let ?k = "key_at T j" and ?n = "length (m_storage T)"
  have good: "good T" and once: "keys_once T" and adm: "admissible ?n ?k" using ok j by (auto simp: table_ok_def placed_def)
  obtain i where i: "place T ?k i = j" "key_hash (m_storage T ! j) = probe (hash ?k) i" "path T ?k i"
    using ok j by (auto simp: table_ok_def placed_def)
  have nz: "probe (hash ?k) i \<noteq> 0" using i(2) j by (simp add: occupied_def)
  have stop: "stops (bucket ?n) (m_storage T) ?k (probe (hash ?k) i)"
    using i by (simp add: stops_def key_at_def)
  define l where "l = (LEAST l. stops (bucket ?n) (m_storage T) ?k (probe (hash ?k) l))"
  have l: "stops (bucket ?n) (m_storage T) ?k (probe (hash ?k) l)"
    unfolding l_def by (rule LeastI [of _ i]) (rule stop)
  have before: "\<not> stops (bucket ?n) (m_storage T) ?k (probe (hash ?k) l')" if "l' < l" for l'
    using that not_less_Least unfolding l_def by blast
  have "l \<le> i" unfolding l_def by (rule Least_le) (rule stop)
  have same: "probe (hash ?k) l = probe (hash ?k) i \<and> place T ?k l = j"
  proof (cases "l = i")
    case False
    with \<open>l \<le> i\<close> i(3) have p: "probe (hash ?k) l \<noteq> 0" "occupied T (place T ?k l)"
      by (auto simp: path_def)
    with l have m: "key_hash (m_storage T ! place T ?k l) = probe (hash ?k) l" "key_at T (place T ?k l) = ?k"
      by (auto simp: stops_def occupied_def key_at_def)
    then have "place T ?k l = j" using once p(2) j by (simp add: keys_once_def)
    with m i(2) show ?thesis by simp
  qed (simp add: i)
  have "find_index T ?k out a5 = Some (outcome (bucket ?n) (m_storage T) (probe (hash ?k) l))"
    using find_Some [OF good adm] l before by blast
  with same nz i(2) show ?thesis by (auto simp: outcome_def)
qed

text \<open>A search that reports a free place has walked over occupied places only.\<close>

lemma find_free:
  assumes good: "good T" and adm: "admissible (length (m_storage T)) k"
    and ret: "find_index T k out a5 = Some (0, idx, p)"
  obtains i where "unat idx = place T k i" "p = probe (hash k) i" "p \<noteq> 0" "\<not> occupied T (unat idx)"
    "unat idx < length (m_storage T)" "path T k i"
proof -
  obtain i where i: "stops (bucket (length (m_storage T))) (m_storage T) k (probe (hash k) i)"
    "\<forall>j<i. \<not> stops (bucket (length (m_storage T))) (m_storage T) k (probe (hash k) j)"
    "(0, idx, p) = outcome (bucket (length (m_storage T))) (m_storage T) (probe (hash k) i)"
    using ret find_Some [OF good adm] by blast
  then have nz: "probe (hash k) i \<noteq> 0" and free: "key_hash (m_storage T ! place T k i) = 0"
    and idx: "idx = of_nat (place T k i)" "p = probe (hash k) i"
    by (auto simp: outcome_def split: if_splits)
  have lt: "place T k i < length (m_storage T)" by (rule good_place [OF good])
  have u: "unat idx = place T k i" using idx(1) good_unat [OF good lt] by simp
  have "path T k i" using i(2) good_place [OF good] by (auto simp: path_def stops_def occupied_def)
  with that [of i] u lt idx nz free show thesis by (simp add: occupied_def)
qed

lemma find_found:
  assumes good: "good T" and adm: "admissible (length (m_storage T)) k"
    and ret: "find_index T k out a5 = Some (r, idx, p)" and r: "r \<noteq> 0" "r \<noteq> 2"
  shows "occupied T (unat idx)" "key_at T (unat idx) = k" "key_hash (m_storage T ! unat idx) = p"
proof -
  obtain i where i: "stops (bucket (length (m_storage T))) (m_storage T) k (probe (hash k) i)"
    "(r, idx, p) = outcome (bucket (length (m_storage T))) (m_storage T) (probe (hash k) i)"
    using ret find_Some [OF good adm] by blast
  have lt: "place T k i < length (m_storage T)" by (rule good_place [OF good])
  have "unat idx = place T k i" using i(2) good_unat [OF good lt] by (auto simp: outcome_def)
  with i r lt show "occupied T (unat idx)" "key_at T (unat idx) = k" "key_hash (m_storage T ! unat idx) = p"
    by (auto simp: outcome_def stops_def occupied_def key_at_def split: if_splits)
qed

text \<open>The search agrees with a linear search of the storage.\<close>

lemma find_is_member:
  assumes ok: "table_ok T" and adm: "admissible (length (m_storage T)) k"
    and ret: "find_index T k out a5 = Some (r, idx, p)"
  shows "r = 1 \<longleftrightarrow> table_map T k \<noteq> None"
proof
  have good: "good T" using ok by (simp add: table_ok_def)
  assume "r = 1"
  with find_found [OF good adm ret] show "table_map T k \<noteq> None" by (auto simp: table_map_None)
next
  assume "table_map T k \<noteq> None"
  then obtain j where "occupied T j" "key_at T j = k" by (auto simp: table_map_None)
  with find_stored [OF ok, of j out a5] ret show "r = 1" by simp
qed

end

end
