(* ===== verification/Cox_Hash_Update.thy ===== *)
theory Cox_Hash_Update
  imports Cox_Hash_Correct
begin

unbundle bit_operations_syntax

text \<open>Insertion and growing, for every map that keeps the contract \<open>probing\<close>.\<close>

section \<open>Occupying a free place\<close>

definition occupy :: "nat \<Rightarrow> ('k, 'v) hash_entry \<Rightarrow> ('k, 'v) hash_table \<Rightarrow> ('k, 'v) hash_table" where
  "occupy j e T = T\<lparr>m_storage := (m_storage T)[j := e], in_use := in_use T + 1\<rparr>"

lemma occupy_fields [simp]:
  "length (m_storage (occupy j e T)) = length (m_storage T)" "m_flags (occupy j e T) = m_flags T"
  "in_use (occupy j e T) = in_use T + 1"
  by (simp_all add: occupy_def)

lemma occupied_occupy:
  "j < length (m_storage T) \<Longrightarrow> key_hash e \<noteq> 0 \<Longrightarrow> occupied (occupy j e T) i \<longleftrightarrow> i = j \<or> occupied T i"
  by (auto simp: occupied_def occupy_def nth_list_update)

lemma entry_occupy:
  "j < length (m_storage T) \<Longrightarrow> m_storage (occupy j e T) ! i = (if i = j then e else m_storage T ! i)"
  by (auto simp: occupy_def nth_list_update)

lemma key_at_occupy:
  "j < length (m_storage T) \<Longrightarrow> key_at (occupy j e T) i = (if i = j then stored_key e else key_at T i)"
  by (simp add: key_at_def entry_occupy)

lemma keys_once_occupy:
  assumes "keys_once T" "j < length (m_storage T)" "key_hash e \<noteq> 0" "table_map T (stored_key e) = None"
  shows "keys_once (occupy j e T)"
  using assms by (auto simp: keys_once_def occupied_occupy key_at_occupy table_map_None)

lemma table_map_occupy:
  assumes "keys_once T" "j < length (m_storage T)" "key_hash e \<noteq> 0" "table_map T (stored_key e) = None"
    "\<not> occupied T j"
  shows "table_map (occupy j e T) = (table_map T)(stored_key e \<mapsto> stored_val e)"
proof
  fix k
  note once = keys_once_occupy [OF assms(1-4)]
  show "table_map (occupy j e T) k = ((table_map T)(stored_key e \<mapsto> stored_val e)) k"
  proof (cases "k = stored_key e")
    case True
    have "table_map (occupy j e T) k = Some (stored_val e)"
      unfolding table_map_Some [OF once] True
      by (rule exI [of _ j]) (simp add: occupied_occupy key_at_occupy entry_occupy assms)
    with True show ?thesis by simp
  next
    case False
    have "table_map (occupy j e T) k = Some v \<longleftrightarrow> table_map T k = Some v" for v
      unfolding table_map_Some [OF once] table_map_Some [OF assms(1)]
      using False assms(2,3,5) by (auto simp: occupied_occupy key_at_occupy entry_occupy)
    with False show ?thesis by (metis fun_upd_other not_None_eq)
  qed
qed

lemma key_for_place:
  "key_for_idx T (int j + 1) =
    (if j < length (m_storage T) \<and> key_hash (m_storage T ! j) \<noteq> 0 then Some (stored_key (m_storage T ! j)) else None)"
  unfolding key_for_idx_def Let_def by simp

lemma finite_occupied: "finite {j. occupied T j}"
  by (rule finite_subset [of _ "{..<length (m_storage T)}"]) (auto simp: occupied_def)

lemma card_occupied_occupy:
  assumes "j < length (m_storage T)" "key_hash e \<noteq> 0" "\<not> occupied T j"
  shows "card {i. occupied (occupy j e T) i} = card {i. occupied T i} + 1"
proof -
  have "{i. occupied (occupy j e T) i} = insert j {i. occupied T i}"
    using assms by (auto simp: occupied_occupy)
  then show ?thesis using assms(3) card_insert_disjoint [OF finite_occupied [of T], of j] by simp
qed

context probing
begin

lemma path_occupy:
  assumes "path T k i" "j < length (m_storage T)" "key_hash e \<noteq> 0"
  shows "path (occupy j e T) k i"
  using assms by (simp add: path_def occupied_occupy)

lemma good_occupy:
  assumes "good T" "j < length (m_storage T)" "entry_flags e = 0"
  shows "good (occupy j e T)"
  using assms by (auto simp: good_def occupy_def dest: set_update_subset_insert [THEN subsetD])

text \<open>Storing an entry at the free place its search reports keeps the table and adds the key.\<close>

lemma table_ok_occupy:
  assumes ok: "table_ok T" and adm: "admissible (length (m_storage T)) (stored_key e)"
    and ret: "find_index T (stored_key e) out a5 = Some (0, idx, p)"
    and e: "key_hash e = p" "entry_flags e = 0"
  shows "table_ok (occupy (unat idx) e T)"
    and "table_map (occupy (unat idx) e T) = (table_map T)(stored_key e \<mapsto> stored_val e)"
    and "table_map T (stored_key e) = None"
    and "unat idx < length (m_storage T)"
proof -
  have good: "good T" and once: "keys_once T" using ok by (simp_all add: table_ok_def)
  obtain i where i: "unat idx = place T (stored_key e) i" "p = probe (hash (stored_key e)) i" "p \<noteq> 0"
    "\<not> occupied T (unat idx)" "unat idx < length (m_storage T)" "path T (stored_key e) i"
    by (rule find_free [OF good adm ret])
  have new: "table_map T (stored_key e) = None"
    using find_is_member [OF ok adm ret] by simp
  show "table_map T (stored_key e) = None" "unat idx < length (m_storage T)" using new i(5) .
  have nz: "key_hash e \<noteq> 0" using e i by simp
  show "table_map (occupy (unat idx) e T) = (table_map T)(stored_key e \<mapsto> stored_val e)"
    by (rule table_map_occupy [OF once i(5) nz new i(4)])
  have "placed (occupy (unat idx) e T) l" if "occupied (occupy (unat idx) e T) l" for l
  proof (cases "l = unat idx")
    case True
    with path_occupy [OF i(6,5) nz] i adm e show ?thesis
      unfolding placed_def by (auto simp: key_at_occupy entry_occupy intro!: exI [of _ i])
  next
    case False
    with that ok i(5) nz have "placed T l" by (simp add: table_ok_def occupied_occupy)
    then show ?thesis using False path_occupy [OF _ i(5) nz] i(5)
      unfolding placed_def by (auto simp: key_at_occupy entry_occupy)
  qed
  with good_occupy [OF good i(5) e(2)] keys_once_occupy [OF once i(5) nz new]
    card_occupied_occupy [OF i(5) nz i(4)] ok
  show "table_ok (occupy (unat idx) e T)" by (simp add: table_ok_def)
qed

section \<open>Growing\<close>

definition entries_map :: "('k, 'v) hash_entry list \<Rightarrow> ('k \<times> 'v) list" where
  "entries_map es = map (\<lambda>e. (stored_key e, stored_val e)) (filter (\<lambda>e. key_hash e \<noteq> 0) es)"

lemma resize_loop_moves:
  assumes "resize_loop find_index es out T = Some T'" "table_ok T"
    and "\<forall>e \<in> set es. key_hash e \<noteq> 0 \<longrightarrow> entry_flags e = 0 \<and> (\<exists>n. admissible n (stored_key e))"
    and "distinct (map fst (entries_map es))" "\<forall>k \<in> set (map fst (entries_map es)). table_map T k = None"
  shows "table_ok T' \<and> length (m_storage T') = length (m_storage T) \<and> m_flags T' = m_flags T \<and>
    table_map T' = table_map T ++ map_of (entries_map es)"
  using assms
proof (induction es arbitrary: out T)
  case Nil
  then show ?case by (simp add: entries_map_def)
next
  case (Cons e es)
  show ?case
  proof (cases "key_hash e = 0")
    case True
    with Cons show ?thesis by (simp add: entries_map_def)
  next
    case False
    then have em: "entries_map (e # es) = (stored_key e, stored_val e) # entries_map es"
      by (simp add: entries_map_def)
    obtain res idx p where f: "find_index T (stored_key e) out True = Some (res, idx, p)"
      using Cons.prems(1) False by (auto split: option.splits)
    let ?e = "e\<lparr>key_hash := p\<rparr>"
    have r: "res \<noteq> 2" "unat idx < length (m_storage T)"
      and rest: "resize_loop find_index es (idx, p) (occupy (unat idx) ?e T) = Some T'"
      using Cons.prems(1) False f by (auto simp: occupy_def split: if_splits)
    obtain n where n: "admissible n (stored_key e)" using Cons.prems(3) False by auto
    have good: "good T" using Cons.prems(2) by (simp add: table_ok_def)
    have adm: "admissible (length (m_storage T)) (stored_key e)"
      using find_reject [of T n "stored_key e" out True] good n f r(1) by (auto simp: good_def)
    have "table_map T (stored_key e) = None" using Cons.prems(5) em by simp
    then have "res \<noteq> 1" using find_is_member [OF Cons.prems(2) adm f] by simp
    moreover have "res \<in> {0, 1, 2}" using find_Some [OF good adm, of out True "(res, idx, p)"] f
      by (auto simp: outcome_def split: if_splits)
    ultimately have f0: "find_index T (stored_key ?e) out True = Some (0, idx, p)" using f r(1) by auto
    have fl: "entry_flags ?e = 0" using Cons.prems(3) False by simp
    note st = table_ok_occupy [OF Cons.prems(2) _ f0 _ fl, simplified, OF adm]
    have "table_ok T' \<and> length (m_storage T') = length (m_storage (occupy (unat idx) ?e T)) \<and>
        m_flags T' = m_flags (occupy (unat idx) ?e T) \<and>
        table_map T' = table_map (occupy (unat idx) ?e T) ++ map_of (entries_map es)"
      by (rule Cons.IH [OF rest st(1)]) (use Cons.prems(3-5) em st(2) in \<open>force+\<close>)
    moreover have "stored_key e \<notin> dom (map_of (entries_map es))"
      using Cons.prems(4) em by (simp add: dom_map_of_conv_image_fst)
    ultimately show ?thesis using st(2) em by (auto simp: map_add_def split: option.splits)
  qed
qed

lemma entries_map_distinct:
  assumes "keys_once T"
  shows "distinct (map fst (entries_map (m_storage T)))"
proof -
  have "distinct (map stored_key (filter (\<lambda>e. key_hash e \<noteq> 0) es))"
    if "\<forall>i j. i < length es \<longrightarrow> j < length es \<longrightarrow> key_hash (es ! i) \<noteq> 0 \<longrightarrow> key_hash (es ! j) \<noteq> 0 \<longrightarrow>
      stored_key (es ! i) = stored_key (es ! j) \<longrightarrow> i = j" for es :: "('k, 'v) hash_entry list"
    using that
  proof (induction es)
    case (Cons e es)
    have "distinct (map stored_key (filter (\<lambda>e. key_hash e \<noteq> 0) es))"
    proof (rule Cons.IH, intro allI impI)
      fix i j
      assume "i < length es" "j < length es" "key_hash (es ! i) \<noteq> 0" "key_hash (es ! j) \<noteq> 0"
        "stored_key (es ! i) = stored_key (es ! j)"
      then show "i = j" using Cons.prems [rule_format, of "Suc i" "Suc j"] by simp
    qed
    moreover have "stored_key e \<noteq> stored_key e'" if "key_hash e \<noteq> 0" "e' \<in> set es" "key_hash e' \<noteq> 0" for e'
    proof -
      from that(2) obtain j where "j < length es" "es ! j = e'" by (auto simp: in_set_conv_nth)
      with that Cons.prems [rule_format, of 0 "Suc j"] show ?thesis by auto
    qed
    ultimately show ?case by auto
  qed simp
  from this [of "m_storage T"] assms show ?thesis
    by (simp add: entries_map_def keys_once_def occupied_def key_at_def comp_def)
qed

lemma table_map_entries:
  assumes "keys_once T"
  shows "table_map T = map_of (entries_map (m_storage T))"
proof
  fix k
  have "table_map T k = Some v \<longleftrightarrow> map_of (entries_map (m_storage T)) k = Some v" for v
    unfolding table_map_Some [OF assms] map_of_eq_Some_iff [OF entries_map_distinct [OF assms]]
    by (auto simp: entries_map_def occupied_def key_at_def in_set_conv_nth)
  then show "table_map T k = map_of (entries_map (m_storage T)) k" by (metis not_None_eq)
qed

lemma empty_table:
  assumes "good_flags (m_flags T)" "0 < n" "n < 2 ^ 31"
  shows "table_ok (T\<lparr>in_use := 0, m_storage := resize_storage mem n []\<rparr>)"
    and "table_map (T\<lparr>in_use := 0, m_storage := resize_storage mem n []\<rparr>) = Map.empty"
proof -
  let ?T = "T\<lparr>in_use := 0, m_storage := resize_storage mem n []\<rparr>"
  have none: "\<not> occupied ?T j" for j
    by (simp add: occupied_def resize_storage_def fresh_entry_def)
  then show "table_map ?T = Map.empty" by (auto simp: table_map_None)
  from none assms show "table_ok ?T"
    by (simp add: table_ok_def good_def keys_once_def resize_storage_def fresh_entry_def)
qed

text \<open>Growing changes the size and nothing that a search can see.\<close>

lemma resize_keeps_map:
  assumes ok: "table_ok T" and ret: "resize_table find_index next_size mem locals sz T = Some T'"
    and n: "0 < unat (next_size sz)" "unat (next_size sz) < 2 ^ 31"
  shows "table_ok T'" "table_map T' = table_map T" "length (m_storage T') = unat (next_size sz)"
    "m_flags T' = m_flags T"
proof -
  have once: "keys_once T" and good: "good T" using ok by (simp_all add: table_ok_def)
  let ?E = "T\<lparr>in_use := 0, m_storage := resize_storage mem (unat (next_size sz)) []\<rparr>"
  have E: "table_ok ?E" "table_map ?E = Map.empty"
    using empty_table [OF _ n] good by (simp_all add: good_def)
  have "\<forall>e \<in> set (m_storage T). key_hash e \<noteq> 0 \<longrightarrow> entry_flags e = 0 \<and> (\<exists>n. admissible n (stored_key e))"
    using ok by (fastforce simp: table_ok_def good_def placed_def occupied_def key_at_def in_set_conv_nth)
  from resize_loop_moves [OF ret [unfolded resize_table_def] E(1) this entries_map_distinct [OF once]] E(2)
  show "table_ok T'" "table_map T' = table_map T" "length (m_storage T') = unat (next_size sz)"
    "m_flags T' = m_flags T"
    by (simp_all add: table_map_entries [OF once] resize_storage_def)
qed

section \<open>Insertion\<close>

lemma insert_updates:
  assumes ok: "table_ok T" and ret: "insert_entry find_index next_size mem locals k v T = Some (T', r)"
    and sz: "0 < unat (next_size (of_nat (2 * length (m_storage T))))"
      "unat (next_size (of_nat (2 * length (m_storage T)))) < 2 ^ 31"
    and adm: "admissible (length (m_storage T')) k"
  shows "table_ok T'"
    and "r = None \<Longrightarrow> table_map T' = table_map T"
    and "r = Some j \<Longrightarrow> table_map T k = None \<and> table_map T' = (table_map T)(k \<mapsto> v) \<and>
      key_for_idx T' (int j + 1) = Some k"
proof -
  let ?wm = "length (m_storage T) * 3 div 4"
  obtain T1 where T1: "(if in_use T \<ge> ?wm \<or> in_use T \<ge> length (m_storage T)
      then resize_table find_index next_size mem locals (of_nat (grow_factor T ?wm * length (m_storage T))) T
      else Some T) = Some T1"
    and ins: "(case find_index T1 k (0, 0) True of None \<Rightarrow> None
          | Some (res, entry_idx, prev_val) \<Rightarrow>
             if res \<noteq> 0 then Some (T1, None)
             else if unat entry_idx < length (m_storage T1)
             then Some (occupy (unat entry_idx) ((m_storage T1 ! unat entry_idx)
                   \<lparr>stored_key := k, stored_val := v, key_hash := prev_val\<rparr>) T1, Some (unat entry_idx))
             else None) = Some (T', r)"
    using ret unfolding insert_entry_def Let_def occupy_def by (auto split: option.splits)
  have "in_use T \<ge> ?wm \<or> in_use T \<ge> length (m_storage T) \<Longrightarrow> grow_factor T ?wm = 2"
    by (auto simp: grow_factor_def)
  then have "T1 = T \<or> resize_table find_index next_size mem locals (of_nat (2 * length (m_storage T))) T = Some T1"
    using T1 by (auto split: if_splits)
  then have "table_ok T1 \<and> table_map T1 = table_map T"
    using ok resize_keeps_map(1,2) [where next_size = next_size, OF ok _ sz] by blast
  then have ok1: "table_ok T1" and map1: "table_map T1 = table_map T" by simp_all
  have "length (m_storage T') = length (m_storage T1)"
    using ins by (auto split: option.splits if_splits)
  with adm have adm1: "admissible (length (m_storage T1)) k" by simp
  obtain res idx p where f: "find_index T1 k (0, 0) True = Some (res, idx, p)"
    using ins by (auto split: option.splits)
  have "table_ok T' \<and> (r = None \<longrightarrow> table_map T' = table_map T) \<and>
      (r = Some j \<longrightarrow> table_map T k = None \<and> table_map T' = (table_map T)(k \<mapsto> v) \<and>
        key_for_idx T' (int j + 1) = Some k)"
  proof (cases "res = 0")
    case False
    with ins f ok1 map1 show ?thesis by simp
  next
    case True
    let ?e = "(m_storage T1 ! unat idx)\<lparr>stored_key := k, stored_val := v, key_hash := p\<rparr>"
    have good1: "good T1" using ok1 by (simp add: table_ok_def)
    have f0: "find_index T1 (stored_key ?e) (0, 0) True = Some (0, idx, p)" using f True by simp
    obtain i where i: "p \<noteq> 0" "unat idx < length (m_storage T1)"
      using find_free [OF good1 adm1 f [unfolded True]] by metis
    have fl: "entry_flags ?e = 0" using good1 i(2) by (auto simp: good_def)
    note st = table_ok_occupy [OF ok1 _ f0 _ fl, simplified, OF adm1]
    have "T' = occupy (unat idx) ?e T1" "r = Some (unat idx)" using ins f True i by simp_all
    moreover have "key_for_idx (occupy (unat idx) ?e T1) (int (unat idx) + 1) = Some k"
      using i unfolding key_for_place by (simp add: entry_occupy)
    ultimately show ?thesis using st map1 by auto
  qed
  then show "table_ok T'"
    and "r = None \<Longrightarrow> table_map T' = table_map T"
    and "r = Some j \<Longrightarrow> table_map T k = None \<and> table_map T' = (table_map T)(k \<mapsto> v) \<and>
      key_for_idx T' (int j + 1) = Some k" by blast+
qed

end

end
