(* ===== verification/Cox_Hash_Maps.thy ===== *)
theory Cox_Hash_Maps
  imports Cox_Hash_Update
begin

unbundle bit_operations_syntax

text \<open>Both maps of the code keep the contract \<open>probing\<close>.\<close>

section \<open>The text map\<close>

definition text_bucket :: "nat \<Rightarrow> u32 \<Rightarrow> nat" where
  "text_bucket n v = unat (v AND (of_nat n - 1))"

definition text_hash :: "text_bytes \<Rightarrow> u32 \<Rightarrow> u32" where
  "text_hash key = hash_text (to_upper key)"

definition text_admissible :: "nat \<Rightarrow> text_bytes \<Rightarrow> bool" where
  "text_admissible n key \<longleftrightarrow> length key < 0x1000"

text \<open>The flags the packer initialises its map with: upper case, names kept, collisions checked
  and skipped.\<close>

definition text_flags :: "u32 \<Rightarrow> bool" where
  "text_flags f \<longleftrightarrow> f AND SINGLE_BYTE \<noteq> 0 \<and> f AND HAS_KEY_NAMES \<noteq> 0 \<and>
    f AND CHECK_COLLISIONS \<noteq> 0 \<and> f AND SKIP_CLASHES \<noteq> 0"

lemma text_bucket_less: "0 < n \<Longrightarrow> n < 2 ^ 31 \<Longrightarrow> text_bucket n v < n"
proof -
  assume n: "0 < n" "n < 2 ^ 31"
  have "v AND (of_nat n - 1) \<le> (of_nat n - 1 :: u32)" by (simp add: word_and_le1)
  then have "text_bucket n v \<le> unat (of_nat n - 1 :: u32)" by (simp add: text_bucket_def word_le_nat_alt)
  also have "\<dots> < n" using n by (simp add: unat_sub_if_size unat_of_nat)
  finally show ?thesis .
qed

lemma text_probe_step:
  assumes "text_flags (m_flags T)" "\<forall>e \<in> set (m_storage T). entry_flags e = 0"
    "0 < length (m_storage T)" "length (m_storage T) < 2 ^ 31"
  shows "text_probe h T k a5 w =
    (if stops (text_bucket (length (m_storage T))) (m_storage T) k (h w)
     then Some (outcome (text_bucket (length (m_storage T))) (m_storage T) (h w))
     else text_probe h T k a5 (h w))"
proof -
  let ?i = "h w AND (of_nat (length (m_storage T)) - 1)"
  have lt: "unat ?i < length (m_storage T)" using text_bucket_less [OF assms(3,4)] by (simp add: text_bucket_def)
  then have fl: "entry_flags (m_storage T ! unat ?i) = 0" using assms(2) by simp
  show ?thesis using assms(1) lt fl
    by (subst text_probe.simps)
      (auto simp: Let_def stops_def outcome_def text_bucket_def text_flags_def)
qed

lemma text_probe_ended:
  assumes "text_flags (m_flags T)" "\<forall>e \<in> set (m_storage T). entry_flags e = 0"
    and ret: "text_probe h T k a5 w = Some r"
  shows "\<exists>i. stops (text_bucket (length (m_storage T))) (m_storage T) k ((h ^^ Suc i) w)"
proof -
  let ?S = "\<lambda>h (T :: (text_bytes, 'a) hash_table) k. stops (text_bucket (length (m_storage T))) (m_storage T) k"
  let ?P = "\<lambda>h (T :: (text_bytes, 'a) hash_table) k (a5 :: bool) w (r :: u32 \<times> u32 \<times> u32).
    text_flags (m_flags T) \<longrightarrow> (\<forall>e \<in> set (m_storage T). entry_flags e = 0) \<longrightarrow> (\<exists>i. ?S h T k ((h ^^ Suc i) w))"
  have "?P h T k a5 w r"
  proof (rule text_probe.raw_induct [where P = ?P, OF _ ret], intro impI)
    fix loop :: "(u32 \<Rightarrow> u32) \<Rightarrow> (text_bytes, 'a) hash_table \<Rightarrow> text_bytes \<Rightarrow> bool \<Rightarrow> u32 \<Rightarrow> (u32 \<times> u32 \<times> u32) option"
      and h T k a5 w r
    assume ih: "\<And>h T k a5 w r. loop h T k a5 w = Some r \<Longrightarrow> ?P h T k a5 w r"
      and step: "(let HashValue = h w; hash_index = HashValue AND (of_nat (length (m_storage T)) - 1)
       in if HashValue = 0 then Some (2, hash_index, HashValue)
          else if \<not> unat hash_index < length (m_storage T) then None
          else let entry = m_storage T ! unat hash_index
            in if key_hash entry = 0 \<or> (a5 \<and> entry_flags entry AND 1 \<noteq> 0) then Some (0, hash_index, HashValue)
               else if HashValue \<noteq> key_hash entry \<and> entry_flags entry AND 1 = 0 then loop h T k a5 HashValue
               else if m_flags T AND HAS_KEY_NAMES = 0 \<or> m_flags T AND CHECK_COLLISIONS = 0
               then Some (1, hash_index, HashValue)
               else if k = stored_key entry then Some (1, hash_index, HashValue)
               else if m_flags T AND SKIP_CLASHES = 0 then Some (2, hash_index, HashValue)
               else loop h T k a5 HashValue) = Some r"
      and fl: "text_flags (m_flags T)" "\<forall>e \<in> set (m_storage T). entry_flags e = 0"
    show "\<exists>i. ?S h T k ((h ^^ Suc i) w)"
    proof (cases "?S h T k (h w)")
      case True
      then show ?thesis by (intro exI [of _ 0]) simp
    next
      case False
      let ?i = "h w AND (of_nat (length (m_storage T)) - 1)"
      have nz: "h w \<noteq> 0" using False by (simp add: stops_def)
      have lt: "unat ?i < length (m_storage T)" using step nz by (simp add: Let_def split: if_splits)
      then have ef: "entry_flags (m_storage T ! unat ?i) = 0" using fl(2) by simp
      have "loop h T k a5 (h w) = Some r"
        using step False fl(1) ef nz lt
        by (simp add: Let_def stops_def text_bucket_def text_flags_def split: if_splits)
      from ih [OF this] fl obtain i where "?S h T k ((h ^^ Suc i) (h w))" by blast
      then show ?thesis by (intro exI [of _ "Suc i"]) (simp add: funpow_swap1)
    qed
  qed
  with assms show ?thesis by blast
qed

text \<open>A loop that hashes first and looks at the place then.\<close>

lemma first_stop_after:
  assumes step: "\<And>w. loop w = (if stops bucket st k (h w) then Some (outcome bucket st (h w)) else loop (h w))"
    and ended: "\<And>w r. loop w = Some r \<Longrightarrow> \<exists>i. stops bucket st k ((h ^^ Suc i) w)"
  shows "loop w = Some r \<longleftrightarrow> (\<exists>i. stops bucket st k ((h ^^ Suc i) w) \<and>
    (\<forall>j<i. \<not> stops bucket st k ((h ^^ Suc j) w)) \<and> r = outcome bucket st ((h ^^ Suc i) w))"
proof -
  define L where "L v = (if stops bucket st k v then Some (outcome bucket st v) else loop v)" for v
  have step': "L v = (if stops bucket st k v then Some (outcome bucket st v) else L (h v))" for v
    unfolding L_def using step [of v] by simp
  have ended': "\<exists>i. stops bucket st k ((h ^^ i) v)" if "L v = Some r" for v r
  proof (cases "stops bucket st k v")
    case True
    then show ?thesis by (intro exI [of _ 0]) simp
  next
    case False
    with that have "loop v = Some r" by (simp add: L_def)
    from ended [OF this] show ?thesis by blast
  qed
  have "loop w = L (h w)" using step [of w] by (simp add: L_def)
  with first_stop [where loop = L and h = h and v = "h w" and r = r, OF step' ended']
  show ?thesis by (simp add: funpow_swap1)
qed

interpretation text_map: probing text_find_index text_hash text_bucket text_admissible text_flags
proof unfold_locales
  fix n v
  assume "0 < n" "n < (2 :: nat) ^ 31"
  then show "text_bucket n v < n" by (rule text_bucket_less)
next
  fix T :: "(text_bytes, 'a) hash_table" and k out a5 r
  let ?b = "text_bucket (length (m_storage T))"
  assume a: "text_flags (m_flags T)" "\<forall>e \<in> set (m_storage T). entry_flags e = 0"
    "0 < length (m_storage T)" "length (m_storage T) < 2 ^ 31" "text_admissible (length (m_storage T)) k"
  have "text_find_index T k out a5 = text_probe (text_hash k) T k a5 0"
    using a(1,5) by (simp add: text_find_index_def text_flags_def text_admissible_def text_hash_def)
  with first_stop_after [where loop = "text_probe (text_hash k) T k a5" and w = 0 and r = r,
      OF text_probe_step [OF a(1-4)] text_probe_ended [OF a(1,2)]]
  show "text_find_index T k out a5 = Some r \<longleftrightarrow>
      (\<exists>i. stops ?b (m_storage T) k (probe (text_hash k) i) \<and>
        (\<forall>j<i. \<not> stops ?b (m_storage T) k (probe (text_hash k) j)) \<and>
        r = outcome ?b (m_storage T) (probe (text_hash k) i))"
    by (simp only: probe_def)
next
  fix T :: "(text_bytes, 'a) hash_table" and n k out a5
  assume "text_admissible n k" "\<not> text_admissible (length (m_storage T)) k"
  then show "text_find_index T k out a5 = Some (2, out)" by (simp add: text_admissible_def)
qed

section \<open>The number map\<close>

definition number_bucket :: "nat \<Rightarrow> u32 \<Rightarrow> nat" where
  "number_bucket n v = unat v mod n"

text \<open>A number whose first hash falls on the first place is refused.\<close>

definition number_admissible :: "nat \<Rightarrow> u32 \<Rightarrow> bool" where
  "number_admissible n needle \<longleftrightarrow> number_bucket n (hash_number needle 0) \<noteq> 0"

definition any_flags :: "u32 \<Rightarrow> bool" where
  "any_flags f \<longleftrightarrow> True"

lemma number_bucket_unat: "0 < n \<Longrightarrow> n < 2 ^ 31 \<Longrightarrow> unat (of_nat (number_bucket n v) :: u32) = number_bucket n v"
proof -
  assume n: "0 < n" "n < 2 ^ 31"
  then have "number_bucket n v < n" by (simp add: number_bucket_def)
  with n show ?thesis by (simp add: unat_of_nat)
qed

lemma number_probe_step:
  assumes "0 < length (m_storage T)" "length (m_storage T) < 2 ^ 31" "v \<noteq> 0"
  shows "number_probe h T k v (of_nat (number_bucket (length (m_storage T)) v)) =
    (if stops (number_bucket (length (m_storage T))) (m_storage T) k v
     then Some (outcome (number_bucket (length (m_storage T))) (m_storage T) v)
     else if h v = 0 then Some (2, 0, 0)
     else number_probe h T k (h v) (of_nat (number_bucket (length (m_storage T)) (h v))))"
  using assms number_bucket_unat [OF assms(1,2), of v]
  by (subst number_probe.simps) (auto simp: Let_def stops_def outcome_def number_bucket_def)

lemma number_probe_ended:
  assumes sz: "0 < length (m_storage T)" "length (m_storage T) < 2 ^ 31" "w \<noteq> 0"
    and ret: "number_probe h T k w (of_nat (number_bucket (length (m_storage T)) w)) = Some r"
  shows "\<exists>i. stops (number_bucket (length (m_storage T))) (m_storage T) k ((h ^^ i) w)"
proof -
  let ?S = "\<lambda>h (T :: (u32, 'a) hash_table) k. stops (number_bucket (length (m_storage T))) (m_storage T) k"
  let ?P = "\<lambda>h (T :: (u32, 'a) hash_table) k w (idx :: u32) (r :: u32 \<times> u32 \<times> u32).
    0 < length (m_storage T) \<longrightarrow> length (m_storage T) < 2 ^ 31 \<longrightarrow> w \<noteq> 0 \<longrightarrow>
    idx = of_nat (number_bucket (length (m_storage T)) w) \<longrightarrow> (\<exists>i. ?S h T k ((h ^^ i) w))"
  have "?P h T k w (of_nat (number_bucket (length (m_storage T)) w)) r"
  proof (rule number_probe.raw_induct [where P = ?P, OF _ ret], intro impI)
    fix loop :: "(u32 \<Rightarrow> u32) \<Rightarrow> (u32, 'a) hash_table \<Rightarrow> u32 \<Rightarrow> u32 \<Rightarrow> u32 \<Rightarrow> (u32 \<times> u32 \<times> u32) option"
      and h T k w idx r
    assume ih: "\<And>h T k w idx r. loop h T k w idx = Some r \<Longrightarrow> ?P h T k w idx r"
      and step: "(let entry = m_storage T ! unat idx
        in if key_hash entry = 0 then Some (0, idx, w)
           else if key_hash entry = w \<and> k = stored_key entry then Some (1, idx, w)
           else let prev_val = h w; entry_to_try = of_nat (unat prev_val mod length (m_storage T))
             in if prev_val = 0 then Some (2, entry_to_try, prev_val)
                else loop h T k prev_val entry_to_try) = Some r"
      and a: "0 < length (m_storage T)" "length (m_storage T) < 2 ^ 31" "w \<noteq> 0"
        "idx = of_nat (number_bucket (length (m_storage T)) w)"
    have u: "unat idx = number_bucket (length (m_storage T)) w" using number_bucket_unat [OF a(1,2)] a(4) by simp
    show "\<exists>i. ?S h T k ((h ^^ i) w)"
    proof (cases "?S h T k w \<or> h w = 0")
      case True
      then show ?thesis
      proof
        assume "?S h T k w" then show ?thesis by (intro exI [of _ 0]) simp
      next
        assume "h w = 0" then show ?thesis by (intro exI [of _ 1]) (simp add: stops_def)
      qed
    next
      case False
      have "loop h T k (h w) (of_nat (number_bucket (length (m_storage T)) (h w))) = Some r"
        using step False a(3) u by (auto simp: Let_def stops_def number_bucket_def split: if_splits)
      from ih [OF this] a False obtain i where "?S h T k ((h ^^ i) (h w))" by blast
      then show ?thesis by (intro exI [of _ "Suc i"]) (simp add: funpow_swap1)
    qed
  qed
  with sz show ?thesis by blast
qed

interpretation number_map: probing number_find_index hash_number number_bucket number_admissible any_flags
proof unfold_locales
  fix n v
  assume "0 < n" "n < (2 :: nat) ^ 31"
  then show "number_bucket n v < n" by (simp add: number_bucket_def)
next
  fix T :: "(u32, 'a) hash_table" and k out a5 r
  let ?b = "number_bucket (length (m_storage T))"
  assume a: "0 < length (m_storage T)" "length (m_storage T) < 2 ^ 31" "number_admissible (length (m_storage T)) k"
  define L where "L v = (if v = 0 then Some (2, 0, 0) else number_probe (hash_number k) T k v (of_nat (?b v)))" for v
  have step: "L v = (if stops ?b (m_storage T) k v then Some (outcome ?b (m_storage T) v) else L (hash_number k v))" for v
    using number_probe_step [OF a(1,2), of v "hash_number k" k] unfolding L_def
    by (auto simp: stops_def outcome_def number_bucket_def)
  have ended: "\<exists>i. stops ?b (m_storage T) k ((hash_number k ^^ i) v)" if "L v = Some r" for v r
  proof (cases "v = 0")
    case True
    then show ?thesis by (intro exI [of _ 0]) (simp add: stops_def)
  next
    case False
    with that have "number_probe (hash_number k) T k v (of_nat (?b v)) = Some r" by (simp add: L_def)
    from number_probe_ended [OF a(1,2) False this] show ?thesis .
  qed
  have nz: "hash_number k 0 \<noteq> 0" using a(3) by (auto simp: number_admissible_def number_bucket_def)
  have "(of_nat (?b (hash_number k 0)) :: u32) \<noteq> 0"
    using a(3) number_bucket_unat [OF a(1,2), of "hash_number k 0"] by (auto simp: number_admissible_def)
  with nz a(1) have "number_find_index T k out a5 = L (hash_number k 0)"
    by (auto simp: number_find_index_def Let_def L_def number_bucket_def)
  with first_stop [where loop = L and h = "hash_number k" and v = "hash_number k 0" and r = r, OF step ended]
  show "number_find_index T k out a5 = Some r \<longleftrightarrow>
      (\<exists>i. stops ?b (m_storage T) k (probe (hash_number k) i) \<and>
        (\<forall>j<i. \<not> stops ?b (m_storage T) k (probe (hash_number k) j)) \<and>
        r = outcome ?b (m_storage T) (probe (hash_number k) i))"
    by (simp add: probe_def funpow_swap1)
next
  fix T :: "(u32, 'a) hash_table" and n k out a5
  assume "0 < length (m_storage T)" "\<not> number_admissible (length (m_storage T)) k"
  then show "number_find_index T k out a5 = Some (2, out)"
    by (auto simp: number_find_index_def Let_def number_admissible_def number_bucket_def)
qed

section \<open>Sizes\<close>

lemma number_next_size_bounds: "0 < unat (number_next_size sz) \<and> unat (number_next_size sz) < 2 ^ 31"
proof -
  have "number_next_size sz \<in> of_nat ` set prime_sizes"
  proof (cases "find (\<lambda>p. p \<ge> unat sz) prime_sizes")
    case None
    then show ?thesis by (simp add: number_next_size_def prime_sizes_def)
  next
    case (Some p)
    then have "p \<in> set prime_sizes" by (auto simp: find_Some_iff)
    with Some show ?thesis by (simp add: number_next_size_def)
  qed
  moreover have "\<forall>p \<in> set prime_sizes. 0 < unat (of_nat p :: u32) \<and> unat (of_nat p :: u32) < 2 ^ 31"
    by (simp add: prime_sizes_def)
  ultimately show ?thesis by fastforce
qed

end
