(* ===== verification/Serializers.thy ===== *)
theory Serializers
  imports BitStream_Messages
begin

text \<open>
  Serializers as compositions: \<open>writes f fs\<close> says that \<open>f\<close> appends exactly the fields \<open>fs\<close> to any
  stream with room for them, \<open>reads g fs v\<close> that \<open>g\<close> takes these fields off any stream that starts
  with them and returns \<open>v\<close>. Both are closed under sequencing, so that the serializer of a structure
  is proved by following its text, and a writer and a reader of the same fields make a round trip.
\<close>

definition writes :: "(bitstream \<Rightarrow> bitstream option) \<Rightarrow> msg_field list \<Rightarrow> bool" where
  "writes f fs \<longleftrightarrow> (\<forall>n s. roomy (message_size fs + n) s \<longrightarrow>
    (\<exists>s'. f s = Some s' \<and> roomy n s' \<and> contents s' = contents s @ message_bits fs))"

definition reads :: "(bitstream \<Rightarrow> ('a \<times> bitstream) option) \<Rightarrow> msg_field list \<Rightarrow> 'a \<Rightarrow> bool" where
  "reads g fs v \<longleftrightarrow> (\<forall>s rest. reader_ok s \<longrightarrow> contents s = message_bits fs @ rest \<longrightarrow>
    (\<exists>s'. g s = Some (v, s') \<and> reader_ok s' \<and> contents s' = rest))"

named_theorems serializer_intros \<open>how serializers compose\<close>

lemma message_append [simp]:
  "message_size (fs @ gs) = message_size fs + message_size gs"
  "message_bits (fs @ gs) = message_bits fs @ message_bits gs"
  by (induction fs) auto

lemma message_size_Nil_bits: "message_bits [] = []" "message_size [] = 0"
  by simp_all

section \<open>Writing\<close>

lemma writes_done [serializer_intros]: "writes Some []"
  by (simp add: writes_def)

lemma writes_bind [serializer_intros]:
  assumes "writes f fs" "writes g gs"
  shows "writes (\<lambda>s. Option.bind (f s) g) (fs @ gs)"
  unfolding writes_def
proof (intro allI impI)
  fix n and s :: bitstream
  assume "roomy (message_size (fs @ gs) + n) s"
  then have "roomy (message_size fs + (message_size gs + n)) s" by (simp add: add.assoc)
  with assms(1) obtain s1 where s1: "f s = Some s1" "roomy (message_size gs + n) s1"
    "contents s1 = contents s @ message_bits fs" unfolding writes_def by blast
  with assms(2) obtain s2 where "g s1 = Some s2" "roomy n s2" "contents s2 = contents s1 @ message_bits gs"
    unfolding writes_def by blast
  with s1 show "\<exists>s'. Option.bind (f s) g = Some s' \<and> roomy n s' \<and>
      contents s' = contents s @ message_bits (fs @ gs)" by simp
qed

lemma writes_field: "field_ok f \<Longrightarrow> writes (write_field f) [f]"
  using write_field_appends by (simp add: writes_def)

lemma writes_cong:
  assumes "writes g fs" "\<And>s. stream_ok s \<Longrightarrow> f s = g s"
  shows "writes f fs"
  using assms by (auto simp: writes_def roomy_def)

lemma writes_bits: "field_ok (Bits n d) \<Longrightarrow> writes (StoreBits n d) [Bits n d]"
  using writes_field [of "Bits n d"] by (simp add: writes_def)

lemma writes_word [serializer_intros]: "writes (StoreBits 32 d) [Bits 32 d]"
  by (rule writes_bits) (simp add: take_bit_word_beyond_length_eq)

lemma writes_flag [serializer_intros]: "writes (StoreBits 1 (of_bool b)) [Bits 1 (of_bool b)]"
  by (rule writes_bits) (cases b; simp)

lemma writes_packed [serializer_intros]: "0 < n \<Longrightarrow> n \<le> 32 \<Longrightarrow> writes (StorePackedBits n d) [Packed n d]"
  using writes_field [of "Packed n d"] by (simp add: writes_def)

lemma writes_float [serializer_intros]: "writes (StoreFloat d) [Bits 32 d]"
  by (rule writes_cong [OF writes_word]) (auto simp: StoreFloat_def stream_ok_def BITS_PER_UINT32_def)

lemma writes_string [serializer_intros]:
  "\<forall>c \<in> set cs. c \<noteq> 0 \<Longrightarrow> writes (StoreString (cs @ [0]) None) [Str cs]"
  using writes_field [of "Str cs"] by (simp add: writes_def)

section \<open>Reading\<close>

lemma reads_return [serializer_intros]: "reads (\<lambda>s. Some (v, s)) [] v"
  by (simp add: reads_def)

lemma reads_bind [serializer_intros]:
  assumes "reads g fs v" "reads (h v) gs w"
  shows "reads (\<lambda>s. Option.bind (g s) (\<lambda>(v, s). h v s)) (fs @ gs) w"
  unfolding reads_def
proof (intro allI impI)
  fix s :: bitstream and rest
  assume "reader_ok s" "contents s = message_bits (fs @ gs) @ rest"
  then have "reader_ok s" "contents s = message_bits fs @ (message_bits gs @ rest)" by simp_all
  with assms(1) obtain s1 where s1: "g s = Some (v, s1)" "reader_ok s1" "contents s1 = message_bits gs @ rest"
    unfolding reads_def by blast
  with assms(2) obtain s2 where "h v s1 = Some (w, s2)" "reader_ok s2" "contents s2 = rest"
    unfolding reads_def by blast
  with s1 show "\<exists>s'. Option.bind (g s) (\<lambda>(v, s). h v s) = Some (w, s') \<and> reader_ok s' \<and> contents s' = rest"
    by simp
qed

lemma reads_cong:
  assumes "reads g fs v" "message_bits fs = message_bits gs" "\<And>s. reader_ok s \<Longrightarrow> f s = g s"
  shows "reads f gs v"
  using assms by (auto simp: reads_def)

lemma reads_map:
  assumes "reads g fs v"
  shows "reads (\<lambda>s. Option.bind (g s) (\<lambda>(v, s). Some (f v, s))) fs (f v)"
  using reads_bind [OF assms reads_return, of f] by simp

lemma reads_bits: "field_ok (Bits n d) \<Longrightarrow> reads (GetBits n) [Bits n d] d"
proof -
  assume ok: "field_ok (Bits n d)"
  have "\<exists>s'. GetBits n s = Some (d, s') \<and> reader_ok s' \<and> contents s' = rest"
    if "reader_ok s" "contents s = message_bits [Bits n d] @ rest" for s :: bitstream and rest
    using reader.get_law [of s n d rest] ok that by auto
  then show "reads (GetBits n) [Bits n d] d" by (simp add: reads_def)
qed

lemma reads_word [serializer_intros]: "reads (GetBits 32) [Bits 32 d] d"
  by (rule reads_bits) (simp add: take_bit_word_beyond_length_eq)

lemma reads_flag [serializer_intros]: "reads (GetBits 1) [Bits 1 (of_bool b)] (of_bool b)"
  by (rule reads_bits) (cases b; simp)

lemma reads_packed [serializer_intros]:
  assumes "0 < n" "n \<le> 32"
  shows "reads (GetPackedBits n) [Packed n d] d"
  unfolding reads_def
proof (intro allI impI)
  fix s :: bitstream and rest
  assume s: "reader_ok s" "contents s = message_bits [Packed n d] @ rest"
  have "\<not> m_byteAligned s" using s(1) by (simp add: reader_ok_def)
  with reader.gets_packed [OF s(1) assms, of d rest 0] s(2)
  show "\<exists>s'. GetPackedBits n s = Some (d, s') \<and> reader_ok s' \<and> contents s' = rest"
    by (simp add: GetPackedBits_def)
qed

lemma reads_float [serializer_intros]: "reads GetFloat [Bits 32 d] d"
  by (rule reads_cong [OF reads_word refl]) (auto simp: GetFloat_def reader_ok_def BITS_PER_UINT32_def)

lemma reads_string [serializer_intros]:
  "\<forall>c \<in> set cs. c \<noteq> 0 \<Longrightarrow> reads GetString [Str cs] (Some cs)"
  using GetString_reads [of _ cs] by (simp add: reads_def)

section \<open>The round trip\<close>

lemma writer_reader:
  assumes w: "writes f fs" and r: "reads g fs v" and n: "0 < n" "n < 1000000" "message_size fs + 8 \<le> 8 * n"
  shows "\<exists>s1 s2. f (new_stream fresh n) = Some s1 \<and> g s1 = Some (v, s2) \<and> contents s2 = []"
proof -
  have "roomy (message_size fs + 0) (new_stream fresh n)" using roomy_new_stream [OF n] by simp
  with w obtain s1 where s1: "f (new_stream fresh n) = Some s1" "roomy 0 s1"
    "contents s1 = contents (new_stream fresh n) @ message_bits fs" unfolding writes_def by blast
  have "contents s1 = message_bits fs @ []" using s1(3) new_stream_ok(2) [OF n(1,2)] by simp
  with r roomy_reader_ok [OF s1(2)] obtain s2 where "g s1 = Some (v, s2)" "contents s2 = []"
    unfolding reads_def by blast
  with s1(1) show ?thesis by blast
qed

end
