(* ===== verification/Costume_Correct.thy ===== *)
theory Costume_Correct
  imports Costume_Packer Cox_Hash_Maps Serializers
begin

unbundle bit_operations_syntax

text \<open>Names and colours that the tables know, and costumes made of them, survive the stream.\<close>

section \<open>Places in the tables\<close>

definition packer_ok :: "hash_packer \<Rightarrow> bool" where
  "packer_ok P \<longleftrightarrow> text_map.table_ok (m_strings P) \<and> number_map.table_ok (m_colors P)"

text \<open>The number that is sent for a name and for a colour.\<close>

definition name_number :: "hash_packer \<Rightarrow> text_bytes \<Rightarrow> u32" where
  "name_number P str = (case cached_index text_find_index (m_strings P) str (str = []) of Some k \<Rightarrow> k | None \<Rightarrow> 0)"

definition color_number :: "hash_packer \<Rightarrow> u32 \<Rightarrow> u32" where
  "color_number P col = (case cached_index number_find_index (m_colors P) col (col = 0) of Some k \<Rightarrow> k | None \<Rightarrow> 0)"

definition name_cached :: "hash_packer \<Rightarrow> text_bytes \<Rightarrow> bool" where
  "name_cached P str \<longleftrightarrow> str = [] \<or> table_map (m_strings P) str \<noteq> None"

text \<open>The reader takes colour numbers from ten bits.\<close>

definition color_known :: "hash_packer \<Rightarrow> u32 \<Rightarrow> bool" where
  "color_known P col \<longleftrightarrow> col = 0 \<or> (table_map (m_colors P) col \<noteq> None \<and> color_number P col < mask 10)"

context probing
begin

lemma cached_stored:
  assumes ok: "table_ok T" and known: "table_map T k \<noteq> None"
  obtains j where "cached_index find_index T k False = Some (of_nat (j + 1))"
    "key_for_idx T (int (j + 1)) = Some k" "j + 1 < 2 ^ 31"
proof -
  obtain j where j: "occupied T j" "key_at T j = k" using known by (auto simp: table_map_None)
  have "cached_index find_index T k False = Some (of_nat (j + 1))"
    using find_stored [OF ok j(1), of "(0, 0)" False] j(2) by (simp add: cached_index_def add.commute)
  moreover have "key_for_idx T (int j + 1) = Some k"
    using j unfolding key_for_place by (simp add: occupied_def key_at_def)
  moreover have "j + 1 < 2 ^ 31" using ok j(1) by (simp add: table_ok_def good_def occupied_def)
  ultimately show thesis using that [of j] by (simp add: add.commute)
qed

end

lemma unat_small: "n < 2 ^ 31 \<Longrightarrow> unat (of_nat n :: u32) = n"
  by (simp add: unat_of_nat)

lemma sint_small: "n < 2 ^ 31 \<Longrightarrow> sint (of_nat n :: u32) = int n"
  using int_word_sint [where 'a = 32, of "int n"] by simp

section \<open>Names\<close>

lemma name_sent:
  assumes ok: "packer_ok P" and known: "name_cached P str"
  shows "cached_index text_find_index (m_strings P) str (str = []) = Some (name_number P str)"
    and "str \<noteq> [] \<Longrightarrow> name_number P str \<noteq> 0"
    and "(case key_for_idx (m_strings P) (sint (name_number P str)) of Some kv \<Rightarrow> kv | None \<Rightarrow> []) = str"
proof -
  have "cached_index text_find_index (m_strings P) str (str = []) = Some (name_number P str) \<and>
    (str \<noteq> [] \<longrightarrow> name_number P str \<noteq> 0) \<and>
    (case key_for_idx (m_strings P) (sint (name_number P str)) of Some kv \<Rightarrow> kv | None \<Rightarrow> []) = str"
  proof (cases "str = []")
    case True
    then show ?thesis by (simp add: name_number_def cached_index_def key_for_idx_def)
  next
    case False
    then have "table_map (m_strings P) str \<noteq> None" using known by (simp add: name_cached_def)
    with ok obtain j where j: "cached_index text_find_index (m_strings P) str False = Some (of_nat (j + 1))"
      "key_for_idx (m_strings P) (int (j + 1)) = Some str" "j + 1 < 2 ^ 31"
      using text_map.cached_stored [of "m_strings P" str] by (auto simp: packer_ok_def)
    have n: "name_number P str = of_nat (j + 1)" using False j(1) by (simp add: name_number_def)
    have "name_number P str \<noteq> 0" using unat_small [OF j(3)] n by auto
    moreover have "sint (name_number P str) = int (j + 1)" unfolding n by (rule sint_small [OF j(3)])
    ultimately show ?thesis using False j(1,2) n by simp
  qed
  then show "cached_index text_find_index (m_strings P) str (str = []) = Some (name_number P str)"
    and "str \<noteq> [] \<Longrightarrow> name_number P str \<noteq> 0"
    and "(case key_for_idx (m_strings P) (sint (name_number P str)) of Some kv \<Rightarrow> kv | None \<Rightarrow> []) = str"
    by blast+
qed

definition name_fields :: "hash_packer \<Rightarrow> text_bytes \<Rightarrow> msg_field list" where
  "name_fields P str = [Bits 1 1] @ [Packed 12 (name_number P str)]"

lemma writes_one: "writes (StoreBits 1 1) [Bits 1 1]" and reads_one: "reads (GetBits 1) [Bits 1 1] 1"
  using writes_flag [of True] reads_flag [of True] by simp_all

lemma writes_name [serializer_intros]:
  assumes "packer_ok P" "name_cached P str"
  shows "writes (packPartname P str) (name_fields P str)"
proof -
  have "packPartname P str = (\<lambda>s. Option.bind (StoreBits 1 1 s) (StorePackedBits 12 (name_number P str)))"
    using name_sent(1,2) [OF assms] by (auto simp: packPartname_def fun_eq_iff stringcachecount_bitlength_def)
  then show ?thesis unfolding name_fields_def
    by (simp only:) (rule writes_bind [OF writes_one writes_packed]; simp)
qed

lemma reads_name [serializer_intros]:
  assumes "packer_ok P" "name_cached P str"
  shows "reads (unpackPartname P) (name_fields P str) str"
proof -
  have "reads (unpackPartname P) ([Bits 1 1] @ [Packed 12 (name_number P str)])
      (case key_for_idx (m_strings P) (sint (name_number P str)) of Some kv \<Rightarrow> kv | None \<Rightarrow> [])"
    unfolding unpackPartname_def
    by (rule reads_bind [OF reads_one])
      (simp add: stringcachecount_bitlength_def reads_packed
        reads_map [where f = "\<lambda>i. case key_for_idx (m_strings P) (sint i) of Some kv \<Rightarrow> kv | None \<Rightarrow> []"])
  then show ?thesis by (simp only: name_sent(3) [OF assms] name_fields_def)
qed

section \<open>Colours\<close>

lemma color_sent:
  assumes ok: "packer_ok P" and known: "color_known P col"
  shows "cached_index number_find_index (m_colors P) col (col = 0) = Some (color_number P col)"
    and "col \<noteq> 0 \<Longrightarrow> color_number P col \<noteq> 0"
    and "color_number P col < mask 10"
    and "(case key_for_idx (m_colors P) (uint (ucast (color_number P col) :: u16)) of Some kv \<Rightarrow> kv | None \<Rightarrow> 0) = col"
proof -
  have "cached_index number_find_index (m_colors P) col (col = 0) = Some (color_number P col) \<and>
    (col \<noteq> 0 \<longrightarrow> color_number P col \<noteq> 0) \<and> color_number P col < mask 10 \<and>
    (case key_for_idx (m_colors P) (uint (ucast (color_number P col) :: u16)) of Some kv \<Rightarrow> kv | None \<Rightarrow> 0) = col"
  proof (cases "col = 0")
    case True
    then show ?thesis by (simp add: color_number_def cached_index_def key_for_idx_def mask_eq_exp_minus_1)
  next
    case False
    then have "table_map (m_colors P) col \<noteq> None" and lt: "color_number P col < mask 10"
      using known by (auto simp: color_known_def)
    with ok obtain j where j: "cached_index number_find_index (m_colors P) col False = Some (of_nat (j + 1))"
      "key_for_idx (m_colors P) (int (j + 1)) = Some col" "j + 1 < 2 ^ 31"
      using number_map.cached_stored [of "m_colors P" col] by (auto simp: packer_ok_def)
    have n: "color_number P col = of_nat (j + 1)" using False j(1) by (simp add: color_number_def)
    have u: "unat (color_number P col) = j + 1" unfolding n by (rule unat_small [OF j(3)])
    have "j + 1 < 1023" using lt u by (simp add: word_less_nat_alt mask_eq_exp_minus_1)
    then have "uint (ucast (color_number P col) :: u16) = int (j + 1)"
      unfolding n by (simp add: unsigned_ucast_eq uint_nat unat_small take_bit_eq_mod flip: of_nat_Suc)
    moreover have "color_number P col \<noteq> 0" using u by auto
    ultimately show ?thesis using False j(1,2) n lt by simp
  qed
  then show "cached_index number_find_index (m_colors P) col (col = 0) = Some (color_number P col)"
    and "col \<noteq> 0 \<Longrightarrow> color_number P col \<noteq> 0"
    and "color_number P col < mask 10"
    and "(case key_for_idx (m_colors P) (uint (ucast (color_number P col) :: u16)) of Some kv \<Rightarrow> kv | None \<Rightarrow> 0) = col"
    by blast+
qed

definition color_fields :: "hash_packer \<Rightarrow> u32 \<Rightarrow> msg_field list" where
  "color_fields P col = [Bits 1 1] @ [Packed 10 (color_number P col)]"

lemma writes_color [serializer_intros]:
  assumes "packer_ok P" "color_known P col"
  shows "writes (packColor P col) (color_fields P col)"
proof -
  have "packColor P col = (\<lambda>s. Option.bind (StoreBits 1 1 s) (StorePackedBits 10 (color_number P col)))"
    using color_sent(1,2) [OF assms] by (auto simp: packColor_def fun_eq_iff colorcachecount_bitlength_def)
  then show ?thesis unfolding color_fields_def
    by (simp only:) (rule writes_bind [OF writes_one writes_packed]; simp)
qed

text \<open>Below the all-ones pattern a packed number is its ten bits.\<close>

lemma reads_color [serializer_intros]:
  assumes "packer_ok P" "color_known P col"
  shows "reads (unpackColor P) (color_fields P col) col"
proof -
  let ?k = "color_number P col"
  note c = color_sent [OF assms]
  have "packed 10 ?k = bits_of 10 ?k" using c(3) by (simp add: packed_small not_le)
  moreover have "field_ok (Bits 10 ?k)" using below_mask_take_bit [OF c(3)] by simp
  ultimately have "reads (GetBits 10) [Packed 10 ?k] ?k"
    using reads_cong [OF reads_bits, of 10 ?k "[Packed 10 ?k]"] by simp
  then have "reads (unpackColor P) ([Bits 1 1] @ [Packed 10 ?k])
      (case key_for_idx (m_colors P) (uint (ucast ?k :: u16)) of Some kv \<Rightarrow> kv | None \<Rightarrow> 0)"
    unfolding unpackColor_def
    by (intro reads_bind [OF reads_one]) (simp add: colorcachecount_bitlength_def
        reads_map [where f = "\<lambda>i. case key_for_idx (m_colors P) (uint (ucast i :: u16)) of Some kv \<Rightarrow> kv | None \<Rightarrow> 0"])
  then show ?thesis by (simp only: c(4) color_fields_def)
qed

section \<open>Costumes\<close>

definition part_known :: "hash_packer \<Rightarrow> bool \<Rightarrow> costume_part \<Rightarrow> bool" where
  "part_known P full p \<longleftrightarrow> name_cached P (m_geometry p) \<and> name_cached P (m_texture_1 p) \<and> name_cached P (m_texture_2 p) \<and>
    color_known P (m_color_0 p) \<and> color_known P (m_color_1 p) \<and>
    (full \<longrightarrow> name_cached P (name_3 p) \<and> name_cached P (name_4 p) \<and> name_cached P (name_5 p))"

definition part_fields :: "hash_packer \<Rightarrow> bool \<Rightarrow> costume_part \<Rightarrow> msg_field list" where
  "part_fields P full p = name_fields P (m_geometry p) @ name_fields P (m_texture_1 p) @ name_fields P (m_texture_2 p) @
    color_fields P (m_color_0 p) @ color_fields P (m_color_1 p) @
    (if full then name_fields P (name_3 p) @ name_fields P (name_4 p) @ name_fields P (name_5 p) else [])"

text \<open>What arrives of a part: its number as the type, and the last three names in full costumes only.\<close>

definition arrived_part :: "bool \<Rightarrow> nat \<Rightarrow> costume_part \<Rightarrow> costume_part" where
  "arrived_part full i p = p\<lparr>m_type := of_nat i, m_full_part := full, name_3 := if full then name_3 p else [],
     name_4 := if full then name_4 p else [], name_5 := if full then name_5 p else []\<rparr>"

lemma writes_part:
  assumes "packer_ok P" "part_known P full p"
  shows "writes (serializeto_part P (p\<lparr>m_full_part := full\<rparr>)) (part_fields P full p)"
proof -
  note k = assms(2) [unfolded part_known_def]
  show ?thesis
  proof (cases full)
    case True
    then show ?thesis unfolding serializeto_part_def part_fields_def
      using k assms(1) by simp (intro writes_bind writes_name writes_color; simp)
  next
    case False
    then show ?thesis unfolding serializeto_part_def part_fields_def
      using k assms(1) by simp
        (intro writes_bind writes_name writes_color writes_bind [where gs = "[]", OF _ writes_done, simplified]; simp)
  qed
qed

lemmas reads_name_bind = reads_bind [OF reads_name] and reads_color_bind = reads_bind [OF reads_color]
lemmas reads_name_map = reads_map [OF reads_name] and reads_color_map = reads_map [OF reads_color]

lemma reads_part:
  assumes "packer_ok P" "part_known P full p"
  shows "reads (serializefrom_part P (fresh_part full (of_nat i))) (part_fields P full p) (arrived_part full i p)"
proof -
  note k = assms(2) [unfolded part_known_def]
  show ?thesis
  proof (cases full)
    case True
    have "arrived_part True i p = fresh_part True (of_nat i)
      \<lparr>m_geometry := m_geometry p, m_texture_1 := m_texture_1 p, m_texture_2 := m_texture_2 p,
       m_color_0 := m_color_0 p, m_color_1 := m_color_1 p, name_3 := name_3 p, name_4 := name_4 p, name_5 := name_5 p\<rparr>"
      by (simp add: arrived_part_def fresh_part_def)
    with True show ?thesis unfolding serializefrom_part_def part_fields_def Let_def
      using k assms(1) by (simp add: fresh_part_def)
        (intro reads_name_bind reads_color_bind reads_name_map; simp)
  next
    case False
    have "arrived_part False i p = fresh_part False (of_nat i)
      \<lparr>m_geometry := m_geometry p, m_texture_1 := m_texture_1 p, m_texture_2 := m_texture_2 p,
       m_color_0 := m_color_0 p, m_color_1 := m_color_1 p\<rparr>"
      by (simp add: arrived_part_def fresh_part_def)
    with False show ?thesis unfolding serializefrom_part_def part_fields_def Let_def
      using k assms(1) by (simp add: fresh_part_def)
        (intro reads_name_bind reads_color_bind reads_color_map; simp)
  qed
qed

end
