(* ===== verification/Cox_Hash_Eval.thy ===== *)
theory Cox_Hash_Eval
  imports Cox_Hash_Maps
begin

unbundle bit_operations_syntax

text \<open>
  The hash over natural numbers, for computing it on given keys: every step is reduced to 32
  bits, so that numerals stay small.
\<close>

definition mix_right :: "nat \<Rightarrow> nat \<Rightarrow> nat \<Rightarrow> nat \<Rightarrow> nat" where
  "mix_right s a b c = ((a + 2 ^ 33 - b - c) mod 2 ^ 32) XOR (c div 2 ^ s)"

definition mix_left :: "nat \<Rightarrow> nat \<Rightarrow> nat \<Rightarrow> nat \<Rightarrow> nat" where
  "mix_left s b c a = ((b + 2 ^ 33 - c - a) mod 2 ^ 32) XOR ((a * 2 ^ s) mod 2 ^ 32)"

fun mix_a :: "nat \<Rightarrow> nat \<times> nat \<times> nat \<Rightarrow> nat \<times> nat \<times> nat" where
  "mix_a s (a, b, c) = (mix_right s a b c, b, c)"

fun mix_b :: "nat \<Rightarrow> nat \<times> nat \<times> nat \<Rightarrow> nat \<times> nat \<times> nat" where
  "mix_b s (a, b, c) = (a, mix_left s b c a, c)"

fun mix_c :: "nat \<Rightarrow> nat \<times> nat \<times> nat \<Rightarrow> nat \<times> nat \<times> nat" where
  "mix_c s (a, b, c) = (a, b, mix_right s c a b)"

definition mix_nat :: "nat \<times> nat \<times> nat \<Rightarrow> nat \<times> nat \<times> nat" where
  "mix_nat abc = mix_c 15 (mix_b 10 (mix_a 3 (mix_c 5 (mix_b 16 (mix_a 12 (mix_c 13 (mix_b 8 (mix_a 13 abc))))))))"

lemma word_sub_nat:
  "a < 2 ^ 32 \<Longrightarrow> b < 2 ^ 32 \<Longrightarrow> c < 2 ^ 32 \<Longrightarrow>
   (of_nat a - of_nat b - of_nat c :: u32) = of_nat ((a + 2 ^ 33 - b - c) mod 2 ^ 32)"
proof -
  assume a: "a < 2 ^ 32" "b < 2 ^ 32" "c < 2 ^ 32"
  have "(of_nat ((a + 2 ^ 33 - b - c) mod 2 ^ 32) :: u32) = of_nat (a + 2 ^ 33 - b - c)"
    by (rule word_unat_eq_iff [THEN iffD2]) (simp add: unat_of_nat)
  also have "\<dots> = of_nat (a + 2 ^ 33) - of_nat b - of_nat c" using a by (simp add: of_nat_diff)
  also have "(of_nat (a + 2 ^ 33) :: u32) = of_nat a"
    by (rule word_unat_eq_iff [THEN iffD2]) (simp only: unat_of_nat, use mod_mult_self2 [of a "2 ^ 32" 2] in simp)
  finally show ?thesis by simp
qed

lemma nat_xor_less: "x < 2 ^ n \<Longrightarrow> y < 2 ^ n \<Longrightarrow> x XOR y < (2 :: nat) ^ n"
  by (metis take_bit_nat_eq_self_iff take_bit_xor)

lemma mix_right_eq:
  assumes "a < 2 ^ 32" "b < 2 ^ 32" "c < 2 ^ 32"
  shows "(of_nat a - of_nat b - of_nat c) XOR drop_bit s (of_nat c) = (of_nat (mix_right s a b c) :: u32)"
    and "mix_right s a b c < 2 ^ 32"
proof -
  have "c div 2 ^ s \<le> c" by (rule div_le_dividend)
  then have d: "c div 2 ^ s < 2 ^ 32" using assms(3) by (rule le_less_trans)
  have "drop_bit s (of_nat c :: u32) = of_nat (c div 2 ^ s)"
    by (rule word_unat_eq_iff [THEN iffD2]) (use assms(3) d in \<open>simp only: unat_drop_bit_eq unat_of_nat, simp add: drop_bit_eq_div\<close>)
  then show "(of_nat a - of_nat b - of_nat c) XOR drop_bit s (of_nat c) = (of_nat (mix_right s a b c) :: u32)"
    by (simp add: word_sub_nat [OF assms] mix_right_def of_nat_xor_eq)
  show "mix_right s a b c < 2 ^ 32" unfolding mix_right_def by (rule nat_xor_less) (use d in simp_all)
qed

lemma mix_left_eq:
  assumes "b < 2 ^ 32" "c < 2 ^ 32" "a < 2 ^ 32"
  shows "(of_nat b - of_nat c - of_nat a) XOR push_bit s (of_nat a) = (of_nat (mix_left s b c a) :: u32)"
    and "mix_left s b c a < 2 ^ 32"
proof -
  have "(of_nat ((a * 2 ^ s) mod 2 ^ 32) :: u32) = of_nat (a * 2 ^ s)"
    by (rule word_unat_eq_iff [THEN iffD2]) (simp only: unat_of_nat, simp)
  then have "push_bit s (of_nat a :: u32) = of_nat ((a * 2 ^ s) mod 2 ^ 32)"
    by (simp add: push_bit_eq_mult)
  then show "(of_nat b - of_nat c - of_nat a) XOR push_bit s (of_nat a) = (of_nat (mix_left s b c a) :: u32)"
    by (simp add: word_sub_nat [OF assms] mix_left_def of_nat_xor_eq)
  show "mix_left s b c a < 2 ^ 32" unfolding mix_left_def by (rule nat_xor_less) simp_all
qed

lemma mix_of_nat:
  assumes "a < 2 ^ 32" "b < 2 ^ 32" "c < 2 ^ 32"
  shows "mix (of_nat a, of_nat b, of_nat c) = map_prod of_nat (map_prod of_nat of_nat) (mix_nat (a, b, c))"
  unfolding mix_def mix_nat_def Let_def
  by (simp only: prod.case map_prod_simp mix_a.simps mix_b.simps mix_c.simps mix_right_eq mix_left_eq assms)

lemma mix_nat_less:
  assumes "a < 2 ^ 32" "b < 2 ^ 32" "c < 2 ^ 32"
  shows "snd (snd (mix_nat (a, b, c))) < 2 ^ 32"
  unfolding mix_nat_def
  by (simp only: mix_a.simps mix_b.simps mix_c.simps snd_conv mix_right_eq mix_left_eq assms)

text \<open>A number of four bytes, and a text of at most four.\<close>

definition hash_nat :: "nat \<Rightarrow> nat \<Rightarrow> nat \<Rightarrow> nat" where
  "hash_nat n v prev = snd (snd (mix_nat ((2654435769 + v) mod 2 ^ 32, 2654435769, (prev + n) mod 2 ^ 32)))"

lemma base_256:
  fixes u :: nat
  assumes "u < 4294967296"
  shows "u mod 256 + u div 2 ^ 8 mod 256 * 2 ^ 8 + u div 2 ^ 16 mod 256 * 2 ^ 16 + u div 2 ^ 24 mod 256 * 2 ^ 24 = u"
proof -
  define q where "q = u div 256"
  define r where "r = q div 256"
  define t where "t = r div 256"
  have s: "u div 2 ^ 8 = q" "u div 2 ^ 16 = r" "u div 2 ^ 24 = t"
    by (simp_all add: q_def r_def t_def div_mult2_eq [symmetric])
  have "u = 256 * q + u mod 256" "q = 256 * r + q mod 256" "r = 256 * t + r mod 256"
    by (simp_all add: q_def r_def t_def)
  moreover have "t < 256" using assms s(3) by (simp add: less_mult_imp_div_less flip: s(3))
  ultimately show ?thesis unfolding s by simp
qed

lemma bytes_of_number:
  fixes v :: u32
  shows "ucast (ucast v :: u8) + push_bit 8 (ucast (ucast (drop_bit 8 v) :: u8)) +
    push_bit 16 (ucast (ucast (drop_bit 16 v) :: u8)) + push_bit 24 (ucast (ucast (drop_bit 24 v) :: u8)) = v"
proof -
  have e: "(ucast (ucast w :: u8) :: u32) = of_nat (unat w mod 256)" for w :: u32
    by (rule word_unat_eq_iff [THEN iffD2]) (simp add: unsigned_ucast_eq unat_of_nat take_bit_eq_mod unat_mod)
  have d: "unat (drop_bit n v) = unat v div 2 ^ n" for n
    by (simp only: unat_drop_bit_eq) (simp add: drop_bit_eq_div)
  have "unat v < 2 ^ LENGTH(32)" by (rule unsigned_less)
  then have lt: "unat v < 4294967296" by simp
  let ?x = "unat v mod 256 + unat v div 2 ^ 8 mod 256 * 2 ^ 8 + unat v div 2 ^ 16 mod 256 * 2 ^ 16 +
      unat v div 2 ^ 24 mod 256 * 2 ^ 24"
  have "ucast (ucast v :: u8) + push_bit 8 (ucast (ucast (drop_bit 8 v) :: u8)) +
    push_bit 16 (ucast (ucast (drop_bit 16 v) :: u8)) + push_bit 24 (ucast (ucast (drop_bit 24 v) :: u8)) =
    (of_nat ?x :: u32)"
    by (simp only: e d push_bit_eq_mult of_nat_add of_nat_mult of_nat_power of_nat_numeral)
  also have "(of_nat ?x :: u32) = of_nat (unat v)" by (simp only: base_256 [OF lt])
  finally show ?thesis by simp
qed

lemma hash_number_mix: "hash_number v p = snd (snd (mix (0x9e3779b9 + v, 0x9e3779b9, p + 4)))"
proof -
  have *: "0x9e3779b9 + push_bit 24 (ucast (ucast (drop_bit 24 v) :: u8)) + push_bit 16 (ucast (ucast (drop_bit 16 v) :: u8)) +
      push_bit 8 (ucast (ucast (drop_bit 8 v) :: u8)) + ucast (ucast v :: u8) = 0x9e3779b9 + v"
    using bytes_of_number [of v] by (simp add: algebra_simps)
  then show ?thesis
    unfolding hash_number_def jenkins_hash_def jenkins_rest_def
    by (simp add: jenkins_blocks.simps shifted_byte_def Let_def case_prod_beta) (simp only: *)
qed

lemma of_nat_mod_32: "(of_nat (n mod 2 ^ 32) :: u32) = of_nat n"
  by (rule word_unat_eq_iff [THEN iffD2]) (simp add: unat_of_nat)

lemma hash_number_nat:
  assumes "v < 2 ^ 32" "p < 2 ^ 32"
  shows "hash_number (of_nat v) (of_nat p) = of_nat (hash_nat 4 v p)"
proof -
  have a: "(0x9e3779b9 + of_nat v :: u32) = of_nat ((2654435769 + v) mod 2 ^ 32)"
    unfolding of_nat_mod_32 by simp
  have c: "(of_nat p + 4 :: u32) = of_nat ((p + 4) mod 2 ^ 32)" unfolding of_nat_mod_32 by simp
  have b: "(0x9e3779b9 :: u32) = of_nat 2654435769" by simp
  show ?thesis unfolding hash_number_mix a c hash_nat_def
    by (subst b, subst mix_of_nat) (simp_all add: case_prod_beta)
qed

lemmas hash_nat_eval = hash_nat_def mix_nat_def mix_right_def mix_left_def

lemma hash_nat_test: "hash_nat 4 5 0 = 1210817346"
  by (simp add: hash_nat_eval)

end
