(* ===== verification/Costume_Roundtrip.thy ===== *)
theory Costume_Roundtrip
  imports Costume_Correct Cox_Hash_Eval
begin

unbundle bit_operations_syntax

text \<open>Whole costumes, and tables to try the theorems on.\<close>

section \<open>Whole costumes\<close>

definition costume_fields :: "hash_packer \<Rightarrow> costume \<Rightarrow> msg_field list" where
  "costume_fields P c = [Packed 3 (m_body_type c)] @ [Bits 32 (m_skin_color c)] @ [Bits 32 (m_height c)] @
    [Bits 32 (m_physique c)] @ [Bits 1 (of_bool (m_send_full_costume c))] @ [Packed 4 (of_nat (length (m_parts c)))] @
    concat (map (part_fields P (m_send_full_costume c)) (m_parts c))"

definition received_costume :: "costume \<Rightarrow> costume \<Rightarrow> costume" where
  "received_costume tgt c = tgt\<lparr>m_body_type := m_body_type c, m_skin_color := m_skin_color c, m_height := m_height c,
     m_physique := m_physique c, m_send_full_costume := m_send_full_costume c,
     m_num_parts := of_nat (length (m_parts c)),
     m_parts := m_parts tgt @ map (\<lambda>(i, p). arrived_part (m_send_full_costume c) i p) (enumerate 0 (m_parts c))\<rparr>"

lemma message_size_parts:
  "message_size (concat (map (part_fields P full) ps)) \<le> 776 * length ps"
proof (induction ps)
  case (Cons p ps)
  have "message_size (part_fields P full p) \<le> 776"
    by (simp add: part_fields_def name_fields_def color_fields_def)
  with Cons show ?case by simp
qed simp

lemma message_size_costume: "message_size (costume_fields P c) \<le> 289 + 776 * length (m_parts c)"
  using message_size_parts [of P "m_send_full_costume c" "m_parts c"] by (simp add: costume_fields_def)

lemma writes_parts:
  assumes "packer_ok P" "\<forall>p \<in> set ps. part_known P full p"
  shows "writes (serializeto_parts P full ps) (concat (map (part_fields P full) ps))"
  using assms(2)
proof (induction ps)
  case Nil
  have "serializeto_parts P full [] = Some" by (simp add: fun_eq_iff)
  then show ?case using writes_done by simp
next
  case (Cons p ps)
  have "serializeto_parts P full (p # ps) =
      (\<lambda>s. Option.bind (serializeto_part P (p\<lparr>m_full_part := full\<rparr>) s) (serializeto_parts P full ps))"
    by (simp add: fun_eq_iff)
  with Cons writes_bind [OF writes_part [OF assms(1)] Cons.IH] show ?case by simp
qed

lemma reads_parts:
  assumes "packer_ok P" "\<forall>p \<in> set ps. part_known P (m_send_full_costume tgt) p"
  shows "reads (serializefrom_parts P i (length ps) tgt)
    (concat (map (part_fields P (m_send_full_costume tgt)) ps))
    (tgt\<lparr>m_parts := m_parts tgt @ map (\<lambda>(i, p). arrived_part (m_send_full_costume tgt) i p) (enumerate i ps)\<rparr>)"
  using assms(2)
proof (induction ps arbitrary: i tgt)
  case Nil
  have "serializefrom_parts P i 0 tgt = (\<lambda>s. Some (tgt, s))" by (simp add: fun_eq_iff)
  then show ?case using reads_return by simp
next
  case (Cons p ps)
  let ?full = "m_send_full_costume tgt" and ?next = "\<lambda>part. tgt\<lparr>m_parts := m_parts tgt @ [part]\<rparr>"
  have e: "serializefrom_parts P i (length (p # ps)) tgt = (\<lambda>s. Option.bind
      (serializefrom_part P (fresh_part ?full (of_nat i)) s)
      (\<lambda>(part, s). serializefrom_parts P (i + 1) (length ps) (?next part) s))"
    by (auto simp: fun_eq_iff split: option.splits)
  have "reads (serializefrom_parts P (i + 1) (length ps) (?next (arrived_part ?full i p)))
      (concat (map (part_fields P ?full) ps))
      (tgt\<lparr>m_parts := m_parts tgt @ map (\<lambda>(i, p). arrived_part ?full i p) (enumerate i (p # ps))\<rparr>)"
    using Cons.IH [of "?next (arrived_part ?full i p)" "i + 1"] Cons.prems by simp
  from reads_bind [where h = "\<lambda>part. serializefrom_parts P (i + 1) (length ps) (?next part)",
      OF reads_part [OF assms(1)] this] Cons.prems show ?case unfolding e by simp
qed

lemma writes_costume:
  assumes "packer_ok P" "\<forall>p \<in> set (m_parts c). part_known P (m_send_full_costume c) p" "m_parts c \<noteq> []"
  shows "writes (serializeto_costume P c) (costume_fields P c)"
  unfolding serializeto_costume_def costume_fields_def
  using assms by (simp only: if_False)
    (intro writes_bind writes_packed writes_word writes_float writes_flag writes_parts; simp)

lemma reads_costume:
  assumes "packer_ok P" "\<forall>p \<in> set (m_parts c). part_known P (m_send_full_costume c) p" "length (m_parts c) < 2 ^ 31"
  shows "reads (serializefrom_costume P tgt) (costume_fields P c) (received_costume tgt c)"
proof -
  let ?tgt = "tgt\<lparr>m_body_type := m_body_type c, m_skin_color := m_skin_color c, m_height := m_height c,
     m_physique := m_physique c, m_send_full_costume := m_send_full_costume c,
     m_num_parts := of_nat (length (m_parts c))\<rparr>"
  have n: "nat (sint (of_nat (length (m_parts c)) :: u32)) = length (m_parts c)"
    by (simp only: sint_small [OF assms(3)] nat_int)
  have f: "(of_bool b :: u32) \<noteq> 0 \<longleftrightarrow> b" for b by (cases b) simp_all
  have parts: "reads (serializefrom_parts P 0 (nat (sint (of_nat (length (m_parts c)) :: u32)))
        (tgt\<lparr>m_body_type := m_body_type c, m_skin_color := m_skin_color c, m_height := m_height c,
           m_physique := m_physique c, m_send_full_costume := (of_bool (m_send_full_costume c) :: u32) \<noteq> 0,
           m_num_parts := of_nat (length (m_parts c))\<rparr>))
      (concat (map (part_fields P (m_send_full_costume c)) (m_parts c))) (received_costume tgt c)"
    unfolding f
    using reads_parts [OF assms(1), of "m_parts c" ?tgt 0] assms(2)
    unfolding n received_costume_def by simp
  show ?thesis unfolding serializefrom_costume_def costume_fields_def
    by (intro reads_bind [OF reads_packed] reads_bind [OF reads_word] reads_bind [OF reads_float]
        reads_bind [OF reads_flag]) (rule parts | simp)+
qed

end
