(* ===== verification/Costume_Index.thy ===== *)
theory Costume_Index
  imports Costume_Packer
begin

text \<open>The numbers that \<open>IndexedPacker\<close> gives to the strings added to it.\<close>

section \<open>The index is the inverse of the list\<close>

definition index_ok :: "indexed_packer \<Rightarrow> bool" where
  "index_ok P \<longleftrightarrow> (\<forall>s i. m_string_to_index P s = Some i \<longleftrightarrow>
    0 < i \<and> i \<le> length (m_known_strings P) \<and> m_known_strings P ! (i - 1) = s)"

lemma index_ok_distinct:
  assumes "index_ok P"
  shows "distinct (m_known_strings P)"
  unfolding distinct_conv_nth
proof (intro allI impI)
  fix i j
  assume i: "i < length (m_known_strings P)" "j < length (m_known_strings P)" "i \<noteq> j"
  have "m_string_to_index P (m_known_strings P ! i) = Some (i + 1)"
    "m_string_to_index P (m_known_strings P ! j) = Some (j + 1)"
    using assms i unfolding index_ok_def by simp_all
  with i(3) show "m_known_strings P ! i \<noteq> m_known_strings P ! j" by auto
qed

lemma index_ok_known:
  assumes "index_ok P"
  shows "m_string_to_index P s = None \<longleftrightarrow> s \<notin> set (m_known_strings P)"
proof
  assume none: "m_string_to_index P s = None"
  show "s \<notin> set (m_known_strings P)"
  proof
    assume "s \<in> set (m_known_strings P)"
    then obtain i where "i < length (m_known_strings P)" "m_known_strings P ! i = s" by (auto simp: in_set_conv_nth)
    then have "m_string_to_index P s = Some (i + 1)" using assms unfolding index_ok_def by simp
    with none show False by simp
  qed
next
  assume "s \<notin> set (m_known_strings P)"
  then have "m_string_to_index P s \<noteq> Some i" for i
    using assms unfolding index_ok_def by (metis Suc_diff_1 Suc_le_lessD nth_mem)
  then show "m_string_to_index P s = None" by (cases "m_string_to_index P s") auto
qed

lemma index_ok_new: "index_ok new_indexed_packer"
  by (auto simp: index_ok_def new_indexed_packer_def)

lemma addString_known:
  assumes ok: "index_ok P" and s: "to_lower s \<in> set (m_known_strings P)"
  shows "addString s P = Some P"
proof -
  obtain i where i: "m_string_to_index P (to_lower s) = Some i"
    using s index_ok_known [OF ok, of "to_lower s"] by auto
  with ok have "0 < i" "i \<le> length (m_known_strings P)" "m_known_strings P ! (i - 1) = to_lower s"
    unfolding index_ok_def by blast+
  with i show ?thesis by (auto simp: addString_def at_default_def Let_def equal_ignoring_case_def to_lower_idem)
qed

lemma addString_unknown:
  assumes ok: "index_ok P" and s: "to_lower s \<notin> set (m_known_strings P)"
  obtains P' where "addString s P = Some P'" "index_ok P'" "m_known_strings P' = m_known_strings P @ [to_lower s]"
proof -
  have none: "m_string_to_index P (to_lower s) = None" using index_ok_known [OF ok] s by simp
  let ?P = "P\<lparr>m_known_strings := m_known_strings P @ [to_lower s],
    m_string_to_index := (m_string_to_index P)(to_lower s \<mapsto> length (m_known_strings P) + 1)\<rparr>"
  have "addString s P = Some ?P" using none by (simp add: addString_def at_default_def Let_def)
  moreover have "index_ok ?P"
    unfolding index_ok_def
  proof (intro allI)
    fix t i
    show "m_string_to_index ?P t = Some i \<longleftrightarrow>
        0 < i \<and> i \<le> length (m_known_strings ?P) \<and> m_known_strings ?P ! (i - 1) = t"
    proof (cases "t = to_lower s")
      case True
      have "m_known_strings P ! (i - 1) \<noteq> to_lower s" if "0 < i" "i \<le> length (m_known_strings P)"
        using s that by (metis Suc_diff_1 Suc_le_lessD nth_mem)
      with True show ?thesis by (auto simp: nth_append le_Suc_eq)
    next
      case False
      have "m_string_to_index P t = Some i \<longleftrightarrow> 0 < i \<and> i \<le> length (m_known_strings P) \<and> m_known_strings P ! (i - 1) = t"
        using ok unfolding index_ok_def by blast
      with False show ?thesis by (auto simp: nth_append le_Suc_eq)
    qed
  qed
  ultimately show thesis using that by simp
qed

section \<open>Sorting\<close>

lemma record_order_spec:
  assumes "distinct strs"
  shows "record_order i strs m t = Some k \<longleftrightarrow>
    (if t \<in> set strs then i \<le> k \<and> k < i + length strs \<and> strs ! (k - i) = t else m t = Some k)"
  using assms
proof (induction strs arbitrary: i m)
  case (Cons a strs)
  have ih: "record_order i (a # strs) m t = Some k \<longleftrightarrow>
      (if t \<in> set strs then i + 1 \<le> k \<and> k < i + 1 + length strs \<and> strs ! (k - (i + 1)) = t
       else (m(a \<mapsto> i)) t = Some k)"
    using Cons by simp
  show ?case
  proof (cases "t \<in> set strs")
    case True
    then have "t \<noteq> a" using Cons.prems by auto
    with True ih show ?thesis by (cases "i < k") (auto simp: nth_Cons' not_less)
  next
    case False
    have "k = i" if "i \<le> k" "k < i + length (a # strs)" "(a # strs) ! (k - i) = a"
      using that Cons.prems by (cases "k - i") auto
    with False ih show ?thesis by auto
  qed
qed simp

lemma record_order_index:
  assumes "distinct strs" "set strs = dom m"
  shows "record_order 1 strs m t = Some i \<longleftrightarrow> 0 < i \<and> i \<le> length strs \<and> strs ! (i - 1) = t"
proof -
  have "strs ! (i - 1) \<in> set strs" if "0 < i" "i \<le> length strs" using that by simp
  moreover have "m t = None" if "t \<notin> set strs" using that assms(2) by auto
  ultimately show ?thesis unfolding record_order_spec [OF assms(1)] by auto
qed

lemma sortEntries_ok:
  assumes ok: "index_ok P"
  shows "index_ok (sortEntries P)" "m_known_strings (sortEntries P) = sort (m_known_strings P)"
proof -
  have "set (sort (m_known_strings P)) = dom (m_string_to_index P)"
    using index_ok_known [OF ok] by (auto simp: set_eq_iff domIff)
  from record_order_index [OF _ this] index_ok_distinct [OF ok]
  show "index_ok (sortEntries P)" by (simp add: index_ok_def sortEntries_def Let_def)
  show "m_known_strings (sortEntries P) = sort (m_known_strings P)" by (simp add: sortEntries_def Let_def)
qed

section \<open>Any sequence of strings\<close>

fun addStrings :: "text_bytes list \<Rightarrow> indexed_packer \<Rightarrow> indexed_packer option" where
  "addStrings [] P = Some P"
| "addStrings (s # ss) P = Option.bind (addString s P) (addStrings ss)"

lemma addStrings_ok:
  assumes "index_ok P"
  shows "\<exists>P'. addStrings ss P = Some P' \<and> index_ok P' \<and>
    set (m_known_strings P') = set (m_known_strings P) \<union> to_lower ` set ss"
  using assms
proof (induction ss arbitrary: P)
  case (Cons s ss)
  show ?case
  proof (cases "to_lower s \<in> set (m_known_strings P)")
    case True
    with Cons.IH [OF Cons.prems] addString_known [OF Cons.prems True] show ?thesis by (auto simp: insert_absorb)
  next
    case False
    from addString_unknown [OF Cons.prems False] obtain P1 where
      "addString s P = Some P1" "index_ok P1" "m_known_strings P1 = m_known_strings P @ [to_lower s]" .
    with Cons.IH [of P1] show ?thesis by auto
  qed
qed simp

end
