(* ===== verification/Costume_Properties.thy ===== *)
theory Costume_Properties
  imports Costume_Roundtrip Costume_Index
begin

unbundle bit_operations_syntax

text \<open>The properties of the hash tables, of the packers and of travelling costumes.\<close>

section \<open>Searches that end at the first attempt\<close>

context probing
begin

lemma first_attempt_free:
  assumes "good T" "admissible (length (m_storage T)) k" "hash k 0 \<noteq> 0"
    "\<not> occupied T (bucket (length (m_storage T)) (hash k 0))"
  shows "find_index T k out a5 = Some (0, of_nat (bucket (length (m_storage T)) (hash k 0)), hash k 0)"
proof -
  have lt: "bucket (length (m_storage T)) (hash k 0) < length (m_storage T)"
    using good_place [OF assms(1), of k 0] by (simp add: probe_def)
  then have "stops (bucket (length (m_storage T))) (m_storage T) k (probe (hash k) 0)"
    "outcome (bucket (length (m_storage T))) (m_storage T) (probe (hash k) 0) =
      (0, of_nat (bucket (length (m_storage T)) (hash k 0)), hash k 0)"
    using assms(3,4) by (auto simp: stops_def outcome_def probe_def occupied_def)
  then show ?thesis using find_Some [OF assms(1,2)] by (metis not_less_zero)
qed

end

section \<open>Example tables\<close>

lemma mix_third:
  assumes "a < 2 ^ 32" "b < 2 ^ 32" "c < 2 ^ 32"
  shows "snd (snd (mix (of_nat a, of_nat b, of_nat c))) = of_nat (snd (snd (mix_nat (a, b, c))))"
  by (simp add: mix_of_nat [OF assms])

lemma hash_text_1:
  assumes "p < 2 ^ 32"
  shows "hash_text [x] (of_nat p) = of_nat (hash_nat 1 (unat x) p)"
proof -
  have x: "(ucast x :: u32) = of_nat (unat x)" by (rule word_unat_eq_iff [THEN iffD2]) (simp add: unsigned_ucast_eq unat_of_nat)
  have a: "(of_nat 2654435769 + of_nat (unat x) :: u32) = of_nat ((2654435769 + unat x) mod 2 ^ 32)"
    unfolding of_nat_mod_32 by simp
  have c: "(of_nat p + 1 :: u32) = of_nat ((p + 1) mod 2 ^ 32)" unfolding of_nat_mod_32 by simp
  have b: "(0x9e3779b9 :: u32) = of_nat 2654435769" by simp
  have e: "hash_text [x] (of_nat p) = snd (snd (mix (0x9e3779b9 + ucast x, 0x9e3779b9, of_nat p + 1)))"
    unfolding hash_text_def jenkins_hash_def jenkins_rest_def
    by (simp add: jenkins_blocks.simps shifted_byte_def Let_def case_prod_beta)
  show ?thesis unfolding e x b a c hash_nat_def by (rule mix_third) (simp_all only: mod_less_divisor zero_less_numeral zero_less_power, simp)
qed

definition empty_names :: string_table where
  "empty_names = \<lparr>m_storage = replicate 4 (fresh_entry ([], [])), in_use = 0, m_flags = 0x3D\<rparr>"

definition name_entry :: "(text_bytes, text_bytes) hash_entry" where
  "name_entry = \<lparr>key_hash = 2707508045, stored_key = [65], stored_val = [], entry_flags = 0\<rparr>"

definition one_name :: string_table where
  "one_name = occupy 1 name_entry empty_names"

definition empty_colors :: color_table where
  "empty_colors = \<lparr>m_storage = replicate 11 (fresh_entry (0, 0)), in_use = 0, m_flags = 0\<rparr>"

definition color_entry :: "(u32, u32) hash_entry" where
  "color_entry = \<lparr>key_hash = 1210817346, stored_key = 5, stored_val = 5, entry_flags = 0\<rparr>"

definition one_color :: color_table where
  "one_color = occupy 2 color_entry empty_colors"

definition example_packer :: hash_packer where
  "example_packer = \<lparr>m_strings = one_name, m_colors = one_color\<rparr>"

lemma hash_A: "text_hash [65] 0 = 2707508045"
  using hash_text_1 [of 0 65] by (simp add: text_hash_def to_upper_def to_upper_byte_def hash_nat_eval)

lemma hash_B: "text_hash [66] 0 = 2618250590"
  using hash_text_1 [of 0 66] by (simp add: text_hash_def to_upper_def to_upper_byte_def hash_nat_eval)

lemma hash_5: "hash_number 5 0 = 1210817346"
  using hash_number_nat [of 5 0] by (simp add: hash_nat_eval)

lemma empty_names_ok: "text_map.table_ok empty_names" "table_map empty_names = Map.empty"
  using text_map.empty_table [of "empty_names :: string_table" 4 "([], [])"]
  by (simp_all add: empty_names_def resize_storage_def text_flags_def SINGLE_BYTE_def HAS_KEY_NAMES_def
      CHECK_COLLISIONS_def SKIP_CLASHES_def)

lemma one_name_ok:
  "text_map.table_ok one_name" "table_map one_name = [[65] \<mapsto> []]" "length (m_storage one_name) = 4"
proof -
  have len: "length (m_storage empty_names) = 4" by (simp add: empty_names_def)
  have "text_bucket 4 2707508045 = 1" by (simp add: text_bucket_def)
  then have f: "text_find_index empty_names [65] (0, 0) True = Some (0, 1, 2707508045)"
    using text_map.first_attempt_free [of empty_names "[65]" "(0, 0)" True] empty_names_ok(1) len
    by (simp add: text_map.table_ok_def hash_A text_admissible_def occupied_def empty_names_def fresh_entry_def)
  note o = text_map.table_ok_occupy [OF empty_names_ok(1), where e = name_entry]
  show "text_map.table_ok one_name" "table_map one_name = [[65] \<mapsto> []]"
    using o(1,2) [of "(0, 0)" True 1 2707508045] f empty_names_ok(2)
    by (simp_all add: name_entry_def one_name_def text_admissible_def)
  show "length (m_storage one_name) = 4" by (simp add: one_name_def len)
qed

lemma empty_colors_ok: "number_map.table_ok empty_colors" "table_map empty_colors = Map.empty"
  using number_map.empty_table [of "empty_colors :: color_table" 11 "(0, 0)"]
  by (simp_all add: empty_colors_def resize_storage_def any_flags_def)

lemma one_color_ok: "number_map.table_ok one_color" "table_map one_color = [5 \<mapsto> 5]"
proof -
  have len: "length (m_storage empty_colors) = 11" by (simp add: empty_colors_def)
  have b: "number_bucket 11 1210817346 = 2" by (simp add: number_bucket_def)
  have f: "number_find_index empty_colors 5 (0, 0) True = Some (0, 2, 1210817346)"
    using number_map.first_attempt_free [of empty_colors 5 "(0, 0)" True] empty_colors_ok(1) len b
    by (simp add: number_map.table_ok_def hash_5 number_admissible_def occupied_def empty_colors_def fresh_entry_def)
  note o = number_map.table_ok_occupy [OF empty_colors_ok(1), where e = color_entry]
  show "number_map.table_ok one_color" "table_map one_color = [5 \<mapsto> 5]"
    using o(1,2) [of "(0, 0)" True 2 1210817346] f empty_colors_ok(2) len b
    by (simp_all add: color_entry_def one_color_def number_admissible_def hash_5)
qed

lemma example_packer_ok: "packer_ok example_packer"
  by (simp add: packer_ok_def example_packer_def one_name_ok one_color_ok)

lemma example_known:
  "name_cached example_packer []" "name_cached example_packer [65]" "color_known example_packer 0" "color_known example_packer 5"
proof -
  have "occupied one_color 2" "key_at one_color 2 = 5"
    by (simp_all add: one_color_def occupied_def key_at_def entry_occupy empty_colors_def color_entry_def)
  then have "number_find_index one_color 5 (0, 0) False = Some (1, 2, key_hash (m_storage one_color ! 2))"
    using number_map.find_stored [OF one_color_ok(1), of 2 "(0, 0)" False] by simp
  then show "color_known example_packer 5"
    by (simp add: color_known_def example_packer_def one_color_ok color_number_def cached_index_def mask_eq_exp_minus_1)
qed (simp_all add: name_cached_def color_known_def example_packer_def one_name_ok)

section \<open>The hash tables\<close>

text \<open>C9. Searching the probe sequence of a name is the same as looking through all entries: whenever some
  attempt ends the search, \<open>find_index\<close> returns, and reports "found" exactly for the names that the
  table holds, with the place of the name; it reads nothing outside the storage.\<close>

theorem search_is_lookup:
  assumes "text_map.table_ok T" "length k < 0x1000"
    and "stops (text_bucket (length (m_storage T))) (m_storage T) k (probe (text_hash k) n)"
  shows "\<exists>r idx p. text_find_index T k out a5 = Some (r, idx, p) \<and>
    (if r = 1 then table_map T k \<noteq> None \<and> key_at T (unat idx) = k else table_map T k = None)"
proof -
  have good: "text_map.good T" using assms(1) by (simp add: text_map.table_ok_def)
  have adm: "text_admissible (length (m_storage T)) k" using assms(2) by (simp add: text_admissible_def)
  obtain r idx p where f: "text_find_index T k out a5 = Some (r, idx, p)"
    using text_map.find_returns_iff [OF good adm, of out a5] assms(3) by (cases "text_find_index T k out a5") auto
  moreover have "key_at T (unat idx) = k" if "r = 1"
    using text_map.find_found(2) [OF good adm f] that by simp
  ultimately show ?thesis using text_map.find_is_member [OF assms(1) adm f] by auto
qed

theorem search_is_lookup_witness:
  "\<exists>r idx p. text_find_index one_name [65] (0, 0) False = Some (r, idx, p) \<and>
    (if r = 1 then table_map one_name [65] \<noteq> None \<and> key_at one_name (unat idx) = [65] else table_map one_name [65] = None)"
proof -
  have "stops (text_bucket (length (m_storage one_name))) (m_storage one_name) [65] (probe (text_hash [65]) 0)"
    by (simp add: stops_def probe_def hash_A one_name_ok(3) text_bucket_def)
      (simp add: one_name_def entry_occupy empty_names_def name_entry_def)
  from search_is_lookup [OF one_name_ok(1) _ this, of "(0, 0)" False] show ?thesis by simp
qed

text \<open>C10. Below the watermark, inserting a name whose search ends is the update of a finite map: the table
  stays well formed, a name that is there already changes nothing, a new one is added with its value, and
  the place returned is the one under which \<open>key_for_idx\<close> finds it.\<close>

theorem insert_is_update:
  assumes "text_map.table_ok T" "length k < 0x1000" "in_use T < length (m_storage T) * 3 div 4"
    and "stops (text_bucket (length (m_storage T))) (m_storage T) k (probe (text_hash k) n)"
  shows "\<exists>T' r. insert_entry text_find_index text_next_size mem locals k v T = Some (T', r) \<and> text_map.table_ok T' \<and>
    (case r of None \<Rightarrow> table_map T' = table_map T
     | Some j \<Rightarrow> table_map T k = None \<and> table_map T' = (table_map T)(k \<mapsto> v) \<and> key_for_idx T' (int j + 1) = Some k)"
proof -
  have good: "text_map.good T" using assms(1) by (simp add: text_map.table_ok_def)
  have adm: "text_admissible n k" for n using assms(2) by (simp add: text_admissible_def)
  have "\<not> in_use T \<ge> length (m_storage T) * 3 div 4" "\<not> in_use T \<ge> length (m_storage T)" using assms(3) by linarith+
  note small = this
  obtain res idx p where f: "text_find_index T k (0, 0) True = Some (res, idx, p)"
    using text_map.find_returns_iff [OF good adm, of "(0, 0)" True] assms(4)
    by (cases "text_find_index T k (0, 0) True") auto
  show ?thesis
  proof (cases "res = 0")
    case False
    with f small assms(1) show ?thesis by (auto simp: insert_entry_def Let_def)
  next
    case True
    let ?e = "(m_storage T ! unat idx)\<lparr>stored_key := k, stored_val := v, key_hash := p\<rparr>"
    have lt: "unat idx < length (m_storage T)" and nz: "p \<noteq> 0"
      using text_map.find_free [OF good adm f [unfolded True]] by metis+
    have fl: "entry_flags ?e = 0" using good lt by (auto simp: text_map.good_def)
    have f0: "text_find_index T (stored_key ?e) (0, 0) True = Some (0, idx, p)" using f True by simp
    note st = text_map.table_ok_occupy [OF assms(1) _ f0 _ fl, simplified, OF adm]
    have "insert_entry text_find_index text_next_size mem locals k v T = Some (occupy (unat idx) ?e T, Some (unat idx))"
      using f small True lt by (simp add: insert_entry_def Let_def occupy_def)
    moreover have "key_for_idx (occupy (unat idx) ?e T) (int (unat idx) + 1) = Some k"
      unfolding key_for_place using lt nz by (simp add: entry_occupy)
    ultimately show ?thesis using st by (intro exI conjI) auto
  qed
qed

theorem insert_is_update_witness:
  "\<exists>T' r. insert_entry text_find_index text_next_size ([], []) (7, 7) [66] [] one_name = Some (T', r) \<and>
    text_map.table_ok T' \<and>
    (case r of None \<Rightarrow> table_map T' = table_map one_name
     | Some j \<Rightarrow> table_map one_name [66] = None \<and> table_map T' = (table_map one_name)([66] \<mapsto> []) \<and>
        key_for_idx T' (int j + 1) = Some [66])"
proof -
  have "stops (text_bucket (length (m_storage one_name))) (m_storage one_name) [66] (probe (text_hash [66]) 0)"
    by (simp add: stops_def probe_def hash_B one_name_ok(3) text_bucket_def)
      (simp add: one_name_def entry_occupy empty_names_def fresh_entry_def name_entry_def eval_nat_numeral)
  moreover have "in_use one_name < length (m_storage one_name) * 3 div 4"
    unfolding one_name_ok(3) by (simp add: one_name_def empty_names_def)
  ultimately show ?thesis using insert_is_update [OF one_name_ok(1), of "[66]" 0 "([], [])" "(7, 7)" "[]"] by simp
qed

text \<open>\<open>find_index\<close> of the text map refuses names of 4096 bytes and more with the code for "not in the table"
  and sets no place; the insertion takes the initial values of its variables for a place and wipes out
  whatever the first entry of the table held.\<close>

theorem long_name_erases_first:
  assumes "m_flags T AND SINGLE_BYTE \<noteq> 0" "0x1000 \<le> length k" "in_use T < length (m_storage T) * 3 div 4"
  shows "\<exists>T'. insert_entry text_find_index text_next_size mem locals k v T = Some (T', Some 0) \<and>
    key_for_idx T' 1 = None \<and> in_use T' = in_use T + 1"
proof -
  have "\<not> in_use T \<ge> length (m_storage T) * 3 div 4" "\<not> in_use T \<ge> length (m_storage T)" "0 < length (m_storage T)"
    using assms(3) by linarith+
  with assms show ?thesis
    by (auto simp: insert_entry_def Let_def text_find_index_def key_for_idx_def)
qed

theorem long_name_erases_first_witness:
  "\<exists>T'. insert_entry text_find_index text_next_size ([], []) (7, 7) (replicate 4096 65) [] one_name = Some (T', Some 0) \<and>
    key_for_idx T' 1 = None \<and> in_use T' = in_use one_name + 1"
  by (rule long_name_erases_first)
    (simp_all only: length_replicate one_name_ok(3),
     simp_all add: one_name_def empty_names_def SINGLE_BYTE_def)

section \<open>Costumes in a stream\<close>

text \<open>C8. A costume whose names and colours are in the tables of the packer arrives as it was sent: body,
  scales, colours and, part by part, the names; the last three names of a part travel only with full
  costumes, and the receiver numbers the parts in their order.\<close>

theorem costume_roundtrip:
  assumes "packer_ok P" "m_parts c \<noteq> []" "\<forall>p \<in> set (m_parts c). part_known P (m_send_full_costume c) p"
    and "0 < n" "n < 1000000" "297 + 776 * length (m_parts c) \<le> 8 * n"
  shows "\<exists>s1 s2. serializeto_costume P c (new_stream fresh n) = Some s1 \<and>
    serializefrom_costume P tgt s1 = Some (received_costume tgt c, s2) \<and> contents s2 = []"
proof (rule writer_reader [OF writes_costume [OF assms(1,3,2)] reads_costume [OF assms(1,3)] assms(4,5)])
  show "length (m_parts c) < 2 ^ 31" using assms(5,6) by simp
  show "message_size (costume_fields P c) + 8 \<le> 8 * n" using message_size_costume [of P c] assms(6) by linarith
qed

definition example_costume_part :: costume_part where
  "example_costume_part = \<lparr>m_geometry = [65], m_texture_1 = [], m_texture_2 = [65], name_3 = [], name_4 = [65], name_5 = [],
     m_color_0 = 5, m_color_1 = 0, m_type = 3, m_full_part = False\<rparr>"

definition example_costume :: costume where
  "example_costume = \<lparr>m_index = 0, m_character_id = 1, m_height = 7, m_physique = 9, m_body_type = 4,
     m_skin_color = 0xFF00FF, m_send_full_costume = True, m_num_parts = 2, m_parts = [example_costume_part, example_costume_part]\<rparr>"

theorem costume_roundtrip_witness:
  "\<exists>s1 s2. serializeto_costume example_packer example_costume (new_stream (\<lambda>_. 205) 512) = Some s1 \<and>
    serializefrom_costume example_packer (example_costume\<lparr>m_parts := [], m_height := 0\<rparr>) s1 =
      Some (example_costume\<lparr>m_parts :=
        [example_costume_part\<lparr>m_type := 0, m_full_part := True\<rparr>, example_costume_part\<lparr>m_type := 1, m_full_part := True\<rparr>]\<rparr>, s2) \<and>
    contents s2 = []"
proof -
  have "part_known example_packer True example_costume_part"
    by (simp add: part_known_def example_costume_part_def example_known)
  moreover have "received_costume (example_costume\<lparr>m_parts := [], m_height := 0\<rparr>) example_costume =
      example_costume\<lparr>m_parts :=
        [example_costume_part\<lparr>m_type := 0, m_full_part := True\<rparr>, example_costume_part\<lparr>m_type := 1, m_full_part := True\<rparr>]\<rparr>"
    by (simp add: received_costume_def arrived_part_def example_costume_def)
  ultimately show ?thesis
    using costume_roundtrip [OF example_packer_ok, of example_costume 512 "\<lambda>_. 205" "example_costume\<lparr>m_parts := [], m_height := 0\<rparr>"]
    by (simp add: example_costume_def)
qed

text \<open>C36. \<open>packPartname\<close> takes any place but the first for a hit, also the free place that \<open>find_index\<close> reports
  for a name it does not know: such a name is never sent as a text, and the receiver gets another name,
  or none.\<close>

theorem unknown_name_misread:
  assumes "packer_ok P" "str \<noteq> []" "table_map (m_strings P) str = None"
    and "text_find_index (m_strings P) str (0, 0) False = Some (0, idx, p)" "idx \<noteq> 0"
    and "0 < n" "n < 1000000" "105 \<le> 8 * n"
  shows "\<exists>s1 s2 got. packPartname P str (new_stream fresh n) = Some s1 \<and> unpackPartname P s1 = Some (got, s2) \<and> got \<noteq> str"
proof -
  let ?got = "case key_for_idx (m_strings P) (sint idx) of Some kv \<Rightarrow> kv | None \<Rightarrow> []"
  have "packPartname P str = (\<lambda>s. Option.bind (StoreBits 1 1 s) (StorePackedBits 12 idx))"
    using assms(2,4,5) by (auto simp: packPartname_def cached_index_def fun_eq_iff stringcachecount_bitlength_def)
  then have w: "writes (packPartname P str) ([Bits 1 1] @ [Packed 12 idx])"
    by (simp only:) (rule writes_bind [OF writes_one writes_packed]; simp)
  have r: "reads (unpackPartname P) ([Bits 1 1] @ [Packed 12 idx]) ?got"
    unfolding unpackPartname_def
    by (rule reads_bind [OF reads_one])
      (simp add: stringcachecount_bitlength_def reads_packed
        reads_map [where f = "\<lambda>i. case key_for_idx (m_strings P) (sint i) of Some kv \<Rightarrow> kv | None \<Rightarrow> []"])
  have "key_for_idx (m_strings P) i \<noteq> Some str" for i
    using assms(3) by (auto simp: table_map_None occupied_def key_at_def key_for_idx_def Let_def nat_less_iff
        split: if_splits dest!: spec [of _ "nat (i - 1)"])
  then have "?got \<noteq> str" using assms(2) by (auto split: option.splits)
  with writer_reader [OF w r assms(6,7)] assms(8) show ?thesis by fastforce
qed

theorem unknown_name_misread_witness:
  "\<exists>s1 s2 got. packPartname example_packer [66] (new_stream (\<lambda>_. 205) 16) = Some s1 \<and>
    unpackPartname example_packer s1 = Some (got, s2) \<and> got \<noteq> [66]"
proof -
  have b: "text_bucket 4 2618250590 = 2" by (simp add: text_bucket_def)
  have "text_find_index one_name [66] (0, 0) False = Some (0, 2, 2618250590)"
    using text_map.first_attempt_free [of one_name "[66]" "(0, 0)" False] one_name_ok(1,3) b
    by (simp add: text_map.table_ok_def hash_B text_admissible_def)
      (simp add: one_name_def occupied_def entry_occupy empty_names_def fresh_entry_def)
  then show ?thesis
    by (intro unknown_name_misread [OF example_packer_ok, where idx = 2 and p = 2618250590])
      (simp_all add: example_packer_def one_name_ok(2))
qed

section \<open>The numbers of known strings\<close>

text \<open>Whatever strings are added, in whatever order and spelling, sorting the entries leaves each of them,
  in lower case, exactly once, in order, and \<open>getIndex\<close> is the inverse of the list: the place of a string
  counted from 1, and 0 for a string that was never added. The assertion of \<open>addString\<close> never fails.\<close>

theorem known_strings_numbered:
  shows "\<exists>P. addStrings strs new_indexed_packer = Some P \<and>
    m_known_strings (sortEntries P) = sorted_list_of_set (to_lower ` set strs) \<and>
    (\<forall>s i. getIndex (sortEntries P) s = i + 1 \<longleftrightarrow>
      i < card (to_lower ` set strs) \<and> sorted_list_of_set (to_lower ` set strs) ! i = to_lower s)"
proof -
  obtain P where P: "addStrings strs new_indexed_packer = Some P" "index_ok P"
    "set (m_known_strings P) = to_lower ` set strs"
    using addStrings_ok [OF index_ok_new, of strs] by (auto simp: new_indexed_packer_def)
  have d: "distinct (m_known_strings P)" by (rule index_ok_distinct [OF P(2)])
  have known: "m_known_strings (sortEntries P) = sorted_list_of_set (to_lower ` set strs)"
    using sortEntries_ok(2) [OF P(2)] d by (simp add: sorted_list_of_set_sort_remdups distinct_remdups_id flip: P(3))
  have "getIndex (sortEntries P) s = i + 1 \<longleftrightarrow>
      i < card (to_lower ` set strs) \<and> sorted_list_of_set (to_lower ` set strs) ! i = to_lower s" for s i
  proof -
    have "m_string_to_index (sortEntries P) (to_lower s) = Some (i + 1) \<longleftrightarrow>
        i < card (to_lower ` set strs) \<and> sorted_list_of_set (to_lower ` set strs) ! i = to_lower s"
      using sortEntries_ok(1) [OF P(2)] unfolding index_ok_def known by (simp add: Suc_le_eq)
    then show ?thesis by (auto simp: getIndex_def at_default_def split: option.splits)
  qed
  with P(1) known show ?thesis by blast
qed

theorem known_strings_numbered_witness:
  "\<exists>P. addStrings [[66], [97, 66], [65, 98]] new_indexed_packer = Some P \<and>
    m_known_strings (sortEntries P) = [[97, 98], [98]] \<and> getIndex (sortEntries P) [66] = 2"
proof -
  have s: "to_lower ` set [[66], [97, 66], [65, 98]] = {[98], [97, 98]}"
    by (auto simp: to_lower_def to_lower_byte_def)
  have l: "sorted_list_of_set {[98 :: u8], [97, 98]} = [[97, 98], [98]]"
    by (rule sorted_list_of_set_unique [THEN iffD1]) (auto simp: strict_sorted_iff)
  have c: "card {[98 :: u8], [97, 98]} = 2" by simp
  from known_strings_numbered [of "[[66], [97, 66], [65, 98]]"] obtain P where P:
    "addStrings [[66], [97, 66], [65, 98]] new_indexed_packer = Some P"
    "m_known_strings (sortEntries P) = [[97, 98], [98]]"
    "\<And>s i. getIndex (sortEntries P) s = i + 1 \<longleftrightarrow> i < 2 \<and> [[97, 98], [98]] ! i = to_lower s"
    unfolding s l c by blast
  have "getIndex (sortEntries P) [66] = 2" using P(3) [of "[66]" 1] by (simp add: to_lower_def to_lower_byte_def)
  with P(1,2) show ?thesis by blast
qed

end
