(* ===== verification/Event_Bus.thy ===== *)
theory Event_Bus
  imports Prelude
begin

text \<open>
  The event system that every service runs on: reference counted events (\<^verbatim>\<open>Components/SEGSEvent.h\<close>),
  processors with a message queue and timers (\<^verbatim>\<open>Components/EventProcessor.cpp\<close>, \<^verbatim>\<open>SEGSTimer.cpp\<close>), and
  the message bus with its endpoints (\<^verbatim>\<open>Common/Servers/MessageBus.cpp\<close>, \<^verbatim>\<open>MessageBusEndpoint.cpp\<close>).

  Events live in a heap, since one event is in the queues of all its receivers; an address without
  an event is one that has been deleted. Processor 0 is the bus. What the other processors do in
  their virtual \<open>dispatch\<close> and in timer callbacks is an argument: a function from the event and the
  local state to a new local state and a list of requests to the event system.

  A turn of a processor is atomic: the queue of ACE is locked, the rest of a turn is not. Timers
  live in the timer queue of ACE, which is modelled by its documented behaviour: \<open>schedule\<close> gives a
  new tid, an entry fires once or repeatedly until it is cancelled.

  \<open>None\<close> is a failed \<open>assert\<close>, or an access through a pointer to something deleted.
\<close>

definition evFinish :: u32 where "evFinish = 0"
definition evConnect :: u32 where "evConnect = 1"
definition evDisconnect :: u32 where "evDisconnect = 2"
definition evTimeout :: u32 where "evTimeout = 3"
definition ALL_EVENTS :: u32 where "ALL_EVENTS = NOT 0"

section \<open>State\<close>

datatype 'p event_data = No_data | Timeout_data int u32 | Event_data 'p

record 'p event =
  m_type_id :: u32
  m_ref_count :: int
  ev_data :: "'p event_data"

record 'c timer =
  m_id :: int
  m_target :: "nat option"
  m_fire_delta_time :: int
  m_one_shot :: bool
  m_callback :: "'c option"

record 'c processor =
  msg_queue :: "nat list"
  m_registered_timers :: "u32 \<Rightarrow> 'c timer option"
  m_next_timer_id :: u32
  thr_count :: nat

record endpoint =
  m_true_handler :: nat
  m_active_subscriptions :: "u32 list"

text \<open>An entry of the timer queue: the processor and the number of the timer, and whether it fires once.\<close>

record ('p, 'c, 'l) world =
  event_heap :: "nat \<Rightarrow> 'p event option"
  next_addr :: nat
  processors :: "'c processor list"
  local_state :: "nat \<Rightarrow> 'l"
  endpoints :: "nat \<Rightarrow> endpoint option"
  m_catch_all_subscribers :: "nat list"
  m_specific_subscriber_map :: "u32 \<Rightarrow> nat list option"
  timer_queue :: "int \<Rightarrow> (nat \<times> u32 \<times> bool) option"
  next_schedule_id :: int

text \<open>The one static event, \<open>Finish::s_instance\<close>, is at address 0.\<close>

definition finish_instance :: nat where "finish_instance = 0"

definition the_bus :: nat where "the_bus = 0"

section \<open>Events\<close>

definition new_event :: "u32 \<Rightarrow> 'p event_data \<Rightarrow> ('p, 'c, 'l) world \<Rightarrow> nat \<times> ('p, 'c, 'l) world" where
  "new_event ty d w = (next_addr w,
     w\<lparr>event_heap := (event_heap w)(next_addr w \<mapsto> \<lparr>m_type_id = ty, m_ref_count = 1, ev_data = d\<rparr>),
       next_addr := next_addr w + 1\<rparr>)"

definition shallow_copy :: "nat \<Rightarrow> ('p, 'c, 'l) world \<Rightarrow> ('p, 'c, 'l) world option" where
  "shallow_copy a w = (case event_heap w a of None \<Rightarrow> None
     | Some e \<Rightarrow> Some (w\<lparr>event_heap := (event_heap w)(a \<mapsto> e\<lparr>m_ref_count := m_ref_count e + 1\<rparr>)\<rparr>))"

definition release :: "nat \<Rightarrow> ('p, 'c, 'l) world \<Rightarrow> ('p, 'c, 'l) world option" where
  "release a w = (case event_heap w a of None \<Rightarrow> None
     | Some e \<Rightarrow> Some (w\<lparr>event_heap := (event_heap w)(a :=
         if m_ref_count e - 1 = 0 then None else Some (e\<lparr>m_ref_count := m_ref_count e - 1\<rparr>))\<rparr>))"

section \<open>Queues and timers of a processor\<close>

definition update_processor :: "nat \<Rightarrow> ('c processor \<Rightarrow> 'c processor) \<Rightarrow> ('p, 'c, 'l) world \<Rightarrow> ('p, 'c, 'l) world" where
  "update_processor p f w = w\<lparr>processors := (processors w)[p := f (processors w ! p)]\<rparr>"

definition event_putq :: "nat \<Rightarrow> nat \<Rightarrow> ('p, 'c, 'l) world \<Rightarrow> ('p, 'c, 'l) world option" where
  "event_putq p a w = (if p < length (processors w)
     then Some (update_processor p (\<lambda>q. q\<lparr>msg_queue := msg_queue q @ [a]\<rparr>) w) else None)"

definition new_timer :: "int \<Rightarrow> bool \<Rightarrow> 'c timer" where
  "new_timer delta one_shot = \<lparr>m_id = -1, m_target = None, m_fire_delta_time = delta, m_one_shot = one_shot, m_callback = None\<rparr>"

text \<open>\<open>emplace\<close> leaves a timer that has the number already.\<close>

definition addTimer :: "nat \<Rightarrow> int \<Rightarrow> bool \<Rightarrow> ('p, 'c, 'l) world \<Rightarrow> u32 \<times> ('p, 'c, 'l) world" where
  "addTimer p delta one_shot w = (let tid = m_next_timer_id (processors w ! p) in (tid,
     update_processor p (\<lambda>q. q\<lparr>m_next_timer_id := tid + 1,
       m_registered_timers := (if m_registered_timers q tid = None
         then (m_registered_timers q)(tid \<mapsto> new_timer delta one_shot) else m_registered_timers q)\<rparr>) w))"

definition access_timer :: "nat \<Rightarrow> u32 \<Rightarrow> ('p, 'c, 'l) world \<Rightarrow> 'c timer option" where
  "access_timer p tid w = (if p < length (processors w) then m_registered_timers (processors w ! p) tid else None)"

definition store_timer :: "nat \<Rightarrow> u32 \<Rightarrow> 'c timer \<Rightarrow> ('p, 'c, 'l) world \<Rightarrow> ('p, 'c, 'l) world" where
  "store_timer p tid t = update_processor p (\<lambda>q. q\<lparr>m_registered_timers := (m_registered_timers q)(tid \<mapsto> t)\<rparr>)"

text \<open>\<open>SEGSTimer::start\<close> of timer \<open>tid\<close>: the timer queue takes it and gives it a new id.\<close>

definition timer_start :: "nat \<Rightarrow> u32 \<Rightarrow> 'c option \<Rightarrow> ('p, 'c, 'l) world \<Rightarrow> ('p, 'c, 'l) world option" where
  "timer_start p tid cb w = do {
     t \<leftarrow> access_timer p tid w;
     if m_id t \<noteq> -1 then None
     else Some (store_timer p tid (t\<lparr>m_callback := cb, m_id := next_schedule_id w\<rparr>)
       (w\<lparr>timer_queue := (timer_queue w)(next_schedule_id w \<mapsto> (p, tid, m_one_shot t)),
          next_schedule_id := next_schedule_id w + 1\<rparr>)) }"

definition timer_cancel :: "nat \<Rightarrow> u32 \<Rightarrow> ('p, 'c, 'l) world \<Rightarrow> ('p, 'c, 'l) world option" where
  "timer_cancel p tid w = do {
     t \<leftarrow> access_timer p tid w;
     Some (store_timer p tid (t\<lparr>m_id := -1\<rparr>)
       (if m_id t \<noteq> -1 then w\<lparr>timer_queue := (timer_queue w)(m_id t := None)\<rparr> else w)) }"

definition timer_reset :: "nat \<Rightarrow> u32 \<Rightarrow> ('p, 'c, 'l) world \<Rightarrow> ('p, 'c, 'l) world option" where
  "timer_reset p tid w = do {
     w \<leftarrow> timer_cancel p tid w;
     t \<leftarrow> access_timer p tid w;
     timer_start p tid (m_callback t) w }"

definition timer_reschedule :: "nat \<Rightarrow> u32 \<Rightarrow> int \<Rightarrow> ('p, 'c, 'l) world \<Rightarrow> ('p, 'c, 'l) world option" where
  "timer_reschedule p tid new_time w = do {
     w \<leftarrow> timer_cancel p tid w;
     t \<leftarrow> access_timer p tid w;
     timer_start p tid (m_callback t) (store_timer p tid (t\<lparr>m_fire_delta_time := new_time\<rparr>) w) }"

definition startTimer :: "nat \<Rightarrow> u32 \<Rightarrow> 'c \<Rightarrow> ('p, 'c, 'l) world \<Rightarrow> ('p, 'c, 'l) world option" where
  "startTimer p tid cb w = do {
     t \<leftarrow> access_timer p tid w;
     if m_id t \<noteq> -1 then None
     else timer_start p tid (Some cb) (store_timer p tid (t\<lparr>m_target := Some p\<rparr>) w) }"

text \<open>The destructor of the timer cancels it.\<close>

definition removeTimer :: "nat \<Rightarrow> u32 \<Rightarrow> ('p, 'c, 'l) world \<Rightarrow> ('p, 'c, 'l) world option" where
  "removeTimer p tid w = do {
     w \<leftarrow> timer_cancel p tid w;
     Some (update_processor p (\<lambda>q. q\<lparr>m_registered_timers := (m_registered_timers q)(tid := None)\<rparr>) w) }"

text \<open>An entry of the timer queue becomes due.\<close>

definition handle_timeout :: "int \<Rightarrow> int \<Rightarrow> ('p, 'c, 'l) world \<Rightarrow> ('p, 'c, 'l) world option" where
  "handle_timeout sched current_time w = (case timer_queue w sched of None \<Rightarrow> Some w
     | Some (p, tid, one_shot) \<Rightarrow> do {
         t \<leftarrow> access_timer p tid w;
         let w = (if one_shot then w\<lparr>timer_queue := (timer_queue w)(sched := None)\<rparr> else w);
         case m_target t of None \<Rightarrow> Some w
         | Some target \<Rightarrow> (let (a, w) = new_event evTimeout (Timeout_data current_time tid) w in event_putq target a w) })"

section \<open>The bus\<close>

text \<open>Swap and pop.\<close>

definition removeEndpointFromUnorderedVector :: "'a \<Rightarrow> 'a list \<Rightarrow> 'a list" where
  "removeEndpointFromUnorderedVector x vec = (let i = length (takeWhile (\<lambda>y. y \<noteq> x) vec)
     in if i < length vec then butlast (vec[i := last vec, length vec - 1 := vec ! i]) else vec)"

definition bus_subscribe :: "u32 \<Rightarrow> nat \<Rightarrow> ('p, 'c, 'l) world \<Rightarrow> ('p, 'c, 'l) world" where
  "bus_subscribe ty ep w =
    (if ty = ALL_EVENTS then w\<lparr>m_catch_all_subscribers := m_catch_all_subscribers w @ [ep]\<rparr>
     else w\<lparr>m_specific_subscriber_map := (m_specific_subscriber_map w)(ty \<mapsto>
       (case m_specific_subscriber_map w ty of Some eps \<Rightarrow> eps | None \<Rightarrow> []) @ [ep])\<rparr>)"

definition bus_unsubscribe :: "u32 \<Rightarrow> nat \<Rightarrow> ('p, 'c, 'l) world \<Rightarrow> ('p, 'c, 'l) world" where
  "bus_unsubscribe ty ep w =
    (if ty = ALL_EVENTS
     then w\<lparr>m_catch_all_subscribers := removeEndpointFromUnorderedVector ep (m_catch_all_subscribers w)\<rparr>
     else case m_specific_subscriber_map w ty of None \<Rightarrow> w
       | Some eps \<Rightarrow> w\<lparr>m_specific_subscriber_map :=
           (m_specific_subscriber_map w)(ty \<mapsto> removeEndpointFromUnorderedVector ep eps)\<rparr>)"

fun publish_to :: "nat list \<Rightarrow> nat \<Rightarrow> ('p, 'c, 'l) world \<Rightarrow> ('p, 'c, 'l) world option" where
  "publish_to [] ev w = Some w"
| "publish_to (ep # eps) ev w = do {
     h \<leftarrow> endpoints w ep;
     w \<leftarrow> shallow_copy ev w;
     w \<leftarrow> event_putq (m_true_handler h) ev w;
     publish_to eps ev w }"

definition do_publish :: "nat \<Rightarrow> ('p, 'c, 'l) world \<Rightarrow> ('p, 'c, 'l) world option" where
  "do_publish ev w = do {
     e \<leftarrow> event_heap w ev;
     if m_ref_count e \<noteq> 1 then None
     else do {
       w \<leftarrow> publish_to (m_catch_all_subscribers w) ev w;
       case m_specific_subscriber_map w (m_type_id e) of None \<Rightarrow> Some w
       | Some eps \<Rightarrow> publish_to eps ev w } }"

definition postGlobalEvent :: "nat \<Rightarrow> ('p, 'c, 'l) world \<Rightarrow> ('p, 'c, 'l) world option" where
  "postGlobalEvent a w = event_putq the_bus a w"

definition shutdown_event_processor :: "nat \<Rightarrow> ('p, 'c, 'l) world \<Rightarrow> ('p, 'c, 'l) world option" where
  "shutdown_event_processor p w =
    (if p < length (processors w) \<and> thr_count (processors w ! p) \<noteq> 0
     then Option.bind (shallow_copy finish_instance w) (event_putq p finish_instance)
     else Some w)"

section \<open>Endpoints\<close>

definition subscribe :: "nat \<Rightarrow> u32 \<Rightarrow> ('p, 'c, 'l) world \<Rightarrow> ('p, 'c, 'l) world option" where
  "subscribe ep ty w = do {
     h \<leftarrow> endpoints w ep;
     Some ((bus_subscribe ty ep w)\<lparr>endpoints := (endpoints w)(ep \<mapsto>
       h\<lparr>m_active_subscriptions := m_active_subscriptions h @ [ty]\<rparr>)\<rparr>) }"

definition unsubscribe :: "nat \<Rightarrow> u32 \<Rightarrow> ('p, 'c, 'l) world \<Rightarrow> ('p, 'c, 'l) world option" where
  "unsubscribe ep ty w = do {
     h \<leftarrow> endpoints w ep;
     Some ((bus_unsubscribe ty ep w)\<lparr>endpoints := (endpoints w)(ep \<mapsto>
       h\<lparr>m_active_subscriptions := removeEndpointFromUnorderedVector ty (m_active_subscriptions h)\<rparr>)\<rparr>) }"

text \<open>\<open>~MessageBusEndpoint\<close>.\<close>

definition destroy_endpoint :: "nat \<Rightarrow> ('p, 'c, 'l) world \<Rightarrow> ('p, 'c, 'l) world option" where
  "destroy_endpoint ep w = do {
     h \<leftarrow> endpoints w ep;
     Some ((fold (\<lambda>ty. bus_unsubscribe ty ep) (m_active_subscriptions h) w)\<lparr>endpoints := (endpoints w)(ep := None)\<rparr>) }"

section \<open>Turns\<close>

text \<open>What a handler may ask for: a new event for the bus or for a processor, a further reference to
  the event it handles, to put it into another queue or to keep it, subscriptions, timers.\<close>

datatype ('p, 'c) request =
  Post u32 'p | Send nat u32 'p | Forward nat | Keep
  | Subscribe nat u32 | Unsubscribe nat u32 | Destroy nat
  | Add_timer int bool | Start_timer u32 'c | Remove_timer u32 | Reset_timer u32 | Reschedule_timer u32 int

fun exec_request :: "nat \<Rightarrow> nat \<Rightarrow> ('p, 'c) request \<Rightarrow> ('p, 'c, 'l) world \<Rightarrow> ('p, 'c, 'l) world option" where
  "exec_request p ev (Post ty d) w = (let (a, w) = new_event ty (Event_data d) w in postGlobalEvent a w)"
| "exec_request p ev (Send q ty d) w = (let (a, w) = new_event ty (Event_data d) w in event_putq q a w)"
| "exec_request p ev (Forward q) w = Option.bind (shallow_copy ev w) (event_putq q ev)"
| "exec_request p ev Keep w = shallow_copy ev w"
| "exec_request p ev (Subscribe ep ty) w = subscribe ep ty w"
| "exec_request p ev (Unsubscribe ep ty) w = unsubscribe ep ty w"
| "exec_request p ev (Destroy ep) w = destroy_endpoint ep w"
| "exec_request p ev (Add_timer delta one_shot) w = (if p < length (processors w) then Some (snd (addTimer p delta one_shot w)) else None)"
| "exec_request p ev (Start_timer tid cb) w = startTimer p tid cb w"
| "exec_request p ev (Remove_timer tid) w = removeTimer p tid w"
| "exec_request p ev (Reset_timer tid) w = timer_reset p tid w"
| "exec_request p ev (Reschedule_timer tid t) w = timer_reschedule p tid t w"

fun exec_requests :: "nat \<Rightarrow> nat \<Rightarrow> ('p, 'c) request list \<Rightarrow> ('p, 'c, 'l) world \<Rightarrow> ('p, 'c, 'l) world option" where
  "exec_requests p ev [] w = Some w"
| "exec_requests p ev (r # rs) w = Option.bind (exec_request p ev r w) (exec_requests p ev rs)"

text \<open>The behaviour of the services.\<close>

record ('p, 'c, 'l) handlers =
  on_event :: "nat \<Rightarrow> u32 \<Rightarrow> 'p event_data \<Rightarrow> 'l \<Rightarrow> 'l \<times> ('p, 'c) request list"
  on_timer :: "nat \<Rightarrow> 'c \<Rightarrow> int \<Rightarrow> 'l \<Rightarrow> 'l \<times> ('p, 'c) request list"

definition react :: "nat \<Rightarrow> nat \<Rightarrow> 'l \<times> ('p, 'c) request list \<Rightarrow> ('p, 'c, 'l) world \<Rightarrow> ('p, 'c, 'l) world option" where
  "react p ev reaction w =
    exec_requests p ev (snd reaction) (w\<lparr>local_state := (local_state w)(p := fst reaction)\<rparr>)"

text \<open>\<open>dispatch\<close>: the bus publishes, every other processor does what its service does.\<close>

definition dispatch_event :: "('p, 'c, 'l) handlers \<Rightarrow> nat \<Rightarrow> nat \<Rightarrow> ('p, 'c, 'l) world \<Rightarrow> ('p, 'c, 'l) world option" where
  "dispatch_event H p ev w =
    (if p = the_bus then do_publish ev w
     else do {
       e \<leftarrow> event_heap w ev;
       react p ev (on_event H p (m_type_id e) (ev_data e) (local_state w p)) w })"

definition run_timer :: "('p, 'c, 'l) handlers \<Rightarrow> nat \<Rightarrow> nat \<Rightarrow> int \<Rightarrow> u32 \<Rightarrow> ('p, 'c, 'l) world \<Rightarrow> ('p, 'c, 'l) world option" where
  "run_timer H p ev arrival_time tid w = do {
     t \<leftarrow> access_timer p tid w;
     cb \<leftarrow> m_callback t;
     react p ev (on_timer H p cb arrival_time (local_state w p)) w }"

text \<open>One turn of the loop in \<open>svc\<close>, with the events it dispatched. Without a thread or without an
  event nothing happens. \<open>flush\<close> empties the queue; the events in it are not released.\<close>

definition svc_turn :: "('p, 'c, 'l) handlers \<Rightarrow> nat \<Rightarrow> ('p, 'c, 'l) world \<Rightarrow> (('p, 'c, 'l) world \<times> (nat \<times> nat) list) option" where
  "svc_turn H p w =
    (if \<not> p < length (processors w) then Some (w, [])
     else if thr_count (processors w ! p) = 0 then Some (w, [])
     else case msg_queue (processors w ! p) of [] \<Rightarrow> Some (w, [])
     | mb # rest \<Rightarrow> do {
         let w = update_processor p (\<lambda>q. q\<lparr>msg_queue := rest\<rparr>) w;
         e \<leftarrow> event_heap w mb;
         if m_type_id e = evFinish
         then if thr_count (processors w ! p) > 1
              then do {
                w \<leftarrow> event_putq p mb w;
                Some (update_processor p (\<lambda>q. q\<lparr>thr_count := thr_count q - 1\<rparr>) w, []) }
              else do {
                w \<leftarrow> release mb w;
                Some (update_processor p (\<lambda>q. q\<lparr>msg_queue := [], thr_count := 0\<rparr>) w, []) }
         else if m_type_id e = evTimeout
         then (case ev_data e of
             Timeout_data arrival_time tid \<Rightarrow> do {
               w \<leftarrow> run_timer H p mb arrival_time tid w;
               w \<leftarrow> release mb w;
               Some (w, []) }
           | _ \<Rightarrow> None)
         else do {
           w \<leftarrow> dispatch_event H p mb w;
           w \<leftarrow> release mb w;
           Some (w, [(p, mb)]) } })"

text \<open>\<open>process_single_event\<close> of a processor without threads: the world and the return value.\<close>

definition process_single_event :: "('p, 'c, 'l) handlers \<Rightarrow> nat \<Rightarrow> ('p, 'c, 'l) world \<Rightarrow> (('p, 'c, 'l) world \<times> int) option" where
  "process_single_event H p w =
    (if \<not> p < length (processors w) then None
     else if thr_count (processors w ! p) \<noteq> 0 then None
     else case msg_queue (processors w ! p) of [] \<Rightarrow> Some (w, 0)
     | mb # rest \<Rightarrow> do {
         let w = update_processor p (\<lambda>q. q\<lparr>msg_queue := rest\<rparr>) w;
         e \<leftarrow> event_heap w mb;
         if m_type_id e = evFinish then Some (w, -1)
         else do {
           w \<leftarrow> dispatch_event H p mb w;
           w \<leftarrow> release mb w;
           Some (w, 1) } })"

section \<open>Runs\<close>

text \<open>What can happen: a turn of a processor, a timer that becomes due, a request of the main program,
  the end of a processor.\<close>

datatype ('p, 'c) happening =
  Turn nat | Due int int | Main "('p, 'c) request" | Shutdown nat

fun happen :: "('p, 'c, 'l) handlers \<Rightarrow> ('p, 'c) happening \<Rightarrow> ('p, 'c, 'l) world \<Rightarrow> (('p, 'c, 'l) world \<times> (nat \<times> nat) list) option" where
  "happen H (Turn p) w = svc_turn H p w"
| "happen H (Due sched now) w = map_option (\<lambda>w. (w, [])) (handle_timeout sched now w)"
| "happen H (Main r) w = map_option (\<lambda>w. (w, [])) (exec_request the_bus finish_instance r w)"
| "happen H (Shutdown p) w = map_option (\<lambda>w. (w, [])) (shutdown_event_processor p w)"

fun run :: "('p, 'c, 'l) handlers \<Rightarrow> ('p, 'c) happening list \<Rightarrow> ('p, 'c, 'l) world \<Rightarrow> (('p, 'c, 'l) world \<times> (nat \<times> nat) list) option" where
  "run H [] w = Some (w, [])"
| "run H (h # hs) w = do {
     (w, out) \<leftarrow> happen H h w;
     (w, outs) \<leftarrow> run H hs w;
     Some (w, out @ outs) }"

text \<open>The beginning: processors with threads and empty queues, endpoints without subscriptions. The bus
  has registered and started its statistics timer.\<close>

definition new_processor :: "nat \<Rightarrow> 'c processor" where
  "new_processor threads = \<lparr>msg_queue = [], m_registered_timers = Map.empty, m_next_timer_id = 1, thr_count = threads\<rparr>"

definition start_world :: "nat list \<Rightarrow> (nat \<Rightarrow> nat option) \<Rightarrow> (nat \<Rightarrow> 'l) \<Rightarrow> 'c \<Rightarrow> ('p, 'c, 'l) world option" where
  "start_world threads eps l statistics =
    (let w = \<lparr>event_heap = [finish_instance \<mapsto> \<lparr>m_type_id = evFinish, m_ref_count = 1, ev_data = No_data\<rparr>],
       next_addr = 1, processors = map new_processor threads, local_state = l,
       endpoints = (\<lambda>ep. map_option (\<lambda>p. \<lparr>m_true_handler = p, m_active_subscriptions = []\<rparr>) (eps ep)),
       m_catch_all_subscribers = [], m_specific_subscriber_map = Map.empty,
       timer_queue = Map.empty, next_schedule_id = 0\<rparr>
     in if threads = [] then None
        else (let (tid, w) = addTimer the_bus 15000000 False w in startTimer the_bus tid statistics w))"

end
