(* ===== verification/Event_Bus_Refs.thy ===== *)
theory Event_Bus_Refs
  imports Event_Bus
begin

text \<open>
  Reference counting. A reference is a place in a queue, or one held by whoever is executing; the
  invariant compares them with the counters. Each operation has a rule that says how it moves
  references, so that the proof for a handler is the composition of the rules.
\<close>

section \<open>Places in queues\<close>

definition occurrences :: "('p, 'c, 'l) world \<Rightarrow> nat \<Rightarrow> nat" where
  "occurrences w a = sum_list (map (\<lambda>q. count_list (msg_queue q) a) (processors w))"

lemma sum_list_update_nat:
  "p < length xs \<Longrightarrow> sum_list (map f (xs[p := y])) + f (xs ! p) = sum_list (map f xs) + (f y :: nat)"
proof (induction xs arbitrary: p)
  case (Cons x xs)
  then show ?case by (cases p) (auto simp: algebra_simps)
qed simp

lemma occurrences_update:
  assumes "p < length (processors w)"
  shows "occurrences (update_processor p f w) a + count_list (msg_queue (processors w ! p)) a =
    occurrences w a + count_list (msg_queue (f (processors w ! p))) a"
  using sum_list_update_nat [OF assms, of "\<lambda>q. count_list (msg_queue q) a" "f (processors w ! p)"]
  by (simp add: occurrences_def update_processor_def)

lemma occurrences_same:
  assumes "map msg_queue (processors w') = map msg_queue (processors w)"
  shows "occurrences w' a = occurrences w a"
proof -
  have "map (\<lambda>q. count_list (msg_queue q) a) (processors w') = map (\<lambda>xs. count_list xs a) (map msg_queue (processors w'))"
    by simp
  also have "\<dots> = map (\<lambda>q. count_list (msg_queue q) a) (processors w)" unfolding assms by simp
  finally show ?thesis by (simp only: occurrences_def)
qed

lemma queued_occurrence:
  assumes "p < length (processors w)" "a \<in> set (msg_queue (processors w ! p))"
  shows "0 < occurrences w a"
proof -
  have "0 < count_list (msg_queue (processors w ! p)) a"
    using assms(2) by (intro gr0I) (simp add: count_list_0_iff)
  also have "\<dots> \<le> occurrences w a"
    unfolding occurrences_def by (rule member_le_sum_list) (use assms(1) in simp_all)
  finally show ?thesis .
qed

section \<open>The invariant\<close>

text \<open>\<open>refs held w\<close>: with the references \<open>held\<close> by the code that is running, no counter is too low; the
  Finish event has one more owner, its static variable.\<close>

definition owned :: "nat \<Rightarrow> nat" where
  "owned a = (if a = finish_instance then 1 else 0)"

definition refs :: "nat list \<Rightarrow> ('p, 'c, 'l) world \<Rightarrow> bool" where
  "refs held w \<longleftrightarrow> 0 < next_addr w \<and> (\<forall>a \<ge> next_addr w. event_heap w a = None) \<and>
    (\<forall>a. case event_heap w a of
       None \<Rightarrow> owned a + occurrences w a + count_list held a = 0
     | Some e \<Rightarrow> 1 \<le> m_ref_count e \<and> int (owned a + occurrences w a + count_list held a) \<le> m_ref_count e)"

lemma refsI:
  assumes "0 < next_addr w" "\<And>a. next_addr w \<le> a \<Longrightarrow> event_heap w a = None"
    and "\<And>a. event_heap w a = None \<Longrightarrow> owned a + occurrences w a + count_list held a = 0"
    and "\<And>a e. event_heap w a = Some e \<Longrightarrow>
      1 \<le> m_ref_count e \<and> int (owned a + occurrences w a + count_list held a) \<le> m_ref_count e"
  shows "refs held w"
  unfolding refs_def using assms by (auto split: option.split)

lemma refsD:
  assumes "refs held w"
  shows "event_heap w a = None \<Longrightarrow> owned a + occurrences w a + count_list held a = 0"
    and "event_heap w a = Some e \<Longrightarrow>
      1 \<le> m_ref_count e \<and> int (owned a + occurrences w a + count_list held a) \<le> m_ref_count e"
    and "next_addr w \<le> a \<Longrightarrow> event_heap w a = None"
    and "0 < next_addr w"
proof -
  have *: "case event_heap w a of
       None \<Rightarrow> owned a + occurrences w a + count_list held a = 0
     | Some e \<Rightarrow> 1 \<le> m_ref_count e \<and> int (owned a + occurrences w a + count_list held a) \<le> m_ref_count e"
    using assms unfolding refs_def by blast
  show "event_heap w a = None \<Longrightarrow> owned a + occurrences w a + count_list held a = 0" using * by simp
  show "event_heap w a = Some e \<Longrightarrow>
      1 \<le> m_ref_count e \<and> int (owned a + occurrences w a + count_list held a) \<le> m_ref_count e" using * by simp
  show "next_addr w \<le> a \<Longrightarrow> event_heap w a = None" "0 < next_addr w" using assms unfolding refs_def by blast+
qed

lemma refs_alive:
  assumes "refs held w"
  shows "a \<in> set held \<Longrightarrow> event_heap w a \<noteq> None" and "0 < occurrences w a \<Longrightarrow> event_heap w a \<noteq> None"
    and "event_heap w finish_instance \<noteq> None"
proof -
  have "event_heap w finish_instance = None \<Longrightarrow> False" using refsD(1) [OF assms, of finish_instance] by (simp add: owned_def)
  then show "event_heap w finish_instance \<noteq> None" by blast
  show "a \<in> set held \<Longrightarrow> event_heap w a \<noteq> None"
    using refsD(1) [OF assms, of a] by (auto simp: count_list_0_iff)
  show "0 < occurrences w a \<Longrightarrow> event_heap w a \<noteq> None"
    using refsD(1) [OF assms, of a] by auto
qed

lemma refs_cong:
  assumes "refs held w" "event_heap w' = event_heap w" "next_addr w' = next_addr w"
    "map msg_queue (processors w') = map msg_queue (processors w)"
  shows "refs held w'"
  using assms(1) unfolding refs_def assms(2,3) occurrences_same [OF assms(4)] .

text \<open>The operations change the number of references and the counter of one address together.\<close>

lemma refs_change:
  assumes "refs held w" "next_addr w' = next_addr w" "a < next_addr w"
    and "\<And>b. b \<noteq> a \<Longrightarrow> event_heap w' b = event_heap w b"
    and "\<And>b. b \<noteq> a \<Longrightarrow> occurrences w' b + count_list held' b \<le> occurrences w b + count_list held b"
    and "event_heap w' a = None \<Longrightarrow> owned a + occurrences w' a + count_list held' a = 0"
    and "\<And>e. event_heap w' a = Some e \<Longrightarrow>
      1 \<le> m_ref_count e \<and> int (owned a + occurrences w' a + count_list held' a) \<le> m_ref_count e"
  shows "refs held' w'"
proof (rule refsI)
  show "0 < next_addr w'" using refsD(4) [OF assms(1)] assms(2) by simp
  show "event_heap w' b = None" if "next_addr w' \<le> b" for b
    using that assms(2,3) assms(4) [of b] refsD(3) [OF assms(1), of b] by (cases "b = a") simp_all
  show "owned b + occurrences w' b + count_list held' b = 0" if "event_heap w' b = None" for b
  proof (cases "b = a")
    case False
    then show ?thesis using that assms(4,5) [of b] refsD(1) [OF assms(1), of b] by simp
  qed (use that assms(6) in simp)
  show "1 \<le> m_ref_count e \<and> int (owned b + occurrences w' b + count_list held' b) \<le> m_ref_count e"
    if "event_heap w' b = Some e" for b e
  proof (cases "b = a")
    case False
    then show ?thesis using that assms(4,5) [of b] refsD(2) [OF assms(1), of b e] by simp
  qed (use that assms(7) in simp)
qed

lemma refs_address:
  assumes "refs held w" "event_heap w a \<noteq> None"
  shows "a < next_addr w"
  using refsD(3) [OF assms(1), of a] assms(2) by (cases "a < next_addr w") simp_all

lemma refs_drop:
  assumes "refs (a # held) w"
  shows "refs held w"
proof -
  have "event_heap w a \<noteq> None" using refs_alive(1) [OF assms] by simp
  then show ?thesis
    using refsD(2) [OF assms, of a] by (intro refs_change [OF assms refl refs_address [OF assms]]) auto
qed

lemma refs_copy:
  assumes "refs held w" "shallow_copy a w = Some w'"
  shows "refs (a # held) w'"
proof -
  obtain e where e: "event_heap w a = Some e"
    "w' = w\<lparr>event_heap := (event_heap w)(a \<mapsto> e\<lparr>m_ref_count := m_ref_count e + 1\<rparr>)\<rparr>"
    using assms(2) by (auto simp: shallow_copy_def split: option.splits)
  have occ: "occurrences w' b = occurrences w b" for b using e(2) by (intro occurrences_same) simp
  show ?thesis
    using e refsD(2) [OF assms(1) e(1)] occ
    by (intro refs_change [OF assms(1) _ refs_address [OF assms(1), of a]]) auto
qed

lemma refs_release:
  assumes "refs (a # held) w" "release a w = Some w'"
  shows "refs held w'"
proof -
  obtain e where e: "event_heap w a = Some e" "w' = w\<lparr>event_heap := (event_heap w)(a :=
       if m_ref_count e - 1 = 0 then None else Some (e\<lparr>m_ref_count := m_ref_count e - 1\<rparr>))\<rparr>"
    using assms(2) by (auto simp: release_def split: option.splits)
  have occ: "occurrences w' b = occurrences w b" for b using e(2) by (intro occurrences_same) simp
  have c: "int (owned a + occurrences w a + count_list held a) + 1 \<le> m_ref_count e" "1 \<le> m_ref_count e"
    using refsD(2) [OF assms(1) e(1)] by simp_all
  show ?thesis
  proof (rule refs_change [OF assms(1)])
    show "a < next_addr w" using refs_address [OF assms(1)] e(1) by simp
    show "owned a + occurrences w' a + count_list held a = 0" if "event_heap w' a = None"
    proof -
      have "m_ref_count e = 1" using that e(2) by (simp split: if_splits)
      with c(1) have "int (owned a + occurrences w a + count_list held a) \<le> 0" by simp
      then show ?thesis unfolding occ by simp
    qed
    show "1 \<le> m_ref_count f \<and> int (owned a + occurrences w' a + count_list held a) \<le> m_ref_count f"
      if "event_heap w' a = Some f" for f
    proof -
      have "m_ref_count f = m_ref_count e - 1" "m_ref_count e \<noteq> 1" using that e(2) by (auto split: if_splits)
      with c show ?thesis unfolding occ by linarith
    qed
  qed (simp_all only: occ, simp_all add: e(2))
qed

lemma refs_put:
  assumes "refs (a # held) w" "event_putq p a w = Some w'"
  shows "refs held w'"
proof -
  have p: "p < length (processors w)" and w': "w' = update_processor p (\<lambda>q. q\<lparr>msg_queue := msg_queue q @ [a]\<rparr>) w"
    using assms(2) by (simp_all add: event_putq_def split: if_splits)
  have occ: "occurrences w' b = occurrences w b + (if b = a then 1 else 0)" for b
    using occurrences_update [OF p, of "\<lambda>q. q\<lparr>msg_queue := msg_queue q @ [a]\<rparr>" b] w' by simp
  have same: "event_heap w' = event_heap w" "next_addr w' = next_addr w" by (simp_all add: w' update_processor_def)
  have alive: "event_heap w a \<noteq> None" using refs_alive(1) [OF assms(1)] by simp
  show ?thesis
    using refsD(2) [OF assms(1), of a] alive same
    by (intro refs_change [OF assms(1) _ refs_address [OF assms(1) alive]]) (auto simp: occ)
qed

lemma refs_new:
  assumes "refs held w" "new_event ty d w = (a, w')"
  shows "refs (a # held) w'"
proof -
  have a: "a = next_addr w" and w': "w' = w\<lparr>event_heap := (event_heap w)(next_addr w \<mapsto>
      \<lparr>m_type_id = ty, m_ref_count = 1, ev_data = d\<rparr>), next_addr := next_addr w + 1\<rparr>"
    using assms(2) by (auto simp: new_event_def)
  have occ: "occurrences w' b = occurrences w b" for b using w' by (intro occurrences_same) simp
  have z: "owned a + occurrences w a + count_list held a = 0"
    by (rule refsD(1) [OF assms(1)]) (simp add: a refsD(3) [OF assms(1)])
  show ?thesis
  proof (rule refsI)
    show "event_heap w' b = None" if "next_addr w' \<le> b" for b using that w' refsD(3) [OF assms(1), of b] by simp
    show "owned b + occurrences w' b + count_list (a # held) b = 0" if "event_heap w' b = None" for b
      using that refsD(1) [OF assms(1), of b] unfolding occ by (auto simp: w' a split: if_splits)
    show "1 \<le> m_ref_count e \<and> int (owned b + occurrences w' b + count_list (a # held) b) \<le> m_ref_count e"
      if "event_heap w' b = Some e" for b e
    proof (cases "b = a")
      case True
      then have "m_ref_count e = 1" using that w' a by auto
      with z True show ?thesis unfolding occ by simp
    next
      case False
      then show ?thesis using that refsD(2) [OF assms(1), of b e] w' a unfolding occ by simp
    qed
  qed (simp add: w')
qed

text \<open>Taking the first event of a queue makes it a held reference.\<close>

lemma refs_take:
  assumes "refs held w" "p < length (processors w)" "msg_queue (processors w ! p) = a # rest"
  shows "refs (a # held) (update_processor p (\<lambda>q. q\<lparr>msg_queue := rest\<rparr>) w)"
proof -
  let ?w = "update_processor p (\<lambda>q. q\<lparr>msg_queue := rest\<rparr>) w"
  have occ: "occurrences w b = occurrences ?w b + (if b = a then 1 else 0)" for b
    using occurrences_update [OF assms(2), of "\<lambda>q. q\<lparr>msg_queue := rest\<rparr>" b] assms(3) by (simp split: if_splits)
  have same: "event_heap ?w = event_heap w" "next_addr ?w = next_addr w" by (simp_all add: update_processor_def)
  have alive: "event_heap w a \<noteq> None"
    by (rule refs_alive(2) [OF assms(1) queued_occurrence [OF assms(2)]]) (simp add: assms(3))
  show ?thesis
    using refsD(2) [OF assms(1), of a] alive same occ [of a]
    by (intro refs_change [OF assms(1) _ refs_address [OF assms(1) alive]]) (auto simp: occ)
qed

text \<open>Emptying a queue loses its references.\<close>

lemma refs_flush:
  assumes "refs held w" "p < length (processors w)"
  shows "refs held (update_processor p (\<lambda>q. q\<lparr>msg_queue := [], thr_count := n\<rparr>) w)"
proof -
  let ?w = "update_processor p (\<lambda>q. q\<lparr>msg_queue := [], thr_count := n\<rparr>) w"
  have occ: "occurrences ?w b \<le> occurrences w b" for b
    using occurrences_update [OF assms(2), of "\<lambda>q. q\<lparr>msg_queue := [], thr_count := n\<rparr>" b] by simp
  have same: "event_heap ?w = event_heap w" "next_addr ?w = next_addr w" by (simp_all add: update_processor_def)
  show ?thesis
  proof (rule refsI)
    show "owned b + occurrences ?w b + count_list held b = 0" if "event_heap ?w b = None" for b
      using refsD(1) [OF assms(1), of b] that occ [of b] same by simp
    show "1 \<le> m_ref_count e \<and> int (owned b + occurrences ?w b + count_list held b) \<le> m_ref_count e"
      if "event_heap ?w b = Some e" for b e
      using refsD(2) [OF assms(1), of b e] that occ [of b] same by simp
  qed (use refsD(3,4) [OF assms(1)] same in auto)
qed

section \<open>The queue of the bus\<close>

text \<open>An event in the queue of the bus is nowhere else, Finish excepted.\<close>

definition exclusive :: "('p, 'c, 'l) world \<Rightarrow> bool" where
  "exclusive w \<longleftrightarrow> the_bus < length (processors w) \<and>
    (\<forall>e. event_heap w finish_instance = Some e \<longrightarrow> m_type_id e = evFinish) \<and>
    (\<forall>a \<in> set (msg_queue (processors w ! the_bus)). a \<noteq> finish_instance \<longrightarrow>
      (\<exists>e. event_heap w a = Some e \<and> m_ref_count e = 1))"

definition bus_inv :: "nat list \<Rightarrow> ('p, 'c, 'l) world \<Rightarrow> bool" where
  "bus_inv held w \<longleftrightarrow> refs held w \<and> exclusive w"

lemma bus_inv_cong:
  assumes "bus_inv held w" "event_heap w' = event_heap w" "next_addr w' = next_addr w"
    "map msg_queue (processors w') = map msg_queue (processors w)"
  shows "bus_inv held w'"
proof -
  have l: "length (processors w') = length (processors w)" using assms(4) by (metis length_map)
  have "msg_queue (processors w' ! i) = msg_queue (processors w ! i)" if "i < length (processors w)" for i
    using assms(4) l that by (metis nth_map)
  then show ?thesis using assms(1,2) l refs_cong [OF _ assms(2-4)] by (simp add: bus_inv_def exclusive_def)
qed

lemma held_not_queued:
  assumes "bus_inv held w" "a \<in> set held" "a \<noteq> finish_instance"
  shows "a \<notin> set (msg_queue (processors w ! the_bus))"
proof
  assume q: "a \<in> set (msg_queue (processors w ! the_bus))"
  then obtain e where e: "event_heap w a = Some e" "m_ref_count e = 1"
    using assms(1,3) by (auto simp: bus_inv_def exclusive_def)
  have "0 < occurrences w a"
    using assms(1) q by (intro queued_occurrence [of the_bus]) (simp_all add: bus_inv_def exclusive_def)
  moreover have "0 < count_list held a" using assms(2) by (intro gr0I) (simp add: count_list_0_iff)
  moreover have "int (owned a + occurrences w a + count_list held a) \<le> 1"
    using refsD(2) [of held w a e] assms(1) e by (simp add: bus_inv_def)
  ultimately show False by linarith
qed

lemma bus_inv_copy:
  assumes "bus_inv held w" "shallow_copy a w = Some w'" "a \<in> set held \<or> a = finish_instance"
  shows "bus_inv (a # held) w'"
proof -
  obtain e where "event_heap w a = Some e"
    "w' = w\<lparr>event_heap := (event_heap w)(a \<mapsto> e\<lparr>m_ref_count := m_ref_count e + 1\<rparr>)\<rparr>"
    using assms(2) by (auto simp: shallow_copy_def split: option.splits)
  moreover have "a \<in> set (msg_queue (processors w ! the_bus)) \<longrightarrow> a = finish_instance"
    using held_not_queued [OF assms(1), of a] assms(3) by blast
  ultimately show ?thesis using assms(1) refs_copy [OF _ assms(2)] by (auto simp: bus_inv_def exclusive_def)
qed

lemma bus_inv_release:
  assumes "bus_inv (a # held) w" "release a w = Some w'"
  shows "bus_inv held w'"
proof -
  obtain e where e: "event_heap w a = Some e" "w' = w\<lparr>event_heap := (event_heap w)(a :=
       if m_ref_count e - 1 = 0 then None else Some (e\<lparr>m_ref_count := m_ref_count e - 1\<rparr>))\<rparr>"
    using assms(2) by (auto simp: release_def split: option.splits)
  moreover have "a \<in> set (msg_queue (processors w ! the_bus)) \<longrightarrow> a = finish_instance"
    using held_not_queued [OF assms(1), of a] by auto
  moreover have "refs held w'" using assms refs_release by (auto simp: bus_inv_def)
  ultimately show ?thesis using assms(1) by (auto simp: bus_inv_def exclusive_def)
qed

lemma bus_inv_drop: "bus_inv (a # held) w \<Longrightarrow> bus_inv held w"
  by (auto simp: bus_inv_def intro: refs_drop)

lemma bus_inv_put:
  assumes "bus_inv (a # held) w" "event_putq p a w = Some w'"
    "p \<noteq> the_bus \<or> a = finish_instance \<or> (\<exists>e. event_heap w a = Some e \<and> m_ref_count e = 1)"
  shows "bus_inv held w'"
proof -
  have "w' = update_processor p (\<lambda>q. q\<lparr>msg_queue := msg_queue q @ [a]\<rparr>) w" "p < length (processors w)"
    using assms(2) by (simp_all add: event_putq_def split: if_splits)
  then have "exclusive w'" using assms(1,3)
    by (auto simp: bus_inv_def exclusive_def update_processor_def nth_list_update)
  with refs_put [OF _ assms(2)] assms(1) show ?thesis by (simp add: bus_inv_def)
qed

lemma bus_inv_new_put:
  assumes "bus_inv held w" "event_putq p (fst (new_event ty d w)) (snd (new_event ty d w)) = Some w'"
  shows "bus_inv held w'"
proof (rule bus_inv_put [OF _ assms(2)])
  have "next_addr w \<noteq> a" if "a \<in> set (msg_queue (processors w ! the_bus))" "a \<noteq> finish_instance" for a
    using assms(1) that refsD(3) [of held w a] by (auto simp: bus_inv_def exclusive_def)
  moreover have "next_addr w \<noteq> finish_instance"
    using assms(1) refsD(4) [of held w] by (simp add: bus_inv_def finish_instance_def)
  ultimately show "bus_inv (fst (new_event ty d w) # held) (snd (new_event ty d w))"
    using assms(1) refs_new [of held w ty d "fst (new_event ty d w)" "snd (new_event ty d w)"]
    by (auto simp: bus_inv_def exclusive_def new_event_def)
  show "p \<noteq> the_bus \<or> fst (new_event ty d w) = finish_instance \<or>
      (\<exists>e. event_heap (snd (new_event ty d w)) (fst (new_event ty d w)) = Some e \<and> m_ref_count e = 1)"
    by (simp add: new_event_def)
qed

lemma bus_inv_take:
  assumes "bus_inv held w" "p < length (processors w)" "msg_queue (processors w ! p) = a # rest"
  shows "bus_inv (a # held) (update_processor p (\<lambda>q. q\<lparr>msg_queue := rest\<rparr>) w)"
  using assms refs_take [OF _ assms(2,3)]
  by (auto simp: bus_inv_def exclusive_def update_processor_def nth_list_update)

lemma bus_inv_flush:
  assumes "bus_inv held w" "p < length (processors w)"
  shows "bus_inv held (update_processor p (\<lambda>q. q\<lparr>msg_queue := [], thr_count := n\<rparr>) w)"
  using assms refs_flush [OF _ assms(2), of held n]
  by (auto simp: bus_inv_def exclusive_def update_processor_def nth_list_update)

section \<open>Timers and subscriptions keep it\<close>

lemma update_queues:
  assumes "\<And>q. msg_queue (f q) = msg_queue q"
  shows "map msg_queue (processors (update_processor p f w)) = map msg_queue (processors w)"
  using assms by (cases "p < length (processors w)") (simp_all add: update_processor_def map_update list_update_same_conv not_less list_update_beyond)

lemma bus_inv_update:
  assumes "bus_inv held w" "\<And>q. msg_queue (f q) = msg_queue q"
  shows "bus_inv held (update_processor p f w)"
  by (rule bus_inv_cong [OF assms(1)]) (simp_all add: update_queues [OF assms(2)], simp_all add: update_processor_def)

lemma bus_inv_store_timer: "bus_inv held w \<Longrightarrow> bus_inv held (store_timer p i t w)"
  by (simp add: store_timer_def bus_inv_update)

lemma bus_inv_timer_queue: "bus_inv held w \<Longrightarrow> bus_inv held (w\<lparr>timer_queue := tq, next_schedule_id := n\<rparr>)"
  "bus_inv held w \<Longrightarrow> bus_inv held (w\<lparr>timer_queue := tq\<rparr>)"
  by (simp_all add: bus_inv_cong [of held w])

lemma bus_inv_timer_start: "bus_inv held w \<Longrightarrow> timer_start p i cb w = Some w' \<Longrightarrow> bus_inv held w'"
  by (auto simp: timer_start_def Option.bind_eq_Some_conv split: if_splits
      intro!: bus_inv_store_timer bus_inv_timer_queue)

lemma bus_inv_timer_cancel: "bus_inv held w \<Longrightarrow> timer_cancel p i w = Some w' \<Longrightarrow> bus_inv held w'"
  by (auto simp: timer_cancel_def Option.bind_eq_Some_conv intro!: bus_inv_store_timer bus_inv_timer_queue)

lemma bus_inv_timer_ops:
  assumes "bus_inv held w"
  shows "timer_reset p i w = Some w' \<Longrightarrow> bus_inv held w'"
    and "timer_reschedule p i t w = Some w' \<Longrightarrow> bus_inv held w'"
    and "startTimer p i cb w = Some w' \<Longrightarrow> bus_inv held w'"
    and "removeTimer p i w = Some w' \<Longrightarrow> bus_inv held w'"
    and "bus_inv held (snd (addTimer p delta one_shot w))"
proof -
  note cancel = bus_inv_timer_cancel [OF assms]
  show "timer_reset p i w = Some w' \<Longrightarrow> bus_inv held w'"
    by (auto simp: timer_reset_def Option.bind_eq_Some_conv intro: bus_inv_timer_start [OF cancel])
  show "timer_reschedule p i t w = Some w' \<Longrightarrow> bus_inv held w'"
    by (auto simp: timer_reschedule_def Option.bind_eq_Some_conv
        intro: bus_inv_timer_start [OF bus_inv_store_timer [OF cancel]])
  show "startTimer p i cb w = Some w' \<Longrightarrow> bus_inv held w'"
    by (auto simp: startTimer_def Option.bind_eq_Some_conv split: if_splits
        intro: bus_inv_timer_start [OF bus_inv_store_timer [OF assms]])
  show "removeTimer p i w = Some w' \<Longrightarrow> bus_inv held w'"
    by (auto simp: removeTimer_def Option.bind_eq_Some_conv intro!: bus_inv_update dest: cancel)
  show "bus_inv held (snd (addTimer p delta one_shot w))"
    by (simp add: addTimer_def Let_def bus_inv_update [OF assms])
qed

lemma bus_inv_subscriptions:
  assumes "bus_inv held w"
  shows "subscribe ep ty w = Some w' \<Longrightarrow> bus_inv held w'"
    and "unsubscribe ep ty w = Some w' \<Longrightarrow> bus_inv held w'"
    and "destroy_endpoint ep w = Some w' \<Longrightarrow> bus_inv held w'"
proof -
  have u: "bus_inv held (bus_unsubscribe ty ep w)" if "bus_inv held w" for ty ep and w :: "('a, 'b, 'c) world"
    by (rule bus_inv_cong [OF that]) (auto simp: bus_unsubscribe_def split: option.splits)
  have "bus_inv held (fold (\<lambda>ty. bus_unsubscribe ty ep) tys w)" if "bus_inv held w" for tys and w :: "('a, 'b, 'c) world"
    using that by (induction tys arbitrary: w) (simp_all add: u)
  note f = this
  have e: "bus_inv held (w\<lparr>endpoints := es\<rparr>)" if "bus_inv held w" for es and w :: "('a, 'b, 'c) world"
    by (rule bus_inv_cong [OF that]) simp_all
  have s: "bus_inv held (bus_subscribe ty ep w)"
    by (rule bus_inv_cong [OF assms]) (simp_all add: bus_subscribe_def)
  show "subscribe ep ty w = Some w' \<Longrightarrow> bus_inv held w'" using s e by (auto simp: subscribe_def Option.bind_eq_Some_conv)
  show "unsubscribe ep ty w = Some w' \<Longrightarrow> bus_inv held w'"
    using u [OF assms] e by (auto simp: unsubscribe_def Option.bind_eq_Some_conv)
  show "destroy_endpoint ep w = Some w' \<Longrightarrow> bus_inv held w'"
    using f [OF assms] e by (auto simp: destroy_endpoint_def Option.bind_eq_Some_conv)
qed

end
