(* ===== verification/Event_Bus_Correct.thy ===== *)
theory Event_Bus_Correct
  imports Event_Bus_Refs "HOL-Library.Multiset"
begin

text \<open>
  The operations of the event system keep the reference counts right, the events of the bus
  exclusive, and the lists of subscribers in agreement with the endpoints.
\<close>

section \<open>What an operation leaves alone\<close>

definition static :: "('p, 'c, 'l) world \<Rightarrow> (nat \<Rightarrow> endpoint option) \<times> nat list \<times> (u32 \<Rightarrow> nat list option) \<times> nat" where
  "static w = (endpoints w, m_catch_all_subscribers w, m_specific_subscriber_map w, length (processors w))"

lemma static_update [simp]: "static (update_processor p f w) = static w"
  by (simp add: static_def update_processor_def)

lemma static_store_timer [simp]: "static (store_timer p i t w) = static w"
  by (simp add: store_timer_def)

lemma static_fields [simp]:
  "static (w\<lparr>event_heap := h\<rparr>) = static w" "static (w\<lparr>next_addr := n\<rparr>) = static w"
  "static (w\<lparr>timer_queue := q\<rparr>) = static w" "static (w\<lparr>next_schedule_id := k\<rparr>) = static w"
  "static (w\<lparr>local_state := l\<rparr>) = static w"
  by (simp_all add: static_def)

lemma static_events:
  "shallow_copy a w = Some w' \<Longrightarrow> static w' = static w"
  "release a w = Some w' \<Longrightarrow> static w' = static w"
  "static (snd (new_event ty d w)) = static w"
  "event_putq p a w = Some w' \<Longrightarrow> static w' = static w"
  by (auto simp: shallow_copy_def release_def new_event_def event_putq_def static_def update_processor_def
      split: option.splits if_splits)

lemma static_timer_start: "timer_start p i cb w = Some w' \<Longrightarrow> static w' = static w"
  by (auto simp: timer_start_def Option.bind_eq_Some_conv split: if_splits)

lemma static_timer_cancel: "timer_cancel p i w = Some w' \<Longrightarrow> static w' = static w"
  by (auto simp: timer_cancel_def Option.bind_eq_Some_conv split: if_splits)

lemma static_timers:
  "timer_reset p i w = Some w' \<Longrightarrow> static w' = static w"
  "timer_reschedule p i t w = Some w' \<Longrightarrow> static w' = static w"
  "startTimer p i c w = Some w' \<Longrightarrow> static w' = static w"
  "removeTimer p i w = Some w' \<Longrightarrow> static w' = static w"
  "static (snd (addTimer p delta one_shot w)) = static w"
  by (auto simp: timer_reset_def timer_reschedule_def startTimer_def removeTimer_def addTimer_def Let_def
      Option.bind_eq_Some_conv split: if_splits dest!: static_timer_start static_timer_cancel)

lemma static_publish: "publish_to eps ev w = Some w' \<Longrightarrow> static w' = static w"
proof (induction eps arbitrary: w)
  case (Cons ep eps)
  then show ?case by (auto simp: Option.bind_eq_Some_conv dest!: static_events(1,4) Cons.IH)
qed simp

section \<open>Subscriptions\<close>

lemma count_swap_pop:
  assumes "i < length xs"
  shows "count_list (butlast (xs[i := last xs, length xs - 1 := xs ! i])) y + (if xs ! i = y then 1 else 0) = count_list xs y"
proof -
  have ne: "xs \<noteq> []" using assms by auto
  have "mset (xs[i := last xs, length xs - 1 := xs ! i]) = mset xs"
    using mset_swap [of "length xs - 1" xs i] assms ne by (simp add: last_conv_nth)
  moreover have "xs[i := last xs, length xs - 1 := xs ! i] =
      butlast (xs[i := last xs, length xs - 1 := xs ! i]) @ [xs ! i]" (is "?l = _")
    using append_butlast_last_id [of ?l] ne by (simp add: last_conv_nth)
  ultimately have "mset xs = add_mset (xs ! i) (mset (butlast ?l))"
    by (metis mset_append mset.simps union_mset_add_mset_right add_0_right)
  then have "count (mset xs) y = count (mset (butlast ?l)) y + (if xs ! i = y then 1 else 0)" by simp
  then show ?thesis by (simp add: count_mset)
qed

lemma first_place:
  assumes "x \<in> set xs"
  shows "length (takeWhile (\<lambda>y. y \<noteq> x) xs) < length xs \<and> xs ! length (takeWhile (\<lambda>y. y \<noteq> x) xs) = x"
proof -
  obtain ys zs where xs: "xs = ys @ x # zs" "x \<notin> set ys" using split_list_first [OF assms] by metis
  then have "takeWhile (\<lambda>y. y \<noteq> x) xs = ys" by (auto simp: takeWhile_append)
  then show ?thesis by (simp add: xs(1))
qed

lemma count_removed:
  "count_list (removeEndpointFromUnorderedVector x xs) y = count_list xs y - (if x = y then 1 else 0)"
proof (cases "x \<in> set xs")
  case True
  define i where "i = length (takeWhile (\<lambda>y. y \<noteq> x) xs)"
  have i: "i < length xs" "xs ! i = x" using first_place [OF True] by (simp_all add: i_def)
  have "removeEndpointFromUnorderedVector x xs = butlast (xs[i := last xs, length xs - 1 := xs ! i])"
    using i(1) unfolding removeEndpointFromUnorderedVector_def Let_def i_def by (simp only: if_True)
  then show ?thesis using count_swap_pop [OF i(1), of y] i(2) by (cases "x = y") simp_all
next
  case False
  then have "takeWhile (\<lambda>y. y \<noteq> x) xs = xs" by (simp add: takeWhile_eq_all_conv) blast
  then have "removeEndpointFromUnorderedVector x xs = xs"
    unfolding removeEndpointFromUnorderedVector_def Let_def by (simp only: less_irrefl if_False)
  moreover have "count_list xs x = 0" using False by (simp add: count_list_0_iff)
  ultimately show ?thesis by (cases "x = y") simp_all
qed

definition subscribers :: "('p, 'c, 'l) world \<Rightarrow> u32 \<Rightarrow> nat list" where
  "subscribers w ty = (if ty = ALL_EVENTS then m_catch_all_subscribers w
     else case m_specific_subscriber_map w ty of None \<Rightarrow> [] | Some eps \<Rightarrow> eps)"

definition subscriptions :: "('p, 'c, 'l) world \<Rightarrow> nat \<Rightarrow> u32 list" where
  "subscriptions w ep = (case endpoints w ep of None \<Rightarrow> [] | Some h \<Rightarrow> m_active_subscriptions h)"

definition subs_agree :: "('p, 'c, 'l) world \<Rightarrow> bool" where
  "subs_agree w \<longleftrightarrow> (\<forall>ty ep. count_list (subscribers w ty) ep = count_list (subscriptions w ep) ty)"

text \<open>Endpoints belong to processors, and never to the bus.\<close>

definition endpoints_ok :: "('p, 'c, 'l) world \<Rightarrow> bool" where
  "endpoints_ok w \<longleftrightarrow> (\<forall>ep h. endpoints w ep = Some h \<longrightarrow>
     m_true_handler h \<noteq> the_bus \<and> m_true_handler h < length (processors w))"

definition subs_ok :: "('p, 'c, 'l) world \<Rightarrow> bool" where
  "subs_ok w \<longleftrightarrow> subs_agree w \<and> endpoints_ok w \<and> m_specific_subscriber_map w ALL_EVENTS = None"

lemma subs_ok_static:
  assumes "static w' = static w" "subs_ok w"
  shows "subs_ok w'"
proof -
  have "subscribers w' = subscribers w" "subscriptions w' = subscriptions w"
    using assms(1) by (simp_all add: static_def subscribers_def subscriptions_def fun_eq_iff)
  then show ?thesis using assms by (simp add: static_def subs_ok_def subs_agree_def endpoints_ok_def)
qed

lemma subscribers_subscribe:
  "subscribers (bus_subscribe ty ep w) ty' = (if ty' = ty then subscribers w ty @ [ep] else subscribers w ty')"
  by (simp add: subscribers_def bus_subscribe_def)

lemma count_unsubscribed:
  "count_list (subscribers (bus_unsubscribe ty ep w) ty') ep' =
     count_list (subscribers w ty') ep' - (if ty = ty' \<and> ep = ep' then 1 else 0)"
  by (auto simp: subscribers_def bus_unsubscribe_def count_removed split: option.splits)

lemma bus_keeps [simp]:
  "endpoints (bus_subscribe ty ep w) = endpoints w" "processors (bus_subscribe ty ep w) = processors w"
  "endpoints (bus_unsubscribe ty ep w) = endpoints w" "processors (bus_unsubscribe ty ep w) = processors w"
  by (auto simp: bus_subscribe_def bus_unsubscribe_def split: option.splits)

lemma bus_keeps_all [simp]:
  "m_specific_subscriber_map (bus_subscribe ty ep w) ALL_EVENTS = m_specific_subscriber_map w ALL_EVENTS"
  "m_specific_subscriber_map w ALL_EVENTS = None \<Longrightarrow> m_specific_subscriber_map (bus_unsubscribe ty ep w) ALL_EVENTS = None"
  by (auto simp: bus_subscribe_def bus_unsubscribe_def split: option.splits)

lemma subscribers_endpoints [simp]: "subscribers (w\<lparr>endpoints := es\<rparr>) = subscribers w"
  by (simp add: subscribers_def fun_eq_iff)

lemma subs_ok_subscribe: "subs_ok w \<Longrightarrow> subscribe ep ty w = Some w' \<Longrightarrow> subs_ok w'"
  by (auto simp: subs_ok_def subs_agree_def endpoints_ok_def subscribe_def subscriptions_def
      subscribers_subscribe Option.bind_eq_Some_conv split: if_splits)

lemma subs_ok_unsubscribe: "subs_ok w \<Longrightarrow> unsubscribe ep ty w = Some w' \<Longrightarrow> subs_ok w'"
  by (auto simp: subs_ok_def subs_agree_def endpoints_ok_def unsubscribe_def subscriptions_def
      count_unsubscribed count_removed Option.bind_eq_Some_conv split: if_splits)

lemma unsubscribe_all:
  "count_list (subscribers (fold (\<lambda>ty. bus_unsubscribe ty ep) tys w) ty') ep' =
     count_list (subscribers w ty') ep' - (if ep = ep' then count_list tys ty' else 0)"
  "endpoints (fold (\<lambda>ty. bus_unsubscribe ty ep) tys w) = endpoints w"
  "processors (fold (\<lambda>ty. bus_unsubscribe ty ep) tys w) = processors w"
  "m_specific_subscriber_map w ALL_EVENTS = None \<Longrightarrow>
     m_specific_subscriber_map (fold (\<lambda>ty. bus_unsubscribe ty ep) tys w) ALL_EVENTS = None"
  by (induction tys arbitrary: w) (auto simp: count_unsubscribed)

lemma subs_ok_destroy: "subs_ok w \<Longrightarrow> destroy_endpoint ep w = Some w' \<Longrightarrow> subs_ok w'"
  by (auto simp: subs_ok_def subs_agree_def endpoints_ok_def destroy_endpoint_def subscriptions_def
      unsubscribe_all Option.bind_eq_Some_conv split: if_splits)

lemma subscriber_alive:
  assumes "subs_ok w" "ep \<in> set (subscribers w ty)"
  shows "\<exists>h. endpoints w ep = Some h \<and> m_true_handler h \<noteq> the_bus \<and> m_true_handler h < length (processors w)"
proof -
  have "count_list (subscribers w ty) ep \<noteq> 0" using assms(2) by (simp add: count_list_0_iff)
  then have "subscriptions w ep \<noteq> []" using assms(1) by (auto simp: subs_ok_def subs_agree_def)
  then show ?thesis using assms(1) by (auto simp: subs_ok_def endpoints_ok_def subscriptions_def split: option.splits)
qed

section \<open>Publishing\<close>

lemma bus_inv_publish:
  assumes "bus_inv (ev # held) w" "subs_ok w" "\<And>ep. ep \<in> set eps \<Longrightarrow> \<exists>ty. ep \<in> set (subscribers w ty)"
  shows "\<exists>w'. publish_to eps ev w = Some w' \<and> bus_inv (ev # held) w'"
  using assms
proof (induction eps arbitrary: w)
  case (Cons ep eps)
  obtain ty h where h: "ep \<in> set (subscribers w ty)" "endpoints w ep = Some h"
    "m_true_handler h \<noteq> the_bus" "m_true_handler h < length (processors w)"
    using Cons.prems(3) [of ep] subscriber_alive [OF Cons.prems(2), of ep] by fastforce
  obtain w1 where w1: "shallow_copy ev w = Some w1"
    using refs_alive(1) [of "ev # held" w ev] Cons.prems(1) by (auto simp: shallow_copy_def bus_inv_def)
  have i1: "bus_inv (ev # ev # held) w1" by (rule bus_inv_copy [OF Cons.prems(1) w1]) simp
  have s1: "static w1 = static w" by (rule static_events(1) [OF w1])
  obtain w2 where w2: "event_putq (m_true_handler h) ev w1 = Some w2" using h(4) s1 by (simp add: event_putq_def static_def)
  have i2: "bus_inv (ev # held) w2" by (rule bus_inv_put [OF i1 w2]) (simp add: h(3))
  have s2: "static w2 = static w" using static_events(4) [OF w2] s1 by simp
  have "subscribers w2 = subscribers w" using s2 by (simp add: static_def subscribers_def fun_eq_iff)
  then have "\<exists>w'. publish_to eps ev w2 = Some w' \<and> bus_inv (ev # held) w'"
    using Cons.prems(3) by (intro Cons.IH [OF i2 subs_ok_static [OF s2 Cons.prems(2)]]) simp
  then show ?case using h(2) w1 w2 by simp
qed simp

lemma bus_inv_do_publish:
  assumes "bus_inv (ev # held) w" "subs_ok w" "event_heap w ev = Some e" "m_ref_count e = 1"
  shows "\<exists>w'. do_publish ev w = Some w' \<and> bus_inv (ev # held) w' \<and> static w' = static w"
proof -
  have a: "\<exists>ty. ep \<in> set (subscribers w ty)" if "ep \<in> set (m_catch_all_subscribers w)" for ep
    using that by (intro exI [of _ ALL_EVENTS]) (simp add: subscribers_def)
  obtain w1 where w1: "publish_to (m_catch_all_subscribers w) ev w = Some w1" "bus_inv (ev # held) w1"
    using bus_inv_publish [OF assms(1,2) a] by blast
  have s1: "static w1 = static w" by (rule static_publish [OF w1(1)])
  have ok1: "subs_ok w1" by (rule subs_ok_static [OF s1 assms(2)])
  show ?thesis
  proof (cases "m_specific_subscriber_map w1 (m_type_id e)")
    case None
    then show ?thesis using w1 s1 assms(3,4) by (simp add: do_publish_def)
  next
    case (Some eps)
    moreover have "m_type_id e \<noteq> ALL_EVENTS" using Some ok1 by (auto simp: subs_ok_def)
    ultimately have "subscribers w1 (m_type_id e) = eps" by (simp add: subscribers_def)
    then have b: "\<exists>ty. ep \<in> set (subscribers w1 ty)" if "ep \<in> set eps" for ep using that by blast
    obtain w2 where w2: "publish_to eps ev w1 = Some w2" "bus_inv (ev # held) w2"
      using bus_inv_publish [OF w1(2) ok1 b] by blast
    then show ?thesis using w1 s1 assms(3,4) Some static_publish [OF w2(1)] by (simp add: do_publish_def)
  qed
qed

section \<open>Turns\<close>

text \<open>A handler must not put the event it handles, which has other owners, into the queue of the bus:
  \<open>do_publish\<close> asserts that it has the only reference.\<close>

definition careful :: "('p, 'c) request \<Rightarrow> bool" where
  "careful r \<longleftrightarrow> r \<noteq> Forward the_bus"

definition careful_handlers :: "('p, 'c, 'l) handlers \<Rightarrow> bool" where
  "careful_handlers H \<longleftrightarrow>
    (\<forall>p ty d l. Forward the_bus \<notin> set (snd (on_event H p ty d l))) \<and>
    (\<forall>p c t l. Forward the_bus \<notin> set (snd (on_timer H p c t l)))"

definition safe :: "nat list \<Rightarrow> ('p, 'c, 'l) world \<Rightarrow> bool" where
  "safe held w \<longleftrightarrow> bus_inv held w \<and> subs_ok w"

lemma safe_static: "safe held w \<Longrightarrow> static w' = static w \<Longrightarrow> bus_inv held' w' \<Longrightarrow> safe held' w'"
  by (auto simp: safe_def intro: subs_ok_static)

lemma safe_request:
  assumes "safe held w" "ev \<in> set held \<or> ev = finish_instance" "careful r" "exec_request p ev r w = Some w'"
  shows "safe held w'"
proof -
  have b: "bus_inv held w" and k: "subs_ok w" using assms(1) by (simp_all add: safe_def)
  show ?thesis
  proof (cases r)
    case (Post ty d)
    with assms(4) have *: "event_putq the_bus (fst (new_event ty (Event_data d) w)) (snd (new_event ty (Event_data d) w)) = Some w'"
      by (simp add: postGlobalEvent_def case_prod_beta)
    show ?thesis
      by (rule safe_static [OF assms(1) _ bus_inv_new_put [OF b *]]) (simp add: static_events(4) [OF *] static_events(3))
  next
    case (Send q ty d)
    with assms(4) have *: "event_putq q (fst (new_event ty (Event_data d) w)) (snd (new_event ty (Event_data d) w)) = Some w'"
      by (simp add: case_prod_beta)
    show ?thesis
      by (rule safe_static [OF assms(1) _ bus_inv_new_put [OF b *]]) (simp add: static_events(4) [OF *] static_events(3))
  next
    case (Forward q)
    with assms(4) obtain w1 where w1: "shallow_copy ev w = Some w1" "event_putq q ev w1 = Some w'"
      by (auto simp: Option.bind_eq_Some_conv)
    show ?thesis
      using Forward assms(3) static_events(1) [OF w1(1)] static_events(4) [OF w1(2)]
      by (intro safe_static [OF assms(1) _ bus_inv_put [OF bus_inv_copy [OF b w1(1) assms(2)] w1(2)]])
        (simp_all add: careful_def)
  next
    case Keep
    with assms(4) have *: "shallow_copy ev w = Some w'" by simp
    show ?thesis
      by (rule safe_static [OF assms(1) static_events(1) [OF *] bus_inv_drop [OF bus_inv_copy [OF b * assms(2)]]])
  next
    case (Subscribe ep ty)
    with assms(4) show ?thesis using bus_inv_subscriptions(1) [OF b] subs_ok_subscribe [OF k] by (simp add: safe_def)
  next
    case (Unsubscribe ep ty)
    with assms(4) show ?thesis using bus_inv_subscriptions(2) [OF b] subs_ok_unsubscribe [OF k] by (simp add: safe_def)
  next
    case (Destroy ep)
    with assms(4) show ?thesis using bus_inv_subscriptions(3) [OF b] subs_ok_destroy [OF k] by (simp add: safe_def)
  qed (use assms(4) b in \<open>auto intro!: safe_static [OF assms(1)] bus_inv_timer_ops(5) static_timers(5)
        dest: static_timers(1-4) bus_inv_timer_ops(1-4) split: if_splits\<close>)
qed

lemma safe_requests:
  assumes "safe held w" "ev \<in> set held \<or> ev = finish_instance" "Forward the_bus \<notin> set rs"
    "exec_requests p ev rs w = Some w'"
  shows "safe held w'"
  using assms
proof (induction rs arbitrary: w)
  case (Cons r rs)
  then obtain w1 where "exec_request p ev r w = Some w1" "exec_requests p ev rs w1 = Some w'"
    by (auto simp: Option.bind_eq_Some_conv)
  then show ?case
    using Cons.prems(2,3) safe_request [OF Cons.prems(1,2), of r p w1] by (intro Cons.IH [of w1]) (auto simp: careful_def)
qed simp

lemma safe_local: "safe held w \<Longrightarrow> safe held (w\<lparr>local_state := l\<rparr>)"
  by (rule safe_static) (auto simp: safe_def intro: bus_inv_cong)

lemma safe_react:
  assumes "safe held w" "ev \<in> set held \<or> ev = finish_instance" "Forward the_bus \<notin> set (snd reaction)"
    "react p ev reaction w = Some w'"
  shows "safe held w'"
  using safe_requests [OF safe_local [OF assms(1)] assms(2,3)] assms(4) by (simp add: react_def)

lemma safe_new_put:
  assumes "safe held w" "event_putq p (fst (new_event ty d w)) (snd (new_event ty d w)) = Some w'"
  shows "safe held w'"
  using assms by (intro safe_static [OF assms(1) _ bus_inv_new_put [OF _ assms(2)]])
    (simp_all add: safe_def static_events(3) static_events(4) [OF assms(2)])

lemma safe_timeout:
  assumes "safe held w" "handle_timeout sched now w = Some w'"
  shows "safe held w'"
proof -
  have t: "safe held (w\<lparr>timer_queue := tq\<rparr>)" for tq
    by (rule safe_static [OF assms(1)]) (use assms(1) in \<open>simp_all add: safe_def bus_inv_timer_queue\<close>)
  show ?thesis
    using assms safe_new_put [OF t] safe_new_put [OF assms(1)] t
    by (auto simp: handle_timeout_def Let_def case_prod_beta Option.bind_eq_Some_conv split: option.splits if_splits)
qed

end
