(* ===== verification/Event_Bus_Runs.thy ===== *)
theory Event_Bus_Runs
  imports Event_Bus_Correct
begin

text \<open>Turns and runs keep the invariant; the assertion of the bus holds in every reachable world.\<close>

section \<open>A turn\<close>

lemma safe_processor:
  assumes "safe held w" "\<And>q. msg_queue (f q) = msg_queue q"
  shows "safe held (update_processor p f w)"
  using assms by (intro safe_static [OF assms(1)]) (simp_all add: safe_def bus_inv_update)

lemma safe_take:
  assumes "safe held w" "p < length (processors w)" "msg_queue (processors w ! p) = a # rest"
  shows "safe (a # held) (update_processor p (\<lambda>q. q\<lparr>msg_queue := rest\<rparr>) w)"
  using assms by (intro safe_static [OF assms(1)]) (simp_all add: safe_def bus_inv_take)

lemma safe_release:
  assumes "safe (a # held) w" "release a w = Some w'"
  shows "safe held w'"
  using assms(1) by (intro safe_static [OF assms(1) static_events(2) [OF assms(2)] bus_inv_release [OF _ assms(2)]]) (simp add: safe_def)

lemma safe_flush:
  assumes "safe held w" "p < length (processors w)"
  shows "safe held (update_processor p (\<lambda>q. q\<lparr>msg_queue := [], thr_count := n\<rparr>) w)"
  using assms by (intro safe_static [OF assms(1)]) (simp_all add: safe_def bus_inv_flush)

lemma take_heap [simp]: "event_heap (update_processor p f w) = event_heap w" "local_state (update_processor p f w) = local_state w"
  "length (processors (update_processor p f w)) = length (processors w)"
  by (simp_all add: update_processor_def)

text \<open>The event that the bus takes is Finish, or nobody else has it.\<close>

lemma taken_by_bus:
  assumes "safe held w" "msg_queue (processors w ! the_bus) = a # rest"
  shows "\<exists>e. event_heap w a = Some e \<and> (a = finish_instance \<and> m_type_id e = evFinish \<or> m_ref_count e = 1)"
proof (cases "a = finish_instance")
  case True
  then show ?thesis using assms(1) refs_alive(3) [of held w] by (auto simp: safe_def bus_inv_def exclusive_def)
next
  case False
  then show ?thesis using assms by (auto simp: safe_def bus_inv_def exclusive_def)
qed

lemma safe_dispatch:
  assumes "careful_handlers H" "safe (ev # held) w" "dispatch_event H p ev w = Some w'"
  shows "safe (ev # held) w'"
proof (cases "p = the_bus")
  case True
  with assms(3) have d: "do_publish ev w = Some w'" by (simp add: dispatch_event_def)
  then obtain e where e: "event_heap w ev = Some e" "m_ref_count e = 1"
    by (auto simp: do_publish_def Option.bind_eq_Some_conv split: if_splits)
  then show ?thesis
    using bus_inv_do_publish [of ev held w e] d assms(2) by (auto simp: safe_def intro: subs_ok_static)
next
  case False
  with assms(3) obtain e where "event_heap w ev = Some e"
    "react p ev (on_event H p (m_type_id e) (ev_data e) (local_state w p)) w = Some w'"
    by (auto simp: dispatch_event_def Option.bind_eq_Some_conv)
  then show ?thesis using assms(1) by (intro safe_react [OF assms(2)]) (simp_all add: careful_handlers_def)
qed

lemma safe_run_timer:
  assumes "careful_handlers H" "safe (ev # held) w" "run_timer H p ev now tid w = Some w'"
  shows "safe (ev # held) w'"
proof -
  obtain t cb where "access_timer p tid w = Some t" "m_callback t = Some cb"
    "react p ev (on_timer H p cb now (local_state w p)) w = Some w'"
    using assms(3) by (auto simp: run_timer_def Option.bind_eq_Some_conv)
  then show ?thesis using assms(1) by (intro safe_react [OF assms(2)]) (simp_all add: careful_handlers_def)
qed

lemma safe_turn:
  assumes "careful_handlers H" "safe [] w" "svc_turn H p w = Some (w', out)"
  shows "safe [] w'"
proof (cases "p < length (processors w) \<and> thr_count (processors w ! p) \<noteq> 0 \<and> msg_queue (processors w ! p) \<noteq> []")
  case True
  then obtain mb rest where q: "p < length (processors w)" "msg_queue (processors w ! p) = mb # rest" by (auto simp: neq_Nil_conv)
  let ?w = "update_processor p (\<lambda>q. q\<lparr>msg_queue := rest\<rparr>) w"
  note taken = safe_take [OF assms(2) q]
  obtain e where e: "event_heap ?w mb = Some e" using refs_alive(1) [of "[mb]" ?w mb] taken by (auto simp: safe_def bus_inv_def)
  have put: "safe [] (update_processor p (\<lambda>q. q\<lparr>thr_count := thr_count q - 1\<rparr>) w1)" if "event_putq p mb ?w = Some w1" for w1
  proof -
    have "p \<noteq> the_bus \<or> mb = finish_instance \<or> (\<exists>e. event_heap ?w mb = Some e \<and> m_ref_count e = 1)"
      using taken_by_bus [OF assms(2), of mb rest] q(2) by (auto simp: update_processor_def)
    then have "bus_inv [] w1" using taken that by (intro bus_inv_put [of mb "[]" ?w p]) (simp_all add: safe_def)
    then show ?thesis using safe_static [OF taken static_events(4) [OF that]] by (intro safe_processor) auto
  qed
  have flushed: "safe [] (update_processor p (\<lambda>q. q\<lparr>msg_queue := [], thr_count := 0\<rparr>) w1)" if "release mb ?w = Some w1" for w1
    using safe_release [OF taken that] q(1) static_events(2) [OF that]
    by (intro safe_flush) (simp_all add: static_def)
  have turn: "svc_turn H p w =
       (if m_type_id e = evFinish
         then if thr_count (processors ?w ! p) > 1
              then do { w \<leftarrow> event_putq p mb ?w; Some (update_processor p (\<lambda>q. q\<lparr>thr_count := thr_count q - 1\<rparr>) w, []) }
              else do { w \<leftarrow> release mb ?w; Some (update_processor p (\<lambda>q. q\<lparr>msg_queue := [], thr_count := 0\<rparr>) w, []) }
         else if m_type_id e = evTimeout
         then (case ev_data e of
             Timeout_data arrival_time tid \<Rightarrow> do { w \<leftarrow> run_timer H p mb arrival_time tid ?w; w \<leftarrow> release mb w; Some (w, []) }
           | _ \<Rightarrow> None)
         else do { w \<leftarrow> dispatch_event H p mb ?w; w \<leftarrow> release mb w; Some (w, [(p, mb)]) })"
    using True q e by (simp add: svc_turn_def)
  show ?thesis
    using assms(3) put flushed unfolding turn
    by (auto simp: Option.bind_eq_Some_conv split: if_splits event_data.splits
        dest: safe_run_timer [OF assms(1) taken] safe_dispatch [OF assms(1) taken] intro: safe_release)
next
  case False
  then show ?thesis using assms(2,3) by (auto simp: svc_turn_def split: if_splits list.splits)
qed

section \<open>Runs\<close>

definition careful_happening :: "('p, 'c) happening \<Rightarrow> bool" where
  "careful_happening h \<longleftrightarrow> h \<noteq> Main (Forward the_bus)"

lemma safe_shutdown:
  assumes "safe [] w" "shutdown_event_processor p w = Some w'"
  shows "safe [] w'"
proof (cases "p < length (processors w) \<and> thr_count (processors w ! p) \<noteq> 0")
  case True
  then obtain w1 where w1: "shallow_copy finish_instance w = Some w1" "event_putq p finish_instance w1 = Some w'"
    using assms(2) by (auto simp: shutdown_event_processor_def Option.bind_eq_Some_conv)
  show ?thesis
    using assms(1) static_events(1) [OF w1(1)] static_events(4) [OF w1(2)]
    by (intro safe_static [OF assms(1) _ bus_inv_put [OF bus_inv_copy [OF _ w1(1)] w1(2)]]) (simp_all add: safe_def)
next
  case False
  then have "w' = w" using assms(2) unfolding shutdown_event_processor_def by auto
  then show ?thesis using assms(1) by simp
qed

lemma safe_happen:
  assumes "careful_handlers H" "safe [] w" "careful_happening h" "happen H h w = Some (w', out)"
  shows "safe [] w'"
proof (cases h)
  case (Turn p)
  then show ?thesis using safe_turn [OF assms(1,2)] assms(4) by simp
next
  case (Due sched now)
  then show ?thesis using safe_timeout [OF assms(2)] assms(4) by auto
next
  case (Main r)
  then show ?thesis using safe_request [OF assms(2), of finish_instance r the_bus w'] assms(3,4)
    by (auto simp: careful_def careful_happening_def)
next
  case (Shutdown p)
  then show ?thesis using safe_shutdown [OF assms(2)] assms(4) by auto
qed

lemma safe_run:
  assumes "careful_handlers H" "safe [] w" "\<forall>h \<in> set hs. careful_happening h" "run H hs w = Some (w', out)"
  shows "safe [] w'"
  using assms(2-)
proof (induction hs arbitrary: w out)
  case (Cons h hs)
  then obtain w1 o1 o2 where "happen H h w = Some (w1, o1)" "run H hs w1 = Some (w', o2)"
    by (auto simp: Option.bind_eq_Some_conv)
  then show ?case using Cons.IH [of w1 o2] Cons.prems(1,2) safe_happen [OF assms(1), of w h w1 o1] by auto
qed simp

section \<open>The beginning\<close>

definition proper_endpoints :: "(nat \<Rightarrow> nat option) \<Rightarrow> nat list \<Rightarrow> bool" where
  "proper_endpoints eps threads \<longleftrightarrow> (\<forall>p \<in> ran eps. p \<noteq> the_bus \<and> p < length threads)"

lemma safe_start:
  fixes w :: "('p, 'c, 'l) world"
  assumes "proper_endpoints eps threads" "start_world threads eps l statistics = Some w"
  shows "safe [] w"
proof -
  let ?w = "\<lparr>event_heap = [finish_instance \<mapsto> \<lparr>m_type_id = evFinish, m_ref_count = 1, ev_data = No_data\<rparr>],
       next_addr = 1, processors = map new_processor threads, local_state = l,
       endpoints = (\<lambda>ep. map_option (\<lambda>p. \<lparr>m_true_handler = p, m_active_subscriptions = []\<rparr>) (eps ep)),
       m_catch_all_subscribers = [], m_specific_subscriber_map = Map.empty,
       timer_queue = Map.empty, next_schedule_id = 0\<rparr> :: ('p, 'c, 'l) world"
  have t: "threads \<noteq> []" and s: "startTimer the_bus (fst (addTimer the_bus 15000000 False ?w)) statistics
      (snd (addTimer the_bus 15000000 False ?w)) = Some w"
    using assms(2) by (auto simp: start_world_def Let_def case_prod_beta split: if_splits)
  have occ: "occurrences ?w a = 0" for a
    by (induction threads) (simp_all add: occurrences_def new_processor_def)
  have q: "msg_queue (processors ?w ! the_bus) = []" using t by (simp add: the_bus_def nth_map new_processor_def)
  have b: "bus_inv [] ?w" unfolding bus_inv_def
  proof
    show "refs [] ?w" by (rule refsI; (simp only: occ)?) (auto simp: owned_def finish_instance_def split: if_splits)
    show "exclusive ?w" using t q by (simp add: exclusive_def the_bus_def)
  qed
  have k: "subs_ok ?w"
    using assms(1) by (auto simp: subs_ok_def subs_agree_def endpoints_ok_def proper_endpoints_def subscribers_def
        subscriptions_def ran_def split: option.splits)
  have "bus_inv [] w" by (rule bus_inv_timer_ops(3) [OF bus_inv_timer_ops(5) [OF b] s])
  moreover have "static w = static ?w" using static_timers(3) [OF s] static_timers(5) by simp
  ultimately show ?thesis using k subs_ok_static by (simp add: safe_def) blast
qed

lemma bus_turn_safe:
  fixes w :: "('p, 'c, 'l) world"
  assumes "safe [] w" "thr_count (processors w ! the_bus) \<noteq> 0"
    "msg_queue (processors w ! the_bus) = mb # rest" "event_heap w mb = Some e" "m_type_id e \<noteq> evTimeout"
  shows "svc_turn H the_bus w \<noteq> None"
proof -
  let ?w = "update_processor the_bus (\<lambda>q. q\<lparr>msg_queue := rest\<rparr>) w"
  have l: "the_bus < length (processors w)" using assms(1) by (simp add: safe_def bus_inv_def exclusive_def)
  note taken = safe_take [OF assms(1) l assms(3)]
  have r: "release mb w1 \<noteq> None" if "bus_inv [mb] w1" for w1 :: "('p, 'c, 'l) world"
    using refs_alive(1) [of "[mb]" w1 mb] that by (auto simp: release_def bus_inv_def)
  show ?thesis
  proof (cases "m_type_id e = evFinish")
    case True
    have "event_putq the_bus mb ?w \<noteq> None" using l by (simp add: event_putq_def)
    moreover have "release mb ?w \<noteq> None" using r taken by (simp add: safe_def)
    ultimately show ?thesis using assms l True by (auto simp: svc_turn_def Let_def)
  next
    case False
    then have "m_ref_count e = 1" using taken_by_bus [OF assms(1,3)] assms(4) by auto
    then obtain w1 where w1: "do_publish mb ?w = Some w1" "bus_inv [mb] w1"
      using bus_inv_do_publish [of mb "[]" ?w e] taken assms(4) by (auto simp: safe_def)
    then obtain w2 where "release mb w1 = Some w2" using r by blast
    then show ?thesis using w1 assms l False by (simp add: svc_turn_def dispatch_event_def)
  qed
qed

end
