(* ===== verification/Event_Bus_Growth.thy ===== *)
theory Event_Bus_Growth
  imports Event_Bus_Runs
begin

text \<open>
  Services that post, send, forward, keep and subscribe, and nothing else. The world only grows
  while such a service runs: queues and lists of subscribers get longer, events keep their type.
\<close>

fun courteous :: "(nat \<Rightarrow> nat option) \<Rightarrow> nat \<Rightarrow> ('p, 'c) request \<Rightarrow> bool" where
  "courteous eps n (Post ty d) = (ty \<noteq> evFinish \<and> ty \<noteq> evTimeout)"
| "courteous eps n (Send q ty d) = (q < n \<and> ty \<noteq> evFinish \<and> ty \<noteq> evTimeout)"
| "courteous eps n (Forward q) = (q < n \<and> q \<noteq> the_bus)"
| "courteous eps n Keep = True"
| "courteous eps n (Subscribe ep ty) = (eps ep \<noteq> None)"
| "courteous eps n _ = False"

text \<open>The callback of a timer is not given the event.\<close>

definition courteous_handlers :: "(nat \<Rightarrow> nat option) \<Rightarrow> nat \<Rightarrow> ('p, 'c, 'l) handlers \<Rightarrow> bool" where
  "courteous_handlers eps n H \<longleftrightarrow>
    (\<forall>p ty d l. \<forall>r \<in> set (snd (on_event H p ty d l)). courteous eps n r) \<and>
    (\<forall>p c t l. \<forall>r \<in> set (snd (on_timer H p c t l)). courteous eps n r \<and> (\<forall>q. r \<noteq> Forward q))"

section \<open>Growth\<close>

definition queue :: "('p, 'c, 'l) world \<Rightarrow> nat \<Rightarrow> nat list" where
  "queue w p = msg_queue (processors w ! p)"

definition event_info :: "('p, 'c, 'l) world \<Rightarrow> nat \<Rightarrow> (u32 \<times> 'p event_data) option" where
  "event_info w a = map_option (\<lambda>e. (m_type_id e, ev_data e)) (event_heap w a)"

definition grows :: "('p, 'c, 'l) world \<Rightarrow> ('p, 'c, 'l) world \<Rightarrow> bool" where
  "grows w w' \<longleftrightarrow> next_addr w \<le> next_addr w' \<and>
    (\<forall>a < next_addr w. event_info w' a = None \<or> event_info w' a = event_info w a) \<and>
    length (processors w') = length (processors w) \<and>
    (\<forall>p < length (processors w). (\<exists>more. queue w' p = queue w p @ more) \<and>
       thr_count (processors w' ! p) = thr_count (processors w ! p) \<and>
       m_registered_timers (processors w' ! p) = m_registered_timers (processors w ! p)) \<and>
    (\<forall>ty. \<exists>more. subscribers w' ty = subscribers w ty @ more) \<and>
    (\<forall>ep. map_option m_true_handler (endpoints w' ep) = map_option m_true_handler (endpoints w ep)) \<and>
    timer_queue w' \<subseteq>\<^sub>m timer_queue w"

lemma growsI:
  assumes "next_addr w \<le> next_addr w'"
    "\<And>a. a < next_addr w \<Longrightarrow> event_info w' a = None \<or> event_info w' a = event_info w a"
    "length (processors w') = length (processors w)"
    "\<And>p. p < length (processors w) \<Longrightarrow> \<exists>more. queue w' p = queue w p @ more"
    "\<And>p. p < length (processors w) \<Longrightarrow> thr_count (processors w' ! p) = thr_count (processors w ! p)"
    "\<And>p. p < length (processors w) \<Longrightarrow> m_registered_timers (processors w' ! p) = m_registered_timers (processors w ! p)"
    "\<And>ty. \<exists>more. subscribers w' ty = subscribers w ty @ more"
    "\<And>ep. map_option m_true_handler (endpoints w' ep) = map_option m_true_handler (endpoints w ep)"
    "timer_queue w' \<subseteq>\<^sub>m timer_queue w"
  shows "grows w w'"
  unfolding grows_def using assms by blast

lemma growsD:
  assumes "grows w w'"
  shows "next_addr w \<le> next_addr w'"
    and "a < next_addr w \<Longrightarrow> event_info w' a = None \<or> event_info w' a = event_info w a"
    and "length (processors w') = length (processors w)"
    and "p < length (processors w) \<Longrightarrow> \<exists>more. queue w' p = queue w p @ more"
    and "p < length (processors w) \<Longrightarrow> thr_count (processors w' ! p) = thr_count (processors w ! p)"
    and "p < length (processors w) \<Longrightarrow> m_registered_timers (processors w' ! p) = m_registered_timers (processors w ! p)"
    and "\<exists>more. subscribers w' ty = subscribers w ty @ more"
    and "map_option m_true_handler (endpoints w' ep) = map_option m_true_handler (endpoints w ep)"
    and "timer_queue w' \<subseteq>\<^sub>m timer_queue w"
  using assms unfolding grows_def by blast+

lemma grows_trans:
  assumes "grows w1 w2" "grows w2 w3"
  shows "grows w1 w3"
proof (rule growsI)
  note d = growsD [OF assms(1)] and e = growsD [OF assms(2)]
  show "next_addr w1 \<le> next_addr w3" using d(1) e(1) by simp
  show "event_info w3 a = None \<or> event_info w3 a = event_info w1 a" if "a < next_addr w1" for a
    using d(2) [OF that] e(2) [of a] d(1) that by auto
  show "length (processors w3) = length (processors w1)" using d(3) e(3) by simp
  show "\<exists>more. queue w3 p = queue w1 p @ more" if "p < length (processors w1)" for p
    using d(4) [OF that] e(4) [of p] d(3) that by auto
  show "thr_count (processors w3 ! p) = thr_count (processors w1 ! p)" if "p < length (processors w1)" for p
    using d(5) [OF that] e(5) [of p] d(3) that by simp
  show "m_registered_timers (processors w3 ! p) = m_registered_timers (processors w1 ! p)"
    if "p < length (processors w1)" for p
    using d(6) [OF that] e(6) [of p] d(3) that by simp
  show "\<exists>more. subscribers w3 ty = subscribers w1 ty @ more" for ty using d(7) [of ty] e(7) [of ty] by auto
  show "map_option m_true_handler (endpoints w3 ep) = map_option m_true_handler (endpoints w1 ep)" for ep
    using d(8) [of ep] e(8) [of ep] by simp
  show "timer_queue w3 \<subseteq>\<^sub>m timer_queue w1" using d(9) e(9) by (rule map_le_trans [rotated])
qed

lemma grows_refl [simp]: "grows w w"
  by (rule growsI) simp_all

lemma subscribers_static: "static w' = static w \<Longrightarrow> subscribers w' = subscribers w \<and> endpoints w' = endpoints w"
  by (simp add: static_def subscribers_def fun_eq_iff)

lemma grows_copy: "shallow_copy a w = Some w' \<Longrightarrow> grows w w'"
  using subscribers_static [OF static_events(1), of a w w']
  by (intro growsI) (auto simp: shallow_copy_def event_info_def queue_def split: option.splits)

lemma grows_release: "release a w = Some w' \<Longrightarrow> grows w w'"
  using subscribers_static [OF static_events(2), of a w w']
  by (intro growsI) (auto simp: release_def event_info_def queue_def split: option.splits)

lemma grows_new: "grows w (snd (new_event ty d w))"
  using subscribers_static [OF static_events(3), of ty d w]
  by (intro growsI) (auto simp: new_event_def event_info_def queue_def)

lemma grows_put: "event_putq p a w = Some w' \<Longrightarrow> grows w w'"
  using subscribers_static [OF static_events(4), of p a w w']
  by (intro growsI) (auto simp: event_putq_def update_processor_def event_info_def queue_def nth_list_update split: if_splits)

lemma grows_local: "grows w (w\<lparr>local_state := l\<rparr>)"
  by (rule growsI) (simp_all add: event_info_def queue_def subscribers_def)

lemma subscribe_keeps [simp]:
  "event_heap (bus_subscribe ty ep w) = event_heap w" "next_addr (bus_subscribe ty ep w) = next_addr w"
  "timer_queue (bus_subscribe ty ep w) = timer_queue w"
  by (simp_all add: bus_subscribe_def)

lemma grows_subscribe: "subscribe ep ty w = Some w' \<Longrightarrow> grows w w'"
  by (rule growsI) (auto simp: subscribe_def event_info_def queue_def subscribers_subscribe
      Option.bind_eq_Some_conv)

section \<open>Events that can be handled\<close>

definition timer_ready :: "('p, 'c, 'l) world \<Rightarrow> nat \<Rightarrow> u32 \<Rightarrow> bool" where
  "timer_ready w p tid \<longleftrightarrow> (\<exists>t cb. access_timer p tid w = Some t \<and> m_target t = Some p \<and> m_callback t = Some cb)"

definition plain :: "('p, 'c, 'l) world \<Rightarrow> nat \<Rightarrow> bool" where
  "plain w a \<longleftrightarrow> (\<exists>ty d. event_info w a = Some (ty, d) \<and> ty \<noteq> evFinish \<and> ty \<noteq> evTimeout)"

definition event_ready :: "('p, 'c, 'l) world \<Rightarrow> nat \<Rightarrow> nat \<Rightarrow> bool" where
  "event_ready w p a \<longleftrightarrow> plain w a \<or>
    (\<exists>now tid. event_info w a = Some (evTimeout, Timeout_data now tid) \<and> timer_ready w p tid)"

text \<open>Between turns nothing is held; every processor runs, every queued event can be handled, and
  every entry of the timer queue belongs to a timer with a callback.\<close>

definition calm :: "(nat \<Rightarrow> nat option) \<Rightarrow> nat \<Rightarrow> nat list \<Rightarrow> ('p, 'c, 'l) world \<Rightarrow> bool" where
  "calm eps n held w \<longleftrightarrow> safe held w \<and> length (processors w) = n \<and>
    (\<forall>ep. map_option m_true_handler (endpoints w ep) = eps ep) \<and>
    (\<forall>p < n. thr_count (processors w ! p) \<noteq> 0) \<and>
    (\<forall>p < n. \<forall>a \<in> set (queue w p). event_ready w p a) \<and>
    (\<forall>s p tid once. timer_queue w s = Some (p, tid, once) \<longrightarrow> timer_ready w p tid)"

lemma calmI:
  assumes "safe held w" "length (processors w) = n" "\<And>ep. map_option m_true_handler (endpoints w ep) = eps ep"
    "\<And>p. p < n \<Longrightarrow> thr_count (processors w ! p) \<noteq> 0"
    "\<And>p a. p < n \<Longrightarrow> a \<in> set (queue w p) \<Longrightarrow> event_ready w p a"
    "\<And>s p tid once. timer_queue w s = Some (p, tid, once) \<Longrightarrow> timer_ready w p tid"
  shows "calm eps n held w"
  unfolding calm_def using assms by blast

lemma calmD:
  assumes "calm eps n held w"
  shows "safe held w" "length (processors w) = n" "map_option m_true_handler (endpoints w ep) = eps ep"
    "p < n \<Longrightarrow> thr_count (processors w ! p) \<noteq> 0"
    "p < n \<Longrightarrow> a \<in> set (queue w p) \<Longrightarrow> event_ready w p a"
    "timer_queue w s = Some (q, tid, once) \<Longrightarrow> timer_ready w q tid"
  using assms unfolding calm_def by blast+

lemma grows_timer_ready:
  assumes "grows w w'" "timer_ready w p tid"
  shows "timer_ready w' p tid"
  using assms(2) growsD(3) [OF assms(1)] growsD(6) [OF assms(1), of p]
  by (auto simp: timer_ready_def access_timer_def split: if_splits)

lemma alive_address:
  assumes "safe held w" "event_info w a \<noteq> None"
  shows "a < next_addr w"
  using refs_address [of held w a] assms by (auto simp: safe_def bus_inv_def event_info_def)

lemma grows_plain:
  assumes "grows w w'" "plain w a" "safe held w" "event_heap w' a \<noteq> None"
  shows "plain w' a"
proof -
  have "a < next_addr w" using assms(2) alive_address [OF assms(3), of a] by (auto simp: plain_def)
  then have "event_info w' a = event_info w a"
    using growsD(2) [OF assms(1), of a] assms(4) by (auto simp: event_info_def)
  then show ?thesis using assms(2) by (simp add: plain_def)
qed

lemma grows_event_ready:
  assumes "grows w w'" "event_ready w p a" "safe held w" "event_heap w' a \<noteq> None"
  shows "event_ready w' p a"
proof -
  have "a < next_addr w"
    using assms(2) alive_address [OF assms(3), of a] by (auto simp: event_ready_def plain_def)
  then have "event_info w' a = event_info w a"
    using growsD(2) [OF assms(1), of a] assms(4) by (auto simp: event_info_def)
  then show ?thesis using assms(2) grows_timer_ready [OF assms(1)] by (auto simp: event_ready_def plain_def)
qed

lemma queued_alive:
  assumes "safe held w" "p < length (processors w)" "a \<in> set (queue w p)"
  shows "event_heap w a \<noteq> None"
  using assms refs_alive(2) [of held w a] queued_occurrence [of p w a]
  by (auto simp: safe_def bus_inv_def queue_def)

lemma calm_grows:
  assumes "calm eps n held w" "grows w w'" "safe held' w'"
    "\<And>p a. p < n \<Longrightarrow> a \<in> set (queue w' p) \<Longrightarrow> a \<in> set (queue w p) \<or> event_ready w' p a"
  shows "calm eps n held' w'"
proof (rule calmI)
  note c = calmD [OF assms(1)] and g = growsD [OF assms(2)]
  show l: "length (processors w') = n" using c(2) g(3) by simp
  show "map_option m_true_handler (endpoints w' ep) = eps ep" for ep using c(3) g(8) by simp
  show "thr_count (processors w' ! p) \<noteq> 0" if "p < n" for p using c(4) [OF that] g(5) [of p] c(2) that by simp
  show "event_ready w' p a" if "p < n" "a \<in> set (queue w' p)" for p a
  proof (cases "a \<in> set (queue w p)")
    case True
    show ?thesis
      by (rule grows_event_ready [OF assms(2) c(5) [OF that(1) True] c(1) queued_alive [OF assms(3) _ that(2)]])
        (simp add: l that(1))
  next
    case False
    then show ?thesis using assms(4) [OF that] by blast
  qed
  show "timer_ready w' p tid" if "timer_queue w' s = Some (p, tid, once)" for s p tid once
  proof -
    have "timer_queue w s = Some (p, tid, once)" using g(9) that by (metis domI map_le_def)
    then show ?thesis by (rule grows_timer_ready [OF assms(2) c(6)])
  qed
qed (rule assms(3))

end
