(* ===== verification/Event_Bus_Delivery.thy ===== *)
theory Event_Bus_Delivery
  imports Event_Bus_Growth
begin

text \<open>With courteous services no turn fails, and every event in a queue is handled in the end.\<close>

section \<open>Steps on events\<close>

lemma calm_same_queues:
  assumes "calm eps n held w" "grows w w'" "safe held' w'" "\<And>p. p < n \<Longrightarrow> queue w' p = queue w p"
  shows "calm eps n held' w'"
  using assms(4) by (intro calm_grows [OF assms(1-3)]) simp

lemma calm_copy:
  assumes "calm eps n held w" "a \<in> set held \<or> a = finish_instance"
  shows "\<exists>w'. shallow_copy a w = Some w' \<and> calm eps n (a # held) w' \<and> grows w w'"
proof -
  have s: "safe held w" by (rule calmD(1) [OF assms(1)])
  then have "event_heap w a \<noteq> None" using assms(2) refs_alive(1,3) [of held w] by (auto simp: safe_def bus_inv_def)
  then obtain w' where w': "shallow_copy a w = Some w'" by (auto simp: shallow_copy_def)
  have "bus_inv (a # held) w'" using s by (intro bus_inv_copy [OF _ w' assms(2)]) (simp add: safe_def)
  then have "safe (a # held) w'" by (rule safe_static [OF s static_events(1) [OF w']])
  moreover have "queue w' p = queue w p" for p using w' by (auto simp: shallow_copy_def queue_def split: option.splits)
  ultimately show ?thesis using w' calm_same_queues [OF assms(1) grows_copy [OF w']] grows_copy [OF w'] by blast
qed

lemma calm_release:
  assumes "calm eps n (a # held) w"
  shows "\<exists>w'. release a w = Some w' \<and> calm eps n held w' \<and> grows w w'"
proof -
  have s: "safe (a # held) w" by (rule calmD(1) [OF assms(1)])
  then have "event_heap w a \<noteq> None" using refs_alive(1) [of "a # held" w] by (auto simp: safe_def bus_inv_def)
  then obtain w' where w': "release a w = Some w'" by (auto simp: release_def)
  moreover have "queue w' p = queue w p" for p using w' by (auto simp: release_def queue_def split: option.splits)
  ultimately show ?thesis
    using calm_same_queues [OF assms(1) grows_release [OF w'] safe_release [OF s w']] grows_release [OF w'] by blast
qed

lemma queue_put: "event_putq p a w = Some w' \<Longrightarrow> queue w' q = (if q = p then queue w p @ [a] else queue w q)"
  by (auto simp: event_putq_def queue_def update_processor_def nth_list_update split: if_splits)

lemma calm_put:
  assumes "calm eps n (a # held) w" "p < n" "event_ready w p a" "p \<noteq> the_bus"
  shows "\<exists>w'. event_putq p a w = Some w' \<and> calm eps n held w' \<and> grows w w' \<and> a \<in> set (queue w' p)"
proof -
  note c = calmD [OF assms(1)]
  obtain w' where w': "event_putq p a w = Some w'" using c(2) assms(2) by (auto simp: event_putq_def)
  have s: "safe held w'"
    using c(1) assms(4) by (intro safe_static [OF c(1) static_events(4) [OF w'] bus_inv_put [OF _ w']]) (auto simp: safe_def)
  have g: "grows w w'" by (rule grows_put [OF w'])
  have "event_heap w' a \<noteq> None"
    using s c(2) assms(2) growsD(3) [OF g] by (intro queued_alive [of held w' p]) (simp_all add: queue_put [OF w'])
  then have r: "event_ready w' p a" by (rule grows_event_ready [OF g assms(3) c(1)])
  have "calm eps n held w'"
    by (rule calm_grows [OF assms(1) g s]) (use r in \<open>auto simp: queue_put [OF w'] split: if_splits\<close>)
  then show ?thesis using w' g by (auto simp: queue_put [OF w'])
qed

lemma calm_new_put:
  assumes "calm eps n held w" "p < n"
    "ty \<noteq> evFinish \<and> ty \<noteq> evTimeout \<or> (\<exists>now tid. ty = evTimeout \<and> d = Timeout_data now tid \<and> timer_ready w p tid)"
  shows "\<exists>w'. event_putq p (fst (new_event ty d w)) (snd (new_event ty d w)) = Some w' \<and> calm eps n held w' \<and> grows w w'"
proof -
  note c = calmD [OF assms(1)]
  let ?a = "fst (new_event ty d w)" and ?w = "snd (new_event ty d w)"
  obtain w' where w': "event_putq p ?a ?w = Some w'" using c(2) assms(2) by (auto simp: event_putq_def new_event_def)
  have g: "grows w w'" by (rule grows_trans [OF grows_new grows_put [OF w']])
  have i: "event_info w' ?a = Some (ty, d)"
    using w' by (auto simp: event_putq_def new_event_def update_processor_def event_info_def split: if_splits)
  have "event_ready w' p ?a"
    using assms(3) grows_timer_ready [OF g] i by (auto simp: event_ready_def plain_def)
  moreover have "queue ?w q = queue w q" for q by (simp add: new_event_def queue_def)
  ultimately have "calm eps n held w'"
    by (intro calm_grows [OF assms(1) g safe_new_put [OF c(1) w']]) (auto simp: queue_put [OF w'] split: if_splits)
  then show ?thesis using w' g by blast
qed

section \<open>Requests\<close>

lemma calm_subscribe:
  assumes "calm eps n held w" "eps ep \<noteq> None"
  shows "\<exists>w'. subscribe ep ty w = Some w' \<and> calm eps n held w' \<and> grows w w'"
proof -
  note c = calmD [OF assms(1)]
  obtain h where h: "endpoints w ep = Some h" using assms(2) c(3) [of ep] by auto
  then obtain w' where w': "subscribe ep ty w = Some w'" by (simp add: subscribe_def)
  have "safe held w'" using c(1) bus_inv_subscriptions(1) [OF _ w'] subs_ok_subscribe [OF _ w'] by (simp add: safe_def)
  moreover have "queue w' p = queue w p" for p using w' h by (auto simp: subscribe_def queue_def)
  ultimately show ?thesis using w' calm_same_queues [OF assms(1) grows_subscribe [OF w']] grows_subscribe [OF w'] by blast
qed

lemma calm_request:
  assumes "calm eps n held w" "ev \<in> set held \<or> ev = finish_instance" "courteous eps n r"
    "\<And>q. r = Forward q \<Longrightarrow> plain w ev" "0 < n"
  shows "\<exists>w'. exec_request p ev r w = Some w' \<and> calm eps n held w' \<and> grows w w'"
proof (cases r)
  case (Post ty d)
  then show ?thesis
    using calm_new_put [OF assms(1), of the_bus ty "Event_data d"] assms(3,5)
    by (auto simp: case_prod_beta postGlobalEvent_def the_bus_def)
next
  case (Send q ty d)
  then show ?thesis
    using calm_new_put [OF assms(1), of q ty "Event_data d"] assms(3) by (auto simp: case_prod_beta)
next
  case (Forward q)
  obtain w1 where w1: "shallow_copy ev w = Some w1" "calm eps n (ev # held) w1" "grows w w1"
    using calm_copy [OF assms(1,2)] by blast
  have "event_heap w1 ev \<noteq> None" using w1(1) by (auto simp: shallow_copy_def split: option.splits)
  then have "plain w1 ev" by (rule grows_plain [OF w1(3) assms(4) [OF Forward] calmD(1) [OF assms(1)]])
  then obtain w2 where "event_putq q ev w1 = Some w2" "calm eps n held w2" "grows w1 w2"
    using calm_put [OF w1(2), of q] assms(3) Forward by (auto simp: event_ready_def)
  then show ?thesis using w1(1) Forward grows_trans [OF w1(3)] by auto
next
  case Keep
  obtain w1 where w1: "shallow_copy ev w = Some w1" "calm eps n (ev # held) w1" "grows w w1"
    using calm_copy [OF assms(1,2)] by blast
  have "safe held w1" using calmD(1) [OF w1(2)] bus_inv_drop by (auto simp: safe_def)
  then show ?thesis using w1 Keep calm_same_queues [OF w1(2) grows_refl] by auto
next
  case (Subscribe ep ty)
  then show ?thesis using calm_subscribe [OF assms(1)] assms(3) by auto
qed (use assms(3) in simp_all)

lemma held_alive:
  assumes "safe held w" "a \<in> set held"
  shows "event_heap w a \<noteq> None"
  using refs_alive(1) [of held w a] assms by (auto simp: safe_def bus_inv_def)

lemma calm_requests:
  assumes "calm eps n held w" "ev \<in> set held" "\<And>r. r \<in> set rs \<Longrightarrow> courteous eps n r"
    "\<And>q. Forward q \<in> set rs \<Longrightarrow> plain w ev" "0 < n"
  shows "\<exists>w'. exec_requests p ev rs w = Some w' \<and> calm eps n held w' \<and> grows w w'"
  using assms(1-4)
proof (induction rs arbitrary: w)
  case (Cons r rs)
  obtain w1 where w1: "exec_request p ev r w = Some w1" "calm eps n held w1" "grows w w1"
    using calm_request [OF Cons.prems(1) disjI1 [OF Cons.prems(2)], of r p] Cons.prems(3,4) assms(5) by auto
  have "plain w1 ev" if "Forward q \<in> set rs" for q
    using Cons.prems(4) [of q] that
    by (intro grows_plain [OF w1(3) _ calmD(1) [OF Cons.prems(1)] held_alive [OF calmD(1) [OF w1(2)] Cons.prems(2)]]) simp
  then obtain w2 where "exec_requests p ev rs w1 = Some w2" "calm eps n held w2" "grows w1 w2"
    using Cons.IH [OF w1(2) Cons.prems(2)] Cons.prems(3) by auto
  then show ?case using w1(1) grows_trans [OF w1(3)] by auto
qed auto

lemma calm_react:
  assumes "calm eps n held w" "ev \<in> set held" "\<And>r. r \<in> set (snd reaction) \<Longrightarrow> courteous eps n r"
    "\<And>q. Forward q \<in> set (snd reaction) \<Longrightarrow> plain w ev" "0 < n"
  shows "\<exists>w'. react p ev reaction w = Some w' \<and> calm eps n held w' \<and> grows w w'"
proof -
  let ?w = "w\<lparr>local_state := (local_state w)(p := fst reaction)\<rparr>"
  have c: "calm eps n held ?w"
    by (rule calm_same_queues [OF assms(1) grows_local safe_local [OF calmD(1) [OF assms(1)]]]) (simp add: queue_def)
  have "plain ?w ev" if "plain w ev" using that by (simp add: plain_def event_info_def)
  then show ?thesis
    using calm_requests [OF c assms(2), of "snd reaction" p] assms(3-5) grows_trans [OF grows_local] by (fastforce simp: react_def)
qed

section \<open>Publishing\<close>

text \<open>A subscriber is an endpoint with a processor.\<close>

definition reached :: "('p, 'c, 'l) world \<Rightarrow> nat \<Rightarrow> nat \<Rightarrow> bool" where
  "reached w ev ep \<longleftrightarrow> (\<forall>p. map_option m_true_handler (endpoints w ep) = Some p \<longrightarrow> ev \<in> set (queue w p))"

lemma grows_reached:
  assumes "grows w w'" "reached w ev ep" "endpoints_ok w"
  shows "reached w' ev ep"
  unfolding reached_def
proof (intro allI impI)
  fix p assume "map_option m_true_handler (endpoints w' ep) = Some p"
  then have "map_option m_true_handler (endpoints w ep) = Some p" using growsD(8) [OF assms(1), of ep] by simp
  moreover from this have "p < length (processors w)" using assms(3) by (auto simp: endpoints_ok_def)
  ultimately show "ev \<in> set (queue w' p)" using growsD(4) [OF assms(1)] assms(2) by (fastforce simp: reached_def)
qed

lemma calm_endpoints: "calm eps n held w \<Longrightarrow> endpoints_ok w"
  by (simp add: calm_def safe_def subs_ok_def)

lemma calm_publish:
  assumes "calm eps n (ev # held) w" "plain w ev" "\<And>ep. ep \<in> set targets \<Longrightarrow> \<exists>ty. ep \<in> set (subscribers w ty)"
  shows "\<exists>w'. publish_to targets ev w = Some w' \<and> calm eps n (ev # held) w' \<and> grows w w' \<and>
    (\<forall>ep \<in> set targets. reached w' ev ep)"
  using assms
proof (induction targets arbitrary: w)
  case (Cons ep targets)
  note c = calmD [OF Cons.prems(1)]
  have "subs_ok w" using c(1) by (simp add: safe_def)
  then obtain h where h: "endpoints w ep = Some h" "m_true_handler h \<noteq> the_bus" "m_true_handler h < n"
    using Cons.prems(3) [of ep] subscriber_alive [of w ep] c(2) by auto
  obtain w1 where w1: "shallow_copy ev w = Some w1" "calm eps n (ev # ev # held) w1" "grows w w1"
    using calm_copy [OF Cons.prems(1), of ev] by auto
  have p1: "plain w1 ev" by (rule grows_plain [OF w1(3) Cons.prems(2) c(1) held_alive [OF calmD(1) [OF w1(2)]]]) simp
  obtain w2 where w2: "event_putq (m_true_handler h) ev w1 = Some w2" "calm eps n (ev # held) w2" "grows w1 w2"
      "ev \<in> set (queue w2 (m_true_handler h))"
    using calm_put [OF w1(2) h(3) _ h(2)] p1 by (auto simp: event_ready_def)
  have g: "grows w w2" by (rule grows_trans [OF w1(3) w2(3)])
  have p2: "plain w2 ev" by (rule grows_plain [OF g Cons.prems(2) c(1) held_alive [OF calmD(1) [OF w2(2)]]]) simp
  have r2: "reached w2 ev ep" using w2(4) h(1) growsD(8) [OF g, of ep] by (auto simp: reached_def)
  have "\<exists>ty. ep' \<in> set (subscribers w2 ty)" if "ep' \<in> set targets" for ep'
  proof -
    obtain ty where "ep' \<in> set (subscribers w ty)" using Cons.prems(3) [of ep'] \<open>ep' \<in> set targets\<close> by auto
    then show ?thesis using growsD(7) [OF g, of ty] by (intro exI [of _ ty]) auto
  qed
  then obtain w3 where w3: "publish_to targets ev w2 = Some w3" "calm eps n (ev # held) w3" "grows w2 w3"
      "\<forall>ep \<in> set targets. reached w3 ev ep"
    using Cons.IH [OF w2(2) p2] by blast
  have "reached w3 ev ep" by (rule grows_reached [OF w3(3) r2 calm_endpoints [OF w2(2)]])
  then show ?case using h(1) w1(1) w2(1) w3 grows_trans [OF g w3(3)] by auto
qed auto

lemma calm_do_publish:
  assumes "calm eps n (ev # held) w" "plain w ev" "event_heap w ev = Some e" "m_ref_count e = 1"
  shows "\<exists>w'. do_publish ev w = Some w' \<and> calm eps n (ev # held) w' \<and> grows w w' \<and>
    (\<forall>ep \<in> set (subscribers w ALL_EVENTS) \<union> set (subscribers w (m_type_id e)). reached w' ev ep)"
proof -
  have sub: "subs_ok w" using calmD(1) [OF assms(1)] by (simp add: safe_def)
  obtain w1 where w1: "publish_to (m_catch_all_subscribers w) ev w = Some w1" "calm eps n (ev # held) w1" "grows w w1"
      "\<forall>ep \<in> set (m_catch_all_subscribers w). reached w1 ev ep"
    using calm_publish [OF assms(1,2), of "m_catch_all_subscribers w"]
    by (metis (no_types) subscribers_def)
  have p1: "plain w1 ev"
    by (rule grows_plain [OF w1(3) assms(2) calmD(1) [OF assms(1)] held_alive [OF calmD(1) [OF w1(2)]]]) simp
  have s1: "static w1 = static w" by (rule static_publish [OF w1(1)])
  have all: "subscribers w ALL_EVENTS = m_catch_all_subscribers w" by (simp add: subscribers_def)
  show ?thesis
  proof (cases "m_specific_subscriber_map w (m_type_id e)")
    case None
    then have "set (subscribers w (m_type_id e)) \<subseteq> set (m_catch_all_subscribers w)" by (simp add: subscribers_def)
    moreover have "do_publish ev w = Some w1" using w1(1) s1 None assms(3,4) by (simp add: do_publish_def static_def)
    ultimately show ?thesis using w1 all by (intro exI [of _ w1]) auto
  next
    case (Some targets)
    then have ty: "m_type_id e \<noteq> ALL_EVENTS" using sub by (auto simp: subs_ok_def)
    then have t: "subscribers w (m_type_id e) = targets" using Some by (simp add: subscribers_def)
    have "subscribers w1 (m_type_id e) = targets" using t subscribers_static [OF s1] by simp
    then obtain w2 where w2: "publish_to targets ev w1 = Some w2" "calm eps n (ev # held) w2" "grows w1 w2"
        "\<forall>ep \<in> set targets. reached w2 ev ep"
      using calm_publish [OF w1(2) p1, of targets] by blast
    have "do_publish ev w = Some w2" using w1(1) w2(1) s1 Some assms(3,4) by (simp add: do_publish_def static_def)
    moreover have "\<forall>ep \<in> set (m_catch_all_subscribers w). reached w2 ev ep"
      using w1(4) grows_reached [OF w2(3) _ calm_endpoints [OF w1(2)]] by blast
    ultimately show ?thesis using w2 grows_trans [OF w1(3) w2(3)] all t by (intro exI [of _ w2]) auto
  qed
qed

section \<open>Turns\<close>

definition taken :: "nat \<Rightarrow> ('p, 'c, 'l) world \<Rightarrow> ('p, 'c, 'l) world" where
  "taken p w = update_processor p (\<lambda>q. q\<lparr>msg_queue := tl (msg_queue q)\<rparr>) w"

lemma queue_taken: "p < length (processors w) \<Longrightarrow> queue (taken p w) q = (if q = p then tl (queue w p) else queue w q)"
  by (simp add: taken_def queue_def update_processor_def nth_list_update)

lemma taken_keeps [simp]:
  "event_heap (taken p w) = event_heap w" "timer_queue (taken p w) = timer_queue w" "endpoints (taken p w) = endpoints w"
  "length (processors (taken p w)) = length (processors w)" "subscribers (taken p w) = subscribers w"
  "next_addr (taken p w) = next_addr w" "event_info (taken p w) = event_info w" "plain (taken p w) = plain w"
  "access_timer q tid (taken p w) = access_timer q tid w" "timer_ready (taken p w) = timer_ready w"
  by (cases "p < length (processors w)";
      auto simp: taken_def update_processor_def subscribers_def event_info_def plain_def timer_ready_def access_timer_def
        fun_eq_iff nth_list_update list_update_beyond)+

lemma calm_taken:
  assumes "calm eps n [] w" "p < n" "queue w p = mb # rest"
  shows "calm eps n [mb] (taken p w)"
proof (rule calmI)
  note c = calmD [OF assms(1)]
  have same: "update_processor p (\<lambda>q. q\<lparr>msg_queue := rest\<rparr>) w = taken p w"
    using assms(3) by (simp add: taken_def update_processor_def queue_def)
  show "safe [mb] (taken p w)"
    using safe_take [OF c(1), of p mb rest] assms(2,3) c(2) unfolding same by (simp add: queue_def)
  show "thr_count (processors (taken p w) ! q) \<noteq> 0" if "q < n" for q
    using c(2) c(4) [OF that] that assms(2) by (simp add: taken_def update_processor_def nth_list_update)
  show "event_ready (taken p w) q a" if "q < n" "a \<in> set (queue (taken p w) q)" for q a
  proof -
    have "a \<in> set (queue w q)"
      using that assms(2,3) c(2) by (auto simp: queue_taken split: if_splits)
    then show ?thesis using c(5) [OF that(1)] by (simp add: event_ready_def)
  qed
qed (use calmD [OF assms(1)] in simp_all)

text \<open>A turn with an event in the queue takes the event out and lets the world grow; a plain event is
  handled, and one handled by the bus reaches all subscribers.\<close>

lemma calm_turn:
  assumes "calm eps n [] w" "courteous_handlers eps n H" "p < n" "queue w p = mb # rest"
  shows "\<exists>w' out. svc_turn H p w = Some (w', out) \<and> calm eps n [] w' \<and> grows (taken p w) w' \<and>
    (plain w mb \<longrightarrow> (p, mb) \<in> set out \<and> (p = the_bus \<longrightarrow>
      (\<forall>ty d. event_info w mb = Some (ty, d) \<longrightarrow>
        (\<forall>ep \<in> set (subscribers w ALL_EVENTS) \<union> set (subscribers w ty). reached w' mb ep))))"
proof -
  note c = calmD [OF assms(1)]
  let ?w = "taken p w"
  have ct: "calm eps n [mb] ?w" by (rule calm_taken [OF assms(1,3,4)])
  have ready: "event_ready w p mb" using c(5) [OF assms(3)] assms(4) by simp
  then obtain e where e: "event_heap w mb = Some e" "m_type_id e \<noteq> evFinish"
    by (auto simp: event_ready_def plain_def event_info_def evFinish_def evTimeout_def)
  have n: "0 < n" using assms(3) by simp
  have same: "update_processor p (\<lambda>q. q\<lparr>msg_queue := rest\<rparr>) w = ?w"
    using assms(4) by (simp add: taken_def update_processor_def queue_def)
  have turn: "svc_turn H p w =
       (if m_type_id e = evTimeout
         then (case ev_data e of
             Timeout_data arrival_time tid \<Rightarrow> do { w \<leftarrow> run_timer H p mb arrival_time tid ?w; w \<leftarrow> release mb w; Some (w, []) }
           | _ \<Rightarrow> None)
         else do { w \<leftarrow> dispatch_event H p mb ?w; w \<leftarrow> release mb w; Some (w, [(p, mb)]) })"
    using assms(3,4) c(2) c(4) [OF assms(3)] e same by (simp add: svc_turn_def queue_def)
  show ?thesis
  proof (cases "m_type_id e = evTimeout")
    case True
    then obtain now tid where d: "ev_data e = Timeout_data now tid" "timer_ready w p tid"
      using ready e by (auto simp: event_ready_def plain_def event_info_def)
    then obtain t cb where t: "access_timer p tid w = Some t" "m_callback t = Some cb" by (auto simp: timer_ready_def)
    obtain w1 where w1: "react p mb (on_timer H p cb now (local_state ?w p)) ?w = Some w1" "calm eps n [mb] w1" "grows ?w w1"
      using calm_react [OF ct, of mb "on_timer H p cb now (local_state ?w p)" p] assms(2) n
      by (fastforce simp: courteous_handlers_def)
    obtain w2 where w2: "release mb w1 = Some w2" "calm eps n [] w2" "grows w1 w2" using calm_release [OF w1(2)] by blast
    have "\<not> plain w mb" using True e by (simp add: plain_def event_info_def)
    then show ?thesis
      using w1 w2 True d t grows_trans [OF w1(3) w2(3)] unfolding turn by (simp add: run_timer_def)
  next
    case False
    then have pl: "plain w mb" using e by (simp add: plain_def event_info_def)
    have "\<exists>w1. dispatch_event H p mb ?w = Some w1 \<and> calm eps n [mb] w1 \<and> grows ?w w1 \<and> (p = the_bus \<longrightarrow>
        (\<forall>ep \<in> set (subscribers w ALL_EVENTS) \<union> set (subscribers w (m_type_id e)). reached w1 mb ep))"
    proof (cases "p = the_bus")
      case True
      then have "m_ref_count e = 1" using taken_by_bus [OF c(1), of mb rest] assms(4) e by (auto simp: queue_def)
      then show ?thesis using calm_do_publish [OF ct, of e] pl e True by (auto simp: dispatch_event_def)
    next
      case no: False
      have "plain ?w mb" using pl by simp
      then have "\<exists>w1. react p mb (on_event H p (m_type_id e) (ev_data e) (local_state ?w p)) ?w = Some w1 \<and>
          calm eps n [mb] w1 \<and> grows ?w w1"
        using assms(2) n by (intro calm_react [OF ct]) (auto simp: courteous_handlers_def)
      then show ?thesis using no e by (auto simp: dispatch_event_def)
    qed
    then obtain w1 where w1: "dispatch_event H p mb ?w = Some w1" "calm eps n [mb] w1" "grows ?w w1"
        "p = the_bus \<longrightarrow> (\<forall>ep \<in> set (subscribers w ALL_EVENTS) \<union> set (subscribers w (m_type_id e)). reached w1 mb ep)"
      by blast
    obtain w2 where w2: "release mb w1 = Some w2" "calm eps n [] w2" "grows w1 w2" using calm_release [OF w1(2)] by blast
    have "svc_turn H p w = Some (w2, [(p, mb)])" using False w1(1) w2(1) unfolding turn by simp
    moreover have "reached w2 mb ep" if "reached w1 mb ep" for ep
      by (rule grows_reached [OF w2(3) that calm_endpoints [OF w1(2)]])
    moreover have "event_info w mb = Some (m_type_id e, ev_data e)" using e by (simp add: event_info_def)
    ultimately show ?thesis using w1(4) w2(2) grows_trans [OF w1(3) w2(3)] by auto
  qed
qed

end
