(* ===== verification/Event_Bus_Liveness.thy ===== *)
theory Event_Bus_Liveness
  imports Event_Bus_Delivery
begin

text \<open>Runs of courteous services never fail, and every queued event is delivered.\<close>

fun orderly :: "(nat \<Rightarrow> nat option) \<Rightarrow> nat \<Rightarrow> ('p, 'c) happening \<Rightarrow> bool" where
  "orderly eps n (Turn p) = True"
| "orderly eps n (Due s now) = True"
| "orderly eps n (Main r) = (courteous eps n r \<and> (\<forall>q. r \<noteq> Forward q))"
| "orderly eps n (Shutdown p) = False"

lemma calm_due:
  assumes "calm eps n [] w"
  shows "\<exists>w'. handle_timeout s now w = Some w' \<and> calm eps n [] w' \<and> grows w w'"
proof (cases "timer_queue w s")
  case None
  then show ?thesis using assms by (simp add: handle_timeout_def)
next
  case (Some entry)
  then obtain p tid once where q: "timer_queue w s = Some (p, tid, once)" by (cases entry) auto
  then obtain t cb where t: "access_timer p tid w = Some t" "m_target t = Some p" "m_callback t = Some cb"
    using calmD(6) [OF assms q] by (auto simp: timer_ready_def)
  let ?w = "if once then w\<lparr>timer_queue := (timer_queue w)(s := None)\<rparr> else w"
  have g: "grows w ?w"
    by (rule growsI) (auto simp: event_info_def queue_def subscribers_def map_le_def)
  have "bus_inv [] ?w" using calmD(1) [OF assms] by (simp add: safe_def bus_inv_timer_queue)
  then have "safe [] ?w" by (intro safe_static [OF calmD(1) [OF assms]]) simp_all
  then have c: "calm eps n [] ?w" by (intro calm_same_queues [OF assms g]) (simp_all add: queue_def)
  have "timer_ready ?w p tid" using grows_timer_ready [OF g] t by (simp add: timer_ready_def)
  moreover have "p < n" using t(1) calmD(2) [OF assms] by (auto simp: access_timer_def split: if_splits)
  ultimately obtain w' where "event_putq p (fst (new_event evTimeout (Timeout_data now tid) ?w))
      (snd (new_event evTimeout (Timeout_data now tid) ?w)) = Some w'" "calm eps n [] w'" "grows ?w w'"
    using calm_new_put [OF c, of p evTimeout "Timeout_data now tid"] by auto
  then show ?thesis
    using q t grows_trans [OF g] by (auto simp: handle_timeout_def case_prod_beta Let_def)
qed

text \<open>What one happening does.\<close>

definition advances :: "('p, 'c) happening \<Rightarrow> ('p, 'c, 'l) world \<Rightarrow> ('p, 'c, 'l) world \<Rightarrow> (nat \<times> nat) list \<Rightarrow> bool" where
  "advances h w w' out \<longleftrightarrow>
    (\<exists>p mb rest. h = Turn p \<and> p < length (processors w) \<and> queue w p = mb # rest \<and> grows (taken p w) w' \<and>
      (plain w mb \<longrightarrow> (p, mb) \<in> set out \<and> (p = the_bus \<longrightarrow>
        (\<forall>ty d. event_info w mb = Some (ty, d) \<longrightarrow>
          (\<forall>ep \<in> set (subscribers w ALL_EVENTS) \<union> set (subscribers w ty). reached w' mb ep))))) \<or>
    grows w w' \<and> (\<forall>p < length (processors w). h = Turn p \<longrightarrow> queue w p = [])"

lemma calm_happen:
  assumes "calm eps n [] w" "courteous_handlers eps n H" "orderly eps n h" "0 < n"
  shows "\<exists>w' out. happen H h w = Some (w', out) \<and> calm eps n [] w' \<and> advances h w w' out"
proof (cases h)
  case (Turn p)
  note c = calmD [OF assms(1)]
  show ?thesis
  proof (cases "p < n \<and> queue w p \<noteq> []")
    case True
    then obtain mb rest where q: "p < n" "queue w p = mb # rest" by (auto simp: neq_Nil_conv)
    then show ?thesis
      using calm_turn [OF assms(1,2) q] Turn c(2) unfolding advances_def by fastforce
  next
    case False
    then have "svc_turn H p w = Some (w, [])" using c(2) c(4) [of p] by (auto simp: svc_turn_def queue_def)
    then show ?thesis using assms(1) Turn False c(2) by (auto simp: advances_def)
  qed
next
  case (Due s now)
  then show ?thesis using calm_due [OF assms(1), of s now] by (auto simp: advances_def)
next
  case (Main r)
  then show ?thesis
    using calm_request [OF assms(1), of finish_instance r the_bus] assms(3,4) by (auto simp: advances_def)
qed (use assms(3) in simp)

lemma calm_run:
  assumes "calm eps n [] w" "courteous_handlers eps n H" "\<forall>h \<in> set hs. orderly eps n h" "0 < n"
  shows "\<exists>w' out. run H hs w = Some (w', out) \<and> calm eps n [] w'"
  using assms(1,3)
proof (induction hs arbitrary: w)
  case (Cons h hs)
  then obtain w1 o1 where w1: "happen H h w = Some (w1, o1)" "calm eps n [] w1"
    using calm_happen [OF _ assms(2) _ assms(4)] by (metis list.set_intros(1))
  then obtain w2 o2 where "run H hs w1 = Some (w2, o2)" "calm eps n [] w2"
    using Cons.IH [OF w1(2)] Cons.prems(2) by (metis list.set_intros(2))
  then show ?case using w1 by auto
qed simp

text \<open>An event in a queue moves forward with every turn of its processor.\<close>

definition still :: "('p, 'c, 'l) world \<Rightarrow> nat \<Rightarrow> nat \<Rightarrow> nat \<Rightarrow> bool" where
  "still w p k a \<longleftrightarrow> (\<exists>before after. queue w p = before @ a # after \<and> length before \<le> k) \<and> plain w a"

lemma still_grows:
  assumes "grows w w'" "safe held w" "safe [] w'" "p < length (processors w)" "still w p k a"
  shows "still w' p k a"
proof -
  obtain before after where q: "queue w p = before @ a # after" "length before \<le> k" "plain w a"
    using assms(5) by (auto simp: still_def)
  obtain more where m: "queue w' p = before @ a # (after @ more)" using growsD(4) [OF assms(1,4)] q(1) by auto
  have "event_heap w' a \<noteq> None"
    by (rule queued_alive [OF assms(3)]) (use m growsD(3) [OF assms(1)] assms(4) in auto)
  then have "plain w' a" by (rule grows_plain [OF assms(1) q(3) assms(2)])
  with m q(2) show ?thesis unfolding still_def by blast
qed

lemma still_taken:
  assumes "still w p k a" "q < length (processors w)" "p < length (processors w)" "q = p \<Longrightarrow> hd (queue w p) \<noteq> a"
  shows "still (taken q w) p (if q = p then k - 1 else k) a \<and> (q = p \<longrightarrow> 0 < k)"
proof -
  obtain before after where q: "queue w p = before @ a # after" "length before \<le> k" "plain w a"
    using assms(1) by (auto simp: still_def)
  show ?thesis
  proof (cases "q = p")
    case True
    then obtain b bs where "before = b # bs" using q(1) assms(4) by (cases before) auto
    then show ?thesis using q True assms(3) by (auto simp: still_def queue_taken)
  next
    case False
    then show ?thesis using assms(1,2) by (simp add: still_def queue_taken)
  qed
qed

text \<open>What a happening does to an event of a queue that it does not take: the world it starts from, after
  the turn has taken its event, grows.\<close>

lemma passed_over:
  assumes "calm eps n [] w" "calm eps n [] w'" "advances h w w' out" "p < n" "still w p k a"
    "h = Turn p \<Longrightarrow> hd (queue w p) \<noteq> a"
  shows "still w' p (if h = Turn p then k - 1 else k) a \<and> (h = Turn p \<longrightarrow> 0 < k) \<and>
    event_info w' a = event_info w a \<and> set (subscribers w ty) \<subseteq> set (subscribers w' ty)"
proof -
  note c = calmD [OF assms(1)] and c' = calmD [OF assms(2)]
  have info: "event_info w' a = event_info w a \<and> set (subscribers w ty) \<subseteq> set (subscribers w' ty)"
    if "grows v w'" "event_info v = event_info w" "next_addr v = next_addr w" "subscribers v = subscribers w" "still w' p j a" for v j
  proof -
    have "a < next_addr w" using assms(5) alive_address [OF c(1), of a] by (auto simp: still_def plain_def)
    moreover have "event_info w' a \<noteq> None" using that(5) by (auto simp: still_def plain_def)
    ultimately show ?thesis using growsD(2) [OF that(1), of a] growsD(7) [OF that(1), of ty] that(2-4) by auto
  qed
  from assms(3) show ?thesis unfolding advances_def
  proof (elim disjE exE conjE)
    fix q mb rest assume t: "h = Turn q" "q < length (processors w)" "queue w q = mb # rest" "grows (taken q w) w'"
    have s: "safe [mb] (taken q w)" using calmD(1) [OF calm_taken [OF assms(1) _ t(3)]] t(2) c(2) by simp
    have f: "still (taken q w) p (if q = p then k - 1 else k) a \<and> (q = p \<longrightarrow> 0 < k)"
      using t(1) c(2) assms(4,6) by (intro still_taken [OF assms(5) t(2)]) auto
    then have "still w' p (if q = p then k - 1 else k) a"
      using c(2) assms(4) by (intro still_grows [OF t(4) s c'(1)]) auto
    then show ?thesis using f info [OF t(4)] t(1) by auto
  next
    assume g: "grows w w'" "\<forall>p < length (processors w). h = Turn p \<longrightarrow> queue w p = []"
    then have "h \<noteq> Turn p" using assms(4,5) c(2) by (auto simp: still_def)
    moreover have "still w' p k a" using still_grows [OF g(1) c(1) c'(1) _ assms(5)] c(2) assms(4) by simp
    ultimately show ?thesis using info [OF g(1)] by auto
  qed
qed

lemma still_advances:
  assumes "calm eps n [] w" "calm eps n [] w'" "advances h w w' out" "p < n" "still w p k a"
  shows "(p, a) \<in> set out \<or> still w' p (if h = Turn p then k - 1 else k) a \<and> (h = Turn p \<longrightarrow> 0 < k)"
proof (cases "h = Turn p \<and> hd (queue w p) = a")
  case True
  moreover have "queue w p \<noteq> []" "plain w a" using assms(5) by (auto simp: still_def)
  ultimately show ?thesis using assms(3,4) calmD(2) [OF assms(1)] by (auto simp: advances_def)
next
  case False
  then show ?thesis using passed_over [OF assms] by auto
qed

lemma run_cons:
  assumes "run H (h # hs) w = Some (w', out)"
  obtains w1 o1 o2 where "happen H h w = Some (w1, o1)" "run H hs w1 = Some (w', o2)" "out = o1 @ o2"
  using assms by (auto simp: Option.bind_eq_Some_conv)

text \<open>Enough turns of a processor handle an event of its queue.\<close>

lemma handled_in_time:
  assumes "calm eps n [] w" "courteous_handlers eps n H" "\<forall>h \<in> set hs. orderly eps n h" "0 < n" "p < n"
    "still w p k a" "k < count_list hs (Turn p)" "run H hs w = Some (w', out)"
  shows "(p, a) \<in> set out"
  using assms(1,3,6-8)
proof (induction hs arbitrary: w k out)
  case (Cons h hs)
  obtain w1 o1 o2 where r: "happen H h w = Some (w1, o1)" "run H hs w1 = Some (w', o2)" "out = o1 @ o2"
    using Cons.prems(5) by (rule run_cons)
  have w1: "calm eps n [] w1" "advances h w w1 o1"
    using calm_happen [OF Cons.prems(1) assms(2) _ assms(4), of h] Cons.prems(2) r(1) by auto
  have orderly: "\<forall>h \<in> set hs. orderly eps n h" using Cons.prems(2) by simp
  have "(p, a) \<in> set o1 \<or> still w1 p (if h = Turn p then k - 1 else k) a \<and>
      (if h = Turn p then k - 1 else k) < count_list hs (Turn p)"
    using still_advances [OF Cons.prems(1) w1 assms(5) Cons.prems(3)] Cons.prems(4) by auto
  then show ?case using Cons.IH [OF w1(1) orderly _ _ r(2)] r(3) by auto
qed simp

text \<open>An event of the bus queue, with enough turns of the bus, is delivered to a subscriber, or it is in
  the queue of the subscriber.\<close>

definition arrived :: "('p, 'c, 'l) world \<Rightarrow> nat \<Rightarrow> nat \<Rightarrow> bool" where
  "arrived w p a \<longleftrightarrow> a \<in> set (queue w p) \<and> plain w a"

lemma arrived_still: "arrived w p a \<longleftrightarrow> still w p (length (queue w p) - 1) a"
proof
  assume "arrived w p a"
  then obtain before after where "queue w p = before @ a # after" "plain w a"
    by (auto simp: arrived_def dest: split_list)
  then show "still w p (length (queue w p) - 1) a" by (auto simp: still_def)
qed (auto simp: still_def arrived_def)

lemma still_arrived: "still w p k a \<Longrightarrow> arrived w p a"
  by (auto simp: still_def arrived_def)

lemma stays_arrived:
  assumes "calm eps n [] w" "courteous_handlers eps n H" "\<forall>h \<in> set hs. orderly eps n h" "0 < n" "p < n"
    "arrived w p a" "run H hs w = Some (w', out)"
  shows "(p, a) \<in> set out \<or> arrived w' p a"
  using assms(1,3,6,7)
proof (induction hs arbitrary: w out)
  case (Cons h hs)
  obtain w1 o1 o2 where r: "happen H h w = Some (w1, o1)" "run H hs w1 = Some (w', o2)" "out = o1 @ o2"
    using Cons.prems(4) by (rule run_cons)
  have w1: "calm eps n [] w1" "advances h w w1 o1"
    using calm_happen [OF Cons.prems(1) assms(2) _ assms(4), of h] Cons.prems(2) r(1) by auto
  have "(p, a) \<in> set o1 \<or> arrived w1 p a"
    using still_advances [OF Cons.prems(1) w1 assms(5)] Cons.prems(3) still_arrived unfolding arrived_still [of w] by blast
  then show ?case using Cons.IH [OF w1(1) _ _ r(2)] Cons.prems(2) r(3) by auto
qed auto

lemma published:
  assumes "calm eps n [] w" "courteous_handlers eps n H" "\<forall>h \<in> set hs. orderly eps n h" "0 < n"
    "still w the_bus k a" "event_info w a = Some (ty, d)" "k < count_list hs (Turn the_bus)"
    "ep \<in> set (subscribers w ALL_EVENTS) \<union> set (subscribers w ty)" "eps ep = Some p" "p < n"
    "run H hs w = Some (w', out)"
  shows "(p, a) \<in> set out \<or> arrived w' p a"
  using assms(1,3,5-8,11)
proof (induction hs arbitrary: w k out)
  case (Cons h hs)
  note c = calmD [OF Cons.prems(1)]
  obtain w1 o1 o2 where r: "happen H h w = Some (w1, o1)" "run H hs w1 = Some (w', o2)" "out = o1 @ o2"
    using Cons.prems(7) by (rule run_cons)
  have w1: "calm eps n [] w1" "advances h w w1 o1"
    using calm_happen [OF Cons.prems(1) assms(2) _ assms(4), of h] Cons.prems(2) r(1) by auto
  have orderly: "\<forall>h \<in> set hs. orderly eps n h" using Cons.prems(2) by simp
  have alive: "event_heap w a \<noteq> None" using Cons.prems(4) by (auto simp: event_info_def)
  have bus: "the_bus < n" using assms(4) by (simp add: the_bus_def)
  show ?case
  proof (cases "\<exists>rest. h = Turn the_bus \<and> queue w the_bus = a # rest")
    case True
    then have "reached w1 a ep" "plain w a" "grows (taken the_bus w) w1"
      using w1(2) Cons.prems(3,4,6) bus c(2) by (auto simp: advances_def still_def)
    moreover have "map_option m_true_handler (endpoints w1 ep) = Some p" using calmD(3) [OF w1(1)] assms(9) by simp
    ultimately have q: "a \<in> set (queue w1 p)" by (simp add: reached_def)
    have "event_heap w1 a \<noteq> None"
      by (rule queued_alive [OF calmD(1) [OF w1(1)] _ q]) (simp add: calmD(2) [OF w1(1)] assms(10))
    moreover obtain rest where "queue w the_bus = a # rest" using True by blast
    ultimately have "plain w1 a"
      using grows_plain [OF \<open>grows (taken the_bus w) w1\<close> _ calmD(1) [OF calm_taken [OF Cons.prems(1) bus]], of a a rest]
        \<open>plain w a\<close> by simp
    with q have "arrived w1 p a" by (simp add: arrived_def)
    then show ?thesis using stays_arrived [OF w1(1) assms(2) orderly assms(4,10) _ r(2)] r(3) by auto
  next
    case False
    have "hd (queue w the_bus) \<noteq> a" if "h = Turn the_bus"
      using False that Cons.prems(3) by (cases "queue w the_bus") (auto simp: still_def)
    note over = passed_over [OF Cons.prems(1) w1 bus Cons.prems(3) this]
    have s: "still w1 the_bus (if h = Turn the_bus then k - 1 else k) a" "h = Turn the_bus \<longrightarrow> 0 < k"
      "event_info w1 a = Some (ty, d)" using over Cons.prems(4) by auto
    have "ep \<in> set (subscribers w1 ALL_EVENTS) \<union> set (subscribers w1 ty)" using over Cons.prems(6) by blast
    moreover have "(if h = Turn the_bus then k - 1 else k) < count_list hs (Turn the_bus)"
      using s(2) Cons.prems(5) by auto
    ultimately have "(p, a) \<in> set o2 \<or> arrived w' p a"
      using Cons.IH [OF w1(1) orderly s(1,3) _ _ r(2)] by blast
    then show ?thesis using r(3) by auto
  qed
qed simp

section \<open>The beginning\<close>

lemma calm_start:
  assumes "proper_endpoints eps threads" "0 \<notin> set threads" "start_world threads eps l statistics = Some w"
  shows "calm eps (length threads) [] w"
proof -
  have t: "threads \<noteq> []" using assms(3) by (auto simp: start_world_def split: if_splits)
  have w: "length (processors w) = length threads \<and>
      (\<forall>ep. map_option m_true_handler (endpoints w ep) = eps ep) \<and>
      (\<forall>p < length threads. thr_count (processors w ! p) = threads ! p \<and> queue w p = []) \<and>
      (\<forall>s p tid once. timer_queue w s = Some (p, tid, once) \<longrightarrow> timer_ready w p tid)"
    using assms(3) t
    by (auto simp: start_world_def addTimer_def startTimer_def timer_start_def store_timer_def access_timer_def
        update_processor_def new_processor_def new_timer_def Let_def nth_list_update queue_def timer_ready_def the_bus_def
        option.map_comp o_def option.map_ident split: if_splits)
  have "threads ! p \<noteq> 0" if "p < length threads" for p using assms(2) that by (metis nth_mem)
  moreover have ready: "timer_ready w p tid" if "timer_queue w s = Some (p, tid, once)" for s p tid once
    using w that by blast
  ultimately show ?thesis using w by (intro calmI safe_start [OF assms(1,3)]) (auto intro: ready)
qed

end
