(* ===== verification/Event_Bus_Properties.thy ===== *)
theory Event_Bus_Properties
  imports Event_Bus_Liveness
begin

text \<open>The properties of the event system.\<close>

section \<open>An example: one service with an endpoint\<close>

definition example_endpoints :: "nat \<Rightarrow> nat option" where
  "example_endpoints = [5 \<mapsto> 1]"

text \<open>The service answers every event of type 7 with one of type 8.\<close>

definition example_service :: "(nat, nat, nat) handlers" where
  "example_service = \<lparr>on_event = \<lambda>p ty d l. (l + 1, if ty = 7 then [Post 8 l] else []), on_timer = \<lambda>p c t l. (l, [])\<rparr>"

definition example_setup :: "(nat, nat) happening list" where
  "example_setup = [Main (Subscribe 5 7), Main (Post 7 0)]"

lemma example_careful:
  "proper_endpoints example_endpoints [1, 1]" "careful_handlers example_service"
  "\<forall>h \<in> set example_setup. careful_happening h"
  "courteous_handlers example_endpoints 2 example_service" "\<forall>h \<in> set example_setup. orderly example_endpoints 2 h"
  by (simp_all add: proper_endpoints_def example_endpoints_def the_bus_def careful_handlers_def example_service_def
      example_setup_def careful_happening_def courteous_handlers_def evFinish_def evTimeout_def)

lemma example_run:
  "\<exists>w0 w w1. start_world [1, 1] example_endpoints (\<lambda>p. 0) 0 = Some w0 \<and> run example_service example_setup w0 = Some (w, []) \<and>
     length (processors w) = 2 \<and> msg_queue (processors w ! the_bus) = [1] \<and> msg_queue (processors w ! 1) = [] \<and>
     thr_count (processors w ! the_bus) = 1 \<and>
     event_heap w 1 = Some \<lparr>m_type_id = 7, m_ref_count = 1, ev_data = Event_data 0\<rparr> \<and>
     subscribers w 7 = [5] \<and> run example_service [Turn the_bus] w = Some (w1, [(the_bus, 1)]) \<and>
     msg_queue (processors w1 ! 1) = [1]"
  by (simp add: svc_turn_def dispatch_event_def do_publish_def shallow_copy_def release_def evFinish_def evTimeout_def example_setup_def start_world_def addTimer_def startTimer_def timer_start_def store_timer_def access_timer_def
      update_processor_def new_processor_def new_timer_def Let_def nth_list_update the_bus_def example_endpoints_def
      subscribe_def bus_subscribe_def ALL_EVENTS_def postGlobalEvent_def new_event_def event_putq_def subscribers_def)

section \<open>References\<close>

text \<open>C11. In every world that the event system reaches, every event in a queue is alive, and its counter is
  at least the number of places it has in queues, as long as no handler puts the event it handles into
  the queue of the bus: no receiver finds a deleted event.\<close>

theorem queued_events_alive:
  assumes "proper_endpoints eps threads" "careful_handlers H"
    and "start_world threads eps l statistics = Some w0" "\<forall>h \<in> set hs. careful_happening h"
    and "run H hs w0 = Some (w, out)"
    and "p < length (processors w)" "a \<in> set (msg_queue (processors w ! p))"
  shows "\<exists>e. event_heap w a = Some e \<and> int (occurrences w a) \<le> m_ref_count e"
proof -
  have "safe [] w" by (rule safe_run [OF assms(2) safe_start [OF assms(1,3)] assms(4,5)])
  moreover from this obtain e where "event_heap w a = Some e"
    using queued_alive [of "[]" w p a] assms(6,7) by (auto simp: queue_def)
  ultimately show ?thesis using refsD(2) [of "[]" w a e] by (simp add: safe_def bus_inv_def)
qed

theorem queued_events_alive_witness:
  "\<exists>w0 w e. start_world [1, 1] example_endpoints (\<lambda>p. 0) 0 = Some w0 \<and> run example_service example_setup w0 = Some (w, []) \<and>
     event_heap w 1 = Some e \<and> int (occurrences w 1) \<le> m_ref_count e"
proof -
  obtain w0 w where w: "start_world [1, 1] example_endpoints (\<lambda>p. 0) 0 = Some w0"
    "run example_service example_setup w0 = Some (w, [])" "length (processors w) = 2" "msg_queue (processors w ! the_bus) = [1]"
    using example_run by blast
  show ?thesis
    using queued_events_alive [OF example_careful(1,2) w(1) example_careful(3) w(2), of the_bus 1] w by (auto simp: the_bus_def)
qed

text \<open>C16. The assertion of the bus, that it holds the only reference to the event it publishes, never
  fails: a turn of the bus with an event in its queue that is not a timeout always completes. Every
  subscriber it reaches has a processor to put the event into.\<close>

theorem bus_assertion_holds:
  assumes "proper_endpoints eps threads" "careful_handlers H"
    and "start_world threads eps l statistics = Some w0" "\<forall>h \<in> set hs. careful_happening h"
    and "run H hs w0 = Some (w, out)"
    and "thr_count (processors w ! the_bus) \<noteq> 0" "msg_queue (processors w ! the_bus) = ev # rest"
    and "event_heap w ev = Some e" "m_type_id e \<noteq> evTimeout"
  shows "svc_turn H the_bus w \<noteq> None"
  by (rule bus_turn_safe [OF safe_run [OF assms(2) safe_start [OF assms(1,3)] assms(4,5)] assms(6-9)])

theorem bus_assertion_holds_witness:
  "\<exists>w0 w. start_world [1, 1] example_endpoints (\<lambda>p. 0) 0 = Some w0 \<and> run example_service example_setup w0 = Some (w, []) \<and>
     svc_turn example_service the_bus w \<noteq> None"
proof -
  obtain w0 w where w: "start_world [1, 1] example_endpoints (\<lambda>p. 0) 0 = Some w0"
    "run example_service example_setup w0 = Some (w, [])" "thr_count (processors w ! the_bus) = 1"
    "msg_queue (processors w ! the_bus) = [1]"
    "event_heap w 1 = Some \<lparr>m_type_id = 7, m_ref_count = 1, ev_data = Event_data 0\<rparr>"
    using example_run by blast
  have "svc_turn example_service the_bus w \<noteq> None"
    by (rule bus_assertion_holds [OF example_careful(1,2) w(1) example_careful(3) w(2) _ w(4,5)])
      (simp_all add: w(3) evTimeout_def)
  with w(1,2) show ?thesis by blast
qed

section \<open>Subscriptions\<close>

text \<open>C17. The two records of subscriptions agree in every reachable world: an endpoint is in the bus's list
  for a type of event as often as the type is in its own list of active subscriptions, and an endpoint
  that has been destroyed is in none.\<close>

theorem subscriber_lists_agree:
  assumes "proper_endpoints eps threads" "careful_handlers H"
    and "start_world threads eps l statistics = Some w0" "\<forall>h \<in> set hs. careful_happening h"
    and "run H hs w0 = Some (w, out)"
  shows "count_list (subscribers w ty) ep =
    (case endpoints w ep of None \<Rightarrow> 0 | Some h \<Rightarrow> count_list (m_active_subscriptions h) ty)"
  using safe_run [OF assms(2) safe_start [OF assms(1,3)] assms(4,5)]
  by (auto simp: safe_def subs_ok_def subs_agree_def subscriptions_def split: option.splits)

theorem subscriber_lists_agree_witness:
  "\<exists>w0 w. start_world [1, 1] example_endpoints (\<lambda>p. 0) 0 = Some w0 \<and> run example_service example_setup w0 = Some (w, []) \<and>
     (case endpoints w 5 of None \<Rightarrow> 0 | Some h \<Rightarrow> count_list (m_active_subscriptions h) 7) = (1 :: nat)"
proof -
  obtain w0 w where w: "start_world [1, 1] example_endpoints (\<lambda>p. 0) 0 = Some w0"
    "run example_service example_setup w0 = Some (w, [])" "subscribers w 7 = [5]"
    using example_run by blast
  then show ?thesis
    using subscriber_lists_agree [OF example_careful(1,2) w(1) example_careful(3) w(2), of 7 5] by auto
qed

section \<open>Delivery\<close>

text \<open>C1. Every published event is delivered. When an event is in the queue of the bus behind
  \<open>length before\<close> others, and an endpoint is subscribed to its type or to all events, then in any
  interleaving of turns, timers and requests of the main program in which the bus has more than that
  many turns, and after them the processor of the endpoint as many turns as its queue is long, the
  processor dispatches the event; and no such run fails. The services only post, send, forward, keep
  and subscribe, no Finish event is sent.\<close>

theorem published_events_delivered:
  assumes "proper_endpoints eps threads" "0 \<notin> set threads" "courteous_handlers eps (length threads) H"
    and "start_world threads eps l statistics = Some w0"
    and "\<forall>h \<in> set hs0 \<union> set hs1 \<union> set hs2. orderly eps (length threads) h"
    and "run H hs0 w0 = Some (w, out0)"
    and "msg_queue (processors w ! the_bus) = before @ ev # after" "event_heap w ev = Some e" "m_type_id e \<noteq> evTimeout"
    and "ty \<in> {ALL_EVENTS, m_type_id e}" "ep \<in> set (subscribers w ty)" "eps ep = Some p"
    and "length before < count_list hs1 (Turn the_bus)" "run H hs1 w = Some (w1, out1)"
    and "length (msg_queue (processors w1 ! p)) \<le> count_list hs2 (Turn p)"
  shows "\<exists>w2 out2. run H hs2 w1 = Some (w2, out2) \<and> (p, ev) \<in> set (out1 @ out2)"
proof -
  let ?n = "length threads"
  have p: "p < ?n" using assms(1,12) by (auto simp: proper_endpoints_def ran_def)
  then have n: "0 < ?n" by linarith
  have o: "\<forall>h \<in> set hs0. orderly eps ?n h" "\<forall>h \<in> set hs1. orderly eps ?n h" "\<forall>h \<in> set hs2. orderly eps ?n h"
    using assms(5) by blast+
  note run = calm_run [OF _ assms(3) _ n]
  have w: "calm eps ?n [] w" using run [OF calm_start [OF assms(1,2,4)] o(1)] assms(6) by simp
  have w1: "calm eps ?n [] w1" using run [OF w o(2)] assms(14) by simp
  obtain w2 out2 where w2: "run H hs2 w1 = Some (w2, out2)" using run [OF w1 o(3)] by blast
  have "event_ready w the_bus ev"
    using calmD(5) [OF w, of the_bus ev] n assms(7) by (simp add: queue_def the_bus_def)
  then have s: "still w the_bus (length before) ev"
    using assms(7-9) by (auto simp: still_def queue_def event_ready_def event_info_def)
  have i: "event_info w ev = Some (m_type_id e, ev_data e)" using assms(8) by (simp add: event_info_def)
  have sub: "ep \<in> set (subscribers w ALL_EVENTS) \<union> set (subscribers w (m_type_id e))" using assms(10,11) by auto
  have "(p, ev) \<in> set out1 \<or> arrived w1 p ev"
    by (rule published [OF w assms(3) o(2) n s i assms(13) sub assms(12) p assms(14)])
  moreover have "(p, ev) \<in> set out2" if "arrived w1 p ev"
  proof (rule handled_in_time [OF w1 assms(3) o(3) n p _ _ w2])
    show "still w1 p (length (queue w1 p) - 1) ev" using that by (simp add: arrived_still)
    have "queue w1 p \<noteq> []" using that by (auto simp: arrived_def)
    then show "length (queue w1 p) - 1 < count_list hs2 (Turn p)" using assms(15) by (cases "queue w1 p") (auto simp: queue_def)
  qed
  ultimately show ?thesis using w2 by auto
qed

theorem published_events_delivered_witness:
  "\<exists>w0 w w1 w2 out2. start_world [1, 1] example_endpoints (\<lambda>p. 0) 0 = Some w0 \<and>
     run example_service example_setup w0 = Some (w, []) \<and>
     run example_service [Turn the_bus] w = Some (w1, [(the_bus, 1)]) \<and>
     run example_service [Turn 1] w1 = Some (w2, out2) \<and> (1, 1) \<in> set out2"
proof -
  obtain w0 w w1 where w: "start_world [1, 1] example_endpoints (\<lambda>p. 0) 0 = Some w0"
    "run example_service example_setup w0 = Some (w, [])" "msg_queue (processors w ! the_bus) = [] @ 1 # []"
    "event_heap w 1 = Some \<lparr>m_type_id = 7, m_ref_count = 1, ev_data = Event_data 0\<rparr>" "subscribers w 7 = [5]"
    "run example_service [Turn the_bus] w = Some (w1, [(the_bus, 1)])" "msg_queue (processors w1 ! 1) = [1]"
    using example_run by fastforce
  have h: "courteous_handlers example_endpoints (length [1, 1 :: nat]) example_service"
    "\<forall>h \<in> set example_setup \<union> set [Turn the_bus] \<union> set [Turn 1]. orderly example_endpoints (length [1, 1 :: nat]) h"
    using example_careful(4,5) by (simp_all add: numeral_2_eq_2)
  have "\<exists>w2 out2. run example_service [Turn 1] w1 = Some (w2, out2) \<and> (1, 1) \<in> set ([(the_bus, 1)] @ out2)"
    using w(5,7) by (intro published_events_delivered [OF example_careful(1) _ h(1) w(1) h(2) w(2,3,4) _ _ _ _ _ w(6), of 7 5])
      (simp_all add: evTimeout_def example_endpoints_def)
  then show ?thesis using w(1,2,6) by (auto simp: the_bus_def)
qed

end
