(* ===== verification/Handle_Store.thy ===== *)
theory Handle_Store
  imports Prelude
begin

text \<open>
  Storage of objects behind generation counted handles: \<^verbatim>\<open>Common/Runtime/Handle.h\<close> and
  \<^verbatim>\<open>HandleBasedStorage.h\<close>, used for the nodes and models of the scene.

  Objects are packed in \<open>m_nodes\<close>. A handle has the number of a slot of \<open>m_sparse_array\<close> and a generation;
  the slot has the generation it is in, and the place of the object, or the next free slot when it is in the
  free list. \<open>m_dense_to_sparse\<close> leads from the place of an object to its slot.

  \<open>None\<close> is a failed \<open>assert\<close>, or an index outside of an array. An element that \<open>pop_back\<close> removed from an
  array of numbers is still in memory; \<open>destroy\<close> reads it there.
\<close>

record handle =
  h_idx :: "20 word"
  h_gen :: "12 word"

definition FREE_LIST_TERMINATOR :: u32 where "FREE_LIST_TERMINATOR = push_bit 20 1 - 1"

definition is_valid :: "handle \<Rightarrow> bool" where "is_valid h = (h_gen h \<noteq> 0)"

definition toInt :: "handle \<Rightarrow> u64" where "toInt h = or (ucast (h_idx h)) (push_bit 20 (ucast (h_gen h)))"

definition fromInt :: "u64 \<Rightarrow> handle" where
  "fromInt val = \<lparr>h_idx = ucast (and val (push_bit 20 1 - 1)), h_gen = ucast (and (drop_bit 20 val) (push_bit 12 1 - 1))\<rparr>"

record 'a handle_store =
  m_sparse_array :: "handle list"
  m_free_list_head :: u32
  m_nodes :: "'a list"
  m_dense_to_sparse :: "u32 list"

definition empty_handle_store :: "'a handle_store" where
  "empty_handle_store = \<lparr>m_sparse_array = [], m_free_list_head = FREE_LIST_TERMINATOR, m_nodes = [], m_dense_to_sparse = []\<rparr>"

definition liveCount :: "'a handle_store \<Rightarrow> nat" where "liveCount st = length (m_nodes st)"

definition slot :: "u32 \<Rightarrow> 'a handle_store \<Rightarrow> handle option" where
  "slot i st = (if unat i < length (m_sparse_array st) then Some (m_sparse_array st ! unat i) else None)"

definition set_slot :: "u32 \<Rightarrow> handle \<Rightarrow> 'a handle_store \<Rightarrow> 'a handle_store" where
  "set_slot i h st = st\<lparr>m_sparse_array := (m_sparse_array st)[unat i := h]\<rparr>"

text \<open>A block of 256 slots, each leading to the next, the last to the end of the list.\<close>

definition fresh_slots :: "nat \<Rightarrow> handle list" where
  "fresh_slots start = (map (\<lambda>k. \<lparr>h_idx = of_nat (start + k + 1), h_gen = 1\<rparr>) [0..<256])
     [255 := \<lparr>h_idx = ucast FREE_LIST_TERMINATOR, h_gen = 1\<rparr>]"

definition getNextFreeNode :: "'a handle_store \<Rightarrow> (u32 \<times> 'a handle_store) option" where
  "getNextFreeNode st =
    (if m_free_list_head st \<noteq> FREE_LIST_TERMINATOR then Some (m_free_list_head st, st)
     else let start_idx = of_nat (length (m_sparse_array st)) in
       if start_idx + 256 < FREE_LIST_TERMINATOR
       then Some (start_idx, st\<lparr>m_free_list_head := start_idx,
         m_sparse_array := m_sparse_array st @ fresh_slots (length (m_sparse_array st))\<rparr>)
       else None)"

definition create :: "'a \<Rightarrow> 'a handle_store \<Rightarrow> (handle \<times> 'a handle_store) option" where
  "create x st = do {
     let internal_idx = (of_nat (length (m_nodes st)) :: u32);
     let st = st\<lparr>m_nodes := m_nodes st @ [x]\<rparr>;
     (node_idx, st) \<leftarrow> getNextFreeNode st;
     head \<leftarrow> slot (m_free_list_head st) st;
     let st = st\<lparr>m_free_list_head := ucast (h_idx head)\<rparr>;
     h \<leftarrow> slot node_idx st;
     let st = set_slot node_idx \<lparr>h_idx = ucast internal_idx, h_gen = h_gen h\<rparr> st;
     Some (\<lparr>h_idx = ucast node_idx, h_gen = h_gen h\<rparr>, st\<lparr>m_dense_to_sparse := m_dense_to_sparse st @ [node_idx]\<rparr>) }"

definition addToFreeList :: "u32 \<Rightarrow> 'a handle_store \<Rightarrow> 'a handle_store option" where
  "addToFreeList node_idx st = do {
     h \<leftarrow> slot node_idx st;
     Some ((set_slot node_idx (h\<lparr>h_idx := ucast (m_free_list_head st)\<rparr>) st)\<lparr>m_free_list_head := node_idx\<rparr>) }"

definition destroy :: "handle \<Rightarrow> 'a handle_store \<Rightarrow> 'a handle_store option" where
  "destroy n st = do {
     h \<leftarrow> slot (ucast (h_idx n)) st;
     if h_gen n \<noteq> h_gen h then None
     else do {
       let st = set_slot (ucast (h_idx n)) (h\<lparr>h_gen := h_gen h + 1\<rparr>) st;
       let i = unat (h_idx h);
       if \<not> (i < length (m_dense_to_sparse st) \<and> i < length (m_nodes st)) then None
       else do {
         let dense = (m_dense_to_sparse st)[i := last (m_dense_to_sparse st)];
         moved \<leftarrow> slot (dense ! i) st;
         let st = set_slot (dense ! i) (moved\<lparr>h_idx := h_idx h\<rparr>) (st\<lparr>m_dense_to_sparse := butlast dense\<rparr>);
         let nodes = (m_nodes st)[i := last (m_nodes st)];
         st \<leftarrow> addToFreeList (ucast (h_idx n)) st;
         Some (st\<lparr>m_nodes := butlast nodes\<rparr>) } } }"

definition canAccess :: "handle \<Rightarrow> 'a handle_store \<Rightarrow> bool option" where
  "canAccess n st = map_option (\<lambda>h. h_gen h = h_gen n) (slot (ucast (h_idx n)) st)"

definition access :: "handle \<Rightarrow> 'a handle_store \<Rightarrow> 'a option" where
  "access n st = do {
     ok \<leftarrow> canAccess n st;
     h \<leftarrow> slot (ucast (h_idx n)) st;
     if ok \<and> unat (h_idx h) < length (m_nodes st) then Some (m_nodes st ! unat (h_idx h)) else None }"

text \<open>The handle for the object at a place.\<close>

definition handle_for_entry :: "nat \<Rightarrow> 'a handle_store \<Rightarrow> handle option" where
  "handle_for_entry expected_idx st =
    (if expected_idx < length (m_nodes st)
     then map_option (\<lambda>h. \<lparr>h_idx = of_nat expected_idx, h_gen = h_gen h\<rparr>) (slot (of_nat expected_idx) st)
     else None)"

end
