(* ===== verification/Handle_Store_Correct.thy ===== *)
theory Handle_Store_Correct
  imports Handle_Store
begin

text \<open>The storage implements a finite map from handles to objects.\<close>

section \<open>The invariant\<close>

text \<open>The slots in use, and the free list as a list of slots.\<close>

definition used :: "'a handle_store \<Rightarrow> nat set" where
  "used st = unat ` set (m_dense_to_sparse st)"

primrec free_chain :: "handle list \<Rightarrow> u32 \<Rightarrow> nat list \<Rightarrow> bool" where
  "free_chain S head [] = (head = FREE_LIST_TERMINATOR)"
| "free_chain S head (x # xs) = (unat head = x \<and> x < length S \<and> free_chain S (ucast (h_idx (S ! x))) xs)"

definition dense_ok :: "handle list \<Rightarrow> u32 list \<Rightarrow> bool" where
  "dense_ok S dense \<longleftrightarrow> (\<forall>i < length dense. unat (dense ! i) < length S \<and> unat (h_idx (S ! unat (dense ! i))) = i)"

definition capacity :: nat where "capacity = 1048320"

definition free_ok :: "'a handle_store \<Rightarrow> nat list \<Rightarrow> bool" where
  "free_ok st fl \<longleftrightarrow> free_chain (m_sparse_array st) (m_free_list_head st) fl \<and> distinct fl \<and>
     set fl \<inter> used st = {} \<and> set fl \<union> used st = {..<length (m_sparse_array st)}"

definition handles_ok :: "'a handle_store \<Rightarrow> bool" where
  "handles_ok st \<longleftrightarrow> length (m_nodes st) = length (m_dense_to_sparse st) \<and>
     256 dvd length (m_sparse_array st) \<and> length (m_sparse_array st) \<le> capacity \<and>
     dense_ok (m_sparse_array st) (m_dense_to_sparse st) \<and> (\<exists>fl. free_ok st fl)"

definition stored_objects :: "'a handle_store \<Rightarrow> handle \<Rightarrow> 'a option" where
  "stored_objects st n = (let h = m_sparse_array st ! unat (h_idx n) in
     if unat (h_idx n) \<in> used st \<and> h_gen h = h_gen n then Some (m_nodes st ! unat (h_idx h)) else None)"

lemma unat_terminator: "unat FREE_LIST_TERMINATOR = 1048575"
  by (simp add: FREE_LIST_TERMINATOR_def push_bit_eq_mult)

lemma unat_of_small: "n < 4294967296 \<Longrightarrow> unat (of_nat n :: u32) = n"
  by (simp add: unat_of_nat)

lemma of_nat_20: "(of_nat n :: 20 word) = ucast (of_nat n :: u32)"
  by (rule unsigned_word_eqI [where 'a = nat]) (simp add: unsigned_ucast_eq unsigned_of_nat take_bit_take_bit min_def)

lemma unat_ucast_20 [simp]: "unat (ucast (a :: 20 word) :: u32) = unat a"
  using unsigned_less [of a, where 'a = nat] by (simp add: unsigned_ucast_eq take_bit_nat_eq_self)

lemma ucast_20_32: "unat a < 1048576 \<Longrightarrow> ucast (ucast (a :: u32) :: 20 word) = a"
  by (rule unsigned_word_eqI [where 'a = nat]) (simp add: unsigned_ucast_eq unsigned_take_bit_eq take_bit_nat_eq_self)

lemma dense_okD:
  assumes "dense_ok S dense" "i < length dense"
  shows "unat (dense ! i) < length S" "unat (h_idx (S ! unat (dense ! i))) = i"
  using assms unfolding dense_ok_def by blast+

lemma dense_ok_distinct:
  assumes "dense_ok S dense"
  shows "distinct (map unat dense)"
  unfolding distinct_conv_nth using dense_okD(2) [OF assms] by (metis length_map nth_map)

lemma dense_place:
  assumes "dense_ok S dense" "x \<in> unat ` set dense"
  shows "unat (h_idx (S ! x)) < length dense" "unat (dense ! unat (h_idx (S ! x))) = x" "x < length S"
proof -
  obtain i where i: "i < length dense" "x = unat (dense ! i)" using assms(2) by (auto simp: in_set_conv_nth)
  then show "unat (h_idx (S ! x)) < length dense" "unat (dense ! unat (h_idx (S ! x))) = x" "x < length S"
    using dense_okD [OF assms(1) i(1)] by simp_all
qed

lemma dense_length:
  assumes "handles_ok st"
  shows "card (used st) = length (m_nodes st)" "length (m_nodes st) \<le> length (m_sparse_array st)"
proof -
  have d: "distinct (map unat (m_dense_to_sparse st))" using assms dense_ok_distinct by (auto simp: handles_ok_def)
  then show c: "card (used st) = length (m_nodes st)"
    using distinct_card [OF d] assms by (simp add: used_def handles_ok_def)
  have "used st \<subseteq> {..<length (m_sparse_array st)}" using assms by (auto simp: handles_ok_def free_ok_def)
  from card_mono [OF _ this] show "length (m_nodes st) \<le> length (m_sparse_array st)" using c by simp
qed

lemma free_chain_update:
  "x \<notin> set fl \<Longrightarrow> free_chain (S[x := h]) head fl = free_chain S head fl"
  by (induction fl arbitrary: head) auto

lemma free_chain_append: "free_chain S head fl \<Longrightarrow> free_chain (S @ T) head fl"
  by (induction fl arbitrary: head) (auto simp: nth_append)

section \<open>Fresh slots\<close>

lemma length_fresh_slots [simp]: "length (fresh_slots n) = 256"
  by (simp add: fresh_slots_def)

lemma nth_fresh_slots:
  "k < 256 \<Longrightarrow> fresh_slots n ! k =
     \<lparr>h_idx = if k = 255 then ucast FREE_LIST_TERMINATOR else of_nat (n + k + 1), h_gen = 1\<rparr>"
  by (simp add: fresh_slots_def nth_list_update)

lemma fresh_chain:
  assumes "length S + 256 \<le> capacity" "k \<le> 255"
  shows "free_chain (S @ fresh_slots (length S)) (of_nat (length S + (255 - k))) [length S + (255 - k)..<length S + 256]"
  using assms(2)
proof (induction k)
  case 0
  have "unat (of_nat (length S + 255) :: u32) = length S + 255"
    using assms(1) by (intro unat_of_small) (simp add: capacity_def)
  then show ?case using nth_fresh_slots [of 255 "length S"]
    by (simp add: nth_append upt_conv_Cons ucast_20_32 unat_terminator)
next
  case (Suc k)
  let ?j = "255 - Suc k"
  have j: "255 - k = Suc ?j" "?j < 255" using Suc.prems by simp_all
  have u: "unat (of_nat (length S + ?j) :: u32) = length S + ?j"
    using assms(1) j by (intro unat_of_small) (simp add: capacity_def)
  have "ucast (h_idx ((S @ fresh_slots (length S)) ! (length S + ?j))) = (of_nat (length S + Suc ?j) :: u32)"
  proof -
    have "h_idx ((S @ fresh_slots (length S)) ! (length S + ?j)) = ucast (of_nat (length S + Suc ?j) :: u32)"
      using j(2) by (simp add: nth_append nth_fresh_slots of_nat_20)
    moreover have "unat (of_nat (length S + Suc ?j) :: u32) = length S + Suc ?j"
      using assms(1) j by (intro unat_of_small) (simp add: capacity_def)
    then have "unat (of_nat (length S + Suc ?j) :: u32) < 1048576"
      using assms(1) j by (simp add: capacity_def)
    ultimately show ?thesis by (simp only: ucast_20_32)
  qed
  then show ?case using Suc j u by (simp add: upt_conv_Cons)
qed

text \<open>After \<open>getNextFreeNode\<close> the free list begins with the node.\<close>

lemma getNextFreeNode_ready:
  assumes "handles_ok st" "getNextFreeNode st = Some (i, st')"
  shows "handles_ok st'" "stored_objects st' = stored_objects st" "m_nodes st' = m_nodes st"
    "m_dense_to_sparse st' = m_dense_to_sparse st" "m_free_list_head st' = i"
    "\<exists>rest. free_ok st' (unat i # rest)"
proof -
  obtain fl where fl: "free_ok st fl" using assms(1) by (auto simp: handles_ok_def)
  have size: "length (m_sparse_array st) \<le> capacity" using assms(1) by (simp add: handles_ok_def)
  have "handles_ok st' \<and> stored_objects st' = stored_objects st \<and> m_nodes st' = m_nodes st \<and> m_dense_to_sparse st' = m_dense_to_sparse st \<and>
      m_free_list_head st' = i \<and> (\<exists>rest. free_ok st' (unat i # rest))"
  proof (cases "m_free_list_head st = FREE_LIST_TERMINATOR")
    case False
    then have "st' = st" "i = m_free_list_head st" using assms(2) by (auto simp: getNextFreeNode_def)
    moreover obtain x rest where "fl = x # rest" using False fl by (cases fl) (simp_all add: free_ok_def)
    ultimately show ?thesis using assms(1) fl by (auto simp: free_ok_def)
  next
    case True
    let ?n = "length (m_sparse_array st)"
    have u: "unat (of_nat ?n :: u32) = ?n" using size by (intro unat_of_small) (simp add: capacity_def)
    have r: "of_nat ?n + 256 < FREE_LIST_TERMINATOR" "i = of_nat ?n"
      "st' = st\<lparr>m_free_list_head := of_nat ?n, m_sparse_array := m_sparse_array st @ fresh_slots ?n\<rparr>"
      using assms(2) True by (auto simp: getNextFreeNode_def Let_def split: if_splits)
    have "unat (of_nat ?n + 256 :: u32) = ?n + 256"
      using size u by (simp add: unat_word_ariths capacity_def)
    then have n: "?n + 256 < 1048575" using r(1) unat_terminator by (simp add: word_less_nat_alt)
    moreover have dvd: "256 dvd ?n" using assms(1) by (simp add: handles_ok_def)
    ultimately have cap: "?n + 256 \<le> capacity" unfolding capacity_def by (auto elim!: dvdE)
    have nil: "fl = []"
    proof (rule ccontr)
      assume "fl \<noteq> []"
      then have "unat FREE_LIST_TERMINATOR < ?n" using fl True by (cases fl) (simp_all add: free_ok_def)
      then show False using size by (simp add: unat_terminator capacity_def)
    qed
    have f: "m_sparse_array st' = m_sparse_array st @ fresh_slots ?n" "m_nodes st' = m_nodes st"
      "m_dense_to_sparse st' = m_dense_to_sparse st" "m_free_list_head st' = of_nat ?n"
      by (simp_all add: r(3))
    have used: "used st' = used st" by (simp add: used_def f)
    have all: "used st = {..<?n}" using fl nil by (simp add: free_ok_def)
    have chain: "free_chain (m_sparse_array st') (m_free_list_head st') [?n..<?n + 256]"
      using fresh_chain [OF cap, of 255] by (simp add: f)
    have "set [?n..<?n + 256] \<inter> {..<?n} = {}" "set [?n..<?n + 256] \<union> {..<?n} = {..<?n + 256}" by auto
    then have "free_ok st' [?n..<?n + 256]"
      unfolding free_ok_def used all using chain by (simp add: f)
    moreover have "[?n..<?n + 256] = unat i # [Suc ?n..<?n + 256]" using u r(2) by (simp add: upt_conv_Cons)
    ultimately have free: "free_ok st' (unat i # [Suc ?n..<?n + 256])" by (simp only:)
    have "dense_ok (m_sparse_array st') (m_dense_to_sparse st')"
      using assms(1) by (auto simp: handles_ok_def f dense_ok_def nth_append)
    then have "handles_ok st'" using assms(1) cap dvd free by (auto simp: handles_ok_def f)
    moreover have "stored_objects st' = stored_objects st"
    proof
      fix n
      show "stored_objects st' n = stored_objects st n"
        unfolding stored_objects_def used all Let_def f by (cases "unat (h_idx n) < ?n") (simp_all add: nth_append)
    qed
    ultimately show ?thesis using free f r(2) by blast
  qed
  then show "handles_ok st'" "stored_objects st' = stored_objects st" "m_nodes st' = m_nodes st"
    "m_dense_to_sparse st' = m_dense_to_sparse st" "m_free_list_head st' = i"
    "\<exists>rest. free_ok st' (unat i # rest)" by blast+
qed

section \<open>Creating\<close>

lemma store_small: "handles_ok st \<Longrightarrow> length (m_sparse_array st) \<le> 1048320"
  by (simp add: handles_ok_def capacity_def)

text \<open>Taking the first free slot for the next object.\<close>

definition take_slot :: "'a \<Rightarrow> u32 \<Rightarrow> 'a handle_store \<Rightarrow> handle \<times> 'a handle_store" where
  "take_slot x i st = (let h = m_sparse_array st ! unat i in
     (\<lparr>h_idx = ucast i, h_gen = h_gen h\<rparr>,
      st\<lparr>m_sparse_array := (m_sparse_array st)[unat i := \<lparr>h_idx = ucast (of_nat (length (m_nodes st)) :: u32), h_gen = h_gen h\<rparr>],
        m_free_list_head := ucast (h_idx h), m_nodes := m_nodes st @ [x],
        m_dense_to_sparse := m_dense_to_sparse st @ [i]\<rparr>))"

lemma take_slot_ok:
  assumes "handles_ok st" "m_free_list_head st = i" "free_ok st (unat i # rest)"
  shows "handles_ok (snd (take_slot x i st))"
    and "stored_objects st (fst (take_slot x i st)) = None"
    and "stored_objects (snd (take_slot x i st)) = (stored_objects st)(fst (take_slot x i st) \<mapsto> x)"
proof -
  let ?S = "m_sparse_array st" and ?D = "m_dense_to_sparse st" and ?m = "length (m_nodes st)" and ?h = "m_sparse_array st ! unat i"
  let ?st = "snd (take_slot x i st)" and ?n = "fst (take_slot x i st)"
  have i: "unat i < length ?S" "unat i \<notin> used st" using assms(3) by (auto simp: free_ok_def)
  have d: "dense_ok ?S ?D" "length ?D = ?m" using assms(1) by (simp_all add: handles_ok_def)
  have len: "length ?S \<le> 1048320" "?m \<le> length ?S" using store_small [OF assms(1)] dense_length(2) [OF assms(1)] by simp_all
  have m: "unat (ucast (of_nat ?m :: u32) :: 20 word) = ?m"
    using len unat_of_small [of ?m] by (simp add: unsigned_ucast_eq unsigned_take_bit_eq take_bit_nat_eq_self)
  have ii: "unat (ucast i :: 20 word) = unat i"
    using len i by (simp add: unsigned_ucast_eq unsigned_take_bit_eq take_bit_nat_eq_self)
  have f: "m_sparse_array ?st = ?S[unat i := \<lparr>h_idx = ucast (of_nat ?m :: u32), h_gen = h_gen ?h\<rparr>]"
    "m_free_list_head ?st = ucast (h_idx ?h)" "m_nodes ?st = m_nodes st @ [x]" "m_dense_to_sparse ?st = ?D @ [i]"
    "h_idx ?n = ucast i" "h_gen ?n = h_gen ?h"
    by (simp_all add: take_slot_def Let_def)
  have used: "used ?st = insert (unat i) (used st)" by (simp add: used_def f)
  have not: "unat (?D ! j) \<noteq> unat i" if "j < ?m" for j
    using that i(2) d(2) nth_mem [of j ?D] unfolding used_def by (metis image_eqI)
  have "dense_ok (m_sparse_array ?st) (m_dense_to_sparse ?st)"
    unfolding dense_ok_def
  proof (intro allI impI)
    fix j assume "j < length (m_dense_to_sparse ?st)"
    then consider "j < ?m" | "j = ?m" using d(2) by (auto simp: f less_Suc_eq)
    then show "unat (m_dense_to_sparse ?st ! j) < length (m_sparse_array ?st) \<and>
        unat (h_idx (m_sparse_array ?st ! unat (m_dense_to_sparse ?st ! j))) = j"
    proof cases
      case 1
      then show ?thesis using not [OF 1] dense_okD [OF d(1), of j] d(2) by (simp add: f nth_append)
    next
      case 2
      then show ?thesis using i(1) m d(2) by (simp add: f nth_append)
    qed
  qed
  moreover have "free_ok ?st rest"
    using assms(2,3) i by (auto simp: free_ok_def used f free_chain_update)
  ultimately show "handles_ok ?st" using assms(1) d(2) by (auto simp: handles_ok_def f)
  show "stored_objects st ?n = None" using i(2) by (simp add: stored_objects_def Let_def f ii)
  show "stored_objects ?st = (stored_objects st)(?n \<mapsto> x)"
  proof
    fix k
    have eq: "k = ?n \<longleftrightarrow> unat (h_idx k) = unat i \<and> h_gen k = h_gen ?h"
      by (cases k) (simp add: take_slot_def Let_def word_unat_eq_iff [where 'a = 20] ii)
    show "stored_objects ?st k = ((stored_objects st)(?n \<mapsto> x)) k"
    proof (cases "unat (h_idx k) = unat i")
      case True
      then show ?thesis using eq i m by (simp add: stored_objects_def Let_def used f)
    next
      case False
      then have "k \<noteq> ?n" using eq by blast
      moreover have "unat (h_idx (?S ! unat (h_idx k))) < ?m" if "unat (h_idx k) \<in> used st"
        using dense_place(1) [OF d(1), of "unat (h_idx k)"] that d(2) by (simp add: used_def)
      ultimately show ?thesis using False by (auto simp: stored_objects_def Let_def used f nth_append)
    qed
  qed
qed

lemma getNextFreeNode_nodes:
  "getNextFreeNode (st\<lparr>m_nodes := xs\<rparr>) = map_option (\<lambda>(i, st). (i, st\<lparr>m_nodes := xs\<rparr>)) (getNextFreeNode st)"
  by (simp add: getNextFreeNode_def Let_def)

lemma create_takes:
  assumes "handles_ok st" "getNextFreeNode st = Some (i, st')"
  shows "create x st = Some (take_slot x i st')"
proof -
  note r = getNextFreeNode_ready [OF assms]
  then have "unat i < length (m_sparse_array st')" by (auto simp: free_ok_def)
  then show ?thesis
    by (simp add: create_def getNextFreeNode_nodes assms(2) slot_def set_slot_def take_slot_def r Let_def)
qed

lemma create_ok:
  assumes "handles_ok st" "create x st = Some (h, st')"
  shows "handles_ok st'" "stored_objects st h = None" "stored_objects st' = (stored_objects st)(h \<mapsto> x)"
proof -
  obtain i st1 where g: "getNextFreeNode st = Some (i, st1)"
    using assms(2) by (auto simp: create_def getNextFreeNode_nodes Option.bind_eq_Some_conv)
  obtain rest where rest: "free_ok st1 (unat i # rest)" using getNextFreeNode_ready(6) [OF assms(1) g] by blast
  note r = getNextFreeNode_ready [OF assms(1) g] and t = take_slot_ok [OF r(1,5) rest, of x]
  have "(h, st') = take_slot x i st1" using create_takes [OF assms(1) g, of x] assms(2) by simp
  then have "h = fst (take_slot x i st1)" "st' = snd (take_slot x i st1)" by (metis fst_conv, metis snd_conv)
  then show "handles_ok st'" "stored_objects st h = None" "stored_objects st' = (stored_objects st)(h \<mapsto> x)" using t r(2) by simp_all
qed

text \<open>Room for 1048320 objects.\<close>

lemma create_returns_iff:
  assumes "handles_ok st"
  shows "create x st \<noteq> None \<longleftrightarrow> liveCount st < capacity"
proof -
  obtain fl where fl: "free_ok st fl" using assms by (auto simp: handles_ok_def)
  have fin: "finite (used st)" by (simp add: used_def)
  have "length (m_sparse_array st) = card (set fl \<union> used st)" using fl by (simp add: free_ok_def)
  also have "\<dots> = length fl + liveCount st"
    using fl dense_length(1) [OF assms] card_Un_disjoint [of "set fl" "used st"] fin
    by (auto simp: free_ok_def liveCount_def distinct_card)
  finally have len: "length (m_sparse_array st) = length fl + liveCount st" .
  have small: "length (m_sparse_array st) \<le> 1048320" by (rule store_small [OF assms])
  have head: "m_free_list_head st = FREE_LIST_TERMINATOR \<longleftrightarrow> fl = []"
  proof (cases fl)
    case Nil
    then show ?thesis using fl by (simp add: free_ok_def)
  next
    case (Cons y ys)
    then have "unat (m_free_list_head st) < 1048320" using fl small by (auto simp: free_ok_def)
    then show ?thesis using Cons unat_terminator by auto
  qed
  have "create x st \<noteq> None \<longleftrightarrow> getNextFreeNode st \<noteq> None"
    using create_takes [OF assms] by (cases "getNextFreeNode st") (auto simp: create_def getNextFreeNode_nodes)
  also have "\<dots> \<longleftrightarrow> fl \<noteq> [] \<or> length (m_sparse_array st) + 256 < 1048575"
  proof -
    have "unat (of_nat (length (m_sparse_array st)) + 256 :: u32) = length (m_sparse_array st) + 256"
      using small by (simp add: unat_word_ariths unat_of_small)
    then show ?thesis using head unat_terminator by (auto simp: getNextFreeNode_def Let_def word_less_nat_alt)
  qed
  also have "\<dots> \<longleftrightarrow> liveCount st < capacity"
  proof -
    obtain k where "length (m_sparse_array st) = 256 * k" using assms by (auto simp: handles_ok_def elim: dvdE)
    then show ?thesis using len small unfolding capacity_def by (cases fl) auto
  qed
  finally show ?thesis .
qed

section \<open>Destroying\<close>

text \<open>What \<open>destroy\<close> computes for a slot \<open>x\<close> in use whose object is at \<open>i\<close>: \<open>y\<close> is the slot of the last object.\<close>

definition without :: "nat \<Rightarrow> handle \<Rightarrow> 'a handle_store \<Rightarrow> 'a handle_store" where
  "without x n st = (let S = m_sparse_array st; D = m_dense_to_sparse st; i = unat (h_idx (S ! x)); y = unat (last D);
       S1 = S[x := (S ! x)\<lparr>h_gen := h_gen (S ! x) + 1\<rparr>];
       S2 = S1[y := (S1 ! y)\<lparr>h_idx := h_idx (S ! x)\<rparr>]
     in st\<lparr>m_sparse_array := S2[x := (S2 ! x)\<lparr>h_idx := ucast (m_free_list_head st)\<rparr>],
          m_free_list_head := ucast (h_idx n),
          m_nodes := butlast ((m_nodes st)[i := last (m_nodes st)]), m_dense_to_sparse := butlast (D[i := last D])\<rparr>)"

lemma contents_live:
  assumes "stored_objects st n \<noteq> None"
  shows "unat (h_idx n) \<in> used st" "h_gen (m_sparse_array st ! unat (h_idx n)) = h_gen n"
  using assms by (auto simp: stored_objects_def Let_def split: if_splits)

lemma destroy_live:
  assumes "handles_ok st" "stored_objects st n \<noteq> None"
  shows "destroy n st = Some (without (unat (h_idx n)) n st)"
proof -
  let ?x = "unat (h_idx n)" and ?D = "m_dense_to_sparse st" and ?S = "m_sparse_array st"
  have d: "dense_ok ?S ?D" "length ?D = length (m_nodes st)" using assms(1) by (simp_all add: handles_ok_def)
  note place = dense_place [OF d(1), folded used_def, OF contents_live(1) [OF assms(2)]]
  have "last ?D \<in> set ?D" using place(1) by (intro last_in_set) auto
  then have y: "unat (last ?D) < length ?S" using dense_place(3) [OF d(1)] by blast
  show ?thesis
    using place y contents_live(2) [OF assms(2)] d(2)
    by (simp add: destroy_def slot_def set_slot_def addToFreeList_def without_def Let_def)
qed

lemma destroy_ok:
  assumes "handles_ok st" "stored_objects st n \<noteq> None"
  shows "handles_ok (without (unat (h_idx n)) n st)" "stored_objects (without (unat (h_idx n)) n st) = (stored_objects st)(n := None)"
proof -
  define x where "x = unat (h_idx n)"
  let ?S = "m_sparse_array st" and ?D = "m_dense_to_sparse st" and ?N = "m_nodes st" and ?st = "without x n st"
  define i where "i = unat (h_idx (?S ! x))"
  define l where "l = length ?D - 1"
  define y where "y = unat (?D ! l)"
  have d: "dense_ok ?S ?D" "length ?D = length ?N" using assms(1) by (simp_all add: handles_ok_def)
  note live = contents_live [OF assms(2), folded x_def]
  have place: "i < length ?D" "unat (?D ! i) = x" "x < length ?S"
    using dense_place [OF d(1), of x] live(1) by (simp_all add: i_def used_def)
  then have ne: "?D \<noteq> []" "?N \<noteq> []" and l: "l < length ?D" "i \<le> l" using d(2) by (auto simp: l_def)
  have last: "last ?D = ?D ! l" "last ?N = ?N ! l" using ne d(2) by (simp_all add: last_conv_nth l_def)
  have y: "y < length ?S" "unat (h_idx (?S ! y)) = l" using dense_okD [OF d(1) l(1)] by (simp_all add: y_def)
  have yx: "y = x \<longleftrightarrow> i = l" using y(2) place(2) by (auto simp: i_def y_def)
  have small: "length ?S \<le> 1048320" by (rule store_small [OF assms(1)])
  let ?S1 = "?S[x := (?S ! x)\<lparr>h_gen := h_gen (?S ! x) + 1\<rparr>]"
  let ?S2 = "?S1[y := (?S1 ! y)\<lparr>h_idx := h_idx (?S ! x)\<rparr>]"
  have f: "m_sparse_array ?st = ?S2[x := (?S2 ! x)\<lparr>h_idx := ucast (m_free_list_head st)\<rparr>]"
    "m_free_list_head ?st = ucast (h_idx n)" "m_nodes ?st = butlast (?N[i := ?N ! l])" "m_dense_to_sparse ?st = butlast (?D[i := ?D ! l])"
    by (simp_all add: without_def Let_def i_def y_def last)
  have len: "length (m_sparse_array ?st) = length ?S" "length (m_dense_to_sparse ?st) = l" by (simp_all add: f l_def)
  have sx: "m_sparse_array ?st ! x = \<lparr>h_idx = ucast (m_free_list_head st), h_gen = h_gen (?S ! x) + 1\<rparr>"
    using place(3) y(1) by (cases "?S ! x") (simp add: f nth_list_update)
  have sy: "m_sparse_array ?st ! y = \<lparr>h_idx = h_idx (?S ! x), h_gen = h_gen (?S ! y)\<rparr>" if "y \<noteq> x"
    using that y(1) by (cases "?S ! y") (simp add: f)
  have sz: "m_sparse_array ?st ! z = ?S ! z" if "z \<noteq> x" "z \<noteq> y" for z
    using that by (simp add: f)
  have D: "m_dense_to_sparse ?st ! j = (if j = i then ?D ! l else ?D ! j)" if "j < l" for j
    using that place(1) by (simp add: f nth_butlast l_def nth_list_update)
  have N: "m_nodes ?st ! j = (if j = i then ?N ! l else ?N ! j)" if "j < l" for j
    using that place(1) d(2) by (simp add: f nth_butlast l_def nth_list_update)
  have inj: "unat (?D ! j) = unat (?D ! k) \<longleftrightarrow> j = k" if "j < length ?D" "k < length ?D" for j k
    using dense_okD(2) [OF d(1)] that by metis
  have used: "used ?st = used st - {x}"
  proof -
    have "set (m_dense_to_sparse ?st) = (\<lambda>j. if j = i then ?D ! l else ?D ! j) ` {..<l}"
      using D len(2) by (force simp: set_conv_nth)
    also have "unat ` \<dots> = unat ` (\<lambda>j. ?D ! j) ` ({..<length ?D} - {i})"
    proof -
      have "(\<lambda>j. if j = i then ?D ! l else ?D ! j) ` {..<l} = (\<lambda>j. ?D ! j) ` ({..<length ?D} - {i})"
      proof (cases "i = l")
        case True
        have "{..<length ?D} - {i} = {..<l}" using True l by (auto simp: l_def)
        then show ?thesis using True by (auto simp: image_iff)
      next
        case False
        have "{..<length ?D} - {i} = insert l ({..<l} - {i})" using False l by (auto simp: l_def)
        moreover have "{..<l} = insert i ({..<l} - {i})" using False l(2) by auto
        ultimately show ?thesis by auto
      qed
      then show ?thesis by simp
    qed
    also have "\<dots> = unat ` set ?D - {unat (?D ! i)}"
      using inj place(1) by (auto simp: set_conv_nth image_iff)
    finally show ?thesis using place(2) by (simp add: used_def)
  qed
  have "dense_ok (m_sparse_array ?st) (m_dense_to_sparse ?st)"
    unfolding dense_ok_def
  proof (intro allI impI)
    fix j assume "j < length (m_dense_to_sparse ?st)"
    then have j: "j < l" "j < length ?D" using len(2) l(1) by simp_all
    show "unat (m_dense_to_sparse ?st ! j) < length (m_sparse_array ?st) \<and>
        unat (h_idx (m_sparse_array ?st ! unat (m_dense_to_sparse ?st ! j))) = j"
    proof (cases "j = i")
      case True
      then have "y \<noteq> x" using yx j(1) by simp
      then show ?thesis using True j y(1) sy by (simp add: D len(1) i_def [symmetric] y_def [symmetric])
    next
      case False
      have "unat (?D ! j) \<noteq> x" "unat (?D ! j) \<noteq> y"
        using inj [OF j(2) place(1)] inj [OF j(2) l(1)] False j place(2) by (simp_all add: y_def)
      then show ?thesis using False j dense_okD [OF d(1) j(2)] sz by (simp add: D len(1))
    qed
  qed
  moreover obtain fl where fl: "free_ok st fl" using assms(1) by (auto simp: handles_ok_def)
  have "y \<in> used st" using l(1) by (auto simp: used_def y_def)
  then have nfl: "x \<notin> set fl" "y \<notin> set fl" using fl live(1) by (auto simp: free_ok_def)
  have "free_ok ?st (x # fl)"
  proof -
    have "unat (m_free_list_head st) < 1048576"
      using fl small unat_terminator by (cases fl) (auto simp: free_ok_def)
    then have h: "ucast (ucast (m_free_list_head st) :: 20 word) = m_free_list_head st" by (rule ucast_20_32)
    have "free_chain (m_sparse_array ?st) (m_free_list_head st) fl"
      using fl nfl by (simp add: f free_chain_update free_ok_def)
    then have "free_chain (m_sparse_array ?st) (m_free_list_head ?st) (x # fl)"
      using place(3) h unat_ucast_20 [of "h_idx n", folded x_def] by (simp add: sx f(2) len(1))
    moreover have "distinct (x # fl)" "set (x # fl) \<inter> used ?st = {}"
      "set (x # fl) \<union> used ?st = {..<length (m_sparse_array ?st)}"
      using fl nfl used live(1) place(3) by (auto simp: free_ok_def len(1))
    ultimately show ?thesis by (simp only: free_ok_def)
  qed
  moreover have "length (m_nodes ?st) = length (m_dense_to_sparse ?st)" using d(2) by (simp add: f)
  ultimately show "handles_ok (without (unat (h_idx n)) n st)"
    using assms(1) len(1) by (auto simp: handles_ok_def x_def)
  have "stored_objects ?st k = ((stored_objects st)(n := None)) k" for k
  proof (cases "unat (h_idx k) = x")
    case True
    have "stored_objects st k = None" if "k \<noteq> n"
    proof -
      have "h_idx k = h_idx n" using True by (simp add: x_def word_unat_eq_iff)
      then have "h_gen k \<noteq> h_gen n" using that by (cases k; cases n) simp
      then show ?thesis using live(2) True by (simp add: stored_objects_def Let_def)
    qed
    then show ?thesis using True by (auto simp: stored_objects_def Let_def used)
  next
    case False
    then have kn: "k \<noteq> n" by (auto simp: x_def)
    have "m_nodes ?st ! unat (h_idx (m_sparse_array ?st ! unat (h_idx k))) = ?N ! unat (h_idx (?S ! unat (h_idx k))) \<and>
        h_gen (m_sparse_array ?st ! unat (h_idx k)) = h_gen (?S ! unat (h_idx k))" if "unat (h_idx k) \<in> used st"
    proof (cases "unat (h_idx k) = y")
      case True
      then have "y \<noteq> x" using False by simp
      then show ?thesis using True sy y(2) yx l N [of i] by (simp add: i_def [symmetric])
    next
      case other: False
      have p: "unat (h_idx (?S ! unat (h_idx k))) < length ?D" "unat (?D ! unat (h_idx (?S ! unat (h_idx k)))) = unat (h_idx k)"
        using dense_place [OF d(1), of "unat (h_idx k)"] that by (simp_all add: used_def)
      have "unat (h_idx (?S ! unat (h_idx k))) \<noteq> l" "unat (h_idx (?S ! unat (h_idx k))) \<noteq> i"
        using p(2) other False place(2) by (auto simp: y_def)
      then show ?thesis using p(1) N sz [OF False other] by (simp add: l_def)
    qed
    then show ?thesis using kn False by (cases "unat (h_idx k) \<in> used st") (simp_all add: stored_objects_def Let_def used)
  qed
  then show "stored_objects (without (unat (h_idx n)) n st) = (stored_objects st)(n := None)" by (simp add: fun_eq_iff x_def)
qed

section \<open>Access\<close>

lemma access_live:
  assumes "handles_ok st" "stored_objects st n = Some x"
  shows "access n st = Some x"
proof -
  have d: "dense_ok (m_sparse_array st) (m_dense_to_sparse st)" "length (m_dense_to_sparse st) = length (m_nodes st)"
    using assms(1) by (simp_all add: handles_ok_def)
  have live: "stored_objects st n \<noteq> None" using assms(2) by simp
  show ?thesis
    using dense_place [OF d(1), folded used_def, OF contents_live(1) [OF live]] contents_live [OF live] d(2) assms(2)
    by (simp add: access_def canAccess_def slot_def stored_objects_def Let_def)
qed

section \<open>Generations\<close>

text \<open>A slot changes its generation when its object is destroyed, and only then.\<close>

lemma create_generations:
  assumes "handles_ok st" "create x st = Some (h, st')" "z < length (m_sparse_array st)"
  shows "z < length (m_sparse_array st') \<and> h_gen (m_sparse_array st' ! z) = h_gen (m_sparse_array st ! z)"
proof -
  obtain i st1 where g: "getNextFreeNode st = Some (i, st1)"
    using assms(2) by (auto simp: create_def getNextFreeNode_nodes Option.bind_eq_Some_conv)
  have "z < length (m_sparse_array st1) \<and> m_sparse_array st1 ! z = m_sparse_array st ! z"
    using g assms(3) by (auto simp: getNextFreeNode_def Let_def nth_append split: if_splits)
  moreover have "st' = snd (take_slot x i st1)"
    using create_takes [OF assms(1) g, of x] assms(2) by (metis option.inject snd_conv)
  ultimately show ?thesis by (cases "z = unat i") (simp_all add: take_slot_def Let_def)
qed

lemma destroy_generations:
  assumes "handles_ok st" "stored_objects st n \<noteq> None" "z < length (m_sparse_array st)"
  shows "z < length (m_sparse_array (without (unat (h_idx n)) n st)) \<and>
    h_gen (m_sparse_array (without (unat (h_idx n)) n st) ! z) =
      h_gen (m_sparse_array st ! z) + (if z = unat (h_idx n) then 1 else 0)"
  using assms(3) by (cases "z = unat (h_idx n)"; cases "z = unat (last (m_dense_to_sparse st))")
    (simp_all add: without_def Let_def nth_list_update)

section \<open>Uses of a storage\<close>

datatype 'a store_op = Create 'a | Destroy handle

text \<open>A sequence of uses, with the handles that were returned.\<close>

fun run_store :: "'a store_op list \<Rightarrow> 'a handle_store \<Rightarrow> (handle list \<times> 'a handle_store) option" where
  "run_store [] st = Some ([], st)"
| "run_store (Create x # ops) st = do {
     (h, st) \<leftarrow> create x st;
     (hs, st) \<leftarrow> run_store ops st;
     Some (h # hs, st) }"
| "run_store (Destroy n # ops) st = do {
     st \<leftarrow> destroy n st;
     run_store ops st }"

text \<open>The specification: a map that the returned handles are new in.\<close>

fun run_map :: "'a store_op list \<Rightarrow> handle list \<Rightarrow> (handle \<Rightarrow> 'a option) \<Rightarrow> (handle \<Rightarrow> 'a option) option" where
  "run_map [] hs m = (if hs = [] then Some m else None)"
| "run_map (Create x # ops) (h # hs) m = (if m h = None then run_map ops hs (m(h \<mapsto> x)) else None)"
| "run_map (Create x # ops) [] m = None"
| "run_map (Destroy n # ops) hs m = run_map ops hs (m(n := None))"

text \<open>A client that destroys only what it has: \<open>live\<close> are the handles it was given and has not destroyed.\<close>

fun client_owns :: "'a store_op list \<Rightarrow> handle list \<Rightarrow> handle set \<Rightarrow> bool" where
  "client_owns [] hs live = True"
| "client_owns (Create x # ops) hs live = (case hs of [] \<Rightarrow> False | h # hs \<Rightarrow> client_owns ops hs (insert h live))"
| "client_owns (Destroy n # ops) hs live = (n \<in> live \<and> client_owns ops hs (live - {n}))"

lemma handles_ok_new: "handles_ok empty_handle_store"
  by (auto simp: handles_ok_def empty_handle_store_def dense_ok_def free_ok_def used_def intro: exI [of _ "[]"])

lemma contents_new: "stored_objects empty_handle_store = Map.empty"
  by (simp add: stored_objects_def empty_handle_store_def used_def fun_eq_iff)

lemma run_refines:
  assumes "handles_ok st" "run_store ops st = Some (hs, st')" "client_owns ops hs (dom (stored_objects st))"
  shows "handles_ok st' \<and> run_map ops hs (stored_objects st) = Some (stored_objects st')"
  using assms
proof (induction ops st arbitrary: hs rule: run_store.induct)
  case (2 x ops st)
  obtain h st1 hs1 where c: "create x st = Some (h, st1)" "run_store ops st1 = Some (hs1, st')" "hs = h # hs1"
    using "2.prems"(2) by (auto simp: Option.bind_eq_Some_conv)
  note ok = create_ok [OF "2.prems"(1) c(1)]
  have "client_owns ops hs1 (dom (stored_objects st1))" using "2.prems"(3) c(3) ok(3) by simp
  from "2.IH" [OF c(1) refl ok(1) c(2) this] have "handles_ok st' \<and> run_map ops hs1 ((stored_objects st)(h \<mapsto> x)) = Some (stored_objects st')"
    by (simp only: ok(3))
  then show ?case by (simp only: c(3) ok(2) run_map.simps if_True simp_thms)
next
  case (3 n ops st)
  have live: "stored_objects st n \<noteq> None" using "3.prems"(3) by auto
  note d = destroy_live [OF "3.prems"(1) live] and ok = destroy_ok [OF "3.prems"(1) live]
  have r: "run_store ops (without (unat (h_idx n)) n st) = Some (hs, st')" using "3.prems"(2) d by simp
  have "client_owns ops hs (dom (stored_objects (without (unat (h_idx n)) n st)))"
    using "3.prems"(3) ok(2) by simp
  from "3.IH" [OF d ok(1) r this] show ?case by (simp only: ok(2) run_map.simps)
qed auto

text \<open>How often the slot \<open>z\<close> loses its object.\<close>

definition destroys :: "nat \<Rightarrow> 'a store_op list \<Rightarrow> nat" where
  "destroys z ops = length (filter (\<lambda>op. case op of Create x \<Rightarrow> False | Destroy n \<Rightarrow> unat (h_idx n) = z) ops)"

lemma run_generations:
  assumes "handles_ok st" "run_store ops st = Some (hs, st')" "client_owns ops hs (dom (stored_objects st))" "z < length (m_sparse_array st)"
  shows "z < length (m_sparse_array st') \<and>
    h_gen (m_sparse_array st' ! z) = h_gen (m_sparse_array st ! z) + of_nat (destroys z ops)"
  using assms
proof (induction ops st arbitrary: hs rule: run_store.induct)
  case (2 x ops st)
  obtain h st1 hs1 where c: "create x st = Some (h, st1)" "run_store ops st1 = Some (hs1, st')" "hs = h # hs1"
    using "2.prems"(2) by (auto simp: Option.bind_eq_Some_conv)
  note ok = create_ok [OF "2.prems"(1) c(1)]
  have "client_owns ops hs1 (dom (stored_objects st1))" using "2.prems"(3) c(3) ok(3) by simp
  from "2.IH" [OF c(1) refl ok(1) c(2) this] show ?case
    using create_generations [OF "2.prems"(1) c(1) "2.prems"(4)] by (simp add: destroys_def)
next
  case (3 n ops st)
  have live: "stored_objects st n \<noteq> None" using "3.prems"(3) by auto
  note d = destroy_live [OF "3.prems"(1) live] and ok = destroy_ok [OF "3.prems"(1) live]
  have r: "run_store ops (without (unat (h_idx n)) n st) = Some (hs, st')" using "3.prems"(2) d by simp
  have "client_owns ops hs (dom (stored_objects (without (unat (h_idx n)) n st)))"
    using "3.prems"(3) ok(2) by simp
  from "3.IH" [OF d ok(1) r this] show ?case
    using destroy_generations [OF "3.prems"(1) live "3.prems"(4)] by (auto simp: destroys_def)
qed (auto simp: destroys_def)

end
