(* ===== verification/Handle_Store_Properties.thy ===== *)
theory Handle_Store_Properties
  imports Handle_Store_Correct
begin

text \<open>The properties of the storage behind handles.\<close>

section \<open>An example: two objects, the first destroyed\<close>

lemma example_uses:
  "\<exists>h1 h2 st st'. run_store [Create x, Create y] empty_handle_store = Some ([h1, h2], st) \<and>
     client_owns [Create x, Create y] [h1, h2] {} \<and> stored_objects st h1 = Some x \<and> h1 \<noteq> h2 \<and>
     run_store [Create x, Create y, Destroy h1] empty_handle_store = Some ([h1, h2], st') \<and>
     client_owns [Create x, Create y, Destroy h1] [h1, h2] {} \<and> destroy h1 st = Some st' \<and> handles_ok st"
proof -
  obtain h1 st1 where 1: "create x empty_handle_store = Some (h1, st1)"
    using create_returns_iff [OF handles_ok_new, of x] by (auto simp: liveCount_def empty_handle_store_def capacity_def)
  note ok1 = create_ok [OF handles_ok_new 1]
  have c1: "stored_objects st1 = [h1 \<mapsto> x]" by (simp only: ok1(3) contents_new)
  have "liveCount st1 < capacity"
  proof -
    obtain i st0 where g: "getNextFreeNode (empty_handle_store :: 'a handle_store) = Some (i, st0)"
      using 1 by (auto simp: create_def getNextFreeNode_nodes Option.bind_eq_Some_conv)
    have "st1 = snd (take_slot x i st0)" using create_takes [OF handles_ok_new g, of x] 1 by (metis option.inject snd_conv)
    then show ?thesis
      using getNextFreeNode_ready(3) [OF handles_ok_new g]
      by (simp add: take_slot_def Let_def liveCount_def capacity_def empty_handle_store_def)
  qed
  then obtain h2 st2 where 2: "create y st1 = Some (h2, st2)" using create_returns_iff [OF ok1(1), of y] by auto
  note ok2 = create_ok [OF ok1(1) 2]
  have ne: "h1 \<noteq> h2" using ok2(2) c1 by auto
  then have live: "stored_objects st2 h1 = Some x" using ok2(3) c1 by simp
  then have "destroy h1 st2 = Some (without (unat (h_idx h1)) h1 st2)" by (intro destroy_live [OF ok2(1)]) simp
  then show ?thesis using 1 2 ne live ok2(1) by auto
qed

section \<open>Refinement\<close>

text \<open>C37. The storage implements a map from handles to objects. In any sequence of uses by a client that
  destroys only handles it was given and still has, every handle returned is a new one, and afterwards a
  handle gives access to its object: the packed arrays and the free list cannot be told from the map.\<close>

theorem storage_implements_map:
  assumes "run_store ops empty_handle_store = Some (hs, st)" "client_owns ops hs {}"
  shows "\<exists>m. run_map ops hs Map.empty = Some m \<and> (\<forall>n x. m n = Some x \<longrightarrow> access n st = Some x)"
  using run_refines [OF handles_ok_new assms(1)] assms(2) access_live by (fastforce simp: contents_new)

theorem storage_implements_map_witness:
  "\<exists>h1 h2 st m. run_store [Create (5 :: nat), Create 6, Destroy h1] empty_handle_store = Some ([h1, h2], st) \<and>
     run_map [Create (5 :: nat), Create 6, Destroy h1] [h1, h2] Map.empty = Some m"
proof -
  obtain h1 h2 and st st' :: "nat handle_store" where e: "run_store [Create 5, Create 6, Destroy h1] empty_handle_store = Some ([h1, h2], st')"
    "client_owns [Create (5 :: nat), Create 6, Destroy h1] [h1, h2] {}"
    using example_uses [of 5 6] by blast
  then show ?thesis using storage_implements_map [OF e] by blast
qed

section \<open>Capacity\<close>

text \<open>C38. \<open>create\<close> succeeds exactly as long as there are fewer than 1048320 objects: 4095 blocks of 256 slots,
  after which its assertion fails.\<close>

theorem room_for_objects:
  assumes "run_store ops empty_handle_store = Some (hs, st)" "client_owns ops hs {}"
  shows "create x st \<noteq> None \<longleftrightarrow> liveCount st < 1048320"
  using run_refines [OF handles_ok_new assms(1)] assms(2) create_returns_iff [of st x]
  by (simp add: contents_new capacity_def)

theorem room_for_objects_witness: "create (5 :: nat) empty_handle_store \<noteq> None \<longleftrightarrow> liveCount (empty_handle_store :: nat handle_store) < 1048320"
  by (rule room_for_objects [of "[]" "[]"]) simp_all

section \<open>Stale handles\<close>

text \<open>C39. A handle whose object has been destroyed is accepted again only when its slot has since lost further
  objects so often that the twelve bits of its generation have come round, and then it always is. In
  particular it is refused through 4094 further uses of the slot.\<close>

theorem stale_handle_accepted_iff:
  assumes "run_store ops empty_handle_store = Some (hs, st)" "client_owns ops hs {}" "destroy n st = Some st1" "n \<in> dom (stored_objects st)"
    and "run_store later st1 = Some (hs2, st2)" "client_owns later hs2 (dom (stored_objects st1))"
  shows "canAccess n st2 = Some (4096 dvd destroys (unat (h_idx n)) later + 1)"
proof -
  have ok: "handles_ok st" using run_refines [OF handles_ok_new assms(1)] assms(2) by (simp add: contents_new)
  have live: "stored_objects st n \<noteq> None" using assms(4) by auto
  have st1: "st1 = without (unat (h_idx n)) n st" using destroy_live [OF ok live] assms(3) by simp
  have len: "unat (h_idx n) < length (m_sparse_array st)"
    using dense_place(3) [of "m_sparse_array st" "m_dense_to_sparse st"] contents_live(1) [OF live] ok
    by (auto simp: handles_ok_def used_def)
  have g: "unat (h_idx n) < length (m_sparse_array st1) \<and> h_gen (m_sparse_array st1 ! unat (h_idx n)) = h_gen n + 1"
    using destroy_generations [OF ok live len] contents_live(2) [OF live] by (simp add: st1)
  have "handles_ok st1" using destroy_ok(1) [OF ok live] by (simp add: st1)
  then have "unat (h_idx n) < length (m_sparse_array st2) \<and> h_gen (m_sparse_array st2 ! unat (h_idx n)) =
      h_gen n + 1 + of_nat (destroys (unat (h_idx n)) later)"
    using run_generations [OF _ assms(5,6)] g by auto
  moreover have "h_gen n + 1 + of_nat k = h_gen n \<longleftrightarrow> 4096 dvd k + 1" for k
  proof -
    have "h_gen n + 1 + of_nat k = h_gen n \<longleftrightarrow> (of_nat (k + 1) :: 12 word) = 0" by (simp add: algebra_simps)
    also have "\<dots> \<longleftrightarrow> 4096 dvd k + 1" by (simp add: word_of_nat_eq_0_iff del: of_nat_add of_nat_Suc)
    finally show ?thesis .
  qed
  ultimately show ?thesis by (simp add: canAccess_def slot_def)
qed

theorem stale_handle_accepted_iff_witness:
  "\<exists>h1 h2 st st'. run_store [Create 5, Create 6] empty_handle_store = Some ([h1, h2], st) \<and> destroy h1 st = Some (st' :: nat handle_store) \<and>
     canAccess h1 st' = Some (4096 dvd (1 :: nat))"
proof -
  obtain h1 h2 and st st' :: "nat handle_store" where e: "run_store [Create 5, Create 6] empty_handle_store = Some ([h1, h2], st)"
    "client_owns [Create (5 :: nat), Create 6] [h1, h2] {}" "stored_objects st h1 = Some 5" "destroy h1 st = Some st'"
    using example_uses [of 5 6] by blast
  have d: "h1 \<in> dom (stored_objects st)" using e(3) by blast
  have "canAccess h1 st' = Some (4096 dvd destroys (unat (h_idx h1)) ([] :: nat store_op list) + 1)"
    by (rule stale_handle_accepted_iff [OF e(1,2,4) d, of "[]" "[]"]) simp_all
  then show ?thesis using e(1,4) by (auto simp: destroys_def)
qed

section \<open>Handles from places\<close>

text \<open>C40. \<open>handle_for_entry\<close> takes the place of an object for the number of its slot: the handle it returns leads
  to the object exactly when the two happen to be the same, which they cease to be once an object before
  it has been destroyed.\<close>

theorem handle_for_entry_leads_there_iff:
  assumes "run_store ops empty_handle_store = Some (hs, st)" "client_owns ops hs {}" "handle_for_entry i st = Some h"
  shows "(unat (h_idx h) \<in> used st \<and> unat (h_idx (m_sparse_array st ! unat (h_idx h))) = i) \<longleftrightarrow>
    unat (m_dense_to_sparse st ! i) = i"
proof -
  have ok: "handles_ok st" using run_refines [OF handles_ok_new assms(1)] assms(2) by (simp add: contents_new)
  then have d: "dense_ok (m_sparse_array st) (m_dense_to_sparse st)" "length (m_dense_to_sparse st) = length (m_nodes st)"
    by (simp_all add: handles_ok_def)
  have i: "i < length (m_nodes st)" "h_idx h = of_nat i" using assms(3) by (auto simp: handle_for_entry_def split: if_splits)
  have "i < 1048320" using i(1) dense_length(2) [OF ok] store_small [OF ok] by simp
  then have h: "unat (h_idx h) = i" by (simp add: i(2) unat_of_nat)
  show ?thesis
    using dense_place(2) [OF d(1), of i] dense_okD(2) [OF d(1), of i] i(1) d(2) nth_mem [of i "m_dense_to_sparse st"]
    unfolding h used_def by (metis image_eqI)
qed

theorem handle_for_entry_leads_there_iff_witness:
  "\<exists>h1 h2 st h. run_store [Create (5 :: nat), Create 6] empty_handle_store = Some ([h1, h2], st) \<and> handle_for_entry 0 st = Some h \<and>
     (unat (h_idx h) \<in> used st \<and> unat (h_idx (m_sparse_array st ! unat (h_idx h))) = 0) = (unat (m_dense_to_sparse st ! 0) = 0)"
proof -
  obtain h1 h2 and st :: "nat handle_store" where e: "run_store [Create 5, Create 6] empty_handle_store = Some ([h1, h2], st)"
    "client_owns [Create (5 :: nat), Create 6] [h1, h2] {}" "stored_objects st h1 = Some 5" "handles_ok st"
    using example_uses [of 5 6] by blast
  have "used st \<noteq> {}" using contents_live(1) [of st h1] e(3) by auto
  then have "0 < length (m_nodes st)" using dense_length(1) [OF e(4)] by (metis card_gt_0_iff finite_imageI finite_set used_def)
  moreover from this have "0 < length (m_sparse_array st)" using dense_length(2) [OF e(4)] by linarith
  ultimately obtain h where "handle_for_entry 0 st = Some h" by (auto simp: handle_for_entry_def slot_def)
  then show ?thesis using handle_for_entry_leads_there_iff [OF e(1,2)] e(1) by blast
qed

end
