(* ===== verification/Spec2Isabelle.thy ===== *)
theory Spec2Isabelle
  imports BitStream_Properties Link_Properties Team_Properties Game_Properties Friend_Properties Email_Properties
    Auth_Link_Properties Auth_Properties Power_Properties Trade_Properties Costume_Properties Event_Bus_Properties Handle_Store_Properties
begin

text \<open>
  \<^bold>\<open>Verification development for SEGS, the Super Entity Game Server.\<close>

  SEGS emulates the servers of an online game. A client logs in at an authentication server over an
  encrypted stream, is handed a cookie for a game server, and from then on talks to game and map
  servers in datagrams of a reliable protocol. Inside the servers every service is an event processor:
  a queue of reference counted events and a thread that handles them one after the other; services
  address each other directly, through routing tokens of client sessions, or by publishing on a
  message bus. The theories follow these layers from the bottom to the top.

  \<^bold>\<open>Conventions.\<close> A C++ class is a record, an enumeration a datatype, an integer a word of its
  width, so that wrap-around is that of the code; plain \<open>int\<close> counters that are only incremented are
  unbounded. Code that may stop at a failed \<open>assert\<close>, read outside of an array or dereference a null
  or dangling pointer returns an option, and \<open>None\<close> is that failure; errors that the code reports are
  values (status codes, result enumerations, messages sent). Objects that several owners share live in
  a heap from addresses to objects. Loops without an evident bound are \<open>partial_function (option)\<close>, so
  that not returning is \<open>None\<close> too, and the theorems that use them show that they return; there is
  no fuel. Logging is left out. A handler returns its messages as a list, in the order sent.

  \<^bold>\<open>Theories and sources.\<close>

  \<^item> \<open>Prelude\<close>: word and bit list lemmas, the option monad, lists with updates.
  \<^item> \<open>Buffer\<close>, \<open>BitStream\<close>: \<^verbatim>\<open>Components/Buffer.{h,cpp}\<close> and \<^verbatim>\<open>Components/BitStream.{h,cpp}\<close>, every
    operation. \<open>Bit_Fifo\<close> is the contract of the layer, two locales for a sink and a source of bits;
    \<open>BitStream_Correct\<close> interprets them on the code: the stream implements a queue of bits.
    \<open>BitStream_Strings\<close> and \<open>BitStream_Messages\<close> extend this to strings and to any sequence of fields;
    \<open>BitStream_Properties\<close> has the round trip of messages and the refinements.
  \<^item> \<open>Crudp_Packet\<close>, \<open>Crudp_Protocol\<close>, \<open>Crudp_Link\<close>: \<^verbatim>\<open>Common/CRUDP_Protocol\<close>. Packets, the protocol
    engine (sequence numbers, acknowledgements, splitting into siblings and merging them,
    retransmission), and the link that feeds events into it. \<open>Crudp_Acks\<close>, \<open>Crudp_Wire\<close>: what is
    written on the wire is read back. \<open>Crudp_Siblings\<close>: split packets are merged in any order of arrival.
  \<^item> \<open>Auth_Codec\<close>, \<open>Auth_Events\<close>, \<open>Auth_Link\<close>: \<^verbatim>\<open>Common/AuthProtocol\<close> and \<^verbatim>\<open>Common/Messages/Auth\<close>: the
    variant of DES, the two chains of exclusive ors, the events and their bytes, and the link with its
    automaton. \<open>Auth_Codec_Correct\<close>, \<open>Auth_Link_Correct\<close>: decryption undoes encryption, and each side
    reads what the other wrote, as far as its opcode table knows it. \<open>Auth_Handler\<close>:
    \<^verbatim>\<open>Servers/AuthServer/AuthHandler.cpp\<close>, the login service; \<open>Auth_Safety\<close>: the history that must precede
    every disclosure of game servers; \<open>Auth_Lockout\<close>: the invariant of an account that stays locked.
  \<^item> \<open>Session_Store\<close>, \<open>Game_Handler\<close>: \<^verbatim>\<open>Common/Servers/ClientManager.{h,cpp}\<close> and
    \<^verbatim>\<open>Servers/GameServer/GameHandler.cpp\<close>; \<open>Session_Invariant\<close>, \<open>Game_Invariant\<close>: the invariant of the
    registry of sessions and its preservation by every message and timer.
  \<^item> \<open>Team_Model\<close>, \<open>Team_Handler\<close>: \<^verbatim>\<open>Common/GameData/Team.{h,cpp}\<close> and
    \<^verbatim>\<open>Servers/GameServer/TeamService\<close>; \<open>Team_Groups\<close> is the abstract specification, groups of players with
    open invitations and a leader and what each message does to them, \<open>Team_Invariant\<close> the invariant, and \<open>Team_Properties\<close> the refinement.
  \<^item> \<open>Friend_Handler\<close>, \<open>Email_Handler\<close>: \<^verbatim>\<open>Common/GameData/Friend.cpp\<close>,
    \<^verbatim>\<open>Servers/GameServer/FriendshipService\<close> and \<^verbatim>\<open>EmailService\<close>, over \<open>Eastl_Set\<close> and \<open>Ordered_Map\<close>, the two
    containers they use (\<open>Eastl_Set\<close> keeps the comparison the code passes, which is not an order).
    \<open>Handler_Locator\<close>: \<^verbatim>\<open>Common/Servers/HandlerLocator.cpp\<close>, the registry of services.
  \<^item> \<open>Power_Model\<close>, \<open>Power_Sets\<close>: \<^verbatim>\<open>Common/GameData/Powers.{h,cpp}\<close> and the requests of
    \<^verbatim>\<open>MapInstance.cpp\<close> that change powers, enhancements and inspirations. \<open>Power_Correct\<close>, \<open>Power_Requests\<close>:
    every request that is handled keeps the character well formed, and one is handled exactly when what it
    names exists.
  \<^item> \<open>Trade_Model\<close>, \<open>Trade_Handler\<close>: \<^verbatim>\<open>Common/GameData/Trade.{h,cpp}\<close>, the trade commands, messages and
    the trade window. \<open>Trade_Correct\<close>, \<open>Trade_Exchange\<close>: what changes hands, as multisets of
    what the offers name before the trade;
    \<open>Trade_Safety\<close>: trades as a transition system in which any other part of the server may change the
    characters in between.
  \<^item> \<open>Cox_Hash\<close>: \<^verbatim>\<open>Common/GameData/CoXHash.{h,cpp}\<close>, the hash maps of the client. \<open>Cox_Hash_Correct\<close>
    states what their search shares as a locale, \<open>Cox_Hash_Update\<close> proves insertion and growing in it,
    \<open>Cox_Hash_Maps\<close> interprets it on both maps. \<open>Costume_Packer\<close>: the packers of
    \<^verbatim>\<open>GameDataStore.cpp\<close> and \<^verbatim>\<open>Costume.cpp\<close>. \<open>Serializers\<close> composes serializers from fields, so that
    \<open>Costume_Correct\<close> and \<open>Costume_Roundtrip\<close> are compositions.
  \<^item> \<open>Event_Bus\<close>: \<^verbatim>\<open>Components/SEGSEvent.h\<close>, \<^verbatim>\<open>EventProcessor.cpp\<close>, \<^verbatim>\<open>SEGSTimer.cpp\<close> and
    \<^verbatim>\<open>Common/Servers/MessageBus*.cpp\<close>. \<open>Event_Bus_Refs\<close>, \<open>Event_Bus_Correct\<close> and \<open>Event_Bus_Runs\<close>: reference
    counts, subscriptions and the assertion of the bus, by one rule per operation;
    \<open>Event_Bus_Growth\<close>, \<open>Event_Bus_Delivery\<close> and \<open>Event_Bus_Liveness\<close>: turns do not fail, and what is
    published is delivered.
  \<^item> \<open>Handle_Store\<close>: \<^verbatim>\<open>Common/Runtime/Handle.h\<close> and \<^verbatim>\<open>HandleBasedStorage.h\<close>, objects packed in an array
    behind generation counted handles; \<open>Handle_Store_Correct\<close>: they implement a finite map.

  Theories named \<open>_Properties\<close> hold the properties of the part and their concrete instances.

  \<^bold>\<open>How the parts meet.\<close> Packets of \<open>Crudp_Packet\<close> and the messages of \<open>Trade_Handler\<close> and
  \<open>Costume_Packer\<close> are written into the streams of \<open>BitStream\<close>; their proofs use the contract
  \<open>Bit_Fifo\<close> and not the code of the stream. \<open>Auth_Link\<close> and \<open>Crudp_Link\<close> turn bytes into the
  events that \<open>Auth_Handler\<close> and \<open>Game_Handler\<close> handle. These two share the registry of
  \<open>Session_Store\<close>. Trades move the enhancements and inspirations of \<open>Power_Model\<close>. Services run in
  the turns of \<open>Event_Bus\<close>, whose argument \<open>handlers\<close> stands for what a service does in a turn.

  \<^bold>\<open>Parameters.\<close> ACE (sockets, timer queue, message queues), the databases, cereal, EASTL containers
  other than those named, and the data files of the game are not in the sources; what a component
  needs of them is an argument of its definitions. Databases appear as the services that answer
  messages.

  \<^bold>\<open>Concurrency.\<close> A handler runs to its end before the next one of the same service. Runs interleave the
  turns of all services in any order; data races inside a turn are not modelled.

  \<^bold>\<open>Not modelled.\<close> The simulation of the world (movement, physics, the interpolation of states, floating
  point throughout), the parts of the map server that only assemble messages from it, the scripting
  engine, the scene graph and other graphics code, the parsers of the data files of the client, the
  database back ends (SQL through Qt), administration over RPC, the settings, and the tools, viewers and
  the editor. They are input and output, floating point, or code of third parties around little logic
  of their own.
\<close>

end
